(* ===== verification/Prelude.thy ===== *)
theory Prelude
  imports Main "HOL-Library.Word" "HOL-Library.Log_Nat"
begin

text \<open>
  Shared vocabulary of the development: results of fallible Go functions as sums, byte
  strings and their fixed-width big- and little-endian images, and association lists that
  stand for Go maps whose iteration order the code never observes.
\<close>

named_theorems result_simps \<open>evaluation rules for the result monad\<close>
named_theorems byte_simps \<open>lengths and inverses of the fixed-width byte codings\<close>

section \<open>Results\<close>

type_synonym byte = "8 word"
type_synonym bytes = "byte list"

text \<open>
  A Go function that returns \<open>(value, error)\<close> is a function into a sum: \<open>Inl\<close> carries the
  error and \<open>Inr\<close> the value.  \<open>bindR\<close> is the early return \<open>if err != nil { return err }\<close>.
\<close>

definition bindR :: "'e + 'a \<Rightarrow> ('a \<Rightarrow> 'e + 'b) \<Rightarrow> 'e + 'b" where
  "bindR r f = (case r of Inl e \<Rightarrow> Inl e | Inr x \<Rightarrow> f x)"

lemma bindR_Inl [simp, result_simps]: "bindR (Inl e) f = Inl e"
  by (simp add: bindR_def)

lemma bindR_Inr [simp, result_simps]: "bindR (Inr x) f = f x"
  by (simp add: bindR_def)

lemma bindR_eq_Inr_iff [result_simps]:
  "bindR r f = Inr y \<longleftrightarrow> (\<exists>x. r = Inr x \<and> f x = Inr y)"
  by (cases r) auto

lemma bindR_eq_Inl_iff [result_simps]:
  "bindR r f = Inl e \<longleftrightarrow> r = Inl e \<or> (\<exists>x. r = Inr x \<and> f x = Inl e)"
  by (cases r) auto

lemma bindR_cong [fundef_cong]:
  "r = r' \<Longrightarrow> (\<And>x. r' = Inr x \<Longrightarrow> f x = g x) \<Longrightarrow> bindR r f = bindR r' g"
  by (cases r') auto

section \<open>Names of the services\<close>

text \<open>A federation's name, a federate's handle, and the largest unsigned 64-bit value.\<close>

type_synonym fed_name = string
type_synonym handle = nat

definition MaxUint64 :: nat where "MaxUint64 = 2 ^ 64 - 1"

section \<open>Fixed-width byte images\<close>

lemma unat_bound: "unat (w :: 'a::len word) < 2 ^ LENGTH('a)"
  by (rule unsigned_less)

lemma unat_word_of_nat: "n < 2 ^ LENGTH('a) \<Longrightarrow> unat (word_of_nat n :: 'a::len word) = n"
  by (simp add: unat_of_nat)

text \<open>
  \<open>le_bytes k n\<close> is what \<open>binary.LittleEndian.PutUint\<close> stores for the low \<open>8 * k\<close> bits of
  \<open>n\<close>; \<open>be_bytes\<close> is its big-endian mirror; \<open>le_val\<close> and \<open>be_val\<close> read them back.
\<close>

fun le_bytes :: "nat \<Rightarrow> nat \<Rightarrow> bytes" where
  "le_bytes 0 n = []"
| "le_bytes (Suc k) n = word_of_nat (n mod 256) # le_bytes k (n div 256)"

fun le_val :: "bytes \<Rightarrow> nat" where
  "le_val [] = 0"
| "le_val (b # bs) = unat b + 256 * le_val bs"

definition be_bytes :: "nat \<Rightarrow> nat \<Rightarrow> bytes" where
  "be_bytes k n = rev (le_bytes k n)"

definition be_val :: "bytes \<Rightarrow> nat" where
  "be_val bs = le_val (rev bs)"

lemma length_le_bytes [simp, byte_simps]: "length (le_bytes k n) = k"
  by (induction k arbitrary: n) auto

lemma length_be_bytes [simp, byte_simps]: "length (be_bytes k n) = k"
  by (simp add: be_bytes_def)

lemma unat_byte_of_nat_mod [simp]: "unat (word_of_nat (n mod 256) :: byte) = n mod 256"
  by (simp add: unat_of_nat)

lemma le_val_le_bytes [byte_simps]: "le_val (le_bytes k n) = n mod 256 ^ k"
proof (induction k arbitrary: n)
  case 0
  then show ?case by simp
next
  case (Suc k)
  have "n mod (256 * 256 ^ k) = 256 * (n div 256 mod 256 ^ k) + n mod 256"
    by (rule mod_mult2_eq)
  with Suc show ?case by (simp add: unat_of_nat)
qed

lemma be_val_be_bytes [byte_simps]: "be_val (be_bytes k n) = n mod 256 ^ k"
  by (simp add: be_val_def be_bytes_def le_val_le_bytes)

lemma le_val_bound: "le_val bs < 256 ^ length bs"
proof (induction bs)
  case Nil
  then show ?case by simp
next
  case (Cons b bs)
  have "unat b < 256"
    using unat_bound [of b] by simp
  with Cons show ?case by simp
qed

lemma be_val_bound: "be_val bs < 256 ^ length bs"
  using le_val_bound [of "rev bs"] by (simp add: be_val_def)

lemma le_bytes_le_val [byte_simps]: "le_bytes (length bs) (le_val bs) = bs"
proof (induction bs)
  case Nil
  then show ?case by simp
next
  case (Cons b bs)
  have b: "unat b < 256"
    using unat_bound [of b] by simp
  then have "(unat b + 256 * le_val bs) div 256 = le_val bs"
    by simp
  moreover have "word_of_nat ((unat b + 256 * le_val bs) mod 256) = b"
    using b by simp
  ultimately show ?case using Cons by simp
qed

lemma be_bytes_be_val [byte_simps]: "be_bytes (length bs) (be_val bs) = bs"
  using le_bytes_le_val [of "rev bs"] by (simp add: be_bytes_def be_val_def)

section \<open>Signed words\<close>

lemma sint_of_int_fits:
  assumes "- (2 ^ (LENGTH('b) - 1)) \<le> i" and "i < 2 ^ (LENGTH('b) - 1)"
  shows "sint (word_of_int i :: 'b::len word) = i"
proof -
  have "(2 :: int) ^ LENGTH('b) = 2 * 2 ^ (LENGTH('b) - 1)"
    by (metis len_gt_0 Suc_diff_1 power_Suc)
  then have "(i + 2 ^ (LENGTH('b) - 1)) mod 2 ^ LENGTH('b) = i + 2 ^ (LENGTH('b) - 1)"
    using assms by (intro mod_pos_pos_trivial) auto
  then show ?thesis by (simp add: int_word_sint)
qed

lemma sint_bounds: "- (2 ^ (LENGTH('a) - 1)) \<le> sint (x :: 'a::len word)" "sint x < 2 ^ (LENGTH('a) - 1)"
  using sint_range_size [of x] by (simp_all add: word_size)

section \<open>Association lists as Go maps\<close>

text \<open>
  A Go map is an association list with distinct keys; \<open>put\<close> is \<open>m[k] = v\<close>: it replaces the
  binding of a present key in place and adds a new one at the end.
\<close>

fun put :: "'k \<Rightarrow> 'v \<Rightarrow> ('k \<times> 'v) list \<Rightarrow> ('k \<times> 'v) list" where
  "put k v [] = [(k, v)]"
| "put k v ((k', v') # m) = (if k = k' then (k, v) # m else (k', v') # put k v m)"

definition del :: "'k \<Rightarrow> ('k \<times> 'v) list \<Rightarrow> ('k \<times> 'v) list" where
  "del k m = filter (\<lambda>(k', _). k' \<noteq> k) m"

lemma map_of_put [simp]: "map_of (put k v m) = (map_of m)(k \<mapsto> v)"
  by (induction k v m rule: put.induct) auto

lemma map_of_del [simp]: "map_of (del k m) = (map_of m)(k := None)"
  by (induction m) (auto simp: del_def)

lemma keys_put: "fst ` set (put k v m) = insert k (fst ` set m)"
  by (induction k v m rule: put.induct) auto

lemma distinct_put [simp]: "distinct (map fst m) \<Longrightarrow> distinct (map fst (put k v m))"
proof (induction k v m rule: put.induct)
  case (2 k v k' v' m)
  then show ?case using keys_put [of k v m] by auto
qed simp

lemma distinct_del [simp]: "distinct (map fst m) \<Longrightarrow> distinct (map fst (del k m))"
  by (induction m) (auto simp: del_def)

lemma put_absent: "k \<notin> fst ` set m \<Longrightarrow> put k v m = m @ [(k, v)]"
  by (induction k v m rule: put.induct) auto

end
