(* ===== verification/Go_Float.thy ===== *)
theory Go_Float
  imports Prelude
begin

text \<open>
  The IEEE 754 binary floating-point values of Go, on their bit patterns.  A binary format
  with \<open>t\<close> fraction bits stores a non-negative finite value as the number \<open>b\<close> whose low
  \<open>t\<close> bits are the fraction and whose higher bits are the biased exponent.  Measured in
  units of the least subnormal, every such value is a natural number (\<open>fl_mag\<close>), so
  addition and conversion are exact integer operations followed by one rounding to nearest,
  ties to even (\<open>fl_enc\<close>).  Nothing here models code of the repository: it is the part of
  the language that the logical-time and encoding packages compute with.
\<close>

section \<open>Magnitudes\<close>

definition fl_mag :: "nat \<Rightarrow> nat \<Rightarrow> nat" where
  "fl_mag t b = (let e = b div 2 ^ t; m = b mod 2 ^ t
                 in if e = 0 then m else (2 ^ t + m) * 2 ^ (e - 1))"

text \<open>Round \<open>n / 2 ^ k\<close> to the nearest integer, ties to even.\<close>

definition rne :: "nat \<Rightarrow> nat \<Rightarrow> nat" where
  "rne n k = (let q = n div 2 ^ k; r = n mod 2 ^ k
              in if 2 * r > 2 ^ k \<or> (2 * r = 2 ^ k \<and> odd q) then q + 1 else q)"

text \<open>
  The bit pattern nearest to \<open>n / 2 ^ d\<close> units: \<open>d\<close> is non-zero when a wider format is
  narrowed.  A pattern at or above the exponent of infinity is an overflow.
\<close>

definition fl_shift :: "nat \<Rightarrow> nat \<Rightarrow> nat \<Rightarrow> nat" where
  "fl_shift t d n = floorlog 2 n - (d + t + 1)"

definition fl_enc :: "nat \<Rightarrow> nat \<Rightarrow> nat \<Rightarrow> nat" where
  "fl_enc t d n = (let k = fl_shift t d n in k * 2 ^ t + rne n (d + k))"

lemma fl_mag_encode:
  assumes "k = 0 \<or> 2 ^ t \<le> q" and "q \<le> 2 ^ (t + 1)"
  shows "fl_mag t (k * 2 ^ t + q) = q * 2 ^ k"
proof -
  consider (sub) "k = 0" "q < 2 ^ t" | (norm) "2 ^ t \<le> q" "q < 2 ^ (t + 1)" | (carry) "q = 2 ^ (t + 1)"
    using assms by linarith
  then show ?thesis
  proof cases
    case sub
    then show ?thesis by (simp add: fl_mag_def)
  next
    case norm
    then obtain m where m: "q = 2 ^ t + m" "m < 2 ^ t"
      by (metis le_Suc_ex add_less_cancel_left mult_2 power_Suc Suc_eq_plus1)
    have eq: "k * 2 ^ t + q = (k + 1) * 2 ^ t + m" by (simp add: m)
    have "(k * 2 ^ t + q) div 2 ^ t = k + 1" "(k * 2 ^ t + q) mod 2 ^ t = m"
      unfolding eq using m(2) by (simp_all only: div_mult_self3 mod_mult_self3) simp_all
    then show ?thesis by (simp add: fl_mag_def m(1))
  next
    case carry
    have eq: "k * 2 ^ t + q = (k + 2) * 2 ^ t" by (simp add: carry)
    have "(k * 2 ^ t + q) div 2 ^ t = k + 2" "(k * 2 ^ t + q) mod 2 ^ t = 0"
      unfolding eq by simp_all
    then show ?thesis by (simp add: fl_mag_def carry)
  qed
qed

lemma fl_pattern_cases:
  fixes b :: nat
  obtains k q where "b = k * 2 ^ t + q" "k = 0 \<or> 2 ^ t \<le> q" "q < 2 ^ (t + 1)"
proof (cases "b < 2 ^ t")
  case True
  then show ?thesis using that [of 0 b] by simp
next
  case False
  define e where "e = b div 2 ^ t"
  define m where "m = b mod 2 ^ t"
  have "e \<noteq> 0" using False by (simp add: e_def div_eq_0_iff)
  then obtain k where k: "e = Suc k" by (cases e) auto
  have "b = e * 2 ^ t + m" unfolding e_def m_def by (rule div_mult_mod_eq [symmetric])
  then have "b = k * 2 ^ t + (2 ^ t + m)" by (simp add: k)
  moreover have "m < 2 ^ t" by (simp add: m_def)
  ultimately show ?thesis using that [of k "2 ^ t + m"] by simp
qed

lemma fl_mag_Suc: "fl_mag t b < fl_mag t (Suc b)"
proof -
  obtain k q where b: "b = k * 2 ^ t + q" and kq: "k = 0 \<or> 2 ^ t \<le> q" "q < 2 ^ (t + 1)"
    by (rule fl_pattern_cases)
  have "fl_mag t b = q * 2 ^ k"
    unfolding b using kq by (intro fl_mag_encode) auto
  moreover have "fl_mag t (Suc b) = Suc q * 2 ^ k"
  proof -
    have "fl_mag t (k * 2 ^ t + Suc q) = Suc q * 2 ^ k"
      using kq by (intro fl_mag_encode) auto
    then show ?thesis by (simp add: b)
  qed
  ultimately show ?thesis by simp
qed

lemma fl_mag_strict_mono: "a < b \<Longrightarrow> fl_mag t a < fl_mag t b"
  using lift_Suc_mono_less [of "fl_mag t"] fl_mag_Suc by blast

lemma fl_mag_less_iff [simp]: "fl_mag t a < fl_mag t b \<longleftrightarrow> a < b"
  by (metis fl_mag_strict_mono less_asym linorder_neqE_nat)

lemma fl_mag_le_iff [simp]: "fl_mag t a \<le> fl_mag t b \<longleftrightarrow> a \<le> b"
  by (metis fl_mag_less_iff not_less)

lemma fl_mag_eq_iff [simp]: "fl_mag t a = fl_mag t b \<longleftrightarrow> a = b"
  by (metis fl_mag_le_iff eq_iff)

lemma fl_mag_0 [simp]: "fl_mag t 0 = 0"
  by (simp add: fl_mag_def)

lemma fl_mag_eq_0_iff [simp]: "fl_mag t b = 0 \<longleftrightarrow> b = 0"
  using fl_mag_eq_iff [of t b 0] by simp

lemma fl_mag_pos_iff [simp]: "0 < fl_mag t b \<longleftrightarrow> 0 < b"
  using fl_mag_less_iff [of t 0 b] by simp

section \<open>Rounding\<close>

lemma rne_ge: "n div 2 ^ k \<le> rne n k"
  by (simp add: rne_def Let_def)

lemma rne_le: "rne n k \<le> n div 2 ^ k + 1"
  by (simp add: rne_def Let_def)

lemma rne_exact [simp]: "rne (m * 2 ^ k) k = m"
  by (simp add: rne_def Let_def)

lemma rne_scale: "rne (n * 2 ^ d) (d + k) = rne n k"
proof -
  have "n * 2 ^ d div 2 ^ (d + k) = n div 2 ^ k"
    by (simp add: power_add div_mult2_eq mult.commute)
  moreover have "n * 2 ^ d mod 2 ^ (d + k) = n mod 2 ^ k * 2 ^ d"
    by (metis mod_mult_mult1 mult.commute power_add)
  ultimately show ?thesis
    by (simp add: rne_def Let_def power_add mult.left_commute [of 2] mult.commute [of "2 ^ d"])
qed

lemma fl_shift_scale: "0 < n \<Longrightarrow> fl_shift t d (n * 2 ^ d) = fl_shift t 0 n"
  by (simp add: fl_shift_def)

lemma fl_enc_scale: "fl_enc t d (n * 2 ^ d) = fl_enc t 0 n"
proof (cases "n = 0")
  case True
  then show ?thesis by (simp add: fl_enc_def fl_shift_def floorlog_def rne_def)
next
  case False
  then show ?thesis by (simp add: fl_enc_def Let_def fl_shift_scale rne_scale)
qed

text \<open>The quotient kept by the encoding has \<open>t + 1\<close> significant bits once it is normal.\<close>

lemma fl_quotient_bounds:
  fixes n t :: nat
  defines "k \<equiv> fl_shift t 0 n"
  shows "n div 2 ^ k < 2 ^ (t + 1)" and "k = 0 \<or> 2 ^ t \<le> n div 2 ^ k"
proof -
  show "n div 2 ^ k < 2 ^ (t + 1)"
  proof (cases "n = 0")
    case False
    have "n < 2 ^ floorlog 2 n" using floorlog_bounds [of n 2] False by simp
    also have "\<dots> \<le> 2 ^ (t + 1 + k)"
      by (intro power_increasing) (auto simp: k_def fl_shift_def)
    finally show ?thesis by (simp add: less_mult_imp_div_less power_add)
  qed simp
  show "k = 0 \<or> 2 ^ t \<le> n div 2 ^ k"
  proof (cases "k = 0")
    case False
    then have L: "floorlog 2 n - 1 = t + k" by (simp add: k_def fl_shift_def)
    have "0 < n" using False by (auto simp: k_def fl_shift_def floorlog_def split: if_splits)
    then have "2 ^ (t + k) \<le> n" using floorlog_bounds [of n 2] L by simp
    then show ?thesis by (simp add: less_eq_div_iff_mult_less_eq power_add)
  qed simp
qed

lemma fl_enc_mag [simp]: "fl_enc t 0 (fl_mag t b) = b"
proof -
  obtain k q where b: "b = k * 2 ^ t + q" and kq: "k = 0 \<or> 2 ^ t \<le> q" "q < 2 ^ (t + 1)"
    by (rule fl_pattern_cases)
  have mag: "fl_mag t b = q * 2 ^ k"
    unfolding b using kq by (intro fl_mag_encode) auto
  have "fl_shift t 0 (q * 2 ^ k) = k"
  proof (cases "q = 0")
    case True
    then show ?thesis using kq by (simp add: fl_shift_def floorlog_def)
  next
    case False
    have up: "floorlog 2 q \<le> t + 1" using kq(2) by (intro floorlog_leI) auto
    have low: "t + 1 \<le> floorlog 2 q" if "2 ^ t \<le> q"
      using that by (intro floorlog_geI) auto
    show ?thesis using False kq(1) up low by (auto simp: fl_shift_def)
  qed
  then have "fl_enc t 0 (q * 2 ^ k) = k * 2 ^ t + q" by (simp add: fl_enc_def)
  then show ?thesis by (simp add: mag flip: b)
qed

lemma fl_enc_ge:
  assumes "fl_mag t b \<le> n"
  shows "b \<le> fl_enc t 0 n"
proof -
  define k where "k = fl_shift t 0 n"
  define q where "q = n div 2 ^ k"
  have q: "q < 2 ^ (t + 1)" "k = 0 \<or> 2 ^ t \<le> q"
    using fl_quotient_bounds [where n = n and t = t] by (simp_all add: k_def q_def)
  have "n < (q + 1) * 2 ^ k"
    unfolding q_def using dividend_less_div_times [of "2 ^ k" n] by simp
  also have "\<dots> = fl_mag t (k * 2 ^ t + (q + 1))"
    using q by (intro fl_mag_encode [symmetric]) auto
  finally have "fl_mag t b < fl_mag t (k * 2 ^ t + (q + 1))" using assms by (rule order.strict_trans1 [rotated])
  then have "b \<le> k * 2 ^ t + q" by simp
  also have "\<dots> \<le> fl_enc t 0 n"
    using rne_ge [of n k] by (simp add: fl_enc_def Let_def k_def q_def)
  finally show ?thesis .
qed

lemma fl_enc_le:
  assumes "n \<le> fl_mag t b"
  shows "fl_enc t 0 n \<le> b"
proof (rule ccontr)
  assume "\<not> fl_enc t 0 n \<le> b"
  then have b: "b < fl_enc t 0 n" by simp
  define k where "k = fl_shift t 0 n"
  define q where "q = n div 2 ^ k"
  have q: "q < 2 ^ (t + 1)" "k = 0 \<or> 2 ^ t \<le> q"
    using fl_quotient_bounds [where n = n and t = t] by (simp_all add: k_def q_def)
  have enc: "fl_enc t 0 n = k * 2 ^ t + rne n k" by (simp add: fl_enc_def Let_def k_def)
  have "fl_mag t (k * 2 ^ t + q) = q * 2 ^ k" using q by (intro fl_mag_encode) auto
  also have "\<dots> \<le> n" by (simp add: q_def)
  finally have "fl_mag t (k * 2 ^ t + q) \<le> fl_mag t b" using assms by (rule order.trans)
  then have "k * 2 ^ t + q \<le> b" by simp
  with b enc rne_le [of n k] have *: "b = k * 2 ^ t + q" "rne n k = q + 1"
    by (auto simp: q_def)
  then have "n \<le> q * 2 ^ k" using assms q by (simp add: fl_mag_encode)
  then have "n mod 2 ^ k = 0"
    unfolding q_def by (metis div_times_less_eq_dividend le_antisym mod_mult_self2_is_0 mult.commute)
  then have "rne n k = q" by (simp add: rne_def Let_def q_def)
  with *(2) show False by simp
qed

text \<open>A value with at most \<open>t + 1\<close> significant bits survives the encoding unchanged.\<close>

lemma fl_mag_enc_exact:
  assumes "m < 2 ^ (t + 1)"
  shows "fl_mag t (fl_enc t 0 (m * 2 ^ j)) = m * 2 ^ j"
proof (cases "m = 0")
  case True
  then show ?thesis by (simp add: fl_enc_def fl_shift_def floorlog_def rne_def)
next
  case False
  define n where "n = m * 2 ^ j"
  define k where "k = fl_shift t 0 n"
  have "floorlog 2 m \<le> t + 1" using assms by (intro floorlog_leI) auto
  then have "k \<le> j" using False by (simp add: k_def n_def fl_shift_def)
  then obtain i where i: "j = k + i" using le_Suc_ex by blast
  have n: "n = (m * 2 ^ i) * 2 ^ k" by (simp add: n_def i power_add)
  have r: "rne n k = m * 2 ^ i" unfolding n by (rule rne_exact)
  have "n div 2 ^ k = m * 2 ^ i" by (simp add: n)
  then have "m * 2 ^ i < 2 ^ (t + 1)" "k = 0 \<or> 2 ^ t \<le> m * 2 ^ i"
    using fl_quotient_bounds [where n = n and t = t] by (simp_all add: k_def)
  then have "fl_mag t (k * 2 ^ t + m * 2 ^ i) = m * 2 ^ i * 2 ^ k"
    by (intro fl_mag_encode) auto
  then show ?thesis
    by (simp add: fl_enc_def Let_def r flip: k_def n_def) (simp add: n)
qed

section \<open>The type float64\<close>

type_synonym f64 = "64 word"

definition f64_sign :: "f64 \<Rightarrow> bool" where
  "f64_sign x \<longleftrightarrow> 2 ^ 63 \<le> unat x"

definition f64_abs :: "f64 \<Rightarrow> nat" where
  "f64_abs x = unat x mod 2 ^ 63"

abbreviation f64_inf_pattern :: nat where
  "f64_inf_pattern \<equiv> 2047 * 2 ^ 52"

definition f64_isNaN :: "f64 \<Rightarrow> bool" where
  "f64_isNaN x \<longleftrightarrow> f64_inf_pattern < f64_abs x"

definition f64_isInf :: "f64 \<Rightarrow> bool" where
  "f64_isInf x \<longleftrightarrow> f64_abs x = f64_inf_pattern"

text \<open>The value in units of the least subnormal; infinities are beyond every finite value.\<close>

definition f64_int :: "f64 \<Rightarrow> int" where
  "f64_int x = (if f64_sign x then - int (fl_mag 52 (f64_abs x)) else int (fl_mag 52 (f64_abs x)))"

definition f64_lt :: "f64 \<Rightarrow> f64 \<Rightarrow> bool" where
  "f64_lt x y \<longleftrightarrow> \<not> f64_isNaN x \<and> \<not> f64_isNaN y \<and> f64_int x < f64_int y"

definition f64_eq :: "f64 \<Rightarrow> f64 \<Rightarrow> bool" where
  "f64_eq x y \<longleftrightarrow> \<not> f64_isNaN x \<and> \<not> f64_isNaN y \<and> f64_int x = f64_int y"

definition f64_make :: "bool \<Rightarrow> nat \<Rightarrow> f64" where
  "f64_make s b = word_of_nat ((if s then 2 ^ 63 else 0) + min b f64_inf_pattern)"

definition f64_NaN :: f64 where "f64_NaN = 0x7FF8000000000001"
definition f64_PosInf :: f64 where "f64_PosInf = 0x7FF0000000000000"
definition f64_NegInf :: f64 where "f64_NegInf = 0xFFF0000000000000"

definition f64_add :: "f64 \<Rightarrow> f64 \<Rightarrow> f64" where
  "f64_add x y =
     (if f64_isNaN x \<or> f64_isNaN y then f64_NaN
      else if f64_isInf x then (if f64_isInf y \<and> f64_sign x \<noteq> f64_sign y then f64_NaN else x)
      else if f64_isInf y then y
      else let s = f64_int x + f64_int y in
        if s = 0 then (if f64_sign x \<and> f64_sign y then 0x8000000000000000 else 0)
        else f64_make (s < 0) (fl_enc 52 0 (nat \<bar>s\<bar>)))"

definition f64_sub :: "f64 \<Rightarrow> f64 \<Rightarrow> f64" where
  "f64_sub x y = f64_add x (y + 0x8000000000000000)"

text \<open>\<open>math.Nextafter\<close>, case by case as in the standard library.\<close>

definition f64_nextafter :: "f64 \<Rightarrow> f64 \<Rightarrow> f64" where
  "f64_nextafter x y =
     (if f64_isNaN x \<or> f64_isNaN y then f64_NaN
      else if f64_eq x y then x
      else if f64_eq x 0 then (if f64_sign y then 0x8000000000000001 else 1)
      else if f64_lt x y = f64_lt 0 x then x + 1
      else x - 1)"

subsection \<open>Non-negative finite values\<close>

text \<open>
  On the finite values without sign bit the bit pattern and the value have the same order,
  which is what \<open>logicaltime.compare\<close> relies on.
\<close>

definition f64_fin_nonneg :: "f64 \<Rightarrow> bool" where
  "f64_fin_nonneg x \<longleftrightarrow> unat x < f64_inf_pattern"

lemma f64_fin_nonneg_simps:
  assumes "f64_fin_nonneg x"
  shows "\<not> f64_sign x" "f64_abs x = unat x" "\<not> f64_isNaN x" "\<not> f64_isInf x"
    "f64_int x = int (fl_mag 52 (unat x))"
  using assms
  by (simp_all add: f64_fin_nonneg_def f64_sign_def f64_abs_def f64_isNaN_def f64_isInf_def f64_int_def)

lemma f64_int_0 [simp]: "f64_int 0 = 0"
  by (simp add: f64_int_def f64_abs_def)

lemma f64_isNaN_0 [simp]: "\<not> f64_isNaN 0"
  by (simp add: f64_isNaN_def f64_abs_def)

lemma f64_PosInf_facts [simp]:
  "\<not> f64_isNaN f64_PosInf" "f64_isInf f64_PosInf" "\<not> f64_sign f64_PosInf"
  by (simp_all add: f64_PosInf_def f64_isNaN_def f64_isInf_def f64_sign_def f64_abs_def)

lemma f64_NegInf_facts [simp]:
  "\<not> f64_isNaN f64_NegInf" "f64_isInf f64_NegInf" "f64_sign f64_NegInf"
  by (simp_all add: f64_NegInf_def f64_isNaN_def f64_isInf_def f64_sign_def f64_abs_def)

lemma unat_f64_make:
  "unat (f64_make False b) = min b f64_inf_pattern"
proof -
  have "min b f64_inf_pattern < 2 ^ 64"
    by (rule order.strict_trans1 [of _ f64_inf_pattern]) simp_all
  then show ?thesis by (simp add: f64_make_def unat_of_nat)
qed

lemma f64_add_fin_nonneg:
  assumes "f64_fin_nonneg x" and "f64_fin_nonneg y"
  shows "unat (f64_add x y) = min (fl_enc 52 0 (fl_mag 52 (unat x) + fl_mag 52 (unat y))) f64_inf_pattern"
proof -
  note S = f64_fin_nonneg_simps [OF assms(1)] f64_fin_nonneg_simps [OF assms(2)]
  show ?thesis
  proof (cases "fl_mag 52 (unat x) + fl_mag 52 (unat y) = 0")
    case True
    then show ?thesis by (simp add: f64_add_def S fl_enc_def fl_shift_def floorlog_def rne_def)
  next
    case False
    let ?s = "fl_mag 52 (unat x) + fl_mag 52 (unat y)"
    have sum: "f64_int x + f64_int y = int ?s" by (simp add: S)
    have "f64_add x y = f64_make False (fl_enc 52 0 ?s)"
      unfolding f64_add_def sum Let_def using False S by (auto simp del: of_nat_add)
    then show ?thesis by (simp add: unat_f64_make)
  qed
qed

lemma f64_sub_fin_nonneg:
  assumes "f64_fin_nonneg x" and "f64_fin_nonneg y" and "unat y \<le> unat x"
  shows "unat (f64_sub x y) = fl_enc 52 0 (fl_mag 52 (unat x) - fl_mag 52 (unat y))"
    and "unat (f64_sub x y) \<le> unat x"
proof -
  note S = f64_fin_nonneg_simps [OF assms(1)]
  have uy: "unat y < f64_inf_pattern" "unat x < f64_inf_pattern"
    using assms(1,2) by (auto simp: f64_fin_nonneg_def)
  have flip: "unat (y + 0x8000000000000000) = unat y + 2 ^ 63"
    using uy by (simp add: unat_word_ariths)
  have Y: "f64_sign (y + 0x8000000000000000)" "f64_abs (y + 0x8000000000000000) = unat y"
    "\<not> f64_isNaN (y + 0x8000000000000000)" "\<not> f64_isInf (y + 0x8000000000000000)"
    "f64_int (y + 0x8000000000000000) = - int (fl_mag 52 (unat y))"
    using uy by (simp_all add: f64_sign_def f64_abs_def f64_isNaN_def f64_isInf_def f64_int_def flip)
  have le: "fl_mag 52 (unat y) \<le> fl_mag 52 (unat x)" using assms(3) by simp
  let ?d = "fl_mag 52 (unat x) - fl_mag 52 (unat y)"
  have d: "int (fl_mag 52 (unat x)) - int (fl_mag 52 (unat y)) = int ?d" using le by simp
  have enc: "fl_enc 52 0 ?d \<le> unat x" by (intro fl_enc_le) simp
  show eq: "unat (f64_sub x y) = fl_enc 52 0 ?d"
  proof (cases "?d = 0")
    case True
    then show ?thesis
      using le by (simp add: f64_sub_def f64_add_def S Y fl_enc_def fl_shift_def floorlog_def rne_def)
  next
    case False
    then have "0 < ?d" by simp
    then have pos: "int (fl_mag 52 (unat x)) - int (fl_mag 52 (unat y)) > 0" using d by linarith
    then have "unat (f64_sub x y) = min (fl_enc 52 0 ?d) f64_inf_pattern"
      by (simp add: f64_sub_def f64_add_def S Y Let_def unat_f64_make nat_diff_distrib)
    then show ?thesis using enc uy(2) by simp
  qed
  show "unat (f64_sub x y) \<le> unat x" using eq enc by simp
qed

lemma f64_nextafter_up:
  assumes "f64_fin_nonneg x"
  shows "unat (f64_nextafter x f64_PosInf) = unat x + 1"
proof -
  note S = f64_fin_nonneg_simps [OF assms]
  have ux: "unat x < f64_inf_pattern" using assms by (simp add: f64_fin_nonneg_def)
  have inf: "f64_int f64_PosInf = int (fl_mag 52 f64_inf_pattern)"
    by (simp add: f64_int_def f64_abs_def f64_sign_def f64_PosInf_def)
  have lt: "f64_int x < f64_int f64_PosInf"
    unfolding inf S(5) of_nat_less_iff fl_mag_less_iff by (rule ux)
  have suc: "unat (x + 1) = unat x + 1" using ux by (simp add: unat_word_ariths)
  show ?thesis
  proof (cases "unat x = 0")
    case True
    then have "x = 0" by (simp add: unat_eq_zero)
    then show ?thesis using lt by (simp add: f64_nextafter_def f64_eq_def)
  next
    case False
    then have "0 < f64_int x" by (simp add: S)
    then show ?thesis
      using lt S(3) by (simp add: f64_nextafter_def f64_eq_def f64_lt_def suc)
  qed
qed

lemma f64_nextafter_down:
  assumes "f64_fin_nonneg x" and "unat x \<noteq> 0"
  shows "unat (f64_nextafter x f64_NegInf) = unat x - 1"
proof -
  note S = f64_fin_nonneg_simps [OF assms(1)]
  have ninf: "f64_int f64_NegInf < 0"
    by (simp add: f64_int_def f64_abs_def f64_sign_def f64_NegInf_def)
  have pos: "0 < f64_int x" using assms(2) by (simp add: S)
  have pre: "unat (x - 1) = unat x - 1"
    using assms(2) by (simp add: unat_minus_one unat_eq_zero)
  show ?thesis
    using ninf pos S(3) by (simp add: f64_nextafter_def f64_eq_def f64_lt_def pre)
qed

section \<open>Conversions with integers\<close>

text \<open>
  One is \<open>2 ^ 1074\<close> units.  \<open>f64_trunc\<close> is the value rounded towards zero; the conversion
  \<open>int64(x)\<close> returns it when it fits and, for the values the language leaves to the
  implementation, the amd64 result (the least int64).
\<close>

definition f64_trunc :: "f64 \<Rightarrow> int" where
  "f64_trunc x = (if f64_sign x then - int (fl_mag 52 (f64_abs x) div 2 ^ 1074)
                  else int (fl_mag 52 (f64_abs x) div 2 ^ 1074))"

definition f64_integral :: "f64 \<Rightarrow> bool" where
  "f64_integral x \<longleftrightarrow> \<not> f64_isNaN x \<and> \<not> f64_isInf x \<and> fl_mag 52 (f64_abs x) mod 2 ^ 1074 = 0"

definition f64_to_int64 :: "f64 \<Rightarrow> 64 word" where
  "f64_to_int64 x =
     (if f64_isNaN x \<or> f64_isInf x \<or> f64_trunc x < - (2 ^ 63) \<or> 2 ^ 63 \<le> f64_trunc x
      then 0x8000000000000000 else word_of_int (f64_trunc x))"

definition int64_to_f64 :: "64 word \<Rightarrow> f64" where
  "int64_to_f64 n = (if n = 0 then 0 else f64_make (sint n < 0) (fl_enc 52 0 (nat \<bar>sint n\<bar> * 2 ^ 1074)))"

section \<open>The type float32\<close>

type_synonym f32 = "32 word"

abbreviation f32_inf_pattern :: nat where
  "f32_inf_pattern \<equiv> 255 * 2 ^ 23"

definition f32_sign :: "f32 \<Rightarrow> bool" where
  "f32_sign x \<longleftrightarrow> 2 ^ 31 \<le> unat x"

definition f32_abs :: "f32 \<Rightarrow> nat" where
  "f32_abs x = unat x mod 2 ^ 31"

definition f32_isNaN :: "f32 \<Rightarrow> bool" where
  "f32_isNaN x \<longleftrightarrow> f32_inf_pattern < f32_abs x"

text \<open>A NaN is signalling when its leading fraction bit is clear; a conversion sets that bit.\<close>

definition f32_isSignalling :: "f32 \<Rightarrow> bool" where
  "f32_isSignalling x \<longleftrightarrow> f32_isNaN x \<and> f32_abs x < f32_inf_pattern + 2 ^ 22"

definition f32_of_parts :: "bool \<Rightarrow> nat \<Rightarrow> f32" where
  "f32_of_parts s b = word_of_nat ((if s then 2 ^ 31 else 0) + b)"

definition f64_of_parts :: "bool \<Rightarrow> nat \<Rightarrow> f64" where
  "f64_of_parts s b = word_of_nat ((if s then 2 ^ 63 else 0) + b)"

definition f32_to_f64 :: "f32 \<Rightarrow> f64" where
  "f32_to_f64 x =
     (if f32_isNaN x then
        let frac = (f32_abs x - f32_inf_pattern) * 2 ^ 29
        in f64_of_parts (f32_sign x) (f64_inf_pattern + (if frac < 2 ^ 51 then frac + 2 ^ 51 else frac))
      else if f32_abs x = f32_inf_pattern then f64_of_parts (f32_sign x) f64_inf_pattern
      else f64_of_parts (f32_sign x) (fl_enc 52 0 (fl_mag 23 (f32_abs x) * 2 ^ 925)))"

definition f64_to_f32 :: "f64 \<Rightarrow> f32" where
  "f64_to_f32 x =
     (if f64_isNaN x then
        let frac = (f64_abs x - f64_inf_pattern) div 2 ^ 29
        in f32_of_parts (f64_sign x) (f32_inf_pattern + (if frac < 2 ^ 22 then frac + 2 ^ 22 else frac))
      else f32_of_parts (f64_sign x) (min (fl_enc 23 925 (fl_mag 52 (f64_abs x))) f32_inf_pattern))"

lemma f64_of_parts:
  assumes "b < 2 ^ 63"
  shows "f64_sign (f64_of_parts s b) = s" "f64_abs (f64_of_parts s b) = b"
proof -
  have "unat (f64_of_parts s b) = (if s then 2 ^ 63 else 0) + b"
    unfolding f64_of_parts_def by (rule unat_word_of_nat) (use assms in auto)
  then show "f64_sign (f64_of_parts s b) = s" "f64_abs (f64_of_parts s b) = b"
    using assms by (auto simp: f64_sign_def f64_abs_def)
qed

lemma f32_of_parts:
  assumes "b < 2 ^ 31"
  shows "f32_sign (f32_of_parts s b) = s" "f32_abs (f32_of_parts s b) = b"
proof -
  have "unat (f32_of_parts s b) = (if s then 2 ^ 31 else 0) + b"
    unfolding f32_of_parts_def by (rule unat_word_of_nat) (use assms in auto)
  then show "f32_sign (f32_of_parts s b) = s" "f32_abs (f32_of_parts s b) = b"
    using assms by (auto simp: f32_sign_def f32_abs_def)
qed

lemma f32_of_parts_id [simp]: "f32_of_parts (f32_sign x) (f32_abs x) = x"
proof -
  have "(if f32_sign x then 2 ^ 31 else 0) + f32_abs x = unat x"
    using unat_bound [of x] by (auto simp: f32_sign_def f32_abs_def le_mod_geq)
  then show ?thesis by (simp add: f32_of_parts_def)
qed

text \<open>Widening a number is exact, so narrowing it again gives it back.\<close>

lemma f32_widen_exact:
  assumes "a < f32_inf_pattern"
  defines "c \<equiv> fl_enc 52 0 (fl_mag 23 a * 2 ^ 925)"
  shows "c < f64_inf_pattern" and "fl_mag 52 c = fl_mag 23 a * 2 ^ 925"
proof -
  obtain k q where a: "a = k * 2 ^ 23 + q" and kq: "k = 0 \<or> 2 ^ 23 \<le> q" "q < 2 ^ (23 + 1)"
    by (rule fl_pattern_cases)
  have mag: "fl_mag 23 a = q * 2 ^ k"
    unfolding a using kq by (intro fl_mag_encode) auto
  have eq: "fl_mag 23 a * 2 ^ 925 = q * 2 ^ (k + 925)" by (simp only: mag power_add mult.assoc)
  show "fl_mag 52 c = fl_mag 23 a * 2 ^ 925"
    unfolding c_def eq using kq(2) by (intro fl_mag_enc_exact) auto
  have "fl_mag 23 a \<le> fl_mag 23 f32_inf_pattern" using assms(1) by (simp only: fl_mag_le_iff less_imp_le)
  also have "\<dots> = 2 ^ 23 * 2 ^ 254"
    using fl_mag_encode [of 254 23 "2 ^ 23"] by simp
  finally have "fl_mag 23 a * 2 ^ 925 \<le> 2 ^ 23 * 2 ^ 254 * 2 ^ 925" by (rule mult_le_mono1)
  also have "\<dots> = fl_mag 52 (1150 * 2 ^ 52 + 2 ^ 52)"
    by (subst fl_mag_encode) (simp_all flip: power_add)
  finally have "c \<le> 1150 * 2 ^ 52 + 2 ^ 52" unfolding c_def by (rule fl_enc_le)
  then show "c < f64_inf_pattern" by simp
qed

lemma f64_to_f32_to_f64:
  assumes "\<not> f32_isSignalling x"
  shows "f64_to_f32 (f32_to_f64 x) = x"
proof -
  have ax: "f32_abs x < 2 ^ 31" by (simp add: f32_abs_def)
  consider (nan) "f32_isNaN x" | (inf) "f32_abs x = f32_inf_pattern" | (fin) "f32_abs x < f32_inf_pattern"
    unfolding f32_isNaN_def by linarith
  then show ?thesis
  proof cases
    case nan
    define f where "f = f32_abs x - f32_inf_pattern"
    have f: "f32_abs x = f32_inf_pattern + f" "2 ^ 22 \<le> f" "f < 2 ^ 23"
      using nan assms ax by (auto simp: f_def f32_isNaN_def f32_isSignalling_def)
    have w: "f32_to_f64 x = f64_of_parts (f32_sign x) (f64_inf_pattern + f * 2 ^ 29)"
      using nan f by (simp add: f32_to_f64_def)
    have p: "f64_sign (f32_to_f64 x) = f32_sign x" "f64_abs (f32_to_f64 x) = f64_inf_pattern + f * 2 ^ 29"
      unfolding w using f(3) by (simp_all add: f64_of_parts)
    have "f64_to_f32 (f32_to_f64 x) = f32_of_parts (f32_sign x) (f32_inf_pattern + f)"
      using f by (simp add: f64_to_f32_def f64_isNaN_def p)
    then show ?thesis using f(1) by (metis f32_of_parts_id)
  next
    case inf
    then have w: "f32_to_f64 x = f64_of_parts (f32_sign x) f64_inf_pattern"
      by (simp add: f32_to_f64_def f32_isNaN_def)
    have p: "f64_sign (f32_to_f64 x) = f32_sign x" "f64_abs (f32_to_f64 x) = f64_inf_pattern"
      unfolding w by (simp_all add: f64_of_parts)
    have "fl_mag 52 f64_inf_pattern = 2 ^ 1173 * 2 ^ 925"
      using fl_mag_encode [of 2046 52 "2 ^ 52"] by (simp flip: power_add)
    then have "fl_enc 23 925 (fl_mag 52 f64_inf_pattern) = fl_enc 23 0 (2 ^ 1173)"
      by (simp only: fl_enc_scale)
    moreover have "f32_inf_pattern \<le> fl_enc 23 0 (2 ^ 1173)"
    proof (rule fl_enc_ge)
      have "fl_mag 23 f32_inf_pattern = 2 ^ 277"
        using fl_mag_encode [of 254 23 "2 ^ 23"] by (simp flip: power_add)
      also have "\<dots> \<le> 2 ^ 1173" by (rule power_increasing) simp_all
      finally show "fl_mag 23 f32_inf_pattern \<le> 2 ^ 1173" .
    qed
    ultimately have "f64_to_f32 (f32_to_f64 x) = f32_of_parts (f32_sign x) f32_inf_pattern"
      by (simp add: f64_to_f32_def f64_isNaN_def p min_def)
    then show ?thesis using inf by (metis f32_of_parts_id)
  next
    case fin
    define c where "c = fl_enc 52 0 (fl_mag 23 (f32_abs x) * 2 ^ 925)"
    note W = f32_widen_exact [OF fin, folded c_def]
    have w: "f32_to_f64 x = f64_of_parts (f32_sign x) c"
      using fin by (simp add: f32_to_f64_def f32_isNaN_def c_def)
    have p: "f64_sign (f32_to_f64 x) = f32_sign x" "f64_abs (f32_to_f64 x) = c"
      unfolding w using W(1) by (simp_all add: f64_of_parts)
    have "fl_enc 23 925 (fl_mag 52 c) = f32_abs x"
      unfolding W(2) fl_enc_scale by (rule fl_enc_mag)
    then show ?thesis using fin W(1) by (simp add: f64_to_f32_def f64_isNaN_def p min_absorb1)
  qed
qed

text \<open>Narrowing never produces a signalling NaN.\<close>

lemma f64_to_f32_quiet: "\<not> f32_isSignalling (f64_to_f32 x)"
proof (cases "f64_isNaN x")
  case True
  define f where "f = (f64_abs x - f64_inf_pattern) div 2 ^ 29"
  have "f64_abs x < 2 ^ 63" by (simp add: f64_abs_def)
  then have "f < 2 ^ 23" by (simp add: f_def div_less_iff_less_mult)
  moreover have "f64_to_f32 x = f32_of_parts (f64_sign x) (f32_inf_pattern + (if f < 2 ^ 22 then f + 2 ^ 22 else f))"
    using True by (simp add: f64_to_f32_def f_def)
  ultimately show ?thesis by (simp add: f32_isSignalling_def f32_of_parts)
next
  case False
  then show ?thesis
    by (simp add: f64_to_f32_def f32_isSignalling_def f32_isNaN_def f32_of_parts min_less_iff_disj)
qed

section \<open>Rounding to nearest\<close>

text \<open>The encoding picks one of the two neighbours of the number, the even one in the middle of them.\<close>

lemma fl_enc_round:
  assumes "0 < t"
  obtains p where "fl_mag t p \<le> n" "n < fl_mag t (Suc p)"
    "fl_enc t 0 n = (if fl_mag t p + fl_mag t (Suc p) < 2 * n \<or> fl_mag t p + fl_mag t (Suc p) = 2 * n \<and> odd p then Suc p else p)"
proof -
  define k where "k = fl_shift t 0 n"
  define q where "q = n div 2 ^ k"
  define r where "r = n mod 2 ^ k"
  have q: "q < 2 ^ (t + 1)" "k = 0 \<or> 2 ^ t \<le> q"
    using fl_quotient_bounds [where n = n and t = t] by (simp_all add: k_def q_def)
  have n: "n = q * 2 ^ k + r" "r < 2 ^ k" by (simp_all only: q_def r_def div_mult_mod_eq mod_less_divisor zero_less_power pos2)
  have mag: "fl_mag t (k * 2 ^ t + q) = q * 2 ^ k" "fl_mag t (Suc (k * 2 ^ t + q)) = (q + 1) * 2 ^ k"
    using q fl_mag_encode [of k t q] fl_mag_encode [of k t "q + 1"] by auto
  have odd: "odd (k * 2 ^ t + q) \<longleftrightarrow> odd q" using assms by simp
  have "fl_enc t 0 n = k * 2 ^ t + rne n k" by (simp add: fl_enc_def Let_def k_def)
  also have "rne n k = (if 2 * r > 2 ^ k \<or> (2 * r = 2 ^ k \<and> odd q) then q + 1 else q)"
    by (simp add: rne_def Let_def q_def r_def)
  finally have enc: "fl_enc t 0 n = (if 2 * r > 2 ^ k \<or> (2 * r = 2 ^ k \<and> odd q) then Suc (k * 2 ^ t + q) else k * 2 ^ t + q)"
    by simp
  show thesis
  proof (rule that)
    show "fl_mag t (k * 2 ^ t + q) \<le> n" unfolding mag using n(1) by simp
    show "n < fl_mag t (Suc (k * 2 ^ t + q))" unfolding mag using n by simp
    have "q * 2 ^ k + (q + 1) * 2 ^ k < 2 * n \<longleftrightarrow> 2 ^ k < 2 * r" "q * 2 ^ k + (q + 1) * 2 ^ k = 2 * n \<longleftrightarrow> 2 ^ k = 2 * r"
      unfolding n(1) by auto
    then show "fl_enc t 0 n = (if fl_mag t (k * 2 ^ t + q) + fl_mag t (Suc (k * 2 ^ t + q)) < 2 * n \<or>
        fl_mag t (k * 2 ^ t + q) + fl_mag t (Suc (k * 2 ^ t + q)) = 2 * n \<and> odd (k * 2 ^ t + q) then Suc (k * 2 ^ t + q) else k * 2 ^ t + q)"
      unfolding mag odd enc by metis
  qed
qed

lemma fl_enc_nearest:
  assumes "0 < t"
  shows "\<bar>int (fl_mag t (fl_enc t 0 n)) - int n\<bar> \<le> \<bar>int (fl_mag t b) - int n\<bar>"
proof -
  obtain p where p: "fl_mag t p \<le> n" "n < fl_mag t (Suc p)"
    "fl_enc t 0 n = (if fl_mag t p + fl_mag t (Suc p) < 2 * n \<or> fl_mag t p + fl_mag t (Suc p) = 2 * n \<and> odd p then Suc p else p)"
    by (rule fl_enc_round [OF assms])
  have between: "\<bar>int w - int n\<bar> \<le> \<bar>int z - int n\<bar>"
    if "x \<le> n" "n < y" "z \<le> x \<or> y \<le> z" "w = y \<and> x + y \<le> 2 * n \<or> w = x \<and> 2 * n \<le> x + y" for x y z w
    using that by linarith
  have "fl_mag t b \<le> fl_mag t p \<or> fl_mag t (Suc p) \<le> fl_mag t b" by (simp add: not_less_eq_eq [symmetric])
  then show ?thesis by (rule between [OF p(1,2)]) (use p(3) in auto)
qed

text \<open>The encoding passes an odd pattern exactly from the middle to its successor on.\<close>

lemma fl_enc_passes:
  assumes "0 < t" "odd b"
  shows "b < fl_enc t 0 n \<longleftrightarrow> fl_mag t b + fl_mag t (Suc b) \<le> 2 * n"
proof -
  obtain p where p: "fl_mag t p \<le> n" "n < fl_mag t (Suc p)"
    "fl_enc t 0 n = (if fl_mag t p + fl_mag t (Suc p) < 2 * n \<or> fl_mag t p + fl_mag t (Suc p) = 2 * n \<and> odd p then Suc p else p)"
    by (rule fl_enc_round [OF assms(1)])
  consider "b < p" | "b = p" | "p < b" by linarith
  then show ?thesis
  proof cases
    case 1
    then have "fl_mag t (Suc b) \<le> fl_mag t p" "fl_mag t b < fl_mag t p" by simp_all
    then have "fl_mag t b + fl_mag t (Suc b) \<le> 2 * n" using p(1) by linarith
    then show ?thesis using p(3) 1 by simp
  next
    case 2
    then show ?thesis using p assms(2) by auto
  next
    case 3
    then have "fl_mag t (Suc p) \<le> fl_mag t b" "fl_mag t b < fl_mag t (Suc b)" by simp_all
    then have "\<not> fl_mag t b + fl_mag t (Suc b) \<le> 2 * n" using p(2) by linarith
    then show ?thesis using p(3) 3 by simp
  qed
qed

end
