(* ===== verification/Go_Text.thy ===== *)
theory Go_Text
  imports Prelude
begin

text \<open>
  Strings of Go are byte sequences.  This theory holds the parts of the language and of its
  standard library that the encoding package applies to them: conversion to and from runes
  (UTF-8 with the replacement character for malformed input), \<open>hex.DecodeString\<close>,
  \<open>strconv.ParseInt\<close> in base ten and \<open>strconv.ParseBool\<close>.
\<close>

section \<open>Runes\<close>

abbreviation RuneError :: nat where "RuneError \<equiv> 0xFFFD"

definition is_surrogate :: "nat \<Rightarrow> bool" where
  "is_surrogate r \<longleftrightarrow> 0xD800 \<le> r \<and> r < 0xE000"

definition valid_rune :: "nat \<Rightarrow> bool" where
  "valid_rune r \<longleftrightarrow> r < 0x110000 \<and> \<not> is_surrogate r"

definition byte_of :: "nat \<Rightarrow> byte" where "byte_of n = word_of_nat n"

definition utf8_encode1 :: "nat \<Rightarrow> bytes" where
  "utf8_encode1 r0 =
     (let r = (if valid_rune r0 then r0 else RuneError) in
      if r < 0x80 then [byte_of r]
      else if r < 0x800 then [byte_of (0xC0 + r div 64), byte_of (0x80 + r mod 64)]
      else if r < 0x10000 then
        [byte_of (0xE0 + r div 4096), byte_of (0x80 + r div 64 mod 64), byte_of (0x80 + r mod 64)]
      else
        [byte_of (0xF0 + r div 262144), byte_of (0x80 + r div 4096 mod 64),
         byte_of (0x80 + r div 64 mod 64), byte_of (0x80 + r mod 64)])"

definition utf8_encode :: "nat list \<Rightarrow> bytes" where
  "utf8_encode rs = concat (map utf8_encode1 rs)"

definition in_range :: "nat \<Rightarrow> nat \<Rightarrow> byte \<Rightarrow> bool" where
  "in_range lo hi b \<longleftrightarrow> lo \<le> unat b \<and> unat b \<le> hi"

definition lo3 :: "nat \<Rightarrow> nat" where "lo3 x = (if x = 0xE0 then 0xA0 else 0x80)"
definition hi3 :: "nat \<Rightarrow> nat" where "hi3 x = (if x = 0xED then 0x9F else 0xBF)"
definition lo4 :: "nat \<Rightarrow> nat" where "lo4 x = (if x = 0xF0 then 0x90 else 0x80)"
definition hi4 :: "nat \<Rightarrow> nat" where "hi4 x = (if x = 0xF4 then 0x8F else 0xBF)"

text \<open>One decoding step: the rune read and the number of bytes it took.\<close>

definition utf8_step :: "byte \<Rightarrow> bytes \<Rightarrow> nat \<times> nat" where
  "utf8_step a rest =
     (let x = unat a in
      if x < 0x80 then (x, 1)
      else if 0xC2 \<le> x \<and> x \<le> 0xDF then
        (case rest of
           b # _ \<Rightarrow> if in_range 0x80 0xBF b then ((x - 0xC0) * 64 + (unat b - 0x80), 2) else (RuneError, 1)
         | [] \<Rightarrow> (RuneError, 1))
      else if 0xE0 \<le> x \<and> x \<le> 0xEF then
        (case rest of
           b # c # _ \<Rightarrow>
             if in_range (lo3 x) (hi3 x) b \<and> in_range 0x80 0xBF c
             then ((x - 0xE0) * 4096 + (unat b - 0x80) * 64 + (unat c - 0x80), 3) else (RuneError, 1)
         | _ \<Rightarrow> (RuneError, 1))
      else if 0xF0 \<le> x \<and> x \<le> 0xF4 then
        (case rest of
           b # c # d # _ \<Rightarrow>
             if in_range (lo4 x) (hi4 x) b \<and> in_range 0x80 0xBF c \<and> in_range 0x80 0xBF d
             then ((x - 0xF0) * 262144 + (unat b - 0x80) * 4096 + (unat c - 0x80) * 64 + (unat d - 0x80), 4)
             else (RuneError, 1)
         | _ \<Rightarrow> (RuneError, 1))
      else (RuneError, 1))"

lemma utf8_step_pos: "0 < snd (utf8_step a rest)"
  by (auto simp: utf8_step_def Let_def split: list.splits)

function utf8_decode :: "bytes \<Rightarrow> nat list" where
  "utf8_decode [] = []"
| "utf8_decode (a # rest) =
     fst (utf8_step a rest) # utf8_decode (drop (snd (utf8_step a rest)) (a # rest))"
  by pat_completeness auto
termination
  by (relation "measure length") (auto simp: utf8_step_pos)

declare utf8_decode.simps(2) [simp del]

lemma unat_byte_of [simp]: "n < 256 \<Longrightarrow> unat (byte_of n) = n"
  by (simp add: byte_of_def unat_of_nat)

lemma split_64: "n div 64 mod 64 * 64 + n mod 64 = (n mod 4096 :: nat)"
  using mod_mult2_eq [of n 64 64] by simp

lemma split_4096: "n div 4096 mod 64 * 4096 + n mod 4096 = (n mod 262144 :: nat)"
  using mod_mult2_eq [of n 4096 64] by simp

lemma utf8_decode_encode1:
  assumes "valid_rune r"
  shows "utf8_decode (utf8_encode1 r @ rest) = r # utf8_decode rest"
proof -
  have surr: "\<not> (0xD800 \<le> r \<and> r < 0xE000)" "r < 0x110000"
    using assms by (auto simp: valid_rune_def is_surrogate_def)
  consider "r < 0x80" | "0x80 \<le> r" "r < 0x800" | "0x800 \<le> r" "r < 0x10000" | "0x10000 \<le> r" "r < 0x110000"
    using surr(2) by linarith
  then show ?thesis
  proof cases
    case 1
    then show ?thesis
      using assms by (simp add: utf8_encode1_def utf8_decode.simps utf8_step_def)
  next
    case 2
    define p q where "p = r div 64" and "q = r mod 64"
    have "p * 64 + q = r" "q < 64" by (simp_all add: p_def q_def)
    moreover from this have "2 \<le> p" "p < 32" using 2 by linarith+
    ultimately show ?thesis
      using 2 assms
      by (simp add: utf8_encode1_def utf8_decode.simps utf8_step_def in_range_def Let_def
          flip: p_def q_def)
  next
    case 3
    define p q s where "p = r div 4096" and "q = r div 64 mod 64" and "s = r mod 64"
    have b: "p < 16" "q < 64" "s < 64" using 3 by (auto simp: p_def q_def s_def div_less_iff_less_mult)
    have r: "p * 4096 + q * 64 + s = r"
      unfolding p_def q_def s_def using split_64 [of r] div_mult_mod_eq [of r 4096] by linarith
    have lo: "p = 0 \<Longrightarrow> 32 \<le> q" using 3 r b by linarith
    have hi: "p = 13 \<Longrightarrow> q < 32" using surr(1) r b by linarith
    have rng: "in_range (lo3 (224 + p)) (hi3 (224 + p)) (byte_of (128 + q))"
      using lo hi b by (auto simp: in_range_def lo3_def hi3_def)
    show ?thesis
      using 3 assms b rng r
      by (simp add: utf8_encode1_def utf8_decode.simps utf8_step_def Let_def in_range_def
          flip: p_def q_def s_def)
  next
    case 4
    define p q s t where "p = r div 262144" and "q = r div 4096 mod 64" and "s = r div 64 mod 64" and "t = r mod 64"
    have b: "p < 5" "q < 64" "s < 64" "t < 64"
      using 4 by (auto simp: p_def q_def s_def t_def div_less_iff_less_mult)
    have r: "p * 262144 + q * 4096 + s * 64 + t = r"
      unfolding p_def q_def s_def t_def
      using split_64 [of r] split_4096 [of r] div_mult_mod_eq [of r 262144] by linarith
    have lo: "p = 0 \<Longrightarrow> 16 \<le> q" using 4 r b by linarith
    have hi: "p = 4 \<Longrightarrow> q < 16" using surr(2) r b by linarith
    have rng: "in_range (lo4 (240 + p)) (hi4 (240 + p)) (byte_of (128 + q))"
      using lo hi b by (auto simp: in_range_def lo4_def hi4_def)
    show ?thesis
      using 4 assms b rng r
      by (simp add: utf8_encode1_def utf8_decode.simps utf8_step_def Let_def in_range_def
          flip: p_def q_def s_def t_def)
  qed
qed

lemma utf8_decode_encode: "\<forall>r \<in> set rs. valid_rune r \<Longrightarrow> utf8_decode (utf8_encode rs) = rs"
  by (induction rs) (auto simp: utf8_encode_def utf8_decode_encode1)

section \<open>Parsing\<close>

definition bytes_of_string :: "string \<Rightarrow> bytes" where
  "bytes_of_string s = map of_char s"

text \<open>\<open>hex.DecodeString\<close>: an odd length or a non-digit is an error.\<close>

definition hex_digit :: "byte \<Rightarrow> nat option" where
  "hex_digit b =
     (let x = unat b in
      if 0x30 \<le> x \<and> x \<le> 0x39 then Some (x - 0x30)
      else if 0x61 \<le> x \<and> x \<le> 0x66 then Some (x - 0x57)
      else if 0x41 \<le> x \<and> x \<le> 0x46 then Some (x - 0x37)
      else None)"

fun hex_decode :: "bytes \<Rightarrow> bytes option" where
  "hex_decode [] = Some []"
| "hex_decode [b] = None"
| "hex_decode (a # b # bs) =
     (case (hex_digit a, hex_digit b, hex_decode bs) of
        (Some x, Some y, Some r) \<Rightarrow> Some (byte_of (16 * x + y) # r)
      | _ \<Rightarrow> None)"

fun digits_val :: "nat \<Rightarrow> bytes \<Rightarrow> nat option" where
  "digits_val n [] = Some n"
| "digits_val n (b # bs) = (if in_range 0x30 0x39 b then digits_val (10 * n + (unat b - 0x30)) bs else None)"

definition parse_uint10 :: "bytes \<Rightarrow> nat option" where
  "parse_uint10 bs = (if bs = [] then None else digits_val 0 bs)"

text \<open>\<open>strconv.ParseInt(s, 10, 64)\<close>; on a 64-bit platform \<open>strconv.Atoi\<close> agrees with it.\<close>

definition parse_int :: "bytes \<Rightarrow> int option" where
  "parse_int bs =
     (case bs of
        [] \<Rightarrow> None
      | b # r \<Rightarrow>
          let neg = (unat b = 0x2D); digits = (if neg \<or> unat b = 0x2B then r else bs) in
          case parse_uint10 digits of
            None \<Rightarrow> None
          | Some n \<Rightarrow>
              if \<not> neg \<and> 2 ^ 63 \<le> n then None
              else if neg \<and> 2 ^ 63 < n then None
              else Some (if neg then - int n else int n))"

text \<open>\<open>strconv.ParseBool\<close>.\<close>

definition parse_bool :: "bytes \<Rightarrow> bool option" where
  "parse_bool bs =
     (if bs \<in> set (map bytes_of_string [''1'', ''t'', ''T'', ''true'', ''TRUE'', ''True'']) then Some True
      else if bs \<in> set (map bytes_of_string [''0'', ''f'', ''F'', ''false'', ''FALSE'', ''False'']) then Some False
      else None)"

lemma parse_int_range: "parse_int bs = Some i \<Longrightarrow> - (2 ^ 63) \<le> i \<and> i < 2 ^ 63"
  by (auto simp: parse_int_def Let_def split: list.splits option.splits if_splits)

end
