(* ===== verification/Encoding.thy ===== *)
theory Encoding
  imports Go_Float Go_Text
begin

text \<open>
  The HLA Evolved encoding rules of \<open>rti/pkg/encoding\<close>: the primitive codecs, the array,
  record, variant and opaque composites, and the octet-boundary padding between members.
  A codec of the package is a value of the datatype \<open>codec\<close>; the dynamically typed
  arguments and results of \<open>Encode\<close> and \<open>Decode\<close> are values of the datatype \<open>val\<close>, one
  constructor per Go type the package's type switches name.
\<close>

section \<open>Values, codecs and errors\<close>

datatype val =
    VNil
  | VByte byte
  | VInt16 "16 word"
  | VInt32 "32 word"
  | VInt64 "64 word"
  | VInt "64 word"
  | VUint "64 word"
  | VFloat32 f32
  | VFloat64 f64
  | VBool bool
  | VString bytes
  | VPair byte byte
  | VBytes bytes
  | VList "val list"
  | VMap "(string \<times> val) list"

text \<open>
  \<open>fmt.Errorf\<close> wrapping keeps the sentinel under \<open>errors.Is\<close>, so a wrapped error is the error
  itself here.  The anonymous messages are one constructor per kind of rejection; \<open>Panic\<close> is
  a run-time panic (a map lookup with an unhashable key, a slice too large to make, a nil
  pointer, a violated constructor contract).
\<close>

datatype enc_error = ErrEncTypeMismatch | ErrEncShortBuffer | ErrFloatShortBuffer
  | ErrStringShortBuffer | ErrShort | ErrRange | ErrType | ErrMissing
  | ErrCodecForUnsupported | ErrDescriptor | Panic

datatype codec =
    HLAinteger16BE | HLAinteger16LE | HLAinteger32BE | HLAinteger32LE | HLAinteger64BE | HLAinteger64LE
  | HLAfloat32BE | HLAfloat32LE | HLAfloat64BE | HLAfloat64LE
  | HLAoctet | HLAoctetPairBE | HLAoctetPairLE | HLAboolean | HLAASCIIchar | HLAunicodeChar
  | HLAASCIIstring | HLAunicodeString
  | OpaqueData
  | FixedArray codec nat
  | VariableArray codec
  | FixedRecord "(string \<times> codec) list"
  | VariantRecord codec "(val \<times> codec) list"

abbreviation MaxUint32 :: nat where "MaxUint32 \<equiv> 2 ^ 32 - 1"

section \<open>Integers\<close>

definition toInt64Any :: "val \<Rightarrow> enc_error + 64 word" where
  "toInt64Any v =
     (case v of
        VInt16 x \<Rightarrow> Inr (word_of_int (sint x))
      | VInt32 x \<Rightarrow> Inr (word_of_int (sint x))
      | VInt64 x \<Rightarrow> Inr x
      | VInt x \<Rightarrow> Inr x
      | VFloat64 x \<Rightarrow>
          if f64_isNaN x \<or> f64_isInf x then Inl ErrEncTypeMismatch
          else if f64_lt x 0xC3E0000000000000 \<or> f64_lt 0x43E0000000000000 x then Inl ErrRange
          else if \<not> f64_integral x then Inl ErrEncTypeMismatch
          else Inr (f64_to_int64 x)
      | _ \<Rightarrow> Inl ErrEncTypeMismatch)"

definition toInt16 :: "val \<Rightarrow> enc_error + 16 word" where
  "toInt16 v = bindR (toInt64Any v) (\<lambda>x.
     if sint x < - (2 ^ 15) \<or> sint x > 2 ^ 15 - 1 then Inl ErrRange else Inr (word_of_int (sint x)))"

definition toInt32 :: "val \<Rightarrow> enc_error + 32 word" where
  "toInt32 v = bindR (toInt64Any v) (\<lambda>x.
     if sint x < - (2 ^ 31) \<or> sint x > 2 ^ 31 - 1 then Inl ErrRange else Inr (word_of_int (sint x)))"

definition toInt64 :: "val \<Rightarrow> enc_error + 64 word" where
  "toInt64 v = toInt64Any v"

definition integer16BE_Encode :: "val \<Rightarrow> enc_error + bytes" where
  "integer16BE_Encode v = bindR (toInt16 v) (\<lambda>x. Inr (be_bytes 2 (unat x)))"

definition integer16BE_Decode :: "bytes \<Rightarrow> enc_error + (val \<times> nat)" where
  "integer16BE_Decode b =
     (if length b < 2 then Inl ErrEncShortBuffer
      else Inr (VInt32 (word_of_int (sint (word_of_nat (be_val (take 2 b)) :: 16 word))), 2))"

definition integer16LE_Encode :: "val \<Rightarrow> enc_error + bytes" where
  "integer16LE_Encode v = bindR (toInt16 v) (\<lambda>x. Inr (le_bytes 2 (unat x)))"

definition integer16LE_Decode :: "bytes \<Rightarrow> enc_error + (val \<times> nat)" where
  "integer16LE_Decode b =
     (if length b < 2 then Inl ErrEncShortBuffer
      else Inr (VInt32 (word_of_int (sint (word_of_nat (le_val (take 2 b)) :: 16 word))), 2))"

definition integer32BE_Encode :: "val \<Rightarrow> enc_error + bytes" where
  "integer32BE_Encode v = bindR (toInt32 v) (\<lambda>x. Inr (be_bytes 4 (unat x)))"

definition integer32BE_Decode :: "bytes \<Rightarrow> enc_error + (val \<times> nat)" where
  "integer32BE_Decode b =
     (if length b < 4 then Inl ErrEncShortBuffer else Inr (VInt32 (word_of_nat (be_val (take 4 b))), 4))"

definition integer32LE_Encode :: "val \<Rightarrow> enc_error + bytes" where
  "integer32LE_Encode v = bindR (toInt32 v) (\<lambda>x. Inr (le_bytes 4 (unat x)))"

definition integer32LE_Decode :: "bytes \<Rightarrow> enc_error + (val \<times> nat)" where
  "integer32LE_Decode b =
     (if length b < 4 then Inl ErrEncShortBuffer else Inr (VInt32 (word_of_nat (le_val (take 4 b))), 4))"

definition integer64BE_Encode :: "val \<Rightarrow> enc_error + bytes" where
  "integer64BE_Encode v = bindR (toInt64 v) (\<lambda>x. Inr (be_bytes 8 (unat x)))"

definition integer64BE_Decode :: "bytes \<Rightarrow> enc_error + (val \<times> nat)" where
  "integer64BE_Decode b =
     (if length b < 8 then Inl ErrEncShortBuffer else Inr (VInt64 (word_of_nat (be_val (take 8 b))), 8))"

definition integer64LE_Encode :: "val \<Rightarrow> enc_error + bytes" where
  "integer64LE_Encode v = bindR (toInt64 v) (\<lambda>x. Inr (le_bytes 8 (unat x)))"

definition integer64LE_Decode :: "bytes \<Rightarrow> enc_error + (val \<times> nat)" where
  "integer64LE_Decode b =
     (if length b < 8 then Inl ErrEncShortBuffer else Inr (VInt64 (word_of_nat (le_val (take 8 b))), 8))"

section \<open>Floats\<close>

definition asFloat32 :: "val \<Rightarrow> f32 option" where
  "asFloat32 v = (case v of VFloat32 f \<Rightarrow> Some f | VFloat64 f \<Rightarrow> Some (f64_to_f32 f) | _ \<Rightarrow> None)"

definition asFloat64 :: "val \<Rightarrow> f64 option" where
  "asFloat64 v = (case v of VFloat64 f \<Rightarrow> Some f | VFloat32 f \<Rightarrow> Some (f32_to_f64 f) | _ \<Rightarrow> None)"

definition float32BE_Encode :: "val \<Rightarrow> enc_error + bytes" where
  "float32BE_Encode v = (case asFloat32 v of None \<Rightarrow> Inl ErrType | Some f \<Rightarrow> Inr (be_bytes 4 (unat f)))"

definition float32BE_Decode :: "bytes \<Rightarrow> enc_error + (val \<times> nat)" where
  "float32BE_Decode b =
     (if length b < 4 then Inl ErrFloatShortBuffer
      else Inr (VFloat64 (f32_to_f64 (word_of_nat (be_val (take 4 b)))), 4))"

definition float32LE_Encode :: "val \<Rightarrow> enc_error + bytes" where
  "float32LE_Encode v = (case asFloat32 v of None \<Rightarrow> Inl ErrType | Some f \<Rightarrow> Inr (le_bytes 4 (unat f)))"

definition float32LE_Decode :: "bytes \<Rightarrow> enc_error + (val \<times> nat)" where
  "float32LE_Decode b =
     (if length b < 4 then Inl ErrFloatShortBuffer
      else Inr (VFloat64 (f32_to_f64 (word_of_nat (le_val (take 4 b)))), 4))"

definition float64BE_Encode :: "val \<Rightarrow> enc_error + bytes" where
  "float64BE_Encode v = (case asFloat64 v of None \<Rightarrow> Inl ErrType | Some f \<Rightarrow> Inr (be_bytes 8 (unat f)))"

definition float64BE_Decode :: "bytes \<Rightarrow> enc_error + (val \<times> nat)" where
  "float64BE_Decode b =
     (if length b < 8 then Inl ErrFloatShortBuffer else Inr (VFloat64 (word_of_nat (be_val (take 8 b))), 8))"

definition float64LE_Encode :: "val \<Rightarrow> enc_error + bytes" where
  "float64LE_Encode v = (case asFloat64 v of None \<Rightarrow> Inl ErrType | Some f \<Rightarrow> Inr (le_bytes 8 (unat f)))"

definition float64LE_Decode :: "bytes \<Rightarrow> enc_error + (val \<times> nat)" where
  "float64LE_Decode b =
     (if length b < 8 then Inl ErrFloatShortBuffer else Inr (VFloat64 (word_of_nat (le_val (take 8 b))), 8))"

section \<open>Octets, booleans and characters\<close>

definition rangeCheckByte :: "64 word \<Rightarrow> enc_error + byte" where
  "rangeCheckByte x = (if sint x < 0 \<or> sint x > 0xFF then Inl ErrRange else Inr (word_of_int (sint x)))"

definition octetFromAny :: "val \<Rightarrow> enc_error + byte" where
  "octetFromAny v =
     (case v of
        VByte x \<Rightarrow> Inr x
      | VInt x \<Rightarrow> rangeCheckByte x
      | VInt32 x \<Rightarrow> rangeCheckByte (word_of_int (sint x))
      | VInt64 x \<Rightarrow> rangeCheckByte x
      | VUint x \<Rightarrow> if unat x > 0xFF then Inl ErrRange else Inr (word_of_nat (unat x))
      | VFloat64 x \<Rightarrow>
          if \<not> f64_eq x (int64_to_f64 (f64_to_int64 x)) then Inl ErrRange
          else rangeCheckByte (f64_to_int64 x)
      | _ \<Rightarrow> Inl ErrType)"

definition octet_Encode :: "val \<Rightarrow> enc_error + bytes" where
  "octet_Encode v = bindR (octetFromAny v) (\<lambda>b. Inr [b])"

definition octet_Decode :: "bytes \<Rightarrow> enc_error + (val \<times> nat)" where
  "octet_Decode b = (case b of [] \<Rightarrow> Inl ErrShort | x # _ \<Rightarrow> Inr (VByte x, 1))"

definition coerceOctet :: "val \<Rightarrow> enc_error + byte" where
  "coerceOctet v =
     (case v of
        VFloat64 x \<Rightarrow>
          if f64_lt x 0 \<or> f64_lt 0x406FE00000000000 x \<or> \<not> f64_eq x (int64_to_f64 (f64_to_int64 x))
          then Inl ErrRange else Inr (word_of_int (f64_trunc x))
      | VInt x \<Rightarrow> if sint x < 0 \<or> sint x > 255 then Inl ErrRange else Inr (word_of_int (sint x))
      | VByte x \<Rightarrow> Inr x
      | _ \<Rightarrow> Inl ErrType)"

definition octetPairBytes :: "val \<Rightarrow> enc_error + (byte \<times> byte)" where
  "octetPairBytes v =
     (case v of
        VPair a b \<Rightarrow> Inr (a, b)
      | VBytes x \<Rightarrow> (case x of [a, b] \<Rightarrow> Inr (a, b) | _ \<Rightarrow> Inl ErrRange)
      | VList x \<Rightarrow> (case x of
            [p, q] \<Rightarrow> bindR (coerceOctet p) (\<lambda>a. bindR (coerceOctet q) (\<lambda>b. Inr (a, b)))
          | _ \<Rightarrow> Inl ErrRange)
      | _ \<Rightarrow> Inl ErrType)"

definition octetPairBE_Encode :: "val \<Rightarrow> enc_error + bytes" where
  "octetPairBE_Encode v = bindR (octetPairBytes v) (\<lambda>(a, b). Inr [a, b])"

definition octetPairBE_Decode :: "bytes \<Rightarrow> enc_error + (val \<times> nat)" where
  "octetPairBE_Decode b = (case b of x # y # _ \<Rightarrow> Inr (VPair x y, 2) | _ \<Rightarrow> Inl ErrShort)"

definition octetPairLE_Encode :: "val \<Rightarrow> enc_error + bytes" where
  "octetPairLE_Encode v = bindR (octetPairBytes v) (\<lambda>(a, b). Inr [b, a])"

definition octetPairLE_Decode :: "bytes \<Rightarrow> enc_error + (val \<times> nat)" where
  "octetPairLE_Decode b = (case b of x # y # _ \<Rightarrow> Inr (VPair y x, 2) | _ \<Rightarrow> Inl ErrShort)"

definition boolean_Encode :: "val \<Rightarrow> enc_error + bytes" where
  "boolean_Encode v = (case v of VBool x \<Rightarrow> Inr (if x then [0, 0, 0, 1] else [0, 0, 0, 0]) | _ \<Rightarrow> Inl ErrType)"

definition boolean_Decode :: "bytes \<Rightarrow> enc_error + (val \<times> nat)" where
  "boolean_Decode b =
     (if length b < 4 then Inl ErrShort
      else Inr (VBool ((word_of_nat (be_val (take 4 b)) :: 32 word) \<noteq> 0), 4))"

definition ASCIIchar_Encode :: "val \<Rightarrow> enc_error + bytes" where
  "ASCIIchar_Encode v =
     (case v of
        VString x \<Rightarrow> (case x of
            [c] \<Rightarrow> if unat c > 0x7F then Inl ErrRange else Inr [c]
          | _ \<Rightarrow> Inl ErrRange)
      | VInt32 x \<Rightarrow> if sint x < 0 \<or> sint x > 0x7F then Inl ErrRange else Inr [word_of_int (sint x)]
      | VByte x \<Rightarrow> if unat x > 0x7F then Inl ErrRange else Inr [x]
      | _ \<Rightarrow> Inl ErrType)"

definition ASCIIchar_Decode :: "bytes \<Rightarrow> enc_error + (val \<times> nat)" where
  "ASCIIchar_Decode b =
     (case b of
        [] \<Rightarrow> Inl ErrShort
      | x # _ \<Rightarrow> if unat x > 0x7F then Inl ErrRange else Inr (VString [x], 1))"

text \<open>The admission test both unicode codecs apply to a rune, and its two big-endian octets.\<close>

definition bmp_rune :: "int \<Rightarrow> bool" where
  "bmp_rune r \<longleftrightarrow> 0 \<le> r \<and> r \<le> 0xFFFF \<and> \<not> is_surrogate (nat r)"

definition unicodeChar_Encode :: "val \<Rightarrow> enc_error + bytes" where
  "unicodeChar_Encode v =
     bindR (case v of
        VString x \<Rightarrow> (case utf8_decode x of [r] \<Rightarrow> Inr (int r) | _ \<Rightarrow> Inl ErrRange)
      | VInt32 x \<Rightarrow> Inr (sint x)
      | _ \<Rightarrow> Inl ErrType)
     (\<lambda>r. if bmp_rune r then Inr (be_bytes 2 (nat r)) else Inl ErrRange)"

definition unicodeChar_Decode :: "bytes \<Rightarrow> enc_error + (val \<times> nat)" where
  "unicodeChar_Decode b =
     (if length b < 2 then Inl ErrShort
      else let u = be_val (take 2 b) in
        if is_surrogate u then Inl ErrRange else Inr (VString (utf8_encode1 u), 2))"

section \<open>Strings and opaque data\<close>

definition ASCIIstring_Encode :: "val \<Rightarrow> enc_error + bytes" where
  "ASCIIstring_Encode v =
     (case v of
        VString s \<Rightarrow>
          if \<exists>c \<in> set s. unat c > 0x7F then Inl ErrRange
          else if length s > MaxUint32 then Inl ErrRange
          else Inr (be_bytes 4 (length s) @ s)
      | _ \<Rightarrow> Inl ErrType)"

definition ASCIIstring_Decode :: "bytes \<Rightarrow> enc_error + (val \<times> nat)" where
  "ASCIIstring_Decode b =
     (if length b < 4 then Inl ErrStringShortBuffer
      else let n = be_val (take 4 b) in
        if 4 + n > length b then Inl ErrStringShortBuffer
        else let payload = take n (drop 4 b) in
          if \<exists>c \<in> set payload. unat c > 0x7F then Inl ErrRange
          else Inr (VString payload, 4 + n))"

definition unicodeString_Encode :: "val \<Rightarrow> enc_error + bytes" where
  "unicodeString_Encode v =
     (case v of
        VString s \<Rightarrow>
          let runes = utf8_decode s in
          if \<exists>r \<in> set runes. \<not> bmp_rune (int r) then Inl ErrRange
          else if length runes > MaxUint32 then Inl ErrRange
          else Inr (be_bytes 4 (length runes) @ concat (map (be_bytes 2) runes))
      | _ \<Rightarrow> Inl ErrType)"

fun decode_units :: "nat \<Rightarrow> bytes \<Rightarrow> enc_error + nat list" where
  "decode_units 0 b = Inr []"
| "decode_units (Suc n) b =
     (let u = be_val (take 2 b) in
      if is_surrogate u then Inl ErrRange
      else bindR (decode_units n (drop 2 b)) (\<lambda>rs. Inr (u # rs)))"

definition unicodeString_Decode :: "bytes \<Rightarrow> enc_error + (val \<times> nat)" where
  "unicodeString_Decode b =
     (if length b < 4 then Inl ErrStringShortBuffer
      else let n = be_val (take 4 b) in
        if 4 + 2 * n > length b then Inl ErrStringShortBuffer
        else bindR (decode_units n (drop 4 b)) (\<lambda>rs. Inr (VString (utf8_encode rs), 4 + 2 * n)))"

definition opaque_Encode :: "val \<Rightarrow> enc_error + bytes" where
  "opaque_Encode v =
     bindR (case v of
        VBytes t \<Rightarrow> Inr t
      | VString t \<Rightarrow> if t = [] then Inr [] else (case hex_decode t of None \<Rightarrow> Inl ErrRange | Some xs \<Rightarrow> Inr xs)
      | _ \<Rightarrow> Inl ErrType)
     (\<lambda>xs. if length xs > MaxUint32 then Inl ErrRange else Inr (be_bytes 4 (length xs) @ xs))"

definition opaque_Decode :: "bytes \<Rightarrow> enc_error + (val \<times> nat)" where
  "opaque_Decode b =
     (if length b < 4 then Inl ErrShort
      else let n = be_val (take 4 b) in
        if 4 + n > length b then Inl ErrShort
        else Inr (VBytes (take n (drop 4 b)), 4 + n))"

section \<open>Padding\<close>

definition alignTo :: "nat \<Rightarrow> nat \<Rightarrow> nat" where
  "alignTo pos boundary =
     (if boundary \<le> 1 then pos
      else let rem = pos mod boundary in if rem = 0 then pos else pos + (boundary - rem))"

definition padTo :: "bytes \<Rightarrow> nat \<Rightarrow> bytes" where
  "padTo b boundary =
     (if boundary \<le> 1 then b
      else let rem = length b mod boundary in
        if rem = 0 then b else b @ replicate (boundary - rem) 0)"

definition paddingFor :: "nat \<Rightarrow> nat \<Rightarrow> nat" where
  "paddingFor offset boundary =
     (if boundary \<le> 1 then 0
      else let rem = offset mod boundary in if rem = 0 then 0 else boundary - rem)"

definition padToBoundary :: "bytes \<Rightarrow> nat \<Rightarrow> bytes" where
  "padToBoundary buf boundary = buf @ replicate (paddingFor (length buf) boundary) 0"

section \<open>Composite codecs\<close>

text \<open>\<open>OctetBoundary\<close>; a record computes its maximum at construction, here on demand.\<close>

fun OctetBoundary :: "codec \<Rightarrow> nat" and fields_boundary :: "(string \<times> codec) list \<Rightarrow> nat"
  and alts_boundary :: "(val \<times> codec) list \<Rightarrow> nat" where
  "OctetBoundary HLAinteger16BE = 2"
| "OctetBoundary HLAinteger16LE = 2"
| "OctetBoundary HLAinteger32BE = 4"
| "OctetBoundary HLAinteger32LE = 4"
| "OctetBoundary HLAinteger64BE = 8"
| "OctetBoundary HLAinteger64LE = 8"
| "OctetBoundary HLAfloat32BE = 4"
| "OctetBoundary HLAfloat32LE = 4"
| "OctetBoundary HLAfloat64BE = 8"
| "OctetBoundary HLAfloat64LE = 8"
| "OctetBoundary HLAoctet = 1"
| "OctetBoundary HLAoctetPairBE = 2"
| "OctetBoundary HLAoctetPairLE = 2"
| "OctetBoundary HLAboolean = 4"
| "OctetBoundary HLAASCIIchar = 1"
| "OctetBoundary HLAunicodeChar = 2"
| "OctetBoundary HLAASCIIstring = 4"
| "OctetBoundary HLAunicodeString = 4"
| "OctetBoundary OpaqueData = 4"
| "OctetBoundary (FixedArray c n) = OctetBoundary c"
| "OctetBoundary (VariableArray c) = (if OctetBoundary c < 4 then 4 else OctetBoundary c)"
| "OctetBoundary (FixedRecord fs) = max 1 (fields_boundary fs)"
| "OctetBoundary (VariantRecord d alts) = max 1 (max (OctetBoundary d) (alts_boundary alts))"
| "fields_boundary [] = 0"
| "fields_boundary ((n, c) # fs) = max (OctetBoundary c) (fields_boundary fs)"
| "alts_boundary [] = 0"
| "alts_boundary ((k, c) # alts) = max (OctetBoundary c) (alts_boundary alts)"

text \<open>
  The map keyed by \<open>any\<close> of a variant record: Go compares keys with \<open>==\<close> (floats by value,
  so a NaN matches nothing) and panics on a key whose type is not comparable.
\<close>

definition hashable :: "val \<Rightarrow> bool" where
  "hashable v = (case v of VBytes _ \<Rightarrow> False | VList _ \<Rightarrow> False | VMap _ \<Rightarrow> False | _ \<Rightarrow> True)"

definition key_eq :: "val \<Rightarrow> val \<Rightarrow> bool" where
  "key_eq a b =
     (case (a, b) of
        (VFloat64 x, VFloat64 y) \<Rightarrow> f64_eq x y
      | (VFloat32 x, VFloat32 y) \<Rightarrow> f64_eq (f32_to_f64 x) (f32_to_f64 y)
      | _ \<Rightarrow> a = b)"

primrec encode_elems :: "(val \<Rightarrow> enc_error + bytes) \<Rightarrow> nat \<Rightarrow> val list \<Rightarrow> bytes \<Rightarrow> enc_error + bytes" where
  "encode_elems enc b [] out = Inr out"
| "encode_elems enc b (x # xs) out =
     (let out = padTo out b in bindR (enc x) (\<lambda>e. encode_elems enc b xs (out @ e)))"

primrec decode_elems ::
  "(bytes \<Rightarrow> enc_error + (val \<times> nat)) \<Rightarrow> nat \<Rightarrow> bytes \<Rightarrow> nat \<Rightarrow> nat \<Rightarrow> val list \<Rightarrow> enc_error + (val list \<times> nat)" where
  "decode_elems dec b bs 0 pos out = Inr (out, pos)"
| "decode_elems dec b bs (Suc k) pos out =
     (let pos = alignTo pos b in
      if pos > length bs then Inl ErrShort
      else bindR (dec (drop pos bs)) (\<lambda>(v, n). decode_elems dec b bs k (pos + n) (out @ [v])))"

text \<open>
  \<open>make([]any, 0, n)\<close>: the run time panics when the slice of \<open>n\<close> interfaces of 16 octets each would
  exceed the 48 bits of addresses it can allocate.  The arrays that \<open>Encode\<close> is given exist, so its
  own \<open>make\<close> stays below the limit, and so does that of \<open>VariableArray\<close>, whose length has 32 bits.
\<close>

definition make_panics :: "nat \<Rightarrow> bool" where
  "make_panics n \<longleftrightarrow> 16 * n > 2 ^ 48"

lemma make_panics_code [code]: "make_panics n \<longleftrightarrow> 16 * int n > 2 ^ 48"
proof -
  have "16 * int n > 2 ^ 48 \<longleftrightarrow> int (16 * n) > int (2 ^ 48)" by simp
  then show ?thesis unfolding make_panics_def by linarith
qed

fun Decode :: "codec \<Rightarrow> bytes \<Rightarrow> enc_error + (val \<times> nat)"
  and decode_fields :: "(string \<times> codec) list \<Rightarrow> bytes \<Rightarrow> nat \<Rightarrow> (string \<times> val) list \<Rightarrow> enc_error + (val \<times> nat)"
  and decode_alt :: "(val \<times> codec) list \<Rightarrow> val \<Rightarrow> nat \<Rightarrow> bytes \<Rightarrow> enc_error + (val \<times> nat)" where
  "Decode HLAinteger16BE b = integer16BE_Decode b"
| "Decode HLAinteger16LE b = integer16LE_Decode b"
| "Decode HLAinteger32BE b = integer32BE_Decode b"
| "Decode HLAinteger32LE b = integer32LE_Decode b"
| "Decode HLAinteger64BE b = integer64BE_Decode b"
| "Decode HLAinteger64LE b = integer64LE_Decode b"
| "Decode HLAfloat32BE b = float32BE_Decode b"
| "Decode HLAfloat32LE b = float32LE_Decode b"
| "Decode HLAfloat64BE b = float64BE_Decode b"
| "Decode HLAfloat64LE b = float64LE_Decode b"
| "Decode HLAoctet b = octet_Decode b"
| "Decode HLAoctetPairBE b = octetPairBE_Decode b"
| "Decode HLAoctetPairLE b = octetPairLE_Decode b"
| "Decode HLAboolean b = boolean_Decode b"
| "Decode HLAASCIIchar b = ASCIIchar_Decode b"
| "Decode HLAunicodeChar b = unicodeChar_Decode b"
| "Decode HLAASCIIstring b = ASCIIstring_Decode b"
| "Decode HLAunicodeString b = unicodeString_Decode b"
| "Decode OpaqueData b = opaque_Decode b"
| "Decode (FixedArray c n) b =
     (if make_panics n then Inl Panic
      else bindR (decode_elems (\<lambda>x. Decode c x) (OctetBoundary c) b n 0 []) (\<lambda>(vs, pos). Inr (VList vs, pos)))"
| "Decode (VariableArray c) b =
     (if length b < 4 then Inl ErrShort
      else bindR (decode_elems (\<lambda>x. Decode c x) (OctetBoundary c) b (be_val (take 4 b)) 4 [])
             (\<lambda>(vs, pos). Inr (VList vs, pos)))"
| "Decode (FixedRecord fs) b = decode_fields fs b 0 []"
| "Decode (VariantRecord d alts) b =
     bindR (Decode d b) (\<lambda>(dv, dn).
       if \<not> hashable dv then Inl Panic else decode_alt alts dv dn b)"
| "decode_fields [] b pos out = Inr (VMap out, pos)"
| "decode_fields ((name, c) # fs) b pos out =
     (let pad = paddingFor pos (OctetBoundary c) in
      if pos + pad > length b then Inl ErrEncShortBuffer
      else bindR (Decode c (drop (pos + pad) b)) (\<lambda>(v, n).
             decode_fields fs b (pos + pad + n) (put name v out)))"
| "decode_alt [] dv dn b = Inl ErrEncTypeMismatch"
| "decode_alt ((k, c) # alts) dv dn b =
     (if key_eq k dv then
        let pos = dn + paddingFor dn (OctetBoundary c) in
        if pos > length b then Inl ErrEncShortBuffer
        else bindR (Decode c (drop pos b)) (\<lambda>(v, vn).
               Inr (VMap [(''discriminator'', dv), (''value'', v)], pos + vn))
      else decode_alt alts dv dn b)"

fun Encode :: "codec \<Rightarrow> val \<Rightarrow> enc_error + bytes"
  and encode_fields :: "(string \<times> codec) list \<Rightarrow> (string \<times> val) list \<Rightarrow> bytes \<Rightarrow> enc_error + bytes"
  and encode_alt :: "(val \<times> codec) list \<Rightarrow> val \<Rightarrow> bytes \<Rightarrow> val \<Rightarrow> enc_error + bytes" where
  "Encode HLAinteger16BE v = integer16BE_Encode v"
| "Encode HLAinteger16LE v = integer16LE_Encode v"
| "Encode HLAinteger32BE v = integer32BE_Encode v"
| "Encode HLAinteger32LE v = integer32LE_Encode v"
| "Encode HLAinteger64BE v = integer64BE_Encode v"
| "Encode HLAinteger64LE v = integer64LE_Encode v"
| "Encode HLAfloat32BE v = float32BE_Encode v"
| "Encode HLAfloat32LE v = float32LE_Encode v"
| "Encode HLAfloat64BE v = float64BE_Encode v"
| "Encode HLAfloat64LE v = float64LE_Encode v"
| "Encode HLAoctet v = octet_Encode v"
| "Encode HLAoctetPairBE v = octetPairBE_Encode v"
| "Encode HLAoctetPairLE v = octetPairLE_Encode v"
| "Encode HLAboolean v = boolean_Encode v"
| "Encode HLAASCIIchar v = ASCIIchar_Encode v"
| "Encode HLAunicodeChar v = unicodeChar_Encode v"
| "Encode HLAASCIIstring v = ASCIIstring_Encode v"
| "Encode HLAunicodeString v = unicodeString_Encode v"
| "Encode OpaqueData v = opaque_Encode v"
| "Encode (FixedArray c n) v =
     (case v of
        VList xs \<Rightarrow>
          if length xs \<noteq> n then Inl ErrRange
          else encode_elems (\<lambda>x. Encode c x) (OctetBoundary c) xs []
      | _ \<Rightarrow> Inl ErrType)"
| "Encode (VariableArray c) v =
     (case v of
        VList xs \<Rightarrow>
          if length xs > MaxUint32 then Inl ErrRange
          else encode_elems (\<lambda>x. Encode c x) (OctetBoundary c) xs (be_bytes 4 (length xs))
      | _ \<Rightarrow> Inl ErrType)"
| "Encode (FixedRecord fs) v =
     (case v of VMap m \<Rightarrow> encode_fields fs m [] | _ \<Rightarrow> Inl ErrEncTypeMismatch)"
| "Encode (VariantRecord d alts) v =
     (case v of
        VMap m \<Rightarrow>
          (case map_of m ''discriminator'' of
             None \<Rightarrow> Inl ErrMissing
           | Some dv \<Rightarrow>
               (case map_of m ''value'' of
                  None \<Rightarrow> Inl ErrMissing
                | Some val \<Rightarrow>
                    bindR (Encode d dv) (\<lambda>discBytes.
                    bindR (Decode d discBytes) (\<lambda>(canonical, _).
                      if \<not> hashable canonical then Inl Panic
                      else encode_alt alts canonical discBytes val))))
      | _ \<Rightarrow> Inl ErrEncTypeMismatch)"
| "encode_fields [] m out = Inr out"
| "encode_fields ((name, c) # fs) m out =
     (let out = padToBoundary out (OctetBoundary c) in
      case map_of m name of
        None \<Rightarrow> Inl ErrMissing
      | Some fv \<Rightarrow> bindR (Encode c fv) (\<lambda>fb. encode_fields fs m (out @ fb)))"
| "encode_alt [] canonical discBytes val = Inl ErrEncTypeMismatch"
| "encode_alt ((k, c) # alts) canonical discBytes val =
     (if key_eq k canonical then
        let out = padToBoundary discBytes (OctetBoundary c)
        in bindR (Encode c val) (\<lambda>altBytes. Inr (out @ altBytes))
      else encode_alt alts canonical discBytes val)"

section \<open>Well-formed codecs\<close>

text \<open>
  The codecs whose records have fields with distinct names and whose fixed arrays can be allocated.
\<close>

fun codec_wf :: "codec \<Rightarrow> bool" and fields_wf :: "(string \<times> codec) list \<Rightarrow> bool"
  and alts_wf :: "(val \<times> codec) list \<Rightarrow> bool" where
  "codec_wf (FixedArray c n) = (\<not> make_panics n \<and> codec_wf c)"
| "codec_wf (VariableArray c) = codec_wf c"
| "codec_wf (FixedRecord fs) = (distinct (map fst fs) \<and> fields_wf fs)"
| "codec_wf (VariantRecord d alts) = (codec_wf d \<and> alts_wf alts)"
| "codec_wf _ = True"
| "fields_wf [] = True"
| "fields_wf ((n, c) # fs) = (codec_wf c \<and> fields_wf fs)"
| "alts_wf [] = True"
| "alts_wf ((k, c) # alts) = (codec_wf c \<and> alts_wf alts)"

text \<open>No float32 signalling NaN inside a value: such a NaN does not survive a conversion.\<close>

fun quiet :: "val \<Rightarrow> bool" where
  "quiet (VFloat32 f) = (\<not> f32_isSignalling f)"
| "quiet (VList vs) = (\<forall>v \<in> set vs. quiet v)"
| "quiet (VMap m) = (\<forall>kv \<in> set m. quiet (snd kv))"
| "quiet _ = True"

end
