(* ===== verification/Codec_Laws.thy ===== *)
theory Codec_Laws
  imports Encoding
begin

text \<open>
  The contract every codec of the encoding package keeps (locale \<open>codec_law\<close>), its
  interpretation on each primitive codec, and its proof for the composites by induction
  over the codec: round trip, no over-read, alignment and freedom from panics.
\<close>

section \<open>The contract of a codec\<close>

lemma pow_256: "(256 :: nat) ^ k = 2 ^ (8 * k)"
  by (simp add: power_mult)

lemma unat_be_val_word: "8 * k = LENGTH('a) \<Longrightarrow> be_val (be_bytes k (unat (x :: 'a::len word))) = unat x"
  using unat_bound [of x] by (simp add: be_val_be_bytes pow_256)

lemma unat_le_val_word: "8 * k = LENGTH('a) \<Longrightarrow> le_val (le_bytes k (unat (x :: 'a::len word))) = unat x"
  using unat_bound [of x] by (simp add: le_val_le_bytes pow_256)

text \<open>
  What every codec promises: what it encodes it decodes, whatever octets follow, to a value
  that encodes to the same octets; and decoding never reports more octets than it was given.
\<close>

locale codec_law =
  fixes enc :: "val \<Rightarrow> enc_error + bytes"
    and dec :: "bytes \<Rightarrow> enc_error + (val \<times> nat)"
  assumes roundtrip:
    "quiet v \<Longrightarrow> enc v = Inr bs \<Longrightarrow> \<exists>v'. enc v' = Inr bs \<and> (\<forall>rest. dec (bs @ rest) = Inr (v', length bs))"
    and consumes: "dec bs = Inr (v, n) \<Longrightarrow> n \<le> length bs"

lemma scast_eq: "(scast (x :: 'a::len word) :: 'b::len word) = word_of_int (sint x)"
  by simp

lemma sint_scast_up: "LENGTH('a) \<le> LENGTH('b) \<Longrightarrow> sint (scast (x :: 'a::len word) :: 'b::len word) = sint x"
proof -
  assume "LENGTH('a) \<le> LENGTH('b)"
  then have "(2 :: int) ^ (LENGTH('a) - 1) \<le> 2 ^ (LENGTH('b) - 1)" by (intro power_increasing) auto
  then show ?thesis
    unfolding scast_eq using sint_bounds [of x] by (intro sint_of_int_fits) linarith+
qed

lemma scast_of_sint_eq: "sint (y :: 'b::len word) = sint (x :: 'a::len word) \<Longrightarrow> scast y = x"
  unfolding scast_eq by simp

lemma toInt16_canonical: "toInt16 (VInt32 (scast (x :: 16 word))) = Inr x"
  using sint_bounds [of x] by (simp add: toInt16_def toInt64Any_def sint_scast_up scast_of_sint_eq)

lemma toInt32_canonical: "toInt32 (VInt32 x) = Inr x"
  using sint_bounds [of x] by (simp add: toInt32_def toInt64Any_def sint_scast_up scast_of_sint_eq)

lemmas word_wire_simps = unat_be_val_word unat_le_val_word

interpretation int16be: codec_law integer16BE_Encode integer16BE_Decode
proof
  fix v bs assume "integer16BE_Encode v = Inr bs"
  then obtain x :: "16 word" where "bs = be_bytes 2 (unat x)" by (auto simp: integer16BE_Encode_def result_simps)
  then show "\<exists>v'. integer16BE_Encode v' = Inr bs \<and> (\<forall>rest. integer16BE_Decode (bs @ rest) = Inr (v', length bs))"
    by (intro exI [of _ "VInt32 (scast x)"])
       (simp add: integer16BE_Encode_def integer16BE_Decode_def toInt16_canonical word_wire_simps)
qed (auto simp: integer16BE_Decode_def split: if_splits)

interpretation int16le: codec_law integer16LE_Encode integer16LE_Decode
proof
  fix v bs assume "integer16LE_Encode v = Inr bs"
  then obtain x :: "16 word" where "bs = le_bytes 2 (unat x)" by (auto simp: integer16LE_Encode_def result_simps)
  then show "\<exists>v'. integer16LE_Encode v' = Inr bs \<and> (\<forall>rest. integer16LE_Decode (bs @ rest) = Inr (v', length bs))"
    by (intro exI [of _ "VInt32 (scast x)"])
       (simp add: integer16LE_Encode_def integer16LE_Decode_def toInt16_canonical word_wire_simps)
qed (auto simp: integer16LE_Decode_def split: if_splits)

interpretation int32be: codec_law integer32BE_Encode integer32BE_Decode
proof
  fix v bs assume "integer32BE_Encode v = Inr bs"
  then obtain x :: "32 word" where "bs = be_bytes 4 (unat x)" by (auto simp: integer32BE_Encode_def result_simps)
  then show "\<exists>v'. integer32BE_Encode v' = Inr bs \<and> (\<forall>rest. integer32BE_Decode (bs @ rest) = Inr (v', length bs))"
    by (intro exI [of _ "VInt32 x"])
       (simp add: integer32BE_Encode_def integer32BE_Decode_def toInt32_canonical word_wire_simps)
qed (auto simp: integer32BE_Decode_def split: if_splits)

interpretation int32le: codec_law integer32LE_Encode integer32LE_Decode
proof
  fix v bs assume "integer32LE_Encode v = Inr bs"
  then obtain x :: "32 word" where "bs = le_bytes 4 (unat x)" by (auto simp: integer32LE_Encode_def result_simps)
  then show "\<exists>v'. integer32LE_Encode v' = Inr bs \<and> (\<forall>rest. integer32LE_Decode (bs @ rest) = Inr (v', length bs))"
    by (intro exI [of _ "VInt32 x"])
       (simp add: integer32LE_Encode_def integer32LE_Decode_def toInt32_canonical word_wire_simps)
qed (auto simp: integer32LE_Decode_def split: if_splits)

interpretation int64be: codec_law integer64BE_Encode integer64BE_Decode
proof
  fix v bs assume "integer64BE_Encode v = Inr bs"
  then obtain x :: "64 word" where "bs = be_bytes 8 (unat x)" by (auto simp: integer64BE_Encode_def result_simps)
  then show "\<exists>v'. integer64BE_Encode v' = Inr bs \<and> (\<forall>rest. integer64BE_Decode (bs @ rest) = Inr (v', length bs))"
    by (intro exI [of _ "VInt64 x"])
       (simp add: integer64BE_Encode_def integer64BE_Decode_def toInt64_def toInt64Any_def word_wire_simps)
qed (auto simp: integer64BE_Decode_def split: if_splits)

interpretation int64le: codec_law integer64LE_Encode integer64LE_Decode
proof
  fix v bs assume "integer64LE_Encode v = Inr bs"
  then obtain x :: "64 word" where "bs = le_bytes 8 (unat x)" by (auto simp: integer64LE_Encode_def result_simps)
  then show "\<exists>v'. integer64LE_Encode v' = Inr bs \<and> (\<forall>rest. integer64LE_Decode (bs @ rest) = Inr (v', length bs))"
    by (intro exI [of _ "VInt64 x"])
       (simp add: integer64LE_Encode_def integer64LE_Decode_def toInt64_def toInt64Any_def word_wire_simps)
qed (auto simp: integer64LE_Decode_def split: if_splits)

lemma asFloat32_quiet: "quiet v \<Longrightarrow> asFloat32 v = Some f \<Longrightarrow> asFloat32 (VFloat64 (f32_to_f64 f)) = Some f"
  by (cases v) (auto simp: asFloat32_def f64_to_f32_to_f64 f64_to_f32_quiet)

interpretation f32be: codec_law float32BE_Encode float32BE_Decode
proof
  fix v bs assume "quiet v" "float32BE_Encode v = Inr bs"
  then obtain f :: "32 word" where "bs = be_bytes 4 (unat f)" "asFloat32 (VFloat64 (f32_to_f64 f)) = Some f"
    by (auto simp: float32BE_Encode_def dest: asFloat32_quiet split: option.splits)
  then show "\<exists>v'. float32BE_Encode v' = Inr bs \<and> (\<forall>rest. float32BE_Decode (bs @ rest) = Inr (v', length bs))"
    by (intro exI [of _ "VFloat64 (f32_to_f64 f)"])
       (simp add: float32BE_Encode_def float32BE_Decode_def word_wire_simps)
qed (auto simp: float32BE_Decode_def split: if_splits)

interpretation f32le: codec_law float32LE_Encode float32LE_Decode
proof
  fix v bs assume "quiet v" "float32LE_Encode v = Inr bs"
  then obtain f :: "32 word" where "bs = le_bytes 4 (unat f)" "asFloat32 (VFloat64 (f32_to_f64 f)) = Some f"
    by (auto simp: float32LE_Encode_def dest: asFloat32_quiet split: option.splits)
  then show "\<exists>v'. float32LE_Encode v' = Inr bs \<and> (\<forall>rest. float32LE_Decode (bs @ rest) = Inr (v', length bs))"
    by (intro exI [of _ "VFloat64 (f32_to_f64 f)"])
       (simp add: float32LE_Encode_def float32LE_Decode_def word_wire_simps)
qed (auto simp: float32LE_Decode_def split: if_splits)

interpretation f64be: codec_law float64BE_Encode float64BE_Decode
proof
  fix v bs assume "float64BE_Encode v = Inr bs"
  then obtain f :: "64 word" where "bs = be_bytes 8 (unat f)" by (auto simp: float64BE_Encode_def split: option.splits)
  then show "\<exists>v'. float64BE_Encode v' = Inr bs \<and> (\<forall>rest. float64BE_Decode (bs @ rest) = Inr (v', length bs))"
    by (intro exI [of _ "VFloat64 f"])
       (simp add: float64BE_Encode_def float64BE_Decode_def asFloat64_def word_wire_simps)
qed (auto simp: float64BE_Decode_def split: if_splits)

interpretation f64le: codec_law float64LE_Encode float64LE_Decode
proof
  fix v bs assume "float64LE_Encode v = Inr bs"
  then obtain f :: "64 word" where "bs = le_bytes 8 (unat f)" by (auto simp: float64LE_Encode_def split: option.splits)
  then show "\<exists>v'. float64LE_Encode v' = Inr bs \<and> (\<forall>rest. float64LE_Decode (bs @ rest) = Inr (v', length bs))"
    by (intro exI [of _ "VFloat64 f"])
       (simp add: float64LE_Encode_def float64LE_Decode_def asFloat64_def word_wire_simps)
qed (auto simp: float64LE_Decode_def split: if_splits)

interpretation oct: codec_law octet_Encode octet_Decode
proof
  fix v bs assume "octet_Encode v = Inr bs"
  then obtain b where "bs = [b]" by (auto simp: octet_Encode_def result_simps)
  then show "\<exists>v'. octet_Encode v' = Inr bs \<and> (\<forall>rest. octet_Decode (bs @ rest) = Inr (v', length bs))"
    by (intro exI [of _ "VByte b"]) (simp add: octet_Encode_def octetFromAny_def octet_Decode_def)
qed (auto simp: octet_Decode_def split: list.splits)

interpretation pairbe: codec_law octetPairBE_Encode octetPairBE_Decode
proof
  fix v bs assume "octetPairBE_Encode v = Inr bs"
  then obtain a b where "bs = [a, b]" by (auto simp: octetPairBE_Encode_def result_simps)
  then show "\<exists>v'. octetPairBE_Encode v' = Inr bs \<and> (\<forall>rest. octetPairBE_Decode (bs @ rest) = Inr (v', length bs))"
    by (intro exI [of _ "VPair a b"]) (simp add: octetPairBE_Encode_def octetPairBytes_def octetPairBE_Decode_def)
qed (auto simp: octetPairBE_Decode_def split: list.splits)

interpretation pairle: codec_law octetPairLE_Encode octetPairLE_Decode
proof
  fix v bs assume "octetPairLE_Encode v = Inr bs"
  then obtain a b where "bs = [b, a]" by (auto simp: octetPairLE_Encode_def result_simps)
  then show "\<exists>v'. octetPairLE_Encode v' = Inr bs \<and> (\<forall>rest. octetPairLE_Decode (bs @ rest) = Inr (v', length bs))"
    by (intro exI [of _ "VPair a b"]) (simp add: octetPairLE_Encode_def octetPairBytes_def octetPairLE_Decode_def)
qed (auto simp: octetPairLE_Decode_def split: list.splits)

interpretation bool: codec_law boolean_Encode boolean_Decode
proof
  fix v bs assume "boolean_Encode v = Inr bs"
  then obtain x where "bs = (if x then [0, 0, 0, 1] else [0, 0, 0, 0])"
    by (auto simp: boolean_Encode_def split: val.splits)
  then show "\<exists>v'. boolean_Encode v' = Inr bs \<and> (\<forall>rest. boolean_Decode (bs @ rest) = Inr (v', length bs))"
    by (intro exI [of _ "VBool x"]) (simp add: boolean_Encode_def boolean_Decode_def be_val_def)
qed (auto simp: boolean_Decode_def split: if_splits)

lemma unat_word_of_int: "0 \<le> i \<Longrightarrow> i < 256 \<Longrightarrow> unat (word_of_int i :: byte) = nat i"
  by (simp add: unat_eq_nat_uint uint_word_of_int)

lemma unat_7bit_of_sint: "0 \<le> sint (x :: 32 word) \<Longrightarrow> sint x \<le> 0x7F \<Longrightarrow> unat (scast x :: byte) \<le> 0x7F"
  unfolding scast_eq by (subst unat_word_of_int) auto

interpretation asciichar: codec_law ASCIIchar_Encode ASCIIchar_Decode
proof
  fix v bs assume "ASCIIchar_Encode v = Inr bs"
  then obtain c where "bs = [c]" "unat c \<le> 0x7F"
    by (auto simp: ASCIIchar_Encode_def unat_7bit_of_sint split: val.splits list.splits if_splits)
  then show "\<exists>v'. ASCIIchar_Encode v' = Inr bs \<and> (\<forall>rest. ASCIIchar_Decode (bs @ rest) = Inr (v', length bs))"
    by (intro exI [of _ "VString [c]"]) (simp add: ASCIIchar_Encode_def ASCIIchar_Decode_def)
qed (auto simp: ASCIIchar_Decode_def split: list.splits if_splits)

lemma be_val_be_bytes2: "n < 65536 \<Longrightarrow> be_val (be_bytes 2 n) = n"
  by (simp add: be_val_be_bytes)

lemma be_val_be_bytes4: "n \<le> MaxUint32 \<Longrightarrow> be_val (be_bytes 4 n) = n"
  by (simp add: be_val_be_bytes)

lemma bmp_rune_nat: "bmp_rune (int r) \<longleftrightarrow> r < 65536 \<and> \<not> is_surrogate r"
  by (auto simp: bmp_rune_def)

lemma bmp_valid: "bmp_rune (int r) \<Longrightarrow> valid_rune r"
  by (simp add: bmp_rune_nat valid_rune_def)

lemma utf8_decode_single: "valid_rune r \<Longrightarrow> utf8_decode (utf8_encode1 r) = [r]"
  using utf8_decode_encode1 [of r "[]"] by simp

interpretation unichar: codec_law unicodeChar_Encode unicodeChar_Decode
proof
  fix v bs assume "unicodeChar_Encode v = Inr bs"
  then obtain r where r: "bs = be_bytes 2 (nat r)" "bmp_rune r"
    by (auto simp: unicodeChar_Encode_def result_simps split: if_splits)
  define u where "u = nat r"
  have u: "r = int u" "bmp_rune (int u)" using r(2) by (auto simp: u_def bmp_rune_def)
  have "unicodeChar_Encode (VString (utf8_encode1 u)) = Inr bs"
    using u r(1) by (simp add: unicodeChar_Encode_def utf8_decode_single bmp_valid)
  moreover have "unicodeChar_Decode (bs @ rest) = Inr (VString (utf8_encode1 u), length bs)" for rest
    using u r(1) by (simp add: unicodeChar_Decode_def bmp_rune_nat be_val_be_bytes2)
  ultimately show "\<exists>v'. unicodeChar_Encode v' = Inr bs \<and> (\<forall>rest. unicodeChar_Decode (bs @ rest) = Inr (v', length bs))"
    by blast
qed (auto simp: unicodeChar_Decode_def Let_def split: if_splits)

interpretation asciistr: codec_law ASCIIstring_Encode ASCIIstring_Decode
proof
  fix v bs assume "ASCIIstring_Encode v = Inr bs"
  then obtain s where "\<not> (\<exists>c \<in> set s. unat c > 0x7F)" "length s \<le> MaxUint32" "bs = be_bytes 4 (length s) @ s"
    by (auto simp: ASCIIstring_Encode_def split: val.splits if_splits)
  then show "\<exists>v'. ASCIIstring_Encode v' = Inr bs \<and> (\<forall>rest. ASCIIstring_Decode (bs @ rest) = Inr (v', length bs))"
    by (intro exI [of _ "VString s"]) (simp add: ASCIIstring_Encode_def ASCIIstring_Decode_def be_val_be_bytes4)
qed (auto simp: ASCIIstring_Decode_def Let_def split: if_splits)

lemma decode_units_concat:
  "\<forall>r \<in> set rs. bmp_rune (int r) \<Longrightarrow> decode_units (length rs) (concat (map (be_bytes 2) rs) @ rest) = Inr rs"
  by (induction rs) (auto simp: bmp_rune_nat be_val_be_bytes2)

lemma length_concat_units: "length (concat (map (be_bytes 2) rs)) = 2 * length rs"
  by (induction rs) auto

interpretation unistr: codec_law unicodeString_Encode unicodeString_Decode
proof
  fix v bs assume "unicodeString_Encode v = Inr bs"
  then obtain rs where rs: "\<forall>r \<in> set rs. bmp_rune (int r)" "length rs \<le> MaxUint32"
      "bs = be_bytes 4 (length rs) @ concat (map (be_bytes 2) rs)"
    by (auto simp: unicodeString_Encode_def Let_def split: val.splits if_splits)
  have dec_enc: "utf8_decode (utf8_encode rs) = rs" using rs(1) by (simp add: utf8_decode_encode bmp_valid)
  have "unicodeString_Encode (VString (utf8_encode rs)) = Inr bs"
    using rs by (auto simp: unicodeString_Encode_def dec_enc)
  moreover have "unicodeString_Decode (bs @ rest) = Inr (VString (utf8_encode rs), length bs)" for rest
    using rs decode_units_concat [OF rs(1)]
    by (simp add: unicodeString_Decode_def be_val_be_bytes4 length_concat_units)
  ultimately show "\<exists>v'. unicodeString_Encode v' = Inr bs \<and> (\<forall>rest. unicodeString_Decode (bs @ rest) = Inr (v', length bs))"
    by blast
qed (auto simp: unicodeString_Decode_def Let_def result_simps split: if_splits)

interpretation opq: codec_law opaque_Encode opaque_Decode
proof
  fix v bs assume "opaque_Encode v = Inr bs"
  then obtain xs where "length xs \<le> MaxUint32" "bs = be_bytes 4 (length xs) @ xs"
    by (auto simp: opaque_Encode_def result_simps split: if_splits)
  then show "\<exists>v'. opaque_Encode v' = Inr bs \<and> (\<forall>rest. opaque_Decode (bs @ rest) = Inr (v', length bs))"
    by (intro exI [of _ "VBytes xs"]) (simp add: opaque_Encode_def opaque_Decode_def be_val_be_bytes4)
qed (auto simp: opaque_Decode_def Let_def split: if_splits)

section \<open>Padding\<close>

lemma padTo_eq: "padTo b k = b @ replicate (paddingFor (length b) k) 0"
  by (simp add: padTo_def paddingFor_def Let_def)

lemma alignTo_eq: "alignTo pos k = pos + paddingFor pos k"
  by (simp add: alignTo_def paddingFor_def Let_def)

lemma padToBoundary_padTo: "padToBoundary b k = padTo b k"
  by (simp add: padTo_eq padToBoundary_def)

lemma length_padTo [simp]: "length (padTo b k) = alignTo (length b) k"
  by (simp add: padTo_eq alignTo_eq)

lemma padTo_prefix: "\<exists>p. padTo b k = b @ p"
  by (simp add: padTo_eq)

lemma alignTo_least:
  assumes "0 < k"
  shows "pos \<le> alignTo pos k" "k dvd alignTo pos k" "alignTo pos k < pos + k"
proof -
  define r where "r = pos mod k"
  define q where "q = pos div k"
  have pos: "pos = q * k + r" by (simp add: q_def r_def)
  have rk: "r < k" using assms by (simp add: r_def)
  have al: "alignTo pos k = (if r = 0 then pos else pos + (k - r))"
    using rk by (auto simp: alignTo_def Let_def simp flip: r_def)
  show "pos \<le> alignTo pos k" "alignTo pos k < pos + k"
    unfolding al using rk assms by auto
  have "r \<noteq> 0 \<Longrightarrow> pos + (k - r) = (q + 1) * k"
    using rk by (simp add: pos)
  moreover have "r = 0 \<Longrightarrow> pos = q * k" by (simp add: pos)
  ultimately show "k dvd alignTo pos k" unfolding al by (metis dvd_triv_right)
qed

context codec_law
begin

lemma elems_extend: "encode_elems enc b xs out = Inr bs \<Longrightarrow> \<exists>ext. bs = out @ ext"
proof (induction xs arbitrary: out)
  case (Cons x xs)
  then obtain e where "encode_elems enc b xs (padTo out b @ e) = Inr bs"
    by (auto simp: result_simps)
  then obtain ext where "bs = (padTo out b @ e) @ ext" using Cons.IH by blast
  then show ?case using padTo_prefix [of out b] by auto
qed simp

lemma elems_roundtrip:
  assumes "\<forall>x \<in> set xs. quiet x" and "encode_elems enc b xs out = Inr bs"
  shows "\<exists>vs. length vs = length xs \<and> encode_elems enc b vs out = Inr bs \<and>
    (\<forall>rest acc. decode_elems dec b (bs @ rest) (length xs) (length out) acc = Inr (acc @ vs, length bs))"
  using assms
proof (induction xs arbitrary: out)
  case Nil
  then show ?case by simp
next
  case (Cons x xs)
  then obtain e where e: "enc x = Inr e" "encode_elems enc b xs (padTo out b @ e) = Inr bs"
    by (auto simp: result_simps)
  from e(1) Cons.prems(1) obtain v where v: "enc v = Inr e" "\<And>rest. dec (e @ rest) = Inr (v, length e)"
    using roundtrip by (metis list.set_intros(1))
  from Cons.IH [OF _ e(2)] Cons.prems(1) obtain vs where vs: "length vs = length xs"
      "encode_elems enc b vs (padTo out b @ e) = Inr bs"
      "\<And>rest acc. decode_elems dec b (bs @ rest) (length xs) (length (padTo out b @ e)) acc = Inr (acc @ vs, length bs)"
    by auto
  obtain ext where ext: "bs = (padTo out b @ e) @ ext" using elems_extend [OF e(2)] by blast
  have "drop (alignTo (length out) b) (bs @ rest) = e @ ext @ rest" for rest
    unfolding ext by (simp flip: length_padTo)
  moreover have "alignTo (length out) b \<le> length bs" unfolding ext by simp
  ultimately have "decode_elems dec b (bs @ rest) (length (x # xs)) (length out) acc = Inr (acc @ v # vs, length bs)" for rest acc
    using vs(3) by (simp add: v(2))
  moreover have "encode_elems enc b (v # vs) out = Inr bs" using v(1) vs(2) by simp
  ultimately show ?case using vs(1) by (metis length_Cons)
qed

lemma elems_consumes:
  "decode_elems dec b bs k pos acc = Inr (vs, n) \<Longrightarrow> pos \<le> length bs \<Longrightarrow> n \<le> length bs"
proof (induction k arbitrary: pos acc)
  case (Suc k)
  then obtain v m where "alignTo pos b \<le> length bs" "dec (drop (alignTo pos b) bs) = Inr (v, m)"
      "decode_elems dec b bs k (alignTo pos b + m) (acc @ [v]) = Inr (vs, n)"
    by (auto simp: result_simps Let_def split: if_splits)
  with Suc.IH show ?case using consumes by fastforce
qed simp

end

section \<open>The composites\<close>

abbreviation lawful :: "codec \<Rightarrow> bool" where
  "lawful c \<equiv> codec_law (Encode c) (Decode c)"

lemma fields_wf_iff: "fields_wf fs \<longleftrightarrow> (\<forall>(n, c) \<in> set fs. codec_wf c)"
  by (induction fs) auto

lemma alts_wf_iff: "alts_wf alts \<longleftrightarrow> (\<forall>(k, c) \<in> set alts. codec_wf c)"
  by (induction alts) auto

lemma quiet_map_of: "\<forall>kv \<in> set m. quiet (snd kv) \<Longrightarrow> map_of m k = Some v \<Longrightarrow> quiet v"
  by (force dest: map_of_SomeD)

lemma fields_extend: "encode_fields fs m out = Inr bs \<Longrightarrow> \<exists>ext. bs = out @ ext"
proof (induction fs arbitrary: out)
  case (Cons f fs)
  obtain name c where f: "f = (name, c)" by (cases f)
  with Cons.prems obtain fb where "encode_fields fs m (padTo out (OctetBoundary c) @ fb) = Inr bs"
    by (auto simp: result_simps padToBoundary_padTo split: option.splits)
  then obtain ext where "bs = (padTo out (OctetBoundary c) @ fb) @ ext" using Cons.IH by blast
  then show ?case using padTo_prefix [of out "OctetBoundary c"] by auto
qed simp

lemma fields_roundtrip:
  assumes "\<forall>(n, c) \<in> set fs. lawful c" and "distinct (map fst fs)"
    and "\<forall>kv \<in> set m. quiet (snd kv)" and "encode_fields fs m out = Inr bs"
  shows "\<exists>vs. length vs = length fs \<and>
    (\<forall>rest acc. fst ` set acc \<inter> fst ` set fs = {} \<longrightarrow>
       decode_fields fs (bs @ rest) (length out) acc = Inr (VMap (acc @ zip (map fst fs) vs), length bs)) \<and>
    (\<forall>m'. (\<forall>i < length fs. map_of m' (fst (fs ! i)) = Some (vs ! i)) \<longrightarrow> encode_fields fs m' out = Inr bs)"
  using assms
proof (induction fs arbitrary: out)
  case Nil
  then show ?case by simp
next
  case (Cons f fs)
  obtain name c where f: "f = (name, c)" by (cases f)
  let ?out = "padTo out (OctetBoundary c)"
  from Cons.prems(4) f obtain fv fb where fv: "map_of m name = Some fv" "Encode c fv = Inr fb"
      and rec: "encode_fields fs m (?out @ fb) = Inr bs"
    by (auto simp: result_simps padToBoundary_padTo split: option.splits)
  have "lawful c" "quiet fv" using Cons.prems(1,3) f fv(1) by (auto intro: quiet_map_of)
  then obtain v where v: "Encode c v = Inr fb" "\<And>rest. Decode c (fb @ rest) = Inr (v, length fb)"
    using codec_law.roundtrip fv(2) by metis
  have prems: "\<forall>(n, c) \<in> set fs. lawful c" "distinct (map fst fs)" using Cons.prems(1,2) by auto
  obtain vs where vs: "length vs = length fs"
      "\<And>rest acc. fst ` set acc \<inter> fst ` set fs = {} \<Longrightarrow>
         decode_fields fs (bs @ rest) (length (?out @ fb)) acc = Inr (VMap (acc @ zip (map fst fs) vs), length bs)"
      "\<And>m'. (\<forall>i < length fs. map_of m' (fst (fs ! i)) = Some (vs ! i)) \<Longrightarrow> encode_fields fs m' (?out @ fb) = Inr bs"
    using Cons.IH [OF prems Cons.prems(3) rec] by blast
  obtain ext where ext: "bs = (?out @ fb) @ ext" using fields_extend [OF rec] by blast
  have al: "length out + paddingFor (length out) (OctetBoundary c) = length ?out" by (simp add: alignTo_eq)
  have dr: "drop (length ?out) bs = fb @ ext" unfolding ext append_assoc by simp
  have le: "length ?out \<le> length bs" unfolding ext by simp
  have "decode_fields (f # fs) (bs @ rest) (length out) acc = Inr (VMap (acc @ zip (map fst (f # fs)) (v # vs)), length bs)"
    if "fst ` set acc \<inter> fst ` set (f # fs) = {}" for rest acc
  proof -
    have acc: "name \<notin> fst ` set acc" "fst ` set (put name v acc) \<inter> fst ` set fs = {}"
      using that f Cons.prems(2) by (auto simp: keys_put)
    have "decode_fields (f # fs) (bs @ rest) (length out) acc =
        decode_fields fs (bs @ rest) (length (?out @ fb)) (put name v acc)"
      using le by (simp add: f Let_def al dr v(2) del: length_padTo)
    also have "\<dots> = Inr (VMap (acc @ zip (map fst (f # fs)) (v # vs)), length bs)"
      using vs(2) [OF acc(2)] put_absent [OF acc(1), of v] by (simp add: f)
    finally show ?thesis .
  qed
  moreover have "encode_fields (f # fs) m' out = Inr bs"
    if "\<forall>i < length (f # fs). map_of m' (fst ((f # fs) ! i)) = Some ((v # vs) ! i)" for m'
  proof -
    have "map_of m' name = Some v" using that f by (metis fst_conv length_Cons nth_Cons_0 zero_less_Suc)
    moreover have "\<forall>i < length fs. map_of m' (fst (fs ! i)) = Some (vs ! i)" using that by auto
    ultimately show ?thesis using v(1) vs(3) by (simp add: f padToBoundary_padTo)
  qed
  ultimately show ?case using vs(1) by (intro exI [of _ "v # vs"]) simp
qed

lemma fields_consumes:
  "\<forall>(n, c) \<in> set fs. lawful c \<Longrightarrow> decode_fields fs bs pos acc = Inr (v, n) \<Longrightarrow> pos \<le> length bs \<Longrightarrow> n \<le> length bs"
proof (induction fs arbitrary: pos acc)
  case (Cons f fs)
  obtain name c where f: "f = (name, c)" by (cases f)
  let ?pos = "pos + paddingFor pos (OctetBoundary c)"
  from Cons.prems(2) obtain w k where w: "?pos \<le> length bs" "Decode c (drop ?pos bs) = Inr (w, k)"
      "decode_fields fs bs (?pos + k) (put name w acc) = Inr (v, n)"
    by (auto simp: f result_simps Let_def split: if_splits)
  have "lawful c" using Cons.prems(1) f by simp
  then have "k \<le> length (drop ?pos bs)" using w(2) by (rule codec_law.consumes)
  then have "?pos + k \<le> length bs" using w(1) by simp
  then show ?case using Cons.IH [OF _ w(3)] Cons.prems(1) by simp
qed simp

lemma alt_roundtrip:
  assumes "\<forall>(k, c) \<in> set alts. lawful c" and "quiet val" and "encode_alt alts dv db val = Inr bs"
  shows "\<exists>v. (\<exists>ext. bs = db @ ext) \<and> encode_alt alts dv db v = Inr bs \<and>
    (\<forall>rest. decode_alt alts dv (length db) (bs @ rest) =
       Inr (VMap [(''discriminator'', dv), (''value'', v)], length bs))"
  using assms
proof (induction alts)
  case (Cons a alts)
  obtain k c where a: "a = (k, c)" by (cases a)
  show ?case
  proof (cases "key_eq k dv")
    case False
    then show ?thesis using Cons a by auto
  next
    case True
    let ?out = "padTo db (OctetBoundary c)"
    obtain ab where ab: "Encode c val = Inr ab" "bs = ?out @ ab"
      using Cons.prems(3) True by (auto simp: a result_simps padToBoundary_padTo Let_def)
    have "lawful c" using Cons.prems(1) a by simp
    then obtain v where v: "Encode c v = Inr ab" "\<And>rest. Decode c (ab @ rest) = Inr (v, length ab)"
      using codec_law.roundtrip ab(1) Cons.prems(2) by metis
    have al: "length db + paddingFor (length db) (OctetBoundary c) = length ?out" by (simp add: alignTo_eq)
    have "encode_alt (a # alts) dv db v = Inr bs"
      using True v(1) ab(2) by (simp add: a padToBoundary_padTo)
    moreover have "decode_alt (a # alts) dv (length db) (bs @ rest) =
        Inr (VMap [(''discriminator'', dv), (''value'', v)], length bs)" for rest
      using True v(2) by (simp add: a Let_def al ab(2) del: length_padTo)
    moreover have "\<exists>ext. bs = db @ ext" using ab(2) padTo_prefix [of db "OctetBoundary c"] by auto
    ultimately show ?thesis by blast
  qed
qed simp

lemma alt_consumes:
  "\<forall>(k, c) \<in> set alts. lawful c \<Longrightarrow> decode_alt alts dv dn bs = Inr (v, n) \<Longrightarrow> n \<le> length bs"
proof (induction alts)
  case (Cons a alts)
  obtain k c where a: "a = (k, c)" by (cases a)
  show ?case
  proof (cases "key_eq k dv")
    case True
    let ?pos = "dn + paddingFor dn (OctetBoundary c)"
    obtain w m where w: "?pos \<le> length bs" "Decode c (drop ?pos bs) = Inr (w, m)" "n = ?pos + m"
      using Cons.prems(2) True by (auto simp: a result_simps Let_def split: if_splits)
    have "lawful c" using Cons.prems(1) a by simp
    then have "m \<le> length (drop ?pos bs)" using w(2) by (rule codec_law.consumes)
    then show ?thesis using w by simp
  next
    case False
    then show ?thesis using Cons a by auto
  qed
qed simp

lemma lawful_FixedArray:
  assumes "lawful c" "\<not> make_panics n" shows "lawful (FixedArray c n)"
proof
  fix v bs assume v: "quiet v" "Encode (FixedArray c n) v = Inr bs"
  then obtain xs where xs: "v = VList xs" "length xs = n" "encode_elems (Encode c) (OctetBoundary c) xs [] = Inr bs"
    by (auto split: val.splits if_splits)
  obtain vs where "length vs = n" "encode_elems (Encode c) (OctetBoundary c) vs [] = Inr bs"
     "\<And>rest acc. decode_elems (Decode c) (OctetBoundary c) (bs @ rest) n 0 acc = Inr (acc @ vs, length bs)"
    using codec_law.elems_roundtrip [OF assms(1) _ xs(3)] v(1) xs(1,2) by auto
  then show "\<exists>v'. Encode (FixedArray c n) v' = Inr bs \<and> (\<forall>rest. Decode (FixedArray c n) (bs @ rest) = Inr (v', length bs))"
    using assms(2) by (intro exI [of _ "VList vs"]) simp
next
  fix bs v m assume "Decode (FixedArray c n) bs = Inr (v, m)"
  then show "m \<le> length bs"
    by (auto simp: result_simps dest: codec_law.elems_consumes [OF assms(1)] split: if_splits)
qed

lemma lawful_VariableArray:
  assumes "lawful c" shows "lawful (VariableArray c)"
proof
  fix v bs assume v: "quiet v" "Encode (VariableArray c) v = Inr bs"
  then obtain xs where xs: "v = VList xs" "length xs \<le> MaxUint32"
      "encode_elems (Encode c) (OctetBoundary c) xs (be_bytes 4 (length xs)) = Inr bs"
    by (auto split: val.splits if_splits)
  obtain vs where vs: "length vs = length xs"
     "encode_elems (Encode c) (OctetBoundary c) vs (be_bytes 4 (length xs)) = Inr bs"
     "\<And>rest acc. decode_elems (Decode c) (OctetBoundary c) (bs @ rest) (length xs) 4 acc = Inr (acc @ vs, length bs)"
    using codec_law.elems_roundtrip [OF assms _ xs(3)] v(1) xs(1) by auto
  obtain ext where ext: "bs = be_bytes 4 (length xs) @ ext"
    using codec_law.elems_extend [OF assms xs(3)] by blast
  then have "take 4 (bs @ rest) = be_bytes 4 (length xs)" "4 \<le> length bs" for rest by simp_all
  then show "\<exists>v'. Encode (VariableArray c) v' = Inr bs \<and> (\<forall>rest. Decode (VariableArray c) (bs @ rest) = Inr (v', length bs))"
    using vs xs(2) by (intro exI [of _ "VList vs"]) (simp add: be_val_be_bytes4)
next
  fix bs v m assume "Decode (VariableArray c) bs = Inr (v, m)"
  then show "m \<le> length bs"
    by (auto simp: result_simps dest: codec_law.elems_consumes [OF assms] split: if_splits)
qed

lemma lawful_FixedRecord:
  assumes "\<forall>(n, c) \<in> set fs. lawful c" "distinct (map fst fs)"
  shows "lawful (FixedRecord fs)"
proof
  fix v bs assume v: "quiet v" "Encode (FixedRecord fs) v = Inr bs"
  then obtain m where m: "v = VMap m" "encode_fields fs m [] = Inr bs"
    by (auto split: val.splits)
  have q: "\<forall>kv \<in> set m. quiet (snd kv)" using v(1) m(1) by simp
  obtain vs where vs: "length vs = length fs"
      "\<And>rest. decode_fields fs (bs @ rest) 0 [] = Inr (VMap (zip (map fst fs) vs), length bs)"
      "\<And>m'. (\<forall>i < length fs. map_of m' (fst (fs ! i)) = Some (vs ! i)) \<Longrightarrow> encode_fields fs m' [] = Inr bs"
    using fields_roundtrip [OF assms q m(2)] by fastforce
  have "\<forall>i < length fs. map_of (zip (map fst fs) vs) (fst (fs ! i)) = Some (vs ! i)"
    using map_of_zip_nth [of "map fst fs" vs] assms(2) vs(1) by simp
  then show "\<exists>v'. Encode (FixedRecord fs) v' = Inr bs \<and> (\<forall>rest. Decode (FixedRecord fs) (bs @ rest) = Inr (v', length bs))"
    using vs by (intro exI [of _ "VMap (zip (map fst fs) vs)"]) simp
next
  fix bs v m assume "Decode (FixedRecord fs) bs = Inr (v, m)"
  then show "m \<le> length bs" using fields_consumes [OF assms(1)] by simp
qed

lemma lawful_VariantRecord:
  assumes "lawful d" "\<forall>(k, c) \<in> set alts. lawful c"
  shows "lawful (VariantRecord d alts)"
proof
  fix v bs assume v: "quiet v" "Encode (VariantRecord d alts) v = Inr bs"
  then obtain m dv val db canon n where m: "v = VMap m" "map_of m ''discriminator'' = Some dv"
      "map_of m ''value'' = Some val" "Encode d dv = Inr db" "Decode d db = Inr (canon, n)"
      "hashable canon" "encode_alt alts canon db val = Inr bs"
    by (auto simp: result_simps split: val.splits option.splits if_splits)
  have q: "quiet dv" "quiet val" using v(1) m(1-3) by (auto intro: quiet_map_of)
  obtain d' where d': "Encode d d' = Inr db" "\<And>rest. Decode d (db @ rest) = Inr (d', length db)"
    using codec_law.roundtrip [OF assms(1) q(1) m(4)] by blast
  have canon: "d' = canon" using d'(2) [of "[]"] m(5) by simp
  obtain w ext where w: "bs = db @ ext" "encode_alt alts canon db w = Inr bs"
      "\<And>rest. decode_alt alts canon (length db) (bs @ rest) =
        Inr (VMap [(''discriminator'', canon), (''value'', w)], length bs)"
    using alt_roundtrip [OF assms(2) q(2) m(7)] by blast
  have "Decode (VariantRecord d alts) (bs @ rest) = Inr (VMap [(''discriminator'', canon), (''value'', w)], length bs)" for rest
    using d'(2) [of "ext @ rest"] w(1) w(3) [of rest] m(6) canon by simp
  moreover have "Encode (VariantRecord d alts) (VMap [(''discriminator'', canon), (''value'', w)]) = Inr bs"
    using d' canon m(5,6) w(2) by simp
  ultimately show "\<exists>v'. Encode (VariantRecord d alts) v' = Inr bs \<and>
      (\<forall>rest. Decode (VariantRecord d alts) (bs @ rest) = Inr (v', length bs))"
    by blast
next
  fix bs v m assume "Decode (VariantRecord d alts) bs = Inr (v, m)"
  then show "m \<le> length bs"
    using alt_consumes [OF assms(2)] by (auto simp: result_simps split: if_splits)
qed

lemmas primitive_laws =
  int16be.codec_law_axioms int16le.codec_law_axioms int32be.codec_law_axioms int32le.codec_law_axioms
  int64be.codec_law_axioms int64le.codec_law_axioms f32be.codec_law_axioms f32le.codec_law_axioms
  f64be.codec_law_axioms f64le.codec_law_axioms oct.codec_law_axioms pairbe.codec_law_axioms
  pairle.codec_law_axioms bool.codec_law_axioms asciichar.codec_law_axioms unichar.codec_law_axioms
  asciistr.codec_law_axioms unistr.codec_law_axioms opq.codec_law_axioms

lemma Encode_prim_eta:
  "Encode HLAinteger16BE = integer16BE_Encode" "Decode HLAinteger16BE = integer16BE_Decode"
  "Encode HLAinteger16LE = integer16LE_Encode" "Decode HLAinteger16LE = integer16LE_Decode"
  "Encode HLAinteger32BE = integer32BE_Encode" "Decode HLAinteger32BE = integer32BE_Decode"
  "Encode HLAinteger32LE = integer32LE_Encode" "Decode HLAinteger32LE = integer32LE_Decode"
  "Encode HLAinteger64BE = integer64BE_Encode" "Decode HLAinteger64BE = integer64BE_Decode"
  "Encode HLAinteger64LE = integer64LE_Encode" "Decode HLAinteger64LE = integer64LE_Decode"
  "Encode HLAfloat32BE = float32BE_Encode" "Decode HLAfloat32BE = float32BE_Decode"
  "Encode HLAfloat32LE = float32LE_Encode" "Decode HLAfloat32LE = float32LE_Decode"
  "Encode HLAfloat64BE = float64BE_Encode" "Decode HLAfloat64BE = float64BE_Decode"
  "Encode HLAfloat64LE = float64LE_Encode" "Decode HLAfloat64LE = float64LE_Decode"
  "Encode HLAoctet = octet_Encode" "Decode HLAoctet = octet_Decode"
  "Encode HLAoctetPairBE = octetPairBE_Encode" "Decode HLAoctetPairBE = octetPairBE_Decode"
  "Encode HLAoctetPairLE = octetPairLE_Encode" "Decode HLAoctetPairLE = octetPairLE_Decode"
  "Encode HLAboolean = boolean_Encode" "Decode HLAboolean = boolean_Decode"
  "Encode HLAASCIIchar = ASCIIchar_Encode" "Decode HLAASCIIchar = ASCIIchar_Decode"
  "Encode HLAunicodeChar = unicodeChar_Encode" "Decode HLAunicodeChar = unicodeChar_Decode"
  "Encode HLAASCIIstring = ASCIIstring_Encode" "Decode HLAASCIIstring = ASCIIstring_Decode"
  "Encode HLAunicodeString = unicodeString_Encode" "Decode HLAunicodeString = unicodeString_Decode"
  "Encode OpaqueData = opaque_Encode" "Decode OpaqueData = opaque_Decode"
  by (simp_all add: fun_eq_iff)

lemma codec_lawful: "codec_wf c \<Longrightarrow> lawful c"
proof (induction c)
  case (FixedRecord fs)
  then have "\<forall>(n, c) \<in> set fs. lawful c" by (fastforce simp: fields_wf_iff)
  then show ?case using FixedRecord.prems by (intro lawful_FixedRecord) simp_all
next
  case (VariantRecord d alts)
  then have "\<forall>(k, c) \<in> set alts. lawful c" by (fastforce simp: alts_wf_iff)
  then show ?case using VariantRecord by (intro lawful_VariantRecord) simp_all
next
  case (FixedArray c n)
  then show ?case by (intro lawful_FixedArray) simp_all
qed (simp_all only: codec_wf.simps lawful_VariableArray Encode_prim_eta primitive_laws)

end
