(* ===== verification/Codec_Dispatch.thy ===== *)
theory Codec_Dispatch
  imports Codec_Laws
begin

text \<open>
  Choosing the codec for a data-type descriptor: \<open>codec.go\<close> (the primitive registry) and
  \<open>dispatch.go\<close>, over the FOM data types of \<open>rti/pkg/fom/model/dataclass.go\<close> and over
  JSON-shaped descriptors.
\<close>

section \<open>FOM data types\<close>

record OptionalString =
  os_Value :: string
  os_Present :: bool

record BasicData =
  bd_NameField :: string
  bd_Size :: int
  bd_Endian :: string
  bd_Interpretation :: string
  bd_Encoding :: string

record SimpleData =
  sd_NameField :: string
  sd_Representation :: string
  sd_Units :: string
  sd_Resolution :: string
  sd_Accuracy :: string
  sd_Semantics :: OptionalString

record Enumerator =
  en_Name :: string
  en_Values :: string
  en_ValueList :: "string list"

record EnumeratedData =
  ed_NameField :: string
  ed_Representation :: string
  ed_Enumerators :: "Enumerator list"
  ed_Semantics :: OptionalString

record ArrayData =
  ad_NameField :: string
  ad_DataType :: string
  ad_Cardinality :: string
  ad_Encoding :: string
  ad_Semantics :: OptionalString

record RecordField =
  rf_Name :: string
  rf_DataType :: string
  rf_Semantics :: OptionalString

record FixedRecordData =
  fr_NameField :: string
  fr_Fields :: "RecordField list"
  fr_Encoding :: string
  fr_Semantics :: OptionalString

record VariantAlternative =
  va_Enumerator :: string
  va_Name :: string
  va_DataType :: string
  va_Semantics :: OptionalString

record VariantRecordData =
  vr_NameField :: string
  vr_DiscriminantName :: string
  vr_DiscriminantType :: string
  vr_Alternatives :: "VariantAlternative list"
  vr_Encoding :: string
  vr_Semantics :: OptionalString

text \<open>A data type is a pointer to one of the records; \<open>NilData\<close> is a nil pointer of one of these types.\<close>

datatype data_type =
    NilData
  | Basic BasicData
  | Simple SimpleData
  | Enumerated EnumeratedData
  | Array ArrayData
  | FixedRec FixedRecordData
  | VariantRec VariantRecordData

section \<open>The primitive registry\<close>

definition primitiveCodecs :: "(string \<times> codec) list" where
  "primitiveCodecs =
    [(''HLAinteger16BE'', HLAinteger16BE), (''HLAinteger16LE'', HLAinteger16LE),
     (''HLAinteger32BE'', HLAinteger32BE), (''HLAinteger32LE'', HLAinteger32LE),
     (''HLAinteger64BE'', HLAinteger64BE), (''HLAinteger64LE'', HLAinteger64LE),
     (''HLAfloat32BE'', HLAfloat32BE), (''HLAfloat32LE'', HLAfloat32LE),
     (''HLAfloat64BE'', HLAfloat64BE), (''HLAfloat64LE'', HLAfloat64LE),
     (''HLAoctet'', HLAoctet), (''HLAoctetPairBE'', HLAoctetPairBE), (''HLAoctetPairLE'', HLAoctetPairLE),
     (''HLAboolean'', HLAboolean), (''HLAASCIIchar'', HLAASCIIchar), (''HLAunicodeChar'', HLAunicodeChar),
     (''HLAASCIIstring'', HLAASCIIstring), (''HLAunicodeString'', HLAunicodeString)]"

definition PrimitiveByName :: "string \<Rightarrow> enc_error + codec" where
  "PrimitiveByName name =
     (case map_of primitiveCodecs name of Some c \<Rightarrow> Inr c | None \<Rightarrow> Inl ErrDescriptor)"

definition NewFixedArray :: "codec \<Rightarrow> int \<Rightarrow> enc_error + codec" where
  "NewFixedArray elem n = (if n < 0 then Inl Panic else Inr (FixedArray elem (nat n)))"

section \<open>Discriminant values\<close>

definition toInt64Loose :: "val \<Rightarrow> enc_error + 64 word" where
  "toInt64Loose v =
     (case v of
        VString x \<Rightarrow> (case parse_int x of None \<Rightarrow> Inl ErrDescriptor | Some i \<Rightarrow> Inr (word_of_int i))
      | VFloat64 x \<Rightarrow>
          let i = f64_to_int64 x in if \<not> f64_eq (int64_to_f64 i) x then Inl ErrDescriptor else Inr i
      | VInt x \<Rightarrow> Inr x
      | VInt32 x \<Rightarrow> Inr (word_of_int (sint x))
      | VInt64 x \<Rightarrow> Inr x
      | _ \<Rightarrow> Inl ErrDescriptor)"

definition parseDiscInt16 :: "val \<Rightarrow> enc_error + val" where
  "parseDiscInt16 raw = bindR (toInt64Loose raw) (\<lambda>f.
     bindR (toInt16 (VInt64 f)) (\<lambda>x. Inr (VInt32 (word_of_int (sint x)))))"

definition parseDiscInt32 :: "val \<Rightarrow> enc_error + val" where
  "parseDiscInt32 raw = bindR (toInt64Loose raw) (\<lambda>f.
     bindR (toInt32 (VInt64 f)) (\<lambda>x. Inr (VInt32 x)))"

definition parseDiscInt64 :: "val \<Rightarrow> enc_error + val" where
  "parseDiscInt64 raw = bindR (toInt64Loose raw) (\<lambda>f. Inr (VInt64 f))"

definition parseDiscOctet :: "val \<Rightarrow> enc_error + val" where
  "parseDiscOctet raw = bindR (toInt64Loose raw) (\<lambda>f.
     if sint f < 0 \<or> sint f > 255 then Inl ErrDescriptor else Inr (VByte (word_of_int (sint f))))"

definition parseDiscBool :: "val \<Rightarrow> enc_error + val" where
  "parseDiscBool raw =
     (case raw of
        VBool x \<Rightarrow> Inr (VBool x)
      | VFloat64 x \<Rightarrow> Inr (VBool (\<not> f64_eq x 0))
      | VString x \<Rightarrow> (case parse_bool x of None \<Rightarrow> Inl ErrDescriptor | Some b \<Rightarrow> Inr (VBool b))
      | _ \<Rightarrow> Inl ErrDescriptor)"

definition parseDiscriminantValue :: "string \<Rightarrow> val \<Rightarrow> enc_error + val" where
  "parseDiscriminantValue discName raw =
     (if discName = ''HLAinteger16BE'' \<or> discName = ''HLAinteger16LE'' then parseDiscInt16 raw
      else if discName = ''HLAinteger32BE'' \<or> discName = ''HLAinteger32LE'' then parseDiscInt32 raw
      else if discName = ''HLAinteger64BE'' \<or> discName = ''HLAinteger64LE'' then parseDiscInt64 raw
      else if discName = ''HLAoctet'' then parseDiscOctet raw
      else if discName = ''HLAboolean'' then parseDiscBool raw
      else Inl ErrDescriptor)"

section \<open>Descriptors from the FOM\<close>

definition unsupported :: "enc_error + 'a \<Rightarrow> enc_error + 'a" where
  "unsupported r = (case r of Inl e \<Rightarrow> Inl ErrCodecForUnsupported | Inr x \<Rightarrow> Inr x)"

definition modelArray :: "ArrayData \<Rightarrow> enc_error + codec" where
  "modelArray d = bindR (unsupported (PrimitiveByName (ad_DataType d))) (\<lambda>elem.
     if ad_Cardinality d = ''Dynamic'' then Inr (VariableArray elem)
     else case parse_int (bytes_of_string (ad_Cardinality d)) of
        None \<Rightarrow> Inl ErrDescriptor
      | Some n \<Rightarrow> if n < 0 then Inl ErrDescriptor else NewFixedArray elem n)"

fun modelFields :: "RecordField list \<Rightarrow> (string \<times> codec) list \<Rightarrow> enc_error + (string \<times> codec) list" where
  "modelFields [] acc = Inr acc"
| "modelFields (f # fs) acc = bindR (unsupported (PrimitiveByName (rf_DataType f))) (\<lambda>fc.
     modelFields fs (acc @ [(rf_Name f, fc)]))"

definition modelFixedRecord :: "FixedRecordData \<Rightarrow> enc_error + codec" where
  "modelFixedRecord d = bindR (modelFields (fr_Fields d) []) (\<lambda>fs. Inr (FixedRecord fs))"

fun modelAlts :: "string \<Rightarrow> VariantAlternative list \<Rightarrow> (val \<times> codec) list \<Rightarrow> enc_error + (val \<times> codec) list" where
  "modelAlts disc [] alts = Inr alts"
| "modelAlts disc (a # as) alts =
     bindR (parseDiscriminantValue disc (VString (bytes_of_string (va_Enumerator a)))) (\<lambda>key.
     bindR (unsupported (PrimitiveByName (va_DataType a))) (\<lambda>altCodec.
       modelAlts disc as (put key altCodec alts)))"

definition modelVariantRecord :: "VariantRecordData \<Rightarrow> enc_error + codec" where
  "modelVariantRecord d = bindR (unsupported (PrimitiveByName (vr_DiscriminantType d))) (\<lambda>disc.
     bindR (modelAlts (vr_DiscriminantType d) (vr_Alternatives d) []) (\<lambda>alts.
       Inr (VariantRecord disc alts)))"

text \<open>Every branch reads a field of the record first, so a nil pointer panics.\<close>

fun codecForModel :: "data_type \<Rightarrow> enc_error + codec" where
  "codecForModel NilData = Inl Panic"
| "codecForModel (Basic d) = PrimitiveByName (bd_NameField d)"
| "codecForModel (Simple d) = PrimitiveByName (sd_Representation d)"
| "codecForModel (Enumerated d) = PrimitiveByName (ed_Representation d)"
| "codecForModel (Array d) = modelArray d"
| "codecForModel (FixedRec d) = modelFixedRecord d"
| "codecForModel (VariantRec d) = modelVariantRecord d"

section \<open>JSON-shaped descriptors\<close>

definition string_of_bytes :: "bytes \<Rightarrow> string" where
  "string_of_bytes b = map (\<lambda>x. char_of (unat x)) b"

definition jsonCardinality :: "val \<Rightarrow> enc_error + int" where
  "jsonCardinality v =
     (case v of
        VFloat64 x \<Rightarrow>
          let n = f64_to_int64 x in
          if \<not> f64_eq (int64_to_f64 n) x \<or> sint n < 0 then Inl ErrDescriptor else Inr (sint n)
      | VInt x \<Rightarrow> if sint x < 0 then Inl ErrDescriptor else Inr (sint x)
      | VInt64 x \<Rightarrow> if sint x < 0 then Inl ErrDescriptor else Inr (sint x)
      | _ \<Rightarrow> Inl ErrDescriptor)"

text \<open>The recursion descends into strictly smaller descriptors.\<close>

lemma size_map_of: "map_of m k = Some v \<Longrightarrow> size v < size (VMap m)"
proof (induction m)
  case (Cons kv m)
  then show ?case by (cases kv) (auto split: if_splits)
qed simp

fun jmeasure :: "((((string \<times> val) list + (string \<times> val) list) + ((string \<times> val) list + (string \<times> val) list)) +
    (((string \<times> val) list + val option) +
     ((val list \<times> (string \<times> codec) list) + (string \<times> val list \<times> (val \<times> codec) list)))) \<Rightarrow> nat" where
  "jmeasure (Inl (Inl (Inl m))) = 4 * size (VMap m) + 1"
| "jmeasure (Inl (Inl (Inr m))) = 4 * size (VMap m)"
| "jmeasure (Inl (Inr (Inl m))) = 4 * size (VMap m)"
| "jmeasure (Inl (Inr (Inr m))) = 4 * size (VMap m)"
| "jmeasure (Inr (Inl (Inl m))) = 4 * size (VMap m)"
| "jmeasure (Inr (Inl (Inr None))) = 0"
| "jmeasure (Inr (Inl (Inr (Some w)))) = 4 * size w + 2"
| "jmeasure (Inr (Inr (Inl (xs, _)))) = 4 * size_list size xs"
| "jmeasure (Inr (Inr (Inr (_, xs, _)))) = 4 * size_list size xs"

lemma jmeasure_element: "jmeasure (Inr (Inl (Inr (map_of m k)))) < 4 * size (VMap m)"
  using size_map_of [of m k] by (cases "map_of m k") fastforce+

lemma jmeasure_list: "map_of m k = Some (VList xs) \<Longrightarrow> size_list size xs < size (VMap m)"
  using size_map_of [of m k "VList xs"] by simp

function codecForJSON :: "(string \<times> val) list \<Rightarrow> enc_error + codec"
  and jsonFixedArray :: "(string \<times> val) list \<Rightarrow> enc_error + codec"
  and jsonVariableArray :: "(string \<times> val) list \<Rightarrow> enc_error + codec"
  and jsonFixedRecord :: "(string \<times> val) list \<Rightarrow> enc_error + codec"
  and jsonVariantRecord :: "(string \<times> val) list \<Rightarrow> enc_error + codec"
  and jsonElement :: "val option \<Rightarrow> enc_error + codec"
  and jsonFields :: "val list \<Rightarrow> (string \<times> codec) list \<Rightarrow> enc_error + (string \<times> codec) list"
  and jsonAlts :: "string \<Rightarrow> val list \<Rightarrow> (val \<times> codec) list \<Rightarrow> enc_error + (val \<times> codec) list" where
  "codecForJSON m =
     (case map_of m ''kind'' of
        Some (VString k) \<Rightarrow>
          let kind = string_of_bytes k in
          if kind = ''HLAfixedArray'' then jsonFixedArray m
          else if kind = ''HLAvariableArray'' then jsonVariableArray m
          else if kind = ''HLAfixedRecord'' then jsonFixedRecord m
          else if kind = ''HLAvariantRecord'' then jsonVariantRecord m
          else if kind = ''HLAopaqueData'' then Inr OpaqueData
          else Inl ErrDescriptor
      | _ \<Rightarrow> Inl ErrDescriptor)"
| "jsonFixedArray m =
     bindR (jsonElement (map_of m ''element'')) (\<lambda>elem.
       case map_of m ''cardinality'' of
         None \<Rightarrow> Inl ErrDescriptor
       | Some cd \<Rightarrow> bindR (jsonCardinality cd) (\<lambda>n. NewFixedArray elem n))"
| "jsonVariableArray m =
     bindR (jsonElement (map_of m ''element'')) (\<lambda>elem. Inr (VariableArray elem))"
| "jsonFixedRecord m =
     bindR (case map_of m ''fields'' of Some (VList xs) \<Rightarrow> jsonFields xs [] | _ \<Rightarrow> Inr [])
       (\<lambda>fs. Inr (FixedRecord fs))"
| "jsonVariantRecord m =
     (case map_of m ''discriminator'' of
        Some (VString d) \<Rightarrow>
          bindR (PrimitiveByName (string_of_bytes d)) (\<lambda>disc.
          bindR (case map_of m ''alternatives'' of
                   Some (VList xs) \<Rightarrow> jsonAlts (string_of_bytes d) xs [] | _ \<Rightarrow> Inr [])
            (\<lambda>alts. Inr (VariantRecord disc alts)))
      | _ \<Rightarrow> Inl ErrDescriptor)"
| "jsonElement v =
     (case v of
        Some (VString t) \<Rightarrow> PrimitiveByName (string_of_bytes t)
      | Some (VMap t) \<Rightarrow> codecForJSON t
      | _ \<Rightarrow> Inl ErrDescriptor)"
| "jsonFields [] acc = Inr acc"
| "jsonFields (rf # rest) acc =
     (case rf of
        VMap fm \<Rightarrow>
          (case map_of fm ''name'' of
             Some (VString name) \<Rightarrow>
               bindR (jsonElement (map_of fm ''type'')) (\<lambda>fc.
                 jsonFields rest (acc @ [(string_of_bytes name, fc)]))
           | _ \<Rightarrow> Inl ErrDescriptor)
      | _ \<Rightarrow> Inl ErrDescriptor)"
| "jsonAlts disc [] alts = Inr alts"
| "jsonAlts disc (ra # rest) alts =
     (case ra of
        VMap am \<Rightarrow>
          bindR (parseDiscriminantValue disc (case map_of am ''discriminant'' of None \<Rightarrow> VNil | Some v \<Rightarrow> v)) (\<lambda>key.
          bindR (jsonElement (map_of am ''type'')) (\<lambda>altCodec.
            jsonAlts disc rest (put key altCodec alts)))
      | _ \<Rightarrow> Inl ErrDescriptor)"
  by pat_completeness auto

termination
proof (relation "measure jmeasure")
qed (auto dest: jmeasure_list intro: jmeasure_element [simplified] less_le_trans [OF jmeasure_element [simplified]])

declare codecForJSON.simps [simp del] jsonFixedArray.simps [simp del] jsonVariableArray.simps [simp del]
  jsonFixedRecord.simps [simp del] jsonVariantRecord.simps [simp del] jsonElement.simps [simp del]

section \<open>The entry point\<close>

datatype descriptor = DNil | DName string | DJson "(string \<times> val) list" | DModel data_type | DOther

definition dispatch :: "descriptor \<Rightarrow> enc_error + codec" where
  "dispatch dt =
     (case dt of
        DNil \<Rightarrow> Inl ErrDescriptor
      | DName d \<Rightarrow> PrimitiveByName d
      | DJson d \<Rightarrow> codecForJSON d
      | DModel d \<Rightarrow> codecForModel d
      | DOther \<Rightarrow> Inl ErrDescriptor)"

definition CodecFor :: "descriptor \<Rightarrow> enc_error + codec" where
  "CodecFor dt = dispatch dt"

section \<open>Dispatched codecs do not panic\<close>

text \<open>Every discriminator inside a dispatched codec is a primitive of the registry.\<close>

definition prim :: "codec \<Rightarrow> bool" where
  "prim c \<longleftrightarrow> c \<in> snd ` set primitiveCodecs"

fun disc_ok :: "codec \<Rightarrow> bool" and fields_ok :: "(string \<times> codec) list \<Rightarrow> bool"
  and alts_ok :: "(val \<times> codec) list \<Rightarrow> bool" where
  "disc_ok (FixedArray c n) = disc_ok c"
| "disc_ok (VariableArray c) = disc_ok c"
| "disc_ok (FixedRecord fs) = fields_ok fs"
| "disc_ok (VariantRecord d alts) = (prim d \<and> alts_ok alts)"
| "disc_ok _ = True"
| "fields_ok [] = True"
| "fields_ok ((n, c) # fs) = (disc_ok c \<and> fields_ok fs)"
| "alts_ok [] = True"
| "alts_ok ((k, c) # alts) = (disc_ok c \<and> alts_ok alts)"

text \<open>Every fixed array inside the codec can be allocated.\<close>

fun caps_ok :: "codec \<Rightarrow> bool" and fields_caps_ok :: "(string \<times> codec) list \<Rightarrow> bool"
  and alts_caps_ok :: "(val \<times> codec) list \<Rightarrow> bool" where
  "caps_ok (FixedArray c n) = (\<not> make_panics n \<and> caps_ok c)"
| "caps_ok (VariableArray c) = caps_ok c"
| "caps_ok (FixedRecord fs) = fields_caps_ok fs"
| "caps_ok (VariantRecord d alts) = (caps_ok d \<and> alts_caps_ok alts)"
| "caps_ok _ = True"
| "fields_caps_ok [] = True"
| "fields_caps_ok ((n, c) # fs) = (caps_ok c \<and> fields_caps_ok fs)"
| "alts_caps_ok [] = True"
| "alts_caps_ok ((k, c) # alts) = (caps_ok c \<and> alts_caps_ok alts)"

lemmas primitive_codec_defs =
  integer16BE_Encode_def integer16BE_Decode_def integer16LE_Encode_def integer16LE_Decode_def
  integer32BE_Encode_def integer32BE_Decode_def integer32LE_Encode_def integer32LE_Decode_def
  integer64BE_Encode_def integer64BE_Decode_def integer64LE_Encode_def integer64LE_Decode_def
  float32BE_Encode_def float32BE_Decode_def float32LE_Encode_def float32LE_Decode_def
  float64BE_Encode_def float64BE_Decode_def float64LE_Encode_def float64LE_Decode_def
  octet_Encode_def octet_Decode_def octetPairBE_Encode_def octetPairBE_Decode_def
  octetPairLE_Encode_def octetPairLE_Decode_def boolean_Encode_def boolean_Decode_def
  ASCIIchar_Encode_def ASCIIchar_Decode_def unicodeChar_Encode_def unicodeChar_Decode_def
  ASCIIstring_Encode_def ASCIIstring_Decode_def unicodeString_Encode_def unicodeString_Decode_def
  opaque_Encode_def opaque_Decode_def

lemma prim_induct [consumes 1]:
  assumes "prim c"
    and "P HLAinteger16BE" "P HLAinteger16LE" "P HLAinteger32BE" "P HLAinteger32LE" "P HLAinteger64BE"
      "P HLAinteger64LE" "P HLAfloat32BE" "P HLAfloat32LE" "P HLAfloat64BE" "P HLAfloat64LE"
      "P HLAoctet" "P HLAoctetPairBE" "P HLAoctetPairLE" "P HLAboolean" "P HLAASCIIchar"
      "P HLAunicodeChar" "P HLAASCIIstring" "P HLAunicodeString"
  shows "P c"
  using assms by (auto simp: prim_def primitiveCodecs_def)

lemma PrimitiveByName_prim: "PrimitiveByName n = Inr c \<Longrightarrow> prim c"
  by (auto simp: PrimitiveByName_def prim_def split: option.splits dest!: map_of_SomeD intro: rev_image_eqI)

lemma prim_disc_ok [simp]: "prim c \<Longrightarrow> disc_ok c"
  by (erule prim_induct) simp_all

lemma prim_Decode_hashable: "prim c \<Longrightarrow> Decode c b = Inr (v, n) \<Longrightarrow> hashable v"
  by (induction c rule: prim_induct)
    (auto simp: primitive_codec_defs hashable_def Let_def result_simps split: list.splits if_splits)

definition no_panic :: "enc_error + 'a \<Rightarrow> bool" where
  "no_panic r \<longleftrightarrow> r \<noteq> Inl Panic"

lemma no_panic_simps [simp]: "no_panic (Inr x)" "no_panic (Inl e) \<longleftrightarrow> e \<noteq> Panic"
  by (auto simp: no_panic_def)

lemma no_panic_bindR [intro]:
  "no_panic r \<Longrightarrow> (\<And>x. r = Inr x \<Longrightarrow> no_panic (k x)) \<Longrightarrow> no_panic (bindR r k)"
  by (cases r) (auto simp: no_panic_def)

lemma no_panic_coercions [simp]:
  "no_panic (toInt64Any v)" "no_panic (toInt16 v)" "no_panic (toInt32 v)" "no_panic (toInt64 v)"
  "no_panic (rangeCheckByte x)" "no_panic (octetFromAny v)" "no_panic (coerceOctet v)"
  "no_panic (octetPairBytes v)"
  by (auto simp: toInt64Any_def toInt16_def toInt32_def toInt64_def rangeCheckByte_def octetFromAny_def
      coerceOctet_def octetPairBytes_def split: val.splits list.splits)

lemma no_panic_units [simp]: "no_panic (decode_units n b)"
  by (induction n b rule: decode_units.induct) (auto simp: Let_def)

lemma no_panic_prim:
  assumes "prim c" shows "no_panic (Decode c b)" and "no_panic (Encode c v)"
proof -
  show "no_panic (Decode c b)" using assms
    by (induction c rule: prim_induct)
      (auto simp: primitive_codec_defs Let_def split: list.splits)
  show "no_panic (Encode c v)" using assms
    by (induction c rule: prim_induct)
      (auto simp: primitive_codec_defs Let_def split: val.splits list.splits option.splits)
qed

lemma no_panic_decode_elems:
  "(\<And>x. no_panic (dec x)) \<Longrightarrow> no_panic (decode_elems dec k bs n pos acc)"
  by (induction n arbitrary: pos acc) (auto simp: Let_def)

lemma no_panic_encode_elems:
  "(\<And>x. no_panic (enc x)) \<Longrightarrow> no_panic (encode_elems enc k xs out)"
  by (induction xs arbitrary: out) (auto simp: Let_def)

lemma Decode_no_panic:
  "disc_ok c \<Longrightarrow> caps_ok c \<Longrightarrow> no_panic (Decode c b)"
  "fields_ok fs \<Longrightarrow> fields_caps_ok fs \<Longrightarrow> no_panic (decode_fields fs b pos out)"
  "alts_ok alts \<Longrightarrow> alts_caps_ok alts \<Longrightarrow> no_panic (decode_alt alts dv dn b)"
proof (induction c b and fs b pos out and alts dv dn b rule: Decode_decode_fields_decode_alt.induct)
  case (23 d alts b)
  then show ?case using no_panic_prim(1) [of d b] prim_Decode_hashable [of d b] by auto
qed (auto simp: Let_def primitive_codec_defs intro!: no_panic_decode_elems split: list.splits)

lemma Encode_no_panic:
  "disc_ok c \<Longrightarrow> no_panic (Encode c v)"
  "fields_ok fs \<Longrightarrow> no_panic (encode_fields fs m out)"
  "alts_ok alts \<Longrightarrow> no_panic (encode_alt alts dv db v)"
proof (induction c v and fs m out and alts dv db v rule: Encode_encode_fields_encode_alt.induct)
  case (23 d alts v)
  then show ?case
    using no_panic_prim [of d] prim_Decode_hashable [of d]
    by (auto split: val.splits option.splits prod.splits intro!: no_panic_bindR)
qed (auto simp: Let_def primitive_codec_defs intro!: no_panic_encode_elems
       split: val.splits list.splits option.splits)

lemma alts_ok_put: "disc_ok c \<Longrightarrow> alts_ok alts \<Longrightarrow> alts_ok (put k c alts)"
  by (induction alts) auto

lemma fields_ok_snoc: "fields_ok (acc @ [(n, c)]) \<longleftrightarrow> fields_ok acc \<and> disc_ok c"
  by (induction acc) auto

lemma unsupported_Inr [simp]: "unsupported r = Inr x \<longleftrightarrow> r = Inr x"
  by (cases r) (auto simp: unsupported_def)

lemma modelFields_ok: "modelFields fs acc = Inr r \<Longrightarrow> fields_ok acc \<Longrightarrow> fields_ok r"
  by (induction fs arbitrary: acc)
    (auto simp: result_simps fields_ok_snoc dest!: PrimitiveByName_prim)

lemma modelAlts_ok: "modelAlts disc as alts = Inr r \<Longrightarrow> alts_ok alts \<Longrightarrow> alts_ok r"
  by (induction as arbitrary: alts)
    (auto simp: result_simps intro: alts_ok_put prim_disc_ok dest!: PrimitiveByName_prim)

lemma NewFixedArray_ok: "NewFixedArray c n = Inr r \<Longrightarrow> disc_ok c \<Longrightarrow> disc_ok r"
  by (auto simp: NewFixedArray_def split: if_splits)

lemma modelArray_ok: "modelArray d = Inr c \<Longrightarrow> disc_ok c"
  unfolding modelArray_def
  by (auto simp: result_simps NewFixedArray_def dest!: PrimitiveByName_prim split: if_splits
      split: option.splits)

lemma codecForModel_ok: "codecForModel d = Inr c \<Longrightarrow> disc_ok c"
proof (induction d rule: codecForModel.induct)
  case (7 d)
  then show ?case
    by (auto simp: modelVariantRecord_def result_simps dest!: PrimitiveByName_prim modelAlts_ok)
qed (auto simp: modelFixedRecord_def result_simps dest!: modelFields_ok PrimitiveByName_prim modelArray_ok)

lemma codecForJSON_ok:
  "codecForJSON m = Inr c \<Longrightarrow> disc_ok c"
  "jsonFixedArray m = Inr c \<Longrightarrow> disc_ok c"
  "jsonVariableArray m = Inr c \<Longrightarrow> disc_ok c"
  "jsonFixedRecord m = Inr c \<Longrightarrow> disc_ok c"
  "jsonVariantRecord m = Inr c \<Longrightarrow> disc_ok c"
  "jsonElement v = Inr c \<Longrightarrow> disc_ok c"
  "jsonFields xs acc = Inr fs \<Longrightarrow> fields_ok acc \<Longrightarrow> fields_ok fs"
  "jsonAlts disc xs alts = Inr r \<Longrightarrow> alts_ok alts \<Longrightarrow> alts_ok r"
proof (induction m and m and m and m and m and v and xs acc and disc xs alts
    arbitrary: c and c and c and c and c and c and fs and r
    rule: codecForJSON_jsonFixedArray_jsonVariableArray_jsonFixedRecord_jsonVariantRecord_jsonElement_jsonFields_jsonAlts.induct)
  case (1 m)
  from 1(5) show ?case
    by (simp add: codecForJSON.simps [of m] Let_def 1(1-4) split: option.splits val.splits if_splits)
next
  case (2 m)
  from 2(2) show ?case
    by (auto simp: jsonFixedArray.simps [of m] result_simps dest!: NewFixedArray_ok 2(1) split: option.splits)
next
  case (3 m)
  from 3(2) show ?case
    by (auto simp: jsonVariableArray.simps [of m] result_simps intro: 3(1))
next
  case (4 m)
  from 4(2) show ?case
    by (auto simp: jsonFixedRecord.simps [of m] result_simps dest!: 4(1) split: option.splits val.splits)
next
  case (5 m)
  from 5(2) show ?case
    by (auto simp: jsonVariantRecord.simps [of m] result_simps intro: PrimitiveByName_prim dest!: 5(1)
        split: option.splits val.splits)
next
  case (6 v)
  from 6(2) show ?case
    by (auto simp: jsonElement.simps [of v] intro: 6(1) dest: PrimitiveByName_prim split: option.splits val.splits)
next
  case (8 rf rest acc)
  then show ?case
    by (auto simp: fields_ok_snoc result_simps split: option.splits val.splits)
next
  case (10 disc ra rest alts)
  then show ?case
    by (auto simp: alts_ok_put result_simps split: option.splits val.splits)
qed simp_all

lemma CodecFor_disc_ok: "CodecFor dt = Inr c \<Longrightarrow> disc_ok c"
  by (cases dt)
    (auto simp: CodecFor_def dispatch_def dest: PrimitiveByName_prim codecForModel_ok codecForJSON_ok(1))

section \<open>Discriminant keys\<close>

lemma parseDisc_ints_canonical:
  "parseDiscInt16 raw = Inr key \<Longrightarrow> \<exists>x :: 16 word. key = VInt32 (scast x)"
  "parseDiscInt32 raw = Inr key \<Longrightarrow> \<exists>x. key = VInt32 x"
  "parseDiscInt64 raw = Inr key \<Longrightarrow> \<exists>x. key = VInt64 x"
  "parseDiscOctet raw = Inr key \<Longrightarrow> \<exists>x. key = VByte x"
  "parseDiscBool raw = Inr key \<Longrightarrow> \<exists>x. key = VBool x"
  by (auto simp: parseDiscInt16_def parseDiscInt32_def parseDiscInt64_def parseDiscOctet_def parseDiscBool_def
      result_simps split: if_splits val.splits option.splits)

lemma keys_fixpoint:
  "\<exists>bs. integer16BE_Encode (VInt32 (scast (x :: 16 word))) = Inr bs \<and> (\<exists>n. integer16BE_Decode bs = Inr (VInt32 (scast x), n))"
  "\<exists>bs. integer16LE_Encode (VInt32 (scast (x :: 16 word))) = Inr bs \<and> (\<exists>n. integer16LE_Decode bs = Inr (VInt32 (scast x), n))"
  "\<exists>bs. integer32BE_Encode (VInt32 y) = Inr bs \<and> (\<exists>n. integer32BE_Decode bs = Inr (VInt32 y, n))"
  "\<exists>bs. integer32LE_Encode (VInt32 y) = Inr bs \<and> (\<exists>n. integer32LE_Decode bs = Inr (VInt32 y, n))"
  "\<exists>bs. integer64BE_Encode (VInt64 z) = Inr bs \<and> (\<exists>n. integer64BE_Decode bs = Inr (VInt64 z, n))"
  "\<exists>bs. integer64LE_Encode (VInt64 z) = Inr bs \<and> (\<exists>n. integer64LE_Decode bs = Inr (VInt64 z, n))"
  "\<exists>bs. octet_Encode (VByte b) = Inr bs \<and> (\<exists>n. octet_Decode bs = Inr (VByte b, n))"
  by (auto simp: primitive_codec_defs toInt16_canonical toInt32_canonical toInt64_def toInt64Any_def
      word_wire_simps octetFromAny_def)

lemma boolean_key_fixpoint:
  "\<exists>bs. boolean_Encode (VBool t) = Inr bs \<and> (\<exists>n. boolean_Decode bs = Inr (VBool t, n))"
  by (cases t) (simp_all add: primitive_codec_defs be_val_def)

section \<open>Dispatch itself does not panic\<close>

lemma no_panic_registry [simp]:
  "no_panic (PrimitiveByName n)" "no_panic (unsupported r)"
  by (auto simp: PrimitiveByName_def unsupported_def split: option.splits sum.splits)

lemma no_panic_loose [simp]: "no_panic (toInt64Loose raw)"
  by (simp add: toInt64Loose_def Let_def split: val.split option.split)

lemma no_panic_discs [simp]:
  "no_panic (parseDiscInt16 raw)" "no_panic (parseDiscInt32 raw)" "no_panic (parseDiscInt64 raw)"
  "no_panic (parseDiscOctet raw)" "no_panic (parseDiscBool raw)"
  unfolding parseDiscInt16_def parseDiscInt32_def parseDiscInt64_def parseDiscOctet_def parseDiscBool_def
  by (auto intro!: no_panic_bindR split: val.split option.split)

lemma no_panic_parse [simp]: "no_panic (parseDiscriminantValue disc raw)"
  by (simp add: parseDiscriminantValue_def)

lemma no_panic_jsonCardinality [simp]: "no_panic (jsonCardinality v)"
  by (auto simp: jsonCardinality_def Let_def split: val.splits)

lemma jsonCardinality_nonneg: "jsonCardinality v = Inr n \<Longrightarrow> 0 \<le> n"
  by (auto simp: jsonCardinality_def Let_def split: val.splits if_splits)

lemma no_panic_NewFixedArray [simp]: "0 \<le> n \<Longrightarrow> no_panic (NewFixedArray c n)"
  by (simp add: NewFixedArray_def)

lemma no_panic_modelFields [simp]: "no_panic (modelFields fs acc)"
  by (induction fs arbitrary: acc) (auto intro!: no_panic_bindR)

lemma no_panic_modelAlts [simp]: "no_panic (modelAlts disc as alts)"
  by (induction as arbitrary: alts) (auto intro!: no_panic_bindR)

lemma no_panic_codecForModel: "no_panic (codecForModel d) \<longleftrightarrow> d \<noteq> NilData"
  by (cases d) (auto simp: modelArray_def modelFixedRecord_def modelVariantRecord_def
      intro!: no_panic_bindR split: option.splits)

lemma no_panic_codecForJSON:
  "no_panic (codecForJSON m)" "no_panic (jsonFixedArray m)" "no_panic (jsonVariableArray m)"
  "no_panic (jsonFixedRecord m)" "no_panic (jsonVariantRecord m)" "no_panic (jsonElement v)"
  "no_panic (jsonFields xs acc)" "no_panic (jsonAlts disc xs alts)"
proof (induction m and m and m and m and m and v and xs acc and disc xs alts
    rule: codecForJSON_jsonFixedArray_jsonVariableArray_jsonFixedRecord_jsonVariantRecord_jsonElement_jsonFields_jsonAlts.induct)
  case (1 m)
  then show ?case by (simp add: codecForJSON.simps [of m] Let_def split: option.splits val.splits)
next
  case (2 m)
  then show ?case
    by (auto simp: jsonFixedArray.simps [of m] intro!: no_panic_bindR no_panic_NewFixedArray split: option.splits
        dest: jsonCardinality_nonneg)
next
  case (3 m)
  then show ?case by (auto simp: jsonVariableArray.simps [of m])
next
  case (4 m)
  then show ?case by (auto simp: jsonFixedRecord.simps [of m] split: option.splits val.splits)
next
  case (5 m)
  then show ?case
    by (auto simp: jsonVariantRecord.simps [of m] split: option.splits val.splits intro!: no_panic_bindR)
next
  case (6 v)
  then show ?case by (auto simp: jsonElement.simps [of v] split: option.splits val.splits)
qed (auto split: option.splits val.splits intro!: no_panic_bindR)

section \<open>Decoders read only what they claim\<close>

definition local_dec :: "(bytes \<Rightarrow> enc_error + (val \<times> nat)) \<Rightarrow> bool" where
  "local_dec dec \<longleftrightarrow> (\<forall>b v n. dec b = Inr (v, n) \<longrightarrow> n \<le> length b \<and> (\<forall>b'. n \<le> length b' \<and> take n b' = take n b \<longrightarrow> dec b' = Inr (v, n)))"

lemma local_decD:
  assumes "local_dec dec" "dec b = Inr (v, n)"
  shows "n \<le> length b" "n \<le> length b' \<Longrightarrow> take n b' = take n b \<Longrightarrow> dec b' = Inr (v, n)"
  using assms unfolding local_dec_def by blast+

lemma bindR_assoc: "bindR (bindR r f) g = bindR r (\<lambda>x. bindR (f x) g)"
  by (cases r) simp_all

lemma take_prefix: "take n b' = take n b \<Longrightarrow> j \<le> n \<Longrightarrow> take j b' = take j b"
  by (drule arg_cong [where f = "take j"]) (simp add: min_def)

lemma take_part: "take n b' = take n b \<Longrightarrow> p + j \<le> n \<Longrightarrow> take j (drop p b') = take j (drop p b)"
  using take_prefix [of n b' b "j + p"] by (simp add: take_drop)

lemma local_fixed:
  assumes "\<And>b. dec b = (if length b < k then Inl e else Inr (f (take k b), k))"
  shows "local_dec dec"
  by (auto simp: local_dec_def assms split: if_splits)

lemma units_local: "2 * k \<le> n \<Longrightarrow> take n b' = take n b \<Longrightarrow> decode_units k b' = decode_units k b"
proof (induction k arbitrary: n b b')
  case (Suc k)
  have "take 2 b' = take 2 b" using take_prefix [OF Suc.prems(2), of 2] Suc.prems(1) by simp
  moreover have "decode_units k (drop 2 b') = decode_units k (drop 2 b)"
    by (rule Suc.IH [of "n - 2"]) (use Suc.prems take_part [OF Suc.prems(2), of 2 "n - 2"] in simp_all)
  ultimately show ?case by (simp add: Let_def)
qed simp

lemma local_prefixed:
  assumes "\<And>b. dec b = (if length b < 4 then Inl e else let n = be_val (take 4 b) in
      if 4 + g * n > length b then Inl e else bindR (f n (drop 4 b)) (\<lambda>v. Inr (v, 4 + g * n)))"
    and "\<And>n b b'. take (g * n) b' = take (g * n) b \<Longrightarrow> f n b' = f n b"
  shows "local_dec dec"
  unfolding local_dec_def
proof (intro allI impI conjI)
  fix b v n assume d: "dec b = Inr (v, n)"
  define k where "k = be_val (take 4 b)"
  have k: "4 + g * k \<le> length b" "f k (drop 4 b) = Inr v" "n = 4 + g * k"
    using d unfolding assms(1) k_def by (auto simp: Let_def result_simps split: if_splits)
  then show "n \<le> length b" by simp
  fix b' assume b': "n \<le> length b' \<and> take n b' = take n b"
  have "take 4 b' = take 4 b" using b' k(3) take_prefix [of n b' b 4] by simp
  moreover have "f k (drop 4 b') = f k (drop 4 b)" by (rule assms(2)) (use take_part [of n b' b 4 "g * k"] b' k(3) in simp)
  ultimately show "dec b' = Inr (v, n)" unfolding assms(1) using b' k by (simp add: k_def [symmetric])
qed

lemma local_prims:
  "local_dec integer16BE_Decode" "local_dec integer16LE_Decode" "local_dec integer32BE_Decode" "local_dec integer32LE_Decode"
  "local_dec integer64BE_Decode" "local_dec integer64LE_Decode" "local_dec float32BE_Decode" "local_dec float32LE_Decode"
  "local_dec float64BE_Decode" "local_dec float64LE_Decode" "local_dec boolean_Decode"
  by (rule local_fixed, simp only: primitive_codec_defs)+

lemma local_chars:
  "local_dec octet_Decode" "local_dec octetPairBE_Decode" "local_dec octetPairLE_Decode" "local_dec ASCIIchar_Decode" "local_dec unicodeChar_Decode"
proof -
  have two: "take 2 b' = [x, y] \<longleftrightarrow> (\<exists>r. b' = x # y # r)" for x y and b' :: bytes
    by (cases b'; cases "tl b'") auto
  have one: "take (Suc 0) b' = [x] \<longleftrightarrow> (\<exists>r. b' = x # r)" for x and b' :: bytes by (cases b') auto
  show "local_dec octet_Decode" "local_dec ASCIIchar_Decode"
    by (auto simp: local_dec_def octet_Decode_def ASCIIchar_Decode_def one split: list.splits if_splits)
  show "local_dec octetPairBE_Decode" "local_dec octetPairLE_Decode"
    by (auto simp: local_dec_def octetPairBE_Decode_def octetPairLE_Decode_def two split: list.splits)
  show "local_dec unicodeChar_Decode"
    by (auto simp: local_dec_def unicodeChar_Decode_def Let_def split: if_splits)
qed

lemma local_strings: "local_dec ASCIIstring_Decode" "local_dec unicodeString_Decode" "local_dec opaque_Decode"
proof -
  show "local_dec ASCIIstring_Decode"
    by (rule local_prefixed [where g = 1 and e = ErrStringShortBuffer and
          f = "\<lambda>n b. if \<exists>c \<in> set (take n b). unat c > 0x7F then Inl ErrRange else Inr (VString (take n b))"])
      (simp_all add: ASCIIstring_Decode_def Let_def)
  show "local_dec unicodeString_Decode"
  proof (rule local_prefixed)
    show "unicodeString_Decode b = (if length b < 4 then Inl ErrStringShortBuffer else let n = be_val (take 4 b) in
        if 4 + 2 * n > length b then Inl ErrStringShortBuffer
        else bindR (bindR (decode_units n (drop 4 b)) (\<lambda>rs. Inr (VString (utf8_encode rs)))) (\<lambda>v. Inr (v, 4 + 2 * n)))" for b
      by (simp add: unicodeString_Decode_def Let_def bindR_assoc)
  next
    fix n and b b' :: bytes assume "take (2 * n) b' = take (2 * n) b"
    then have "decode_units n b' = decode_units n b" by (rule units_local [OF order_refl])
    then show "bindR (decode_units n b') (\<lambda>rs. Inr (VString (utf8_encode rs))) = bindR (decode_units n b) (\<lambda>rs. Inr (VString (utf8_encode rs)))"
      by simp
  qed
  show "local_dec opaque_Decode"
    by (rule local_prefixed [where g = 1 and e = ErrShort and f = "\<lambda>n b. Inr (VBytes (take n b))"]) (simp_all add: opaque_Decode_def Let_def)
qed

lemma local_elems:
  assumes "local_dec dec" "decode_elems dec k b m pos acc = Inr (vs, n)" "pos \<le> length b"
  shows "pos \<le> n \<and> n \<le> length b \<and> (\<forall>b'. n \<le> length b' \<and> take n b' = take n b \<longrightarrow> decode_elems dec k b' m pos acc = Inr (vs, n))"
  using assms(2,3)
proof (induction m arbitrary: pos acc)
  case (Suc m)
  let ?p = "alignTo pos k"
  obtain v j where v: "?p \<le> length b" "dec (drop ?p b) = Inr (v, j)" "decode_elems dec k b m (?p + j) (acc @ [v]) = Inr (vs, n)"
    using Suc.prems(1) by (auto simp: result_simps Let_def split: if_splits)
  have j: "?p + j \<le> length b" using local_decD(1) [OF assms(1) v(2)] v(1) by simp
  note IH = Suc.IH [OF v(3) j]
  have "dec (drop ?p b') = Inr (v, j)" if "n \<le> length b'" "take n b' = take n b" for b'
    by (rule local_decD(2) [OF assms(1) v(2)]) (use that IH [THEN conjunct1] take_part [OF that(2), of ?p j] in simp_all)
  moreover have "pos \<le> ?p" by (simp add: alignTo_eq)
  ultimately show ?case using IH by (auto simp: Let_def)
qed simp

lemma local_FixedArray: "local_dec (Decode c) \<Longrightarrow> local_dec (Decode (FixedArray c m))"
  unfolding local_dec_def [of "Decode (FixedArray c m)"]
  by (auto simp: result_simps dest: local_elems split: if_splits)

lemma local_VariableArray: "local_dec (Decode c) \<Longrightarrow> local_dec (Decode (VariableArray c))"
  unfolding local_dec_def [of "Decode (VariableArray c)"]
proof (intro allI impI)
  fix b v n assume c: "local_dec (Decode c)" and d: "Decode (VariableArray c) b = Inr (v, n)"
  obtain vs where vs: "4 \<le> length b" "decode_elems (Decode c) (OctetBoundary c) b (be_val (take 4 b)) 4 [] = Inr (vs, n)" "v = VList vs"
    using d by (auto simp: result_simps split: if_splits)
  note L = local_elems [OF c vs(2,1)]
  show "n \<le> length b \<and> (\<forall>b'. n \<le> length b' \<and> take n b' = take n b \<longrightarrow> Decode (VariableArray c) b' = Inr (v, n))"
  proof (intro conjI allI impI)
    fix b' assume b': "n \<le> length b' \<and> take n b' = take n b"
    then have "take 4 b' = take 4 b" using take_prefix [of n b' b 4] L by simp
    then show "Decode (VariableArray c) b' = Inr (v, n)" using L b' vs(3) by simp
  qed (use L in simp)
qed

lemma local_fields:
  assumes "\<forall>(x, c) \<in> set fs. local_dec (Decode c)" "decode_fields fs b pos acc = Inr (v, n)" "pos \<le> length b"
  shows "pos \<le> n \<and> n \<le> length b \<and> (\<forall>b'. n \<le> length b' \<and> take n b' = take n b \<longrightarrow> decode_fields fs b' pos acc = Inr (v, n))"
  using assms
proof (induction fs arbitrary: pos acc)
  case (Cons f fs)
  obtain name c where f: "f = (name, c)" by (cases f)
  let ?p = "pos + paddingFor pos (OctetBoundary c)"
  obtain w j where w: "?p \<le> length b" "Decode c (drop ?p b) = Inr (w, j)" "decode_fields fs b (?p + j) (put name w acc) = Inr (v, n)"
    using Cons.prems(2) by (auto simp: f result_simps Let_def split: if_splits)
  have c: "local_dec (Decode c)" using Cons.prems(1) f by simp
  have j: "?p + j \<le> length b" using local_decD(1) [OF c w(2)] w(1) by simp
  have IH: "?p + j \<le> n \<and> n \<le> length b \<and> (\<forall>b'. n \<le> length b' \<and> take n b' = take n b \<longrightarrow> decode_fields fs b' (?p + j) (put name w acc) = Inr (v, n))"
    by (rule Cons.IH [OF _ w(3) j]) (use Cons.prems(1) in simp)
  have "Decode c (drop ?p b') = Inr (w, j)" if "n \<le> length b'" "take n b' = take n b" for b'
    by (rule local_decD(2) [OF c w(2)]) (use that IH [THEN conjunct1] take_part [OF that(2), of ?p j] in simp_all)
  then show ?case using IH by (auto simp: f Let_def)
qed simp

lemma local_alts:
  assumes "\<forall>(x, c) \<in> set alts. local_dec (Decode c)" "decode_alt alts dv dn b = Inr (v, n)"
  shows "dn \<le> n \<and> n \<le> length b \<and> (\<forall>b'. n \<le> length b' \<and> take n b' = take n b \<longrightarrow> decode_alt alts dv dn b' = Inr (v, n))"
  using assms
proof (induction alts)
  case (Cons a alts)
  obtain k c where a: "a = (k, c)" by (cases a)
  show ?case
  proof (cases "key_eq k dv")
    case True
    let ?p = "dn + paddingFor dn (OctetBoundary c)"
    obtain w j where w: "?p \<le> length b" "Decode c (drop ?p b) = Inr (w, j)" "n = ?p + j" "v = VMap [(''discriminator'', dv), (''value'', w)]"
      using Cons.prems(2) True by (auto simp: a result_simps Let_def split: if_splits)
    have c: "local_dec (Decode c)" using Cons.prems(1) a by simp
    have "Decode c (drop ?p b') = Inr (w, j)" if "n \<le> length b'" "take n b' = take n b" for b'
      by (rule local_decD(2) [OF c w(2)]) (use that w(3) take_part [OF that(2), of ?p j] in simp_all)
    then show ?thesis using True w local_decD(1) [OF c w(2)] by (auto simp: a Let_def)
  next
    case False
    then show ?thesis using Cons by (simp add: a)
  qed
qed simp

lemma local_VariantRecord:
  assumes "local_dec (Decode d)" "\<forall>(x, c) \<in> set alts. local_dec (Decode c)"
  shows "local_dec (Decode (VariantRecord d alts))"
  unfolding local_dec_def
proof (intro allI impI)
  fix b v n assume "Decode (VariantRecord d alts) b = Inr (v, n)"
  then obtain dv dn where d: "Decode d b = Inr (dv, dn)" "hashable dv" "decode_alt alts dv dn b = Inr (v, n)"
    by (auto simp: result_simps split: if_splits)
  note A = local_alts [OF assms(2) d(3)]
  have "Decode d b' = Inr (dv, dn)" if "n \<le> length b'" "take n b' = take n b" for b'
    by (rule local_decD(2) [OF assms(1) d(1)]) (use that A take_prefix [OF that(2), of dn] in simp_all)
  then show "n \<le> length b \<and> (\<forall>b'. n \<le> length b' \<and> take n b' = take n b \<longrightarrow> Decode (VariantRecord d alts) b' = Inr (v, n))"
    using A d(2) by simp
qed

lemma Decode_local: "local_dec (Decode c)"
proof (induction c)
  case (FixedRecord fs)
  then have fs: "\<forall>(x, c) \<in> set fs. local_dec (Decode c)" by fastforce
  show ?case unfolding local_dec_def Decode.simps using local_fields [OF fs _ le0] by blast
next
  case (VariantRecord d alts)
  then have "\<forall>(x, c) \<in> set alts. local_dec (Decode c)" by fastforce
  then show ?case using VariantRecord by (intro local_VariantRecord)
qed (simp_all only: Encode_prim_eta local_prims local_chars local_strings local_FixedArray local_VariableArray)

section \<open>Properties\<close>

text \<open>
  C32.  Encode/decode round trip, for every codec built from the primitives and the composites
  whose records have distinct field names and whose fixed arrays can be allocated, and for every value
  without a signalling float32 NaN: whatever \<open>Encode\<close> accepts, \<open>Decode\<close> reads back with any octets
  following, consuming exactly the encoding, and the value it returns is the canonical form of the
  input: encoding it again gives the same octets.
\<close>

theorem Decode_Encode:
  assumes "codec_wf c" and "quiet v" and "Encode c v = Inr bs"
  shows "\<exists>v'. Encode c v' = Inr bs \<and> (\<forall>rest. Decode c (bs @ rest) = Inr (v', length bs))"
  using codec_law.roundtrip [OF codec_lawful] assms by blast

theorem Decode_Encode_witness:
  "\<exists>v'. Encode (FixedRecord [(''a'', HLAoctet), (''b'', HLAinteger16BE)]) v' = Inr [7, 0, 1, 2] \<and>
     (\<forall>rest. Decode (FixedRecord [(''a'', HLAoctet), (''b'', HLAinteger16BE)]) ([7, 0, 1, 2] @ rest) =
        Inr (v', length [7, 0, 1, 2 :: byte]))"
  by (rule Decode_Encode [of _ "VMap [(''a'', VByte 7), (''b'', VInt32 258)]"])
    (simp, simp, code_simp)

text \<open>
  C33.  A decoder, of any codec, never claims more octets than it was given, and it reads no more than
  it claims: on every buffer that starts with the claimed octets it returns the same value and
  the same count.  So the offset arithmetic of the composite decoders stays inside the buffer, and
  what follows a value cannot change it.
\<close>

theorem Decode_consumes:
  assumes "Decode c b = Inr (v, n)"
  shows "n \<le> length b \<and> (\<forall>rest. Decode c (take n b @ rest) = Inr (v, n))"
  using local_decD [OF Decode_local assms] by simp

theorem Decode_consumes_witness:
  "Decode (FixedRecord [(''a'', HLAinteger16BE), (''b'', HLAoctet)]) [0, 9, 5, 1] = Inr (VMap [(''a'', VInt32 9), (''b'', VByte 5)], 3) \<and>
   (\<forall>rest. Decode (FixedRecord [(''a'', HLAinteger16BE), (''b'', HLAoctet)]) ([0, 9, 5] @ rest) = Inr (VMap [(''a'', VInt32 9), (''b'', VByte 5)], 3))"
proof -
  have d: "Decode (FixedRecord [(''a'', HLAinteger16BE), (''b'', HLAoctet)]) [0, 9, 5, 1] = Inr (VMap [(''a'', VInt32 9), (''b'', VByte 5)], 3)"
    by code_simp
  have "take 3 [0, 9, 5, 1 :: byte] = [0, 9, 5]" by simp
  then show ?thesis using d Decode_consumes [OF d] by simp
qed

text \<open>
  C34.  When \<open>CodecFor\<close> and its codecs panic.  \<open>CodecFor\<close> panics exactly for a nil pointer to a data
  type.  A codec it returns never panics in \<open>Encode\<close>, and panics in \<open>Decode\<close> only if it contains
  a fixed array too large to allocate: no map lookup of a variant record meets an unhashable
  key.  A fixed array too large to allocate panics on every input.
\<close>

theorem CodecFor_no_panic:
  "(CodecFor dt = Inl Panic \<longleftrightarrow> dt = DModel NilData) \<and>
   (\<forall>c. CodecFor dt = Inr c \<longrightarrow> (\<forall>v. Encode c v \<noteq> Inl Panic) \<and> (caps_ok c \<longrightarrow> (\<forall>b. Decode c b \<noteq> Inl Panic)) \<and>
      (\<forall>e n b. c = FixedArray e n \<and> make_panics n \<longrightarrow> Decode c b = Inl Panic))"
proof -
  have "no_panic (CodecFor dt) \<longleftrightarrow> dt \<noteq> DModel NilData"
    by (cases dt) (auto simp: CodecFor_def dispatch_def no_panic_codecForJSON no_panic_codecForModel)
  then show ?thesis
    using CodecFor_disc_ok [of dt] Decode_no_panic(1) Encode_no_panic(1) unfolding no_panic_def by auto
qed

text \<open>A descriptor with a cardinality of \<open>2 ^ 62\<close>.\<close>

definition hugeArray :: descriptor where
  "hugeArray = DModel (Array \<lparr>ad_NameField = ''A'', ad_DataType = ''HLAoctet'', ad_Cardinality = ''4611686018427387904'',
     ad_Encoding = ''HLAfixedArray'', ad_Semantics = \<lparr>os_Value = [], os_Present = False\<rparr>\<rparr>)"

theorem CodecFor_no_panic_witness:
  "(\<forall>b. Decode HLAboolean b \<noteq> Inl Panic) \<and> (\<exists>c. CodecFor hugeArray = Inr c \<and> (\<forall>b. Decode c b = Inl Panic))"
proof -
  have "parse_int (bytes_of_string ''4611686018427387904'') = Some 4611686018427387904"
    by (simp add: bytes_of_string_def parse_int_def parse_uint10_def in_range_def)
  then have h: "CodecFor hugeArray = Inr (FixedArray HLAoctet (nat 4611686018427387904))"
    by (simp add: CodecFor_def dispatch_def hugeArray_def modelArray_def PrimitiveByName_def primitiveCodecs_def unsupported_def NewFixedArray_def)
  have "make_panics (nat 4611686018427387904)" by (simp add: make_panics_def)
  moreover have "CodecFor (DName ''HLAboolean'') = Inr HLAboolean"
    by (simp add: CodecFor_def dispatch_def PrimitiveByName_def primitiveCodecs_def)
  ultimately show ?thesis using CodecFor_no_panic [of "DName ''HLAboolean''"] CodecFor_no_panic [of hugeArray] h by auto
qed

text \<open>
  C35.  The key that \<open>parseDiscriminantValue\<close> puts into the alternatives map is the value the
  discriminator's own \<open>Decode\<close> yields for it, so the alternative can be found at encode and
  decode time.
\<close>

theorem parseDiscriminantValue_canonical:
  assumes "PrimitiveByName disc = Inr c" and "parseDiscriminantValue disc raw = Inr key"
  shows "\<exists>bs n. Encode c key = Inr bs \<and> Decode c bs = Inr (key, n)"
  using assms
  by (auto simp: parseDiscriminantValue_def PrimitiveByName_def primitiveCodecs_def keys_fixpoint boolean_key_fixpoint
      dest!: parseDisc_ints_canonical split: if_splits)

theorem parseDiscriminantValue_canonical_witness:
  "\<exists>bs n. Encode HLAoctet (VByte 7) = Inr bs \<and> Decode HLAoctet bs = Inr (VByte 7, n)"
  by (rule parseDiscriminantValue_canonical [of "''HLAoctet''" _ "VInt 7"])
    (simp add: PrimitiveByName_def primitiveCodecs_def, code_simp)

end

