(* ===== verification/LogicalTime.thy ===== *)
theory LogicalTime
  imports Go_Float
begin

text \<open>
  The standardized IEEE 1516-2010 logical times of \<open>rti/pkg/logicaltime/value.go\<close>: one
  scalar of 64 bits tagged with its representation, wrapped as a time or as an interval.
  Integer64 values are the non-negative half of int64; Float64 values are the finite
  non-negative doubles on their bit patterns.
\<close>

section \<open>Data\<close>

datatype lt_error = ErrInvalidValue | ErrUnknownRepresentation | ErrRepresentationMismatch
  | ErrIllegalArithmetic | ErrInvalidEncoding

datatype representation = Unspecified | HLAfloat64Time | HLAinteger64Time

record scalar =
  kind :: representation
  bits :: "64 word"

datatype time = Time (tval: scalar)
datatype interval = Interval (ival: scalar)

abbreviation MaxInt64 :: nat where "MaxInt64 \<equiv> 2 ^ 63 - 1"

section \<open>Operations\<close>

fun repr_String :: "representation \<Rightarrow> string" where
  "repr_String HLAfloat64Time = ''HLAfloat64Time''"
| "repr_String HLAinteger64Time = ''HLAinteger64Time''"
| "repr_String Unspecified = ''''"

definition ParseRepresentation :: "string \<Rightarrow> lt_error + representation" where
  "ParseRepresentation name =
     (if name = ''HLAfloat64Time'' then Inr HLAfloat64Time
      else if name = ''HLAinteger64Time'' then Inr HLAinteger64Time
      else Inl ErrUnknownRepresentation)"

definition floatValue :: "f64 \<Rightarrow> lt_error + scalar" where
  "floatValue v =
     (if f64_isNaN v \<or> f64_isInf v \<or> f64_lt v 0 then Inl ErrInvalidValue
      else let v' = (if f64_eq v 0 then 0 else v) in Inr \<lparr>kind = HLAfloat64Time, bits = v'\<rparr>)"

text \<open>An int64 argument is its two's-complement word; \<open>value < 0\<close> is the signed comparison.\<close>

definition integerValue :: "64 word \<Rightarrow> lt_error + scalar" where
  "integerValue v =
     (if sint v < 0 then Inl ErrInvalidValue else Inr \<lparr>kind = HLAinteger64Time, bits = v\<rparr>)"

definition Float64 :: "f64 \<Rightarrow> lt_error + time" where
  "Float64 v = bindR (floatValue v) (\<lambda>s. Inr (Time s))"

definition Integer64 :: "64 word \<Rightarrow> lt_error + time" where
  "Integer64 v = bindR (integerValue v) (\<lambda>s. Inr (Time s))"

definition Float64Interval :: "f64 \<Rightarrow> lt_error + interval" where
  "Float64Interval v = bindR (floatValue v) (\<lambda>s. Inr (Interval s))"

definition Integer64Interval :: "64 word \<Rightarrow> lt_error + interval" where
  "Integer64Interval v = bindR (integerValue v) (\<lambda>s. Inr (Interval s))"

fun Initial :: "representation \<Rightarrow> lt_error + time" where
  "Initial HLAfloat64Time = Float64 0"
| "Initial HLAinteger64Time = Integer64 0"
| "Initial Unspecified = Inl ErrUnknownRepresentation"

fun Final :: "representation \<Rightarrow> lt_error + time" where
  "Final HLAfloat64Time = Float64 0x7FEFFFFFFFFFFFFF"
| "Final HLAinteger64Time = Integer64 0x7FFFFFFFFFFFFFFF"
| "Final Unspecified = Inl ErrUnknownRepresentation"

definition Zero :: "representation \<Rightarrow> lt_error + interval" where
  "Zero r = bindR (Initial r) (\<lambda>t. Inr (Interval (tval t)))"

fun Epsilon :: "representation \<Rightarrow> lt_error + interval" where
  "Epsilon HLAfloat64Time = Float64Interval 1"
| "Epsilon HLAinteger64Time = Integer64Interval 1"
| "Epsilon Unspecified = Inl ErrUnknownRepresentation"

definition scalar_valid :: "scalar \<Rightarrow> bool" where
  "scalar_valid s \<longleftrightarrow> kind s = HLAfloat64Time \<or> kind s = HLAinteger64Time"

definition IsInitial :: "time \<Rightarrow> bool" where
  "IsInitial t \<longleftrightarrow> scalar_valid (tval t) \<and> bits (tval t) = 0"

definition IsZero :: "interval \<Rightarrow> bool" where
  "IsZero i \<longleftrightarrow> scalar_valid (ival i) \<and> bits (ival i) = 0"

definition IsFinal :: "time \<Rightarrow> bool" where
  "IsFinal t \<longleftrightarrow> Final (kind (tval t)) = Inr t"

definition IsEpsilon :: "interval \<Rightarrow> bool" where
  "IsEpsilon i \<longleftrightarrow> Epsilon (kind (ival i)) = Inr i"

definition scalar_floating :: "scalar \<Rightarrow> lt_error + f64" where
  "scalar_floating s = (if kind s \<noteq> HLAfloat64Time then Inl ErrRepresentationMismatch else Inr (bits s))"

definition scalar_integer :: "scalar \<Rightarrow> lt_error + 64 word" where
  "scalar_integer s =
     (if kind s \<noteq> HLAinteger64Time then Inl ErrRepresentationMismatch
      else if unat (bits s) > MaxInt64 then Inl ErrInvalidValue
      else Inr (bits s))"

definition compatible :: "scalar \<Rightarrow> scalar \<Rightarrow> lt_error + unit" where
  "compatible a b =
     (if \<not> scalar_valid a \<or> \<not> scalar_valid b then Inl ErrUnknownRepresentation
      else if kind a \<noteq> kind b then Inl ErrRepresentationMismatch
      else Inr ())"

definition compare :: "scalar \<Rightarrow> scalar \<Rightarrow> lt_error + int" where
  "compare a b = bindR (compatible a b) (\<lambda>_.
     if unat (bits a) < unat (bits b) then Inr (-1)
     else if unat (bits a) > unat (bits b) then Inr 1
     else Inr 0)"

definition arithmetic :: "scalar \<Rightarrow> scalar \<Rightarrow> bool \<Rightarrow> lt_error + scalar" where
  "arithmetic a b subtract = bindR (compatible a b) (\<lambda>_.
     if kind a = HLAinteger64Time then
       (if subtract then
          (if unat (bits b) > unat (bits a) then Inl ErrIllegalArithmetic
           else Inr \<lparr>kind = kind a, bits = bits a - bits b\<rparr>)
        else if unat (bits b) > unat (0x7FFFFFFFFFFFFFFF - bits a) then Inl ErrIllegalArithmetic
        else Inr \<lparr>kind = kind a, bits = bits a + bits b\<rparr>)
     else
       let left = bits a; right = bits b;
           result = (if subtract then f64_sub left right else f64_add left right);
           direction = (if subtract then f64_NegInf else f64_PosInf);
           result' = (if \<not> f64_eq right 0 \<and> f64_eq result left then f64_nextafter left direction else result)
       in if f64_isInf result' \<or> f64_lt result' 0 then Inl ErrIllegalArithmetic
          else floatValue result')"

definition Time_Compare :: "time \<Rightarrow> time \<Rightarrow> lt_error + int" where
  "Time_Compare t u = compare (tval t) (tval u)"

definition Time_Add :: "time \<Rightarrow> interval \<Rightarrow> lt_error + time" where
  "Time_Add t i = bindR (arithmetic (tval t) (ival i) False) (\<lambda>s. Inr (Time s))"

definition Time_Subtract :: "time \<Rightarrow> interval \<Rightarrow> lt_error + time" where
  "Time_Subtract t i = bindR (arithmetic (tval t) (ival i) True) (\<lambda>s. Inr (Time s))"

definition Interval_Compare :: "interval \<Rightarrow> interval \<Rightarrow> lt_error + int" where
  "Interval_Compare i j = compare (ival i) (ival j)"

definition Interval_Add :: "interval \<Rightarrow> interval \<Rightarrow> lt_error + interval" where
  "Interval_Add i j = bindR (arithmetic (ival i) (ival j) False) (\<lambda>s. Inr (Interval s))"

definition Interval_Subtract :: "interval \<Rightarrow> interval \<Rightarrow> lt_error + interval" where
  "Interval_Subtract i j = bindR (arithmetic (ival i) (ival j) True) (\<lambda>s. Inr (Interval s))"

definition Distance :: "time \<Rightarrow> time \<Rightarrow> lt_error + interval" where
  "Distance t u = bindR (Time_Compare t u) (\<lambda>order.
     let left = (if order < 0 then tval u else tval t);
         right = (if order < 0 then tval t else tval u)
     in if kind left = HLAfloat64Time then Float64Interval (f64_sub (bits left) (bits right))
        else bindR (arithmetic left right True) (\<lambda>s. Inr (Interval s)))"

definition encode :: "scalar \<Rightarrow> lt_error + bytes" where
  "encode s = (if \<not> scalar_valid s then Inl ErrUnknownRepresentation else Inr (be_bytes 8 (unat (bits s))))"

definition decode :: "representation \<Rightarrow> bytes \<Rightarrow> lt_error + scalar" where
  "decode k bs =
     (if length bs \<noteq> 8 then Inl ErrInvalidEncoding
      else let v = be_val bs in
        case k of
          HLAinteger64Time \<Rightarrow> (if v > MaxInt64 then Inl ErrInvalidValue else integerValue (word_of_nat v))
        | HLAfloat64Time \<Rightarrow> floatValue (word_of_nat v)
        | Unspecified \<Rightarrow> Inl ErrUnknownRepresentation)"

definition Time_MarshalBinary :: "time \<Rightarrow> lt_error + bytes" where
  "Time_MarshalBinary t = encode (tval t)"

definition DecodeTime :: "representation \<Rightarrow> bytes \<Rightarrow> lt_error + time" where
  "DecodeTime k bs = bindR (decode k bs) (\<lambda>s. Inr (Time s))"

definition Interval_MarshalBinary :: "interval \<Rightarrow> lt_error + bytes" where
  "Interval_MarshalBinary i = encode (ival i)"

definition DecodeInterval :: "representation \<Rightarrow> bytes \<Rightarrow> lt_error + interval" where
  "DecodeInterval k bs = bindR (decode k bs) (\<lambda>s. Inr (Interval s))"

section \<open>The invariant of constructed values\<close>

text \<open>
  \<open>scalar_wf\<close> holds of every scalar that a constructor, an arithmetic operation or a
  decoder returns; \<open>scalar_num\<close> is the number it denotes (in units of the least subnormal
  for Float64).
\<close>

definition scalar_wf :: "scalar \<Rightarrow> bool" where
  "scalar_wf s \<longleftrightarrow> (case kind s of
      HLAinteger64Time \<Rightarrow> unat (bits s) \<le> MaxInt64
    | HLAfloat64Time \<Rightarrow> f64_fin_nonneg (bits s)
    | Unspecified \<Rightarrow> False)"

definition scalar_num :: "scalar \<Rightarrow> nat" where
  "scalar_num s = (if kind s = HLAfloat64Time then fl_mag 52 (unat (bits s)) else unat (bits s))"

lemma scalar_wf_valid: "scalar_wf s \<Longrightarrow> scalar_valid s"
  by (auto simp: scalar_wf_def scalar_valid_def split: representation.splits)

lemma sint_nonneg_iff: "0 \<le> sint (v :: 64 word) \<longleftrightarrow> unat v \<le> MaxInt64"
proof -
  have u: "0 \<le> uint v" "uint v < 2 ^ 64" using uint_lt2p [of v] by simp_all
  have "sint v = (uint v + 2 ^ 63) mod 2 ^ 64 - 2 ^ 63"
    using int_word_sint [of "uint v", where ?'a = 64] by simp
  moreover have "(uint v + 2 ^ 63) mod 2 ^ 64 = (if uint v < 2 ^ 63 then uint v + 2 ^ 63 else uint v - 2 ^ 63)"
  proof (cases "uint v < 2 ^ 63")
    case False
    have "(uint v + 2 ^ 63) mod 2 ^ 64 = ((uint v - 2 ^ 63) + 2 ^ 64) mod 2 ^ 64" by (simp add: ac_simps)
    also have "\<dots> = (uint v - 2 ^ 63) mod 2 ^ 64" by (rule mod_add_self2)
    also have "\<dots> = uint v - 2 ^ 63" using False u by (intro mod_pos_pos_trivial) auto
    finally show ?thesis using False by simp
  qed (use u in \<open>auto intro: mod_pos_pos_trivial\<close>)
  ultimately have sv: "sint v = (if uint v < 2 ^ 63 then uint v + 2 ^ 63 else uint v - 2 ^ 63) - 2 ^ 63"
    by (simp only:)
  have "0 \<le> (if x < a then x + a else x - a) - a \<longleftrightarrow> x < a" if "0 \<le> x" "x < 2 * a" for x a :: int
    using that by auto
  moreover have "uint v < 2 * 2 ^ 63" using u(2) by simp
  ultimately have "0 \<le> sint v \<longleftrightarrow> uint v < 2 ^ 63" unfolding sv using u(1) by blast
  also have "\<dots> \<longleftrightarrow> unat v < 2 ^ 63"
    unfolding unat_eq_nat_uint nat_less_iff [OF u(1)] by simp
  finally show ?thesis by auto
qed

lemma floatValue_fin_nonneg:
  assumes "f64_fin_nonneg v"
  shows "floatValue v = Inr \<lparr>kind = HLAfloat64Time, bits = v\<rparr>"
proof -
  note S = f64_fin_nonneg_simps [OF assms]
  have "f64_eq v 0 \<Longrightarrow> v = 0" by (simp add: f64_eq_def S unat_eq_zero)
  then show ?thesis by (auto simp: floatValue_def S f64_lt_def)
qed

lemma floatValue_Inr_wf:
  assumes "floatValue v = Inr s"
  shows "scalar_wf s" and "kind s = HLAfloat64Time"
proof -
  have nn: "\<not> f64_isNaN v" "\<not> f64_isInf v" "0 \<le> f64_int v"
    and s: "s = \<lparr>kind = HLAfloat64Time, bits = (if f64_eq v 0 then 0 else v)\<rparr>"
    using assms by (auto simp: floatValue_def f64_lt_def split: if_splits)
  have "f64_fin_nonneg (if f64_eq v 0 then 0 else v)"
  proof (cases "f64_eq v 0")
    case False
    then have "f64_int v \<noteq> 0" using nn(1) by (simp add: f64_eq_def)
    then have "\<not> f64_sign v" using nn(3) by (auto simp: f64_int_def split: if_splits)
    then have "f64_abs v = unat v" by (simp add: f64_abs_def f64_sign_def)
    then show ?thesis using nn(1,2) False by (auto simp: f64_fin_nonneg_def f64_isNaN_def f64_isInf_def)
  qed (simp add: f64_fin_nonneg_def)
  then show "scalar_wf s" "kind s = HLAfloat64Time" by (simp_all add: s scalar_wf_def)
qed

lemma integerValue_eq:
  "integerValue v = (if unat v \<le> MaxInt64 then Inr \<lparr>kind = HLAinteger64Time, bits = v\<rparr> else Inl ErrInvalidValue)"
  using sint_nonneg_iff [of v] by (auto simp: integerValue_def)

lemma integerValue_Inr_wf:
  "integerValue v = Inr s \<Longrightarrow> scalar_wf s"
  by (auto simp: integerValue_eq scalar_wf_def split: if_splits)

lemma wf_integer: "kind s = HLAinteger64Time \<Longrightarrow> scalar_wf s \<longleftrightarrow> unat (bits s) \<le> MaxInt64"
  by (simp add: scalar_wf_def)

lemma wf_float: "kind s = HLAfloat64Time \<Longrightarrow> scalar_wf s \<longleftrightarrow> f64_fin_nonneg (bits s)"
  by (simp add: scalar_wf_def)

lemma wf_kind_cases:
  assumes "scalar_wf s"
  obtains (float) "kind s = HLAfloat64Time" "f64_fin_nonneg (bits s)"
    | (integer) "kind s = HLAinteger64Time" "unat (bits s) \<le> MaxInt64"
  using assms by (auto simp: scalar_wf_def split: representation.splits)

lemma compatible_wf:
  "scalar_wf a \<Longrightarrow> scalar_wf b \<Longrightarrow> kind a = kind b \<Longrightarrow> compatible a b = Inr ()"
  by (simp add: compatible_def scalar_wf_valid)

section \<open>Arithmetic\<close>

lemma arithmetic_integer_add:
  assumes "scalar_wf a" "scalar_wf b" "kind a = HLAinteger64Time" "kind b = HLAinteger64Time"
  shows "arithmetic a b False =
     (if scalar_num a + scalar_num b \<le> MaxInt64
      then Inr \<lparr>kind = HLAinteger64Time, bits = bits a + bits b\<rparr> else Inl ErrIllegalArithmetic)"
proof -
  have a: "unat (bits a) \<le> MaxInt64" "unat (bits b) \<le> MaxInt64"
    using assms by (simp_all add: wf_integer)
  have "unat (0x7FFFFFFFFFFFFFFF - bits a) = MaxInt64 - unat (bits a)"
    using a(1) by (simp add: unat_sub word_le_nat_alt)
  then show ?thesis
    using assms a by (auto simp: arithmetic_def compatible_wf scalar_num_def)
qed

lemma arithmetic_integer_sub:
  assumes "scalar_wf a" "scalar_wf b" "kind a = HLAinteger64Time" "kind b = HLAinteger64Time"
  shows "arithmetic a b True =
     (if scalar_num b \<le> scalar_num a
      then Inr \<lparr>kind = HLAinteger64Time, bits = bits a - bits b\<rparr> else Inl ErrIllegalArithmetic)"
  using assms by (auto simp: arithmetic_def compatible_wf scalar_num_def)

lemma integer_add_num:
  assumes "unat (x :: 64 word) + unat y \<le> MaxInt64"
  shows "unat (x + y) = unat x + unat y"
  using assms by (simp add: unat_word_ariths)

text \<open>
  The float branch of \<open>arithmetic\<close>: a rounded sum that did not move is pushed to the next
  representable value, so a non-zero interval always advances.
\<close>

lemma float_step_up:
  assumes "f64_fin_nonneg x" "f64_fin_nonneg y"
  defines "r \<equiv> (if \<not> f64_eq y 0 \<and> f64_eq (f64_add x y) x then f64_nextafter x f64_PosInf else f64_add x y)"
    and "e \<equiv> fl_enc 52 0 (fl_mag 52 (unat x) + fl_mag 52 (unat y))"
  shows "unat r = (if unat y \<noteq> 0 \<and> e = unat x then Suc (unat x) else min e f64_inf_pattern)" "unat x \<le> e"
proof -
  note S = f64_fin_nonneg_simps [OF assms(1)] and T = f64_fin_nonneg_simps [OF assms(2)]
  have ux: "unat x < f64_inf_pattern" using assms(1) by (simp add: f64_fin_nonneg_def)
  have add: "unat (f64_add x y) = min e f64_inf_pattern"
    unfolding e_def using assms(1,2) by (rule f64_add_fin_nonneg)
  show "unat x \<le> e" unfolding e_def by (rule fl_enc_ge) simp
  have inf: "unat (f64_add x y) \<le> f64_inf_pattern" by (simp add: add)
  have abs: "f64_abs (f64_add x y) = unat (f64_add x y)" "\<not> f64_sign (f64_add x y)"
    using inf by (simp_all add: f64_abs_def f64_sign_def)
  have nonan: "\<not> f64_isNaN (f64_add x y)" using inf by (simp add: f64_isNaN_def abs)
  have eq: "f64_eq (f64_add x y) x \<longleftrightarrow> unat (f64_add x y) = unat x"
    using nonan S by (auto simp: f64_eq_def f64_int_def abs)
  have zero: "f64_eq y 0 \<longleftrightarrow> unat y = 0" using T by (simp add: f64_eq_def)
  have up: "unat (f64_nextafter x f64_PosInf) = unat x + 1" by (rule f64_nextafter_up [OF assms(1)])
  show "unat r = (if unat y \<noteq> 0 \<and> e = unat x then Suc (unat x) else min e f64_inf_pattern)"
    using up ux by (auto simp: r_def eq zero add)
qed

lemma float_pattern_result:
  assumes "unat r \<le> f64_inf_pattern"
  shows "(if f64_isInf r \<or> f64_lt r 0 then Inl ErrIllegalArithmetic else floatValue r) =
     (if unat r < f64_inf_pattern then Inr \<lparr>kind = HLAfloat64Time, bits = r\<rparr> else Inl ErrIllegalArithmetic)"
proof -
  have abs: "f64_abs r = unat r" "\<not> f64_sign r"
    using assms by (simp_all add: f64_abs_def f64_sign_def)
  have "\<not> f64_lt r 0" using abs(2) by (simp add: f64_lt_def f64_int_def [of r])
  moreover have "f64_isInf r \<longleftrightarrow> \<not> unat r < f64_inf_pattern" using assms by (auto simp: f64_isInf_def abs)
  moreover have "unat r < f64_inf_pattern \<Longrightarrow> f64_fin_nonneg r" by (simp add: f64_fin_nonneg_def)
  ultimately show ?thesis by (auto simp: floatValue_fin_nonneg)
qed

text \<open>The largest number of a representation.\<close>

definition final_num :: "representation \<Rightarrow> nat" where
  "final_num r = (if r = HLAfloat64Time then fl_mag 52 (f64_inf_pattern - 1) else MaxInt64)"

lemma Final_num:
  "r \<noteq> Unspecified \<Longrightarrow> \<exists>t. Final r = Inr t \<and> scalar_wf (tval t) \<and> kind (tval t) = r \<and> scalar_num (tval t) = final_num r"
  by (cases r) (auto simp: Float64_def Integer64_def floatValue_fin_nonneg f64_fin_nonneg_def
      integerValue_eq scalar_wf_def scalar_num_def final_num_def)

text \<open>A scalar that is as near to a number as any of its representation, and the next scalar.\<close>

definition nearest :: "nat \<Rightarrow> scalar \<Rightarrow> bool" where
  "nearest x s \<longleftrightarrow> scalar_wf s \<and>
     (\<forall>r. scalar_wf r \<and> kind r = kind s \<longrightarrow> \<bar>int (scalar_num s) - int x\<bar> \<le> \<bar>int (scalar_num r) - int x\<bar>)"

definition next_scalar :: "scalar \<Rightarrow> scalar \<Rightarrow> bool" where
  "next_scalar s r \<longleftrightarrow> scalar_wf r \<and> kind r = kind s \<and> scalar_num s < scalar_num r \<and>
     (\<forall>q. scalar_wf q \<and> kind q = kind s \<and> scalar_num s < scalar_num q \<longrightarrow> scalar_num r \<le> scalar_num q)"

lemma float_scalar:
  assumes "p < f64_inf_pattern"
  defines "s \<equiv> \<lparr>kind = HLAfloat64Time, bits = word_of_nat p\<rparr>"
  shows "unat (bits s) = p" "scalar_wf s" "scalar_num s = fl_mag 52 p"
proof -
  have "p < 2 ^ 64" using assms(1) by simp
  then show "unat (bits s) = p" by (simp add: s_def unat_of_nat)
  then show "scalar_wf s" "scalar_num s = fl_mag 52 p"
    using assms(1) by (simp_all add: s_def scalar_wf_def f64_fin_nonneg_def scalar_num_def)
qed

lemma float_nearest: "fl_enc 52 0 n < f64_inf_pattern \<Longrightarrow> nearest n \<lparr>kind = HLAfloat64Time, bits = word_of_nat (fl_enc 52 0 n)\<rparr>"
  using float_scalar [of "fl_enc 52 0 n"] fl_enc_nearest [of 52 n] by (simp add: nearest_def) (simp add: scalar_num_def)

lemma float_bits:
  assumes "scalar_wf s" "kind s = HLAfloat64Time"
  shows "s = \<lparr>kind = HLAfloat64Time, bits = word_of_nat (unat (bits s))\<rparr>" "unat (bits s) < f64_inf_pattern"
    "scalar_num s = fl_mag 52 (unat (bits s))"
  using assms by (simp_all add: scalar_wf_def f64_fin_nonneg_def scalar_num_def)

lemma float_next:
  assumes "scalar_wf s" "kind s = HLAfloat64Time" "Suc (unat (bits s)) < f64_inf_pattern"
  shows "next_scalar s \<lparr>kind = HLAfloat64Time, bits = word_of_nat (Suc (unat (bits s)))\<rparr>"
proof -
  note f = float_scalar [OF assms(3)]
  have "Suc (unat (bits s)) \<le> unat (bits q)" if "scalar_wf q" "kind q = HLAfloat64Time" "scalar_num s < scalar_num q" for q
    using that assms(1,2) float_bits(3) [of q] float_bits(3) [of s] by simp
  then show ?thesis using f assms(1,2) float_bits(3) [OF assms(1,2)]
    by (auto simp: next_scalar_def) (simp add: scalar_num_def)
qed

text \<open>The sum that rounds past the final time: half way to the number the infinite pattern would be.\<close>

definition overflows :: "nat \<Rightarrow> bool" where
  "overflows n \<longleftrightarrow> final_num HLAfloat64Time + fl_mag 52 f64_inf_pattern \<le> 2 * n"

lemma overflows_iff: "overflows n \<longleftrightarrow> f64_inf_pattern \<le> fl_enc 52 0 n"
proof -
  have "odd (f64_inf_pattern - 1)" "Suc (f64_inf_pattern - 1) = f64_inf_pattern" by simp_all
  then have "f64_inf_pattern - 1 < fl_enc 52 0 n \<longleftrightarrow> fl_mag 52 (f64_inf_pattern - 1) + fl_mag 52 f64_inf_pattern \<le> 2 * n"
    using fl_enc_passes [of 52 "f64_inf_pattern - 1" n] by (simp only:) simp
  moreover have "f64_inf_pattern \<le> fl_enc 52 0 n \<longleftrightarrow> f64_inf_pattern - 1 < fl_enc 52 0 n" by auto
  ultimately show ?thesis by (simp only: overflows_def final_num_def if_True refl)
qed

lemma arithmetic_float_add:
  assumes "scalar_wf a" "scalar_wf b" "kind a = HLAfloat64Time" "kind b = HLAfloat64Time"
  defines "n \<equiv> scalar_num a + scalar_num b"
  shows "if overflows n \<or> unat (bits a) = f64_inf_pattern - 1 \<and> scalar_num b \<noteq> 0 then arithmetic a b False = Inl ErrIllegalArithmetic
    else \<exists>s v. arithmetic a b False = Inr s \<and> kind s = HLAfloat64Time \<and> kind v = HLAfloat64Time \<and> nearest n v \<and>
      (if scalar_num b \<noteq> 0 \<and> v = a then next_scalar a s else s = v) \<and> scalar_num a \<le> scalar_num v"
proof -
  let ?e = "fl_enc 52 0 n" and ?v = "\<lparr>kind = HLAfloat64Time, bits = word_of_nat (fl_enc 52 0 n)\<rparr>"
  note A = float_bits [OF assms(1,3)] and B = float_bits [OF assms(2,4)]
  have fa: "f64_fin_nonneg (bits a)" "f64_fin_nonneg (bits b)" using assms(1-4) by (simp_all add: wf_float)
  define r where "r = (if \<not> f64_eq (bits b) 0 \<and> f64_eq (f64_add (bits a) (bits b)) (bits a)
            then f64_nextafter (bits a) f64_PosInf else f64_add (bits a) (bits b))"
  have r: "unat r = (if scalar_num b \<noteq> 0 \<and> ?e = unat (bits a) then Suc (unat (bits a)) else min ?e f64_inf_pattern)" "unat (bits a) \<le> ?e"
    using float_step_up [OF fa, folded r_def] A(3) B(3) by (simp_all add: n_def)
  have "unat r \<le> f64_inf_pattern" using r(1) A(2) by auto
  have "arithmetic a b False = (if f64_isInf r \<or> f64_lt r 0 then Inl ErrIllegalArithmetic else floatValue r)"
    using compatible_wf [OF assms(1,2)] assms(3,4) by (simp add: arithmetic_def Let_def flip: r_def)
  also note float_pattern_result [OF \<open>unat r \<le> f64_inf_pattern\<close>]
  finally have arith: "arithmetic a b False =
      (if unat r < f64_inf_pattern then Inr \<lparr>kind = HLAfloat64Time, bits = r\<rparr> else Inl ErrIllegalArithmetic)" .
  show ?thesis
  proof (cases "overflows n \<or> unat (bits a) = f64_inf_pattern - 1 \<and> scalar_num b \<noteq> 0")
    case True
    then have "\<not> unat r < f64_inf_pattern" using r A(2) by (auto simp: overflows_iff)
    then show ?thesis using True arith by simp
  next
    case False
    then have e: "?e < f64_inf_pattern" by (simp add: overflows_iff)
    note V = float_scalar [OF e]
    have va: "?v = a \<longleftrightarrow> ?e = unat (bits a)" using V(1) A(1) by (metis scalar.select_convs(2))
    have small: "Suc (unat (bits a)) < f64_inf_pattern" if "scalar_num b \<noteq> 0" using False that A(2) by auto
    have "unat r < f64_inf_pattern" using r(1) e small by auto
    then have s: "arithmetic a b False = Inr \<lparr>kind = HLAfloat64Time, bits = word_of_nat (unat r)\<rparr>" using arith by simp
    have "if scalar_num b \<noteq> 0 \<and> ?v = a then next_scalar a \<lparr>kind = HLAfloat64Time, bits = word_of_nat (unat r)\<rparr>
        else \<lparr>kind = HLAfloat64Time, bits = word_of_nat (unat r)\<rparr> = ?v"
      unfolding va r(1) using float_next [OF assms(1,3)] small e by auto
    moreover have "scalar_num a \<le> scalar_num ?v" using V(3) A(3) r(2) by simp
    ultimately show ?thesis using False s float_nearest [OF e] by (simp only: if_False) (metis scalar.select_convs(1))
  qed
qed

section \<open>Comparison, distance and the wire form\<close>

lemma compare_wf_eq:
  assumes "scalar_wf a" "scalar_wf b" "kind a = kind b"
  shows "compare a b = Inr (sgn (int (scalar_num a) - int (scalar_num b)))"
  using assms by (auto simp: compare_def compatible_wf scalar_num_def)

lemma scalar_num_inj:
  "scalar_wf a \<Longrightarrow> scalar_wf b \<Longrightarrow> kind a = kind b \<Longrightarrow> scalar_num a = scalar_num b \<Longrightarrow> a = b"
  by (auto simp: scalar_num_def intro!: scalar.equality unsigned_word_eqI split: if_splits)

lemma decode_wf: "decode k bs = Inr s \<Longrightarrow> scalar_wf s \<and> kind s = k"
  by (auto simp: decode_def Let_def integerValue_eq floatValue_Inr_wf wf_integer
           split: if_splits representation.splits)

lemma word_of_be_val_be_bytes: "word_of_nat (be_val (be_bytes 8 (unat (w :: 64 word)))) = w"
proof -
  have "unat w mod 256 ^ 8 = unat w"
    using unat_bound [of w] by simp
  then show ?thesis by (simp add: be_val_be_bytes)
qed

lemma decode_encode_wf:
  assumes "scalar_wf s"
  shows "\<exists>bs. encode s = Inr bs \<and> length bs = 8 \<and> decode (kind s) bs = Inr s"
proof -
  have v: "be_val (be_bytes 8 (unat (bits s))) = unat (bits s)"
    using unat_bound [of "bits s"] by (simp add: be_val_be_bytes)
  have "decode (kind s) (be_bytes 8 (unat (bits s))) = Inr s"
    using assms
  proof (cases rule: wf_kind_cases)
    case float
    then show ?thesis by (simp add: decode_def v floatValue_fin_nonneg)
  next
    case integer
    then show ?thesis by (simp add: decode_def v integerValue_eq)
  qed
  then show ?thesis using scalar_wf_valid [OF assms] by (simp add: encode_def)
qed

lemma IsFinal_float:
  assumes "kind (tval t) = HLAfloat64Time"
  shows "IsFinal t \<longleftrightarrow> unat (bits (tval t)) = f64_inf_pattern - 1"
proof -
  have "Final HLAfloat64Time = Inr (Time \<lparr>kind = HLAfloat64Time, bits = 0x7FEFFFFFFFFFFFFF\<rparr>)"
    by (simp add: Float64_def floatValue_fin_nonneg f64_fin_nonneg_def)
  moreover have "bits (tval t) = 0x7FEFFFFFFFFFFFFF \<longleftrightarrow> unat (bits (tval t)) = f64_inf_pattern - 1"
  proof -
    have "unat (0x7FEFFFFFFFFFFFFF :: 64 word) = f64_inf_pattern - 1" by simp
    then show ?thesis by (metis unsigned_word_eqI)
  qed
  ultimately show ?thesis using assms by (cases t) (auto simp: IsFinal_def intro!: scalar.equality)
qed

lemma Time_Add_later:
  assumes "scalar_wf (tval t)" "scalar_wf (ival i)" "kind (tval t) = kind (ival i)" "Time_Add t i = Inr u" "scalar_num (ival i) \<noteq> 0"
  shows "Time_Compare t u = Inr (-1)"
proof -
  have "scalar_wf (tval u) \<and> kind (tval u) = kind (tval t) \<and> scalar_num (tval t) < scalar_num (tval u)"
    using assms(1)
  proof (cases rule: wf_kind_cases)
    case float
    obtain s v where "tval u = s" "kind s = HLAfloat64Time" "nearest (scalar_num (tval t) + scalar_num (ival i)) v"
      "kind v = HLAfloat64Time" "if v = tval t then next_scalar (tval t) s else s = v" "scalar_num (tval t) \<le> scalar_num v"
      using arithmetic_float_add [OF assms(1,2) float(1)] assms(3,4,5) float(1)
      by (auto simp: Time_Add_def result_simps split: if_splits)
    then show ?thesis using scalar_num_inj [OF assms(1), of v] float(1)
      by (cases "v = tval t") (auto simp: next_scalar_def nearest_def order.order_iff_strict)
  next
    case integer
    then show ?thesis using arithmetic_integer_add [OF assms(1,2)] assms(2-5) integer_add_num [of "bits (tval t)" "bits (ival i)"]
      by (auto simp: Time_Add_def result_simps scalar_wf_def scalar_num_def split: if_splits)
  qed
  then show ?thesis using compare_wf_eq [OF assms(1)] by (simp add: Time_Compare_def)
qed

text \<open>The distance from the later time to the earlier one.\<close>

lemma Distance_from_later:
  assumes "scalar_wf a" "scalar_wf b" "kind a = kind b" "scalar_num b \<le> scalar_num a"
  defines "n \<equiv> scalar_num a - scalar_num b"
  shows "kind a = HLAinteger64Time \<Longrightarrow> Distance (Time a) (Time b) = Inr (Interval \<lparr>kind = HLAinteger64Time, bits = word_of_nat n\<rparr>)"
    and "kind a = HLAfloat64Time \<Longrightarrow> \<exists>d. Distance (Time a) (Time b) = Inr (Interval d) \<and> kind d = HLAfloat64Time \<and> nearest n d"
proof -
  have order: "Time_Compare (Time a) (Time b) = Inr (sgn (int (scalar_num a) - int (scalar_num b)))"
    using compare_wf_eq [OF assms(1-3)] by (simp add: Time_Compare_def)
  have pos: "\<not> sgn (int (scalar_num a) - int (scalar_num b)) < 0" using assms(4) by simp
  show "Distance (Time a) (Time b) = Inr (Interval \<lparr>kind = HLAinteger64Time, bits = word_of_nat n\<rparr>)" if k: "kind a = HLAinteger64Time"
  proof -
    have "bits a - bits b = word_of_nat n"
      using assms(3,4) k by (simp add: n_def scalar_num_def of_nat_diff)
    then show ?thesis using arithmetic_integer_sub [OF assms(1,2) k] assms(3,4) k order pos
      by (simp add: Distance_def Let_def)
  qed
  show "\<exists>d. Distance (Time a) (Time b) = Inr (Interval d) \<and> kind d = HLAfloat64Time \<and> nearest n d" if k: "kind a = HLAfloat64Time"
  proof -
    have kb: "kind b = HLAfloat64Time" using assms(3) k by simp
    note A = float_bits [OF assms(1) k] and B = float_bits [OF assms(2) kb]
    have le: "unat (bits b) \<le> unat (bits a)" using assms(4) A(3) B(3) by simp
    have fa: "f64_fin_nonneg (bits a)" "f64_fin_nonneg (bits b)" using assms(1,2) k kb by (simp_all add: wf_float)
    let ?d = "f64_sub (bits a) (bits b)"
    have d: "unat ?d = fl_enc 52 0 n" "unat ?d < f64_inf_pattern"
      using f64_sub_fin_nonneg [OF fa le] A(2,3) B(3) by (simp_all add: n_def)
    have "Distance (Time a) (Time b) = Inr (Interval \<lparr>kind = HLAfloat64Time, bits = ?d\<rparr>)"
      using order pos k d(2) by (simp add: Distance_def Let_def Float64Interval_def floatValue_fin_nonneg f64_fin_nonneg_def)
    moreover have "nearest n \<lparr>kind = HLAfloat64Time, bits = ?d\<rparr>" using float_nearest [of n] d(2) unfolding d(1) [symmetric] by simp
    ultimately show ?thesis by auto
  qed
qed

lemma Distance_swap:
  assumes "scalar_wf (tval t)" and "scalar_wf (tval u)" and "kind (tval t) = kind (tval u)"
  shows "Distance t u = Distance u t"
proof (cases "scalar_num (tval t) = scalar_num (tval u)")
  case True
  then have "tval t = tval u" using assms scalar_num_inj by blast
  then have "t = u" by (cases t; cases u) simp
  then show ?thesis by simp
next
  case False
  then consider "scalar_num (tval t) < scalar_num (tval u)" | "scalar_num (tval u) < scalar_num (tval t)"
    by linarith
  then show ?thesis
    using compare_wf_eq [OF assms] compare_wf_eq [OF assms(2,1) assms(3) [symmetric]]
    by cases (simp_all add: Distance_def Time_Compare_def)
qed

section \<open>Properties\<close>

text \<open>
  C36.  Adding an interval to a logical time of the same representation.  In Integer64 the result is
  the exact sum, and the error \<open>ErrIllegalArithmetic\<close> is reported exactly when the sum lies beyond the
  final time.  In Float64 the error is reported exactly when the sum rounds past the final
  time, or the time is the final one and the interval is not zero; otherwise the result is a
  representable time nearest to the exact sum, except that the next later time is taken where
  rounding a non-zero interval would return the old time.  So a non-zero interval always advances.
\<close>

theorem Time_Add_advances:
  assumes "scalar_wf (tval t)" and "scalar_wf (ival i)" and "kind (tval t) = kind (ival i)"
    and "n = scalar_num (tval t) + scalar_num (ival i)"
  shows "(kind (tval t) = HLAinteger64Time \<longrightarrow>
      Time_Add t i = (if n \<le> MaxInt64 then Inr (Time \<lparr>kind = HLAinteger64Time, bits = word_of_nat n\<rparr>) else Inl ErrIllegalArithmetic)) \<and>
    (kind (tval t) = HLAfloat64Time \<longrightarrow>
      (if overflows n \<or> IsFinal t \<and> \<not> IsZero i then Time_Add t i = Inl ErrIllegalArithmetic
       else \<exists>u v. Time_Add t i = Inr u \<and> kind (tval u) = HLAfloat64Time \<and> kind v = HLAfloat64Time \<and> nearest n v \<and>
         (if \<not> IsZero i \<and> v = tval t then next_scalar (tval t) (tval u) else tval u = v))) \<and>
    (\<forall>u. Time_Add t i = Inr u \<and> \<not> IsZero i \<longrightarrow> Time_Compare t u = Inr (-1))"
proof (intro conjI)
  have zero: "IsZero i \<longleftrightarrow> scalar_num (ival i) = 0"
    using scalar_wf_valid [OF assms(2)] by (auto simp: IsZero_def scalar_num_def unat_eq_zero split: if_splits)
  show int: "kind (tval t) = HLAinteger64Time \<longrightarrow>
      Time_Add t i = (if n \<le> MaxInt64 then Inr (Time \<lparr>kind = HLAinteger64Time, bits = word_of_nat n\<rparr>) else Inl ErrIllegalArithmetic)"
    using arithmetic_integer_add [OF assms(1,2)] assms(3,4)
    by (auto simp: Time_Add_def scalar_num_def)
  have final: "IsFinal t \<longleftrightarrow> unat (bits (tval t)) = f64_inf_pattern - 1" if "kind (tval t) = HLAfloat64Time"
    using that by (rule IsFinal_float)
  show flt: "kind (tval t) = HLAfloat64Time \<longrightarrow>
      (if overflows n \<or> IsFinal t \<and> \<not> IsZero i then Time_Add t i = Inl ErrIllegalArithmetic
       else \<exists>u v. Time_Add t i = Inr u \<and> kind (tval u) = HLAfloat64Time \<and> kind v = HLAfloat64Time \<and> nearest n v \<and>
         (if \<not> IsZero i \<and> v = tval t then next_scalar (tval t) (tval u) else tval u = v))"
  proof
    assume k: "kind (tval t) = HLAfloat64Time"
    show "if overflows n \<or> IsFinal t \<and> \<not> IsZero i then Time_Add t i = Inl ErrIllegalArithmetic
       else \<exists>u v. Time_Add t i = Inr u \<and> kind (tval u) = HLAfloat64Time \<and> kind v = HLAfloat64Time \<and> nearest n v \<and>
         (if \<not> IsZero i \<and> v = tval t then next_scalar (tval t) (tval u) else tval u = v)"
      using arithmetic_float_add [OF assms(1,2) k] assms(3,4) k
      unfolding zero final [OF k] Time_Add_def by (auto split: if_splits)
  qed
  show "\<forall>u. Time_Add t i = Inr u \<and> \<not> IsZero i \<longrightarrow> Time_Compare t u = Inr (-1)"
    by (intro allI impI) (rule Time_Add_later [OF assms(1-3)], auto simp: zero)
qed

theorem Time_Add_advances_witness:
  "Time_Add (Time \<lparr>kind = HLAinteger64Time, bits = 5\<rparr>) (Interval \<lparr>kind = HLAinteger64Time, bits = 2\<rparr>) =
     Inr (Time \<lparr>kind = HLAinteger64Time, bits = 7\<rparr>)"
  using Time_Add_advances [of "Time \<lparr>kind = HLAinteger64Time, bits = 5\<rparr>"
      "Interval \<lparr>kind = HLAinteger64Time, bits = 2\<rparr>", OF _ _ _ refl]
  by (simp add: scalar_wf_def scalar_num_def)

text \<open>
  C37.  the unsigned bit-pattern comparison that \<open>compare\<close> performs is the numeric order of the
  two values, for Integer64 and for the non-negative doubles of Float64 alike.
\<close>

theorem Time_Compare_numeric:
  assumes "scalar_wf (tval t)" and "scalar_wf (tval u)" and "kind (tval t) = kind (tval u)"
  shows "Time_Compare t u = Inr (sgn (int (scalar_num (tval t)) - int (scalar_num (tval u))))"
  unfolding Time_Compare_def using assms by (rule compare_wf_eq)

theorem Time_Compare_numeric_witness:
  "Time_Compare (Time \<lparr>kind = HLAfloat64Time, bits = 0x3FF0000000000000\<rparr>)
                (Time \<lparr>kind = HLAfloat64Time, bits = 0x4000000000000000\<rparr>) = Inr (-1)"
proof -
  have "fl_mag 52 0x3FF0000000000000 < fl_mag 52 0x4000000000000000"
    by (subst fl_mag_less_iff) simp
  then show ?thesis
    using Time_Compare_numeric [of "Time \<lparr>kind = HLAfloat64Time, bits = 0x3FF0000000000000\<rparr>"
        "Time \<lparr>kind = HLAfloat64Time, bits = 0x4000000000000000\<rparr>"]
    by (simp add: scalar_wf_def f64_fin_nonneg_def scalar_num_def del: fl_mag_less_iff)
qed

text \<open>
  C38.  the binary form of a logical time is exactly eight octets, decodes back to the same
  time under its own representation, and whatever a decoder accepts is again a valid time.
\<close>

theorem DecodeTime_MarshalBinary:
  assumes "scalar_wf (tval t)"
  shows "(\<exists>bs. Time_MarshalBinary t = Inr bs \<and> length bs = 8 \<and> DecodeTime (kind (tval t)) bs = Inr t) \<and>
    (\<forall>k bs u. DecodeTime k bs = Inr u \<longrightarrow> scalar_wf (tval u) \<and> kind (tval u) = k \<and> length bs = 8)"
proof (intro conjI allI impI)
  show "\<exists>bs. Time_MarshalBinary t = Inr bs \<and> length bs = 8 \<and> DecodeTime (kind (tval t)) bs = Inr t"
    using decode_encode_wf [OF assms] by (auto simp: Time_MarshalBinary_def DecodeTime_def)
  fix k bs u assume "DecodeTime k bs = Inr u"
  then have "decode k bs = Inr (tval u)" by (auto simp: DecodeTime_def result_simps)
  note d = this
  from d show "length bs = 8" by (simp add: decode_def split: if_splits)
  from decode_wf [OF d] show "scalar_wf (tval u)" "kind (tval u) = k" by simp_all
qed

theorem DecodeTime_MarshalBinary_witness:
  "\<exists>bs. Time_MarshalBinary (Time \<lparr>kind = HLAinteger64Time, bits = 258\<rparr>) = Inr bs \<and>
        DecodeTime HLAinteger64Time bs = Inr (Time \<lparr>kind = HLAinteger64Time, bits = 258\<rparr>)"
  using DecodeTime_MarshalBinary [of "Time \<lparr>kind = HLAinteger64Time, bits = 258\<rparr>"]
  by (auto simp: scalar_wf_def)

text \<open>
  C39.  The distance of two valid times of one representation is the difference of the numbers they
  denote, whichever is the later one: exactly in Integer64, and in Float64 a representable
  interval nearest to it.  It never fails and does not depend on the order of the times.
\<close>

theorem Distance_is_difference:
  assumes "scalar_wf (tval t)" and "scalar_wf (tval u)" and "kind (tval t) = kind (tval u)"
    and "int n = \<bar>int (scalar_num (tval t)) - int (scalar_num (tval u))\<bar>"
  shows "Distance u t = Distance t u \<and>
    (kind (tval t) = HLAinteger64Time \<longrightarrow> Distance t u = Inr (Interval \<lparr>kind = HLAinteger64Time, bits = word_of_nat n\<rparr>)) \<and>
    (kind (tval t) = HLAfloat64Time \<longrightarrow> (\<exists>d. Distance t u = Inr (Interval d) \<and> kind d = HLAfloat64Time \<and> nearest n d))"
proof (cases "scalar_num (tval u) \<le> scalar_num (tval t)")
  case True
  then have "n = scalar_num (tval t) - scalar_num (tval u)" using assms(4) by linarith
  then show ?thesis using Distance_from_later [OF assms(1-3) True] Distance_swap [OF assms(1-3)] by simp
next
  case False
  then have le: "scalar_num (tval t) \<le> scalar_num (tval u)" by simp
  then have "n = scalar_num (tval u) - scalar_num (tval t)" using assms(4) by linarith
  then show ?thesis using Distance_from_later [OF assms(2,1) assms(3) [symmetric] le] Distance_swap [OF assms(1-3)] assms(3) by simp
qed

theorem Distance_is_difference_witness:
  "Distance (Time \<lparr>kind = HLAinteger64Time, bits = 4\<rparr>) (Time \<lparr>kind = HLAinteger64Time, bits = 9\<rparr>) =
     Inr (Interval \<lparr>kind = HLAinteger64Time, bits = 5\<rparr>)"
  using Distance_is_difference [of "Time \<lparr>kind = HLAinteger64Time, bits = 4\<rparr>" "Time \<lparr>kind = HLAinteger64Time, bits = 9\<rparr>" 5]
  by (simp add: scalar_wf_def scalar_num_def)

end
