(* ===== verification/Time_Core.thy ===== *)
theory Time_Core
  imports LogicalTime
begin

text \<open>
  The decision layer of time management, \<open>rti/internal/hla/time\<close>, at the Integer64
  instance of its generic code: time bounds (\<open>scalar.go\<close>, \<open>arithmetic.go\<close>), the per-federate
  records (\<open>regulation.go\<close>, \<open>ner.go\<close>, \<open>asyncdelivery.go\<close>), the outgoing timestamp bound
  (\<open>zero_lookahead.go\<close>), LBTS (\<open>lbts.go\<close>), GALT (\<open>galt.go\<close>) and the grant decision
  (\<open>typed_grant.go\<close>).  An int64 logical time is an \<open>int\<close>: every stored time is in
  \<open>0 .. MaxTime\<close>, the only addition goes through \<open>addHorizon\<close>, which reports overflow, and a
  difference of two stored times does not leave the int64 range.
\<close>

section \<open>Data\<close>

definition MaxTime :: int where "MaxTime = 2 ^ 63 - 1"

datatype time_error =
    ErrFederationHalted | ErrTimeNotRegulating | ErrTimeNotConstrained | ErrTimeInvalidLookahead
  | ErrTimeRequestInPast | ErrTimeAlreadyRegulating | ErrTimeAlreadyConstrained | ErrTimeAdvancingState
  | ErrTimeAlreadyAsynchronous | ErrTimeNotAsynchronous | ErrTimeInvalidLogicalTime
  | ErrTimeRegulationPending | ErrTimeConstrainedPending
  | ErrFederateOverflow | ErrOutboxUnavailable | ErrEventLog
  | ErrRetractionIDAlreadyUsed | ErrRetractionHandleInvalid | ErrRetractionTooLate
  | ErrRetractionHistoryUnavailable | ErrRetractionIDExhausted
  | ErrScheduledSaveProfileUnsupported | ErrScheduledSaveTimeStateChanged | ErrSaveAlreadyInProgress
  | ErrFederateNotJoined | ErrSaveTimeNotAllowed | ErrOther

record TimeBound =
  Limit :: int
  Unbounded :: bool

datatype AdvanceMode = ModeNone | ModeNER | ModeNMRA | ModeTAR | ModeTARA | ModeFQR

datatype order_type = OrderReceive | OrderTimestamp

text \<open>
  An outbound event: the callbacks time management itself produces, and the messages of
  object management it queues.  Of a message only what time management looks at is kept:
  an identity for its payload, whether it is an \<open>InternalTSOEvent\<close>, the received order if it
  is a \<open>ReceivedOrderEvent\<close>, and the object of an \<open>objectReflectionEvent\<close> or
  \<open>ObjectDeletionEvent\<close> (0 for none).
\<close>

record message =
  payload :: nat
  InternalTSO :: bool
  ReceivedOrder :: "order_type option"
  ReflectionObject :: nat
  DeletionObject :: nat

datatype event =
    TimeAdvanceGrant int
  | TimeRegulationEnabled int
  | TimeConstrainedEnabled int
  | FederationHalted string handle
  | RequestRetraction handle nat
  | Message message

record bufferedTSOEvent =
  timestamp :: int
  bevent :: event
  sender :: handle
  retractionHandle :: nat
  receiveOrder :: bool

record federateState =
  regulating :: bool
  lookahead :: int
  constrained :: bool
  regulationPending :: bool
  regulationLookahead :: int
  constrainedPending :: bool
  preservedReceiveTime :: "int option"
  receivedTSOTime :: "int option"
  lookaheadTarget :: int
  reducingLookahead :: bool
  lookaheadOriginTime :: int
  lookaheadOriginValue :: int

definition new_federateState :: federateState where
  "new_federateState = \<lparr>regulating = False, lookahead = 0, constrained = False, regulationPending = False,
     regulationLookahead = 0, constrainedPending = False, preservedReceiveTime = None, receivedTSOTime = None,
     lookaheadTarget = 0, reducingLookahead = False, lookaheadOriginTime = 0, lookaheadOriginValue = 0\<rparr>"

text \<open>
  \<open>pendingSince\<close> is a wall-clock reading, \<open>None\<close> for Go's zero time.  The elapsed-time
  accounting for the management object model is left out of the record.
\<close>

record nerState =
  currentTime :: int
  pendingNER :: bool
  requestedTime :: int
  mode :: AdvanceMode
  pendingSince :: "int option"
  strictZeroLookahead :: bool
  flushMinimum :: "int option"
  asyncDelivery :: bool
  tsoBuffer :: "bufferedTSOEvent list"
  roBuffer :: "bufferedTSOEvent list"

definition new_nerState :: nerState where
  "new_nerState = \<lparr>currentTime = 0, pendingNER = False, requestedTime = 0, mode = ModeNone, pendingSince = None,
     strictZeroLookahead = False, flushMinimum = None, asyncDelivery = False, tsoBuffer = [], roBuffer = []\<rparr>"

section \<open>Time bounds\<close>

definition unboundedHorizon :: TimeBound where
  "unboundedHorizon = \<lparr>Limit = 0, Unbounded = True\<rparr>"

definition horizonScalar :: "TimeBound \<Rightarrow> int" where
  "horizonScalar bound = (if \<not> Unbounded bound then Limit bound else MaxTime)"

definition minimumHorizon :: "TimeBound \<Rightarrow> TimeBound \<Rightarrow> TimeBound" where
  "minimumHorizon a b =
     (if Unbounded a then b else if Unbounded b then a else if Limit b < Limit a then b else a)"

definition horizonBeyond :: "TimeBound \<Rightarrow> int \<Rightarrow> bool \<Rightarrow> bool" where
  "horizonBeyond bound value strict =
     (if Unbounded bound then True
      else let limit = horizonScalar bound in if strict then limit > value else limit \<ge> value)"

definition successor :: "int \<Rightarrow> int \<times> bool" where
  "successor tm = (if tm = MaxTime then (tm, False) else (tm + 1, True))"

definition predecessor :: "int \<Rightarrow> int" where
  "predecessor tm = tm - 1"

definition ScalarTimeValue :: "int \<Rightarrow> lt_error + time" where
  "ScalarTimeValue v = Integer64 (word_of_int v)"

definition ScalarIntervalValue :: "int \<Rightarrow> lt_error + interval" where
  "ScalarIntervalValue v = Integer64Interval (word_of_int v)"

definition ScalarFromTimeValue :: "time \<Rightarrow> lt_error + int" where
  "ScalarFromTimeValue t =
     (if kind (tval t) \<noteq> HLAinteger64Time then Inl ErrRepresentationMismatch
      else bindR (scalar_integer (tval t)) (\<lambda>w. Inr (sint w)))"

text \<open>The typed bound of \<open>typed_grant.go\<close>: a limit that keeps its representation.\<close>

record TypedTimeBound =
  TLimit :: time
  TUnbounded :: bool

definition unboundedTime :: "representation \<Rightarrow> lt_error + TypedTimeBound" where
  "unboundedTime k = bindR (Initial k) (\<lambda>i. Inr \<lparr>TLimit = i, TUnbounded = True\<rparr>)"

definition AddTypedTimeBound :: "time \<Rightarrow> interval \<Rightarrow> lt_error + TypedTimeBound" where
  "AddTypedTimeBound tm i =
     (case Time_Add tm i of
        Inl ErrIllegalArithmetic \<Rightarrow> unboundedTime (kind (tval tm))
      | Inl e \<Rightarrow> Inl e
      | Inr value \<Rightarrow> Inr \<lparr>TLimit = value, TUnbounded = False\<rparr>)"

definition addHorizon :: "int \<Rightarrow> int \<Rightarrow> TimeBound" where
  "addHorizon tm interval =
     (case (ScalarTimeValue tm, ScalarIntervalValue interval) of
        (Inr value, Inr delta) \<Rightarrow>
          (case AddTypedTimeBound value delta of
             Inl e \<Rightarrow> unboundedHorizon
           | Inr bound \<Rightarrow>
               if TUnbounded bound then unboundedHorizon
               else case ScalarFromTimeValue (TLimit bound) of
                      Inr r \<Rightarrow> \<lparr>Limit = r, Unbounded = False\<rparr>
                    | Inl _ \<Rightarrow> \<lparr>Limit = 0, Unbounded = False\<rparr>)
      | _ \<Rightarrow> unboundedHorizon)"

section \<open>Regulation state\<close>

definition validLookahead :: "int \<Rightarrow> bool" where
  "validLookahead t \<longleftrightarrow> t \<ge> 0"

definition checkAdvanceTarget :: "int \<Rightarrow> int \<Rightarrow> time_error option" where
  "checkAdvanceTarget current requested =
     (if requested < 0 then Some ErrTimeInvalidLogicalTime
      else if requested < current then Some ErrTimeRequestInPast
      else None)"

definition projectedLookahead :: "federateState \<Rightarrow> int \<Rightarrow> int" where
  "projectedLookahead st tm =
     (let delta = tm - lookaheadOriginTime st in
      if reducingLookahead st \<and> delta > 0 then max (lookaheadTarget st) (lookaheadOriginValue st - delta)
      else lookahead st)"

definition advanceLookahead :: "federateState \<Rightarrow> int \<Rightarrow> federateState" where
  "advanceLookahead st tm =
     (if \<not> regulating st \<or> \<not> reducingLookahead st then st
      else let st = st\<lparr>lookahead := projectedLookahead st tm\<rparr> in
        if lookahead st = lookaheadTarget st
        then st\<lparr>lookaheadTarget := 0, reducingLookahead := False, lookaheadOriginTime := 0, lookaheadOriginValue := 0\<rparr>
        else st)"

definition recordReceivedGrant :: "AdvanceMode \<Rightarrow> int \<Rightarrow> federateState \<Rightarrow> federateState" where
  "recordReceivedGrant m tm fs =
     (if \<not> constrained fs then fs
      else if m = ModeTAR \<or> m = ModeNER then fs\<lparr>preservedReceiveTime := Some tm\<rparr>
      else case preservedReceiveTime fs of
             Some p \<Rightarrow> if tm > p then fs\<lparr>preservedReceiveTime := None\<rparr> else fs
           | None \<Rightarrow> fs)"

section \<open>The outgoing timestamp bound\<close>

definition strictAdvance :: "AdvanceMode \<Rightarrow> bool" where
  "strictAdvance m \<longleftrightarrow> m = ModeTAR \<or> m = ModeNER"

definition usesNextMessageTarget :: "AdvanceMode \<Rightarrow> bool" where
  "usesNextMessageTarget m \<longleftrightarrow> m = ModeNER \<or> m = ModeNMRA"

definition inclusiveLBTS :: "AdvanceMode \<Rightarrow> bool" where
  "inclusiveLBTS m \<longleftrightarrow> m = ModeNMRA \<or> m = ModeTARA \<or> m = ModeFQR"

definition recordGrantBound :: "nerState \<Rightarrow> int \<Rightarrow> nerState" where
  "recordGrantBound ns t =
     (let ns = (if t > currentTime ns then ns\<lparr>strictZeroLookahead := False\<rparr> else ns)
      in if strictAdvance (mode ns) then ns\<lparr>strictZeroLookahead := True\<rparr> else ns)"

definition outgoingTSOBound :: "federateState \<Rightarrow> nerState option \<Rightarrow> int \<times> int \<times> bool" where
  "outgoingTSOBound fs ns0 =
     (case ns0 of
        None \<Rightarrow> (0, lookahead fs, False)
      | Some ns \<Rightarrow>
          let base = (if pendingNER ns then requestedTime ns else currentTime ns);
              la = (if pendingNER ns then projectedLookahead fs base else lookahead fs);
              exclusive = (if pendingNER ns
                then strictAdvance (mode ns) \<or> (strictZeroLookahead ns \<and> base = currentTime ns)
                else strictZeroLookahead ns)
          in (base, la, exclusive \<and> la = 0))"

record RegulatingFederate =
  rHandle :: handle
  rTime :: int
  rLookahead :: int
  rUnbounded :: bool

definition regulatingBoundSnapshot :: "handle \<Rightarrow> federateState \<Rightarrow> nerState option \<Rightarrow> RegulatingFederate" where
  "regulatingBoundSnapshot h fs ns =
     (let (base, la, exclusive) = outgoingTSOBound fs ns in
      if exclusive
      then let (base', possible) = successor base
           in \<lparr>rHandle = h, rTime = base', rLookahead = la, rUnbounded = \<not> possible\<rparr>
      else \<lparr>rHandle = h, rTime = base, rLookahead = la, rUnbounded = False\<rparr>)"

definition timestampAtOrBeyond :: "int \<Rightarrow> int \<Rightarrow> bool \<Rightarrow> bool" where
  "timestampAtOrBeyond ts lower exclusive \<longleftrightarrow> ts > lower \<or> (\<not> exclusive \<and> ts = lower)"

section \<open>LBTS\<close>

definition lbts_step :: "TimeBound \<Rightarrow> RegulatingFederate \<Rightarrow> TimeBound" where
  "lbts_step bound rf =
     (if rUnbounded rf then bound else minimumHorizon bound (addHorizon (rTime rf) (rLookahead rf)))"

definition LBTSBound :: "RegulatingFederate list \<Rightarrow> TimeBound" where
  "LBTSBound rs = foldl lbts_step unboundedHorizon rs"

definition LBTS :: "RegulatingFederate list \<Rightarrow> int" where
  "LBTS rs = horizonScalar (LBTSBound rs)"

section \<open>GALT\<close>

definition availableSendHorizon :: "federateState \<Rightarrow> nerState option \<Rightarrow> TimeBound" where
  "availableSendHorizon fs ns =
     (let bound = regulatingBoundSnapshot 0 fs ns in
      if rUnbounded bound then unboundedHorizon else addHorizon (rTime bound) (rLookahead bound))"

definition availableHorizonAfterGrant :: "federateState \<Rightarrow> nerState \<Rightarrow> int \<Rightarrow> TimeBound" where
  "availableHorizonAfterGrant fs ns tm =
     (let tm = max (currentTime ns) (min tm (requestedTime ns));
          granted = (recordGrantBound ns tm)\<lparr>currentTime := tm, pendingNER := False\<rparr>;
          regulation = fs\<lparr>lookahead := projectedLookahead fs tm\<rparr>
      in availableSendHorizon regulation (Some granted))"

definition internalTSO :: "event \<Rightarrow> bool" where
  "internalTSO e = (case e of Message m \<Rightarrow> InternalTSO m | _ \<Rightarrow> False)"

record availableRegulator =
  arHandle :: handle
  arFs :: federateState
  arNs :: "nerState option"
  arBound :: TimeBound

definition lower_by_queue :: "federateState \<Rightarrow> nerState \<Rightarrow> TimeBound \<Rightarrow> bufferedTSOEvent \<Rightarrow> TimeBound" where
  "lower_by_queue fs ns bound item =
     (if \<not> internalTSO (bevent item) \<and> timestamp item < requestedTime ns
      then minimumHorizon bound (availableHorizonAfterGrant fs ns (timestamp item)) else bound)"

definition availableRegulatorSnapshot :: "handle \<Rightarrow> federateState \<Rightarrow> nerState option \<Rightarrow> availableRegulator" where
  "availableRegulatorSnapshot h fs ns0 =
     (let bound = availableSendHorizon fs ns0;
          bound = (case ns0 of
             Some ns \<Rightarrow>
               if constrained fs \<and> pendingNER ns \<and> (usesNextMessageTarget (mode ns) \<or> mode ns = ModeFQR)
               then let bound = (case flushMinimum ns of
                          Some fm \<Rightarrow> minimumHorizon bound (availableHorizonAfterGrant fs ns fm)
                        | None \<Rightarrow> bound)
                    in foldl (lower_by_queue fs ns) bound (tsoBuffer ns)
               else bound
           | None \<Rightarrow> bound)
      in \<lparr>arHandle = h, arFs = fs, arNs = ns0, arBound = bound\<rparr>)"

text \<open>
  \<open>incoming peers i\<close> is the inner loop over the other peers; \<open>relax_peer\<close> the body of the loop
  over the peers, which updates the slice in place; \<open>relax_pass\<close> one pass with its \<open>changed\<close>
  flag; \<open>relax_passes\<close> the outer loop with its \<open>break\<close>.
\<close>

definition incoming :: "availableRegulator list \<Rightarrow> nat \<Rightarrow> TimeBound" where
  "incoming peers i =
     foldl (\<lambda>b j. if i \<noteq> j then minimumHorizon b (arBound (peers ! j)) else b) unboundedHorizon [0..<length peers]"

definition relax_peer :: "nat \<Rightarrow> availableRegulator list \<times> bool \<Rightarrow> availableRegulator list \<times> bool" where
  "relax_peer i pc =
     (let (peers, changed) = pc; peer = peers ! i in
      case arNs peer of
        None \<Rightarrow> (peers, changed)
      | Some ns \<Rightarrow>
          if \<not> constrained (arFs peer) \<or> \<not> pendingNER ns \<or> mode ns \<noteq> ModeFQR then (peers, changed)
          else let inc = incoming peers i in
            if \<not> Unbounded inc \<and> Limit inc < requestedTime ns then
              let bound = availableHorizonAfterGrant (arFs peer) ns (Limit inc) in
              if \<not> Unbounded bound \<and> (Unbounded (arBound peer) \<or> Limit bound < Limit (arBound peer))
              then (peers[i := peer\<lparr>arBound := bound\<rparr>], True)
              else (peers, changed)
            else (peers, changed))"

definition relax_pass :: "availableRegulator list \<Rightarrow> availableRegulator list \<times> bool" where
  "relax_pass peers = fold relax_peer [0..<length peers] (peers, False)"

fun relax_passes :: "nat \<Rightarrow> availableRegulator list \<Rightarrow> availableRegulator list" where
  "relax_passes 0 peers = peers"
| "relax_passes (Suc n) peers =
     (let (peers', changed) = relax_pass peers in if changed then relax_passes n peers' else peers')"

definition propagateFlushHorizons :: "availableRegulator list \<Rightarrow> availableRegulator list" where
  "propagateFlushHorizons peers = relax_passes (length peers) peers"

definition least_peer :: "handle \<Rightarrow> TimeBound option \<Rightarrow> availableRegulator \<Rightarrow> TimeBound option" where
  "least_peer self result peer =
     (if arHandle peer \<noteq> self \<and>
         (case result of None \<Rightarrow> True
          | Some r \<Rightarrow> \<not> Unbounded (arBound peer) \<and> (Unbounded r \<or> Limit (arBound peer) < Limit r))
      then Some (arBound peer) else result)"

text \<open>
  \<open>availableHorizonLocked\<close>: the caller collects the regulating federates of the federation
  with their records; the result is \<open>None\<close> when no other regulator exists.
\<close>

definition availableHorizon :: "(handle \<times> federateState \<times> nerState option) list \<Rightarrow> handle \<Rightarrow> TimeBound option" where
  "availableHorizon regs self =
     foldl (least_peer self) None
       (propagateFlushHorizons (map (\<lambda>(h, fs, ns). availableRegulatorSnapshot h fs ns) regs))"

section \<open>The grant decision\<close>

record GrantDecision =
  Fire :: bool
  GrantTime :: int
  ClearPending :: bool

definition no_grant :: GrantDecision where
  "no_grant = \<lparr>Fire = False, GrantTime = 0, ClearPending = False\<rparr>"

definition decideScalarGrant :: "AdvanceMode \<Rightarrow> int \<Rightarrow> int \<Rightarrow> int \<Rightarrow> bool \<Rightarrow> int \<Rightarrow> bool \<Rightarrow> GrantDecision" where
  "decideScalarGrant m current requested bound unbounded next hasTSO =
     (if m = ModeFQR then
        let target = requested;
            target = (if \<not> unbounded then min target bound else target);
            target = (if hasTSO then min target next else target)
        in \<lparr>Fire = True, GrantTime = max current target, ClearPending = True\<rparr>
      else
        let target = (if usesNextMessageTarget m \<and> hasTSO \<and> next \<ge> current \<and> next < requested then next else requested);
            fire = (if inclusiveLBTS m then unbounded \<or> bound \<ge> target else unbounded \<or> bound > target)
        in if fire then \<lparr>Fire = True, GrantTime = target, ClearPending = True\<rparr> else no_grant)"

definition nextGrantMessage :: "nerState \<Rightarrow> int option" where
  "nextGrantMessage ns =
     foldl (\<lambda>next item.
         if \<not> internalTSO (bevent item) \<and> (case next of None \<Rightarrow> True | Some n \<Rightarrow> timestamp item < n)
         then Some (timestamp item) else next)
       (if mode ns = ModeFQR \<or> usesNextMessageTarget (mode ns) then flushMinimum ns else None)
       (tsoBuffer ns)"

definition minimumEnableTime :: "int \<Rightarrow> int \<Rightarrow> int \<Rightarrow> bool \<Rightarrow> int option" where
  "minimumEnableTime current la peerTime exclusive =
     (let current = max 0 current; lower = peerTime - la in
      if exclusive then
        (case successor lower of (lower', possible) \<Rightarrow> if possible then Some (max current lower') else None)
      else Some (max current lower))"

definition validateEnableRequest :: "federateState option \<Rightarrow> nerState option \<Rightarrow> bool \<Rightarrow> time_error option" where
  "validateEnableRequest fs ns regulation =
     (if (case ns of Some n \<Rightarrow> pendingNER n | None \<Rightarrow> False) then Some ErrTimeAdvancingState
      else case fs of
        None \<Rightarrow> None
      | Some f \<Rightarrow>
          if regulation \<and> regulationPending f then Some ErrTimeRegulationPending
          else if \<not> regulation \<and> constrainedPending f then Some ErrTimeConstrainedPending
          else if regulation \<and> regulating f then Some ErrTimeAlreadyRegulating
          else if \<not> regulation \<and> constrained f then Some ErrTimeAlreadyConstrained
          else None)"

definition bufferedTSOEligible :: "bufferedTSOEvent \<Rightarrow> int option \<Rightarrow> bool \<Rightarrow> int option \<Rightarrow> int \<Rightarrow> bool" where
  "bufferedTSOEligible b t advancing internalDeadline current \<longleftrightarrow>
     (case t of None \<Rightarrow> True | Some u \<Rightarrow> timestamp b \<le> u) \<and>
     (internalTSO (bevent b) \<longrightarrow> (case internalDeadline of None \<Rightarrow> True | Some d \<Rightarrow> timestamp b \<le> d)) \<and>
     (\<not> advancing \<and> internalTSO (bevent b) \<longrightarrow> timestamp b \<le> current)"

end
