(* ===== verification/Time_Laws.thy ===== *)
theory Time_Laws
  imports Time_Core "HOL-Library.Multiset"
begin

text \<open>
  Laws of the decision layer: time bounds as numbers, the invariant of the per-federate
  records, LBTS as a minimum, the outgoing bound and its admission test, the lookahead
  schedule and the grant decision.
\<close>

named_theorems bound_simps \<open>numeric values of time bounds\<close>

section \<open>Bounds as numbers\<close>

text \<open>
  A bound is read as the number \<open>bval\<close>: its limit, or \<open>MaxTime + 1\<close> when there is none.
\<close>

definition in_range :: "int \<Rightarrow> bool" where
  "in_range x \<longleftrightarrow> 0 \<le> x \<and> x \<le> MaxTime"

definition bound_wf :: "TimeBound \<Rightarrow> bool" where
  "bound_wf b \<longleftrightarrow> (if Unbounded b then Limit b = 0 else in_range (Limit b))"

definition bval :: "TimeBound \<Rightarrow> int" where
  "bval b = (if Unbounded b then MaxTime + 1 else Limit b)"

lemma in_rangeD: "in_range x \<Longrightarrow> 0 \<le> x" "in_range x \<Longrightarrow> x \<le> MaxTime"
  by (simp_all add: in_range_def)

lemma MaxTime_pos: "0 \<le> MaxTime"
  by (simp add: MaxTime_def)

lemma bound_wf_unbounded [simp]: "bound_wf unboundedHorizon"
  by (simp add: bound_wf_def unboundedHorizon_def)

lemma bval_unbounded [simp]: "bval unboundedHorizon = MaxTime + 1"
  by (simp add: bval_def unboundedHorizon_def)

lemma bval_le: "bound_wf b \<Longrightarrow> bval b \<le> MaxTime + 1"
  by (auto simp: bval_def bound_wf_def in_range_def)

lemma bval_nonneg: "bound_wf b \<Longrightarrow> 0 \<le> bval b"
  using MaxTime_pos by (auto simp: bval_def bound_wf_def in_range_def)

lemma bval_unbounded_iff: "bound_wf b \<Longrightarrow> Unbounded b \<longleftrightarrow> bval b = MaxTime + 1"
  by (auto simp: bval_def bound_wf_def in_range_def)

lemma bval_inject: "bound_wf a \<Longrightarrow> bound_wf b \<Longrightarrow> bval a = bval b \<longleftrightarrow> a = b"
  by (cases a; cases b) (auto simp: bval_def bound_wf_def in_range_def split: if_splits)

lemma minimumHorizon_wf [simp]: "bound_wf a \<Longrightarrow> bound_wf b \<Longrightarrow> bound_wf (minimumHorizon a b)"
  by (simp add: minimumHorizon_def)

lemma bval_minimumHorizon [simp, bound_simps]:
  "bound_wf a \<Longrightarrow> bound_wf b \<Longrightarrow> bval (minimumHorizon a b) = min (bval a) (bval b)"
  by (auto simp: minimumHorizon_def bval_def bound_wf_def in_range_def min_def)

lemma horizonBeyond_bval:
  "bound_wf b \<Longrightarrow> in_range v \<Longrightarrow> horizonBeyond b v strict \<longleftrightarrow> (if strict then v < bval b else v \<le> bval b)"
  by (auto simp: horizonBeyond_def horizonScalar_def bval_def in_range_def Let_def)

subsection \<open>Addition\<close>

lemma sint_word_of_time: "in_range x \<Longrightarrow> sint (word_of_int x :: 64 word) = x"
  by (rule sint_of_int_fits) (auto simp: in_range_def MaxTime_def)

lemma uint_word_of_time: "in_range x \<Longrightarrow> uint (word_of_int x :: 64 word) = x"
  by (simp add: uint_word_of_int in_range_def MaxTime_def)

lemma unat_word_of_time: "in_range x \<Longrightarrow> unat (word_of_int x :: 64 word) = nat x"
  by (simp add: unat_eq_nat_uint uint_word_of_time)

lemma Time_Add_ints:
  assumes "in_range a" and "in_range b"
  shows "Time_Add (Time \<lparr>kind = HLAinteger64Time, bits = word_of_int a\<rparr>)
           (Interval \<lparr>kind = HLAinteger64Time, bits = word_of_int b\<rparr>) =
         (if a + b \<le> MaxTime then Inr (Time \<lparr>kind = HLAinteger64Time, bits = word_of_int (a + b)\<rparr>)
          else Inl ErrIllegalArithmetic)"
proof -
  have "(0x7FFFFFFFFFFFFFFF :: 64 word) - word_of_int a = word_of_int (MaxTime - a)"
    by (simp add: MaxTime_def)
  moreover have "in_range (MaxTime - a)" using assms(1) by (auto simp: in_range_def)
  ultimately have "unat (0x7FFFFFFFFFFFFFFF - (word_of_int a :: 64 word)) = nat (MaxTime - a)"
    by (simp only: unat_word_of_time)
  then show ?thesis
    using assms unat_word_of_time [OF assms(2)]
    by (auto simp: Time_Add_def arithmetic_def compatible_def scalar_valid_def in_range_def)
qed

lemma ScalarTimeValue_range:
  "in_range a \<Longrightarrow> ScalarTimeValue a = Inr (Time \<lparr>kind = HLAinteger64Time, bits = word_of_int a\<rparr>)"
  "in_range a \<Longrightarrow> ScalarIntervalValue a = Inr (Interval \<lparr>kind = HLAinteger64Time, bits = word_of_int a\<rparr>)"
  using sint_word_of_time [of a]
  by (auto simp: ScalarTimeValue_def ScalarIntervalValue_def Integer64_def Integer64Interval_def integerValue_def
      in_range_def)

lemma ScalarFromTimeValue_range:
  "in_range a \<Longrightarrow> ScalarFromTimeValue (Time \<lparr>kind = HLAinteger64Time, bits = word_of_int a\<rparr>) = Inr a"
  using unat_word_of_time [of a] sint_word_of_time [of a]
  by (auto simp: ScalarFromTimeValue_def scalar_integer_def in_range_def MaxTime_def)

text \<open>\<open>addHorizon\<close> is exact addition, unbounded past the final time.\<close>

lemma addHorizon_eq:
  assumes "in_range a" and "in_range b"
  shows "addHorizon a b = (if a + b \<le> MaxTime then \<lparr>Limit = a + b, Unbounded = False\<rparr> else unboundedHorizon)"
proof -
  have "a + b \<le> MaxTime \<Longrightarrow> in_range (a + b)" using assms by (simp add: in_range_def)
  then show ?thesis
    using assms
    by (auto simp: addHorizon_def ScalarTimeValue_range AddTypedTimeBound_def Time_Add_ints
        ScalarFromTimeValue_range unboundedTime_def Integer64_def integerValue_def simp del: of_int_add)
qed

text \<open>Evaluation adds integers where they are in range.\<close>

lemma addHorizon_code [code]:
  "addHorizon a b =
     (if in_range a \<and> in_range b
      then (if a + b \<le> MaxTime then \<lparr>Limit = a + b, Unbounded = False\<rparr> else unboundedHorizon)
      else case (ScalarTimeValue a, ScalarIntervalValue b) of
        (Inr value, Inr delta) \<Rightarrow>
          (case AddTypedTimeBound value delta of
             Inl e \<Rightarrow> unboundedHorizon
           | Inr bound \<Rightarrow>
               if TUnbounded bound then unboundedHorizon
               else case ScalarFromTimeValue (TLimit bound) of
                      Inr r \<Rightarrow> \<lparr>Limit = r, Unbounded = False\<rparr>
                    | Inl _ \<Rightarrow> \<lparr>Limit = 0, Unbounded = False\<rparr>)
      | _ \<Rightarrow> unboundedHorizon)"
  by (simp add: addHorizon_eq) (simp add: addHorizon_def)

lemma addHorizon_wf [simp]: "in_range a \<Longrightarrow> in_range b \<Longrightarrow> bound_wf (addHorizon a b)"
  by (auto simp: addHorizon_eq bound_wf_def in_range_def unboundedHorizon_def)

lemma bval_addHorizon [simp, bound_simps]:
  "in_range a \<Longrightarrow> in_range b \<Longrightarrow> bval (addHorizon a b) = min (a + b) (MaxTime + 1)"
  by (auto simp: addHorizon_eq bval_def unboundedHorizon_def)

section \<open>The invariant of the per-federate records\<close>

text \<open>
  \<open>fs_wf fs now\<close>: the lookaheads are times, and a pending reduction of the lookahead has
  followed logical time from its origin up to \<open>now\<close> without having reached its target.
\<close>

definition fs_wf :: "federateState \<Rightarrow> int \<Rightarrow> bool" where
  "fs_wf fs now \<longleftrightarrow> in_range (lookahead fs) \<and> in_range (regulationLookahead fs) \<and>
     (reducingLookahead fs \<longrightarrow>
        0 \<le> lookaheadTarget fs \<and> lookaheadTarget fs < lookahead fs \<and> 0 \<le> lookaheadOriginTime fs \<and>
        lookaheadOriginTime fs \<le> now \<and>
        lookahead fs = lookaheadOriginValue fs - (now - lookaheadOriginTime fs))"

definition ns_wf :: "nerState \<Rightarrow> bool" where
  "ns_wf ns \<longleftrightarrow> in_range (currentTime ns) \<and>
     (pendingNER ns \<longrightarrow> in_range (requestedTime ns) \<and> currentTime ns \<le> requestedTime ns)"

definition now_of :: "nerState option \<Rightarrow> int" where
  "now_of ns = (case ns of None \<Rightarrow> 0 | Some n \<Rightarrow> currentTime n)"

definition pair_wf :: "federateState \<Rightarrow> nerState option \<Rightarrow> bool" where
  "pair_wf fs ns \<longleftrightarrow> fs_wf fs (now_of ns) \<and> (case ns of None \<Rightarrow> True | Some n \<Rightarrow> ns_wf n)"

lemma now_of_simps [simp]: "now_of None = 0" "now_of (Some n) = currentTime n"
  by (simp_all add: now_of_def)

lemma pair_wf_simps [simp]:
  "pair_wf fs None \<longleftrightarrow> fs_wf fs 0" "pair_wf fs (Some n) \<longleftrightarrow> fs_wf fs (currentTime n) \<and> ns_wf n"
  by (simp_all add: pair_wf_def)

section \<open>The lookahead schedule\<close>

lemma projectedLookahead_eq:
  assumes "fs_wf fs now" and "now \<le> t"
  shows "projectedLookahead fs t =
    (if reducingLookahead fs then max (lookaheadTarget fs) (lookahead fs - (t - now)) else lookahead fs)"
  using assms by (auto simp: projectedLookahead_def fs_wf_def Let_def)

lemma projectedLookahead_range:
  "fs_wf fs now \<Longrightarrow> now \<le> t \<Longrightarrow> in_range (projectedLookahead fs t)"
  using projectedLookahead_eq [of fs now t] by (auto simp: fs_wf_def in_range_def)

lemma projected_bound_mono:
  "fs_wf fs now \<Longrightarrow> now \<le> t \<Longrightarrow> t \<le> u \<Longrightarrow> t + projectedLookahead fs t \<le> u + projectedLookahead fs u"
  by (auto simp: projectedLookahead_eq)

lemma projectedLookahead_now: "fs_wf fs now \<Longrightarrow> projectedLookahead fs now = lookahead fs"
  using projectedLookahead_eq [of fs now now] by (auto simp: fs_wf_def)

lemma fs_wf_advanceLookahead:
  "fs_wf fs now \<Longrightarrow> now \<le> t \<Longrightarrow> regulating fs \<or> \<not> reducingLookahead fs \<Longrightarrow> fs_wf (advanceLookahead fs t) t"
  using projectedLookahead_eq [of fs now t] projectedLookahead_range [of fs now t]
  by (auto simp: advanceLookahead_def fs_wf_def Let_def in_range_def)

section \<open>The outgoing timestamp bound\<close>

text \<open>The numeric value of the outgoing bound: the least timestamp the sender may still use.\<close>

definition send_floor :: "federateState \<Rightarrow> nerState option \<Rightarrow> int" where
  "send_floor fs ns = (case outgoingTSOBound fs ns of (base, la, excl) \<Rightarrow> base + la + (if excl then 1 else 0))"

lemma outgoing_range:
  assumes "pair_wf fs ns" and "outgoingTSOBound fs ns = (base, la, excl)"
  shows "in_range base" "in_range la" "excl \<Longrightarrow> la = 0" "now_of ns \<le> base"
    "la = projectedLookahead fs base"
proof -
  have la: "fs_wf fs (now_of ns)" using assms(1) by (simp add: pair_wf_def)
  have "in_range base \<and> now_of ns \<le> base \<and> (excl \<longrightarrow> la = 0) \<and> la = projectedLookahead fs base"
    using assms projectedLookahead_now [OF la]
    by (cases ns) (auto simp: outgoingTSOBound_def ns_wf_def Let_def in_range_def MaxTime_pos split: if_splits)
  then show "in_range base" "excl \<Longrightarrow> la = 0" "now_of ns \<le> base" "la = projectedLookahead fs base" by auto
  then show "in_range la" using projectedLookahead_range [OF la] by simp
qed

lemma availableSendHorizon_ranges:
  assumes o: "outgoingTSOBound fs ns = (base, la, excl)" and r: "in_range base" "in_range la" "excl \<Longrightarrow> la = 0"
  shows "bound_wf (availableSendHorizon fs ns)"
    and "bval (availableSendHorizon fs ns) = min (send_floor fs ns) (MaxTime + 1)"
proof -
  have s: "base \<noteq> MaxTime \<Longrightarrow> in_range (base + 1)" using r by (auto simp: in_range_def)
  show "bound_wf (availableSendHorizon fs ns)"
    using r s by (auto simp: availableSendHorizon_def regulatingBoundSnapshot_def o successor_def Let_def)
  show "bval (availableSendHorizon fs ns) = min (send_floor fs ns) (MaxTime + 1)"
    using r s by (auto simp: availableSendHorizon_def regulatingBoundSnapshot_def o successor_def send_floor_def Let_def)
qed

lemma availableSendHorizon_wf: "pair_wf fs ns \<Longrightarrow> bound_wf (availableSendHorizon fs ns)"
  and bval_availableSendHorizon:
    "pair_wf fs ns \<Longrightarrow> bval (availableSendHorizon fs ns) = min (send_floor fs ns) (MaxTime + 1)"
proof -
  assume wf: "pair_wf fs ns"
  obtain base la excl where o: "outgoingTSOBound fs ns = (base, la, excl)" by (cases "outgoingTSOBound fs ns")
  note r = outgoing_range [OF wf o]
  show "bound_wf (availableSendHorizon fs ns)"
    "bval (availableSendHorizon fs ns) = min (send_floor fs ns) (MaxTime + 1)"
    using availableSendHorizon_ranges [OF o] r by auto
qed

text \<open>The floor a sender would have right after a grant at \<open>t\<close>.\<close>

definition grant_floor :: "federateState \<Rightarrow> nerState \<Rightarrow> int \<Rightarrow> int" where
  "grant_floor fs ns t =
     (let u = max (currentTime ns) (min t (requestedTime ns)); la = projectedLookahead fs u
      in u + la + (if strictZeroLookahead (recordGrantBound ns u) \<and> la = 0 then 1 else 0))"

lemma availableHorizonAfterGrant_bval:
  assumes "fs_wf fs (currentTime ns)" and "ns_wf ns" and "pendingNER ns"
  shows "bound_wf (availableHorizonAfterGrant fs ns t)"
    and "bval (availableHorizonAfterGrant fs ns t) = min (grant_floor fs ns t) (MaxTime + 1)"
proof -
  define u where "u = max (currentTime ns) (min t (requestedTime ns))"
  define g where "g = (recordGrantBound ns u)\<lparr>currentTime := u, pendingNER := False\<rparr>"
  define f where "f = fs\<lparr>lookahead := projectedLookahead fs u\<rparr>"
  have u: "in_range u" "currentTime ns \<le> u" using assms(2,3) by (auto simp: u_def ns_wf_def in_range_def)
  have la: "in_range (projectedLookahead fs u)" using projectedLookahead_range [OF assms(1) u(2)] .
  have o: "outgoingTSOBound f (Some g) =
      (u, projectedLookahead fs u, strictZeroLookahead (recordGrantBound ns u) \<and> projectedLookahead fs u = 0)"
    by (simp add: outgoingTSOBound_def f_def g_def Let_def)
  have e: "availableHorizonAfterGrant fs ns t = availableSendHorizon f (Some g)"
    by (simp add: availableHorizonAfterGrant_def u_def g_def f_def Let_def)
  have gf: "send_floor f (Some g) = grant_floor fs ns t"
    by (simp add: send_floor_def o grant_floor_def u_def Let_def)
  show "bound_wf (availableHorizonAfterGrant fs ns t)"
    "bval (availableHorizonAfterGrant fs ns t) = min (grant_floor fs ns t) (MaxTime + 1)"
    using availableSendHorizon_ranges [OF o u(1) la] unfolding e gf by auto
qed

lemma grant_floor_ge: "fs_wf fs (currentTime ns) \<Longrightarrow> t \<le> requestedTime ns \<Longrightarrow> t \<le> grant_floor fs ns t"
  using projectedLookahead_range [of fs "currentTime ns" "max (currentTime ns) (min t (requestedTime ns))"]
  by (auto simp: grant_floor_def Let_def in_range_def)

lemma grant_floor_mono:
  assumes "fs_wf fs (currentTime ns)" and "t \<le> u"
  shows "grant_floor fs ns t \<le> grant_floor fs ns u"
proof -
  define t' where "t' = max (currentTime ns) (min t (requestedTime ns))"
  define u' where "u' = max (currentTime ns) (min u (requestedTime ns))"
  have le: "currentTime ns \<le> t'" "t' \<le> u'" using assms(2) by (auto simp: t'_def u'_def)
  note b = projected_bound_mono [OF assms(1) le]
  have r: "0 \<le> projectedLookahead fs u'"
    using projectedLookahead_range [OF assms(1), of u'] le by (auto simp: in_range_def)
  show ?thesis
  proof (cases "t' = u'")
    case False
    then have "t' + 1 \<le> u'" using le by simp
    with b r show ?thesis unfolding grant_floor_def t'_def [symmetric] u'_def [symmetric]
      by (auto simp: Let_def)
  qed (simp add: grant_floor_def t'_def [symmetric] u'_def [symmetric])
qed

text \<open>The admission test of \<open>ValidateOutgoingTSO\<close> on the bound of a regulating sender.\<close>

definition tso_admissible :: "federateState \<Rightarrow> nerState option \<Rightarrow> int \<Rightarrow> bool" where
  "tso_admissible fs ns ts =
     (let (base, la, exclusive) = outgoingTSOBound fs ns; floor = addHorizon base la
      in \<not> Unbounded floor \<and> timestampAtOrBeyond ts (Limit floor) exclusive)"

lemma tso_admissible_iff:
  assumes "pair_wf fs ns" and "in_range ts"
  shows "tso_admissible fs ns ts \<longleftrightarrow> send_floor fs ns \<le> ts"
proof -
  obtain base la excl where o: "outgoingTSOBound fs ns = (base, la, excl)" by (cases "outgoingTSOBound fs ns")
  note r = outgoing_range [OF assms(1) o]
  show ?thesis
    using r assms(2)
    by (auto simp: tso_admissible_def o send_floor_def addHorizon_eq timestampAtOrBeyond_def unboundedHorizon_def
        in_range_def)
qed

section \<open>LBTS is a minimum\<close>

definition rf_wf :: "RegulatingFederate \<Rightarrow> bool" where
  "rf_wf rf \<longleftrightarrow> in_range (rTime rf) \<and> in_range (rLookahead rf)"

definition contribution :: "RegulatingFederate \<Rightarrow> int" where
  "contribution rf = (if rUnbounded rf then MaxTime + 1 else min (rTime rf + rLookahead rf) (MaxTime + 1))"

lemma lbts_step_wf: "rf_wf rf \<Longrightarrow> bound_wf b \<Longrightarrow> bound_wf (lbts_step b rf)"
  by (simp add: lbts_step_def rf_wf_def)

lemma bval_lbts_step: "rf_wf rf \<Longrightarrow> bound_wf b \<Longrightarrow> bval (lbts_step b rf) = min (bval b) (contribution rf)"
  using bval_le [of b] by (auto simp: lbts_step_def rf_wf_def contribution_def)

lemma lbts_fold:
  "\<forall>rf \<in> set rs. rf_wf rf \<Longrightarrow> bound_wf b \<Longrightarrow>
   bound_wf (foldl lbts_step b rs) \<and>
   bval (foldl lbts_step b rs) = Min (insert (bval b) (contribution ` set rs))"
proof (induction rs arbitrary: b)
  case (Cons rf rs)
  then have "bound_wf (lbts_step b rf)" "bval (lbts_step b rf) = min (bval b) (contribution rf)"
    by (simp_all add: lbts_step_wf bval_lbts_step)
  with Cons show ?case
    by (cases "set rs = {}") (auto simp: min.assoc min.commute min.left_commute)
qed simp

lemma LBTSBound_wf: "\<forall>rf \<in> set rs. rf_wf rf \<Longrightarrow> bound_wf (LBTSBound rs)"
  using lbts_fold [of rs unboundedHorizon] by (simp add: LBTSBound_def)

lemma bval_LBTSBound:
  "\<forall>rf \<in> set rs. rf_wf rf \<Longrightarrow> bval (LBTSBound rs) = Min (insert (MaxTime + 1) (contribution ` set rs))"
  using lbts_fold [of rs unboundedHorizon] by (simp add: LBTSBound_def)

lemma regulatingBoundSnapshot_wf:
  assumes "pair_wf fs ns"
  shows "rf_wf (regulatingBoundSnapshot h fs ns)"
    and "contribution (regulatingBoundSnapshot h fs ns) = min (send_floor fs ns) (MaxTime + 1)"
proof -
  obtain base la excl where o: "outgoingTSOBound fs ns = (base, la, excl)" by (cases "outgoingTSOBound fs ns")
  note r = outgoing_range [OF assms o]
  show "rf_wf (regulatingBoundSnapshot h fs ns)"
    using r by (auto simp: regulatingBoundSnapshot_def o rf_wf_def successor_def in_range_def)
  show "contribution (regulatingBoundSnapshot h fs ns) = min (send_floor fs ns) (MaxTime + 1)"
    using r by (auto simp: regulatingBoundSnapshot_def o contribution_def successor_def in_range_def send_floor_def)
qed

section \<open>The grant decision\<close>

lemma decide_FQR:
  "decideScalarGrant ModeFQR current requested bound unbounded next hasTSO =
     \<lparr>Fire = True, GrantTime = max current (min (if unbounded then requested else min requested bound)
        (if hasTSO then next else requested)), ClearPending = True\<rparr>"
  by (simp add: decideScalarGrant_def Let_def min_def)

lemma decide_clears:
  "Fire (decideScalarGrant m c r b u n hs) \<Longrightarrow> ClearPending (decideScalarGrant m c r b u n hs)"
  unfolding decideScalarGrant_def Let_def by (auto simp: no_grant_def split: if_splits)

lemma decide_window:
  "c \<le> r \<Longrightarrow> Fire (decideScalarGrant m c r b u n hs) \<Longrightarrow>
   c \<le> GrantTime (decideScalarGrant m c r b u n hs) \<and> GrantTime (decideScalarGrant m c r b u n hs) \<le> r"
  unfolding decideScalarGrant_def Let_def by (auto simp: no_grant_def split: if_splits)

lemma decide_exact:
  "m = ModeTAR \<or> m = ModeTARA \<Longrightarrow> Fire (decideScalarGrant m c r b u n hs) \<Longrightarrow>
   GrantTime (decideScalarGrant m c r b u n hs) = r"
  unfolding decideScalarGrant_def Let_def by (auto simp: no_grant_def usesNextMessageTarget_def split: if_splits)

lemma decide_strict_bound:
  "strictAdvance m \<Longrightarrow> Fire (decideScalarGrant m c r b False n hs) \<Longrightarrow>
   GrantTime (decideScalarGrant m c r b False n hs) < b"
  unfolding decideScalarGrant_def Let_def
  by (auto simp: no_grant_def strictAdvance_def inclusiveLBTS_def split: if_splits)

lemma decide_bound:
  "c \<le> b \<Longrightarrow> Fire (decideScalarGrant m c r b False n hs) \<Longrightarrow>
   GrantTime (decideScalarGrant m c r b False n hs) \<le> b"
  unfolding decideScalarGrant_def Let_def
  by (auto simp: no_grant_def split: if_splits)

lemma decide_message:
  "m = ModeFQR \<or> usesNextMessageTarget m \<Longrightarrow> c \<le> n \<Longrightarrow>
   Fire (decideScalarGrant m c r b u n True) \<Longrightarrow>
   GrantTime (decideScalarGrant m c r b u n True) \<le> n"
  unfolding decideScalarGrant_def Let_def
  by (auto simp: no_grant_def split: if_splits)

lemma decide_fires:
  "(if inclusiveLBTS m then u \<or> r \<le> b else u \<or> r < b) \<Longrightarrow> Fire (decideScalarGrant m c r b u n hs)"
  unfolding decideScalarGrant_def Let_def by (auto simp: no_grant_def split: if_splits)

end
