(* ===== verification/Retraction.thy ===== *)
theory Retraction
  imports Time_Core
begin

text \<open>
  The ledger of originating message identifiers, \<open>retraction_ids.go\<close> and
  \<open>retraction_messages.go\<close> of \<open>rti/internal/hla/time\<close>: per federation and producer the accepted
  identifiers as canonical ranges, the identifiers reserved by operations in flight, and the
  messages that may still be retracted with the recipients that already hold a copy.
  Identifiers are uint64 values held as \<open>nat\<close>; the two places where the code guards against
  their overflow keep the guard.
\<close>

section \<open>Identifier ranges\<close>

record RetractionIDRange =
  First :: nat
  Last :: nat

text \<open>\<open>sort.Search\<close>: the binary search of the standard library.\<close>

function search_from :: "(nat \<Rightarrow> bool) \<Rightarrow> nat \<Rightarrow> nat \<Rightarrow> nat" where
  "search_from f i j =
     (if i < j then let h = (i + j) div 2 in if \<not> f h then search_from f (h + 1) j else search_from f i h
      else i)"
  by pat_completeness auto

termination by (relation "measure (\<lambda>(f, i, j). j - i)") auto

declare search_from.simps [simp del]

definition sort_Search :: "nat \<Rightarrow> (nat \<Rightarrow> bool) \<Rightarrow> nat" where
  "sort_Search n f = search_from f 0 n"

definition containsRetractionID :: "RetractionIDRange list \<Rightarrow> nat \<Rightarrow> bool" where
  "containsRetractionID ranges ident =
     (let i = sort_Search (length ranges) (\<lambda>i. Last (ranges ! i) \<ge> ident)
      in i < length ranges \<and> First (ranges ! i) \<le> ident)"

text \<open>The merging loop, with the current last range of the result held apart.\<close>

fun merge_ranges :: "RetractionIDRange list \<Rightarrow> RetractionIDRange \<Rightarrow> RetractionIDRange list \<Rightarrow> RetractionIDRange list" where
  "merge_ranges acc lst [] = acc @ [lst]"
| "merge_ranges acc lst (next # rest) =
     (if First next \<le> Last lst \<or> (Last lst \<noteq> MaxUint64 \<and> First next = Last lst + 1)
      then merge_ranges acc (if Last next > Last lst then lst\<lparr>Last := Last next\<rparr> else lst) rest
      else merge_ranges (acc @ [lst]) next rest)"

definition unionRetractionRanges :: "RetractionIDRange list \<Rightarrow> RetractionIDRange list \<Rightarrow> RetractionIDRange list" where
  "unionRetractionRanges a b =
     (case sort_key First (a @ b) of [] \<Rightarrow> [] | r # rest \<Rightarrow> merge_ranges [] r rest)"

section \<open>The ledger\<close>

record RetractionMessageState =
  rmID :: nat
  rmTimestamp :: int
  rmDelivered :: "handle list"
  rmRetracted :: bool

text \<open>
  A reservation is a pointer in the code, compared by identity; here it carries a token the
  ledger never hands out twice.  Likewise a federation entry carries the generation that its
  pointer identity stands for.
\<close>

record retractionProducer =
  accepted :: "RetractionIDRange list"
  pendingIDs :: "(nat \<times> nat \<times> RetractionMessageState option) list"
  messages :: "(nat \<times> RetractionMessageState) list"

definition new_producer :: retractionProducer where
  "new_producer = \<lparr>accepted = [], pendingIDs = [], messages = []\<rparr>"

record retractionFederation =
  generation :: nat
  producers :: "(handle \<times> retractionProducer) list"

record retractionIDStore =
  next_token :: nat
  federations :: "(fed_name \<times> retractionFederation) list"

record retractionIDReservation =
  rv_fed :: fed_name
  rv_generation :: nat
  rv_producer :: handle
  rv_id :: nat
  rv_token :: nat
  rv_done :: bool
  rv_err :: "time_error option"

definition federationLocked :: "fed_name \<Rightarrow> retractionIDStore \<Rightarrow> retractionFederation \<times> retractionIDStore" where
  "federationLocked fed s =
     (case map_of (federations s) fed of
        Some f \<Rightarrow> (f, s)
      | None \<Rightarrow> let f = \<lparr>generation = next_token s, producers = []\<rparr>
          in (f, s\<lparr>next_token := next_token s + 1, federations := put fed f (federations s)\<rparr>))"

definition producerLocked :: "handle \<Rightarrow> retractionFederation \<Rightarrow> retractionProducer" where
  "producerLocked h f = (case map_of (producers f) h of Some p \<Rightarrow> p | None \<Rightarrow> new_producer)"

definition set_producer :: "fed_name \<Rightarrow> handle \<Rightarrow> retractionProducer \<Rightarrow> retractionIDStore \<Rightarrow> retractionIDStore" where
  "set_producer fed h p s =
     (case map_of (federations s) fed of
        None \<Rightarrow> s
      | Some f \<Rightarrow> s\<lparr>federations := put fed (f\<lparr>producers := put h p (producers f)\<rparr>) (federations s)\<rparr>)"

definition ReserveRetractionID ::
  "fed_name \<Rightarrow> handle \<Rightarrow> nat \<Rightarrow> RetractionMessageState option \<Rightarrow> retractionIDStore \<Rightarrow>
   (time_error + retractionIDReservation) \<times> retractionIDStore" where
  "ReserveRetractionID fed producer ident msg s =
     (if producer = 0 \<or> ident = 0 then (Inl ErrOther, s)
      else let (f, s) = federationLocked fed s; p = producerLocked producer f in
        if containsRetractionID (accepted p) ident \<or> map_of (pendingIDs p) ident \<noteq> None
        then (Inl ErrRetractionIDAlreadyUsed, set_producer fed producer p s)
        else let r = \<lparr>rv_fed = fed, rv_generation = generation f, rv_producer = producer, rv_id = ident,
                    rv_token = next_token s, rv_done = False, rv_err = None\<rparr>;
                 p = p\<lparr>pendingIDs := put ident (next_token s, msg) (pendingIDs p)\<rparr>
             in (Inr r, set_producer fed producer p (s\<lparr>next_token := next_token s + 1\<rparr>)))"

definition ReserveRetractionMessage ::
  "fed_name \<Rightarrow> handle \<Rightarrow> nat \<Rightarrow> int \<Rightarrow> retractionIDStore \<Rightarrow>
   (time_error + retractionIDReservation) \<times> retractionIDStore" where
  "ReserveRetractionMessage fed snd_h ident ts s =
     (if ts < 0 then (Inl ErrTimeInvalidLogicalTime, s)
      else ReserveRetractionID fed snd_h ident
             (Some \<lparr>rmID = ident, rmTimestamp = ts, rmDelivered = [], rmRetracted = False\<rparr>) s)"

definition reservation_live :: "retractionIDReservation \<Rightarrow> retractionIDStore \<Rightarrow> retractionProducer option" where
  "reservation_live r s =
     (case map_of (federations s) (rv_fed r) of
        None \<Rightarrow> None
      | Some f \<Rightarrow>
          if generation f \<noteq> rv_generation r then None
          else case map_of (producers f) (rv_producer r) of
            None \<Rightarrow> None
          | Some p \<Rightarrow> (case map_of (pendingIDs p) (rv_id r) of
                Some (tok, _) \<Rightarrow> if tok = rv_token r then Some p else None
              | None \<Rightarrow> None))"

definition reservation_Commit ::
  "retractionIDReservation \<Rightarrow> retractionIDStore \<Rightarrow>
   time_error option \<times> retractionIDReservation \<times> retractionIDStore" where
  "reservation_Commit r s =
     (if rv_done r then (rv_err r, r, s)
      else case reservation_live r s of
        None \<Rightarrow> (Some ErrRetractionHistoryUnavailable,
                 r\<lparr>rv_done := True, rv_err := Some ErrRetractionHistoryUnavailable\<rparr>, s)
      | Some p \<Rightarrow>
          let msg = (case map_of (pendingIDs p) (rv_id r) of Some (_, m) \<Rightarrow> m | None \<Rightarrow> None);
              p = p\<lparr>pendingIDs := del (rv_id r) (pendingIDs p),
                    accepted := unionRetractionRanges (accepted p) [\<lparr>First = rv_id r, Last = rv_id r\<rparr>]\<rparr>;
              p = (case msg of Some m \<Rightarrow> p\<lparr>messages := put (rv_id r) m (messages p)\<rparr> | None \<Rightarrow> p)
          in (None, r\<lparr>rv_done := True\<rparr>, set_producer (rv_fed r) (rv_producer r) p s))"

definition reservation_Release ::
  "retractionIDReservation \<Rightarrow> retractionIDStore \<Rightarrow> retractionIDReservation \<times> retractionIDStore" where
  "reservation_Release r s =
     (if rv_done r then (r, s)
      else let r' = r\<lparr>rv_done := True, rv_err := Some ErrOther\<rparr> in
        case reservation_live r s of
          None \<Rightarrow> (r', s)
        | Some p \<Rightarrow> (r', set_producer (rv_fed r) (rv_producer r) (p\<lparr>pendingIDs := del (rv_id r) (pendingIDs p)\<rparr>) s))"

section \<open>Recipients\<close>

record MessageDelivery =
  dRecipient :: handle
  dTimestamp :: int
  dEvent :: event
  dSender :: handle
  dRetractionHandle :: nat
  dReceiveOrder :: bool

definition add_recipient :: "handle \<Rightarrow> RetractionMessageState \<Rightarrow> RetractionMessageState" where
  "add_recipient h msg =
     (if rmRetracted msg \<or> h \<in> set (rmDelivered msg) then msg
      else msg\<lparr>rmDelivered := sort (rmDelivered msg @ [h])\<rparr>)"

definition record_delivery :: "MessageDelivery \<Rightarrow> retractionProducer \<Rightarrow> retractionProducer" where
  "record_delivery d p =
     (case map_of (messages p) (dRetractionHandle d) of
        Some msg \<Rightarrow> p\<lparr>messages := put (dRetractionHandle d) (add_recipient (dRecipient d) msg) (messages p)\<rparr>
      | None \<Rightarrow>
          (case map_of (pendingIDs p) (dRetractionHandle d) of
             Some (tok, Some msg) \<Rightarrow>
               p\<lparr>pendingIDs := put (dRetractionHandle d) (tok, Some (add_recipient (dRecipient d) msg)) (pendingIDs p)\<rparr>
           | _ \<Rightarrow> p))"

fun record_deliveries ::
  "MessageDelivery list \<Rightarrow> (handle \<times> retractionProducer) list \<Rightarrow> (handle \<times> retractionProducer) list" where
  "record_deliveries [] ps = ps"
| "record_deliveries (d # ds) ps =
     (if dReceiveOrder d \<or> dRetractionHandle d = 0 \<or> dRecipient d = 0 \<or> internalTSO (dEvent d)
      then record_deliveries ds ps
      else case map_of ps (dSender d) of
        None \<Rightarrow> record_deliveries ds ps
      | Some p \<Rightarrow> record_deliveries ds (put (dSender d) (record_delivery d p) ps))"

definition RecordRetractionDeliveries ::
  "fed_name \<Rightarrow> MessageDelivery list \<Rightarrow> retractionIDStore \<Rightarrow> retractionIDStore" where
  "RecordRetractionDeliveries fed deliveries s =
     (if deliveries = [] then s
      else case map_of (federations s) fed of
        None \<Rightarrow> s
      | Some f \<Rightarrow>
          s\<lparr>federations := put fed (f\<lparr>producers := record_deliveries deliveries (producers f)\<rparr>) (federations s)\<rparr>)"

definition forget_recipient :: "handle \<Rightarrow> retractionProducer \<Rightarrow> retractionProducer" where
  "forget_recipient h p =
     p\<lparr>messages := map (\<lambda>(i, msg). (i, msg\<lparr>rmDelivered := filter (\<lambda>x. x \<noteq> h) (rmDelivered msg)\<rparr>)) (messages p)\<rparr>"

definition ForgetRetractionRecipient :: "fed_name \<Rightarrow> handle \<Rightarrow> retractionIDStore \<Rightarrow> retractionIDStore" where
  "ForgetRetractionRecipient fed recipient s =
     (case map_of (federations s) fed of
        None \<Rightarrow> s
      | Some f \<Rightarrow>
          s\<lparr>federations := put fed
             (f\<lparr>producers := map (\<lambda>(h, p). (h, forget_recipient recipient p)) (producers f)\<rparr>) (federations s)\<rparr>)"

section \<open>Ranges as sets\<close>

definition ids :: "RetractionIDRange list \<Rightarrow> nat set" where
  "ids rs = (\<Union>r\<in>set rs. {First r..Last r})"

text \<open>Canonical: non-empty ranges in order, with a gap between neighbours, none of them 0.\<close>

fun canonical :: "RetractionIDRange list \<Rightarrow> bool" where
  "canonical [] = True"
| "canonical [r] = (0 < First r \<and> First r \<le> Last r \<and> Last r \<le> MaxUint64)"
| "canonical (r # r' # rs) = (0 < First r \<and> First r \<le> Last r \<and> Last r + 1 < First r' \<and> canonical (r' # rs))"

lemma ids_simps [simp]: "ids [] = {}" "ids (r # rs) = {First r..Last r} \<union> ids rs" "ids (rs @ ss) = ids rs \<union> ids ss"
  by (auto simp: ids_def)

lemma canonical_tl: "canonical (r # rs) \<Longrightarrow> canonical rs"
  by (cases rs) auto

lemma canonical_head_less: "canonical (r # rs) \<Longrightarrow> r' \<in> set rs \<Longrightarrow> Last r + 1 < First r'"
proof (induction rs arbitrary: r)
  case (Cons s rs)
  have s: "Last r + 1 < First s" "canonical (s # rs)" using Cons.prems(1) by auto
  have "First s \<le> Last s" using s(2) by (cases rs) auto
  show ?case
  proof (cases "r' = s")
    case False
    then show ?thesis using Cons.IH [OF s(2)] Cons.prems(2) s \<open>First s \<le> Last s\<close> by fastforce
  qed (use s in simp)
qed simp

lemma canonical_nth_less:
  "canonical rs \<Longrightarrow> i < j \<Longrightarrow> j < length rs \<Longrightarrow> Last (rs ! i) + 1 < First (rs ! j)"
proof (induction rs arbitrary: i j)
  case (Cons r rs)
  show ?case
  proof (cases i)
    case 0
    with Cons.prems have "rs ! (j - 1) \<in> set rs" by simp
    then show ?thesis using canonical_head_less [OF Cons.prems(1)] 0 Cons.prems by (cases j) auto
  next
    case (Suc k)
    with Cons.prems canonical_tl [OF Cons.prems(1)] Cons.IH [of k "j - 1"] show ?thesis by (cases j) auto
  qed
qed simp

lemma canonical_nonempty: "canonical rs \<Longrightarrow> r \<in> set rs \<Longrightarrow> 0 < First r \<and> First r \<le> Last r"
proof (induction rs)
  case (Cons s rs)
  then show ?case by (cases rs) auto
qed simp

subsection \<open>Binary search\<close>

lemma search_from_spec:
  assumes "i \<le> j" "\<And>a b. a \<le> b \<Longrightarrow> b < n \<Longrightarrow> f a \<Longrightarrow> f b" "j \<le> n"
    "\<forall>a<i. \<not> f a" "\<forall>a. j \<le> a \<and> a < n \<longrightarrow> f a"
  shows "search_from f i j \<le> n \<and> (\<forall>a < search_from f i j. \<not> f a) \<and> (\<forall>a. search_from f i j \<le> a \<and> a < n \<longrightarrow> f a)"
  using assms
proof (induction f i j rule: search_from.induct)
  case (1 f i j)
  show ?case
  proof (cases "i < j")
    case False
    then show ?thesis using "1.prems" by (subst (1 2 3) search_from.simps) auto
  next
    case True
    let ?h = "(i + j) div 2"
    have h: "i \<le> ?h" "?h < j" using True by auto
    show ?thesis
    proof (cases "f ?h")
      case fh: True
      have "\<forall>a. ?h \<le> a \<and> a < n \<longrightarrow> f a" using "1.prems"(2) fh by blast
      then have "search_from f i ?h \<le> n \<and> (\<forall>a < search_from f i ?h. \<not> f a) \<and> (\<forall>a. search_from f i ?h \<le> a \<and> a < n \<longrightarrow> f a)"
        using "1.IH"(2) [OF True refl] fh h "1.prems" by fastforce
      then show ?thesis using True fh by (simp add: search_from.simps [of f i j] Let_def)
    next
      case False
      have "\<forall>a<?h + 1. \<not> f a"
        using "1.prems"(2) False h "1.prems"(3) by (metis Suc_eq_plus1 less_Suc_eq_le less_le_trans)
      then have "search_from f (?h + 1) j \<le> n \<and> (\<forall>a < search_from f (?h + 1) j. \<not> f a) \<and>
          (\<forall>a. search_from f (?h + 1) j \<le> a \<and> a < n \<longrightarrow> f a)"
        using "1.IH"(1) [OF True refl] False h "1.prems" by fastforce
      then show ?thesis using True False by (simp add: search_from.simps [of f i j] Let_def)
    qed
  qed
qed

lemma containsRetractionID_iff:
  assumes "canonical rs"
  shows "containsRetractionID rs x \<longleftrightarrow> x \<in> ids rs"
proof -
  let ?f = "\<lambda>i. Last (rs ! i) \<ge> x"
  let ?k = "sort_Search (length rs) ?f"
  have mono: "?f b" if "a \<le> b" "b < length rs" "?f a" for a b
    using that canonical_nth_less [OF assms, of a b] canonical_nonempty [OF assms, of "rs ! b"]
    by (cases "a = b") auto
  have k: "\<forall>a<?k. \<not> ?f a" "\<forall>a. ?k \<le> a \<and> a < length rs \<longrightarrow> ?f a"
  proof -
    have "search_from ?f 0 (length rs) \<le> length rs \<and> (\<forall>a < search_from ?f 0 (length rs). \<not> ?f a) \<and>
        (\<forall>a. search_from ?f 0 (length rs) \<le> a \<and> a < length rs \<longrightarrow> ?f a)"
    proof (rule search_from_spec [of 0 "length rs" "length rs" ?f])
      show "?f b" if "a \<le> b" "b < length rs" "?f a" for a b using that by (rule mono)
    qed simp_all
    then show "\<forall>a<?k. \<not> ?f a" "\<forall>a. ?k \<le> a \<and> a < length rs \<longrightarrow> ?f a" unfolding sort_Search_def by blast+
  qed
  have "x \<in> ids rs \<longleftrightarrow> (\<exists>i<length rs. First (rs ! i) \<le> x \<and> x \<le> Last (rs ! i))"
    by (force simp: ids_def in_set_conv_nth)
  also have "\<dots> \<longleftrightarrow> ?k < length rs \<and> First (rs ! ?k) \<le> x"
  proof
    assume "\<exists>i<length rs. First (rs ! i) \<le> x \<and> x \<le> Last (rs ! i)"
    then obtain i where i: "i < length rs" "First (rs ! i) \<le> x" "x \<le> Last (rs ! i)" by blast
    then have "?k \<le> i" using k(1) by (meson not_le_imp_less)
    moreover have "?k = i"
    proof (rule ccontr)
      assume "?k \<noteq> i"
      with \<open>?k \<le> i\<close> have "?k < i" by simp
      then have "Last (rs ! ?k) + 1 < First (rs ! i)" using canonical_nth_less [OF assms] i(1) by blast
      moreover have "?f ?k" using k(2) \<open>?k < i\<close> i(1) by auto
      ultimately show False using i(2) by simp
    qed
    ultimately show "?k < length rs \<and> First (rs ! ?k) \<le> x" using i by simp
  qed (use k(2) in auto)
  finally show ?thesis by (simp add: containsRetractionID_def Let_def)
qed

subsection \<open>Union\<close>

lemma canonical_max: "canonical rs \<Longrightarrow> \<forall>r \<in> set rs. Last r \<le> MaxUint64"
proof (induction rs rule: canonical.induct)
  case (3 r r' rs)
  then have "First r' \<le> Last r'" using canonical_nonempty [of "r' # rs" r'] by simp
  with 3 show ?case by auto
qed simp_all

lemma canonical_snoc:
  "canonical (acc @ [l]) \<Longrightarrow> Last l + 1 < First r \<Longrightarrow> First r \<le> Last r \<Longrightarrow> Last r \<le> MaxUint64 \<Longrightarrow>
   canonical ((acc @ [l]) @ [r])"
proof (induction acc)
  case (Cons a acc)
  then show ?case by (cases acc) auto
qed simp

lemma canonical_replace_last:
  "canonical (acc @ [l]) \<Longrightarrow> First l' = First l \<Longrightarrow> Last l \<le> Last l' \<Longrightarrow> Last l' \<le> MaxUint64 \<Longrightarrow> canonical (acc @ [l'])"
proof (induction acc)
  case (Cons a acc)
  then show ?case by (cases acc) auto
qed simp

lemma merge_ranges_spec:
  assumes "\<forall>r \<in> set (lst # rest). 0 < First r \<and> First r \<le> Last r \<and> Last r \<le> MaxUint64"
    and "sorted (map First (lst # rest))" and "canonical (acc @ [lst])"
  shows "canonical (merge_ranges acc lst rest) \<and> ids (merge_ranges acc lst rest) = ids acc \<union> ids (lst # rest)"
  using assms
proof (induction acc lst rest rule: merge_ranges.induct)
  case (2 acc lst r rest)
  show ?case
  proof (cases "First r \<le> Last lst \<or> (Last lst \<noteq> MaxUint64 \<and> First r = Last lst + 1)")
    case True
    define l where "l = (if Last r > Last lst then lst\<lparr>Last := Last r\<rparr> else lst)"
    have f: "First l = First lst" "Last l = max (Last lst) (Last r)" by (auto simp: l_def)
    have ok: "First lst \<le> Last lst" "0 < First lst" "Last lst \<le> MaxUint64" "First r \<le> Last r" "Last r \<le> MaxUint64"
      "First lst \<le> First r" "\<forall>s \<in> set rest. 0 < First s \<and> First s \<le> Last s \<and> Last s \<le> MaxUint64"
      "sorted (map First rest)" "\<forall>s \<in> set rest. First lst \<le> First s"
      using "2.prems"(1,2) by auto
    have can: "canonical (acc @ [l])" by (rule canonical_replace_last [OF "2.prems"(3)]) (use f ok in auto)
    have ids: "ids (l # rest) = ids (lst # r # rest)"
      unfolding ids_simps f using True ok by (auto simp: max_def)
    have "sorted (map First (l # rest))" using ok f by simp
    moreover have "\<forall>s \<in> set (l # rest). 0 < First s \<and> First s \<le> Last s \<and> Last s \<le> MaxUint64"
      using ok f by auto
    ultimately have "canonical (merge_ranges acc l rest) \<and> ids (merge_ranges acc l rest) = ids acc \<union> ids (l # rest)"
      using "2.IH"(1) [OF True, folded l_def] can by blast
    then show ?thesis unfolding ids using True by (simp add: l_def)
  next
    case False
    then have "Last lst + 1 < First r" using "2.prems"(1) by auto
    then have "canonical ((acc @ [lst]) @ [r])"
      using "2.prems" by (intro canonical_snoc) auto
    moreover have "sorted (map First (r # rest))" using "2.prems"(2) by simp
    moreover have "\<forall>s \<in> set (r # rest). 0 < First s \<and> First s \<le> Last s \<and> Last s \<le> MaxUint64"
      using "2.prems"(1) by simp
    ultimately have "canonical (merge_ranges (acc @ [lst]) r rest) \<and>
        ids (merge_ranges (acc @ [lst]) r rest) = ids (acc @ [lst]) \<union> ids (r # rest)"
      using "2.IH"(2) [OF False] by blast
    then show ?thesis using False by (auto simp: Un_assoc)
  qed
qed simp

lemma canonical_Cons_all: "canonical (r # rs) \<Longrightarrow> r' \<in> set rs \<Longrightarrow> First r \<le> First r'"
  using canonical_head_less [of r rs r'] canonical_nonempty [of "r # rs" r] by simp

lemma canonical_sorted: "canonical rs \<Longrightarrow> sorted (map First rs)"
proof (induction rs)
  case (Cons r rs)
  then show ?case using canonical_Cons_all canonical_tl by fastforce
qed simp

lemma unionRetractionRanges_spec:
  assumes "canonical a" and "canonical b"
  shows "canonical (unionRetractionRanges a b) \<and> ids (unionRetractionRanges a b) = ids a \<union> ids b"
proof -
  let ?s = "sort_key First (a @ b)"
  have set_s: "set ?s = set a \<union> set b" by simp
  have ok: "\<forall>r \<in> set ?s. 0 < First r \<and> First r \<le> Last r \<and> Last r \<le> MaxUint64"
    using assms canonical_nonempty canonical_max unfolding set_s by blast
  have "ids ?s = ids a \<union> ids b" by (auto simp: ids_def)
  moreover have "sorted (map First ?s)" by simp
  ultimately show ?thesis
    using merge_ranges_spec [of "hd ?s" "tl ?s" "[]"] ok
    unfolding unionRetractionRanges_def by (cases ?s) auto
qed

section \<open>The ledger never accepts an identifier twice\<close>

definition producer_of :: "fed_name \<Rightarrow> handle \<Rightarrow> retractionIDStore \<Rightarrow> retractionProducer option" where
  "producer_of fed h s =
     (case map_of (federations s) fed of None \<Rightarrow> None | Some f \<Rightarrow> map_of (producers f) h)"

definition accepted_ids :: "fed_name \<Rightarrow> handle \<Rightarrow> retractionIDStore \<Rightarrow> nat set" where
  "accepted_ids fed h s = (case producer_of fed h s of None \<Rightarrow> {} | Some p \<Rightarrow> ids (accepted p))"

definition store_wf :: "retractionIDStore \<Rightarrow> bool" where
  "store_wf s \<longleftrightarrow> (\<forall>fed h p. producer_of fed h s = Some p \<longrightarrow> canonical (accepted p))"

lemma producer_of_set:
  "map_of (federations s) fed \<noteq> None \<Longrightarrow>
   producer_of fed' h' (set_producer fed h p s) =
     (if fed' = fed \<and> h' = h then Some p else producer_of fed' h' s)"
  by (auto simp: producer_of_def set_producer_def split: option.splits)

lemma federationLocked_spec:
  assumes "federationLocked fed s = (f, s')"
  shows "map_of (federations s') fed = Some f" "producer_of fed' h s' = producer_of fed' h s"
    "producerLocked h f = (case producer_of fed h s of Some p \<Rightarrow> p | None \<Rightarrow> new_producer)"
    "next_token s \<le> next_token s'"
  using assms
  by (auto simp: federationLocked_def producer_of_def producerLocked_def Let_def
      split: option.splits if_splits)

lemma canonical_accepted: "store_wf s \<Longrightarrow> canonical (accepted (case producer_of fed h s of Some p \<Rightarrow> p | None \<Rightarrow> new_producer))"
  by (auto simp: store_wf_def new_producer_def split: option.splits)

lemma store_wf_set:
  "store_wf s \<Longrightarrow> canonical (accepted p) \<Longrightarrow> store_wf (set_producer fed h p s)"
  by (cases "map_of (federations s) fed = None")
    (auto simp: store_wf_def producer_of_set, auto simp: set_producer_def)

lemma store_wf_federationLocked: "federationLocked fed s = (f, s') \<Longrightarrow> store_wf s \<Longrightarrow> store_wf s'"
  using federationLocked_spec(2) [of fed s f s'] by (simp add: store_wf_def)

lemma Reserve_ok:
  assumes "store_wf s" and "ReserveRetractionID fed h i msg s = (Inr r, s')"
  obtains p where "store_wf s'" "producer_of fed h s' = Some p" "i \<notin> accepted_ids fed h s"
    "map_of (pendingIDs p) i = Some (rv_token r, msg)" "reservation_live r s' = Some p"
    "rv_fed r = fed" "rv_producer r = h" "rv_id r = i" "\<not> rv_done r" "0 < i" "0 < h"
    "accepted_ids fed h s' = accepted_ids fed h s"
proof -
  obtain f t where l: "federationLocked fed s = (f, t)" by (cases "federationLocked fed s")
  define p where "p = producerLocked h f"
  define q where "q = p\<lparr>pendingIDs := put i (next_token t, msg) (pendingIDs p)\<rparr>"
  note L = federationLocked_spec [OF l]
  from assms(2) l have i: "h \<noteq> 0" "i \<noteq> 0" by (auto simp: ReserveRetractionID_def split: if_splits)
  from assms(2) l i have c: "\<not> containsRetractionID (accepted p) i"
    and s': "s' = set_producer fed h q (t\<lparr>next_token := next_token t + 1\<rparr>)"
    and r: "r = \<lparr>rv_fed = fed, rv_generation = generation f, rv_producer = h, rv_id = i,
                    rv_token = next_token t, rv_done = False, rv_err = None\<rparr>"
    by (auto simp: ReserveRetractionID_def p_def [symmetric] q_def Let_def split: if_splits)
  have can: "canonical (accepted p)" unfolding p_def L(3) by (rule canonical_accepted [OF assms(1)])
  let ?t = "t\<lparr>next_token := next_token t + 1\<rparr>"
  have wft: "store_wf ?t" using store_wf_federationLocked [OF l assms(1)] by (simp add: store_wf_def producer_of_def)
  have ft: "map_of (federations ?t) fed = Some f" using L(1) by simp
  have live: "producer_of fed h s' = Some q" unfolding s' using ft by (simp add: producer_of_set)
  have acc: "ids (accepted p) = accepted_ids fed h s"
    unfolding p_def L(3) accepted_ids_def by (simp add: new_producer_def split: option.split)
  show thesis
  proof (rule that)
    show "store_wf s'" unfolding s' using wft can by (simp add: store_wf_set q_def)
    show "producer_of fed h s' = Some q" by (rule live)
    show "i \<notin> accepted_ids fed h s" using c containsRetractionID_iff [OF can] acc by simp
    show "map_of (pendingIDs q) i = Some (rv_token r, msg)" by (simp add: q_def r)
    show "reservation_live r s' = Some q"
      using ft by (simp add: reservation_live_def s' set_producer_def r q_def)
    show "accepted_ids fed h s' = accepted_ids fed h s"
      using live acc by (simp add: accepted_ids_def q_def)
  qed (use i r in auto)
qed

lemma Reserve_used:
  assumes "store_wf s" and "0 < h" and "0 < i"
    and "i \<in> accepted_ids fed h s \<or> (\<exists>p. producer_of fed h s = Some p \<and> map_of (pendingIDs p) i \<noteq> None)"
  shows "fst (ReserveRetractionID fed h i msg s) = Inl ErrRetractionIDAlreadyUsed"
proof -
  obtain f t where l: "federationLocked fed s = (f, t)" by (cases "federationLocked fed s")
  note L = federationLocked_spec [OF l]
  have can: "canonical (accepted (producerLocked h f))" unfolding L(3) by (rule canonical_accepted [OF assms(1)])
  have "containsRetractionID (accepted (producerLocked h f)) i \<or> map_of (pendingIDs (producerLocked h f)) i \<noteq> None"
    unfolding containsRetractionID_iff [OF can]
    using assms(4) L(3) [of h] by (auto simp: accepted_ids_def split: option.splits)
  then show ?thesis using assms(2,3) l by (auto simp: ReserveRetractionID_def Let_def)
qed

lemma Commit_ok:
  assumes "store_wf s" and "reservation_live r s = Some p" and "\<not> rv_done r"
    and "0 < rv_id r" and "rv_id r \<le> MaxUint64"
  obtains r' s' where "reservation_Commit r s = (None, r', s')" "store_wf s'"
    "accepted_ids (rv_fed r) (rv_producer r) s' = insert (rv_id r) (accepted_ids (rv_fed r) (rv_producer r) s)"
proof -
  from assms(2) obtain f where f: "map_of (federations s) (rv_fed r) = Some f" "map_of (producers f) (rv_producer r) = Some p"
    by (auto simp: reservation_live_def split: option.splits if_splits)
  have pr: "producer_of (rv_fed r) (rv_producer r) s = Some p" using f by (simp add: producer_of_def)
  have can: "canonical (accepted p)" using assms(1) pr by (simp add: store_wf_def)
  have one: "canonical [\<lparr>First = rv_id r, Last = rv_id r\<rparr>]" using assms(4,5) by simp
  note u = unionRetractionRanges_spec [OF can one]
  let ?m = "case map_of (pendingIDs p) (rv_id r) of Some (_, m) \<Rightarrow> m | None \<Rightarrow> None"
  let ?p = "p\<lparr>pendingIDs := del (rv_id r) (pendingIDs p),
      accepted := unionRetractionRanges (accepted p) [\<lparr>First = rv_id r, Last = rv_id r\<rparr>]\<rparr>"
  define q where "q = (case ?m of Some m \<Rightarrow> ?p\<lparr>messages := put (rv_id r) m (messages ?p)\<rparr> | None \<Rightarrow> ?p)"
  have acc: "accepted q = unionRetractionRanges (accepted p) [\<lparr>First = rv_id r, Last = rv_id r\<rparr>]"
    by (simp add: q_def split: option.split)
  show thesis
  proof (rule that)
    show "reservation_Commit r s = (None, r\<lparr>rv_done := True\<rparr>, set_producer (rv_fed r) (rv_producer r) q s)"
      using assms(2,3) by (simp add: reservation_Commit_def Let_def q_def)
    show "store_wf (set_producer (rv_fed r) (rv_producer r) q s)"
      by (rule store_wf_set [OF assms(1)]) (simp only: acc u)
    show "accepted_ids (rv_fed r) (rv_producer r) (set_producer (rv_fed r) (rv_producer r) q s) =
        insert (rv_id r) (accepted_ids (rv_fed r) (rv_producer r) s)"
      unfolding accepted_ids_def using f(1) u by (simp add: producer_of_set pr acc)
  qed
qed

section \<open>Properties\<close>

text \<open>
  C24.  An originating identifier is used at most once: a successful reservation was for an
  identifier not accepted before; while it is in flight and after it is committed every other
  reservation of the same identifier is refused; and committing it succeeds, adding exactly
  that identifier to the accepted ones.
\<close>

theorem retraction_id_once:
  assumes "store_wf s" and "ReserveRetractionID fed h i msg s = (Inr r, s1)" and "i \<le> MaxUint64"
  shows "i \<notin> accepted_ids fed h s \<and>
    (\<forall>m. fst (ReserveRetractionID fed h i m s1) = Inl ErrRetractionIDAlreadyUsed) \<and>
    (\<exists>r' s2. reservation_Commit r s1 = (None, r', s2) \<and> store_wf s2 \<and>
       accepted_ids fed h s2 = insert i (accepted_ids fed h s) \<and>
       (\<forall>m. fst (ReserveRetractionID fed h i m s2) = Inl ErrRetractionIDAlreadyUsed))"
proof -
  from Reserve_ok [OF assms(1,2)] obtain p where R: "store_wf s1" "producer_of fed h s1 = Some p"
    "i \<notin> accepted_ids fed h s" "map_of (pendingIDs p) i = Some (rv_token r, msg)" "reservation_live r s1 = Some p"
    "rv_fed r = fed" "rv_producer r = h" "rv_id r = i" "\<not> rv_done r" "0 < i" "0 < h"
    "accepted_ids fed h s1 = accepted_ids fed h s" .
  have idr: "0 < rv_id r" "rv_id r \<le> MaxUint64" using R assms(3) by simp_all
  from Commit_ok [OF R(1) R(5) R(9) idr] obtain r' s2 where C: "reservation_Commit r s1 = (None, r', s2)"
    "store_wf s2" "accepted_ids fed h s2 = insert i (accepted_ids fed h s)" using R by metis
  have "fst (ReserveRetractionID fed h i m s1) = Inl ErrRetractionIDAlreadyUsed" for m
    by (rule Reserve_used [OF R(1) R(11) R(10)]) (use R in auto)
  moreover have "fst (ReserveRetractionID fed h i m s2) = Inl ErrRetractionIDAlreadyUsed" for m
    by (rule Reserve_used [OF C(2) R(11) R(10)]) (use C(3) in simp)
  ultimately show ?thesis using R(3) C by blast
qed

theorem retraction_id_once_witness:
  "\<exists>r s1 r' s2. ReserveRetractionID ''F'' 1 7 None \<lparr>next_token = 0, federations = []\<rparr> = (Inr r, s1) \<and>
     reservation_Commit r s1 = (None, r', s2) \<and> accepted_ids ''F'' 1 s2 = {7}"
proof -
  let ?s = "\<lparr>next_token = 0, federations = []\<rparr> :: retractionIDStore"
  have wf: "store_wf ?s" by (simp add: store_wf_def producer_of_def)
  have em: "accepted_ids ''F'' 1 ?s = {}" by (simp add: accepted_ids_def producer_of_def)
  have "\<exists>r s1. ReserveRetractionID ''F'' 1 7 None ?s = (Inr r, s1)"
    by (simp add: ReserveRetractionID_def federationLocked_def producerLocked_def new_producer_def
        containsRetractionID_def sort_Search_def search_from.simps Let_def)
  then obtain r s1 where r: "ReserveRetractionID ''F'' 1 7 None ?s = (Inr r, s1)" by blast
  from retraction_id_once [OF wf r] show ?thesis using r em by (auto simp: MaxUint64_def)
qed

end
