(* ===== verification/Time_Queue.thy ===== *)
theory Time_Queue
  imports Time_Laws Retraction
begin

text \<open>
  The state of the time manager and its message queues: \<open>manager.go\<close>, \<open>ner.go\<close>,
  \<open>asyncdelivery.go\<close>, \<open>ro_delivery.go\<close>, \<open>deletion_ties.go\<close>, \<open>deletion_lifecycle.go\<close>,
  \<open>callback_reservation.go\<close> and \<open>flush.go\<close> of \<open>rti/internal/hla/time\<close>.  Every operation runs
  under the federation's evaluator lease, so it is a function from state to state.  The
  optional deletion lifecycle is not bound and contexts are not cancelled; the observers and
  the elapsed-time accounting, which no operation reads, are left out.
\<close>

section \<open>State\<close>

type_synonym key = "fed_name \<times> handle"

text \<open>
  The outbox, the event log, the subscription filter and the clock are the manager's
  environment.  Each answers as it likes at each call: its answer depends on the number of
  the call.  \<open>eReserve\<close> covers a failed admission and a missing reservation alike.
\<close>

record env =
  eReservable :: bool
  eReserve :: "nat \<Rightarrow> fed_name \<Rightarrow> (handle \<times> event) list \<Rightarrow> time_error option"
  eCommit :: "nat \<Rightarrow> time_error option"
  eSend :: "nat \<Rightarrow> fed_name \<Rightarrow> handle \<Rightarrow> event \<Rightarrow> time_error option"
  eAppend :: "(nat \<Rightarrow> time_error option) option"
  eFilter :: "(nat \<Rightarrow> fed_name \<Rightarrow> handle \<Rightarrow> event \<Rightarrow> event option) option"
  eNow :: "nat \<Rightarrow> int"
  eStallTimeout :: int

text \<open>The barrier of a scheduled save; \<open>bToken\<close> is the identity of its pointer.\<close>

record scheduledTimeBarrier =
  bToken :: nat
  target :: int
  modes :: "(handle \<times> (bool \<times> bool)) list"
  pausedAt :: "int option"
  participantPaused :: "(handle \<times> int) list"

datatype log_record = TimeAdvanceGrantedRecord handle int | FederationHaltedRecord string handle

record manager =
  states :: "(key \<times> federateState) list"
  ner :: "(key \<times> nerState) list"
  halted :: "fed_name list"
  stallTimeouts :: "(fed_name \<times> int) list"
  scheduledSaves :: "(fed_name \<times> scheduledTimeBarrier) list"
  deliveryRetries :: "fed_name list"
  retractions :: retractionIDStore
  calls :: nat
  sent :: "(fed_name \<times> handle \<times> event) list"
  journal :: "(fed_name \<times> log_record) list"

definition getFs :: "manager \<Rightarrow> fed_name \<Rightarrow> handle \<Rightarrow> federateState option" where
  "getFs s fed h = map_of (states s) (fed, h)"

definition getNs :: "manager \<Rightarrow> fed_name \<Rightarrow> handle \<Rightarrow> nerState option" where
  "getNs s fed h = map_of (ner s) (fed, h)"

definition getOrCreateFs :: "manager \<Rightarrow> fed_name \<Rightarrow> handle \<Rightarrow> federateState" where
  "getOrCreateFs s fed h = (case getFs s fed h of Some f \<Rightarrow> f | None \<Rightarrow> new_federateState)"

definition getOrCreateNs :: "manager \<Rightarrow> fed_name \<Rightarrow> handle \<Rightarrow> nerState" where
  "getOrCreateNs s fed h = (case getNs s fed h of Some n \<Rightarrow> n | None \<Rightarrow> new_nerState)"

definition putFs :: "fed_name \<Rightarrow> handle \<Rightarrow> federateState \<Rightarrow> manager \<Rightarrow> manager" where
  "putFs fed h f s = s\<lparr>states := put (fed, h) f (states s)\<rparr>"

definition putNs :: "fed_name \<Rightarrow> handle \<Rightarrow> nerState \<Rightarrow> manager \<Rightarrow> manager" where
  "putNs fed h n s = s\<lparr>ner := put (fed, h) n (ner s)\<rparr>"

definition isHalted :: "manager \<Rightarrow> fed_name \<Rightarrow> bool" where
  "isHalted s fed \<longleftrightarrow> fed \<in> set (halted s)"

definition isConstrained :: "manager \<Rightarrow> fed_name \<Rightarrow> handle \<Rightarrow> bool" where
  "isConstrained s fed h = (case getFs s fed h of Some f \<Rightarrow> constrained f | None \<Rightarrow> False)"

definition scheduledPauseAt :: "manager \<Rightarrow> fed_name \<Rightarrow> handle \<Rightarrow> int option" where
  "scheduledPauseAt s fed h =
     (case map_of (scheduledSaves s) fed of
        Some b \<Rightarrow> (case map_of (participantPaused b) h of Some t \<Rightarrow> Some t | None \<Rightarrow> pausedAt b)
      | None \<Rightarrow> None)"

definition scheduledRecipientPaused :: "manager \<Rightarrow> fed_name \<Rightarrow> handle \<Rightarrow> bool" where
  "scheduledRecipientPaused s fed h \<longleftrightarrow> scheduledPauseAt s fed h \<noteq> None"

definition markDeliveryRetry :: "fed_name \<Rightarrow> manager \<Rightarrow> manager" where
  "markDeliveryRetry fed s =
     (if fed \<in> set (deliveryRetries s) then s else s\<lparr>deliveryRetries := deliveryRetries s @ [fed]\<rparr>)"

section \<open>The environment's calls\<close>

definition tick :: "manager \<Rightarrow> manager" where
  "tick s = s\<lparr>calls := calls s + 1\<rparr>"

definition publish :: "fed_name \<Rightarrow> (handle \<times> event) list \<Rightarrow> manager \<Rightarrow> manager" where
  "publish fed ds s = s\<lparr>sent := sent s @ map (\<lambda>(h, e). (fed, h, e)) ds\<rparr>"

definition Outbox_Reserve :: "env \<Rightarrow> fed_name \<Rightarrow> (handle \<times> event) list \<Rightarrow> manager \<Rightarrow> time_error option \<times> manager" where
  "Outbox_Reserve E fed ds s = (eReserve E (calls s) fed ds, tick s)"

definition Outbox_Commit :: "env \<Rightarrow> fed_name \<Rightarrow> (handle \<times> event) list \<Rightarrow> manager \<Rightarrow> time_error option \<times> manager" where
  "Outbox_Commit E fed ds s =
     (case eCommit E (calls s) of None \<Rightarrow> (None, publish fed ds (tick s)) | Some e \<Rightarrow> (Some e, tick s))"

definition Outbox_Send :: "env \<Rightarrow> fed_name \<Rightarrow> handle \<Rightarrow> event \<Rightarrow> manager \<Rightarrow> time_error option \<times> manager" where
  "Outbox_Send E fed h e s =
     (case eSend E (calls s) fed h e of None \<Rightarrow> (None, publish fed [(h, e)] (tick s)) | Some err \<Rightarrow> (Some err, tick s))"

definition EventLog_Append :: "env \<Rightarrow> fed_name \<Rightarrow> log_record \<Rightarrow> manager \<Rightarrow> time_error option \<times> manager" where
  "EventLog_Append E fed rec s =
     (case eAppend E of
        None \<Rightarrow> (None, s)
      | Some f \<Rightarrow> (case f (calls s) of
            None \<Rightarrow> (None, (tick s)\<lparr>journal := journal s @ [(fed, rec)]\<rparr>)
          | Some e \<Rightarrow> (Some e, tick s)))"

definition queuedMessage :: "env \<Rightarrow> fed_name \<Rightarrow> handle \<Rightarrow> bufferedTSOEvent \<Rightarrow> manager \<Rightarrow> event option \<times> manager" where
  "queuedMessage E fed h b s =
     (case eFilter E of
        Some f \<Rightarrow> if \<not> internalTSO (bevent b) then (f (calls s) fed h (bevent b), tick s) else (Some (bevent b), s)
      | None \<Rightarrow> (Some (bevent b), s))"

section \<open>Ties between reflections and the deletion of their object\<close>

definition reflectionObject :: "bufferedTSOEvent \<Rightarrow> nat" where
  "reflectionObject b = (case bevent b of Message m \<Rightarrow> ReflectionObject m | _ \<Rightarrow> 0)"

definition deletionObject :: "bufferedTSOEvent \<Rightarrow> nat" where
  "deletionObject b = (case bevent b of Message m \<Rightarrow> DeletionObject m | _ \<Rightarrow> 0)"

definition collectDeletionTies :: "bufferedTSOEvent list \<Rightarrow> nat list" where
  "collectDeletionTies release = remdups (filter (\<lambda>d. d \<noteq> 0) (map deletionObject release))"

definition tie_reflection :: "nat list \<Rightarrow> bufferedTSOEvent \<Rightarrow> bool" where
  "tie_reflection objects b \<longleftrightarrow> reflectionObject b \<noteq> 0 \<and> reflectionObject b \<in> set objects"

definition tie_group :: "nat list \<Rightarrow> bufferedTSOEvent \<Rightarrow> nat" where
  "tie_group objects b =
     (if tie_reflection objects b then reflectionObject b
      else if deletionObject b \<in> set objects then deletionObject b else 0)"

text \<open>Writing the items of a group back into the group's slots, in slot order.\<close>

fun refill :: "('a \<Rightarrow> bool) \<Rightarrow> 'a list \<Rightarrow> 'a list \<Rightarrow> 'a list" where
  "refill P items [] = []"
| "refill P [] (x # xs) = x # xs"
| "refill P (q # items) (x # xs) = (if P x then q # refill P items xs else x # refill P (q # items) xs)"

definition order_group :: "nat list \<Rightarrow> bufferedTSOEvent list \<Rightarrow> nat \<Rightarrow> bufferedTSOEvent list" where
  "order_group objects release obj =
     (let grp = filter (\<lambda>b. tie_group objects b = obj) release;
          refl = filter (tie_reflection objects) grp;
          dels = filter (\<lambda>b. \<not> tie_reflection objects b) grp
      in if refl = [] then release else refill (\<lambda>b. tie_group objects b = obj) (refl @ dels) release)"

definition orderObjectDeletionTies :: "bufferedTSOEvent list \<Rightarrow> bufferedTSOEvent list" where
  "orderObjectDeletionTies release =
     (let objects = collectDeletionTies release in foldl (order_group objects) release objects)"

function orderReflectionDeletionTies :: "bufferedTSOEvent list \<Rightarrow> bufferedTSOEvent list" where
  "orderReflectionDeletionTies [] = []"
| "orderReflectionDeletionTies (b # bs) =
     orderObjectDeletionTies (b # takeWhile (\<lambda>c. timestamp c = timestamp b) bs) @
     orderReflectionDeletionTies (dropWhile (\<lambda>c. timestamp c = timestamp b) bs)"
  by pat_completeness auto

termination by (relation "measure length") (auto simp: le_imp_less_Suc length_dropWhile_le)

section \<open>Taking and restoring queued messages\<close>

definition setReceivedOrder :: "order_type \<Rightarrow> event \<Rightarrow> event" where
  "setReceivedOrder ord e =
     (case e of Message m \<Rightarrow> Message (if ReceivedOrder m \<noteq> None then m\<lparr>ReceivedOrder := Some ord\<rparr> else m) | _ \<Rightarrow> e)"

definition takeBufferedTSOThrough ::
  "fed_name \<Rightarrow> handle \<Rightarrow> int option \<Rightarrow> bool \<Rightarrow> int option \<Rightarrow> manager \<Rightarrow> bufferedTSOEvent list \<times> manager" where
  "takeBufferedTSOThrough fed h t advancing internalDeadline s =
     (case getNs s fed h of
        None \<Rightarrow> ([], s)
      | Some ns \<Rightarrow>
          if tsoBuffer ns = [] \<or> scheduledRecipientPaused s fed h then ([], s)
          else
            let eligible = (\<lambda>b. bufferedTSOEligible b t advancing internalDeadline (currentTime ns));
                release = filter eligible (tsoBuffer ns);
                keep = filter (\<lambda>b. \<not> eligible b) (tsoBuffer ns);
                ordered = isConstrained s fed h;
                release = (if ordered then orderReflectionDeletionTies (sort_key timestamp release) else release);
                ord = (if ordered then OrderTimestamp else OrderReceive)
            in (map (\<lambda>b. b\<lparr>bevent := setReceivedOrder ord (bevent b)\<rparr>) release,
                putNs fed h (ns\<lparr>tsoBuffer := keep\<rparr>) s))"

definition takeBufferedTSO ::
  "fed_name \<Rightarrow> handle \<Rightarrow> int option \<Rightarrow> bool \<Rightarrow> manager \<Rightarrow> bufferedTSOEvent list \<times> manager" where
  "takeBufferedTSO fed h t advancing s = takeBufferedTSOThrough fed h t advancing t s"

definition takeBufferedRO :: "fed_name \<Rightarrow> handle \<Rightarrow> manager \<Rightarrow> bufferedTSOEvent list \<times> manager" where
  "takeBufferedRO fed h s =
     (case getNs s fed h of
        None \<Rightarrow> ([], s)
      | Some ns \<Rightarrow>
          if scheduledRecipientPaused s fed h then ([], s)
          else if isConstrained s fed h \<and> \<not> pendingNER ns \<and> \<not> asyncDelivery ns then ([], s)
          else (roBuffer ns, putNs fed h (ns\<lparr>roBuffer := []\<rparr>) s))"

definition restoreBufferedTSO :: "fed_name \<Rightarrow> handle \<Rightarrow> bufferedTSOEvent list \<Rightarrow> manager \<Rightarrow> manager" where
  "restoreBufferedTSO fed h events s =
     (if events = [] then s
      else let ns = getOrCreateNs s fed h in putNs fed h (ns\<lparr>tsoBuffer := events @ tsoBuffer ns\<rparr>) s)"

definition restoreBufferedMessages :: "fed_name \<Rightarrow> handle \<Rightarrow> bufferedTSOEvent list \<Rightarrow> manager \<Rightarrow> manager" where
  "restoreBufferedMessages fed h events s =
     (let ro = filter receiveOrder events;
          tso = filter (\<lambda>b. \<not> receiveOrder b) events;
          s = (if ro \<noteq> [] then let ns = getOrCreateNs s fed h in putNs fed h (ns\<lparr>roBuffer := ro @ roBuffer ns\<rparr>) s else s)
      in restoreBufferedTSO fed h tso s)"

section \<open>Delivery\<close>

definition recordOrderedDelivery :: "fed_name \<Rightarrow> handle \<Rightarrow> bufferedTSOEvent \<Rightarrow> manager \<Rightarrow> manager" where
  "recordOrderedDelivery fed h b s =
     (if receiveOrder b \<or> internalTSO (bevent b) then s
      else case (getFs s fed h, getNs s fed h) of
        (Some fs, Some ns) \<Rightarrow>
          if \<not> constrained fs \<or> (pendingNER ns \<and> mode ns = ModeFQR) then s
          else if (case receivedTSOTime fs of None \<Rightarrow> True | Some r \<Rightarrow> timestamp b > r)
          then putFs fed h (fs\<lparr>receivedTSOTime := Some (timestamp b)\<rparr>) s else s
      | _ \<Rightarrow> s)"

definition recordFlushDelivery :: "fed_name \<Rightarrow> handle \<Rightarrow> bufferedTSOEvent \<Rightarrow> manager \<Rightarrow> manager" where
  "recordFlushDelivery fed h b s =
     (if receiveOrder b \<or> internalTSO (bevent b) then s
      else let s = recordOrderedDelivery fed h b s in
        case getNs s fed h of
          None \<Rightarrow> s
        | Some ns \<Rightarrow>
            if \<not> pendingNER ns \<or> (mode ns \<noteq> ModeFQR \<and> \<not> usesNextMessageTarget (mode ns)) then s
            else if (case flushMinimum ns of None \<Rightarrow> True | Some m \<Rightarrow> timestamp b < m)
            then putNs fed h (ns\<lparr>flushMinimum := Some (timestamp b)\<rparr>) s else s)"

definition recordRetraction :: "fed_name \<Rightarrow> MessageDelivery list \<Rightarrow> manager \<Rightarrow> manager" where
  "recordRetraction fed ds s = s\<lparr>retractions := RecordRetractionDeliveries fed ds (retractions s)\<rparr>"

definition recordBufferedRetractionDeliveries :: "fed_name \<Rightarrow> handle \<Rightarrow> bufferedTSOEvent list \<Rightarrow> manager \<Rightarrow> manager" where
  "recordBufferedRetractionDeliveries fed h release s =
     recordRetraction fed
       (map (\<lambda>b. \<lparr>dRecipient = h, dTimestamp = timestamp b, dEvent = bevent b, dSender = sender b,
                 dRetractionHandle = retractionHandle b, dReceiveOrder = False\<rparr>)
         (filter (\<lambda>b. \<not> (receiveOrder b \<or> retractionHandle b = 0 \<or> internalTSO (bevent b))) release)) s"

text \<open>Admission of one message: reserve and commit, or a plain send.\<close>

definition admitEvent :: "env \<Rightarrow> fed_name \<Rightarrow> handle \<Rightarrow> event \<Rightarrow> manager \<Rightarrow> time_error option \<times> manager" where
  "admitEvent E fed h e s =
     (if eReservable E
      then case Outbox_Reserve E fed [(h, e)] s of
             (Some err, s) \<Rightarrow> (Some err, s)
           | (None, s) \<Rightarrow> Outbox_Commit E fed [(h, e)] s
      else Outbox_Send E fed h e s)"

definition deliverBufferedEvent :: "env \<Rightarrow> fed_name \<Rightarrow> handle \<Rightarrow> bufferedTSOEvent \<Rightarrow> manager \<Rightarrow> time_error option \<times> manager" where
  "deliverBufferedEvent E fed h b s =
     (case queuedMessage E fed h b s of
        (None, s) \<Rightarrow> (None, s)
      | (Some e, s) \<Rightarrow>
          (case (if internalTSO (bevent b) then (None, s) else admitEvent E fed h e s) of
             (Some err, s) \<Rightarrow> (Some err, s)
           | (None, s) \<Rightarrow>
               let s = recordRetraction fed
                 [\<lparr>dRecipient = h, dTimestamp = timestamp b, dEvent = e, dSender = sender b,
                   dRetractionHandle = retractionHandle b, dReceiveOrder = receiveOrder b\<rparr>] s
               in (None, recordFlushDelivery fed h b s)))"

fun deliverBufferedSequence ::
  "env \<Rightarrow> fed_name \<Rightarrow> handle \<Rightarrow> bufferedTSOEvent list \<Rightarrow> manager \<Rightarrow> time_error option \<times> manager" where
  "deliverBufferedSequence E fed h [] s = (None, s)"
| "deliverBufferedSequence E fed h (b # release) s =
     (case deliverBufferedEvent E fed h b s of
        (Some err, s) \<Rightarrow> (Some err, restoreBufferedMessages fed h (b # release) s)
      | (None, s) \<Rightarrow> deliverBufferedSequence E fed h release s)"

text \<open>
  The deliveries of a batch: the messages that pass the subscription filter; those of
  \<open>reserveTimeCallback\<close> and \<open>drainReservedTSO\<close> skip internal messages.
\<close>

fun queuedDeliveries :: "bool \<Rightarrow> env \<Rightarrow> fed_name \<Rightarrow> handle \<Rightarrow> bufferedTSOEvent list \<Rightarrow> manager \<Rightarrow> (handle \<times> event) list \<times> manager" where
  "queuedDeliveries skip E fed h [] s = ([], s)"
| "queuedDeliveries skip E fed h (b # bs) s =
     (if skip \<and> internalTSO (bevent b) then queuedDeliveries skip E fed h bs s
      else case queuedMessage E fed h b s of (r, s) \<Rightarrow>
        (case queuedDeliveries skip E fed h bs s of (ds, s) \<Rightarrow>
          ((case r of Some e \<Rightarrow> (h, e) # ds | None \<Rightarrow> ds), s)))"

definition reserveBufferedDeliveries :: "env \<Rightarrow> fed_name \<Rightarrow> (handle \<times> event) list \<Rightarrow> manager \<Rightarrow> time_error option \<times> manager" where
  "reserveBufferedDeliveries E fed ds s = (if ds = [] then (None, s) else Outbox_Reserve E fed ds s)"

definition commitDeliveries :: "env \<Rightarrow> fed_name \<Rightarrow> (handle \<times> event) list \<Rightarrow> manager \<Rightarrow> time_error option \<times> manager" where
  "commitDeliveries E fed ds s = (if ds = [] then (None, s) else Outbox_Commit E fed ds s)"

definition drainReservedRO :: "env \<Rightarrow> fed_name \<Rightarrow> handle \<Rightarrow> bufferedTSOEvent list \<Rightarrow> manager \<Rightarrow> time_error option \<times> manager" where
  "drainReservedRO E fed h release s =
     (case queuedDeliveries False E fed h release s of (ds, s) \<Rightarrow>
       if ds = [] then (None, s)
       else case Outbox_Reserve E fed ds s of
         (Some ErrFederateOverflow, s) \<Rightarrow> deliverBufferedSequence E fed h release s
       | (Some err, s) \<Rightarrow> (Some err, restoreBufferedMessages fed h release s)
       | (None, s) \<Rightarrow>
           (case Outbox_Commit E fed ds s of
              (Some err, s) \<Rightarrow> (Some err, restoreBufferedMessages fed h release s)
            | (None, s) \<Rightarrow> (None, s)))"

fun sendROs :: "env \<Rightarrow> fed_name \<Rightarrow> handle \<Rightarrow> bufferedTSOEvent list \<Rightarrow> manager \<Rightarrow> time_error option \<times> manager" where
  "sendROs E fed h [] s = (None, s)"
| "sendROs E fed h (b # bs) s =
     (case queuedMessage E fed h b s of
        (None, s) \<Rightarrow> sendROs E fed h bs s
      | (Some e, s) \<Rightarrow>
          (case Outbox_Send E fed h e s of
             (Some err, s) \<Rightarrow> (Some err, restoreBufferedMessages fed h (b # bs) s)
           | (None, s) \<Rightarrow> sendROs E fed h bs s))"

definition drainBufferedRO :: "env \<Rightarrow> fed_name \<Rightarrow> handle \<Rightarrow> manager \<Rightarrow> time_error option \<times> manager" where
  "drainBufferedRO E fed h s =
     (case takeBufferedRO fed h s of (release, s) \<Rightarrow>
       if release = [] then (None, s)
       else if eReservable E then drainReservedRO E fed h release s
       else sendROs E fed h release s)"

definition drainReservedTSO :: "env \<Rightarrow> fed_name \<Rightarrow> handle \<Rightarrow> bufferedTSOEvent list \<Rightarrow> manager \<Rightarrow> time_error option \<times> manager" where
  "drainReservedTSO E fed h release s =
     (case queuedDeliveries True E fed h release s of (ds, s) \<Rightarrow>
       (case reserveBufferedDeliveries E fed ds s of
          (Some ErrFederateOverflow, s) \<Rightarrow> deliverBufferedSequence E fed h release s
        | (Some err, s) \<Rightarrow> (Some err, restoreBufferedMessages fed h release s)
        | (None, s) \<Rightarrow>
            (case commitDeliveries E fed ds s of
               (Some err, s) \<Rightarrow> (Some err, restoreBufferedMessages fed h release s)
             | (None, s) \<Rightarrow> (None, recordBufferedRetractionDeliveries fed h release s))))"

text \<open>
  On a plain outbox the loop of \<open>drainAllBufferedTSO\<close> sets the received order of each message
  just before it is delivered; a message it restores keeps the order it was taken with.
\<close>

fun drainPlainTSO :: "env \<Rightarrow> fed_name \<Rightarrow> handle \<Rightarrow> bufferedTSOEvent list \<Rightarrow> manager \<Rightarrow> time_error option \<times> manager" where
  "drainPlainTSO E fed h [] s = (None, s)"
| "drainPlainTSO E fed h (b # bs) s =
     (let b' = b\<lparr>bevent := setReceivedOrder OrderReceive (bevent b)\<rparr> in
      case deliverBufferedEvent E fed h b' s of
        (Some err, s) \<Rightarrow> (Some err, restoreBufferedMessages fed h (b' # bs) s)
      | (None, s) \<Rightarrow> drainPlainTSO E fed h bs s)"

definition drainAllBufferedTSO :: "env \<Rightarrow> fed_name \<Rightarrow> handle \<Rightarrow> manager \<Rightarrow> time_error option \<times> manager" where
  "drainAllBufferedTSO E fed h s =
     (if isConstrained s fed h then (None, s)
      else let bound = (case map_of (scheduledSaves s) fed of Some b \<Rightarrow> Some (target b) | None \<Rightarrow> None) in
        case takeBufferedRO fed h s of (ro, s) \<Rightarrow>
        (case takeBufferedTSO fed h bound False s of (tso, s) \<Rightarrow>
          let release = ro @ tso in
          if release = [] then (None, s)
          else if eReservable E then drainReservedTSO E fed h release s
          else drainPlainTSO E fed h release s))"

fun releaseTSOs :: "env \<Rightarrow> fed_name \<Rightarrow> handle \<Rightarrow> bufferedTSOEvent list \<Rightarrow> manager \<Rightarrow> time_error option \<times> manager" where
  "releaseTSOs E fed h [] s = (None, s)"
| "releaseTSOs E fed h (b # release) s =
     (case deliverBufferedEvent E fed h b s of
        (Some err, s) \<Rightarrow> (Some err, restoreBufferedTSO fed h (b # release) s)
      | (None, s) \<Rightarrow> releaseTSOs E fed h release s)"

definition releaseBufferedTSO :: "env \<Rightarrow> fed_name \<Rightarrow> handle \<Rightarrow> int \<Rightarrow> manager \<Rightarrow> time_error option \<times> manager" where
  "releaseBufferedTSO E fed h t s =
     (case takeBufferedTSO fed h (Some t) True s of (release, s) \<Rightarrow> releaseTSOs E fed h release s)"

end
