(* ===== verification/Relaxation.thy ===== *)
theory Relaxation
  imports Main
begin

text \<open>
  In-place relaxation of bounds along monotone, non-decreasing transfer functions.  A pass
  visits the nodes in order and lowers each to what its transfer function makes of the least
  bound of the others.  The section shows that \<open>n\<close> passes over \<open>n\<close> nodes reach a fixpoint: after \<open>k\<close>
  passes the \<open>k\<close> least nodes are settled, as in a shortest-path computation.
\<close>

definition others_min :: "nat \<Rightarrow> int \<Rightarrow> (nat \<Rightarrow> int) \<Rightarrow> nat \<Rightarrow> int" where
  "others_min n lim b i = Min (insert lim (b ` ({..<n} - {i})))"

definition relax1 :: "nat \<Rightarrow> int \<Rightarrow> (nat \<Rightarrow> int \<Rightarrow> int) \<Rightarrow> nat \<Rightarrow> (nat \<Rightarrow> int) \<Rightarrow> nat \<Rightarrow> int" where
  "relax1 n lim F i b = b(i := min (b i) (F i (others_min n lim b i)))"

definition relax_all :: "nat \<Rightarrow> int \<Rightarrow> (nat \<Rightarrow> int \<Rightarrow> int) \<Rightarrow> (nat \<Rightarrow> int) \<Rightarrow> nat \<Rightarrow> int" where
  "relax_all n lim F b = fold (relax1 n lim F) [0..<n] b"

text \<open>The nodes of \<open>S\<close> are least and no transfer from a node of \<open>S\<close> lowers any node.\<close>

definition settled :: "nat \<Rightarrow> (nat \<Rightarrow> int \<Rightarrow> int) \<Rightarrow> nat set \<Rightarrow> (nat \<Rightarrow> int) \<Rightarrow> bool" where
  "settled n F S b \<longleftrightarrow> S \<subseteq> {..<n} \<and> (\<forall>i\<in>S. \<forall>j<n. j \<notin> S \<longrightarrow> b i \<le> b j) \<and>
     (\<forall>i<n. \<forall>j\<in>S. i \<noteq> j \<longrightarrow> b i \<le> F i (b j))"

lemma settledD:
  assumes "settled n F S b"
  shows "S \<subseteq> {..<n}" "i \<in> S \<Longrightarrow> j < n \<Longrightarrow> j \<notin> S \<Longrightarrow> b i \<le> b j"
    "i < n \<Longrightarrow> j \<in> S \<Longrightarrow> i \<noteq> j \<Longrightarrow> b i \<le> F i (b j)"
  using assms by (auto simp: settled_def)

lemma settledI:
  assumes "S \<subseteq> {..<n}" "\<And>i j. i \<in> S \<Longrightarrow> j < n \<Longrightarrow> j \<notin> S \<Longrightarrow> b i \<le> b j"
    "\<And>i j. i < n \<Longrightarrow> j \<in> S \<Longrightarrow> i \<noteq> j \<Longrightarrow> b i \<le> F i (b j)"
  shows "settled n F S b"
  using assms by (auto simp: settled_def)

lemma others_min_cases:
  "others_min n lim b i = lim \<or> (\<exists>j<n. j \<noteq> i \<and> others_min n lim b i = b j)"
proof -
  have "others_min n lim b i \<in> insert lim (b ` ({..<n} - {i}))"
    unfolding others_min_def by (rule Min_in) auto
  then show ?thesis by auto
qed

lemma others_min_le: "j < n \<Longrightarrow> j \<noteq> i \<Longrightarrow> others_min n lim b i \<le> b j"
  unfolding others_min_def by (rule Min_le) auto

lemma others_min_top: "others_min n lim b i \<le> lim"
  unfolding others_min_def by (rule Min_le) auto

lemma relax_all_le: "relax_all n lim F b j \<le> b j"
proof -
  have "fold (relax1 n lim F) is b j \<le> b j" for "is"
  proof (induction "is" arbitrary: b)
    case (Cons i "is")
    have "relax1 n lim F i b j \<le> b j" by (simp add: relax1_def)
    with Cons show ?case by (auto intro: order_trans)
  qed simp
  then show ?thesis by (simp add: relax_all_def)
qed

locale relaxation =
  fixes F :: "nat \<Rightarrow> int \<Rightarrow> int" and lim :: int
  assumes extensive: "x \<le> lim \<Longrightarrow> x \<le> F i x"
    and monotone: "x \<le> y \<Longrightarrow> y \<le> lim \<Longrightarrow> F i x \<le> F i y"
begin

lemma transfer_ge:
  assumes "v \<le> lim" and "\<And>j. j < n \<Longrightarrow> j \<noteq> i \<Longrightarrow> v \<le> F i (b j)"
  shows "v \<le> F i (others_min n lim b i)"
  using others_min_cases [of n lim b i] extensive [of lim i] assms by force

lemma relax1_ge:
  assumes "x \<le> lim" and "\<forall>j<n. x \<le> b j"
  shows "\<forall>j<n. x \<le> relax1 n lim F i b j"
proof -
  have "x \<le> others_min n lim b i" using assms others_min_cases [of n lim b i] by auto
  then have "x \<le> F i (others_min n lim b i)"
    using extensive [OF others_min_top [of n lim b i], of i] by simp
  then show ?thesis using assms(2) by (simp add: relax1_def)
qed

lemma relax_all_ge:
  assumes "x \<le> lim" and "\<forall>j<n. x \<le> b j"
  shows "\<forall>j<n. x \<le> relax_all n lim F b j"
proof -
  have "\<forall>j<n. x \<le> fold (relax1 n lim F) is b j" for "is"
    using assms(2) by (induction "is" arbitrary: b) (simp_all add: relax1_ge [OF assms(1)])
  then show ?thesis by (simp add: relax_all_def)
qed

lemma settled_relax_fixed:
  assumes "settled n F {..<n} b" and "\<forall>j<n. b j \<le> lim" and "i < n"
  shows "relax1 n lim F i b = b"
proof -
  have "b i \<le> F i (others_min n lim b i)"
    by (rule transfer_ge) (use assms settledD(3) [OF assms(1)] in auto)
  then show ?thesis by (simp add: relax1_def min_absorb1)
qed

lemma fixed_settled:
  assumes "\<forall>i<n. relax1 n lim F i b = b" and "\<forall>j<n. b j \<le> lim"
  shows "settled n F {..<n} b"
proof (rule settledI)
  fix i j assume ij: "i < n" "j \<in> {..<n}" "i \<noteq> j"
  from assms(1) ij have "b i \<le> F i (others_min n lim b i)"
    by (metis fun_upd_same min.cobounded2 relax1_def)
  also have "\<dots> \<le> F i (b j)"
    using ij assms(2) by (intro monotone others_min_le) auto
  finally show "b i \<le> F i (b j)" .
qed auto

text \<open>What a pass maintains while the set grows by a least outside node \<open>m\<close>.\<close>

lemma pass_prefix:
  assumes "settled n F S b" and m: "m < n" "m \<notin> S" "\<forall>j<n. j \<notin> S \<longrightarrow> b m \<le> b j"
    and lim: "\<forall>j<n. b j \<le> lim" and "k \<le> n"
  defines "c \<equiv> fold (relax1 n lim F) [0..<k] b"
  shows "(\<forall>i\<in>insert m S. c i = b i) \<and> (\<forall>j<n. j \<notin> insert m S \<longrightarrow> b m \<le> c j) \<and> (\<forall>j<n. c j \<le> b j) \<and>
    (\<forall>i<k. i \<notin> insert m S \<longrightarrow> (\<forall>j\<in>insert m S. c i \<le> F i (b j)))"
  using assms(6) unfolding c_def
proof (induction k)
  case (Suc k)
  let ?c = "fold (relax1 n lim F) [0..<k] b"
  let ?S = "insert m S"
  note s = settledD [OF assms(1)]
  have IH: "\<And>i. i \<in> ?S \<Longrightarrow> ?c i = b i" "\<And>j. j < n \<Longrightarrow> j \<notin> ?S \<Longrightarrow> b m \<le> ?c j" "\<And>j. j < n \<Longrightarrow> ?c j \<le> b j"
    "\<And>i j. i < k \<Longrightarrow> i \<notin> ?S \<Longrightarrow> j \<in> ?S \<Longrightarrow> ?c i \<le> F i (b j)"
    using Suc by auto
  have k: "k < n" using Suc.prems by simp
  have c_top: "?c j \<le> lim" if "j < n" for j using IH(3) [OF that] lim that by fastforce
  have below_m: "b i \<le> b m" if "i \<in> ?S" for i using that s(2) m by auto
  let ?v = "min (?c k) (F k (others_min n lim ?c k))"
  have step: "fold (relax1 n lim F) [0..<Suc k] b = ?c(k := ?v)" by (simp add: relax1_def)
  have inside: "?v = b k" if "k \<in> ?S"
  proof -
    have "b k \<le> F k (?c j)" if j: "j < n" "j \<noteq> k" for j
    proof (cases "j \<in> S")
      case True then show ?thesis using s(3) [OF k, of j] IH(1) j by auto
    next
      case False
      then have "b m \<le> ?c j" using IH(1) IH(2) j by (cases "j = m") auto
      then show ?thesis using below_m [OF \<open>k \<in> ?S\<close>] extensive [OF c_top [OF j(1)], of k] by linarith
    qed
    then have "b k \<le> F k (others_min n lim ?c k)" using lim k by (intro transfer_ge) auto
    then show ?thesis using IH(1) that by simp
  qed
  have outside: "b m \<le> ?v \<and> (\<forall>j\<in>?S. ?v \<le> F k (b j))" if "k \<notin> ?S"
  proof
    have "b m \<le> F k (?c j)" if j: "j < n" "j \<noteq> k" for j
    proof (cases "j \<in> S")
      case True
      then have "b k \<le> F k (?c j)" using s(3) [OF k, of j] IH(1) j by auto
      moreover have "b m \<le> b k" using m(3) k \<open>k \<notin> ?S\<close> by auto
      ultimately show ?thesis by linarith
    next
      case False
      then have "b m \<le> ?c j" using IH(1) IH(2) j by (cases "j = m") auto
      then show ?thesis using extensive [OF c_top [OF j(1)], of k] by linarith
    qed
    then have "b m \<le> F k (others_min n lim ?c k)" using lim m by (intro transfer_ge) auto
    then show "b m \<le> ?v" using IH(2) k that by auto
    show "\<forall>j\<in>?S. ?v \<le> F k (b j)"
    proof
      fix j assume j: "j \<in> ?S"
      then have jn: "j < n" "j \<noteq> k" using s(1) m that by auto
      then have "F k (others_min n lim ?c k) \<le> F k (?c j)"
        using c_top by (intro monotone others_min_le) auto
      then show "?v \<le> F k (b j)" using IH(1) j by auto
    qed
  qed
  have "?v \<le> b k" using IH(3) k by (simp add: min.coboundedI1)
  with inside outside IH show ?case unfolding step by (auto simp: less_Suc_eq)
qed (use assms in auto)

lemma pass_settles:
  assumes "settled n F S b" and m: "m < n" "m \<notin> S" "\<forall>j<n. j \<notin> S \<longrightarrow> b m \<le> b j" and lim: "\<forall>j<n. b j \<le> lim"
  shows "settled n F (insert m S) (relax_all n lim F b)"
proof (rule settledI)
  let ?c = "relax_all n lim F b"
  note s = settledD [OF assms(1)]
  have P: "\<And>i. i \<in> insert m S \<Longrightarrow> ?c i = b i" "\<And>j. j < n \<Longrightarrow> j \<notin> insert m S \<Longrightarrow> b m \<le> ?c j"
    "\<And>i j. i < n \<Longrightarrow> i \<notin> insert m S \<Longrightarrow> j \<in> insert m S \<Longrightarrow> ?c i \<le> F i (b j)"
    using pass_prefix [OF assms, of n] by (auto simp: relax_all_def)
  show "insert m S \<subseteq> {..<n}" using s(1) m by auto
  have below_m: "b i \<le> b m" if "i \<in> insert m S" for i using that s(2) m by auto
  show "?c i \<le> ?c j" if "i \<in> insert m S" "j < n" "j \<notin> insert m S" for i j
    using P(1) P(2) below_m that by fastforce
  show "?c i \<le> F i (?c j)" if "i < n" "j \<in> insert m S" "i \<noteq> j" for i j
  proof (cases "i \<in> insert m S")
    case True
    have "b i \<le> F i (b j)"
    proof (cases "j \<in> S")
      case False
      then show ?thesis using that below_m [OF True] extensive [of "b m" i] lim m by force
    qed (use s(3) that in auto)
    then show ?thesis using P(1) True that by simp
  qed (use P that in auto)
qed

lemma relax_all_top: "\<forall>j<n. b j \<le> lim \<Longrightarrow> \<forall>j<n. relax_all n lim F b j \<le> lim"
proof -
  have "\<forall>j<n. b j \<le> lim \<Longrightarrow> \<forall>j<n. fold (relax1 n lim F) is b j \<le> lim" for "is"
    by (induction "is" arbitrary: b) (auto simp: relax1_def min.coboundedI1)
  then show "\<forall>j<n. b j \<le> lim \<Longrightarrow> \<forall>j<n. relax_all n lim F b j \<le> lim" by (simp add: relax_all_def)
qed

lemma passes_settle:
  assumes "\<forall>j<n. b j \<le> lim" and "k \<le> n"
  shows "\<exists>S. card S = k \<and> settled n F S ((relax_all n lim F ^^ k) b) \<and> (\<forall>j<n. (relax_all n lim F ^^ k) b j \<le> lim)"
  using assms(2)
proof (induction k)
  case 0
  then show ?case using assms(1) by (intro exI [of _ "{}"]) (auto simp: settled_def)
next
  case (Suc k)
  let ?b = "(relax_all n lim F ^^ k) b"
  from Suc obtain S where S: "card S = k" "settled n F S ?b" and lim: "\<forall>j<n. ?b j \<le> lim" by auto
  note fin = finite_subset [OF settledD(1) [OF S(2)]]
  have "{..<n} - S \<noteq> {}"
    using Suc.prems S(1) card_mono [of S "{..<n}"] fin by (metis Diff_eq_empty_iff Suc_n_not_le_n card_lessThan finite_lessThan le_trans)
  then obtain m where m: "m \<in> {..<n} - S" "\<forall>j\<in>{..<n} - S. ?b m \<le> ?b j"
    using ex_min_if_finite [of "?b ` ({..<n} - S)"] by (fastforce simp: not_less)
  have "settled n F (insert m S) (relax_all n lim F ?b)"
    using m by (intro pass_settles [OF S(2) _ _ _ lim]) auto
  moreover have "card (insert m S) = Suc k" using m S(1) fin by auto
  ultimately show ?case using relax_all_top [OF lim] by (metis comp_apply funpow.simps(2))
qed

lemma passes_fixpoint:
  assumes "\<forall>j<n. b j \<le> lim"
  shows "settled n F {..<n} ((relax_all n lim F ^^ n) b)"
proof -
  obtain S where "card S = n" "settled n F S ((relax_all n lim F ^^ n) b)"
    using passes_settle [OF assms, of n] by auto
  moreover from this have "S = {..<n}" using settledD(1) card_subset_eq [of "{..<n}" S] by simp
  ultimately show ?thesis by simp
qed

end

end
