(* ===== verification/Time_GALT.thy ===== *)
theory Time_GALT
  imports Time_Laws Relaxation
begin

text \<open>
  The propagation of flush horizons (\<open>propagateFlushHorizons\<close> in \<open>galt.go\<close>) as an instance of
  relaxation, and the greatest available logical time it yields.
\<close>

section \<open>The transfer function of a peer\<close>

definition flush_eligible :: "availableRegulator \<Rightarrow> bool" where
  "flush_eligible p = (case arNs p of None \<Rightarrow> False
     | Some ns \<Rightarrow> constrained (arFs p) \<and> pendingNER ns \<and> mode ns = ModeFQR)"

definition peer_wf :: "availableRegulator \<Rightarrow> bool" where
  "peer_wf p \<longleftrightarrow> pair_wf (arFs p) (arNs p) \<and> bound_wf (arBound p)"

definition flush_transfer :: "availableRegulator \<Rightarrow> int \<Rightarrow> int" where
  "flush_transfer p x =
     (if pair_wf (arFs p) (arNs p) \<and> flush_eligible p \<and> x \<le> MaxTime \<and> x < requestedTime (the (arNs p))
      then bval (availableHorizonAfterGrant (arFs p) (the (arNs p)) x) else MaxTime + 1)"

lemma flush_transfer_eligible:
  assumes "pair_wf (arFs p) (arNs p)" and "flush_eligible p" and "x \<le> MaxTime" and "x < requestedTime (the (arNs p))"
  shows "flush_transfer p x = min (grant_floor (arFs p) (the (arNs p)) x) (MaxTime + 1)"
  using assms by (auto simp: flush_transfer_def flush_eligible_def availableHorizonAfterGrant_bval split: option.splits)

interpretation flush: relaxation "\<lambda>i. flush_transfer (peers ! i)" "MaxTime + 1" for peers :: "availableRegulator list"
proof
  fix x i assume "x \<le> MaxTime + 1"
  then show "x \<le> flush_transfer (peers ! i) x"
    using grant_floor_ge [of "arFs (peers ! i)" "the (arNs (peers ! i))" x] flush_transfer_eligible [of "peers ! i" x]
    by (auto simp: flush_transfer_def flush_eligible_def split: option.splits if_splits)
next
  fix x y i assume "x \<le> y" "y \<le> MaxTime + 1"
  then show "flush_transfer (peers ! i) x \<le> flush_transfer (peers ! i) y"
    using grant_floor_mono [of "arFs (peers ! i)" "the (arNs (peers ! i))" x y]
    by (auto simp: flush_transfer_def flush_eligible_def availableHorizonAfterGrant_bval split: option.splits)
qed

section \<open>The passes of the code are relaxation passes\<close>

definition bnd :: "availableRegulator list \<Rightarrow> nat \<Rightarrow> int" where
  "bnd peers j = (if j < length peers then bval (arBound (peers ! j)) else 0)"

definition skeleton :: "availableRegulator list \<Rightarrow> (handle \<times> federateState \<times> nerState option) list" where
  "skeleton peers = map (\<lambda>p. (arHandle p, arFs p, arNs p)) peers"

definition peers_wf :: "availableRegulator list \<Rightarrow> bool" where
  "peers_wf peers \<longleftrightarrow> (\<forall>p \<in> set peers. peer_wf p)"

abbreviation flush_F :: "availableRegulator list \<Rightarrow> nat \<Rightarrow> int \<Rightarrow> int" where
  "flush_F peers \<equiv> (\<lambda>i. flush_transfer (peers ! i))"

lemma skeleton_length: "skeleton ps = skeleton qs \<Longrightarrow> length ps = length qs"
  by (metis length_map skeleton_def)

lemma skeleton_nth:
  assumes "skeleton ps = skeleton qs" and "i < length ps"
  shows "arHandle (ps ! i) = arHandle (qs ! i)" "arFs (ps ! i) = arFs (qs ! i)" "arNs (ps ! i) = arNs (qs ! i)"
proof -
  let ?f = "\<lambda>p. (arHandle p, arFs p, arNs p)"
  have "map ?f ps ! i = map ?f qs ! i" "i < length qs"
    using assms skeleton_length [OF assms(1)] by (simp_all only: skeleton_def)
  then have "?f (ps ! i) = ?f (qs ! i)" using assms(2) by (simp only: nth_map)
  then show "arHandle (ps ! i) = arHandle (qs ! i)" "arFs (ps ! i) = arFs (qs ! i)" "arNs (ps ! i) = arNs (qs ! i)"
    by (simp_all only: prod.inject)
qed

lemma flush_transfer_skeleton:
  "skeleton ps = skeleton qs \<Longrightarrow> i < length ps \<Longrightarrow> flush_transfer (ps ! i) x = flush_transfer (qs ! i) x"
  using skeleton_nth [of ps qs i] by (auto simp: flush_transfer_def flush_eligible_def split: option.split)

lemma peers_wf_nth: "peers_wf ps \<Longrightarrow> i < length ps \<Longrightarrow> peer_wf (ps ! i)"
  by (simp add: peers_wf_def)

lemma bnd_top: "peers_wf ps \<Longrightarrow> \<forall>j<length ps. bnd ps j \<le> MaxTime + 1"
  using bval_le by (auto simp: bnd_def peers_wf_def peer_wf_def)

lemma Min_insert_min: "finite X \<Longrightarrow> Min (insert (min a b) X) = Min (insert (a :: int) (insert b X))"
  by (cases "X = {}") (simp_all add: min.assoc)

lemma incoming_fold:
  assumes "peers_wf ps" and "set js \<subseteq> {..<length ps}" and "bound_wf acc"
  shows "bound_wf (foldl (\<lambda>b j. if i \<noteq> j then minimumHorizon b (arBound (ps ! j)) else b) acc js) \<and>
    bval (foldl (\<lambda>b j. if i \<noteq> j then minimumHorizon b (arBound (ps ! j)) else b) acc js) =
      Min (insert (bval acc) (bnd ps ` (set js - {i})))"
  using assms(2,3)
proof (induction js arbitrary: acc)
  case (Cons j js)
  then have wf: "bound_wf (arBound (ps ! j))" and b: "bnd ps j = bval (arBound (ps ! j))"
    using peers_wf_nth [OF assms(1), of j] by (auto simp: peer_wf_def bnd_def)
  show ?case
  proof (cases "i = j")
    case False
    then have "bnd ps ` (set (j # js) - {i}) = insert (bnd ps j) (bnd ps ` (set js - {i}))" by auto
    then have "Min (insert (min (bval acc) (bnd ps j)) (bnd ps ` (set js - {i}))) =
        Min (insert (bval acc) (bnd ps ` (set (j # js) - {i})))"
      using Min_insert_min [of "bnd ps ` (set js - {i})"] by simp
    with Cons wf b False show ?thesis by simp
  qed (use Cons in simp)
qed simp

lemma incoming_bval:
  assumes "peers_wf ps"
  shows "bound_wf (incoming ps i)" "bval (incoming ps i) = others_min (length ps) (MaxTime + 1) (bnd ps) i"
  using incoming_fold [OF assms, of "[0..<length ps]" unboundedHorizon i]
  by (simp_all add: incoming_def others_min_def atLeast0LessThan)

lemma peers_eqI:
  assumes "peers_wf ps" "peers_wf qs" "skeleton ps = skeleton qs" "bnd ps = bnd qs"
  shows "ps = qs"
proof (rule nth_equalityI)
  show len: "length ps = length qs" using assms(3) by (rule skeleton_length)
  fix i assume i: "i < length ps"
  then have "bval (arBound (ps ! i)) = bval (arBound (qs ! i))"
    using fun_cong [OF assms(4), of i] len by (simp add: bnd_def)
  then have "arBound (ps ! i) = arBound (qs ! i)"
    using peers_wf_nth [OF assms(1) i] peers_wf_nth [OF assms(2), of i] i len bval_inject by (auto simp: peer_wf_def)
  then show "ps ! i = qs ! i" using skeleton_nth [OF assms(3) i] by simp
qed

lemma relax_peer_spec:
  assumes wf: "peers_wf ps" and i: "i < length ps" and r: "relax_peer i (ps, c) = (qs, d)"
  shows "peers_wf qs \<and> skeleton qs = skeleton ps \<and>
    bnd qs = relax1 (length ps) (MaxTime + 1) (flush_F ps) i (bnd ps) \<and> (d \<longleftrightarrow> c \<or> qs \<noteq> ps)"
proof -
  let ?p = "ps ! i"
  have pw: "pair_wf (arFs ?p) (arNs ?p)" "bound_wf (arBound ?p)" using peers_wf_nth [OF wf i] by (auto simp: peer_wf_def)
  note inc = incoming_bval [OF wf, of i]
  define x where "x = others_min (length ps) (MaxTime + 1) (bnd ps) i"
  have idle: ?thesis if q: "qs = ps" "d = c" and le: "bval (arBound ?p) \<le> flush_transfer ?p x"
  proof -
    have "min (bnd ps i) (flush_transfer ?p x) = bnd ps i" using le i by (simp add: bnd_def)
    then have "relax1 (length ps) (MaxTime + 1) (flush_F ps) i (bnd ps) = bnd ps"
      unfolding relax1_def x_def by simp
    with q wf show ?thesis by metis
  qed
  show ?thesis
  proof (cases "flush_eligible ?p \<and> \<not> Unbounded (incoming ps i) \<and> Limit (incoming ps i) < requestedTime (the (arNs ?p))")
    case False
    then have "flush_transfer ?p x = MaxTime + 1"
    proof -
      have "\<not> Unbounded (incoming ps i) \<and> Limit (incoming ps i) = x" if "x \<le> MaxTime"
        using that inc(2) by (simp add: x_def [symmetric] bval_def split: if_splits)
      then have "\<not> (pair_wf (arFs ?p) (arNs ?p) \<and> flush_eligible ?p \<and> x \<le> MaxTime \<and> x < requestedTime (the (arNs ?p)))"
        using False by metis
      then show ?thesis unfolding flush_transfer_def by (rule if_not_P)
    qed
    moreover have "qs = ps" "d = c"
      using False r by (auto simp: relax_peer_def flush_eligible_def Let_def split: option.splits if_splits)
    ultimately show ?thesis using idle bval_le [OF pw(2)] by simp
  next
    case True
    then obtain ns where ns: "arNs ?p = Some ns" by (auto simp: flush_eligible_def split: option.splits)
    let ?h = "availableHorizonAfterGrant (arFs ?p) ns (Limit (incoming ps i))"
    have x: "x = Limit (incoming ps i)" "x \<le> MaxTime"
      using True inc by (auto simp: x_def [symmetric] bval_def bound_wf_def in_range_def)
    have ft: "flush_transfer ?p x = bval ?h" using True pw x ns by (simp add: flush_transfer_def)
    have wfh: "bound_wf ?h"
      using True pw ns by (intro availableHorizonAfterGrant_bval) (auto simp: flush_eligible_def)
    show ?thesis
    proof (cases "bval ?h < bval (arBound ?p)")
      case lower: True
      then have cond: "\<not> Unbounded ?h \<and> (Unbounded (arBound ?p) \<or> Limit ?h < Limit (arBound ?p))"
        using wfh pw(2) by (auto simp: bval_def bound_wf_def in_range_def split: if_splits)
      then have q: "qs = ps[i := ?p\<lparr>arBound := ?h\<rparr>]" "d"
        using True r ns by (auto simp: relax_peer_def flush_eligible_def Let_def)
      have "peers_wf qs" unfolding q peers_wf_def
        using wf wfh pw ns by (auto simp: peers_wf_def peer_wf_def dest!: set_update_subset_insert [THEN subsetD])
      moreover have "skeleton qs = skeleton ps"
        unfolding q skeleton_def using i by (auto simp: map_update intro!: nth_equalityI simp: nth_list_update)
      moreover have "bnd qs = relax1 (length ps) (MaxTime + 1) (flush_F ps) i (bnd ps)"
        unfolding q relax1_def x_def [symmetric] ft using i lower
        by (auto simp: bnd_def fun_eq_iff nth_list_update min_absorb2)
      moreover have "qs \<noteq> ps" using q i lower by (metis availableRegulator.select_convs(4) availableRegulator.surjective availableRegulator.update_convs(4) less_irrefl nth_list_update_eq)
      ultimately show ?thesis using q by simp
    next
      case False
      then have cond: "\<not> (\<not> Unbounded ?h \<and> (Unbounded (arBound ?p) \<or> Limit ?h < Limit (arBound ?p)))"
        using wfh pw(2) by (auto simp: bval_def bound_wf_def in_range_def split: if_splits)
      have "qs = ps" "d = c"
        using cond True r ns by (auto simp: relax_peer_def flush_eligible_def Let_def)
      then show ?thesis using False ft by (intro idle) auto
    qed
  qed
qed

lemma flush_F_skeleton:
  assumes "skeleton qs = skeleton ps" and "i < length ps"
  shows "relax1 (length qs) (MaxTime + 1) (flush_F qs) i = relax1 (length ps) (MaxTime + 1) (flush_F ps) i"
proof
  fix b
  show "relax1 (length qs) (MaxTime + 1) (flush_F qs) i b = relax1 (length ps) (MaxTime + 1) (flush_F ps) i b"
    using flush_transfer_skeleton [of qs ps i] skeleton_length [of qs ps] assms by (simp add: relax1_def)
qed

lemma fold_F_skeleton:
  assumes "skeleton qs = skeleton ps" and "set is \<subseteq> {..<length ps}"
  shows "fold (relax1 (length qs) (MaxTime + 1) (flush_F qs)) is b =
    fold (relax1 (length ps) (MaxTime + 1) (flush_F ps)) is b"
  by (rule fold_cong [OF refl refl]) (use assms flush_F_skeleton in blast)

lemma relax_fold_spec:
  assumes "peers_wf ps" and "set is \<subseteq> {..<length ps}" and "fold relax_peer is (ps, c) = (qs, d)"
  shows "peers_wf qs \<and> skeleton qs = skeleton ps \<and>
    bnd qs = fold (relax1 (length ps) (MaxTime + 1) (flush_F ps)) is (bnd ps) \<and>
    (\<not> d \<longrightarrow> \<not> c \<and> qs = ps \<and> (\<forall>i\<in>set is. relax1 (length ps) (MaxTime + 1) (flush_F ps) i (bnd ps) = bnd ps))"
  using assms
proof (induction "is" arbitrary: ps c)
  case (Cons i "is")
  obtain rs e where r: "relax_peer i (ps, c) = (rs, e)" by (cases "relax_peer i (ps, c)")
  have i: "i < length ps" using Cons.prems(2) by simp
  note s = relax_peer_spec [OF Cons.prems(1) i r]
  have len: "length rs = length ps" using s skeleton_length by blast
  have rest: "fold relax_peer is (rs, e) = (qs, d)" using Cons.prems(3) r by simp
  have sub: "set is \<subseteq> {..<length rs}" using Cons.prems(2) len by simp
  have IH: "peers_wf qs" "skeleton qs = skeleton rs"
    "bnd qs = fold (relax1 (length rs) (MaxTime + 1) (flush_F rs)) is (bnd rs)"
    "\<not> d \<Longrightarrow> \<not> e \<and> qs = rs \<and> (\<forall>i\<in>set is. relax1 (length rs) (MaxTime + 1) (flush_F rs) i (bnd rs) = bnd rs)"
    using Cons.IH [OF _ sub rest] s by blast+
  have sk: "skeleton rs = skeleton ps" using s by blast
  have "set is \<subseteq> {..<length ps}" using Cons.prems(2) by simp
  from fold_F_skeleton [OF sk this]
  have "bnd qs = fold (relax1 (length ps) (MaxTime + 1) (flush_F ps)) (i # is) (bnd ps)"
    using IH(3) s by simp
  moreover have "\<not> c \<and> qs = ps \<and> (\<forall>i\<in>set (i # is). relax1 (length ps) (MaxTime + 1) (flush_F ps) i (bnd ps) = bnd ps)"
    if "\<not> d"
  proof -
    from IH(4) [OF that] s have "\<not> c" "rs = ps" "qs = ps" by blast+
    then show ?thesis using IH(4) [OF that] s by simp
  qed
  ultimately show ?case using IH(1,2) s by simp
qed simp

lemma relax_pass_spec:
  assumes "peers_wf ps" and "relax_pass ps = (qs, d)"
  shows "peers_wf qs" "skeleton qs = skeleton ps"
    "bnd qs = relax_all (length ps) (MaxTime + 1) (flush_F ps) (bnd ps)"
    "\<not> d \<Longrightarrow> qs = ps \<and> settled (length ps) (flush_F ps) {..<length ps} (bnd ps)"
proof -
  have f: "fold relax_peer [0..<length ps] (ps, False) = (qs, d)" using assms(2) by (simp add: relax_pass_def)
  have sub: "set [0..<length ps] \<subseteq> {..<length ps}" by auto
  note s = relax_fold_spec [OF assms(1) sub f]
  show "peers_wf qs" "skeleton qs = skeleton ps" using s by blast+
  show "bnd qs = relax_all (length ps) (MaxTime + 1) (flush_F ps) (bnd ps)" using s unfolding relax_all_def by blast
  show "qs = ps \<and> settled (length ps) (flush_F ps) {..<length ps} (bnd ps)" if "\<not> d"
  proof -
    have "\<forall>i<length ps. relax1 (length ps) (MaxTime + 1) (flush_F ps) i (bnd ps) = bnd ps" using s that by auto
    then show ?thesis using s that flush.fixed_settled [OF _ bnd_top [OF assms(1)]] by blast
  qed
qed

lemma relax_all_skeleton:
  assumes "skeleton qs = skeleton ps"
  shows "relax_all (length qs) (MaxTime + 1) (flush_F qs) b = relax_all (length ps) (MaxTime + 1) (flush_F ps) b"
  using fold_F_skeleton [OF assms, of "[0..<length ps]"] skeleton_length [OF assms]
  unfolding relax_all_def by fastforce

text \<open>A settled list is left alone by a further pass.\<close>

lemma settled_pass:
  assumes "peers_wf ps" and "settled (length ps) (flush_F ps) {..<length ps} (bnd ps)"
  shows "relax_pass ps = (ps, False)"
proof -
  have "set is \<subseteq> {..<length ps} \<Longrightarrow> fold relax_peer is (ps, False) = (ps, False)" for "is"
  proof (induction "is")
    case (Cons i "is")
    obtain rs e where r: "relax_peer i (ps, False) = (rs, e)" by (cases "relax_peer i (ps, False)")
    have i: "i < length ps" using Cons.prems by simp
    note s = relax_peer_spec [OF assms(1) i r]
    have "bnd rs = bnd ps" using s flush.settled_relax_fixed [OF assms(2) bnd_top [OF assms(1)] i] by simp
    then have "rs = ps"
      using s assms(1) by (intro peers_eqI) auto
    then show ?case using Cons s r by auto
  qed simp
  from this [of "[0..<length ps]"] show ?thesis by (simp add: relax_pass_def atLeast0LessThan)
qed

lemma relax_passes_spec:
  assumes "peers_wf ps"
  shows "peers_wf (relax_passes k ps) \<and> skeleton (relax_passes k ps) = skeleton ps \<and>
    (bnd (relax_passes k ps) = (relax_all (length ps) (MaxTime + 1) (flush_F ps) ^^ k) (bnd ps) \<or>
     settled (length ps) (flush_F ps) {..<length ps} (bnd (relax_passes k ps)))"
  using assms
proof (induction k arbitrary: ps)
  case (Suc k)
  obtain qs d where p: "relax_pass ps = (qs, d)" by (cases "relax_pass ps")
  note s = relax_pass_spec [OF Suc.prems p]
  show ?case
  proof (cases d)
    case False
    then show ?thesis using p s(4) Suc.prems by simp
  next
    case True
    then have e: "relax_passes (Suc k) ps = relax_passes k qs" using p by simp
    have len: "length qs = length ps" using skeleton_length [OF s(2)] .
    have F: "relax_all (length qs) (MaxTime + 1) (flush_F qs) = relax_all (length ps) (MaxTime + 1) (flush_F ps)"
      using relax_all_skeleton [OF s(2)] by blast
    have S: "settled (length qs) (flush_F qs) {..<length qs} b = settled (length ps) (flush_F ps) {..<length ps} b" for b
      using flush_transfer_skeleton [OF s(2)] len unfolding settled_def by simp
    from Suc.IH [OF s(1)] show ?thesis
      unfolding e F S s(3) funpow_Suc_right comp_apply using s(2) by metis
  qed
qed simp

lemma propagate_settled:
  assumes "peers_wf ps"
  shows "settled (length ps) (flush_F ps) {..<length ps} (bnd (propagateFlushHorizons ps))"
  using relax_passes_spec [OF assms, of "length ps"] flush.passes_fixpoint [OF bnd_top [OF assms]]
  unfolding propagateFlushHorizons_def by metis

lemma propagate_wf:
  "peers_wf ps \<Longrightarrow> peers_wf (propagateFlushHorizons ps)"
  "peers_wf ps \<Longrightarrow> skeleton (propagateFlushHorizons ps) = skeleton ps"
  using relax_passes_spec [of ps "length ps"] unfolding propagateFlushHorizons_def by blast+

lemma relax_passes_le: "peers_wf ps \<Longrightarrow> bnd (relax_passes k ps) j \<le> bnd ps j"
proof (induction k arbitrary: ps)
  case (Suc k)
  obtain qs d where p: "relax_pass ps = (qs, d)" by (cases "relax_pass ps")
  note s = relax_pass_spec [OF Suc.prems p]
  have "bnd qs j \<le> bnd ps j" unfolding s(3) by (rule relax_all_le)
  with Suc.IH [OF s(1)] p show ?case by (auto intro: order_trans)
qed simp

lemma propagate_le: "peers_wf ps \<Longrightarrow> bnd (propagateFlushHorizons ps) j \<le> bnd ps j"
  unfolding propagateFlushHorizons_def by (rule relax_passes_le)

lemma relax_passes_ge:
  "peers_wf ps \<Longrightarrow> x \<le> MaxTime + 1 \<Longrightarrow> \<forall>j<length ps. x \<le> bnd ps j \<Longrightarrow> \<forall>j<length ps. x \<le> bnd (relax_passes k ps) j"
proof (induction k arbitrary: ps)
  case (Suc k)
  obtain qs d where p: "relax_pass ps = (qs, d)" by (cases "relax_pass ps")
  note s = relax_pass_spec [OF Suc.prems(1) p]
  have q: "\<forall>j<length qs. x \<le> bnd qs j"
    unfolding s(3) using flush.relax_all_ge [OF Suc.prems(2,3)] skeleton_length [OF s(2)] by simp
  show ?case using Suc.IH [OF s(1) Suc.prems(2) q] q p skeleton_length [OF s(2)] by auto
qed simp

lemma propagate_ge:
  "peers_wf ps \<Longrightarrow> x \<le> MaxTime + 1 \<Longrightarrow> \<forall>j<length ps. x \<le> bnd ps j \<Longrightarrow>
   \<forall>j<length ps. x \<le> bnd (propagateFlushHorizons ps) j"
  unfolding propagateFlushHorizons_def by (rule relax_passes_ge)

section \<open>The available horizon\<close>

lemma lower_by_queue_fold:
  assumes "fs_wf fs (currentTime ns)" "ns_wf ns" "pendingNER ns" "bound_wf b"
  shows "bound_wf (foldl (lower_by_queue fs ns) b items) \<and> bval (foldl (lower_by_queue fs ns) b items) \<le> bval b"
  using assms(4)
proof (induction items arbitrary: b)
  case (Cons item items)
  have "bound_wf (lower_by_queue fs ns b item) \<and> bval (lower_by_queue fs ns b item) \<le> bval b"
    using Cons.prems availableHorizonAfterGrant_bval(1) [OF assms(1-3)] by (simp add: lower_by_queue_def)
  then show ?case using Cons.IH [of "lower_by_queue fs ns b item"] by auto
qed simp

lemma snapshot_bound:
  assumes "pair_wf fs ns"
  shows "bound_wf (arBound (availableRegulatorSnapshot h fs ns)) \<and>
    bval (arBound (availableRegulatorSnapshot h fs ns)) \<le> bval (availableSendHorizon fs ns)"
proof (cases ns)
  case None
  then show ?thesis using availableSendHorizon_wf [OF assms] by (simp add: availableRegulatorSnapshot_def Let_def)
next
  case (Some n)
  let ?s = "availableSendHorizon fs (Some n)"
  define b where "b = (case flushMinimum n of
      Some fm \<Rightarrow> minimumHorizon ?s (availableHorizonAfterGrant fs n fm) | None \<Rightarrow> ?s)"
  have e: "arBound (availableRegulatorSnapshot h fs (Some n)) =
      (if constrained fs \<and> pendingNER n \<and> (usesNextMessageTarget (mode n) \<or> mode n = ModeFQR)
       then foldl (lower_by_queue fs n) b (tsoBuffer n) else ?s)"
    by (auto simp: availableRegulatorSnapshot_def b_def Let_def)
  have wf: "fs_wf fs (currentTime n)" "ns_wf n" "bound_wf ?s"
    using assms Some availableSendHorizon_wf [OF assms] by simp_all
  have b: "bound_wf b \<and> bval b \<le> bval ?s" if "pendingNER n"
    using wf availableHorizonAfterGrant_bval(1) [OF wf(1,2) that] by (simp add: b_def split: option.split)
  show ?thesis
  proof (cases "constrained fs \<and> pendingNER n \<and> (usesNextMessageTarget (mode n) \<or> mode n = ModeFQR)")
    case True
    then show ?thesis unfolding Some e
      using b lower_by_queue_fold [OF wf(1,2), of b "tsoBuffer n"] by (auto intro: order_trans)
  qed (use e wf Some in auto)
qed

lemma snapshot_wf:
  assumes "pair_wf fs ns"
  shows "peer_wf (availableRegulatorSnapshot h fs ns)"
    and "bval (arBound (availableRegulatorSnapshot h fs ns)) \<le> send_floor fs ns"
proof -
  have "arFs (availableRegulatorSnapshot h fs ns) = fs" "arNs (availableRegulatorSnapshot h fs ns) = ns"
    by (simp_all add: availableRegulatorSnapshot_def Let_def)
  then show "peer_wf (availableRegulatorSnapshot h fs ns)" using snapshot_bound [OF assms] assms by (simp add: peer_wf_def)
  show "bval (arBound (availableRegulatorSnapshot h fs ns)) \<le> send_floor fs ns"
    using snapshot_bound [OF assms, of h] bval_availableSendHorizon [OF assms] by simp
qed

lemma least_peer_fold:
  assumes "\<forall>p \<in> set ps. bound_wf (arBound p)" and "\<forall>r. acc = Some r \<longrightarrow> bound_wf r"
  shows "(case foldl (least_peer self) acc ps of
      None \<Rightarrow> acc = None \<and> (\<forall>p \<in> set ps. arHandle p = self)
    | Some r \<Rightarrow> bound_wf r \<and> (\<forall>p \<in> set ps. arHandle p \<noteq> self \<longrightarrow> bval r \<le> bval (arBound p)) \<and>
        (\<forall>a. acc = Some a \<longrightarrow> bval r \<le> bval a) \<and>
        (acc = Some r \<or> (\<exists>p \<in> set ps. arHandle p \<noteq> self \<and> r = arBound p)))"
  using assms
proof (induction ps arbitrary: acc)
  case (Cons p ps)
  let ?acc = "least_peer self acc p"
  have acc: "\<forall>r. ?acc = Some r \<longrightarrow> bound_wf r"
    using Cons.prems by (auto simp: least_peer_def split: if_splits)
  have le: "bval r \<le> bval (arBound p)" if "?acc = Some r" "arHandle p \<noteq> self" for r
    using that Cons.prems by (auto simp: least_peer_def bval_def bound_wf_def in_range_def split: if_splits option.splits)
  have le_acc: "bval r \<le> bval a" if "?acc = Some r" "acc = Some a" for r a
    using that Cons.prems by (auto simp: least_peer_def bval_def bound_wf_def in_range_def split: if_splits)
  have some: "?acc = Some r \<Longrightarrow> acc = Some r \<or> arHandle p \<noteq> self \<and> r = arBound p" for r
    by (auto simp: least_peer_def split: if_splits)
  have none: "?acc = None \<Longrightarrow> acc = None \<and> arHandle p = self"
    by (auto simp: least_peer_def split: if_splits option.splits)
  have wf: "\<forall>p \<in> set ps. bound_wf (arBound p)" using Cons.prems(1) by simp
  note IH = Cons.IH [OF wf acc]
  show ?case
  proof (cases "foldl (least_peer self) ?acc ps")
    case None
    with IH none show ?thesis by simp
  next
    case (Some r)
    then have R: "bound_wf r" "\<forall>p \<in> set ps. arHandle p \<noteq> self \<longrightarrow> bval r \<le> bval (arBound p)"
      "\<And>a. ?acc = Some a \<Longrightarrow> bval r \<le> bval a" "?acc = Some r \<or> (\<exists>p \<in> set ps. arHandle p \<noteq> self \<and> r = arBound p)"
      using IH by auto
    have "bval r \<le> bval (arBound p)" if "arHandle p \<noteq> self"
      using that R(3) le none by (cases ?acc) (auto intro: order_trans)
    moreover have "bval r \<le> bval a" if "acc = Some a" for a
      using that R(3) le_acc none by (cases ?acc) (auto intro: order_trans)
    moreover have "acc = Some r \<or> (\<exists>p \<in> set (p # ps). arHandle p \<noteq> self \<and> r = arBound p)"
      using R(4) some by auto
    ultimately show ?thesis using Some R(1,2) by simp
  qed
qed (auto split: option.splits)

abbreviation snapshots :: "(handle \<times> federateState \<times> nerState option) list \<Rightarrow> availableRegulator list" where
  "snapshots regs \<equiv> map (\<lambda>(h, fs, ns). availableRegulatorSnapshot h fs ns) regs"

lemma snapshots_wf: "\<forall>(h, fs, ns) \<in> set regs. pair_wf fs ns \<Longrightarrow> peers_wf (snapshots regs)"
  using snapshot_wf(1) by (fastforce simp: peers_wf_def)

lemma availableHorizon_None:
  assumes "\<forall>(h, fs, ns) \<in> set regs. pair_wf fs ns"
  shows "availableHorizon regs self = None \<longleftrightarrow> (\<forall>(h, fs, ns) \<in> set regs. h = self)"
proof -
  let ?ps = "propagateFlushHorizons (snapshots regs)"
  note wf = snapshots_wf [OF assms]
  have "map arHandle ?ps = map arHandle (snapshots regs)"
    using arg_cong [OF propagate_wf(2) [OF wf], of "map fst"] by (simp add: skeleton_def comp_def)
  also have "\<dots> = map fst regs"
    by (auto simp: availableRegulatorSnapshot_def Let_def)
  finally have H: "arHandle ` set ?ps = fst ` set regs" by (metis list.set_map)
  have bw: "\<forall>p \<in> set ?ps. bound_wf (arBound p)" using propagate_wf(1) [OF wf] by (auto simp: peers_wf_def peer_wf_def)
  have "availableHorizon regs self = None \<longleftrightarrow> (\<forall>p \<in> set ?ps. arHandle p = self)"
    using least_peer_fold [of ?ps None self, OF bw] unfolding availableHorizon_def
    by (cases "foldl (least_peer self) None ?ps") auto
  also have "\<dots> \<longleftrightarrow> (\<forall>h \<in> arHandle ` set ?ps. h = self)" by blast
  finally show ?thesis unfolding H by auto
qed

lemma availableHorizon_snapshot:
  assumes "\<forall>(h, fs, ns) \<in> set regs. pair_wf fs ns" and "availableHorizon regs self = Some b"
  shows "bound_wf b"
    and "(h, fs, ns) \<in> set regs \<Longrightarrow> h \<noteq> self \<Longrightarrow> bval b \<le> bval (arBound (availableRegulatorSnapshot h fs ns))"
    and "x \<le> MaxTime + 1 \<Longrightarrow> \<forall>(h, fs, ns) \<in> set regs. x \<le> bval (arBound (availableRegulatorSnapshot h fs ns)) \<Longrightarrow> x \<le> bval b"
proof -
  let ?ps = "propagateFlushHorizons (snapshots regs)"
  note wf = snapshots_wf [OF assms(1)]
  have bw: "\<forall>p \<in> set ?ps. bound_wf (arBound p)" using propagate_wf(1) [OF wf] by (auto simp: peers_wf_def peer_wf_def)
  note L = least_peer_fold [of ?ps None self, OF bw]
  have least: "bound_wf b" "\<forall>p \<in> set ?ps. arHandle p \<noteq> self \<longrightarrow> bval b \<le> bval (arBound p)"
    "\<exists>p \<in> set ?ps. arHandle p \<noteq> self \<and> b = arBound p"
    using L assms(2) unfolding availableHorizon_def by simp_all
  have sk: "skeleton ?ps = skeleton (snapshots regs)" and len: "length ?ps = length regs"
    using propagate_wf(2) [OF wf] skeleton_length [OF propagate_wf(2) [OF wf]] by auto
  show "bound_wf b" by (rule least(1))
  show "x \<le> bval b" if x: "x \<le> MaxTime + 1"
    "\<forall>(h, fs, ns) \<in> set regs. x \<le> bval (arBound (availableRegulatorSnapshot h fs ns))"
  proof -
    have "\<forall>j<length (snapshots regs). x \<le> bnd (snapshots regs) j"
      using x(2) by (auto simp: bnd_def all_set_conv_all_nth split: prod.splits)
    from propagate_ge [OF wf x(1) this] have "\<forall>j<length ?ps. x \<le> bval (arBound (?ps ! j))"
      using len by (simp add: bnd_def)
    then show ?thesis using least(3) by (metis in_set_conv_nth)
  qed
  assume m: "(h, fs, ns) \<in> set regs" "h \<noteq> self"
  then obtain i where i: "i < length regs" "regs ! i = (h, fs, ns)" by (auto simp: in_set_conv_nth)
  have si: "snapshots regs ! i = availableRegulatorSnapshot h fs ns" using i by simp
  have "arHandle (?ps ! i) = arHandle (snapshots regs ! i)" by (rule skeleton_nth(1) [OF sk]) (simp add: len i(1))
  then have hi: "arHandle (?ps ! i) = h" unfolding si by (simp add: availableRegulatorSnapshot_def Let_def)
  have "bval b \<le> bval (arBound (?ps ! i))"
    using least(2) hi m(2) i(1) len by (metis nth_mem)
  also have "\<dots> = bnd ?ps i" using i len by (simp add: bnd_def)
  also have "\<dots> \<le> bnd (snapshots regs) i" by (rule propagate_le [OF wf])
  also have "\<dots> = bval (arBound (availableRegulatorSnapshot h fs ns))" using i(1) si unfolding bnd_def by auto
  finally show "bval b \<le> bval (arBound (availableRegulatorSnapshot h fs ns))" .
qed

lemma availableHorizon_Some:
  assumes "\<forall>(h, fs, ns) \<in> set regs. pair_wf fs ns" and "availableHorizon regs self = Some b"
  shows "bound_wf b" and "(h, fs, ns) \<in> set regs \<Longrightarrow> h \<noteq> self \<Longrightarrow> bval b \<le> send_floor fs ns"
  using availableHorizon_snapshot(1,2) [OF assms] snapshot_wf(2) assms(1) by (blast, fastforce intro: order_trans)

section \<open>Properties\<close>

text \<open>
  C23.  The propagation of flush horizons reaches its fixpoint within the bounded number of
  passes the code runs: one more pass over its result changes no bound, whatever cycle of
  flush requests the peers form.
\<close>

theorem propagateFlushHorizons_fixpoint:
  assumes "peers_wf ps"
  shows "relax_pass (propagateFlushHorizons ps) = (propagateFlushHorizons ps, False)"
proof (rule settled_pass)
  let ?qs = "propagateFlushHorizons ps"
  show wf: "peers_wf ?qs" by (rule propagate_wf(1) [OF assms])
  have sk: "skeleton ?qs = skeleton ps" by (rule propagate_wf(2) [OF assms])
  show "settled (length ?qs) (flush_F ?qs) {..<length ?qs} (bnd ?qs)"
    using propagate_settled [OF assms] flush_transfer_skeleton [OF sk] skeleton_length [OF sk]
    unfolding settled_def by simp
qed

text \<open>Two federates that flush and wait for each other, and one regulating federate.\<close>

definition flushing_peers :: "availableRegulator list" where
  "flushing_peers = (let ns = new_nerState\<lparr>pendingNER := True, mode := ModeFQR, requestedTime := 50\<rparr>;
      fs = new_federateState\<lparr>regulating := True, constrained := True\<rparr> in
     [\<lparr>arHandle = 1, arFs = fs\<lparr>lookahead := 3\<rparr>, arNs = Some ns, arBound = \<lparr>Limit = 53, Unbounded = False\<rparr>\<rparr>,
      \<lparr>arHandle = 2, arFs = fs\<lparr>lookahead := 4\<rparr>, arNs = Some ns, arBound = \<lparr>Limit = 54, Unbounded = False\<rparr>\<rparr>,
      \<lparr>arHandle = 3, arFs = fs\<lparr>lookahead := 7, constrained := False\<rparr>, arNs = None, arBound = \<lparr>Limit = 7, Unbounded = False\<rparr>\<rparr>])"

theorem propagateFlushHorizons_fixpoint_witness:
  "peers_wf flushing_peers \<and> relax_pass (propagateFlushHorizons flushing_peers) = (propagateFlushHorizons flushing_peers, False)"
proof -
  have "peers_wf flushing_peers" by code_simp
  then show ?thesis using propagateFlushHorizons_fixpoint by blast
qed

end
