(* ===== verification/Time_Grant.thy ===== *)
theory Time_Grant
  imports Time_Queue Time_GALT
begin

text \<open>
  The grant evaluator of the time manager: \<open>reserveTimeCallback\<close>, \<open>emitGrant\<close> and its commit,
  the completion of pending enables (\<open>enable.go\<close>), the flush of pending FQR requests
  (\<open>flush.go\<close>), the delivery of a next-message group (\<open>next_message_filter.go\<close>), the grant
  decision for a candidate and the fixed-point loop \<open>tryGrantPending\<close> of \<open>ner.go\<close>.
\<close>

section \<open>Emitting a grant\<close>

definition reserveTimeCallback ::
  "env \<Rightarrow> fed_name \<Rightarrow> handle \<Rightarrow> bufferedTSOEvent list \<Rightarrow> event \<Rightarrow> manager \<Rightarrow>
   (time_error + (handle \<times> event) list \<times> bufferedTSOEvent list) \<times> manager" where
  "reserveTimeCallback E fed h release callback s =
     (case queuedDeliveries True E fed h release s of (ds, s) \<Rightarrow>
       let ds = ds @ [(h, callback)] in
       case reserveBufferedDeliveries E fed ds s of
         (Some ErrFederateOverflow, s) \<Rightarrow>
           (case deliverBufferedSequence E fed h release s of
              (Some err, s) \<Rightarrow> (Inl err, s)
            | (None, s) \<Rightarrow>
                (case Outbox_Reserve E fed [(h, callback)] s of
                   (Some err, s) \<Rightarrow> (Inl err, s)
                 | (None, s) \<Rightarrow> (Inr ([(h, callback)], []), s)))
       | (Some err, s) \<Rightarrow> (Inl err, restoreBufferedMessages fed h release s)
       | (None, s) \<Rightarrow> (Inr (ds, release), s))"

text \<open>The transition of the records at a grant, and its completion once the grant is visible.\<close>

definition grantFs :: "nerState \<Rightarrow> int \<Rightarrow> federateState \<Rightarrow> federateState" where
  "grantFs ns t fs = advanceLookahead (recordReceivedGrant (mode ns) t fs) t"

definition grantNs :: "int \<Rightarrow> bool \<Rightarrow> nerState \<Rightarrow> nerState" where
  "grantNs t clearPending ns =
     (let ns = (recordGrantBound ns t)\<lparr>currentTime := t\<rparr>
      in if clearPending
         then ns\<lparr>pendingNER := False, requestedTime := 0, mode := ModeNone, pendingSince := None, flushMinimum := None\<rparr>
         else ns)"

definition applyGrant :: "fed_name \<Rightarrow> handle \<Rightarrow> int \<Rightarrow> bool \<Rightarrow> manager \<Rightarrow> manager" where
  "applyGrant fed h t clearPending s =
     (let ns = getOrCreateNs s fed h;
          s = (case getFs s fed h of Some fs \<Rightarrow> putFs fed h (grantFs ns t fs) s | None \<Rightarrow> s)
      in putNs fed h (grantNs t clearPending ns) s)"

text \<open>
  The records are changed before the callback is admitted and restored when it is not; the
  locks are held in between, so the model admits the callback first.
\<close>

definition commitReservedGrant ::
  "env \<Rightarrow> fed_name \<Rightarrow> handle \<Rightarrow> int \<Rightarrow> bool \<Rightarrow> (handle \<times> event) list \<Rightarrow> bufferedTSOEvent list \<Rightarrow> manager \<Rightarrow>
   time_error option \<times> manager" where
  "commitReservedGrant E fed h t clearPending ds release s =
     (let s = putNs fed h (getOrCreateNs s fed h) s in
      case Outbox_Commit E fed ds s of
        (Some err, s) \<Rightarrow> (Some err, restoreBufferedMessages fed h release s)
      | (None, s) \<Rightarrow>
          (None, recordBufferedRetractionDeliveries fed h release (applyGrant fed h t clearPending s)))"

definition sendUnreservedGrant ::
  "env \<Rightarrow> fed_name \<Rightarrow> handle \<Rightarrow> int \<Rightarrow> bool \<Rightarrow> bufferedTSOEvent list \<Rightarrow> manager \<Rightarrow> time_error option \<times> manager" where
  "sendUnreservedGrant E fed h t clearPending release s =
     (case deliverBufferedSequence E fed h release s of
        (Some err, s) \<Rightarrow> (Some err, s)
      | (None, s) \<Rightarrow>
          (let s = putNs fed h (getOrCreateNs s fed h) s in
           case Outbox_Send E fed h (TimeAdvanceGrant t) s of
             (Some err, s) \<Rightarrow> (Some err, s)
           | (None, s) \<Rightarrow> (None, applyGrant fed h t clearPending s)))"

definition takeGrantMessages :: "fed_name \<Rightarrow> handle \<Rightarrow> int \<Rightarrow> manager \<Rightarrow> bufferedTSOEvent list \<times> manager" where
  "takeGrantMessages fed h t s =
     (let flushing = (case getNs s fed h of Some ns \<Rightarrow> mode ns = ModeFQR | None \<Rightarrow> False) in
      case (if flushing then takeBufferedTSOThrough fed h None True (Some t) s
            else takeBufferedTSO fed h (Some t) True s) of (tso, s) \<Rightarrow>
      (case takeBufferedRO fed h s of (ro, s) \<Rightarrow> (ro @ tso, s)))"

definition emitGrant :: "env \<Rightarrow> fed_name \<Rightarrow> handle \<Rightarrow> int \<Rightarrow> bool \<Rightarrow> manager \<Rightarrow> time_error option \<times> manager" where
  "emitGrant E fed h t clearPending s =
     (case takeGrantMessages fed h t s of (release, s) \<Rightarrow>
       if eReservable E then
         (case reserveTimeCallback E fed h release (TimeAdvanceGrant t) s of
            (Inl err, s) \<Rightarrow> (Some err, s)
          | (Inr (ds, release), s) \<Rightarrow>
              (case EventLog_Append E fed (TimeAdvanceGrantedRecord h t) s of
                 (Some err, s) \<Rightarrow> (Some err, restoreBufferedMessages fed h release s)
               | (None, s) \<Rightarrow> commitReservedGrant E fed h t clearPending ds release s))
       else
         (case EventLog_Append E fed (TimeAdvanceGrantedRecord h t) s of
            (Some err, s) \<Rightarrow> (Some err, restoreBufferedMessages fed h release s)
          | (None, s) \<Rightarrow> sendUnreservedGrant E fed h t clearPending release s))"

section \<open>Snapshots of a federation\<close>

definition fedKeys :: "fed_name \<Rightarrow> (key \<times> 'v) list \<Rightarrow> handle list" where
  "fedKeys fed m = remdups (map snd (filter (\<lambda>k. fst k = fed) (map fst m)))"

definition regulators :: "manager \<Rightarrow> fed_name \<Rightarrow> (handle \<times> federateState \<times> nerState option) list" where
  "regulators s fed =
     map (\<lambda>h. (h, the (getFs s fed h), getNs s fed h))
       (filter (\<lambda>h. regulating (the (getFs s fed h))) (fedKeys fed (states s)))"

definition regulatingSnapshot :: "manager \<Rightarrow> fed_name \<Rightarrow> RegulatingFederate list" where
  "regulatingSnapshot s fed =
     map (\<lambda>(h, fs, ns). regulatingBoundSnapshot h fs ns) (sort_key fst (regulators s fed))"

definition availableHorizonOf :: "manager \<Rightarrow> fed_name \<Rightarrow> handle \<Rightarrow> TimeBound option" where
  "availableHorizonOf s fed self = availableHorizon (regulators s fed) self"

section \<open>Pending enables\<close>

fun regulationEnableLoop :: "manager \<Rightarrow> fed_name \<Rightarrow> handle \<Rightarrow> int \<Rightarrow> int \<Rightarrow> handle list \<Rightarrow> int option" where
  "regulationEnableLoop s fed h tgt la [] = Some tgt"
| "regulationEnableLoop s fed h tgt la (k # ks) =
     (case (getFs s fed k, getNs s fed k) of
        (Some peer, Some other) \<Rightarrow>
          if k = h \<or> \<not> constrained peer then regulationEnableLoop s fed h tgt la ks
          else let frontier = (case receivedTSOTime peer of Some r \<Rightarrow> max (currentTime other) r | None \<Rightarrow> currentTime other);
                   exclusive = (preservedReceiveTime peer = Some frontier)
               in (case minimumEnableTime tgt la frontier exclusive of
                     None \<Rightarrow> None
                   | Some tgt \<Rightarrow> regulationEnableLoop s fed h tgt la ks)
      | _ \<Rightarrow> regulationEnableLoop s fed h tgt la ks)"

definition regulationEnableTime :: "manager \<Rightarrow> fed_name \<Rightarrow> handle \<Rightarrow> int \<Rightarrow> int \<Rightarrow> int option" where
  "regulationEnableTime s fed h tgt la = regulationEnableLoop s fed h tgt la (fedKeys fed (states s))"

definition enableTargetState :: "manager \<Rightarrow> fed_name \<Rightarrow> handle \<Rightarrow> bool \<Rightarrow> int option" where
  "enableTargetState s fed h regulation =
     (case (getFs s fed h, getNs s fed h) of
        (Some fs, Some ns) \<Rightarrow>
          if (regulation \<and> \<not> regulationPending fs) \<or> (\<not> regulation \<and> \<not> constrainedPending fs) then None
          else
            let tgt = currentTime ns;
                tgt' = (if regulation then
                    let tgt = (case receivedTSOTime fs of Some r \<Rightarrow> if constrained fs then max tgt r else tgt | None \<Rightarrow> tgt)
                    in regulationEnableTime s fed h tgt (regulationLookahead fs)
                  else Some tgt)
            in (case tgt' of
                  None \<Rightarrow> None
                | Some tgt \<Rightarrow>
                    if constrained fs \<or> \<not> regulation then
                      (case availableHorizonOf s fed h of
                         Some galt \<Rightarrow> if \<not> horizonBeyond galt tgt False then None else Some tgt
                       | None \<Rightarrow> Some tgt)
                    else Some tgt)
      | _ \<Rightarrow> None)"

definition enableTarget :: "manager \<Rightarrow> fed_name \<Rightarrow> handle \<Rightarrow> bool \<Rightarrow> int option" where
  "enableTarget s fed h regulation =
     (case enableTargetState s fed h regulation of
        None \<Rightarrow> None
      | Some tgt \<Rightarrow>
          (case map_of (scheduledSaves s) fed of
             None \<Rightarrow> Some tgt
           | Some save \<Rightarrow>
               if scheduledRecipientPaused s fed h \<or> (regulation \<and> isConstrained s fed h \<and> tgt > target save)
               then None else Some tgt))"

definition takeEnableMessages :: "fed_name \<Rightarrow> handle \<Rightarrow> bool \<Rightarrow> int \<Rightarrow> manager \<Rightarrow> bufferedTSOEvent list \<times> manager" where
  "takeEnableMessages fed h regulation tm s =
     (if regulation \<and> \<not> isConstrained s fed h then ([], s)
      else let ns = getOrCreateNs s fed h;
               ro = roBuffer ns;
               s = putNs fed h (ns\<lparr>roBuffer := []\<rparr>) s;
               limit = (if \<not> regulation then predecessor tm else tm)
           in case takeBufferedTSO fed h (Some limit) regulation s of (tso, s) \<Rightarrow> (ro @ tso, s))"

definition enableFs :: "bool \<Rightarrow> int \<Rightarrow> federateState \<Rightarrow> federateState" where
  "enableFs regulation tm fs =
     (if regulation
      then let fs = recordReceivedGrant ModeTARA tm fs in
        fs\<lparr>regulating := True, lookahead := regulationLookahead fs, regulationPending := False, regulationLookahead := 0,
           reducingLookahead := False, lookaheadTarget := 0, lookaheadOriginTime := 0, lookaheadOriginValue := 0\<rparr>
      else fs\<lparr>constrained := True, constrainedPending := False, preservedReceiveTime := None, receivedTSOTime := None\<rparr>)"

definition enableNs :: "bool \<Rightarrow> int \<Rightarrow> nerState \<Rightarrow> nerState" where
  "enableNs regulation tm ns =
     (let ns = ns\<lparr>currentTime := tm\<rparr> in if regulation then ns\<lparr>strictZeroLookahead := False\<rparr> else ns)"

definition applyEnable :: "fed_name \<Rightarrow> handle \<Rightarrow> bool \<Rightarrow> int \<Rightarrow> manager \<Rightarrow> manager" where
  "applyEnable fed h regulation tm s =
     (case (getFs s fed h, getNs s fed h) of
        (Some fs, Some ns) \<Rightarrow> putNs fed h (enableNs regulation tm ns) (putFs fed h (enableFs regulation tm fs) s)
      | _ \<Rightarrow> s)"

definition emitEnable :: "env \<Rightarrow> fed_name \<Rightarrow> handle \<Rightarrow> bool \<Rightarrow> int \<Rightarrow> manager \<Rightarrow> time_error option \<times> manager" where
  "emitEnable E fed h regulation tm s =
     (case takeEnableMessages fed h regulation tm s of (release, s) \<Rightarrow>
       let callback = (if regulation then TimeRegulationEnabled tm else TimeConstrainedEnabled tm) in
       if eReservable E then
         (case reserveTimeCallback E fed h release callback s of
            (Inl err, s) \<Rightarrow> (Some err, s)
          | (Inr (ds, release), s) \<Rightarrow>
              (case Outbox_Commit E fed ds s of
                 (Some err, s) \<Rightarrow> (Some err, restoreBufferedMessages fed h release s)
               | (None, s) \<Rightarrow>
                   (None, recordBufferedRetractionDeliveries fed h release (applyEnable fed h regulation tm s))))
       else
         (case deliverBufferedSequence E fed h release s of
            (Some err, s) \<Rightarrow> (Some err, s)
          | (None, s) \<Rightarrow>
              (case Outbox_Send E fed h callback s of
                 (Some err, s) \<Rightarrow> (Some err, s)
               | (None, s) \<Rightarrow> (None, applyEnable fed h regulation tm s))))"

definition completeEnable :: "env \<Rightarrow> fed_name \<Rightarrow> handle \<Rightarrow> bool \<Rightarrow> manager \<Rightarrow> time_error option \<times> manager" where
  "completeEnable E fed h regulation s =
     (case enableTarget s fed h regulation of
        None \<Rightarrow> (None, s)
      | Some tgt \<Rightarrow> emitEnable E fed h regulation tgt s)"

fun completeEnables :: "env \<Rightarrow> fed_name \<Rightarrow> handle list \<Rightarrow> manager \<Rightarrow> time_error option \<times> manager" where
  "completeEnables E fed [] s = (None, s)"
| "completeEnables E fed (h # hs) s =
     (case completeEnable E fed h True s of
        (Some err, s) \<Rightarrow> (Some err, s)
      | (None, s) \<Rightarrow>
          (case completeEnable E fed h False s of
             (Some err, s) \<Rightarrow> (Some err, s)
           | (None, s) \<Rightarrow> completeEnables E fed hs s))"

definition completePendingEnables :: "env \<Rightarrow> fed_name \<Rightarrow> manager \<Rightarrow> time_error option \<times> manager" where
  "completePendingEnables E fed s =
     (if isHalted s fed then (Some ErrFederationHalted, s)
      else completeEnables E fed
             (sort (filter (\<lambda>h. let fs = the (getFs s fed h) in regulationPending fs \<or> constrainedPending fs)
                (fedKeys fed (states s)))) s)"

section \<open>Flushing\<close>

fun filteredFlushDeliveries ::
  "env \<Rightarrow> fed_name \<Rightarrow> handle \<Rightarrow> bufferedTSOEvent list \<Rightarrow> manager \<Rightarrow>
   (bufferedTSOEvent list \<times> (handle \<times> event) list) \<times> manager" where
  "filteredFlushDeliveries E fed h [] s = (([], []), s)"
| "filteredFlushDeliveries E fed h (b # bs) s =
     (case queuedMessage E fed h b s of (r, s) \<Rightarrow>
       (case filteredFlushDeliveries E fed h bs s of ((delivered, ds), s) \<Rightarrow>
         (case r of
            None \<Rightarrow> ((delivered, ds), s)
          | Some e \<Rightarrow> ((b\<lparr>bevent := e\<rparr> # delivered, if \<not> internalTSO e then (h, e) # ds else ds), s))))"

definition commitFlushDeliveries ::
  "env \<Rightarrow> fed_name \<Rightarrow> handle \<Rightarrow> bufferedTSOEvent list \<Rightarrow> bufferedTSOEvent list \<Rightarrow> (handle \<times> event) list \<Rightarrow> manager \<Rightarrow>
   time_error option \<times> manager" where
  "commitFlushDeliveries E fed h release delivered ds s =
     (case commitDeliveries E fed ds s of
        (Some err, s) \<Rightarrow> (Some err, restoreBufferedMessages fed h release s)
      | (None, s) \<Rightarrow>
          (None, fold (recordFlushDelivery fed h) delivered (recordBufferedRetractionDeliveries fed h delivered s)))"

definition flushFederateMessages :: "env \<Rightarrow> fed_name \<Rightarrow> handle \<Rightarrow> manager \<Rightarrow> time_error option \<times> manager" where
  "flushFederateMessages E fed h s =
     (let current = (case getNs s fed h of Some ns \<Rightarrow> currentTime ns | None \<Rightarrow> 0) in
      case takeBufferedRO fed h s of (ro, s) \<Rightarrow>
      (case takeBufferedTSOThrough fed h None True (Some current) s of (tso, s) \<Rightarrow>
        let release = ro @ tso in
        if release = [] then (None, s)
        else if \<not> eReservable E then deliverBufferedSequence E fed h release s
        else (case filteredFlushDeliveries E fed h release s of ((delivered, ds), s) \<Rightarrow>
          (case reserveBufferedDeliveries E fed ds s of
             (Some ErrFederateOverflow, s) \<Rightarrow> deliverBufferedSequence E fed h release s
           | (Some err, s) \<Rightarrow> (Some err, restoreBufferedMessages fed h release s)
           | (None, s) \<Rightarrow> commitFlushDeliveries E fed h release delivered ds s))))"

fun flushAll :: "env \<Rightarrow> fed_name \<Rightarrow> handle list \<Rightarrow> manager \<Rightarrow> time_error option \<times> manager" where
  "flushAll E fed [] s = (None, s)"
| "flushAll E fed (h # hs) s =
     (case flushFederateMessages E fed h s of
        (Some err, s) \<Rightarrow> (Some err, s)
      | (None, s) \<Rightarrow> flushAll E fed hs s)"

definition flushPendingMessages :: "env \<Rightarrow> fed_name \<Rightarrow> manager \<Rightarrow> time_error option \<times> manager" where
  "flushPendingMessages E fed s =
     (if (case map_of (scheduledSaves s) fed of Some b \<Rightarrow> pausedAt b \<noteq> None | None \<Rightarrow> False) then (None, s)
      else flushAll E fed
             (sort (filter (\<lambda>h. let ns = the (getNs s fed h)
                in pendingNER ns \<and> mode ns = ModeFQR \<and> \<not> scheduledRecipientPaused s fed h) (fedKeys fed (ner s)))) s)"

section \<open>The evaluator\<close>

definition deliverNextMessageGroup ::
  "env \<Rightarrow> fed_name \<Rightarrow> handle \<Rightarrow> int \<Rightarrow> manager \<Rightarrow> bool \<times> time_error option \<times> manager" where
  "deliverNextMessageGroup E fed h tm s =
     (if eFilter E = None then (False, None, s)
      else let hasGroup = (case (getFs s fed h, getNs s fed h) of
              (Some fs, Some ns) \<Rightarrow>
                 constrained fs \<and> pendingNER ns \<and> usesNextMessageTarget (mode ns) \<and>
                 list_ex (\<lambda>b. timestamp b \<le> tm \<and> \<not> internalTSO (bevent b)) (tsoBuffer ns)
            | _ \<Rightarrow> False)
        in if \<not> hasGroup then (False, None, s)
           else case takeBufferedRO fed h s of (ro, s) \<Rightarrow>
             (case takeBufferedTSO fed h (Some tm) True s of (tso, s) \<Rightarrow>
               (True, deliverBufferedSequence E fed h (ro @ tso) s)))"

record candidateGrant =
  cHandle :: handle
  cMode :: AdvanceMode
  cCurrent :: int
  cReq :: int
  cNextTSO :: "int option"

definition pendingGrantCandidates :: "manager \<Rightarrow> fed_name \<Rightarrow> candidateGrant list" where
  "pendingGrantCandidates s fed =
     map (\<lambda>h. let ns = the (getNs s fed h) in
           \<lparr>cHandle = h, cMode = mode ns, cCurrent = currentTime ns, cReq = requestedTime ns,
            cNextTSO = nextGrantMessage ns\<rparr>)
       (filter (\<lambda>h. pendingNER (the (getNs s fed h))) (fedKeys fed (ner s)))"

definition candidateBound :: "manager \<Rightarrow> fed_name \<Rightarrow> handle \<Rightarrow> TimeBound \<Rightarrow> TimeBound" where
  "candidateBound s fed h lbts =
     (if isConstrained s fed h
      then (case availableHorizonOf s fed h of Some b \<Rightarrow> minimumHorizon lbts b | None \<Rightarrow> lbts)
      else unboundedHorizon)"

definition decideCandidateGrant :: "manager \<Rightarrow> fed_name \<Rightarrow> candidateGrant \<Rightarrow> TimeBound \<Rightarrow> GrantDecision" where
  "decideCandidateGrant s fed c lbts =
     (let bound = candidateBound s fed (cHandle c) lbts;
          next = (if isConstrained s fed (cHandle c) then cNextTSO c else None)
      in decideScalarGrant (cMode c) (cCurrent c) (cReq c) (horizonScalar bound) (Unbounded bound)
           (case next of Some n \<Rightarrow> n | None \<Rightarrow> 0) (next \<noteq> None))"

definition holdGrantForScheduledSave :: "manager \<Rightarrow> fed_name \<Rightarrow> handle \<Rightarrow> int \<Rightarrow> bool" where
  "holdGrantForScheduledSave s fed h grant =
     (case map_of (scheduledSaves s) fed of
        None \<Rightarrow> False
      | Some barrier \<Rightarrow>
          if scheduledRecipientPaused s fed h then True
          else if \<not> (case map_of (modes barrier) h of Some (_, c) \<Rightarrow> c | None \<Rightarrow> False) then False
          else case getNs s fed h of
            None \<Rightarrow> False
          | Some ns \<Rightarrow> pendingNER ns \<and> (grant > target barrier \<or> (strictAdvance (mode ns) \<and> grant = target barrier)))"

definition tryCandidateGrant ::
  "env \<Rightarrow> fed_name \<Rightarrow> candidateGrant \<Rightarrow> GrantDecision \<Rightarrow> manager \<Rightarrow> bool \<times> time_error option \<times> manager" where
  "tryCandidateGrant E fed c d s =
     (let h = cHandle c in
      if \<not> Fire d then (False, drainBufferedRO E fed h s)
      else if holdGrantForScheduledSave s fed h (GrantTime d) then (False, drainBufferedRO E fed h s)
      else case (if usesNextMessageTarget (cMode c) then deliverNextMessageGroup E fed h (GrantTime d) s
                 else (False, None, s)) of
        (reevaluate, Some err, s) \<Rightarrow> (False, Some err, s)
      | (reevaluate, None, s) \<Rightarrow>
          if reevaluate then (True, None, s)
          else (True, emitGrant E fed h (GrantTime d) (ClearPending d) s))"

text \<open>
  The pass over the candidates: it stops at the first one that makes progress, and at an error.
\<close>

fun tryCandidates ::
  "env \<Rightarrow> fed_name \<Rightarrow> TimeBound \<Rightarrow> candidateGrant list \<Rightarrow> manager \<Rightarrow> bool \<times> time_error option \<times> manager" where
  "tryCandidates E fed lbts [] s = (False, None, s)"
| "tryCandidates E fed lbts (c # cs) s =
     (case tryCandidateGrant E fed c (decideCandidateGrant s fed c lbts) s of
        (progress, Some err, s) \<Rightarrow> (False, Some err, s)
      | (progress, None, s) \<Rightarrow>
          if progress then (True, None, s) else tryCandidates E fed lbts cs s)"

definition evaluatorPass :: "env \<Rightarrow> fed_name \<Rightarrow> manager \<Rightarrow> bool \<times> time_error option \<times> manager" where
  "evaluatorPass E fed s =
     (case completePendingEnables E fed s of
        (Some err, s) \<Rightarrow> (False, Some err, s)
      | (None, s) \<Rightarrow>
          (case flushPendingMessages E fed s of
             (Some err, s) \<Rightarrow> (False, Some err, s)
           | (None, s) \<Rightarrow>
               let lbts = LBTSBound (regulatingSnapshot s fed);
                   cands = pendingGrantCandidates s fed
               in tryCandidates E fed lbts (sort_key cHandle cands) s))"

end
