(* ===== verification/Time_Frame.thy ===== *)
theory Time_Frame
  imports Time_Grant
begin

text \<open>
  What delivery may change.  A queue operation for one recipient touches only that
  recipient's queues and delivery marks; nothing of another recipient, no logical time, no
  request and no regulation state.  Every lemma about the evaluator rests on this frame.
\<close>

named_theorems access \<open>reading one record after writing another\<close>
named_theorems frames \<open>the frame of each queue operation\<close>

section \<open>Access\<close>

lemma getFs_put [simp, access]:
  "getFs (putFs fed h f s) fed' h' = (if fed' = fed \<and> h' = h then Some f else getFs s fed' h')"
  "getFs (putNs fed h n s) fed' h' = getFs s fed' h'"
  by (simp_all add: getFs_def putFs_def putNs_def)

lemma getNs_put [simp, access]:
  "getNs (putNs fed h n s) fed' h' = (if fed' = fed \<and> h' = h then Some n else getNs s fed' h')"
  "getNs (putFs fed h f s) fed' h' = getNs s fed' h'"
  by (simp_all add: getNs_def putFs_def putNs_def)

lemma get_other [simp, access]:
  "getFs (tick s) = getFs s" "getNs (tick s) = getNs s"
  "getFs (publish fed ds s) = getFs s" "getNs (publish fed ds s) = getNs s"
  "getFs (s\<lparr>journal := j\<rparr>) = getFs s" "getNs (s\<lparr>journal := j\<rparr>) = getNs s"
  "getFs (recordRetraction fed rs s) = getFs s" "getNs (recordRetraction fed rs s) = getNs s"
  "getFs (markDeliveryRetry fed s) = getFs s" "getNs (markDeliveryRetry fed s) = getNs s"
  by (auto simp: getFs_def getNs_def tick_def publish_def recordRetraction_def markDeliveryRetry_def fun_eq_iff)

lemma getOrCreateNs_put [simp, access]:
  "getOrCreateNs (putNs fed h n s) fed' h' = (if fed' = fed \<and> h' = h then n else getOrCreateNs s fed' h')"
  "getOrCreateNs (putFs fed h f s) fed' h' = getOrCreateNs s fed' h'"
  by (simp_all add: getOrCreateNs_def)

lemma getOrCreateNs_Some: "getNs s fed h = Some ns \<Longrightarrow> getOrCreateNs s fed h = ns"
  by (simp add: getOrCreateNs_def)

text \<open>The part of the state no queue operation touches.\<close>

definition fixed_part :: "manager \<Rightarrow> fed_name list \<times> (fed_name \<times> int) list \<times> (fed_name \<times> scheduledTimeBarrier) list \<times> fed_name list" where
  "fixed_part s = (halted s, stallTimeouts s, scheduledSaves s, deliveryRetries s)"

lemma fixed_part_simps [simp]:
  "fixed_part (putFs fed h f s) = fixed_part s" "fixed_part (putNs fed h n s) = fixed_part s"
  "fixed_part (tick s) = fixed_part s" "fixed_part (publish fed ds s) = fixed_part s"
  "fixed_part (s\<lparr>journal := j\<rparr>) = fixed_part s" "fixed_part (recordRetraction fed rs s) = fixed_part s"
  by (simp_all add: fixed_part_def putFs_def putNs_def tick_def publish_def recordRetraction_def)

lemma fixed_partD:
  "fixed_part s = fixed_part s' \<Longrightarrow> isHalted s fed = isHalted s' fed"
  "fixed_part s = fixed_part s' \<Longrightarrow> scheduledSaves s = scheduledSaves s'"
  "fixed_part s = fixed_part s' \<Longrightarrow> scheduledRecipientPaused s fed h = scheduledRecipientPaused s' fed h"
  by (simp_all add: fixed_part_def isHalted_def scheduledRecipientPaused_def scheduledPauseAt_def)

section \<open>The frame\<close>

definition same_fs :: "federateState \<Rightarrow> federateState \<Rightarrow> bool" where
  "same_fs f g \<longleftrightarrow> f\<lparr>receivedTSOTime := None\<rparr> = g\<lparr>receivedTSOTime := None\<rparr>"

definition same_ns :: "nerState \<Rightarrow> nerState \<Rightarrow> bool" where
  "same_ns m n \<longleftrightarrow>
     m\<lparr>flushMinimum := None, tsoBuffer := [], roBuffer := []\<rparr> = n\<lparr>flushMinimum := None, tsoBuffer := [], roBuffer := []\<rparr>"

lemma same_fs_refl [simp]: "same_fs f f" by (simp add: same_fs_def)
lemma same_ns_refl [simp]: "same_ns n n" by (simp add: same_ns_def)

lemma same_fsD:
  assumes "same_fs f g"
  shows "regulating g = regulating f" "lookahead g = lookahead f" "constrained g = constrained f"
    "regulationPending g = regulationPending f" "regulationLookahead g = regulationLookahead f"
    "constrainedPending g = constrainedPending f" "preservedReceiveTime g = preservedReceiveTime f"
    "lookaheadTarget g = lookaheadTarget f" "reducingLookahead g = reducingLookahead f"
    "lookaheadOriginTime g = lookaheadOriginTime f" "lookaheadOriginValue g = lookaheadOriginValue f"
  using assms by (cases f; cases g; simp add: same_fs_def)+

lemma same_nsD:
  assumes "same_ns m n"
  shows "currentTime n = currentTime m" "pendingNER n = pendingNER m" "requestedTime n = requestedTime m"
    "mode n = mode m" "pendingSince n = pendingSince m" "strictZeroLookahead n = strictZeroLookahead m"
    "asyncDelivery n = asyncDelivery m"
  using assms by (cases m; cases n; simp add: same_ns_def)+

definition frame :: "fed_name \<Rightarrow> handle \<Rightarrow> manager \<Rightarrow> manager \<Rightarrow> bool" where
  "frame fed h s s' \<longleftrightarrow>
     (\<forall>fed' h'. (fed', h') \<noteq> (fed, h) \<longrightarrow> getFs s' fed' h' = getFs s fed' h' \<and> getNs s' fed' h' = getNs s fed' h') \<and>
     rel_option same_fs (getFs s fed h) (getFs s' fed h) \<and>
     same_ns (getOrCreateNs s fed h) (getOrCreateNs s' fed h) \<and>
     (getNs s fed h \<noteq> None \<longrightarrow> getNs s' fed h \<noteq> None) \<and>
     fixed_part s' = fixed_part s"

lemma rel_same_refl [simp]: "rel_option same_fs x x"
  by (cases x) auto

lemma rel_same_trans: "rel_option same_fs x y \<Longrightarrow> rel_option same_fs y z \<Longrightarrow> rel_option same_fs x z"
  by (cases x; cases y; cases z) (auto simp: same_fs_def)

lemma frame_refl [simp, frames]: "frame fed h s s"
  by (simp add: frame_def)

lemma frame_trans [trans]: "frame fed h s t \<Longrightarrow> frame fed h t u \<Longrightarrow> frame fed h s u"
  unfolding frame_def same_ns_def by (metis rel_same_trans)

lemma frame_same_view:
  "getFs s' = getFs s \<Longrightarrow> getNs s' = getNs s \<Longrightarrow> fixed_part s' = fixed_part s \<Longrightarrow> frame fed h s s'"
  by (simp add: frame_def getOrCreateNs_def)

lemma frame_putNs: "same_ns (getOrCreateNs s fed h) n \<Longrightarrow> frame fed h s (putNs fed h n s)"
  by (auto simp: frame_def)

lemma frame_putFs: "getFs s fed h = Some f \<Longrightarrow> same_fs f g \<Longrightarrow> frame fed h s (putFs fed h g s)"
  by (auto simp: frame_def getOrCreateNs_def)

subsection \<open>The frame of each queue operation\<close>

lemma frame_tick [frames]: "frame fed h s (tick s)"
  and frame_publish [frames]: "frame fed h s (publish fed' ds s)"
  and frame_recordRetraction [frames]: "frame fed h s (recordRetraction fed' rs s)"
  by (rule frame_same_view; simp)+

lemma frame_Reserve [frames]: "Outbox_Reserve E fed' ds s = (r, s') \<Longrightarrow> frame fed h s s'"
  by (auto simp: Outbox_Reserve_def frame_tick)

lemma frame_Commit [frames]: "Outbox_Commit E fed' ds s = (r, s') \<Longrightarrow> frame fed h s s'"
  by (auto simp: Outbox_Commit_def split: option.splits intro: frame_trans [OF frame_tick frame_publish] frame_tick)

lemma frame_Send [frames]: "Outbox_Send E fed' h' e s = (r, s') \<Longrightarrow> frame fed h s s'"
  by (auto simp: Outbox_Send_def split: option.splits intro: frame_trans [OF frame_tick frame_publish] frame_tick)

lemma frame_Append [frames]: "EventLog_Append E fed' rec s = (r, s') \<Longrightarrow> frame fed h s s'"
  by (auto simp: EventLog_Append_def split: option.splits intro!: frame_same_view)

lemma frame_queuedMessage [frames]: "queuedMessage E fed' h' b s = (r, s') \<Longrightarrow> frame fed h s s'"
  by (auto simp: queuedMessage_def frame_tick split: option.splits if_splits)

lemma frame_takeTSO [frames]: "takeBufferedTSOThrough fed h t adv d s = (r, s') \<Longrightarrow> frame fed h s s'"
  by (auto simp: takeBufferedTSOThrough_def Let_def same_ns_def getOrCreateNs_def
      split: option.splits if_splits intro!: frame_putNs)

lemma frame_takeTSO' [frames]: "takeBufferedTSO fed h t adv s = (r, s') \<Longrightarrow> frame fed h s s'"
  unfolding takeBufferedTSO_def by (rule frame_takeTSO)

lemma frame_takeRO [frames]: "takeBufferedRO fed h s = (r, s') \<Longrightarrow> frame fed h s s'"
  by (auto simp: takeBufferedRO_def same_ns_def getOrCreateNs_def split: option.splits if_splits intro!: frame_putNs)

lemma frame_restoreTSO [frames]: "frame fed h s (restoreBufferedTSO fed h bs s)"
  by (auto simp: restoreBufferedTSO_def same_ns_def Let_def intro!: frame_putNs)

lemma frame_restore [frames]: "frame fed h s (restoreBufferedMessages fed h bs s)"
proof -
  let ?ro = "filter receiveOrder bs"
  let ?t = "if ?ro \<noteq> [] then let ns = getOrCreateNs s fed h in putNs fed h (ns\<lparr>roBuffer := ?ro @ roBuffer ns\<rparr>) s else s"
  have "frame fed h s ?t" by (auto simp: Let_def same_ns_def intro!: frame_putNs)
  then show ?thesis
    unfolding restoreBufferedMessages_def Let_def by (rule frame_trans [OF _ frame_restoreTSO])
qed

lemma frame_recordOrdered [frames]: "frame fed h s (recordOrderedDelivery fed h b s)"
  by (auto simp: recordOrderedDelivery_def same_fs_def split: option.splits intro!: frame_putFs)

lemma frame_recordFlush [frames]: "frame fed h s (recordFlushDelivery fed h b s)"
proof -
  let ?t = "recordOrderedDelivery fed h b s"
  have "frame fed h ?t (putNs fed h (ns\<lparr>flushMinimum := m\<rparr>) ?t)" if "getNs ?t fed h = Some ns" for ns m
    using that by (auto simp: same_ns_def getOrCreateNs_def intro!: frame_putNs)
  then show ?thesis
    using frame_recordOrdered [of fed h s b] frame_trans
    by (auto simp: recordFlushDelivery_def Let_def split: option.splits if_splits)
qed

lemma frame_recordBuffered [frames]: "frame fed h s (recordBufferedRetractionDeliveries fed' h' bs s)"
  by (simp add: recordBufferedRetractionDeliveries_def frames)

lemma frame_admit [frames]: "admitEvent E fed' h' e s = (r, s') \<Longrightarrow> frame fed h s s'"
  by (auto simp: admitEvent_def split: if_splits prod.splits option.splits
      dest: frame_Reserve frame_Commit frame_Send intro: frame_trans)

lemma frame_deliverEvent [frames]:
  assumes "deliverBufferedEvent E fed h b s = (r, s')"
  shows "frame fed h s s'"
proof -
  obtain m t where m: "queuedMessage E fed h b s = (m, t)" by (cases "queuedMessage E fed h b s")
  note f = frame_queuedMessage [OF m, of fed h]
  have g: "frame fed h t u" if "(if internalTSO (bevent b) then (None, t) else admitEvent E fed h e t) = (q, u)" for e q u
    using that frame_admit by (auto split: if_splits)
  show ?thesis
    using assms m f frame_trans [OF f g]
    by (auto simp: deliverBufferedEvent_def Let_def split: option.splits prod.splits
        intro: frame_trans [OF _ frame_trans [OF frame_recordRetraction frame_recordFlush]])
qed

lemma frame_deliverSequence [frames]:
  "deliverBufferedSequence E fed h bs s = (r, s') \<Longrightarrow> frame fed h s s'"
proof (induction bs arbitrary: s)
  case (Cons b bs)
  obtain m t where m: "deliverBufferedEvent E fed h b s = (m, t)" by (cases "deliverBufferedEvent E fed h b s")
  note f = frame_deliverEvent [OF m]
  show ?case
    using Cons m f by (auto split: option.splits intro: frame_trans frame_restore)
qed simp

lemma frame_releaseTSOs [frames]: "releaseTSOs E fed h bs s = (r, s') \<Longrightarrow> frame fed h s s'"
proof (induction bs arbitrary: s)
  case (Cons b bs)
  obtain m t where m: "deliverBufferedEvent E fed h b s = (m, t)" by (cases "deliverBufferedEvent E fed h b s")
  note f = frame_deliverEvent [OF m]
  show ?case
    using Cons m f by (auto split: option.splits intro: frame_trans frame_restoreTSO)
qed simp

lemma frame_sendROs [frames]: "sendROs E fed h bs s = (r, s') \<Longrightarrow> frame fed h s s'"
proof (induction bs arbitrary: s)
  case (Cons b bs)
  obtain m t where m: "queuedMessage E fed h b s = (m, t)" by (cases "queuedMessage E fed h b s")
  note f = frame_queuedMessage [OF m, of fed h]
  show ?case
  proof (cases m)
    case None
    then show ?thesis using Cons m f by (auto intro: frame_trans)
  next
    case (Some e)
    obtain q u where q: "Outbox_Send E fed h e t = (q, u)" by (cases "Outbox_Send E fed h e t")
    note g = frame_Send [OF q, of fed h]
    show ?thesis using Cons m f Some q g by (auto split: option.splits intro: frame_trans frame_restore)
  qed
qed simp

lemma frame_queuedDeliveries [frames]: "queuedDeliveries skip E fed' h' bs s = (r, s') \<Longrightarrow> frame fed h s s'"
proof (induction bs arbitrary: s r)
  case (Cons b bs)
  then show ?case
    by (auto split: if_splits prod.splits option.splits dest!: frame_queuedMessage [of _ _ _ _ _ _ _ fed h] intro: frame_trans)
qed simp

lemma frame_filteredFlush [frames]: "filteredFlushDeliveries E fed' h' bs s = (r, s') \<Longrightarrow> frame fed h s s'"
proof (induction bs arbitrary: s r)
  case (Cons b bs)
  then show ?case
    by (auto split: if_splits prod.splits option.splits dest!: frame_queuedMessage [of _ _ _ _ _ _ _ fed h] intro: frame_trans)
qed simp

lemma frame_drainPlain [frames]: "drainPlainTSO E fed h bs s = (r, s') \<Longrightarrow> frame fed h s s'"
proof (induction bs arbitrary: s)
  case (Cons b bs)
  let ?b = "b\<lparr>bevent := setReceivedOrder OrderReceive (bevent b)\<rparr>"
  obtain m t where m: "deliverBufferedEvent E fed h ?b s = (m, t)" by (cases "deliverBufferedEvent E fed h ?b s")
  note f = frame_deliverEvent [OF m]
  show ?case
    using Cons m f by (auto simp: Let_def split: option.splits intro: frame_trans frame_restore)
qed simp

lemma frame_reserveBuffered [frames]: "reserveBufferedDeliveries E fed' ds s = (r, s') \<Longrightarrow> frame fed h s s'"
  by (auto simp: reserveBufferedDeliveries_def split: if_splits dest: frame_Reserve)

lemma frame_commitDeliveries [frames]: "commitDeliveries E fed' ds s = (r, s') \<Longrightarrow> frame fed h s s'"
  by (auto simp: commitDeliveries_def split: if_splits dest: frame_Commit)

subsection \<open>Composite queue operations\<close>

lemmas frame_to_restore = frame_trans [OF _ frame_restore]
lemmas frame_to_record = frame_trans [OF _ frame_recordBuffered]

lemma frame_drainReservedRO [frames]:
  assumes "drainReservedRO E fed h bs s = (r, s')"
  shows "frame fed h s s'"
proof -
  obtain ds t where d: "queuedDeliveries False E fed h bs s = (ds, t)" by (cases "queuedDeliveries False E fed h bs s")
  obtain q u where q: "Outbox_Reserve E fed ds t = (q, u)" by (cases "Outbox_Reserve E fed ds t")
  obtain w v where w: "Outbox_Commit E fed ds u = (w, v)" by (cases "Outbox_Commit E fed ds u")
  note f = frame_queuedDeliveries [OF d, of fed h]
  note g = frame_trans [OF f frame_Reserve [OF q]]
  note k = frame_trans [OF g frame_Commit [OF w]]
  show ?thesis
    using assms d q w f g k frame_trans [OF g frame_deliverSequence] frame_to_restore [OF g] frame_to_restore [OF k]
    by (auto simp: drainReservedRO_def split: if_splits option.splits time_error.splits)
qed

lemma frame_drainRO [frames]:
  assumes "drainBufferedRO E fed h s = (r, s')"
  shows "frame fed h s s'"
proof -
  obtain bs t where t: "takeBufferedRO fed h s = (bs, t)" by (cases "takeBufferedRO fed h s")
  note f = frame_takeRO [OF t]
  show ?thesis
    using assms t f frame_trans [OF f frame_drainReservedRO] frame_trans [OF f frame_sendROs]
    by (auto simp: drainBufferedRO_def split: if_splits)
qed

lemma frame_drainReservedTSO [frames]:
  assumes "drainReservedTSO E fed h bs s = (r, s')"
  shows "frame fed h s s'"
proof -
  obtain ds t where d: "queuedDeliveries True E fed h bs s = (ds, t)" by (cases "queuedDeliveries True E fed h bs s")
  obtain q u where q: "reserveBufferedDeliveries E fed ds t = (q, u)" by (cases "reserveBufferedDeliveries E fed ds t")
  obtain w v where w: "commitDeliveries E fed ds u = (w, v)" by (cases "commitDeliveries E fed ds u")
  note f = frame_queuedDeliveries [OF d, of fed h]
  note g = frame_trans [OF f frame_reserveBuffered [OF q]]
  note k = frame_trans [OF g frame_commitDeliveries [OF w]]
  show ?thesis
    using assms d q w frame_trans [OF g frame_deliverSequence] frame_to_restore [OF g] frame_to_restore [OF k]
      frame_to_record [OF k]
    by (auto simp: drainReservedTSO_def split: if_splits option.splits time_error.splits)
qed

lemma frame_drainAllTSO [frames]:
  assumes "drainAllBufferedTSO E fed h s = (r, s')"
  shows "frame fed h s s'"
proof -
  let ?b = "case map_of (scheduledSaves s) fed of Some b \<Rightarrow> Some (target b) | None \<Rightarrow> None"
  obtain ro t where t: "takeBufferedRO fed h s = (ro, t)" by (cases "takeBufferedRO fed h s")
  obtain tso u where u: "takeBufferedTSO fed h ?b False t = (tso, u)" by (cases "takeBufferedTSO fed h ?b False t")
  note f = frame_trans [OF frame_takeRO [OF t] frame_takeTSO' [OF u]]
  show ?thesis
    using assms t u f frame_trans [OF f frame_drainReservedTSO] frame_trans [OF f frame_drainPlain]
    by (auto simp: drainAllBufferedTSO_def Let_def split: if_splits)
qed

lemma frame_releaseTSO [frames]:
  assumes "releaseBufferedTSO E fed h t s = (r, s')"
  shows "frame fed h s s'"
  using assms by (auto simp: releaseBufferedTSO_def split: prod.splits dest!: frame_takeTSO' frame_releaseTSOs intro: frame_trans)

lemma frame_reserveTimeCallback [frames]:
  assumes "reserveTimeCallback E fed h bs cb s = (r, s')"
  shows "frame fed h s s'"
proof -
  obtain ds t where d: "queuedDeliveries True E fed h bs s = (ds, t)" by (cases "queuedDeliveries True E fed h bs s")
  let ?ds = "ds @ [(h, cb)]"
  obtain q u where q: "reserveBufferedDeliveries E fed ?ds t = (q, u)" by (cases "reserveBufferedDeliveries E fed ?ds t")
  obtain x v where x: "deliverBufferedSequence E fed h bs u = (x, v)" by (cases "deliverBufferedSequence E fed h bs u")
  obtain y w where y: "Outbox_Reserve E fed [(h, cb)] v = (y, w)" by (cases "Outbox_Reserve E fed [(h, cb)] v")
  note g = frame_trans [OF frame_queuedDeliveries [OF d, of fed h] frame_reserveBuffered [OF q]]
  note k = frame_trans [OF g frame_deliverSequence [OF x]]
  note l = frame_trans [OF k frame_Reserve [OF y]]
  show ?thesis
    using assms d q x y g k l frame_to_restore [OF g]
    by (auto simp: reserveTimeCallback_def Let_def split: option.splits time_error.splits)
qed

lemma frame_takeGrantMessages [frames]:
  assumes "takeGrantMessages fed h t s = (r, s')"
  shows "frame fed h s s'"
  using assms unfolding takeGrantMessages_def Let_def
  by (auto split: prod.splits if_splits option.splits dest!: frame_takeTSO frame_takeTSO' frame_takeRO intro: frame_trans)

lemma frame_takeEnableMessages [frames]:
  assumes "takeEnableMessages fed h regulation t s = (r, s')"
  shows "frame fed h s s'"
proof -
  let ?n = "getOrCreateNs s fed h"
  have "frame fed h s (putNs fed h (?n\<lparr>roBuffer := []\<rparr>) s)" by (rule frame_putNs) (simp add: same_ns_def)
  then show ?thesis
    using assms by (auto simp: takeEnableMessages_def Let_def split: if_splits prod.splits dest!: frame_takeTSO' intro: frame_trans)
qed

lemma frame_fold_recordFlush [frames]: "frame fed h s (fold (recordFlushDelivery fed h) bs s)"
  by (induction bs arbitrary: s) (auto intro: frame_trans frame_recordFlush)

lemma frame_commitFlush [frames]:
  assumes "commitFlushDeliveries E fed h bs delivered ds s = (r, s')"
  shows "frame fed h s s'"
proof -
  obtain q u where q: "commitDeliveries E fed ds s = (q, u)" by (cases "commitDeliveries E fed ds s")
  note f = frame_commitDeliveries [OF q, of fed h]
  show ?thesis
    using assms q frame_to_restore [OF f] frame_trans [OF frame_to_record [OF f] frame_fold_recordFlush]
    by (auto simp: commitFlushDeliveries_def split: option.splits)
qed

lemma frame_flushFederate [frames]:
  assumes "flushFederateMessages E fed h s = (r, s')"
  shows "frame fed h s s'"
proof -
  let ?c = "case getNs s fed h of Some ns \<Rightarrow> currentTime ns | None \<Rightarrow> 0"
  obtain ro t where t: "takeBufferedRO fed h s = (ro, t)" by (cases "takeBufferedRO fed h s")
  obtain tso u where u: "takeBufferedTSOThrough fed h None True (Some ?c) t = (tso, u)"
    by (cases "takeBufferedTSOThrough fed h None True (Some ?c) t")
  obtain dd v where v: "filteredFlushDeliveries E fed h (ro @ tso) u = (dd, v)"
    by (cases "filteredFlushDeliveries E fed h (ro @ tso) u")
  obtain q w where w: "reserveBufferedDeliveries E fed (snd dd) v = (q, w)"
    by (cases "reserveBufferedDeliveries E fed (snd dd) v")
  note f = frame_trans [OF frame_takeRO [OF t] frame_takeTSO [OF u]]
  note g = frame_trans [OF frame_trans [OF f frame_filteredFlush [OF v]] frame_reserveBuffered [OF w]]
  show ?thesis
    using assms t u v w f frame_trans [OF f frame_deliverSequence] frame_trans [OF g frame_deliverSequence]
      frame_to_restore [OF g] frame_trans [OF g frame_commitFlush]
    by (auto simp: flushFederateMessages_def Let_def split: if_splits option.splits time_error.splits prod.splits)
qed

lemma frame_nextMessageGroup [frames]:
  assumes "deliverNextMessageGroup E fed h t s = (b, r, s')"
  shows "frame fed h s s'"
proof -
  obtain ro v where v: "takeBufferedRO fed h s = (ro, v)" by (cases "takeBufferedRO fed h s")
  obtain tso u where u: "takeBufferedTSO fed h (Some t) True v = (tso, u)" by (cases "takeBufferedTSO fed h (Some t) True v")
  note f = frame_trans [OF frame_takeRO [OF v] frame_takeTSO' [OF u]]
  show ?thesis
    using assms v u frame_trans [OF f frame_deliverSequence]
    by (auto simp: deliverNextMessageGroup_def Let_def split: if_splits)
qed

end
