(* ===== verification/Time_Conserve.thy ===== *)
theory Time_Conserve
  imports Time_Frame
begin

text \<open>
  What the queues hold before and after each queue operation: taking splits a queue, delivery
  leaves the queues alone, and a failed delivery puts the undelivered messages back.  From
  this the loop of the evaluator terminates and no message is lost.
\<close>

definition queues :: "manager \<Rightarrow> fed_name \<Rightarrow> handle \<Rightarrow> bufferedTSOEvent list \<times> bufferedTSOEvent list" where
  "queues s fed h = (let ns = getOrCreateNs s fed h in (roBuffer ns, tsoBuffer ns))"

lemma queues_goc: "(\<And>fed h. getOrCreateNs s' fed h = getOrCreateNs s fed h) \<Longrightarrow> queues s' = queues s"
  by (simp add: queues_def fun_eq_iff)

lemma goc_same [simp]:
  "getOrCreateNs (tick s) fed h = getOrCreateNs s fed h"
  "getOrCreateNs (publish fed' ds s) fed h = getOrCreateNs s fed h"
  "getOrCreateNs (recordRetraction fed' rs s) fed h = getOrCreateNs s fed h"
  "getOrCreateNs (s\<lparr>journal := j\<rparr>) fed h = getOrCreateNs s fed h"
  "getOrCreateNs (recordBufferedRetractionDeliveries fed' h' bs s) fed h = getOrCreateNs s fed h"
  by (simp_all add: getOrCreateNs_def recordBufferedRetractionDeliveries_def)

lemma queues_same [simp]:
  "queues (tick s) = queues s" "queues (publish fed ds s) = queues s" "queues (recordRetraction fed rs s) = queues s"
  "queues (s\<lparr>journal := j\<rparr>) = queues s" "queues (recordBufferedRetractionDeliveries fed h bs s) = queues s"
  "queues (putFs fed h f s) = queues s"
  by (rule queues_goc; simp)+

lemma queues_putNs:
  "queues (putNs fed h n s) = (\<lambda>fed' h'. if fed' = fed \<and> h' = h then (roBuffer n, tsoBuffer n) else queues s fed' h')"
  by (auto simp: queues_def fun_eq_iff Let_def)

lemma queues_Reserve: "Outbox_Reserve E fed ds s = (r, s') \<Longrightarrow> queues s' = queues s"
  by (auto simp: Outbox_Reserve_def)

lemma queues_Commit: "Outbox_Commit E fed ds s = (r, s') \<Longrightarrow> queues s' = queues s"
  by (auto simp: Outbox_Commit_def split: option.splits)

lemma queues_Send: "Outbox_Send E fed h e s = (r, s') \<Longrightarrow> queues s' = queues s"
  by (auto simp: Outbox_Send_def split: option.splits)

lemma queues_Append: "EventLog_Append E fed rec s = (r, s') \<Longrightarrow> queues s' = queues s"
  by (auto simp: EventLog_Append_def split: option.splits)

lemma queues_queuedMessage: "queuedMessage E fed h b s = (r, s') \<Longrightarrow> queues s' = queues s"
  by (auto simp: queuedMessage_def split: option.splits if_splits)

lemma queues_admit: "admitEvent E fed h e s = (r, s') \<Longrightarrow> queues s' = queues s"
  by (auto simp: admitEvent_def split: if_splits prod.splits option.splits dest!: queues_Reserve queues_Commit queues_Send)

lemma queues_recordOrdered [simp]: "queues (recordOrderedDelivery fed h b s) = queues s"
  by (auto simp: recordOrderedDelivery_def split: option.splits)

lemma queues_flushMinimum:
  "getNs t fed h = Some ns \<Longrightarrow> queues (putNs fed h (ns\<lparr>flushMinimum := m\<rparr>) t) = queues t"
  by (auto simp: queues_putNs queues_def getOrCreateNs_def fun_eq_iff Let_def)

lemma queues_recordFlush [simp]: "queues (recordFlushDelivery fed h b s) = queues s"
  using queues_flushMinimum [of "recordOrderedDelivery fed h b s" fed h]
  by (auto simp: recordFlushDelivery_def Let_def split: option.splits)

lemma queues_fold_recordFlush [simp]: "queues (fold (recordFlushDelivery fed h) bs s) = queues s"
  by (induction bs arbitrary: s) auto

lemma queues_deliverEvent:
  assumes "deliverBufferedEvent E fed h b s = (r, s')"
  shows "queues s' = queues s"
  using assms unfolding deliverBufferedEvent_def Let_def
  by (auto split: option.splits prod.splits if_splits dest!: queues_queuedMessage queues_admit)

lemma queues_deliverSequence: "deliverBufferedSequence E fed h bs s = (None, s') \<Longrightarrow> queues s' = queues s"
proof (induction bs arbitrary: s)
  case (Cons b bs)
  then show ?case by (auto split: option.splits prod.splits dest!: queues_deliverEvent)
qed simp

lemma queues_sendROs: "sendROs E fed h bs s = (None, s') \<Longrightarrow> queues s' = queues s"
proof (induction bs arbitrary: s)
  case (Cons b bs)
  then show ?case by (auto split: option.splits prod.splits dest!: queues_queuedMessage queues_Send)
qed simp

lemma queues_queuedDeliveries: "queuedDeliveries skip E fed h bs s = (r, s') \<Longrightarrow> queues s' = queues s"
proof (induction bs arbitrary: s r)
  case (Cons b bs)
  then show ?case by (auto split: if_splits option.splits prod.splits dest!: queues_queuedMessage)
qed simp

lemma queues_filteredFlush: "filteredFlushDeliveries E fed h bs s = (r, s') \<Longrightarrow> queues s' = queues s"
proof (induction bs arbitrary: s r)
  case (Cons b bs)
  then show ?case by (auto split: if_splits option.splits prod.splits dest!: queues_queuedMessage)
qed simp

lemma queues_reserveBuffered: "reserveBufferedDeliveries E fed ds s = (r, s') \<Longrightarrow> queues s' = queues s"
  by (auto simp: reserveBufferedDeliveries_def split: if_splits dest!: queues_Reserve)

lemma queues_commitDeliveries: "commitDeliveries E fed ds s = (r, s') \<Longrightarrow> queues s' = queues s"
  by (auto simp: commitDeliveries_def split: if_splits dest!: queues_Commit)

lemmas queues_dests = queues_queuedMessage queues_Reserve queues_Commit queues_Send queues_Append queues_deliverSequence
  queues_sendROs queues_queuedDeliveries queues_filteredFlush queues_reserveBuffered queues_commitDeliveries

section \<open>Ordering keeps the messages\<close>

lemma mset_refill:
  "length items = length (filter P xs) \<Longrightarrow> mset (refill P items xs) + mset (filter P xs) = mset xs + mset items"
proof (induction P items xs rule: refill.induct)
  case (3 P q items x xs)
  then show ?case by (cases "P x") auto
qed auto

lemma mset_order_group: "mset (order_group objects release obj) = mset release"
proof -
  let ?P = "\<lambda>b. tie_group objects b = obj"
  let ?g = "filter ?P release"
  let ?q = "filter (tie_reflection objects) ?g @ filter (\<lambda>b. \<not> tie_reflection objects b) ?g"
  have m: "mset ?q = mset ?g" using multiset_partition [of "mset ?g" "tie_reflection objects"] by (metis mset_append mset_filter)
  then have "length ?q = length ?g" by (metis size_mset)
  from mset_refill [OF this] m show ?thesis by (simp add: order_group_def Let_def)
qed

lemma mset_foldl_order_group: "mset (foldl (order_group objects) release os) = mset release"
  by (induction os arbitrary: release) (simp_all add: mset_order_group)

lemma mset_orderObject: "mset (orderObjectDeletionTies release) = mset release"
  by (simp add: orderObjectDeletionTies_def Let_def mset_foldl_order_group)

lemma mset_orderReflection: "mset (orderReflectionDeletionTies bs) = mset bs"
proof (induction bs rule: orderReflectionDeletionTies.induct)
  case (2 b bs)
  let ?P = "\<lambda>c. timestamp c = timestamp b"
  have "mset (takeWhile ?P bs) + mset (dropWhile ?P bs) = mset bs"
    by (metis mset_append takeWhile_dropWhile_id)
  with 2 show ?case by (simp add: mset_orderObject)
qed simp

section \<open>Taking\<close>

lemma length_ordered:
  "length (if c then orderReflectionDeletionTies (sort_key timestamp xs) else xs) = length xs"
  using arg_cong [OF mset_orderReflection, of size "sort_key timestamp xs"] by simp

lemma take_TSO_cases:
  assumes "takeBufferedTSOThrough fed h t adv d s = (r, s')"
  shows "(r = [] \<and> s' = s) \<or>
    (\<exists>ns. getNs s fed h = Some ns \<and>
       s' = putNs fed h (ns\<lparr>tsoBuffer := filter (\<lambda>b. \<not> bufferedTSOEligible b t adv d (currentTime ns)) (tsoBuffer ns)\<rparr>) s \<and>
       length r = length (filter (\<lambda>b. bufferedTSOEligible b t adv d (currentTime ns)) (tsoBuffer ns)))"
proof (cases "getNs s fed h")
  case (Some ns)
  let ?P = "\<lambda>b. bufferedTSOEligible b t adv d (currentTime ns)"
  show ?thesis
  proof (cases "tsoBuffer ns = [] \<or> scheduledRecipientPaused s fed h")
    case False
    then have "s' = putNs fed h (ns\<lparr>tsoBuffer := filter (\<lambda>b. \<not> ?P b) (tsoBuffer ns)\<rparr>) s"
      "length r = length (filter ?P (tsoBuffer ns))"
      using assms Some length_ordered [of "isConstrained s fed h" "filter ?P (tsoBuffer ns)"]
      by (auto simp: takeBufferedTSOThrough_def Let_def)
    then show ?thesis using Some by simp
  qed (use assms Some in \<open>auto simp: takeBufferedTSOThrough_def\<close>)
qed (use assms in \<open>simp add: takeBufferedTSOThrough_def\<close>)

lemma takeTSO_released:
  assumes "takeBufferedTSOThrough fed h t adv d s = (r, s')" and "getNs s fed h = Some ns"
    and "tsoBuffer ns \<noteq> []" and "\<not> scheduledRecipientPaused s fed h"
  shows "length r = length (filter (\<lambda>b. bufferedTSOEligible b t adv d (currentTime ns)) (tsoBuffer ns))"
  using assms length_ordered [of "isConstrained s fed h" "filter (\<lambda>b. bufferedTSOEligible b t adv d (currentTime ns)) (tsoBuffer ns)"]
  by (auto simp: takeBufferedTSOThrough_def Let_def)

lemma take_TSO_length:
  assumes "takeBufferedTSOThrough fed h t adv d s = (r, s')"
  shows "length r + length (snd (queues s' fed h)) = length (snd (queues s fed h))"
    and "fst (queues s' fed h) = fst (queues s fed h)"
    and "fed' \<noteq> fed \<or> h' \<noteq> h \<Longrightarrow> queues s' fed' h' = queues s fed' h'"
  using take_TSO_cases [OF assms] sum_length_filter_compl
  by (auto simp: queues_putNs queues_def getOrCreateNs_def Let_def)

lemma take_RO_queues:
  assumes "takeBufferedRO fed h s = (r, s')"
  shows "snd (queues s' fed h) = snd (queues s fed h)" and "r @ fst (queues s' fed h) = fst (queues s fed h)"
    and "fed' \<noteq> fed \<or> h' \<noteq> h \<Longrightarrow> queues s' fed' h' = queues s fed' h'"
  using assms
  by (auto simp: takeBufferedRO_def queues_putNs queues_def getOrCreateNs_def Let_def split: option.splits if_splits)

end
