(* ===== verification/Time_Evaluator.thy ===== *)
theory Time_Evaluator
  imports Time_Conserve
begin

text \<open>
  The loop of \<open>tryGrantPending\<close> terminates: each pass that makes progress either completes a
  pending request or delivers at least one queued message, and no pass adds either.
\<close>

section \<open>The measure\<close>

definition tlen :: "manager \<Rightarrow> fed_name \<Rightarrow> handle \<Rightarrow> nat" where
  "tlen s fed h = length (snd (queues s fed h))"

definition weight :: "manager \<Rightarrow> fed_name \<Rightarrow> handle \<Rightarrow> nat" where
  "weight s fed h = (if pendingNER (getOrCreateNs s fed h) then 1 else 0) + tlen s fed h"

definition total_weight :: "fed_name \<Rightarrow> manager \<Rightarrow> nat" where
  "total_weight fed s = (\<Sum>h\<in>set (fedKeys fed (ner s)). weight s fed h)"

definition shrinks :: "fed_name \<Rightarrow> manager \<Rightarrow> manager \<Rightarrow> bool" where
  "shrinks fed s s' \<longleftrightarrow> (\<forall>h. weight s' fed h \<le> weight s fed h)"

lemma shrinks_refl [simp]: "shrinks fed s s"
  by (simp add: shrinks_def)

lemma shrinks_trans: "shrinks fed s t \<Longrightarrow> shrinks fed t u \<Longrightarrow> shrinks fed s u"
  unfolding shrinks_def by (meson order_trans)

lemma mem_fedKeys: "h \<in> set (fedKeys fed m) \<longleftrightarrow> map_of m (fed, h) \<noteq> None"
proof -
  have "h \<in> set (fedKeys fed m) \<longleftrightarrow> (fed, h) \<in> fst ` set m" by (force simp: fedKeys_def)
  then show ?thesis by (simp add: map_of_eq_None_iff)
qed

lemma weight_absent: "h \<notin> set (fedKeys fed (ner s)) \<Longrightarrow> weight s fed h = 0"
  by (simp add: mem_fedKeys weight_def tlen_def queues_def getOrCreateNs_def getNs_def new_nerState_def Let_def)

lemma total_weight_less:
  assumes "shrinks fed s s'" and "weight s' fed h < weight s fed h"
  shows "total_weight fed s' < total_weight fed s"
proof -
  let ?A = "set (fedKeys fed (ner s)) \<union> set (fedKeys fed (ner s'))"
  have "total_weight fed s = (\<Sum>h\<in>?A. weight s fed h)" "total_weight fed s' = (\<Sum>h\<in>?A. weight s' fed h)"
    unfolding total_weight_def by (rule sum.mono_neutral_left; auto simp: weight_absent)+
  moreover have "h \<in> ?A" using assms(2) weight_absent [of h fed s] by fastforce
  ultimately show ?thesis
    using assms by (simp add: shrinks_def) (rule sum_strict_mono_ex1, auto)
qed

lemma frame_goc_other: "frame fed h s s' \<Longrightarrow> fed' \<noteq> fed \<or> h' \<noteq> h \<Longrightarrow> getOrCreateNs s' fed' h' = getOrCreateNs s fed' h'"
  by (auto simp: frame_def getOrCreateNs_def)

lemma frame_pending: "frame fed h s s' \<Longrightarrow> pendingNER (getOrCreateNs s' fed' h') = pendingNER (getOrCreateNs s fed' h')"
  using frame_goc_other [of fed h s s' fed' h'] same_nsD(2) by (cases "fed' = fed \<and> h' = h") (auto simp: frame_def)

lemma frame_shrinks: "frame fed h s s' \<Longrightarrow> tlen s' fed h \<le> tlen s fed h \<Longrightarrow> shrinks fed s s'"
  unfolding shrinks_def
proof
  fix h' assume f: "frame fed h s s'" and t: "tlen s' fed h \<le> tlen s fed h"
  show "weight s' fed h' \<le> weight s fed h'"
    using frame_pending [OF f] frame_goc_other [OF f, of fed h'] t
    by (cases "h' = h") (auto simp: weight_def tlen_def queues_def)
qed

section \<open>Each step shrinks\<close>

lemma tlen_queues: "queues s' = queues s \<Longrightarrow> tlen s' = tlen s"
  by (simp add: tlen_def fun_eq_iff)

lemma tlen_takeTSO: "takeBufferedTSOThrough fed h t adv d s = (r, s') \<Longrightarrow> length r + tlen s' fed h = tlen s fed h"
  using take_TSO_length(1) by (simp add: tlen_def)

lemma tlen_takeRO: "takeBufferedRO fed h s = (r, s') \<Longrightarrow> tlen s' fed h = tlen s fed h"
  using take_RO_queues(1) by (simp add: tlen_def)

lemma tlen_drainReservedRO: "drainReservedRO E fed h bs s = (None, s') \<Longrightarrow> tlen s' = tlen s"
  by (auto simp: drainReservedRO_def split: if_splits option.splits time_error.splits prod.splits
      dest!: queues_dests tlen_queues)

lemma shrinks_drainRO:
  assumes "drainBufferedRO E fed h s = (None, s')"
  shows "shrinks fed s s'"
proof (rule frame_shrinks [OF frame_drainRO [OF assms]])
  show "tlen s' fed h \<le> tlen s fed h"
    using assms
    by (auto simp: drainBufferedRO_def split: if_splits prod.splits
        dest!: tlen_drainReservedRO queues_sendROs tlen_queues tlen_takeRO)
qed

lemma queues_reserveTimeCallback: "reserveTimeCallback E fed h bs cb s = (Inr (ds, bs'), s') \<Longrightarrow> queues s' = queues s"
  by (auto simp: reserveTimeCallback_def Let_def split: option.splits time_error.splits prod.splits dest!: queues_dests)

lemma tlen_takeGrantMessages: "takeGrantMessages fed h t s = (r, s') \<Longrightarrow> tlen s' fed h \<le> tlen s fed h"
  by (auto simp: takeGrantMessages_def takeBufferedTSO_def Let_def split: prod.splits option.splits if_splits
      dest!: tlen_takeTSO tlen_takeRO)

lemma tlen_takeEnableMessages: "takeEnableMessages fed h reg t s = (r, s') \<Longrightarrow> tlen s' fed h \<le> tlen s fed h"
  by (auto simp: takeEnableMessages_def takeBufferedTSO_def Let_def split: prod.splits if_splits dest!: tlen_takeTSO)
    (auto simp: tlen_def queues_def Let_def)

lemma recordGrantBound_queues [simp]:
  "roBuffer (recordGrantBound n t) = roBuffer n" "tsoBuffer (recordGrantBound n t) = tsoBuffer n"
  "pendingNER (recordGrantBound n t) = pendingNER n" "currentTime (recordGrantBound n t) = currentTime n"
  by (auto simp: recordGrantBound_def Let_def)

lemma queues_applyGrant [simp]: "queues (applyGrant fed h t c s) = queues s"
  by (auto simp: applyGrant_def grantNs_def Let_def queues_putNs queues_def fun_eq_iff split: option.splits)

lemma goc_applyGrant:
  "getOrCreateNs (applyGrant fed h t c s) fed' h' =
     (if fed' = fed \<and> h' = h then grantNs t c (getOrCreateNs s fed h) else getOrCreateNs s fed' h')"
  by (auto simp: applyGrant_def Let_def split: option.splits)

lemma weight_applyGrant:
  "weight (applyGrant fed h t True s) fed h' = (if h' = h then tlen s fed h else weight s fed h')"
  by (auto simp: weight_def tlen_queues [OF queues_applyGrant] goc_applyGrant grantNs_def Let_def)

lemma weight_record [simp]: "weight (recordBufferedRetractionDeliveries fed' h' bs s) = weight s"
  by (simp add: weight_def tlen_def fun_eq_iff)

lemma frame_putNs_self: "frame fed h s (putNs fed h (getOrCreateNs s fed h) s)"
  by (rule frame_putNs) simp

lemma queues_putNs_self [simp]: "queues (putNs fed h (getOrCreateNs s fed h) s) = queues s"
  by (auto simp: queues_putNs queues_def fun_eq_iff Let_def)

text \<open>What a granted request leaves: an admitted callback in a framed state, then the transition.\<close>

lemma emitGrant_ok:
  assumes "emitGrant E fed h t c s = (None, s')"
  obtains u bs where "frame fed h s u" "tlen u fed h \<le> tlen s fed h"
    "s' = applyGrant fed h t c u \<or> s' = recordBufferedRetractionDeliveries fed h bs (applyGrant fed h t c u)"
proof -
  obtain bs t1 where t1: "takeGrantMessages fed h t s = (bs, t1)" by (cases "takeGrantMessages fed h t s")
  note f1 = frame_takeGrantMessages [OF t1] and l1 = tlen_takeGrantMessages [OF t1]
  show thesis
  proof (cases "eReservable E")
    case True
    then obtain ds bs' t2 t3 where t2: "reserveTimeCallback E fed h bs (TimeAdvanceGrant t) t1 = (Inr (ds, bs'), t2)"
      and t3: "EventLog_Append E fed (TimeAdvanceGrantedRecord h t) t2 = (None, t3)" and c: "commitReservedGrant E fed h t c ds bs' t3 = (None, s')"
      using assms t1 by (auto simp: emitGrant_def split: prod.splits sum.splits option.splits)
    let ?p = "putNs fed h (getOrCreateNs t3 fed h) t3"
    obtain u where u: "Outbox_Commit E fed ds ?p = (None, u)"
      and s': "s' = recordBufferedRetractionDeliveries fed h bs' (applyGrant fed h t c u)"
      using c by (auto simp: commitReservedGrant_def Let_def split: prod.splits option.splits)
    have "frame fed h s u"
      using frame_trans [OF frame_trans [OF frame_trans [OF f1 frame_reserveTimeCallback [OF t2]] frame_Append [OF t3]]
          frame_trans [OF frame_putNs_self frame_Commit [OF u]]] .
    moreover have "queues u = queues t1"
      using queues_reserveTimeCallback [OF t2] queues_Append [OF t3] queues_Commit [OF u] by simp
    ultimately show thesis using that s' l1 tlen_queues by metis
  next
    case False
    then obtain t3 where t3: "EventLog_Append E fed (TimeAdvanceGrantedRecord h t) t1 = (None, t3)"
      and c: "sendUnreservedGrant E fed h t c bs t3 = (None, s')"
      using assms t1 by (auto simp: emitGrant_def split: prod.splits option.splits)
    obtain t4 where t4: "deliverBufferedSequence E fed h bs t3 = (None, t4)"
      using c by (auto simp: sendUnreservedGrant_def Let_def split: prod.splits option.splits)
    let ?p = "putNs fed h (getOrCreateNs t4 fed h) t4"
    obtain u where u: "Outbox_Send E fed h (TimeAdvanceGrant t) ?p = (None, u)" and s': "s' = applyGrant fed h t c u"
      using c t4 by (auto simp: sendUnreservedGrant_def Let_def split: prod.splits option.splits)
    have "frame fed h s u"
      using frame_trans [OF frame_trans [OF frame_trans [OF f1 frame_Append [OF t3]] frame_deliverSequence [OF t4]]
          frame_trans [OF frame_putNs_self frame_Send [OF u]]] .
    moreover have "queues u = queues t1"
      using queues_Append [OF t3] queues_deliverSequence [OF t4] queues_Send [OF u] by simp
    ultimately show thesis using that s' l1 tlen_queues by metis
  qed
qed

lemma emitGrant_shrinks:
  assumes "emitGrant E fed h t True s = (None, s')" and "pendingNER (getOrCreateNs s fed h)"
  shows "shrinks fed s s'" and "weight s' fed h < weight s fed h"
proof -
  from emitGrant_ok [OF assms(1)] obtain u bs where u: "frame fed h s u" "tlen u fed h \<le> tlen s fed h"
    "weight s' = weight (applyGrant fed h t True u)" by (metis weight_record)
  have "pendingNER (getOrCreateNs u fed h)" using frame_pending [OF u(1)] assms(2) by simp
  then have "weight s' fed h < weight u fed h" "shrinks fed u s'"
    using u(3) by (auto simp: weight_applyGrant shrinks_def weight_def [of u fed h])
  with frame_shrinks [OF u(1,2)] show "shrinks fed s s'" "weight s' fed h < weight s fed h"
    using shrinks_trans less_le_trans unfolding shrinks_def by blast+
qed

lemma applyEnable_weight [simp]: "weight (applyEnable fed h reg t s) = weight s"
  by (auto simp: applyEnable_def enableNs_def Let_def weight_def tlen_def queues_putNs queues_def fun_eq_iff
      getOrCreateNs_def split: option.splits)

lemma emitEnable_ok:
  assumes "emitEnable E fed h reg t s = (None, s')"
  obtains u bs where "frame fed h s u" "tlen u fed h \<le> tlen s fed h"
    "s' = applyEnable fed h reg t u \<or> s' = recordBufferedRetractionDeliveries fed h bs (applyEnable fed h reg t u)"
proof -
  let ?cb = "if reg then TimeRegulationEnabled t else TimeConstrainedEnabled t"
  obtain bs t1 where t1: "takeEnableMessages fed h reg t s = (bs, t1)" by (cases "takeEnableMessages fed h reg t s")
  note f1 = frame_takeEnableMessages [OF t1] and l1 = tlen_takeEnableMessages [OF t1]
  show thesis
  proof (cases "eReservable E")
    case True
    then obtain ds bs' t2 u where t2: "reserveTimeCallback E fed h bs ?cb t1 = (Inr (ds, bs'), t2)"
      and u: "Outbox_Commit E fed ds t2 = (None, u)"
      and s': "s' = recordBufferedRetractionDeliveries fed h bs' (applyEnable fed h reg t u)"
      using assms t1 by (auto simp: emitEnable_def Let_def split: prod.splits sum.splits option.splits)
    have "frame fed h s u" using frame_trans [OF frame_trans [OF f1 frame_reserveTimeCallback [OF t2]] frame_Commit [OF u]] .
    moreover have "queues u = queues t1" using queues_reserveTimeCallback [OF t2] queues_Commit [OF u] by simp
    ultimately show thesis using that s' l1 tlen_queues by metis
  next
    case False
    then obtain t2 u where t2: "deliverBufferedSequence E fed h bs t1 = (None, t2)"
      and u: "Outbox_Send E fed h ?cb t2 = (None, u)" and s': "s' = applyEnable fed h reg t u"
      using assms t1 by (auto simp: emitEnable_def Let_def split: prod.splits option.splits)
    have "frame fed h s u" using frame_trans [OF frame_trans [OF f1 frame_deliverSequence [OF t2]] frame_Send [OF u]] .
    moreover have "queues u = queues t1" using queues_deliverSequence [OF t2] queues_Send [OF u] by simp
    ultimately show thesis using that s' l1 tlen_queues by metis
  qed
qed

lemma completeEnable_shrinks:
  assumes "completeEnable E fed h reg s = (None, s')"
  shows "shrinks fed s s'"
proof (cases "enableTarget s fed h reg")
  case (Some t)
  then have "emitEnable E fed h reg t s = (None, s')" using assms by (simp add: completeEnable_def)
  from emitEnable_ok [OF this] obtain u bs where "frame fed h s u" "tlen u fed h \<le> tlen s fed h" "weight s' = weight u"
    by (metis weight_record applyEnable_weight)
  then show ?thesis using frame_shrinks by (metis shrinks_def)
qed (use assms in \<open>simp add: completeEnable_def\<close>)

lemma completeEnables_shrinks: "completeEnables E fed hs s = (None, s') \<Longrightarrow> shrinks fed s s'"
proof (induction hs arbitrary: s)
  case (Cons h hs)
  then show ?case
    by (auto split: prod.splits option.splits dest!: completeEnable_shrinks intro: shrinks_trans)
qed simp

lemma completePendingEnables_shrinks: "completePendingEnables E fed s = (None, s') \<Longrightarrow> shrinks fed s s'"
  by (auto simp: completePendingEnables_def split: if_splits dest: completeEnables_shrinks)

lemma queues_commitFlush: "commitFlushDeliveries E fed h bs d ds s = (None, s') \<Longrightarrow> queues s' = queues s"
  by (auto simp: commitFlushDeliveries_def split: option.splits prod.splits dest!: queues_dests)

lemma flushFederate_shrinks:
  assumes "flushFederateMessages E fed h s = (None, s')"
  shows "shrinks fed s s'"
proof (rule frame_shrinks [OF frame_flushFederate [OF assms]])
  show "tlen s' fed h \<le> tlen s fed h"
    using assms
    by (auto simp: flushFederateMessages_def Let_def split: if_splits option.splits prod.splits time_error.splits
        dest!: queues_dests queues_commitFlush tlen_queues tlen_takeRO tlen_takeTSO)
qed

lemma flushAll_shrinks: "flushAll E fed hs s = (None, s') \<Longrightarrow> shrinks fed s s'"
proof (induction hs arbitrary: s)
  case (Cons h hs)
  then show ?case
    by (auto split: prod.splits option.splits dest!: flushFederate_shrinks intro: shrinks_trans)
qed simp

lemma flushPending_shrinks: "flushPendingMessages E fed s = (None, s') \<Longrightarrow> shrinks fed s s'"
  by (auto simp: flushPendingMessages_def split: if_splits option.splits dest: flushAll_shrinks)

lemma nextMessageGroup_False: "deliverNextMessageGroup E fed h t s = (False, r, s') \<Longrightarrow> r = None \<and> s' = s"
  by (auto simp: deliverNextMessageGroup_def Let_def split: if_splits prod.splits)

lemma nextMessageGroup_shrinks:
  assumes "deliverNextMessageGroup E fed h t s = (True, None, s')" and "\<not> scheduledRecipientPaused s fed h"
  shows "shrinks fed s s'" and "weight s' fed h < weight s fed h"
proof -
  obtain fs ns where g: "getFs s fed h = Some fs" "getNs s fed h = Some ns" "constrained fs"
    "list_ex (\<lambda>b. timestamp b \<le> t \<and> \<not> internalTSO (bevent b)) (tsoBuffer ns)"
    using assms(1) by (auto simp: deliverNextMessageGroup_def Let_def split: if_splits option.splits)
  obtain ro s1 where s1: "takeBufferedRO fed h s = (ro, s1)" by (cases "takeBufferedRO fed h s")
  obtain tso s2 where s2: "takeBufferedTSO fed h (Some t) True s1 = (tso, s2)" by (cases "takeBufferedTSO fed h (Some t) True s1")
  have d: "deliverBufferedSequence E fed h (ro @ tso) s2 = (None, s')"
    using assms(1) s1 s2 by (auto simp: deliverNextMessageGroup_def Let_def split: if_splits)
  note f1 = frame_takeRO [OF s1]
  have p1: "\<not> scheduledRecipientPaused s1 fed h"
    using assms(2) fixed_partD(3) [of s1 s fed h] f1 by (simp add: frame_def)
  obtain ns1 where n1: "getNs s1 fed h = Some ns1" "tsoBuffer ns1 = tsoBuffer ns"
    using s1 g(2) by (auto simp: takeBufferedRO_def split: if_splits)
  from g(4) n1(2) obtain b where b: "b \<in> set (tsoBuffer ns1)" "timestamp b \<le> t" "\<not> internalTSO (bevent b)"
    by (auto simp: list_ex_iff)
  have "filter (\<lambda>b. bufferedTSOEligible b (Some t) True (Some t) (currentTime ns1)) (tsoBuffer ns1) \<noteq> []"
    using b by (auto simp: filter_empty_conv bufferedTSOEligible_def)
  moreover have "tsoBuffer ns1 \<noteq> []" using b(1) by auto
  ultimately have "0 < length tso"
    using takeTSO_released [OF s2 [unfolded takeBufferedTSO_def] n1(1) _ p1] by simp
  then have less: "tlen s' fed h < tlen s fed h"
    using tlen_takeRO [OF s1] tlen_takeTSO [OF s2 [unfolded takeBufferedTSO_def]] tlen_queues [OF queues_deliverSequence [OF d]]
    by (simp del: length_greater_0_conv)
  have f: "frame fed h s s'" using frame_trans [OF frame_trans [OF f1 frame_takeTSO' [OF s2]] frame_deliverSequence [OF d]] .
  show "shrinks fed s s'" using frame_shrinks [OF f] less by simp
  show "weight s' fed h < weight s fed h" using less frame_pending [OF f, of fed h] by (simp add: weight_def)
qed

lemma hold_not_paused: "\<not> holdGrantForScheduledSave s fed h t \<Longrightarrow> \<not> scheduledRecipientPaused s fed h"
proof (cases "map_of (scheduledSaves s) fed")
  case None
  then show ?thesis by (simp add: scheduledRecipientPaused_def scheduledPauseAt_def)
next
  case (Some b)
  assume "\<not> holdGrantForScheduledSave s fed h t"
  then show ?thesis unfolding holdGrantForScheduledSave_def Some by (simp split: if_splits)
qed

lemma tryCandidate_cases:
  assumes "tryCandidateGrant E fed c d s = (p, None, s')"
  shows "(\<not> p \<and> drainBufferedRO E fed (cHandle c) s = (None, s')) \<or>
    (p \<and> Fire d \<and> \<not> holdGrantForScheduledSave s fed (cHandle c) (GrantTime d) \<and>
      (deliverNextMessageGroup E fed (cHandle c) (GrantTime d) s = (True, None, s') \<or>
       emitGrant E fed (cHandle c) (GrantTime d) (ClearPending d) s = (None, s')))"
  using assms
  by (auto simp: tryCandidateGrant_def Let_def split: if_splits prod.splits option.splits dest!: nextMessageGroup_False)

lemma decideCandidate_clears: "Fire (decideCandidateGrant s fed c b) \<Longrightarrow> ClearPending (decideCandidateGrant s fed c b)"
  by (auto simp: decideCandidateGrant_def Let_def intro: decide_clears)

lemma tryCandidate_shrinks:
  assumes "tryCandidateGrant E fed c (decideCandidateGrant s fed c b) s = (True, None, s')"
    and "pendingNER (getOrCreateNs s fed (cHandle c))"
  shows "shrinks fed s s' \<and> weight s' fed (cHandle c) < weight s fed (cHandle c)"
  using tryCandidate_cases [OF assms(1)] emitGrant_shrinks [OF _ assms(2)] nextMessageGroup_shrinks
    hold_not_paused decideCandidate_clears
  by (metis (full_types))

lemma tryCandidates_shrinks:
  assumes "tryCandidates E fed b cs s = (True, None, s')" and "\<forall>c\<in>set cs. pendingNER (getOrCreateNs s fed (cHandle c))"
  shows "shrinks fed s s' \<and> (\<exists>h. weight s' fed h < weight s fed h)"
  using assms
proof (induction cs arbitrary: s)
  case (Cons c cs)
  obtain p r t where t: "tryCandidateGrant E fed c (decideCandidateGrant s fed c b) s = (p, r, t)"
    by (cases "tryCandidateGrant E fed c (decideCandidateGrant s fed c b) s")
  have r: "r = None" using Cons.prems(1) t by (cases r) auto
  show ?case
  proof (cases p)
    case True
    then show ?thesis using Cons.prems t r tryCandidate_shrinks [of E fed c s b s'] by auto
  next
    case False
    then have d: "drainBufferedRO E fed (cHandle c) s = (None, t)" using tryCandidate_cases t r by blast
    have "\<forall>c\<in>set cs. pendingNER (getOrCreateNs t fed (cHandle c))"
      using Cons.prems(2) frame_pending [OF frame_drainRO [OF d]] by simp
    moreover have "tryCandidates E fed b cs t = (True, None, s')" using Cons.prems(1) t r False by simp
    ultimately have "shrinks fed t s' \<and> (\<exists>h. weight s' fed h < weight t fed h)" using Cons.IH by blast
    with shrinks_drainRO [OF d] show ?thesis using shrinks_trans less_le_trans unfolding shrinks_def by blast
  qed
qed simp

lemma candidates_pending: "c \<in> set (pendingGrantCandidates s fed) \<Longrightarrow> pendingNER (getOrCreateNs s fed (cHandle c))"
  by (auto simp: pendingGrantCandidates_def getOrCreateNs_def getNs_def mem_fedKeys Let_def)

lemma evaluatorPass_less:
  assumes "evaluatorPass E fed s = (True, None, s')"
  shows "total_weight fed s' < total_weight fed s"
proof -
  obtain s1 where s1: "completePendingEnables E fed s = (None, s1)"
    using assms by (auto simp: evaluatorPass_def split: prod.splits option.splits)
  obtain s2 where s2: "flushPendingMessages E fed s1 = (None, s2)"
    using assms s1 by (auto simp: evaluatorPass_def split: prod.splits option.splits)
  have t: "tryCandidates E fed (LBTSBound (regulatingSnapshot s2 fed)) (sort_key cHandle (pendingGrantCandidates s2 fed)) s2
      = (True, None, s')"
    using assms s1 s2 by (simp add: evaluatorPass_def Let_def)
  have "shrinks fed s2 s' \<and> (\<exists>h. weight s' fed h < weight s2 fed h)"
    by (rule tryCandidates_shrinks [OF t]) (auto intro: candidates_pending)
  then show ?thesis
    using completePendingEnables_shrinks [OF s1] flushPending_shrinks [OF s2] total_weight_less [of fed s s']
      shrinks_trans less_le_trans unfolding shrinks_def by meson
qed

section \<open>The loop\<close>

function grantLoop :: "env \<Rightarrow> fed_name \<Rightarrow> manager \<Rightarrow> time_error option \<times> manager" where
  "grantLoop E fed s =
     (case evaluatorPass E fed s of
        (progress, Some err, s') \<Rightarrow> (Some err, s')
      | (progress, None, s') \<Rightarrow> if progress then grantLoop E fed s' else (None, s'))"
  by pat_completeness auto

termination
  by (relation "measure (\<lambda>(E, fed, s). total_weight fed s)") (auto intro: evaluatorPass_less dest: sym)

declare grantLoop.simps [simp del]

definition tryGrantPending :: "env \<Rightarrow> fed_name \<Rightarrow> manager \<Rightarrow> time_error option \<times> manager" where
  "tryGrantPending E fed s =
     (case grantLoop E fed s of
        (Some err, s) \<Rightarrow> (Some err, if err \<noteq> ErrFederationHalted then markDeliveryRetry fed s else s)
      | (None, s) \<Rightarrow> (None, s))"

end
