(* ===== verification/Time_Services.thy ===== *)
theory Time_Services
  imports Time_Evaluator "HOL-Library.Char_ord" "HOL-Library.List_Lexorder"
begin

text \<open>
  The services of the time manager: enabling and disabling of regulation, constraint and
  asynchronous delivery, lookahead, the five advance services, resignation and destruction,
  stall detection (\<open>stall.go\<close>), admission of messages (\<open>validate_tso.go\<close>,
  \<open>asyncdelivery.go\<close>), retraction (\<open>retraction_service.go\<close>, \<open>retract.go\<close>) and the queries
  (\<open>metrics.go\<close>, \<open>galt.go\<close>).  A service returns its error, if any, and the new state.
\<close>

section \<open>Regulation and constraint\<close>

definition requestEnable :: "env \<Rightarrow> fed_name \<Rightarrow> handle \<Rightarrow> bool \<Rightarrow> int \<Rightarrow> manager \<Rightarrow> time_error option \<times> manager" where
  "requestEnable E fed h regulation la s =
     (if isHalted s fed then (Some ErrFederationHalted, s)
      else if regulation \<and> \<not> validLookahead la then (Some ErrTimeInvalidLookahead, s)
      else case validateEnableRequest (getFs s fed h) (getNs s fed h) regulation of
        Some err \<Rightarrow> (Some err, s)
      | None \<Rightarrow>
          let fs = getOrCreateFs s fed h;
              fs = (if regulation then fs\<lparr>regulationPending := True, regulationLookahead := la\<rparr>
                    else fs\<lparr>constrainedPending := True\<rparr>);
              s = putNs fed h (getOrCreateNs s fed h) (putFs fed h fs s)
          in case tryGrantPending E fed s of
               (Some ErrFederateOverflow, s) \<Rightarrow> (None, s)
             | (r, s) \<Rightarrow> (r, s))"

definition EnableRegulation :: "env \<Rightarrow> fed_name \<Rightarrow> handle \<Rightarrow> int \<Rightarrow> manager \<Rightarrow> time_error option \<times> manager" where
  "EnableRegulation E fed h la s = requestEnable E fed h True la s"

definition EnableConstrained :: "env \<Rightarrow> fed_name \<Rightarrow> handle \<Rightarrow> manager \<Rightarrow> time_error option \<times> manager" where
  "EnableConstrained E fed h s = requestEnable E fed h False 0 s"

definition disableRegulation :: "fed_name \<Rightarrow> handle \<Rightarrow> manager \<Rightarrow> time_error option \<times> manager" where
  "disableRegulation fed h s =
     (case getFs s fed h of
        None \<Rightarrow> (Some ErrTimeNotRegulating, s)
      | Some fs \<Rightarrow>
          if \<not> regulating fs then (Some ErrTimeNotRegulating, s)
          else (None, putFs fed h (fs\<lparr>regulating := False, lookahead := 0, lookaheadTarget := 0, reducingLookahead := False,
                  lookaheadOriginTime := 0, lookaheadOriginValue := 0\<rparr>) s))"

definition DisableRegulation :: "env \<Rightarrow> fed_name \<Rightarrow> handle \<Rightarrow> manager \<Rightarrow> time_error option \<times> manager" where
  "DisableRegulation E fed h s =
     (if isHalted s fed then (Some ErrFederationHalted, s)
      else case disableRegulation fed h s of
        (Some err, s) \<Rightarrow> (Some err, s)
      | (None, s) \<Rightarrow> tryGrantPending E fed s)"

definition modifiedLookahead :: "int \<Rightarrow> nerState option \<Rightarrow> federateState \<Rightarrow> federateState" where
  "modifiedLookahead la ns fs =
     (if la \<ge> lookahead fs
      then fs\<lparr>lookahead := la, lookaheadTarget := 0, reducingLookahead := False, lookaheadOriginTime := 0,
              lookaheadOriginValue := 0\<rparr>
      else let fs = (if \<not> reducingLookahead fs
                     then fs\<lparr>lookaheadOriginValue := lookahead fs,
                             lookaheadOriginTime := (case ns of Some n \<Rightarrow> currentTime n | None \<Rightarrow> 0)\<rparr>
                     else fs)
           in fs\<lparr>lookaheadTarget := la, reducingLookahead := True\<rparr>)"

definition ModifyLookahead :: "env \<Rightarrow> fed_name \<Rightarrow> handle \<Rightarrow> int \<Rightarrow> manager \<Rightarrow> time_error option \<times> manager" where
  "ModifyLookahead E fed h la s =
     (if isHalted s fed then (Some ErrFederationHalted, s)
      else if \<not> validLookahead la then (Some ErrTimeInvalidLookahead, s)
      else case getFs s fed h of
        None \<Rightarrow> (Some ErrTimeNotRegulating, s)
      | Some fs \<Rightarrow>
          if \<not> regulating fs then (Some ErrTimeNotRegulating, s)
          else if (case getNs s fed h of Some ns \<Rightarrow> pendingNER ns | None \<Rightarrow> False) then (Some ErrTimeAdvancingState, s)
          else tryGrantPending E fed (putFs fed h (modifiedLookahead la (getNs s fed h) fs) s))"

definition disableConstrained :: "fed_name \<Rightarrow> handle \<Rightarrow> manager \<Rightarrow> time_error option \<times> manager" where
  "disableConstrained fed h s =
     (case getFs s fed h of
        None \<Rightarrow> (Some ErrTimeNotConstrained, s)
      | Some fs \<Rightarrow>
          if \<not> constrained fs then (Some ErrTimeNotConstrained, s)
          else (None, putFs fed h (fs\<lparr>constrained := False, preservedReceiveTime := None, receivedTSOTime := None\<rparr>) s))"

definition ignoreOverflow :: "time_error option \<times> manager \<Rightarrow> time_error option \<times> manager" where
  "ignoreOverflow r = (case r of (Some ErrFederateOverflow, s) \<Rightarrow> (None, s) | (e, s) \<Rightarrow> (e, s))"

definition DisableConstrained :: "env \<Rightarrow> fed_name \<Rightarrow> handle \<Rightarrow> manager \<Rightarrow> time_error option \<times> manager" where
  "DisableConstrained E fed h s =
     (if isHalted s fed then (Some ErrFederationHalted, s)
      else let previous = getOrCreateFs s fed h in
        case disableConstrained fed h s of
          (Some err, s) \<Rightarrow> (Some err, s)
        | (None, s) \<Rightarrow>
            (case drainAllBufferedTSO E fed h s of
               (None, s) \<Rightarrow> ignoreOverflow (tryGrantPending E fed s)
             | (Some ErrFederateOverflow, s) \<Rightarrow> ignoreOverflow (tryGrantPending E fed (markDeliveryRetry fed s))
             | (Some err, s) \<Rightarrow> (Some err, putFs fed h previous s)))"

definition EnableAsynchronousDelivery :: "env \<Rightarrow> fed_name \<Rightarrow> handle \<Rightarrow> manager \<Rightarrow> time_error option \<times> manager" where
  "EnableAsynchronousDelivery E fed h s =
     (if isHalted s fed then (Some ErrFederationHalted, s)
      else let ns = getOrCreateNs s fed h in
        if asyncDelivery ns then (Some ErrTimeAlreadyAsynchronous, putNs fed h ns s)
        else case drainBufferedRO E fed h (putNs fed h (ns\<lparr>asyncDelivery := True\<rparr>) s) of
          (None, s) \<Rightarrow> (None, s)
        | (Some ErrFederateOverflow, s) \<Rightarrow> (None, markDeliveryRetry fed s)
        | (Some err, s) \<Rightarrow> (Some err, putNs fed h ((getOrCreateNs s fed h)\<lparr>asyncDelivery := False\<rparr>) s))"

definition DisableAsynchronousDelivery :: "fed_name \<Rightarrow> handle \<Rightarrow> manager \<Rightarrow> time_error option \<times> manager" where
  "DisableAsynchronousDelivery fed h s =
     (if isHalted s fed then (Some ErrFederationHalted, s)
      else let ns = getOrCreateNs s fed h in
        if \<not> asyncDelivery ns then (Some ErrTimeNotAsynchronous, putNs fed h ns s)
        else (None, putNs fed h (ns\<lparr>asyncDelivery := False\<rparr>) s))"

section \<open>Advance requests\<close>

definition pendingEnableError :: "manager \<Rightarrow> fed_name \<Rightarrow> handle \<Rightarrow> time_error option" where
  "pendingEnableError s fed h =
     (case getFs s fed h of
        None \<Rightarrow> None
      | Some fs \<Rightarrow>
          if regulationPending fs then Some ErrTimeRegulationPending
          else if constrainedPending fs then Some ErrTimeConstrainedPending
          else None)"

definition recordAdvance :: "env \<Rightarrow> fed_name \<Rightarrow> handle \<Rightarrow> int \<Rightarrow> AdvanceMode \<Rightarrow> manager \<Rightarrow> time_error option \<times> manager" where
  "recordAdvance E fed h t m s =
     (if isHalted s fed then (Some ErrFederationHalted, s)
      else case pendingEnableError s fed h of
        Some err \<Rightarrow> (Some err, s)
      | None \<Rightarrow>
          (case checkAdvanceTarget (case getNs s fed h of Some ns \<Rightarrow> currentTime ns | None \<Rightarrow> 0) t of
             Some err \<Rightarrow> (Some err, s)
           | None \<Rightarrow>
               let ns = getOrCreateNs s fed h in
               if pendingNER ns then (Some ErrTimeAdvancingState, putNs fed h ns s)
               else (None, putNs fed h (ns\<lparr>pendingNER := True, requestedTime := t, mode := m, flushMinimum := None,
                       pendingSince := Some (eNow E (calls s))\<rparr>) (tick s))))"

definition dispatchAdvance :: "env \<Rightarrow> fed_name \<Rightarrow> handle \<Rightarrow> int \<Rightarrow> AdvanceMode \<Rightarrow> manager \<Rightarrow> time_error option \<times> manager" where
  "dispatchAdvance E fed h t m s =
     (case recordAdvance E fed h t m s of
        (Some err, s) \<Rightarrow> (Some err, s)
      | (None, s) \<Rightarrow> tryGrantPending E fed s)"

definition NextMessageRequest :: "env \<Rightarrow> fed_name \<Rightarrow> handle \<Rightarrow> int \<Rightarrow> manager \<Rightarrow> time_error option \<times> manager" where
  "NextMessageRequest E fed h t s = dispatchAdvance E fed h t ModeNER s"

definition NextMessageRequestAvailable :: "env \<Rightarrow> fed_name \<Rightarrow> handle \<Rightarrow> int \<Rightarrow> manager \<Rightarrow> time_error option \<times> manager" where
  "NextMessageRequestAvailable E fed h t s = dispatchAdvance E fed h t ModeNMRA s"

definition TimeAdvanceRequest :: "env \<Rightarrow> fed_name \<Rightarrow> handle \<Rightarrow> int \<Rightarrow> manager \<Rightarrow> time_error option \<times> manager" where
  "TimeAdvanceRequest E fed h t s = dispatchAdvance E fed h t ModeTAR s"

definition TimeAdvanceRequestAvailable :: "env \<Rightarrow> fed_name \<Rightarrow> handle \<Rightarrow> int \<Rightarrow> manager \<Rightarrow> time_error option \<times> manager" where
  "TimeAdvanceRequestAvailable E fed h t s = dispatchAdvance E fed h t ModeTARA s"

definition FlushQueueRequest :: "env \<Rightarrow> fed_name \<Rightarrow> handle \<Rightarrow> int \<Rightarrow> manager \<Rightarrow> time_error option \<times> manager" where
  "FlushQueueRequest E fed h t s = dispatchAdvance E fed h t ModeFQR s"

section \<open>Leaving\<close>

definition OnFederateResign :: "env \<Rightarrow> fed_name \<Rightarrow> handle \<Rightarrow> manager \<Rightarrow> manager" where
  "OnFederateResign E fed h s =
     (let s = s\<lparr>ner := del (fed, h) (ner s), states := del (fed, h) (states s),
                retractions := ForgetRetractionRecipient fed h (retractions s)\<rparr>
      in snd (tryGrantPending E fed s))"

definition drop_fed :: "fed_name \<Rightarrow> (key \<times> 'v) list \<Rightarrow> (key \<times> 'v) list" where
  "drop_fed fed m = filter (\<lambda>((f, _), _). f \<noteq> fed) m"

definition OnFederationDestroyed :: "fed_name \<Rightarrow> manager \<Rightarrow> manager" where
  "OnFederationDestroyed fed s =
     s\<lparr>retractions := (retractions s)\<lparr>federations := del fed (federations (retractions s))\<rparr>,
       stallTimeouts := del fed (stallTimeouts s), scheduledSaves := del fed (scheduledSaves s),
       deliveryRetries := filter (\<lambda>f. f \<noteq> fed) (deliveryRetries s),
       ner := drop_fed fed (ner s), states := drop_fed fed (states s),
       halted := filter (\<lambda>f. f \<noteq> fed) (halted s)\<rparr>"

section \<open>Stalls\<close>

definition federationMembers :: "manager \<Rightarrow> fed_name \<Rightarrow> handle list" where
  "federationMembers s fed = sort (remdups (fedKeys fed (states s) @ fedKeys fed (ner s)))"

definition markHalted :: "fed_name \<Rightarrow> manager \<Rightarrow> manager" where
  "markHalted fed s = (if isHalted s fed then s else s\<lparr>halted := halted s @ [fed]\<rparr>)"

definition stall_candidates :: "manager \<Rightarrow> fed_name \<Rightarrow> handle list" where
  "stall_candidates s fed =
     sort (filter (\<lambda>h. pendingNER (the (getNs s fed h)) \<and> \<not> scheduledRecipientPaused s fed h) (fedKeys fed (ner s)))"

definition stall_trigger :: "int \<Rightarrow> int \<Rightarrow> manager \<Rightarrow> fed_name \<Rightarrow> handle option" where
  "stall_trigger default_timeout now s fed =
     (let timeout = (case map_of (stallTimeouts s) fed of Some t \<Rightarrow> t | None \<Rightarrow> default_timeout) in
      find (\<lambda>h. case pendingSince (the (getNs s fed h)) of Some since \<Rightarrow> now - since \<ge> timeout | None \<Rightarrow> False)
        (stall_candidates s fed))"

definition HaltCauseStall :: string where "HaltCauseStall = ''stall''"

fun notifyAll :: "env \<Rightarrow> fed_name \<Rightarrow> event \<Rightarrow> handle list \<Rightarrow> manager \<Rightarrow> manager" where
  "notifyAll E fed e [] s = s"
| "notifyAll E fed e (h # hs) s = notifyAll E fed e hs (snd (Outbox_Send E fed h e s))"

definition haltFederation :: "env \<Rightarrow> fed_name \<Rightarrow> handle \<Rightarrow> manager \<Rightarrow> manager" where
  "haltFederation E fed trigger s =
     (let s = markHalted fed s;
          s = snd (EventLog_Append E fed (FederationHaltedRecord HaltCauseStall trigger) s)
      in notifyAll E fed (FederationHalted HaltCauseStall trigger) (federationMembers s fed) s)"

text \<open>The pending requests are read once, before the first federation is halted.\<close>

fun haltStalled :: "env \<Rightarrow> int \<Rightarrow> manager \<Rightarrow> fed_name list \<Rightarrow> manager \<Rightarrow> nat \<times> manager" where
  "haltStalled E now s0 [] s = (0, s)"
| "haltStalled E now s0 (fed # feds) s =
     (if isHalted s fed then haltStalled E now s0 feds s
      else case stall_trigger (eStallTimeout E) now s0 fed of
        None \<Rightarrow> haltStalled E now s0 feds s
      | Some trigger \<Rightarrow>
          (case haltStalled E now s0 feds (haltFederation E fed trigger s) of (n, s) \<Rightarrow> (Suc n, s)))"

definition checkStalls :: "env \<Rightarrow> manager \<Rightarrow> nat \<times> manager" where
  "checkStalls E s0 =
     (let now = eNow E (calls s0); s = tick s0;
          feds = sort (remdups (map fst (filter (\<lambda>(fed, h). pendingNER (the (getNs s fed h)) \<and>
                   \<not> scheduledRecipientPaused s fed h) (map fst (ner s)))))
      in haltStalled E now s feds s)"

section \<open>Admission of messages\<close>

definition ValidateOutgoingTSO :: "manager \<Rightarrow> fed_name \<Rightarrow> handle \<Rightarrow> int \<Rightarrow> time_error option" where
  "ValidateOutgoingTSO s fed h ts =
     (if ts < 0 then Some ErrTimeInvalidLogicalTime
      else case getFs s fed h of
        None \<Rightarrow> None
      | Some fs \<Rightarrow>
          if \<not> regulating fs then None
          else (case outgoingTSOBound fs (getNs s fed h) of (timeBase, la, exclusive) \<Rightarrow>
            let floor = addHorizon timeBase la in
            if \<not> Unbounded floor \<and> timestampAtOrBeyond ts (Limit floor) exclusive then None
            else Some ErrTimeInvalidLogicalTime))"

definition ShouldDeliverNow :: "manager \<Rightarrow> fed_name \<Rightarrow> handle \<Rightarrow> int \<Rightarrow> bool" where
  "ShouldDeliverNow s fed h ts =
     (if (case map_of (scheduledSaves s) fed of
            Some barrier \<Rightarrow> ts > target barrier \<or> scheduledRecipientPaused s fed h
          | None \<Rightarrow> False)
      then False else \<not> isConstrained s fed h)"

definition classifyImmediateDelivery :: "manager \<Rightarrow> fed_name \<Rightarrow> MessageDelivery \<Rightarrow> bool \<Rightarrow> bool" where
  "classifyImmediateDelivery s fed d timeEngaged =
     (let ns = getNs s fed (dRecipient d);
          current = (case ns of Some n \<Rightarrow> currentTime n | None \<Rightarrow> 0);
          deliverNow = \<not> timeEngaged;
          deliverNow = (if dReceiveOrder d
            then \<not> isConstrained s fed (dRecipient d) \<or> (case ns of Some n \<Rightarrow> pendingNER n \<or> asyncDelivery n | None \<Rightarrow> False)
            else deliverNow);
          deliverNow = (if internalTSO (dEvent d) then dTimestamp d \<le> current else deliverNow);
          deliverNow = (case map_of (scheduledSaves s) fed of
              Some barrier \<Rightarrow> if \<not> dReceiveOrder d \<and> dTimestamp d > target barrier then False else deliverNow
            | None \<Rightarrow> deliverNow)
      in if scheduledRecipientPaused s fed (dRecipient d) then False else deliverNow)"

definition orderedDelivery :: "manager \<Rightarrow> fed_name \<Rightarrow> MessageDelivery \<Rightarrow> MessageDelivery" where
  "orderedDelivery s fed d =
     d\<lparr>dEvent := setReceivedOrder
         (if \<not> dReceiveOrder d \<and> isConstrained s fed (dRecipient d) then OrderTimestamp else OrderReceive) (dEvent d)\<rparr>"

text \<open>A reservation: the deliveries to buffer and those to hand out at once.\<close>

record tsoBufferReservation =
  buffered :: "MessageDelivery list"
  immediate :: "MessageDelivery list"

definition reserveTSO :: "manager \<Rightarrow> fed_name \<Rightarrow> MessageDelivery list \<Rightarrow> bool \<Rightarrow> tsoBufferReservation" where
  "reserveTSO s fed ds classify =
     (let now = (\<lambda>d. classifyImmediateDelivery s fed d (if classify then isConstrained s fed (dRecipient d) else True))
      in \<lparr>buffered = map (orderedDelivery s fed) (filter (\<lambda>d. \<not> now d) ds),
          immediate = map (orderedDelivery s fed) (filter now ds)\<rparr>)"

definition ReserveTSO :: "manager \<Rightarrow> fed_name \<Rightarrow> MessageDelivery list \<Rightarrow> tsoBufferReservation" where
  "ReserveTSO s fed ds = reserveTSO s fed ds True"

definition ReserveOutgoingTSO ::
  "manager \<Rightarrow> fed_name \<Rightarrow> handle \<Rightarrow> int \<Rightarrow> MessageDelivery list \<Rightarrow> time_error + tsoBufferReservation" where
  "ReserveOutgoingTSO s fed snd_h ts ds =
     (case ValidateOutgoingTSO s fed snd_h ts of
        Some err \<Rightarrow> Inl err
      | None \<Rightarrow> Inr (reserveTSO s fed ds True))"

definition bufferDelivery :: "fed_name \<Rightarrow> MessageDelivery \<Rightarrow> manager \<times> bool \<Rightarrow> manager \<times> bool" where
  "bufferDelivery fed d sp =
     (case sp of (s, poke) \<Rightarrow>
       let ns = getOrCreateNs s fed (dRecipient d);
           b = \<lparr>timestamp = dTimestamp d, bevent = dEvent d, sender = dSender d,
                retractionHandle = dRetractionHandle d, receiveOrder = dReceiveOrder d\<rparr>;
           ns = (if dReceiveOrder d then ns\<lparr>roBuffer := roBuffer ns @ [b]\<rparr> else ns\<lparr>tsoBuffer := tsoBuffer ns @ [b]\<rparr>)
       in (putNs fed (dRecipient d) ns s, poke \<or> (pendingNER ns \<and> usesNextMessageTarget (mode ns))))"

definition tsoReservation_Commit :: "env \<Rightarrow> fed_name \<Rightarrow> tsoBufferReservation \<Rightarrow> manager \<Rightarrow> manager" where
  "tsoReservation_Commit E fed r s =
     (case fold (bufferDelivery fed) (buffered r) (s, False) of (s, poke) \<Rightarrow>
       let s = recordRetraction fed (immediate r) s
       in if poke then snd (tryGrantPending E fed s) else s)"

definition BufferTSOWithRetraction ::
  "env \<Rightarrow> fed_name \<Rightarrow> handle \<Rightarrow> int \<Rightarrow> event \<Rightarrow> handle \<Rightarrow> nat \<Rightarrow> manager \<Rightarrow> time_error option \<times> manager" where
  "BufferTSOWithRetraction E fed h ts evt snd_h rh s =
     (let r = reserveTSO s fed [\<lparr>dRecipient = h, dTimestamp = ts, dEvent = evt, dSender = snd_h,
                dRetractionHandle = rh, dReceiveOrder = False\<rparr>] False in
      case immediate r of
        [] \<Rightarrow> (None, tsoReservation_Commit E fed r s)
      | d # _ \<Rightarrow>
          (case Outbox_Send E fed h (dEvent d) s of
             (Some err, s) \<Rightarrow> (Some err, s)
           | (None, s) \<Rightarrow> (None, tsoReservation_Commit E fed r s)))"

definition BufferTSO :: "env \<Rightarrow> fed_name \<Rightarrow> handle \<Rightarrow> int \<Rightarrow> event \<Rightarrow> manager \<Rightarrow> time_error option \<times> manager" where
  "BufferTSO E fed h ts evt s = BufferTSOWithRetraction E fed h ts evt 0 0 s"

section \<open>Retraction\<close>

definition matches :: "handle \<Rightarrow> nat \<Rightarrow> bufferedTSOEvent \<Rightarrow> bool" where
  "matches snd_h rh b \<longleftrightarrow> sender b = snd_h \<and> retractionHandle b = rh"

definition map_fed :: "fed_name \<Rightarrow> ('v \<Rightarrow> 'v) \<Rightarrow> (key \<times> 'v) list \<Rightarrow> (key \<times> 'v) list" where
  "map_fed fed f m = map (\<lambda>(k, v). (k, if fst k = fed then f v else v)) m"

definition queued_copies :: "manager \<Rightarrow> fed_name \<Rightarrow> handle \<Rightarrow> nat \<Rightarrow> nat" where
  "queued_copies s fed snd_h rh =
     sum_list (map (\<lambda>(k, ns). if fst k = fed then length (filter (matches snd_h rh) (tsoBuffer ns)) else 0) (ner s))"

definition RetractMessage :: "fed_name \<Rightarrow> handle \<Rightarrow> nat \<Rightarrow> manager \<Rightarrow> nat \<times> manager" where
  "RetractMessage fed snd_h rh s =
     (if rh = 0 then (0, s)
      else (queued_copies s fed snd_h rh,
            s\<lparr>ner := map_fed fed (\<lambda>ns. ns\<lparr>tsoBuffer := filter (\<lambda>b. \<not> matches snd_h rh b) (tsoBuffer ns)\<rparr>) (ner s)\<rparr>))"

definition DiscardObjectDeletions :: "fed_name \<Rightarrow> nat list \<Rightarrow> manager \<Rightarrow> manager" where
  "DiscardObjectDeletions fed objects s =
     (if objects = [] then s
      else s\<lparr>ner := map_fed fed
               (\<lambda>ns. ns\<lparr>tsoBuffer := filter (\<lambda>b. \<not> (deletionObject b \<noteq> 0 \<and> deletionObject b \<in> set objects)) (tsoBuffer ns)\<rparr>)
               (ner s)\<rparr>)"

definition removeRetractedMessages :: "bufferedTSOEvent list \<Rightarrow> handle \<Rightarrow> nat \<Rightarrow> bufferedTSOEvent list" where
  "removeRetractedMessages buffer snd_h ident = filter (\<lambda>b. sender b \<noteq> snd_h \<or> retractionHandle b \<noteq> ident) buffer"

definition retractionFloor :: "manager \<Rightarrow> fed_name \<Rightarrow> handle \<Rightarrow> time_error + TimeBound" where
  "retractionFloor s fed snd_h =
     (case getFs s fed snd_h of
        None \<Rightarrow> Inl ErrTimeNotRegulating
      | Some fs \<Rightarrow>
          if \<not> regulating fs then Inl ErrTimeNotRegulating
          else let base = (case getNs s fed snd_h of
                  Some ns \<Rightarrow> if pendingNER ns then requestedTime ns else currentTime ns | None \<Rightarrow> 0)
               in Inr (addHorizon base (lookahead fs)))"

definition message_of :: "fed_name \<Rightarrow> handle \<Rightarrow> nat \<Rightarrow> retractionIDStore \<Rightarrow> RetractionMessageState option" where
  "message_of fed snd_h ident r =
     (case map_of (federations r) fed of
        None \<Rightarrow> None
      | Some f \<Rightarrow> (case map_of (producers f) snd_h of None \<Rightarrow> None | Some p \<Rightarrow> map_of (messages p) ident))"

definition retractableMessage ::
  "manager \<Rightarrow> fed_name \<Rightarrow> handle \<Rightarrow> nat \<Rightarrow> TimeBound \<Rightarrow> time_error + RetractionMessageState" where
  "retractableMessage s fed snd_h ident flr =
     (case message_of fed snd_h ident (retractions s) of
        None \<Rightarrow> Inl ErrRetractionHandleInvalid
      | Some msg \<Rightarrow>
          if rmRetracted msg \<or> Unbounded flr \<or> \<not> timestampAtOrBeyond (rmTimestamp msg) (Limit flr) True
          then Inl ErrRetractionTooLate else Inr msg)"

definition set_retracted :: "fed_name \<Rightarrow> handle \<Rightarrow> nat \<Rightarrow> retractionIDStore \<Rightarrow> retractionIDStore" where
  "set_retracted fed snd_h ident r =
     (case map_of (federations r) fed of
        None \<Rightarrow> r
      | Some f \<Rightarrow> (case map_of (producers f) snd_h of
            None \<Rightarrow> r
          | Some p \<Rightarrow> (case map_of (messages p) ident of
                None \<Rightarrow> r
              | Some msg \<Rightarrow> set_producer fed snd_h (p\<lparr>messages := put ident (msg\<lparr>rmRetracted := True\<rparr>) (messages p)\<rparr>) r)))"

definition reserveRetractionCallbacks :: "env \<Rightarrow> fed_name \<Rightarrow> (handle \<times> event) list \<Rightarrow> manager \<Rightarrow> time_error option \<times> manager" where
  "reserveRetractionCallbacks E fed callbacks s =
     (if callbacks = [] then (None, s)
      else if eReservable E then Outbox_Reserve E fed callbacks s
      else if length callbacks > 1 then (Some ErrOther, s) else (None, s))"

text \<open>
  A cleanup is what the object management does in the transaction: its answers to being prepared
  and to being committed.
\<close>

type_synonym cleanup = "time_error option \<times> time_error option"

definition publishRetractionCallbacks ::
  "env \<Rightarrow> fed_name \<Rightarrow> (handle \<times> event) list \<Rightarrow> cleanup option \<Rightarrow> manager \<Rightarrow> time_error option \<times> manager" where
  "publishRetractionCallbacks E fed callbacks cl s =
     (case (case callbacks of
          [] \<Rightarrow> (None, s)
        | (h, e) # rest \<Rightarrow> if eReservable E then Outbox_Commit E fed callbacks s else Outbox_Send E fed h e s) of
        (Some err, s) \<Rightarrow> (Some err, s)
      | (None, s) \<Rightarrow> (case cl of None \<Rightarrow> None | Some (_, committed) \<Rightarrow> committed, s))"

definition RetractWithCleanup ::
  "env \<Rightarrow> fed_name \<Rightarrow> handle \<Rightarrow> nat \<Rightarrow> cleanup option \<Rightarrow> manager \<Rightarrow> time_error option \<times> manager" where
  "RetractWithCleanup E fed snd_h ident cl s =
     (case retractionFloor s fed snd_h of
        Inl err \<Rightarrow> (Some err, s)
      | Inr flr \<Rightarrow>
          (case retractableMessage s fed snd_h ident flr of
             Inl err \<Rightarrow> (Some err, s)
           | Inr msg \<Rightarrow>
               let callbacks = map (\<lambda>h. (h, RequestRetraction snd_h ident)) (rmDelivered msg) in
               (case reserveRetractionCallbacks E fed callbacks s of
                  (Some err, s) \<Rightarrow> (Some err, s)
                | (None, s) \<Rightarrow>
                    (case (case cl of None \<Rightarrow> None | Some (prepared, _) \<Rightarrow> prepared) of
                       Some err \<Rightarrow> (Some err, s)
                     | None \<Rightarrow>
                         (case publishRetractionCallbacks E fed callbacks cl s of
                            (Some err, s) \<Rightarrow> (Some err, s)
                          | (None, s) \<Rightarrow>
                              (None, s\<lparr>ner := map_fed fed (\<lambda>ns. ns\<lparr>tsoBuffer := removeRetractedMessages (tsoBuffer ns) snd_h ident,
                                      roBuffer := removeRetractedMessages (roBuffer ns) snd_h ident\<rparr>) (ner s),
                                  retractions := set_retracted fed snd_h ident (retractions s)\<rparr>))))))"

definition RetractWithError :: "env \<Rightarrow> fed_name \<Rightarrow> handle \<Rightarrow> nat \<Rightarrow> manager \<Rightarrow> time_error option \<times> manager" where
  "RetractWithError E fed snd_h ident s = RetractWithCleanup E fed snd_h ident None s"

definition RetractMessageNotify :: "env \<Rightarrow> fed_name \<Rightarrow> handle \<Rightarrow> nat \<Rightarrow> manager \<Rightarrow> nat \<times> manager" where
  "RetractMessageNotify E fed snd_h rh s =
     (let removed = queued_copies s fed snd_h rh in
      case RetractWithError E fed snd_h rh s of
        (Some err, s) \<Rightarrow> (0, s)
      | (None, s) \<Rightarrow> (removed, s))"

section \<open>Queries\<close>

record MetricsSnapshot =
  mRegulating :: bool
  mConstrained :: bool
  mAsynchronousDelivery :: bool
  mAdvancing :: bool
  mCurrentTime :: int
  mLookahead :: "int option"
  mGALT :: "int option"
  mLITS :: "int option"
  mGALTUnbounded :: bool
  mLITSUnbounded :: bool
  mTSOQueued :: nat
  mROQueued :: nat

definition leastQueued :: "bufferedTSOEvent list \<Rightarrow> int option" where
  "leastQueued items = foldl (\<lambda>lits item.
     if internalTSO (bevent item) then lits
     else case lits of None \<Rightarrow> Some (timestamp item) | Some l \<Rightarrow> if timestamp item < l then Some (timestamp item) else lits)
     None items"

definition Metrics :: "manager \<Rightarrow> fed_name \<Rightarrow> handle \<Rightarrow> MetricsSnapshot" where
  "Metrics s fed h =
     (let fs = getFs s fed h; ns = getNs s fed h; bound = availableHorizonOf s fed h;
          galt = (case bound of Some b \<Rightarrow> Some (horizonScalar b) | None \<Rightarrow> None);
          galtU = (case bound of Some b \<Rightarrow> Unbounded b | None \<Rightarrow> False);
          lits = (case ns of Some n \<Rightarrow> leastQueued (tsoBuffer n) | None \<Rightarrow> None);
          lower = (case galt of None \<Rightarrow> False
                   | Some g \<Rightarrow> (case lits of None \<Rightarrow> True | Some l \<Rightarrow> \<not> galtU \<and> g < l))
      in \<lparr>mRegulating = (case fs of Some f \<Rightarrow> regulating f | None \<Rightarrow> False),
          mConstrained = (case fs of Some f \<Rightarrow> constrained f | None \<Rightarrow> False),
          mAsynchronousDelivery = (case ns of Some n \<Rightarrow> asyncDelivery n | None \<Rightarrow> False),
          mAdvancing = (case ns of Some n \<Rightarrow> pendingNER n | None \<Rightarrow> False),
          mCurrentTime = (case ns of Some n \<Rightarrow> currentTime n | None \<Rightarrow> 0),
          mLookahead = (case fs of Some f \<Rightarrow> if regulating f then Some (lookahead f) else None | None \<Rightarrow> None),
          mGALT = galt, mLITS = (if lower then galt else lits),
          mGALTUnbounded = galtU, mLITSUnbounded = (if lower then galtU else False),
          mTSOQueued = (case ns of Some n \<Rightarrow> length (filter (\<lambda>b. \<not> internalTSO (bevent b)) (tsoBuffer n)) | None \<Rightarrow> 0),
          mROQueued = (case ns of Some n \<Rightarrow> length (roBuffer n) | None \<Rightarrow> 0)\<rparr>)"

definition QueryGALT :: "manager \<Rightarrow> fed_name \<Rightarrow> handle \<Rightarrow> int option" where
  "QueryGALT s fed h = mGALT (Metrics s fed h)"

definition QueryGALTBound :: "manager \<Rightarrow> fed_name \<Rightarrow> handle \<Rightarrow> TimeBound option" where
  "QueryGALTBound s fed h =
     (let m = Metrics s fed h in
      case mGALT m of None \<Rightarrow> None | Some g \<Rightarrow> Some \<lparr>Limit = g, Unbounded = mGALTUnbounded m\<rparr>)"

definition QueryLITS :: "manager \<Rightarrow> fed_name \<Rightarrow> handle \<Rightarrow> int option" where
  "QueryLITS s fed h = mLITS (Metrics s fed h)"

definition QueryLITSBound :: "manager \<Rightarrow> fed_name \<Rightarrow> handle \<Rightarrow> TimeBound option" where
  "QueryLITSBound s fed h =
     (let m = Metrics s fed h in
      case mLITS m of None \<Rightarrow> None | Some g \<Rightarrow> Some \<lparr>Limit = g, Unbounded = mLITSUnbounded m\<rparr>)"

record TimeFederateState =
  tfHandle :: handle
  tfLookahead :: int
  tfRegulating :: bool
  tfConstrained :: bool
  tfCurrentTime :: int
  tfHasPendingRequest :: bool
  tfPendingRequestTime :: int

definition Snapshot :: "manager \<Rightarrow> fed_name \<Rightarrow> TimeFederateState list \<times> TimeBound" where
  "Snapshot s fed =
     (let hs = federationMembers s fed;
          row = (\<lambda>h. let raw = getOrCreateFs s fed h; ns = getOrCreateNs s fed h in
            \<lparr>tfHandle = h, tfLookahead = lookahead raw, tfRegulating = regulating raw, tfConstrained = constrained raw,
             tfCurrentTime = currentTime ns, tfHasPendingRequest = pendingNER ns, tfPendingRequestTime = requestedTime ns\<rparr>);
          regSet = map (\<lambda>h. regulatingBoundSnapshot h (getOrCreateFs s fed h) (getNs s fed h))
                     (filter (\<lambda>h. regulating (getOrCreateFs s fed h)) hs);
          bound = LBTSBound regSet
      in (map row hs, \<lparr>Limit = horizonScalar bound, Unbounded = Unbounded bound\<rparr>))"

end
