(* ===== verification/Retraction_History.thy ===== *)
theory Retraction_History
  imports Time_Services
begin

text \<open>
  The ledger of message identifiers over its whole life: in every history of reservations, commits,
  releases, deliveries, retractions and departures, the compressed ranges hold exactly the
  identifiers that were committed.
\<close>

section \<open>Histories\<close>

text \<open>
  \<open>ledger_run s C\<close>: the store \<open>s\<close> after a history in which \<open>C\<close> are the identifiers that producers of the
  federations that still exist have committed.
\<close>

inductive ledger_run :: "retractionIDStore \<Rightarrow> (fed_name \<times> handle \<times> nat) set \<Rightarrow> bool" where
  ledger_new: "ledger_run \<lparr>next_token = 0, federations = []\<rparr> {}"
| ledger_reserve: "ledger_run s C \<Longrightarrow> i \<le> MaxUint64 \<Longrightarrow> ledger_run (snd (ReserveRetractionID fed h i msg s)) C"
| ledger_commit: "ledger_run s C \<Longrightarrow> reservation_Commit r s = (e, r', s') \<Longrightarrow>
    ledger_run s' (if e = None \<and> \<not> rv_done r then insert (rv_fed r, rv_producer r, rv_id r) C else C)"
| ledger_release: "ledger_run s C \<Longrightarrow> ledger_run (snd (reservation_Release r s)) C"
| ledger_deliver: "ledger_run s C \<Longrightarrow> ledger_run (RecordRetractionDeliveries fed ds s) C"
| ledger_forget: "ledger_run s C \<Longrightarrow> ledger_run (ForgetRetractionRecipient fed h s) C"
| ledger_retract: "ledger_run s C \<Longrightarrow> ledger_run (set_retracted fed h i s) C"
| ledger_destroy: "ledger_run s C \<Longrightarrow> ledger_run (s\<lparr>federations := del fed (federations s)\<rparr>) {(f, h, i) \<in> C. f \<noteq> fed}"

section \<open>What the producers hold\<close>

text \<open>The accepted ranges and the identifiers in flight, which most operations leave alone.\<close>

definition idents :: "retractionProducer \<Rightarrow> RetractionIDRange list \<times> nat set" where
  "idents p = (accepted p, dom (map_of (pendingIDs p)))"

definition identsOf :: "fed_name \<Rightarrow> handle \<Rightarrow> retractionIDStore \<Rightarrow> (RetractionIDRange list \<times> nat set) option" where
  "identsOf fed h s = map_option idents (producer_of fed h s)"

definition history_at :: "nat set \<Rightarrow> (RetractionIDRange list \<times> nat set) option \<Rightarrow> bool" where
  "history_at C x \<longleftrightarrow> (case x of None \<Rightarrow> C = {} | Some (rs, ps) \<Rightarrow> canonical rs \<and> ids rs = C \<and> ps \<subseteq> {0<..MaxUint64})"

definition history_ok :: "retractionIDStore \<Rightarrow> (fed_name \<times> handle \<times> nat) set \<Rightarrow> bool" where
  "history_ok s C \<longleftrightarrow> (\<forall>fed h. history_at {x. (fed, h, x) \<in> C} (identsOf fed h s))"

lemma history_same: "history_ok s C \<Longrightarrow> (\<And>fed h. identsOf fed h s' = identsOf fed h s) \<Longrightarrow> history_ok s' C"
  by (simp add: history_ok_def)

lemma identsOf_set:
  "map_of (federations s) fed \<noteq> None \<Longrightarrow>
   identsOf fed' h' (set_producer fed h p s) = (if fed' = fed \<and> h' = h then Some (idents p) else identsOf fed' h' s)"
  by (simp add: identsOf_def producer_of_set)

lemma history_set:
  assumes "history_ok s C" "map_of (federations s) fed \<noteq> None" "history_at {x. (fed, h, x) \<in> C'} (Some (idents p))"
    and "\<And>f k x. (f, k) \<noteq> (fed, h) \<Longrightarrow> (f, k, x) \<in> C' \<longleftrightarrow> (f, k, x) \<in> C"
  shows "history_ok (set_producer fed h p s) C'"
  unfolding history_ok_def
proof (intro allI)
  fix f k
  show "history_at {x. (f, k, x) \<in> C'} (identsOf f k (set_producer fed h p s))"
    using assms(1,3) assms(4) [of f k] by (cases "f = fed \<and> k = h") (auto simp: identsOf_set [OF assms(2)] history_ok_def)
qed

lemma history_producer:
  assumes "history_ok s C" "producer_of fed h s = Some p"
  shows "history_at {x. (fed, h, x) \<in> C} (Some (idents p))"
  using assms unfolding history_ok_def identsOf_def by (metis option.simps(9))

section \<open>The operations\<close>

lemma live_producer:
  assumes "reservation_live r s = Some p"
  shows "producer_of (rv_fed r) (rv_producer r) s = Some p" "map_of (federations s) (rv_fed r) \<noteq> None"
    "rv_id r \<in> dom (map_of (pendingIDs p))"
  using assms by (auto simp: reservation_live_def producer_of_def split: option.splits if_splits)

lemma reserve_history:
  assumes "history_ok s C" "i \<le> MaxUint64"
  shows "history_ok (snd (ReserveRetractionID fed h i msg s)) C"
proof (cases "h = 0 \<or> i = 0")
  case True
  then show ?thesis using assms(1) by (simp add: ReserveRetractionID_def)
next
  case False
  obtain f t where l: "federationLocked fed s = (f, t)" by (cases "federationLocked fed s")
  note L = federationLocked_spec [OF l]
  let ?p = "producerLocked h f" and ?t = "t\<lparr>next_token := next_token t + 1\<rparr>"
  have ok: "history_ok t C" "history_ok ?t C"
    using history_same [OF assms(1)] L(2) by (simp_all add: identsOf_def producer_of_def)
  have p: "history_at {x. (fed, h, x) \<in> C} (Some (idents ?p))"
  proof (cases "producer_of fed h s")
    case None
    have "history_at {x. (fed, h, x) \<in> C} (identsOf fed h s)" using assms(1) by (simp add: history_ok_def)
    then show ?thesis using None L(3) by (simp add: history_at_def identsOf_def idents_def new_producer_def)
  next
    case (Some q)
    then show ?thesis using history_producer [OF assms(1) Some] L(3) by simp
  qed
  have fl: "map_of (federations t) fed \<noteq> None" "map_of (federations ?t) fed \<noteq> None" using L(1) by simp_all
  have "history_ok (set_producer fed h ?p t) C" by (rule history_set [OF ok(1) fl(1) p]) simp
  moreover have "history_ok (set_producer fed h (?p\<lparr>pendingIDs := put i (next_token t, msg) (pendingIDs ?p)\<rparr>) ?t) C"
    by (rule history_set [OF ok(2) fl(2)]) (use p False assms(2) in \<open>auto simp: history_at_def idents_def\<close>)
  ultimately show ?thesis using False l by (simp add: ReserveRetractionID_def Let_def)
qed

lemma commit_history:
  assumes "history_ok s C" "reservation_Commit r s = (e, r', s')"
  shows "history_ok s' (if e = None \<and> \<not> rv_done r then insert (rv_fed r, rv_producer r, rv_id r) C else C)"
proof (cases "rv_done r \<or> reservation_live r s = None")
  case True
  then show ?thesis using assms by (auto simp: reservation_Commit_def split: if_splits)
next
  case False
  then obtain p where p: "reservation_live r s = Some p" by blast
  note P = live_producer [OF p]
  have at: "history_at {x. (rv_fed r, rv_producer r, x) \<in> C} (Some (idents p))" by (rule history_producer [OF assms(1) P(1)])
  then have can: "canonical (accepted p)" "ids (accepted p) = {x. (rv_fed r, rv_producer r, x) \<in> C}"
    and i: "0 < rv_id r" "rv_id r \<le> MaxUint64" and ps: "dom (map_of (pendingIDs p)) \<subseteq> {0<..MaxUint64}"
    using P(3) by (auto simp: history_at_def idents_def)
  have one: "canonical [\<lparr>First = rv_id r, Last = rv_id r\<rparr>]" using i by simp
  note u = unionRetractionRanges_spec [OF can(1) one]
  obtain q where q: "s' = set_producer (rv_fed r) (rv_producer r) q s" "e = None"
      "accepted q = unionRetractionRanges (accepted p) [\<lparr>First = rv_id r, Last = rv_id r\<rparr>]" "pendingIDs q = del (rv_id r) (pendingIDs p)"
    using assms(2) False p by (auto simp: reservation_Commit_def Let_def split: option.splits)
  have "history_ok s' (insert (rv_fed r, rv_producer r, rv_id r) C)"
    unfolding q(1) by (rule history_set [OF assms(1) P(2)]) (use q(3,4) u can ps in \<open>auto simp: history_at_def idents_def\<close>)
  then show ?thesis using False q(2) by simp
qed

lemma release_history:
  assumes "history_ok s C"
  shows "history_ok (snd (reservation_Release r s)) C"
proof (cases "rv_done r \<or> reservation_live r s = None")
  case True
  then show ?thesis using assms by (auto simp: reservation_Release_def Let_def)
next
  case False
  then obtain p where p: "reservation_live r s = Some p" by blast
  note P = live_producer [OF p]
  have "history_ok (set_producer (rv_fed r) (rv_producer r) (p\<lparr>pendingIDs := del (rv_id r) (pendingIDs p)\<rparr>) s) C"
    by (rule history_set [OF assms P(2)]) (use history_producer [OF assms P(1)] in \<open>auto simp: history_at_def idents_def\<close>)
  then show ?thesis using False p by (simp add: reservation_Release_def Let_def)
qed

lemma record_delivery_idents: "idents (record_delivery d p) = idents p"
  by (force simp: record_delivery_def idents_def split: option.split)

lemma record_deliveries_idents: "map_option idents (map_of (record_deliveries ds ps) h) = map_option idents (map_of ps h)"
  by (induction ds arbitrary: ps) (auto simp: record_delivery_idents split: option.split)

lemma deliver_history: "history_ok s C \<Longrightarrow> history_ok (RecordRetractionDeliveries fed ds s) C"
  by (erule history_same)
    (auto simp: RecordRetractionDeliveries_def identsOf_def producer_of_def record_deliveries_idents split: option.split)

lemma forget_history: "history_ok s C \<Longrightarrow> history_ok (ForgetRetractionRecipient fed h s) C"
proof (rule history_same)
  have "map_option idents (map_of (map (\<lambda>(k, p). (k, forget_recipient h p)) ps) k) = map_option idents (map_of ps k)" for ps k
    by (induction ps) (auto simp: forget_recipient_def idents_def)
  then show "identsOf f k (ForgetRetractionRecipient fed h s) = identsOf f k s" for f k
    by (auto simp: ForgetRetractionRecipient_def identsOf_def producer_of_def split: option.split)
qed

lemma retract_history: "history_ok s C \<Longrightarrow> history_ok (set_retracted fed h i s) C"
  by (erule history_same)
    (auto simp: set_retracted_def identsOf_def producer_of_def set_producer_def idents_def split: option.split)

lemma destroy_history:
  assumes "history_ok s C"
  shows "history_ok (s\<lparr>federations := del fed (federations s)\<rparr>) {(f, h, i) \<in> C. f \<noteq> fed}"
  unfolding history_ok_def
proof (intro allI)
  fix f h
  have "identsOf f h (s\<lparr>federations := del fed (federations s)\<rparr>) = (if f = fed then None else identsOf f h s)"
    by (simp add: identsOf_def producer_of_def)
  then show "history_at {x. (f, h, x) \<in> {(f, h, i) \<in> C. f \<noteq> fed}} (identsOf f h (s\<lparr>federations := del fed (federations s)\<rparr>))"
    using assms by (cases "f = fed") (simp_all add: history_ok_def, simp add: history_at_def)
qed

lemma ledger_run_history: "ledger_run s C \<Longrightarrow> history_ok s C"
proof (induction rule: ledger_run.induct)
  case ledger_new
  then show ?case by (simp add: history_ok_def history_at_def identsOf_def producer_of_def)
qed (blast intro: reserve_history commit_history release_history deliver_history forget_history retract_history destroy_history)+

section \<open>Property\<close>

text \<open>The ranges a producer holds; none when the ledger does not know it.\<close>

definition acceptedRanges :: "fed_name \<Rightarrow> handle \<Rightarrow> retractionIDStore \<Rightarrow> RetractionIDRange list" where
  "acceptedRanges fed h s = (case producer_of fed h s of None \<Rightarrow> [] | Some p \<Rightarrow> accepted p)"

text \<open>
  C25.  The ledger is exact.  In every history of reservations, commits, releases, recorded
  deliveries, retractions, departures of recipients and destructions of federations, the compressed
  ranges of a producer hold exactly the identifiers the producer has committed, as the binary search
  over them finds; and the ranges stay sorted, with a gap between any two of them.
\<close>

theorem retraction_ranges_exact:
  assumes "ledger_run s C"
  shows "canonical (acceptedRanges fed h s) \<and> (containsRetractionID (acceptedRanges fed h s) x \<longleftrightarrow> (fed, h, x) \<in> C)"
proof -
  have "history_at {x. (fed, h, x) \<in> C} (identsOf fed h s)" using ledger_run_history [OF assms] by (simp add: history_ok_def)
  then have "canonical (acceptedRanges fed h s)" "ids (acceptedRanges fed h s) = {x. (fed, h, x) \<in> C}"
    by (auto simp: history_at_def identsOf_def acceptedRanges_def idents_def split: option.splits)
  then show ?thesis using containsRetractionID_iff by simp
qed

theorem retraction_ranges_exact_witness:
  "\<exists>s. ledger_run s {(''F'', 1, 7)} \<and> containsRetractionID (acceptedRanges ''F'' 1 s) 7 \<and>
     \<not> containsRetractionID (acceptedRanges ''F'' 1 s) 8 \<and> \<not> containsRetractionID (acceptedRanges ''F'' 2 s) 7"
proof -
  let ?s = "\<lparr>next_token = 0, federations = []\<rparr> :: retractionIDStore"
  have wf: "store_wf ?s" by (simp add: store_wf_def producer_of_def)
  have "\<exists>r s1. ReserveRetractionID ''F'' 1 7 None ?s = (Inr r, s1)"
    by (simp add: ReserveRetractionID_def federationLocked_def producerLocked_def new_producer_def
        containsRetractionID_def sort_Search_def search_from.simps Let_def)
  then obtain r s1 where r: "ReserveRetractionID ''F'' 1 7 None ?s = (Inr r, s1)" by blast
  obtain p where p: "store_wf s1" "reservation_live r s1 = Some p" "rv_fed r = ''F''" "rv_producer r = 1" "rv_id r = 7" "\<not> rv_done r"
    using Reserve_ok [OF wf r] by metis
  have "0 < rv_id r" "rv_id r \<le> MaxUint64" using p(5) by (simp_all add: MaxUint64_def)
  then obtain r' s2 where c: "reservation_Commit r s1 = (None, r', s2)"
    using Commit_ok [OF p(1,2,6)] by blast
  have "ledger_run s1 {}" using ledger_reserve [OF ledger_new, of 7 "''F''" 1 None] r by (simp add: MaxUint64_def)
  from ledger_commit [OF this c] have run: "ledger_run s2 {(''F'', 1, 7)}" using p by simp
  show ?thesis
    using run retraction_ranges_exact [OF run, of "''F''" 1 7] retraction_ranges_exact [OF run, of "''F''" 1 8]
      retraction_ranges_exact [OF run, of "''F''" 2 7] by auto
qed

end
