(* ===== verification/Time_Commit.thy ===== *)
theory Time_Commit
  imports Time_Services
begin

text \<open>
  The timestamps a federate may still be granted early at: those of its queued messages and
  the earliest one already delivered for its request.  No queue operation adds one.
\<close>

definition live_ts :: "nerState \<Rightarrow> int set" where
  "live_ts ns = timestamp ` {b \<in> set (tsoBuffer ns). \<not> internalTSO (bevent b)} \<union> set_option (flushMinimum ns)"

definition live :: "manager \<Rightarrow> fed_name \<Rightarrow> handle \<Rightarrow> int set" where
  "live s fed h = live_ts (getOrCreateNs s fed h)"

text \<open>The timestamps of a released batch that count.\<close>

definition ts_of :: "bufferedTSOEvent list \<Rightarrow> int set" where
  "ts_of bs = timestamp ` {b \<in> set bs. \<not> receiveOrder b \<and> \<not> internalTSO (bevent b)}"

text \<open>The receive-order queue holds receive-order messages only.\<close>

definition ro_ok :: "manager \<Rightarrow> fed_name \<Rightarrow> handle \<Rightarrow> bool" where
  "ro_ok s fed h \<longleftrightarrow> (\<forall>b\<in>set (roBuffer (getOrCreateNs s fed h)). receiveOrder b)"

text \<open>\<open>calm X fed h s s'\<close>: up to the timestamps \<open>X\<close> nothing is added.\<close>

definition received :: "manager \<Rightarrow> fed_name \<Rightarrow> handle \<Rightarrow> int set" where
  "received s fed h = (case getFs s fed h of Some fs \<Rightarrow> set_option (receivedTSOTime fs) | None \<Rightarrow> {})"

definition calm :: "int set \<Rightarrow> fed_name \<Rightarrow> handle \<Rightarrow> manager \<Rightarrow> manager \<Rightarrow> bool" where
  "calm X fed h s s' \<longleftrightarrow> (ro_ok s fed h \<longrightarrow> ro_ok s' fed h \<and> live s' fed h \<subseteq> live s fed h \<union> X \<and>
     received s' fed h \<subseteq> received s fed h \<union> live s fed h \<union> X)"

lemma ts_of_simps [simp]:
  "ts_of [] = {}" "ts_of (xs @ ys) = ts_of xs \<union> ts_of ys"
  "ts_of (b # bs) = (if receiveOrder b \<or> internalTSO (bevent b) then {} else {timestamp b}) \<union> ts_of bs"
  by (auto simp: ts_of_def)

lemma calm_refl [simp]: "calm X fed h s s"
  by (auto simp: calm_def)

lemma calm_trans: "calm X fed h s t \<Longrightarrow> calm Y fed h t u \<Longrightarrow> X \<union> Y \<subseteq> Z \<Longrightarrow> calm Z fed h s u"
  by (fastforce simp: calm_def)

lemma calm_mono: "calm X fed h s t \<Longrightarrow> X \<subseteq> Y \<Longrightarrow> calm Y fed h s t"
  by (fastforce simp: calm_def)

text \<open>The records as the services see them.\<close>

definition view :: "manager \<Rightarrow> (fed_name \<Rightarrow> handle \<Rightarrow> federateState option) \<times> (fed_name \<Rightarrow> handle \<Rightarrow> nerState)" where
  "view s = (getFs s, getOrCreateNs s)"

lemma viewD: "view s' = view s \<Longrightarrow> getFs s' = getFs s" "view s' = view s \<Longrightarrow> getOrCreateNs s' = getOrCreateNs s"
  by (simp_all add: view_def)

lemma view_simps [simp]:
  "view (tick s) = view s" "view (publish fed ds s) = view s" "view (recordRetraction fed rs s) = view s"
  "view (s\<lparr>journal := j\<rparr>) = view s" "view (recordBufferedRetractionDeliveries fed h bs s) = view s"
  "view (markDeliveryRetry fed s) = view s"
  by (simp_all add: view_def fun_eq_iff recordBufferedRetractionDeliveries_def getOrCreateNs_def)

lemma calm_env: "view s' = view s \<Longrightarrow> calm X fed h s s'"
  by (simp add: calm_def ro_ok_def live_def received_def view_def) blast

section \<open>Environment calls leave the records alone\<close>

lemma view_Reserve: "Outbox_Reserve E fed ds s = (r, s') \<Longrightarrow> view s' = view s"
  by (auto simp: Outbox_Reserve_def)

lemma view_Commit: "Outbox_Commit E fed ds s = (r, s') \<Longrightarrow> view s' = view s"
  by (auto simp: Outbox_Commit_def split: option.splits)

lemma view_Send: "Outbox_Send E fed h e s = (r, s') \<Longrightarrow> view s' = view s"
  by (auto simp: Outbox_Send_def split: option.splits)

lemma view_Append: "EventLog_Append E fed rec s = (r, s') \<Longrightarrow> view s' = view s"
  by (auto simp: EventLog_Append_def split: option.splits)

lemma view_queuedMessage: "queuedMessage E fed h b s = (r, s') \<Longrightarrow> view s' = view s"
  by (auto simp: queuedMessage_def split: option.splits if_splits)

lemma view_admit: "admitEvent E fed h e s = (r, s') \<Longrightarrow> view s' = view s"
  by (auto simp: admitEvent_def split: if_splits prod.splits option.splits dest!: view_Reserve view_Commit view_Send)

lemma view_queuedDeliveries: "queuedDeliveries skip E fed h bs s = (r, s') \<Longrightarrow> view s' = view s"
proof (induction bs arbitrary: s r)
  case (Cons b bs)
  then show ?case by (auto split: if_splits option.splits prod.splits dest!: view_queuedMessage)
qed simp

lemma view_filteredFlush: "filteredFlushDeliveries E fed h bs s = (r, s') \<Longrightarrow> view s' = view s"
proof (induction bs arbitrary: s r)
  case (Cons b bs)
  then show ?case by (auto split: if_splits option.splits prod.splits dest!: view_queuedMessage)
qed simp

lemma view_reserveBuffered: "reserveBufferedDeliveries E fed ds s = (r, s') \<Longrightarrow> view s' = view s"
  by (auto simp: reserveBufferedDeliveries_def split: if_splits dest!: view_Reserve)

lemma view_commitDeliveries: "commitDeliveries E fed ds s = (r, s') \<Longrightarrow> view s' = view s"
  by (auto simp: commitDeliveries_def split: if_splits dest!: view_Commit)

lemma goc_recordOrdered [simp]: "getOrCreateNs (recordOrderedDelivery fed h b s) = getOrCreateNs s"
  by (auto simp: recordOrderedDelivery_def fun_eq_iff split: option.splits)

lemmas view_dests = view_Reserve view_Commit view_Send view_Append view_queuedMessage view_admit view_queuedDeliveries
  view_filteredFlush view_reserveBuffered view_commitDeliveries

section \<open>Taking, delivering, restoring\<close>

lemma calm_putNs:
  "(ro_ok s fed h \<Longrightarrow> (\<forall>b\<in>set (roBuffer n). receiveOrder b) \<and> live_ts n \<subseteq> live s fed h \<union> X) \<Longrightarrow>
   calm X fed h s (putNs fed h n s)"
  by (auto simp: calm_def ro_ok_def live_def received_def)

lemma internalTSO_setReceivedOrder [simp]: "internalTSO (setReceivedOrder ord e) = internalTSO e"
  by (cases e) (auto simp: internalTSO_def setReceivedOrder_def)

lemma set_ordered: "set (if c then orderReflectionDeletionTies (sort_key timestamp xs) else xs) = set xs"
  using arg_cong [OF mset_orderReflection, of set_mset "sort_key timestamp xs"] by simp

lemma take_TSO_set:
  assumes "takeBufferedTSOThrough fed h t adv d s = (r, s')"
  shows "calm {} fed h s s'" and "ts_of r \<subseteq> live s fed h"
proof -
  show "calm {} fed h s s'"
    using take_TSO_cases [OF assms]
    by (auto intro!: calm_putNs simp: ro_ok_def live_def live_ts_def getOrCreateNs_def)
  show "ts_of r \<subseteq> live s fed h"
  proof (cases "getNs s fed h")
    case None
    then show ?thesis using assms by (auto simp: takeBufferedTSOThrough_def)
  next
    case (Some ns)
    let ?f = "filter (\<lambda>b. bufferedTSOEligible b t adv d (currentTime ns)) (tsoBuffer ns)"
    obtain ord where "r = [] \<or> r = map (\<lambda>b. b\<lparr>bevent := setReceivedOrder ord (bevent b)\<rparr>)
        (if isConstrained s fed h then orderReflectionDeletionTies (sort_key timestamp ?f) else ?f)"
      using assms Some by (auto simp: takeBufferedTSOThrough_def Let_def split: if_splits)
    then show ?thesis
      using set_ordered [of "isConstrained s fed h" ?f] Some
      by (auto simp: ts_of_def live_def live_ts_def getOrCreateNs_def)
  qed
qed

lemma take_RO_set:
  assumes "takeBufferedRO fed h s = (r, s')"
  shows "calm {} fed h s s'" and "ro_ok s fed h \<Longrightarrow> ts_of r = {}"
  using assms
  by (auto simp: takeBufferedRO_def ro_ok_def ts_of_def live_def live_ts_def getOrCreateNs_def
      split: option.splits if_splits intro!: calm_putNs)

lemma calm_restoreTSO: "calm (timestamp ` {b \<in> set bs. \<not> internalTSO (bevent b)}) fed h s (restoreBufferedTSO fed h bs s)"
  by (auto simp: restoreBufferedTSO_def Let_def ro_ok_def live_def live_ts_def intro!: calm_putNs)

lemma calm_restore: "calm (ts_of bs) fed h s (restoreBufferedMessages fed h bs s)"
proof -
  let ?ro = "filter receiveOrder bs" and ?tso = "filter (\<lambda>b. \<not> receiveOrder b) bs"
  let ?t = "if ?ro \<noteq> [] then let ns = getOrCreateNs s fed h in putNs fed h (ns\<lparr>roBuffer := ?ro @ roBuffer ns\<rparr>) s else s"
  have "calm {} fed h s ?t" by (auto simp: Let_def ro_ok_def live_def live_ts_def intro!: calm_putNs)
  moreover have "calm (ts_of bs) fed h ?t (restoreBufferedTSO fed h ?tso ?t)"
    by (rule calm_mono [OF calm_restoreTSO]) (auto simp: ts_of_def)
  ultimately show ?thesis unfolding restoreBufferedMessages_def Let_def by (rule calm_trans) simp
qed

lemma calm_recordOrdered:
  "calm (if receiveOrder b \<or> internalTSO (bevent b) then {} else {timestamp b}) fed h s (recordOrderedDelivery fed h b s)"
  by (auto simp: recordOrderedDelivery_def calm_def ro_ok_def live_def received_def split: option.splits)

lemma calm_flushMinimum:
  "getNs t fed h = Some ns \<Longrightarrow> calm {m} fed h t (putNs fed h (ns\<lparr>flushMinimum := Some m\<rparr>) t)"
  by (auto intro!: calm_putNs simp: ro_ok_def live_def live_ts_def dest: getOrCreateNs_Some)

lemma calm_recordFlush:
  "calm (if receiveOrder b \<or> internalTSO (bevent b) then {} else {timestamp b}) fed h s (recordFlushDelivery fed h b s)"
proof (cases "receiveOrder b \<or> internalTSO (bevent b)")
  case False
  let ?t = "recordOrderedDelivery fed h b s"
  have o: "calm {timestamp b} fed h s ?t" using calm_recordOrdered [of b fed h s] False by simp
  have "calm {timestamp b} fed h s (putNs fed h (ns\<lparr>flushMinimum := Some (timestamp b)\<rparr>) ?t)" if "getNs ?t fed h = Some ns" for ns
    by (rule calm_trans [OF o calm_flushMinimum [OF that]]) simp
  with o show ?thesis using False by (auto simp: recordFlushDelivery_def Let_def split: option.splits)
qed (simp add: recordFlushDelivery_def)

lemma calm_deliverEvent:
  assumes "deliverBufferedEvent E fed h b s = (r, s')"
  shows "calm (ts_of [b]) fed h s s'"
proof -
  have rec: "calm (ts_of [b]) fed h u (recordFlushDelivery fed h b (recordRetraction fed ds u))" for ds u
    by (rule calm_trans [OF calm_env calm_recordFlush, where X = "{}"]) auto
  show ?thesis
    using assms unfolding deliverBufferedEvent_def Let_def
    by (auto split: option.splits prod.splits if_splits dest!: view_queuedMessage view_admit
        intro: calm_env calm_trans [OF calm_env rec] simp del: ts_of_simps)
qed

lemma calm_deliverSequence: "deliverBufferedSequence E fed h bs s = (r, s') \<Longrightarrow> calm (ts_of bs) fed h s s'"
proof (induction bs arbitrary: s)
  case (Cons b bs)
  obtain m t where m: "deliverBufferedEvent E fed h b s = (m, t)" by (cases "deliverBufferedEvent E fed h b s")
  note c = calm_deliverEvent [OF m]
  show ?case
  proof (cases m)
    case None
    then have "calm (ts_of bs) fed h t s'" using Cons m by simp
    then show ?thesis by (rule calm_trans [OF c]) auto
  next
    case (Some err)
    then have "s' = restoreBufferedMessages fed h (b # bs) t" using Cons.prems m by simp
    then show ?thesis using calm_trans [OF c calm_restore, where Z = "ts_of (b # bs)"] by auto
  qed
qed simp

lemma calm_releaseTSOs:
  "releaseTSOs E fed h bs s = (r, s') \<Longrightarrow> calm (timestamp ` {b \<in> set bs. \<not> internalTSO (bevent b)}) fed h s s'"
proof (induction bs arbitrary: s)
  case (Cons b bs)
  obtain m t where m: "deliverBufferedEvent E fed h b s = (m, t)" by (cases "deliverBufferedEvent E fed h b s")
  note c = calm_deliverEvent [OF m]
  let ?X = "timestamp ` {c \<in> set (b # bs). \<not> internalTSO (bevent c)}"
  show ?case
  proof (cases m)
    case None
    then have "calm (timestamp ` {b \<in> set bs. \<not> internalTSO (bevent b)}) fed h t s'" using Cons m by simp
    then show ?thesis by (rule calm_trans [OF c]) auto
  next
    case (Some err)
    then have "s' = restoreBufferedTSO fed h (b # bs) t" using Cons.prems m by simp
    then show ?thesis using calm_trans [OF c calm_restoreTSO, where Z = ?X] by auto
  qed
qed simp

lemma calm_sendROs: "sendROs E fed h bs s = (r, s') \<Longrightarrow> calm (ts_of bs) fed h s s'"
proof (induction bs arbitrary: s)
  case (Cons b bs)
  have r: "calm (ts_of (b # bs)) fed h u (restoreBufferedMessages fed h (b # bs) v)"
    if "view v = view u" for u v
    by (rule calm_trans [OF calm_env [OF that] calm_restore, where X = "{}"]) simp
  have g: "calm (ts_of (b # bs)) fed h s s'" if "sendROs E fed h bs u = (r, s')" "view u = view s" for u
    by (rule calm_trans [OF calm_env [OF that(2)] Cons.IH [OF that(1)], where X = "{}"]) auto
  show ?case
    using Cons.prems
    by (auto split: option.splits prod.splits dest!: view_queuedMessage view_Send intro: g r simp del: ts_of_simps)
qed simp

lemma calm_drainPlain: "drainPlainTSO E fed h bs s = (r, s') \<Longrightarrow> calm (ts_of bs) fed h s s'"
proof (induction bs arbitrary: s)
  case (Cons b bs)
  let ?b = "b\<lparr>bevent := setReceivedOrder OrderReceive (bevent b)\<rparr>"
  have eq: "ts_of (?b # bs) = ts_of (b # bs)" by simp
  obtain m t where m: "deliverBufferedEvent E fed h ?b s = (m, t)" by (cases "deliverBufferedEvent E fed h ?b s")
  note c = calm_deliverEvent [OF m]
  show ?case
  proof (cases m)
    case None
    then have "calm (ts_of bs) fed h t s'" using Cons m by simp
    then show ?thesis by (rule calm_trans [OF c]) auto
  next
    case (Some err)
    then have "s' = restoreBufferedMessages fed h (?b # bs) t" using Cons.prems m by (simp add: Let_def)
    then show ?thesis using calm_trans [OF c calm_restore, where Z = "ts_of (?b # bs)"] eq by auto
  qed
qed simp

section \<open>Composite operations add nothing\<close>

text \<open>
  A batch was taken from the queues, so delivering or restoring it adds no timestamp; a state
  that differs by environment calls only is as good as the one before.
\<close>

definition from_queue :: "bufferedTSOEvent list \<Rightarrow> fed_name \<Rightarrow> handle \<Rightarrow> manager \<Rightarrow> manager \<Rightarrow> bool" where
  "from_queue bs fed h s t \<longleftrightarrow> calm {} fed h s t \<and> (ro_ok s fed h \<longrightarrow> ts_of bs \<subseteq> live s fed h)"

lemma from_queue_calm: "from_queue bs fed h s t \<Longrightarrow> calm (ts_of bs) fed h t u \<Longrightarrow> calm {} fed h s u"
  by (fastforce simp: from_queue_def calm_def)

lemma from_queue_env: "from_queue bs fed h s t \<Longrightarrow> view u = view t \<Longrightarrow> from_queue bs fed h s u"
  using calm_trans [OF _ calm_env, of "{}" fed h s t u "{}" "{}"] by (auto simp: from_queue_def)

lemma from_queue_TSO: "takeBufferedTSOThrough fed h t adv d s = (r, s') \<Longrightarrow> from_queue r fed h s s'"
  using take_TSO_set by (auto simp: from_queue_def)

lemma from_queue_RO: "takeBufferedRO fed h s = (r, s') \<Longrightarrow> from_queue r fed h s s'"
  using take_RO_set by (auto simp: from_queue_def)

lemma from_queue_append:
  "from_queue a fed h s t \<Longrightarrow> from_queue b fed h t u \<Longrightarrow> from_queue (a @ b) fed h s u"
  "from_queue a fed h s t \<Longrightarrow> from_queue b fed h t u \<Longrightarrow> from_queue (b @ a) fed h s u"
  by (fastforce simp: from_queue_def calm_def)+

lemma from_queue_self: "from_queue bs fed h s t \<Longrightarrow> calm {} fed h s t"
  by (simp add: from_queue_def)

lemma from_queue_Nil: "calm {} fed h s t \<Longrightarrow> from_queue [] fed h s t"
  by (simp add: from_queue_def)

lemmas from_queue_restore = from_queue_calm [OF _ calm_restore]
lemmas from_queue_deliver = from_queue_calm [OF _ calm_deliverSequence]

lemma calm_drainRO:
  assumes "drainBufferedRO E fed h s = (r, s')"
  shows "calm {} fed h s s'"
proof -
  obtain bs t where t: "takeBufferedRO fed h s = (bs, t)" by (cases "takeBufferedRO fed h s")
  note q = from_queue_RO [OF t]
  have "calm {} fed h s s'" if d: "drainReservedRO E fed h bs t = (r, s')"
  proof -
    obtain ds t1 where t1: "queuedDeliveries False E fed h bs t = (ds, t1)" by (cases "queuedDeliveries False E fed h bs t")
    obtain x t2 where t2: "Outbox_Reserve E fed ds t1 = (x, t2)" by (cases "Outbox_Reserve E fed ds t1")
    obtain y t3 where t3: "Outbox_Commit E fed ds t2 = (y, t3)" by (cases "Outbox_Commit E fed ds t2")
    note q1 = from_queue_env [OF q view_queuedDeliveries [OF t1]]
    note q2 = from_queue_env [OF q1 view_Reserve [OF t2]]
    note q3 = from_queue_env [OF q2 view_Commit [OF t3]]
    show ?thesis
      using d t1 t2 t3 from_queue_self [OF q1] from_queue_deliver [OF q2] from_queue_restore [OF q2]
        from_queue_restore [OF q3] from_queue_self [OF q3]
      by (auto simp: drainReservedRO_def split: if_splits option.splits time_error.splits)
  qed
  then show ?thesis
    using assms t from_queue_self [OF q] from_queue_calm [OF q calm_sendROs]
    by (auto simp: drainBufferedRO_def split: if_splits)
qed

lemma reserveTimeCallback_queue:
  assumes "from_queue bs fed h s t" and "reserveTimeCallback E fed h bs cb t = (r, u)"
  shows "calm {} fed h s u" and "r = Inr (ds, bs') \<Longrightarrow> from_queue bs' fed h s u"
proof -
  obtain qs t1 where t1: "queuedDeliveries True E fed h bs t = (qs, t1)" by (cases "queuedDeliveries True E fed h bs t")
  let ?ds = "qs @ [(h, cb)]"
  obtain x t2 where t2: "reserveBufferedDeliveries E fed ?ds t1 = (x, t2)" by (cases "reserveBufferedDeliveries E fed ?ds t1")
  obtain y t3 where t3: "deliverBufferedSequence E fed h bs t2 = (y, t3)" by (cases "deliverBufferedSequence E fed h bs t2")
  obtain z t4 where t4: "Outbox_Reserve E fed [(h, cb)] t3 = (z, t4)" by (cases "Outbox_Reserve E fed [(h, cb)] t3")
  note q2 = from_queue_env [OF from_queue_env [OF assms(1) view_queuedDeliveries [OF t1]] view_reserveBuffered [OF t2]]
  note c3 = from_queue_deliver [OF q2 t3]
  note c4 = calm_trans [OF c3 calm_env [OF view_Reserve [OF t4], where X = "{}"], where Z = "{}", simplified]
  have "calm {} fed h s u \<and> (\<forall>ds bs'. r = Inr (ds, bs') \<longrightarrow> from_queue bs' fed h s u)"
    using assms(2) t1 t2 t3 t4 q2 c3 c4 from_queue_self [OF q2] from_queue_restore [OF q2] from_queue_Nil [OF c4]
    by (auto simp: reserveTimeCallback_def Let_def split: option.splits time_error.splits)
  then show "calm {} fed h s u" "r = Inr (ds, bs') \<Longrightarrow> from_queue bs' fed h s u" by auto
qed

lemma from_queue_grant: "takeGrantMessages fed h t s = (r, s') \<Longrightarrow> from_queue r fed h s s'"
  unfolding takeGrantMessages_def Let_def takeBufferedTSO_def
  by (auto split: prod.splits if_splits option.splits dest!: from_queue_TSO from_queue_RO intro: from_queue_append)

lemma from_queue_enable:
  assumes "takeEnableMessages fed h reg t s = (r, s')"
  shows "from_queue r fed h s s'"
proof -
  let ?n = "getOrCreateNs s fed h"
  have "from_queue (roBuffer ?n) fed h s (putNs fed h (?n\<lparr>roBuffer := []\<rparr>) s)"
    by (auto simp: from_queue_def ro_ok_def ts_of_def live_def live_ts_def intro!: calm_putNs)
  then show ?thesis
    using assms
    by (auto simp: takeEnableMessages_def takeBufferedTSO_def Let_def from_queue_Nil split: if_splits prod.splits
        dest!: from_queue_TSO intro: from_queue_append)
qed

text \<open>
  After the commit of a batch the records of the delivered messages are kept: the delivered
  timestamps are among those of the batch.
\<close>

lemma queuedMessage_internal: "queuedMessage E fed h b s = (Some e, s') \<Longrightarrow> internalTSO (bevent b) \<Longrightarrow> e = bevent b"
  by (auto simp: queuedMessage_def split: option.splits)

lemma filteredFlush_ts: "filteredFlushDeliveries E fed h bs s = ((delivered, ds), s') \<Longrightarrow> ts_of delivered \<subseteq> ts_of bs"
proof (induction bs arbitrary: s delivered ds s')
  case (Cons b bs)
  obtain r t where r: "queuedMessage E fed h b s = (r, t)" by (cases "queuedMessage E fed h b s")
  obtain dv qs u where d: "filteredFlushDeliveries E fed h bs t = ((dv, qs), u)"
    by (metis prod.collapse)
  have "ts_of dv \<subseteq> ts_of bs" using Cons.IH [OF d] .
  then show ?case using Cons.prems r d queuedMessage_internal [of E fed h b s _ t]
    by (cases r) (auto split: if_splits)
qed simp

lemma calm_fold_recordFlush: "calm (ts_of bs) fed h s (fold (recordFlushDelivery fed h) bs s)"
proof (induction bs arbitrary: s)
  case (Cons b bs)
  show ?case using calm_trans [OF calm_recordFlush Cons.IH] by auto
qed simp

lemma calm_flushFederate:
  assumes "flushFederateMessages E fed h s = (r, s')"
  shows "calm {} fed h s s'"
proof -
  let ?c = "case getNs s fed h of Some ns \<Rightarrow> currentTime ns | None \<Rightarrow> 0"
  obtain ro t where t: "takeBufferedRO fed h s = (ro, t)" by (cases "takeBufferedRO fed h s")
  obtain tso u where u: "takeBufferedTSOThrough fed h None True (Some ?c) t = (tso, u)"
    by (cases "takeBufferedTSOThrough fed h None True (Some ?c) t")
  let ?bs = "ro @ tso"
  obtain dl ds v where v: "filteredFlushDeliveries E fed h ?bs u = ((dl, ds), v)" by (metis prod.collapse)
  obtain q w where w: "reserveBufferedDeliveries E fed ds v = (q, w)" by (cases "reserveBufferedDeliveries E fed ds v")
  obtain y z where z: "commitDeliveries E fed ds w = (y, z)" by (cases "commitDeliveries E fed ds w")
  note fq = from_queue_append(1) [OF from_queue_RO [OF t] from_queue_TSO [OF u]]
  note fw = from_queue_env [OF from_queue_env [OF fq view_filteredFlush [OF v]] view_reserveBuffered [OF w]]
  note fz = from_queue_env [OF fw view_commitDeliveries [OF z]]
  have "view (recordBufferedRetractionDeliveries fed h dl z) = view z" by simp
  from calm_mono [OF calm_fold_recordFlush filteredFlush_ts [OF v]] from_queue_env [OF fz this]
  have fin: "calm {} fed h s (fold (recordFlushDelivery fed h) dl (recordBufferedRetractionDeliveries fed h dl z))"
    using from_queue_calm by blast
  show ?thesis
    using assms t u v w z from_queue_self [OF fq] from_queue_deliver [OF fq] from_queue_deliver [OF fw]
      from_queue_restore [OF fw] from_queue_restore [OF fz] fin
    by (auto simp: flushFederateMessages_def commitFlushDeliveries_def Let_def
        split: if_splits option.splits time_error.splits)
qed

lemma calm_nextMessageGroup:
  assumes "deliverNextMessageGroup E fed h t s = (b, r, s')"
  shows "calm {} fed h s s'"
proof -
  obtain ro v where v: "takeBufferedRO fed h s = (ro, v)" by (cases "takeBufferedRO fed h s")
  obtain tso u where u: "takeBufferedTSO fed h (Some t) True v = (tso, u)" by (cases "takeBufferedTSO fed h (Some t) True v")
  note q = from_queue_append(1) [OF from_queue_RO [OF v] from_queue_TSO [OF u [unfolded takeBufferedTSO_def]]]
  show ?thesis
    using assms v u from_queue_deliver [OF q] by (auto simp: deliverNextMessageGroup_def Let_def split: if_splits)
qed

lemma calm_drainReservedTSO:
  assumes q: "from_queue bs fed h s t" and d: "drainReservedTSO E fed h bs t = (r, s')"
  shows "calm {} fed h s s'"
proof -
  obtain ds t1 where t1: "queuedDeliveries True E fed h bs t = (ds, t1)" by (cases "queuedDeliveries True E fed h bs t")
  obtain x t2 where t2: "reserveBufferedDeliveries E fed ds t1 = (x, t2)" by (cases "reserveBufferedDeliveries E fed ds t1")
  obtain y t3 where t3: "commitDeliveries E fed ds t2 = (y, t3)" by (cases "commitDeliveries E fed ds t2")
  note q2 = from_queue_env [OF from_queue_env [OF q view_queuedDeliveries [OF t1]] view_reserveBuffered [OF t2]]
  note q3 = from_queue_env [OF q2 view_commitDeliveries [OF t3]]
  have "view (recordBufferedRetractionDeliveries fed h bs t3) = view t3" by simp
  from from_queue_self [OF from_queue_env [OF q3 this]] show ?thesis
    using d t1 t2 t3 from_queue_deliver [OF q2] from_queue_restore [OF q2] from_queue_restore [OF q3]
    by (auto simp: drainReservedTSO_def split: option.splits time_error.splits)
qed

lemma calm_drainAllTSO:
  assumes "drainAllBufferedTSO E fed h s = (r, s')"
  shows "calm {} fed h s s'"
proof -
  let ?b = "case map_of (scheduledSaves s) fed of Some b \<Rightarrow> Some (target b) | None \<Rightarrow> None"
  obtain ro t where t: "takeBufferedRO fed h s = (ro, t)" by (cases "takeBufferedRO fed h s")
  obtain tso u where u: "takeBufferedTSO fed h ?b False t = (tso, u)" by (cases "takeBufferedTSO fed h ?b False t")
  note q = from_queue_append(1) [OF from_queue_RO [OF t] from_queue_TSO [OF u [unfolded takeBufferedTSO_def]]]
  show ?thesis
    using assms t u from_queue_self [OF q] calm_drainReservedTSO [OF q] from_queue_calm [OF q calm_drainPlain]
    by (auto simp: drainAllBufferedTSO_def Let_def split: if_splits)
qed

end
