(* ===== verification/Time_Floor.thy ===== *)
theory Time_Floor
  imports Time_Commit
begin

text \<open>
  The floor of a regulating federate: the least timestamp it may still send, now or after any
  grant its pending request may end with.  It is what the other federates' GALT is made of,
  and no grant lowers it below a time another constrained federate has reached.
\<close>

section \<open>Floors of one federate\<close>

definition may_end_early :: "federateState \<Rightarrow> nerState \<Rightarrow> bool" where
  "may_end_early fs ns \<longleftrightarrow> constrained fs \<and> pendingNER ns \<and> (usesNextMessageTarget (mode ns) \<or> mode ns = ModeFQR)"

definition floor_ok :: "federateState \<Rightarrow> nerState \<Rightarrow> int \<Rightarrow> bool" where
  "floor_ok fs ns x \<longleftrightarrow> x \<le> send_floor fs (Some ns) \<and> (may_end_early fs ns \<longrightarrow> (\<forall>ts\<in>live_ts ns. x \<le> grant_floor fs ns ts))"

definition rec_wf :: "federateState \<Rightarrow> nerState \<Rightarrow> bool" where
  "rec_wf fs ns \<longleftrightarrow> fs_wf fs (currentTime ns) \<and> (reducingLookahead fs \<longrightarrow> regulating fs) \<and>
     (regulationPending fs \<or> constrainedPending fs \<longrightarrow> \<not> pendingNER ns) \<and>
     (\<forall>r\<in>set_option (receivedTSOTime fs). r \<le> MaxTime)"

lemma floor_ok_mono: "floor_ok fs ns y \<Longrightarrow> x \<le> y \<Longrightarrow> floor_ok fs ns x"
  by (auto simp: floor_ok_def)

lemma send_floor_None: "send_floor fs None = send_floor fs (Some new_nerState)"
  by (simp add: send_floor_def outgoingTSOBound_def new_nerState_def Let_def)

lemma send_floor_idle:
  "\<not> pendingNER ns \<Longrightarrow>
   send_floor fs (Some ns) = currentTime ns + lookahead fs + (if strictZeroLookahead ns \<and> lookahead fs = 0 then 1 else 0)"
  by (simp add: send_floor_def outgoingTSOBound_def Let_def)

lemma send_floor_ge_now: "fs_wf fs (currentTime ns) \<Longrightarrow> ns_wf ns \<Longrightarrow> currentTime ns \<le> send_floor fs (Some ns)"
  using projectedLookahead_range [of fs "currentTime ns" "requestedTime ns"]
  by (auto simp: send_floor_def outgoingTSOBound_def Let_def fs_wf_def ns_wf_def in_range_def)

lemma grant_floor_requested:
  assumes "ns_wf ns" "pendingNER ns" "requestedTime ns \<le> t"
  shows "grant_floor fs ns t = send_floor fs (Some ns)"
  using assms
  by (auto simp: grant_floor_def send_floor_def outgoingTSOBound_def recordGrantBound_def ns_wf_def Let_def)

lemma grant_floor_now:
  assumes "fs_wf fs (currentTime ns)"
  shows "currentTime ns + lookahead fs + (if strictZeroLookahead ns \<and> lookahead fs = 0 then 1 else 0) \<le> grant_floor fs ns t"
proof -
  define u where "u = max (currentTime ns) (min t (requestedTime ns))"
  have u: "currentTime ns \<le> u" by (simp add: u_def)
  have la: "projectedLookahead fs (currentTime ns) = lookahead fs" by (rule projectedLookahead_now [OF assms])
  have m: "currentTime ns + lookahead fs \<le> u + projectedLookahead fs u"
    using projected_bound_mono [OF assms _ u] la by simp
  have r: "0 \<le> projectedLookahead fs u" using projectedLookahead_range [OF assms u] by (simp add: in_range_def)
  have "strictZeroLookahead (recordGrantBound ns (currentTime ns)) \<longleftrightarrow> strictZeroLookahead ns \<or> strictAdvance (mode ns)"
    by (auto simp: recordGrantBound_def Let_def)
  then show ?thesis
    using m r la u unfolding grant_floor_def u_def [symmetric] Let_def by (cases "u = currentTime ns") auto
qed

text \<open>After a grant the sender's floor is the one the snapshot foresaw.\<close>

lemma recordReceivedGrant_same [simp]:
  "regulating (recordReceivedGrant m t fs) = regulating fs" "reducingLookahead (recordReceivedGrant m t fs) = reducingLookahead fs"
  "lookahead (recordReceivedGrant m t fs) = lookahead fs" "lookaheadTarget (recordReceivedGrant m t fs) = lookaheadTarget fs"
  "lookaheadOriginTime (recordReceivedGrant m t fs) = lookaheadOriginTime fs"
  "lookaheadOriginValue (recordReceivedGrant m t fs) = lookaheadOriginValue fs"
  "constrained (recordReceivedGrant m t fs) = constrained fs"
  "regulationLookahead (recordReceivedGrant m t fs) = regulationLookahead fs"
  "regulationPending (recordReceivedGrant m t fs) = regulationPending fs"
  "constrainedPending (recordReceivedGrant m t fs) = constrainedPending fs"
  "receivedTSOTime (recordReceivedGrant m t fs) = receivedTSOTime fs"
  "projectedLookahead (recordReceivedGrant m t fs) u = projectedLookahead fs u"
  "fs_wf (recordReceivedGrant m t fs) now = fs_wf fs now"
  by (auto simp: recordReceivedGrant_def projectedLookahead_def fs_wf_def split: option.splits)

lemma advanceLookahead_same [simp]:
  "regulating (advanceLookahead fs t) = regulating fs" "constrained (advanceLookahead fs t) = constrained fs"
  "regulationPending (advanceLookahead fs t) = regulationPending fs"
  "constrainedPending (advanceLookahead fs t) = constrainedPending fs"
  "receivedTSOTime (advanceLookahead fs t) = receivedTSOTime fs"
  by (auto simp: advanceLookahead_def Let_def)

lemma lookahead_advance:
  "reducingLookahead fs \<longrightarrow> regulating fs \<Longrightarrow> lookahead (advanceLookahead fs t) =
     (if reducingLookahead fs then projectedLookahead fs t else lookahead fs)"
  by (auto simp: advanceLookahead_def Let_def)

lemma lookahead_grantFs:
  "reducingLookahead fs \<longrightarrow> regulating fs \<Longrightarrow> lookahead (grantFs ns t fs) = projectedLookahead fs t"
  by (auto simp: grantFs_def lookahead_advance projectedLookahead_def Let_def)

lemma grantNs_simps [simp]:
  "currentTime (grantNs t c ns) = t" "pendingNER (grantNs t True ns) = False"
  "strictZeroLookahead (grantNs t c ns) = strictZeroLookahead (recordGrantBound ns t)"
  "roBuffer (grantNs t c ns) = roBuffer ns" "tsoBuffer (grantNs t c ns) = tsoBuffer ns"
  "flushMinimum (grantNs t True ns) = None"
  by (auto simp: grantNs_def Let_def)

lemma grant_send_floor:
  assumes "reducingLookahead fs \<longrightarrow> regulating fs" and "currentTime ns \<le> t" and "t \<le> requestedTime ns"
  shows "send_floor (grantFs ns t fs) (Some (grantNs t True ns)) = grant_floor fs ns t"
  using assms by (simp add: send_floor_idle lookahead_grantFs grant_floor_def Let_def)

lemma grant_rec_wf:
  assumes "rec_wf fs ns" "ns_wf ns" "currentTime ns \<le> t" "t \<le> requestedTime ns" "pendingNER ns"
  shows "rec_wf (grantFs ns t fs) (grantNs t True ns)" and "ns_wf (grantNs t True ns)"
proof -
  have "fs_wf (grantFs ns t fs) t"
    unfolding grantFs_def using assms fs_wf_advanceLookahead [of "recordReceivedGrant (mode ns) t fs" "currentTime ns" t]
    by (auto simp: rec_wf_def)
  then show "rec_wf (grantFs ns t fs) (grantNs t True ns)"
    using assms by (auto simp: rec_wf_def grantFs_def advanceLookahead_def Let_def)
  show "ns_wf (grantNs t True ns)" using assms by (auto simp: ns_wf_def in_range_def)
qed

section \<open>The snapshot is the floor\<close>

lemma lower_by_queue_ge:
  assumes "fs_wf fs (currentTime ns)" "ns_wf ns" "pendingNER ns" "bound_wf b" "x \<le> MaxTime + 1"
  shows "x \<le> bval (foldl (lower_by_queue fs ns) b items) \<longleftrightarrow>
    x \<le> bval b \<and> (\<forall>i\<in>set items. \<not> internalTSO (bevent i) \<and> timestamp i < requestedTime ns \<longrightarrow> x \<le> grant_floor fs ns (timestamp i))"
  using assms(4)
proof (induction items arbitrary: b)
  case (Cons i items)
  note g = availableHorizonAfterGrant_bval [OF assms(1-3)]
  have "bound_wf (lower_by_queue fs ns b i)" using Cons.prems g(1) by (simp add: lower_by_queue_def)
  from Cons.IH [OF this] show ?case
    using Cons.prems g assms(5) by (auto simp: lower_by_queue_def)
qed simp

lemma snapshot_floor_ok:
  assumes "fs_wf fs (currentTime ns)" "ns_wf ns" "x \<le> MaxTime + 1"
  shows "x \<le> bval (arBound (availableRegulatorSnapshot h fs (Some ns))) \<longleftrightarrow> floor_ok fs ns x"
proof -
  let ?s = "availableSendHorizon fs (Some ns)"
  have pw: "pair_wf fs (Some ns)" using assms by simp
  have s: "x \<le> bval ?s \<longleftrightarrow> x \<le> send_floor fs (Some ns)" "bound_wf ?s"
    using bval_availableSendHorizon [OF pw] availableSendHorizon_wf [OF pw] assms(3) by auto
  show ?thesis
  proof (cases "may_end_early fs ns")
    case False
    then have "arBound (availableRegulatorSnapshot h fs (Some ns)) = ?s"
      by (auto simp: availableRegulatorSnapshot_def may_end_early_def Let_def)
    then show ?thesis using s False by (simp add: floor_ok_def)
  next
    case True
    then have p: "pendingNER ns" by (simp add: may_end_early_def)
    define b where "b = (case flushMinimum ns of
        Some fm \<Rightarrow> minimumHorizon ?s (availableHorizonAfterGrant fs ns fm) | None \<Rightarrow> ?s)"
    note g = availableHorizonAfterGrant_bval [OF assms(1,2) p]
    have b: "bound_wf b" "x \<le> bval b \<longleftrightarrow> x \<le> send_floor fs (Some ns) \<and> (\<forall>m\<in>set_option (flushMinimum ns). x \<le> grant_floor fs ns m)"
      using s g assms(3) by (auto simp: b_def split: option.split)
    have e: "arBound (availableRegulatorSnapshot h fs (Some ns)) = foldl (lower_by_queue fs ns) b (tsoBuffer ns)"
      using True by (simp add: availableRegulatorSnapshot_def may_end_early_def b_def Let_def)
    have late: "x \<le> grant_floor fs ns m" if "x \<le> send_floor fs (Some ns)" "\<not> m < requestedTime ns" for m
      using that grant_floor_requested [OF assms(2) p, of m] by simp
    show ?thesis
      unfolding e lower_by_queue_ge [OF assms(1,2) p b(1) assms(3)] b(2) floor_ok_def live_ts_def
      using True late by auto
  qed
qed

section \<open>Grant decisions respect floors\<close>

lemma nextGrantMessage_fold:
  "foldl (\<lambda>next item.
         if \<not> internalTSO (bevent item) \<and> (case next of None \<Rightarrow> True | Some n \<Rightarrow> timestamp item < n)
         then Some (timestamp item) else next) init items = Some n \<Longrightarrow>
   init = Some n \<or> (\<exists>b\<in>set items. \<not> internalTSO (bevent b) \<and> timestamp b = n)"
proof (induction items arbitrary: init)
  case (Cons i items)
  from Cons.IH [OF Cons.prems [unfolded foldl_Cons]] show ?case by (auto split: if_splits)
qed simp

lemma nextGrantMessage_live: "nextGrantMessage ns = Some n \<Longrightarrow> n \<in> live_ts ns"
  unfolding nextGrantMessage_def using nextGrantMessage_fold by (fastforce simp: live_ts_def split: if_splits)

text \<open>
  A decided grant ends the request at the requested time, at a live timestamp (or the current
  time below it), or, for a flush, at the bound; a bounded grant stays below the bound.
\<close>

lemma decide_target:
  assumes "Fire (decideScalarGrant m c r b u n has)" "c \<le> r"
  shows "let t = GrantTime (decideScalarGrant m c r b u n has) in
    t = r \<or> (has \<and> (usesNextMessageTarget m \<or> m = ModeFQR) \<and> t = max c (min n r)) \<or> (m = ModeFQR \<and> \<not> u \<and> t = max c (min b r))"
  using assms unfolding decideScalarGrant_def Let_def by (auto simp: no_grant_def min_def max_def split: if_splits)

end
