(* ===== verification/Time_Safety.thy ===== *)
theory Time_Safety
  imports Time_Floor
begin

text \<open>
  Conservative synchronisation: no constrained federate is granted past a timestamp that
  another regulating federate may still send.  The invariant is kept by every pass of the
  grant evaluator.
\<close>

section \<open>The invariant\<close>

definition mgr_wf :: "manager \<Rightarrow> bool" where
  "mgr_wf s \<longleftrightarrow> (\<forall>fed h. ns_wf (getOrCreateNs s fed h) \<and> ro_ok s fed h \<and> (\<forall>ts\<in>live s fed h. ts \<le> MaxTime) \<and>
     (\<forall>fs. getFs s fed h = Some fs \<longrightarrow> rec_wf fs (getOrCreateNs s fed h)))"

definition ordered :: "manager \<Rightarrow> bool" where
  "ordered s \<longleftrightarrow> (\<forall>fed p h fp fh. p \<noteq> h \<longrightarrow> getFs s fed p = Some fp \<longrightarrow> constrained fp \<longrightarrow>
     getFs s fed h = Some fh \<longrightarrow> regulating fh \<longrightarrow> floor_ok fh (getOrCreateNs s fed h) (currentTime (getOrCreateNs s fed p)))"

definition safe :: "manager \<Rightarrow> bool" where
  "safe s \<longleftrightarrow> mgr_wf s \<and> ordered s"

lemma mgr_wfD:
  assumes "mgr_wf s"
  shows "ns_wf (getOrCreateNs s fed h)" "ro_ok s fed h" "ts \<in> live s fed h \<Longrightarrow> ts \<le> MaxTime"
    "getFs s fed h = Some fs \<Longrightarrow> rec_wf fs (getOrCreateNs s fed h)"
    "getFs s fed h = Some fs \<Longrightarrow> fs_wf fs (currentTime (getOrCreateNs s fed h))"
  using assms by (auto simp: mgr_wf_def rec_wf_def)

lemma orderedD:
  "ordered s \<Longrightarrow> p \<noteq> h \<Longrightarrow> getFs s fed p = Some fp \<Longrightarrow> constrained fp \<Longrightarrow> getFs s fed h = Some fh \<Longrightarrow> regulating fh \<Longrightarrow>
   floor_ok fh (getOrCreateNs s fed h) (currentTime (getOrCreateNs s fed p))"
  by (auto simp: ordered_def)

lemma safe_view: "view s' = view s \<Longrightarrow> safe s' = safe s"
  by (simp add: safe_def mgr_wf_def ordered_def ro_ok_def live_def view_def)

section \<open>Queue operations keep the invariant\<close>

definition quiet :: "fed_name \<Rightarrow> handle \<Rightarrow> manager \<Rightarrow> manager \<Rightarrow> bool" where
  "quiet fed h s s' \<longleftrightarrow> frame fed h s s' \<and> calm {} fed h s s'"

lemma quiet_refl [simp]: "quiet fed h s s"
  by (simp add: quiet_def)

lemma quiet_trans: "quiet fed h s t \<Longrightarrow> quiet fed h t u \<Longrightarrow> quiet fed h s u"
  unfolding quiet_def using frame_trans calm_trans [of "{}" fed h s t "{}" u "{}"] by auto

lemma same_floors:
  assumes "same_fs f g" "same_ns m n"
  shows "send_floor g (Some n) = send_floor f (Some m)" "grant_floor g n t = grant_floor f m t"
    "may_end_early g n = may_end_early f m"
proof -
  have p: "projectedLookahead g u = projectedLookahead f u" for u
    using same_fsD [OF assms(1)] by (simp add: projectedLookahead_def)
  have q: "strictZeroLookahead (recordGrantBound n u) = strictZeroLookahead (recordGrantBound m u)" for u
    using same_nsD [OF assms(2)] by (simp add: recordGrantBound_def Let_def)
  show "send_floor g (Some n) = send_floor f (Some m)" "grant_floor g n t = grant_floor f m t"
    "may_end_early g n = may_end_early f m"
    using same_fsD [OF assms(1)] same_nsD [OF assms(2)] p q
    by (simp_all add: send_floor_def outgoingTSOBound_def grant_floor_def may_end_early_def Let_def)
qed

lemma same_floor_ok:
  assumes "same_fs f g" "same_ns m n" "live_ts n \<subseteq> live_ts m" "floor_ok f m x"
  shows "floor_ok g n x"
  using assms(3,4) same_floors [OF assms(1,2)] by (auto simp: floor_ok_def)

lemma same_rec_wf:
  assumes "same_fs f g" "same_ns m n" "rec_wf f m" "\<forall>r\<in>set_option (receivedTSOTime g). r \<le> MaxTime"
  shows "rec_wf g n"
  using assms same_fsD [OF assms(1)] same_nsD [OF assms(2)] by (auto simp: rec_wf_def fs_wf_def)

lemma frame_records:
  assumes "frame fed h s s'"
  shows "same_ns (getOrCreateNs s fed' h') (getOrCreateNs s' fed' h')"
    and "getFs s' fed' h' = Some g \<Longrightarrow> \<exists>f. getFs s fed' h' = Some f \<and> same_fs f g"
    and "getFs s fed' h' = Some f \<Longrightarrow> \<exists>g. getFs s' fed' h' = Some g \<and> same_fs f g"
proof -
  show "same_ns (getOrCreateNs s fed' h') (getOrCreateNs s' fed' h')"
    using assms frame_goc_other [OF assms, of fed' h'] by (cases "fed' = fed \<and> h' = h") (auto simp: frame_def)
  have "rel_option same_fs (getFs s fed' h') (getFs s' fed' h')"
    using assms by (cases "fed' = fed \<and> h' = h") (auto simp: frame_def)
  then show "getFs s' fed' h' = Some g \<Longrightarrow> \<exists>f. getFs s fed' h' = Some f \<and> same_fs f g"
    "getFs s fed' h' = Some f \<Longrightarrow> \<exists>g. getFs s' fed' h' = Some g \<and> same_fs f g"
    by (auto simp: option.rel_sel elim: option.rel_cases)
qed

lemma quiet_live:
  assumes "quiet fed h s s'" "mgr_wf s"
  shows "live s' fed' h' \<subseteq> live s fed' h'" "ro_ok s' fed' h'" "received s' fed' h' \<subseteq> received s fed' h' \<union> live s fed' h'"
proof -
  have f: "frame fed h s s'" and c: "calm {} fed h s s'" using assms(1) by (auto simp: quiet_def)
  have "live s' fed' h' \<subseteq> live s fed' h' \<and> ro_ok s' fed' h' \<and> received s' fed' h' \<subseteq> received s fed' h' \<union> live s fed' h'"
  proof (cases "fed' = fed \<and> h' = h")
    case True
    then show ?thesis using c mgr_wfD(2) [OF assms(2), of fed h] by (auto simp: calm_def)
  next
    case False
    then show ?thesis
      using frame_goc_other [OF f, of fed' h'] f mgr_wfD(2) [OF assms(2), of fed' h']
      by (auto simp: live_def ro_ok_def received_def frame_def)
  qed
  then show "live s' fed' h' \<subseteq> live s fed' h'" "ro_ok s' fed' h'" "received s' fed' h' \<subseteq> received s fed' h' \<union> live s fed' h'"
    by auto
qed

lemma received_le:
  assumes "mgr_wf s" "r \<in> received s fed h"
  shows "r \<le> MaxTime"
  using assms mgr_wfD(4) [OF assms(1), of fed h] by (auto simp: received_def rec_wf_def split: option.splits)

lemma quiet_safe:
  assumes "quiet fed h s s'" "safe s"
  shows "safe s'"
proof -
  have f: "frame fed h s s'" and w: "mgr_wf s" and o: "ordered s" using assms by (auto simp: quiet_def safe_def)
  note q = quiet_live [OF assms(1) w]
  have "mgr_wf s'" unfolding mgr_wf_def
  proof (intro allI conjI ballI impI)
    fix fed' h' ts fs
    note sn = frame_records(1) [OF f, of fed' h']
    show "ns_wf (getOrCreateNs s' fed' h')"
      using mgr_wfD(1) [OF w, of fed' h'] same_nsD [OF sn] by (simp add: ns_wf_def)
    show "ro_ok s' fed' h'" by (rule q(2))
    show "ts \<le> MaxTime" if "ts \<in> live s' fed' h'" using that q(1) mgr_wfD(3) [OF w] by blast
    assume g: "getFs s' fed' h' = Some fs"
    then obtain f0 where f0: "getFs s fed' h' = Some f0" "same_fs f0 fs" using frame_records(2) [OF f] by blast
    have "\<forall>r\<in>set_option (receivedTSOTime fs). r \<le> MaxTime"
      using q(3) [of fed' h'] g received_le [OF w] mgr_wfD(3) [OF w] by (fastforce simp: received_def)
    then show "rec_wf fs (getOrCreateNs s' fed' h')" using same_rec_wf [OF f0(2) sn mgr_wfD(4) [OF w f0(1)]] by simp
  qed
  moreover have "ordered s'" unfolding ordered_def
  proof (intro allI impI)
    fix fed' p j fp fj
    assume a: "p \<noteq> j" "getFs s' fed' p = Some fp" "constrained fp" "getFs s' fed' j = Some fj" "regulating fj"
    obtain f1 where f1: "getFs s fed' p = Some f1" "same_fs f1 fp" using frame_records(2) [OF f] a(2) by blast
    obtain f2 where f2: "getFs s fed' j = Some f2" "same_fs f2 fj" using frame_records(2) [OF f] a(4) by blast
    have "floor_ok f2 (getOrCreateNs s fed' j) (currentTime (getOrCreateNs s fed' p))"
      by (rule orderedD [OF o a(1) f1(1) _ f2(1)]) (use a same_fsD [OF f1(2)] same_fsD [OF f2(2)] in auto)
    then show "floor_ok fj (getOrCreateNs s' fed' j) (currentTime (getOrCreateNs s' fed' p))"
      using same_floor_ok [OF f2(2) frame_records(1) [OF f, of fed' j]] q(1) [of fed' j]
        same_nsD(1) [OF frame_records(1) [OF f, of fed' p]] by (simp add: live_def)
  qed
  ultimately show ?thesis by (simp add: safe_def)
qed

section \<open>A grant keeps the invariant\<close>

definition grant_ok :: "manager \<Rightarrow> fed_name \<Rightarrow> handle \<Rightarrow> int \<Rightarrow> bool" where
  "grant_ok s fed h t \<longleftrightarrow>
     (let ns = getOrCreateNs s fed h in pendingNER ns \<and> currentTime ns \<le> t \<and> t \<le> requestedTime ns \<and>
      (\<forall>fs. getFs s fed h = Some fs \<longrightarrow>
         (constrained fs \<longrightarrow> (\<forall>j fj. j \<noteq> h \<longrightarrow> getFs s fed j = Some fj \<longrightarrow> regulating fj \<longrightarrow> floor_ok fj (getOrCreateNs s fed j) t)) \<and>
         (regulating fs \<longrightarrow> (\<forall>p fp. p \<noteq> h \<longrightarrow> getFs s fed p = Some fp \<longrightarrow> constrained fp \<longrightarrow>
            currentTime (getOrCreateNs s fed p) \<le> grant_floor fs ns t))))"

lemma getFs_applyGrant:
  "getFs (applyGrant fed h t c s) fed' h' =
     (if fed' = fed \<and> h' = h then map_option (grantFs (getOrCreateNs s fed h) t) (getFs s fed h) else getFs s fed' h')"
  by (auto simp: applyGrant_def Let_def split: option.splits)

lemma floor_ok_idle: "\<not> pendingNER ns \<Longrightarrow> floor_ok fs ns x \<longleftrightarrow> x \<le> send_floor fs (Some ns)"
  by (simp add: floor_ok_def may_end_early_def)

lemma applyGrant_safe:
  assumes "safe s" "grant_ok s fed h t"
  shows "safe (applyGrant fed h t True s)"
proof -
  let ?s = "applyGrant fed h t True s" and ?n = "getOrCreateNs s fed h"
  have w: "mgr_wf s" and o: "ordered s" using assms(1) by (auto simp: safe_def)
  have g: "pendingNER ?n" "currentTime ?n \<le> t" "t \<le> requestedTime ?n" using assms(2) by (auto simp: grant_ok_def Let_def)
  have live': "live ?s fed' h' \<subseteq> live s fed' h'" for fed' h'
    by (auto simp: live_def live_ts_def goc_applyGrant)
  have "mgr_wf ?s" unfolding mgr_wf_def
  proof (intro allI conjI ballI impI)
    fix fed' h' ts fs
    show "ns_wf (getOrCreateNs ?s fed' h')"
      using mgr_wfD(1) [OF w, of fed' h'] mgr_wfD(1) [OF w, of fed h] g by (auto simp: goc_applyGrant ns_wf_def in_range_def)
    show "ro_ok ?s fed' h'" using mgr_wfD(2) [OF w, of fed' h'] by (auto simp: ro_ok_def goc_applyGrant)
    show "ts \<le> MaxTime" if "ts \<in> live ?s fed' h'" using that live' mgr_wfD(3) [OF w] by blast
    assume "getFs ?s fed' h' = Some fs"
    then show "rec_wf fs (getOrCreateNs ?s fed' h')"
      using mgr_wfD(4) [OF w] mgr_wfD(1) [OF w] g grant_rec_wf(1)
      by (auto simp: getFs_applyGrant goc_applyGrant split: if_splits)
  qed
  moreover have "ordered ?s" unfolding ordered_def
  proof (intro allI impI)
    fix fed' p j fp fj
    assume a: "p \<noteq> j" "getFs ?s fed' p = Some fp" "constrained fp" "getFs ?s fed' j = Some fj" "regulating fj"
    consider "fed' = fed" "p = h" | "fed' = fed" "j = h" | "fed' \<noteq> fed \<or> (p \<noteq> h \<and> j \<noteq> h)" by blast
    then show "floor_ok fj (getOrCreateNs ?s fed' j) (currentTime (getOrCreateNs ?s fed' p))"
    proof cases
      case 1
      then obtain f where f: "getFs s fed h = Some f" "fp = grantFs ?n t f" using a(2) by (auto simp: getFs_applyGrant)
      then have "floor_ok fj (getOrCreateNs s fed j) t"
        using assms(2) a 1 by (auto simp: grant_ok_def Let_def getFs_applyGrant grantFs_def)
      then show ?thesis using 1 a by (simp add: goc_applyGrant)
    next
      case 2
      then obtain f where f: "getFs s fed h = Some f" "fj = grantFs ?n t f" using a(4) by (auto simp: getFs_applyGrant)
      have "currentTime (getOrCreateNs s fed p) \<le> grant_floor f ?n t"
        using assms(2) a 2 f by (auto simp: grant_ok_def Let_def getFs_applyGrant grantFs_def)
      then show ?thesis
        using 2 a f g mgr_wfD(4) [OF w f(1)] by (simp add: goc_applyGrant floor_ok_idle grant_send_floor rec_wf_def)
    next
      case 3
      then show ?thesis using orderedD [OF o a(1), of fed'] a by (auto simp: getFs_applyGrant goc_applyGrant)
    qed
  qed
  ultimately show ?thesis by (simp add: safe_def)
qed

section \<open>The bounds of a federation\<close>

lemma mem_regulators:
  "(h, fs, ns) \<in> set (regulators s fed) \<longleftrightarrow> getFs s fed h = Some fs \<and> regulating fs \<and> ns = getNs s fed h"
proof -
  have "h \<in> set (fedKeys fed (states s)) \<longleftrightarrow> getFs s fed h \<noteq> None" by (simp add: mem_fedKeys getFs_def)
  then show ?thesis by (force simp: regulators_def)
qed

lemma fs_wf_None: "getNs s fed h = None \<Longrightarrow> getOrCreateNs s fed h = new_nerState"
  by (simp add: getOrCreateNs_def)

lemma regulators_wf:
  assumes "mgr_wf s"
  shows "\<forall>(h, fs, ns) \<in> set (regulators s fed). pair_wf fs ns"
proof (clarsimp simp: mem_regulators)
  fix h fs assume f: "getFs s fed h = Some fs"
  show "pair_wf fs (getNs s fed h)"
    using mgr_wfD(1) [OF assms, of fed h] mgr_wfD(5) [OF assms f] fs_wf_None [of s fed h] getOrCreateNs_Some [of s fed h]
    by (cases "getNs s fed h") (auto simp: new_nerState_def)
qed

lemma snapshot_get:
  assumes "mgr_wf s" "getFs s fed h = Some fs" "x \<le> MaxTime + 1"
  shows "x \<le> bval (arBound (availableRegulatorSnapshot h fs (getNs s fed h))) \<longleftrightarrow> floor_ok fs (getOrCreateNs s fed h) x"
    and "send_floor fs (getNs s fed h) = send_floor fs (Some (getOrCreateNs s fed h))"
proof -
  note wf = mgr_wfD(1) [OF assms(1), of fed h] mgr_wfD(5) [OF assms(1,2)]
  show sf: "send_floor fs (getNs s fed h) = send_floor fs (Some (getOrCreateNs s fed h))"
    by (cases "getNs s fed h") (simp_all add: getOrCreateNs_def send_floor_None)
  show "x \<le> bval (arBound (availableRegulatorSnapshot h fs (getNs s fed h))) \<longleftrightarrow> floor_ok fs (getOrCreateNs s fed h) x"
  proof (cases "getNs s fed h")
    case None
    then have n: "getOrCreateNs s fed h = new_nerState" by (rule fs_wf_None)
    have "pair_wf fs None" using wf(2) n by (simp add: new_nerState_def)
    from bval_availableSendHorizon [OF this] show ?thesis
      using None n assms(3) sf
      by (auto simp: availableRegulatorSnapshot_def floor_ok_def may_end_early_def new_nerState_def Let_def)
  next
    case (Some ns)
    then show ?thesis using snapshot_floor_ok [OF _ _ assms(3), of fs ns h] wf getOrCreateNs_Some [OF Some] by simp
  qed
qed

text \<open>GALT bounds the floor of every other regulator, and every lower bound of all floors.\<close>

lemma GALT_bounds:
  assumes "mgr_wf s" "availableHorizonOf s fed h = Some b"
  shows "bound_wf b"
    and "getFs s fed j = Some fj \<Longrightarrow> regulating fj \<Longrightarrow> j \<noteq> h \<Longrightarrow> x \<le> bval b \<Longrightarrow> floor_ok fj (getOrCreateNs s fed j) x"
    and "y \<le> MaxTime + 1 \<Longrightarrow> (\<And>j fj. getFs s fed j = Some fj \<Longrightarrow> regulating fj \<Longrightarrow> floor_ok fj (getOrCreateNs s fed j) y) \<Longrightarrow>
      y \<le> bval b"
proof -
  note H = availableHorizon_snapshot [OF regulators_wf [OF assms(1)] assms(2) [unfolded availableHorizonOf_def]]
  show "bound_wf b" by (rule H(1))
  show "floor_ok fj (getOrCreateNs s fed j) x"
    if f: "getFs s fed j = Some fj" "regulating fj" "j \<noteq> h" "x \<le> bval b"
  proof -
    have "x \<le> bval (arBound (availableRegulatorSnapshot j fj (getNs s fed j)))"
      using H(2) [of j fj "getNs s fed j"] f by (simp add: mem_regulators)
    then show ?thesis using snapshot_get(1) [OF assms(1) f(1)] bval_le [OF H(1)] f(4) by simp
  qed
  show "y \<le> bval b"
    if y: "y \<le> MaxTime + 1" "\<And>j fj. getFs s fed j = Some fj \<Longrightarrow> regulating fj \<Longrightarrow> floor_ok fj (getOrCreateNs s fed j) y"
    by (rule H(3) [OF y(1)]) (use y snapshot_get(1) [OF assms(1) _ y(1)] in \<open>auto simp: mem_regulators\<close>)
qed

lemma GALT_None:
  assumes "mgr_wf s" "availableHorizonOf s fed h = None" "getFs s fed j = Some fj" "regulating fj"
  shows "j = h"
  using availableHorizon_None [OF regulators_wf [OF assms(1)], of fed h] assms(2-4)
  unfolding availableHorizonOf_def by (fastforce simp: mem_regulators)

definition lbts_ok :: "manager \<Rightarrow> fed_name \<Rightarrow> TimeBound \<Rightarrow> bool" where
  "lbts_ok s fed b \<longleftrightarrow> bound_wf b \<and> (\<forall>x \<le> MaxTime + 1. (\<forall>j fj. getFs s fed j = Some fj \<longrightarrow> regulating fj \<longrightarrow>
     x \<le> send_floor fj (Some (getOrCreateNs s fed j))) \<longrightarrow> x \<le> bval b)"

lemma lbts_ok_snapshot:
  assumes "mgr_wf s"
  shows "lbts_ok s fed (LBTSBound (regulatingSnapshot s fed))"
proof -
  let ?rs = "regulatingSnapshot s fed"
  have R: "rf_wf rf \<and> (\<exists>j fj. getFs s fed j = Some fj \<and> regulating fj \<and>
      contribution rf = min (send_floor fj (Some (getOrCreateNs s fed j))) (MaxTime + 1))" if "rf \<in> set ?rs" for rf
  proof -
    obtain j fj where j: "getFs s fed j = Some fj" "regulating fj" "rf = regulatingBoundSnapshot j fj (getNs s fed j)"
    proof -
      obtain j fj nj where "(j, fj, nj) \<in> set (regulators s fed)" "rf = regulatingBoundSnapshot j fj nj"
        using \<open>rf \<in> set ?rs\<close> by (auto simp: regulatingSnapshot_def)
      then show thesis using that [of j fj] by (simp add: mem_regulators)
    qed
    have "pair_wf fj (getNs s fed j)" using regulators_wf [OF assms, of fed] j by (fastforce simp: mem_regulators)
    from regulatingBoundSnapshot_wf [OF this, of j] show ?thesis
      using j snapshot_get(2) [OF assms j(1), of 0] MaxTime_pos by auto
  qed
  then have wf: "\<forall>rf\<in>set ?rs. rf_wf rf" by blast
  have "x \<le> Min (insert (MaxTime + 1) (contribution ` set ?rs))"
    if "x \<le> MaxTime + 1" "\<forall>j fj. getFs s fed j = Some fj \<longrightarrow> regulating fj \<longrightarrow> x \<le> send_floor fj (Some (getOrCreateNs s fed j))" for x
    using that R by (subst Min_ge_iff) fastforce+
  then show ?thesis using LBTSBound_wf [OF wf] bval_LBTSBound [OF wf] by (simp add: lbts_ok_def)
qed

lemma lbts_ok_frame: "frame fed' h s s' \<Longrightarrow> lbts_ok s fed b \<Longrightarrow> lbts_ok s' fed b"
proof -
  assume f: "frame fed' h s s'" and b: "lbts_ok s fed b"
  have "x \<le> send_floor fj (Some (getOrCreateNs s fed j))"
    if x: "\<forall>j fj. getFs s' fed j = Some fj \<longrightarrow> regulating fj \<longrightarrow> x \<le> send_floor fj (Some (getOrCreateNs s' fed j))"
      and j: "getFs s fed j = Some fj" "regulating fj" for x j fj
  proof -
    obtain g where g: "getFs s' fed j = Some g" "same_fs fj g" using frame_records(3) [OF f j(1)] by blast
    then show ?thesis
      using x [rule_format, OF g(1)] j(2) same_fsD(1) [OF g(2)] same_floors(1) [OF g(2) frame_records(1) [OF f, of fed j]]
      by simp
  qed
  then show ?thesis using b unfolding lbts_ok_def by blast
qed

text \<open>The current time of a federate is below its own floor.\<close>

lemma own_floor:
  assumes "mgr_wf s" "getFs s fed p = Some fp"
  shows "floor_ok fp (getOrCreateNs s fed p) (currentTime (getOrCreateNs s fed p))"
proof -
  let ?n = "getOrCreateNs s fed p"
  note wf = mgr_wfD(1) [OF assms(1), of fed p] mgr_wfD(5) [OF assms]
  have "currentTime ?n \<le> grant_floor fp ?n t" for t
    using grant_floor_now [OF wf(2), of t] wf(2) by (auto simp: fs_wf_def in_range_def split: if_splits)
  then show ?thesis using send_floor_ge_now [OF wf(2,1)] by (simp add: floor_ok_def)
qed

section \<open>The decision for a candidate\<close>

definition fresh :: "manager \<Rightarrow> fed_name \<Rightarrow> candidateGrant \<Rightarrow> bool" where
  "fresh s fed c \<longleftrightarrow> (let ns = getOrCreateNs s fed (cHandle c) in pendingNER ns \<and> cMode c = mode ns \<and>
     cCurrent c = currentTime ns \<and> cReq c = requestedTime ns \<and> cNextTSO c = nextGrantMessage ns)"

lemma decide_below:
  "Fire (decideScalarGrant m c r b u n has) \<Longrightarrow> c \<le> r \<Longrightarrow>
   GrantTime (decideScalarGrant m c r b u n has) = c \<or> u \<or> GrantTime (decideScalarGrant m c r b u n has) \<le> b"
  unfolding decideScalarGrant_def Let_def by (auto simp: no_grant_def split: if_splits)

lemma grant_floor_clamp: "currentTime ns \<le> requestedTime ns \<Longrightarrow> t = max (currentTime ns) (min n (requestedTime ns)) \<Longrightarrow>
   grant_floor fs ns t = grant_floor fs ns n"
  by (auto simp: grant_floor_def min_def max_def)

lemma horizonScalar_bval: "bound_wf b \<Longrightarrow> \<not> Unbounded b \<Longrightarrow> horizonScalar b = bval b"
  by (simp add: horizonScalar_def bval_def)

lemma isConstrained_iff: "isConstrained s fed h \<longleftrightarrow> (\<exists>fs. getFs s fed h = Some fs \<and> constrained fs)"
  by (auto simp: isConstrained_def split: option.splits)

lemma candidateBound_bounds:
  assumes "mgr_wf s" "lbts_ok s fed lbts" "isConstrained s fed h"
  shows "bound_wf (candidateBound s fed h lbts)"
    and "getFs s fed j = Some fj \<Longrightarrow> regulating fj \<Longrightarrow> j \<noteq> h \<Longrightarrow> x \<le> bval (candidateBound s fed h lbts) \<Longrightarrow>
      floor_ok fj (getOrCreateNs s fed j) x"
    and "y \<le> MaxTime + 1 \<Longrightarrow> (\<And>j fj. getFs s fed j = Some fj \<Longrightarrow> regulating fj \<Longrightarrow> floor_ok fj (getOrCreateNs s fed j) y) \<Longrightarrow>
      y \<le> bval (candidateBound s fed h lbts)"
proof -
  have l: "bound_wf lbts" using assms(2) by (simp add: lbts_ok_def)
  have ly: "y \<le> bval lbts"
    if "y \<le> MaxTime + 1" "\<And>j fj. getFs s fed j = Some fj \<Longrightarrow> regulating fj \<Longrightarrow> floor_ok fj (getOrCreateNs s fed j) y"
    using assms(2) that by (auto simp: lbts_ok_def floor_ok_def)
  show "bound_wf (candidateBound s fed h lbts)"
    using assms(3) l GALT_bounds(1) [OF assms(1)] by (auto simp: candidateBound_def split: option.split)
  show "floor_ok fj (getOrCreateNs s fed j) x"
    if j: "getFs s fed j = Some fj" "regulating fj" "j \<noteq> h" "x \<le> bval (candidateBound s fed h lbts)"
  proof (cases "availableHorizonOf s fed h")
    case None
    then show ?thesis using GALT_None [OF assms(1) None j(1,2)] j(3) by simp
  next
    case (Some b)
    then show ?thesis using GALT_bounds(1,2) [OF assms(1) Some] j assms(3) l by (auto simp: candidateBound_def)
  qed
  show "y \<le> bval (candidateBound s fed h lbts)"
    if y: "y \<le> MaxTime + 1" "\<And>j fj. getFs s fed j = Some fj \<Longrightarrow> regulating fj \<Longrightarrow> floor_ok fj (getOrCreateNs s fed j) y"
    using ly [OF y] GALT_bounds(1,3) [OF assms(1) _] y assms(3) l by (auto simp: candidateBound_def split: option.split)
qed

lemma decision_grant_ok:
  assumes "safe s" "lbts_ok s fed lbts" "fresh s fed c" "Fire (decideCandidateGrant s fed c lbts)"
  shows "grant_ok s fed (cHandle c) (GrantTime (decideCandidateGrant s fed c lbts))"
proof -
  let ?h = "cHandle c" and ?n = "getOrCreateNs s fed (cHandle c)"
  define B where "B = candidateBound s fed ?h lbts"
  define t where "t = GrantTime (decideCandidateGrant s fed c lbts)"
  define nx where "nx = (if isConstrained s fed ?h then nextGrantMessage ?n else None)"
  have w: "mgr_wf s" and o: "ordered s" using assms(1) by (auto simp: safe_def)
  have c: "pendingNER ?n" "cMode c = mode ?n" "cCurrent c = currentTime ?n" "cReq c = requestedTime ?n" "cNextTSO c = nextGrantMessage ?n"
    using assms(3) by (auto simp: fresh_def Let_def)
  have cr: "currentTime ?n \<le> requestedTime ?n" "in_range (requestedTime ?n)"
    using mgr_wfD(1) [OF w, of fed ?h] c(1) by (auto simp: ns_wf_def)
  have d: "decideCandidateGrant s fed c lbts = decideScalarGrant (mode ?n) (currentTime ?n) (requestedTime ?n)
      (horizonScalar B) (Unbounded B) (case nx of Some n \<Rightarrow> n | None \<Rightarrow> 0) (nx \<noteq> None)"
    using c by (simp add: decideCandidateGrant_def B_def nx_def Let_def)
  note fire = assms(4) [unfolded d]
  have t: "currentTime ?n \<le> t" "t \<le> requestedTime ?n" using decide_window [OF cr(1) fire] by (simp_all add: t_def d)
  have A: "floor_ok fj (getOrCreateNs s fed j) t"
    if fs: "getFs s fed ?h = Some fs" "constrained fs" and j: "j \<noteq> ?h" "getFs s fed j = Some fj" "regulating fj" for fs j fj
  proof -
    have ic: "isConstrained s fed ?h" using fs by (auto simp: isConstrained_iff)
    note cb = candidateBound_bounds [OF w assms(2) ic, folded B_def]
    have "t = currentTime ?n \<or> t \<le> bval B"
      using decide_below [OF fire cr(1)] horizonScalar_bval [OF cb(1)] t cr(2) bval_unbounded_iff [OF cb(1)]
      by (auto simp: t_def d in_range_def)
    then show ?thesis
    proof
      assume "t = currentTime ?n"
      then show ?thesis using orderedD [OF o _ fs j(2,3)] j(1) by auto
    qed (use cb(2) j in blast)
  qed
  have Bd: "currentTime (getOrCreateNs s fed p) \<le> grant_floor fs ?n t"
    if fs: "getFs s fed ?h = Some fs" "regulating fs" and p: "p \<noteq> ?h" "getFs s fed p = Some fp" "constrained fp" for fs p fp
  proof -
    let ?x = "currentTime (getOrCreateNs s fed p)"
    have fl: "floor_ok fs ?n ?x" by (rule orderedD [OF o p fs])
    have all: "floor_ok fj (getOrCreateNs s fed j) ?x" if "getFs s fed j = Some fj" "regulating fj" for j fj
      using that orderedD [OF o _ p(2,3) that] own_floor [OF w p(2)] p(2) by (cases "j = p") auto
    consider "t = requestedTime ?n"
      | n where "nx = Some n" "usesNextMessageTarget (mode ?n) \<or> mode ?n = ModeFQR" "t = max (currentTime ?n) (min n (requestedTime ?n))"
      | "mode ?n = ModeFQR" "\<not> Unbounded B" "t = max (currentTime ?n) (min (horizonScalar B) (requestedTime ?n))"
      using decide_target [OF fire cr(1)] by (auto simp: t_def d Let_def)
    then show ?thesis
    proof cases
      case 1
      then show ?thesis using fl grant_floor_requested [OF mgr_wfD(1) [OF w] c(1)] by (simp add: floor_ok_def)
    next
      case 2
      then have "n \<in> live_ts ?n" "may_end_early fs ?n"
        using nextGrantMessage_live fs c(1) by (auto simp: nx_def may_end_early_def isConstrained_iff split: if_splits)
      then show ?thesis using fl grant_floor_clamp [OF cr(1) 2(3)] by (simp add: floor_ok_def)
    next
      case 3
      have ic: "isConstrained s fed ?h" using 3(2) by (auto simp: B_def candidateBound_def unboundedHorizon_def split: if_splits)
      note cb = candidateBound_bounds [OF w assms(2) ic, folded B_def]
      have "?x \<le> MaxTime + 1" using mgr_wfD(1) [OF w, of fed p] by (simp add: ns_wf_def in_range_def)
      then have "?x \<le> horizonScalar B" using cb(3) all horizonScalar_bval [OF cb(1) 3(2)] by simp
      then consider "t = requestedTime ?n" | "?x \<le> t" using 3(3) cr(1) by (cases "horizonScalar B \<le> requestedTime ?n") auto
      then show ?thesis
      proof cases
        case 1
        then show ?thesis using fl grant_floor_requested [OF mgr_wfD(1) [OF w] c(1)] by (simp add: floor_ok_def)
      next
        case 2
        then show ?thesis using grant_floor_ge [OF mgr_wfD(5) [OF w fs(1)] t(2)] by simp
      qed
    qed
  qed
  show ?thesis unfolding grant_ok_def Let_def t_def [symmetric] using c(1) t A Bd by blast
qed

end
