(* ===== verification/Time_Loop.thy ===== *)
theory Time_Loop
  imports Time_Safety
begin

text \<open>
  The grant evaluator as a whole keeps the invariant: grants and enables are quiet queue work
  followed by one transition of the records, on every branch, errors included.
\<close>

section \<open>Emission\<close>

lemma quiet_env: "frame fed h s s' \<Longrightarrow> view s' = view s \<Longrightarrow> quiet fed h s s'"
  by (simp add: quiet_def calm_env)

lemma quiet_drainRO: "drainBufferedRO E fed h s = (r, s') \<Longrightarrow> quiet fed h s s'"
  using frame_drainRO calm_drainRO by (auto simp: quiet_def)

lemma quiet_flushFederate: "flushFederateMessages E fed h s = (r, s') \<Longrightarrow> quiet fed h s s'"
  using frame_flushFederate calm_flushFederate by (auto simp: quiet_def)

lemma quiet_nextMessageGroup: "deliverNextMessageGroup E fed h t s = (b, r, s') \<Longrightarrow> quiet fed h s s'"
  using frame_nextMessageGroup calm_nextMessageGroup by (auto simp: quiet_def)

lemma quiet_drainAllTSO: "drainAllBufferedTSO E fed h s = (r, s') \<Longrightarrow> quiet fed h s s'"
  using frame_drainAllTSO calm_drainAllTSO by (auto simp: quiet_def)

lemma view_putNs_self [simp]: "view (putNs fed h (getOrCreateNs s fed h) s) = view s"
  by (simp add: view_def fun_eq_iff)

text \<open>
  A reserved or plain callback: \<open>queued fed h bs s t\<close> says that \<open>t\<close> is reached from \<open>s\<close> by quiet
  work and that the batch \<open>bs\<close> was taken on the way.
\<close>

definition queued :: "fed_name \<Rightarrow> handle \<Rightarrow> bufferedTSOEvent list \<Rightarrow> manager \<Rightarrow> manager \<Rightarrow> bool" where
  "queued fed h bs s t \<longleftrightarrow> frame fed h s t \<and> from_queue bs fed h s t"

lemma queued_quiet: "queued fed h bs s t \<Longrightarrow> quiet fed h s t"
  by (simp add: queued_def quiet_def from_queue_def)

lemma queued_env: "queued fed h bs s t \<Longrightarrow> frame fed h t u \<Longrightarrow> view u = view t \<Longrightarrow> queued fed h bs s u"
  using from_queue_env frame_trans by (auto simp: queued_def)

lemma queued_restore: "queued fed h bs s t \<Longrightarrow> quiet fed h s (restoreBufferedMessages fed h bs t)"
  using from_queue_restore frame_to_restore by (auto simp: queued_def quiet_def)

lemma queued_deliver: "queued fed h bs s t \<Longrightarrow> deliverBufferedSequence E fed h bs t = (r, u) \<Longrightarrow> quiet fed h s u"
  using from_queue_deliver frame_trans frame_deliverSequence by (fastforce simp: queued_def quiet_def)

lemma queued_callback:
  assumes "queued fed h bs s t" "reserveTimeCallback E fed h bs cb t = (r, u)"
  shows "quiet fed h s u" "r = Inr (ds, bs') \<Longrightarrow> queued fed h bs' s u"
  using reserveTimeCallback_queue [of bs fed h s t E cb r u] frame_trans [OF _ frame_reserveTimeCallback [OF assms(2)]] assms
  by (auto simp: queued_def quiet_def)

lemma emitGrant_cases:
  assumes "emitGrant E fed h t c s = (r, s')"
  shows "(r \<noteq> None \<and> quiet fed h s s') \<or>
    (r = None \<and> (\<exists>u. quiet fed h s u \<and> view s' = view (applyGrant fed h t c u)))"
proof -
  obtain bs t1 where t1: "takeGrantMessages fed h t s = (bs, t1)" by (cases "takeGrantMessages fed h t s")
  have q1: "queued fed h bs s t1" using frame_takeGrantMessages [OF t1] from_queue_grant [OF t1] by (simp add: queued_def)
  show ?thesis
  proof (cases "eReservable E")
    case True
    obtain x t2 where t2: "reserveTimeCallback E fed h bs (TimeAdvanceGrant t) t1 = (x, t2)"
      by (cases "reserveTimeCallback E fed h bs (TimeAdvanceGrant t) t1")
    note c2 = queued_callback [OF q1 t2]
    show ?thesis
    proof (cases x)
      case (Inl err)
      then show ?thesis using assms t1 t2 True c2(1) by (auto simp: emitGrant_def)
    next
      case (Inr y)
      obtain ds bs' where x: "x = Inr (ds, bs')" using Inr by (cases y) simp
      obtain l t3 where t3: "EventLog_Append E fed (TimeAdvanceGrantedRecord h t) t2 = (l, t3)"
        by (cases "EventLog_Append E fed (TimeAdvanceGrantedRecord h t) t2")
      note q3 = queued_env [OF c2(2) [OF x] frame_Append [OF t3] view_Append [OF t3]]
      note q4 = queued_env [OF q3 frame_putNs_self view_putNs_self]
      let ?p = "putNs fed h (getOrCreateNs t3 fed h) t3"
      obtain m u where u: "Outbox_Commit E fed ds ?p = (m, u)" by (cases "Outbox_Commit E fed ds ?p")
      note q5 = queued_env [OF q4 frame_Commit [OF u] view_Commit [OF u]]
      show ?thesis
        using assms t1 t2 True x t3 u queued_restore [OF q3] queued_restore [OF q5] queued_quiet [OF q5]
        by (cases l; cases m) (auto simp: emitGrant_def commitReservedGrant_def)
    qed
  next
    case False
    obtain l t3 where t3: "EventLog_Append E fed (TimeAdvanceGrantedRecord h t) t1 = (l, t3)"
      by (cases "EventLog_Append E fed (TimeAdvanceGrantedRecord h t) t1")
    note q3 = queued_env [OF q1 frame_Append [OF t3] view_Append [OF t3]]
    obtain k t4 where t4: "deliverBufferedSequence E fed h bs t3 = (k, t4)" by (cases "deliverBufferedSequence E fed h bs t3")
    note q4 = queued_deliver [OF q3 t4]
    let ?p = "putNs fed h (getOrCreateNs t4 fed h) t4"
    obtain m u where u: "Outbox_Send E fed h (TimeAdvanceGrant t) ?p = (m, u)" by (cases "Outbox_Send E fed h (TimeAdvanceGrant t) ?p")
    have q5: "quiet fed h s u"
      using quiet_trans [OF q4 quiet_trans [OF quiet_env [OF frame_putNs_self view_putNs_self] quiet_env [OF frame_Send [OF u] view_Send [OF u]]]] .
    show ?thesis
      using assms t1 t3 t4 u False queued_restore [OF q3] q4 q5
      by (cases l; cases k; cases m) (auto simp: emitGrant_def sendUnreservedGrant_def)
  qed
qed

lemma emitEnable_cases:
  assumes "emitEnable E fed h reg t s = (r, s')"
  shows "(r \<noteq> None \<and> quiet fed h s s') \<or>
    (r = None \<and> (\<exists>u. quiet fed h s u \<and> view s' = view (applyEnable fed h reg t u)))"
proof -
  let ?cb = "if reg then TimeRegulationEnabled t else TimeConstrainedEnabled t"
  obtain bs t1 where t1: "takeEnableMessages fed h reg t s = (bs, t1)" by (cases "takeEnableMessages fed h reg t s")
  have q1: "queued fed h bs s t1" using frame_takeEnableMessages [OF t1] from_queue_enable [OF t1] by (simp add: queued_def)
  show ?thesis
  proof (cases "eReservable E")
    case True
    obtain x t2 where t2: "reserveTimeCallback E fed h bs ?cb t1 = (x, t2)" by (cases "reserveTimeCallback E fed h bs ?cb t1")
    note c2 = queued_callback [OF q1 t2]
    show ?thesis
    proof (cases x)
      case (Inl err)
      then show ?thesis using assms t1 t2 True c2(1) by (auto simp: emitEnable_def Let_def)
    next
      case (Inr y)
      obtain ds bs' where x: "x = Inr (ds, bs')" using Inr by (cases y) simp
      obtain m u where u: "Outbox_Commit E fed ds t2 = (m, u)" by (cases "Outbox_Commit E fed ds t2")
      note q5 = queued_env [OF c2(2) [OF x] frame_Commit [OF u] view_Commit [OF u]]
      show ?thesis
        using assms t1 t2 True x u queued_restore [OF q5] queued_quiet [OF q5]
        by (cases m) (auto simp: emitEnable_def Let_def)
    qed
  next
    case False
    obtain k t4 where t4: "deliverBufferedSequence E fed h bs t1 = (k, t4)" by (cases "deliverBufferedSequence E fed h bs t1")
    note q4 = queued_deliver [OF q1 t4]
    obtain m u where u: "Outbox_Send E fed h ?cb t4 = (m, u)" by (cases "Outbox_Send E fed h ?cb t4")
    note q5 = quiet_trans [OF q4 quiet_env [OF frame_Send [OF u] view_Send [OF u]]]
    show ?thesis
      using assms t1 t4 u False q4 q5 by (cases k; cases m) (auto simp: emitEnable_def Let_def)
  qed
qed

section \<open>Enabling keeps the invariant\<close>

definition enable_ok :: "manager \<Rightarrow> fed_name \<Rightarrow> handle \<Rightarrow> bool \<Rightarrow> int \<Rightarrow> bool" where
  "enable_ok s fed h reg t \<longleftrightarrow>
     (\<forall>fs. getFs s fed h = Some fs \<longrightarrow>
        (let ns = getOrCreateNs s fed h in \<not> pendingNER ns \<and> in_range t \<and>
         (if reg then currentTime ns \<le> t else t = currentTime ns) \<and>
         (constrained fs \<or> \<not> reg \<longrightarrow> (\<forall>j fj. j \<noteq> h \<longrightarrow> getFs s fed j = Some fj \<longrightarrow> regulating fj \<longrightarrow>
            floor_ok fj (getOrCreateNs s fed j) t)) \<and>
         (reg \<longrightarrow> (\<forall>p fp. p \<noteq> h \<longrightarrow> getFs s fed p = Some fp \<longrightarrow> constrained fp \<longrightarrow>
            currentTime (getOrCreateNs s fed p) \<le> t + regulationLookahead fs))))"

lemma minimumEnableTime_spec:
  assumes "minimumEnableTime c la peer ex = Some t" "0 \<le> c" "c \<le> MaxTime" "peer \<le> MaxTime" "0 \<le> la"
  shows "c \<le> t" "t \<le> MaxTime" "peer \<le> t + la"
  using assms by (auto simp: minimumEnableTime_def successor_def Let_def split: if_splits prod.splits)

lemma regulationEnableLoop_spec:
  assumes "mgr_wf s" "regulationEnableLoop s fed h c la ks = Some t" "in_range c" "0 \<le> la"
  shows "c \<le> t \<and> t \<le> MaxTime \<and>
    (\<forall>p\<in>set ks. \<forall>fp. p \<noteq> h \<longrightarrow> getFs s fed p = Some fp \<longrightarrow> constrained fp \<longrightarrow> getNs s fed p \<noteq> None \<longrightarrow>
      currentTime (getOrCreateNs s fed p) \<le> t + la)"
  using assms(2,3)
proof (induction ks arbitrary: c)
  case Nil
  then show ?case by (simp add: in_range_def)
next
  case (Cons k ks)
  let ?skip = "case (getFs s fed k, getNs s fed k) of (Some f, Some n) \<Rightarrow> k = h \<or> \<not> constrained f | _ \<Rightarrow> True"
  show ?case
  proof (cases ?skip)
    case True
    then have "regulationEnableLoop s fed h c la ks = Some t" using Cons.prems(1) by (auto split: option.splits if_splits)
    from Cons.IH [OF this Cons.prems(2)] show ?thesis using True by (auto split: option.splits)
  next
    case False
    then obtain f n where fn: "getFs s fed k = Some f" "getNs s fed k = Some n" "k \<noteq> h" "constrained f"
      by (auto split: option.splits)
    define fr where "fr = (case receivedTSOTime f of Some r \<Rightarrow> max (currentTime n) r | None \<Rightarrow> currentTime n)"
    from Cons.prems(1) fn obtain c' where c': "minimumEnableTime c la fr (preservedReceiveTime f = Some fr) = Some c'"
      "regulationEnableLoop s fed h c' la ks = Some t"
      by (auto simp: fr_def Let_def split: option.splits)
    have n: "getOrCreateNs s fed k = n" by (rule getOrCreateNs_Some [OF fn(2)])
    have fr: "currentTime n \<le> fr" "fr \<le> MaxTime"
      using mgr_wfD(1) [OF assms(1), of fed k] mgr_wfD(4) [OF assms(1) fn(1)] n
      by (auto simp: fr_def ns_wf_def in_range_def rec_wf_def split: option.splits)
    note m = minimumEnableTime_spec [OF c'(1) _ _ fr(2) assms(4)]
    have r: "c \<le> c'" "in_range c'" "fr \<le> c' + la" using m Cons.prems(2) by (auto simp: in_range_def)
    from Cons.IH [OF c'(2) r(2)] show ?thesis using r fr(1) n by auto
  qed
qed

lemma enableTarget_ok:
  assumes "safe s" "enableTarget s fed h reg = Some t"
  shows "enable_ok s fed h reg t"
proof -
  have w: "mgr_wf s" using assms(1) by (simp add: safe_def)
  have es: "enableTargetState s fed h reg = Some t"
    using assms(2) by (auto simp: enableTarget_def split: option.splits if_splits)
  obtain fs ns where f: "getFs s fed h = Some fs" "getNs s fed h = Some ns"
    and p: "reg \<longrightarrow> regulationPending fs" "\<not> reg \<longrightarrow> constrainedPending fs"
    using es by (auto simp: enableTargetState_def split: option.splits if_splits)
  have n: "getOrCreateNs s fed h = ns" by (rule getOrCreateNs_Some [OF f(2)])
  note rw = mgr_wfD(4) [OF w f(1), unfolded n]
  have idle: "\<not> pendingNER ns" using rw p by (cases reg) (auto simp: rec_wf_def)
  have cur: "in_range (currentTime ns)" using mgr_wfD(1) [OF w, of fed h] n by (simp add: ns_wf_def)
  define c where "c = (case receivedTSOTime fs of Some r \<Rightarrow> if constrained fs then max (currentTime ns) r else currentTime ns | None \<Rightarrow> currentTime ns)"
  have c: "in_range c" "currentTime ns \<le> c" using cur rw by (auto simp: c_def rec_wf_def in_range_def split: option.splits)
  have tt: "(if reg then regulationEnableTime s fed h c (regulationLookahead fs) else Some (currentTime ns)) = Some t"
    and gal: "constrained fs \<or> \<not> reg \<Longrightarrow> availableHorizonOf s fed h = Some b \<Longrightarrow> horizonBeyond b t False" for b
    using es f p by (auto simp: enableTargetState_def c_def Let_def split: option.splits if_splits)
  have la: "0 \<le> regulationLookahead fs" using rw by (simp add: rec_wf_def fs_wf_def in_range_def)
  have R: "currentTime ns \<le> t \<and> in_range t \<and> (\<forall>p fp. p \<noteq> h \<longrightarrow> getFs s fed p = Some fp \<longrightarrow> constrained fp \<longrightarrow>
      currentTime (getOrCreateNs s fed p) \<le> t + regulationLookahead fs)" if reg
  proof -
    have "regulationEnableLoop s fed h c (regulationLookahead fs) (fedKeys fed (states s)) = Some t"
      using tt that by (simp add: regulationEnableTime_def)
    note L = regulationEnableLoop_spec [OF w this c(1) la]
    have "currentTime (getOrCreateNs s fed q) \<le> t + regulationLookahead fs"
      if q: "q \<noteq> h" "getFs s fed q = Some fq" "constrained fq" for q fq
    proof (cases "getNs s fed q")
      case None
      then show ?thesis using L la c(1) by (auto simp: fs_wf_None new_nerState_def in_range_def)
    next
      case (Some nq)
      moreover have "q \<in> set (fedKeys fed (states s))" using q(2) by (simp add: mem_fedKeys getFs_def)
      ultimately show ?thesis using L q by auto
    qed
    then show ?thesis using L c by (auto simp: in_range_def)
  qed
  have T: "in_range t" "if reg then currentTime ns \<le> t else t = currentTime ns" using R tt cur by (auto split: if_splits)
  have G: "floor_ok fj (getOrCreateNs s fed j) t"
    if k: "constrained fs \<or> \<not> reg" and j: "j \<noteq> h" "getFs s fed j = Some fj" "regulating fj" for j fj
  proof (cases "availableHorizonOf s fed h")
    case None
    then show ?thesis using GALT_None [OF w None j(2,3)] j(1) by simp
  next
    case (Some b)
    note gb = GALT_bounds(1,2) [OF w Some]
    have "t \<le> bval b" using gal [OF k Some] horizonBeyond_bval [OF gb(1) T(1), of False] by simp
    then show ?thesis using gb(2) j by blast
  qed
  show ?thesis unfolding enable_ok_def Let_def using f n idle T G R by auto
qed

lemma enableFs_simps [simp]:
  "constrained (enableFs reg t fs) = (constrained fs \<or> \<not> reg)" "regulating (enableFs reg t fs) = (regulating fs \<or> reg)"
  by (auto simp: enableFs_def Let_def)

lemma enableNs_simps [simp]:
  "currentTime (enableNs reg t ns) = t" "pendingNER (enableNs reg t ns) = pendingNER ns"
  "roBuffer (enableNs reg t ns) = roBuffer ns" "live_ts (enableNs reg t ns) = live_ts ns"
  by (auto simp: enableNs_def live_ts_def Let_def)

lemma enable_rec_wf:
  assumes "rec_wf fs ns" "in_range t" "\<not> pendingNER ns" "if reg then currentTime ns \<le> t else t = currentTime ns"
  shows "rec_wf (enableFs reg t fs) (enableNs reg t ns)"
  using assms by (cases reg) (auto simp: rec_wf_def enableFs_def fs_wf_def in_range_def MaxTime_pos Let_def)

lemma enable_send_floor:
  "\<not> pendingNER ns \<Longrightarrow> send_floor (enableFs True t fs) (Some (enableNs True t ns)) = t + regulationLookahead fs"
  "\<not> pendingNER ns \<Longrightarrow> send_floor (enableFs False (currentTime ns) fs) (Some (enableNs False (currentTime ns) ns)) = send_floor fs (Some ns)"
  by (simp_all add: send_floor_idle enableFs_def enableNs_def Let_def)

lemma applyEnable_safe:
  assumes "safe s" "enable_ok s fed h reg t"
  shows "safe (applyEnable fed h reg t s)"
proof (cases "getFs s fed h \<noteq> None \<and> getNs s fed h \<noteq> None")
  case True
  then obtain fs ns where f: "getFs s fed h = Some fs" "getNs s fed h = Some ns" by auto
  let ?s = "applyEnable fed h reg t s"
  have w: "mgr_wf s" and o: "ordered s" using assms(1) by (auto simp: safe_def)
  have n: "getOrCreateNs s fed h = ns" by (rule getOrCreateNs_Some [OF f(2)])
  have gf: "getFs ?s fed' h' = (if fed' = fed \<and> h' = h then Some (enableFs reg t fs) else getFs s fed' h')" for fed' h'
    using f by (simp add: applyEnable_def)
  have gn: "getOrCreateNs ?s fed' h' = (if fed' = fed \<and> h' = h then enableNs reg t ns else getOrCreateNs s fed' h')" for fed' h'
    using f by (simp add: applyEnable_def)
  have e: "\<not> pendingNER ns" "in_range t" "if reg then currentTime ns \<le> t else t = currentTime ns"
    and eA: "\<And>j fj. constrained fs \<or> \<not> reg \<Longrightarrow> j \<noteq> h \<Longrightarrow> getFs s fed j = Some fj \<Longrightarrow> regulating fj \<Longrightarrow> floor_ok fj (getOrCreateNs s fed j) t"
    and eB: "\<And>p fp. reg \<Longrightarrow> p \<noteq> h \<Longrightarrow> getFs s fed p = Some fp \<Longrightarrow> constrained fp \<Longrightarrow>
      currentTime (getOrCreateNs s fed p) \<le> t + regulationLookahead fs"
    using assms(2) f n by (auto simp: enable_ok_def Let_def)
  have "mgr_wf ?s" unfolding mgr_wf_def
  proof (intro allI conjI ballI impI)
    fix fed' h' ts g
    show "ns_wf (getOrCreateNs ?s fed' h')" using mgr_wfD(1) [OF w, of fed' h'] e by (auto simp: gn ns_wf_def)
    show "ro_ok ?s fed' h'" using mgr_wfD(2) [OF w, of fed' h'] n by (auto simp: ro_ok_def gn)
    show "ts \<le> MaxTime" if "ts \<in> live ?s fed' h'"
      using that mgr_wfD(3) [OF w, of ts fed' h'] n by (auto simp: live_def gn split: if_splits)
    assume "getFs ?s fed' h' = Some g"
    then show "rec_wf g (getOrCreateNs ?s fed' h')"
      using mgr_wfD(4) [OF w, of fed' h'] enable_rec_wf [OF _ e(2,1,3)] f n by (auto simp: gf gn split: if_splits)
  qed
  moreover have "ordered ?s" unfolding ordered_def
  proof (intro allI impI)
    fix fed' p j fp fj
    assume a: "p \<noteq> j" "getFs ?s fed' p = Some fp" "constrained fp" "getFs ?s fed' j = Some fj" "regulating fj"
    consider "fed' = fed" "p = h" | "fed' = fed" "j = h" | "fed' \<noteq> fed \<or> (p \<noteq> h \<and> j \<noteq> h)" by blast
    then show "floor_ok fj (getOrCreateNs ?s fed' j) (currentTime (getOrCreateNs ?s fed' p))"
    proof cases
      case 1
      then show ?thesis using a eA [of j fj] by (auto simp: gf gn)
    next
      case 2
      then have p: "p \<noteq> h" "getFs s fed p = Some fp" and j: "fj = enableFs reg t fs" using a by (auto simp: gf split: if_splits)
      have "currentTime (getOrCreateNs s fed p) \<le> send_floor fj (Some (enableNs reg t ns))"
      proof (cases reg)
        case True
        then show ?thesis using eB [OF True p a(3)] e(1) j by (simp add: enable_send_floor)
      next
        case False
        then have "regulating fs" using a(5) j by simp
        from orderedD [OF o p a(3) f(1) this] show ?thesis
          using e False j n by (simp add: floor_ok_def enable_send_floor)
      qed
      then show ?thesis using 2 p e(1) by (simp add: gn floor_ok_idle)
    next
      case 3
      then show ?thesis using orderedD [OF o a(1), of fed'] a by (auto simp: gf gn)
    qed
  qed
  ultimately show ?thesis by (simp add: safe_def)
next
  case False
  then have "applyEnable fed h reg t s = s" by (auto simp: applyEnable_def split: option.splits)
  then show ?thesis using assms(1) by simp
qed

section \<open>Quiet work keeps what was decided\<close>

lemma quiet_floor_ok:
  assumes "quiet fed h s u" "mgr_wf s" "getFs u fed' j = Some fj"
  obtains f where "getFs s fed' j = Some f" "regulating fj = regulating f" "constrained fj = constrained f"
    "\<And>x. floor_ok f (getOrCreateNs s fed' j) x \<Longrightarrow> floor_ok fj (getOrCreateNs u fed' j) x"
    "\<And>t. grant_floor fj (getOrCreateNs u fed' j) t = grant_floor f (getOrCreateNs s fed' j) t"
    "regulationLookahead fj = regulationLookahead f"
proof -
  have f: "frame fed h s u" using assms(1) by (simp add: quiet_def)
  from frame_records(2) [OF f assms(3)] obtain f0 where f0: "getFs s fed' j = Some f0" "same_fs f0 fj" by blast
  note sn = frame_records(1) [OF f, of fed' j]
  have "live_ts (getOrCreateNs u fed' j) \<subseteq> live_ts (getOrCreateNs s fed' j)"
    using quiet_live(1) [OF assms(1,2), of fed' j] by (simp add: live_def)
  from that [OF f0(1)] same_floor_ok [OF f0(2) sn this] same_floors(2) [OF f0(2) sn] same_fsD [OF f0(2)]
  show thesis by blast
qed

lemma quiet_same: "quiet fed h s u \<Longrightarrow> currentTime (getOrCreateNs u fed' j) = currentTime (getOrCreateNs s fed' j)"
  "quiet fed h s u \<Longrightarrow> pendingNER (getOrCreateNs u fed' j) = pendingNER (getOrCreateNs s fed' j)"
  "quiet fed h s u \<Longrightarrow> requestedTime (getOrCreateNs u fed' j) = requestedTime (getOrCreateNs s fed' j)"
  using frame_records(1) [of fed h s u fed' j] same_nsD by (simp_all add: quiet_def)

lemma quiet_grant_ok:
  assumes "quiet fed h s u" "mgr_wf s" "grant_ok s fed h t"
  shows "grant_ok u fed h t"
  unfolding grant_ok_def Let_def
proof (intro conjI allI impI)
  have g: "pendingNER (getOrCreateNs s fed h)" "currentTime (getOrCreateNs s fed h) \<le> t" "t \<le> requestedTime (getOrCreateNs s fed h)"
    using assms(3) by (auto simp: grant_ok_def Let_def)
  show "pendingNER (getOrCreateNs u fed h)" "currentTime (getOrCreateNs u fed h) \<le> t" "t \<le> requestedTime (getOrCreateNs u fed h)"
    using g quiet_same [OF assms(1)] by simp_all
next
  fix fu j fj assume a: "getFs u fed h = Some fu" "constrained fu" "j \<noteq> h" "getFs u fed j = Some fj" "regulating fj"
  from quiet_floor_ok [OF assms(1,2) a(1)] obtain f where "getFs s fed h = Some f" "constrained fu = constrained f" by metis
  moreover from quiet_floor_ok [OF assms(1,2) a(4)] obtain g where "getFs s fed j = Some g" "regulating fj = regulating g"
    "\<And>x. floor_ok g (getOrCreateNs s fed j) x \<Longrightarrow> floor_ok fj (getOrCreateNs u fed j) x" by metis
  ultimately show "floor_ok fj (getOrCreateNs u fed j) t" using assms(3) a by (auto simp: grant_ok_def Let_def)
next
  fix fu p fp assume a: "getFs u fed h = Some fu" "regulating fu" "p \<noteq> h" "getFs u fed p = Some fp" "constrained fp"
  from quiet_floor_ok [OF assms(1,2) a(1)] obtain f where "getFs s fed h = Some f" "regulating fu = regulating f"
    "\<And>t. grant_floor fu (getOrCreateNs u fed h) t = grant_floor f (getOrCreateNs s fed h) t" by metis
  moreover from quiet_floor_ok [OF assms(1,2) a(4)] obtain g where "getFs s fed p = Some g" "constrained fp = constrained g" by metis
  ultimately show "currentTime (getOrCreateNs u fed p) \<le> grant_floor fu (getOrCreateNs u fed h) t"
    using assms(3) a quiet_same(1) [OF assms(1)] by (auto simp: grant_ok_def Let_def)
qed

lemma quiet_enable_ok:
  assumes "quiet fed h s u" "mgr_wf s" "enable_ok s fed h reg t"
  shows "enable_ok u fed h reg t"
  unfolding enable_ok_def Let_def
proof (intro allI impI)
  fix fu assume u: "getFs u fed h = Some fu"
  from quiet_floor_ok [OF assms(1,2) u] obtain f where f: "getFs s fed h = Some f" "constrained fu = constrained f"
    "regulationLookahead fu = regulationLookahead f" by metis
  note e = assms(3) [unfolded enable_ok_def Let_def, rule_format, OF f(1)]
  have A: "floor_ok fj (getOrCreateNs u fed j) t"
    if "constrained fu \<or> \<not> reg" "j \<noteq> h" "getFs u fed j = Some fj" "regulating fj" for j fj
    using quiet_floor_ok [OF assms(1,2) that(3)] e that f(2) by metis
  have B: "currentTime (getOrCreateNs u fed p) \<le> t + regulationLookahead fu"
    if "reg" "p \<noteq> h" "getFs u fed p = Some fp" "constrained fp" for p fp
    using quiet_floor_ok [OF assms(1,2) that(3)] e that f(3) quiet_same(1) [OF assms(1)] by metis
  show "\<not> pendingNER (getOrCreateNs u fed h) \<and> in_range t \<and>
      (if reg then currentTime (getOrCreateNs u fed h) \<le> t else t = currentTime (getOrCreateNs u fed h)) \<and>
      (constrained fu \<or> \<not> reg \<longrightarrow> (\<forall>j fj. j \<noteq> h \<longrightarrow> getFs u fed j = Some fj \<longrightarrow> regulating fj \<longrightarrow> floor_ok fj (getOrCreateNs u fed j) t)) \<and>
      (reg \<longrightarrow> (\<forall>p fp. p \<noteq> h \<longrightarrow> getFs u fed p = Some fp \<longrightarrow> constrained fp \<longrightarrow>
         currentTime (getOrCreateNs u fed p) \<le> t + regulationLookahead fu))"
    using e A B quiet_same [OF assms(1)] by auto
qed

section \<open>The evaluator keeps the invariant\<close>

lemma completeEnable_safe:
  assumes "safe s" "completeEnable E fed h reg s = (r, s')"
  shows "safe s'"
proof (cases "enableTarget s fed h reg")
  case None
  then show ?thesis using assms by (simp add: completeEnable_def)
next
  case (Some t)
  then have "emitEnable E fed h reg t s = (r, s')" using assms(2) by (simp add: completeEnable_def)
  from emitEnable_cases [OF this] show ?thesis
    using quiet_safe assms(1) applyEnable_safe quiet_enable_ok enableTarget_ok [OF assms(1) Some] safe_view safe_def by metis
qed

lemma completeEnables_safe: "completeEnables E fed hs s = (r, s') \<Longrightarrow> safe s \<Longrightarrow> safe s'"
proof (induction hs arbitrary: s)
  case (Cons h hs)
  then show ?case by (auto split: prod.splits option.splits dest!: completeEnable_safe [rotated])
qed simp

lemma flushAll_safe: "flushAll E fed hs s = (r, s') \<Longrightarrow> safe s \<Longrightarrow> safe s'"
proof (induction hs arbitrary: s)
  case (Cons h hs)
  then show ?case by (auto split: prod.splits option.splits dest!: quiet_flushFederate quiet_safe)
qed simp

lemma emitGrant_safe:
  assumes "safe s" "grant_ok s fed h t" "emitGrant E fed h t True s = (r, s')"
  shows "safe s'"
  using emitGrant_cases [OF assms(3)] quiet_safe [OF _ assms(1)] applyGrant_safe quiet_grant_ok [OF _ _ assms(2)] safe_view
    assms(1) by (metis safe_def)

lemma tryCandidate_safe:
  assumes "safe s" "lbts_ok s fed b" "fresh s fed c"
    and "tryCandidateGrant E fed c (decideCandidateGrant s fed c b) s = (p, r, s')"
  shows "safe s' \<and> (\<not> p \<and> r = None \<longrightarrow> quiet fed (cHandle c) s s')"
proof (cases "Fire (decideCandidateGrant s fed c b)")
  case False
  then have "drainBufferedRO E fed (cHandle c) s = (r, s') \<and> \<not> p" using assms(4) by (auto simp: tryCandidateGrant_def Let_def)
  then show ?thesis using quiet_drainRO quiet_safe assms(1) by blast
next
  case True
  let ?d = "decideCandidateGrant s fed c b"
  note g = decision_grant_ok [OF assms(1-3) True]
  have cp: "ClearPending ?d" by (rule decideCandidate_clears [OF True])
  show ?thesis
  proof (cases "holdGrantForScheduledSave s fed (cHandle c) (GrantTime ?d)")
    case hold: True
    then have "drainBufferedRO E fed (cHandle c) s = (r, s') \<and> \<not> p" using assms(4) True by (auto simp: tryCandidateGrant_def Let_def)
    then show ?thesis using quiet_drainRO quiet_safe assms(1) by blast
  next
    case False
    obtain x y z where n: "(if usesNextMessageTarget (cMode c) then deliverNextMessageGroup E fed (cHandle c) (GrantTime ?d) s
        else (False, None, s)) = (x, y, z)" by (metis prod.collapse)
    then have q: "quiet fed (cHandle c) s z" using quiet_nextMessageGroup by (auto split: if_splits)
    have zs: "safe z" "grant_ok z fed (cHandle c) (GrantTime ?d)"
      using quiet_safe [OF q assms(1)] quiet_grant_ok [OF q _ g] assms(1) by (auto simp: safe_def)
    show ?thesis
      using assms(4) True False n q zs cp emitGrant_safe [OF zs]
      by (auto simp: tryCandidateGrant_def Let_def split: option.splits if_splits)
  qed
qed

lemma frame_fresh:
  assumes fr: "frame fed (cHandle c) s t" and "\<forall>c'\<in>set (c # cs). fresh s fed c'" and "distinct (map cHandle (c # cs))"
  shows "\<forall>c'\<in>set cs. fresh t fed c'"
proof
  fix c' assume c: "c' \<in> set cs"
  then have "cHandle c' \<noteq> cHandle c" using assms(3) by (metis distinct.simps(2) image_eqI list.set_map list.simps(9))
  then have "getOrCreateNs t fed (cHandle c') = getOrCreateNs s fed (cHandle c')" using frame_goc_other [OF fr] by blast
  moreover have "fresh s fed c'" using assms(2) c by simp
  ultimately show "fresh t fed c'" by (simp add: fresh_def)
qed

lemma tryCandidates_safe:
  assumes "tryCandidates E fed b cs s = (p, r, s')" "safe s" "lbts_ok s fed b" "\<forall>c\<in>set cs. fresh s fed c" "distinct (map cHandle cs)"
  shows "safe s'"
  using assms
proof (induction cs arbitrary: s)
  case (Cons c cs)
  obtain q e t where t: "tryCandidateGrant E fed c (decideCandidateGrant s fed c b) s = (q, e, t)"
    by (cases "tryCandidateGrant E fed c (decideCandidateGrant s fed c b) s")
  have f: "fresh s fed c" using Cons.prems(4) by simp
  note S = tryCandidate_safe [OF Cons.prems(2,3) f t]
  show ?case
  proof (cases "\<not> q \<and> e = None")
    case True
    then have qt: "quiet fed (cHandle c) s t" using S by simp
    then have fr: "frame fed (cHandle c) s t" by (simp add: quiet_def)
    have "\<forall>c'\<in>set cs. fresh t fed c'" by (rule frame_fresh [OF fr Cons.prems(4,5)])
    moreover have "tryCandidates E fed b cs t = (p, r, s')" using Cons.prems(1) t True by simp
    ultimately show ?thesis using Cons.IH S lbts_ok_frame [OF fr Cons.prems(3)] Cons.prems(5) by auto
  next
    case False
    then show ?thesis using Cons.prems(1) t S by (cases e) auto
  qed
qed simp

lemma candidates_fresh: "c \<in> set (pendingGrantCandidates s fed) \<Longrightarrow> fresh s fed c"
  by (auto simp: pendingGrantCandidates_def fresh_def getOrCreateNs_def getNs_def mem_fedKeys Let_def)

lemma candidates_distinct: "distinct (map cHandle (sort_key cHandle (pendingGrantCandidates s fed)))"
proof -
  have "map cHandle (pendingGrantCandidates s fed) = filter (\<lambda>h. pendingNER (the (getNs s fed h))) (fedKeys fed (ner s))"
    by (simp add: pendingGrantCandidates_def comp_def Let_def)
  then have "distinct (map cHandle (pendingGrantCandidates s fed))" by (simp add: fedKeys_def)
  then show ?thesis by (metis distinct_map distinct_sort set_sort)
qed

lemma evaluatorPass_safe:
  assumes "evaluatorPass E fed s = (p, r, s')" "safe s"
  shows "safe s'"
proof -
  obtain x t where t: "completePendingEnables E fed s = (x, t)" by (cases "completePendingEnables E fed s")
  obtain y u where u: "flushPendingMessages E fed t = (y, u)" by (cases "flushPendingMessages E fed t")
  have st: "safe t" using t assms(2) by (auto simp: completePendingEnables_def split: if_splits dest: completeEnables_safe)
  have su: "safe u" using u st by (auto simp: flushPendingMessages_def split: if_splits option.splits dest: flushAll_safe)
  have "safe s'" if "tryCandidates E fed (LBTSBound (regulatingSnapshot u fed)) (sort_key cHandle (pendingGrantCandidates u fed)) u = (p, r, s')"
    by (rule tryCandidates_safe [OF that su lbts_ok_snapshot _ candidates_distinct]) (use su candidates_fresh in \<open>auto simp: safe_def\<close>)
  then show ?thesis using assms(1) t u st su by (auto simp: evaluatorPass_def Let_def split: option.splits)
qed

lemma grantLoop_safe: "safe s \<Longrightarrow> safe (snd (grantLoop E fed s))"
proof (induction E fed s rule: grantLoop.induct)
  case (1 E fed s)
  obtain p r s' where p: "evaluatorPass E fed s = (p, r, s')" by (cases "evaluatorPass E fed s")
  have "safe s'" by (rule evaluatorPass_safe [OF p "1.prems"])
  then show ?case using "1.IH" [OF p [symmetric]] p by (subst grantLoop.simps) (auto split: option.splits)
qed

lemma tryGrantPending_safe: "safe s \<Longrightarrow> tryGrantPending E fed s = (r, s') \<Longrightarrow> safe s'"
  using grantLoop_safe [of s E fed] safe_view [OF view_simps(6)]
  by (auto simp: tryGrantPending_def split: prod.splits option.splits if_splits)

end
