(* ===== verification/Time_Save.thy ===== *)
theory Time_Save
  imports Time_Services
begin

text \<open>
  The barrier of a scheduled save inside the time manager: \<open>scheduled_save.go\<close>,
  \<open>scheduled_participants.go\<close>, \<open>scheduled_request.go\<close> and the retry of deliveries of
  \<open>ro_delivery.go\<close>.  A barrier is shared by reference between the manager and its reservation;
  the reference is the token \<open>bToken\<close>, the number of the environment call at which it was made,
  and the current contents are those the manager holds under it.
\<close>

section \<open>Barriers\<close>

definition installed :: "manager \<Rightarrow> fed_name \<Rightarrow> scheduledTimeBarrier \<Rightarrow> bool" where
  "installed s fed b \<longleftrightarrow> (case map_of (scheduledSaves s) fed of Some c \<Rightarrow> bToken c = bToken b | None \<Rightarrow> False)"

definition timeMode :: "manager \<Rightarrow> fed_name \<Rightarrow> handle \<Rightarrow> bool \<times> bool" where
  "timeMode s fed h = (case getFs s fed h of Some fs \<Rightarrow> (regulating fs, constrained fs) | None \<Rightarrow> (False, False))"

definition barrierConstrained :: "scheduledTimeBarrier \<Rightarrow> handle \<Rightarrow> bool" where
  "barrierConstrained b h = (case map_of (modes b) h of Some (_, c) \<Rightarrow> c | None \<Rightarrow> False)"

fun captureScheduledSaveModes ::
  "manager \<Rightarrow> fed_name \<Rightarrow> int \<Rightarrow> handle list \<Rightarrow> (handle \<times> bool \<times> bool) list \<Rightarrow> bool \<Rightarrow>
   time_error + (handle \<times> bool \<times> bool) list" where
  "captureScheduledSaveModes s fed tgt [] acc managed =
     (if \<not> managed then Inl ErrScheduledSaveProfileUnsupported else Inr acc)"
| "captureScheduledSaveModes s fed tgt (h # members) acc managed =
     (if h = 0 then Inl ErrScheduledSaveProfileUnsupported
      else let md = timeMode s fed h in
        if (case getNs s fed h of Some ns \<Rightarrow> snd md \<and> currentTime ns > tgt | None \<Rightarrow> False) then Inl ErrTimeRequestInPast
        else captureScheduledSaveModes s fed tgt members (put h md acc) (managed \<or> fst md \<or> snd md))"

definition ReserveScheduledSave ::
  "fed_name \<Rightarrow> int \<Rightarrow> handle list \<Rightarrow> manager \<Rightarrow> (time_error + scheduledTimeBarrier) \<times> manager" where
  "ReserveScheduledSave fed tgt members s =
     (if tgt < 0 then (Inl ErrScheduledSaveProfileUnsupported, s)
      else if isHalted s fed then (Inl ErrFederationHalted, s)
      else if map_of (scheduledSaves s) fed \<noteq> None then (Inl ErrSaveAlreadyInProgress, s)
      else case captureScheduledSaveModes s fed tgt members [] False of
        Inl err \<Rightarrow> (Inl err, s)
      | Inr md \<Rightarrow>
          let b = \<lparr>bToken = calls s, target = tgt, modes = md, pausedAt = None, participantPaused = []\<rparr>
          in (Inr b, (tick s)\<lparr>scheduledSaves := put fed b (scheduledSaves s)\<rparr>))"

text \<open>The regulators of the captured roster, or an error when the time state has changed since.\<close>

definition scheduledSaveRegulators :: "manager \<Rightarrow> fed_name \<Rightarrow> scheduledTimeBarrier \<Rightarrow> time_error + RegulatingFederate list" where
  "scheduledSaveRegulators s fed b =
     (if list_ex (\<lambda>(h, initial). timeMode s fed h \<noteq> initial \<or>
          (case getNs s fed h of Some ns \<Rightarrow> snd (timeMode s fed h) \<and> currentTime ns > target b | None \<Rightarrow> False)) (modes b)
        \<or> list_ex (\<lambda>h. (fst (timeMode s fed h) \<or> snd (timeMode s fed h)) \<and> map_of (modes b) h = None) (fedKeys fed (states s))
      then Inl ErrScheduledSaveTimeStateChanged
      else Inr (sort_key rHandle
        (map (\<lambda>(h, _). regulatingBoundSnapshot h (the (getFs s fed h)) (getNs s fed h))
          (filter (\<lambda>(h, _). fst (timeMode s fed h)) (modes b)))))"

definition scheduledParticipantReady :: "manager \<Rightarrow> fed_name \<Rightarrow> scheduledTimeBarrier \<Rightarrow> TimeBound \<Rightarrow> handle \<Rightarrow> bool" where
  "scheduledParticipantReady s fed b lbts h =
     (if (case getFs s fed h of Some fs \<Rightarrow> regulationPending fs | None \<Rightarrow> False)
      then (case enableTargetState s fed h True of None \<Rightarrow> False | Some t \<Rightarrow> t > target b)
      else case getNs s fed h of
        None \<Rightarrow> False
      | Some ns \<Rightarrow>
          if \<not> pendingNER ns then False
          else if (case availableHorizonOf s fed h of Some g \<Rightarrow> \<not> horizonBeyond g (target b) True | None \<Rightarrow> False) then False
          else let bound = (case availableHorizonOf s fed h of Some g \<Rightarrow> minimumHorizon lbts g | None \<Rightarrow> lbts);
                   next = nextGrantMessage ns;
                   d = decideScalarGrant (mode ns) (currentTime ns) (requestedTime ns) (horizonScalar bound) (Unbounded bound)
                         (case next of Some n \<Rightarrow> n | None \<Rightarrow> 0) (next \<noteq> None)
               in Fire d \<and> holdGrantForScheduledSave s fed h (GrantTime d))"

definition scheduledSaveState ::
  "manager \<Rightarrow> fed_name \<Rightarrow> scheduledTimeBarrier \<Rightarrow> handle option \<Rightarrow> time_error + bool" where
  "scheduledSaveState s fed b only =
     (if \<not> installed s fed b then Inl ErrScheduledSaveTimeStateChanged
      else case scheduledSaveRegulators s fed b of
        Inl err \<Rightarrow> Inl err
      | Inr regs \<Rightarrow>
          Inr (list_all (\<lambda>(h, md). (case only of Some k \<Rightarrow> h \<noteq> k | None \<Rightarrow> False) \<or> \<not> snd md \<or>
                 scheduledParticipantReady s fed b (LBTSBound regs) h) (modes b)))"

text \<open>Queued data up to the boundary is delivered without changing the granted time.\<close>

definition implicitAdvance :: "manager \<Rightarrow> fed_name \<Rightarrow> handle \<Rightarrow> bool" where
  "implicitAdvance s fed h = (case getFs s fed h of Some fs \<Rightarrow> constrained fs \<and> regulationPending fs | None \<Rightarrow> False)"

definition deliverThrough :: "env \<Rightarrow> fed_name \<Rightarrow> int \<Rightarrow> handle \<Rightarrow> manager \<Rightarrow> time_error option \<times> manager" where
  "deliverThrough E fed tgt h s =
     (if implicitAdvance s fed h
      then case takeEnableMessages fed h True tgt s of (release, s) \<Rightarrow> deliverBufferedSequence E fed h release s
      else case drainBufferedRO E fed h s of
        (Some err, s) \<Rightarrow> (Some err, s)
      | (None, s) \<Rightarrow> releaseBufferedTSO E fed h tgt s)"

fun deliverAllThrough :: "env \<Rightarrow> fed_name \<Rightarrow> int \<Rightarrow> handle list \<Rightarrow> manager \<Rightarrow> time_error option \<times> manager" where
  "deliverAllThrough E fed tgt [] s = (None, s)"
| "deliverAllThrough E fed tgt (h # hs) s =
     (case deliverThrough E fed tgt h s of
        (Some err, s) \<Rightarrow> (Some err, s)
      | (None, s) \<Rightarrow> deliverAllThrough E fed tgt hs s)"

definition update_barrier :: "fed_name \<Rightarrow> (scheduledTimeBarrier \<Rightarrow> scheduledTimeBarrier) \<Rightarrow> manager \<Rightarrow> manager" where
  "update_barrier fed f s =
     (case map_of (scheduledSaves s) fed of Some b \<Rightarrow> s\<lparr>scheduledSaves := put fed (f b) (scheduledSaves s)\<rparr> | None \<Rightarrow> s)"

definition scheduledSaveReady ::
  "env \<Rightarrow> fed_name \<Rightarrow> scheduledTimeBarrier \<Rightarrow> manager \<Rightarrow> (time_error + bool) \<times> manager" where
  "scheduledSaveReady E fed b s =
     (case tryGrantPending E fed s of
        (Some err, s) \<Rightarrow> (Inl err, s)
      | (None, s) \<Rightarrow>
          if isHalted s fed then (Inl ErrFederationHalted, s)
          else case scheduledSaveState s fed b None of
            Inl err \<Rightarrow> (Inl err, s)
          | Inr ready \<Rightarrow>
              if \<not> ready then (Inr False, s)
              else case deliverAllThrough E fed (target b) (sort (map fst (modes b))) s of
                (Some err, s) \<Rightarrow> (Inl err, s)
              | (None, s) \<Rightarrow>
                  (Inr True,
                   (case map_of (scheduledSaves s) fed of
                      Some c \<Rightarrow>
                        if bToken c = bToken b \<and> pausedAt c = None
                        then update_barrier fed (\<lambda>c. c\<lparr>pausedAt := Some (eNow E (calls s))\<rparr>) (tick s) else s
                    | None \<Rightarrow> s)))"

definition shiftPending :: "fed_name \<Rightarrow> (handle \<Rightarrow> int option) \<Rightarrow> (key \<times> nerState) list \<Rightarrow> (key \<times> nerState) list" where
  "shiftPending fed pause m =
     map (\<lambda>((f, h), ns). ((f, h),
        if f = fed \<and> pendingNER ns
        then (case (pendingSince ns, pause h) of (Some since, Some d) \<Rightarrow> ns\<lparr>pendingSince := Some (since + d)\<rparr> | _ \<Rightarrow> ns)
        else ns)) m"

definition releaseScheduledSave :: "env \<Rightarrow> fed_name \<Rightarrow> scheduledTimeBarrier \<Rightarrow> manager \<Rightarrow> manager" where
  "releaseScheduledSave E fed b s =
     (case map_of (scheduledSaves s) fed of
        None \<Rightarrow> s
      | Some c \<Rightarrow>
          if bToken c \<noteq> bToken b then s
          else case pausedAt c of
            None \<Rightarrow> s\<lparr>scheduledSaves := del fed (scheduledSaves s)\<rparr>
          | Some since \<Rightarrow>
              (tick s)\<lparr>ner := shiftPending fed (\<lambda>_. Some (eNow E (calls s) - since)) (ner s),
                       scheduledSaves := del fed (scheduledSaves s)\<rparr>)"

text \<open>The recipients with queued messages, in handle order.\<close>

definition queuedRecipients :: "manager \<Rightarrow> fed_name \<Rightarrow> handle list" where
  "queuedRecipients s fed =
     sort (filter (\<lambda>h. tsoBuffer (the (getNs s fed h)) \<noteq> [] \<or> roBuffer (the (getNs s fed h)) \<noteq> []) (fedKeys fed (ner s)))"

fun drainRecipients :: "env \<Rightarrow> fed_name \<Rightarrow> handle list \<Rightarrow> manager \<Rightarrow> time_error option \<times> manager" where
  "drainRecipients E fed [] s = (None, s)"
| "drainRecipients E fed (h # hs) s =
     (case drainBufferedRO E fed h s of
        (Some err, s) \<Rightarrow> (Some err, s)
      | (None, s) \<Rightarrow>
          (case drainAllBufferedTSO E fed h s of
             (Some err, s) \<Rightarrow> (Some err, s)
           | (None, s) \<Rightarrow> drainRecipients E fed hs s))"

definition ResumeScheduledSave :: "env \<Rightarrow> fed_name \<Rightarrow> manager \<Rightarrow> time_error option \<times> manager" where
  "ResumeScheduledSave E fed s =
     (case (case drainRecipients E fed (queuedRecipients s fed) s of
              (Some err, s) \<Rightarrow> (Some err, s)
            | (None, s) \<Rightarrow> tryGrantPending E fed s) of
        (Some err, s) \<Rightarrow> (Some err, if err \<noteq> ErrFederationHalted then markDeliveryRetry fed s else s)
      | (None, s) \<Rightarrow> (None, s))"

definition PendingDeliveryRetries :: "manager \<Rightarrow> fed_name list" where
  "PendingDeliveryRetries s = sort (deliveryRetries s)"

definition RetryPendingDeliveries :: "env \<Rightarrow> fed_name \<Rightarrow> manager \<Rightarrow> time_error option \<times> manager" where
  "RetryPendingDeliveries E fed s =
     (case ResumeScheduledSave E fed (s\<lparr>deliveryRetries := filter (\<lambda>f. f \<noteq> fed) (deliveryRetries s)\<rparr>) of
        (Some err, s) \<Rightarrow> (Some err, if err \<noteq> ErrFederationHalted then markDeliveryRetry fed s else s)
      | (None, s) \<Rightarrow> (None, s))"

section \<open>Per-participant reservations\<close>

fun populateSaveBarrier ::
  "manager \<Rightarrow> fed_name \<Rightarrow> int \<Rightarrow> bool \<Rightarrow> handle list \<Rightarrow> (handle \<times> bool \<times> bool) list \<Rightarrow> bool \<Rightarrow>
   time_error + ((handle \<times> bool \<times> bool) list \<times> bool)" where
  "populateSaveBarrier s fed tgt timed [] acc managed = Inr (acc, managed)"
| "populateSaveBarrier s fed tgt timed (h # members) acc managed =
     (if h = 0 then Inl ErrFederateNotJoined
      else let md = timeMode s fed h in
        if timed \<and> snd md \<and> tgt \<le> (case getNs s fed h of Some ns \<Rightarrow> currentTime ns | None \<Rightarrow> 0) then Inl ErrTimeRequestInPast
        else populateSaveBarrier s fed tgt timed members (put h md acc) (managed \<or> fst md \<or> snd md))"

datatype reservation_state = Prepared | Committed | Released

record participantSaveReservation =
  prBarrier :: scheduledTimeBarrier
  prState :: reservation_state
  pauseOnCommit :: bool

definition prepareSaveBarrier ::
  "fed_name \<Rightarrow> int \<Rightarrow> handle list \<Rightarrow> bool \<Rightarrow> bool \<Rightarrow> manager \<Rightarrow> (time_error + participantSaveReservation) \<times> manager" where
  "prepareSaveBarrier fed tgt members replace timed s =
     (if isHalted s fed then (Inl ErrFederationHalted, s)
      else if (case map_of (scheduledSaves s) fed of
                 Some old \<Rightarrow> \<not> replace \<or> pausedAt old \<noteq> None \<or> participantPaused old \<noteq> [] | None \<Rightarrow> False)
      then (Inl ErrSaveAlreadyInProgress, s)
      else case populateSaveBarrier s fed tgt timed members [] False of
        Inl err \<Rightarrow> (Inl err, s)
      | Inr (md, managed) \<Rightarrow>
          if timed \<and> \<not> managed \<or> members = [] then (Inl ErrScheduledSaveProfileUnsupported, s)
          else (Inr \<lparr>prBarrier = \<lparr>bToken = calls s, target = tgt, modes = md, pausedAt = None, participantPaused = []\<rparr>,
                  prState = Prepared, pauseOnCommit = \<not> timed\<rparr>, tick s))"

definition PrepareScheduledSave ::
  "fed_name \<Rightarrow> int \<Rightarrow> handle list \<Rightarrow> bool \<Rightarrow> manager \<Rightarrow> (time_error + participantSaveReservation) \<times> manager" where
  "PrepareScheduledSave fed tgt members replace s =
     (if tgt < 0 then (Inl ErrTimeInvalidLogicalTime, s) else prepareSaveBarrier fed tgt members replace True s)"

definition PrepareImmediateSave ::
  "fed_name \<Rightarrow> handle list \<Rightarrow> bool \<Rightarrow> manager \<Rightarrow> (time_error + participantSaveReservation) \<times> manager" where
  "PrepareImmediateSave fed members replace s = prepareSaveBarrier fed 0 members replace False s"

text \<open>Pausing reads the clock once per participant that is not paused yet.\<close>

fun pauseAll :: "env \<Rightarrow> handle list \<Rightarrow> (handle \<times> int) list \<times> manager \<Rightarrow> (handle \<times> int) list \<times> manager" where
  "pauseAll E [] pm = pm"
| "pauseAll E (h # hs) pm =
     (case pm of (paused, s) \<Rightarrow>
        pauseAll E hs (if map_of paused h = None then (put h (eNow E (calls s)) paused, tick s) else (paused, s)))"

definition reservation_Commit ::
  "env \<Rightarrow> fed_name \<Rightarrow> participantSaveReservation \<Rightarrow> manager \<Rightarrow> participantSaveReservation \<times> manager" where
  "reservation_Commit E fed r s =
     (if prState r \<noteq> Prepared then (r, s)
      else let (paused, s) = (if pauseOnCommit r then pauseAll E (map fst (modes (prBarrier r))) ([], s) else ([], s))
        in (r\<lparr>prState := Committed\<rparr>,
            s\<lparr>scheduledSaves := put fed ((prBarrier r)\<lparr>participantPaused := paused\<rparr>) (scheduledSaves s)\<rparr>))"

definition reservation_Release ::
  "env \<Rightarrow> fed_name \<Rightarrow> participantSaveReservation \<Rightarrow> manager \<Rightarrow> participantSaveReservation \<times> manager" where
  "reservation_Release E fed r s =
     (case prState r of
        Released \<Rightarrow> (r, s)
      | Prepared \<Rightarrow> (r\<lparr>prState := Released\<rparr>, s)
      | Committed \<Rightarrow>
          (r\<lparr>prState := Released\<rparr>,
           (case map_of (scheduledSaves s) fed of
              None \<Rightarrow> s
            | Some c \<Rightarrow>
                if bToken c \<noteq> bToken (prBarrier r) then s
                else (tick s)\<lparr>ner := shiftPending fed
                       (\<lambda>h. map_option (\<lambda>since. eNow E (calls s) - since) (map_of (participantPaused c) h)) (ner s),
                     scheduledSaves := del fed (scheduledSaves s)\<rparr>)))"

definition reservation_Pause ::
  "env \<Rightarrow> fed_name \<Rightarrow> participantSaveReservation \<Rightarrow> handle list \<Rightarrow> manager \<Rightarrow> time_error option \<times> manager" where
  "reservation_Pause E fed r handles s =
     (case map_of (scheduledSaves s) fed of
        None \<Rightarrow> (Some ErrScheduledSaveTimeStateChanged, s)
      | Some c \<Rightarrow>
          if bToken c \<noteq> bToken (prBarrier r) then (Some ErrScheduledSaveTimeStateChanged, s)
          else if list_ex (\<lambda>h. map_of (modes (prBarrier r)) h = None) handles then (Some ErrFederateNotJoined, s)
          else case pauseAll E handles (participantPaused c, s) of (paused, s) \<Rightarrow>
            (None, update_barrier fed (\<lambda>c. c\<lparr>participantPaused := paused\<rparr>) s))"

text \<open>
  \<open>readyParticipantsLocked\<close>: the constrained participants that are eligible, and with all of
  them the unconstrained ones.
\<close>

definition readyParticipants :: "manager \<Rightarrow> fed_name \<Rightarrow> scheduledTimeBarrier \<Rightarrow> time_error + handle list" where
  "readyParticipants s fed b =
     (let cons = map fst (filter (\<lambda>(h, md). snd md) (modes b)); uncons = map fst (filter (\<lambda>(h, md). \<not> snd md) (modes b));
          eligible = (\<lambda>h. scheduledSaveState s fed b (Some h))
      in if cons \<noteq> [] \<and> isl (scheduledSaveState s fed b (Some (hd cons))) then Inl (projl (scheduledSaveState s fed b (Some (hd cons))))
         else if \<not> installed s fed b then Inl ErrScheduledSaveTimeStateChanged
         else let ready = filter (\<lambda>h. eligible h = Inr True) cons
              in Inr (if list_all (\<lambda>h. eligible h = Inr True) cons then ready @ uncons else ready))"

fun deliverUnpaused :: "env \<Rightarrow> fed_name \<Rightarrow> int \<Rightarrow> handle list \<Rightarrow> manager \<Rightarrow> time_error option \<times> manager" where
  "deliverUnpaused E fed tgt [] s = (None, s)"
| "deliverUnpaused E fed tgt (h # hs) s =
     (if scheduledRecipientPaused s fed h then deliverUnpaused E fed tgt hs s
      else case deliverThrough E fed tgt h s of
        (Some err, s) \<Rightarrow> (Some err, s)
      | (None, s) \<Rightarrow> deliverUnpaused E fed tgt hs s)"

definition reservation_Ready ::
  "env \<Rightarrow> fed_name \<Rightarrow> participantSaveReservation \<Rightarrow> manager \<Rightarrow> (time_error + handle list) \<times> manager" where
  "reservation_Ready E fed r s =
     (case tryGrantPending E fed s of
        (Some err, s) \<Rightarrow> (Inl err, s)
      | (None, s) \<Rightarrow>
          if isHalted s fed then (Inl ErrFederationHalted, s)
          else case readyParticipants s fed (prBarrier r) of
            Inl err \<Rightarrow> (Inl err, s)
          | Inr ready \<Rightarrow>
              (case deliverUnpaused E fed (target (prBarrier r)) (sort ready) s of
                 (Some err, s) \<Rightarrow> (Inl err, s)
               | (None, s) \<Rightarrow> (Inr (sort ready), s)))"

section \<open>Validation of a save request\<close>

fun validateSaveReceiverTimes :: "manager \<Rightarrow> fed_name \<Rightarrow> int \<Rightarrow> handle list \<Rightarrow> time_error option" where
  "validateSaveReceiverTimes s fed tgt [] = None"
| "validateSaveReceiverTimes s fed tgt (h # members) =
     (if isConstrained s fed h \<and> tgt \<le> (case getNs s fed h of Some ns \<Rightarrow> currentTime ns | None \<Rightarrow> 0)
      then Some ErrTimeRequestInPast else validateSaveReceiverTimes s fed tgt members)"

definition ValidateScheduledSaveRequest ::
  "manager \<Rightarrow> fed_name \<Rightarrow> handle \<Rightarrow> int \<Rightarrow> handle list \<Rightarrow> time_error option" where
  "ValidateScheduledSaveRequest s fed requester tgt members =
     (if requester = 0 \<or> requester \<notin> set members then Some ErrFederateNotJoined
      else if tgt < 0 then Some ErrTimeInvalidLogicalTime
      else if (case getFs s fed requester of Some fs \<Rightarrow> regulating fs | None \<Rightarrow> False)
      then (case outgoingTSOBound (the (getFs s fed requester)) (getNs s fed requester) of (base, la, exclusive) \<Rightarrow>
             let bound = addHorizon base la in
             if Unbounded bound \<or> \<not> timestampAtOrBeyond tgt (Limit bound) exclusive then Some ErrTimeInvalidLogicalTime
             else validateSaveReceiverTimes s fed tgt members)
      else case availableHorizonOf s fed requester of
        None \<Rightarrow> Some ErrSaveTimeNotAllowed
      | Some galt \<Rightarrow>
          if Unbounded galt \<or> tgt \<le> Limit galt then Some ErrTimeRequestInPast
          else validateSaveReceiverTimes s fed tgt members)"

end
