(* ===== verification/Time_Reach.thy ===== *)
theory Time_Reach
  imports Time_Loop Time_Save
begin

text \<open>
  Every service of the time manager keeps the invariant, so it holds in every state a sequence
  of service calls can reach, whatever the outbox, the event log and the filter answer.
\<close>

section \<open>Changing the records of one federate\<close>

lemma safe_replace:
  assumes "safe s"
    and gf: "\<And>fed' h'. getFs u fed' h' = (if fed' = fed \<and> h' = h then f else getFs s fed' h')"
    and gn: "\<And>fed' h'. getOrCreateNs u fed' h' = (if fed' = fed \<and> h' = h then n else getOrCreateNs s fed' h')"
    and n: "ns_wf n" "\<forall>b\<in>set (roBuffer n). receiveOrder b" "\<forall>ts\<in>live_ts n. ts \<le> MaxTime"
    and f: "\<And>g. f = Some g \<Longrightarrow> rec_wf g n"
    and c: "\<And>g j fj. f = Some g \<Longrightarrow> constrained g \<Longrightarrow> j \<noteq> h \<Longrightarrow> getFs s fed j = Some fj \<Longrightarrow> regulating fj \<Longrightarrow>
      floor_ok fj (getOrCreateNs s fed j) (currentTime n)"
    and r: "\<And>g p fp. f = Some g \<Longrightarrow> regulating g \<Longrightarrow> p \<noteq> h \<Longrightarrow> getFs s fed p = Some fp \<Longrightarrow> constrained fp \<Longrightarrow>
      floor_ok g n (currentTime (getOrCreateNs s fed p))"
  shows "safe u"
proof -
  have w: "mgr_wf s" and o: "ordered s" using assms(1) by (auto simp: safe_def)
  have "mgr_wf u" unfolding mgr_wf_def
    using w n f by (auto simp: mgr_wf_def gf gn ro_ok_def live_def)
  moreover have "ordered u" unfolding ordered_def
  proof (intro allI impI)
    fix fed' p j fp fj
    assume a: "p \<noteq> j" "getFs u fed' p = Some fp" "constrained fp" "getFs u fed' j = Some fj" "regulating fj"
    consider "fed' = fed" "p = h" | "fed' = fed" "j = h" | "fed' \<noteq> fed \<or> (p \<noteq> h \<and> j \<noteq> h)" by blast
    then show "floor_ok fj (getOrCreateNs u fed' j) (currentTime (getOrCreateNs u fed' p))"
    proof cases
      case 1
      then show ?thesis using a c [of fp j fj] by (auto simp: gf gn)
    next
      case 2
      then show ?thesis using a r [of fj p fp] by (auto simp: gf gn)
    next
      case 3
      then show ?thesis using orderedD [OF o a(1), of fed'] a by (auto simp: gf gn)
    qed
  qed
  ultimately show ?thesis by (simp add: safe_def)
qed

text \<open>A change that leaves times and floors alone.\<close>

lemma safe_keep:
  assumes "safe s" "getFs s fed h = Some f"
    and gf: "\<And>fed' h'. getFs u fed' h' = (if fed' = fed \<and> h' = h then Some g else getFs s fed' h')"
    and gn: "\<And>fed' h'. getOrCreateNs u fed' h' = (if fed' = fed \<and> h' = h then n else getOrCreateNs s fed' h')"
    and n: "ns_wf n" "currentTime n = currentTime (getOrCreateNs s fed h)" "roBuffer n = roBuffer (getOrCreateNs s fed h)"
      "live_ts n \<subseteq> live_ts (getOrCreateNs s fed h)"
    and g: "rec_wf g n" "constrained g \<longrightarrow> constrained f" "regulating g \<longrightarrow> regulating f"
    and fl: "\<And>x. regulating g \<Longrightarrow> floor_ok f (getOrCreateNs s fed h) x \<Longrightarrow> floor_ok g n x"
  shows "safe u"
proof -
  have w: "mgr_wf s" and o: "ordered s" using assms(1) by (auto simp: safe_def)
  have live: "\<forall>ts\<in>live_ts n. ts \<le> MaxTime" using n(4) mgr_wfD(3) [OF w, of _ fed h] by (auto simp: live_def)
  have ro: "\<forall>b\<in>set (roBuffer n). receiveOrder b" using n(3) mgr_wfD(2) [OF w, of fed h] by (simp add: ro_ok_def)
  show ?thesis
    by (rule safe_replace [OF assms(1) gf gn n(1) ro live]) (use g n(2) fl orderedD [OF o] assms(2) in auto)
qed

lemma safe_NsOnly:
  assumes "safe s"
    and gf: "getFs u = getFs s"
    and gn: "\<And>fed' h'. getOrCreateNs u fed' h' = (if fed' = fed \<and> h' = h then n else getOrCreateNs s fed' h')"
    and n: "ns_wf n" "currentTime n = currentTime (getOrCreateNs s fed h)" "roBuffer n = roBuffer (getOrCreateNs s fed h)"
      "live_ts n \<subseteq> live_ts (getOrCreateNs s fed h)"
    and g: "\<And>f. getFs s fed h = Some f \<Longrightarrow> rec_wf f n"
    and fl: "\<And>f x. getFs s fed h = Some f \<Longrightarrow> regulating f \<Longrightarrow> floor_ok f (getOrCreateNs s fed h) x \<Longrightarrow> floor_ok f n x"
  shows "safe u"
proof (cases "getFs s fed h")
  case None
  have w: "mgr_wf s" using assms(1) by (simp add: safe_def)
  have live: "\<forall>ts\<in>live_ts n. ts \<le> MaxTime" using n(4) mgr_wfD(3) [OF w, of _ fed h] by (auto simp: live_def)
  have ro: "\<forall>b\<in>set (roBuffer n). receiveOrder b" using n(3) mgr_wfD(2) [OF w, of fed h] by (simp add: ro_ok_def)
  show ?thesis
    by (rule safe_replace [OF assms(1) _ gn n(1) ro live, of None]) (use None gf in auto)
next
  case (Some f)
  show ?thesis
    by (rule safe_keep [OF assms(1) Some _ gn n g [OF Some]]) (use Some gf fl in auto)
qed

section \<open>Regulation and constraint\<close>

lemma floor_ok_same:
  assumes "lookahead g = lookahead f" "lookaheadTarget g = lookaheadTarget f" "reducingLookahead g = reducingLookahead f"
    "lookaheadOriginTime g = lookaheadOriginTime f" "lookaheadOriginValue g = lookaheadOriginValue f"
    "constrained g \<longrightarrow> constrained f" "floor_ok f n x"
  shows "floor_ok g n x"
proof -
  have p: "projectedLookahead g u = projectedLookahead f u" for u using assms by (simp add: projectedLookahead_def)
  have s: "send_floor g (Some n) = send_floor f (Some n)" using assms(1) p by (simp add: send_floor_def outgoingTSOBound_def)
  have r: "grant_floor g n t = grant_floor f n t" for t using p by (simp add: grant_floor_def)
  have "may_end_early g n \<longrightarrow> may_end_early f n" using assms(6) by (auto simp: may_end_early_def)
  then show ?thesis using assms(7) s r by (simp add: floor_ok_def)
qed

lemma goc_putFs [simp]: "getOrCreateNs (putFs fed h f s) = getOrCreateNs s"
  by (simp add: fun_eq_iff getOrCreateNs_def getNs_def putFs_def)

lemma getFs_putNs [simp]: "getFs (putNs fed h n s) = getFs s"
  by (simp add: fun_eq_iff getFs_def putNs_def)

lemma getFs_putFs: "getFs (putFs fed h f s) fed' h' = (if fed' = fed \<and> h' = h then Some f else getFs s fed' h')"
  by simp

lemma goc_putNs: "getOrCreateNs (putNs fed h n s) fed' h' = (if fed' = fed \<and> h' = h then n else getOrCreateNs s fed' h')"
  by simp

lemma pending_goc: "(case getNs s fed h of Some n \<Rightarrow> pendingNER n | None \<Rightarrow> False) = pendingNER (getOrCreateNs s fed h)"
  by (simp add: getOrCreateNs_def new_nerState_def split: option.split)

lemma current_goc: "(case getNs s fed h of Some n \<Rightarrow> currentTime n | None \<Rightarrow> 0) = currentTime (getOrCreateNs s fed h)"
  by (simp add: getOrCreateNs_def new_nerState_def split: option.split)

lemma new_rec_wf: "\<not> pendingNER n \<Longrightarrow> in_range la \<Longrightarrow>
   rec_wf (new_federateState\<lparr>regulationPending := a, regulationLookahead := la, constrainedPending := b\<rparr>) n"
  by (simp add: rec_wf_def fs_wf_def new_federateState_def in_range_def MaxTime_pos)

lemma safe_addFs:
  assumes "safe s" "getFs s fed h = None" "rec_wf g (getOrCreateNs s fed h)" "\<not> regulating g" "\<not> constrained g"
  shows "safe (putFs fed h g s)"
proof -
  have w: "mgr_wf s" using assms(1) by (simp add: safe_def)
  show ?thesis
    by (rule safe_replace [OF assms(1), where fed = fed and h = h and f = "Some g" and n = "getOrCreateNs s fed h"])
      (use assms mgr_wfD(3) [OF w, of _ fed h] mgr_wfD(1,2) [OF w, of fed h] in \<open>auto simp: getFs_putFs ro_ok_def live_def\<close>)
qed

lemma safe_putFs:
  assumes "safe s" "getFs s fed h = Some f" "rec_wf g (getOrCreateNs s fed h)"
    "constrained g \<longrightarrow> constrained f" "regulating g \<longrightarrow> regulating f"
    "\<And>x. regulating g \<Longrightarrow> floor_ok f (getOrCreateNs s fed h) x \<Longrightarrow> floor_ok g (getOrCreateNs s fed h) x"
  shows "safe (putFs fed h g s)"
proof -
  have w: "mgr_wf s" using assms(1) by (simp add: safe_def)
  show ?thesis
    by (rule safe_keep [OF assms(1,2), where g = g and n = "getOrCreateNs s fed h"])
      (use assms mgr_wfD(1) [OF w, of fed h] in \<open>auto simp: getFs_putFs\<close>)
qed

lemma safe_markPending:
  assumes "safe s" "\<not> pendingNER (getOrCreateNs s fed h)" "in_range la" "fs = getOrCreateFs s fed h"
  shows "safe (putFs fed h (if reg then fs\<lparr>regulationPending := True, regulationLookahead := la\<rparr>
    else fs\<lparr>constrainedPending := True\<rparr>) s)" (is "safe (putFs fed h ?g s)")
proof (cases "getFs s fed h")
  case None
  then have f: "fs = new_federateState" using assms(4) by (simp add: getOrCreateFs_def)
  have "rec_wf ?g (getOrCreateNs s fed h)"
    using assms(2,3) by (simp add: f rec_wf_def fs_wf_def new_federateState_def in_range_def MaxTime_pos)
  moreover have "\<not> regulating ?g" "\<not> constrained ?g" by (simp_all add: f new_federateState_def)
  ultimately show ?thesis using safe_addFs [OF assms(1) None] by blast
next
  case (Some f)
  then have f: "fs = f" using assms(4) by (simp add: getOrCreateFs_def)
  have w: "mgr_wf s" using assms(1) by (simp add: safe_def)
  have "rec_wf ?g (getOrCreateNs s fed h)"
    using mgr_wfD(4) [OF w Some] assms(2,3) by (auto simp: f rec_wf_def fs_wf_def)
  then show ?thesis using f by (intro safe_putFs [OF assms(1) Some]) (auto intro: floor_ok_same [where f = f])
qed

lemma requestEnable_safe:
  assumes "safe s" "in_range la \<or> \<not> reg" "requestEnable E fed h reg la s = (r, s')"
  shows "safe s'"
proof (cases "isHalted s fed \<or> (reg \<and> \<not> validLookahead la) \<or> validateEnableRequest (getFs s fed h) (getNs s fed h) reg \<noteq> None")
  case True
  then show ?thesis using assms by (auto simp: requestEnable_def split: if_splits option.splits)
next
  case False
  let ?fs = "getOrCreateFs s fed h"
  let ?t = "putNs fed h (getOrCreateNs s fed h) (putFs fed h (if reg then ?fs\<lparr>regulationPending := True, regulationLookahead := la\<rparr>
    else ?fs\<lparr>constrainedPending := True\<rparr>) s)"
  have "validateEnableRequest (getFs s fed h) (getNs s fed h) reg = None" using False by simp
  then have p: "\<not> pendingNER (getOrCreateNs s fed h)"
    by (auto simp: validateEnableRequest_def pending_goc split: if_splits)
  have q: "safe (putFs fed h (if reg then ?fs\<lparr>regulationPending := True, regulationLookahead := la\<rparr>
    else ?fs\<lparr>constrainedPending := True\<rparr>) s)"
    using safe_markPending [OF assms(1) p _ refl, of la reg] safe_markPending [OF assms(1) p _ refl, of 0 reg] assms(2) MaxTime_pos
    by (auto simp: in_range_def)
  have "view ?t = view (putFs fed h (if reg then ?fs\<lparr>regulationPending := True, regulationLookahead := la\<rparr>
    else ?fs\<lparr>constrainedPending := True\<rparr>) s)" by (simp add: view_def fun_eq_iff)
  then have t: "safe ?t" using q safe_view by blast
  obtain x y where e: "tryGrantPending E fed ?t = (x, y)" by (cases "tryGrantPending E fed ?t")
  have "s' = y" using assms(3) False e by (auto simp: requestEnable_def Let_def split: option.splits time_error.splits)
  then show ?thesis using tryGrantPending_safe [OF t e] by simp
qed

lemma disableRegulation_safe:
  assumes "safe s" "disableRegulation fed h s = (r, s')"
  shows "safe s'"
proof (cases "r = None")
  case True
  then obtain f where f: "getFs s fed h = Some f" "s' = putFs fed h (f\<lparr>regulating := False, lookahead := 0, lookaheadTarget := 0,
      reducingLookahead := False, lookaheadOriginTime := 0, lookaheadOriginValue := 0\<rparr>) s"
    using assms(2) by (auto simp: disableRegulation_def split: option.splits if_splits)
  have w: "mgr_wf s" using assms(1) by (simp add: safe_def)
  show ?thesis unfolding f(2)
    by (rule safe_putFs [OF assms(1) f(1)])
      (use mgr_wfD(4) [OF w f(1)] in \<open>auto simp: rec_wf_def fs_wf_def in_range_def MaxTime_pos\<close>)
next
  case False
  then show ?thesis using assms by (auto simp: disableRegulation_def split: option.splits if_splits)
qed

lemma DisableRegulation_safe:
  assumes "safe s" "DisableRegulation E fed h s = (r, s')"
  shows "safe s'"
proof -
  obtain x t where t: "disableRegulation fed h s = (x, t)" by (cases "disableRegulation fed h s")
  note st = disableRegulation_safe [OF assms(1) t]
  show ?thesis
    using assms t st tryGrantPending_safe [OF st, of E fed r s'] by (cases x) (auto simp: DisableRegulation_def split: if_splits)
qed

lemma modifiedLookahead_safe:
  assumes "safe s" "getFs s fed h = Some f" "regulating f" "\<not> pendingNER (getOrCreateNs s fed h)" "in_range la"
  shows "safe (putFs fed h (modifiedLookahead la (getNs s fed h) f) s)"
proof -
  let ?n = "getOrCreateNs s fed h"
  have w: "mgr_wf s" using assms(1) by (simp add: safe_def)
  have n: "(case getNs s fed h of Some n \<Rightarrow> currentTime n | None \<Rightarrow> 0) = currentTime ?n" by (rule current_goc)
  have f: "rec_wf f ?n" "in_range (currentTime ?n)" using mgr_wfD(4) [OF w assms(2)] mgr_wfD(1) [OF w, of fed h] by (auto simp: ns_wf_def)
  have "fs_wf (modifiedLookahead la (getNs s fed h) f) (currentTime ?n)"
  proof -
    have r: "fs_wf f (currentTime ?n)" "0 \<le> currentTime ?n" "0 \<le> la" "la \<le> MaxTime"
      using f assms(5) by (auto simp: rec_wf_def in_range_def)
    consider "lookahead f \<le> la" | "la < lookahead f" "reducingLookahead f" | "la < lookahead f" "\<not> reducingLookahead f"
      by linarith
    then show ?thesis
      by cases (use r n in \<open>simp_all add: modifiedLookahead_def fs_wf_def in_range_def\<close>)
  qed
  then have "rec_wf (modifiedLookahead la (getNs s fed h) f) ?n"
    using f(1) assms(3) unfolding modifiedLookahead_def by (auto simp: rec_wf_def Let_def split: if_splits)
  moreover have "floor_ok f ?n x \<Longrightarrow> floor_ok (modifiedLookahead la (getNs s fed h) f) ?n x" for x
    using assms(4) by (auto simp: floor_ok_idle send_floor_idle modifiedLookahead_def Let_def split: if_splits)
  ultimately show ?thesis
    by (intro safe_putFs [OF assms(1,2)]) (auto simp: modifiedLookahead_def Let_def split: if_splits)
qed

lemma ModifyLookahead_safe:
  assumes "safe s" "la \<le> MaxTime" "ModifyLookahead E fed h la s = (r, s')"
  shows "safe s'"
proof (cases "getFs s fed h")
  case None
  then show ?thesis using assms by (auto simp: ModifyLookahead_def split: if_splits)
next
  case (Some f)
  then show ?thesis
    using assms(3) assms(1) tryGrantPending_safe [OF modifiedLookahead_safe [OF assms(1) Some]] assms(2)
    by (auto simp: ModifyLookahead_def pending_goc validLookahead_def in_range_def split: if_splits)
qed

lemma putFs_over [simp]: "getFs (putFs fed h f s) fed h = Some f"
  by simp

lemma disableConstrained_safe:
  assumes "safe s" "disableConstrained fed h s = (r, s')"
  shows "safe s'"
    and "r = None \<Longrightarrow> \<exists>f. getFs s fed h = Some f \<and> s' = putFs fed h (f\<lparr>constrained := False, preservedReceiveTime := None, receivedTSOTime := None\<rparr>) s"
proof -
  show d: "r = None \<Longrightarrow> \<exists>f. getFs s fed h = Some f \<and> s' = putFs fed h (f\<lparr>constrained := False, preservedReceiveTime := None, receivedTSOTime := None\<rparr>) s"
    using assms(2) by (auto simp: disableConstrained_def split: option.splits if_splits)
  have w: "mgr_wf s" using assms(1) by (simp add: safe_def)
  show "safe s'"
  proof (cases "r = None")
    case True
    then obtain f where f: "getFs s fed h = Some f"
      "s' = putFs fed h (f\<lparr>constrained := False, preservedReceiveTime := None, receivedTSOTime := None\<rparr>) s" using d by blast
    show ?thesis unfolding f(2)
      by (rule safe_putFs [OF assms(1) f(1)])
        (use mgr_wfD(4) [OF w f(1)] in \<open>auto simp: rec_wf_def fs_wf_def intro: floor_ok_same [where f = f]\<close>)
  next
    case False
    then show ?thesis using assms by (auto simp: disableConstrained_def split: option.splits if_splits)
  qed
qed

lemma quiet_undo:
  assumes "safe s" "getFs s fed h = Some f" "quiet fed h (putFs fed h g s) t" "safe t"
  shows "safe (putFs fed h f t)"
proof -
  have w: "mgr_wf s" and o: "ordered s" using assms(1) by (auto simp: safe_def)
  have wt: "mgr_wf t" using assms(4) by (simp add: safe_def)
  have fr: "frame fed h (putFs fed h g s) t" and cl: "calm {} fed h (putFs fed h g s) t" using assms(3) by (auto simp: quiet_def)
  have others: "getFs t fed' h' = getFs s fed' h'" "getOrCreateNs t fed' h' = getOrCreateNs s fed' h'" if "fed' \<noteq> fed \<or> h' \<noteq> h" for fed' h'
    using fr that frame_goc_other [OF fr, of fed' h'] by (auto simp: frame_def)
  have sn: "same_ns (getOrCreateNs s fed h) (getOrCreateNs t fed h)" using frame_records(1) [OF fr, of fed h] by simp
  have ro: "ro_ok (putFs fed h g s) fed h" using mgr_wfD(2) [OF w, of fed h] by (simp add: ro_ok_def)
  have lv: "live_ts (getOrCreateNs t fed h) \<subseteq> live_ts (getOrCreateNs s fed h)" using cl ro by (simp add: calm_def live_def)
  have rw: "rec_wf f (getOrCreateNs t fed h)"
    by (rule same_rec_wf [OF same_fs_refl sn mgr_wfD(4) [OF w assms(2)]]) (use mgr_wfD(4) [OF w assms(2)] in \<open>simp add: rec_wf_def\<close>)
  have cur: "currentTime (getOrCreateNs t fed h) = currentTime (getOrCreateNs s fed h)" using same_nsD(1) [OF sn] by simp
  have fl: "floor_ok f (getOrCreateNs t fed h) x" if "floor_ok f (getOrCreateNs s fed h) x" for x
    by (rule same_floor_ok [OF same_fs_refl sn lv that])
  show ?thesis
    by (rule safe_replace [OF assms(4), where fed = fed and h = h and f = "Some f" and n = "getOrCreateNs t fed h"])
      (use mgr_wfD(1,2) [OF wt, of fed h] mgr_wfD(3) [OF wt, of _ fed h] rw cur fl others orderedD [OF o] assms(2)
        in \<open>auto simp: getFs_putFs ro_ok_def live_def\<close>)
qed

lemma ignoreOverflow_snd [simp]: "snd (ignoreOverflow p) = snd p"
  by (auto simp: ignoreOverflow_def split: prod.splits option.splits time_error.splits)

lemma DisableConstrained_safe:
  assumes "safe s" "DisableConstrained E fed h s = (r, s')"
  shows "safe s'"
proof -
  obtain x t where t: "disableConstrained fed h s = (x, t)" by (cases "disableConstrained fed h s")
  note st = disableConstrained_safe [OF assms(1) t]
  obtain y u where u: "drainAllBufferedTSO E fed h t = (y, u)" by (cases "drainAllBufferedTSO E fed h t")
  have q: "quiet fed h t u" by (rule quiet_drainAllTSO [OF u])
  have su: "safe u" by (rule quiet_safe [OF q st(1)])
  have sm: "safe (markDeliveryRetry fed u)" using su safe_view [OF view_simps(6)] by blast
  have g: "safe (snd (ignoreOverflow (tryGrantPending E fed v)))" if "safe v" for v
    using tryGrantPending_safe [OF that, of E fed] by (metis ignoreOverflow_snd prod.collapse)
  have undo: "safe (putFs fed h (getOrCreateFs s fed h) u)" if "x = None"
  proof -
    obtain f where f: "getFs s fed h = Some f" "t = putFs fed h (f\<lparr>constrained := False, preservedReceiveTime := None, receivedTSOTime := None\<rparr>) s"
      using st(2) \<open>x = None\<close> by blast
    show ?thesis using quiet_undo [OF assms(1) f(1) q [unfolded f(2)] su] f(1) by (simp add: getOrCreateFs_def)
  qed
  have s': "s' = snd (DisableConstrained E fed h s)" using assms(2) by simp
  show ?thesis
    unfolding s' DisableConstrained_def Let_def t u
    using assms(1) st(1) g [OF su] g [OF sm] undo by (auto simp: t u split: if_splits option.splits time_error.splits)
qed

lemma safe_async:
  assumes "safe s"
  shows "safe (putNs fed h ((getOrCreateNs s fed h)\<lparr>asyncDelivery := b\<rparr>) s)"
proof -
  let ?n = "getOrCreateNs s fed h"
  have w: "mgr_wf s" using assms by (simp add: safe_def)
  have q: "strictZeroLookahead (recordGrantBound (?n\<lparr>asyncDelivery := b\<rparr>) u) = strictZeroLookahead (recordGrantBound ?n u)" for u
    by (simp add: recordGrantBound_def Let_def)
  have sf: "send_floor f (Some (?n\<lparr>asyncDelivery := b\<rparr>)) = send_floor f (Some ?n)" for f
    by (simp add: send_floor_def outgoingTSOBound_def)
  have gf: "grant_floor f (?n\<lparr>asyncDelivery := b\<rparr>) t = grant_floor f ?n t" for f t
    by (simp add: grant_floor_def q)
  have fl: "floor_ok f (?n\<lparr>asyncDelivery := b\<rparr>) x = floor_ok f ?n x" for f x
    by (simp add: floor_ok_def may_end_early_def live_ts_def sf gf)
  show ?thesis
    by (rule safe_NsOnly [OF assms, where fed = fed and h = h and n = "?n\<lparr>asyncDelivery := b\<rparr>"])
      (use mgr_wfD(1) [OF w, of fed h] mgr_wfD(4) [OF w, of fed h] in \<open>auto simp: goc_putNs ns_wf_def live_ts_def rec_wf_def fl\<close>)
qed

lemma EnableAsync_safe:
  assumes "safe s" "EnableAsynchronousDelivery E fed h s = (r, s')"
  shows "safe s'"
proof -
  let ?t = "putNs fed h ((getOrCreateNs s fed h)\<lparr>asyncDelivery := True\<rparr>) s"
  obtain x u where u: "drainBufferedRO E fed h ?t = (x, u)" by (cases "drainBufferedRO E fed h ?t")
  have su: "safe u" by (rule quiet_safe [OF quiet_drainRO [OF u] safe_async [OF assms(1)]])
  have sm: "safe (markDeliveryRetry fed u)" using su safe_view [OF view_simps(6)] by blast
  have sp: "safe (putNs fed h (getOrCreateNs s fed h) s)" using assms(1) safe_view [OF view_putNs_self] by blast
  have s': "s' = snd (EnableAsynchronousDelivery E fed h s)" using assms(2) by simp
  show ?thesis
    unfolding s' EnableAsynchronousDelivery_def Let_def
    using assms(1) su sm sp safe_async [OF su, of fed h False] by (auto simp: u split: if_splits option.splits time_error.splits)
qed

lemma DisableAsync_safe:
  assumes "safe s" "DisableAsynchronousDelivery fed h s = (r, s')"
  shows "safe s'"
proof -
  have sp: "safe (putNs fed h (getOrCreateNs s fed h) s)" using assms(1) safe_view [OF view_putNs_self] by blast
  show ?thesis
    using assms sp safe_async [OF assms(1), of fed h False] by (auto simp: DisableAsynchronousDelivery_def Let_def split: if_splits)
qed

section \<open>Advance requests\<close>

lemma request_floor:
  assumes "fs_wf fs (currentTime ns)" "\<not> pendingNER ns" "floor_ok fs ns x" "in_range t" "currentTime ns \<le> t" "ns_wf ns"
    and m: "m = ns\<lparr>pendingNER := True, requestedTime := t, mode := md, flushMinimum := None, pendingSince := since\<rparr>"
  shows "floor_ok fs m x"
proof -
  have x: "x \<le> currentTime ns + lookahead fs + (if strictZeroLookahead ns \<and> lookahead fs = 0 then 1 else 0)"
    using assms(2,3) by (simp add: floor_ok_idle send_floor_idle)
  have w: "fs_wf fs (currentTime m)" "ns_wf m" using assms by (auto simp: m ns_wf_def)
  have g: "x \<le> grant_floor fs m u" for u using grant_floor_now [OF w(1), of u] x by (simp add: m)
  moreover have "send_floor fs (Some m) = grant_floor fs m t"
    using grant_floor_requested [OF w(2), of t fs] by (simp add: m)
  ultimately show ?thesis by (simp add: floor_ok_def)
qed

lemma recordAdvance_safe:
  assumes "safe s" "t \<le> MaxTime" "recordAdvance E fed h t m s = (r, s')"
  shows "safe s'"
proof -
  let ?n = "getOrCreateNs s fed h"
  let ?n' = "?n\<lparr>pendingNER := True, requestedTime := t, mode := m, flushMinimum := None, pendingSince := Some (eNow E (calls s))\<rparr>"
  have w: "mgr_wf s" using assms(1) by (simp add: safe_def)
  have sp: "safe (putNs fed h ?n s)" using assms(1) safe_view [OF view_putNs_self] by blast
  have "safe (putNs fed h ?n' (tick s))"
    if p: "pendingEnableError s fed h = None" "checkAdvanceTarget (currentTime ?n) t = None" "\<not> pendingNER ?n"
  proof -
    have t: "in_range t" "currentTime ?n \<le> t"
      using p(2) assms(2) by (auto simp: checkAdvanceTarget_def in_range_def split: if_splits)
    have st: "safe (tick s)" using assms(1) safe_view [OF view_simps(1)] by blast
    have n: "getOrCreateNs (tick s) = getOrCreateNs s" "getFs (tick s) = getFs s" using viewD [OF view_simps(1) [of s]] by simp_all
    have nw: "ns_wf ?n" by (rule mgr_wfD(1) [OF w])
    have rw: "rec_wf f ?n'" if "getFs s fed h = Some f" for f
      using mgr_wfD(4) [OF w that] p(1) that by (auto simp: rec_wf_def pendingEnableError_def split: if_splits)
    show ?thesis
      by (rule safe_NsOnly [OF st, where fed = fed and h = h and n = ?n'])
        (use n nw t rw p(3) request_floor [OF mgr_wfD(5) [OF w] p(3) _ t nw refl]
          in \<open>auto simp: goc_putNs ns_wf_def live_ts_def\<close>)
  qed
  moreover have s': "s' = snd (recordAdvance E fed h t m s)" using assms(3) by simp
  ultimately show ?thesis
    unfolding s' recordAdvance_def current_goc Let_def
    using assms(1) sp by (auto split: if_splits option.splits)
qed

lemma dispatchAdvance_safe:
  assumes "safe s" "t \<le> MaxTime" "dispatchAdvance E fed h t m s = (r, s')"
  shows "safe s'"
proof -
  obtain x u where u: "recordAdvance E fed h t m s = (x, u)" by (cases "recordAdvance E fed h t m s")
  note su = recordAdvance_safe [OF assms(1,2) u]
  show ?thesis using assms u su tryGrantPending_safe [OF su, of E fed r s'] by (cases x) (auto simp: dispatchAdvance_def)
qed

section \<open>Leaving and stalls\<close>

lemma safe_restrict:
  assumes "safe s"
    and "\<And>fed h. (getFs u fed h = getFs s fed h \<and> getOrCreateNs u fed h = getOrCreateNs s fed h) \<or>
      (getFs u fed h = None \<and> getOrCreateNs u fed h = new_nerState)"
  shows "safe u"
proof -
  have w: "mgr_wf s" and o: "ordered s" using assms(1) by (auto simp: safe_def)
  have keep: "getFs s fed h = Some f \<and> getOrCreateNs u fed h = getOrCreateNs s fed h" if "getFs u fed h = Some f" for fed h f
    using assms(2) [of fed h] that by auto
  have new: "ns_wf new_nerState" "live_ts new_nerState = {}" "roBuffer new_nerState = []"
    by (auto simp: ns_wf_def in_range_def MaxTime_pos new_nerState_def live_ts_def)
  have "mgr_wf u" unfolding mgr_wf_def
  proof (intro allI conjI ballI impI)
    fix fed h ts fs
    show "ns_wf (getOrCreateNs u fed h)" "ro_ok u fed h" using assms(2) [of fed h] mgr_wfD(1,2) [OF w, of fed h] new by (auto simp: ro_ok_def)
    show "ts \<le> MaxTime" if "ts \<in> live u fed h" using assms(2) [of fed h] that mgr_wfD(3) [OF w, of ts fed h] new by (auto simp: live_def)
    show "rec_wf fs (getOrCreateNs u fed h)" if "getFs u fed h = Some fs" using keep [OF that] mgr_wfD(4) [OF w, of fed h fs] by simp
  qed
  moreover have "ordered u" unfolding ordered_def using keep o by (metis ordered_def)
  ultimately show ?thesis by (simp add: safe_def)
qed

lemma OnFederateResign_safe:
  assumes "safe s"
  shows "safe (OnFederateResign E fed h s)"
proof -
  let ?t = "s\<lparr>ner := del (fed, h) (ner s), states := del (fed, h) (states s),
    retractions := ForgetRetractionRecipient fed h (retractions s)\<rparr>"
  have t: "safe ?t" by (rule safe_restrict [OF assms]) (auto simp: getFs_def getOrCreateNs_def getNs_def)
  show ?thesis using tryGrantPending_safe [OF t, of E fed] by (simp add: OnFederateResign_def Let_def prod_eq_iff)
qed

lemma map_of_drop_fed: "map_of (drop_fed fed m) (fed', h) = (if fed' = fed then None else map_of m (fed', h))"
  by (induction m) (auto simp: drop_fed_def)

lemma OnFederationDestroyed_safe: "safe s \<Longrightarrow> safe (OnFederationDestroyed fed s)"
  by (erule safe_restrict) (auto simp: OnFederationDestroyed_def getFs_def getOrCreateNs_def getNs_def map_of_drop_fed)

lemma view_halt [simp]: "view (s\<lparr>halted := x\<rparr>) = view s"
  by (simp add: view_def fun_eq_iff getFs_def getOrCreateNs_def getNs_def)

lemma view_notifyAll: "view (notifyAll E fed e hs s) = view s"
proof (induction hs arbitrary: s)
  case (Cons h hs)
  then show ?case using view_Send [of E fed h e s] by (metis notifyAll.simps(2) prod.collapse)
qed simp

lemma view_haltFederation: "view (haltFederation E fed trigger s) = view s"
  using view_Append [of E fed "FederationHaltedRecord HaltCauseStall trigger" "markHalted fed s"]
  by (cases "EventLog_Append E fed (FederationHaltedRecord HaltCauseStall trigger) (markHalted fed s)")
    (auto simp: haltFederation_def view_notifyAll markHalted_def Let_def split: if_splits)

lemma view_haltStalled: "view (snd (haltStalled E now s0 feds s)) = view s"
  by (induction E now s0 feds s rule: haltStalled.induct)
    (auto simp: view_haltFederation split: option.splits prod.splits)

lemma checkStalls_safe:
  assumes "safe s" "checkStalls E s = (k, s')"
  shows "safe s'"
proof -
  obtain now feds where "checkStalls E s = haltStalled E now (tick s) feds (tick s)" by (simp add: checkStalls_def Let_def)
  then have "view s' = view s" using view_haltStalled [of E now "tick s" feds "tick s"] assms(2) by (metis snd_conv view_simps(1))
  then show ?thesis using safe_view assms(1) by blast
qed

section \<open>Admission of messages\<close>

text \<open>A message at or after every other constrained federate's time lowers no floor below one.\<close>

definition late_for :: "manager \<Rightarrow> fed_name \<Rightarrow> int \<Rightarrow> bool" where
  "late_for s fed ts \<longleftrightarrow> (\<forall>p fp. getFs s fed p = Some fp \<longrightarrow> constrained fp \<longrightarrow> currentTime (getOrCreateNs s fed p) \<le> ts)"

definition admissible :: "manager \<Rightarrow> fed_name \<Rightarrow> MessageDelivery \<Rightarrow> bool" where
  "admissible s fed d \<longleftrightarrow> dReceiveOrder d \<or> (dTimestamp d \<le> MaxTime \<and> late_for s fed (dTimestamp d))"

lemma floor_ok_enqueue:
  assumes "fs_wf fs (currentTime ns)" "ns_wf ns" "floor_ok fs ns x" "x \<le> timestamp b"
    and m: "m = ns\<lparr>tsoBuffer := tsoBuffer ns @ [b]\<rparr>"
  shows "floor_ok fs m x"
proof -
  have sf: "send_floor fs (Some m) = send_floor fs (Some ns)" by (simp add: m send_floor_def outgoingTSOBound_def)
  have gf: "grant_floor fs m t = grant_floor fs ns t" for t by (simp add: m grant_floor_def recordGrantBound_def Let_def)
  have e: "x \<le> grant_floor fs ns (timestamp b)" if "pendingNER ns"
  proof (cases "timestamp b \<le> requestedTime ns")
    case True
    then show ?thesis using grant_floor_ge [OF assms(1) True] assms(4) by simp
  next
    case False
    then show ?thesis using grant_floor_requested [OF assms(2) that, of "timestamp b" fs] assms(3) by (simp add: floor_ok_def)
  qed
  have "may_end_early fs m = may_end_early fs ns" "pendingNER m = pendingNER ns" by (simp_all add: m may_end_early_def)
  then show ?thesis using assms(3) sf gf e by (auto simp: floor_ok_def m live_ts_def may_end_early_def)
qed

lemma bufferDelivery_safe:
  assumes "safe s" "admissible s fed d" "bufferDelivery fed d (s, p) = (s', p')"
  shows "safe s'" "getFs s' = getFs s" "currentTime (getOrCreateNs s' fed' h') = currentTime (getOrCreateNs s fed' h')"
proof -
  let ?h = "dRecipient d" and ?n = "getOrCreateNs s fed (dRecipient d)"
  let ?b = "\<lparr>timestamp = dTimestamp d, bevent = dEvent d, sender = dSender d,
     retractionHandle = dRetractionHandle d, receiveOrder = dReceiveOrder d\<rparr>"
  define m where "m = (if dReceiveOrder d then ?n\<lparr>roBuffer := roBuffer ?n @ [?b]\<rparr> else ?n\<lparr>tsoBuffer := tsoBuffer ?n @ [?b]\<rparr>)"
  have s': "s' = putNs fed ?h m s" using assms(3) by (auto simp: bufferDelivery_def m_def Let_def)
  have cur: "currentTime m = currentTime ?n" by (simp add: m_def)
  show "getFs s' = getFs s" "currentTime (getOrCreateNs s' fed' h') = currentTime (getOrCreateNs s fed' h')"
    using cur by (auto simp: s' goc_putNs)
  have w: "mgr_wf s" and o: "ordered s" using assms(1) by (auto simp: safe_def)
  have n: "ns_wf m" using mgr_wfD(1) [OF w, of fed ?h] by (auto simp: m_def ns_wf_def)
  have ro: "\<forall>b\<in>set (roBuffer m). receiveOrder b" using mgr_wfD(2) [OF w, of fed ?h] by (auto simp: m_def ro_ok_def)
  have lv: "\<forall>ts\<in>live_ts m. ts \<le> MaxTime"
    using mgr_wfD(3) [OF w, of _ fed ?h] assms(2) by (auto simp: m_def live_def live_ts_def admissible_def)
  have rw: "rec_wf f m" if "getFs s fed ?h = Some f" for f
    using mgr_wfD(4) [OF w that] by (auto simp: m_def rec_wf_def)
  have fl: "floor_ok f m (currentTime (getOrCreateNs s fed p))"
    if f: "getFs s fed ?h = Some f" "regulating f" and p: "p \<noteq> ?h" "getFs s fed p = Some fp" "constrained fp" for f p fp
  proof (cases "dReceiveOrder d")
    case True
    then have m: "m = ?n\<lparr>roBuffer := roBuffer ?n @ [?b]\<rparr>" by (simp add: m_def)
    have "send_floor f (Some m) = send_floor f (Some ?n)" "grant_floor f m t = grant_floor f ?n t" for t
      by (simp_all add: m send_floor_def outgoingTSOBound_def grant_floor_def recordGrantBound_def Let_def)
    then show ?thesis using orderedD [OF o p f] by (simp add: floor_ok_def m may_end_early_def live_ts_def)
  next
    case False
    then have m: "m = ?n\<lparr>tsoBuffer := tsoBuffer ?n @ [?b]\<rparr>" by (simp add: m_def)
    show ?thesis
      by (rule floor_ok_enqueue [OF mgr_wfD(5) [OF w f(1)] mgr_wfD(1) [OF w] orderedD [OF o p f] _ m])
        (use assms(2) False p in \<open>auto simp: admissible_def late_for_def\<close>)
  qed
  show "safe s'" unfolding s'
    by (rule safe_replace [OF assms(1), where fed = fed and h = ?h and f = "getFs s fed ?h" and n = m])
      (use n ro lv rw fl cur orderedD [OF o] in \<open>auto simp: goc_putNs\<close>)
qed

lemma admissible_same:
  assumes "getFs t = getFs s" "\<And>fed' h'. currentTime (getOrCreateNs t fed' h') = currentTime (getOrCreateNs s fed' h')"
  shows "admissible t fed d = admissible s fed d"
  using assms by (simp add: admissible_def late_for_def)

lemma fold_bufferDelivery_safe:
  "safe s \<Longrightarrow> \<forall>d\<in>set ds. admissible s fed d \<Longrightarrow> fold (bufferDelivery fed) ds (s, p) = (s', p') \<Longrightarrow> safe s'"
proof (induction ds arbitrary: s p)
  case (Cons d ds)
  obtain t q where t: "bufferDelivery fed d (s, p) = (t, q)" by (cases "bufferDelivery fed d (s, p)")
  have d: "admissible s fed d" using Cons.prems(2) by simp
  note b = bufferDelivery_safe [OF Cons.prems(1) d t]
  have "\<forall>d\<in>set ds. admissible t fed d" using Cons.prems(2) admissible_same [OF b(2,3)] by simp
  then show ?case using Cons.IH [OF b(1)] Cons.prems(3) t by simp
qed simp

lemma tsoReservation_Commit_safe:
  assumes "safe s" "\<forall>d\<in>set (buffered r). admissible s fed d"
  shows "safe (tsoReservation_Commit E fed r s)"
proof -
  obtain t p where t: "fold (bufferDelivery fed) (buffered r) (s, False) = (t, p)" by (cases "fold (bufferDelivery fed) (buffered r) (s, False)")
  have "safe (recordRetraction fed (immediate r) t)"
    using fold_bufferDelivery_safe [OF assms t] safe_view [OF view_simps(3)] by blast
  then show ?thesis
    using tryGrantPending_safe [of "recordRetraction fed (immediate r) t" E fed "fst (tryGrantPending E fed (recordRetraction fed (immediate r) t))"]
    by (simp add: tsoReservation_Commit_def t Let_def)
qed

lemma validated_late:
  assumes "safe s" "getFs s fed h = Some fs" "regulating fs" "ValidateOutgoingTSO s fed h ts = None" "ts \<le> MaxTime"
  shows "late_for s fed ts"
proof -
  have w: "mgr_wf s" and o: "ordered s" using assms(1) by (auto simp: safe_def)
  have pw: "pair_wf fs (getNs s fed h)" using regulators_wf [OF w, of fed] assms(2,3) by (fastforce simp: mem_regulators)
  have ts: "in_range ts" "tso_admissible fs (getNs s fed h) ts"
    using assms by (auto simp: ValidateOutgoingTSO_def tso_admissible_def in_range_def Let_def split: if_splits prod.splits)
  then have f: "send_floor fs (Some (getOrCreateNs s fed h)) \<le> ts"
    using tso_admissible_iff [OF pw] snapshot_get(2) [OF w assms(2), of 0] MaxTime_pos by simp
  have "currentTime (getOrCreateNs s fed p) \<le> ts" if "getFs s fed p = Some fp" "constrained fp" for p fp
    using f orderedD [OF o _ that assms(2,3)] own_floor [OF w assms(2)] by (cases "p = h") (auto simp: floor_ok_def)
  then show ?thesis by (auto simp: late_for_def)
qed

lemma reserveTSO_admissible:
  assumes "\<forall>d\<in>set ds. admissible s fed d"
  shows "\<forall>d\<in>set (buffered (reserveTSO s fed ds c)). admissible s fed d"
  using assms by (auto simp: reserveTSO_def orderedDelivery_def admissible_def Let_def)

section \<open>Retraction\<close>

lemma map_of_map_fed: "map_of (map_fed fed f m) (fed', h) = map_option (\<lambda>v. if fed' = fed then f v else v) (map_of m (fed', h))"
  by (induction m) (auto simp: map_fed_def)

lemma safe_shrink:
  assumes "safe s" "getFs u = getFs s"
    and n: "\<And>fed h. \<exists>P Q. getOrCreateNs u fed h = (getOrCreateNs s fed h)\<lparr>tsoBuffer := filter P (tsoBuffer (getOrCreateNs s fed h)),
      roBuffer := filter Q (roBuffer (getOrCreateNs s fed h))\<rparr>"
  shows "safe u"
proof -
  have w: "mgr_wf s" and o: "ordered s" using assms(1) by (auto simp: safe_def)
  have lv: "live_ts (getOrCreateNs u fed h) \<subseteq> live_ts (getOrCreateNs s fed h)"
    and sn: "same_ns (getOrCreateNs s fed h) (getOrCreateNs u fed h)"
    and ro: "set (roBuffer (getOrCreateNs u fed h)) \<subseteq> set (roBuffer (getOrCreateNs s fed h))" for fed h
    using n [of fed h] by (auto simp: live_ts_def same_ns_def)
  have "mgr_wf u" unfolding mgr_wf_def
  proof (intro allI conjI ballI impI)
    fix fed h ts fs
    show "ns_wf (getOrCreateNs u fed h)" using mgr_wfD(1) [OF w, of fed h] same_nsD [OF sn, of fed h] by (simp add: ns_wf_def)
    show "ro_ok u fed h" using ro [of fed h] mgr_wfD(2) [OF w, of fed h] by (auto simp: ro_ok_def)
    show "ts \<le> MaxTime" if "ts \<in> live u fed h" using that lv [of fed h] mgr_wfD(3) [OF w, of ts fed h] by (auto simp: live_def)
    assume f: "getFs u fed h = Some fs"
    then have f: "getFs s fed h = Some fs" using assms(2) by simp
    show "rec_wf fs (getOrCreateNs u fed h)"
      by (rule same_rec_wf [OF same_fs_refl sn mgr_wfD(4) [OF w f]]) (use mgr_wfD(4) [OF w f] in \<open>simp add: rec_wf_def\<close>)
  qed
  moreover have "ordered u" unfolding ordered_def
  proof (intro allI impI)
    fix fed p j fp fj
    assume a: "p \<noteq> j" "getFs u fed p = Some fp" "constrained fp" "getFs u fed j = Some fj" "regulating fj"
    have "floor_ok fj (getOrCreateNs s fed j) (currentTime (getOrCreateNs s fed p))"
      by (rule orderedD [OF o a(1)]) (use a assms(2) in auto)
    from same_floor_ok [OF same_fs_refl sn lv this] show "floor_ok fj (getOrCreateNs u fed j) (currentTime (getOrCreateNs u fed p))"
      using same_nsD(1) [OF sn, of fed p] by simp
  qed
  ultimately show ?thesis by (simp add: safe_def)
qed

lemma goc_map_fed:
  "f new_nerState = new_nerState \<Longrightarrow>
   getOrCreateNs (s\<lparr>ner := map_fed fed f (ner s)\<rparr>) fed' h = (if fed' = fed then f (getOrCreateNs s fed' h) else getOrCreateNs s fed' h)"
  by (simp add: getOrCreateNs_def getNs_def map_of_map_fed split: option.split)

lemma getFs_ner [simp]: "getFs (s\<lparr>ner := x\<rparr>) = getFs s"
  by (simp add: fun_eq_iff getFs_def)

lemma safe_filter:
  assumes "safe s" "\<And>n. \<exists>P Q. f n = n\<lparr>tsoBuffer := filter P (tsoBuffer n), roBuffer := filter Q (roBuffer n)\<rparr>"
  shows "safe (s\<lparr>ner := map_fed fed f (ner s)\<rparr>)"
proof (rule safe_shrink [OF assms(1) getFs_ner])
  fix fed' h
  have "f new_nerState = new_nerState" using assms(2) [of new_nerState] by (auto simp: new_nerState_def)
  from goc_map_fed [where f = f, OF this] show "\<exists>P Q. getOrCreateNs (s\<lparr>ner := map_fed fed f (ner s)\<rparr>) fed' h =
      (getOrCreateNs s fed' h)\<lparr>tsoBuffer := filter P (tsoBuffer (getOrCreateNs s fed' h)), roBuffer := filter Q (roBuffer (getOrCreateNs s fed' h))\<rparr>"
    using assms(2) [of "getOrCreateNs s fed' h"] by (cases "fed' = fed") (auto intro!: exI [where x = "\<lambda>_. True"])
qed

lemma safe_filter_tso:
  assumes "safe s"
  shows "safe (s\<lparr>ner := map_fed fed (\<lambda>ns. ns\<lparr>tsoBuffer := filter P (tsoBuffer ns)\<rparr>) (ner s)\<rparr>)"
proof (rule safe_filter [OF assms])
  fix n :: nerState
  have "n\<lparr>tsoBuffer := filter P (tsoBuffer n)\<rparr> = n\<lparr>tsoBuffer := filter P (tsoBuffer n), roBuffer := filter (\<lambda>_. True) (roBuffer n)\<rparr>"
    by simp
  then show "\<exists>P' Q. n\<lparr>tsoBuffer := filter P (tsoBuffer n)\<rparr> = n\<lparr>tsoBuffer := filter P' (tsoBuffer n), roBuffer := filter Q (roBuffer n)\<rparr>"
    by blast
qed

lemma RetractMessage_safe: "safe s \<Longrightarrow> safe (snd (RetractMessage fed h rh s))"
  using safe_filter_tso by (simp add: RetractMessage_def)

lemma DiscardObjectDeletions_safe: "safe s \<Longrightarrow> safe (DiscardObjectDeletions fed objects s)"
  using safe_filter_tso by (simp add: DiscardObjectDeletions_def)

lemma view_retractions [simp]: "view (s\<lparr>retractions := x\<rparr>) = view s"
  by (simp add: view_def fun_eq_iff getFs_def getOrCreateNs_def getNs_def)

lemma view_reserveRetraction: "reserveRetractionCallbacks E fed cs s = (r, s') \<Longrightarrow> view s' = view s"
  by (auto simp: reserveRetractionCallbacks_def split: if_splits dest: view_Reserve)

lemma view_publishRetraction: "publishRetractionCallbacks E fed cs cl s = (r, s') \<Longrightarrow> view s' = view s"
  by (auto simp: publishRetractionCallbacks_def split: list.splits if_splits prod.splits option.splits dest: view_Commit view_Send)

lemma RetractWithCleanup_cases:
  assumes "RetractWithCleanup E fed h ident cl s = (r, s')"
  shows "(r \<noteq> None \<and> view s' = view s) \<or> (r = None \<and> (\<exists>t. view t = view s \<and>
    s' = t\<lparr>ner := map_fed fed (\<lambda>ns. ns\<lparr>tsoBuffer := removeRetractedMessages (tsoBuffer ns) h ident,
       roBuffer := removeRetractedMessages (roBuffer ns) h ident\<rparr>) (ner t), retractions := set_retracted fed h ident (retractions t)\<rparr>))"
proof (cases "retractionFloor s fed h")
  case (Inl err)
  then show ?thesis using assms by (auto simp: RetractWithCleanup_def)
next
  case (Inr flr)
  show ?thesis
  proof (cases "retractableMessage s fed h ident flr")
    case (Inl err)
    then show ?thesis using assms Inr by (auto simp: RetractWithCleanup_def)
  next
    case m: (Inr msg)
    let ?cs = "map (\<lambda>k. (k, RequestRetraction h ident)) (rmDelivered msg)"
    obtain x t where t: "reserveRetractionCallbacks E fed ?cs s = (x, t)" by (cases "reserveRetractionCallbacks E fed ?cs s")
    obtain y u where u: "publishRetractionCallbacks E fed ?cs cl t = (y, u)" by (cases "publishRetractionCallbacks E fed ?cs cl t")
    have v: "view t = view s" "view u = view s" using view_reserveRetraction [OF t] view_publishRetraction [OF u] by simp_all
    define z where "z = (case cl of None \<Rightarrow> None | Some (prepared, _) \<Rightarrow> prepared)"
    have "RetractWithCleanup E fed h ident cl s = (case x of Some err \<Rightarrow> (Some err, t) | None \<Rightarrow> (case z of Some err \<Rightarrow> (Some err, t) | None \<Rightarrow>
        (case y of Some err \<Rightarrow> (Some err, u) | None \<Rightarrow>
          (None, u\<lparr>ner := map_fed fed (\<lambda>ns. ns\<lparr>tsoBuffer := removeRetractedMessages (tsoBuffer ns) h ident,
             roBuffer := removeRetractedMessages (roBuffer ns) h ident\<rparr>) (ner u), retractions := set_retracted fed h ident (retractions u)\<rparr>))))"
      unfolding RetractWithCleanup_def Inr m sum.case Let_def t z_def [symmetric] by (simp add: u split: option.split)
    then show ?thesis using assms v by (cases x; cases z; cases y) (simp_all, blast)
  qed
qed

lemma RetractWithCleanup_safe:
  assumes "safe s" "RetractWithCleanup E fed h ident cl s = (r, s')"
  shows "safe s'"
proof -
  let ?f = "\<lambda>ns. ns\<lparr>tsoBuffer := removeRetractedMessages (tsoBuffer ns) h ident, roBuffer := removeRetractedMessages (roBuffer ns) h ident\<rparr>"
  have fil: "safe (t\<lparr>ner := map_fed fed ?f (ner t)\<rparr>)" if "safe t" for t
    by (rule safe_filter [OF that]) (auto simp: removeRetractedMessages_def)
  from RetractWithCleanup_cases [OF assms(2)] show ?thesis
  proof (elim disjE conjE exE)
    assume "view s' = view s"
    then show ?thesis using safe_view assms(1) by blast
  next
    fix t assume "view t = view s" and s': "s' = t\<lparr>ner := map_fed fed ?f (ner t), retractions := set_retracted fed h ident (retractions t)\<rparr>"
    then have "safe t" using safe_view assms(1) by blast
    from fil [OF this] show ?thesis unfolding s' using safe_view [OF view_retractions] by blast
  qed
qed

lemma RetractMessageNotify_snd: "snd (RetractMessageNotify E fed h ident s) = snd (RetractWithError E fed h ident s)"
  by (simp add: RetractMessageNotify_def split: prod.split option.split)

section \<open>Scheduled saves\<close>

lemma since_simps [simp]:
  "floor_ok f (n\<lparr>pendingSince := x\<rparr>) y = floor_ok f n y" "rec_wf f (n\<lparr>pendingSince := x\<rparr>) = rec_wf f n"
  "ns_wf (n\<lparr>pendingSince := x\<rparr>) = ns_wf n" "live_ts (n\<lparr>pendingSince := x\<rparr>) = live_ts n"
proof -
  have "strictZeroLookahead (recordGrantBound (n\<lparr>pendingSince := x\<rparr>) u) = strictZeroLookahead (recordGrantBound n u)" for u
    by (simp add: recordGrantBound_def Let_def)
  then have g: "grant_floor f (n\<lparr>pendingSince := x\<rparr>) t = grant_floor f n t" for t by (simp add: grant_floor_def)
  have s: "send_floor f (Some (n\<lparr>pendingSince := x\<rparr>)) = send_floor f (Some n)" by (simp add: send_floor_def outgoingTSOBound_def)
  show l: "live_ts (n\<lparr>pendingSince := x\<rparr>) = live_ts n" by (simp add: live_ts_def)
  show "floor_ok f (n\<lparr>pendingSince := x\<rparr>) y = floor_ok f n y" by (simp add: floor_ok_def may_end_early_def g s l)
qed (simp_all add: rec_wf_def ns_wf_def)

lemma safe_since:
  assumes "safe s" "getFs u = getFs s" "\<And>fed h. \<exists>x. getOrCreateNs u fed h = (getOrCreateNs s fed h)\<lparr>pendingSince := x\<rparr>"
  shows "safe u"
proof -
  obtain x where x: "\<And>fed h. getOrCreateNs u fed h = (getOrCreateNs s fed h)\<lparr>pendingSince := x fed h\<rparr>" using assms(3) by metis
  show ?thesis using assms(1) by (simp add: safe_def mgr_wf_def ordered_def ro_ok_def live_def x assms(2))
qed

lemma map_of_keyed: "map_of (map (\<lambda>((f, h), v). ((f, h), g f h v)) m) (f, h) = map_option (g f h) (map_of m (f, h))"
  by (induction m) auto

lemma map_of_shiftPending:
  "map_of (shiftPending fed p m) (f, h) = map_option (\<lambda>ns. if f = fed \<and> pendingNER ns
     then (case (pendingSince ns, p h) of (Some since, Some d) \<Rightarrow> ns\<lparr>pendingSince := Some (since + d)\<rparr> | _ \<Rightarrow> ns) else ns) (map_of m (f, h))"
  unfolding shiftPending_def by (rule map_of_keyed)

lemma shiftPending_safe:
  assumes "safe s"
  shows "safe (s\<lparr>ner := shiftPending fed p (ner s)\<rparr>)"
proof (rule safe_since [OF assms getFs_ner])
  fix f h
  let ?n = "getOrCreateNs s f h"
  have keep: "\<exists>x. ?n = ?n\<lparr>pendingSince := x\<rparr>" by (rule exI [of _ "pendingSince ?n"]) simp
  show "\<exists>x. getOrCreateNs (s\<lparr>ner := shiftPending fed p (ner s)\<rparr>) f h = ?n\<lparr>pendingSince := x\<rparr>"
    using keep by (auto simp: getOrCreateNs_def getNs_def map_of_shiftPending split: option.splits)
qed

lemma view_saves [simp]: "view (s\<lparr>scheduledSaves := x\<rparr>) = view s" "view (s\<lparr>deliveryRetries := y\<rparr>) = view s"
  by (simp_all add: view_def fun_eq_iff getFs_def getOrCreateNs_def getNs_def)

lemma view_update_barrier [simp]: "view (update_barrier fed f s) = view s"
  by (simp add: update_barrier_def split: option.split)

lemma safe_mark: "safe (markDeliveryRetry fed s) = safe s"
  by (rule safe_view) simp

lemma view_ReserveScheduledSave: "ReserveScheduledSave fed tgt ms s = (r, s') \<Longrightarrow> view s' = view s"
  by (auto simp: ReserveScheduledSave_def Let_def split: if_splits sum.splits)

lemma view_prepareSaveBarrier: "prepareSaveBarrier fed tgt ms rep timed s = (r, s') \<Longrightarrow> view s' = view s"
  by (auto simp: prepareSaveBarrier_def split: if_splits sum.splits prod.splits option.splits)

lemma view_pauseAll: "pauseAll E hs (p, s) = (p', s') \<Longrightarrow> view s' = view s"
proof (induction hs arbitrary: p s)
  case (Cons h hs)
  then show ?case by (cases "map_of p h = None") fastforce+
qed simp

lemma view_reservation_Commit: "reservation_Commit E fed r s = (r', s') \<Longrightarrow> view s' = view s"
  by (auto simp: reservation_Commit_def Let_def split: if_splits prod.splits dest!: view_pauseAll)

lemma view_reservation_Pause: "reservation_Pause E fed r hs s = (e, s') \<Longrightarrow> view s' = view s"
  by (auto simp: reservation_Pause_def split: if_splits prod.splits option.splits dest!: view_pauseAll)

lemma shift_release_safe:
  assumes "safe s"
  shows "safe ((tick s)\<lparr>ner := shiftPending fed p (ner s), scheduledSaves := x\<rparr>)"
proof -
  have "safe (tick s)" using assms safe_view [OF view_simps(1)] by blast
  from shiftPending_safe [OF this, of fed p] have "safe ((tick s)\<lparr>ner := shiftPending fed p (ner s)\<rparr>)" by (simp add: tick_def)
  then show ?thesis using safe_view [OF view_saves(1)] by blast
qed

lemma releaseScheduledSave_safe:
  assumes "safe s"
  shows "safe (releaseScheduledSave E fed b s)"
  using assms shift_release_safe [OF assms] safe_view [OF view_saves(1)] by (simp add: releaseScheduledSave_def split: option.split)

lemma reservation_Release_safe:
  assumes "safe s"
  shows "safe (snd (reservation_Release E fed r s))"
  using assms shift_release_safe [OF assms] by (simp add: reservation_Release_def split: option.split reservation_state.split)

lemma take_TSO_live:
  assumes "takeBufferedTSOThrough fed h t adv d s = (r, s')"
  shows "timestamp ` {b \<in> set r. \<not> internalTSO (bevent b)} \<subseteq> live s fed h"
proof (cases "getNs s fed h")
  case None
  then show ?thesis using assms by (auto simp: takeBufferedTSOThrough_def)
next
  case (Some ns)
  let ?f = "filter (\<lambda>b. bufferedTSOEligible b t adv d (currentTime ns)) (tsoBuffer ns)"
  obtain ord where "r = [] \<or> r = map (\<lambda>b. b\<lparr>bevent := setReceivedOrder ord (bevent b)\<rparr>)
      (if isConstrained s fed h then orderReflectionDeletionTies (sort_key timestamp ?f) else ?f)"
    using assms Some by (auto simp: takeBufferedTSOThrough_def Let_def split: if_splits)
  then show ?thesis
    using set_ordered [of "isConstrained s fed h" ?f] Some by (auto simp: live_def live_ts_def getOrCreateNs_def)
qed

lemma quiet_releaseTSO:
  assumes "releaseBufferedTSO E fed h t s = (r, s')"
  shows "quiet fed h s s'"
proof -
  obtain bs u where u: "takeBufferedTSO fed h (Some t) True s = (bs, u)" by (cases "takeBufferedTSO fed h (Some t) True s")
  then have u': "takeBufferedTSOThrough fed h (Some t) True (Some t) s = (bs, u)" by (simp add: takeBufferedTSO_def)
  have "timestamp ` {b \<in> set bs. \<not> internalTSO (bevent b)} \<subseteq> live s fed h" by (rule take_TSO_live [OF u'])
  moreover have "calm (timestamp ` {b \<in> set bs. \<not> internalTSO (bevent b)}) fed h u s'"
    using assms u by (auto simp: releaseBufferedTSO_def dest: calm_releaseTSOs)
  ultimately have "calm {} fed h s s'" using take_TSO_set(1) [OF u'] unfolding calm_def by blast
  then show ?thesis using frame_releaseTSO [OF assms] by (simp add: quiet_def)
qed

lemma quiet_deliverThrough:
  assumes "deliverThrough E fed t h s = (r, s')"
  shows "quiet fed h s s'"
proof (cases "implicitAdvance s fed h")
  case True
  obtain bs u where u: "takeEnableMessages fed h True t s = (bs, u)" by (cases "takeEnableMessages fed h True t s")
  have "queued fed h bs s u" using frame_takeEnableMessages [OF u] from_queue_enable [OF u] by (simp add: queued_def)
  then show ?thesis using assms True u queued_deliver by (auto simp: deliverThrough_def)
next
  case False
  obtain x u where u: "drainBufferedRO E fed h s = (x, u)" by (cases "drainBufferedRO E fed h s")
  then show ?thesis
    using assms False quiet_drainRO [OF u] quiet_trans [OF quiet_drainRO [OF u] quiet_releaseTSO]
    by (cases x) (auto simp: deliverThrough_def)
qed

lemma deliverAllThrough_safe: "deliverAllThrough E fed t hs s = (r, s') \<Longrightarrow> safe s \<Longrightarrow> safe s'"
proof (induction hs arbitrary: s)
  case (Cons h hs)
  obtain x u where u: "deliverThrough E fed t h s = (x, u)" by (cases "deliverThrough E fed t h s")
  have "safe u" by (rule quiet_safe [OF quiet_deliverThrough [OF u] Cons.prems(2)])
  then show ?case using Cons u by (cases x) auto
qed simp

lemma deliverUnpaused_safe: "deliverUnpaused E fed t hs s = (r, s') \<Longrightarrow> safe s \<Longrightarrow> safe s'"
proof (induction hs arbitrary: s)
  case (Cons h hs)
  obtain x u where u: "deliverThrough E fed t h s = (x, u)" by (cases "deliverThrough E fed t h s")
  have "safe u" by (rule quiet_safe [OF quiet_deliverThrough [OF u] Cons.prems(2)])
  then show ?case using Cons u by (cases x) (auto split: if_splits)
qed simp

lemma scheduledSaveReady_safe:
  assumes "safe s" "scheduledSaveReady E fed b s = (r, s')"
  shows "safe s'"
proof -
  obtain x t where t: "tryGrantPending E fed s = (x, t)" by (cases "tryGrantPending E fed s")
  obtain y u where u: "deliverAllThrough E fed (target b) (sort (map fst (modes b))) t = (y, u)"
    by (cases "deliverAllThrough E fed (target b) (sort (map fst (modes b))) t")
  have st: "safe t" by (rule tryGrantPending_safe [OF assms(1) t])
  have su: "safe u" by (rule deliverAllThrough_safe [OF u st])
  have "safe (update_barrier fed f (tick u))" for f using su safe_view [of "update_barrier fed f (tick u)" u] by simp
  then show ?thesis
    using assms(2) st su unfolding scheduledSaveReady_def t u by (auto simp: u split: option.splits if_splits sum.splits)
qed

lemma reservation_Ready_safe:
  assumes "safe s" "reservation_Ready E fed rv s = (r, s')"
  shows "safe s'"
proof -
  obtain x t where t: "tryGrantPending E fed s = (x, t)" by (cases "tryGrantPending E fed s")
  have st: "safe t" by (rule tryGrantPending_safe [OF assms(1) t])
  have d: "safe u" if "deliverUnpaused E fed (target (prBarrier rv)) hs t = (y, u)" for hs y u
    by (rule deliverUnpaused_safe [OF that st])
  show ?thesis
    using assms(2) st d unfolding reservation_Ready_def t by (auto split: option.splits if_splits sum.splits prod.splits)
qed

lemma drainRecipients_safe: "drainRecipients E fed hs s = (r, s') \<Longrightarrow> safe s \<Longrightarrow> safe s'"
proof (induction hs arbitrary: s)
  case (Cons h hs)
  obtain x t where t: "drainBufferedRO E fed h s = (x, t)" by (cases "drainBufferedRO E fed h s")
  obtain y u where u: "drainAllBufferedTSO E fed h t = (y, u)" by (cases "drainAllBufferedTSO E fed h t")
  have st: "safe t" by (rule quiet_safe [OF quiet_drainRO [OF t] Cons.prems(2)])
  have su: "safe u" by (rule quiet_safe [OF quiet_drainAllTSO [OF u] st])
  show ?case using Cons t u st su by (cases x; cases y) auto
qed simp

lemma ResumeScheduledSave_safe:
  assumes "safe s" "ResumeScheduledSave E fed s = (r, s')"
  shows "safe s'"
proof -
  obtain x t where t: "drainRecipients E fed (queuedRecipients s fed) s = (x, t)" by (cases "drainRecipients E fed (queuedRecipients s fed) s")
  obtain y u where u: "tryGrantPending E fed t = (y, u)" by (cases "tryGrantPending E fed t")
  have st: "safe t" by (rule drainRecipients_safe [OF t assms(1)])
  have su: "safe u" by (rule tryGrantPending_safe [OF st u])
  show ?thesis
    using assms(2) st su unfolding ResumeScheduledSave_def t
    by (cases x; cases y) (auto simp: u safe_mark split: if_splits)
qed

lemma RetryPendingDeliveries_safe:
  assumes "safe s" "RetryPendingDeliveries E fed s = (r, s')"
  shows "safe s'"
proof -
  let ?t = "s\<lparr>deliveryRetries := filter (\<lambda>f. f \<noteq> fed) (deliveryRetries s)\<rparr>"
  obtain x u where u: "ResumeScheduledSave E fed ?t = (x, u)" by (cases "ResumeScheduledSave E fed ?t")
  have "safe ?t" using assms(1) safe_view [OF view_saves(2)] by blast
  from ResumeScheduledSave_safe [OF this u] show ?thesis
    using assms(2) unfolding RetryPendingDeliveries_def u by (cases x) (auto simp: safe_mark split: if_splits)
qed

section \<open>Reachable states\<close>

text \<open>
  A step is one service call for a federation in some environment.  Times, lookaheads and
  timestamps are int64 values.  The manager takes messages from any sender.  What the messages of
  a run are like is a parameter of the relation: \<open>D s fed ds\<close> says that the messages \<open>ds\<close> may be
  handed to the manager for the federation in the state \<open>s\<close>.  With \<open>any_sends\<close> the calls are all the
  calls the code accepts; with \<open>regulated_sends\<close> every timestamped message has a timestamp that some
  time-regulating federate may send in that state.  An advance service gives up the lease of the
  federation between recording the request and evaluating it; the two halves are steps of their
  own too, so that other calls may come between them.
\<close>

type_synonym discipline = "manager \<Rightarrow> fed_name \<Rightarrow> MessageDelivery list \<Rightarrow> bool"

definition any_sends :: discipline where
  "any_sends s fed ds \<longleftrightarrow> True"

definition regulated_sends :: discipline where
  "regulated_sends s fed ds \<longleftrightarrow>
     (\<forall>d\<in>set ds. dReceiveOrder d \<or>
        (\<exists>h fs. getFs s fed h = Some fs \<and> regulating fs \<and> ValidateOutgoingTSO s fed h (dTimestamp d) = None))"

definition NewManager :: manager where
  "NewManager = \<lparr>states = [], ner = [], halted = [], stallTimeouts = [], scheduledSaves = [], deliveryRetries = [],
     retractions = \<lparr>next_token = 0, federations = []\<rparr>, calls = 0, sent = [], journal = []\<rparr>"

definition timedMessage :: "handle \<Rightarrow> int \<Rightarrow> event \<Rightarrow> handle \<Rightarrow> nat \<Rightarrow> MessageDelivery" where
  "timedMessage h ts evt p rh = \<lparr>dRecipient = h, dTimestamp = ts, dEvent = evt, dSender = p, dRetractionHandle = rh, dReceiveOrder = False\<rparr>"

inductive step :: "discipline \<Rightarrow> fed_name \<Rightarrow> manager \<Rightarrow> manager \<Rightarrow> bool" for D :: discipline where
  enableRegulation: "la \<le> MaxTime \<Longrightarrow> step D fed s (snd (EnableRegulation E fed h la s))"
| disableRegulation: "step D fed s (snd (DisableRegulation E fed h s))"
| modifyLookahead: "la \<le> MaxTime \<Longrightarrow> step D fed s (snd (ModifyLookahead E fed h la s))"
| enableConstrained: "step D fed s (snd (EnableConstrained E fed h s))"
| disableConstrained: "step D fed s (snd (DisableConstrained E fed h s))"
| enableAsync: "step D fed s (snd (EnableAsynchronousDelivery E fed h s))"
| disableAsync: "step D fed s (snd (DisableAsynchronousDelivery fed h s))"
| nextMessageRequest: "t \<le> MaxTime \<Longrightarrow> step D fed s (snd (NextMessageRequest E fed h t s))"
| nextMessageRequestAvailable: "t \<le> MaxTime \<Longrightarrow> step D fed s (snd (NextMessageRequestAvailable E fed h t s))"
| timeAdvanceRequest: "t \<le> MaxTime \<Longrightarrow> step D fed s (snd (TimeAdvanceRequest E fed h t s))"
| timeAdvanceRequestAvailable: "t \<le> MaxTime \<Longrightarrow> step D fed s (snd (TimeAdvanceRequestAvailable E fed h t s))"
| flushQueueRequest: "t \<le> MaxTime \<Longrightarrow> step D fed s (snd (FlushQueueRequest E fed h t s))"
| recordRequest: "t \<le> MaxTime \<Longrightarrow> step D fed s (snd (recordAdvance E fed h t m s))"
| timestamped: "\<lbrakk>D s fed ds; \<forall>d\<in>set ds. dTimestamp d \<le> MaxTime; ReserveOutgoingTSO s fed h ts ds = Inr r\<rbrakk> \<Longrightarrow>
    step D fed s (tsoReservation_Commit E fed r s)"
| reserved: "\<lbrakk>D s fed ds; \<forall>d\<in>set ds. dTimestamp d \<le> MaxTime\<rbrakk> \<Longrightarrow> step D fed s (tsoReservation_Commit E fed (ReserveTSO s fed ds) s)"
| bufferTSO: "\<lbrakk>D s fed [timedMessage h ts evt p rh]; ts \<le> MaxTime\<rbrakk> \<Longrightarrow> step D fed s (snd (BufferTSOWithRetraction E fed h ts evt p rh s))"
| retract: "step D fed s (snd (RetractWithError E fed h ident s))"
| retractCleanup: "step D fed s (snd (RetractWithCleanup E fed h ident cl s))"
| retractNotify: "step D fed s (snd (RetractMessageNotify E fed h ident s))"
| retractQueued: "step D fed s (snd (RetractMessage fed h ident s))"
| discardDeletions: "step D fed s (DiscardObjectDeletions fed objects s)"
| reserveID: "step D fed s (s\<lparr>retractions := snd (ReserveRetractionID fed h ident msg (retractions s))\<rparr>)"
| reserveMessage: "step D fed s (s\<lparr>retractions := snd (ReserveRetractionMessage fed h ident ts (retractions s))\<rparr>)"
| commitID: "rv_fed r = fed \<Longrightarrow> step D fed s (s\<lparr>retractions := snd (snd (Retraction.reservation_Commit r (retractions s)))\<rparr>)"
| releaseID: "rv_fed r = fed \<Longrightarrow> step D fed s (s\<lparr>retractions := snd (Retraction.reservation_Release r (retractions s))\<rparr>)"
| recordDeliveries: "step D fed s (s\<lparr>retractions := RecordRetractionDeliveries fed ds (retractions s)\<rparr>)"
| forgetRecipient: "step D fed s (s\<lparr>retractions := ForgetRetractionRecipient fed h (retractions s)\<rparr>)"
| resign: "step D fed s (OnFederateResign E fed h s)"
| destroy: "step D fed s (OnFederationDestroyed fed s)"
| stalls: "step D fed s (snd (checkStalls E s))"
| evaluate: "step D fed s (snd (tryGrantPending E fed s))"
| reserveSave: "step D fed s (snd (ReserveScheduledSave fed tgt members s))"
| saveReady: "step D fed s (snd (scheduledSaveReady E fed b s))"
| releaseSave: "step D fed s (releaseScheduledSave E fed b s)"
| resumeSave: "step D fed s (snd (ResumeScheduledSave E fed s))"
| retryDeliveries: "step D fed s (snd (RetryPendingDeliveries E fed s))"
| prepareSave: "step D fed s (snd (prepareSaveBarrier fed tgt members rep timed s))"
| commitSave: "step D fed s (snd (reservation_Commit E fed rv s))"
| pauseSave: "step D fed s (snd (reservation_Pause E fed rv hs s))"
| readySave: "step D fed s (snd (reservation_Ready E fed rv s))"
| endSave: "step D fed s (snd (reservation_Release E fed rv s))"

inductive reachable :: "discipline \<Rightarrow> manager \<Rightarrow> bool" for D :: discipline where
  init: "reachable D NewManager"
| next_step: "reachable D s \<Longrightarrow> step D fed s s' \<Longrightarrow> reachable D s'"

lemma NewManager_safe: "safe NewManager"
proof -
  have n: "getFs NewManager fed h = None" "getOrCreateNs NewManager fed h = new_nerState" for fed h
    by (simp_all add: NewManager_def getFs_def getOrCreateNs_def getNs_def)
  show ?thesis
    by (auto simp: safe_def mgr_wf_def ordered_def n ro_ok_def live_def live_ts_def ns_wf_def new_nerState_def in_range_def MaxTime_pos)
qed

lemma EnableRegulation_safe:
  assumes "safe s" "la \<le> MaxTime"
  shows "safe (snd (EnableRegulation E fed h la s))"
proof (cases "validLookahead la")
  case True
  then show ?thesis
    using requestEnable_safe [OF assms(1), of la True E fed h] assms(2)
    by (metis EnableRegulation_def in_range_def prod.collapse validLookahead_def)
next
  case False
  then show ?thesis using assms(1) by (simp add: EnableRegulation_def requestEnable_def)
qed

lemma snd_safe: "(\<And>r s'. p = (r, s') \<Longrightarrow> safe s') \<Longrightarrow> safe (snd p)"
  by (cases p) simp

lemma regulated_admissible:
  assumes "safe s" "regulated_sends s fed ds" "\<forall>d\<in>set ds. dTimestamp d \<le> MaxTime"
  shows "\<forall>d\<in>set (buffered (reserveTSO s fed ds c)). admissible s fed d"
  by (rule reserveTSO_admissible) (use assms validated_late [OF assms(1)] in \<open>auto simp: admissible_def regulated_sends_def\<close>)

lemma regulated_outgoing:
  assumes "safe s" "regulated_sends s fed ds" "\<forall>d\<in>set ds. dTimestamp d \<le> MaxTime" "ReserveOutgoingTSO s fed h ts ds = Inr r"
  shows "\<forall>d\<in>set (buffered r). admissible s fed d"
  using regulated_admissible [OF assms(1-3), of True] assms(4) by (auto simp: ReserveOutgoingTSO_def split: option.splits)

text \<open>What \<open>BufferTSO\<close> does: it commits the reservation of the message, in a state that differs by a sent event.\<close>

lemma BufferTSO_cases:
  assumes "BufferTSOWithRetraction E fed h ts evt p rh s = (e, s')"
  obtains "view s' = view s"
    | t where "view t = view s" "s' = tsoReservation_Commit E fed (reserveTSO s fed [timedMessage h ts evt p rh] False) t"
  using assms
  by (auto simp: BufferTSOWithRetraction_def timedMessage_def [symmetric] Let_def split: list.splits option.splits prod.splits dest: view_Send)

lemma admissible_view: "view t = view s \<Longrightarrow> admissible t fed d = admissible s fed d"
  by (simp add: admissible_def late_for_def view_def)

lemma safe_same_view: "view s' = view s \<Longrightarrow> safe s \<Longrightarrow> safe s'"
  using safe_view by blast

lemma BufferTSO_safe:
  assumes "safe s" "regulated_sends s fed [timedMessage h ts evt p rh]" "ts \<le> MaxTime"
    and "BufferTSOWithRetraction E fed h ts evt p rh s = (e, s')"
  shows "safe s'"
  using assms(4)
proof (cases rule: BufferTSO_cases)
  case 1
  then show ?thesis using safe_same_view assms(1) by blast
next
  case (2 t)
  have "\<forall>d\<in>set (buffered (reserveTSO s fed [timedMessage h ts evt p rh] False)). admissible t fed d"
    using regulated_admissible [OF assms(1,2), of False] assms(3) admissible_view [OF 2(1)] by (simp add: timedMessage_def)
  then show ?thesis using tsoReservation_Commit_safe safe_same_view [OF 2(1) assms(1)] 2(2) by blast
qed

lemma step_safe: "step regulated_sends fed s s' \<Longrightarrow> safe s \<Longrightarrow> safe s'"
proof (induction rule: step.induct)
  case (enableRegulation la fed s E h)
  then show ?case by (simp add: EnableRegulation_safe)
next
  case (enableConstrained fed s E h)
  then show ?case unfolding EnableConstrained_def by (intro snd_safe) (auto dest: requestEnable_safe [rotated 2])
next
  case (timestamped s fed ds h ts r E)
  then show ?case by (intro tsoReservation_Commit_safe regulated_outgoing) auto
next
  case (reserved s fed ds E)
  then show ?case unfolding ReserveTSO_def by (intro tsoReservation_Commit_safe regulated_admissible) auto
next
  case (bufferTSO s fed h ts evt p rh E)
  then show ?case by (intro snd_safe) (rule BufferTSO_safe)
next
  case (retract fed s E h ident)
  then show ?case unfolding RetractWithError_def by (intro snd_safe) (rule RetractWithCleanup_safe)
next
  case (retractNotify fed s E h ident)
  then show ?case unfolding RetractMessageNotify_snd RetractWithError_def by (intro snd_safe) (rule RetractWithCleanup_safe)
qed (auto simp: NextMessageRequest_def NextMessageRequestAvailable_def TimeAdvanceRequest_def TimeAdvanceRequestAvailable_def
    FlushQueueRequest_def intro!: snd_safe EnableRegulation_safe RetractMessage_safe DiscardObjectDeletions_safe
    OnFederateResign_safe OnFederationDestroyed_safe releaseScheduledSave_safe reservation_Release_safe
    intro: safe_same_view [OF view_retractions]
    dest: safe_same_view view_ReserveScheduledSave view_prepareSaveBarrier view_reservation_Commit view_reservation_Pause DisableRegulation_safe ModifyLookahead_safe DisableConstrained_safe EnableAsync_safe DisableAsync_safe dispatchAdvance_safe recordAdvance_safe
    RetractWithCleanup_safe checkStalls_safe tryGrantPending_safe scheduledSaveReady_safe ResumeScheduledSave_safe
    RetryPendingDeliveries_safe reservation_Ready_safe)

lemma reachable_safe: "reachable regulated_sends s \<Longrightarrow> safe s"
  by (induction rule: reachable.induct) (auto intro: NewManager_safe step_safe)

lemma Metrics_simps [simp]:
  "mRegulating (Metrics s fed h) \<longleftrightarrow> (\<exists>fs. getFs s fed h = Some fs \<and> regulating fs)"
  "mConstrained (Metrics s fed h) \<longleftrightarrow> (\<exists>fs. getFs s fed h = Some fs \<and> constrained fs)"
  "mCurrentTime (Metrics s fed h) = currentTime (getOrCreateNs s fed h)"
  by (auto simp: Metrics_def getOrCreateNs_def new_nerState_def Let_def split: option.splits)

text \<open>
  C1. Conservative synchronisation.  Take any state that calls for any federations can reach in
  any environment, provided every timestamped message handed to the manager had a timestamp that
  some time-regulating federate may send (\<open>regulated_sends\<close>; the manager itself does not enforce this).
  Then a timestamp that the manager admits for a message of a time-regulating federate is not
  below the current logical time of any time-constrained federate of the federation: no
  constrained federate receives a message in its past.
\<close>

theorem no_message_in_past:
  assumes "reachable regulated_sends s" and "mRegulating (Metrics s fed h)" and "ts \<le> MaxTime" and "ValidateOutgoingTSO s fed h ts = None"
    and "mConstrained (Metrics s fed p)"
  shows "mCurrentTime (Metrics s fed p) \<le> ts"
  using validated_late [OF reachable_safe [OF assms(1)], of fed h _ ts] assms(2-5) by (auto simp: late_for_def)

text \<open>An environment that accepts everything, and a run with two regulators.\<close>

definition calmEnv :: env where
  "calmEnv = \<lparr>eReservable = False, eReserve = \<lambda>_ _ _. None, eCommit = \<lambda>_. None, eSend = \<lambda>_ _ _ _. None, eAppend = None,
     eFilter = None, eNow = \<lambda>_. 0, eStallTimeout = 60\<rparr>"

definition run1 :: manager where
  "run1 = snd (TimeAdvanceRequestAvailable calmEnv ''F'' 2 9 (snd (EnableConstrained calmEnv ''F'' 2
     (snd (EnableRegulation calmEnv ''F'' 4 9 NewManager)))))"

lemma run1_reachable: "reachable D run1"
  unfolding run1_def
  by (rule next_step [OF next_step [OF next_step [OF init enableRegulation] enableConstrained] timeAdvanceRequestAvailable])
    (simp_all add: MaxTime_def)

definition may_send :: "manager \<Rightarrow> handle \<Rightarrow> int \<Rightarrow> handle \<Rightarrow> bool" where
  "may_send s h ts p \<longleftrightarrow> mRegulating (Metrics s ''F'' h) \<and> ValidateOutgoingTSO s ''F'' h ts = None \<and> mConstrained (Metrics s ''F'' p)"

theorem no_message_in_past_witness:
  "reachable regulated_sends run1 \<and> may_send run1 4 9 2 \<and> mCurrentTime (Metrics run1 ''F'' 2) \<le> 9"
proof -
  have v: "may_send run1 4 9 2" by code_simp
  then show ?thesis using run1_reachable no_message_in_past [OF run1_reachable, of "''F''" 4 9 2] by (auto simp: MaxTime_def may_send_def simp del: Metrics_simps)
qed

text \<open>
  The exemption of senders that do not regulate.  Federate 1 regulates with lookahead 1 and is
  constrained; federate 4 regulates with lookahead 9; federate 2 is granted time 9 while
  federate 1 waits for its next message.  Federate 3, which is not regulating, sends a message
  with timestamp 2 to federate 1.
\<close>

definition early_message :: MessageDelivery where
  "early_message = \<lparr>dRecipient = 1, dTimestamp = 2,
     dEvent = Message \<lparr>payload = 7, InternalTSO = False, ReceivedOrder = None, ReflectionObject = 0, DeletionObject = 0\<rparr>,
     dSender = 3, dRetractionHandle = 0, dReceiveOrder = False\<rparr>"

definition run2 :: manager where
  "run2 = snd (TimeAdvanceRequestAvailable calmEnv ''F'' 2 9 (snd (NextMessageRequest calmEnv ''F'' 1 10
     (snd (EnableConstrained calmEnv ''F'' 2 (snd (EnableConstrained calmEnv ''F'' 1
       (snd (EnableRegulation calmEnv ''F'' 1 1 (snd (EnableRegulation calmEnv ''F'' 4 9 NewManager)))))))))))"

definition send_early :: "manager \<Rightarrow> manager" where
  "send_early s = (case ReserveOutgoingTSO s ''F'' 3 2 [early_message] of
     Inr r \<Rightarrow> tsoReservation_Commit calmEnv ''F'' r s | Inl _ \<Rightarrow> s)"

definition admits_unregulated :: "manager \<Rightarrow> bool" where
  "admits_unregulated s \<longleftrightarrow> \<not> mRegulating (Metrics s ''F'' 3) \<and> ValidateOutgoingTSO s ''F'' 3 2 = None"

definition sends_in_past :: "manager \<Rightarrow> bool" where
  "sends_in_past s \<longleftrightarrow> mRegulating (Metrics s ''F'' 1) \<and> ValidateOutgoingTSO s ''F'' 1 3 = None \<and>
     mConstrained (Metrics s ''F'' 2) \<and> mCurrentTime (Metrics s ''F'' 2) = 9"

text \<open>
  C26. The limit of the safety property.
  The promise of conservative synchronisation rests on the senders of timestamped messages
  being regulating, which the admission does not require: in the run above, all of whose calls the
  manager accepts, the message of the non-regulating federate 3 is admitted and queued in timestamp
  order, federate 1 is granted time 2, and the manager then admits a message of federate 1 with
  timestamp 3 although the constrained federate 2 is at time 9.
\<close>

theorem unregulated_sender_breaks_order:
  "reachable regulated_sends run2 \<and> admits_unregulated run2 \<and> reachable any_sends (send_early run2) \<and> sends_in_past (send_early run2)"
proof -
  have r: "reachable D run2" for D unfolding run2_def
    by (rule next_step [OF next_step [OF next_step [OF next_step [OF next_step [OF next_step [OF init enableRegulation] enableRegulation]
      enableConstrained] enableConstrained] nextMessageRequest] timeAdvanceRequestAvailable]) (simp_all add: MaxTime_def)
  have "step any_sends ''F'' run2 (tsoReservation_Commit calmEnv ''F'' w run2)" if "ReserveOutgoingTSO run2 ''F'' 3 2 [early_message] = Inr w" for w
    by (rule timestamped [OF _ _ that]) (simp_all add: any_sends_def early_message_def MaxTime_def)
  then have "reachable any_sends (send_early run2)"
    using next_step [OF r [of any_sends]] r [of any_sends] by (auto simp: send_early_def split: sum.split)
  moreover have "admits_unregulated run2" by code_simp
  moreover have "sends_in_past (send_early run2)" by code_simp
  ultimately show ?thesis using r by blast
qed

end
