(* ===== verification/Time_Live.thy ===== *)
theory Time_Live
  imports Time_Reach
begin

text \<open>
  What the grant evaluator leaves behind: it stops only when no pending request can be granted.
\<close>

section \<open>Receive-order traffic does not change a decision\<close>

definition erase_ns :: "nerState \<Rightarrow> nerState" where
  "erase_ns n = n\<lparr>roBuffer := []\<rparr>"

definition erase :: "manager \<Rightarrow> (key \<times> federateState) list \<times> (key \<times> nerState) list \<times> (fed_name \<times> scheduledTimeBarrier) list" where
  "erase s = (states s, map (\<lambda>(k, n). (k, erase_ns n)) (ner s), scheduledSaves s)"

lemma erase_ns_simps [simp]:
  "currentTime (erase_ns n) = currentTime n" "pendingNER (erase_ns n) = pendingNER n" "requestedTime (erase_ns n) = requestedTime n"
  "mode (erase_ns n) = mode n" "strictZeroLookahead (erase_ns n) = strictZeroLookahead n" "flushMinimum (erase_ns n) = flushMinimum n"
  "tsoBuffer (erase_ns n) = tsoBuffer n" "erase_ns (n\<lparr>roBuffer := r\<rparr>) = erase_ns n"
  "erase_ns (erase_ns n) = erase_ns n" "nextGrantMessage (erase_ns n) = nextGrantMessage n"
  by (simp_all add: erase_ns_def nextGrantMessage_def)

lemma map_put_same: "map_of m k = Some v \<Longrightarrow> f w = f v \<Longrightarrow> map (\<lambda>(k, n). (k, f n)) (put k w m) = map (\<lambda>(k, n). (k, f n)) m"
  by (induction k w m rule: put.induct) (auto split: if_splits)

lemma erase_env [simp]:
  "erase (tick s) = erase s" "erase (publish fed ds s) = erase s" "erase (recordRetraction fed rs s) = erase s"
  by (simp_all add: erase_def tick_def publish_def recordRetraction_def)

lemma erase_putNs: "getNs s fed h = Some n \<Longrightarrow> erase_ns m = erase_ns n \<Longrightarrow> erase (putNs fed h m s) = erase s"
  by (simp add: erase_def putNs_def getNs_def map_put_same)

lemma erase_queued: "queuedMessage E fed h b s = (r, s') \<Longrightarrow> erase s' = erase s"
  by (auto simp: queuedMessage_def split: option.splits if_splits)

lemma erase_queuedDeliveries: "queuedDeliveries skip E fed h bs s = (r, s') \<Longrightarrow> erase s' = erase s"
proof (induction bs arbitrary: s r s')
  case (Cons b bs)
  show ?case
  proof (cases "skip \<and> internalTSO (bevent b)")
    case False
    obtain x t where t: "queuedMessage E fed h b s = (x, t)" by (cases "queuedMessage E fed h b s")
    obtain y u where u: "queuedDeliveries skip E fed h bs t = (y, u)" by (cases "queuedDeliveries skip E fed h bs t")
    have "s' = u" using Cons.prems False t u by auto
    then show ?thesis using Cons.IH [OF u] erase_queued [OF t] by simp
  qed (use Cons in simp)
qed simp

lemma erase_outbox:
  "Outbox_Reserve E fed ds s = (r, s') \<Longrightarrow> erase s' = erase s" "Outbox_Commit E fed ds s = (r, s') \<Longrightarrow> erase s' = erase s"
  "Outbox_Send E fed h e s = (r, s') \<Longrightarrow> erase s' = erase s"
  by (auto simp: Outbox_Reserve_def Outbox_Commit_def Outbox_Send_def split: option.splits)

lemma erase_admit: "admitEvent E fed h e s = (r, s') \<Longrightarrow> erase s' = erase s"
  by (auto simp: admitEvent_def split: if_splits prod.splits option.splits dest!: erase_outbox)

lemma erase_deliverEvent:
  assumes "deliverBufferedEvent E fed h b s = (r, s')" "receiveOrder b"
  shows "erase s' = erase s"
proof -
  have rec: "recordFlushDelivery fed h b u = u" for u using assms(2) by (simp add: recordFlushDelivery_def)
  show ?thesis
    using assms unfolding deliverBufferedEvent_def Let_def rec
    by (auto split: prod.splits option.splits if_splits dest!: erase_queued erase_admit)
qed

lemma erase_deliverSequence:
  "deliverBufferedSequence E fed h bs s = (None, s') \<Longrightarrow> \<forall>b\<in>set bs. receiveOrder b \<Longrightarrow> erase s' = erase s"
proof (induction bs arbitrary: s)
  case (Cons b bs)
  obtain m t where m: "deliverBufferedEvent E fed h b s = (m, t)" by (cases "deliverBufferedEvent E fed h b s")
  then show ?case using Cons erase_deliverEvent [OF m] by (cases m) auto
qed simp

lemma erase_sendROs: "sendROs E fed h bs s = (None, s') \<Longrightarrow> erase s' = erase s"
proof (induction bs arbitrary: s)
  case (Cons b bs)
  obtain x t where t: "queuedMessage E fed h b s = (x, t)" by (cases "queuedMessage E fed h b s")
  show ?case
  proof (cases x)
    case None
    then show ?thesis using Cons t erase_queued [OF t] by simp
  next
    case (Some e)
    obtain y u where u: "Outbox_Send E fed h e t = (y, u)" by (cases "Outbox_Send E fed h e t")
    then show ?thesis using Cons t Some erase_queued [OF t] erase_outbox(3) [OF u] by (cases y) auto
  qed
qed simp

lemma erase_takeRO: "takeBufferedRO fed h s = (r, s') \<Longrightarrow> erase s' = erase s"
  by (auto simp: takeBufferedRO_def erase_putNs split: option.splits if_splits)

lemma erase_drainRO:
  assumes "drainBufferedRO E fed h s = (None, s')" "ro_ok s fed h"
  shows "erase s' = erase s"
proof -
  obtain bs t where t: "takeBufferedRO fed h s = (bs, t)" by (cases "takeBufferedRO fed h s")
  have ro: "\<forall>b\<in>set bs. receiveOrder b"
    using t assms(2) by (auto simp: takeBufferedRO_def ro_ok_def getOrCreateNs_def split: option.splits if_splits)
  have "erase s' = erase t" if d: "drainReservedRO E fed h bs t = (None, s')"
  proof -
    obtain ds t1 where t1: "queuedDeliveries False E fed h bs t = (ds, t1)" by (cases "queuedDeliveries False E fed h bs t")
    obtain x t2 where t2: "Outbox_Reserve E fed ds t1 = (x, t2)" by (cases "Outbox_Reserve E fed ds t1")
    obtain y t3 where t3: "Outbox_Commit E fed ds t2 = (y, t3)" by (cases "Outbox_Commit E fed ds t2")
    show ?thesis
      using d t1 t2 t3 erase_queuedDeliveries [OF t1] erase_outbox(1) [OF t2] erase_outbox(2) [OF t3] erase_deliverSequence [of E fed h bs t2 s'] ro
      by (auto simp: drainReservedRO_def split: if_splits option.splits time_error.splits)
  qed
  then show ?thesis
    using assms(1) t erase_takeRO [OF t] erase_sendROs [of E fed h bs t s'] by (auto simp: drainBufferedRO_def split: if_splits)
qed

text \<open>GALT reads no receive-order queue.\<close>

definition erase_peer :: "availableRegulator \<Rightarrow> availableRegulator" where
  "erase_peer p = p\<lparr>arNs := map_option erase_ns (arNs p)\<rparr>"

lemma erase_peer_simps [simp]:
  "arHandle (erase_peer p) = arHandle p" "arFs (erase_peer p) = arFs p" "arBound (erase_peer p) = arBound p"
  "arNs (erase_peer p) = map_option erase_ns (arNs p)" "erase_peer (p\<lparr>arBound := b\<rparr>) = (erase_peer p)\<lparr>arBound := b\<rparr>"
  by (simp_all add: erase_peer_def)

lemma erase_outgoing [simp]: "outgoingTSOBound fs (map_option erase_ns n) = outgoingTSOBound fs n"
  by (cases n) (simp_all add: outgoingTSOBound_def)

lemma erase_snapshot_bound [simp]: "regulatingBoundSnapshot h fs (map_option erase_ns n) = regulatingBoundSnapshot h fs n"
  by (simp add: regulatingBoundSnapshot_def)

lemma erase_sendHorizon [simp]: "availableSendHorizon fs (map_option erase_ns n) = availableSendHorizon fs n"
  by (simp add: availableSendHorizon_def)

lemma erase_afterGrant [simp]: "availableHorizonAfterGrant fs (erase_ns n) t = availableHorizonAfterGrant fs n t"
proof -
  let ?t = "max (currentTime n) (min t (requestedTime n))"
  have "(recordGrantBound (erase_ns n) ?t)\<lparr>currentTime := ?t, pendingNER := False\<rparr> =
      erase_ns ((recordGrantBound n ?t)\<lparr>currentTime := ?t, pendingNER := False\<rparr>)"
    by (simp add: recordGrantBound_def erase_ns_def Let_def)
  then show ?thesis
    using erase_sendHorizon [of _ "Some ((recordGrantBound n ?t)\<lparr>currentTime := ?t, pendingNER := False\<rparr>)"]
    by (simp add: availableHorizonAfterGrant_def)
qed

lemma erase_lower [simp]: "lower_by_queue fs (erase_ns n) = lower_by_queue fs n"
  by (simp add: fun_eq_iff lower_by_queue_def)

lemma erase_snapshot: "availableRegulatorSnapshot h fs (map_option erase_ns n) = erase_peer (availableRegulatorSnapshot h fs n)"
  using erase_sendHorizon [of fs n] by (cases n) (auto simp: availableRegulatorSnapshot_def erase_peer_def Let_def split: option.splits)

lemma foldl_cong_mem: "(\<And>a x. x \<in> set xs \<Longrightarrow> f a x = g a x) \<Longrightarrow> foldl f a xs = foldl g a xs"
  by (rule foldl_cong) auto

lemma erase_incoming: "incoming (map erase_peer peers) i = incoming peers i"
  unfolding incoming_def by (simp cong: if_cong) (rule foldl_cong_mem, simp)

lemma erase_relax_peer: "i < length peers \<Longrightarrow>
   relax_peer i (map erase_peer peers, c) = map_prod (map erase_peer) (\<lambda>x. x) (relax_peer i (peers, c))"
  by (auto simp: relax_peer_def erase_incoming Let_def map_update split: option.splits)

lemma relax_peer_length: "length (fst (relax_peer i pc)) = length (fst pc)"
  by (auto simp: relax_peer_def Let_def split: prod.splits option.splits)

lemma erase_relax_fold:
  "\<forall>i\<in>set is. i < length peers \<Longrightarrow>
   fold relax_peer is (map erase_peer peers, c) = map_prod (map erase_peer) (\<lambda>x. x) (fold relax_peer is (peers, c))"
proof (induction "is" arbitrary: peers c)
  case (Cons i ix)
  obtain q d where q: "relax_peer i (peers, c) = (q, d)" by (cases "relax_peer i (peers, c)")
  have "length q = length peers" using relax_peer_length [of i "(peers, c)"] q by simp
  then show ?case using Cons.IH [of q d] Cons.prems erase_relax_peer [of i peers c] q by simp
qed simp

lemma erase_relax_pass: "relax_pass (map erase_peer peers) = map_prod (map erase_peer) (\<lambda>x. x) (relax_pass peers)"
  using erase_relax_fold [of "[0..<length peers]" peers False] by (simp add: relax_pass_def)

lemma erase_relax_passes: "relax_passes n (map erase_peer peers) = map erase_peer (relax_passes n peers)"
  by (induction n peers rule: relax_passes.induct) (auto simp: erase_relax_pass Let_def split: prod.splits)

lemma erase_least: "foldl (least_peer h) r (map erase_peer peers) = foldl (least_peer h) r peers"
  by (induction peers arbitrary: r) (auto simp: least_peer_def split: option.splits)

lemma erase_availableHorizon:
  "availableHorizon (map (\<lambda>(h, fs, n). (h, fs, map_option erase_ns n)) rs) self = availableHorizon rs self"
proof -
  have "map (\<lambda>(h, fs, n). availableRegulatorSnapshot h fs n) (map (\<lambda>(h, fs, n). (h, fs, map_option erase_ns n)) rs) =
      map erase_peer (map (\<lambda>(h, fs, n). availableRegulatorSnapshot h fs n) rs)"
    by (auto simp: erase_snapshot)
  then show ?thesis by (simp only: availableHorizon_def propagateFlushHorizons_def erase_relax_passes erase_least length_map)
qed

lemma map_of_erase: "map_of (map (\<lambda>(k, n). (k, erase_ns n)) m) k = map_option erase_ns (map_of m k)"
  by (induction m) auto

lemma erase_get:
  assumes "erase s' = erase s"
  shows "getFs s' = getFs s" "map_option erase_ns (getNs s' fed h) = map_option erase_ns (getNs s fed h)"
    "scheduledSaves s' = scheduledSaves s" "fedKeys fed (ner s') = fedKeys fed (ner s)" "fedKeys fed (states s') = fedKeys fed (states s)"
proof -
  have e: "states s' = states s" "map (\<lambda>(k, n). (k, erase_ns n)) (ner s') = map (\<lambda>(k, n). (k, erase_ns n)) (ner s)"
    "scheduledSaves s' = scheduledSaves s" using assms by (simp_all add: erase_def)
  show "getFs s' = getFs s" "scheduledSaves s' = scheduledSaves s" "fedKeys fed (states s') = fedKeys fed (states s)"
    using e by (simp_all add: fun_eq_iff getFs_def)
  show "map_option erase_ns (getNs s' fed h) = map_option erase_ns (getNs s fed h)"
    using e(2) map_of_erase [of "ner s'"] map_of_erase [of "ner s"] by (simp add: getNs_def)
  have "map fst (map (\<lambda>(k, n). (k, erase_ns n)) m) = map fst m" for m :: "(key \<times> nerState) list" by (induction m) auto
  then have "map fst (ner s') = map fst (ner s)" using e(2) by metis
  then show "fedKeys fed (ner s') = fedKeys fed (ner s)" by (simp add: fedKeys_def)
qed

lemma erase_regulators:
  assumes "erase s' = erase s"
  shows "map (\<lambda>(h, fs, n). (h, fs, map_option erase_ns n)) (regulators s' fed) = map (\<lambda>(h, fs, n). (h, fs, map_option erase_ns n)) (regulators s fed)"
  using erase_get [OF assms] by (simp add: regulators_def)

lemma erase_GALT: "erase s' = erase s \<Longrightarrow> availableHorizonOf s' fed h = availableHorizonOf s fed h"
  unfolding availableHorizonOf_def
  using erase_availableHorizon [of "regulators s' fed" h] erase_availableHorizon [of "regulators s fed" h] erase_regulators [of s' s fed]
  by simp

lemma erase_decide: "erase s' = erase s \<Longrightarrow> decideCandidateGrant s' fed c b = decideCandidateGrant s fed c b"
  using erase_GALT [of s' s fed "cHandle c"] erase_get(1) [of s' s]
  by (simp add: decideCandidateGrant_def candidateBound_def isConstrained_def)

lemma option_erase_cases:
  assumes "map_option erase_ns a = map_option erase_ns b"
  shows "(a = None \<and> b = None) \<or> (\<exists>m n. a = Some m \<and> b = Some n \<and> erase_ns m = erase_ns n)"
  using assms by (cases a; cases b) auto

lemma erase_ns_eqD:
  assumes "erase_ns m = erase_ns n"
  shows "currentTime m = currentTime n" "pendingNER m = pendingNER n" "requestedTime m = requestedTime n" "mode m = mode n"
    "nextGrantMessage m = nextGrantMessage n"
  using assms erase_ns_simps by metis+

lemma erase_hold:
  assumes e: "erase s' = erase s"
  shows "holdGrantForScheduledSave s' fed h t = holdGrantForScheduledSave s fed h t"
proof -
  have p: "scheduledRecipientPaused s' fed h = scheduledRecipientPaused s fed h"
    using erase_get(3) [OF e] by (simp add: scheduledRecipientPaused_def scheduledPauseAt_def)
  from option_erase_cases [OF erase_get(2) [OF e, of fed h]] show ?thesis
  proof (elim disjE exE conjE)
    fix m n assume "getNs s' fed h = Some m" "getNs s fed h = Some n" "erase_ns m = erase_ns n"
    then show ?thesis using p erase_get(3) [OF e] erase_ns_eqD(2,4) [of m n]
      by (cases "map_of (scheduledSaves s) fed") (simp_all add: holdGrantForScheduledSave_def)
  next
    assume "getNs s' fed h = None" "getNs s fed h = None"
    then show ?thesis using p erase_get(3) [OF e]
      by (cases "map_of (scheduledSaves s) fed") (simp_all add: holdGrantForScheduledSave_def)
  qed
qed

lemma erase_candidates:
  assumes e: "erase s' = erase s"
  shows "pendingGrantCandidates s' fed = pendingGrantCandidates s fed"
proof -
  let ?ks = "fedKeys fed (ner s)"
  have k: "erase_ns (the (getNs s' fed h)) = erase_ns (the (getNs s fed h))" if "h \<in> set ?ks" for h
  proof -
    have "getNs s fed h \<noteq> None" using that by (simp add: mem_fedKeys getNs_def)
    then show ?thesis using option_erase_cases [OF erase_get(2) [OF e, of fed h]] by auto
  qed
  have f: "filter (\<lambda>h. pendingNER (the (getNs s' fed h))) ?ks = filter (\<lambda>h. pendingNER (the (getNs s fed h))) ?ks"
    by (rule filter_cong) (simp_all add: erase_ns_eqD(2) [OF k])
  show ?thesis
    unfolding pendingGrantCandidates_def erase_get(4) [OF e] Let_def f
    by (rule map_cong) (simp_all add: erase_ns_eqD [OF k])
qed

lemma insort_key_map: "(\<And>x. k (f x) = k x) \<Longrightarrow> insort_key k (f a) (map f xs) = map f (insort_key k a xs)"
  by (induction xs) auto

lemma sort_key_map: "(\<And>x. k (f x) = k x) \<Longrightarrow> sort_key k (map f xs) = map f (sort_key k xs)"
  by (induction xs) (auto simp: insort_key_map)

lemma erase_LBTS: "erase s' = erase s \<Longrightarrow> regulatingSnapshot s' fed = regulatingSnapshot s fed"
proof -
  assume e: "erase s' = erase s"
  let ?f = "\<lambda>(h, fs, n). (h, fs, map_option erase_ns n)" and ?g = "\<lambda>(h, fs, n). regulatingBoundSnapshot h fs n"
  have sort: "sort_key fst (map ?f rs) = map ?f (sort_key fst rs)" for rs :: "(handle \<times> federateState \<times> nerState option) list"
    by (rule sort_key_map) auto
  have "map ?g (map ?f rs) = map ?g rs" for rs by auto
  then have "map ?g (sort_key fst rs) = map ?g (sort_key fst (map ?f rs))" for rs by (metis sort)
  then show ?thesis using erase_regulators [OF e, of fed] unfolding regulatingSnapshot_def by metis
qed

section \<open>The evaluator stops only when nothing can be granted\<close>

text \<open>A request is grant_settled when the decision does not grant it, or a scheduled save holds it.\<close>

definition grant_settled :: "manager \<Rightarrow> fed_name \<Rightarrow> TimeBound \<Rightarrow> candidateGrant \<Rightarrow> bool" where
  "grant_settled s fed b c \<longleftrightarrow>
     (let d = decideCandidateGrant s fed c b in Fire d \<longrightarrow> holdGrantForScheduledSave s fed (cHandle c) (GrantTime d))"

lemma erase_grant_settled: "erase s' = erase s \<Longrightarrow> grant_settled s' fed b c = grant_settled s fed b c"
  unfolding grant_settled_def Let_def by (simp only: erase_decide [of s' s] erase_hold [of s' s])

lemma tryCandidate_stuck:
  assumes "tryCandidateGrant E fed c (decideCandidateGrant s fed c b) s = (False, None, s')"
  shows "grant_settled s fed b c" "drainBufferedRO E fed (cHandle c) s = (None, s')"
  using assms by (auto simp: tryCandidateGrant_def grant_settled_def Let_def split: if_splits prod.splits option.splits)

lemma tryCandidates_stuck:
  assumes "tryCandidates E fed b cs s = (False, None, s')" "safe s"
  shows "erase s' = erase s \<and> (\<forall>c\<in>set cs. grant_settled s fed b c)"
  using assms
proof (induction cs arbitrary: s)
  case (Cons c cs)
  obtain p r t where t: "tryCandidateGrant E fed c (decideCandidateGrant s fed c b) s = (p, r, t)"
    by (cases "tryCandidateGrant E fed c (decideCandidateGrant s fed c b) s")
  have n: "r = None" "\<not> p" "tryCandidates E fed b cs t = (False, None, s')"
    using Cons.prems(1) t by (auto split: option.splits if_splits)
  have t': "tryCandidateGrant E fed c (decideCandidateGrant s fed c b) s = (False, None, t)" using t n by simp
  note stuck = tryCandidate_stuck [OF t']
  have e: "erase t = erase s"
    by (rule erase_drainRO [OF stuck(2)]) (use Cons.prems(2) mgr_wfD(2) in \<open>auto simp: safe_def\<close>)
  have "safe t" by (rule quiet_safe [OF quiet_drainRO [OF stuck(2)] Cons.prems(2)])
  from Cons.IH [OF n(3) this] show ?case using e stuck(1) erase_grant_settled [OF e] by simp
qed simp

lemma evaluatorPass_stuck:
  assumes "evaluatorPass E fed s = (False, None, s')" "safe s" "c \<in> set (pendingGrantCandidates s' fed)"
  shows "grant_settled s' fed (LBTSBound (regulatingSnapshot s' fed)) c"
proof -
  obtain x t where t: "completePendingEnables E fed s = (x, t)" by (cases "completePendingEnables E fed s")
  obtain y u where u: "flushPendingMessages E fed t = (y, u)" by (cases "flushPendingMessages E fed t")
  have xy: "x = None" "y = None" using assms(1) t u by (auto simp: evaluatorPass_def Let_def split: option.splits)
  have st: "safe t" using t assms(2) by (auto simp: completePendingEnables_def split: if_splits dest: completeEnables_safe)
  have su: "safe u" using u st by (auto simp: flushPendingMessages_def split: if_splits option.splits dest: flushAll_safe)
  have "tryCandidates E fed (LBTSBound (regulatingSnapshot u fed)) (sort_key cHandle (pendingGrantCandidates u fed)) u = (False, None, s')"
    using assms(1) t u xy by (simp add: evaluatorPass_def Let_def)
  from tryCandidates_stuck [OF this su] have e: "erase s' = erase u"
    and g: "\<forall>c\<in>set (pendingGrantCandidates u fed). grant_settled u fed (LBTSBound (regulatingSnapshot u fed)) c" by simp_all
  show ?thesis
    using g assms(3) by (simp add: erase_grant_settled [OF e] erase_LBTS [OF e] erase_candidates [OF e])
qed

lemma grantLoop_stuck:
  "grantLoop E fed s = (None, s') \<Longrightarrow> safe s \<Longrightarrow> c \<in> set (pendingGrantCandidates s' fed) \<Longrightarrow>
   grant_settled s' fed (LBTSBound (regulatingSnapshot s' fed)) c"
proof (induction E fed s rule: grantLoop.induct)
  case (1 E fed s)
  obtain p r t where p: "evaluatorPass E fed s = (p, r, t)" by (cases "evaluatorPass E fed s")
  have r: "r = None" "if p then grantLoop E fed t = (None, s') else t = s'"
    using "1.prems"(1) p by (auto simp: grantLoop.simps [of E fed s] split: option.splits if_splits)
  show ?case
  proof (cases p)
    case True
    then show ?thesis
      using "1.IH" [OF p [symmetric] _ r(1)] r evaluatorPass_safe [OF p "1.prems"(2)] "1.prems"(3) by auto
  next
    case False
    then show ?thesis using evaluatorPass_stuck [of E fed s s' c] p r "1.prems" by simp
  qed
qed

text \<open>
  C2. Liveness of the grant evaluator.  When the evaluator returns without an error, no pending
  advance request of the federation is left that could be granted: for every one of them the
  grant decision, taken on the state it leaves, is negative, unless a scheduled save holds the
  federate.
\<close>

theorem evaluator_leaves_nothing_grantable:
  assumes "reachable regulated_sends s" and "tryGrantPending E fed s = (None, s')" and "c \<in> set (pendingGrantCandidates s' fed)"
    and "Fire (decideCandidateGrant s' fed c (LBTSBound (regulatingSnapshot s' fed)))"
  shows "holdGrantForScheduledSave s' fed (cHandle c)
    (GrantTime (decideCandidateGrant s' fed c (LBTSBound (regulatingSnapshot s' fed))))"
proof -
  have "grantLoop E fed s = (None, s')" using assms(2) by (auto simp: tryGrantPending_def split: prod.splits option.splits)
  from grantLoop_stuck [OF this reachable_safe [OF assms(1)] assms(3)] show ?thesis
    using assms(4) by (simp add: grant_settled_def Let_def)
qed

definition heldGrant :: "manager \<Rightarrow> bool" where
  "heldGrant s \<longleftrightarrow> list_ex (\<lambda>c. Fire (decideCandidateGrant s ''F'' c (LBTSBound (regulatingSnapshot s ''F'')))) (pendingGrantCandidates s ''F'')"

definition run4 :: manager where
  "run4 = snd (TimeAdvanceRequestAvailable calmEnv ''F'' 2 9 (snd (ReserveScheduledSave ''F'' 5 [2, 4]
     (snd (EnableConstrained calmEnv ''F'' 2 (snd (EnableRegulation calmEnv ''F'' 4 9 NewManager)))))))"

theorem evaluator_leaves_nothing_grantable_witness:
  "\<exists>s' c. tryGrantPending calmEnv ''F'' run4 = (None, s') \<and> c \<in> set (pendingGrantCandidates s' ''F'') \<and>
     holdGrantForScheduledSave s' ''F'' (cHandle c)
       (GrantTime (decideCandidateGrant s' ''F'' c (LBTSBound (regulatingSnapshot s' ''F''))))"
proof -
  have r: "reachable regulated_sends run4" unfolding run4_def
    by (rule next_step [OF next_step [OF next_step [OF next_step [OF init enableRegulation] enableConstrained] reserveSave] timeAdvanceRequestAvailable])
      (simp_all add: MaxTime_def)
  have "(case tryGrantPending calmEnv ''F'' run4 of (r, s') \<Rightarrow> r = None \<and> heldGrant s')" by code_simp
  then obtain s' where t: "tryGrantPending calmEnv ''F'' run4 = (None, s')" and h: "heldGrant s'" by (auto split: prod.splits)
  then obtain c where c: "c \<in> set (pendingGrantCandidates s' ''F'')"
    "Fire (decideCandidateGrant s' ''F'' c (LBTSBound (regulatingSnapshot s' ''F'')))" by (auto simp: heldGrant_def list_ex_iff)
  show ?thesis using evaluator_leaves_nothing_grantable [OF r t c] t c by blast
qed

end
