(* ===== verification/Time_Forward.thy ===== *)
theory Time_Forward
  imports Time_Live
begin

text \<open>
  Relations that every service respects, stated as interfaces and instantiated twice: logical
  time does not go back, and a service call touches the records of one federation only.
\<close>

section \<open>Relations the evaluator respects\<close>

text \<open>The federate or the federation that a step removes.\<close>

definition removes :: "fed_name \<Rightarrow> manager \<Rightarrow> manager \<Rightarrow> bool" where
  "removes fed s s' \<longleftrightarrow> (\<exists>E h. s' = OnFederateResign E fed h s) \<or> s' = OnFederationDestroyed fed s"

text \<open>
  A reflexive and transitive relation between states that quiet queue work, a justified grant
  and a justified enable respect is respected by the whole evaluator.
\<close>

locale evaluator_relation =
  fixes R :: "fed_name \<Rightarrow> manager \<Rightarrow> manager \<Rightarrow> bool"
  assumes R_refl [simp]: "R fed s s"
    and R_trans: "R fed s t \<Longrightarrow> R fed t u \<Longrightarrow> R fed s u"
    and R_view: "view s' = view t \<Longrightarrow> R fed s t \<Longrightarrow> R fed s s'"
    and R_quiet: "quiet fed h s u \<Longrightarrow> R fed s u"
    and R_grant: "grant_ok s fed h tm \<Longrightarrow> R fed s (applyGrant fed h tm True s)"
    and R_enable: "enable_ok s fed h reg tm \<Longrightarrow> R fed s (applyEnable fed h reg tm s)"
begin

lemma emitGrant_R:
  assumes "safe s" "grant_ok s fed h t" "emitGrant E fed h t True s = (r, s')"
  shows "R fed s s'"
proof -
  from emitGrant_cases [OF assms(3)] show ?thesis
  proof (elim disjE conjE exE)
    fix u assume u: "quiet fed h s u" "view s' = view (applyGrant fed h t True u)"
    have "grant_ok u fed h t" using quiet_grant_ok [OF u(1) _ assms(2)] assms(1) by (simp add: safe_def)
    from R_trans [OF R_quiet [OF u(1)] R_grant [OF this]] show ?thesis using R_view [OF u(2)] by blast
  qed (rule R_quiet)
qed

lemma completeEnable_R:
  assumes "safe s" "completeEnable E fed h reg s = (r, s')"
  shows "R fed s s'"
proof (cases "enableTarget s fed h reg")
  case (Some t)
  then have "emitEnable E fed h reg t s = (r, s')" using assms(2) by (simp add: completeEnable_def)
  from emitEnable_cases [OF this] show ?thesis
  proof (elim disjE conjE exE)
    fix u assume u: "quiet fed h s u" "view s' = view (applyEnable fed h reg t u)"
    have "enable_ok u fed h reg t" using quiet_enable_ok [OF u(1) _ enableTarget_ok [OF assms(1) Some]] assms(1) by (simp add: safe_def)
    from R_trans [OF R_quiet [OF u(1)] R_enable [OF this]] show ?thesis using R_view [OF u(2)] by blast
  qed (rule R_quiet)
qed (use assms in \<open>simp add: completeEnable_def\<close>)

lemma completeEnables_R: "completeEnables E fed hs s = (r, s') \<Longrightarrow> safe s \<Longrightarrow> R fed s s'"
proof (induction hs arbitrary: s)
  case (Cons h hs)
  obtain x t where t: "completeEnable E fed h True s = (x, t)" by (cases "completeEnable E fed h True s")
  obtain y u where u: "completeEnable E fed h False t = (y, u)" by (cases "completeEnable E fed h False t")
  have st: "safe t" "R fed s t" using completeEnable_safe [OF Cons.prems(2) t] completeEnable_R [OF Cons.prems(2) t] by blast+
  have su: "safe u" "R fed s u"
    using completeEnable_safe [OF st(1) u] R_trans [OF st(2) completeEnable_R [OF st(1) u]] by blast+
  show ?case using Cons.prems t u st su R_trans [OF su(2) Cons.IH [OF _ su(1)]] by (cases x; cases y) auto
qed simp

lemma flushAll_R: "flushAll E fed hs s = (r, s') \<Longrightarrow> R fed s s'"
proof (induction hs arbitrary: s)
  case (Cons h hs)
  obtain x t where t: "flushFederateMessages E fed h s = (x, t)" by (cases "flushFederateMessages E fed h s")
  have f: "R fed s t" by (rule R_quiet [OF quiet_flushFederate [OF t]])
  show ?case using Cons t f R_trans [OF f] by (cases x) auto
qed simp

lemma tryCandidate_R:
  assumes "safe s" "lbts_ok s fed b" "fresh s fed c"
    and "tryCandidateGrant E fed c (decideCandidateGrant s fed c b) s = (p, r, s')"
  shows "R fed s s'"
proof (cases "Fire (decideCandidateGrant s fed c b) \<and> \<not> holdGrantForScheduledSave s fed (cHandle c) (GrantTime (decideCandidateGrant s fed c b))")
  case False
  then have "drainBufferedRO E fed (cHandle c) s = (r, s')" using assms(4) by (auto simp: tryCandidateGrant_def Let_def split: if_splits)
  then show ?thesis by (rule R_quiet [OF quiet_drainRO])
next
  case True
  let ?d = "decideCandidateGrant s fed c b"
  have g: "grant_ok s fed (cHandle c) (GrantTime ?d)" by (rule decision_grant_ok [OF assms(1-3)]) (use True in simp)
  obtain x y z where n: "(if usesNextMessageTarget (cMode c) then deliverNextMessageGroup E fed (cHandle c) (GrantTime ?d) s
      else (False, None, s)) = (x, y, z)" by (metis prod.collapse)
  then have q: "quiet fed (cHandle c) s z" using quiet_nextMessageGroup by (auto split: if_splits)
  have zs: "safe z" "grant_ok z fed (cHandle c) (GrantTime ?d)"
    using quiet_safe [OF q assms(1)] quiet_grant_ok [OF q _ g] assms(1) by (auto simp: safe_def)
  have "R fed s s'" if "emitGrant E fed (cHandle c) (GrantTime ?d) True z = (r, s')"
    by (rule R_trans [OF R_quiet [OF q] emitGrant_R [OF zs that]])
  then show ?thesis
    using assms(4) True n R_quiet [OF q] decideCandidate_clears [of s fed c b]
    by (auto simp: tryCandidateGrant_def Let_def split: option.splits if_splits)
qed

lemma tryCandidates_R:
  assumes "tryCandidates E fed b cs s = (p, r, s')" "safe s" "lbts_ok s fed b" "\<forall>c\<in>set cs. fresh s fed c" "distinct (map cHandle cs)"
  shows "R fed s s'"
  using assms
proof (induction cs arbitrary: s)
  case (Cons c cs)
  obtain q e t where t: "tryCandidateGrant E fed c (decideCandidateGrant s fed c b) s = (q, e, t)"
    by (cases "tryCandidateGrant E fed c (decideCandidateGrant s fed c b) s")
  have f: "fresh s fed c" using Cons.prems(4) by simp
  note S = tryCandidate_safe [OF Cons.prems(2,3) f t] and F = tryCandidate_R [OF Cons.prems(2,3) f t]
  show ?case
  proof (cases "\<not> q \<and> e = None")
    case True
    then have fr: "frame fed (cHandle c) s t" using S by (simp add: quiet_def)
    have "\<forall>c'\<in>set cs. fresh t fed c'" by (rule frame_fresh [OF fr Cons.prems(4,5)])
    moreover have "tryCandidates E fed b cs t = (p, r, s')" using Cons.prems(1) t True by simp
    ultimately have "R fed t s'" using Cons.IH S lbts_ok_frame [OF fr Cons.prems(3)] Cons.prems(5) by auto
    then show ?thesis by (rule R_trans [OF F])
  next
    case False
    then show ?thesis using Cons.prems(1) t F by (cases e) auto
  qed
qed simp

lemma evaluatorPass_R:
  assumes "evaluatorPass E fed s = (p, r, s')" "safe s"
  shows "R fed s s'"
proof -
  obtain x t where t: "completePendingEnables E fed s = (x, t)" by (cases "completePendingEnables E fed s")
  obtain y u where u: "flushPendingMessages E fed t = (y, u)" by (cases "flushPendingMessages E fed t")
  have st: "safe t" "R fed s t"
    using t assms(2) by (auto simp: completePendingEnables_def split: if_splits dest: completeEnables_safe completeEnables_R)
  have su: "safe u" "R fed t u"
    using u st by (auto simp: flushPendingMessages_def split: if_splits option.splits dest: flushAll_safe flushAll_R)
  have "R fed u s'" if "tryCandidates E fed (LBTSBound (regulatingSnapshot u fed)) (sort_key cHandle (pendingGrantCandidates u fed)) u = (p, r, s')"
    by (rule tryCandidates_R [OF that su(1) lbts_ok_snapshot _ candidates_distinct]) (use su candidates_fresh in \<open>auto simp: safe_def\<close>)
  then show ?thesis
    using assms(1) t u st su R_trans [OF st(2) su(2)] R_trans [OF R_trans [OF st(2) su(2)], of s']
    by (auto simp: evaluatorPass_def Let_def split: option.splits)
qed

lemma grantLoop_R: "safe s \<Longrightarrow> R fed s (snd (grantLoop E fed s))"
proof (induction E fed s rule: grantLoop.induct)
  case (1 E fed s)
  obtain p r s' where p: "evaluatorPass E fed s = (p, r, s')" by (cases "evaluatorPass E fed s")
  note a = evaluatorPass_safe [OF p "1.prems"] evaluatorPass_R [OF p "1.prems"]
  show ?case
    using "1.IH" [OF p [symmetric]] p a R_trans [OF a(2)] by (subst grantLoop.simps) (auto split: option.splits)
qed

lemma R_mark: "R fed s u \<Longrightarrow> R fed s (markDeliveryRetry fed u)"
  by (rule R_view) simp_all

lemma tryGrantPending_R: "safe s \<Longrightarrow> tryGrantPending E fed s = (r, s') \<Longrightarrow> R fed s s'"
  using grantLoop_R [of s fed E] R_mark [of fed s]
  by (auto simp: tryGrantPending_def split: prod.splits option.splits if_splits)

end

text \<open>
  With the elementary updates of the services the relation is respected by the services too.
\<close>

locale service_relation = evaluator_relation +
  assumes R_putFs [simp]: "R fed s (putFs fed h f s)"
    and R_putNs: "currentTime n = currentTime (getOrCreateNs s fed h) \<Longrightarrow> R fed s (putNs fed h n s)"
    and R_filter: "(\<And>n. currentTime (g n) = currentTime n) \<Longrightarrow> g new_nerState = new_nerState \<Longrightarrow>
      R fed s (s\<lparr>ner := map_fed fed g (ner s)\<rparr>)"
    and R_shift: "R fed s ((tick s)\<lparr>ner := shiftPending fed p (ner s), scheduledSaves := x\<rparr>)"
begin

lemma R_env: "view s' = view s \<Longrightarrow> R fed s s'"
  using R_view R_refl by blast

lemma R_view_left: "view s' = view t \<Longrightarrow> R fed t u \<Longrightarrow> R fed s' u"
  using R_trans [OF R_env [OF sym]] by blast

lemma R_then_grant: "R fed s t \<Longrightarrow> safe t \<Longrightarrow> tryGrantPending E fed t = (r, s') \<Longrightarrow> R fed s s'"
  using R_trans tryGrantPending_R by blast

lemma R_snd: "(\<And>r s'. p = (r, s') \<Longrightarrow> R fed s s') \<Longrightarrow> R fed s (snd p)"
  by (cases p) simp

lemma requestEnable_R:
  assumes "safe s" "in_range la \<or> \<not> reg" "requestEnable E fed h reg la s = (r, s')"
  shows "R fed s s'"
proof (cases "isHalted s fed \<or> (reg \<and> \<not> validLookahead la) \<or> validateEnableRequest (getFs s fed h) (getNs s fed h) reg \<noteq> None")
  case True
  then show ?thesis using assms by (auto simp: requestEnable_def split: if_splits option.splits)
next
  case False
  let ?fs = "getOrCreateFs s fed h"
  let ?g = "if reg then ?fs\<lparr>regulationPending := True, regulationLookahead := la\<rparr> else ?fs\<lparr>constrainedPending := True\<rparr>"
  let ?t = "putNs fed h (getOrCreateNs s fed h) (putFs fed h ?g s)"
  have "\<not> pendingNER (getOrCreateNs s fed h)"
    using False by (auto simp: validateEnableRequest_def pending_goc split: if_splits)
  then have "safe (putFs fed h ?g s)"
    using safe_markPending [OF assms(1) _ _ refl, of fed h la reg] safe_markPending [OF assms(1) _ _ refl, of fed h 0 reg] assms(2) MaxTime_pos
    by (auto simp: in_range_def)
  moreover have v: "view ?t = view (putFs fed h ?g s)" by (simp add: view_def fun_eq_iff)
  ultimately have t: "safe ?t" using safe_view by blast
  have f: "R fed s ?t" using R_view [OF v] R_putFs by blast
  obtain x y where e: "tryGrantPending E fed ?t = (x, y)" by (cases "tryGrantPending E fed ?t")
  have "s' = y" using assms(3) False e by (auto simp: requestEnable_def Let_def split: option.splits time_error.splits)
  then show ?thesis using R_then_grant [OF f t e] by simp
qed

lemma DisableRegulation_R:
  assumes "safe s" "DisableRegulation E fed h s = (r, s')"
  shows "R fed s s'"
proof -
  obtain x t where t: "Time_Services.disableRegulation fed h s = (x, t)" by (cases "Time_Services.disableRegulation fed h s")
  have f: "R fed s t" using t by (auto simp: disableRegulation_def split: option.splits if_splits)
  show ?thesis
    using assms t f R_then_grant [OF f disableRegulation_safe [OF assms(1) t]]
    by (cases x) (auto simp: DisableRegulation_def split: if_splits)
qed

lemma ModifyLookahead_R:
  assumes "safe s" "la \<le> MaxTime" "ModifyLookahead E fed h la s = (r, s')"
  shows "R fed s s'"
proof (cases "getFs s fed h")
  case (Some f)
  then show ?thesis
    using assms(3) R_then_grant [OF R_putFs modifiedLookahead_safe [OF assms(1) Some]] assms(2)
    by (auto simp: ModifyLookahead_def pending_goc validLookahead_def in_range_def split: if_splits)
qed (use assms in \<open>auto simp: ModifyLookahead_def split: if_splits\<close>)

lemma DisableConstrained_R:
  assumes "safe s" "DisableConstrained E fed h s = (r, s')"
  shows "R fed s s'"
proof -
  obtain x t where t: "Time_Services.disableConstrained fed h s = (x, t)" by (cases "Time_Services.disableConstrained fed h s")
  note st = disableConstrained_safe [OF assms(1) t]
  have f: "R fed s t" using t by (auto simp: disableConstrained_def split: option.splits if_splits)
  obtain y u where u: "drainAllBufferedTSO E fed h t = (y, u)" by (cases "drainAllBufferedTSO E fed h t")
  have q: "quiet fed h t u" by (rule quiet_drainAllTSO [OF u])
  have su: "safe u" by (rule quiet_safe [OF q st(1)])
  have fu: "R fed s u" by (rule R_trans [OF f R_quiet [OF q]])
  have sm: "safe (markDeliveryRetry fed u)" "R fed s (markDeliveryRetry fed u)"
    using su safe_view [OF view_simps(6)] fu R_view [OF view_simps(6)] by blast+
  have g: "R fed s (snd (ignoreOverflow (tryGrantPending E fed v)))" if "safe v" "R fed s v" for v
    using R_then_grant [OF that(2,1)] by (metis ignoreOverflow_snd prod.collapse)
  have s': "s' = snd (DisableConstrained E fed h s)" using assms(2) by simp
  show ?thesis
    unfolding s' DisableConstrained_def Let_def t u
    using f g [OF su fu] g [OF sm] R_trans [OF fu R_putFs] by (auto simp: t u split: if_splits option.splits time_error.splits)
qed

lemma EnableAsync_R:
  assumes "safe s" "EnableAsynchronousDelivery E fed h s = (r, s')"
  shows "R fed s s'"
proof -
  let ?t = "putNs fed h ((getOrCreateNs s fed h)\<lparr>asyncDelivery := True\<rparr>) s"
  obtain x u where u: "drainBufferedRO E fed h ?t = (x, u)" by (cases "drainBufferedRO E fed h ?t")
  have fu: "R fed s u" by (rule R_trans [OF R_putNs R_quiet [OF quiet_drainRO [OF u]]]) simp
  have fm: "R fed s (markDeliveryRetry fed u)" using fu R_view [OF view_simps(6)] by blast
  have fp: "R fed u (putNs fed h ((getOrCreateNs u fed h)\<lparr>asyncDelivery := False\<rparr>) u)" by (rule R_putNs) simp
  have fs: "R fed s (putNs fed h (getOrCreateNs s fed h) s)" by (rule R_putNs) simp
  have s': "s' = snd (EnableAsynchronousDelivery E fed h s)" using assms(2) by simp
  show ?thesis
    unfolding s' EnableAsynchronousDelivery_def Let_def
    using fu fm fs R_trans [OF fu fp] by (auto simp: u split: if_splits option.splits time_error.splits)
qed

lemma DisableAsync_R: "DisableAsynchronousDelivery fed h s = (r, s') \<Longrightarrow> R fed s s'"
  by (auto simp: DisableAsynchronousDelivery_def Let_def intro: R_putNs split: if_splits)

lemma recordAdvance_R:
  assumes "recordAdvance E fed h t m s = (r, s')"
  shows "R fed s s'"
proof -
  have k: "R fed s (putNs fed h (getOrCreateNs s fed h) s)" by (rule R_putNs) simp
  have n: "getOrCreateNs (tick s) = getOrCreateNs s" using viewD(2) [OF view_simps(1)] by blast
  have "R fed (tick s) (putNs fed h ((getOrCreateNs s fed h)\<lparr>pendingNER := True, requestedTime := t, mode := m,
      flushMinimum := None, pendingSince := x\<rparr>) (tick s))" for x
    by (rule R_putNs) (simp add: n)
  then have "R fed s (putNs fed h ((getOrCreateNs s fed h)\<lparr>pendingNER := True, requestedTime := t, mode := m,
      flushMinimum := None, pendingSince := x\<rparr>) (tick s))" for x
    using R_view_left [OF view_simps(1) [symmetric]] by blast
  then show ?thesis using assms k by (auto simp: recordAdvance_def Let_def split: if_splits option.splits)
qed

lemma dispatchAdvance_R:
  assumes "safe s" "t \<le> MaxTime" "dispatchAdvance E fed h t m s = (r, s')"
  shows "R fed s s'"
proof -
  obtain x u where u: "recordAdvance E fed h t m s = (x, u)" by (cases "recordAdvance E fed h t m s")
  note f = recordAdvance_R [OF u]
  show ?thesis
    using assms u f R_then_grant [OF f recordAdvance_safe [OF assms(1,2) u]] by (cases x) (auto simp: dispatchAdvance_def)
qed

lemma Commit_R:
  assumes "safe s" "\<forall>d\<in>set (buffered r). admissible s fed d"
  shows "R fed s (tsoReservation_Commit E fed r s)"
proof -
  obtain t p where t: "fold (bufferDelivery fed) (buffered r) (s, False) = (t, p)" by (cases "fold (bufferDelivery fed) (buffered r) (s, False)")
  have fold: "fold (bufferDelivery fed) ds (s, q) = (t, p) \<Longrightarrow> R fed s t" for ds s q t p
  proof (induction ds arbitrary: s q)
    case (Cons d ds)
    obtain v k where v: "bufferDelivery fed d (s, q) = (v, k)" by (cases "bufferDelivery fed d (s, q)")
    have "R fed s v" using v by (auto simp: bufferDelivery_def Let_def intro!: R_putNs split: if_splits)
    then show ?case using Cons v R_trans by auto
  qed simp
  let ?u = "recordRetraction fed (immediate r) t"
  have u: "safe ?u" "R fed s ?u"
    using fold_bufferDelivery_safe [OF assms t] safe_view [OF view_simps(3)] fold [OF t] R_view [OF view_simps(3)] by blast+
  then show ?thesis
    using R_then_grant [OF u(2,1), where r = "fst (tryGrantPending E fed ?u)"] by (simp add: tsoReservation_Commit_def t Let_def)
qed

lemma RetractWithCleanup_R:
  assumes "RetractWithCleanup E fed h ident cl s = (r, s')"
  shows "R fed s s'"
proof -
  let ?f = "\<lambda>ns. ns\<lparr>tsoBuffer := removeRetractedMessages (tsoBuffer ns) h ident, roBuffer := removeRetractedMessages (roBuffer ns) h ident\<rparr>"
  have n: "?f new_nerState = new_nerState" by (simp add: new_nerState_def removeRetractedMessages_def)
  from RetractWithCleanup_cases [OF assms] show ?thesis
  proof (elim disjE conjE exE)
    fix t assume v: "view t = view s" and s': "s' = t\<lparr>ner := map_fed fed ?f (ner t), retractions := set_retracted fed h ident (retractions t)\<rparr>"
    have "R fed t (t\<lparr>ner := map_fed fed ?f (ner t)\<rparr>)" by (rule R_filter) (simp, rule n)
    then show ?thesis unfolding s' using R_view [OF view_retractions] R_view_left [OF v [symmetric]] by blast
  qed (rule R_env)
qed

lemma deliverAllThrough_R: "deliverAllThrough E fed t hs s = (r, s') \<Longrightarrow> R fed s s'"
proof (induction hs arbitrary: s)
  case (Cons h hs)
  obtain x u where u: "deliverThrough E fed t h s = (x, u)" by (cases "deliverThrough E fed t h s")
  have f: "R fed s u" by (rule R_quiet [OF quiet_deliverThrough [OF u]])
  show ?case using Cons u f R_trans [OF f] by (cases x) auto
qed simp

lemma deliverUnpaused_R: "deliverUnpaused E fed t hs s = (r, s') \<Longrightarrow> R fed s s'"
proof (induction hs arbitrary: s)
  case (Cons h hs)
  obtain x u where u: "deliverThrough E fed t h s = (x, u)" by (cases "deliverThrough E fed t h s")
  have f: "R fed s u" by (rule R_quiet [OF quiet_deliverThrough [OF u]])
  show ?case using Cons u f R_trans [OF f] by (cases x) (auto split: if_splits)
qed simp

lemma drainRecipients_R: "drainRecipients E fed hs s = (r, s') \<Longrightarrow> R fed s s'"
proof (induction hs arbitrary: s)
  case (Cons h hs)
  obtain x t where t: "drainBufferedRO E fed h s = (x, t)" by (cases "drainBufferedRO E fed h s")
  obtain y u where u: "drainAllBufferedTSO E fed h t = (y, u)" by (cases "drainAllBufferedTSO E fed h t")
  have f: "R fed s t" "R fed s u"
    using R_quiet [OF quiet_drainRO [OF t]] R_trans [OF _ R_quiet [OF quiet_drainAllTSO [OF u]]] by blast+
  show ?case using Cons t u f R_trans [OF f(2)] by (cases x; cases y) auto
qed simp

lemma scheduledSaveReady_R:
  assumes "safe s" "scheduledSaveReady E fed b s = (r, s')"
  shows "R fed s s'"
proof -
  obtain x t where t: "tryGrantPending E fed s = (x, t)" by (cases "tryGrantPending E fed s")
  obtain y u where u: "deliverAllThrough E fed (target b) (sort (map fst (modes b))) t = (y, u)"
    by (cases "deliverAllThrough E fed (target b) (sort (map fst (modes b))) t")
  have f: "R fed s t" by (rule tryGrantPending_R [OF assms(1) t])
  have fu: "R fed s u" by (rule R_trans [OF f deliverAllThrough_R [OF u]])
  have "R fed s (update_barrier fed g (tick u))" for g using fu R_view [of "update_barrier fed g (tick u)" u] by simp
  then show ?thesis
    using assms(2) f fu unfolding scheduledSaveReady_def t u by (auto simp: u split: option.splits if_splits sum.splits)
qed

lemma reservation_Ready_R:
  assumes "safe s" "reservation_Ready E fed rv s = (r, s')"
  shows "R fed s s'"
proof -
  obtain x t where t: "tryGrantPending E fed s = (x, t)" by (cases "tryGrantPending E fed s")
  have f: "R fed s t" by (rule tryGrantPending_R [OF assms(1) t])
  have d: "R fed s u" if "deliverUnpaused E fed (target (prBarrier rv)) hs t = (y, u)" for hs y u
    by (rule R_trans [OF f deliverUnpaused_R [OF that]])
  show ?thesis
    using assms(2) f d unfolding reservation_Ready_def t by (auto split: option.splits if_splits sum.splits prod.splits)
qed

lemma ResumeScheduledSave_R:
  assumes "safe s" "ResumeScheduledSave E fed s = (r, s')"
  shows "R fed s s'"
proof -
  obtain x t where t: "drainRecipients E fed (queuedRecipients s fed) s = (x, t)" by (cases "drainRecipients E fed (queuedRecipients s fed) s")
  obtain y u where u: "tryGrantPending E fed t = (y, u)" by (cases "tryGrantPending E fed t")
  have f: "R fed s t" by (rule drainRecipients_R [OF t])
  have fu: "R fed s u" by (rule R_then_grant [OF f drainRecipients_safe [OF t assms(1)] u])
  show ?thesis
    using assms(2) f fu unfolding ResumeScheduledSave_def t by (cases x; cases y) (auto simp: u R_mark split: if_splits)
qed

lemma RetryPendingDeliveries_R:
  assumes "safe s" "RetryPendingDeliveries E fed s = (r, s')"
  shows "R fed s s'"
proof -
  let ?t = "s\<lparr>deliveryRetries := filter (\<lambda>f. f \<noteq> fed) (deliveryRetries s)\<rparr>"
  obtain x u where u: "ResumeScheduledSave E fed ?t = (x, u)" by (cases "ResumeScheduledSave E fed ?t")
  have "safe ?t" using assms(1) safe_view [OF view_saves(2)] by blast
  from ResumeScheduledSave_R [OF this u] have "R fed s u" using R_view_left [OF view_saves(2) [symmetric]] by blast
  then show ?thesis
    using assms(2) unfolding RetryPendingDeliveries_def u by (cases x) (auto simp: R_mark split: if_splits)
qed

lemma EnableRegulation_R:
  assumes "safe s" "la \<le> MaxTime"
  shows "R fed s (snd (EnableRegulation E fed h la s))"
proof (cases "validLookahead la")
  case True
  then have "in_range la" using assms(2) by (simp add: in_range_def validLookahead_def)
  then show ?thesis unfolding EnableRegulation_def using requestEnable_R [OF assms(1)] by (intro R_snd) blast
next
  case False
  then show ?thesis by (simp add: EnableRegulation_def requestEnable_def)
qed

lemma checkStalls_R: "R fed s (snd (checkStalls E s))"
  by (rule R_env) (simp add: checkStalls_def Let_def view_haltStalled)

lemma BufferTSO_R:
  assumes "safe s" "regulated_sends s fed [timedMessage h ts evt p rh]" "ts \<le> MaxTime"
    and "BufferTSOWithRetraction E fed h ts evt p rh s = (e, s')"
  shows "R fed s s'"
  using assms(4)
proof (cases rule: BufferTSO_cases)
  case 1
  then show ?thesis by (rule R_env)
next
  case (2 t)
  have "\<forall>d\<in>set (buffered (reserveTSO s fed [timedMessage h ts evt p rh] False)). admissible t fed d"
    using regulated_admissible [OF assms(1,2), of False] assms(3) admissible_view [OF 2(1)] by (simp add: timedMessage_def)
  then show ?thesis using Commit_R [OF safe_same_view [OF 2(1) assms(1)]] R_trans [OF R_env [OF 2(1)]] 2(2) by blast
qed

lemma R_some: "(\<And>r s'. p = (r, s') \<Longrightarrow> R fed s s') \<Longrightarrow> R fed s (snd p) \<or> Q"
  using R_snd by blast

lemma R_retractions: "R fed s (s\<lparr>retractions := x\<rparr>) \<or> Q"
  by (rule disjI1) (rule R_env, simp)

lemma step_R: "step regulated_sends fed s s' \<Longrightarrow> safe s \<Longrightarrow> R fed s s' \<or> removes fed s s'"
proof (induction rule: step.induct)
  case (timestamped s fed ds h ts r E)
  then show ?case by (intro disjI1 Commit_R regulated_outgoing) auto
next
  case (reserved s fed ds E)
  then show ?case unfolding ReserveTSO_def by (intro disjI1 Commit_R regulated_admissible) auto
next
  case (bufferTSO s fed h ts evt p rh E)
  then show ?case by (intro R_some) (rule BufferTSO_R)
next
  case (enableRegulation la fed s E h)
  then show ?case using EnableRegulation_R by blast
next
  case (enableConstrained fed s E h)
  then have "R fed s (snd (EnableConstrained E fed h s))" unfolding EnableConstrained_def using requestEnable_R by (intro R_snd) blast
  then show ?case by blast
next
  case (retractQueued fed s h ident)
  have "R fed s (s\<lparr>ner := map_fed fed (\<lambda>ns. ns\<lparr>tsoBuffer := filter (\<lambda>b. \<not> matches h ident b) (tsoBuffer ns)\<rparr>) (ner s)\<rparr>)"
    by (rule R_filter) (simp_all add: new_nerState_def)
  then have "R fed s (snd (RetractMessage fed h ident s))" by (simp add: RetractMessage_def)
  then show ?case by blast
next
  case (discardDeletions fed s objects)
  have "R fed s (s\<lparr>ner := map_fed fed (\<lambda>ns. ns\<lparr>tsoBuffer := filter P (tsoBuffer ns)\<rparr>) (ner s)\<rparr>)" for P
    by (rule R_filter) (simp_all add: new_nerState_def)
  then have "R fed s (DiscardObjectDeletions fed objects s)" by (simp add: DiscardObjectDeletions_def)
  then show ?case by blast
next
  case (stalls fed s E)
  then show ?case using checkStalls_R by blast
next
  case (releaseSave fed s E b)
  have "R fed s (s\<lparr>scheduledSaves := x\<rparr>)" for x by (rule R_env) simp
  then have "R fed s (releaseScheduledSave E fed b s)" using R_shift by (simp add: releaseScheduledSave_def split: option.split)
  then show ?case by blast
next
  case (endSave fed s E rv)
  have "R fed s (snd (reservation_Release E fed rv s))"
    using R_shift by (simp add: reservation_Release_def split: option.split reservation_state.split)
  then show ?case by blast
next
  case (resign fed s E h)
  then show ?case by (auto simp: removes_def)
next
  case (destroy fed s)
  then show ?case by (simp add: removes_def)
next
  case (retract fed s E h ident)
  then show ?case unfolding RetractWithError_def by (intro R_some) (rule RetractWithCleanup_R)
next
  case (retractCleanup fed s E h ident cl)
  then show ?case by (intro R_some) (rule RetractWithCleanup_R)
next
  case (retractNotify fed s E h ident)
  then show ?case unfolding RetractMessageNotify_snd RetractWithError_def by (intro R_some) (rule RetractWithCleanup_R)
next
  case (recordRequest t fed s E h m)
  then show ?case by (intro R_some) (rule recordAdvance_R)
next
  case (disableRegulation fed s E h)
  then show ?case by (intro R_some) (rule DisableRegulation_R)
next
  case (modifyLookahead la fed s E h)
  then show ?case by (intro R_some) (rule ModifyLookahead_R)
next
  case (disableConstrained fed s E h)
  then show ?case by (intro R_some) (rule DisableConstrained_R)
next
  case (enableAsync fed s E h)
  then show ?case by (intro R_some) (rule EnableAsync_R)
next
  case (disableAsync fed s h)
  then show ?case by (intro R_some) (rule DisableAsync_R)
next
  case (nextMessageRequest t fed s E h)
  then show ?case unfolding NextMessageRequest_def by (intro R_some) (rule dispatchAdvance_R)
next
  case (nextMessageRequestAvailable t fed s E h)
  then show ?case unfolding NextMessageRequestAvailable_def by (intro R_some) (rule dispatchAdvance_R)
next
  case (timeAdvanceRequest t fed s E h)
  then show ?case unfolding TimeAdvanceRequest_def by (intro R_some) (rule dispatchAdvance_R)
next
  case (timeAdvanceRequestAvailable t fed s E h)
  then show ?case unfolding TimeAdvanceRequestAvailable_def by (intro R_some) (rule dispatchAdvance_R)
next
  case (flushQueueRequest t fed s E h)
  then show ?case unfolding FlushQueueRequest_def by (intro R_some) (rule dispatchAdvance_R)
next
  case (evaluate fed s E)
  then show ?case by (intro R_some) (rule tryGrantPending_R)
next
  case (reserveSave fed s tgt members)
  then show ?case by (intro R_some) (rule R_env [OF view_ReserveScheduledSave])
next
  case (saveReady fed s E b)
  then show ?case by (intro R_some) (rule scheduledSaveReady_R)
next
  case (resumeSave fed s E)
  then show ?case by (intro R_some) (rule ResumeScheduledSave_R)
next
  case (retryDeliveries fed s E)
  then show ?case by (intro R_some) (rule RetryPendingDeliveries_R)
next
  case (prepareSave fed s tgt members rep timed)
  then show ?case by (intro R_some) (rule R_env [OF view_prepareSaveBarrier])
next
  case (commitSave fed s E rv)
  then show ?case by (intro R_some) (rule R_env [OF view_reservation_Commit])
next
  case (pauseSave fed s E rv hs)
  then show ?case by (intro R_some) (rule R_env [OF view_reservation_Pause])
next
  case (readySave fed s E rv)
  then show ?case by (intro R_some) (rule reservation_Ready_R)
qed (rule R_retractions)+

end

section \<open>Logical time does not go back\<close>

definition forward :: "manager \<Rightarrow> manager \<Rightarrow> bool" where
  "forward s s' \<longleftrightarrow> (\<forall>fed h. currentTime (getOrCreateNs s fed h) \<le> currentTime (getOrCreateNs s' fed h))"

lemma forward_refl [simp]: "forward s s"
  by (simp add: forward_def)

lemma forward_trans: "forward s t \<Longrightarrow> forward t u \<Longrightarrow> forward s u"
  unfolding forward_def using order_trans by blast

lemma forward_view: "view s' = view t \<Longrightarrow> forward s s' = forward s t" "view s' = view t \<Longrightarrow> forward s' u = forward t u"
  by (simp_all add: forward_def view_def)

lemma quiet_forward: "quiet fed h s u \<Longrightarrow> forward s u"
  using quiet_same(1) by (simp add: forward_def)

lemma applyGrant_forward: "grant_ok s fed h t \<Longrightarrow> forward s (applyGrant fed h t True s)"
  by (auto simp: forward_def goc_applyGrant grant_ok_def Let_def)

lemma applyEnable_forward: "enable_ok s fed h reg t \<Longrightarrow> forward s (applyEnable fed h reg t s)"
  by (auto simp: forward_def applyEnable_def enable_ok_def Let_def getOrCreateNs_Some goc_putNs split: option.splits if_splits)

lemma forward_since: "\<lbrakk>\<And>f h. \<exists>x. getOrCreateNs u f h = (getOrCreateNs s f h)\<lparr>pendingSince := x\<rparr>\<rbrakk> \<Longrightarrow> forward s u"
  unfolding forward_def by (metis nerState.ext_inject nerState.surjective nerState.update_convs(5) order_refl)

lemma shift_since: "\<exists>y. getOrCreateNs ((tick s)\<lparr>ner := shiftPending fed p (ner s), scheduledSaves := x\<rparr>) f h =
    (getOrCreateNs s f h)\<lparr>pendingSince := y\<rparr>"
proof -
  have "\<exists>x. getOrCreateNs s f h = (getOrCreateNs s f h)\<lparr>pendingSince := x\<rparr>"
    by (rule exI [of _ "pendingSince (getOrCreateNs s f h)"]) simp
  then show ?thesis by (auto simp: getOrCreateNs_def getNs_def map_of_shiftPending split: option.splits)
qed

interpretation fwd: service_relation "\<lambda>_. forward"
proof
  show "view s' = view t \<Longrightarrow> forward s t \<Longrightarrow> forward s s'" for s s' t using forward_view(1) by blast
  show "(\<And>n. currentTime (g n) = currentTime n) \<Longrightarrow> g new_nerState = new_nerState \<Longrightarrow>
      forward s (s\<lparr>ner := map_fed fed g (ner s)\<rparr>)" for g s fed
    by (simp add: forward_def goc_map_fed [where f = g])
  show "forward s ((tick s)\<lparr>ner := shiftPending fed p (ner s), scheduledSaves := x\<rparr>)" for s fed p x
    by (rule forward_since) (rule shift_since)
qed (auto simp: goc_putNs forward_def [of s "putNs _ _ _ s" for s] forward_def [of s "putFs _ _ _ s" for s]
    intro: forward_trans quiet_forward applyGrant_forward applyEnable_forward)

lemma resign_others:
  assumes "safe s" "fed' \<noteq> fed \<or> h' \<noteq> h"
  shows "currentTime (getOrCreateNs s fed' h') \<le> currentTime (getOrCreateNs (OnFederateResign E fed h s) fed' h')"
proof -
  let ?t = "s\<lparr>ner := del (fed, h) (ner s), states := del (fed, h) (states s), retractions := ForgetRetractionRecipient fed h (retractions s)\<rparr>"
  have t: "safe ?t" by (rule safe_restrict [OF assms(1)]) (auto simp: getFs_def getOrCreateNs_def getNs_def)
  have "getOrCreateNs ?t fed' h' = getOrCreateNs s fed' h'" using assms(2) by (auto simp: getOrCreateNs_def getNs_def)
  moreover have "forward ?t (OnFederateResign E fed h s)"
    using fwd.tryGrantPending_R [OF t, of E fed] by (simp add: OnFederateResign_def Let_def prod_eq_iff)
  ultimately show ?thesis by (metis forward_def)
qed

definition leaves :: "manager \<Rightarrow> fed_name \<Rightarrow> handle \<Rightarrow> manager \<Rightarrow> bool" where
  "leaves s fed h s' \<longleftrightarrow> s' = OnFederationDestroyed fed s \<or> (\<exists>E. s' = OnFederateResign E fed h s)"

lemma step_forward:
  assumes "step regulated_sends fed' s s'" "safe s"
  shows "leaves s fed h s' \<or> currentTime (getOrCreateNs s fed h) \<le> currentTime (getOrCreateNs s' fed h)"
  using fwd.step_R [OF assms] unfolding removes_def
proof (elim disjE exE)
  fix E h' assume s': "s' = OnFederateResign E fed' h' s"
  then show ?thesis using resign_others [OF assms(2), of fed fed' h h' E] by (cases "fed = fed' \<and> h = h'") (auto simp: leaves_def)
next
  assume s': "s' = OnFederationDestroyed fed' s"
  then show ?thesis
    by (cases "fed = fed'") (auto simp: leaves_def OnFederationDestroyed_def getOrCreateNs_def getNs_def map_of_drop_fed)
qed (simp add: forward_def)

text \<open>
  C3. Logical time never goes back: in a run with \<open>regulated_sends\<close>, a call for whatever federation
  lowers the logical time a federate reports only when the call is the federate's resignation or
  the destruction of its federation.
\<close>

theorem logical_time_never_goes_back:
  assumes "reachable regulated_sends s" and "step regulated_sends fed' s s'" and "mCurrentTime (Metrics s' fed h) < mCurrentTime (Metrics s fed h)"
  shows "s' = OnFederationDestroyed fed s \<or> (\<exists>E. s' = OnFederateResign E fed h s)"
  using step_forward [OF assms(2) reachable_safe [OF assms(1)], of fed h] assms(3) by (auto simp: leaves_def)

definition back_after_resign :: "manager \<Rightarrow> bool" where
  "back_after_resign s \<longleftrightarrow> mCurrentTime (Metrics (OnFederateResign calmEnv ''F'' 2 s) ''F'' 2) < mCurrentTime (Metrics s ''F'' 2)"

theorem logical_time_never_goes_back_witness:
  "back_after_resign run1 \<and> (OnFederateResign calmEnv ''F'' 2 run1 = OnFederationDestroyed ''F'' run1 \<or>
     (\<exists>E. OnFederateResign calmEnv ''F'' 2 run1 = OnFederateResign E ''F'' 2 run1))"
proof -
  have b: "back_after_resign run1" by code_simp
  then show ?thesis
    using logical_time_never_goes_back [OF run1_reachable resign, of calmEnv "''F''" 2 "''F''" 2]
    by (simp only: back_after_resign_def simp_thms)
qed

section \<open>Federations are isolated\<close>

definition isolated :: "fed_name \<Rightarrow> manager \<Rightarrow> manager \<Rightarrow> bool" where
  "isolated fed s s' \<longleftrightarrow> (\<forall>fed' h. fed' \<noteq> fed \<longrightarrow> getFs s' fed' h = getFs s fed' h \<and> getOrCreateNs s' fed' h = getOrCreateNs s fed' h)"

lemma isolated_trans: "isolated fed s t \<Longrightarrow> isolated fed t u \<Longrightarrow> isolated fed s u"
  by (simp add: isolated_def)

interpretation iso: service_relation isolated
proof
  show "view s' = view t \<Longrightarrow> isolated fed s t \<Longrightarrow> isolated fed s s'" for s s' t fed by (simp add: isolated_def view_def)
  show "quiet fed h s u \<Longrightarrow> isolated fed s u" for fed h s u
    using frame_goc_other [of fed h s u] by (auto simp: isolated_def quiet_def frame_def)
  show "isolated fed s (applyGrant fed h tm True s)" for s fed h tm by (simp add: isolated_def getFs_applyGrant goc_applyGrant)
  show "isolated fed s (applyEnable fed h reg tm s)" for s fed h reg tm
    by (auto simp: isolated_def applyEnable_def split: option.splits)
  show "(\<And>n. currentTime (g n) = currentTime n) \<Longrightarrow> g new_nerState = new_nerState \<Longrightarrow>
      isolated fed s (s\<lparr>ner := map_fed fed g (ner s)\<rparr>)" for g s fed
    by (simp add: isolated_def goc_map_fed [where f = g])
  show "isolated fed s ((tick s)\<lparr>ner := shiftPending fed p (ner s), scheduledSaves := x\<rparr>)" for s fed p x
    by (simp add: isolated_def getFs_def tick_def getOrCreateNs_def getNs_def map_of_shiftPending option.map_ident)
qed (auto simp: isolated_def)

lemma resign_isolated:
  assumes "safe s"
  shows "isolated fed s (OnFederateResign E fed h s)"
proof -
  let ?t = "s\<lparr>ner := del (fed, h) (ner s), states := del (fed, h) (states s), retractions := ForgetRetractionRecipient fed h (retractions s)\<rparr>"
  have t: "safe ?t" by (rule safe_restrict [OF assms]) (auto simp: getFs_def getOrCreateNs_def getNs_def)
  have "isolated fed s ?t" by (simp add: isolated_def getFs_def getOrCreateNs_def getNs_def)
  from iso.R_then_grant [OF this t, of E "fst (tryGrantPending E fed ?t)"] show ?thesis
    by (simp add: OnFederateResign_def Let_def)
qed

lemma destroy_isolated: "isolated fed s (OnFederationDestroyed fed s)"
  by (simp add: isolated_def OnFederationDestroyed_def getFs_def getOrCreateNs_def getNs_def map_of_drop_fed)

text \<open>
  C14. Federations are isolated: in a run with \<open>regulated_sends\<close>, a call for one federation leaves the
  time records and message queues of every other federation as they were.
\<close>

theorem federations_are_isolated:
  assumes "reachable regulated_sends s" and "step regulated_sends fed s s'" and "fed' \<noteq> fed"
  shows "getFs s' fed' h = getFs s fed' h \<and> getOrCreateNs s' fed' h = getOrCreateNs s fed' h"
proof -
  note safe = reachable_safe [OF assms(1)]
  have "isolated fed s s'"
    using iso.step_R [OF assms(2) safe] resign_isolated [OF safe] destroy_isolated by (auto simp: removes_def)
  then show ?thesis using assms(3) by (simp add: isolated_def)
qed

theorem federations_are_isolated_witness:
  "getFs (OnFederateResign calmEnv ''G'' 2 run1) ''F'' 2 = getFs run1 ''F'' 2 \<and>
   getOrCreateNs (OnFederateResign calmEnv ''G'' 2 run1) ''F'' 2 = getOrCreateNs run1 ''F'' 2"
  by (rule federations_are_isolated [OF run1_reachable resign]) simp

end
