(* ===== verification/Time_Order.thy ===== *)
theory Time_Order
  imports Time_Conserve
begin

text \<open>
  The order in which queued timestamped messages are released: by timestamp, and at equal
  timestamps the reflections of an object before its deletion.
\<close>

section \<open>Ties of one object\<close>













section \<open>The released sequence\<close>



lemma length_orderReflection [simp]: "length (orderReflectionDeletionTies bs) = length bs"
  using arg_cong [OF mset_orderReflection, of size bs] by simp




lemma stamp_objects [simp]:
  "reflectionObject (b\<lparr>bevent := setReceivedOrder ord (bevent b)\<rparr>) = reflectionObject b"
  "deletionObject (b\<lparr>bevent := setReceivedOrder ord (bevent b)\<rparr>) = deletionObject b"
  by (auto simp: reflectionObject_def deletionObject_def setReceivedOrder_def split: event.split)







end
