(* ===== verification/Time_Queries.thy ===== *)
theory Time_Queries
  imports Time_Forward Time_Order
begin

text \<open>
  What the queries of the time manager promise in reachable states: LBTS and GALT are bounds on
  what can still be sent, times stay in the int64 range, requests are rejected for the right
  reasons, and the grant evaluator needs a bounded number of passes.
\<close>

section \<open>Bounds\<close>

lemma validate_floor:
  assumes "reachable regulated_sends s" "getFs s fed h = Some fs" "regulating fs" "in_range ts"
  shows "ValidateOutgoingTSO s fed h ts = None \<longleftrightarrow> send_floor fs (Some (getOrCreateNs s fed h)) \<le> ts"
proof -
  have w: "mgr_wf s" using reachable_safe [OF assms(1)] by (simp add: safe_def)
  have pw: "pair_wf fs (getNs s fed h)" using regulators_wf [OF w, of fed] assms(2,3) by (fastforce simp: mem_regulators)
  have "ValidateOutgoingTSO s fed h ts = None \<longleftrightarrow> tso_admissible fs (getNs s fed h) ts"
    using assms by (auto simp: ValidateOutgoingTSO_def tso_admissible_def in_range_def Let_def split: prod.splits)
  then show ?thesis using tso_admissible_iff [OF pw assms(4)] snapshot_get(2) [OF w assms(2), of 0] MaxTime_pos by simp
qed

lemma validate_range: "ValidateOutgoingTSO s fed h ts = None \<Longrightarrow> ts \<le> MaxTime \<Longrightarrow> in_range ts"
  by (auto simp: ValidateOutgoingTSO_def in_range_def split: if_splits)

lemma GALT_query: "QueryGALTBound s fed h = map_option (\<lambda>b. \<lparr>Limit = horizonScalar b, Unbounded = Unbounded b\<rparr>) (availableHorizonOf s fed h)"
  by (auto simp: QueryGALTBound_def Metrics_def Let_def split: option.splits)

text \<open>
  C4. GALT is safe.  In every state of a run with \<open>regulated_sends\<close>, when another federate of the federation
  regulates and may send a message with some timestamp, the GALT that a federate queries is
  defined, is bounded, and is at most that timestamp.
\<close>

theorem GALT_below_every_send:
  assumes "reachable regulated_sends s" and "mRegulating (Metrics s fed h)" and "h \<noteq> p" and "ts \<le> MaxTime"
    and "ValidateOutgoingTSO s fed h ts = None"
  shows "\<exists>b. QueryGALTBound s fed p = Some b \<and> \<not> Unbounded b \<and> Limit b \<le> ts"
proof -
  have w: "mgr_wf s" using reachable_safe [OF assms(1)] by (simp add: safe_def)
  obtain fs where f: "getFs s fed h = Some fs" "regulating fs" using assms(2) by auto
  have ts: "in_range ts" by (rule validate_range [OF assms(5,4)])
  have fl: "send_floor fs (Some (getOrCreateNs s fed h)) \<le> ts" using validate_floor [OF assms(1) f ts] assms(5) by simp
  obtain b where b: "availableHorizonOf s fed p = Some b"
    using GALT_None [OF w _ f, of p] assms(3) by (cases "availableHorizonOf s fed p") auto
  note g = GALT_bounds(1,2) [OF w b]
  have "floor_ok fs (getOrCreateNs s fed h) (bval b)" by (rule g(2) [OF f assms(3)]) simp
  then have "bval b \<le> ts" using fl by (simp add: floor_ok_def)
  moreover from this have "\<not> Unbounded b" using ts by (auto simp: bval_def in_range_def)
  ultimately show ?thesis using b by (auto simp: GALT_query bval_def horizonScalar_def)
qed

definition galt_case :: "manager \<Rightarrow> bool" where
  "galt_case s \<longleftrightarrow> mRegulating (Metrics s ''F'' 4) \<and> ValidateOutgoingTSO s ''F'' 4 9 = None"

theorem GALT_below_every_send_witness:
  "galt_case run1 \<and> (\<exists>b. QueryGALTBound run1 ''F'' 2 = Some b \<and> \<not> Unbounded b \<and> Limit b \<le> 9)"
proof -
  have g: "galt_case run1" by code_simp
  then show ?thesis
    using GALT_below_every_send [OF run1_reachable, of "''F''" 4 2 9] by (auto simp: galt_case_def MaxTime_def simp del: Metrics_simps)
qed

lemma mem_regulatingSnapshot:
  "rf \<in> set (regulatingSnapshot s fed) \<longleftrightarrow>
     (\<exists>h fs. getFs s fed h = Some fs \<and> regulating fs \<and> rf = regulatingBoundSnapshot h fs (getNs s fed h))"
proof
  assume "rf \<in> set (regulatingSnapshot s fed)"
  then obtain h fs ns where "(h, fs, ns) \<in> set (regulators s fed)" "rf = regulatingBoundSnapshot h fs ns"
    by (auto simp: regulatingSnapshot_def)
  then show "\<exists>h fs. getFs s fed h = Some fs \<and> regulating fs \<and> rf = regulatingBoundSnapshot h fs (getNs s fed h)"
    unfolding mem_regulators by blast
next
  assume "\<exists>h fs. getFs s fed h = Some fs \<and> regulating fs \<and> rf = regulatingBoundSnapshot h fs (getNs s fed h)"
  then obtain h fs where "(h, fs, getNs s fed h) \<in> set (regulators s fed)" "rf = regulatingBoundSnapshot h fs (getNs s fed h)"
    unfolding mem_regulators by blast
  then show "rf \<in> set (regulatingSnapshot s fed)" by (force simp: regulatingSnapshot_def)
qed

lemma regulator_contribution:
  assumes "mgr_wf s" "getFs s fed h = Some fs" "regulating fs"
  shows "rf_wf (regulatingBoundSnapshot h fs (getNs s fed h))"
    "contribution (regulatingBoundSnapshot h fs (getNs s fed h)) = min (send_floor fs (Some (getOrCreateNs s fed h))) (MaxTime + 1)"
proof -
  have "pair_wf fs (getNs s fed h)" using regulators_wf [OF assms(1), of fed] assms(2,3) by (fastforce simp: mem_regulators)
  then show "rf_wf (regulatingBoundSnapshot h fs (getNs s fed h))"
    "contribution (regulatingBoundSnapshot h fs (getNs s fed h)) = min (send_floor fs (Some (getOrCreateNs s fed h))) (MaxTime + 1)"
    using regulatingBoundSnapshot_wf [of fs "getNs s fed h" h] snapshot_get(2) [OF assms(1,2), of 0] MaxTime_pos by simp_all
qed

text \<open>
  C5. LBTS is exact.  In every state of a run with \<open>regulated_sends\<close> the LBTS bound the evaluator uses is the least
  timestamp that some regulating federate of the federation may still send: no admitted
  timestamp is below it, and when it is bounded some regulating federate may send with it.
\<close>

theorem LBTS_is_least_send:
  assumes "reachable regulated_sends s" and "b = LBTSBound (regulatingSnapshot s fed)"
  shows "(\<forall>h ts. mRegulating (Metrics s fed h) \<and> ts \<le> MaxTime \<and> ValidateOutgoingTSO s fed h ts = None \<longrightarrow> \<not> Unbounded b \<and> Limit b \<le> ts) \<and>
    (\<not> Unbounded b \<longrightarrow> (\<exists>h. mRegulating (Metrics s fed h) \<and> ValidateOutgoingTSO s fed h (Limit b) = None))"
proof -
  let ?rs = "regulatingSnapshot s fed"
  have w: "mgr_wf s" using reachable_safe [OF assms(1)] by (simp add: safe_def)
  note c = regulator_contribution [OF w] and m = mem_regulatingSnapshot [of _ s fed]
  have wf: "\<forall>rf\<in>set ?rs. rf_wf rf" using c(1) by (auto simp: m)
  have bv: "bval b = Min (insert (MaxTime + 1) (contribution ` set ?rs))" and bw: "bound_wf b"
    using bval_LBTSBound [OF wf] LBTSBound_wf [OF wf] assms(2) by simp_all
  have A: "\<not> Unbounded b \<and> Limit b \<le> ts"
    if h: "mRegulating (Metrics s fed h)" "ts \<le> MaxTime" "ValidateOutgoingTSO s fed h ts = None" for h ts
  proof -
    obtain fs where f: "getFs s fed h = Some fs" "regulating fs" using h(1) by auto
    have "contribution (regulatingBoundSnapshot h fs (getNs s fed h)) \<le> ts"
      using c(2) [OF f] validate_floor [OF assms(1) f validate_range [OF h(3,2)]] h(3) by simp
    moreover have "regulatingBoundSnapshot h fs (getNs s fed h) \<in> set ?rs" using m f by blast
    ultimately have "bval b \<le> ts" unfolding bv by (meson Min_le finite_imageI finite_insert finite_set image_eqI insertI2 order_trans)
    then show ?thesis using h(2) by (auto simp: bval_def split: if_splits)
  qed
  have B: "\<exists>h. mRegulating (Metrics s fed h) \<and> ValidateOutgoingTSO s fed h (Limit b) = None" if "\<not> Unbounded b"
  proof -
    have bl: "bval b = Limit b" "in_range (Limit b)" using that bw by (auto simp: bval_def bound_wf_def)
    have "bval b \<in> insert (MaxTime + 1) (contribution ` set ?rs)" unfolding bv by (rule Min_in) auto
    then obtain rf where rf: "rf \<in> set ?rs" "contribution rf = Limit b" using bl by (auto simp: in_range_def)
    obtain h fs where f: "getFs s fed h = Some fs" "regulating fs" "contribution (regulatingBoundSnapshot h fs (getNs s fed h)) = Limit b"
      using rf(1) [unfolded m] rf(2) by auto
    then have "send_floor fs (Some (getOrCreateNs s fed h)) \<le> Limit b" using c(2) [OF f(1,2)] bl(2) by (auto simp: in_range_def min_def split: if_splits)
    then show ?thesis using validate_floor [OF assms(1) f(1,2) bl(2)] f by auto
  qed
  show ?thesis using A B by blast
qed

definition bounded_lbts :: "manager \<Rightarrow> bool" where
  "bounded_lbts s \<longleftrightarrow> \<not> Unbounded (LBTSBound (regulatingSnapshot s ''F''))"

theorem LBTS_is_least_send_witness:
  "bounded_lbts run1 \<and> (\<exists>h. mRegulating (Metrics run1 ''F'' h) \<and>
     ValidateOutgoingTSO run1 ''F'' h (Limit (LBTSBound (regulatingSnapshot run1 ''F''))) = None)"
proof -
  have b: "bounded_lbts run1" by code_simp
  show ?thesis
    using LBTS_is_least_send [OF run1_reachable refl, of "''F''"] b unfolding bounded_lbts_def by blast
qed

text \<open>
  C22. No overflow.  In every state of a run with \<open>regulated_sends\<close> every logical time and lookahead the manager
  reports is a non-negative int64 value, and a pending request lies between the federate's
  time and the largest time.
\<close>

theorem times_in_range:
  assumes "reachable regulated_sends s"
  shows "0 \<le> mCurrentTime (Metrics s fed h) \<and> mCurrentTime (Metrics s fed h) \<le> MaxTime \<and>
    (\<forall>l. mLookahead (Metrics s fed h) = Some l \<longrightarrow> 0 \<le> l \<and> l \<le> MaxTime) \<and>
    (pendingNER (getOrCreateNs s fed h) \<longrightarrow>
       mCurrentTime (Metrics s fed h) \<le> requestedTime (getOrCreateNs s fed h) \<and> requestedTime (getOrCreateNs s fed h) \<le> MaxTime)"
proof -
  have w: "mgr_wf s" using reachable_safe [OF assms] by (simp add: safe_def)
  note n = mgr_wfD(1) [OF w, of fed h]
  have "mLookahead (Metrics s fed h) = Some l \<Longrightarrow> \<exists>fs. getFs s fed h = Some fs \<and> l = lookahead fs" for l
    by (auto simp: Metrics_def Let_def split: option.splits if_splits)
  then have "0 \<le> l \<and> l \<le> MaxTime" if "mLookahead (Metrics s fed h) = Some l" for l
    using that mgr_wfD(5) [OF w, of fed h] by (force simp: fs_wf_def in_range_def)
  then show ?thesis using n by (auto simp: ns_wf_def in_range_def)
qed

theorem times_in_range_witness:
  "0 \<le> mCurrentTime (Metrics run1 ''F'' 2) \<and> mCurrentTime (Metrics run1 ''F'' 2) \<le> MaxTime"
  using times_in_range [OF run1_reachable, of "''F''" 2] by blast

section \<open>Requests\<close>



section \<open>The evaluator's passes\<close>

fun grantPasses :: "nat \<Rightarrow> env \<Rightarrow> fed_name \<Rightarrow> manager \<Rightarrow> (time_error option \<times> manager) option" where
  "grantPasses 0 E fed s = None"
| "grantPasses (Suc n) E fed s =
     (case evaluatorPass E fed s of
        (progress, Some err, s') \<Rightarrow> Some (Some err, s')
      | (progress, None, s') \<Rightarrow> if progress then grantPasses n E fed s' else Some (None, s'))"

text \<open>
  C15. Termination of the grant evaluator.  Its loop needs at most one pass more than the number
  of pending requests and queued timestamped messages of the federation: run with that many
  passes it has returned, with the result of the loop.
\<close>

theorem grant_evaluator_terminates:
  "grantPasses (Suc (total_weight fed s)) E fed s = Some (grantLoop E fed s)"
proof -
  have "total_weight fed s < n \<Longrightarrow> grantPasses n E fed s = Some (grantLoop E fed s)" for n
  proof (induction n arbitrary: s)
    case (Suc n)
    obtain p r t where p: "evaluatorPass E fed s = (p, r, t)" by (cases "evaluatorPass E fed s")
    have "p \<Longrightarrow> r = None \<Longrightarrow> total_weight fed t < n" using evaluatorPass_less [of E fed s t] p Suc.prems by simp
    then show ?case using p Suc.IH [of t] by (subst grantLoop.simps) (auto split: option.splits)
  qed simp
  then show ?thesis by blast
qed

lemma evaluation_marks_retry:
  "tryGrantPending E fed s = (Some err, s') \<Longrightarrow> err \<noteq> ErrFederationHalted \<Longrightarrow> fed \<in> set (PendingDeliveryRetries s')"
  by (auto simp: tryGrantPending_def PendingDeliveryRetries_def markDeliveryRetry_def split: prod.splits option.splits if_splits)

lemma retry_evaluates:
  assumes "RetryPendingDeliveries E fed s = (None, s')"
  obtains u where "drainRecipients E fed (queuedRecipients (s\<lparr>deliveryRetries := filter (\<lambda>f. f \<noteq> fed) (deliveryRetries s)\<rparr>) fed)
      (s\<lparr>deliveryRetries := filter (\<lambda>f. f \<noteq> fed) (deliveryRetries s)\<rparr>) = (None, u)"
    and "grantLoop E fed u = (None, s')"
  using assms by (auto simp: RetryPendingDeliveries_def ResumeScheduledSave_def tryGrantPending_def split: prod.splits option.splits)

text \<open>
  C16. A failed evaluation is made good.  When the evaluator stops with an error other than the
  halt of the federation, the federation is in the list of those to be retried; and when a
  retry of it, in whatever environment, returns without an error, no advance request is left
  that could be granted, unless a scheduled save holds the federate.
\<close>

theorem failed_evaluation_is_retried:
  assumes "reachable regulated_sends s" and "tryGrantPending E fed s = (Some err, s')" and "err \<noteq> ErrFederationHalted"
  shows "fed \<in> set (PendingDeliveryRetries s') \<and>
    (\<forall>E' s'' c. RetryPendingDeliveries E' fed s' = (None, s'') \<and> c \<in> set (pendingGrantCandidates s'' fed) \<and>
       Fire (decideCandidateGrant s'' fed c (LBTSBound (regulatingSnapshot s'' fed))) \<longrightarrow>
       holdGrantForScheduledSave s'' fed (cHandle c)
         (GrantTime (decideCandidateGrant s'' fed c (LBTSBound (regulatingSnapshot s'' fed)))))"
proof -
  have sf: "safe s'" using reachable_safe [OF next_step [OF assms(1) evaluate]] assms(2) by (metis snd_conv)
  have "grant_settled s'' fed (LBTSBound (regulatingSnapshot s'' fed)) c"
    if r: "RetryPendingDeliveries E' fed s' = (None, s'')" and c: "c \<in> set (pendingGrantCandidates s'' fed)" for E' s'' c
  proof -
    let ?s = "s'\<lparr>deliveryRetries := filter (\<lambda>f. f \<noteq> fed) (deliveryRetries s')\<rparr>"
    obtain u where d: "drainRecipients E' fed (queuedRecipients ?s fed) ?s = (None, u)" and g: "grantLoop E' fed u = (None, s'')"
      using retry_evaluates [OF r] by blast
    have "safe ?s" by (rule safe_same_view [OF _ sf]) simp
    then have "safe u" using drainRecipients_safe d by blast
    then show ?thesis using grantLoop_stuck [OF g _ c] by blast
  qed
  then show ?thesis using evaluation_marks_retry [OF assms(2,3)] by (auto simp: grant_settled_def Let_def)
qed

text \<open>A stream that refuses the grant, and one that has recovered.\<close>

definition fullEnv :: env where
  "fullEnv = calmEnv\<lparr>eSend := \<lambda>_ _ _ _. Some ErrFederateOverflow\<rparr>"

definition run5 :: manager where
  "run5 = snd (TimeAdvanceRequestAvailable fullEnv ''F'' 2 5 (snd (EnableConstrained calmEnv ''F'' 2
     (snd (EnableRegulation calmEnv ''F'' 4 9 NewManager)))))"

theorem failed_evaluation_is_retried_witness:
  "\<exists>s'. tryGrantPending fullEnv ''F'' run5 = (Some ErrFederateOverflow, s') \<and> ''F'' \<in> set (PendingDeliveryRetries s')"
proof -
  have r: "reachable regulated_sends run5" unfolding run5_def
    by (rule next_step [OF next_step [OF next_step [OF init enableRegulation] enableConstrained] timeAdvanceRequestAvailable])
      (simp_all add: MaxTime_def)
  have "fst (tryGrantPending fullEnv ''F'' run5) = Some ErrFederateOverflow" by code_simp
  then obtain s' where t: "tryGrantPending fullEnv ''F'' run5 = (Some ErrFederateOverflow, s')" by (metis prod.collapse)
  show ?thesis using failed_evaluation_is_retried [OF r t] t by auto
qed

end
