(* ===== verification/Sync_Core.thy ===== *)
theory Sync_Core
  imports Prelude "HOL-Library.Finite_Map" "HOL-Library.Char_ord" "HOL-Library.List_Lexorder"
begin

text \<open>
  Synchronization points: \<open>manager.go\<close>, \<open>callbacks.go\<close> and \<open>events.go\<close> of
  \<open>rti/internal/hla/synchronization\<close>.  Go maps are finite maps, and the handle sets
  \<open>map[FederateHandle]struct{}\<close> finite sets.  Every service runs under the manager's operation
  lock, works on a clone of the federation's state and publishes it at the end, so it is a
  function from the manager to a result and a manager.  Sequence numbers and epochs are uint64
  values held as \<open>nat\<close>; the code refuses to count past \<open>MaxUint64\<close>.
\<close>

section \<open>Data\<close>

datatype SyncPointState = StateUnknown | StateAnnounced | StateAchieved | StateOther int

text \<open>The last constructor of each enumeration stands for the other values of its uint8.\<close>

datatype callbackKind =
    callbackAnnounce | callbackSynchronized | callbackRegistrationSucceeded | callbackRegistrationFailed
  | callbackInvalid nat

datatype SyncCallbackKind =
    SyncCallbackAnnounced | SyncCallbackSynchronized | SyncCallbackRegistrationSucceeded
  | SyncCallbackRegistrationFailed | SyncCallbackInvalid nat

datatype RegistrationFailureReason =
    RegistrationFailureLabelNotUnique | RegistrationFailureSetMemberNotJoined | RegistrationFailureOther nat

datatype sync_error =
    ErrSyncPointAlreadyRegistered | ErrSyncPointNotRegistered | ErrSyncPointAlreadyAchieved
  | ErrSequenceExhausted | ErrEpochExhausted | ErrRetryUnsupported | ErrOutbox nat
  | ErrInvocationSequence | ErrNotDelivered | ErrEntryRequired | ErrUnknownKind
  | ErrSnapshot string | ErrRecovery string

record CallbackState =
  Kind :: callbackKind
  Label :: string
  Recipient :: handle
  Sequence :: nat
  Epoch :: nat
  Entered :: bool
  Tag :: bytes
  Required :: "handle list"
  Failed :: "handle list"
  Reason :: RegistrationFailureReason

text \<open>A callback literal: the fields the source does not set have their zero values.\<close>

definition callback :: "callbackKind \<Rightarrow> string \<Rightarrow> handle \<Rightarrow> CallbackState" where
  "callback k l h = \<lparr>Kind = k, Label = l, Recipient = h, Sequence = 0, Epoch = 0, Entered = False, Tag = [],
     Required = [], Failed = [], Reason = RegistrationFailureOther 0\<rparr>"

fun observedKind :: "callbackKind \<Rightarrow> SyncCallbackKind" where
  "observedKind callbackAnnounce = SyncCallbackAnnounced"
| "observedKind callbackSynchronized = SyncCallbackSynchronized"
| "observedKind callbackRegistrationSucceeded = SyncCallbackRegistrationSucceeded"
| "observedKind callbackRegistrationFailed = SyncCallbackRegistrationFailed"
| "observedKind (callbackInvalid n) = SyncCallbackInvalid 0"

datatype SyncEvent =
    AnnounceEvent nat string bytes "handle list"
  | SynchronizedEvent nat string "handle list"
  | RegistrationSucceededEvent nat string
  | RegistrationFailedEvent nat string RegistrationFailureReason

text \<open>The delivery of a callback; a callback of an unknown kind has no event.\<close>

definition delivery :: "CallbackState \<Rightarrow> handle \<times> SyncEvent option" where
  "delivery c =
     (Recipient c,
      (case Kind c of
         callbackAnnounce \<Rightarrow> Some (AnnounceEvent (Sequence c) (Label c) (Tag c) (Required c))
       | callbackSynchronized \<Rightarrow> Some (SynchronizedEvent (Sequence c) (Label c) (Failed c))
       | callbackRegistrationSucceeded \<Rightarrow> Some (RegistrationSucceededEvent (Sequence c) (Label c))
       | callbackRegistrationFailed \<Rightarrow> Some (RegistrationFailedEvent (Sequence c) (Label c) (Reason c))
       | callbackInvalid n \<Rightarrow> None))"

record InvocationState =
  iRecipient :: handle
  Announce :: nat
  Synchronized :: nat
  AnnounceInvoked :: bool
  AnnounceEntered :: bool
  SynchronizedInvoked :: bool

definition no_invocation :: InvocationState where
  "no_invocation = \<lparr>iRecipient = 0, Announce = 0, Synchronized = 0, AnnounceInvoked = False,
     AnnounceEntered = False, SynchronizedInvoked = False\<rparr>"

record syncPoint =
  tag :: bytes
  state :: SyncPointState
  required :: "handle fset"
  achieved :: "handle fset"
  failed :: "handle fset"
  dynamic :: bool
  allMembers :: bool
  epoch :: nat
  callbacks :: "(handle, InvocationState) fmap"

text \<open>\<open>point.callbacks[h]\<close>: a missing entry reads as the zero value.\<close>

definition invocation :: "syncPoint \<Rightarrow> handle \<Rightarrow> InvocationState" where
  "invocation p h = (case fmlookup (callbacks p) h of Some i \<Rightarrow> i | None \<Rightarrow> no_invocation)"

record federationState =
  points :: "(string, syncPoint) fmap"
  nextSequence :: nat
  nextEpoch :: nat
  pending :: "CallbackState list"
  obligations :: "(nat, CallbackState) fmap"

definition emptyFederationState :: federationState where
  "emptyFederationState = \<lparr>points = fmempty, nextSequence = 0, nextEpoch = 0, pending = [], obligations = fmempty\<rparr>"

datatype sync_record = Registered string | Achieved string handle | SynchronizedRecord string

text \<open>
  \<open>fed\<close> is the manager's map.  \<open>outbox\<close> and \<open>elog\<close> collect what the manager has published to its
  outbox and event log.
\<close>

record SyncManager =
  fed :: "(fed_name, federationState) fmap"
  outbox :: "(fed_name \<times> handle \<times> SyncEvent option) list"
  elog :: "(fed_name \<times> sync_record) list"

text \<open>
  The options, with the answers of the membership resolver and the outbox to one service call.
  \<open>Reserve\<close> covers a failed admission and a missing reservation alike.
\<close>

record SyncOptions =
  RequireInvocations :: bool
  Members :: "(fed_name \<Rightarrow> handle list) option"
  EventLog :: bool
  ReservableOutbox :: bool
  Reserve :: "fed_name \<Rightarrow> (handle \<times> SyncEvent option) list \<Rightarrow> sync_error option"
  CommitReservation :: "fed_name \<Rightarrow> (handle \<times> SyncEvent option) list \<Rightarrow> sync_error option"
  Send :: "fed_name \<Rightarrow> handle \<times> SyncEvent option \<Rightarrow> sync_error option"

text \<open>\<open>New\<close>: the strict profile needs a membership resolver and a reservable outbox.\<close>

definition validOptions :: "SyncOptions \<Rightarrow> bool" where
  "validOptions opt \<longleftrightarrow> (RequireInvocations opt \<longrightarrow> Members opt \<noteq> None \<and> ReservableOutbox opt)"

definition NewSync :: SyncManager where
  "NewSync = \<lparr>fed = fmempty, outbox = [], elog = []\<rparr>"

section \<open>Helpers\<close>

text \<open>The test \<open>n == ^uint64(0)\<close>, evaluated on binary integers.\<close>

definition isMaxUint64 :: "nat \<Rightarrow> bool" where
  "isMaxUint64 n \<longleftrightarrow> n = MaxUint64"

lemma isMaxUint64_code [code]: "isMaxUint64 n \<longleftrightarrow> int n = 2 ^ 64 - 1"
proof -
  have "int MaxUint64 = 2 ^ 64 - 1" by (simp add: MaxUint64_def)
  then show ?thesis unfolding isMaxUint64_def by linarith
qed

abbreviation sortedHandles :: "handle fset \<Rightarrow> handle list" where
  "sortedHandles \<equiv> sorted_list_of_fset"

abbreviation handleSet :: "handle list \<Rightarrow> handle fset" where
  "handleSet \<equiv> fset_of_list"

definition sortedLabels :: "federationState \<Rightarrow> string list" where
  "sortedLabels st = sorted_list_of_fset (fmdom (points st))"

definition stateOf :: "SyncManager \<Rightarrow> fed_name \<Rightarrow> federationState" where
  "stateOf m f = (case fmlookup (fed m) f of Some st \<Rightarrow> st | None \<Rightarrow> emptyFederationState)"

definition publishState :: "fed_name \<Rightarrow> federationState \<Rightarrow> SyncManager \<Rightarrow> SyncManager" where
  "publishState f st m = m\<lparr>fed := fmupd f st (fed m)\<rparr>"

definition deliverAll :: "fed_name \<Rightarrow> (handle \<times> SyncEvent option) list \<Rightarrow> SyncManager \<Rightarrow> SyncManager" where
  "deliverAll f ds m = m\<lparr>outbox := outbox m @ map (\<lambda>d. (f, d)) ds\<rparr>"

definition appendLog :: "SyncOptions \<Rightarrow> fed_name \<Rightarrow> sync_record list \<Rightarrow> SyncManager \<Rightarrow> SyncManager" where
  "appendLog opt f rs m = (if EventLog opt then m\<lparr>elog := elog m @ map (\<lambda>r. (f, r)) rs\<rparr> else m)"

definition putPoint :: "string \<Rightarrow> syncPoint \<Rightarrow> federationState \<Rightarrow> federationState" where
  "putPoint l p st = st\<lparr>points := fmupd l p (points st)\<rparr>"

definition dropPoint :: "string \<Rightarrow> federationState \<Rightarrow> federationState" where
  "dropPoint l st = st\<lparr>points := fmdrop l (points st)\<rparr>"

section \<open>Transitions\<close>

text \<open>The compatibility path: the callbacks are sent one by one, up to the first that fails.\<close>

fun sendAll :: "SyncOptions \<Rightarrow> fed_name \<Rightarrow> (handle \<times> SyncEvent option) list \<Rightarrow> SyncManager \<Rightarrow> sync_error option \<times> SyncManager" where
  "sendAll opt f [] m = (None, m)"
| "sendAll opt f (d # ds) m =
     (case Send opt f d of
        Some err \<Rightarrow> (Some err, m)
      | None \<Rightarrow> sendAll opt f ds (deliverAll f [d] m))"

text \<open>The state after all pending callbacks have been admitted.\<close>

definition admitted :: "SyncOptions \<Rightarrow> federationState \<Rightarrow> federationState" where
  "admitted opt st =
     st\<lparr>pending := [],
        obligations := (if RequireInvocations opt then obligations st
          else fmdrop_fset (fset_of_list (map Sequence (pending st))) (obligations st))\<rparr>"

definition transition ::
  "SyncOptions \<Rightarrow> fed_name \<Rightarrow> bool \<Rightarrow> (federationState \<Rightarrow> sync_error + 'a \<times> federationState) \<Rightarrow> SyncManager \<Rightarrow>
   (sync_error + 'a) \<times> SyncManager" where
  "transition opt f lifecycle change m =
     (case change (stateOf m f) of
        Inl err \<Rightarrow> (Inl err, m)
      | Inr (flag, next) \<Rightarrow>
          let ds = map delivery (pending next) in
          if ds = [] then (Inr flag, publishState f (admitted opt next) m)
          else if ReservableOutbox opt then
            (case Reserve opt f ds of
               Some err \<Rightarrow> (Inl err, if lifecycle then publishState f next m else m)
             | None \<Rightarrow>
                 (case CommitReservation opt f ds of
                    Some err \<Rightarrow> (Inl err, publishState f ((admitted opt next)\<lparr>pending := pending next\<rparr>) m)
                  | None \<Rightarrow> (Inr flag, deliverAll f ds (publishState f (admitted opt next) m))))
          else
            (case sendAll opt f ds m of
               (Some err, m) \<Rightarrow> (Inl err, m)
             | (None, m) \<Rightarrow> (Inr flag, publishState f (admitted opt next) m)))"

definition enqueue :: "CallbackState \<Rightarrow> federationState \<Rightarrow> sync_error + federationState" where
  "enqueue c st =
     (if isMaxUint64 (nextSequence st) then Inl ErrSequenceExhausted
      else
        let n = nextSequence st + 1;
            c = c\<lparr>Sequence := n\<rparr>;
            c = (case fmlookup (points st) (Label c) of Some p \<Rightarrow> c\<lparr>Epoch := epoch p\<rparr> | None \<Rightarrow> c);
            ps = (case fmlookup (points st) (Label c) of
                    None \<Rightarrow> points st
                  | Some p \<Rightarrow>
                      let iv = invocation p (Recipient c) in
                      (case Kind c of
                         callbackAnnounce \<Rightarrow> fmupd (Label c) (p\<lparr>callbacks := fmupd (Recipient c) (iv\<lparr>Announce := n\<rparr>) (callbacks p)\<rparr>) (points st)
                       | callbackSynchronized \<Rightarrow> fmupd (Label c) (p\<lparr>callbacks := fmupd (Recipient c) (iv\<lparr>Synchronized := n\<rparr>) (callbacks p)\<rparr>) (points st)
                       | _ \<Rightarrow> points st))
        in Inr (st\<lparr>points := ps, nextSequence := n, pending := pending st @ [c], obligations := fmupd n c (obligations st)\<rparr>))"

fun enqueueAll :: "CallbackState list \<Rightarrow> federationState \<Rightarrow> sync_error + federationState" where
  "enqueueAll [] st = Inr st"
| "enqueueAll (c # cs) st = bindR (enqueue c st) (enqueueAll cs)"

section \<open>Registration\<close>

definition registrationMembers :: "SyncOptions \<Rightarrow> fed_name \<Rightarrow> handle list \<Rightarrow> handle option \<Rightarrow> handle list option" where
  "registrationMembers opt f requested registrant =
     (case Members opt of
        None \<Rightarrow> Some requested
      | Some members \<Rightarrow>
          if requested = [] then Some (members f)
          else if registrant \<noteq> None \<and> \<not> list_all (\<lambda>h. h \<in> set (members f)) requested then None
          else Some requested)"

definition registrationFailed ::
  "handle option \<Rightarrow> string \<Rightarrow> RegistrationFailureReason \<Rightarrow> federationState \<Rightarrow> sync_error + bool \<times> federationState" where
  "registrationFailed registrant l reason st =
     (case registrant of
        None \<Rightarrow> Inl ErrSyncPointAlreadyRegistered
      | Some r \<Rightarrow> bindR (enqueue ((callback callbackRegistrationFailed l r)\<lparr>Reason := reason\<rparr>) st) (\<lambda>st. Inr (False, st)))"

definition newPoint :: "SyncOptions \<Rightarrow> bytes \<Rightarrow> handle list \<Rightarrow> bool \<Rightarrow> nat \<Rightarrow> syncPoint" where
  "newPoint opt tg members allm ep =
     \<lparr>tag = tg, state = StateAnnounced, required = handleSet members, achieved = {||}, failed = {||},
      dynamic = (allm \<and> Members opt = None), allMembers = allm, epoch = ep, callbacks = fmempty\<rparr>"

text \<open>The announcement callbacks of a point.\<close>

definition announcement :: "string \<Rightarrow> syncPoint \<Rightarrow> handle \<Rightarrow> CallbackState" where
  "announcement l p h = (callback callbackAnnounce l h)\<lparr>Tag := tag p, Required := sortedHandles (required p)\<rparr>"

definition registerChange ::
  "SyncOptions \<Rightarrow> fed_name \<Rightarrow> string \<Rightarrow> bytes \<Rightarrow> handle list \<Rightarrow> handle option \<Rightarrow> federationState \<Rightarrow> sync_error + bool \<times> federationState" where
  "registerChange opt f l tg requested registrant st =
     (if fmlookup (points st) l \<noteq> None then registrationFailed registrant l RegistrationFailureLabelNotUnique st
      else case registrationMembers opt f requested registrant of
        None \<Rightarrow> registrationFailed registrant l RegistrationFailureSetMemberNotJoined st
      | Some members \<Rightarrow>
          if isMaxUint64 (nextEpoch st) then Inl ErrEpochExhausted
          else
            let ep = nextEpoch st + 1;
                p = newPoint opt tg members (requested = []) ep;
                st = putPoint l p (st\<lparr>nextEpoch := ep\<rparr>);
                confirm = (case registrant of None \<Rightarrow> [] | Some r \<Rightarrow> [callback callbackRegistrationSucceeded l r])
            in bindR (enqueueAll (confirm @ map (announcement l p) (sortedHandles (required p))) st)
                 (\<lambda>st. Inr (True, st)))"

definition register ::
  "SyncOptions \<Rightarrow> fed_name \<Rightarrow> string \<Rightarrow> bytes \<Rightarrow> handle list \<Rightarrow> handle option \<Rightarrow> SyncManager \<Rightarrow> sync_error option \<times> SyncManager" where
  "register opt f l tg requested registrant m =
     (case transition opt f False (registerChange opt f l tg requested registrant) m of
        (Inl err, m) \<Rightarrow> (Some err, m)
      | (Inr registered, m) \<Rightarrow> (None, if registered then appendLog opt f [Registered l] m else m))"

definition Register :: "SyncOptions \<Rightarrow> fed_name \<Rightarrow> string \<Rightarrow> bytes \<Rightarrow> handle list \<Rightarrow> SyncManager \<Rightarrow> sync_error option \<times> SyncManager" where
  "Register opt f l tg requested m = register opt f l tg requested None m"

definition RegisterBy :: "SyncOptions \<Rightarrow> fed_name \<Rightarrow> handle \<Rightarrow> string \<Rightarrow> bytes \<Rightarrow> handle list \<Rightarrow> SyncManager \<Rightarrow> sync_error option \<times> SyncManager" where
  "RegisterBy opt f registrant l tg requested m = register opt f l tg requested (Some registrant) m"

section \<open>Achievement\<close>

definition synchronization :: "string \<Rightarrow> syncPoint \<Rightarrow> handle \<Rightarrow> CallbackState" where
  "synchronization l p h = (callback callbackSynchronized l h)\<lparr>Failed := sortedHandles (failed p)\<rparr>"

text \<open>\<open>complete\<close> on the point that the state holds at the label.\<close>

definition complete :: "SyncOptions \<Rightarrow> string \<Rightarrow> syncPoint \<Rightarrow> federationState \<Rightarrow> sync_error + federationState" where
  "complete opt l p st =
     (if state p = StateAchieved then Inr st
      else if \<not> required p |\<subseteq>| achieved p then Inr st
      else bindR (enqueueAll (map (synchronization l p) (sortedHandles (required p))) (putPoint l (p\<lparr>state := StateAchieved\<rparr>) st))
        (\<lambda>st. Inr (if RequireInvocations opt \<and> required p = {||} then dropPoint l st else st)))"

definition announcementPending :: "SyncOptions \<Rightarrow> federationState \<Rightarrow> syncPoint \<Rightarrow> string \<Rightarrow> handle \<Rightarrow> bool" where
  "announcementPending opt st p l h \<longleftrightarrow>
     list_ex (\<lambda>c. Label c = l \<and> Recipient c = h \<and> Kind c = callbackAnnounce \<and>
       (\<not> RequireInvocations opt \<or> \<not> AnnounceEntered (invocation p h))) (pending st)"

definition achieveChange ::
  "SyncOptions \<Rightarrow> handle \<Rightarrow> string \<Rightarrow> bool \<Rightarrow> federationState \<Rightarrow> sync_error + bool \<times> federationState" where
  "achieveChange opt h l successfully st =
     (case fmlookup (points st) l of
        None \<Rightarrow> Inl ErrSyncPointNotRegistered
      | Some p0 \<Rightarrow>
          let p = (if dynamic p0 then p0\<lparr>required := finsert h (required p0)\<rparr> else p0) in
          if h |\<notin>| required p then Inl ErrSyncPointNotRegistered
          else if RequireInvocations opt \<and> \<not> AnnounceEntered (invocation p h) then Inl ErrSyncPointNotRegistered
          else if announcementPending opt st p l h then Inl ErrSyncPointNotRegistered
          else if h |\<in>| achieved p then Inl ErrSyncPointAlreadyAchieved
          else
            let p = p\<lparr>achieved := finsert h (achieved p), failed := (if successfully then failed p else finsert h (failed p))\<rparr>
            in bindR (complete opt l p (putPoint l p st))
                 (\<lambda>st. Inr (state p = StateAchieved \<or> required p |\<subseteq>| achieved p, st)))"

definition achieve :: "SyncOptions \<Rightarrow> fed_name \<Rightarrow> handle \<Rightarrow> string \<Rightarrow> bool \<Rightarrow> SyncManager \<Rightarrow> sync_error option \<times> SyncManager" where
  "achieve opt f h l successfully m =
     (case transition opt f False (achieveChange opt h l successfully) m of
        (Inl err, m) \<Rightarrow> (Some err, m)
      | (Inr synchronized, m) \<Rightarrow>
          (None, appendLog opt f (Achieved l h # (if synchronized then [SynchronizedRecord l] else [])) m))"

definition Achieve :: "SyncOptions \<Rightarrow> fed_name \<Rightarrow> handle \<Rightarrow> string \<Rightarrow> SyncManager \<Rightarrow> sync_error option \<times> SyncManager" where
  "Achieve opt f h l m = achieve opt f h l True m"

definition AchieveWith :: "SyncOptions \<Rightarrow> fed_name \<Rightarrow> handle \<Rightarrow> string \<Rightarrow> bool \<Rightarrow> SyncManager \<Rightarrow> sync_error option \<times> SyncManager" where
  "AchieveWith opt f h l successfully m = achieve opt f h l successfully m"

section \<open>Membership\<close>

definition retire :: "SyncOptions \<Rightarrow> string \<Rightarrow> federationState \<Rightarrow> federationState" where
  "retire opt l st =
     (case fmlookup (points st) l of
        None \<Rightarrow> st
      | Some p \<Rightarrow>
          if \<not> RequireInvocations opt \<or> state p \<noteq> StateAchieved then st
          else if fBall (required p) (\<lambda>h. SynchronizedInvoked (invocation p h)) then dropPoint l st
          else st)"

fun joinPoints :: "handle \<Rightarrow> string list \<Rightarrow> federationState \<Rightarrow> sync_error + federationState" where
  "joinPoints h [] st = Inr st"
| "joinPoints h (l # ls) st =
     (case fmlookup (points st) l of
        None \<Rightarrow> joinPoints h ls st
      | Some p \<Rightarrow>
          if \<not> allMembers p \<or> state p \<noteq> StateAnnounced \<or> h |\<in>| required p then joinPoints h ls st
          else
            let p = p\<lparr>required := finsert h (required p)\<rparr> in
            bindR (enqueue (announcement l p h) (putPoint l p st)) (joinPoints h ls))"

definition FederateJoined :: "SyncOptions \<Rightarrow> fed_name \<Rightarrow> handle \<Rightarrow> SyncManager \<Rightarrow> sync_error option \<times> SyncManager" where
  "FederateJoined opt f h m =
     (case transition opt f True (\<lambda>st. bindR (joinPoints h (sortedLabels st) st) (\<lambda>st. Inr ((), st))) m of
        (Inl err, m) \<Rightarrow> (Some err, m)
      | (Inr _, m) \<Rightarrow> (None, m))"

definition withdraw :: "handle \<Rightarrow> syncPoint \<Rightarrow> syncPoint" where
  "withdraw h p = p\<lparr>required := required p |-| {|h|}, achieved := achieved p |-| {|h|}, failed := failed p |-| {|h|},
     callbacks := fmdrop h (callbacks p)\<rparr>"

fun resignPoints :: "SyncOptions \<Rightarrow> handle \<Rightarrow> string list \<Rightarrow> federationState \<Rightarrow> sync_error + federationState" where
  "resignPoints opt h [] st = Inr st"
| "resignPoints opt h (l # ls) st =
     (case fmlookup (points st) l of
        None \<Rightarrow> resignPoints opt h ls st
      | Some p \<Rightarrow>
          let p = withdraw h p in
          bindR (complete opt l p (putPoint l p st)) (\<lambda>st. resignPoints opt h ls (retire opt l st)))"

definition forgetRecipient :: "handle \<Rightarrow> federationState \<Rightarrow> federationState" where
  "forgetRecipient h st =
     st\<lparr>pending := filter (\<lambda>c. Recipient c \<noteq> h) (pending st),
        obligations := fmfilter (\<lambda>n. Recipient (the (fmlookup (obligations st) n)) \<noteq> h) (obligations st)\<rparr>"

definition FederateResigned :: "SyncOptions \<Rightarrow> fed_name \<Rightarrow> handle \<Rightarrow> SyncManager \<Rightarrow> sync_error option \<times> SyncManager" where
  "FederateResigned opt f h m =
     (case transition opt f True (\<lambda>st. bindR (resignPoints opt h (sortedLabels st) (forgetRecipient h st)) (\<lambda>st. Inr ((), st))) m of
        (Inl err, m) \<Rightarrow> (Some err, m)
      | (Inr _, m) \<Rightarrow> (None, m))"

definition OnSyncFederationDestroyed :: "fed_name \<Rightarrow> SyncManager \<Rightarrow> SyncManager" where
  "OnSyncFederationDestroyed f m = m\<lparr>fed := fmdrop f (fed m)\<rparr>"

section \<open>Retry and receipts\<close>

text \<open>
  The loop of \<open>RetryPending\<close> over the pending callbacks.  A reservation that cannot be
  committed is released and the callback stays pending.
\<close>

definition retryOnce :: "SyncOptions \<Rightarrow> fed_name \<Rightarrow> CallbackState \<Rightarrow> sync_error option" where
  "retryOnce opt f c =
     (case Reserve opt f [delivery c] of
        Some err \<Rightarrow> Some err
      | None \<Rightarrow> CommitReservation opt f [delivery c])"

definition retried :: "SyncOptions \<Rightarrow> federationState \<Rightarrow> federationState" where
  "retried opt st =
     st\<lparr>pending := tl (pending st),
        obligations := (if RequireInvocations opt then obligations st else fmdrop (Sequence (hd (pending st))) (obligations st))\<rparr>"

function retryLoop :: "SyncOptions \<Rightarrow> fed_name \<Rightarrow> SyncManager \<Rightarrow> sync_error option \<times> SyncManager" where
  "retryLoop opt f m =
     (let next = stateOf m f in
      if pending next = [] then (None, m)
      else case retryOnce opt f (hd (pending next)) of
        Some err \<Rightarrow> (Some err, m)
      | None \<Rightarrow> retryLoop opt f (publishState f (retried opt next) (deliverAll f [delivery (hd (pending next))] m)))"
  by pat_completeness auto
termination
  by (relation "measure (\<lambda>(opt, f, m). length (pending (stateOf m f)))")
    (auto simp: stateOf_def publishState_def deliverAll_def retried_def)

declare retryLoop.simps [simp del]

definition RetryPending :: "SyncOptions \<Rightarrow> fed_name \<Rightarrow> SyncManager \<Rightarrow> sync_error option \<times> SyncManager" where
  "RetryPending opt f m = (if ReservableOutbox opt then retryLoop opt f m else (Some ErrRetryUnsupported, m))"

definition callbackPending :: "CallbackState list \<Rightarrow> nat \<Rightarrow> bool" where
  "callbackPending ps n \<longleftrightarrow> list_ex (\<lambda>c. Sequence c = n) ps"

text \<open>\<open>None\<close> in the result: the receipt does not fit the point and nothing is published.\<close>

definition observePointCallback ::
  "SyncOptions \<Rightarrow> syncPoint \<Rightarrow> handle \<Rightarrow> SyncCallbackKind \<Rightarrow> string \<Rightarrow> nat \<Rightarrow> bool \<Rightarrow> federationState \<Rightarrow>
   sync_error + federationState option" where
  "observePointCallback opt p h kind l n entry next =
     (let iv = invocation p h;
          stored = (\<lambda>iv. Inr (Some (retire opt l (putPoint l (p\<lparr>callbacks := fmupd h iv (callbacks p)\<rparr>) next))))
      in case kind of
           SyncCallbackAnnounced \<Rightarrow>
             if Announce iv \<noteq> n then Inr None
             else stored (if entry then iv\<lparr>AnnounceEntered := True\<rparr> else iv\<lparr>AnnounceInvoked := True\<rparr>)
         | SyncCallbackSynchronized \<Rightarrow>
             if Synchronized iv \<noteq> n \<or> state p \<noteq> StateAchieved then Inr None
             else stored (if entry then iv else iv\<lparr>SynchronizedInvoked := True\<rparr>)
         | SyncCallbackRegistrationSucceeded \<Rightarrow> Inr (Some next)
         | SyncCallbackRegistrationFailed \<Rightarrow> Inr (Some next)
         | SyncCallbackInvalid _ \<Rightarrow> Inl ErrUnknownKind)"

definition observed :: "bool \<Rightarrow> nat \<Rightarrow> CallbackState \<Rightarrow> federationState \<Rightarrow> federationState" where
  "observed entry n c st =
     st\<lparr>obligations := (if entry then fmupd n (c\<lparr>Entered := True\<rparr>) (obligations st) else fmdrop n (obligations st))\<rparr>"

definition observeCallback ::
  "SyncOptions \<Rightarrow> fed_name \<Rightarrow> handle \<Rightarrow> SyncCallbackKind \<Rightarrow> string \<Rightarrow> nat \<Rightarrow> bool \<Rightarrow> SyncManager \<Rightarrow> sync_error option \<times> SyncManager" where
  "observeCallback opt f h kind l n entry m =
     (if n = 0 then (Some ErrInvocationSequence, m)
      else
        let next = stateOf m f in
        case fmlookup (obligations next) n of
          None \<Rightarrow> (None, m)
        | Some c \<Rightarrow>
            if Recipient c \<noteq> h \<or> Label c \<noteq> l \<or> observedKind (Kind c) \<noteq> kind then (None, m)
            else if callbackPending (pending next) n then (Some ErrNotDelivered, m)
            else if \<not> entry \<and> RequireInvocations opt \<and> \<not> Entered c then (Some ErrEntryRequired, m)
            else
              let next = observed entry n c next in
              case fmlookup (points next) l of
                None \<Rightarrow> (None, publishState f next m)
              | Some p \<Rightarrow>
                  if epoch p \<noteq> Epoch c then (None, publishState f next m)
                  else (case observePointCallback opt p h kind l n entry next of
                          Inl err \<Rightarrow> (Some err, m)
                        | Inr None \<Rightarrow> (None, m)
                        | Inr (Some next) \<Rightarrow> (None, publishState f next m)))"

definition ObserveSyncCallbackEntry ::
  "SyncOptions \<Rightarrow> fed_name \<Rightarrow> handle \<Rightarrow> SyncCallbackKind \<Rightarrow> string \<Rightarrow> nat \<Rightarrow> SyncManager \<Rightarrow> sync_error option \<times> SyncManager" where
  "ObserveSyncCallbackEntry opt f h kind l n m = observeCallback opt f h kind l n True m"

definition ObserveSyncCallback ::
  "SyncOptions \<Rightarrow> fed_name \<Rightarrow> handle \<Rightarrow> SyncCallbackKind \<Rightarrow> string \<Rightarrow> nat \<Rightarrow> SyncManager \<Rightarrow> sync_error option \<times> SyncManager" where
  "ObserveSyncCallback opt f h kind l n m = observeCallback opt f h kind l n False m"

section \<open>Queries\<close>

definition PendingFederations :: "SyncManager \<Rightarrow> fed_name list" where
  "PendingFederations m = sorted_list_of_fset (ffilter (\<lambda>f. pending (stateOf m f) \<noteq> []) (fmdom (fed m)))"

definition QueryState :: "SyncManager \<Rightarrow> fed_name \<Rightarrow> string \<Rightarrow> SyncPointState" where
  "QueryState m f l = (case fmlookup (points (stateOf m f)) l of Some p \<Rightarrow> state p | None \<Rightarrow> StateUnknown)"

datatype SyncPointSnapshotState = SyncPointStateUnknown | SyncPointStateAnnounced | SyncPointStateAchieved

fun syncStateToCore :: "SyncPointState \<Rightarrow> SyncPointSnapshotState" where
  "syncStateToCore StateAnnounced = SyncPointStateAnnounced"
| "syncStateToCore StateAchieved = SyncPointStateAchieved"
| "syncStateToCore _ = SyncPointStateUnknown"

record SyncPointInfo =
  siLabel :: string
  siState :: SyncPointSnapshotState
  siRequired :: "handle list"
  siAchieved :: "handle list"

definition SyncSnapshot :: "SyncManager \<Rightarrow> fed_name \<Rightarrow> SyncPointInfo list" where
  "SyncSnapshot m f =
     (let st = stateOf m f in
      map (\<lambda>l. let p = the (fmlookup (points st) l) in
        \<lparr>siLabel = l, siState = syncStateToCore (state p), siRequired = sortedHandles (required p),
         siAchieved = sortedHandles (achieved p)\<rparr>) (sortedLabels st))"

end
