(* ===== verification/Sync_Points.thy ===== *)
theory Sync_Points
  imports Sync_Core
begin

text \<open>
  The participants of a synchronization point, in either profile: an invariant of the points
  that does not look at the callbacks, and what each change of the federation's state does to
  the points.  The abstract view of a point is \<open>skel\<close>.
\<close>

named_theorems sync_simps \<open>unfolding of the helpers of the synchronization manager\<close>

declare putPoint_def [sync_simps] dropPoint_def [sync_simps] stateOf_def [sync_simps] publishState_def [sync_simps]
  deliverAll_def [sync_simps] appendLog_def [sync_simps]

section \<open>Small facts\<close>

lemma invocation_upd [simp]:
  "invocation (p\<lparr>callbacks := fmupd h i (callbacks p)\<rparr>) k = (if k = h then i else invocation p k)"
  by (simp add: invocation_def)

lemma invocation_same [simp]:
  "invocation (p\<lparr>required := R\<rparr>) k = invocation p k" "invocation (p\<lparr>achieved := R\<rparr>) k = invocation p k"
  "invocation (p\<lparr>failed := R\<rparr>) k = invocation p k" "invocation (p\<lparr>state := z\<rparr>) k = invocation p k"
  by (simp_all add: invocation_def)

lemma invocation_withdraw: "invocation (withdraw h p) k = (if k = h then no_invocation else invocation p k)"
  by (simp add: invocation_def withdraw_def)

lemma invocation_empty [simp]: "callbacks p = fmempty \<Longrightarrow> invocation p k = no_invocation"
  by (simp add: invocation_def)

lemma set_sortedHandles [simp]: "set (sorted_list_of_fset A) = fset A"
  by (simp add: sorted_list_of_fset.rep_eq)

lemma distinct_sortedHandles [simp]: "distinct (sorted_list_of_fset A)"
  by (simp add: sorted_list_of_fset.rep_eq)

lemma sorted_sortedHandles [simp]: "sorted (sorted_list_of_fset A)"
  by (simp add: sorted_list_of_fset.rep_eq)

lemma sortedLabels_set [simp]: "set (sortedLabels st) = fmdom' (points st)"
  by (simp add: sortedLabels_def fmdom'_alt_def)

lemma stateOf_publish [simp]: "stateOf (publishState f st m) g = (if g = f then st else stateOf m g)"
  by (simp add: sync_simps)

lemma stateOf_frame [simp]:
  "stateOf (deliverAll f ds m) g = stateOf m g" "stateOf (appendLog opt f rs m) g = stateOf m g"
  by (simp_all add: sync_simps)

lemma sendAll_state: "sendAll opt f ds m = (r, m') \<Longrightarrow> stateOf m' g = stateOf m g"
  by (induction ds arbitrary: m) (auto split: option.splits)

section \<open>The points without their callbacks\<close>

definition skel :: "syncPoint \<Rightarrow> syncPoint" where
  "skel p = p\<lparr>callbacks := fmempty\<rparr>"

definition shape :: "federationState \<Rightarrow> string \<Rightarrow> syncPoint option" where
  "shape st l = map_option skel (fmlookup (points st) l)"

lemma skel_simps [simp]:
  "state (skel p) = state p" "required (skel p) = required p" "achieved (skel p) = achieved p" "failed (skel p) = failed p"
  "dynamic (skel p) = dynamic p" "allMembers (skel p) = allMembers p" "epoch (skel p) = epoch p" "tag (skel p) = tag p"
  "skel (p\<lparr>callbacks := cs\<rparr>) = skel p"
  by (simp_all add: skel_def)

lemma shape_same: "points st' = points st \<Longrightarrow> shape st' = shape st"
  by (simp add: shape_def fun_eq_iff)

lemma shape_put [simp]: "shape (putPoint l p st) = (shape st)(l \<mapsto> skel p)"
  by (auto simp: shape_def sync_simps)

lemma shape_drop [simp]: "shape (dropPoint l st) = (shape st)(l := None)"
  by (auto simp: shape_def sync_simps)

lemma shape_Some: "shape st l = Some q \<longleftrightarrow> (\<exists>p. fmlookup (points st) l = Some p \<and> q = skel p)"
  by (auto simp: shape_def)

lemma shape_None [simp]: "shape st l = None \<longleftrightarrow> fmlookup (points st) l = None"
  by (simp add: shape_def)

lemma enqueue_points:
  assumes "enqueue c st = Inr st'"
  shows "points st' = (case fmlookup (points st) (Label c) of
      None \<Rightarrow> points st
    | Some p \<Rightarrow>
        (case Kind c of
           callbackAnnounce \<Rightarrow> fmupd (Label c) (p\<lparr>callbacks := fmupd (Recipient c) ((invocation p (Recipient c))\<lparr>Announce := nextSequence st + 1\<rparr>) (callbacks p)\<rparr>) (points st)
         | callbackSynchronized \<Rightarrow> fmupd (Label c) (p\<lparr>callbacks := fmupd (Recipient c) ((invocation p (Recipient c))\<lparr>Synchronized := nextSequence st + 1\<rparr>) (callbacks p)\<rparr>) (points st)
         | _ \<Rightarrow> points st))"
  using assms by (auto simp: enqueue_def Let_def split: if_splits option.splits callbackKind.splits)

lemma enqueue_shape: "enqueue c st = Inr st' \<Longrightarrow> shape st' = shape st"
  by (auto simp: shape_def fun_eq_iff enqueue_points split: option.splits callbackKind.splits)

lemma enqueueAll_shape: "enqueueAll cs st = Inr st' \<Longrightarrow> shape st' = shape st"
  by (induction cs arbitrary: st) (auto simp: result_simps enqueue_shape)

section \<open>The invariant\<close>

definition point_ok :: "syncPoint \<Rightarrow> bool" where
  "point_ok p \<longleftrightarrow> 0 |\<notin>| required p \<and> failed p |\<subseteq>| achieved p \<and> achieved p |\<subseteq>| required p \<and>
     (state p = StateAnnounced \<and> (required p = {||} \<or> achieved p \<noteq> required p) \<or> state p = StateAchieved \<and> achieved p = required p)"

definition points_ok :: "federationState \<Rightarrow> bool" where
  "points_ok st \<longleftrightarrow> (\<forall>l p. fmlookup (points st) l = Some p \<longrightarrow> point_ok p)"

lemma point_ok_skel [simp]: "point_ok (skel p) = point_ok p"
  by (simp add: point_ok_def)

lemma points_ok_shape: "points_ok st \<longleftrightarrow> (\<forall>l q. shape st l = Some q \<longrightarrow> point_ok q)"
  unfolding points_ok_def shape_Some by (metis point_ok_skel)

lemma points_ok_same: "shape st' = shape st \<Longrightarrow> points_ok st' = points_ok st"
  by (simp add: points_ok_shape)

lemma points_ok_put: "points_ok st \<Longrightarrow> point_ok p \<Longrightarrow> points_ok (putPoint l p st)"
  by (auto simp: points_ok_def sync_simps split: if_splits)

lemma points_ok_drop: "points_ok st \<Longrightarrow> points_ok (dropPoint l st)"
  by (auto simp: points_ok_def sync_simps split: if_splits)

lemma points_ok_get: "points_ok st \<Longrightarrow> fmlookup (points st) l = Some p \<Longrightarrow> point_ok p"
  by (simp add: points_ok_def)

section \<open>Completion\<close>

text \<open>A point that may be open although everybody has achieved it, just before \<open>complete\<close>.\<close>

definition nearly_ok :: "syncPoint \<Rightarrow> bool" where
  "nearly_ok p \<longleftrightarrow> 0 |\<notin>| required p \<and> failed p |\<subseteq>| achieved p \<and> achieved p |\<subseteq>| required p \<and>
     (state p = StateAnnounced \<or> state p = StateAchieved \<and> achieved p = required p)"

definition completed :: "syncPoint \<Rightarrow> syncPoint" where
  "completed p = (if required p |\<subseteq>| achieved p then p\<lparr>state := StateAchieved\<rparr> else p)"

lemma state_idem: "state p = z \<Longrightarrow> p\<lparr>state := z\<rparr> = p"
  by (cases p) simp

lemma skel_state: "skel (p\<lparr>state := z\<rparr>) = (skel p)\<lparr>state := z\<rparr>"
  by (simp add: skel_def)

lemma skel_completed: "skel (completed p) = completed (skel p)"
  by (simp add: completed_def skel_state)

lemma complete_cases:
  assumes "complete opt l p st = Inr st'"
  obtains "st' = st" "state p = StateAchieved \<or> \<not> required p |\<subseteq>| achieved p"
  | u where "state p \<noteq> StateAchieved" "required p |\<subseteq>| achieved p"
      "enqueueAll (map (synchronization l p) (sortedHandles (required p))) (putPoint l (p\<lparr>state := StateAchieved\<rparr>) st) = Inr u"
      "st' = (if RequireInvocations opt \<and> required p = {||} then dropPoint l u else u)"
proof (cases "state p = StateAchieved \<or> \<not> required p |\<subseteq>| achieved p")
  case True
  then have "st' = st" using assms by (auto simp: complete_def split: if_splits)
  then show thesis using that(1) True by blast
next
  case False
  then have "\<exists>u. enqueueAll (map (synchronization l p) (sortedHandles (required p))) (putPoint l (p\<lparr>state := StateAchieved\<rparr>) st) = Inr u \<and>
      st' = (if RequireInvocations opt \<and> required p = {||} then dropPoint l u else u)"
    using assms unfolding complete_def by (simp add: bindR_eq_Inr_iff) metis
  then show thesis using that(2) False by blast
qed

text \<open>
  The shape after \<open>complete\<close>: the point is completed when everybody has achieved it; an empty
  completed point is dropped at once in the strict profile.
\<close>

lemma complete_shape:
  assumes "complete opt l p st = Inr st'" and "shape st l = Some (skel p)" and "nearly_ok p"
  shows "shape st' = (shape st)(l :=
    (if RequireInvocations opt \<and> required p = {||} \<and> state p \<noteq> StateAchieved then None else Some (skel (completed p))))"
  using assms(1)
proof (cases rule: complete_cases)
  case 1
  then have "completed p = p" using state_idem [of p StateAchieved] unfolding completed_def by metis
  moreover have "\<not> (required p = {||} \<and> state p \<noteq> StateAchieved)" using 1 by auto
  moreover have "shape st = (shape st)(l \<mapsto> skel p)" using assms(2) by (simp add: fun_upd_idem)
  ultimately show ?thesis using 1 by auto
next
  case (2 u)
  have "shape u = (shape st)(l \<mapsto> skel (completed p))"
    using enqueueAll_shape [OF 2(3)] 2(2) by (simp add: completed_def)
  then show ?thesis using 2 by auto
qed

lemma completed_ok: "nearly_ok p \<Longrightarrow> point_ok (completed p)"
  by (auto simp: nearly_ok_def point_ok_def completed_def)

lemma complete_points_ok:
  assumes "complete opt l p (putPoint l p st) = Inr st'" and "points_ok st" and "nearly_ok p"
  shows "points_ok st'"
  using assms(2) completed_ok [OF assms(3)] complete_shape [OF assms(1) _ assms(3)]
  by (auto simp: points_ok_shape split: if_splits)

lemma retire_points_ok: "points_ok st \<Longrightarrow> points_ok (retire opt l st)"
  by (auto simp: retire_def points_ok_drop split: option.splits)

section \<open>Every change keeps the invariant\<close>

lemma registerChange_points_ok:
  assumes "registerChange opt f l tg requested r st = Inr (b, st')" and "points_ok st"
    and "0 \<notin> set requested" and "\<forall>ms. Members opt = Some ms \<longrightarrow> 0 \<notin> set (ms f)"
  shows "points_ok st'"
proof (cases "fmlookup (points st) l \<noteq> None \<or> registrationMembers opt f requested r = None")
  case True
  then obtain c where "enqueue c st = Inr st'"
    using assms(1) by (auto simp: registerChange_def registrationFailed_def result_simps split: if_splits option.splits)
  then show ?thesis using assms(2) points_ok_same [OF enqueue_shape] by blast
next
  case False
  then obtain ms where ms: "registrationMembers opt f requested r = Some ms" by blast
  define p where "p = newPoint opt tg ms (requested = []) (nextEpoch st + 1)"
  have "\<exists>cs. enqueueAll cs (putPoint l p (st\<lparr>nextEpoch := nextEpoch st + 1\<rparr>)) = Inr st'"
    using assms(1) False ms unfolding registerChange_def Let_def p_def by (auto simp del: enqueueAll.simps simp: bindR_eq_Inr_iff split: if_splits)
  then obtain cs where "enqueueAll cs (putPoint l p (st\<lparr>nextEpoch := nextEpoch st + 1\<rparr>)) = Inr st'" by blast
  moreover have "0 \<notin> set ms" using ms assms(3,4) by (auto simp: registrationMembers_def split: option.splits if_splits)
  then have "point_ok p" by (auto simp: point_ok_def p_def newPoint_def fset_of_list.rep_eq)
  moreover have "points_ok (st\<lparr>nextEpoch := nextEpoch st + 1\<rparr>)" using assms(2) by (simp add: points_ok_def)
  ultimately show ?thesis using points_ok_same [OF enqueueAll_shape] points_ok_put by metis
qed

lemma achieveChange_points_ok:
  assumes "achieveChange opt h l ok st = Inr (b, st')" and "points_ok st" and "h \<noteq> 0"
  shows "points_ok st'"
proof -
  obtain p0 where p0: "fmlookup (points st) l = Some p0" using assms(1) by (auto simp: achieveChange_def split: option.splits)
  define p where "p = (if dynamic p0 then p0\<lparr>required := finsert h (required p0)\<rparr> else p0)"
  define q where "q = p\<lparr>achieved := finsert h (achieved p), failed := (if ok then failed p else finsert h (failed p))\<rparr>"
  have c: "h |\<in>| required p" "h |\<notin>| achieved p" "complete opt l q (putPoint l q st) = Inr st'"
    using assms(1) p0 unfolding achieveChange_def p_def q_def by (auto simp: Let_def result_simps split: if_splits)
  have "point_ok p0" using points_ok_get [OF assms(2) p0] .
  then have "nearly_ok q" using assms(3) c(1,2) by (auto simp: point_ok_def nearly_ok_def p_def q_def split: if_splits)
  then show ?thesis using complete_points_ok [OF c(3) assms(2)] by blast
qed

lemma joinPoints_points_ok: "joinPoints h ls st = Inr st' \<Longrightarrow> points_ok st \<Longrightarrow> h \<noteq> 0 \<Longrightarrow> points_ok st'"
proof (induction ls arbitrary: st)
  case (Cons l ls)
  show ?case
  proof (cases "\<exists>p. fmlookup (points st) l = Some p \<and> allMembers p \<and> state p = StateAnnounced \<and> h |\<notin>| required p")
    case True
    then obtain p where p: "fmlookup (points st) l = Some p" "allMembers p" "state p = StateAnnounced" "h |\<notin>| required p" by blast
    let ?p = "p\<lparr>required := finsert h (required p)\<rparr>"
    obtain u where u: "enqueue (announcement l ?p h) (putPoint l ?p st) = Inr u" "joinPoints h ls u = Inr st'"
      using Cons.prems(1) p by (auto simp: Let_def result_simps)
    have "point_ok ?p" using points_ok_get [OF Cons.prems(2) p(1)] p(3,4) Cons.prems(3) by (auto simp: point_ok_def)
    then have "points_ok u" using points_ok_same [OF enqueue_shape [OF u(1)]] points_ok_put [OF Cons.prems(2)] by blast
    then show ?thesis using Cons.IH u(2) Cons.prems(3) by blast
  next
    case False
    then have "joinPoints h ls st = Inr st'" using Cons.prems(1) by (auto split: option.splits if_splits)
    then show ?thesis using Cons.IH Cons.prems by blast
  qed
qed simp

lemma withdraw_nearly_ok: "point_ok p \<Longrightarrow> nearly_ok (withdraw h p)"
  by (auto simp: point_ok_def nearly_ok_def withdraw_def)

lemma resignPoints_points_ok: "resignPoints opt h ls st = Inr st' \<Longrightarrow> points_ok st \<Longrightarrow> points_ok st'"
proof (induction ls arbitrary: st)
  case (Cons l ls)
  show ?case
  proof (cases "fmlookup (points st) l")
    case None
    then show ?thesis using Cons by simp
  next
    case (Some p)
    then obtain u where u: "complete opt l (withdraw h p) (putPoint l (withdraw h p) st) = Inr u" "resignPoints opt h ls (retire opt l u) = Inr st'"
      using Cons.prems(1) by (auto simp: Let_def result_simps)
    have "points_ok u"
      using complete_points_ok [OF u(1) Cons.prems(2) withdraw_nearly_ok] points_ok_get [OF Cons.prems(2) Some] by blast
    then show ?thesis using Cons.IH u(2) retire_points_ok by blast
  qed
qed simp

end
