(* ===== verification/Sync_Ledger.thy ===== *)
theory Sync_Ledger
  imports Sync_Points
begin

text \<open>
  The callback ledger of the strict profile.  Every announcement and every notification of a
  point has a sequence number of its own, and stays an obligation until the federate has
  reported that it has been invoked.  \<open>own\<close> is a ghost assignment of sequence numbers to what
  they were issued for.  The sets \<open>D\<close>, \<open>A\<close> and \<open>S\<close> describe states inside a service: \<open>D\<close> holds
  the participants about to be withdrawn, \<open>A\<close> those not yet announced, \<open>S\<close> those not yet
  notified; between services all three are empty.
\<close>

type_synonym owner = "nat \<Rightarrow> string \<times> handle \<times> callbackKind"
type_synonym participants = "(string \<times> handle) set"

section \<open>The invariant\<close>

definition inv_ok :: "owner \<Rightarrow> participants \<Rightarrow> participants \<Rightarrow> nat \<Rightarrow> (nat, CallbackState) fmap \<Rightarrow> string \<Rightarrow> handle \<Rightarrow> syncPoint \<Rightarrow> InvocationState \<Rightarrow> bool" where
  "inv_ok own A S ns obl l h p i \<longleftrightarrow>
     Announce i \<le> ns \<and> Synchronized i \<le> ns \<and>
     (Announce i = 0 \<longleftrightarrow> (l, h) \<in> A) \<and>
     (Synchronized i = 0 \<longleftrightarrow> state p \<noteq> StateAchieved \<or> (l, h) \<in> S) \<and>
     (AnnounceEntered i \<longrightarrow> Announce i \<noteq> 0) \<and> (AnnounceInvoked i \<longrightarrow> AnnounceEntered i) \<and>
     (SynchronizedInvoked i \<longrightarrow> Synchronized i \<noteq> 0) \<and> (h |\<in>| achieved p \<longrightarrow> AnnounceEntered i) \<and>
     (Announce i \<noteq> 0 \<longrightarrow> own (Announce i) = (l, h, callbackAnnounce)) \<and>
     (Synchronized i \<noteq> 0 \<longrightarrow> own (Synchronized i) = (l, h, callbackSynchronized)) \<and>
     (Announce i \<noteq> 0 \<and> \<not> AnnounceInvoked i \<longrightarrow>
        (\<exists>c. fmlookup obl (Announce i) = Some c \<and> Epoch c = epoch p \<and> Entered c = AnnounceEntered i)) \<and>
     (Synchronized i \<noteq> 0 \<and> \<not> SynchronizedInvoked i \<longrightarrow>
        (\<exists>c. fmlookup obl (Synchronized i) = Some c \<and> Epoch c = epoch p))"

text \<open>The invocation of its point that an announcement or a notification belongs to.\<close>

definition placed :: "participants \<Rightarrow> (string, syncPoint) fmap \<Rightarrow> CallbackState \<Rightarrow> (InvocationState \<Rightarrow> bool) \<Rightarrow> bool" where
  "placed D ps c Q \<longleftrightarrow>
     (\<exists>p. fmlookup ps (Label c) = Some p \<and> epoch p = Epoch c \<and> Recipient c |\<in>| required p \<and>
        (Label c, Recipient c) \<notin> D \<and> Q (invocation p (Recipient c)))"

definition orphaned :: "(string, syncPoint) fmap \<Rightarrow> CallbackState \<Rightarrow> bool" where
  "orphaned ps c \<longleftrightarrow> (\<forall>p. fmlookup ps (Label c) = Some p \<longrightarrow> epoch p \<noteq> Epoch c)"

definition obl_ok :: "owner \<Rightarrow> participants \<Rightarrow> nat \<Rightarrow> nat \<Rightarrow> (string, syncPoint) fmap \<Rightarrow> nat \<Rightarrow> CallbackState \<Rightarrow> bool" where
  "obl_ok own D ns ne ps n c \<longleftrightarrow>
     Sequence c = n \<and> 0 < n \<and> n \<le> ns \<and> Recipient c \<noteq> 0 \<and> own n = (Label c, Recipient c, Kind c) \<and> Epoch c \<le> ne \<and>
     (case Kind c of
        callbackAnnounce \<Rightarrow> 0 < Epoch c \<and>
          (placed D ps c (\<lambda>i. Announce i = n \<and> \<not> AnnounceInvoked i) \<or> orphaned ps c \<and> Entered c)
      | callbackSynchronized \<Rightarrow> 0 < Epoch c \<and> placed D ps c (\<lambda>i. Synchronized i = n \<and> \<not> SynchronizedInvoked i)
      | callbackRegistrationSucceeded \<Rightarrow> 0 < Epoch c
      | callbackRegistrationFailed \<Rightarrow> Reason c \<in> {RegistrationFailureLabelNotUnique, RegistrationFailureSetMemberNotJoined}
      | callbackInvalid _ \<Rightarrow> False)"

definition frame_ok :: "nat \<Rightarrow> syncPoint \<Rightarrow> bool" where
  "frame_ok ne p \<longleftrightarrow> \<not> dynamic p \<and> 0 < epoch p \<and> epoch p \<le> ne \<and> fmdom (callbacks p) |\<subseteq>| required p"

definition ledger :: "owner \<Rightarrow> participants \<Rightarrow> participants \<Rightarrow> participants \<Rightarrow> federationState \<Rightarrow> bool" where
  "ledger own D A S st \<longleftrightarrow>
     (\<forall>l p. fmlookup (points st) l = Some p \<longrightarrow> frame_ok (nextEpoch st) p \<and>
        (\<forall>h. h |\<in>| required p \<and> (l, h) \<notin> D \<longrightarrow> inv_ok own A S (nextSequence st) (obligations st) l h p (invocation p h))) \<and>
     (\<forall>n c. fmlookup (obligations st) n = Some c \<longrightarrow> obl_ok own D (nextSequence st) (nextEpoch st) (points st) n c) \<and>
     (\<forall>c\<in>set (pending st). fmlookup (obligations st) (Sequence c) = Some c) \<and>
     sorted_wrt (<) (map Sequence (pending st))"

lemma ledgerI:
  assumes "\<And>l p. fmlookup (points st) l = Some p \<Longrightarrow> frame_ok (nextEpoch st) p"
    and "\<And>l p h. \<lbrakk>fmlookup (points st) l = Some p; h |\<in>| required p; (l, h) \<notin> D\<rbrakk> \<Longrightarrow>
      inv_ok own A S (nextSequence st) (obligations st) l h p (invocation p h)"
    and "\<And>n c. fmlookup (obligations st) n = Some c \<Longrightarrow> obl_ok own D (nextSequence st) (nextEpoch st) (points st) n c"
    and "\<And>c. c \<in> set (pending st) \<Longrightarrow> fmlookup (obligations st) (Sequence c) = Some c"
    and "sorted_wrt (<) (map Sequence (pending st))"
  shows "ledger own D A S st"
  using assms unfolding ledger_def by blast

lemma ledgerD:
  assumes "ledger own D A S st"
  shows "fmlookup (points st) l = Some p \<Longrightarrow> frame_ok (nextEpoch st) p"
    and "fmlookup (points st) l = Some p \<Longrightarrow> h |\<in>| required p \<Longrightarrow> (l, h) \<notin> D \<Longrightarrow>
      inv_ok own A S (nextSequence st) (obligations st) l h p (invocation p h)"
    and "fmlookup (obligations st) n = Some c \<Longrightarrow> obl_ok own D (nextSequence st) (nextEpoch st) (points st) n c"
    and "c \<in> set (pending st) \<Longrightarrow> fmlookup (obligations st) (Sequence c) = Some c"
    and "sorted_wrt (<) (map Sequence (pending st))"
  using assms unfolding ledger_def by blast+

lemma ledger_seq: "ledger own D A S st \<Longrightarrow> fmlookup (obligations st) n = Some c \<Longrightarrow> Sequence c = n \<and> 0 < n \<and> n \<le> nextSequence st"
  using ledgerD(3) by (fastforce simp: obl_ok_def)

lemma pending_bound: "ledger own D A S st \<Longrightarrow> c \<in> set (pending st) \<Longrightarrow> Sequence c \<le> nextSequence st"
  using ledgerD(4) ledger_seq by blast

lemma ledger_empty: "ledger own {} {} {} emptyFederationState"
  by (simp add: ledger_def emptyFederationState_def)

section \<open>Issuing a callback\<close>

text \<open>What one call of \<open>enqueue\<close> adds to the counters, the obligations and the queue.\<close>

definition issued :: "CallbackState \<Rightarrow> federationState \<Rightarrow> CallbackState" where
  "issued c st = c\<lparr>Sequence := nextSequence st + 1,
     Epoch := (case fmlookup (points st) (Label c) of Some p \<Rightarrow> epoch p | None \<Rightarrow> Epoch c)\<rparr>"

lemma issued_simps [simp]:
  "Sequence (issued c st) = Suc (nextSequence st)" "Label (issued c st) = Label c" "Recipient (issued c st) = Recipient c"
  "Kind (issued c st) = Kind c" "Entered (issued c st) = Entered c" "Reason (issued c st) = Reason c"
  "fmlookup (points st) (Label c) = Some p \<Longrightarrow> Epoch (issued c st) = epoch p"
  "fmlookup (points st) (Label c) = None \<Longrightarrow> Epoch (issued c st) = Epoch c"
  by (auto simp: issued_def)

lemma enqueue_effect:
  assumes "enqueue c st = Inr st'"
  shows "nextSequence st' = Suc (nextSequence st)" "nextEpoch st' = nextEpoch st"
    "pending st' = pending st @ [issued c st]" "obligations st' = fmupd (Suc (nextSequence st)) (issued c st) (obligations st)"
proof -
  have "epoch p = z \<Longrightarrow> c\<lparr>Sequence := n, Epoch := z\<rparr> = c\<lparr>Sequence := n\<rparr>\<lparr>Epoch := epoch p\<rparr>" for p n z by simp
  moreover have "c\<lparr>Sequence := n, Epoch := Epoch c\<rparr> = c\<lparr>Sequence := n\<rparr>" for n by (cases c) simp
  ultimately have "issued c st = (case fmlookup (points st) (Label c) of Some p \<Rightarrow> c\<lparr>Sequence := Suc (nextSequence st)\<rparr>\<lparr>Epoch := epoch p\<rparr>
      | None \<Rightarrow> c\<lparr>Sequence := Suc (nextSequence st)\<rparr>)"
    by (simp add: issued_def split: option.split)
  then show "nextSequence st' = Suc (nextSequence st)" "nextEpoch st' = nextEpoch st"
    "pending st' = pending st @ [issued c st]" "obligations st' = fmupd (Suc (nextSequence st)) (issued c st) (obligations st)"
    using assms by (auto simp: enqueue_def Let_def split: if_splits option.splits)
qed

lemma inv_ok_grows:
  assumes "inv_ok own A S ns obl l h p i"
  shows "inv_ok (own(Suc ns := x)) A S (Suc ns) (fmupd (Suc ns) c obl) l h p i"
  using assms unfolding inv_ok_def by auto

lemma inv_ok_cong:
  assumes "inv_ok own A S ns obl l h p i" and "state q = state p" "h |\<in>| achieved q \<Longrightarrow> h |\<in>| achieved p" "epoch q = epoch p"
    and "(l, h) \<in> A' \<longleftrightarrow> (l, h) \<in> A" "(l, h) \<in> S' \<longleftrightarrow> (l, h) \<in> S"
  shows "inv_ok own A' S' ns obl l h q i"
  unfolding inv_ok_def assms(2,4-6) using assms(1) [unfolded inv_ok_def] assms(3) by (elim conjE) (intro conjI; blast)

lemma inv_ok_obl:
  assumes i: "inv_ok own A S ns obl l h p i" and o: "\<And>n x c. own n = (l, h, x) \<Longrightarrow> fmlookup obl n = Some c \<Longrightarrow> fmlookup obl' n = Some c"
  shows "inv_ok own A S ns obl' l h p i"
proof -
  have "Announce i \<noteq> 0 \<and> \<not> AnnounceInvoked i \<longrightarrow>
      (\<exists>c. fmlookup obl' (Announce i) = Some c \<and> Epoch c = epoch p \<and> Entered c = AnnounceEntered i)"
    "Synchronized i \<noteq> 0 \<and> \<not> SynchronizedInvoked i \<longrightarrow> (\<exists>c. fmlookup obl' (Synchronized i) = Some c \<and> Epoch c = epoch p)"
    using i o [of "Announce i"] o [of "Synchronized i"] unfolding inv_ok_def by blast+
  then show ?thesis using i unfolding inv_ok_def by blast
qed

lemma queue_grows:
  assumes "ledger own D A S st" "enqueue c st = Inr st'"
  shows "d \<in> set (pending st') \<Longrightarrow> fmlookup (obligations st') (Sequence d) = Some d" "sorted_wrt (<) (map Sequence (pending st'))"
proof -
  note e = enqueue_effect [OF assms(2)]
  have b: "Sequence d \<le> nextSequence st" if "d \<in> set (pending st)" for d by (rule pending_bound [OF assms(1) that])
  show "fmlookup (obligations st') (Sequence d) = Some d" if "d \<in> set (pending st')"
    using that b [of d] ledgerD(4) [OF assms(1), of d] by (auto simp: e)
  show "sorted_wrt (<) (map Sequence (pending st'))"
    using ledgerD(5) [OF assms(1)] b by (auto simp: e sorted_wrt_append less_Suc_eq_le)
qed

text \<open>A confirmation of a registration.\<close>

lemma enqueue_confirm:
  assumes L: "ledger own D A S st" and e: "enqueue c st = Inr st'" and r: "Recipient c \<noteq> 0"
    and k: "Kind c = callbackRegistrationSucceeded \<and> fmlookup (points st) (Label c) \<noteq> None \<or>
      Kind c = callbackRegistrationFailed \<and> Epoch c = 0 \<and> Reason c \<in> {RegistrationFailureLabelNotUnique, RegistrationFailureSetMemberNotJoined}"
  shows "ledger (own(Suc (nextSequence st) := (Label c, Recipient c, Kind c))) D A S st' \<and> points st' = points st"
proof -
  note ef = enqueue_effect [OF e]
  have ps: "points st' = points st" using enqueue_points [OF e] k by (auto split: option.splits)
  let ?own = "own(Suc (nextSequence st) := (Label c, Recipient c, Kind c))"
  have "ledger ?own D A S st'"
  proof (rule ledgerI)
    fix l p assume p: "fmlookup (points st') l = Some p"
    then show "frame_ok (nextEpoch st') p" using ledgerD(1) [OF L] by (simp add: ps ef)
    fix h assume "h |\<in>| required p" "(l, h) \<notin> D"
    then show "inv_ok ?own A S (nextSequence st') (obligations st') l h p (invocation p h)"
      using ledgerD(2) [OF L] p inv_ok_grows by (simp add: ps ef)
  next
    fix n d assume d: "fmlookup (obligations st') n = Some d"
    show "obl_ok ?own D (nextSequence st') (nextEpoch st') (points st') n d"
    proof (cases "n = Suc (nextSequence st)")
      case True
      then have "d = issued c st" using d by (simp add: ef)
      moreover have "0 < Epoch (issued c st) \<and> Epoch (issued c st) \<le> nextEpoch st" if "fmlookup (points st) (Label c) = Some p" for p
        using ledgerD(1) [OF L that] that by (simp add: frame_ok_def)
      ultimately show ?thesis using True k r
        by (cases "fmlookup (points st) (Label c)") (auto simp: obl_ok_def ef ps)
    next
      case False
      then have "obl_ok own D (nextSequence st) (nextEpoch st) (points st) n d" using d ledgerD(3) [OF L] by (simp add: ef)
      then show ?thesis using False by (auto simp: obl_ok_def ef ps)
    qed
  qed (use queue_grows [OF L e] in auto)
  then show ?thesis using ps by blast
qed

text \<open>An announcement or a notification, for a participant that waits for it.\<close>

lemma placed_mono: "placed D ps c Q \<Longrightarrow> (\<And>i. Q i \<Longrightarrow> Q' i) \<Longrightarrow> placed D ps c Q'"
  by (auto simp: placed_def)

lemma placed_upd:
  assumes "placed D ps c Q" and "fmlookup ps l = Some p" and "Label c = l \<and> Recipient c = h \<Longrightarrow> Q (invocation p h) \<Longrightarrow> Q i"
  shows "placed D (fmupd l (p\<lparr>callbacks := fmupd h i (callbacks p)\<rparr>) ps) c Q"
  using assms by (auto simp: placed_def)

lemma orphaned_upd:
  assumes "orphaned ps c" and "fmlookup ps l = Some p"
  shows "orphaned (fmupd l (p\<lparr>callbacks := fmupd h i (callbacks p)\<rparr>) ps) c"
  using assms by (auto simp: orphaned_def)

text \<open>\<open>i'\<close> is the invocation \<open>i\<close> with its new sequence number; \<open>A'\<close> and \<open>S'\<close> say who still waits.\<close>

lemma enqueue_invocation:
  assumes L: "ledger own D A S st" and e: "enqueue c st = Inr st'"
    and p: "fmlookup (points st) (Label c) = Some p" "Recipient c |\<in>| required p" "(Label c, Recipient c) \<notin> D" "Recipient c \<noteq> 0"
    and k: "Kind c = callbackAnnounce \<and> (Label c, Recipient c) \<in> A \<and> A' = A - {(Label c, Recipient c)} \<and> S' = S \<or>
      Kind c = callbackSynchronized \<and> (Label c, Recipient c) \<in> S \<and> S' = S - {(Label c, Recipient c)} \<and> A' = A \<and> state p = StateAchieved"
    and ent: "\<not> Entered c"
  shows "ledger (own(Suc (nextSequence st) := (Label c, Recipient c, Kind c))) D A' S' st'"
proof (rule ledgerI)
  let ?n = "Suc (nextSequence st)" let ?l = "Label c" let ?h = "Recipient c" let ?i = "invocation p ?h"
  let ?own = "own(?n := (?l, ?h, Kind c))"
  define i where "i = (if Kind c = callbackAnnounce then ?i\<lparr>Announce := ?n\<rparr> else ?i\<lparr>Synchronized := ?n\<rparr>)"
  note ef = enqueue_effect [OF e]
  have ps: "points st' = fmupd ?l (p\<lparr>callbacks := fmupd ?h i (callbacks p)\<rparr>) (points st)"
    using enqueue_points [OF e] k p(1) unfolding i_def by auto
  have iok: "inv_ok own A S (nextSequence st) (obligations st) ?l ?h p ?i" by (rule ledgerD(2) [OF L p(1-3)])
  have fok: "frame_ok (nextEpoch st) p" by (rule ledgerD(1) [OF L p(1)])
  show "frame_ok (nextEpoch st') q" if "fmlookup (points st') l = Some q" for l q
    using that ledgerD(1) [OF L, of l q] fok p(2) by (auto simp: ps ef frame_ok_def split: if_splits)
  show "inv_ok ?own A' S' (nextSequence st') (obligations st') l h q (invocation q h)"
    if q: "fmlookup (points st') l = Some q" "h |\<in>| required q" "(l, h) \<notin> D" for l q h
  proof (cases "l = ?l \<and> h = ?h")
    case True
    then have "q = p\<lparr>callbacks := fmupd ?h i (callbacks p)\<rparr>" using q(1) by (simp add: ps)
    then show ?thesis using True iok k ent p(1) by (auto simp: inv_ok_def ef i_def)
  next
    case False
    obtain q0 where q0: "fmlookup (points st) l = Some q0" "h |\<in>| required q0" "invocation q h = invocation q0 h"
      "state q = state q0" "achieved q = achieved q0" "epoch q = epoch q0"
      using q False p(1) by (auto simp: ps split: if_splits)
    have "inv_ok ?own A S ?n (obligations st') l h q0 (invocation q0 h)"
      using inv_ok_grows [OF ledgerD(2) [OF L q0(1,2) q(3)]] by (simp add: ef)
    moreover have "(l, h) \<in> A' \<longleftrightarrow> (l, h) \<in> A" "(l, h) \<in> S' \<longleftrightarrow> (l, h) \<in> S" using k False by auto
    ultimately have "inv_ok ?own A' S' ?n (obligations st') l h q (invocation q0 h)" using q0(4-6) by (elim inv_ok_cong) simp_all
    then show ?thesis by (simp add: ef(1) q0(3))
  qed
  show "obl_ok ?own D (nextSequence st') (nextEpoch st') (points st') n d" if d: "fmlookup (obligations st') n = Some d" for n d
  proof (cases "n = ?n")
    case True
    have pl: "placed D (points st') (issued c st) Q" if "Q i" for Q
      using that p by (auto simp: placed_def ps)
    have "d = issued c st" using d True by (simp add: ef)
    moreover have "0 < epoch p \<and> epoch p \<le> nextEpoch st" using fok by (simp add: frame_ok_def)
    moreover have "Kind c = callbackAnnounce \<and> placed D (points st') (issued c st) (\<lambda>i. Announce i = ?n \<and> \<not> AnnounceInvoked i) \<or>
        Kind c = callbackSynchronized \<and> placed D (points st') (issued c st) (\<lambda>i. Synchronized i = ?n \<and> \<not> SynchronizedInvoked i)"
      using k
    proof
      assume a: "Kind c = callbackAnnounce \<and> (?l, ?h) \<in> A \<and> A' = A - {(?l, ?h)} \<and> S' = S"
      then have "\<not> AnnounceInvoked ?i" using iok unfolding inv_ok_def by blast
      then show ?thesis using a pl by (simp add: i_def)
    next
      assume a: "Kind c = callbackSynchronized \<and> (?l, ?h) \<in> S \<and> S' = S - {(?l, ?h)} \<and> A' = A \<and> state p = StateAchieved"
      then have "\<not> SynchronizedInvoked ?i" using iok unfolding inv_ok_def by blast
      then show ?thesis using a pl by (simp add: i_def)
    qed
    ultimately show ?thesis using True p(1,4) by (auto simp: obl_ok_def ef)
  next
    case False
    then have o: "obl_ok own D (nextSequence st) (nextEpoch st) (points st) n d" using d ledgerD(3) [OF L] by (simp add: ef)
    have A: "placed D (points st') d (\<lambda>i. Announce i = n \<and> \<not> AnnounceInvoked i)"
      if "placed D (points st) d (\<lambda>i. Announce i = n \<and> \<not> AnnounceInvoked i)" "0 < n"
      unfolding ps by (rule placed_upd [OF that(1) p(1)]) (use k iok that(2) in \<open>auto simp: i_def inv_ok_def\<close>)
    have S: "placed D (points st') d (\<lambda>i. Synchronized i = n \<and> \<not> SynchronizedInvoked i)"
      if "placed D (points st) d (\<lambda>i. Synchronized i = n \<and> \<not> SynchronizedInvoked i)" "0 < n"
      unfolding ps by (rule placed_upd [OF that(1) p(1)]) (use k iok that(2) in \<open>auto simp: i_def inv_ok_def\<close>)
    have O: "orphaned (points st') d" if "orphaned (points st) d" unfolding ps by (rule orphaned_upd [OF that p(1)])
    show ?thesis using o False A S O by (auto simp: obl_ok_def ef split: callbackKind.splits)
  qed
qed (use queue_grows [OF L e] in auto)

lemma enqueue_point:
  assumes "enqueue c st = Inr st'" "fmlookup (points st) l = Some p"
  obtains q where "fmlookup (points st') l = Some q" "skel q = skel p"
  using enqueue_shape [OF assms(1)] assms(2) by (metis shape_Some)

lemma skelD: "skel q = skel p \<Longrightarrow> state q = state p \<and> required q = required p \<and> achieved q = achieved p \<and> failed q = failed p \<and>
    epoch q = epoch p \<and> allMembers q = allMembers p \<and> dynamic q = dynamic p \<and> tag q = tag p"
  by (metis skel_simps)

lemma enqueueAll_announcements:
  assumes "enqueueAll (map c hs) st = Inr st'" and "ledger own D ({l} \<times> set hs) S st" and "fmlookup (points st) l = Some p"
    and "set hs \<subseteq> fset (required p)" and "distinct hs" and "0 \<notin> set hs" and "\<forall>h\<in>set hs. (l, h) \<notin> D"
    and "\<And>h. Kind (c h) = callbackAnnounce \<and> Label (c h) = l \<and> Recipient (c h) = h \<and> \<not> Entered (c h)"
  shows "\<exists>own'. ledger own' D {} S st'"
  using assms
proof (induction hs arbitrary: st own p)
  case (Cons h hs)
  obtain u where u: "enqueue (c h) st = Inr u" "enqueueAll (map c hs) u = Inr st'" using Cons.prems(1) by (auto simp: result_simps)
  obtain q where q: "fmlookup (points u) l = Some q" "skel q = skel p" using enqueue_point [OF u(1) Cons.prems(3)] by blast
  note ch = Cons.prems(8) [of h]
  have "ledger (own(Suc (nextSequence st) := (Label (c h), Recipient (c h), Kind (c h)))) D ({l} \<times> set hs) S u"
    by (rule enqueue_invocation [OF Cons.prems(2) u(1), of p]) (use ch Cons.prems in auto)
  then show ?case
    using Cons.IH [OF u(2) _ q(1)] skelD [OF q(2)] Cons.prems(4-8) by auto
qed auto

lemma enqueueAll_notifications:
  assumes "enqueueAll (map c hs) st = Inr st'" and "ledger own D A ({l} \<times> set hs) st" and "fmlookup (points st) l = Some p"
    and "set hs \<subseteq> fset (required p)" and "distinct hs" and "0 \<notin> set hs" and "\<forall>h\<in>set hs. (l, h) \<notin> D" and "state p = StateAchieved"
    and "\<And>h. Kind (c h) = callbackSynchronized \<and> Label (c h) = l \<and> Recipient (c h) = h \<and> \<not> Entered (c h)"
  shows "\<exists>own'. ledger own' D A {} st'"
  using assms
proof (induction hs arbitrary: st own p)
  case (Cons h hs)
  obtain u where u: "enqueue (c h) st = Inr u" "enqueueAll (map c hs) u = Inr st'" using Cons.prems(1) by (auto simp: result_simps)
  obtain q where q: "fmlookup (points u) l = Some q" "skel q = skel p" using enqueue_point [OF u(1) Cons.prems(3)] by blast
  note ch = Cons.prems(9) [of h]
  have "ledger (own(Suc (nextSequence st) := (Label (c h), Recipient (c h), Kind (c h)))) D A ({l} \<times> set hs) u"
    by (rule enqueue_invocation [OF Cons.prems(2) u(1), of p]) (use ch Cons.prems in auto)
  then show ?case
    using Cons.IH [OF u(2) _ q(1)] skelD [OF q(2)] Cons.prems(4-9) by auto
qed auto

end
