(* ===== verification/Sync_Strict.thy ===== *)
theory Sync_Strict
  imports Sync_Ledger
begin

text \<open>
  Every service of the strict profile keeps the callback ledger.
\<close>

section \<open>Replacing and dropping a point\<close>

lemma placed_replace:
  assumes "placed D ps c Q" and "fmlookup ps l = Some p" and "epoch q = epoch p"
    and "Label c = l \<Longrightarrow> Recipient c |\<in>| required p \<Longrightarrow> (l, Recipient c) \<notin> D \<Longrightarrow>
      Recipient c |\<in>| required q \<and> invocation q (Recipient c) = invocation p (Recipient c)"
  shows "placed D (fmupd l q ps) c Q"
  using assms by (auto simp: placed_def)

lemma orphaned_replace: "orphaned ps c \<Longrightarrow> fmlookup ps l = Some p \<Longrightarrow> epoch q = epoch p \<Longrightarrow> orphaned (fmupd l q ps) c"
  by (auto simp: orphaned_def)

lemma obl_ok_replace:
  assumes "obl_ok own D ns ne ps n c" and "fmlookup ps l = Some p" and "epoch q = epoch p"
    and "Label c = l \<Longrightarrow> Recipient c |\<in>| required p \<Longrightarrow> (l, Recipient c) \<notin> D \<Longrightarrow>
      Recipient c |\<in>| required q \<and> invocation q (Recipient c) = invocation p (Recipient c)"
  shows "obl_ok own D ns ne (fmupd l q ps) n c"
  using assms(1) placed_replace [OF _ assms(2-4)] orphaned_replace [OF _ assms(2,3)]
  unfolding obl_ok_def by (cases "Kind c") auto

lemma ledger_replace:
  assumes L: "ledger own D A S st" and p: "fmlookup (points st) l = Some p" and q: "frame_ok (nextEpoch st) q" "epoch q = epoch p"
    and i: "\<And>h. h |\<in>| required q \<Longrightarrow> (l, h) \<notin> D \<Longrightarrow> inv_ok own A' S' (nextSequence st) (obligations st) l h q (invocation q h)"
    and o: "\<And>l' h. l' \<noteq> l \<Longrightarrow> ((l', h) \<in> A' \<longleftrightarrow> (l', h) \<in> A) \<and> ((l', h) \<in> S' \<longleftrightarrow> (l', h) \<in> S)"
    and k: "\<And>h. h |\<in>| required p \<Longrightarrow> (l, h) \<notin> D \<Longrightarrow> h |\<in>| required q \<and> invocation q h = invocation p h"
  shows "ledger own D A' S' (putPoint l q st)"
proof (rule ledgerI)
  let ?st = "putPoint l q st"
  have s: "nextSequence ?st = nextSequence st" "nextEpoch ?st = nextEpoch st" "obligations ?st = obligations st"
    "pending ?st = pending st" "points ?st = fmupd l q (points st)" by (simp_all add: sync_simps)
  show "frame_ok (nextEpoch ?st) r" if "fmlookup (points ?st) l' = Some r" for l' r
    using that q(1) ledgerD(1) [OF L] by (auto simp: s split: if_splits)
  show "inv_ok own A' S' (nextSequence ?st) (obligations ?st) l' h r (invocation r h)"
    if r: "fmlookup (points ?st) l' = Some r" "h |\<in>| required r" "(l', h) \<notin> D" for l' r h
  proof (cases "l' = l")
    case True
    then have "r = q" using r(1) by (simp add: s)
    then show ?thesis unfolding s using True r i by blast
  next
    case False
    then have "inv_ok own A S (nextSequence st) (obligations st) l' h r (invocation r h)" using r ledgerD(2) [OF L] by (simp add: s)
    then show ?thesis unfolding s using o [OF False] by (elim inv_ok_cong) simp_all
  qed
  show "obl_ok own D (nextSequence ?st) (nextEpoch ?st) (points ?st) n c" if "fmlookup (obligations ?st) n = Some c" for n c
    unfolding s by (rule obl_ok_replace [OF ledgerD(3) [OF L] p q(2)]) (use that k s in auto)
qed (use ledgerD(4,5) [OF L] in \<open>auto simp: sync_simps\<close>)

lemma ledger_drop:
  assumes L: "ledger own D A S st" and p: "fmlookup (points st) l = Some p"
    and c: "\<And>n c. fmlookup (obligations st) n = Some c \<Longrightarrow> Label c = l \<Longrightarrow> Epoch c = epoch p \<Longrightarrow>
      (Kind c = callbackAnnounce \<longrightarrow> Entered c) \<and> Kind c \<noteq> callbackSynchronized"
  shows "ledger own D A S (dropPoint l st)"
proof (rule ledgerI)
  let ?st = "dropPoint l st"
  have s: "nextSequence ?st = nextSequence st" "nextEpoch ?st = nextEpoch st" "obligations ?st = obligations st"
    "points ?st = fmdrop l (points st)" by (simp_all add: sync_simps)
  show "frame_ok (nextEpoch ?st) r" if "fmlookup (points ?st) l' = Some r" for l' r
    using that ledgerD(1) [OF L] by (auto simp: s split: if_splits)
  show "inv_ok own A S (nextSequence ?st) (obligations ?st) l' h r (invocation r h)"
    if "fmlookup (points ?st) l' = Some r" "h |\<in>| required r" "(l', h) \<notin> D" for l' r h
    using that ledgerD(2) [OF L] by (auto simp: s split: if_splits)
  show "obl_ok own D (nextSequence ?st) (nextEpoch ?st) (points ?st) n d" if d: "fmlookup (obligations ?st) n = Some d" for n d
  proof -
    have o: "obl_ok own D (nextSequence st) (nextEpoch st) (points st) n d" using d ledgerD(3) [OF L] by (simp add: s)
    have keep: "placed D (fmdrop l (points st)) d Q \<or> Label d = l \<and> Epoch d = epoch p" if "placed D (points st) d Q" for Q
      using that p by (auto simp: placed_def)
    have orph: "orphaned (fmdrop l (points st)) d" if "Label d = l \<or> orphaned (points st) d"
      using that by (auto simp: orphaned_def)
    show ?thesis using o keep orph c [of n d] d unfolding obl_ok_def s by (cases "Kind d") auto
  qed
qed (use ledgerD(4,5) [OF L] in \<open>auto simp: sync_simps\<close>)

section \<open>Completion and retirement\<close>

lemma inv_ok_achieved:
  assumes "inv_ok own {} {} ns obl l h p i" and "state p \<noteq> StateAchieved" and "S = {l} \<times> fset (required p)" and "h |\<in>| required p"
  shows "inv_ok own {} S ns obl l h (p\<lparr>state := StateAchieved\<rparr>) i"
  using assms unfolding inv_ok_def by auto

lemma complete_ledger:
  assumes L: "ledger own D {} {} st" and p: "fmlookup (points st) l = Some p" and ok: "nearly_ok p"
    and D: "\<forall>h. h |\<in>| required p \<longrightarrow> (l, h) \<notin> D" and c: "complete opt l p st = Inr st'"
  shows "\<exists>own'. ledger own' D {} {} st'"
  using c
proof (cases rule: complete_cases)
  case 1
  then show ?thesis using L by blast
next
  case (2 u)
  let ?q = "p\<lparr>state := StateAchieved\<rparr>" let ?S = "{l} \<times> fset (required p)"
  note False = 2(1) and u = 2(3) and st' = 2(4)
  have "ledger own D {} ?S (putPoint l ?q st)"
  proof (rule ledger_replace [OF L p])
    show "frame_ok (nextEpoch st) ?q" using ledgerD(1) [OF L p] by (simp add: frame_ok_def)
    show "inv_ok own {} ?S (nextSequence st) (obligations st) l h ?q (invocation ?q h)" if "h |\<in>| required ?q" "(l, h) \<notin> D" for h
      using inv_ok_achieved [OF ledgerD(2) [OF L p]] that False by simp
  qed auto
  moreover have "fmlookup (points (putPoint l ?q st)) l = Some ?q" by (simp add: sync_simps)
  ultimately obtain own' where own': "ledger own' D {} {} u"
    using enqueueAll_notifications [OF u, of own D "{}" l ?q] ok D
    by (auto simp: nearly_ok_def synchronization_def callback_def)
  have "ledger own' D {} {} (dropPoint l u)" if e: "required p = {||}"
  proof -
    obtain r where r: "fmlookup (points u) l = Some r" "skel r = skel ?q"
      using enqueueAll_shape [OF u] by (metis shape_Some shape_put fun_upd_same)
    then have "required r = {||}" using skelD [OF r(2)] e by simp
    then show ?thesis using r(1) ledgerD(3) [OF own']
      by (intro ledger_drop [OF own' r(1)]) (fastforce simp: obl_ok_def placed_def orphaned_def)
  qed
  then show ?thesis using own' st' by auto
qed

lemma retire_ledger:
  assumes L: "ledger own D {} {} st" and ok: "points_ok st"
  shows "ledger own D {} {} (retire opt l st)"
proof (cases "fmlookup (points st) l")
  case None
  then show ?thesis using L by (simp add: retire_def)
next
  case (Some p)
  show ?thesis
  proof (cases "RequireInvocations opt \<and> state p = StateAchieved \<and> fBall (required p) (\<lambda>h. SynchronizedInvoked (invocation p h))")
    case True
    have "achieved p = required p" using points_ok_get [OF ok Some] True by (auto simp: point_ok_def)
    then have i: "AnnounceEntered (invocation p h) \<and> SynchronizedInvoked (invocation p h)" if "h |\<in>| required p" "(l, h) \<notin> D" for h
      using ledgerD(2) [OF L Some that] that True by (auto simp: inv_ok_def)
    have e: "Entered c" if "fmlookup (obligations st) n = Some c" "Kind c = callbackAnnounce"
      "placed D (points st) c (\<lambda>i. Announce i = n \<and> \<not> AnnounceInvoked i)" "Label c = l" "0 < n" for n c
    proof -
      have h: "Recipient c |\<in>| required p" "(l, Recipient c) \<notin> D" "Announce (invocation p (Recipient c)) = n"
        "\<not> AnnounceInvoked (invocation p (Recipient c))" using that(3,4) Some by (auto simp: placed_def)
      then show ?thesis using ledgerD(2) [OF L Some h(1,2)] i [OF h(1,2)] that(1,5) by (auto simp: inv_ok_def)
    qed
    have "ledger own D {} {} (dropPoint l st)"
    proof (rule ledger_drop [OF L Some])
      fix n c assume c: "fmlookup (obligations st) n = Some c" "Label c = l" "Epoch c = epoch p"
      have "obl_ok own D (nextSequence st) (nextEpoch st) (points st) n c" by (rule ledgerD(3) [OF L c(1)])
      then show "(Kind c = callbackAnnounce \<longrightarrow> Entered c) \<and> Kind c \<noteq> callbackSynchronized"
        using e [OF c(1)] i Some c(2) by (auto simp: obl_ok_def placed_def)
    qed
    then show ?thesis using Some True by (simp add: retire_def)
  next
    case False
    then have "retire opt l st = st" using Some by (auto simp: retire_def)
    then show ?thesis using L by simp
  qed
qed

section \<open>The services\<close>

definition strict_ok :: "federationState \<Rightarrow> bool" where
  "strict_ok st \<longleftrightarrow> points_ok st \<and> (\<exists>own. ledger own {} {} {} st)"

text \<open>A fresh point: nobody has been announced yet.\<close>

lemma ledger_new_point:
  assumes L: "ledger own {} {} {} st" and n: "fmlookup (points st) l = None"
    and p: "\<not> dynamic p" "epoch p = nextEpoch st + 1" "callbacks p = fmempty" "state p = StateAnnounced" "achieved p = {||}"
  shows "ledger own {} ({l} \<times> fset (required p)) {} (putPoint l p (st\<lparr>nextEpoch := nextEpoch st + 1\<rparr>))"
proof (rule ledgerI)
  let ?st = "putPoint l p (st\<lparr>nextEpoch := nextEpoch st + 1\<rparr>)" let ?A = "{l} \<times> fset (required p)"
  have s: "nextSequence ?st = nextSequence st" "nextEpoch ?st = Suc (nextEpoch st)" "obligations ?st = obligations st"
    "points ?st = fmupd l p (points st)" by (simp_all add: sync_simps)
  show "frame_ok (nextEpoch ?st) r" if "fmlookup (points ?st) l' = Some r" for l' r
  proof (cases "l' = l")
    case True
    then show ?thesis using that p unfolding s by (auto simp: frame_ok_def)
  next
    case False
    then show ?thesis using that ledgerD(1) [OF L, of l' r] unfolding s by (auto simp: frame_ok_def)
  qed
  show "inv_ok own ?A {} (nextSequence ?st) (obligations ?st) l' h r (invocation r h)"
    if r: "fmlookup (points ?st) l' = Some r" "h |\<in>| required r" "(l', h) \<notin> {}" for l' r h
  proof (cases "l' = l")
    case True
    then have "r = p" using r(1) unfolding s by simp
    then show ?thesis unfolding s using True r p by (simp add: inv_ok_def no_invocation_def)
  next
    case False
    then have "inv_ok own {} {} (nextSequence st) (obligations st) l' h r (invocation r h)" using r ledgerD(2) [OF L] unfolding s by simp
    then show ?thesis unfolding s by (elim inv_ok_cong) (use False in simp_all)
  qed
  show "obl_ok own {} (nextSequence ?st) (nextEpoch ?st) (points ?st) k c" if "fmlookup (obligations ?st) k = Some c" for k c
  proof -
    have o: "obl_ok own {} (nextSequence st) (nextEpoch st) (points st) k c" using that ledgerD(3) [OF L] unfolding s by simp
    have "placed {} (fmupd l p (points st)) c Q" if "placed {} (points st) c Q" for Q using that n by (auto simp: placed_def)
    moreover have "orphaned (fmupd l p (points st)) c" if "orphaned (points st) c" "Epoch c \<le> nextEpoch st"
      using that p(2) by (auto simp: orphaned_def)
    ultimately show ?thesis using o unfolding obl_ok_def s by (cases "Kind c") auto
  qed
qed (use ledgerD(4,5) [OF L] in \<open>auto simp: sync_simps\<close>)

lemma registrationFailed_strict:
  assumes "registrationFailed r l reason st = Inr (b, st')" and "\<exists>own. ledger own {} {} {} st" and "r \<noteq> Some 0"
    and "reason \<in> {RegistrationFailureLabelNotUnique, RegistrationFailureSetMemberNotJoined}"
  shows "\<exists>own. ledger own {} {} {} st'"
proof -
  obtain own where L: "ledger own {} {} {} st" using assms(2) by blast
  obtain h where h: "r = Some h" "enqueue ((callback callbackRegistrationFailed l h)\<lparr>Reason := reason\<rparr>) st = Inr st'"
    using assms(1) by (auto simp: registrationFailed_def bindR_eq_Inr_iff split: option.splits)
  then show ?thesis using enqueue_confirm [OF L h(2)] assms(3,4) by (auto simp: callback_def)
qed

lemma registerChange_strict:
  assumes r: "registerChange opt f l tg requested r st = Inr (b, st')" and ok: "\<exists>own. ledger own {} {} {} st" and ms: "Members opt \<noteq> None"
    and z: "r \<noteq> Some 0" "0 \<notin> set requested" "\<forall>ms. Members opt = Some ms \<longrightarrow> 0 \<notin> set (ms f)"
  shows "\<exists>own. ledger own {} {} {} st'"
proof (cases "fmlookup (points st) l \<noteq> None \<or> registrationMembers opt f requested r = None")
  case True
  then obtain reason where "registrationFailed r l reason st = Inr (b, st')"
    "reason \<in> {RegistrationFailureLabelNotUnique, RegistrationFailureSetMemberNotJoined}"
    using r by (auto simp: registerChange_def split: if_splits)
  then show ?thesis using registrationFailed_strict ok z(1) by blast
next
  case False
  then obtain hs where hs: "registrationMembers opt f requested r = Some hs" by blast
  obtain own where L: "ledger own {} {} {} st" using ok by blast
  define p where "p = newPoint opt tg hs (requested = []) (nextEpoch st + 1)"
  define s0 where "s0 = putPoint l p (st\<lparr>nextEpoch := nextEpoch st + 1\<rparr>)"
  have e: "enqueueAll ((case r of None \<Rightarrow> [] | Some h \<Rightarrow> [callback callbackRegistrationSucceeded l h]) @ map (announcement l p) (sortedHandles (required p))) s0 = Inr st'"
    using r False hs unfolding registerChange_def Let_def p_def s0_def by (auto simp del: enqueueAll.simps simp: bindR_eq_Inr_iff split: if_splits)
  have L0: "ledger own {} ({l} \<times> fset (required p)) {} s0" and l0: "fmlookup (points s0) l = Some p"
    unfolding s0_def using ledger_new_point [OF L, of l p] False ms by (auto simp: p_def newPoint_def sync_simps)
  have "\<exists>own' s1. ledger own' {} ({l} \<times> fset (required p)) {} s1 \<and> fmlookup (points s1) l = Some p \<and>
      enqueueAll (map (announcement l p) (sortedHandles (required p))) s1 = Inr st'"
  proof (cases r)
    case None
    then show ?thesis using e L0 l0 by auto
  next
    case (Some h)
    then obtain s1 where s1: "enqueue (callback callbackRegistrationSucceeded l h) s0 = Inr s1"
      "enqueueAll (map (announcement l p) (sortedHandles (required p))) s1 = Inr st'" using e by (auto simp: bindR_eq_Inr_iff)
    have "ledger (own(Suc (nextSequence s0) := (l, h, callbackRegistrationSucceeded))) {} ({l} \<times> fset (required p)) {} s1 \<and> points s1 = points s0"
      using enqueue_confirm [OF L0 s1(1)] z(1) Some l0 by (simp add: callback_def)
    then show ?thesis using s1(2) l0 by metis
  qed
  then obtain own' s1 where s1: "ledger own' {} ({l} \<times> fset (required p)) {} s1" "fmlookup (points s1) l = Some p"
    "enqueueAll (map (announcement l p) (sortedHandles (required p))) s1 = Inr st'" by blast
  have "0 \<notin> set hs" using hs z(2,3) by (auto simp: registrationMembers_def split: option.splits if_splits)
  then have "0 \<notin> fset (required p)" by (simp add: p_def newPoint_def fset_of_list.rep_eq)
  then show ?thesis
    using enqueueAll_announcements [OF s1(3) _ s1(2), of own' "{}" "{}"] s1(1) by (auto simp: announcement_def callback_def)
qed

lemma achieveChange_strict:
  assumes a: "achieveChange opt h l ok st = Inr (b, st')" and ok: "strict_ok st" and r: "RequireInvocations opt" and h: "h \<noteq> 0"
  shows "\<exists>own. ledger own {} {} {} st'"
proof -
  obtain own where L: "ledger own {} {} {} st" and P: "points_ok st" using ok by (auto simp: strict_ok_def)
  obtain p where p: "fmlookup (points st) l = Some p" using a by (auto simp: achieveChange_def split: option.splits)
  have d: "\<not> dynamic p" using ledgerD(1) [OF L p] by (simp add: frame_ok_def)
  define q where "q = p\<lparr>achieved := finsert h (achieved p), failed := (if ok then failed p else finsert h (failed p))\<rparr>"
  have c: "h |\<in>| required p" "h |\<notin>| achieved p" "AnnounceEntered (invocation p h)" "complete opt l q (putPoint l q st) = Inr st'"
    using a p d r unfolding achieveChange_def q_def by (auto simp: Let_def bindR_eq_Inr_iff split: if_splits)
  have "ledger own {} {} {} (putPoint l q st)"
  proof (rule ledger_replace [OF L p])
    show "frame_ok (nextEpoch st) q" using ledgerD(1) [OF L p] by (simp add: frame_ok_def q_def)
    show "inv_ok own {} {} (nextSequence st) (obligations st) l k q (invocation q k)" if "k |\<in>| required q" for k
      using ledgerD(2) [OF L p, of k] that c(3) unfolding inv_ok_def q_def by (auto simp: invocation_def)
  qed (auto simp: q_def invocation_def)
  moreover have "nearly_ok q" using points_ok_get [OF P p] c(1,2) by (auto simp: point_ok_def nearly_ok_def q_def)
  ultimately show ?thesis using complete_ledger [of own "{}" "putPoint l q st" l q opt st'] c(4) by (simp add: sync_simps)
qed

lemma joinPoints_strict:
  "joinPoints h ls st = Inr st' \<Longrightarrow> \<exists>own. ledger own {} {} {} st \<Longrightarrow> points_ok st \<Longrightarrow> h \<noteq> 0 \<Longrightarrow> \<exists>own. ledger own {} {} {} st'"
proof (induction ls arbitrary: st)
  case (Cons l ls)
  show ?case
  proof (cases "\<exists>p. fmlookup (points st) l = Some p \<and> allMembers p \<and> state p = StateAnnounced \<and> h |\<notin>| required p")
    case False
    then have "joinPoints h ls st = Inr st'" using Cons.prems(1) by (auto split: option.splits if_splits)
    then show ?thesis using Cons.IH Cons.prems by blast
  next
    case True
    then obtain p where p: "fmlookup (points st) l = Some p" "allMembers p" "state p = StateAnnounced" "h |\<notin>| required p" by blast
    obtain own where L: "ledger own {} {} {} st" using Cons.prems(2) by blast
    define q where "q = p\<lparr>required := finsert h (required p)\<rparr>"
    obtain u where u: "enqueue (announcement l q h) (putPoint l q st) = Inr u" "joinPoints h ls u = Inr st'"
      using Cons.prems(1) p by (auto simp: Let_def bindR_eq_Inr_iff q_def)
    have pk: "point_ok p" by (rule points_ok_get [OF Cons.prems(3) p(1)])
    then have "point_ok q" using p(3,4) Cons.prems(4) by (auto simp: point_ok_def q_def)
    then have P: "points_ok (putPoint l q st)" by (rule points_ok_put [OF Cons.prems(3)])
    have "h |\<notin>| fmdom (callbacks p)" using ledgerD(1) [OF L p(1)] p(4) by (auto simp: frame_ok_def)
    then have ni: "invocation q h = no_invocation" by (auto simp: invocation_def q_def dest: fmdom_notD)
    have "ledger own {} {(l, h)} {} (putPoint l q st)"
    proof (rule ledger_replace [OF L p(1)])
      show "frame_ok (nextEpoch st) q" using ledgerD(1) [OF L p(1)] by (auto simp: frame_ok_def q_def)
      show "inv_ok own {(l, h)} {} (nextSequence st) (obligations st) l k q (invocation q k)" if k: "k |\<in>| required q" for k
      proof (cases "k = h")
        case True
        have "h |\<notin>| achieved q" "state q = StateAnnounced" using pk p by (auto simp: point_ok_def q_def)
        then show ?thesis using True ni by (simp add: inv_ok_def no_invocation_def)
      next
        case False
        then have "inv_ok own {} {} (nextSequence st) (obligations st) l k p (invocation q k)"
          using k ledgerD(2) [OF L p(1), of k] by (simp add: q_def invocation_def)
        then show ?thesis by (elim inv_ok_cong) (use False in \<open>simp_all add: q_def\<close>)
      qed
    qed (auto simp: q_def)
    then have "\<exists>own. ledger own {} {} {} u"
      using enqueue_invocation [of own "{}" "{(l, h)}" "{}" "putPoint l q st" "announcement l q h" u q "{}" "{}"] u(1) Cons.prems(4)
      by (auto simp: announcement_def callback_def sync_simps q_def)
    moreover have "points_ok u" using points_ok_same [OF enqueue_shape [OF u(1)]] P by blast
    ultimately show ?thesis using Cons.IH u(2) Cons.prems(4) by blast
  qed
qed simp

section \<open>Resignation\<close>

lemma forgetRecipient_simps [simp]:
  "points (forgetRecipient h st) = points st" "nextSequence (forgetRecipient h st) = nextSequence st" "nextEpoch (forgetRecipient h st) = nextEpoch st"
  "fmlookup (obligations (forgetRecipient h st)) n = Some c \<longleftrightarrow> fmlookup (obligations st) n = Some c \<and> Recipient c \<noteq> h"
  by (auto simp: forgetRecipient_def)

lemma forget_ledger:
  assumes L: "ledger own {} {} {} st"
  shows "ledger own (UNIV \<times> {h}) {} {} (forgetRecipient h st)"
proof (rule ledgerI)
  let ?st = "forgetRecipient h st"
  show "frame_ok (nextEpoch ?st) p" if "fmlookup (points ?st) l = Some p" for l p using that ledgerD(1) [OF L] by simp
  show "inv_ok own {} {} (nextSequence ?st) (obligations ?st) l k p (invocation p k)"
    if p: "fmlookup (points ?st) l = Some p" "k |\<in>| required p" "(l, k) \<notin> UNIV \<times> {h}" for l p k
  proof -
    have i: "inv_ok own {} {} (nextSequence st) (obligations st) l k p (invocation p k)" using p ledgerD(2) [OF L] by simp
    have "inv_ok own {} {} (nextSequence st) (obligations ?st) l k p (invocation p k)"
    proof (rule inv_ok_obl [OF i])
      fix n x c assume "own n = (l, k, x)" "fmlookup (obligations st) n = Some c"
      then have "Recipient c = k" using ledgerD(3) [OF L, of n c] by (simp add: obl_ok_def)
      then show "fmlookup (obligations ?st) n = Some c" using \<open>fmlookup (obligations st) n = Some c\<close> p(3) by simp
    qed
    then show ?thesis by simp
  qed
  show "obl_ok own (UNIV \<times> {h}) (nextSequence ?st) (nextEpoch ?st) (points ?st) n c" if "fmlookup (obligations ?st) n = Some c" for n c
  proof -
    have "Recipient c \<noteq> h" "obl_ok own {} (nextSequence st) (nextEpoch st) (points st) n c" using that ledgerD(3) [OF L] by simp_all
    moreover from this(1) have "placed (UNIV \<times> {h}) (points st) c Q" if "placed {} (points st) c Q" for Q using that by (auto simp: placed_def)
    ultimately show ?thesis unfolding obl_ok_def by (cases "Kind c") auto
  qed
  show "fmlookup (obligations ?st) (Sequence c) = Some c" if "c \<in> set (pending ?st)" for c
    using that ledgerD(4) [OF L, of c] by (simp add: forgetRecipient_def)
  show "sorted_wrt (<) (map Sequence (pending ?st))"
    using ledgerD(5) [OF L] by (simp add: forgetRecipient_def sorted_wrt_map sorted_wrt_filter)
qed

lemma withdraw_ledger:
  assumes L: "ledger own (UNIV \<times> {h}) {} {} st" and p: "fmlookup (points st) l = Some p"
  shows "ledger own (UNIV \<times> {h}) {} {} (putPoint l (withdraw h p) st)"
proof (rule ledger_replace [OF L p])
  show "frame_ok (nextEpoch st) (withdraw h p)" using ledgerD(1) [OF L p] by (auto simp: frame_ok_def withdraw_def)
  show "inv_ok own {} {} (nextSequence st) (obligations st) l k (withdraw h p) (invocation (withdraw h p) k)"
    if k: "k |\<in>| required (withdraw h p)" "(l, k) \<notin> UNIV \<times> {h}" for k
  proof -
    have "inv_ok own {} {} (nextSequence st) (obligations st) l k p (invocation (withdraw h p) k)"
      using ledgerD(2) [OF L p, of k] k unfolding invocation_withdraw by (simp add: withdraw_def)
    then show ?thesis by (elim inv_ok_cong) (simp_all add: withdraw_def)
  qed
  show "epoch (withdraw h p) = epoch p" by (simp add: withdraw_def)
  show "k |\<in>| required (withdraw h p) \<and> invocation (withdraw h p) k = invocation p k"
    if "k |\<in>| required p" "(l, k) \<notin> UNIV \<times> {h}" for k
    using that by (simp add: invocation_withdraw) (simp add: withdraw_def)
qed simp

text \<open>The participants left after each point: those of the labels still to come.\<close>

definition holds :: "handle \<Rightarrow> federationState \<Rightarrow> string set" where
  "holds h st = {l. \<exists>q. shape st l = Some q \<and> h |\<in>| required q}"

lemma retire_holds: "holds h (retire opt l st) \<subseteq> holds h st"
  by (auto simp: retire_def holds_def split: option.splits if_splits)

lemma completed_required [simp]: "required (completed p) = required p"
  by (simp add: completed_def)

lemma obl_ok_mono: "obl_ok own D ns ne ps n c \<Longrightarrow> D' \<subseteq> D \<Longrightarrow> obl_ok own D' ns ne ps n c"
  unfolding obl_ok_def placed_def by (cases "Kind c") auto

lemma resignPoints_strict:
  assumes "resignPoints opt h ls st = Inr st'" and "\<exists>own. ledger own (UNIV \<times> {h}) {} {} st" and "points_ok st" and "holds h st \<subseteq> set ls"
  shows "\<exists>own. ledger own {} {} {} st'"
  using assms
proof (induction ls arbitrary: st)
  case Nil
  then obtain own where L: "ledger own (UNIV \<times> {h}) {} {} st'" by auto
  have "h |\<notin>| required p" if "fmlookup (points st') l = Some p" for l p
  proof -
    have "shape st' l = Some (skel p)" using that by (simp add: shape_def)
    then show ?thesis using Nil(1,4) by (force simp: holds_def)
  qed
  then have "inv_ok own {} {} (nextSequence st') (obligations st') l k p (invocation p k)"
    if "fmlookup (points st') l = Some p" "k |\<in>| required p" for l p k using that ledgerD(2) [OF L that] by auto
  moreover have "obl_ok own {} (nextSequence st') (nextEpoch st') (points st') n c" if "fmlookup (obligations st') n = Some c" for n c
    by (rule obl_ok_mono [OF ledgerD(3) [OF L that]]) simp
  ultimately have "ledger own {} {} {} st'" by (intro ledgerI ledgerD(1,4,5) [OF L])
  then show ?case by blast
next
  case (Cons l ls)
  show ?case
  proof (cases "fmlookup (points st) l")
    case None
    then have "l \<notin> holds h st" by (simp add: holds_def shape_Some)
    then have "holds h st \<subseteq> set ls" using Cons.prems(4) by auto
    then show ?thesis using None Cons by simp
  next
    case (Some p)
    obtain own where L: "ledger own (UNIV \<times> {h}) {} {} st" using Cons.prems(2) by blast
    let ?p = "withdraw h p"
    obtain u where u: "complete opt l ?p (putPoint l ?p st) = Inr u" "resignPoints opt h ls (retire opt l u) = Inr st'"
      using Cons.prems(1) Some by (auto simp: Let_def bindR_eq_Inr_iff)
    have ok: "nearly_ok ?p" by (rule withdraw_nearly_ok [OF points_ok_get [OF Cons.prems(3) Some]])
    have P: "points_ok u" by (rule complete_points_ok [OF u(1) Cons.prems(3) ok])
    have "\<exists>own. ledger own (UNIV \<times> {h}) {} {} u"
      using complete_ledger [OF withdraw_ledger [OF L Some] _ ok _ u(1)] by (simp add: sync_simps withdraw_def)
    then have 1: "\<exists>own. ledger own (UNIV \<times> {h}) {} {} (retire opt l u)" using retire_ledger P by blast
    have "h |\<notin>| required ?p" by (simp add: withdraw_def)
    then have "holds h u \<subseteq> holds h st - {l}"
      using complete_shape [OF u(1) _ ok] by (auto simp: holds_def split: if_splits)
    then have "holds h (retire opt l u) \<subseteq> set ls" using Cons.prems(4) retire_holds [of h opt l u] by auto
    then show ?thesis using Cons.IH [OF u(2) 1 retire_points_ok [OF P]] by blast
  qed
qed

section \<open>Receipts\<close>

text \<open>
  A receipt for the callback \<open>n\<close> of the participant \<open>h\<close> of the point \<open>p\<close>: the invocation becomes
  \<open>i\<close>, and the obligation is changed or dropped.
\<close>

lemma receipt_ledger:
  assumes L: "ledger own {} {} {} st" and p: "fmlookup (points st) l = Some p" "h |\<in>| required p"
    and n: "fmlookup (obligations st) n = Some c" "Label c = l" "Recipient c = h" "\<not> callbackPending (pending st) n"
    and obl: "\<And>k. k \<noteq> n \<Longrightarrow> fmlookup obl k = fmlookup (obligations st) k"
    and i: "inv_ok own {} {} (nextSequence st) obl l h p i"
    and c': "\<And>d. fmlookup obl n = Some d \<Longrightarrow> obl_ok own {} (nextSequence st) (nextEpoch st) (fmupd l (p\<lparr>callbacks := fmupd h i (callbacks p)\<rparr>) (points st)) n d"
    and k: "\<And>k. k \<noteq> n \<Longrightarrow> Announce (invocation p h) = k \<and> \<not> AnnounceInvoked (invocation p h) \<Longrightarrow> Announce i = k \<and> \<not> AnnounceInvoked i"
      "\<And>k. k \<noteq> n \<Longrightarrow> Synchronized (invocation p h) = k \<and> \<not> SynchronizedInvoked (invocation p h) \<Longrightarrow> Synchronized i = k \<and> \<not> SynchronizedInvoked i"
  shows "ledger own {} {} {} (putPoint l (p\<lparr>callbacks := fmupd h i (callbacks p)\<rparr>) (st\<lparr>obligations := obl\<rparr>))"
proof (rule ledgerI)
  let ?q = "p\<lparr>callbacks := fmupd h i (callbacks p)\<rparr>"
  let ?st = "putPoint l ?q (st\<lparr>obligations := obl\<rparr>)"
  have s: "nextSequence ?st = nextSequence st" "nextEpoch ?st = nextEpoch st" "obligations ?st = obl" "pending ?st = pending st"
    "points ?st = fmupd l ?q (points st)" by (simp_all add: sync_simps)
  have own: "own n = (l, h, Kind c)" using ledgerD(3) [OF L n(1)] n(2,3) by (simp add: obl_ok_def)
  show "frame_ok (nextEpoch ?st) r" if "fmlookup (points ?st) l' = Some r" for l' r
    using that ledgerD(1) [OF L, of l' r] ledgerD(1) [OF L p(1)] p(2) unfolding s by (auto simp: frame_ok_def split: if_splits)
  show "inv_ok own {} {} (nextSequence ?st) (obligations ?st) l' k r (invocation r k)"
    if r: "fmlookup (points ?st) l' = Some r" "k |\<in>| required r" "(l', k) \<notin> {}" for l' r k
  proof (cases "l' = l \<and> k = h")
    case True
    then have "r = ?q" using r(1) unfolding s by simp
    moreover have "inv_ok own {} {} (nextSequence st) obl l h ?q i" using i by (elim inv_ok_cong) simp_all
    ultimately show ?thesis using True unfolding s by simp
  next
    case False
    obtain r0 where r0: "fmlookup (points st) l' = Some r0" "k |\<in>| required r0" "invocation r k = invocation r0 k"
      "state r = state r0" "achieved r = achieved r0" "epoch r = epoch r0"
      using r False p(1) unfolding s by (auto split: if_splits)
    have "inv_ok own {} {} (nextSequence st) (obligations st) l' k r0 (invocation r0 k)" by (rule ledgerD(2) [OF L r0(1,2)]) simp
    then have "inv_ok own {} {} (nextSequence st) obl l' k r0 (invocation r0 k)"
    proof (rule inv_ok_obl)
      fix m x d assume m: "own m = (l', k, x)" "fmlookup (obligations st) m = Some d"
      then have "m \<noteq> n" using own False by auto
      then show "fmlookup obl m = Some d" using m(2) obl by simp
    qed
    then show ?thesis unfolding s r0(3) by (elim inv_ok_cong) (use r0(4-6) in simp_all)
  qed
  show "obl_ok own {} (nextSequence ?st) (nextEpoch ?st) (points ?st) m d" if d: "fmlookup (obligations ?st) m = Some d" for m d
  proof (cases "m = n")
    case True
    then show ?thesis using d c' unfolding s by blast
  next
    case False
    then have o: "obl_ok own {} (nextSequence st) (nextEpoch st) (points st) m d" using d obl ledgerD(3) [OF L] unfolding s by simp
    have A: "placed {} (points ?st) d (\<lambda>i. Announce i = m \<and> \<not> AnnounceInvoked i)"
      if "placed {} (points st) d (\<lambda>i. Announce i = m \<and> \<not> AnnounceInvoked i)"
      unfolding s by (rule placed_upd [OF that p(1)]) (use k(1) False in auto)
    have S: "placed {} (points ?st) d (\<lambda>i. Synchronized i = m \<and> \<not> SynchronizedInvoked i)"
      if "placed {} (points st) d (\<lambda>i. Synchronized i = m \<and> \<not> SynchronizedInvoked i)"
      unfolding s by (rule placed_upd [OF that p(1)]) (use k(2) False in auto)
    have O: "orphaned (points ?st) d" if "orphaned (points st) d" unfolding s by (rule orphaned_upd [OF that p(1)])
    show ?thesis using o A S O unfolding obl_ok_def by (cases "Kind d") (auto simp: sync_simps)
  qed
  show "fmlookup (obligations ?st) (Sequence d) = Some d" if "d \<in> set (pending ?st)" for d
  proof -
    have "Sequence d \<noteq> n" using that n(4) unfolding s by (auto simp: callbackPending_def list_ex_iff)
    then show ?thesis using that obl ledgerD(4) [OF L, of d] unfolding s by simp
  qed
  show "sorted_wrt (<) (map Sequence (pending ?st))" using ledgerD(5) [OF L] unfolding s .
qed

lemma unplaced_observed_ledger:
  assumes L: "ledger own {} {} {} st" and n: "fmlookup (obligations st) n = Some c" "\<not> callbackPending (pending st) n"
    and k: "Kind c \<in> {callbackRegistrationSucceeded, callbackRegistrationFailed} \<or> orphaned (points st) c"
  shows "ledger own {} {} {} (observed entry n c st)"
proof (rule ledgerI)
  let ?st = "observed entry n c st"
  have s: "nextSequence ?st = nextSequence st" "nextEpoch ?st = nextEpoch st" "points ?st = points st" "pending ?st = pending st"
    by (simp_all add: observed_def)
  have o: "fmlookup (obligations ?st) m = (if m = n then (if entry then Some (c\<lparr>Entered := True\<rparr>) else None) else fmlookup (obligations st) m)" for m
    by (simp add: observed_def)
  have oc: "obl_ok own {} (nextSequence st) (nextEpoch st) (points st) n c" by (rule ledgerD(3) [OF L n(1)])
  show "frame_ok (nextEpoch ?st) p" if "fmlookup (points ?st) l = Some p" for l p using that ledgerD(1) [OF L] unfolding s by blast
  show "inv_ok own {} {} (nextSequence ?st) (obligations ?st) l h p (invocation p h)"
    if p: "fmlookup (points ?st) l = Some p" "h |\<in>| required p" "(l, h) \<notin> {}" for l p h
  proof -
    have i: "inv_ok own {} {} (nextSequence st) (obligations st) l h p (invocation p h)" using p ledgerD(2) [OF L] unfolding s by blast
    have own: "own n = (Label c, Recipient c, Kind c)" using oc by (simp add: obl_ok_def)
    let ?i = "invocation p h"
    have no: "Epoch c \<noteq> epoch p" if "own n = (l, h, x)" "x \<in> {callbackAnnounce, callbackSynchronized}" for x
      using that own k p(1) unfolding s orphaned_def by auto
    have n0: "n \<noteq> 0" using oc by (simp add: obl_ok_def)
    have n': "Announce ?i \<noteq> n \<or> AnnounceInvoked ?i" "Synchronized ?i \<noteq> n \<or> SynchronizedInvoked ?i"
      using i no n0 n(1) unfolding inv_ok_def by fastforce+
    have "\<exists>c. fmlookup (obligations ?st) (Announce ?i) = Some c \<and> Epoch c = epoch p \<and> Entered c = AnnounceEntered ?i"
      if a: "Announce ?i \<noteq> 0 \<and> \<not> AnnounceInvoked ?i"
    proof -
      have "fmlookup (obligations ?st) (Announce ?i) = fmlookup (obligations st) (Announce ?i)" using n'(1) a by (simp add: o)
      then show ?thesis using i a unfolding inv_ok_def by simp
    qed
    moreover have "\<exists>c. fmlookup (obligations ?st) (Synchronized ?i) = Some c \<and> Epoch c = epoch p"
      if a: "Synchronized ?i \<noteq> 0 \<and> \<not> SynchronizedInvoked ?i"
    proof -
      have "fmlookup (obligations ?st) (Synchronized ?i) = fmlookup (obligations st) (Synchronized ?i)" using n'(2) a by (simp add: o)
      then show ?thesis using i a unfolding inv_ok_def by simp
    qed
    ultimately show ?thesis using i unfolding s inv_ok_def by blast
  qed
  show "obl_ok own {} (nextSequence ?st) (nextEpoch ?st) (points ?st) m d" if d: "fmlookup (obligations ?st) m = Some d" for m d
  proof (cases "m = n")
    case True
    then have "d = c\<lparr>Entered := True\<rparr>" using d unfolding o by (auto split: if_splits)
    then show ?thesis using oc k True unfolding s obl_ok_def
      by (cases "Kind c") (auto simp: orphaned_def placed_def)
  next
    case False
    then show ?thesis using d ledgerD(3) [OF L] unfolding s o by simp
  qed
  show "fmlookup (obligations ?st) (Sequence d) = Some d" if "d \<in> set (pending ?st)" for d
    using that n(2) ledgerD(4) [OF L, of d] unfolding s o by (auto simp: callbackPending_def list_ex_iff)
  show "sorted_wrt (<) (map Sequence (pending ?st))" using ledgerD(5) [OF L] unfolding s .
qed

text \<open>The receipt of an announcement, and of a notification, that belongs to the point.\<close>

lemma announce_observed_ledger:
  assumes L: "ledger own {} {} {} st" and p: "fmlookup (points st) l = Some p" "epoch p = Epoch c"
    and n: "fmlookup (obligations st) n = Some c" "Label c = l" "Recipient c = h" "\<not> callbackPending (pending st) n"
    and k: "Kind c = callbackAnnounce" and e: "\<not> entry \<Longrightarrow> Entered c"
    and i': "i' = (if entry then (invocation p h)\<lparr>AnnounceEntered := True\<rparr> else (invocation p h)\<lparr>AnnounceInvoked := True\<rparr>)"
  shows "ledger own {} {} {} (putPoint l (p\<lparr>callbacks := fmupd h i' (callbacks p)\<rparr>) (observed entry n c st))"
proof -
  let ?i = "invocation p h"
  have oc: "obl_ok own {} (nextSequence st) (nextEpoch st) (points st) n c" by (rule ledgerD(3) [OF L n(1)])
  then have h: "h |\<in>| required p" "Announce ?i = n" "\<not> AnnounceInvoked ?i" "own n = (l, h, callbackAnnounce)" "0 < n"
    using k p n(2,3) by (auto simp: obl_ok_def placed_def orphaned_def)
  have i: "inv_ok own {} {} (nextSequence st) (obligations st) l h p ?i" by (rule ledgerD(2) [OF L p(1) h(1)]) simp
  have sn: "Synchronized ?i \<noteq> n" "Entered c = AnnounceEntered ?i" using i h n(1) by (auto simp: inv_ok_def)
  show ?thesis unfolding observed_def
  proof (rule receipt_ledger [OF L p(1) h(1) n])
    let ?obl = "if entry then fmupd n (c\<lparr>Entered := True\<rparr>) (obligations st) else fmdrop n (obligations st)"
    show "fmlookup ?obl m = fmlookup (obligations st) m" if "m \<noteq> n" for m using that by simp
    show "inv_ok own {} {} (nextSequence st) ?obl l h p i'"
      using i h sn e p(2) unfolding inv_ok_def i' by auto
    show "obl_ok own {} (nextSequence st) (nextEpoch st) (fmupd l (p\<lparr>callbacks := fmupd h i' (callbacks p)\<rparr>) (points st)) n d"
      if "fmlookup ?obl n = Some d" for d
      using that oc k p n(2,3) h i' by (auto simp: obl_ok_def placed_def split: if_splits)
  qed (use h(2) i' in auto)
qed

lemma synchronized_observed_ledger:
  assumes L: "ledger own {} {} {} st" and p: "fmlookup (points st) l = Some p" "epoch p = Epoch c"
    and n: "fmlookup (obligations st) n = Some c" "Label c = l" "Recipient c = h" "\<not> callbackPending (pending st) n"
    and k: "Kind c = callbackSynchronized"
    and i': "i' = (if entry then invocation p h else (invocation p h)\<lparr>SynchronizedInvoked := True\<rparr>)"
  shows "ledger own {} {} {} (putPoint l (p\<lparr>callbacks := fmupd h i' (callbacks p)\<rparr>) (observed entry n c st))"
proof -
  let ?i = "invocation p h"
  have oc: "obl_ok own {} (nextSequence st) (nextEpoch st) (points st) n c" by (rule ledgerD(3) [OF L n(1)])
  then have h: "h |\<in>| required p" "Synchronized ?i = n" "\<not> SynchronizedInvoked ?i" "own n = (l, h, callbackSynchronized)" "0 < n"
    using k p n(2,3) by (auto simp: obl_ok_def placed_def orphaned_def)
  have i: "inv_ok own {} {} (nextSequence st) (obligations st) l h p ?i" by (rule ledgerD(2) [OF L p(1) h(1)]) simp
  have sn: "Announce ?i \<noteq> n" using i h n(1) by (auto simp: inv_ok_def)
  show ?thesis unfolding observed_def
  proof (rule receipt_ledger [OF L p(1) h(1) n])
    let ?obl = "if entry then fmupd n (c\<lparr>Entered := True\<rparr>) (obligations st) else fmdrop n (obligations st)"
    show "fmlookup ?obl m = fmlookup (obligations st) m" if "m \<noteq> n" for m using that by simp
    show "inv_ok own {} {} (nextSequence st) ?obl l h p i'"
      using i h sn p(2) unfolding inv_ok_def i' by auto
    show "obl_ok own {} (nextSequence st) (nextEpoch st) (fmupd l (p\<lparr>callbacks := fmupd h i' (callbacks p)\<rparr>) (points st)) n d"
      if "fmlookup ?obl n = Some d" for d
      using that oc k p n(2,3) h i' by (auto simp: obl_ok_def placed_def split: if_splits)
  qed (use h(2) i' in auto)
qed

lemma observed_shape [simp]: "shape (observed entry n c st) = shape st"
  by (rule shape_same) (simp add: observed_def)

lemma retire_strict: "points_ok st \<Longrightarrow> ledger own {} {} {} st \<Longrightarrow> strict_ok (retire opt l st)"
  using retire_ledger retire_points_ok unfolding strict_ok_def by blast

lemma observePointCallback_strict:
  assumes L: "ledger own {} {} {} st" and P: "points_ok st" and p: "fmlookup (points st) l = Some p" "epoch p = Epoch c"
    and n: "fmlookup (obligations st) n = Some c" "Label c = l" "Recipient c = h" "\<not> callbackPending (pending st) n"
    and e: "\<not> entry \<Longrightarrow> Entered c"
    and o: "observePointCallback opt p h (observedKind (Kind c)) l n entry (observed entry n c st) = Inr (Some st')"
  shows "strict_ok st'"
proof -
  have s: "points_ok (putPoint l (p\<lparr>callbacks := cs\<rparr>) (observed entry n c st))" for cs
    using P points_ok_get [OF P p(1)] by (auto simp: points_ok_shape)
  have oc: "obl_ok own {} (nextSequence st) (nextEpoch st) (points st) n c" by (rule ledgerD(3) [OF L n(1)])
  show ?thesis
  proof (cases "Kind c")
    case callbackAnnounce
    define i' where "i' = (if entry then (invocation p h)\<lparr>AnnounceEntered := True\<rparr> else (invocation p h)\<lparr>AnnounceInvoked := True\<rparr>)"
    have "st' = retire opt l (putPoint l (p\<lparr>callbacks := fmupd h i' (callbacks p)\<rparr>) (observed entry n c st))"
      using o callbackAnnounce by (auto simp: observePointCallback_def Let_def i'_def split: if_splits)
    then show ?thesis using retire_strict [OF s announce_observed_ledger [OF L p n callbackAnnounce e i'_def]] by simp
  next
    case callbackSynchronized
    define i' where "i' = (if entry then invocation p h else (invocation p h)\<lparr>SynchronizedInvoked := True\<rparr>)"
    have "st' = retire opt l (putPoint l (p\<lparr>callbacks := fmupd h i' (callbacks p)\<rparr>) (observed entry n c st))"
      using o callbackSynchronized by (auto simp: observePointCallback_def Let_def i'_def split: if_splits)
    then show ?thesis using retire_strict [OF s synchronized_observed_ledger [OF L p n callbackSynchronized i'_def]] by simp
  next
    case callbackInvalid
    then show ?thesis using oc by (simp add: obl_ok_def)
  qed (use o P unplaced_observed_ledger [OF L n(1,4), of entry] in \<open>auto simp: observePointCallback_def strict_ok_def points_ok_shape\<close>)
qed

lemma observeCallback_strict:
  assumes ok: "strict_ok (stateOf m f)" and r: "RequireInvocations opt"
  shows "strict_ok (stateOf (snd (observeCallback opt f h kind l n entry m)) f)"
proof -
  let ?st = "stateOf m f"
  obtain own where L: "ledger own {} {} {} ?st" and P: "points_ok ?st" using ok by (auto simp: strict_ok_def)
  show ?thesis
  proof (cases "\<exists>c. n \<noteq> 0 \<and> fmlookup (obligations ?st) n = Some c \<and> Recipient c = h \<and> Label c = l \<and> observedKind (Kind c) = kind \<and>
      \<not> callbackPending (pending ?st) n \<and> (entry \<or> Entered c)")
    case False
    then have "snd (observeCallback opt f h kind l n entry m) = m"
      using r by (auto simp: observeCallback_def Let_def split: option.split)
    then show ?thesis using ok by simp
  next
    case True
    then obtain c where c: "fmlookup (obligations ?st) n = Some c" "Label c = l" "Recipient c = h" "\<not> callbackPending (pending ?st) n"
      and c': "n \<noteq> 0" "observedKind (Kind c) = kind" "entry \<or> Entered c" by blast
    let ?next = "observed entry n c ?st"
    have pe: "points ?next = points ?st" by (simp add: observed_def)
    have q: "observeCallback opt f h kind l n entry m =
       (case fmlookup (points ?next) l of
          None \<Rightarrow> (None, publishState f ?next m)
        | Some p \<Rightarrow>
            if epoch p \<noteq> Epoch c then (None, publishState f ?next m)
            else (case observePointCallback opt p h kind l n entry ?next of
                    Inl err \<Rightarrow> (Some err, m) | Inr None \<Rightarrow> (None, m) | Inr (Some next) \<Rightarrow> (None, publishState f next m)))"
      using c c'(1,2) unfolding observeCallback_def Let_def by (cases entry) (use c'(3) in simp_all)
    show ?thesis
    proof (cases "orphaned (points ?st) c")
      case True
      then have "snd (observeCallback opt f h kind l n entry m) = publishState f ?next m"
        using c(2) unfolding q pe orphaned_def by (auto split: option.split)
      then show ?thesis using unplaced_observed_ledger [OF L c(1,4)] True P by (auto simp: strict_ok_def points_ok_shape)
    next
      case False
      then obtain p where p: "fmlookup (points ?st) l = Some p" "epoch p = Epoch c" using c(2) by (auto simp: orphaned_def)
      show ?thesis
      proof (cases "\<exists>st'. observePointCallback opt p h kind l n entry ?next = Inr (Some st')")
        case True
        then obtain st' where st': "observePointCallback opt p h (observedKind (Kind c)) l n entry ?next = Inr (Some st')" using c'(2) by blast
        then have "strict_ok st'" using observePointCallback_strict [OF L P p c _ st'] c'(3) by blast
        then show ?thesis using q p st' c'(2) by (simp add: pe)
      next
        case False
        then have "snd (observeCallback opt f h kind l n entry m) = m"
          unfolding q using p by (auto simp: pe split: sum.split option.split)
        then show ?thesis using ok by simp
      qed
    qed
  qed
qed

section \<open>Transitions\<close>

text \<open>
  The contract between a property of the federation's state and the manager's transitions: a
  property that admitting, requeueing and redelivering the pending callbacks keep is kept by
  every transition whose change keeps it, and by a retry, whatever the outbox answers.
\<close>

locale sync_invariant =
  fixes opt :: SyncOptions and I :: "federationState \<Rightarrow> bool"
  assumes admitted: "I st \<Longrightarrow> I (admitted opt st)"
    and refilled: "I st \<Longrightarrow> I ((admitted opt st)\<lparr>pending := pending st\<rparr>)"
    and retried: "I st \<Longrightarrow> I (retried opt st)"
begin

lemma transition_keeps:
  assumes "I (stateOf m g)" and "\<And>b st. change (stateOf m f) = Inr (b, st) \<Longrightarrow> f = g \<Longrightarrow> I st"
  shows "I (stateOf (snd (transition opt f lifecycle change m)) g)"
proof (cases "\<exists>b st. change (stateOf m f) = Inr (b, st) \<and> f = g")
  case False
  then have "stateOf (snd (transition opt f lifecycle change m)) g = stateOf m g"
    by (auto simp: transition_def Let_def sendAll_state split: sum.split option.split prod.split)
  then show ?thesis using assms(1) by simp
next
  case True
  then obtain b st where x: "change (stateOf m f) = Inr (b, st)" "f = g" by blast
  then have "I st" "I (admitted opt st)" "I ((admitted opt st)\<lparr>pending := pending st\<rparr>)" using assms(2) admitted refilled by blast+
  then show ?thesis using x assms(1) by (auto simp: transition_def Let_def sendAll_state split: option.split prod.split)
qed

lemma retry_keeps: "I (stateOf m g) \<Longrightarrow> I (stateOf (snd (retryLoop opt f m)) g)"
proof (induction "length (pending (stateOf m f))" arbitrary: m rule: less_induct)
  case less
  let ?m = "publishState f (retried opt (stateOf m f)) (deliverAll f [delivery (hd (pending (stateOf m f)))] m)"
  show ?case
  proof (cases "pending (stateOf m f) = [] \<or> retryOnce opt f (hd (pending (stateOf m f))) \<noteq> None")
    case True
    then show ?thesis using less.prems by (subst retryLoop.simps) (auto simp: Let_def split: option.split)
  next
    case False
    have "I (stateOf ?m g)" using less.prems retried by auto
    moreover have "length (pending (stateOf ?m f)) < length (pending (stateOf m f))" using False by (simp add: retried_def)
    ultimately have "I (stateOf (snd (retryLoop opt f ?m)) g)" using less.hyps by blast
    then show ?thesis using False by (subst retryLoop.simps) (simp add: Let_def)
  qed
qed

end

lemma admitted_strict: "RequireInvocations opt \<Longrightarrow> strict_ok st \<Longrightarrow> strict_ok (admitted opt st)"
  unfolding strict_ok_def admitted_def ledger_def by (auto simp: points_ok_def)

lemma refilled_strict: "RequireInvocations opt \<Longrightarrow> strict_ok st \<Longrightarrow> strict_ok ((admitted opt st)\<lparr>pending := pending st\<rparr>)"
  unfolding strict_ok_def admitted_def ledger_def by (auto simp: points_ok_def)

lemma retried_strict: "RequireInvocations opt \<Longrightarrow> strict_ok st \<Longrightarrow> strict_ok (retried opt st)"
  unfolding strict_ok_def retried_def ledger_def
  by (cases "pending st") (auto simp: points_ok_def)

interpretation strict: sync_invariant opt "\<lambda>st. RequireInvocations opt \<longrightarrow> strict_ok st" for opt
  by unfold_locales (simp_all add: admitted_strict refilled_strict retried_strict)

lemma transition_strict:
  assumes "RequireInvocations opt" "strict_ok (stateOf m g)" "\<And>b st. change (stateOf m f) = Inr (b, st) \<Longrightarrow> f = g \<Longrightarrow> strict_ok st"
  shows "strict_ok (stateOf (snd (transition opt f lifecycle change m)) g)"
  using strict.transition_keeps [of opt m g change f lifecycle] assms by blast

end
