(* ===== verification/Sync_Image.thy ===== *)
theory Sync_Image
  imports Sync_Core
begin

text \<open>
  The saved image of the synchronization manager: export, validation and import
  (\<open>snapshot.go\<close>), and the reconciliation of the callbacks a transport has captured
  (\<open>restore_callbacks.go\<close>) of \<open>rti/internal/hla/synchronization\<close>.  Cloning a slice or a map is
  the identity here, and a nil slice and an empty one are the same list.
\<close>

section \<open>The image\<close>

record PointState =
  psLabel :: string
  psTag :: bytes
  psState :: SyncPointState
  psRequired :: "handle list"
  psAchieved :: "handle list"
  psFailed :: "handle list"
  psDynamic :: bool
  psAllMembers :: bool
  psEpoch :: nat
  psInvocations :: "InvocationState list"

record ManagerState =
  msVersion :: nat
  msRequireInvocations :: bool
  msNextSequence :: nat
  msNextEpoch :: nat
  msPoints :: "PointState list"
  msPending :: "CallbackState list"
  msObligations :: "CallbackState list"

definition sortedCallbackSequences :: "(nat, CallbackState) fmap \<Rightarrow> nat list" where
  "sortedCallbackSequences cs = sorted_list_of_fset (fmdom cs)"

definition exportPoint :: "string \<Rightarrow> syncPoint \<Rightarrow> PointState" where
  "exportPoint l p =
     \<lparr>psLabel = l, psTag = tag p, psState = state p, psRequired = sortedHandles (required p),
      psAchieved = sortedHandles (achieved p), psFailed = sortedHandles (failed p), psDynamic = dynamic p,
      psAllMembers = allMembers p, psEpoch = epoch p,
      psInvocations = map (\<lambda>h. (invocation p h)\<lparr>iRecipient := h\<rparr>) (sortedHandles (required p))\<rparr>"

definition exportFederation :: "bool \<Rightarrow> federationState \<Rightarrow> ManagerState" where
  "exportFederation strict st =
     \<lparr>msVersion = 3, msRequireInvocations = strict, msNextSequence = nextSequence st, msNextEpoch = nextEpoch st,
      msPoints = map (\<lambda>l. exportPoint l (the (fmlookup (points st) l))) (sortedLabels st),
      msPending = pending st,
      msObligations = (if strict then map (\<lambda>n. the (fmlookup (obligations st) n)) (sortedCallbackSequences (obligations st)) else [])\<rparr>"

definition ExportState :: "SyncOptions \<Rightarrow> SyncManager \<Rightarrow> fed_name \<Rightarrow> ManagerState option" where
  "ExportState opt m f = map_option (exportFederation (RequireInvocations opt)) (fmlookup (fed m) f)"

section \<open>Validation\<close>

definition refuse :: "string \<Rightarrow> sync_error + 'a" where
  "refuse why = Inl (ErrSnapshot why)"

definition validatePointParticipants :: "PointState \<Rightarrow> sync_error + unit" where
  "validatePointParticipants p =
     (let req = handleSet (psRequired p); ach = handleSet (psAchieved p); fld = handleSet (psFailed p) in
      if psState p \<noteq> StateAnnounced \<and> psState p \<noteq> StateAchieved then refuse ''invalid state''
      else if fcard req \<noteq> length (psRequired p) \<or> fcard ach \<noteq> length (psAchieved p) then refuse ''duplicate participant''
      else if 0 \<in> set (psRequired p) then refuse ''zero participant''
      else if \<not> list_all (\<lambda>h. h |\<in>| req) (psAchieved p) then refuse ''outsider achievement''
      else if fcard fld \<noteq> length (psFailed p) then refuse ''duplicate failed participant''
      else if \<not> list_all (\<lambda>h. h |\<in>| ach) (psFailed p) then refuse ''failure without achievement''
      else if psState p = StateAchieved \<and> fcard ach \<noteq> fcard req then refuse ''incomplete synchronized point''
      else Inr ())"

text \<open>The identities seen so far are the set \<open>sequences\<close> of the source.\<close>

fun claimSequences :: "nat \<Rightarrow> nat list \<Rightarrow> nat fset \<Rightarrow> sync_error + nat fset" where
  "claimSequences last_sequence [] seen = Inr seen"
| "claimSequences last_sequence (n # ns) seen =
     (if n = 0 then claimSequences last_sequence ns seen
      else if last_sequence < n \<or> n |\<in>| seen then refuse ''invalid callback identity''
      else claimSequences last_sequence ns (finsert n seen))"

definition validateInvocationIdentity :: "ManagerState \<Rightarrow> PointState \<Rightarrow> InvocationState \<Rightarrow> nat fset \<Rightarrow> sync_error + nat fset" where
  "validateInvocationIdentity ms p iv seen =
     (if msRequireInvocations ms \<and> Announce iv = 0 \<and> \<not> psDynamic p then refuse ''missing announcement identity''
      else if msRequireInvocations ms \<and> Synchronized iv = 0 \<and> psState p = StateAchieved then refuse ''missing synchronized identity''
      else if Synchronized iv \<noteq> 0 \<and> psState p \<noteq> StateAchieved then refuse ''premature synchronized identity''
      else claimSequences (msNextSequence ms) [Announce iv, Synchronized iv] seen)"

definition validateInvocation :: "ManagerState \<Rightarrow> PointState \<Rightarrow> InvocationState \<Rightarrow> nat fset \<Rightarrow> sync_error + nat fset" where
  "validateInvocation ms p iv seen =
     bindR (validateInvocationIdentity ms p iv seen) (\<lambda>seen.
       if (AnnounceEntered iv \<or> AnnounceInvoked iv) \<and> Announce iv = 0 \<or> SynchronizedInvoked iv \<and> Synchronized iv = 0
       then refuse ''invocation without identity''
       else if AnnounceInvoked iv \<and> \<not> AnnounceEntered iv then refuse ''completion without entry''
       else if msRequireInvocations ms \<and> iRecipient iv \<in> set (psAchieved p) \<and> \<not> AnnounceEntered iv
       then refuse ''achievement without announcement entry''
       else Inr seen)"

fun validateInvocations :: "ManagerState \<Rightarrow> PointState \<Rightarrow> InvocationState list \<Rightarrow> handle fset \<Rightarrow> nat fset \<Rightarrow> sync_error + handle fset \<times> nat fset" where
  "validateInvocations ms p [] invoked seen = Inr (invoked, seen)"
| "validateInvocations ms p (iv # ivs) invoked seen =
     (if iRecipient iv \<notin> set (psRequired p) \<or> iRecipient iv |\<in>| invoked then refuse ''invalid invocation recipient''
      else bindR (validateInvocation ms p iv seen) (validateInvocations ms p ivs (finsert (iRecipient iv) invoked)))"

definition validatePointInvocations :: "ManagerState \<Rightarrow> PointState \<Rightarrow> nat fset \<Rightarrow> sync_error + nat fset" where
  "validatePointInvocations ms p seen =
     (if msRequireInvocations ms \<and> psDynamic p then refuse ''legacy dynamic profile in strict image''
      else if msRequireInvocations ms \<and> psEpoch p = 0 \<or> msNextEpoch ms < psEpoch p then refuse ''invalid epoch''
      else bindR (validateInvocations ms p (psInvocations p) {||} seen) (\<lambda>(invoked, seen).
        if fcard invoked \<noteq> fcard (handleSet (psRequired p)) then refuse ''incomplete invocation ledger'' else Inr seen))"

fun validatePoints :: "ManagerState \<Rightarrow> PointState list \<Rightarrow> (string, PointState) fmap \<Rightarrow> nat fset \<Rightarrow> sync_error + (string, PointState) fmap \<times> nat fset" where
  "validatePoints ms [] labels seen = Inr (labels, seen)"
| "validatePoints ms (p # ps) labels seen =
     (if fmlookup labels (psLabel p) \<noteq> None then refuse ''duplicate label''
      else bindR (validatePointParticipants p) (\<lambda>_.
        bindR (if msVersion ms \<noteq> 0 then validatePointInvocations ms p seen else Inr seen)
          (validatePoints ms ps (fmupd (psLabel p) p labels))))"

definition validateObligation :: "ManagerState \<Rightarrow> CallbackState \<Rightarrow> (nat, CallbackState) fmap \<Rightarrow> sync_error + unit" where
  "validateObligation ms c known =
     (if msVersion ms \<noteq> 3 \<or> \<not> msRequireInvocations ms \<or> Sequence c = 0 \<or> msNextSequence ms < Sequence c \<or> Recipient c = 0 \<or>
         snd (delivery c) = None then refuse ''invalid callback obligation''
      else if fmlookup known (Sequence c) \<noteq> None then refuse ''duplicate callback obligation''
      else if msNextEpoch ms < Epoch c \<or> (Kind c \<noteq> callbackRegistrationFailed \<and> Epoch c = 0) then refuse ''invalid callback epoch''
      else if Kind c = callbackRegistrationFailed \<and> Reason c \<noteq> RegistrationFailureLabelNotUnique \<and>
         Reason c \<noteq> RegistrationFailureSetMemberNotJoined then refuse ''invalid registration failure reason''
      else Inr ())"

text \<open>The last invocation of the recipient decides.\<close>

definition invocationMatches :: "CallbackState \<Rightarrow> bool \<Rightarrow> InvocationState \<Rightarrow> bool" where
  "invocationMatches c durable iv \<longleftrightarrow>
     (Kind c = callbackAnnounce \<and> Announce iv = Sequence c \<and> \<not> AnnounceInvoked iv \<and>
        (if durable then Entered c = AnnounceEntered iv else \<not> AnnounceEntered iv)) \<or>
     (Kind c = callbackSynchronized \<and> Synchronized iv = Sequence c \<and> \<not> SynchronizedInvoked iv)"

definition matchesCallbackInvocation :: "PointState \<Rightarrow> CallbackState \<Rightarrow> bool \<Rightarrow> bool" where
  "matchesCallbackInvocation p c durable =
     foldl (\<lambda>matched iv. if iRecipient iv \<noteq> Recipient c then matched else invocationMatches c durable iv) False (psInvocations p)"

definition validateObligationInvocation :: "CallbackState \<Rightarrow> (string, PointState) fmap \<Rightarrow> nat fset \<Rightarrow> sync_error + unit" where
  "validateObligationInvocation c labels seen =
     (if Kind c = callbackAnnounce \<or> Kind c = callbackSynchronized then
        let orphan = (if Kind c \<noteq> callbackAnnounce \<or> \<not> Entered c then refuse ''orphan callback obligation'' else Inr ()) in
        (case fmlookup labels (Label c) of
           None \<Rightarrow> orphan
         | Some p \<Rightarrow>
             if psEpoch p \<noteq> Epoch c then orphan
             else if \<not> matchesCallbackInvocation p c True then refuse ''obligation invocation mismatch''
             else Inr ())
      else if Sequence c |\<in>| seen then refuse ''confirmation reuses point callback identity''
      else Inr ())"

fun validateObligations ::
  "ManagerState \<Rightarrow> (string, PointState) fmap \<Rightarrow> nat fset \<Rightarrow> CallbackState list \<Rightarrow> (nat, CallbackState) fmap \<Rightarrow> sync_error + (nat, CallbackState) fmap" where
  "validateObligations ms labels seen [] known = Inr known"
| "validateObligations ms labels seen (c # cs) known =
     bindR (validateObligation ms c known) (\<lambda>_.
       bindR (validateObligationInvocation c labels seen) (\<lambda>_.
         validateObligations ms labels seen cs (fmupd (Sequence c) c known)))"

definition obligationKnown :: "(nat, CallbackState) fmap \<Rightarrow> PointState \<Rightarrow> InvocationState \<Rightarrow> nat \<times> callbackKind \<times> bool \<Rightarrow> bool" where
  "obligationKnown known p iv = (\<lambda>(n, k, invoked).
     n = 0 \<or> invoked \<or>
     (case fmlookup known n of
        None \<Rightarrow> False
      | Some c \<Rightarrow> Kind c = k \<and> Epoch c = psEpoch p \<and> Label c = psLabel p \<and> Recipient c = iRecipient iv))"

definition validateDurableInvocations :: "ManagerState \<Rightarrow> (nat, CallbackState) fmap \<Rightarrow> sync_error + unit" where
  "validateDurableInvocations ms known =
     (if msVersion ms = 3 \<and> msRequireInvocations ms \<and>
        \<not> list_all (\<lambda>p. list_all (\<lambda>iv. list_all (obligationKnown known p iv)
            [(Announce iv, callbackAnnounce, AnnounceInvoked iv), (Synchronized iv, callbackSynchronized, SynchronizedInvoked iv)])
          (psInvocations p)) (msPoints ms)
      then refuse ''missing durable invocation obligation'' else Inr ())"

fun validatePendingCallbacks ::
  "ManagerState \<Rightarrow> (string, PointState) fmap \<Rightarrow> (nat, CallbackState) fmap \<Rightarrow> CallbackState list \<Rightarrow> nat fset \<Rightarrow> sync_error + unit" where
  "validatePendingCallbacks ms labels known [] seen = Inr ()"
| "validatePendingCallbacks ms labels known (c # cs) seen =
     (if Sequence c = 0 \<or> msNextSequence ms < Sequence c \<or> Sequence c |\<in>| seen \<or> Recipient c = 0 \<or> snd (delivery c) = None
      then refuse ''invalid pending callback''
      else let rest = validatePendingCallbacks ms labels known cs (finsert (Sequence c) seen) in
        if msVersion ms = 3 \<and> msRequireInvocations ms then
          if fmlookup known (Sequence c) \<noteq> Some c then refuse ''pending callback differs from durable obligation'' else rest
        else if Kind c = callbackAnnounce \<or> Kind c = callbackSynchronized then
          (case fmlookup labels (Label c) of
             None \<Rightarrow> refuse ''orphan pending callback''
           | Some p \<Rightarrow> if \<not> matchesCallbackInvocation p c False then refuse ''pending invocation mismatch'' else rest)
        else rest)"

definition ValidateState :: "bool \<Rightarrow> ManagerState option \<Rightarrow> sync_error + unit" where
  "ValidateState strict img =
     (case img of
        None \<Rightarrow> Inr ()
      | Some ms \<Rightarrow>
          if msVersion ms \<noteq> 0 \<and> msVersion ms \<noteq> 2 \<and> msVersion ms \<noteq> 3 then refuse ''unsupported version''
          else if strict \<and> (msPoints ms \<noteq> [] \<or> msPending ms \<noteq> [] \<or> msObligations ms \<noteq> [] \<or> msNextSequence ms \<noteq> 0) \<and>
            (msVersion ms \<noteq> 3 \<or> \<not> msRequireInvocations ms) then refuse ''exact admitted callback history unavailable''
          else bindR (validatePoints ms (msPoints ms) fmempty {||}) (\<lambda>(labels, seen).
            bindR (validateObligations ms labels seen (msObligations ms) fmempty) (\<lambda>known.
              bindR (validateDurableInvocations ms known) (\<lambda>_.
                validatePendingCallbacks ms labels known (msPending ms) {||}))))"

definition ValidateSnapshot :: "ManagerState option \<Rightarrow> sync_error + unit" where
  "ValidateSnapshot img = ValidateState (case img of Some ms \<Rightarrow> msRequireInvocations ms | None \<Rightarrow> False) img"

section \<open>Import\<close>

definition importPoint :: "PointState \<Rightarrow> syncPoint" where
  "importPoint p =
     \<lparr>tag = psTag p, state = psState p, required = handleSet (psRequired p), achieved = handleSet (psAchieved p),
      failed = handleSet (psFailed p), dynamic = psDynamic p, allMembers = psAllMembers p, epoch = psEpoch p,
      callbacks = foldl (\<lambda>cs iv. fmupd (iRecipient iv) iv cs) fmempty (psInvocations p)\<rparr>"

definition importFederation :: "ManagerState \<Rightarrow> federationState" where
  "importFederation ms =
     (let obl = foldl (\<lambda>os c. fmupd (Sequence c) c os) fmempty (msObligations ms);
          durable = (msVersion ms = 3 \<and> msRequireInvocations ms)
      in \<lparr>points = foldl (\<lambda>ps p. fmupd (psLabel p) (importPoint p) ps) fmempty (msPoints ms),
          nextSequence = msNextSequence ms, nextEpoch = msNextEpoch ms,
          pending = (if durable then map (\<lambda>n. the (fmlookup obl n)) (sortedCallbackSequences obl) else msPending ms),
          obligations = (if durable then obl else fmempty)\<rparr>)"

text \<open>\<open>PrepareImport\<close> returns the state that its commit function publishes.\<close>

definition PrepareImport :: "SyncOptions \<Rightarrow> ManagerState option \<Rightarrow> sync_error + federationState" where
  "PrepareImport opt img =
     bindR (ValidateState (RequireInvocations opt) img) (\<lambda>_.
       Inr (case img of Some ms \<Rightarrow> importFederation ms | None \<Rightarrow> emptyFederationState))"

definition ImportState :: "SyncOptions \<Rightarrow> fed_name \<Rightarrow> ManagerState option \<Rightarrow> SyncManager \<Rightarrow> SyncManager" where
  "ImportState opt f img m =
     (case img of
        None \<Rightarrow> m
      | Some _ \<Rightarrow> (case PrepareImport opt img of Inr st \<Rightarrow> publishState f st m | Inl _ \<Rightarrow> m))"

section \<open>Captured callbacks\<close>

record RestoredCallback =
  rcKind :: SyncCallbackKind
  rcRecipient :: handle
  rcSequence :: nat
  rcLabel :: string
  rcOutcomeOnly :: bool
  rcTag :: bytes
  rcRequired :: "handle list"
  rcFailed :: "handle list"
  rcReason :: RegistrationFailureReason

fun validateRestoredCallbacks :: "(nat, CallbackState) fmap \<Rightarrow> RestoredCallback list \<Rightarrow> nat fset \<Rightarrow> sync_error + nat fset" where
  "validateRestoredCallbacks obl [] seen = Inr seen"
| "validateRestoredCallbacks obl (r # rs) seen =
     (if rcSequence r = 0 \<or> rcSequence r |\<in>| seen then Inl (ErrRecovery ''invalid or duplicate captured sequence'')
      else case fmlookup obl (rcSequence r) of
        None \<Rightarrow> Inl (ErrRecovery ''captured obligation identity mismatch'')
      | Some c \<Rightarrow>
          if Recipient c \<noteq> rcRecipient r \<or> Label c \<noteq> rcLabel r \<or> observedKind (Kind c) \<noteq> rcKind r
          then Inl (ErrRecovery ''captured obligation identity mismatch'')
          else if Entered c \<noteq> rcOutcomeOnly r then Inl (ErrRecovery ''captured invocation phase mismatch'')
          else if Tag c \<noteq> rcTag r \<or> Required c \<noteq> rcRequired r \<or> Failed c \<noteq> rcFailed r \<or> Reason c \<noteq> rcReason r
          then Inl (ErrRecovery ''captured immutable payload mismatch'')
          else validateRestoredCallbacks obl rs (finsert (rcSequence r) seen))"

definition ValidateRestoredCallbacks :: "ManagerState option \<Rightarrow> RestoredCallback list \<Rightarrow> sync_error + unit" where
  "ValidateRestoredCallbacks img captured =
     bindR (ValidateSnapshot img) (\<lambda>_.
       bindR (validateRestoredCallbacks
           (case img of Some ms \<Rightarrow> foldl (\<lambda>os c. fmupd (Sequence c) c os) fmempty (msObligations ms) | None \<Rightarrow> fmempty) captured {||})
         (\<lambda>_. Inr ()))"

definition ReconcileRestoredCallbacks :: "fed_name \<Rightarrow> RestoredCallback list \<Rightarrow> SyncManager \<Rightarrow> sync_error option \<times> SyncManager" where
  "ReconcileRestoredCallbacks f captured m =
     (if captured = [] then (None, m)
      else let next = stateOf m f in
        case validateRestoredCallbacks (obligations next) captured {||} of
          Inl err \<Rightarrow> (Some err, m)
        | Inr sequences \<Rightarrow>
            (None, publishState f (next\<lparr>pending := filter (\<lambda>c. Sequence c |\<notin>| sequences) (pending next)\<rparr>) m))"

end
