(* ===== verification/Sync_Validate.thy ===== *)
theory Sync_Validate
  imports Sync_Strict Sync_Image
begin

text \<open>
  The image that the strict profile exports passes its own validation, and importing it gives
  back the state, with every open obligation queued again in the order of issue.
\<close>

section \<open>Small facts\<close>

lemma fset_of_sorted [simp]: "fset_of_list (sorted_list_of_fset A) = A"
  by (simp add: fset_eq_iff fset_of_list.rep_eq)

lemma length_sorted [simp]: "length (sorted_list_of_fset A) = fcard A"
  by (metis distinct_card distinct_sortedHandles fcard.rep_eq set_sortedHandles)

lemma in_fset_of_list [simp]: "x |\<in>| fset_of_list xs \<longleftrightarrow> x \<in> set xs"
  by (simp add: fset_of_list.rep_eq)

lemma exportPoint_simps [simp]:
  "psLabel (exportPoint l p) = l" "psState (exportPoint l p) = state p" "psDynamic (exportPoint l p) = dynamic p"
  "psEpoch (exportPoint l p) = epoch p" "psRequired (exportPoint l p) = sortedHandles (required p)"
  "psAchieved (exportPoint l p) = sortedHandles (achieved p)" "psFailed (exportPoint l p) = sortedHandles (failed p)"
  "psInvocations (exportPoint l p) = map (\<lambda>h. (invocation p h)\<lparr>iRecipient := h\<rparr>) (sortedHandles (required p))"
  by (simp_all add: exportPoint_def)

section \<open>Points\<close>

lemma participants_valid: "point_ok p \<Longrightarrow> validatePointParticipants (exportPoint l p) = Inr ()"
  by (auto simp: validatePointParticipants_def point_ok_def Let_def list_all_iff)

text \<open>The identities of a point's invocations are new as long as their owners are.\<close>

definition fresh :: "owner \<Rightarrow> nat fset \<Rightarrow> participants \<Rightarrow> bool" where
  "fresh own seen H \<longleftrightarrow> (\<forall>n l h k. n |\<in>| seen \<and> own n = (l, h, k) \<longrightarrow> (l, h) \<notin> H)"

definition point_kinds :: "owner \<Rightarrow> nat fset \<Rightarrow> bool" where
  "point_kinds own seen \<longleftrightarrow> (\<forall>n. n |\<in>| seen \<longrightarrow> snd (snd (own n)) \<in> {callbackAnnounce, callbackSynchronized})"

lemma invocation_valid:
  assumes i: "inv_ok own {} {} (msNextSequence ms) obl l h p i" and ms: "msRequireInvocations ms"
    and f: "fresh own seen ({(l, h)} \<union> H)" "point_kinds own seen" "(l, h) \<notin> H"
  shows "\<exists>seen'. validateInvocation ms (exportPoint l p) (i\<lparr>iRecipient := h\<rparr>) seen = Inr seen' \<and> fresh own seen' H \<and> point_kinds own seen'"
proof -
  have n: "Announce i \<noteq> 0" "Announce i |\<notin>| seen" "Synchronized i \<noteq> 0 \<Longrightarrow> Synchronized i |\<notin>| seen"
    "Synchronized i \<noteq> 0 \<Longrightarrow> Announce i \<noteq> Synchronized i" "Announce i \<le> msNextSequence ms" "Synchronized i \<le> msNextSequence ms"
    using i f(1) unfolding inv_ok_def fresh_def by auto
  let ?seen = "if Synchronized i = 0 then finsert (Announce i) seen else finsert (Synchronized i) (finsert (Announce i) seen)"
  have "claimSequences (msNextSequence ms) [Announce i, Synchronized i] seen = Inr ?seen" using n by auto
  then have "validateInvocation ms (exportPoint l p) (i\<lparr>iRecipient := h\<rparr>) seen = Inr ?seen"
    using i ms n(1) unfolding validateInvocation_def validateInvocationIdentity_def inv_ok_def by auto
  moreover have "fresh own ?seen H" using f i n(1) unfolding fresh_def inv_ok_def by auto
  moreover have "point_kinds own ?seen" using f(2) i n(1) unfolding point_kinds_def inv_ok_def by auto
  ultimately show ?thesis by blast
qed

lemma invocations_valid:
  assumes "\<forall>h\<in>set hs. inv_ok own {} {} (msNextSequence ms) obl l h p (invocation p h)" and "msRequireInvocations ms"
    and "fresh own seen ({l} \<times> set hs \<union> H)" and "point_kinds own seen" and "distinct hs" and "({l} \<times> set hs) \<inter> H = {}"
    and "set hs \<subseteq> fset (required p)" and "\<forall>h\<in>set hs. h |\<notin>| invoked"
  shows "\<exists>seen'. validateInvocations ms (exportPoint l p) (map (\<lambda>h. (invocation p h)\<lparr>iRecipient := h\<rparr>) hs) invoked seen =
      Inr (invoked |\<union>| fset_of_list hs, seen') \<and> fresh own seen' H \<and> point_kinds own seen'"
  using assms
proof (induction hs arbitrary: invoked seen)
  case (Cons h hs)
  have f: "fresh own seen ({(l, h)} \<union> ({l} \<times> set hs \<union> H))" using Cons.prems(3) by (auto simp: fresh_def)
  have nh: "(l, h) \<notin> {l} \<times> set hs \<union> H" using Cons.prems(5,6) by auto
  obtain seen' where s: "validateInvocation ms (exportPoint l p) ((invocation p h)\<lparr>iRecipient := h\<rparr>) seen = Inr seen'"
    "fresh own seen' ({l} \<times> set hs \<union> H)" "point_kinds own seen'"
    using invocation_valid [OF _ Cons.prems(2) f Cons.prems(4) nh] Cons.prems(1) by (metis list.set_intros(1))
  have "\<exists>seen''. validateInvocations ms (exportPoint l p) (map (\<lambda>h. (invocation p h)\<lparr>iRecipient := h\<rparr>) hs) (finsert h invoked) seen' =
      Inr (finsert h invoked |\<union>| fset_of_list hs, seen'') \<and> fresh own seen'' H \<and> point_kinds own seen''"
    by (rule Cons.IH) (use Cons.prems s in auto)
  then show ?case using s(1) Cons.prems(7,8) by auto
qed (auto simp: fresh_def)

lemma points_valid:
  assumes "\<forall>l\<in>set ls. \<exists>p. fmlookup (points st) l = Some p" and L: "ledger own {} {} {} st" and "points_ok st"
    and "msRequireInvocations ms" "msVersion ms = 3" "msNextSequence ms = nextSequence st" "msNextEpoch ms = nextEpoch st"
    and "distinct ls" "\<forall>l\<in>set ls. fmlookup labels l = None" "fresh own seen (set ls \<times> UNIV)" "point_kinds own seen"
  shows "\<exists>labels' seen'. validatePoints ms (map (\<lambda>l. exportPoint l (the (fmlookup (points st) l))) ls) labels seen = Inr (labels', seen') \<and>
      (\<forall>l. fmlookup labels' l = (if l \<in> set ls then map_option (exportPoint l) (fmlookup (points st) l) else fmlookup labels l)) \<and>
      point_kinds own seen'"
  using assms(1,3-)
proof (induction ls arbitrary: labels seen)
  case (Cons l ls)
  then obtain p where p: "fmlookup (points st) l = Some p" by auto
  have f: "frame_ok (nextEpoch st) p" by (rule ledgerD(1) [OF L p])
  have "\<exists>seen'. validateInvocations ms (exportPoint l p) (map (\<lambda>h. (invocation p h)\<lparr>iRecipient := h\<rparr>) (sortedHandles (required p))) {||} seen =
      Inr ({||} |\<union>| fset_of_list (sortedHandles (required p)), seen') \<and> fresh own seen' (set ls \<times> UNIV) \<and> point_kinds own seen'"
    by (rule invocations_valid [where obl = "obligations st"])
      (use Cons.prems ledgerD(2) [OF L p] in \<open>auto simp: fresh_def\<close>)
  then obtain seen' where s: "validatePointInvocations ms (exportPoint l p) seen = Inr seen'" "fresh own seen' (set ls \<times> UNIV)" "point_kinds own seen'"
    using f Cons.prems(6) by (auto simp: validatePointInvocations_def frame_ok_def)
  have "\<exists>labels' seen''. validatePoints ms (map (\<lambda>l. exportPoint l (the (fmlookup (points st) l))) ls) (fmupd l (exportPoint l p) labels) seen' = Inr (labels', seen'') \<and>
      (\<forall>k. fmlookup labels' k = (if k \<in> set ls then map_option (exportPoint k) (fmlookup (points st) k) else fmlookup (fmupd l (exportPoint l p) labels) k)) \<and>
      point_kinds own seen''"
    by (rule Cons.IH) (use Cons.prems s in auto)
  then show ?case
    using p s(1) participants_valid [OF points_ok_get [OF Cons.prems(2) p], of l] Cons.prems(4,7,8) by auto
qed auto

section \<open>Obligations\<close>

lemma foldl_last_match:
  assumes "distinct hs"
  shows "foldl (\<lambda>matched iv. if iRecipient iv \<noteq> r then matched else Q iv) b (map (\<lambda>h. (g h)\<lparr>iRecipient := h\<rparr>) hs) =
    (if r \<in> set hs then Q ((g r)\<lparr>iRecipient := r\<rparr>) else b)"
  using assms by (induction hs arbitrary: b) auto

lemma matches_export:
  "matchesCallbackInvocation (exportPoint l p) c durable \<longleftrightarrow>
     Recipient c |\<in>| required p \<and> invocationMatches c durable ((invocation p (Recipient c))\<lparr>iRecipient := Recipient c\<rparr>)"
  unfolding matchesCallbackInvocation_def by (simp add: foldl_last_match)

lemma invocationMatches_recipient [simp]: "invocationMatches c durable (i\<lparr>iRecipient := r\<rparr>) = invocationMatches c durable i"
  by (simp add: invocationMatches_def)

lemma obligation_valid:
  assumes o: "obl_ok own {} (msNextSequence ms) (msNextEpoch ms) ps n c" and ms: "msVersion ms = 3" "msRequireInvocations ms"
    and k: "fmlookup known n = None"
  shows "validateObligation ms c known = Inr ()"
  using assms unfolding validateObligation_def obl_ok_def delivery_def by (cases "Kind c") auto

lemma obligation_invocation_valid:
  assumes L: "ledger own {} {} {} st" and c: "fmlookup (obligations st) n = Some c"
    and labels: "\<And>l. fmlookup labels l = map_option (exportPoint l) (fmlookup (points st) l)" and seen: "point_kinds own seen"
  shows "validateObligationInvocation c labels seen = Inr ()"
proof -
  have o: "obl_ok own {} (nextSequence st) (nextEpoch st) (points st) n c" by (rule ledgerD(3) [OF L c])
  have own: "own n = (Label c, Recipient c, Kind c)" "Sequence c = n" "0 < n" using o by (simp_all add: obl_ok_def)
  show ?thesis
  proof (cases "Kind c = callbackAnnounce \<or> Kind c = callbackSynchronized")
    case False
    then have "Sequence c |\<notin>| seen" using seen own unfolding point_kinds_def by force
    then show ?thesis using False by (simp add: validateObligationInvocation_def)
  next
    case True
    show ?thesis
    proof (cases "orphaned (points st) c")
      case orphan: True
      then have "Kind c = callbackAnnounce \<and> Entered c" using True o by (auto simp: obl_ok_def placed_def orphaned_def)
      then show ?thesis using orphan labels
        by (cases "fmlookup (points st) (Label c)") (simp_all add: validateObligationInvocation_def orphaned_def Let_def)
    next
      case False
      then obtain p where p: "fmlookup (points st) (Label c) = Some p" "epoch p = Epoch c" by (auto simp: orphaned_def)
      have pl: "Recipient c |\<in>| required p"
        "Kind c = callbackAnnounce \<Longrightarrow> Announce (invocation p (Recipient c)) = n \<and> \<not> AnnounceInvoked (invocation p (Recipient c))"
        "Kind c = callbackSynchronized \<Longrightarrow> Synchronized (invocation p (Recipient c)) = n \<and> \<not> SynchronizedInvoked (invocation p (Recipient c))"
        using o True False p by (auto simp: obl_ok_def placed_def)
      have "inv_ok own {} {} (nextSequence st) (obligations st) (Label c) (Recipient c) p (invocation p (Recipient c))"
        by (rule ledgerD(2) [OF L p(1) pl(1)]) simp
      then have "Kind c = callbackAnnounce \<Longrightarrow> Entered c = AnnounceEntered (invocation p (Recipient c))"
        using pl(2) c own(3) by (auto simp: inv_ok_def)
      then have "matchesCallbackInvocation (exportPoint (Label c) p) c True"
        using True pl own(2) by (auto simp: matches_export invocationMatches_def)
      then show ?thesis using True labels p by (simp add: validateObligationInvocation_def)
    qed
  qed
qed

lemma obligations_valid:
  assumes "\<forall>n\<in>set ns. fmlookup (obligations st) n \<noteq> None" and L: "ledger own {} {} {} st"
    and labels: "\<And>l. fmlookup labels l = map_option (exportPoint l) (fmlookup (points st) l)" and seen: "point_kinds own seen"
    and "msVersion ms = 3" "msRequireInvocations ms" "msNextSequence ms = nextSequence st" "msNextEpoch ms = nextEpoch st"
    and "distinct ns" "\<forall>n\<in>set ns. fmlookup known n = None"
  shows "\<exists>known'. validateObligations ms labels seen (map (\<lambda>n. the (fmlookup (obligations st) n)) ns) known = Inr known' \<and>
      (\<forall>n. fmlookup known' n = (if n \<in> set ns then fmlookup (obligations st) n else fmlookup known n))"
  using assms(1,5-)
proof (induction ns arbitrary: known)
  case (Cons n ns)
  then obtain c where c: "fmlookup (obligations st) n = Some c" by auto
  have o: "obl_ok own {} (msNextSequence ms) (msNextEpoch ms) (points st) n c" using ledgerD(3) [OF L c] Cons.prems by simp
  then have s: "Sequence c = n" by (simp add: obl_ok_def)
  have "\<exists>known'. validateObligations ms labels seen (map (\<lambda>n. the (fmlookup (obligations st) n)) ns) (fmupd n c known) = Inr known' \<and>
      (\<forall>k. fmlookup known' k = (if k \<in> set ns then fmlookup (obligations st) k else fmlookup (fmupd n c known) k))"
    by (rule Cons.IH) (use Cons.prems in auto)
  then obtain known' where k: "validateObligations ms labels seen (map (\<lambda>n. the (fmlookup (obligations st) n)) ns) (fmupd n c known) = Inr known'"
    "\<And>k. fmlookup known' k = (if k \<in> set ns then fmlookup (obligations st) k else if n = k then Some c else fmlookup known k)" by auto
  have "validateObligation ms c known = Inr ()" "validateObligationInvocation c labels seen = Inr ()"
    using obligation_valid [OF o] obligation_invocation_valid [OF L c labels seen] Cons.prems by auto
  then have "validateObligations ms labels seen (map (\<lambda>n. the (fmlookup (obligations st) n)) (n # ns)) known = Inr known'"
    using c s k(1) by simp
  moreover have "fmlookup known' k = (if k \<in> set (n # ns) then fmlookup (obligations st) k else fmlookup known k)" for k
    using k(2) [of k] c by simp
  ultimately show ?case by blast
qed auto

lemma pending_valid:
  assumes "\<forall>c\<in>set cs. fmlookup (obligations st) (Sequence c) = Some c" and L: "ledger own {} {} {} st"
    and known: "\<And>n. fmlookup known n = fmlookup (obligations st) n"
    and ms: "msVersion ms = 3" "msRequireInvocations ms" "msNextSequence ms = nextSequence st"
    and "distinct (map Sequence cs)" "\<forall>c\<in>set cs. Sequence c |\<notin>| seen"
  shows "validatePendingCallbacks ms labels known cs seen = Inr ()"
  using assms(1,7-)
proof (induction cs arbitrary: seen)
  case (Cons c cs)
  have c: "fmlookup (obligations st) (Sequence c) = Some c" using Cons.prems by simp
  have "obl_ok own {} (nextSequence st) (nextEpoch st) (points st) (Sequence c) c" by (rule ledgerD(3) [OF L c])
  then have "0 < Sequence c" "Sequence c \<le> msNextSequence ms" "Recipient c \<noteq> 0" "snd (delivery c) \<noteq> None"
    using ms by (auto simp: obl_ok_def delivery_def split: callbackKind.splits)
  moreover have "validatePendingCallbacks ms labels known cs (finsert (Sequence c) seen) = Inr ()"
  proof (rule Cons.IH)
    show "\<forall>d\<in>set cs. Sequence d |\<notin>| finsert (Sequence c) seen" using Cons.prems(2,3) by (metis (mono_tags, lifting) distinct.simps(2) finsertE image_eqI list.set_intros(2) list.simps(9) set_map)
  qed (use Cons.prems(1,2) in simp_all)
  ultimately show ?case using Cons.prems(3) ms known [of "Sequence c"] c by (auto simp: Let_def)
qed simp

section \<open>The exported image is valid\<close>

lemma durable_valid:
  assumes L: "ledger own {} {} {} st" and known: "\<And>n. fmlookup known n = fmlookup (obligations st) n"
  shows "validateDurableInvocations (exportFederation True st) known = Inr ()"
proof -
  have "list_all (obligationKnown known (exportPoint l p) ((invocation p h)\<lparr>iRecipient := h\<rparr>))
      [(Announce (invocation p h), callbackAnnounce, AnnounceInvoked (invocation p h)),
       (Synchronized (invocation p h), callbackSynchronized, SynchronizedInvoked (invocation p h))]"
    if p: "fmlookup (points st) l = Some p" "h |\<in>| required p" for l p h
  proof -
    let ?i = "invocation p h"
    have i: "inv_ok own {} {} (nextSequence st) (obligations st) l h p ?i" by (rule ledgerD(2) [OF L p]) simp
    have c: "own n = (Label c, Recipient c, Kind c)" if "fmlookup (obligations st) n = Some c" for n c
      using ledgerD(3) [OF L that] by (simp add: obl_ok_def)
    have "obligationKnown known (exportPoint l p) (?i\<lparr>iRecipient := h\<rparr>) (Announce ?i, callbackAnnounce, AnnounceInvoked ?i)"
      using i c [of "Announce ?i"] known unfolding obligationKnown_def inv_ok_def by auto
    moreover have "obligationKnown known (exportPoint l p) (?i\<lparr>iRecipient := h\<rparr>) (Synchronized ?i, callbackSynchronized, SynchronizedInvoked ?i)"
      using i c [of "Synchronized ?i"] known unfolding obligationKnown_def inv_ok_def by auto
    ultimately show ?thesis by simp
  qed
  then show ?thesis
    by (auto simp: validateDurableInvocations_def exportFederation_def list_all_iff fmlookup_dom'_iff)
qed

lemma export_valid:
  assumes "strict_ok st"
  shows "ValidateState True (Some (exportFederation True st)) = Inr ()"
proof -
  obtain own where L: "ledger own {} {} {} st" and P: "points_ok st" using assms by (auto simp: strict_ok_def)
  let ?ms = "exportFederation True st"
  have ms: "msVersion ?ms = 3" "msRequireInvocations ?ms" "msNextSequence ?ms = nextSequence st" "msNextEpoch ?ms = nextEpoch st"
    "msPoints ?ms = map (\<lambda>l. exportPoint l (the (fmlookup (points st) l))) (sortedLabels st)" "msPending ?ms = pending st"
    "msObligations ?ms = map (\<lambda>n. the (fmlookup (obligations st) n)) (sortedCallbackSequences (obligations st))"
    by (simp_all add: exportFederation_def)
  have "\<exists>labels seen. validatePoints ?ms (msPoints ?ms) fmempty {||} = Inr (labels, seen) \<and>
      (\<forall>l. fmlookup labels l = (if l \<in> set (sortedLabels st) then map_option (exportPoint l) (fmlookup (points st) l) else fmlookup fmempty l)) \<and> point_kinds own seen"
    unfolding ms(5) by (rule points_valid [OF _ L P ms(2,1,3,4)]) (auto simp: fmlookup_dom'_iff sortedLabels_def fresh_def point_kinds_def)
  from this obtain labels seen where p0: "validatePoints ?ms (msPoints ?ms) fmempty {||} = Inr (labels, seen)" "point_kinds own seen"
    "\<And>l. fmlookup labels l = (if l \<in> set (sortedLabels st) then map_option (exportPoint l) (fmlookup (points st) l) else fmlookup fmempty l)" by blast
  have l: "fmlookup labels l = map_option (exportPoint l) (fmlookup (points st) l)" for l
    using p0(3) [of l] by (cases "fmlookup (points st) l") (auto simp: fmlookup_dom'_iff)
  note p = p0(1) l p0(2)
  have "\<exists>known. validateObligations ?ms labels seen (msObligations ?ms) fmempty = Inr known \<and>
      (\<forall>n. fmlookup known n = (if n \<in> set (sortedCallbackSequences (obligations st)) then fmlookup (obligations st) n else fmlookup fmempty n))"
    unfolding ms(7) by (rule obligations_valid [OF _ L p(2,3) ms(1-4)]) (auto simp: sortedCallbackSequences_def)
  then obtain known where k: "validateObligations ?ms labels seen (msObligations ?ms) fmempty = Inr known"
    "\<And>n. fmlookup known n = fmlookup (obligations st) n"
    by (auto simp: sortedCallbackSequences_def split: if_splits) (metis fmdom_notD)
  have "validatePendingCallbacks ?ms labels known (pending st) {||} = Inr ()"
    by (rule pending_valid [OF _ L k(2) ms(1-3)]) (use ledgerD(4,5) [OF L] strict_sorted_iff in auto)
  then show ?thesis
    using p(1) k(1) durable_valid [OF L k(2)] ms(1,2,6) by (simp add: ValidateState_def)
qed

section \<open>Import\<close>

lemma foldl_fmupd:
  assumes "\<And>k. K (e k) = k"
  shows "fmlookup (foldl (\<lambda>m x. fmupd (K x) (V x) m) m0 (map e ks)) k = (if k \<in> set ks then Some (V (e k)) else fmlookup m0 k)"
  using assms by (induction ks arbitrary: m0) auto

text \<open>The state an exported image is imported to.\<close>

definition restored :: "federationState \<Rightarrow> federationState" where
  "restored st = importFederation (exportFederation True st)"

lemma restored_point:
  "fmlookup (points (restored st)) l = map_option (\<lambda>p. importPoint (exportPoint l p)) (fmlookup (points st) l)"
proof -
  have "fmlookup (points (restored st)) l =
      (if l \<in> set (sortedLabels st) then Some (importPoint (exportPoint l (the (fmlookup (points st) l)))) else fmlookup fmempty l)"
    unfolding restored_def importFederation_def Let_def exportFederation_def federationState.simps ManagerState.simps
    by (rule foldl_fmupd) simp
  then show ?thesis by (cases "fmlookup (points st) l") (auto simp: fmlookup_dom'_iff)
qed

lemma import_export_point:
  "skel (importPoint (exportPoint l p)) = skel p"
  "fmdom (callbacks (importPoint (exportPoint l p))) = required p"
  "h |\<in>| required p \<Longrightarrow> invocation (importPoint (exportPoint l p)) h = (invocation p h)\<lparr>iRecipient := h\<rparr>"
proof -
  have l: "fmlookup (callbacks (importPoint (exportPoint l p))) h =
      (if h |\<in>| required p then Some ((invocation p h)\<lparr>iRecipient := h\<rparr>) else None)" for h
  proof -
    have "fmlookup (foldl (\<lambda>cs iv. fmupd (iRecipient iv) iv cs) fmempty
        (map (\<lambda>h. (invocation p h)\<lparr>iRecipient := h\<rparr>) (sortedHandles (required p)))) h =
      (if h \<in> set (sortedHandles (required p)) then Some ((invocation p h)\<lparr>iRecipient := h\<rparr>) else fmlookup fmempty h)"
      by (rule foldl_fmupd [where V = "\<lambda>iv. iv"]) simp
    then show ?thesis by (simp add: importPoint_def)
  qed
  show "skel (importPoint (exportPoint l p)) = skel p"
    by (cases p) (simp add: skel_def importPoint_def exportPoint_def)
  show "fmdom (callbacks (importPoint (exportPoint l p))) = required p"
    using l by (auto simp: fset_eq_iff fmlookup_dom_iff split: if_splits)
  show "h |\<in>| required p \<Longrightarrow> invocation (importPoint (exportPoint l p)) h = (invocation p h)\<lparr>iRecipient := h\<rparr>"
    by (simp add: invocation_def l)
qed

lemma restored_rest:
  assumes "ledger own {} {} {} st"
  shows "obligations (restored st) = obligations st" "nextSequence (restored st) = nextSequence st" "nextEpoch (restored st) = nextEpoch st"
    "pending (restored st) = map (\<lambda>n. the (fmlookup (obligations st) n)) (sortedCallbackSequences (obligations st))"
proof -
  let ?obl = "foldl (\<lambda>os c. fmupd (Sequence c) c os) fmempty (map (\<lambda>n. the (fmlookup (obligations st) n)) (sortedCallbackSequences (obligations st)))"
  have "fmlookup (foldl (\<lambda>os c. fmupd (Sequence c) c os) m (map (\<lambda>n. the (fmlookup (obligations st) n)) ns)) k =
      (if k \<in> set ns then fmlookup (obligations st) k else fmlookup m k)" if "\<forall>n\<in>set ns. fmlookup (obligations st) n \<noteq> None" for ns m k
    using that
  proof (induction ns arbitrary: m)
    case (Cons n ns)
    then obtain c where "fmlookup (obligations st) n = Some c" "Sequence c = n" using ledger_seq [OF assms] by fastforce
    then show ?case using Cons by auto
  qed simp
  note f = this
  have "fmlookup ?obl k = fmlookup (obligations st) k" for k
    using f [of "sortedCallbackSequences (obligations st)" fmempty k]
    by (cases "fmlookup (obligations st) k") (auto simp: sortedCallbackSequences_def fmlookup_dom_iff)
  then have o: "?obl = obligations st" by (rule fmap_ext)
  show "obligations (restored st) = obligations st" "nextSequence (restored st) = nextSequence st" "nextEpoch (restored st) = nextEpoch st"
    "pending (restored st) = map (\<lambda>n. the (fmlookup (obligations st) n)) (sortedCallbackSequences (obligations st))"
    using o by (simp_all add: restored_def importFederation_def exportFederation_def Let_def)
qed

lemma restored_shape [simp]: "shape (restored st) = shape st"
proof
  fix l show "shape (restored st) l = shape st l"
    by (cases "fmlookup (points st) l") (simp_all add: shape_def restored_point import_export_point(1))
qed

end
