(* ===== verification/Sync_Reach.thy ===== *)
theory Sync_Reach
  imports Sync_Validate
begin

text \<open>
  The states the synchronization manager of the strict profile can reach, and their properties.
\<close>

section \<open>Restored states\<close>

lemma restored_get:
  assumes "fmlookup (points (restored st)) l = Some q"
  obtains p where "fmlookup (points st) l = Some p" "skel q = skel p" "fmdom (callbacks q) = required p"
    "\<And>h. h |\<in>| required p \<Longrightarrow> invocation q h = (invocation p h)\<lparr>iRecipient := h\<rparr>"
proof -
  obtain p where "fmlookup (points st) l = Some p" "q = importPoint (exportPoint l p)"
    using assms by (auto simp: restored_point)
  then show thesis using that import_export_point by blast
qed

lemma placed_restored: "placed {} (points st) c Q \<Longrightarrow> (\<And>i r. Q (i\<lparr>iRecipient := r\<rparr>) = Q i) \<Longrightarrow> placed {} (points (restored st)) c Q"
  using skelD [OF import_export_point(1)]
  by (auto simp: placed_def restored_point import_export_point)

lemma orphaned_restored: "orphaned (points st) c \<Longrightarrow> orphaned (points (restored st)) c"
  using skelD [OF import_export_point(1)] by (auto simp: orphaned_def restored_point)

lemma inv_ok_recipient: "inv_ok own A S ns obl l h p (i\<lparr>iRecipient := r\<rparr>) = inv_ok own A S ns obl l h p i"
  by (simp add: inv_ok_def)

lemma restored_strict:
  assumes "strict_ok st"
  shows "strict_ok (restored st)"
proof -
  obtain own where L: "ledger own {} {} {} st" and P: "points_ok st" using assms by (auto simp: strict_ok_def)
  note r = restored_rest [OF L]
  have "ledger own {} {} {} (restored st)"
  proof (rule ledgerI)
    fix l q assume q: "fmlookup (points (restored st)) l = Some q"
    then obtain p where p: "fmlookup (points st) l = Some p" "skel q = skel p" "fmdom (callbacks q) = required p"
      "\<And>h. h |\<in>| required p \<Longrightarrow> invocation q h = (invocation p h)\<lparr>iRecipient := h\<rparr>" by (rule restored_get) (rule that)
    note sk = skelD [OF p(2)]
    show "frame_ok (nextEpoch (restored st)) q" using ledgerD(1) [OF L p(1)] sk p(3) by (simp add: frame_ok_def r)
    fix h assume h: "h |\<in>| required q"
    then have "inv_ok own {} {} (nextSequence st) (obligations st) l h p (invocation p h)" using ledgerD(2) [OF L p(1)] sk by simp
    then have "inv_ok own {} {} (nextSequence st) (obligations st) l h q (invocation p h)" by (elim inv_ok_cong) (use sk in simp_all)
    then show "inv_ok own {} {} (nextSequence (restored st)) (obligations (restored st)) l h q (invocation q h)"
      using p(4) h sk by (simp add: r inv_ok_recipient)
  next
    fix n c assume "fmlookup (obligations (restored st)) n = Some c"
    then have o: "obl_ok own {} (nextSequence st) (nextEpoch st) (points st) n c" using ledgerD(3) [OF L] by (simp add: r)
    have "placed {} (points (restored st)) c Q" if "placed {} (points st) c Q" "\<And>i r. Q (i\<lparr>iRecipient := r\<rparr>) = Q i" for Q
      using placed_restored that by blast
    then show "obl_ok own {} (nextSequence (restored st)) (nextEpoch (restored st)) (points (restored st)) n c"
      using o orphaned_restored [of st c] unfolding obl_ok_def r by (cases "Kind c") auto
  next
    have s: "Sequence (the (fmlookup (obligations st) n)) = n" if "n |\<in>| fmdom (obligations st)" for n
      using that ledger_seq [OF L] by (auto simp: fmlookup_dom_iff)
    have m: "map Sequence (pending (restored st)) = sortedCallbackSequences (obligations st)"
      unfolding r sortedCallbackSequences_def map_map by (rule map_idI) (simp add: s)
    show "sorted_wrt (<) (map Sequence (pending (restored st)))"
      unfolding m by (simp add: sortedCallbackSequences_def strict_sorted_iff)
    fix c assume "c \<in> set (pending (restored st))"
    then obtain n where "n |\<in>| fmdom (obligations st)" "c = the (fmlookup (obligations st) n)" by (auto simp: r sortedCallbackSequences_def)
    then show "fmlookup (obligations (restored st)) (Sequence c) = Some c" using s by (auto simp: r fmlookup_dom_iff)
  qed
  then show ?thesis using P points_ok_same [OF restored_shape] unfolding strict_ok_def by blast
qed

section \<open>Reachable states\<close>

lemma ledger_filter: "ledger own D A S st \<Longrightarrow> ledger own D A S (st\<lparr>pending := filter P (pending st)\<rparr>)"
  unfolding ledger_def by (simp add: sorted_wrt_map sorted_wrt_filter)

definition strictOptions :: "SyncOptions \<Rightarrow> bool" where
  "strictOptions opt \<longleftrightarrow> RequireInvocations opt \<and> validOptions opt \<and> (\<forall>ms f. Members opt = Some ms \<longrightarrow> 0 \<notin> set (ms f))"

inductive sync_step :: "SyncManager \<Rightarrow> SyncManager \<Rightarrow> bool" where
  registering: "\<lbrakk>strictOptions opt; r \<noteq> Some 0; 0 \<notin> set requested\<rbrakk> \<Longrightarrow> sync_step m (snd (register opt f l tg requested r m))"
| achieving: "\<lbrakk>strictOptions opt; h \<noteq> 0\<rbrakk> \<Longrightarrow> sync_step m (snd (achieve opt f h l successfully m))"
| joining: "\<lbrakk>strictOptions opt; h \<noteq> 0\<rbrakk> \<Longrightarrow> sync_step m (snd (FederateJoined opt f h m))"
| resigning: "strictOptions opt \<Longrightarrow> sync_step m (snd (FederateResigned opt f h m))"
| destroying: "sync_step m (OnSyncFederationDestroyed f m)"
| retrying: "strictOptions opt \<Longrightarrow> sync_step m (snd (RetryPending opt f m))"
| observing: "strictOptions opt \<Longrightarrow> sync_step m (snd (observeCallback opt f h kind l n entry m))"
| reconciling: "sync_step m (snd (ReconcileRestoredCallbacks f captured m))"

text \<open>A restore imports an image that a strict manager has exported.\<close>

inductive sync_reachable :: "SyncManager \<Rightarrow> bool" where
  sync_init: "sync_reachable NewSync"
| sync_next: "sync_reachable m \<Longrightarrow> sync_step m m' \<Longrightarrow> sync_reachable m'"
| sync_restore: "\<lbrakk>sync_reachable m; sync_reachable saved; strictOptions opt; strictOptions opt'\<rbrakk> \<Longrightarrow>
    sync_reachable (ImportState opt f (ExportState opt' saved g) m)"

lemma FederateJoined_snd:
  "snd (FederateJoined opt f h m) = snd (transition opt f True (\<lambda>st. bindR (joinPoints h (sortedLabels st) st) (\<lambda>st. Inr ((), st))) m)"
  by (simp add: FederateJoined_def split: prod.split sum.split)

lemma FederateResigned_snd:
  "snd (FederateResigned opt f h m) = snd (transition opt f True (\<lambda>st. bindR (resignPoints opt h (sortedLabels st) (forgetRecipient h st)) (\<lambda>st. Inr ((), st))) m)"
  by (simp add: FederateResigned_def split: prod.split sum.split)

lemma stateOf_register: "stateOf (snd (register opt f l tg requested r m)) g = stateOf (snd (transition opt f False (registerChange opt f l tg requested r) m)) g"
  by (simp add: register_def split: prod.split sum.split)

lemma stateOf_achieve: "stateOf (snd (achieve opt f h l ok m)) g = stateOf (snd (transition opt f False (achieveChange opt h l ok) m)) g"
  by (simp add: achieve_def split: prod.split sum.split)

lemma holds_labels: "holds h (forgetRecipient h st) \<subseteq> set (sortedLabels st)"
  by (auto simp: holds_def shape_Some fmlookup_dom'_iff)

lemma empty_strict: "strict_ok emptyFederationState"
  using ledger_empty [of undefined] by (auto simp: strict_ok_def points_ok_def emptyFederationState_def)

lemma observe_other: "g \<noteq> f \<Longrightarrow> stateOf (snd (observeCallback opt f h kind l n entry m)) g = stateOf m g"
  by (auto simp: observeCallback_def Let_def split: option.split sum.split)

lemma sync_step_strict: "sync_step m m' \<Longrightarrow> strict_ok (stateOf m g) \<Longrightarrow> strict_ok (stateOf m' g)"
proof (induction rule: sync_step.induct)
  case (registering opt r requested m f l tg)
  then have o: "RequireInvocations opt" "ReservableOutbox opt" "Members opt \<noteq> None" "\<forall>ms. Members opt = Some ms \<longrightarrow> 0 \<notin> set (ms f)"
    by (auto simp: strictOptions_def validOptions_def)
  show ?case unfolding stateOf_register
  proof (rule transition_strict [OF o(1) registering.prems])
    fix b st assume c: "registerChange opt f l tg requested r (stateOf m f) = Inr (b, st)" "f = g"
    show "strict_ok st"
      using registerChange_strict [OF c(1) _ o(3) registering.hyps(2,3) o(4)] registerChange_points_ok [OF c(1) _ registering.hyps(3) o(4)]
        registering.prems c(2) by (simp add: strict_ok_def)
  qed
next
  case (achieving opt h m f l ok)
  then have o: "RequireInvocations opt" "ReservableOutbox opt" by (auto simp: strictOptions_def validOptions_def)
  show ?case unfolding stateOf_achieve
  proof (rule transition_strict [OF o(1) achieving.prems])
    fix b st assume c: "achieveChange opt h l ok (stateOf m f) = Inr (b, st)" "f = g"
    show "strict_ok st"
      using achieveChange_strict [OF c(1) _ o(1) achieving.hyps(2)] achieveChange_points_ok [OF c(1) _ achieving.hyps(2)]
        achieving.prems c(2) by (simp add: strict_ok_def)
  qed
next
  case (joining opt h m f)
  then have o: "RequireInvocations opt" "ReservableOutbox opt" by (auto simp: strictOptions_def validOptions_def)
  show ?case unfolding FederateJoined_snd
  proof (rule transition_strict [OF o(1) joining.prems])
    fix b st assume c: "bindR (joinPoints h (sortedLabels (stateOf m f)) (stateOf m f)) (\<lambda>st. Inr ((), st)) = Inr (b, st)" "f = g"
    then have j: "joinPoints h (sortedLabels (stateOf m f)) (stateOf m f) = Inr st" by (simp add: bindR_eq_Inr_iff)
    show "strict_ok st"
      using joinPoints_strict [OF j _ _ joining.hyps(2)] joinPoints_points_ok [OF j _ joining.hyps(2)] joining.prems c(2) by (simp add: strict_ok_def)
  qed
next
  case (resigning opt m f h)
  then have o: "RequireInvocations opt" "ReservableOutbox opt" by (auto simp: strictOptions_def validOptions_def)
  show ?case unfolding FederateResigned_snd
  proof (rule transition_strict [OF o(1) resigning.prems])
    fix b st assume c: "bindR (resignPoints opt h (sortedLabels (stateOf m f)) (forgetRecipient h (stateOf m f))) (\<lambda>st. Inr ((), st)) = Inr (b, st)" "f = g"
    then have j: "resignPoints opt h (sortedLabels (stateOf m f)) (forgetRecipient h (stateOf m f)) = Inr st" by (simp add: bindR_eq_Inr_iff)
    obtain own where L: "ledger own {} {} {} (stateOf m f)" and P: "points_ok (stateOf m f)" using resigning.prems c(2) by (auto simp: strict_ok_def)
    have P': "points_ok (forgetRecipient h (stateOf m f))" using P by (simp add: points_ok_def)
    show "strict_ok st"
      using resignPoints_strict [OF j _ P' holds_labels] forget_ledger [OF L, of h] resignPoints_points_ok [OF j P'] by (auto simp: strict_ok_def)
  qed
next
  case (destroying m f)
  then show ?case using empty_strict by (simp add: OnSyncFederationDestroyed_def stateOf_def)
next
  case (retrying opt m f)
  then show ?case using strict.retry_keeps [of opt m g f] by (auto simp: RetryPending_def strictOptions_def)
next
  case (observing opt m f h kind l n entry)
  then show ?case using observeCallback_strict [of m f opt h kind l n entry] observe_other [of g f opt h kind l n entry m]
    by (cases "g = f") (auto simp: strictOptions_def)
next
  case (reconciling m f captured)
  have "strict_ok (st\<lparr>pending := filter P (pending st)\<rparr>)" if "strict_ok st" for st P
    using that ledger_filter unfolding strict_ok_def points_ok_def by simp blast
  then show ?case using reconciling by (auto simp: ReconcileRestoredCallbacks_def Let_def split: sum.split)
qed

lemma ExportState_valid:
  assumes "\<And>g. strict_ok (stateOf m g)" and "RequireInvocations opt"
  shows "ValidateState True (ExportState opt m f) = Inr ()"
proof (cases "fmlookup (fed m) f")
  case None
  then show ?thesis by (simp add: ExportState_def ValidateState_def)
next
  case (Some st)
  then have "strict_ok st" using assms(1) [of f] by (simp add: stateOf_def)
  then show ?thesis using export_valid Some assms(2) by (simp add: ExportState_def)
qed

lemma reachable_strict: "sync_reachable m \<Longrightarrow> strict_ok (stateOf m g)"
proof (induction arbitrary: g rule: sync_reachable.induct)
  case sync_init
  then show ?case using empty_strict by (simp add: NewSync_def stateOf_def)
next
  case (sync_next m m')
  then show ?case using sync_step_strict by blast
next
  case (sync_restore m saved opt opt' f k)
  have r: "RequireInvocations opt" "RequireInvocations opt'" using sync_restore.hyps by (auto simp: strictOptions_def)
  show ?case
  proof (cases "fmlookup (fed saved) k")
    case None
    then show ?thesis using sync_restore.IH(1) by (simp add: ImportState_def ExportState_def)
  next
    case (Some st)
    then have "strict_ok st" using sync_restore.IH(2) [of k] by (simp add: stateOf_def)
    then show ?thesis using Some r export_valid [of st] restored_strict [of st] sync_restore.IH(1)
      by (simp add: ImportState_def ExportState_def PrepareImport_def restored_def)
  qed
qed

end
