(* ===== verification/Sync_Spec.thy ===== *)
theory Sync_Spec
  imports Sync_Reach
begin

text \<open>
  What a synchronization point promises: an abstract barrier, and the proof that the manager of
  the strict profile implements it.  A barrier is opened for a set of participants, closes when
  all of them have arrived, and stays closed until it is finished.
\<close>

section \<open>Barriers\<close>

record barrier =
  participants :: "handle fset"
  arrived :: "handle fset"
  failures :: "handle fset"
  everyone :: bool
  closed :: bool

definition close :: "barrier \<Rightarrow> barrier" where
  "close b = (if participants b |\<subseteq>| arrived b then b\<lparr>closed := True\<rparr> else b)"

definition arrive :: "handle \<Rightarrow> bool \<Rightarrow> barrier \<Rightarrow> barrier" where
  "arrive h successfully b =
     close (b\<lparr>arrived := finsert h (arrived b), failures := (if successfully then failures b else finsert h (failures b))\<rparr>)"

definition enter :: "handle \<Rightarrow> barrier \<Rightarrow> barrier" where
  "enter h b = (if everyone b \<and> \<not> closed b then b\<lparr>participants := finsert h (participants b)\<rparr> else b)"

definition leave :: "handle \<Rightarrow> barrier \<Rightarrow> barrier" where
  "leave h b = close (b\<lparr>participants := participants b |-| {|h|}, arrived := arrived b |-| {|h|}, failures := failures b |-| {|h|}\<rparr>)"

type_synonym barriers = "string \<Rightarrow> barrier option"

text \<open>A barrier opens with nobody arrived; one opened for everyone takes in the members that join later.\<close>

definition open_barrier :: "handle list \<Rightarrow> bool \<Rightarrow> barrier" where
  "open_barrier hs e = \<lparr>participants = fset_of_list hs, arrived = {||}, failures = {||}, everyone = e, closed = False\<rparr>"

text \<open>A barrier is given up only when it is closed.\<close>

definition kept :: "barrier option \<Rightarrow> barrier option \<Rightarrow> bool" where
  "kept b b' \<longleftrightarrow> b' = b \<or> b' = None \<and> (\<exists>p. b = Some p \<and> closed p)"

section \<open>Calls\<close>

text \<open>The calls of the manager that change its state.\<close>

datatype sync_call =
    Registering string bytes "handle list" "handle option"
  | Achieving handle string bool
  | Joining handle
  | Resigning handle
  | Destroying
  | Retrying
  | Observing handle SyncCallbackKind string nat bool
  | Reconciling "RestoredCallback list"

fun perform :: "SyncOptions \<Rightarrow> fed_name \<Rightarrow> sync_call \<Rightarrow> SyncManager \<Rightarrow> sync_error option \<times> SyncManager" where
  "perform opt f (Registering l tg requested r) m = register opt f l tg requested r m"
| "perform opt f (Achieving h l ok) m = achieve opt f h l ok m"
| "perform opt f (Joining h) m = FederateJoined opt f h m"
| "perform opt f (Resigning h) m = FederateResigned opt f h m"
| "perform opt f Destroying m = (None, OnSyncFederationDestroyed f m)"
| "perform opt f Retrying m = RetryPending opt f m"
| "perform opt f (Observing h kind l n entry) m = observeCallback opt f h kind l n entry m"
| "perform opt f (Reconciling captured) m = ReconcileRestoredCallbacks f captured m"

text \<open>Handle 0 is invalid: no caller has it and nobody asks for it.\<close>

fun valid_call :: "sync_call \<Rightarrow> bool" where
  "valid_call (Registering l tg requested r) \<longleftrightarrow> r \<noteq> Some 0 \<and> 0 \<notin> set requested"
| "valid_call (Achieving h l ok) \<longleftrightarrow> h \<noteq> 0"
| "valid_call (Joining h) \<longleftrightarrow> h \<noteq> 0"
| "valid_call _ \<longleftrightarrow> True"

fun lifecycle_call :: "sync_call \<Rightarrow> bool" where
  "lifecycle_call (Joining h) \<longleftrightarrow> True"
| "lifecycle_call (Resigning h) \<longleftrightarrow> True"
| "lifecycle_call _ \<longleftrightarrow> False"

text \<open>
  What each call does to the barriers of its federation, whose members are \<open>ms\<close>.  A registration under
  a label in use, or for somebody who is not a member, opens nothing; the registrant is told.
\<close>

fun barrier_effect :: "handle list \<Rightarrow> sync_call \<Rightarrow> barriers \<Rightarrow> barriers \<Rightarrow> bool" where
  "barrier_effect ms (Registering l tg requested r) b b' \<longleftrightarrow>
     (if b l \<noteq> None \<or> r \<noteq> None \<and> \<not> set requested \<subseteq> set ms then r \<noteq> None \<and> b' = b
      else b' = b(l \<mapsto> open_barrier (if requested = [] then ms else requested) (requested = [])))"
| "barrier_effect ms (Achieving h l ok) b b' \<longleftrightarrow>
     (\<exists>p. b l = Some p \<and> h |\<in>| participants p \<and> h |\<notin>| arrived p \<and> b' = b(l \<mapsto> arrive h ok p))"
| "barrier_effect ms (Joining h) b b' \<longleftrightarrow> b' = (\<lambda>l. map_option (enter h) (b l))"
| "barrier_effect ms (Resigning h) b b' \<longleftrightarrow> (\<forall>l. kept (map_option (leave h) (b l)) (b' l))"
| "barrier_effect ms Destroying b b' \<longleftrightarrow> b' = (\<lambda>l. None)"
| "barrier_effect ms Retrying b b' \<longleftrightarrow> b' = b"
| "barrier_effect ms (Observing h kind l n entry) b b' \<longleftrightarrow> kept (b l) (b' l) \<and> b' = b(l := b' l)"
| "barrier_effect ms (Reconciling captured) b b' \<longleftrightarrow> b' = b"

section \<open>Abstraction\<close>

definition barrier_of :: "syncPoint \<Rightarrow> barrier" where
  "barrier_of p = \<lparr>participants = required p, arrived = achieved p, failures = failed p, everyone = allMembers p, closed = (state p = StateAchieved)\<rparr>"

definition barriers_of :: "federationState \<Rightarrow> barriers" where
  "barriers_of st l = map_option barrier_of (shape st l)"

lemma barrier_of_skel [simp]: "barrier_of (skel p) = barrier_of p"
  by (simp add: barrier_of_def)

lemma barriers_of_get: "fmlookup (points st) l = Some p \<Longrightarrow> barriers_of st l = Some (barrier_of p)"
  by (simp add: barriers_of_def shape_def)

lemma barriers_of_shape: "shape st' = shape st \<Longrightarrow> barriers_of st' = barriers_of st"
  by (simp add: barriers_of_def fun_eq_iff)

lemma barriers_of_upd: "shape st' = (shape st)(l := map_option skel x) \<Longrightarrow> barriers_of st' = (barriers_of st)(l := map_option barrier_of x)"
  by (auto simp: barriers_of_def fun_eq_iff option.map_comp comp_def)

lemma barrier_completed: "nearly_ok p \<Longrightarrow> barrier_of (completed p) = close (barrier_of p)"
  by (auto simp: barrier_of_def completed_def close_def nearly_ok_def)

section \<open>Each change is an abstract step\<close>

lemma register_effect:
  assumes "registerChange opt f l tg requested r st = Inr (x, st')" and "Members opt = Some ms"
  shows "barrier_effect (ms f) (Registering l tg requested r) (barriers_of st) (barriers_of st')"
proof (cases "fmlookup (points st) l \<noteq> None \<or> registrationMembers opt f requested r = None")
  case True
  then obtain c where c: "enqueue c st = Inr st'" "r \<noteq> None"
    using assms by (auto simp: registerChange_def registrationFailed_def bindR_eq_Inr_iff split: if_splits option.splits)
  then have "barriers_of st' = barriers_of st" by (intro barriers_of_shape enqueue_shape)
  then show ?thesis using True c(2) assms(2)
    by (auto simp: barriers_of_def shape_def registrationMembers_def list_all_iff split: if_splits)
next
  case False
  then obtain hs where hs: "registrationMembers opt f requested r = Some hs" by blast
  define p where "p = newPoint opt tg hs (requested = []) (nextEpoch st + 1)"
  have "\<exists>cs. enqueueAll cs (putPoint l p (st\<lparr>nextEpoch := nextEpoch st + 1\<rparr>)) = Inr st'"
    using assms False hs unfolding registerChange_def Let_def p_def by (auto simp del: enqueueAll.simps simp: bindR_eq_Inr_iff split: if_splits)
  then obtain cs where "enqueueAll cs (putPoint l p (st\<lparr>nextEpoch := nextEpoch st + 1\<rparr>)) = Inr st'" by blast
  then have "shape st' = (shape (st\<lparr>nextEpoch := nextEpoch st + 1\<rparr>))(l \<mapsto> skel p)" using enqueueAll_shape by fastforce
  then have "shape st' = (shape st)(l := map_option skel (Some p))" by (simp add: shape_def fun_eq_iff)
  then have "barriers_of st' = (barriers_of st)(l := map_option barrier_of (Some p))" by (rule barriers_of_upd)
  moreover have "barriers_of st l = None" using False by (simp add: barriers_of_def)
  moreover have "hs = (if requested = [] then ms f else requested) \<and> (r \<noteq> None \<longrightarrow> set requested \<subseteq> set (ms f))"
    using hs assms(2) by (auto simp: registrationMembers_def list_all_iff split: if_splits)
  ultimately show ?thesis by (auto simp: barrier_of_def p_def newPoint_def open_barrier_def)
qed

lemma achieve_effect:
  assumes a: "achieveChange opt h l ok st = Inr (x, st')" and s: "strict_ok st"
  shows "barrier_effect ms (Achieving h l ok) (barriers_of st) (barriers_of st')"
proof -
  obtain own where L: "ledger own {} {} {} st" and P: "points_ok st" using s by (auto simp: strict_ok_def)
  obtain p where p: "fmlookup (points st) l = Some p" using a by (auto simp: achieveChange_def split: option.splits)
  have d: "\<not> dynamic p" using ledgerD(1) [OF L p] by (simp add: frame_ok_def)
  define q where "q = p\<lparr>achieved := finsert h (achieved p), failed := (if ok then failed p else finsert h (failed p))\<rparr>"
  have c: "h |\<in>| required p" "h |\<notin>| achieved p" "complete opt l q (putPoint l q st) = Inr st'"
    using a p d unfolding achieveChange_def q_def by (auto simp: Let_def bindR_eq_Inr_iff split: if_splits)
  have q: "nearly_ok q" "required q \<noteq> {||}" using points_ok_get [OF P p] c(1,2) by (auto simp: point_ok_def nearly_ok_def q_def)
  have "shape st' = (shape st)(l := map_option skel (Some (completed q)))" using complete_shape [OF c(3) _ q(1)] q(2) by simp
  then have "barriers_of st' = (barriers_of st)(l := map_option barrier_of (Some (completed q)))" by (rule barriers_of_upd)
  moreover have "barrier_of (completed q) = arrive h ok (barrier_of p)"
    using barrier_completed [OF q(1)] by (simp add: arrive_def barrier_of_def q_def)
  ultimately show ?thesis using barriers_of_get [OF p] c(1,2) by (simp add: barrier_of_def)
qed

lemma enter_idem: "h |\<in>| participants b \<Longrightarrow> enter h b = b"
  by (cases b) (auto simp: enter_def)

lemma join_barriers:
  assumes "joinPoints h ls st = Inr st'" and "points_ok st" and "distinct ls" and "h \<noteq> 0"
  shows "barriers_of st' l = (if l \<in> set ls then map_option (enter h) (barriers_of st l) else barriers_of st l)"
  using assms
proof (induction ls arbitrary: st)
  case (Cons k ls)
  show ?case
  proof (cases "\<exists>p. fmlookup (points st) k = Some p \<and> allMembers p \<and> state p = StateAnnounced \<and> h |\<notin>| required p")
    case False
    then have j: "joinPoints h ls st = Inr st'" using Cons.prems(1) by (auto split: option.splits if_splits)
    have "map_option (enter h) (barriers_of st k) = barriers_of st k"
    proof (cases "fmlookup (points st) k")
      case (Some p)
      then have "point_ok p" using points_ok_get [OF Cons.prems(2)] by blast
      then have "enter h (barrier_of p) = barrier_of p"
        using False Some enter_idem [of h "barrier_of p"] by (auto simp: enter_def barrier_of_def point_ok_def)
      then show ?thesis using barriers_of_get [OF Some] by simp
    qed (simp add: barriers_of_def shape_def)
    then show ?thesis using Cons.IH [OF j Cons.prems(2)] Cons.prems(3,4) by auto
  next
    case True
    then obtain p where p: "fmlookup (points st) k = Some p" "allMembers p" "state p = StateAnnounced" "h |\<notin>| required p" by blast
    define q where "q = p\<lparr>required := finsert h (required p)\<rparr>"
    obtain u where u: "enqueue (announcement k q h) (putPoint k q st) = Inr u" "joinPoints h ls u = Inr st'"
      using Cons.prems(1) p by (auto simp: Let_def bindR_eq_Inr_iff q_def)
    have "point_ok p" by (rule points_ok_get [OF Cons.prems(2) p(1)])
    then have "point_ok q" using p(3,4) Cons.prems(4) by (auto simp: point_ok_def q_def)
    then have P: "points_ok u" using points_ok_same [OF enqueue_shape [OF u(1)]] points_ok_put [OF Cons.prems(2)] by blast
    have "shape u = (shape st)(k := map_option skel (Some q))" using enqueue_shape [OF u(1)] by simp
    then have "barriers_of u = (barriers_of st)(k := map_option barrier_of (Some q))" by (rule barriers_of_upd)
    moreover have "barrier_of q = enter h (barrier_of p)" using p by (simp add: barrier_of_def enter_def q_def)
    ultimately show ?thesis using Cons.IH [OF u(2) P] Cons.prems(3,4) barriers_of_get [OF p(1)] by auto
  qed
qed simp

lemma join_effect:
  assumes "joinPoints h (sortedLabels st) st = Inr st'" and "points_ok st" and "h \<noteq> 0"
  shows "barrier_effect ms (Joining h) (barriers_of st) (barriers_of st')"
proof -
  have "barriers_of st' l = map_option (enter h) (barriers_of st l)" for l
    using join_barriers [OF assms(1,2) _ assms(3), of l]
    by (cases "fmlookup (points st) l") (auto simp: sortedLabels_def fmlookup_dom_iff barriers_of_def shape_def)
  then show ?thesis by auto
qed

lemma kept_trans: "kept b b1 \<Longrightarrow> kept b1 b' \<Longrightarrow> kept b b'"
  by (auto simp: kept_def)

lemma retire_kept: "kept (barriers_of st k) (barriers_of (retire opt l st) k)"
  by (auto simp: kept_def retire_def barriers_of_def shape_def dropPoint_def barrier_of_def split: option.splits)

lemma retire_other: "l \<noteq> k \<Longrightarrow> barriers_of (retire opt k st) l = barriers_of st l"
  by (auto simp: retire_def barriers_of_def shape_def dropPoint_def split: option.split)

lemma resign_barriers:
  assumes "resignPoints opt h ls st = Inr st'" and "points_ok st" and "distinct ls"
  shows "kept (if l \<in> set ls then map_option (leave h) (barriers_of st l) else barriers_of st l) (barriers_of st' l)"
  using assms
proof (induction ls arbitrary: st)
  case Nil
  then show ?case by (simp add: kept_def)
next
  case (Cons k ls)
  show ?case
  proof (cases "fmlookup (points st) k")
    case None
    then have "barriers_of st k = None" by (simp add: barriers_of_def)
    then show ?thesis using Cons.IH [of st] Cons.prems None by auto
  next
    case (Some p)
    let ?p = "withdraw h p"
    obtain u where u: "complete opt k ?p (putPoint k ?p st) = Inr u" "resignPoints opt h ls (retire opt k u) = Inr st'"
      using Cons.prems(1) Some by (auto simp: Let_def bindR_eq_Inr_iff)
    have ok: "nearly_ok ?p" by (rule withdraw_nearly_ok [OF points_ok_get [OF Cons.prems(2) Some]])
    have P: "points_ok (retire opt k u)" using complete_points_ok [OF u(1) Cons.prems(2) ok] by (rule retire_points_ok)
    define x where "x = (if RequireInvocations opt \<and> required ?p = {||} \<and> state ?p \<noteq> StateAchieved then None else Some (completed ?p))"
    have "shape u = (shape st)(k := map_option skel x)" using complete_shape [OF u(1) _ ok] by (simp add: x_def)
    then have bu: "barriers_of u = (barriers_of st)(k := map_option barrier_of x)" by (rule barriers_of_upd)
    have lv: "barrier_of (completed ?p) = leave h (barrier_of p)"
      using barrier_completed [OF ok] by (simp add: leave_def barrier_of_def withdraw_def)
    have "closed (leave h (barrier_of p))" if "required ?p = {||}"
      using that by (simp add: lv [symmetric]) (simp add: barrier_of_def completed_def)
    then have "kept (map_option (leave h) (barriers_of st k)) (barriers_of u k)"
      unfolding bu barriers_of_get [OF Some] x_def by (auto simp: kept_def lv)
    then have kk: "kept (map_option (leave h) (barriers_of st k)) (barriers_of (retire opt k u) k)"
      using kept_trans retire_kept by blast
    have rest: "kept (if l \<in> set ls then map_option (leave h) (barriers_of (retire opt k u) l) else barriers_of (retire opt k u) l) (barriers_of st' l)"
      by (rule Cons.IH [OF u(2) P]) (use Cons.prems in simp)
    show ?thesis
    proof (cases "l = k")
      case True
      then have "kept (barriers_of (retire opt k u) k) (barriers_of st' k)" using rest Cons.prems(3) by simp
      then show ?thesis using kept_trans [OF kk] True by simp
    next
      case False
      then have e: "barriers_of (retire opt k u) l = barriers_of st l" using retire_other [of l k opt u] bu by simp
      show ?thesis using rest False unfolding e by simp
    qed
  qed
qed

lemma resign_effect:
  assumes "resignPoints opt h (sortedLabels st) (forgetRecipient h st) = Inr st'" and "points_ok st"
  shows "barrier_effect ms (Resigning h) (barriers_of st) (barriers_of st')"
proof -
  have P: "points_ok (forgetRecipient h st)" using assms(2) by (simp add: points_ok_def)
  have e: "barriers_of (forgetRecipient h st) = barriers_of st" by (rule barriers_of_shape [OF shape_same]) simp
  have "kept (if l \<in> set (sortedLabels st) then map_option (leave h) (barriers_of st l) else barriers_of st l) (barriers_of st' l)" for l
    using resign_barriers [OF assms(1) P, of l] unfolding e by (simp add: sortedLabels_def del: sortedLabels_set)
  moreover have "l \<notin> set (sortedLabels st) \<Longrightarrow> barriers_of st l = None" for l
    by (cases "fmlookup (points st) l") (auto simp: fmlookup_dom'_iff barriers_of_def shape_def)
  ultimately have "kept (map_option (leave h) (barriers_of st l)) (barriers_of st' l)" for l
    by (metis option.map_disc_iff)
  then show ?thesis by simp
qed

section \<open>The manager implements the barriers\<close>

lemma admitted_shape [simp]: "shape (admitted opt st) = shape st" "shape (st\<lparr>pending := ps\<rparr>) = shape st"
  by (simp_all add: shape_def admitted_def fun_eq_iff)

text \<open>
  A transition takes effect when it succeeds; when it fails, the effect is there for a member that joins
  or resigns and after a failed commit only.
\<close>

lemma transition_effect:
  assumes "\<And>x st. change (stateOf m f) = Inr (x, st) \<Longrightarrow> E (barriers_of (stateOf m f)) (barriers_of st)"
    and "ReservableOutbox opt" and "transition opt f lifecycle change m = (r, m')"
  shows "(\<forall>x. r = Inr x \<longrightarrow> E (barriers_of (stateOf m f)) (barriers_of (stateOf m' f))) \<and>
    (\<forall>e. r = Inl e \<longrightarrow> barriers_of (stateOf m' f) = barriers_of (stateOf m f) \<or>
      E (barriers_of (stateOf m f)) (barriers_of (stateOf m' f)) \<and> (lifecycle \<or> (\<exists>ds. CommitReservation opt f ds \<noteq> None)))"
proof (cases "change (stateOf m f)")
  case (Inl e)
  then have "r = Inl e" "m' = m" using assms(3) by (simp_all add: transition_def)
  then show ?thesis by simp
next
  case (Inr y)
  then obtain x st where y: "change (stateOf m f) = Inr (x, st)" by (cases y) auto
  have same: "barriers_of (admitted opt st) = barriers_of st" "barriers_of ((admitted opt st)\<lparr>pending := ps\<rparr>) = barriers_of st" for ps
    by (rule barriers_of_shape, simp)+
  have "(\<exists>x. r = Inr x) \<and> barriers_of (stateOf m' f) = barriers_of st \<or>
      (\<exists>e. r = Inl e) \<and> (barriers_of (stateOf m' f) = barriers_of (stateOf m f) \<or>
        barriers_of (stateOf m' f) = barriers_of st \<and> (lifecycle \<or> (\<exists>ds. CommitReservation opt f ds \<noteq> None)))"
    using assms(2,3) by (auto simp: transition_def y Let_def same split: if_splits option.splits)
  then show ?thesis using assms(1) [OF y] by auto
qed

lemma transition_other: "g \<noteq> f \<Longrightarrow> stateOf (snd (transition opt f lifecycle change m)) g = stateOf m g"
  by (auto simp: transition_def Let_def sendAll_state split: sum.split option.split prod.split)

lemma retry_shape: "shape (stateOf (snd (retryLoop opt f m)) g) = shape (stateOf m g)"
proof (induction opt f m rule: retryLoop.induct)
  case (1 opt f m)
  have "shape (retried opt st) = shape st" for st by (simp add: retried_def shape_def fun_eq_iff)
  then show ?case using 1 by (subst retryLoop.simps) (auto simp: Let_def split: option.split)
qed

lemma observe_effect: "barrier_effect ms (Observing h kind k n entry) (barriers_of (stateOf m f)) (barriers_of (stateOf (snd (observeCallback opt f h kind k n entry m)) f))"
proof -
  have o: "barriers_of (observed entry n c st) = barriers_of st" for c st by (rule barriers_of_shape) simp
  have p: "barriers_of (putPoint k (p\<lparr>callbacks := cs\<rparr>) (observed entry n c st)) = barriers_of st"
    if "fmlookup (points st) k = Some p" for p cs c st
    using that by (auto simp: barriers_of_def shape_def sync_simps observed_def fun_eq_iff)
  define E where "E b b' \<longleftrightarrow> kept (b k) (b' k) \<and> b' = b(k := b' k)" for b b' :: barriers
  have E: "E b b" for b by (simp add: E_def kept_def)
  have r: "E (barriers_of st) (barriers_of (retire opt k (putPoint k (p\<lparr>callbacks := cs\<rparr>) (observed entry n c st))))"
    if "fmlookup (points st) k = Some p" for p cs c st
    using retire_kept [of "putPoint k (p\<lparr>callbacks := cs\<rparr>) (observed entry n c st)" k opt k] p [OF that]
      retire_other [of _ k opt "putPoint k (p\<lparr>callbacks := cs\<rparr>) (observed entry n c st)"] by (auto simp: E_def)
  have q: "points (observed entry n c st) = points st" for c st by (simp add: observed_def)
  have "E (barriers_of st) (barriers_of st')"
    if "observePointCallback opt p h kind k n entry (observed entry n c st) = Inr (Some st')" "fmlookup (points st) k = Some p" for p c st st'
    using that r by (auto simp: observePointCallback_def Let_def o E split: SyncCallbackKind.splits if_splits)
  then have "E (barriers_of (stateOf m f)) (barriers_of (stateOf (snd (observeCallback opt f h kind k n entry m)) f))"
    by (auto simp: observeCallback_def Let_def o q E split: option.split sum.split)
  then show ?thesis by (simp add: E_def)
qed

lemma retry_reconcile_effect:
  "barriers_of (stateOf (snd (RetryPending opt f m)) g) = barriers_of (stateOf m g)"
  "barriers_of (stateOf (snd (ReconcileRestoredCallbacks f captured m)) g) = barriers_of (stateOf m g)"
  by (rule barriers_of_shape, simp add: RetryPending_def retry_shape del: retryLoop.simps)
    (rule barriers_of_shape, auto simp: ReconcileRestoredCallbacks_def Let_def split: sum.split)

text \<open>A call leaves the other federations alone, and every call of the strict profile is a step.\<close>

lemma perform_other:
  assumes "perform opt f call m = (e, m')" and "g \<noteq> f"
  shows "barriers_of (stateOf m' g) = barriers_of (stateOf m g)"
proof -
  have "m' = snd (perform opt f call m)" using assms(1) by simp
  then show ?thesis using assms(2)
    by (cases call) (simp_all add: stateOf_register stateOf_achieve FederateJoined_snd FederateResigned_snd transition_other
        retry_reconcile_effect observe_other, simp add: OnSyncFederationDestroyed_def stateOf_def)
qed

lemma perform_step: "strictOptions opt \<Longrightarrow> valid_call call \<Longrightarrow> sync_step m (snd (perform opt f call m))"
  by (cases call) (auto intro: sync_step.intros)

text \<open>The outcome of a call as the barriers see it.\<close>

definition barrier_outcome :: "SyncOptions \<Rightarrow> fed_name \<Rightarrow> handle list \<Rightarrow> sync_call \<Rightarrow> sync_error option \<Rightarrow> barriers \<Rightarrow> barriers \<Rightarrow> bool" where
  "barrier_outcome opt f ms call e b b' \<longleftrightarrow>
     (case e of
        None \<Rightarrow> barrier_effect ms call b b'
      | Some _ \<Rightarrow> b' = b \<or> barrier_effect ms call b b' \<and> (lifecycle_call call \<or> (\<exists>ds. CommitReservation opt f ds \<noteq> None)))"

lemma transition_outcome:
  assumes "\<And>x st. change (stateOf m f) = Inr (x, st) \<Longrightarrow> barrier_effect ms call (barriers_of (stateOf m f)) (barriers_of st)"
    and "ReservableOutbox opt" and "transition opt f (lifecycle_call call) change m = (r, m1)"
    and "e = None \<longleftrightarrow> (\<exists>x. r = Inr x)" and "stateOf m' f = stateOf m1 f"
  shows "barrier_outcome opt f ms call e (barriers_of (stateOf m f)) (barriers_of (stateOf m' f))"
  using transition_effect [of change m f "barrier_effect ms call", OF assms(1) assms(2,3)] assms(4,5) by (cases r) (auto simp: barrier_outcome_def)

lemma perform_outcome:
  assumes "perform opt f call m = (e, m')" and "strict_ok (stateOf m f)" and "strictOptions opt" and "Members opt = Some ms" and "valid_call call"
  shows "barrier_outcome opt f (ms f) call e (barriers_of (stateOf m f)) (barriers_of (stateOf m' f))"
proof -
  have o: "ReservableOutbox opt" "points_ok (stateOf m f)" using assms(2,3) by (auto simp: strictOptions_def validOptions_def strict_ok_def)
  have m': "m' = snd (perform opt f call m)" using assms(1) by simp
  show ?thesis
  proof (cases call)
    case (Registering l tg requested r)
    obtain x m1 where t: "transition opt f False (registerChange opt f l tg requested r) m = (x, m1)" by force
    show ?thesis by (rule transition_outcome [OF _ o(1), of "registerChange opt f l tg requested r" m f _ _ x m1])
        (use t assms Registering register_effect in \<open>auto simp: register_def split: sum.splits\<close>)
  next
    case (Achieving h l ok)
    obtain x m1 where t: "transition opt f False (achieveChange opt h l ok) m = (x, m1)" by force
    show ?thesis by (rule transition_outcome [OF _ o(1), of "achieveChange opt h l ok" m f _ _ x m1])
        (use t assms Achieving achieve_effect in \<open>auto simp: achieve_def split: sum.splits simp del: barrier_effect.simps\<close>)
  next
    case (Joining h)
    let ?c = "\<lambda>st. bindR (joinPoints h (sortedLabels st) st) (\<lambda>st. Inr ((), st))"
    obtain x m1 where t: "transition opt f True ?c m = (x, m1)" by force
    show ?thesis by (rule transition_outcome [OF _ o(1), of ?c m f _ _ x m1])
        (use t assms Joining join_effect o(2) in \<open>auto simp: FederateJoined_def bindR_eq_Inr_iff split: sum.splits simp del: barrier_effect.simps\<close>)
  next
    case (Resigning h)
    let ?c = "\<lambda>st. bindR (resignPoints opt h (sortedLabels st) (forgetRecipient h st)) (\<lambda>st. Inr ((), st))"
    obtain x m1 where t: "transition opt f True ?c m = (x, m1)" by force
    show ?thesis by (rule transition_outcome [OF _ o(1), of ?c m f _ _ x m1])
        (use t assms Resigning resign_effect o(2) in \<open>auto simp: FederateResigned_def bindR_eq_Inr_iff split: sum.splits simp del: barrier_effect.simps\<close>)
  next
    case Destroying
    have "barriers_of emptyFederationState = (\<lambda>l. None)" by (simp add: barriers_of_def shape_def emptyFederationState_def fun_eq_iff)
    then show ?thesis using Destroying assms(1) by (auto simp: barrier_outcome_def OnSyncFederationDestroyed_def stateOf_def)
  next
    case Retrying
    then show ?thesis using m' retry_reconcile_effect(1) [of opt f m f] by (simp add: barrier_outcome_def split: option.split)
  next
    case (Observing h kind l n entry)
    have "m' = m" if "e \<noteq> None" using that assms(1) Observing by (auto simp: observeCallback_def Let_def split: if_splits option.splits sum.splits)
    then show ?thesis using m' Observing observe_effect [of "ms f" h kind l n entry m f opt]
      by (auto simp: barrier_outcome_def split: option.split)
  next
    case (Reconciling captured)
    then show ?thesis using m' retry_reconcile_effect(2) [of f captured m f] by (simp add: barrier_outcome_def split: option.split)
  qed
qed

end
