(* ===== verification/Sync_Properties.thy ===== *)
theory Sync_Properties
  imports Sync_Spec
begin

text \<open>
  The properties of the synchronization manager in the strict profile.
\<close>

section \<open>Completed points are not forgotten\<close>

text \<open>What \<open>retire\<close> looks at: the shape of a point and who has acknowledged its notification.\<close>

definition acks :: "federationState \<Rightarrow> string \<Rightarrow> (syncPoint \<times> (handle \<Rightarrow> bool)) option" where
  "acks st l = map_option (\<lambda>p. (skel p, \<lambda>h. SynchronizedInvoked (invocation p h))) (fmlookup (points st) l)"

definition waits_at :: "federationState \<Rightarrow> string \<Rightarrow> bool" where
  "waits_at st l \<longleftrightarrow> (\<forall>q a. acks st l = Some (q, a) \<and> state q = StateAchieved \<longrightarrow> (\<exists>h. h |\<in>| required q \<and> \<not> a h))"

lemma waits_at_acks: "acks st' l = acks st l \<Longrightarrow> waits_at st' l = waits_at st l"
  by (simp add: waits_at_def)

lemma waits_at_get:
  "waits_at st l \<Longrightarrow> fmlookup (points st) l = Some p \<Longrightarrow> state p = StateAchieved \<Longrightarrow> \<exists>h. h |\<in>| required p \<and> \<not> SynchronizedInvoked (invocation p h)"
  by (auto simp: waits_at_def acks_def)

lemma acks_same: "points st' = points st \<Longrightarrow> acks st' = acks st"
  by (simp add: acks_def fun_eq_iff)

lemma acks_put: "acks (putPoint l p st) = (acks st)(l \<mapsto> (skel p, \<lambda>h. SynchronizedInvoked (invocation p h)))"
  by (auto simp: acks_def sync_simps)

lemma acks_drop: "acks (dropPoint l st) = (acks st)(l := None)"
  by (auto simp: acks_def sync_simps)

lemma enqueue_acks: "enqueue c st = Inr st' \<Longrightarrow> acks st' = acks st"
  by (auto simp: acks_def fun_eq_iff enqueue_points split: option.splits callbackKind.splits)

lemma enqueueAll_acks: "enqueueAll cs st = Inr st' \<Longrightarrow> acks st' = acks st"
  by (induction cs arbitrary: st) (auto simp: bindR_eq_Inr_iff enqueue_acks)

lemma complete_acks:
  assumes "complete opt l p st = Inr st'"
  shows "k \<noteq> l \<Longrightarrow> acks st' k = acks st k"
    and "acks st l = Some (skel p, \<lambda>h. SynchronizedInvoked (invocation p h)) \<Longrightarrow>
      acks st' l = None \<or> acks st' l = Some (skel p, \<lambda>h. SynchronizedInvoked (invocation p h)) \<or>
      acks st' l = Some (skel (p\<lparr>state := StateAchieved\<rparr>), \<lambda>h. SynchronizedInvoked (invocation p h)) \<and> \<not> (RequireInvocations opt \<and> required p = {||})"
proof -
  have e: "acks u = (acks st)(l \<mapsto> (skel (p\<lparr>state := StateAchieved\<rparr>), \<lambda>h. SynchronizedInvoked (invocation p h)))"
    if "enqueueAll cs (putPoint l (p\<lparr>state := StateAchieved\<rparr>) st) = Inr u" for cs u
    using enqueueAll_acks [OF that] by (simp add: acks_put)
  show "k \<noteq> l \<Longrightarrow> acks st' k = acks st k"
    using assms by (cases rule: complete_cases) (simp_all add: e acks_drop)
  assume "acks st l = Some (skel p, \<lambda>h. SynchronizedInvoked (invocation p h))"
  with assms show "acks st' l = None \<or> acks st' l = Some (skel p, \<lambda>h. SynchronizedInvoked (invocation p h)) \<or>
      acks st' l = Some (skel (p\<lparr>state := StateAchieved\<rparr>), \<lambda>h. SynchronizedInvoked (invocation p h)) \<and> \<not> (RequireInvocations opt \<and> required p = {||})"
    by (cases rule: complete_cases) (simp_all add: e acks_drop)
qed

lemma retire_waits:
  "RequireInvocations opt \<Longrightarrow> waits_at (retire opt l st) l" "waits_at st k \<Longrightarrow> waits_at (retire opt l st) k"
  by (auto simp: retire_def waits_at_def acks_def sync_simps split: option.splits if_splits)

definition waits :: "federationState \<Rightarrow> bool" where
  "waits st \<longleftrightarrow> (\<forall>l. waits_at st l)"

lemma waits_acks: "acks st' = acks st \<Longrightarrow> waits st' = waits st"
  by (simp add: waits_def waits_at_def)

lemma waits_put_open: "waits st \<Longrightarrow> state p \<noteq> StateAchieved \<Longrightarrow> waits (putPoint l p st)"
  by (auto simp: waits_def waits_at_def acks_put)

lemma register_waits:
  assumes "registerChange opt f l tg requested r st = Inr (x, st')" and "waits st"
  shows "waits st'"
proof (cases "fmlookup (points st) l \<noteq> None \<or> registrationMembers opt f requested r = None")
  case True
  then obtain c where "enqueue c st = Inr st'"
    using assms(1) by (auto simp: registerChange_def registrationFailed_def bindR_eq_Inr_iff split: if_splits option.splits)
  then show ?thesis using assms(2) waits_acks [OF enqueue_acks] by blast
next
  case False
  then obtain hs where hs: "registrationMembers opt f requested r = Some hs" by blast
  define p where "p = newPoint opt tg hs (requested = []) (nextEpoch st + 1)"
  have "\<exists>cs. enqueueAll cs (putPoint l p (st\<lparr>nextEpoch := nextEpoch st + 1\<rparr>)) = Inr st'"
    using assms(1) False hs unfolding registerChange_def Let_def p_def by (auto simp del: enqueueAll.simps simp: bindR_eq_Inr_iff split: if_splits)
  then have "acks st' = acks (putPoint l p (st\<lparr>nextEpoch := nextEpoch st + 1\<rparr>))" using enqueueAll_acks by blast
  moreover have "acks (st\<lparr>nextEpoch := nextEpoch st + 1\<rparr>) = acks st" by (rule acks_same) simp
  then have "waits (st\<lparr>nextEpoch := nextEpoch st + 1\<rparr>)" using assms(2) waits_acks by blast
  then have "waits (putPoint l p (st\<lparr>nextEpoch := nextEpoch st + 1\<rparr>))" by (rule waits_put_open) (simp add: p_def newPoint_def)
  ultimately show ?thesis using waits_acks by blast
qed

lemma achieve_waits:
  assumes a: "achieveChange opt h l ok st = Inr (x, st')" and s: "strict_ok st" and r: "RequireInvocations opt" and w: "waits st"
  shows "waits st'"
proof -
  obtain own where L: "ledger own {} {} {} st" using s by (auto simp: strict_ok_def)
  obtain p where p: "fmlookup (points st) l = Some p" using a by (auto simp: achieveChange_def split: option.splits)
  have d: "\<not> dynamic p" using ledgerD(1) [OF L p] by (simp add: frame_ok_def)
  define q where "q = p\<lparr>achieved := finsert h (achieved p), failed := (if ok then failed p else finsert h (failed p))\<rparr>"
  have c: "h |\<in>| required p" "h |\<notin>| achieved p" "complete opt l q (putPoint l q st) = Inr st'"
    using a p d unfolding achieveChange_def q_def by (auto simp: Let_def bindR_eq_Inr_iff split: if_splits)
  have "point_ok p" using s points_ok_get [OF _ p] by (auto simp: strict_ok_def)
  then have na: "state p \<noteq> StateAchieved" using c(1,2) by (auto simp: point_ok_def)
  have iq: "invocation q k = invocation p k" for k by (simp add: q_def invocation_def)
  have nsi: "\<not> SynchronizedInvoked (invocation p h)" using ledgerD(2) [OF L p c(1)] na by (auto simp: inv_ok_def)
  have here: "waits_at st' l"
  proof -
    have "acks st' l = None \<or> (\<exists>q'. acks st' l = Some (q', \<lambda>k. SynchronizedInvoked (invocation p k)) \<and> required q' = required p)"
      using complete_acks(2) [OF c(3)] by (auto simp: acks_put iq) (auto simp: q_def)
    then show ?thesis using nsi c(1) unfolding waits_at_def by fastforce
  qed
  have "waits_at st' k" if "k \<noteq> l" for k
  proof -
    have "acks st' k = acks st k" using complete_acks(1) [OF c(3) that] that by (simp add: acks_put)
    then show ?thesis using w waits_at_acks [of st' k st] unfolding waits_def by simp
  qed
  then show ?thesis unfolding waits_def using here by metis
qed

lemma join_waits: "joinPoints h ls st = Inr st' \<Longrightarrow> waits st \<Longrightarrow> waits st'"
proof (induction ls arbitrary: st)
  case (Cons l ls)
  show ?case
  proof (cases "\<exists>p. fmlookup (points st) l = Some p \<and> allMembers p \<and> state p = StateAnnounced \<and> h |\<notin>| required p")
    case False
    then have "joinPoints h ls st = Inr st'" using Cons.prems(1) by (auto split: option.splits if_splits)
    then show ?thesis using Cons by blast
  next
    case True
    then obtain p where p: "fmlookup (points st) l = Some p" "allMembers p" "state p = StateAnnounced" "h |\<notin>| required p" by blast
    define q where "q = p\<lparr>required := finsert h (required p)\<rparr>"
    obtain u where u: "enqueue (announcement l q h) (putPoint l q st) = Inr u" "joinPoints h ls u = Inr st'"
      using Cons.prems(1) p by (auto simp: Let_def bindR_eq_Inr_iff q_def)
    have "waits (putPoint l q st)" by (rule waits_put_open [OF Cons.prems(2)]) (simp add: q_def p(3))
    then have "waits u" using waits_acks [OF enqueue_acks [OF u(1)]] by blast
    then show ?thesis using Cons.IH u(2) by blast
  qed
qed simp

lemma resign_waits:
  "resignPoints opt h ls st = Inr st' \<Longrightarrow> RequireInvocations opt \<Longrightarrow> waits st \<Longrightarrow> waits st'"
proof (induction ls arbitrary: st)
  case (Cons l ls)
  show ?case
  proof (cases "fmlookup (points st) l")
    case None
    then show ?thesis using Cons by simp
  next
    case (Some p)
    obtain u where u: "complete opt l (withdraw h p) (putPoint l (withdraw h p) st) = Inr u" "resignPoints opt h ls (retire opt l u) = Inr st'"
      using Cons.prems(1) Some by (auto simp: Let_def bindR_eq_Inr_iff)
    have "waits_at u k" if "k \<noteq> l" for k
    proof -
      have "acks u k = acks st k" using complete_acks(1) [OF u(1) that] that by (simp add: acks_put)
      then show ?thesis using Cons.prems(3) waits_at_acks unfolding waits_def by blast
    qed
    then have "waits (retire opt l u)" using retire_waits(1) [OF Cons.prems(2)] retire_waits(2) unfolding waits_def by metis
    then show ?thesis using Cons.IH u(2) Cons.prems(2) by blast
  qed
qed simp

lemma observePoint_waits:
  assumes "observePointCallback opt p h kind l n entry (observed entry n c st) = Inr (Some st')" "fmlookup (points st) l = Some p"
    "RequireInvocations opt" "waits st"
  shows "waits st'"
proof -
  have o: "acks (observed entry n c st) = acks st" by (rule acks_same) (simp add: observed_def)
  have "waits (retire opt l (putPoint l q (observed entry n c st)))" for q
  proof -
    have "waits_at (putPoint l q (observed entry n c st)) k" if "k \<noteq> l" for k
    proof -
      have "acks (putPoint l q (observed entry n c st)) k = acks st k" using that by (simp add: acks_put o)
      then show ?thesis using assms(4) waits_at_acks unfolding waits_def by blast
    qed
    then show ?thesis using retire_waits(1) [OF assms(3)] retire_waits(2) unfolding waits_def by metis
  qed
  moreover have "waits (observed entry n c st)" using waits_acks [OF o] assms(4) by blast
  ultimately show ?thesis using assms(1)
    by (auto simp: observePointCallback_def Let_def split: SyncCallbackKind.splits if_splits)
qed

lemma observe_waits:
  assumes "RequireInvocations opt" "waits (stateOf m g)"
  shows "waits (stateOf (snd (observeCallback opt f h kind l n entry m)) g)"
proof (cases "g = f")
  case False
  then show ?thesis using assms(2) by (simp add: observe_other)
next
  case True
  have "waits (observed entry n c st) = waits st" for c st by (rule waits_acks [OF acks_same]) (simp add: observed_def)
  moreover have "points (observed entry n c st) = points st" for c st by (simp add: observed_def)
  ultimately show ?thesis using assms True observePoint_waits [OF _ _ assms(1), of _ h kind l n entry _ "stateOf m f"]
    by (auto simp: observeCallback_def Let_def split: option.split sum.split)
qed

lemma waits_frame: "waits (admitted opt st) = waits st" "waits (st\<lparr>pending := ps\<rparr>) = waits st" "waits (retried opt st) = waits st"
  by (rule waits_acks [OF acks_same], simp add: admitted_def retried_def)+

interpretation waiting: sync_invariant opt waits for opt
  by unfold_locales (simp_all add: waits_frame)

lemma sync_step_waits:
  assumes "sync_step m m'" and "\<And>g. strict_ok (stateOf m g)" and "waits (stateOf m g)"
  shows "waits (stateOf m' g)"
  using assms
proof (induction rule: sync_step.induct)
  case (registering opt r requested m f l tg)
  then show ?case unfolding stateOf_register using register_waits by (intro waiting.transition_keeps) auto
next
  case (achieving opt h m f l ok)
  then show ?case unfolding stateOf_achieve using achieve_waits by (intro waiting.transition_keeps) (auto simp: strictOptions_def)
next
  case (joining opt h m f)
  then show ?case unfolding FederateJoined_snd using join_waits by (intro waiting.transition_keeps) (auto simp: bindR_eq_Inr_iff)
next
  case (resigning opt m f h)
  have "waits (forgetRecipient h st) = waits st" for st by (rule waits_acks [OF acks_same]) simp
  then show ?case unfolding FederateResigned_snd using resign_waits resigning
    by (intro waiting.transition_keeps) (auto simp: bindR_eq_Inr_iff strictOptions_def)
next
  case (destroying m f)
  then show ?case by (auto simp: OnSyncFederationDestroyed_def stateOf_def waits_def waits_at_def acks_def emptyFederationState_def)
next
  case (retrying opt m f)
  then show ?case using waiting.retry_keeps by (simp add: RetryPending_def)
next
  case (observing opt m f h kind l n entry)
  then show ?case using observe_waits by (simp add: strictOptions_def)
next
  case (reconciling m f captured)
  have "waits (st\<lparr>pending := ps\<rparr>) = waits st" for st ps by (rule waits_acks [OF acks_same]) simp
  then show ?case using reconciling by (auto simp: ReconcileRestoredCallbacks_def Let_def split: sum.split)
qed

lemma restored_waits:
  assumes "waits st"
  shows "waits (restored st)"
  unfolding waits_def waits_at_def
proof (intro allI impI)
  fix l q a assume a: "acks (restored st) l = Some (q, a) \<and> state q = StateAchieved"
  then obtain r where r: "fmlookup (points (restored st)) l = Some r" "q = skel r" "a = (\<lambda>h. SynchronizedInvoked (invocation r h))"
    by (auto simp: acks_def)
  obtain p where p: "fmlookup (points st) l = Some p" "skel r = skel p"
    "\<And>h. h |\<in>| required p \<Longrightarrow> invocation r h = (invocation p h)\<lparr>iRecipient := h\<rparr>"
    using r(1) by (rule restored_get) (rule that)
  then show "\<exists>h. h |\<in>| required q \<and> \<not> a h"
    using waits_at_get [of st l p] assms a r skelD [OF p(2)] by (auto simp: waits_def)
qed

lemma reachable_waits: "sync_reachable m \<Longrightarrow> waits (stateOf m g)"
proof (induction arbitrary: g rule: sync_reachable.induct)
  case sync_init
  then show ?case by (simp add: NewSync_def stateOf_def waits_def waits_at_def acks_def emptyFederationState_def)
next
  case (sync_next m m')
  then show ?case using sync_step_waits reachable_strict by blast
next
  case (sync_restore m saved opt opt' f k)
  show ?case
  proof (cases "fmlookup (fed saved) k")
    case None
    then show ?thesis using sync_restore.IH(1) by (simp add: ImportState_def ExportState_def)
  next
    case (Some st)
    then have "waits (restored st)" using sync_restore.IH(2) [of k] restored_waits by (simp add: stateOf_def)
    then show ?thesis using Some sync_restore.IH(1) sync_restore.hyps(3,4)
      by (auto simp: ImportState_def ExportState_def PrepareImport_def restored_def strictOptions_def bindR_eq_Inr_iff split: sum.split)
  qed
qed

section \<open>Properties\<close>

text \<open>A run of two federates that use one point, in which federate 2 has not acknowledged yet.\<close>

definition calmOptions :: SyncOptions where
  "calmOptions = \<lparr>RequireInvocations = True, Members = Some (\<lambda>_. [1, 2]), EventLog = True, ReservableOutbox = True,
     Reserve = \<lambda>_ _. None, CommitReservation = \<lambda>_ _. None, Send = \<lambda>_ _. None\<rparr>"

definition sync_run1 :: SyncManager where
  "sync_run1 = snd (achieve calmOptions ''F'' 1 ''L'' True
    (snd (observeCallback calmOptions ''F'' 2 SyncCallbackAnnounced ''L'' 3 True
      (snd (observeCallback calmOptions ''F'' 1 SyncCallbackAnnounced ''L'' 2 True
        (snd (register calmOptions ''F'' ''L'' [] [] (Some 1) NewSync)))))))"

definition sync_run2 :: SyncManager where
  "sync_run2 = snd (achieve calmOptions ''F'' 2 ''L'' False sync_run1)"

lemma calm_strict: "strictOptions calmOptions"
  by (auto simp: strictOptions_def validOptions_def calmOptions_def)

lemma sync_run1_reachable: "sync_reachable sync_run1"
  unfolding sync_run1_def
  by (rule sync_next [OF sync_next [OF sync_next [OF sync_next [OF sync_init registering] observing] observing] achieving])
    (simp_all add: calm_strict)

lemma sync_run2_reachable: "sync_reachable sync_run2"
  unfolding sync_run2_def by (rule sync_next [OF sync_run1_reachable achieving]) (simp_all add: calm_strict)

text \<open>
  C6. Refinement.  Every call of the strict profile, with any answers of the outbox, acts on the points
  of its federation as the specification says for this call, and on no other federation: a
  registration opens one fresh barrier for the requested members, or for all of them, and
  otherwise nothing; an achievement is the arrival of this participant at this barrier, which
  closes when all have arrived; members that join enter the open barriers of everyone, and members
  that resign leave all of them; an acknowledgement can end the barrier it is for, once closed; and
  nothing else changes.  A call that fails has no effect, unless the outbox broke in the commit or
  a member joins or resigns, which then takes full effect.
\<close>

theorem sync_refines_barriers:
  assumes "sync_reachable m" and "strictOptions opt" and "Members opt = Some ms" and "valid_call call" and "perform opt f call m = (e, m')"
  shows "barrier_outcome opt f (ms f) call e (barriers_of (stateOf m f)) (barriers_of (stateOf m' f)) \<and>
    (\<forall>g. g \<noteq> f \<longrightarrow> barriers_of (stateOf m' g) = barriers_of (stateOf m g)) \<and> sync_reachable m'"
proof -
  have "m' = snd (perform opt f call m)" using assms(5) by simp
  then have "sync_reachable m'" using sync_next [OF assms(1) perform_step [OF assms(2,4)]] by simp
  then show ?thesis using perform_outcome [OF assms(5) reachable_strict [OF assms(1)] assms(2,3,4)] perform_other [OF assms(5)] by blast
qed

theorem sync_refines_barriers_witness:
  "\<exists>p. barriers_of (stateOf sync_run1 ''F'') ''L'' = Some p \<and>
     barriers_of (stateOf sync_run2 ''F'') = (barriers_of (stateOf sync_run1 ''F''))(''L'' \<mapsto> arrive 2 False p)"
proof -
  have "fst (achieve calmOptions ''F'' 2 ''L'' False sync_run1) = None" by code_simp
  then have "perform calmOptions ''F'' (Achieving 2 ''L'' False) sync_run1 = (None, sync_run2)"
    by (simp add: sync_run2_def prod_eq_iff)
  from sync_refines_barriers [OF sync_run1_reachable calm_strict _ _ this]
  show ?thesis by (auto simp: barrier_outcome_def calmOptions_def)
qed

text \<open>
  C17. Synchronization is never early.  While a notification that the federation is synchronized
  is outstanding, its point exists, is complete, and every participant, the recipient among
  them, has achieved it.
\<close>

theorem synchronized_only_when_all_achieved:
  assumes "sync_reachable m" and "fmlookup (obligations (stateOf m f)) n = Some c" and "Kind c = callbackSynchronized"
  shows "\<exists>p. fmlookup (points (stateOf m f)) (Label c) = Some p \<and> epoch p = Epoch c \<and> state p = StateAchieved \<and>
    Recipient c |\<in>| required p \<and> achieved p = required p"
proof -
  obtain own where L: "ledger own {} {} {} (stateOf m f)" and P: "points_ok (stateOf m f)"
    using reachable_strict [OF assms(1), of f] by (auto simp: strict_ok_def)
  have "obl_ok own {} (nextSequence (stateOf m f)) (nextEpoch (stateOf m f)) (points (stateOf m f)) n c" by (rule ledgerD(3) [OF L assms(2)])
  then obtain p where p: "fmlookup (points (stateOf m f)) (Label c) = Some p" "epoch p = Epoch c" "Recipient c |\<in>| required p"
    "Synchronized (invocation p (Recipient c)) = n" "0 < n" using assms(3) by (auto simp: obl_ok_def placed_def)
  have "inv_ok own {} {} (nextSequence (stateOf m f)) (obligations (stateOf m f)) (Label c) (Recipient c) p (invocation p (Recipient c))"
    by (rule ledgerD(2) [OF L p(1,3)]) simp
  then have "state p = StateAchieved" using p(4,5) by (auto simp: inv_ok_def)
  then show ?thesis using p points_ok_get [OF P p(1)] by (auto simp: point_ok_def)
qed

definition synchronized_open :: "SyncManager \<Rightarrow> bool" where
  "synchronized_open m \<longleftrightarrow> (case fmlookup (obligations (stateOf m ''F'')) 5 of
     Some c \<Rightarrow> Kind c = callbackSynchronized \<and> Label c = ''L'' \<and> Recipient c = 2 \<and> Failed c = [2] | None \<Rightarrow> False)"

theorem synchronized_only_when_all_achieved_witness:
  "\<exists>p. fmlookup (points (stateOf sync_run2 ''F'')) ''L'' = Some p \<and> state p = StateAchieved \<and> achieved p = required p"
proof -
  have "synchronized_open sync_run2" by code_simp
  then obtain c where c: "fmlookup (obligations (stateOf sync_run2 ''F'')) 5 = Some c" "Kind c = callbackSynchronized" "Label c = ''L''"
    by (auto simp: synchronized_open_def split: option.splits)
  then show ?thesis using synchronized_only_when_all_achieved [OF sync_run2_reachable c(1,2)] by auto
qed

text \<open>
  C8. No point is forgotten.  Every point waits for somebody: an open one with participants for a
  participant that has not achieved it, a complete one for a participant whose notification
  is still an open obligation.
\<close>

theorem every_point_waits:
  assumes "sync_reachable m" and "fmlookup (points (stateOf m f)) l = Some p"
  shows "state p = StateAnnounced \<and> (required p = {||} \<or> (\<exists>h. h |\<in>| required p \<and> h |\<notin>| achieved p)) \<or>
    state p = StateAchieved \<and> (\<exists>n c. fmlookup (obligations (stateOf m f)) n = Some c \<and> Kind c = callbackSynchronized \<and>
      Label c = l \<and> Recipient c |\<in>| required p \<and> Epoch c = epoch p)"
proof -
  obtain own where L: "ledger own {} {} {} (stateOf m f)" and P: "points_ok (stateOf m f)"
    using reachable_strict [OF assms(1), of f] by (auto simp: strict_ok_def)
  have ok: "point_ok p" by (rule points_ok_get [OF P assms(2)])
  show ?thesis
  proof (cases "state p = StateAchieved")
    case True
    have "waits_at (stateOf m f) l" using reachable_waits [OF assms(1), of f] by (simp add: waits_def)
    then obtain h where h: "h |\<in>| required p" "\<not> SynchronizedInvoked (invocation p h)" using waits_at_get [OF _ assms(2) True] by blast
    let ?i = "invocation p h"
    have i: "inv_ok own {} {} (nextSequence (stateOf m f)) (obligations (stateOf m f)) l h p ?i" by (rule ledgerD(2) [OF L assms(2) h(1)]) simp
    then obtain c where c: "fmlookup (obligations (stateOf m f)) (Synchronized ?i) = Some c" "Epoch c = epoch p" "own (Synchronized ?i) = (l, h, callbackSynchronized)"
      using True h(2) by (auto simp: inv_ok_def)
    have "own (Synchronized ?i) = (Label c, Recipient c, Kind c)" using ledgerD(3) [OF L c(1)] by (simp add: obl_ok_def)
    then have "Label c = l" "Recipient c = h" "Kind c = callbackSynchronized" using c(3) by simp_all
    then show ?thesis using c(1,2) h(1) True by blast
  next
    case False
    then show ?thesis using ok by (auto simp: point_ok_def)
  qed
qed

definition has_point :: "SyncManager \<Rightarrow> bool" where
  "has_point m \<longleftrightarrow> QueryState m ''F'' ''L'' = StateAchieved"

theorem every_point_waits_witness:
  "\<exists>n c. fmlookup (obligations (stateOf sync_run2 ''F'')) n = Some c \<and> Kind c = callbackSynchronized \<and> Label c = ''L''"
proof -
  have "has_point sync_run2" by code_simp
  then obtain p where "fmlookup (points (stateOf sync_run2 ''F'')) ''L'' = Some p" "state p = StateAchieved"
    by (auto simp: has_point_def QueryState_def split: option.splits)
  then show ?thesis using every_point_waits [OF sync_run2_reachable] by fastforce
qed

text \<open>
  C18. What the strict manager exports, it accepts: the image of every federation in every reachable
  state passes the validation that precedes a restore.
\<close>

theorem exported_state_is_valid:
  assumes "sync_reachable m" and "RequireInvocations opt"
  shows "ValidateState True (ExportState opt m f) = Inr ()"
  by (rule ExportState_valid [OF reachable_strict [OF assms(1)] assms(2)])

theorem exported_state_is_valid_witness:
  "ValidateState True (ExportState calmOptions sync_run2 ''F'') = Inr ()"
  by (rule exported_state_is_valid [OF sync_run2_reachable]) (simp add: calmOptions_def)

lemma export_restored:
  assumes "ledger own {} {} {} st"
  shows "exportFederation True (restored st) = (exportFederation True st)\<lparr>msPending := msObligations (exportFederation True st)\<rparr>"
proof -
  note r = restored_rest [OF assms]
  have d: "fmdom (points (restored st)) = fmdom (points st)" by (auto simp: fset_eq_iff fmlookup_dom_iff restored_point)
  have p: "exportPoint l (importPoint (exportPoint l q)) = exportPoint l q" for l q
    using skelD [OF import_export_point(1) [of l q]] import_export_point(3) [of _ q l] by (simp add: exportPoint_def)
  have "exportPoint l (the (fmlookup (points (restored st)) l)) = exportPoint l (the (fmlookup (points st) l))" if "l |\<in>| fmdom (points st)" for l
    using that p by (auto simp: restored_point fmlookup_dom_iff)
  then show ?thesis by (simp add: exportFederation_def sortedLabels_def d r cong: map_cong)
qed

text \<open>
  C7. Save and restore round trip: importing the image of a reachable state succeeds and gives the
  same points, counters and obligations; all open obligations are queued again, in the order
  they were issued; and exporting once more gives the same image, with this queue.
\<close>

theorem sync_restore_roundtrip:
  assumes "sync_reachable m" and "strictOptions opt" and "fmlookup (fed m) f = Some st"
  shows "\<exists>st'. PrepareImport opt (ExportState opt m f) = Inr st' \<and> shape st' = shape st \<and>
    nextSequence st' = nextSequence st \<and> nextEpoch st' = nextEpoch st \<and> obligations st' = obligations st \<and>
    pending st' = map (\<lambda>n. the (fmlookup (obligations st) n)) (sortedCallbackSequences (obligations st)) \<and>
    exportFederation True st' = (exportFederation True st)\<lparr>msPending := pending st'\<rparr>"
proof -
  have st: "stateOf m f = st" using assms(3) by (simp add: stateOf_def)
  then obtain own where L: "ledger own {} {} {} st" using reachable_strict [OF assms(1), of f] by (auto simp: strict_ok_def)
  have r: "RequireInvocations opt" using assms(2) by (simp add: strictOptions_def)
  have "PrepareImport opt (ExportState opt m f) = Inr (restored st)"
    using ExportState_valid [OF reachable_strict [OF assms(1)] r, of f] r assms(3)
    by (simp add: PrepareImport_def ExportState_def restored_def)
  moreover have "msObligations (exportFederation True st) = pending (restored st)" by (simp add: exportFederation_def restored_rest(4) [OF L])
  ultimately show ?thesis using restored_rest [OF L] restored_shape export_restored [OF L] by auto
qed

definition has_federation :: "SyncManager \<Rightarrow> bool" where
  "has_federation m \<longleftrightarrow> (case fmlookup (fed m) ''F'' of Some st \<Rightarrow> length (sortedCallbackSequences (obligations st)) = 5 | None \<Rightarrow> False)"

theorem sync_restore_roundtrip_witness:
  "\<exists>st st'. fmlookup (fed sync_run2) ''F'' = Some st \<and> PrepareImport calmOptions (ExportState calmOptions sync_run2 ''F'') = Inr st' \<and>
     obligations st' = obligations st \<and> length (pending st') = 5"
proof -
  have "has_federation sync_run2" by code_simp
  then obtain st where "fmlookup (fed sync_run2) ''F'' = Some st" "length (sortedCallbackSequences (obligations st)) = 5"
    by (auto simp: has_federation_def split: option.splits)
  then show ?thesis using sync_restore_roundtrip [OF sync_run2_reachable calm_strict] by fastforce
qed

text \<open>
  C20. Callbacks are issued once and delivered in order: the queued callbacks of a federation have
  strictly increasing sequence numbers that have been issued, each of them an open obligation
  with this very content.
\<close>

theorem callbacks_in_order:
  assumes "sync_reachable m"
  shows "sorted_wrt (<) (map Sequence (pending (stateOf m f))) \<and>
    (\<forall>c\<in>set (pending (stateOf m f)). 0 < Sequence c \<and> Sequence c \<le> nextSequence (stateOf m f) \<and>
       fmlookup (obligations (stateOf m f)) (Sequence c) = Some c)"
proof -
  obtain own where L: "ledger own {} {} {} (stateOf m f)" using reachable_strict [OF assms, of f] by (auto simp: strict_ok_def)
  show ?thesis using ledgerD(4,5) [OF L] ledger_seq [OF L] by blast
qed

text \<open>A run in which the outbox refuses the announcement to a late joiner, so that it stays queued.\<close>

definition sync_run3 :: SyncManager where
  "sync_run3 = snd (FederateJoined (calmOptions\<lparr>Reserve := \<lambda>_ _. Some (ErrOutbox 1)\<rparr>) ''F'' 3 sync_run1)"

theorem callbacks_in_order_witness:
  "\<exists>c. pending (stateOf sync_run3 ''F'') = [c] \<and> fmlookup (obligations (stateOf sync_run3 ''F'')) (Sequence c) = Some c"
proof -
  have r: "sync_reachable sync_run3" unfolding sync_run3_def
    by (rule sync_next [OF sync_run1_reachable joining]) (auto simp: strictOptions_def validOptions_def calmOptions_def)
  have "length (pending (stateOf sync_run3 ''F'')) = 1" by code_simp
  then obtain c where "pending (stateOf sync_run3 ''F'') = [c]" by (auto simp: length_Suc_conv)
  then show ?thesis using callbacks_in_order [OF r, of "''F''"] by auto
qed

text \<open>Enough sequence numbers are left.\<close>

lemma enqueueAll_succeeds:
  "nextSequence st + length cs \<le> MaxUint64 \<Longrightarrow> \<exists>st'. enqueueAll cs st = Inr st'"
proof (induction cs arbitrary: st)
  case (Cons c cs)
  then have "\<not> isMaxUint64 (nextSequence st)" by (simp add: isMaxUint64_def)
  then obtain u where u: "enqueue c st = Inr u" by (auto simp: enqueue_def Let_def)
  then have "nextSequence u + length cs \<le> MaxUint64" using enqueue_effect(1) [OF u] Cons.prems by simp
  then show ?case using Cons.IH [of u] u by auto
qed simp

lemma complete_succeeds:
  assumes "nextSequence st + fcard (required p) \<le> MaxUint64"
  shows "\<exists>st'. complete opt l p st = Inr st'"
proof -
  have "nextSequence (putPoint l (p\<lparr>state := StateAchieved\<rparr>) st) + length (map (synchronization l p) (sortedHandles (required p))) \<le> MaxUint64"
    using assms by (simp add: sync_simps)
  from enqueueAll_succeeds [OF this] show ?thesis by (auto simp: complete_def)
qed

lemma enqueueAll_exhausted:
  "nextSequence st \<le> MaxUint64 \<Longrightarrow> MaxUint64 < nextSequence st + length cs \<Longrightarrow> enqueueAll cs st = Inl ErrSequenceExhausted"
proof (induction cs arbitrary: st)
  case (Cons c cs)
  show ?case
  proof (cases "enqueue c st")
    case (Inl e)
    then show ?thesis by (auto simp: enqueue_def Let_def split: if_splits)
  next
    case (Inr u)
    then have "nextSequence st \<noteq> MaxUint64" by (auto simp: enqueue_def isMaxUint64_def)
    then show ?thesis using Cons.IH [of u] Cons.prems enqueue_effect(1) [OF Inr] Inr by simp
  qed
qed simp

text \<open>The callbacks a completed point issues, numbered on from the last sequence number.\<close>

fun numbered :: "nat \<Rightarrow> nat \<Rightarrow> CallbackState list \<Rightarrow> CallbackState list" where
  "numbered n ep [] = []"
| "numbered n ep (c # cs) = c\<lparr>Sequence := n, Epoch := ep\<rparr> # numbered (Suc n) ep cs"

lemma numbered_length [simp]: "length (numbered n ep cs) = length cs"
  by (induction cs arbitrary: n) simp_all

definition notices :: "handle \<Rightarrow> string \<Rightarrow> bool \<Rightarrow> syncPoint \<Rightarrow> nat \<Rightarrow> CallbackState list" where
  "notices h l ok p n =
     (if required p |\<subseteq>| finsert h (achieved p) then
        numbered (Suc n) (epoch p)
          (map (\<lambda>k. (callback callbackSynchronized l k)\<lparr>Failed := sortedHandles (if ok then failed p else finsert h (failed p))\<rparr>)
            (sortedHandles (required p)))
      else [])"

lemma enqueueAll_pending:
  assumes "enqueueAll cs st = Inr st'" and "\<forall>c\<in>set cs. Label c = l" and "shape st l = Some p"
  shows "pending st' = pending st @ numbered (Suc (nextSequence st)) (epoch p) cs"
  using assms
proof (induction cs arbitrary: st)
  case (Cons c cs)
  obtain u where u: "enqueue c st = Inr u" "enqueueAll cs u = Inr st'" using Cons.prems(1) by (auto simp: bindR_eq_Inr_iff)
  have "issued c st = c\<lparr>Sequence := Suc (nextSequence st), Epoch := epoch p\<rparr>"
    using Cons.prems(2,3) by (auto simp: issued_def shape_def)
  moreover have "shape u l = Some p" using enqueue_shape [OF u(1)] Cons.prems(3) by simp
  ultimately show ?case using Cons.IH [OF u(2)] Cons.prems(2) enqueue_effect [OF u(1)] by simp
qed simp

text \<open>What the outbox answers to a batch; an empty batch is not sent.\<close>

datatype answer = Admitted | Refused sync_error | Uncommitted sync_error

definition outbox_answer :: "SyncOptions \<Rightarrow> fed_name \<Rightarrow> (handle \<times> SyncEvent option) list \<Rightarrow> answer" where
  "outbox_answer opt f ds =
     (if ds = [] then Admitted
      else case Reserve opt f ds of
        Some err \<Rightarrow> Refused err
      | None \<Rightarrow> (case CommitReservation opt f ds of Some err \<Rightarrow> Uncommitted err | None \<Rightarrow> Admitted))"

lemma transition_answer:
  assumes "change (stateOf m f) = Inr (x, st)" and "ReservableOutbox opt"
  shows "transition opt f lifecycle change m =
    (case outbox_answer opt f (map delivery (pending st)) of
       Admitted \<Rightarrow> (Inr x, deliverAll f (map delivery (pending st)) (publishState f (admitted opt st) m))
     | Refused err \<Rightarrow> (Inl err, if lifecycle then publishState f st m else m)
     | Uncommitted err \<Rightarrow> (Inl err, publishState f ((admitted opt st)\<lparr>pending := pending st\<rparr>) m))"
  using assms by (auto simp: transition_def outbox_answer_def Let_def deliverAll_def publishState_def split: option.split)

section \<open>The outcome of an achievement\<close>

text \<open>The point after the arrival.\<close>

abbreviation arrival :: "handle \<Rightarrow> bool \<Rightarrow> syncPoint \<Rightarrow> syncPoint" where
  "arrival h ok p \<equiv> p\<lparr>achieved := finsert h (achieved p), failed := (if ok then failed p else finsert h (failed p))\<rparr>"

lemma achieveChange_refused:
  assumes "strict_ok st" and "RequireInvocations opt"
  shows "(\<And>p. fmlookup (points st) l = Some p \<Longrightarrow> h |\<notin>| required p \<or> \<not> AnnounceEntered (invocation p h)) \<Longrightarrow>
      achieveChange opt h l ok st = Inl ErrSyncPointNotRegistered"
    and "\<lbrakk>fmlookup (points st) l = Some p; h |\<in>| required p; AnnounceEntered (invocation p h)\<rbrakk> \<Longrightarrow>
      achieveChange opt h l ok st = (if h |\<in>| achieved p then Inl ErrSyncPointAlreadyAchieved
        else bindR (complete opt l (arrival h ok p) (putPoint l (arrival h ok p) st))
          (\<lambda>st. Inr (state p = StateAchieved \<or> required p |\<subseteq>| finsert h (achieved p), st)))"
proof -
  obtain own where L: "ledger own {} {} {} st" using assms(1) by (auto simp: strict_ok_def)
  have d: "\<not> dynamic p" if "fmlookup (points st) l = Some p" for p using ledgerD(1) [OF L that] by (simp add: frame_ok_def)
  show "achieveChange opt h l ok st = Inl ErrSyncPointNotRegistered"
    if "\<And>p. fmlookup (points st) l = Some p \<Longrightarrow> h |\<notin>| required p \<or> \<not> AnnounceEntered (invocation p h)"
    using that d assms(2) by (cases "fmlookup (points st) l") (auto simp: achieveChange_def Let_def)
  show "achieveChange opt h l ok st = (if h |\<in>| achieved p then Inl ErrSyncPointAlreadyAchieved
        else bindR (complete opt l (arrival h ok p) (putPoint l (arrival h ok p) st))
          (\<lambda>st. Inr (state p = StateAchieved \<or> required p |\<subseteq>| finsert h (achieved p), st)))"
    if p: "fmlookup (points st) l = Some p" "h |\<in>| required p" "AnnounceEntered (invocation p h)"
  proof -
    have "\<not> announcementPending opt st p l h" using p(3) assms(2) by (simp add: announcementPending_def list_ex_iff)
    then show ?thesis using p d [OF p(1)] by (simp add: achieveChange_def Let_def)
  qed
qed

lemma complete_arrival:
  assumes "fmlookup (points st) l = Some p" and "point_ok p" and "h |\<in>| required p" and "h |\<notin>| achieved p" and "nextSequence st \<le> MaxUint64"
  shows "MaxUint64 < nextSequence st + length (notices h l ok p (nextSequence st)) \<Longrightarrow>
      complete opt l (arrival h ok p) (putPoint l (arrival h ok p) st) = Inl ErrSequenceExhausted"
    and "nextSequence st + length (notices h l ok p (nextSequence st)) \<le> MaxUint64 \<Longrightarrow>
      \<exists>st'. complete opt l (arrival h ok p) (putPoint l (arrival h ok p) st) = Inr st' \<and>
        pending st' = pending st @ notices h l ok p (nextSequence st)"
proof -
  let ?p = "arrival h ok p" let ?q = "?p\<lparr>state := StateAchieved\<rparr>" let ?u = "putPoint l ?q (putPoint l ?p st)"
  let ?cs = "map (synchronization l ?p) (sortedHandles (required p))"
  have na: "state p \<noteq> StateAchieved" "required p \<noteq> {||}" using assms(2,3,4) by (auto simp: point_ok_def)
  have c: "complete opt l ?p (putPoint l ?p st) = (if required p |\<subseteq>| finsert h (achieved p) then bindR (enqueueAll ?cs ?u) Inr else Inr (putPoint l ?p st))"
    using na by (simp add: complete_def)
  have u: "nextSequence ?u = nextSequence st" "pending ?u = pending st" "shape ?u l = Some (skel ?q)" by (simp_all add: sync_simps shape_def)
  have n: "notices h l ok p (nextSequence st) = (if required p |\<subseteq>| finsert h (achieved p) then numbered (Suc (nextSequence st)) (epoch p) ?cs else [])"
    by (simp add: notices_def synchronization_def [abs_def])
  show "complete opt l ?p (putPoint l ?p st) = Inl ErrSequenceExhausted"
    if "MaxUint64 < nextSequence st + length (notices h l ok p (nextSequence st))"
    using that enqueueAll_exhausted [of ?u ?cs] assms(5) u(1) by (simp add: c n split: if_splits)
  show "\<exists>st'. complete opt l ?p (putPoint l ?p st) = Inr st' \<and> pending st' = pending st @ notices h l ok p (nextSequence st)"
    if "nextSequence st + length (notices h l ok p (nextSequence st)) \<le> MaxUint64"
  proof (cases "required p |\<subseteq>| finsert h (achieved p)")
    case True
    then have "nextSequence ?u + length ?cs \<le> MaxUint64" using that u(1) by (simp add: n)
    then obtain st' where st': "enqueueAll ?cs ?u = Inr st'" using enqueueAll_succeeds by blast
    have "\<forall>c\<in>set ?cs. Label c = l" by (auto simp: synchronization_def callback_def)
    from enqueueAll_pending [OF st' this u(3)] show ?thesis using True st' u by (simp add: c n)
  next
    case False
    then have "complete opt l ?p (putPoint l ?p st) = Inr (putPoint l ?p st)" unfolding c by simp
    moreover have "pending (putPoint l ?p st) = pending st @ notices h l ok p (nextSequence st)" using False by (simp add: n sync_simps)
    ultimately show ?thesis by blast
  qed
qed

text \<open>The arrival that can be numbered, by the answer of the outbox.\<close>

lemma achieve_arrives:
  assumes "strict_ok st" and "strictOptions opt" and "st = stateOf m f" and "nextSequence st + length cs \<le> MaxUint64"
    and "fmlookup (points st) l = Some p" "h |\<in>| required p" "AnnounceEntered (invocation p h)" "h |\<notin>| achieved p"
    and "cs = notices h l ok p (nextSequence st)" and "r = achieve opt f h l ok m"
  shows "case outbox_answer opt f (map delivery (pending st @ cs)) of
      Refused err \<Rightarrow> r = (Some err, m)
    | Uncommitted err \<Rightarrow> fst r = Some err \<and> outbox (snd r) = outbox m \<and> pending (stateOf (snd r) f) = pending st @ cs \<and>
        barriers_of (stateOf (snd r) f) = (barriers_of st)(l \<mapsto> arrive h ok (barrier_of p))
    | Admitted \<Rightarrow> fst r = None \<and> outbox (snd r) = outbox m @ map (\<lambda>c. (f, delivery c)) (pending st @ cs) \<and> pending (stateOf (snd r) f) = [] \<and>
        barriers_of (stateOf (snd r) f) = (barriers_of st)(l \<mapsto> arrive h ok (barrier_of p))"
proof -
  have o: "RequireInvocations opt" "ReservableOutbox opt" using assms(2) by (auto simp: strictOptions_def validOptions_def)
  have "point_ok p" using assms(1,5) points_ok_get by (auto simp: strict_ok_def)
  then obtain st' where st': "complete opt l (arrival h ok p) (putPoint l (arrival h ok p) st) = Inr st'" "pending st' = pending st @ cs"
    using complete_arrival(2) [OF assms(5) _ assms(6,8), of ok opt] assms(4,9) by auto
  then obtain x where x: "achieveChange opt h l ok st = Inr (x, st')"
    using achieveChange_refused(2) [OF assms(1) o(1) assms(5,6,7), of ok] assms(8) by simp
  have b: "barriers_of st' = (barriers_of st)(l \<mapsto> arrive h ok (barrier_of p))"
    using achieve_effect [OF x assms(1)] barriers_of_get [OF assms(5)] by auto
  have same: "barriers_of (admitted opt st') = barriers_of st'" "barriers_of ((admitted opt st')\<lparr>pending := ps\<rparr>) = barriers_of st'" for ps
    by (rule barriers_of_shape, simp)+
  have t: "transition opt f False (achieveChange opt h l ok) m =
      (case outbox_answer opt f (map delivery (pending st')) of
         Admitted \<Rightarrow> (Inr x, deliverAll f (map delivery (pending st')) (publishState f (admitted opt st') m))
       | Refused err \<Rightarrow> (Inl err, m)
       | Uncommitted err \<Rightarrow> (Inl err, publishState f ((admitted opt st')\<lparr>pending := pending st'\<rparr>) m))"
    using transition_answer [of "achieveChange opt h l ok" m f x st' opt False] x o(2) assms(3) by simp
  show ?thesis unfolding assms(10) achieve_def t using st'(2)
    by (auto simp: same b split: answer.split) (auto simp: deliverAll_def publishState_def appendLog_def admitted_def)
qed

text \<open>
  C19. The achievement of a point, on every branch.  It is refused, with nothing changed, when the
  point does not exist, the federate does not take part in it or has not entered its
  announcement; when the federate has achieved the point before; when the arrival completes the
  point and too few sequence numbers are left for the notifications; and when the outbox refuses
  to reserve room for the queued callbacks and the notifications.  When the outbox fails to commit
  them the error is returned, but the federate has arrived, and the callbacks stay queued.
  Otherwise the achievement succeeds: the federate has arrived, and all the callbacks are delivered.
\<close>

theorem achieve_outcome:
  assumes "sync_reachable m" and "strictOptions opt" and "st = stateOf m f" and "nextSequence st \<le> MaxUint64"
    and "r = achieve opt f h l ok m"
  shows "((\<forall>p. fmlookup (points st) l = Some p \<longrightarrow> h |\<notin>| required p \<or> \<not> AnnounceEntered (invocation p h)) \<longrightarrow>
      r = (Some ErrSyncPointNotRegistered, m)) \<and>
    (\<forall>p cs. fmlookup (points st) l = Some p \<and> h |\<in>| required p \<and> AnnounceEntered (invocation p h) \<and> cs = notices h l ok p (nextSequence st) \<longrightarrow>
      (if h |\<in>| achieved p then r = (Some ErrSyncPointAlreadyAchieved, m)
       else if MaxUint64 < nextSequence st + length cs then r = (Some ErrSequenceExhausted, m)
       else case outbox_answer opt f (map delivery (pending st @ cs)) of
         Refused err \<Rightarrow> r = (Some err, m)
       | Uncommitted err \<Rightarrow> fst r = Some err \<and> outbox (snd r) = outbox m \<and> pending (stateOf (snd r) f) = pending st @ cs \<and>
           barriers_of (stateOf (snd r) f) = (barriers_of st)(l \<mapsto> arrive h ok (barrier_of p))
       | Admitted \<Rightarrow> fst r = None \<and> outbox (snd r) = outbox m @ map (\<lambda>c. (f, delivery c)) (pending st @ cs) \<and> pending (stateOf (snd r) f) = [] \<and>
           barriers_of (stateOf (snd r) f) = (barriers_of st)(l \<mapsto> arrive h ok (barrier_of p))))"
proof -
  have s: "strict_ok st" "points_ok st" using reachable_strict [OF assms(1), of f] assms(3) by (auto simp: strict_ok_def)
  have o: "RequireInvocations opt" "ReservableOutbox opt" using assms(2) by (auto simp: strictOptions_def validOptions_def)
  have failing: "r = (Some err, m)" if "achieveChange opt h l ok st = Inl err" for err
    using that assms(3,5) by (simp add: achieve_def transition_def)
  have A: "r = (Some ErrSyncPointNotRegistered, m)"
    if "\<forall>p. fmlookup (points st) l = Some p \<longrightarrow> h |\<notin>| required p \<or> \<not> AnnounceEntered (invocation p h)"
    by (rule failing) (use that achieveChange_refused(1) [OF s(1) o(1)] in blast)
  have B: "r = (Some ErrSyncPointAlreadyAchieved, m)"
    if "fmlookup (points st) l = Some p" "h |\<in>| required p" "AnnounceEntered (invocation p h)" "h |\<in>| achieved p" for p
    by (rule failing) (use achieveChange_refused(2) [OF s(1) o(1) that(1,2,3)] that(4) in simp)
  have C: "r = (Some ErrSequenceExhausted, m)"
    if p: "fmlookup (points st) l = Some p" "h |\<in>| required p" "AnnounceEntered (invocation p h)" "h |\<notin>| achieved p"
      "MaxUint64 < nextSequence st + length (notices h l ok p (nextSequence st))" for p
    by (rule failing) (use achieveChange_refused(2) [OF s(1) o(1) p(1,2,3)] p(4)
      complete_arrival(1) [OF p(1) points_ok_get [OF s(2) p(1)] p(2,4) assms(4) p(5)] in simp)
  show ?thesis using A B C achieve_arrives [OF s(1) assms(2,3) _ _ _ _ _ refl assms(5)] by (auto simp: not_less)
qed

text \<open>
  The last arrival at a point, with an outbox that admits its two notifications, with one that refuses
  to reserve room and with one that breaks in the commit; and a stranger.
\<close>

theorem achieve_outcome_witness:
  "achieve calmOptions ''F'' 7 ''L'' True sync_run1 = (Some ErrSyncPointNotRegistered, sync_run1) \<and>
   fst (achieve calmOptions ''F'' 2 ''L'' False sync_run1) = None \<and> pending (stateOf sync_run2 ''F'') = [] \<and>
   achieve (calmOptions\<lparr>Reserve := \<lambda>_ _. Some (ErrOutbox 1)\<rparr>) ''F'' 2 ''L'' False sync_run1 = (Some (ErrOutbox 1), sync_run1) \<and>
   length (pending (stateOf (snd (achieve (calmOptions\<lparr>CommitReservation := \<lambda>_ _. Some (ErrOutbox 1)\<rparr>) ''F'' 2 ''L'' False sync_run1)) ''F'')) = 2"
proof -
  have run: "case fmlookup (points (stateOf sync_run1 ''F'')) ''L'' of
      Some p \<Rightarrow> 7 |\<notin>| required p \<and> 2 |\<in>| required p \<and> 2 |\<notin>| achieved p \<and> AnnounceEntered (invocation p 2) \<and>
        length (notices 2 ''L'' False p (nextSequence (stateOf sync_run1 ''F''))) = 2
    | None \<Rightarrow> False" by code_simp
  have calm: "pending (stateOf sync_run1 ''F'') = [] \<and> nextSequence (stateOf sync_run1 ''F'') = 3" by code_simp
  obtain p where p: "fmlookup (points (stateOf sync_run1 ''F'')) ''L'' = Some p" "7 |\<notin>| required p" "2 |\<in>| required p" "2 |\<notin>| achieved p"
    "AnnounceEntered (invocation p 2)" "length (notices 2 ''L'' False p 3) = 2"
    using run calm by (auto split: option.splits)
  have st: "nextSequence (stateOf sync_run1 ''F'') \<le> MaxUint64" using calm by (simp add: MaxUint64_def)
  have opts: "strictOptions (calmOptions\<lparr>Reserve := \<lambda>_ _. Some (ErrOutbox 1)\<rparr>)" "strictOptions (calmOptions\<lparr>CommitReservation := \<lambda>_ _. Some (ErrOutbox 1)\<rparr>)"
    using calm_strict by (simp_all add: strictOptions_def validOptions_def)
  note out = achieve_outcome [OF sync_run1_reachable _ refl st refl, where l = "''L''"]
  have ans: "outbox_answer opt ''F'' (map delivery (notices 2 ''L'' False p 3)) =
      (case Reserve opt ''F'' (map delivery (notices 2 ''L'' False p 3)) of Some err \<Rightarrow> Refused err
       | None \<Rightarrow> (case CommitReservation opt ''F'' (map delivery (notices 2 ''L'' False p 3)) of Some err \<Rightarrow> Uncommitted err | None \<Rightarrow> Admitted))" for opt
    using p(6) by (auto simp: outbox_answer_def)
  note rs = out [OF calm_strict, of 7 True] out [OF calm_strict, of 2 False] out [OF opts(1), of 2 False] out [OF opts(2), of 2 False]
  show ?thesis using rs p calm by (simp add: ans sync_run2_def calmOptions_def MaxUint64_def)
qed

end
