(* ===== verification/FOM_Dimension.thy ===== *)
theory FOM_Dimension
  imports Go_Text
begin

text \<open>
  The dimensions of a federation object model and the default range of a dimension
  (\<open>rti/pkg/fom/model/dimension_metadata.go\<close>).  Texts are byte sequences; the functions below
  work on their runes, as the source's regular expression and its range loops do.
\<close>

record Dimension =
  dName :: string
  dUpperBound :: nat
  DefaultValue :: bytes

text \<open>
  The groups of \<open>unicode.Nd\<close> (Unicode 15, stride one throughout): a decimal digit is a rune of one
  of these intervals, and its value is its offset modulo ten.
\<close>

definition NdStarts :: "nat list" where
  "NdStarts =
     [0x30, 0x660, 0x6F0, 0x7C0, 0x966, 0x9E6, 0xA66, 0xAE6, 0xB66, 0xBE6, 0xC66, 0xCE6, 0xD66, 0xDE6,
      0xE50, 0xED0, 0xF20, 0x1040, 0x1090, 0x17E0, 0x1810, 0x1946, 0x19D0, 0x1A80, 0x1A90, 0x1B50, 0x1BB0,
      0x1C40, 0x1C50, 0xA620, 0xA8D0, 0xA900, 0xA9D0, 0xA9F0, 0xAA50, 0xABF0, 0xFF10,
      0x104A0, 0x10D30, 0x11066, 0x110F0, 0x11136, 0x111D0, 0x112F0, 0x11450, 0x114D0, 0x11650, 0x116C0,
      0x11730, 0x118E0, 0x11950, 0x11C50, 0x11D50, 0x11DA0, 0x11F50, 0x16A60, 0x16AC0, 0x16B50,
      0x1E140, 0x1E2F0, 0x1E4F0, 0x1E950, 0x1FBF0]"

definition NdGroups :: "(nat \<times> nat) list" where
  "NdGroups = map (\<lambda>lo. (lo, lo + 9)) NdStarts @ [(0x1D7CE, 0x1D7FF)]"

definition digitValue :: "nat \<Rightarrow> nat option" where
  "digitValue r = map_option (\<lambda>(lo, hi). (r - lo) mod 10) (find (\<lambda>(lo, hi). lo \<le> r \<and> r \<le> hi) NdGroups)"

abbreviation isNd :: "nat \<Rightarrow> bool" where
  "isNd r \<equiv> digitValue r \<noteq> None"

definition digits1 :: "nat list \<Rightarrow> bool" where
  "digits1 rs \<longleftrightarrow> rs \<noteq> [] \<and> list_all isNd rs"

text \<open>Whether a text is \<open>[\<close>, digits, two dots, digits and \<open>)\<close>, or one of the three other forms.\<close>

definition ValidDimensionDefaultValue :: "bytes \<Rightarrow> bool" where
  "ValidDimensionDefaultValue v =
     (let rs = utf8_decode v;
          inner = butlast (tl rs);
          bracketed = (2 \<le> length rs \<and> hd rs = 0x5B \<and> last rs = 0x29);
          first = takeWhile isNd inner;
          rest = dropWhile isNd inner
      in digits1 rs
         \<or> (bracketed \<and> digits1 first \<and> take 2 rest = [0x2E, 0x2E] \<and> digits1 (drop 2 rest))
         \<or> (bracketed \<and> digits1 inner)
         \<or> v = bytes_of_string ''Excluded'')"

text \<open>\<open>strconv.ParseUint\<close> of the normalized digits: no digits and a value past \<open>MaxUint64\<close> are errors.\<close>

definition parseDimensionDecimal :: "nat list \<Rightarrow> nat option" where
  "parseDimensionDecimal rs =
     (if rs = [] \<or> \<not> list_all isNd rs then None
      else let n = foldl (\<lambda>n r. 10 * n + the (digitValue r)) 0 rs in
        if int n > 2 ^ 64 - 1 then None else Some n)"

fun trimBrackets :: "nat list \<Rightarrow> nat list" where
  "trimBrackets rs =
     (let rs = (case rs of [] \<Rightarrow> [] | r # rest \<Rightarrow> if r = 0x5B then rest else rs) in
      if rs \<noteq> [] \<and> last rs = 0x29 then butlast rs else rs)"

text \<open>\<open>strings.Split(s, "..")\<close>.\<close>

fun splitDots :: "nat list \<Rightarrow> nat list \<Rightarrow> nat list list" where
  "splitDots acc [] = [rev acc]"
| "splitDots acc [r] = [rev (r # acc)]"
| "splitDots acc (r # s # rest) =
     (if r = 0x2E \<and> s = 0x2E then rev acc # splitDots [] rest else splitDots (r # acc) (s # rest))"

datatype DefaultRange = RangeExcluded | RangeDefault nat nat | RangeInvalid

definition MaxRange :: nat where
  "MaxRange = MaxUint64"

lemma MaxRange_code [code]: "MaxRange = nat (2 ^ 64 - 1)"
  by (simp add: MaxRange_def MaxUint64_def nat_diff_distrib nat_power_eq)

definition upperLimit :: "nat \<Rightarrow> nat" where
  "upperLimit u = (if u = 0 then MaxRange else u)"

definition DimensionDefaultRange :: "Dimension \<Rightarrow> DefaultRange" where
  "DimensionDefaultRange d =
     (let limit = upperLimit (dUpperBound d); v = DefaultValue d in
      if v = bytes_of_string ''Excluded'' then RangeExcluded
      else if v = [] \<or> v = bytes_of_string ''NA'' then RangeDefault 0 limit
      else if \<not> ValidDimensionDefaultValue v then RangeInvalid
      else
        (let parts = splitDots [] (trimBrackets (utf8_decode v)) in
         case parseDimensionDecimal (hd parts) of
           None \<Rightarrow> RangeInvalid
         | Some lower \<Rightarrow>
             let upper = (if length parts = 2 then parseDimensionDecimal (parts ! 1)
                          else if lower = MaxRange then None else Some (lower + 1)) in
             (case upper of
                None \<Rightarrow> RangeInvalid
              | Some upper \<Rightarrow> if upper \<le> lower \<or> limit < upper then RangeInvalid else RangeDefault lower upper)))"

text \<open>A default range is not empty and lies within the dimension.\<close>

lemma DimensionDefaultRange_bounds:
  "DimensionDefaultRange d = RangeDefault lower upper \<Longrightarrow> lower < upper \<and> upper \<le> upperLimit (dUpperBound d)"
proof -
  have "0 < upperLimit u" for u
    by (simp add: upperLimit_def MaxRange_def MaxUint64_def)
  then show "DimensionDefaultRange d = RangeDefault lower upper \<Longrightarrow> lower < upper \<and> upper \<le> upperLimit (dUpperBound d)"
    by (auto simp: DimensionDefaultRange_def Let_def split: if_splits option.splits)
qed

end
