(* ===== verification/DDM_Core.thy ===== *)
theory DDM_Core
  imports FOM_Dimension "HOL-Library.Finite_Map" "HOL-Library.Char_ord" "HOL-Library.List_Lexorder"
begin

text \<open>
  Data distribution management, \<open>rti/internal/hla/ddm\<close>: the state (\<open>state.go\<close>), the dimension
  tables (\<open>fom_refresh.go\<close>), the life cycle of regions (\<open>manager.go\<close>), the overlap test
  (\<open>overlap.go\<close>) and region realizations.  Handles are uint64 values held as \<open>nat\<close>; the code refuses
  to count region handles past \<open>MaxUint64\<close>.

  A service that changes subscriptions, associations or committed ranges asks an admission hook
  after it has changed the state and released the state lock, and undoes the change when the hook
  refuses.  It holds the subscription lock all the while, but operations that need the state lock
  only may run in between.  So such a service is two steps, and the change that awaits its
  admission is part of the manager's state (\<open>inflight\<close>).
\<close>

section \<open>Data\<close>

record DDMRange =
  Lower :: nat
  Upper :: nat

definition Overlap :: "DDMRange \<Rightarrow> DDMRange \<Rightarrow> bool" where
  "Overlap r other \<longleftrightarrow> Lower r = Lower other \<or> Lower r < Upper other \<and> Lower other < Upper r"

type_synonym regionBounds = "(nat, DDMRange) fmap"

datatype ddm_error =
    ErrRoutingSpaceNotFound | ErrDimensionNotFound | ErrRegionNotFound | ErrRegionNotOwnedByFederate
  | ErrInvalidRangeBounds | ErrRegionInUse | ErrNamespaceExhausted | ErrInvalidRegionContext
  | ErrObjectClassNotFound | ErrAttributeNotFound | ErrInteractionClassNotFound
  | ErrInvalidUpdateRateDesignator | ErrMapping string | ErrConveyed string | ErrRealization
  | ErrExternal nat

text \<open>
  What a handle of the object model can do.  The optional capabilities are the interfaces the
  code asks for by type assertion; a nil handle has none of them.
\<close>

record FOMDimensionBinding =
  bHandle :: nat
  bName :: string
  bUpperBound :: nat

record FOMView =
  vRevision :: nat
  vDimensions :: "FOMDimensionBinding list"

record FOMHandle =
  IsValid :: bool
  LookupAttribute :: "nat \<Rightarrow> string \<Rightarrow> nat option"
  ObjectClassName :: "(nat \<Rightarrow> string option) option"
  AttributeName :: "(nat \<Rightarrow> nat \<Rightarrow> string option) option"
  InteractionClassName :: "(nat \<Rightarrow> string option) option"
  AttributeDimensions :: "(nat \<Rightarrow> nat \<Rightarrow> nat list option) option"
  InteractionDimensions :: "(nat \<Rightarrow> nat list option) option"
  Dimensions :: "Dimension list option"
  FOMProvider :: "(nat \<times> FOMView) option"

definition nilFOM :: FOMHandle where
  "nilFOM = \<lparr>IsValid = False, LookupAttribute = (\<lambda>_ _. None), ObjectClassName = None, AttributeName = None,
     InteractionClassName = None, AttributeDimensions = None, InteractionDimensions = None, Dimensions = None,
     FOMProvider = None\<rparr>"

record regionState =
  template :: bool
  owner :: handle
  space :: nat
  dims :: "nat list"
  committed :: regionBounds
  pending :: regionBounds

record subscription =
  subscriber :: handle
  sregions :: "nat list"
  spassive :: bool
  updateRate :: string

record interactionSubscription =
  isubscriber :: handle
  iregions :: "nat list"
  ipassive :: bool

record RegionRealizationSnapshot =
  source :: nat
  ranges :: "(nat \<times> DDMRange) list"

type_synonym associations = "(nat, nat list) fmap"

text \<open>\<open>ident\<close> stands for the address of the state, which the code compares before it undoes a change.\<close>

record federationDDMState =
  ident :: nat
  fom :: FOMHandle
  dimDefaults :: "(nat, DDMRange option) fmap"
  routingSpaces :: "(string, nat) fmap"
  dimensions :: "(nat, (string, nat) fmap) fmap"
  dimUpperBound :: "(nat, nat) fmap"
  nextRegionHandle :: nat
  regions :: "(nat, regionState) fmap"
  conveyed :: "(nat, RegionRealizationSnapshot) fmap"
  conveyedRecipients :: "(nat, (handle, bool) fmap) fmap"
  objSubs :: "(nat \<times> nat, subscription list) fmap"
  intSubs :: "(nat, interactionSubscription list) fmap"
  objPubs :: "(nat, associations) fmap"
  inactivePubs :: "(nat, (handle, associations) fmap) fmap"
  permissive :: bool
  nextDimHandle :: nat
  fomRevision :: nat

definition newFederationDDMState :: "nat \<Rightarrow> federationDDMState" where
  "newFederationDDMState i = \<lparr>ident = i, fom = nilFOM, dimDefaults = fmempty, routingSpaces = fmempty,
     dimensions = fmempty, dimUpperBound = fmempty, nextRegionHandle = 0, regions = fmempty, conveyed = fmempty,
     conveyedRecipients = fmempty, objSubs = fmempty, intSubs = fmempty, objPubs = fmempty, inactivePubs = fmempty,
     permissive = True, nextDimHandle = 0, fomRevision = 0\<rparr>"

text \<open>
  The associations of one object are those that take part in routing and, by caller, the inactive
  ones of federates that do not own the attribute.  While an association awaits admission, the
  object's saved associations are kept as a shadow into which ownership changes are projected.
\<close>

type_synonym objectAssociations = "associations \<times> (handle, associations) fmap"

record associationRollbackProjection =
  pFed :: fed_name
  pObject :: nat
  pOrigin :: nat
  shadow :: objectAssociations

text \<open>
  The admission a service waits for, with what it needs to undo its change: the saved fields of
  the committed regions, nothing but the projection above, or the saved subscription rows.  A
  missing undo is the nil \<open>rollback\<close> of the source.
\<close>

datatype admission =
    RegionAdmission fed_name nat "(nat, bool \<times> regionBounds \<times> regionBounds) fmap"
  | AssociationAdmission fed_name nat nat bool
  | ObjectAdmission fed_name nat handle nat "(nat \<times> nat, subscription list) fmap option" "nat list" bool
  | InteractionAdmission fed_name nat handle nat "interactionSubscription list option"

datatype notice = RegionStateChanged fed_name | ObjectSubscribed fed_name handle nat "nat list"

record DDMManager =
  fed :: "(fed_name, federationDDMState) fmap"
  allocated :: nat
  associationRollback :: "associationRollbackProjection option"
  inflight :: "admission option"
  notices :: "notice list"

definition NewDDM :: DDMManager where
  "NewDDM = \<lparr>fed = fmempty, allocated = 0, associationRollback = None, inflight = None, notices = []\<rparr>"

record SubscriptionOptions =
  Active :: bool
  UpdateRateDesignator :: string

record AttributeRegionGroup =
  Attributes :: "nat list"
  Regions :: "nat list"

text \<open>
  The options, with the answers of the collaborators to one service call.  \<open>ctxErr\<close> answers the
  call's successive looks at its context.  The last component of a preparation says whether a
  release function was returned.
\<close>

record DDMOptions =
  FOMs :: "fed_name \<Rightarrow> ddm_error + FOMHandle"
  FederationExists :: "(fed_name \<Rightarrow> bool) option"
  PrepareKnownAssociation ::
    "(fed_name \<Rightarrow> handle \<Rightarrow> nat \<Rightarrow> nat list \<Rightarrow> ddm_error + nat \<times> nat list \<times> (nat, handle) fmap option \<times> bool) option"
  PrepareRegionAssociation :: "(fed_name \<Rightarrow> handle \<Rightarrow> nat \<Rightarrow> nat list \<Rightarrow> ddm_error + nat \<times> bool) option"
  ValidateSubscriptionOptions :: "(fed_name \<Rightarrow> SubscriptionOptions \<Rightarrow> ddm_error option) option"
  OnObjectSubscriptionInterest :: "(fed_name \<Rightarrow> handle \<Rightarrow> nat \<Rightarrow> nat list \<Rightarrow> ddm_error option) option"
  OnInteractionSubscriptionInterest :: "(fed_name \<Rightarrow> handle \<Rightarrow> nat \<Rightarrow> bool \<Rightarrow> ddm_error option) option"
  OnObjectSubscribed :: bool
  onRateDemandChanged :: "(fed_name \<Rightarrow> bool \<Rightarrow> ddm_error option) option"
  onRegionStateChanged :: bool
  ctxErr :: "nat \<Rightarrow> ddm_error option"

section \<open>Helpers\<close>

text \<open>\<open>slices.Sort\<close> followed by \<open>slices.Compact\<close>.\<close>

definition sortCompact :: "'a::linorder list \<Rightarrow> 'a list" where
  "sortCompact xs = remdups_adj (sort xs)"

definition dimensionSet :: "nat list \<Rightarrow> nat list" where
  "dimensionSet ds = sortCompact ds"

text \<open>Reading a map of maps: a missing inner map reads as the empty one.\<close>

definition inner :: "('k, ('a, 'b) fmap) fmap \<Rightarrow> 'k \<Rightarrow> ('a, 'b) fmap" where
  "inner m k = (case fmlookup m k of Some x \<Rightarrow> x | None \<Rightarrow> fmempty)"

text \<open>Storing an inner map, or deleting its key when it has become empty.\<close>

definition putInner :: "'k \<Rightarrow> ('a, 'b) fmap \<Rightarrow> ('k, ('a, 'b) fmap) fmap \<Rightarrow> ('k, ('a, 'b) fmap) fmap" where
  "putInner k x m = (if fmdom x = {||} then fmdrop k m else fmupd k x m)"

definition rowsAt :: "('k, 'a list) fmap \<Rightarrow> 'k \<Rightarrow> 'a list" where
  "rowsAt m k = (case fmlookup m k of Some xs \<Rightarrow> xs | None \<Rightarrow> [])"

text \<open>Storing a list of rows, or deleting the key when no row is left.\<close>

definition putRows :: "'k \<Rightarrow> 'a list \<Rightarrow> ('k, 'a list) fmap \<Rightarrow> ('k, 'a list) fmap" where
  "putRows k rows m = (if rows = [] then fmdrop k m else fmupd k rows m)"

definition remainingRegions :: "nat list \<Rightarrow> nat list \<Rightarrow> nat list" where
  "remainingRegions current removed =
     (if removed = [] then [] else filter (\<lambda>r. r \<notin> set removed) current)"

definition setState :: "fed_name \<Rightarrow> federationDDMState \<Rightarrow> DDMManager \<Rightarrow> DDMManager" where
  "setState f st m = m\<lparr>fed := fmupd f st (fed m)\<rparr>"

section \<open>Dimension tables\<close>

definition setDimensionDefault :: "nat \<Rightarrow> Dimension \<Rightarrow> (nat, DDMRange option) fmap \<Rightarrow> (nat, DDMRange option) fmap" where
  "setDimensionDefault h d m =
     fmupd h (case DimensionDefaultRange d of RangeDefault l u \<Rightarrow> Some \<lparr>Lower = l, Upper = u\<rparr> | _ \<Rightarrow> None) m"

definition declareDimension :: "Dimension \<Rightarrow> federationDDMState \<Rightarrow> federationDDMState" where
  "declareDimension d st =
     (let h = nextDimHandle st + 1 in
      st\<lparr>nextDimHandle := h,
         dimensions := fmupd 1 (fmupd (dName d) h (inner (dimensions st) 1)) (dimensions st),
         dimUpperBound := fmupd h (upperLimit (dUpperBound d)) (dimUpperBound st),
         dimDefaults := setDimensionDefault h d (dimDefaults st)\<rparr>)"

definition populateFromFOM :: "Dimension list \<Rightarrow> federationDDMState \<Rightarrow> federationDDMState" where
  "populateFromFOM ds st =
     fold declareDimension ds
       (st\<lparr>permissive := False, routingSpaces := fmupd ''default'' 1 (routingSpaces st),
           dimensions := fmupd 1 fmempty (dimensions st)\<rparr>)"

definition zeroDimension :: Dimension where
  "zeroDimension = \<lparr>dName = '''', dUpperBound = 0, DefaultValue = []\<rparr>"

text \<open>\<open>byName\<close>: the last dimension of a name.\<close>

definition byName :: "Dimension list \<Rightarrow> string \<Rightarrow> Dimension" where
  "byName ds n = (case find (\<lambda>d. dName d = n) (rev ds) of Some d \<Rightarrow> d | None \<Rightarrow> zeroDimension)"

definition refreshFOMDimensions :: "DDMOptions \<Rightarrow> fed_name \<Rightarrow> federationDDMState \<Rightarrow> federationDDMState" where
  "refreshFOMDimensions opt f st =
     (case FOMs opt f of
        Inl _ \<Rightarrow> st
      | Inr h \<Rightarrow>
          (case FOMProvider h of
             None \<Rightarrow> st\<lparr>fom := h\<rparr>
           | Some (revision, view) \<Rightarrow>
               if revision = fomRevision st then st\<lparr>fom := h\<rparr>
               else
                 let bs = vDimensions view;
                     defaults = (case Dimensions h of
                         None \<Rightarrow> dimDefaults st
                       | Some ds \<Rightarrow> fold (\<lambda>b. setDimensionDefault (bHandle b) (byName ds (bName b))) bs fmempty)
                 in st\<lparr>fom := h, dimDefaults := defaults,
                       routingSpaces := fmupd ''default'' 1 (routingSpaces st),
                       dimensions := fmupd 1 (fold (\<lambda>b. fmupd (bName b) (bHandle b)) bs fmempty) (dimensions st),
                       dimUpperBound := fold (\<lambda>b. fmupd (bHandle b) (upperLimit (bUpperBound b))) bs fmempty,
                       nextDimHandle := fold (\<lambda>b n. max (bHandle b) n) bs 0,
                       permissive := False, fomRevision := vRevision view\<rparr>))"

text \<open>A new state, filled from the object model when its handle lists the dimensions.\<close>

definition initialState :: "DDMOptions \<Rightarrow> fed_name \<Rightarrow> nat \<Rightarrow> federationDDMState" where
  "initialState opt f i =
     (case FOMs opt f of
        Inl _ \<Rightarrow> newFederationDDMState i
      | Inr h \<Rightarrow>
          (case Dimensions h of
             Some ds \<Rightarrow> if IsValid h then populateFromFOM ds (newFederationDDMState i) else newFederationDDMState i
           | None \<Rightarrow> newFederationDDMState i))"

definition stateForLocked :: "DDMOptions \<Rightarrow> fed_name \<Rightarrow> DDMManager \<Rightarrow> federationDDMState \<times> DDMManager" where
  "stateForLocked opt f m =
     (case fmlookup (fed m) f of
        Some st \<Rightarrow> let st = refreshFOMDimensions opt f st in (st, setState f st m)
      | None \<Rightarrow>
          let st = refreshFOMDimensions opt f (initialState opt f (allocated m)) in
          (st, setState f st (m\<lparr>allocated := allocated m + 1\<rparr>)))"

definition OnDDMFederationDestroyed :: "fed_name \<Rightarrow> DDMManager \<Rightarrow> DDMManager" where
  "OnDDMFederationDestroyed f m = m\<lparr>fed := fmdrop f (fed m)\<rparr>"

definition absentFederation :: "DDMOptions \<Rightarrow> fed_name \<Rightarrow> bool" where
  "absentFederation opt f \<longleftrightarrow> (case FederationExists opt of None \<Rightarrow> False | Some ex \<Rightarrow> \<not> ex f)"

definition LookupRoutingSpace :: "DDMOptions \<Rightarrow> fed_name \<Rightarrow> string \<Rightarrow> DDMManager \<Rightarrow> nat option \<times> DDMManager" where
  "LookupRoutingSpace opt f name m =
     (if name = '''' \<or> absentFederation opt f then (None, m)
      else
        let (st, m) = stateForLocked opt f m in
        case fmlookup (routingSpaces st) name of
          Some h \<Rightarrow> (Some h, m)
        | None \<Rightarrow>
            if permissive st then
              let h = fcard (fmdom (routingSpaces st)) + 1 in
              (Some h, setState f (st\<lparr>routingSpaces := fmupd name h (routingSpaces st)\<rparr>) m)
            else (None, m))"

definition LookupDimension :: "DDMOptions \<Rightarrow> fed_name \<Rightarrow> nat \<Rightarrow> string \<Rightarrow> DDMManager \<Rightarrow> nat option \<times> DDMManager" where
  "LookupDimension opt f sp name m =
     (if name = '''' \<or> sp = 0 \<or> absentFederation opt f then (None, m)
      else
        let (st, m) = stateForLocked opt f m in
        if fmlookup (dimensions st) sp = None \<and> \<not> permissive st then (None, m)
        else
          let names = inner (dimensions st) sp in
          case fmlookup names name of
            Some h \<Rightarrow> (Some h, m)
          | None \<Rightarrow>
              if permissive st then
                let h = fcard (fmdom names) + 1 in
                (Some h, setState f (st\<lparr>dimensions := fmupd sp (fmupd name h names) (dimensions st),
                   dimUpperBound := fmupd h MaxRange (dimUpperBound st)\<rparr>) m)
              else (None, m))"

section \<open>Regions\<close>

definition hasRoutingSpace :: "federationDDMState \<Rightarrow> nat \<Rightarrow> bool" where
  "hasRoutingSpace st h \<longleftrightarrow> h |\<in>| fmran (routingSpaces st)"

definition hasDimension :: "federationDDMState \<Rightarrow> nat \<Rightarrow> nat \<Rightarrow> bool" where
  "hasDimension st sp d \<longleftrightarrow> d |\<in>| fmran (inner (dimensions st) sp)"

text \<open>The full range a template region starts with.\<close>

definition fullRange :: "federationDDMState \<Rightarrow> nat \<Rightarrow> DDMRange" where
  "fullRange st d =
     \<lparr>Lower = 0, Upper = upperLimit (case fmlookup (dimUpperBound st) d of Some u \<Rightarrow> u | None \<Rightarrow> 0)\<rparr>"

definition CreateRegion :: "DDMOptions \<Rightarrow> fed_name \<Rightarrow> handle \<Rightarrow> nat \<Rightarrow> nat list \<Rightarrow> DDMManager \<Rightarrow> (ddm_error + nat) \<times> DDMManager" where
  "CreateRegion opt f ow sp ds m =
     (if sp = 0 then (Inl ErrRoutingSpaceNotFound, m)
      else
        let ds = dimensionSet ds; (st, m) = stateForLocked opt f m in
        if \<not> hasRoutingSpace st sp then (Inl ErrRoutingSpaceNotFound, m)
        else if \<not> list_all (hasDimension st sp) ds then (Inl ErrDimensionNotFound, m)
        else if int (nextRegionHandle st) = 2 ^ 64 - 1 then (Inl ErrNamespaceExhausted, m)
        else
          let rh = nextRegionHandle st + 1;
              rs = \<lparr>template = True, owner = ow, space = sp, dims = ds,
                    committed = fmap_of_list (map (\<lambda>d. (d, fullRange st d)) ds), pending = fmempty\<rparr>
          in (Inr rh, setState f (st\<lparr>nextRegionHandle := rh, regions := fmupd rh rs (regions st)\<rparr>) m))"

definition SetRangeBounds ::
  "DDMOptions \<Rightarrow> fed_name \<Rightarrow> handle \<Rightarrow> nat \<Rightarrow> nat \<Rightarrow> DDMRange \<Rightarrow> DDMManager \<Rightarrow> ddm_error option \<times> DDMManager" where
  "SetRangeBounds opt f ow rh d bounds m =
     (let (st, m) = stateForLocked opt f m in
      case fmlookup (regions st) rh of
        None \<Rightarrow> (Some ErrRegionNotFound, m)
      | Some rs \<Rightarrow>
          if owner rs \<noteq> ow then (Some ErrRegionNotOwnedByFederate, m)
          else if d \<notin> set (dims rs) then (Some ErrDimensionNotFound, m)
          else if Upper bounds \<le> Lower bounds \<or>
                  (case fmlookup (dimUpperBound st) d of Some u \<Rightarrow> u | None \<Rightarrow> 0) < Upper bounds
          then (Some ErrInvalidRangeBounds, m)
          else (None, setState f (st\<lparr>regions := fmupd rh (rs\<lparr>pending := fmupd d bounds (pending rs)\<rparr>) (regions st)\<rparr>) m))"

definition regionListed :: "nat \<Rightarrow> associations \<Rightarrow> bool" where
  "regionListed rh per \<longleftrightarrow> fBex (fmran per) (\<lambda>rs. rh \<in> set rs)"

definition regionInUse :: "federationDDMState \<Rightarrow> nat \<Rightarrow> bool" where
  "regionInUse st rh \<longleftrightarrow>
     fBex (fmran (objSubs st)) (list_ex (\<lambda>s. rh \<in> set (sregions s))) \<or>
     fBex (fmran (intSubs st)) (list_ex (\<lambda>s. rh \<in> set (iregions s))) \<or>
     fBex (fmran (objPubs st)) (regionListed rh)"

text \<open>Removing a region from the associations of one caller; an attribute without regions is deleted.\<close>

definition stripRegion :: "nat \<Rightarrow> associations \<Rightarrow> associations" where
  "stripRegion rh per = fmmap (\<lambda>rs. remainingRegions rs [rh]) (fmfilter (\<lambda>a. remainingRegions (the (fmlookup per a)) [rh] \<noteq> []) per)"

text \<open>\<open>pruneInactive\<close> on the callers of one object, and on the object itself.\<close>

definition pruneCallers :: "(handle, associations) fmap \<Rightarrow> (handle, associations) fmap" where
  "pruneCallers callers = fmfilter (\<lambda>c. fmdom (the (fmlookup callers c)) \<noteq> {||}) callers"

definition pruneInactive :: "nat \<Rightarrow> federationDDMState \<Rightarrow> federationDDMState" where
  "pruneInactive ob st = st\<lparr>inactivePubs := putInner ob (pruneCallers (inner (inactivePubs st) ob)) (inactivePubs st)\<rparr>"

definition removeInactiveRegion :: "nat \<Rightarrow> federationDDMState \<Rightarrow> federationDDMState" where
  "removeInactiveRegion rh st =
     (let stripped = fmmap (\<lambda>callers. pruneCallers (fmmap (stripRegion rh) callers)) (inactivePubs st) in
      st\<lparr>inactivePubs := fmfilter (\<lambda>ob. fmdom (the (fmlookup stripped ob)) \<noteq> {||}) stripped\<rparr>)"

definition DeleteRegion :: "DDMOptions \<Rightarrow> fed_name \<Rightarrow> handle \<Rightarrow> nat \<Rightarrow> DDMManager \<Rightarrow> ddm_error option \<times> DDMManager" where
  "DeleteRegion opt f ow rh m =
     (let (st, m) = stateForLocked opt f m in
      case fmlookup (regions st) rh of
        None \<Rightarrow> (Some ErrRegionNotFound, m)
      | Some rs \<Rightarrow>
          if owner rs \<noteq> ow then (Some ErrRegionNotOwnedByFederate, m)
          else if regionInUse st rh then (Some ErrRegionInUse, m)
          else (None, setState f (removeInactiveRegion rh (st\<lparr>regions := fmdrop rh (regions st)\<rparr>)) m))"

section \<open>Committing regions\<close>

definition commitError :: "federationDDMState \<Rightarrow> handle \<Rightarrow> nat \<Rightarrow> ddm_error option" where
  "commitError st ow rh =
     (case fmlookup (regions st) rh of
        None \<Rightarrow> Some ErrRegionNotFound
      | Some rs \<Rightarrow>
          if owner rs \<noteq> ow then Some ErrRegionNotOwnedByFederate
          else if template rs \<and> \<not> list_all (\<lambda>d. fmlookup (pending rs) d \<noteq> None) (dims rs) then Some ErrRegionNotFound
          else None)"

fun firstError :: "('a \<Rightarrow> 'e option) \<Rightarrow> 'a list \<Rightarrow> 'e option" where
  "firstError check [] = None"
| "firstError check (x # xs) = (case check x of Some e \<Rightarrow> Some e | None \<Rightarrow> firstError check xs)"

definition commitRegion :: "regionState \<Rightarrow> regionState" where
  "commitRegion rs = rs\<lparr>committed := committed rs ++\<^sub>f pending rs, pending := fmempty, template := False\<rparr>"

definition updateRegion :: "(regionState \<Rightarrow> regionState) \<Rightarrow> nat \<Rightarrow> federationDDMState \<Rightarrow> federationDDMState" where
  "updateRegion g rh st =
     (case fmlookup (regions st) rh of None \<Rightarrow> st | Some rs \<Rightarrow> st\<lparr>regions := fmupd rh (g rs) (regions st)\<rparr>)"

definition savedRegions :: "nat list \<Rightarrow> federationDDMState \<Rightarrow> (nat, bool \<times> regionBounds \<times> regionBounds) fmap" where
  "savedRegions rhs st =
     fmmap (\<lambda>rs. (template rs, committed rs, pending rs)) (fmrestrict_fset (fset_of_list rhs) (regions st))"

definition CommitRegionModifications_begin ::
  "DDMOptions \<Rightarrow> fed_name \<Rightarrow> handle \<Rightarrow> nat list \<Rightarrow> DDMManager \<Rightarrow> ddm_error option \<times> DDMManager" where
  "CommitRegionModifications_begin opt f ow rhs m =
     (let (st, m) = stateForLocked opt f m in
      case firstError (commitError st ow) rhs of
        Some e \<Rightarrow> (Some e, m)
      | None \<Rightarrow>
          (None, (setState f (fold (updateRegion commitRegion) rhs st) m)
             \<lparr>inflight := Some (RegionAdmission f (ident st) (savedRegions rhs st))\<rparr>))"

text \<open>\<open>regionRateRollbackLocked\<close>: what undoing a commit does to the state it was made in.\<close>

definition restoreRegions :: "(nat, bool \<times> regionBounds \<times> regionBounds) fmap \<Rightarrow> federationDDMState \<Rightarrow> federationDDMState" where
  "restoreRegions saved st =
     st\<lparr>regions := fmmap_keys (\<lambda>rh rs. case fmlookup saved rh of
         None \<Rightarrow> rs | Some (t, c, p) \<Rightarrow> rs\<lparr>template := t, committed := c, pending := p\<rparr>) (regions st)\<rparr>"

section \<open>Overlap\<close>

definition regionPairOverlap :: "regionBounds \<Rightarrow> regionBounds \<Rightarrow> bool" where
  "regionPairOverlap a b \<longleftrightarrow>
     (let shared = ffilter (\<lambda>d. fmlookup b d \<noteq> None) (fmdom a) in
      shared \<noteq> {||} \<and> fBall shared (\<lambda>d. Overlap (the (fmlookup a d)) (the (fmlookup b d))))"

definition regionsOverlap :: "regionBounds list \<Rightarrow> regionBounds list \<Rightarrow> bool" where
  "regionsOverlap pub sub \<longleftrightarrow> list_ex (\<lambda>p. list_ex (regionPairOverlap p) sub) pub"

definition overlapsDefault :: "regionBounds list \<Rightarrow> bool" where
  "overlapsDefault rs \<longleftrightarrow>
     list_ex (\<lambda>b. fmdom b \<noteq> {||} \<and> fBall (fmdom b) (\<lambda>d. Lower (the (fmlookup b d)) < Upper (the (fmlookup b d)))) rs"

section \<open>Realizations\<close>

definition materializeRegion :: "federationDDMState \<Rightarrow> nat \<Rightarrow> regionBounds option" where
  "materializeRegion st rh =
     (case fmlookup (conveyed st) rh of
        Some snap \<Rightarrow> Some (fmap_of_list (rev (ranges snap)))
      | None \<Rightarrow>
          (case fmlookup (regions st) rh of
             None \<Rightarrow> None
           | Some rs \<Rightarrow> if template rs then None else Some (committed rs)))"

definition materializeRegions :: "federationDDMState \<Rightarrow> nat list \<Rightarrow> regionBounds list" where
  "materializeRegions st rhs = List.map_filter (materializeRegion st) rhs"

text \<open>The defaults of the available dimensions that a region does not specify.\<close>

definition withDefaults :: "federationDDMState \<Rightarrow> nat list \<Rightarrow> regionBounds \<Rightarrow> regionBounds" where
  "withDefaults st available bounds =
     fold (\<lambda>d b. case fmlookup b d of
         Some _ \<Rightarrow> b
       | None \<Rightarrow> (case fmlookup (dimDefaults st) d of Some (Some r) \<Rightarrow> fmupd d r b | _ \<Rightarrow> b)) available bounds"

definition realizeRegion :: "federationDDMState \<Rightarrow> nat list \<Rightarrow> bool \<Rightarrow> nat \<Rightarrow> regionBounds option" where
  "realizeRegion st available strict rh =
     map_option (\<lambda>b. if fmlookup (conveyed st) rh \<noteq> None \<or> \<not> strict then b else withDefaults st available b)
       (materializeRegion st rh)"

definition realize :: "federationDDMState \<Rightarrow> nat list \<Rightarrow> nat list \<Rightarrow> bool \<Rightarrow> regionBounds list" where
  "realize st rhs available strict = List.map_filter (realizeRegion st available strict) rhs"

definition objectRealizations :: "federationDDMState \<Rightarrow> nat \<Rightarrow> nat \<Rightarrow> nat list \<Rightarrow> regionBounds list" where
  "objectRealizations st cls attr rhs =
     (case AttributeDimensions (fom st) of
        Some adims \<Rightarrow>
          (case adims cls attr of
             Some available \<Rightarrow> realize st rhs (dimensionSet available) True
           | None \<Rightarrow> realize st rhs [] False)
      | None \<Rightarrow> materializeRegions st rhs)"

definition interactionRealizations :: "federationDDMState \<Rightarrow> nat \<Rightarrow> nat list \<Rightarrow> regionBounds list" where
  "interactionRealizations st cls rhs =
     (case InteractionDimensions (fom st) of
        Some idims \<Rightarrow>
          (case idims cls of
             Some available \<Rightarrow> realize st rhs (dimensionSet available) True
           | None \<Rightarrow> realize st rhs [] False)
      | None \<Rightarrow> materializeRegions st rhs)"

section \<open>Queries of bounds\<close>

definition RangeBounds :: "RegionRealizationSnapshot \<Rightarrow> nat \<Rightarrow> DDMRange option" where
  "RangeBounds snap d = map_of (ranges snap) d"

definition QueryBoundsChecked :: "fed_name \<Rightarrow> nat \<Rightarrow> nat \<Rightarrow> DDMManager \<Rightarrow> ddm_error + DDMRange" where
  "QueryBoundsChecked f rh d m =
     (case fmlookup (fed m) f of
        None \<Rightarrow> Inl ErrRegionNotFound
      | Some st \<Rightarrow>
          (case fmlookup (conveyed st) rh of
             Some snap \<Rightarrow> (case RangeBounds snap d of Some r \<Rightarrow> Inr r | None \<Rightarrow> Inl ErrDimensionNotFound)
           | None \<Rightarrow>
               (case fmlookup (regions st) rh of
                  None \<Rightarrow> Inl ErrRegionNotFound
                | Some rs \<Rightarrow>
                    if template rs then Inl ErrRegionNotFound
                    else (case fmlookup (committed rs) d of Some r \<Rightarrow> Inr r | None \<Rightarrow> Inl ErrDimensionNotFound))))"

definition QueryBounds :: "fed_name \<Rightarrow> nat \<Rightarrow> nat \<Rightarrow> DDMManager \<Rightarrow> DDMRange option" where
  "QueryBounds f rh d m =
     (case fmlookup (fed m) f of
        None \<Rightarrow> None
      | Some st \<Rightarrow>
          (case fmlookup (conveyed st) rh of
             Some snap \<Rightarrow> RangeBounds snap d
           | None \<Rightarrow>
               (case fmlookup (regions st) rh of
                  None \<Rightarrow> None
                | Some rs \<Rightarrow> if template rs then None else fmlookup (committed rs) d)))"

definition DDM_Snapshot :: "fed_name \<Rightarrow> DDMManager \<Rightarrow> nat" where
  "DDM_Snapshot f m =
     (case fmlookup (fed m) f of None \<Rightarrow> 0 | Some st \<Rightarrow> fcard (fmdom (regions st)) mod 2 ^ 32)"

end
