(* ===== verification/DDM_Subs.thy ===== *)
theory DDM_Subs
  imports DDM_Core
begin

text \<open>
  Subscriptions with regions: validation (\<open>operations.go\<close>), the rows of the subscription tables
  (\<open>subscription_options.go\<close>) and the services that change them (\<open>manager.go\<close>, \<open>groups.go\<close>,
  \<open>missing_services.go\<close>), up to the point where they ask for admission.
\<close>

section \<open>Validation\<close>

definition attributeContext :: "FOMHandle \<Rightarrow> nat \<Rightarrow> nat \<Rightarrow> (nat, nat list) fmap \<Rightarrow> ddm_error + (nat, nat list) fmap" where
  "attributeContext h cls a required =
     (if a = 0 then Inl ErrAttributeNotFound
      else if (case AttributeName h of Some names \<Rightarrow> names cls a = None | None \<Rightarrow> False) then Inl ErrAttributeNotFound
      else case AttributeDimensions h of
        None \<Rightarrow> Inr required
      | Some adims \<Rightarrow>
          (case adims cls a of
             None \<Rightarrow> Inl ErrAttributeNotFound
           | Some values \<Rightarrow> Inr (fmupd a (dimensionSet values) required)))"

fun attributeContexts :: "FOMHandle \<Rightarrow> nat \<Rightarrow> nat list \<Rightarrow> (nat, nat list) fmap \<Rightarrow> ddm_error + (nat, nat list) fmap" where
  "attributeContexts h cls [] required = Inr required"
| "attributeContexts h cls (a # as) required =
     bindR (attributeContext h cls a required) (attributeContexts h cls as)"

definition objectContext :: "DDMOptions \<Rightarrow> fed_name \<Rightarrow> nat \<Rightarrow> nat list \<Rightarrow> ddm_error + (nat, nat list) fmap" where
  "objectContext opt f cls attrs =
     bindR (FOMs opt f) (\<lambda>h.
       if (case ObjectClassName h of Some names \<Rightarrow> names cls = None | None \<Rightarrow> False) then Inl ErrObjectClassNotFound
       else attributeContexts h cls attrs fmempty)"

text \<open>The dimensions of an interaction class; \<open>None\<close> when the object model does not know dimensions.\<close>

definition interactionContext :: "DDMOptions \<Rightarrow> fed_name \<Rightarrow> nat \<Rightarrow> ddm_error + nat list option" where
  "interactionContext opt f cls =
     bindR (FOMs opt f) (\<lambda>h.
       if (case InteractionClassName h of Some names \<Rightarrow> names cls = None | None \<Rightarrow> False) then Inl ErrInteractionClassNotFound
       else case InteractionDimensions h of
         None \<Rightarrow> Inr None
       | Some idims \<Rightarrow>
           (case idims cls of None \<Rightarrow> Inl ErrInteractionClassNotFound | Some values \<Rightarrow> Inr (Some (dimensionSet values))))"

definition dimensionsSubset :: "nat list \<Rightarrow> nat list \<Rightarrow> bool" where
  "dimensionsSubset region available \<longleftrightarrow> list_all (\<lambda>d. d \<in> set available) region"

text \<open>\<open>available\<close> is \<open>None\<close> where the source passes \<open>strict = false\<close>.\<close>

definition regionError :: "federationDDMState \<Rightarrow> handle \<Rightarrow> nat list option \<Rightarrow> nat \<Rightarrow> ddm_error option" where
  "regionError st caller available rh =
     (case fmlookup (regions st) rh of
        None \<Rightarrow> Some ErrRegionNotFound
      | Some rs \<Rightarrow>
          if owner rs \<noteq> caller then Some ErrRegionNotOwnedByFederate
          else if template rs then Some ErrRegionNotFound
          else (case available of
                  Some ds \<Rightarrow> if ds = [] \<or> \<not> dimensionsSubset (dims rs) ds then Some ErrInvalidRegionContext else None
                | None \<Rightarrow> None))"

definition validateRegions :: "federationDDMState \<Rightarrow> handle \<Rightarrow> nat list \<Rightarrow> nat list option \<Rightarrow> ddm_error option" where
  "validateRegions st caller rhs available = firstError (regionError st caller available) rhs"

definition validateObjectRegions ::
  "federationDDMState \<Rightarrow> handle \<Rightarrow> nat list \<Rightarrow> nat list \<Rightarrow> (nat, nat list) fmap \<Rightarrow> ddm_error option" where
  "validateObjectRegions st caller attrs rhs required =
     (case validateRegions st caller rhs None of
        Some e \<Rightarrow> Some e
      | None \<Rightarrow> firstError (\<lambda>a. validateRegions st caller rhs (fmlookup required a)) attrs)"

definition validateGroups ::
  "federationDDMState \<Rightarrow> handle \<Rightarrow> AttributeRegionGroup list \<Rightarrow> (nat, nat list) fmap \<Rightarrow> ddm_error option" where
  "validateGroups st caller groups required =
     firstError (\<lambda>g. validateObjectRegions st caller (Attributes g) (Regions g) required) groups"

definition groupAttributes :: "AttributeRegionGroup list \<Rightarrow> nat list" where
  "groupAttributes groups = sortCompact (concat (map Attributes groups))"

definition validateGroupSubscriptionOptions :: "DDMOptions \<Rightarrow> fed_name \<Rightarrow> SubscriptionOptions \<Rightarrow> ddm_error option" where
  "validateGroupSubscriptionOptions opt f options =
     (case ValidateSubscriptionOptions opt of
        Some validate \<Rightarrow> validate f options
      | None \<Rightarrow> if UpdateRateDesignator options \<noteq> '''' then Some ErrInvalidUpdateRateDesignator else None)"

section \<open>Rows\<close>

text \<open>
  The loop of \<open>addObjectSubscriptionLocked\<close>: rows of the same options are merged into the added one,
  and the requested regions are taken out of the federate's other rows.
\<close>

fun addObjectRows :: "subscription \<Rightarrow> subscription list \<Rightarrow> subscription list \<Rightarrow> subscription list" where
  "addObjectRows added kept [] = kept @ [added\<lparr>sregions := sortCompact (sregions added)\<rparr>]"
| "addObjectRows added kept (row # rows) =
     (if subscriber row \<noteq> subscriber added then addObjectRows added (kept @ [row]) rows
      else if spassive row = spassive added \<and> updateRate row = updateRate added
      then addObjectRows (added\<lparr>sregions := sregions added @ sregions row\<rparr>) kept rows
      else
        let row = row\<lparr>sregions := remainingRegions (sregions row) (sregions added)\<rparr> in
        addObjectRows added (if sregions row \<noteq> [] then kept @ [row] else kept) rows)"

definition addObjectSubscription :: "nat \<times> nat \<Rightarrow> subscription \<Rightarrow> federationDDMState \<Rightarrow> federationDDMState" where
  "addObjectSubscription key added st =
     st\<lparr>objSubs := fmupd key (addObjectRows added [] (rowsAt (objSubs st) key)) (objSubs st)\<rparr>"

fun addInteractionRows ::
  "interactionSubscription \<Rightarrow> interactionSubscription list \<Rightarrow> interactionSubscription list \<Rightarrow> interactionSubscription list" where
  "addInteractionRows added kept [] = kept @ [added\<lparr>iregions := sortCompact (iregions added)\<rparr>]"
| "addInteractionRows added kept (row # rows) =
     (if isubscriber row \<noteq> isubscriber added then addInteractionRows added (kept @ [row]) rows
      else if ipassive row = ipassive added
      then addInteractionRows (added\<lparr>iregions := iregions added @ iregions row\<rparr>) kept rows
      else
        let row = row\<lparr>iregions := remainingRegions (iregions row) (iregions added)\<rparr> in
        addInteractionRows added (if iregions row \<noteq> [] then kept @ [row] else kept) rows)"

definition addInteractionSubscription :: "nat \<Rightarrow> interactionSubscription \<Rightarrow> federationDDMState \<Rightarrow> federationDDMState" where
  "addInteractionSubscription cls added st =
     st\<lparr>intSubs := fmupd cls (addInteractionRows added [] (rowsAt (intSubs st) cls)) (intSubs st)\<rparr>"

fun removeSubscriptionRegions :: "subscription list \<Rightarrow> handle \<Rightarrow> nat list \<Rightarrow> subscription list" where
  "removeSubscriptionRegions [] sub rhs = []"
| "removeSubscriptionRegions (row # rows) sub rhs =
     (let row = (if subscriber row = sub then row\<lparr>sregions := remainingRegions (sregions row) rhs\<rparr> else row) in
      if sregions row \<noteq> [] then row # removeSubscriptionRegions rows sub rhs else removeSubscriptionRegions rows sub rhs)"

definition removeObjectSubscriptionRegions :: "nat \<times> nat \<Rightarrow> handle \<Rightarrow> nat list \<Rightarrow> federationDDMState \<Rightarrow> federationDDMState" where
  "removeObjectSubscriptionRegions key sub rhs st =
     st\<lparr>objSubs := putRows key (removeSubscriptionRegions (rowsAt (objSubs st) key) sub rhs) (objSubs st)\<rparr>"

fun removeInteractionRegions :: "interactionSubscription list \<Rightarrow> handle \<Rightarrow> nat list \<Rightarrow> interactionSubscription list" where
  "removeInteractionRegions [] sub rhs = []"
| "removeInteractionRegions (row # rows) sub rhs =
     (let row = (if isubscriber row = sub then row\<lparr>iregions := remainingRegions (iregions row) rhs\<rparr> else row) in
      if iregions row \<noteq> [] then row # removeInteractionRegions rows sub rhs else removeInteractionRegions rows sub rhs)"

section \<open>Undo\<close>

text \<open>\<open>objectSubscriptionRollbackLocked\<close>: the saved rows of one subscriber and class.\<close>

definition savedObjectRows :: "handle \<Rightarrow> nat \<Rightarrow> federationDDMState \<Rightarrow> (nat \<times> nat, subscription list) fmap" where
  "savedObjectRows sub cls st =
     (let mine = fmmap (filter (\<lambda>r. subscriber r = sub)) (fmfilter (\<lambda>k. fst k = cls) (objSubs st)) in
      fmfilter (\<lambda>k. fmlookup mine k \<noteq> Some []) mine)"

text \<open>\<open>removeObjSubLocked\<close> for every attribute of the class.\<close>

definition removeObjSubs :: "handle \<Rightarrow> nat \<Rightarrow> (nat \<times> nat, subscription list) fmap \<Rightarrow> (nat \<times> nat, subscription list) fmap" where
  "removeObjSubs sub cls m =
     (let cleared = fmmap_keys (\<lambda>k rows. if fst k = cls then filter (\<lambda>r. subscriber r \<noteq> sub) rows else rows) m in
      fmfilter (\<lambda>k. fst k = cls \<longrightarrow> fmlookup cleared k \<noteq> Some []) cleared)"

definition restoreObjectRows ::
  "handle \<Rightarrow> nat \<Rightarrow> (nat \<times> nat, subscription list) fmap \<Rightarrow> federationDDMState \<Rightarrow> federationDDMState" where
  "restoreObjectRows sub cls previous st =
     (let cleared = removeObjSubs sub cls (objSubs st) in
      st\<lparr>objSubs := cleared ++\<^sub>f fmmap_keys (\<lambda>k rows. rowsAt cleared k @ rows) previous\<rparr>)"

definition savedInteractionRows :: "handle \<Rightarrow> nat \<Rightarrow> federationDDMState \<Rightarrow> interactionSubscription list" where
  "savedInteractionRows sub cls st = filter (\<lambda>r. isubscriber r = sub) (rowsAt (intSubs st) cls)"

definition restoreInteractionRows ::
  "handle \<Rightarrow> nat \<Rightarrow> interactionSubscription list \<Rightarrow> federationDDMState \<Rightarrow> federationDDMState" where
  "restoreInteractionRows sub cls previous st =
     (let rows = filter (\<lambda>r. isubscriber r \<noteq> sub) (rowsAt (intSubs st) cls) in
      st\<lparr>intSubs := putRows cls (rows @ previous) (intSubs st)\<rparr>)"

section \<open>Interest\<close>

text \<open>The attributes of the class that the federate subscribes actively with some region.\<close>

definition interestedAttributes :: "fed_name \<Rightarrow> handle \<Rightarrow> nat \<Rightarrow> DDMManager \<Rightarrow> nat list" where
  "interestedAttributes f sub cls m =
     (case fmlookup (fed m) f of
        None \<Rightarrow> []
      | Some st \<Rightarrow>
          sorted_list_of_fset (snd |`| ffilter
            (\<lambda>k. fst k = cls \<and>
               list_ex (\<lambda>r. subscriber r = sub \<and> \<not> spassive r \<and> sregions r \<noteq> []) (rowsAt (objSubs st) k))
            (fmdom (objSubs st))))"

definition objectInterest :: "DDMOptions \<Rightarrow> fed_name \<Rightarrow> handle \<Rightarrow> nat \<Rightarrow> DDMManager \<Rightarrow> ddm_error option" where
  "objectInterest opt f sub cls m =
     (case OnObjectSubscriptionInterest opt of
        None \<Rightarrow> None
      | Some hook \<Rightarrow> hook f sub cls (interestedAttributes f sub cls m))"

definition interactionInterest :: "DDMOptions \<Rightarrow> fed_name \<Rightarrow> handle \<Rightarrow> nat \<Rightarrow> DDMManager \<Rightarrow> ddm_error option" where
  "interactionInterest opt f sub cls m =
     (case OnInteractionSubscriptionInterest opt of
        None \<Rightarrow> None
      | Some hook \<Rightarrow>
          hook f sub cls
            (case fmlookup (fed m) f of
               None \<Rightarrow> False
             | Some st \<Rightarrow>
                 list_ex (\<lambda>r. isubscriber r = sub \<and> \<not> ipassive r \<and> iregions r \<noteq> []) (rowsAt (intSubs st) cls)))"

section \<open>Services\<close>

text \<open>The change awaits its admission.\<close>

definition await :: "admission \<Rightarrow> DDMManager \<Rightarrow> DDMManager" where
  "await a m = m\<lparr>inflight := Some a\<rparr>"

definition newRow :: "handle \<Rightarrow> nat list \<Rightarrow> SubscriptionOptions \<Rightarrow> subscription" where
  "newRow sub rhs options =
     \<lparr>subscriber = sub, sregions = rhs, spassive = (\<not> Active options), updateRate = UpdateRateDesignator options\<rparr>"

definition SubscribeObjectClassAttributesWithRegionsAndOptions ::
  "DDMOptions \<Rightarrow> fed_name \<Rightarrow> handle \<Rightarrow> nat \<Rightarrow> nat list \<Rightarrow> nat list \<Rightarrow> SubscriptionOptions \<Rightarrow> DDMManager \<Rightarrow>
   ddm_error option \<times> DDMManager" where
  "SubscribeObjectClassAttributesWithRegionsAndOptions opt f sub cls attrs rhs options m =
     (case validateGroupSubscriptionOptions opt f options of
        Some e \<Rightarrow> (Some e, m)
      | None \<Rightarrow>
          (case objectContext opt f cls attrs of
             Inl e \<Rightarrow> (Some e, m)
           | Inr required \<Rightarrow>
               let (st, m) = stateForLocked opt f m in
               (case validateObjectRegions st sub attrs rhs required of
                  Some e \<Rightarrow> (Some e, m)
                | None \<Rightarrow>
                    if rhs = [] then (None, await (ObjectAdmission f (ident st) sub cls None [] True) m)
                    else
                      (None, await (ObjectAdmission f (ident st) sub cls (Some (savedObjectRows sub cls st)) attrs True)
                         (setState f (fold (\<lambda>a. addObjectSubscription (cls, a) (newRow sub rhs options)) attrs st) m)))))"

definition UnsubscribeObjectClassAttributesWithRegions ::
  "DDMOptions \<Rightarrow> fed_name \<Rightarrow> handle \<Rightarrow> nat \<Rightarrow> nat list \<Rightarrow> nat list \<Rightarrow> DDMManager \<Rightarrow> ddm_error option \<times> DDMManager" where
  "UnsubscribeObjectClassAttributesWithRegions opt f sub cls attrs rhs m =
     (case objectContext opt f cls attrs of
        Inl e \<Rightarrow> (Some e, m)
      | Inr required \<Rightarrow>
          let (st, m) = stateForLocked opt f m in
          (case validateObjectRegions st sub attrs rhs required of
             Some e \<Rightarrow> (Some e, m)
           | None \<Rightarrow>
               if rhs = [] then (None, await (ObjectAdmission f (ident st) sub cls None [] True) m)
               else
                 (None, await (ObjectAdmission f (ident st) sub cls (Some (savedObjectRows sub cls st)) [] True)
                    (setState f (fold (\<lambda>a. removeObjectSubscriptionRegions (cls, a) sub rhs) attrs st) m))))"

text \<open>One group of the grouped services: \<open>options\<close> is \<open>None\<close> for an unsubscription.\<close>

definition changeObjectGroup ::
  "handle \<Rightarrow> nat \<Rightarrow> SubscriptionOptions option \<Rightarrow> AttributeRegionGroup \<Rightarrow> federationDDMState \<Rightarrow> federationDDMState" where
  "changeObjectGroup sub cls options g st =
     fold (\<lambda>a. case options of
         Some o' \<Rightarrow> addObjectSubscription (cls, a) (newRow sub (Regions g) o')
       | None \<Rightarrow> removeObjectSubscriptionRegions (cls, a) sub (Regions g)) (Attributes g) st"

definition effective :: "AttributeRegionGroup \<Rightarrow> bool" where
  "effective g \<longleftrightarrow> Attributes g \<noteq> [] \<and> Regions g \<noteq> []"

definition changeObjectRegionGroups ::
  "DDMOptions \<Rightarrow> fed_name \<Rightarrow> handle \<Rightarrow> nat \<Rightarrow> AttributeRegionGroup list \<Rightarrow> SubscriptionOptions option \<Rightarrow> DDMManager \<Rightarrow>
   ddm_error option \<times> DDMManager" where
  "changeObjectRegionGroups opt f sub cls groups options m =
     (case (case options of None \<Rightarrow> None | Some o' \<Rightarrow> validateGroupSubscriptionOptions opt f o') of
        Some e \<Rightarrow> (Some e, m)
      | None \<Rightarrow>
          (case objectContext opt f cls (groupAttributes groups) of
             Inl e \<Rightarrow> (Some e, m)
           | Inr context \<Rightarrow>
               let required = (if options = None then fmempty else context); (st, m) = stateForLocked opt f m in
               (case validateGroups st sub groups required of
                  Some e \<Rightarrow> (Some e, m)
                | None \<Rightarrow>
                    (case ctxErr opt 0 of
                       Some e \<Rightarrow> (Some e, m)
                     | None \<Rightarrow>
                         let work = filter effective groups;
                             undo = (if work = [] then None else Some (savedObjectRows sub cls st));
                             subscribed = (if options = None then [] else concat (map Attributes work))
                         in (None, await (ObjectAdmission f (ident st) sub cls undo subscribed (work \<noteq> []))
                              (setState f (fold (changeObjectGroup sub cls options) work st) m))))))"

definition SubscribeInteractionClassWithRegionsAndOptions ::
  "DDMOptions \<Rightarrow> fed_name \<Rightarrow> handle \<Rightarrow> nat \<Rightarrow> nat list \<Rightarrow> bool \<Rightarrow> DDMManager \<Rightarrow> ddm_error option \<times> DDMManager" where
  "SubscribeInteractionClassWithRegionsAndOptions opt f sub cls rhs active m =
     (case interactionContext opt f cls of
        Inl e \<Rightarrow> (Some e, m)
      | Inr available \<Rightarrow>
          let (st, m) = stateForLocked opt f m in
          (case validateRegions st sub rhs available of
             Some e \<Rightarrow> (Some e, m)
           | None \<Rightarrow>
               if rhs = [] then (None, await (InteractionAdmission f (ident st) sub cls None) m)
               else
                 (None, await (InteractionAdmission f (ident st) sub cls (Some (savedInteractionRows sub cls st)))
                    (setState f (addInteractionSubscription cls
                       \<lparr>isubscriber = sub, iregions = rhs, ipassive = (\<not> active)\<rparr> st) m))))"

definition UnsubscribeInteractionClassWithRegions ::
  "DDMOptions \<Rightarrow> fed_name \<Rightarrow> handle \<Rightarrow> nat \<Rightarrow> nat list \<Rightarrow> DDMManager \<Rightarrow> ddm_error option \<times> DDMManager" where
  "UnsubscribeInteractionClassWithRegions opt f sub cls rhs m =
     (case interactionContext opt f cls of
        Inl e \<Rightarrow> (Some e, m)
      | Inr available \<Rightarrow>
          let (st, m) = stateForLocked opt f m in
          (case validateRegions st sub rhs available of
             Some e \<Rightarrow> (Some e, m)
           | None \<Rightarrow>
               if rhs = [] then (None, await (InteractionAdmission f (ident st) sub cls None) m)
               else
                 (None, await (InteractionAdmission f (ident st) sub cls (Some (savedInteractionRows sub cls st)))
                    (setState f (st\<lparr>intSubs := putRows cls (removeInteractionRegions (rowsAt (intSubs st) cls) sub rhs)
                       (intSubs st)\<rparr>) m))))"

section \<open>Other entry points\<close>

definition SubscribeObjectClassAttributesWithRegions ::
  "DDMOptions \<Rightarrow> fed_name \<Rightarrow> handle \<Rightarrow> nat \<Rightarrow> nat list \<Rightarrow> nat list \<Rightarrow> DDMManager \<Rightarrow> ddm_error option \<times> DDMManager" where
  "SubscribeObjectClassAttributesWithRegions opt f sub cls attrs rhs m =
     SubscribeObjectClassAttributesWithRegionsAndOptions opt f sub cls attrs rhs
       \<lparr>Active = True, UpdateRateDesignator = ''''\<rparr> m"

definition SubscribeObjectClassAttributeRegionGroups ::
  "DDMOptions \<Rightarrow> fed_name \<Rightarrow> handle \<Rightarrow> nat \<Rightarrow> AttributeRegionGroup list \<Rightarrow> SubscriptionOptions \<Rightarrow> DDMManager \<Rightarrow>
   ddm_error option \<times> DDMManager" where
  "SubscribeObjectClassAttributeRegionGroups opt f sub cls groups options m =
     changeObjectRegionGroups opt f sub cls groups (Some options) m"

definition UnsubscribeObjectClassAttributeRegionGroups ::
  "DDMOptions \<Rightarrow> fed_name \<Rightarrow> handle \<Rightarrow> nat \<Rightarrow> AttributeRegionGroup list \<Rightarrow> DDMManager \<Rightarrow> ddm_error option \<times> DDMManager" where
  "UnsubscribeObjectClassAttributeRegionGroups opt f sub cls groups m =
     changeObjectRegionGroups opt f sub cls groups None m"

definition SubscribeInteractionClassWithRegions ::
  "DDMOptions \<Rightarrow> fed_name \<Rightarrow> handle \<Rightarrow> nat \<Rightarrow> nat list \<Rightarrow> DDMManager \<Rightarrow> ddm_error option \<times> DDMManager" where
  "SubscribeInteractionClassWithRegions opt f sub cls rhs m =
     SubscribeInteractionClassWithRegionsAndOptions opt f sub cls rhs True m"

end
