(* ===== verification/DDM_Assoc.thy ===== *)
theory DDM_Assoc
  imports DDM_Subs
begin

text \<open>
  Associations of regions with object instances (\<open>groups.go\<close>, \<open>association_lifecycle.go\<close>,
  \<open>registration.go\<close>), what ownership changes and resignations do to them, and the admission of
  changes (\<open>update_rate_hooks.go\<close>, \<open>subscription_notifications.go\<close>).
\<close>

section \<open>The associations of one object\<close>

datatype associationMode = associationAdd | associationRemove | associationReplace | associationLegacyRemove

definition removing :: "associationMode \<Rightarrow> bool" where
  "removing mode \<longleftrightarrow> mode = associationRemove \<or> mode = associationLegacyRemove"

definition objectView :: "federationDDMState \<Rightarrow> nat \<Rightarrow> objectAssociations" where
  "objectView st ob = (inner (objPubs st) ob, inner (inactivePubs st) ob)"

text \<open>
  Storing an object's associations: a caller without attributes, and an object without any entry,
  are deleted (\<open>pruneInactive\<close> and the tests \<open>len(st.objPubs[obj]) == 0\<close>).
\<close>

definition setObjectView :: "nat \<Rightarrow> objectAssociations \<Rightarrow> federationDDMState \<Rightarrow> federationDDMState" where
  "setObjectView ob v st =
     st\<lparr>objPubs := putInner ob (fst v) (objPubs st),
        inactivePubs := putInner ob (pruneCallers (snd v)) (inactivePubs st)\<rparr>"

definition changeAttributeRegions :: "associations \<Rightarrow> nat \<Rightarrow> nat list \<Rightarrow> associationMode \<Rightarrow> associations" where
  "changeAttributeRegions per a rhs mode =
     (if removing mode then putRows a (remainingRegions (rowsAt per a) rhs) per
      else if mode = associationReplace then putRows a rhs per
      else fmupd a (sortCompact (rowsAt per a @ rhs)) per)"

definition changeAttribute ::
  "handle \<Rightarrow> (nat, handle) fmap option \<Rightarrow> nat list \<Rightarrow> associationMode \<Rightarrow> nat \<Rightarrow> objectAssociations \<Rightarrow> objectAssociations" where
  "changeAttribute caller owners rhs mode a v =
     (case owners of
        Some os \<Rightarrow>
          if (case fmlookup os a of Some h \<Rightarrow> h | None \<Rightarrow> 0) \<noteq> caller
          then (fst v, fmupd caller (changeAttributeRegions (inner (snd v) caller) a rhs mode) (snd v))
          else (changeAttributeRegions (fst v) a rhs mode, snd v)
      | None \<Rightarrow> (changeAttributeRegions (fst v) a rhs mode, snd v))"

definition changeAssociationGroup ::
  "nat \<Rightarrow> handle \<Rightarrow> (nat, handle) fmap option \<Rightarrow> associationMode \<Rightarrow> AttributeRegionGroup \<Rightarrow> federationDDMState \<Rightarrow>
   federationDDMState" where
  "changeAssociationGroup ob caller owners mode g st =
     setObjectView ob (fold (changeAttribute caller owners (Regions g) mode) (Attributes g) (objectView st ob)) st"

text \<open>Whether the first region of an association belongs to the federate.\<close>

definition ledBy :: "(nat, regionState) fmap \<Rightarrow> handle \<Rightarrow> nat list \<Rightarrow> bool" where
  "ledBy rg h rhs \<longleftrightarrow> rhs \<noteq> [] \<and> (case fmlookup rg (hd rhs) of Some rs \<Rightarrow> owner rs = h | None \<Rightarrow> False)"

text \<open>Dropping a federate's own associations of one object, active and inactive.\<close>

definition forgetCaller :: "(nat, regionState) fmap \<Rightarrow> handle \<Rightarrow> objectAssociations \<Rightarrow> objectAssociations" where
  "forgetCaller rg h v = (fmfilter (\<lambda>a. \<not> ledBy rg h (rowsAt (fst v) a)) (fst v), fmdrop h (snd v))"

definition clearObjectAssociations :: "nat \<Rightarrow> handle \<Rightarrow> federationDDMState \<Rightarrow> federationDDMState" where
  "clearObjectAssociations ob caller st = setObjectView ob (forgetCaller (regions st) caller (objectView st ob)) st"

section \<open>Ownership\<close>

definition attributeOwnershipChange ::
  "(nat, handle) fmap \<Rightarrow> (nat, handle) fmap \<Rightarrow> nat \<Rightarrow> objectAssociations \<Rightarrow> objectAssociations" where
  "attributeOwnershipChange before after a v =
     (let previous = (case fmlookup before a of Some h \<Rightarrow> h | None \<Rightarrow> 0);
          next = (case fmlookup after a of Some h \<Rightarrow> h | None \<Rightarrow> 0) in
      if previous = next then v
      else
        let per = fmdrop a (fst v);
            callers = (if fmlookup (snd v) previous = None then snd v
                       else fmupd previous (fmdrop a (inner (snd v) previous)) (snd v)) in
        if next = 0 then (per, callers)
        else
          let waiting = inner callers next; rhs = rowsAt waiting a in
          if rhs = [] then (per, callers) else (fmupd a rhs per, fmupd next (fmdrop a waiting) callers))"

definition ownershipChange :: "(nat, handle) fmap \<Rightarrow> (nat, handle) fmap \<Rightarrow> objectAssociations \<Rightarrow> objectAssociations" where
  "ownershipChange before after v =
     fold (attributeOwnershipChange before after) (sorted_list_of_fset (fmdom before)) v"

definition applyOwnershipChange ::
  "nat \<Rightarrow> (nat, handle) fmap \<Rightarrow> (nat, handle) fmap \<Rightarrow> federationDDMState \<Rightarrow> federationDDMState" where
  "applyOwnershipChange ob before after st = setObjectView ob (ownershipChange before after (objectView st ob)) st"

text \<open>
  Applying an operation to the shadow when the projection is that of this federation state; \<open>which\<close>
  tells the objects it applies to (\<open>rollbackStateLocked\<close>).
\<close>

definition project ::
  "fed_name \<Rightarrow> nat \<Rightarrow> (nat \<Rightarrow> bool) \<Rightarrow> (objectAssociations \<Rightarrow> objectAssociations) \<Rightarrow> DDMManager \<Rightarrow> DDMManager" where
  "project f i which g m =
     (case associationRollback m of
        None \<Rightarrow> m
      | Some p \<Rightarrow>
          if pFed p = f \<and> pOrigin p = i \<and> which (pObject p)
          then m\<lparr>associationRollback := Some (p\<lparr>shadow := (let v = g (shadow p) in (fst v, pruneCallers (snd v)))\<rparr>)\<rparr>
          else m)"

definition OwnershipChanged ::
  "fed_name \<Rightarrow> nat \<Rightarrow> (nat, handle) fmap \<Rightarrow> (nat, handle) fmap \<Rightarrow> DDMManager \<Rightarrow> DDMManager" where
  "OwnershipChanged f ob before after m =
     (case fmlookup (fed m) f of
        None \<Rightarrow> m
      | Some st \<Rightarrow>
          project f (ident st) (\<lambda>o'. o' = ob) (ownershipChange before after)
            (setState f (applyOwnershipChange ob before after st) m))"

section \<open>Forgetting\<close>

text \<open>\<open>pruneConveyedRegion\<close> and \<open>releaseConveyedReceiver\<close>.\<close>

definition pruneConveyedRegion :: "nat \<Rightarrow> federationDDMState \<Rightarrow> federationDDMState" where
  "pruneConveyedRegion rh st =
     (if fmdom (inner (conveyedRecipients st) rh) = {||}
      then st\<lparr>conveyedRecipients := fmdrop rh (conveyedRecipients st), conveyed := fmdrop rh (conveyed st)\<rparr>
      else st)"

definition releaseRecipient :: "handle \<Rightarrow> nat \<Rightarrow> federationDDMState \<Rightarrow> federationDDMState" where
  "releaseRecipient h rh st =
     pruneConveyedRegion rh
       (case fmlookup (conveyedRecipients st) rh of
          None \<Rightarrow> st
        | Some rc \<Rightarrow> st\<lparr>conveyedRecipients := fmupd rh (fmdrop h rc) (conveyedRecipients st)\<rparr>)"

definition releaseConveyedReceiver :: "handle \<Rightarrow> federationDDMState \<Rightarrow> federationDDMState" where
  "releaseConveyedReceiver h st =
     fold (releaseRecipient h) (sorted_list_of_fset (fmdom (conveyedRecipients st))) st"

text \<open>\<open>forgetFederateAssociations\<close>: every object with an active or an inactive association.\<close>

definition forgetFederateAssociations :: "handle \<Rightarrow> federationDDMState \<Rightarrow> federationDDMState" where
  "forgetFederateAssociations h st =
     (let st = releaseConveyedReceiver h st in
      fold (\<lambda>ob. clearObjectAssociations ob h)
        (sorted_list_of_fset (fmdom (objPubs st) |\<union>| fmdom (inactivePubs st))) st)"

definition ForgetFederateAssociations :: "fed_name \<Rightarrow> handle \<Rightarrow> DDMManager \<Rightarrow> DDMManager" where
  "ForgetFederateAssociations f h m =
     (case fmlookup (fed m) f of
        None \<Rightarrow> m
      | Some st \<Rightarrow>
          project f (ident st) (\<lambda>_. True) (forgetCaller (regions st) h)
            (setState f (forgetFederateAssociations h st) m))"

definition ForgetObject :: "fed_name \<Rightarrow> nat \<Rightarrow> DDMManager \<Rightarrow> DDMManager" where
  "ForgetObject f ob m =
     (case fmlookup (fed m) f of
        None \<Rightarrow> m
      | Some st \<Rightarrow>
          project f (ident st) (\<lambda>o'. o' = ob) (\<lambda>_. (fmempty, fmempty))
            (setState f (st\<lparr>objPubs := fmdrop ob (objPubs st), inactivePubs := fmdrop ob (inactivePubs st)\<rparr>) m))"

definition forgetInactive :: "handle \<Rightarrow> objectAssociations \<Rightarrow> objectAssociations" where
  "forgetInactive h v = (fst v, fmdrop h (snd v))"

definition ForgetObjectFederateAssociations :: "fed_name \<Rightarrow> handle \<Rightarrow> nat \<Rightarrow> DDMManager \<Rightarrow> DDMManager" where
  "ForgetObjectFederateAssociations f h ob m =
     (case fmlookup (fed m) f of
        None \<Rightarrow> m
      | Some st \<Rightarrow>
          project f (ident st) (\<lambda>o'. o' = ob) (forgetInactive h)
            (setState f (st\<lparr>inactivePubs := putInner ob (pruneCallers (fmdrop h (inner (inactivePubs st) ob)))
               (inactivePubs st)\<rparr>) m))"

definition AssociationAttributes :: "fed_name \<Rightarrow> nat \<Rightarrow> DDMManager \<Rightarrow> nat list" where
  "AssociationAttributes f ob m =
     (case fmlookup (fed m) f of
        None \<Rightarrow> []
      | Some st \<Rightarrow>
          let (per, callers) = objectView st ob in
          sorted_list_of_fset (fmdom per |\<union>| ffUnion (fmdom |`| fmran callers)))"

section \<open>Resignation\<close>

text \<open>The regions that are left of a list, and the rows and associations that are left of a table.\<close>

definition keepRegions :: "(nat, regionState) fmap \<Rightarrow> nat list \<Rightarrow> nat list" where
  "keepRegions rg rhs = filter (\<lambda>r. fmlookup rg r \<noteq> None) rhs"

definition keepObjectRows :: "(nat, regionState) fmap \<Rightarrow> handle \<Rightarrow> subscription list \<Rightarrow> subscription list" where
  "keepObjectRows rg h rows =
     filter (\<lambda>r. sregions r \<noteq> []) (map (\<lambda>r. r\<lparr>sregions := keepRegions rg (sregions r)\<rparr>) (filter (\<lambda>r. subscriber r \<noteq> h) rows))"

definition keepInteractionRows ::
  "(nat, regionState) fmap \<Rightarrow> handle \<Rightarrow> interactionSubscription list \<Rightarrow> interactionSubscription list" where
  "keepInteractionRows rg h rows =
     filter (\<lambda>r. iregions r \<noteq> []) (map (\<lambda>r. r\<lparr>iregions := keepRegions rg (iregions r)\<rparr>) (filter (\<lambda>r. isubscriber r \<noteq> h) rows))"

text \<open>Applying a change to every list of a map; keys without entries are deleted.\<close>

definition mapRows :: "('a list \<Rightarrow> 'a list) \<Rightarrow> ('k, 'a list) fmap \<Rightarrow> ('k, 'a list) fmap" where
  "mapRows g m = (let m = fmmap g m in fmfilter (\<lambda>k. fmlookup m k \<noteq> Some []) m)"

definition removeFederateSubscriptions :: "handle \<Rightarrow> federationDDMState \<Rightarrow> federationDDMState" where
  "removeFederateSubscriptions h st =
     st\<lparr>objSubs := mapRows (keepObjectRows (regions st) h) (objSubs st),
        intSubs := mapRows (keepInteractionRows (regions st) h) (intSubs st)\<rparr>"

definition ownedRegions :: "handle \<Rightarrow> federationDDMState \<Rightarrow> nat list" where
  "ownedRegions h st = sorted_list_of_fset (ffilter (\<lambda>rh. owner (the (fmlookup (regions st) rh)) = h) (fmdom (regions st)))"

definition dropRegion :: "nat \<Rightarrow> federationDDMState \<Rightarrow> federationDDMState" where
  "dropRegion rh st = removeInactiveRegion rh (st\<lparr>regions := fmdrop rh (regions st)\<rparr>)"

definition dropCaller :: "handle \<Rightarrow> federationDDMState \<Rightarrow> federationDDMState" where
  "dropCaller h st =
     (let m = fmmap (\<lambda>callers. pruneCallers (fmdrop h callers)) (inactivePubs st) in
      st\<lparr>inactivePubs := fmfilter (\<lambda>ob. fmdom (inner m ob) \<noteq> {||}) m\<rparr>)"

definition keepAssociations :: "federationDDMState \<Rightarrow> federationDDMState" where
  "keepAssociations st =
     (let m = fmmap (mapRows (keepRegions (regions st))) (objPubs st) in
      st\<lparr>objPubs := fmfilter (\<lambda>ob. fmdom (inner m ob) \<noteq> {||}) m\<rparr>)"

definition removeFederateState :: "handle \<Rightarrow> federationDDMState \<Rightarrow> federationDDMState" where
  "removeFederateState h st =
     (let st = releaseConveyedReceiver h st in
      keepAssociations (removeFederateSubscriptions h (dropCaller h (fold dropRegion (ownedRegions h st) st))))"

definition notifyRegionStateChanged :: "DDMOptions \<Rightarrow> fed_name \<Rightarrow> DDMManager \<Rightarrow> DDMManager" where
  "notifyRegionStateChanged opt f m = (if onRegionStateChanged opt then m\<lparr>notices := notices m @ [RegionStateChanged f]\<rparr> else m)"

text \<open>The mandatory notification's answer is ignored.\<close>

definition OnDDMFederateResign :: "DDMOptions \<Rightarrow> fed_name \<Rightarrow> handle \<Rightarrow> DDMManager \<Rightarrow> DDMManager" where
  "OnDDMFederateResign opt f h m =
     notifyRegionStateChanged opt f
       (case fmlookup (fed m) f of None \<Rightarrow> m | Some st \<Rightarrow> setState f (removeFederateState h st) m)"

section \<open>Changing associations\<close>

definition bindingGroups :: "associations \<Rightarrow> AttributeRegionGroup list" where
  "bindingGroups bindings =
     map (\<lambda>a. \<lparr>Attributes = [a], Regions = rowsAt bindings a\<rparr>) (sorted_list_of_fset (fmdom bindings))"

text \<open>The loop of \<open>mapAssociationGroups\<close> over the pairs of requested and actual attributes.\<close>

fun mapAttributes :: "(nat \<times> nat) list \<Rightarrow> (nat, nat) fmap \<Rightarrow> (nat, nat) fmap \<Rightarrow> ddm_error + (nat, nat) fmap" where
  "mapAttributes [] mapped back = Inr mapped"
| "mapAttributes ((a, act) # rest) mapped back =
     (if act = 0 then Inl (ErrMapping ''invalid'')
      else if (case fmlookup back act of Some prev \<Rightarrow> prev \<noteq> a | None \<Rightarrow> False) then Inl (ErrMapping ''ambiguous'')
      else mapAttributes rest (fmupd a act mapped) (fmupd act a back))"

definition mapAssociationGroups ::
  "AttributeRegionGroup list \<Rightarrow> nat list \<Rightarrow> nat list \<Rightarrow> ddm_error + AttributeRegionGroup list" where
  "mapAssociationGroups groups attrs actual =
     (if length attrs \<noteq> length actual then Inl (ErrMapping ''length mismatch'')
      else bindR (mapAttributes (zip attrs actual) fmempty fmempty) (\<lambda>mapped.
        Inr (map (\<lambda>g. g\<lparr>Attributes := map (\<lambda>a. case fmlookup mapped a of Some x \<Rightarrow> x | None \<Rightarrow> 0) (Attributes g)\<rparr>) groups)))"

definition associatedAttributes :: "AttributeRegionGroup list \<Rightarrow> nat list" where
  "associatedAttributes groups = groupAttributes (filter (\<lambda>g. Regions g \<noteq> []) groups)"

definition prepareAssociationGroups ::
  "DDMOptions \<Rightarrow> fed_name \<Rightarrow> handle \<Rightarrow> nat \<Rightarrow> AttributeRegionGroup list \<Rightarrow> bool \<Rightarrow>
   ddm_error + AttributeRegionGroup list \<times> (nat, handle) fmap option \<times> (nat, nat list) fmap" where
  "prepareAssociationGroups opt f caller ob groups rem =
     (case PrepareKnownAssociation opt of
        Some prepare \<Rightarrow>
          bindR (prepare f caller ob (groupAttributes groups)) (\<lambda>(cls, actual, owners, release).
            if \<not> release then Inl (ErrMapping ''no release'')
            else bindR (mapAssociationGroups groups (groupAttributes groups) actual) (\<lambda>result.
              bindR (objectContext opt f cls actual) (\<lambda>required. Inr (result, owners, required))))
      | None \<Rightarrow>
          (case PrepareRegionAssociation opt of
             None \<Rightarrow> Inr (groups, None, fmempty)
           | Some prepare \<Rightarrow>
               bindR (prepare f caller ob (if rem then [] else associatedAttributes groups)) (\<lambda>(cls, release).
                 if \<not> release then Inl (ErrMapping ''no release'')
                 else bindR (objectContext opt f cls (groupAttributes groups)) (\<lambda>required.
                   Inr (groups, None, required)))))"

definition skipped :: "associationMode \<Rightarrow> AttributeRegionGroup \<Rightarrow> bool" where
  "skipped mode g \<longleftrightarrow> Attributes g = [] \<or>
     Regions g = [] \<and> mode \<noteq> associationReplace \<and> mode \<noteq> associationLegacyRemove"

definition awaitAssociation :: "fed_name \<Rightarrow> nat \<Rightarrow> bool \<Rightarrow> federationDDMState \<Rightarrow> federationDDMState \<Rightarrow> DDMManager \<Rightarrow> DDMManager" where
  "awaitAssociation f ob changed st st' m =
     await (AssociationAdmission f (ident st) ob changed)
       ((setState f st' m)\<lparr>associationRollback :=
          (if changed then Some \<lparr>pFed = f, pObject = ob, pOrigin = ident st, shadow = objectView st ob\<rparr> else None)\<rparr>)"

definition changeAssociationGroupsMode ::
  "DDMOptions \<Rightarrow> fed_name \<Rightarrow> handle \<Rightarrow> nat \<Rightarrow> AttributeRegionGroup list \<Rightarrow> associationMode \<Rightarrow> DDMManager \<Rightarrow>
   ddm_error option \<times> DDMManager" where
  "changeAssociationGroupsMode opt f caller ob requested mode m =
     (case prepareAssociationGroups opt f caller ob requested (removing mode) of
        Inl e \<Rightarrow> (Some e, m)
      | Inr (groups, owners, context) \<Rightarrow>
          let (st, m) = stateForLocked opt f m; required = (if removing mode then fmempty else context) in
          (case validateGroups st caller groups required of
             Some e \<Rightarrow> (Some e, m)
           | None \<Rightarrow>
               (case ctxErr opt 0 of
                  Some e \<Rightarrow> (Some e, m)
                | None \<Rightarrow>
                    if groups = [] \<and> (mode = associationReplace \<or> mode = associationLegacyRemove)
                    then (None, awaitAssociation f ob True st (clearObjectAssociations ob caller st) m)
                    else
                      let work = filter (\<lambda>g. \<not> skipped mode g) groups in
                      (None, awaitAssociation f ob (work \<noteq> []) st (fold (changeAssociationGroup ob caller owners mode) work st) m))))"

definition AssociateRegionGroupsForUpdates ::
  "DDMOptions \<Rightarrow> fed_name \<Rightarrow> handle \<Rightarrow> nat \<Rightarrow> AttributeRegionGroup list \<Rightarrow> DDMManager \<Rightarrow> ddm_error option \<times> DDMManager" where
  "AssociateRegionGroupsForUpdates opt f caller ob groups m = changeAssociationGroupsMode opt f caller ob groups associationAdd m"

definition UnassociateRegionGroupsForUpdates ::
  "DDMOptions \<Rightarrow> fed_name \<Rightarrow> handle \<Rightarrow> nat \<Rightarrow> AttributeRegionGroup list \<Rightarrow> DDMManager \<Rightarrow> ddm_error option \<times> DDMManager" where
  "UnassociateRegionGroupsForUpdates opt f caller ob groups m = changeAssociationGroupsMode opt f caller ob groups associationRemove m"

definition AssociateRegionsWithObjectInstance ::
  "DDMOptions \<Rightarrow> fed_name \<Rightarrow> handle \<Rightarrow> nat \<Rightarrow> associations \<Rightarrow> DDMManager \<Rightarrow> ddm_error option \<times> DDMManager" where
  "AssociateRegionsWithObjectInstance opt f ow ob bindings m =
     changeAssociationGroupsMode opt f ow ob (bindingGroups bindings) associationReplace m"

definition UnassociateRegionsForUpdates ::
  "DDMOptions \<Rightarrow> fed_name \<Rightarrow> handle \<Rightarrow> nat \<Rightarrow> associations \<Rightarrow> DDMManager \<Rightarrow> ddm_error option \<times> DDMManager" where
  "UnassociateRegionsForUpdates opt f ow ob bindings m =
     changeAssociationGroupsMode opt f ow ob (bindingGroups bindings) associationLegacyRemove m"

definition AssociateRegionsForUpdates ::
  "DDMOptions \<Rightarrow> fed_name \<Rightarrow> handle \<Rightarrow> nat \<Rightarrow> associations \<Rightarrow> DDMManager \<Rightarrow> ddm_error option \<times> DDMManager" where
  "AssociateRegionsForUpdates opt f ow ob bindings m =
     AssociateRegionGroupsForUpdates opt f ow ob (bindingGroups bindings) m"

definition RegisterObjectInstanceWithRegions ::
  "DDMOptions \<Rightarrow> fed_name \<Rightarrow> handle \<Rightarrow> nat \<Rightarrow> associations \<Rightarrow> DDMManager \<Rightarrow> ddm_error option \<times> DDMManager" where
  "RegisterObjectInstanceWithRegions opt f ow ob bindings m = AssociateRegionsWithObjectInstance opt f ow ob bindings m"

section \<open>Registration\<close>

fun registrationDimensions ::
  "(nat \<Rightarrow> nat \<Rightarrow> nat list option) option \<Rightarrow> nat \<Rightarrow> nat list \<Rightarrow> (nat, nat list) fmap \<Rightarrow> ddm_error + (nat, nat list) fmap" where
  "registrationDimensions adims cls [] required = Inr required"
| "registrationDimensions adims cls (a # as) required =
     (case (case adims of Some g \<Rightarrow> g cls a | None \<Rightarrow> None) of
        None \<Rightarrow> Inl ErrAttributeNotFound
      | Some ds \<Rightarrow>
          if a = 0 then Inl ErrAttributeNotFound
          else registrationDimensions adims cls as (fmupd a (dimensionSet ds) required))"

definition bindGroup :: "AttributeRegionGroup \<Rightarrow> associations \<Rightarrow> associations" where
  "bindGroup g per = fold (\<lambda>a per. fmupd a (rowsAt per a @ Regions g) per) (if Regions g = [] then [] else Attributes g) per"

definition copyRegistrationGroups :: "AttributeRegionGroup list \<Rightarrow> bool \<Rightarrow> ddm_error + associations" where
  "copyRegistrationGroups groups allowEmpty =
     (if \<not> allowEmpty \<and> list_ex (\<lambda>g. Regions g = [] \<and> Attributes g \<noteq> []) groups then Inl ErrInvalidRegionContext
      else Inr (fmmap sortCompact (fold bindGroup groups fmempty)))"

text \<open>
  \<open>prepareObjectRegistration\<close> with its lease: the state lock is held from the validation to the
  release, so preparation, commit and release are one step.  \<open>ob\<close> is the object the lease is committed
  for, and \<open>None\<close> when it is released without a commit.
\<close>

definition prepareObjectRegistration ::
  "DDMOptions \<Rightarrow> fed_name \<Rightarrow> handle \<Rightarrow> nat \<Rightarrow> AttributeRegionGroup list \<Rightarrow> bool \<Rightarrow> nat option \<Rightarrow> DDMManager \<Rightarrow>
   ddm_error option \<times> DDMManager" where
  "prepareObjectRegistration opt f ow cls groups allowEmpty ob m =
     (case ctxErr opt 0 of
        Some e \<Rightarrow> (Some e, m)
      | None \<Rightarrow>
     (case FOMs opt f of
        Inl e \<Rightarrow> (Some e, m)
      | Inr h \<Rightarrow>
          if \<not> IsValid h then (Some ErrInvalidRegionContext, m)
          else if (case ObjectClassName h of Some names \<Rightarrow> names cls = None | None \<Rightarrow> False) then (Some ErrObjectClassNotFound, m)
          else if AttributeDimensions h = None \<and> (groupAttributes groups \<noteq> [] \<or> \<not> allowEmpty)
          then (Some ErrInvalidRegionContext, m)
          else
            (case registrationDimensions (AttributeDimensions h) cls (groupAttributes groups) fmempty of
               Inl e \<Rightarrow> (Some e, m)
             | Inr required \<Rightarrow>
                 (case copyRegistrationGroups groups allowEmpty of
                    Inl e \<Rightarrow> (Some e, m)
                  | Inr bindings \<Rightarrow>
                      (case ctxErr opt 1 of
                         Some e \<Rightarrow> (Some e, m)
                       | None \<Rightarrow>
                           let st = (case fmlookup (fed m) f of
                                 Some st \<Rightarrow> st
                               | None \<Rightarrow> (case Dimensions h of
                                     Some ds \<Rightarrow> populateFromFOM ds (newFederationDDMState (allocated m))
                                   | None \<Rightarrow> newFederationDDMState (allocated m)))
                           in (case validateGroups st ow groups required of
                                 Some e \<Rightarrow> (Some e, m)
                               | None \<Rightarrow>
                                   (case ob of
                                      None \<Rightarrow> (None, m)
                                    | Some ob \<Rightarrow>
                                        if fmdom bindings = {||} then (None, m)
                                        else (None, setState f (st\<lparr>objPubs := fmupd ob bindings (objPubs st)\<rparr>)
                                          (m\<lparr>allocated := allocated m + 1\<rparr>)))))))))"

definition PrepareObjectRegistration ::
  "DDMOptions \<Rightarrow> fed_name \<Rightarrow> handle \<Rightarrow> nat \<Rightarrow> associations \<Rightarrow> nat option \<Rightarrow> DDMManager \<Rightarrow> ddm_error option \<times> DDMManager" where
  "PrepareObjectRegistration opt f ow cls bindings ob m =
     prepareObjectRegistration opt f ow cls (bindingGroups bindings) False ob m"

definition PrepareObjectRegistrationGroups ::
  "DDMOptions \<Rightarrow> fed_name \<Rightarrow> handle \<Rightarrow> nat \<Rightarrow> AttributeRegionGroup list \<Rightarrow> nat option \<Rightarrow> DDMManager \<Rightarrow>
   ddm_error option \<times> DDMManager" where
  "PrepareObjectRegistrationGroups opt f ow cls groups ob m = prepareObjectRegistration opt f ow cls groups True ob m"

section \<open>Admission\<close>

text \<open>Undoing a change in the state it was made in; another state of that name is left alone.\<close>

definition undoIn :: "fed_name \<Rightarrow> nat \<Rightarrow> (federationDDMState \<Rightarrow> federationDDMState) \<Rightarrow> DDMManager \<Rightarrow> DDMManager" where
  "undoIn f i g m =
     (case fmlookup (fed m) f of
        None \<Rightarrow> m
      | Some st \<Rightarrow> if ident st = i then setState f (g st) m else m)"

definition restoreAssociations :: "nat \<Rightarrow> objectAssociations \<Rightarrow> federationDDMState \<Rightarrow> federationDDMState" where
  "restoreAssociations ob v st =
     st\<lparr>objPubs := putInner ob (fst v) (objPubs st), inactivePubs := putInner ob (snd v) (inactivePubs st)\<rparr>"

definition rollbackAssociation :: "fed_name \<Rightarrow> nat \<Rightarrow> nat \<Rightarrow> DDMManager \<Rightarrow> DDMManager" where
  "rollbackAssociation f i ob m =
     (case associationRollback m of
        None \<Rightarrow> m
      | Some p \<Rightarrow> undoIn f i (restoreAssociations ob (shadow p)) m)"

text \<open>\<open>finishRateMutation\<close>, followed by the observer of region changes.\<close>

definition finishRateMutation :: "DDMOptions \<Rightarrow> fed_name \<Rightarrow> bool \<Rightarrow> (DDMManager \<Rightarrow> DDMManager) \<Rightarrow> DDMManager \<Rightarrow> ddm_error option \<times> DDMManager" where
  "finishRateMutation opt f changed undo m =
     (case (if changed then (case onRateDemandChanged opt of None \<Rightarrow> None | Some hook \<Rightarrow> hook f False) else None) of
        Some e \<Rightarrow> (Some e, (undo m)\<lparr>associationRollback := None\<rparr>)
      | None \<Rightarrow> (None, notifyRegionStateChanged opt f (m\<lparr>associationRollback := None\<rparr>)))"

definition notifyObjectSubscribed :: "DDMOptions \<Rightarrow> fed_name \<Rightarrow> handle \<Rightarrow> nat \<Rightarrow> nat list \<Rightarrow> DDMManager \<Rightarrow> DDMManager" where
  "notifyObjectSubscribed opt f sub cls attrs m =
     (if attrs = [] \<or> \<not> OnObjectSubscribed opt then m
      else m\<lparr>notices := notices m @ [ObjectSubscribed f sub cls (sortCompact attrs)]\<rparr>)"

text \<open>The second step of a service: the hook's answer, and the undo when it refuses.\<close>

definition finish :: "DDMOptions \<Rightarrow> DDMManager \<Rightarrow> ddm_error option \<times> DDMManager" where
  "finish opt m0 =
     (let m = m0\<lparr>inflight := None\<rparr> in
      case inflight m0 of
        None \<Rightarrow> (None, m)
      | Some (RegionAdmission f i saved) \<Rightarrow> finishRateMutation opt f True (undoIn f i (restoreRegions saved)) m
      | Some (AssociationAdmission f i ob changed) \<Rightarrow> finishRateMutation opt f changed (rollbackAssociation f i ob) m
      | Some (ObjectAdmission f i sub cls saved subscribed asks) \<Rightarrow>
          (case (if asks then objectInterest opt f sub cls m else None) of
             Some e \<Rightarrow> (Some e, case saved of None \<Rightarrow> m | Some rows \<Rightarrow> undoIn f i (restoreObjectRows sub cls rows) m)
           | None \<Rightarrow> (None, notifyObjectSubscribed opt f sub cls subscribed m))
      | Some (InteractionAdmission f i sub cls saved) \<Rightarrow>
          (case interactionInterest opt f sub cls m of
             Some e \<Rightarrow> (Some e, case saved of None \<Rightarrow> m | Some rows \<Rightarrow> undoIn f i (restoreInteractionRows sub cls rows) m)
           | None \<Rightarrow> (None, m)))"

text \<open>A service without interference: its change, and its admission if the change was made.\<close>

definition run :: "DDMOptions \<Rightarrow> (DDMManager \<Rightarrow> ddm_error option \<times> DDMManager) \<Rightarrow> DDMManager \<Rightarrow> ddm_error option \<times> DDMManager" where
  "run opt service m = (case service m of (Some e, m) \<Rightarrow> (Some e, m) | (None, m) \<Rightarrow> finish opt m)"

end
