(* ===== verification/DDM_Routing.thy ===== *)
theory DDM_Routing
  imports DDM_Assoc "HOL-Library.Sublist"
begin

text \<open>
  Routing by regions: who receives an update or an interaction (\<open>manager.go\<close>, \<open>operations.go\<close>,
  \<open>point_routing.go\<close>, \<open>default_interaction.go\<close>), and the copies of region realizations that are
  conveyed with a delivery (\<open>conveyed_regions.go\<close>, \<open>conveyed_lifecycle.go\<close>,
  \<open>core/region_realization.go\<close>).
\<close>

section \<open>Receivers of updates\<close>

text \<open>A nil result, which sends the caller to the ordinary subscriptions, is \<open>None\<close>.\<close>

definition PublisherRegionsFor :: "fed_name \<Rightarrow> nat \<Rightarrow> nat \<Rightarrow> DDMManager \<Rightarrow> nat list option" where
  "PublisherRegionsFor f ob a m =
     (case fmlookup (fed m) f of None \<Rightarrow> None | Some st \<Rightarrow> fmlookup (inner (objPubs st) ob) a)"

definition HasObjectAssociations :: "fed_name \<Rightarrow> nat \<Rightarrow> DDMManager \<Rightarrow> bool" where
  "HasObjectAssociations f ob m \<longleftrightarrow>
     (case fmlookup (fed m) f of None \<Rightarrow> False | Some st \<Rightarrow> fmlookup (objPubs st) ob \<noteq> None)"

definition matchingSubscribers :: "federationDDMState \<Rightarrow> nat \<Rightarrow> nat \<Rightarrow> regionBounds list \<Rightarrow> handle list" where
  "matchingSubscribers st cls a pub =
     sortCompact (map subscriber
       (filter (\<lambda>s. regionsOverlap pub (objectRealizations st cls a (sregions s))) (rowsAt (objSubs st) (cls, a))))"

definition SubscribersForUpdate :: "fed_name \<Rightarrow> nat \<Rightarrow> nat \<Rightarrow> nat list \<Rightarrow> DDMManager \<Rightarrow> handle list option" where
  "SubscribersForUpdate f cls a rhs m =
     (if rhs = [] then None
      else case fmlookup (fed m) f of
        None \<Rightarrow> Some []
      | Some st \<Rightarrow> Some (matchingSubscribers st cls a (objectRealizations st cls a rhs)))"

definition RegionSubscribersFor :: "fed_name \<Rightarrow> nat \<Rightarrow> nat \<Rightarrow> DDMManager \<Rightarrow> handle list option" where
  "RegionSubscribersFor f cls a m =
     (case fmlookup (fed m) f of
        None \<Rightarrow> None
      | Some st \<Rightarrow>
          if rowsAt (objSubs st) (cls, a) = [] then None
          else Some (sortCompact (map subscriber
            (filter (\<lambda>s. overlapsDefault (objectRealizations st cls a (sregions s))) (rowsAt (objSubs st) (cls, a))))))"

definition PublisherRegionsOverlapDefaultRegion ::
  "DDMOptions \<Rightarrow> fed_name \<Rightarrow> nat \<Rightarrow> nat \<Rightarrow> nat list \<Rightarrow> DDMManager \<Rightarrow> bool \<times> DDMManager" where
  "PublisherRegionsOverlapDefaultRegion opt f cls a rhs m =
     (if rhs = [] then (True, m)
      else case fmlookup (fed m) f of
        None \<Rightarrow> (False, m)
      | Some st \<Rightarrow>
          let st = refreshFOMDimensions opt f st in (overlapsDefault (objectRealizations st cls a rhs), setState f st m))"

definition subscriptionContainsPoint :: "federationDDMState \<Rightarrow> subscription \<Rightarrow> nat \<Rightarrow> nat \<Rightarrow> nat \<Rightarrow> nat \<Rightarrow> bool" where
  "subscriptionContainsPoint st row cls a d point \<longleftrightarrow>
     list_ex (\<lambda>rh.
       case fmlookup (regions st) rh of
         None \<Rightarrow> False
       | Some rs \<Rightarrow>
           \<not> template rs \<and> owner rs = subscriber row \<and>
           (let bs = objectRealizations st cls a [rh] in
            overlapsDefault bs \<and> length bs = 1 \<and>
            (case fmlookup (hd bs) d of Some b \<Rightarrow> Lower b \<le> point \<and> point < Upper b | None \<Rightarrow> False))) (sregions row)"

definition SubscribersForObjectAttributePoint ::
  "DDMOptions \<Rightarrow> fed_name \<Rightarrow> nat \<Rightarrow> nat \<Rightarrow> nat \<Rightarrow> nat \<Rightarrow> DDMManager \<Rightarrow> (ddm_error + handle list) \<times> DDMManager" where
  "SubscribersForObjectAttributePoint opt f cls a d point m =
     (case FOMs opt f of
        Inl e \<Rightarrow> (Inl e, m)
      | Inr _ \<Rightarrow>
          let (st, m) = stateForLocked opt f m in
          (case (case AttributeDimensions (fom st) of
                   None \<Rightarrow> None
                 | Some adims \<Rightarrow>
                     (case adims cls a of
                        None \<Rightarrow> Some ErrAttributeNotFound
                      | Some available \<Rightarrow> if d \<in> set available then None else Some ErrInvalidRegionContext)) of
             Some e \<Rightarrow> (Inl e, m)
           | None \<Rightarrow>
               (case fmlookup (dimUpperBound st) d of
                  None \<Rightarrow> (Inl ErrDimensionNotFound, m)
                | Some upper \<Rightarrow>
                    if upper \<le> point then (Inr [], m)
                    else (Inr (sortCompact (map subscriber
                      (filter (\<lambda>row. subscriptionContainsPoint st row cls a d point) (rowsAt (objSubs st) (cls, a))))), m))))"

section \<open>Receivers of interactions\<close>

text \<open>Whether a subscription to one class covers a sent class: the same class, or a named superclass.\<close>

definition covers :: "FOMHandle \<Rightarrow> nat \<Rightarrow> nat \<Rightarrow> bool" where
  "covers h cls subscribed \<longleftrightarrow>
     subscribed = cls \<or>
     (case InteractionClassName h of
        None \<Rightarrow> False
      | Some names \<Rightarrow>
          (case names subscribed of
             None \<Rightarrow> False
           | Some name \<Rightarrow> prefix (name @ ''.'') (case names cls of Some sent \<Rightarrow> sent | None \<Rightarrow> '''')))"

definition coveredSubscribers ::
  "federationDDMState \<Rightarrow> FOMHandle \<Rightarrow> nat \<Rightarrow> (regionBounds list \<Rightarrow> bool) \<Rightarrow> handle list" where
  "coveredSubscribers st h cls hit =
     sorted_list_of_fset (ffUnion ((\<lambda>c.
         fset_of_list (map isubscriber (filter (\<lambda>r. hit (interactionRealizations st c (iregions r))) (rowsAt (intSubs st) c))))
       |`| ffilter (covers h cls) (fmdom (intSubs st))))"

definition interactionSnapshotSubscribers :: "federationDDMState \<Rightarrow> FOMHandle \<Rightarrow> nat \<Rightarrow> regionBounds list \<Rightarrow> handle list" where
  "interactionSnapshotSubscribers st h cls pub = coveredSubscribers st h cls (regionsOverlap pub)"

definition InteractionSubscribersForSend :: "fed_name \<Rightarrow> nat \<Rightarrow> nat list \<Rightarrow> DDMManager \<Rightarrow> handle list option" where
  "InteractionSubscribersForSend f cls rhs m =
     (if rhs = [] then None
      else case fmlookup (fed m) f of
        None \<Rightarrow> Some []
      | Some st \<Rightarrow>
          Some (sortCompact (map isubscriber
            (filter (\<lambda>s. regionsOverlap (interactionRealizations st cls rhs) (interactionRealizations st cls (iregions s)))
              (rowsAt (intSubs st) cls)))))"

definition realizeIn :: "federationDDMState \<Rightarrow> nat list \<Rightarrow> nat list option \<Rightarrow> regionBounds list" where
  "realizeIn st rhs available = (case available of Some ds \<Rightarrow> realize st rhs ds True | None \<Rightarrow> realize st rhs [] False)"

definition InteractionSubscribersWithRegions ::
  "DDMOptions \<Rightarrow> fed_name \<Rightarrow> handle \<Rightarrow> nat \<Rightarrow> nat list \<Rightarrow> DDMManager \<Rightarrow> ddm_error + handle list" where
  "InteractionSubscribersWithRegions opt f caller cls rhs m =
     bindR (interactionContext opt f cls) (\<lambda>available.
       if rhs = [] then Inl ErrInvalidRegionContext
       else bindR (FOMs opt f) (\<lambda>h.
         case fmlookup (fed m) f of
           None \<Rightarrow> Inl ErrRegionNotFound
         | Some st \<Rightarrow>
             (case validateRegions st caller rhs available of
                Some e \<Rightarrow> Inl e
              | None \<Rightarrow> Inr (coveredSubscribers st h cls (regionsOverlap (realizeIn st rhs available))))))"

definition InteractionSubscribersForDefaultRegion :: "DDMOptions \<Rightarrow> fed_name \<Rightarrow> nat \<Rightarrow> DDMManager \<Rightarrow> handle list option" where
  "InteractionSubscribersForDefaultRegion opt f cls m =
     (case fmlookup (fed m) f of
        None \<Rightarrow> None
      | Some st \<Rightarrow>
          if fmdom (intSubs st) = {||} then None
          else case FOMs opt f of
            Inl _ \<Rightarrow> None
          | Inr h \<Rightarrow> Some (coveredSubscribers st h cls overlapsDefault))"

definition InteractionRegionsOverlapDefaultRegion ::
  "DDMOptions \<Rightarrow> fed_name \<Rightarrow> nat \<Rightarrow> nat list \<Rightarrow> DDMManager \<Rightarrow> bool \<times> DDMManager" where
  "InteractionRegionsOverlapDefaultRegion opt f cls rhs m =
     (case fmlookup (fed m) f of
        None \<Rightarrow> (False, m)
      | Some st \<Rightarrow>
          let st = refreshFOMDimensions opt f st in (overlapsDefault (interactionRealizations st cls rhs), setState f st m))"

section \<open>Requests for updates\<close>

text \<open>
  The queries of a request for attribute values and their test against an object's attribute.  The
  grouped and the plain request share the representation; a plain request asks for the attribute
  it tests.
\<close>

record groupedUpdateRequest =
  gcls :: nat
  gstate :: federationDDMState
  queries :: "(nat, regionBounds list) fmap"

definition addQuery :: "federationDDMState \<Rightarrow> (nat, nat list) fmap \<Rightarrow> nat list \<Rightarrow> nat \<Rightarrow> (nat, regionBounds list) fmap \<Rightarrow> (nat, regionBounds list) fmap" where
  "addQuery st required rhs a qs = fmupd a (rowsAt qs a @ realizeIn st rhs (fmlookup required a)) qs"

definition PrepareRegionUpdateGroups ::
  "DDMOptions \<Rightarrow> fed_name \<Rightarrow> handle \<Rightarrow> nat \<Rightarrow> AttributeRegionGroup list \<Rightarrow> DDMManager \<Rightarrow> ddm_error + groupedUpdateRequest" where
  "PrepareRegionUpdateGroups opt f caller cls groups m =
     bindR (objectContext opt f cls (groupAttributes groups)) (\<lambda>required.
       let st = (case fmlookup (fed m) f of Some st \<Rightarrow> st | None \<Rightarrow> newFederationDDMState (allocated m)) in
       case validateGroups st caller groups required of
         Some e \<Rightarrow> Inl e
       | None \<Rightarrow>
           Inr \<lparr>gcls = cls, gstate = st,
                queries = fold (\<lambda>g. fold (addQuery st required (Regions g)) (Attributes g)) groups fmempty\<rparr>)"

definition groupedUpdateRequest_Matches :: "groupedUpdateRequest \<Rightarrow> nat \<Rightarrow> nat \<Rightarrow> nat \<Rightarrow> bool" where
  "groupedUpdateRequest_Matches r ob requested actual \<longleftrightarrow>
     (let query = rowsAt (queries r) requested; rhs = rowsAt (inner (objPubs (gstate r)) ob) actual in
      query \<noteq> [] \<and>
      (if rhs = [] then overlapsDefault query
       else regionsOverlap query (objectRealizations (gstate r) (gcls r) actual rhs)))"

definition PrepareRegionUpdateRequest ::
  "DDMOptions \<Rightarrow> fed_name \<Rightarrow> handle \<Rightarrow> nat \<Rightarrow> nat list \<Rightarrow> nat list \<Rightarrow> DDMManager \<Rightarrow> ddm_error + groupedUpdateRequest" where
  "PrepareRegionUpdateRequest opt f caller cls attrs rhs m =
     bindR (objectContext opt f cls attrs) (\<lambda>required.
       if rhs = [] then Inl ErrInvalidRegionContext
       else case fmlookup (fed m) f of
         None \<Rightarrow> Inl ErrRegionNotFound
       | Some st \<Rightarrow>
           (case validateObjectRegions st caller attrs rhs required of
              Some e \<Rightarrow> Inl e
            | None \<Rightarrow>
                Inr \<lparr>gcls = cls, gstate = st,
                     queries = fold (\<lambda>a. fmupd a (realizeIn st rhs (fmlookup required a))) attrs fmempty\<rparr>))"

definition regionUpdateRequest_Matches :: "groupedUpdateRequest \<Rightarrow> nat \<Rightarrow> nat \<Rightarrow> bool" where
  "regionUpdateRequest_Matches r ob a \<longleftrightarrow>
     (let query = rowsAt (queries r) a; rhs = rowsAt (inner (objPubs (gstate r)) ob) a in
      if rhs = [] then overlapsDefault query
      else regionsOverlap query (objectRealizations (gstate r) (gcls r) a rhs))"

section \<open>Conveyed regions\<close>

record ConveyedRegionCopy =
  Designator :: nat
  Realization :: RegionRealizationSnapshot

fun rangeError :: "nat option \<Rightarrow> (nat \<times> DDMRange) list \<Rightarrow> ddm_error option" where
  "rangeError prev [] = None"
| "rangeError prev ((d, r) # rest) =
     (if d = 0 \<or> prev = Some d then Some ErrRealization
      else if Upper r < Lower r then Some ErrInvalidRangeBounds
      else rangeError (Some d) rest)"

definition NewRegionRealizationSnapshot :: "nat \<Rightarrow> (nat \<times> DDMRange) list \<Rightarrow> ddm_error + RegionRealizationSnapshot" where
  "NewRegionRealizationSnapshot src rngs =
     (if src = 0 then Inl ErrRegionNotFound
      else case rangeError None (sort_key fst rngs) of
        Some e \<Rightarrow> Inl e
      | None \<Rightarrow> Inr \<lparr>source = src, ranges = sort_key fst rngs\<rparr>)"

text \<open>The copy of one region; \<open>rz\<close> is the contextual realization.\<close>

definition captureOne :: "(nat \<Rightarrow> regionBounds list) \<Rightarrow> nat \<Rightarrow> ddm_error + RegionRealizationSnapshot" where
  "captureOne rz rh =
     (let bs = rz rh in
      if length bs \<noteq> 1 then Inl ErrRegionNotFound
      else NewRegionRealizationSnapshot rh
        (map (\<lambda>d. (d, the (fmlookup (hd bs) d))) (sorted_list_of_fset (fmdom (hd bs)))))"

fun captureAll :: "(nat \<Rightarrow> regionBounds list) \<Rightarrow> nat \<Rightarrow> nat list \<Rightarrow> ddm_error + ConveyedRegionCopy list" where
  "captureAll rz n [] = Inr []"
| "captureAll rz n (rh # rhs) =
     bindR (captureOne rz rh) (\<lambda>snap.
       bindR (captureAll rz (n + 1) rhs) (\<lambda>cs. Inr (\<lparr>Designator = n + 1, Realization = snap\<rparr> # cs)))"

definition captureRealizations ::
  "federationDDMState \<Rightarrow> nat list \<Rightarrow> (nat \<Rightarrow> regionBounds list) \<Rightarrow> ddm_error + ConveyedRegionCopy list \<times> federationDDMState" where
  "captureRealizations st rhs rz =
     (let rhs = sortCompact rhs in
      if rhs \<noteq> [] \<and> int (length rhs) > 2 ^ 64 - 1 - int (nextRegionHandle st) then Inl ErrNamespaceExhausted
      else bindR (captureAll rz (nextRegionHandle st) rhs) (\<lambda>cs.
        Inr (cs, st\<lparr>nextRegionHandle := nextRegionHandle st + length cs\<rparr>)))"

definition portableBounds :: "RegionRealizationSnapshot \<Rightarrow> regionBounds" where
  "portableBounds snap = fmap_of_list (rev (ranges snap))"

definition portableRealizations :: "ConveyedRegionCopy list \<Rightarrow> regionBounds list" where
  "portableRealizations cs = map (\<lambda>c. portableBounds (Realization c)) cs"

definition InteractionDeliverySnapshot ::
  "DDMOptions \<Rightarrow> fed_name \<Rightarrow> handle \<Rightarrow> nat \<Rightarrow> nat list \<Rightarrow> DDMManager \<Rightarrow>
   (ddm_error + handle list \<times> ConveyedRegionCopy list \<times> bool) \<times> DDMManager" where
  "InteractionDeliverySnapshot opt f sender cls rhs m =
     (if rhs = [] then (Inl ErrInvalidRegionContext, m)
      else case FOMs opt f of
        Inl e \<Rightarrow> (Inl e, m)
      | Inr _ \<Rightarrow>
          (case fmlookup (fed m) f of
             None \<Rightarrow> (Inl ErrRegionNotFound, m)
           | Some _ \<Rightarrow>
               let (st, m) = stateForLocked opt f m; h = fom st in
               if (case InteractionClassName h of Some names \<Rightarrow> names cls = None | None \<Rightarrow> False)
               then (Inl ErrInteractionClassNotFound, m)
               else
                 (case (case InteractionDimensions h of
                          None \<Rightarrow> Inr None
                        | Some idims \<Rightarrow>
                            (case idims cls of
                               None \<Rightarrow> Inl ErrInteractionClassNotFound
                             | Some values \<Rightarrow> Inr (Some (dimensionSet values)))) of
                    Inl e \<Rightarrow> (Inl e, m)
                  | Inr available \<Rightarrow>
                      (case validateRegions st sender rhs available of
                         Some e \<Rightarrow> (Inl e, m)
                       | None \<Rightarrow>
                           (case captureRealizations st rhs (\<lambda>rh. realizeIn st [rh] available) of
                              Inl e \<Rightarrow> (Inl e, m)
                            | Inr (cs, st) \<Rightarrow>
                                let pub = portableRealizations cs in
                                (Inr (interactionSnapshotSubscribers st h cls pub, cs, overlapsDefault pub), setState f st m))))))"

record AttributeRegionDeliverySnapshot =
  aRegions :: "nat list"
  aCopies :: "ConveyedRegionCopy list"
  aSubscribers :: "handle list"
  aOverlapsDefault :: bool

text \<open>The attribute of a receiver's known class that stands for an attribute of the registered class.\<close>

definition mappedAttribute :: "FOMHandle \<Rightarrow> nat \<Rightarrow> nat \<Rightarrow> nat \<Rightarrow> nat option" where
  "mappedAttribute h registered a cls =
     (if cls = registered then Some a
      else case AttributeName h of
        None \<Rightarrow> None
      | Some names \<Rightarrow> (case names registered a of None \<Rightarrow> None | Some name \<Rightarrow> LookupAttribute h cls name))"

definition receives :: "federationDDMState \<Rightarrow> nat \<Rightarrow> nat \<Rightarrow> bool \<Rightarrow> regionBounds list \<Rightarrow> handle \<Rightarrow> nat \<Rightarrow> bool" where
  "receives st registered a regional pub h cls \<longleftrightarrow>
     (case mappedAttribute (fom st) registered a cls of
        None \<Rightarrow> False
      | Some a' \<Rightarrow>
          list_ex (\<lambda>s. subscriber s = h \<and>
            (let sub = objectRealizations st cls a' (sregions s) in
             if regional then regionsOverlap pub sub else overlapsDefault sub)) (rowsAt (objSubs st) (cls, a')))"

definition deliverySnapshot ::
  "federationDDMState \<Rightarrow> nat \<Rightarrow> nat \<Rightarrow> nat \<Rightarrow> (handle, nat) fmap \<Rightarrow> ddm_error + AttributeRegionDeliverySnapshot \<times> federationDDMState" where
  "deliverySnapshot st ob registered a known =
     (let rhs = rowsAt (inner (objPubs st) ob) a in
      bindR (captureRealizations st rhs (\<lambda>rh. objectRealizations st registered a [rh])) (\<lambda>(cs, st).
        let pub = portableRealizations cs in
        Inr (\<lparr>aRegions = rhs, aCopies = cs,
              aSubscribers = sorted_list_of_fset (ffilter
                (\<lambda>h. receives st registered a (rhs \<noteq> []) pub h (the (fmlookup known h))) (fmdom known)),
              aOverlapsDefault = (rhs = [] \<or> overlapsDefault pub)\<rparr>, st)))"

text \<open>The handles reserved before a failing attribute stay reserved.\<close>

fun deliverySnapshots ::
  "nat \<Rightarrow> nat \<Rightarrow> (handle, nat) fmap \<Rightarrow> nat list \<Rightarrow> federationDDMState \<Rightarrow>
   (ddm_error + (nat, AttributeRegionDeliverySnapshot) fmap) \<times> federationDDMState" where
  "deliverySnapshots ob registered known [] st = (Inr fmempty, st)"
| "deliverySnapshots ob registered known (a # as) st =
     (case deliverySnapshot st ob registered a known of
        Inl e \<Rightarrow> (Inl e, st)
      | Inr (row, st) \<Rightarrow>
          (case deliverySnapshots ob registered known as st of
             (Inl e, st) \<Rightarrow> (Inl e, st)
           | (Inr rows, st) \<Rightarrow> (Inr (if fmlookup rows a = None then fmupd a row rows else rows), st)))"

definition ObjectDeliverySnapshots ::
  "DDMOptions \<Rightarrow> fed_name \<Rightarrow> nat \<Rightarrow> nat \<Rightarrow> nat list \<Rightarrow> (handle, nat) fmap \<Rightarrow> DDMManager \<Rightarrow>
   (ddm_error + (nat, AttributeRegionDeliverySnapshot) fmap) \<times> DDMManager" where
  "ObjectDeliverySnapshots opt f ob registered attrs known m =
     (case FOMs opt f of
        Inl e \<Rightarrow> (Inl e, m)
      | Inr _ \<Rightarrow>
          let (st, m) = stateForLocked opt f m; (r, st) = deliverySnapshots ob registered known attrs st in
          (r, setState f st m))"

section \<open>Leases of conveyed regions\<close>

definition sameRealization :: "RegionRealizationSnapshot \<Rightarrow> RegionRealizationSnapshot \<Rightarrow> bool" where
  "sameRealization x y \<longleftrightarrow> source x = source y \<and> ranges x = ranges y"

definition validateRealization :: "federationDDMState \<Rightarrow> ConveyedRegionCopy \<Rightarrow> ddm_error option" where
  "validateRealization st c =
     (let d = Designator c; x = Realization c in
      if d = 0 \<or> d = source x \<or> source x = 0 then Some ErrRegionNotFound
      else if fmlookup (regions st) d \<noteq> None then Some (ErrConveyed ''designator collides with specification'')
      else if \<not> permissive st \<and>
              list_ex (\<lambda>r. case fmlookup (dimUpperBound st) (fst r) of None \<Rightarrow> True | Some u \<Rightarrow> u < Upper (snd r)) (ranges x)
      then Some ErrInvalidRangeBounds
      else if (case fmlookup (conveyed st) d of Some prior \<Rightarrow> \<not> sameRealization prior x | None \<Rightarrow> False)
      then Some (ErrConveyed ''realization identity collision'')
      else None)"

fun validateRealizations ::
  "federationDDMState \<Rightarrow> (nat, RegionRealizationSnapshot) fmap \<Rightarrow> ConveyedRegionCopy list \<Rightarrow> ddm_error option" where
  "validateRealizations st seen [] = None"
| "validateRealizations st seen (c # cs) =
     (case validateRealization st c of
        Some e \<Rightarrow> Some e
      | None \<Rightarrow>
          if (case fmlookup seen (Designator c) of Some prior \<Rightarrow> \<not> sameRealization prior (Realization c) | None \<Rightarrow> False)
          then Some (ErrConveyed ''conflicting batch designator'')
          else validateRealizations st (fmupd (Designator c) (Realization c) seen) cs)"

definition reserveDesignator :: "ConveyedRegionCopy \<Rightarrow> federationDDMState \<Rightarrow> federationDDMState" where
  "reserveDesignator c st = st\<lparr>nextRegionHandle := max (nextRegionHandle st) (Designator c)\<rparr>"

definition cacheRealization :: "ConveyedRegionCopy \<Rightarrow> federationDDMState \<Rightarrow> federationDDMState" where
  "cacheRealization c st =
     reserveDesignator c (st\<lparr>conveyed := fmupd (Designator c) (Realization c) (conveyed st)\<rparr>)"

definition prepareLease :: "handle \<Rightarrow> ConveyedRegionCopy \<Rightarrow> federationDDMState \<Rightarrow> federationDDMState" where
  "prepareLease h c st =
     (let rc = inner (conveyedRecipients st) (Designator c) in
      st\<lparr>conveyedRecipients := fmupd (Designator c) (if fmlookup rc h = None then fmupd h False rc else rc)
         (conveyedRecipients st)\<rparr>)"

definition ConveyCopies ::
  "DDMOptions \<Rightarrow> fed_name \<Rightarrow> handle \<Rightarrow> ConveyedRegionCopy list \<Rightarrow> DDMManager \<Rightarrow> ddm_error option \<times> DDMManager" where
  "ConveyCopies opt f h cs m =
     (if h = 0 then (Some ErrRegionNotFound, m)
      else if cs = [] then (None, m)
      else
        let (st, m) = stateForLocked opt f m in
        case validateRealizations st fmempty cs of
          Some e \<Rightarrow> (Some e, m)
        | None \<Rightarrow> (None, setState f (fold (prepareLease h) cs (fold cacheRealization cs st)) m))"

definition EnterConveyedRegions :: "fed_name \<Rightarrow> handle \<Rightarrow> nat list \<Rightarrow> DDMManager \<Rightarrow> ddm_error option \<times> DDMManager" where
  "EnterConveyedRegions f h rhs m =
     (case fmlookup (fed m) f of
        None \<Rightarrow> (Some ErrRegionNotFound, m)
      | Some st \<Rightarrow>
          if list_ex (\<lambda>rh. fmlookup (inner (conveyedRecipients st) rh) h = None) rhs then (Some ErrRegionNotFound, m)
          else (None, setState f (fold (\<lambda>rh st. st\<lparr>conveyedRecipients :=
                 fmupd rh (fmupd h True (inner (conveyedRecipients st) rh)) (conveyedRecipients st)\<rparr>) rhs st) m))"

definition ReleaseConveyedRegions :: "fed_name \<Rightarrow> handle \<Rightarrow> nat list \<Rightarrow> DDMManager \<Rightarrow> DDMManager" where
  "ReleaseConveyedRegions f h rhs m =
     (case fmlookup (fed m) f of None \<Rightarrow> m | Some st \<Rightarrow> setState f (fold (releaseRecipient h) rhs st) m)"

definition RestoreConveyedRegions ::
  "DDMOptions \<Rightarrow> fed_name \<Rightarrow> ConveyedRegionCopy list \<Rightarrow> DDMManager \<Rightarrow> ddm_error option \<times> DDMManager" where
  "RestoreConveyedRegions opt f cs m =
     (if cs = [] then (None, m)
      else
        let (st, m) = stateForLocked opt f m in
        case validateRealizations st fmempty cs of
          Some e \<Rightarrow> (Some e, m)
        | None \<Rightarrow> (None, setState f (fold reserveDesignator cs st) m))"

definition SubscribersForConveyedUpdate ::
  "DDMOptions \<Rightarrow> fed_name \<Rightarrow> nat \<Rightarrow> nat \<Rightarrow> ConveyedRegionCopy list \<Rightarrow> DDMManager \<Rightarrow> handle list \<times> DDMManager" where
  "SubscribersForConveyedUpdate opt f cls a cs m =
     (let (st, m) = stateForLocked opt f m in (matchingSubscribers st cls a (portableRealizations cs), m))"

definition InteractionSubscribersForConveyedRegions ::
  "DDMOptions \<Rightarrow> fed_name \<Rightarrow> nat \<Rightarrow> ConveyedRegionCopy list \<Rightarrow> DDMManager \<Rightarrow> (ddm_error + handle list) \<times> DDMManager" where
  "InteractionSubscribersForConveyedRegions opt f cls cs m =
     (case FOMs opt f of
        Inl e \<Rightarrow> (Inl e, m)
      | Inr _ \<Rightarrow>
          (case fmlookup (fed m) f of
             None \<Rightarrow> (Inl ErrRegionNotFound, m)
           | Some _ \<Rightarrow>
               let (st, m) = stateForLocked opt f m in
               (Inr (interactionSnapshotSubscribers st (fom st) cls (portableRealizations cs)), m)))"

definition QueryBoundsFor :: "fed_name \<Rightarrow> handle \<Rightarrow> nat \<Rightarrow> nat \<Rightarrow> DDMManager \<Rightarrow> ddm_error + DDMRange" where
  "QueryBoundsFor f h rh d m =
     (case fmlookup (fed m) f of
        None \<Rightarrow> Inl ErrRegionNotFound
      | Some st \<Rightarrow>
          (case fmlookup (conveyed st) rh of
             Some snap \<Rightarrow>
               if fmlookup (inner (conveyedRecipients st) rh) h \<noteq> Some True then Inl ErrRegionNotFound
               else (case RangeBounds snap d of Some r \<Rightarrow> Inr r | None \<Rightarrow> Inl ErrDimensionNotFound)
           | None \<Rightarrow>
               (case fmlookup (regions st) rh of
                  None \<Rightarrow> Inl ErrRegionNotFound
                | Some rs \<Rightarrow>
                    if template rs then Inl ErrRegionNotFound
                    else if owner rs \<noteq> h then Inl ErrRegionNotOwnedByFederate
                    else (case fmlookup (committed rs) d of Some r \<Rightarrow> Inr r | None \<Rightarrow> Inl ErrDimensionNotFound))))"

definition RegionDimensionsFor :: "fed_name \<Rightarrow> handle \<Rightarrow> nat \<Rightarrow> DDMManager \<Rightarrow> ddm_error + nat list" where
  "RegionDimensionsFor f h rh m =
     (case fmlookup (fed m) f of
        None \<Rightarrow> Inl ErrRegionNotFound
      | Some st \<Rightarrow>
          (case fmlookup (conveyed st) rh of
             Some snap \<Rightarrow>
               if fmlookup (inner (conveyedRecipients st) rh) h \<noteq> Some True then Inl ErrRegionNotFound
               else Inr (map fst (ranges snap))
           | None \<Rightarrow>
               (case fmlookup (regions st) rh of
                  None \<Rightarrow> Inl ErrRegionNotFound
                | Some rs \<Rightarrow> if owner rs \<noteq> h then Inl ErrRegionNotOwnedByFederate else Inr (dims rs))))"

definition ConveyedRegionDimensions :: "fed_name \<Rightarrow> nat \<Rightarrow> DDMManager \<Rightarrow> nat list option" where
  "ConveyedRegionDimensions f rh m =
     (case fmlookup (fed m) f of None \<Rightarrow> None | Some st \<Rightarrow> map_option (\<lambda>s. map fst (ranges s)) (fmlookup (conveyed st) rh))"

end
