(* ===== verification/DDM_Image.thy ===== *)
theory DDM_Image
  imports DDM_Routing "HOL-Library.Product_Lexorder"
begin

text \<open>The saved image of the region manager (\<open>snapshot.go\<close>): export in a canonical order, and import.\<close>

section \<open>The image\<close>

record RegionImage =
  rgTemplate :: bool
  rgHandle :: nat
  rgOwner :: handle
  rgSpace :: nat
  rgDims :: "nat list"
  rgCommitted :: "(nat \<times> DDMRange) list"
  rgPending :: "(nat \<times> DDMRange) list"

record ConveyedRegionImage =
  cvDesignator :: nat
  cvRealization :: RegionRealizationSnapshot
  cvRecipients :: "(handle \<times> bool) list"

record ObjectSubscriptionImage =
  osKey :: "nat \<times> nat"
  osRow :: subscription

record InteractionSubscriptionImage =
  isClass :: nat
  isRow :: interactionSubscription

record ObjectPublicationImage =
  opObject :: nat
  opAttribute :: nat
  opRegions :: "nat list"

record InactiveAssociationImage =
  iaObject :: nat
  iaAttribute :: nat
  iaFederate :: handle
  iaRegions :: "nat list"

record DDMManagerState =
  imNextRegionHandle :: nat
  imRegions :: "RegionImage list"
  imObjectSubscriptions :: "ObjectSubscriptionImage list"
  imInteractionSubscriptions :: "InteractionSubscriptionImage list"
  imObjectPublications :: "ObjectPublicationImage list"
  imInactiveAssociations :: "InactiveAssociationImage list"
  imConveyedRegions :: "ConveyedRegionImage list"

section \<open>Export\<close>

text \<open>A map in the order of its keys.\<close>

definition listed :: "('k::linorder, 'v) fmap \<Rightarrow> ('k \<times> 'v) list" where
  "listed m = map (\<lambda>k. (k, the (fmlookup m k))) (sorted_list_of_fset (fmdom m))"

definition exportRanges :: "regionBounds \<Rightarrow> (nat \<times> DDMRange) list" where
  "exportRanges m = listed m"

definition exportRegion :: "nat \<times> regionState \<Rightarrow> RegionImage" where
  "exportRegion e = (let (rh, rs) = e in
     \<lparr>rgTemplate = template rs, rgHandle = rh, rgOwner = owner rs, rgSpace = space rs, rgDims = dims rs,
      rgCommitted = exportRanges (committed rs), rgPending = exportRanges (pending rs)\<rparr>)"

definition exportConveyed :: "federationDDMState \<Rightarrow> nat \<times> RegionRealizationSnapshot \<Rightarrow> ConveyedRegionImage" where
  "exportConveyed st e =
     \<lparr>cvDesignator = fst e, cvRealization = snd e, cvRecipients = listed (inner (conveyedRecipients st) (fst e))\<rparr>"

definition exportObjectRows :: "subscription list \<Rightarrow> subscription list" where
  "exportObjectRows rows =
     sort_key (\<lambda>s. (subscriber s, sregions s)) (map (\<lambda>s. s\<lparr>sregions := sort (sregions s)\<rparr>) rows)"

definition exportInteractionRows :: "interactionSubscription list \<Rightarrow> interactionSubscription list" where
  "exportInteractionRows rows =
     sort_key (\<lambda>s. (isubscriber s, iregions s)) (map (\<lambda>s. s\<lparr>iregions := sort (iregions s)\<rparr>) rows)"

definition exportInactive :: "(nat, (handle, associations) fmap) fmap \<Rightarrow> InactiveAssociationImage list" where
  "exportInactive m =
     sort_key (\<lambda>e. (iaObject e, iaAttribute e, iaFederate e))
       (concat (map (\<lambda>(ob, callers). concat (map (\<lambda>(h, per). map (\<lambda>(a, rhs).
          \<lparr>iaObject = ob, iaAttribute = a, iaFederate = h, iaRegions = rhs\<rparr>) (listed per)) (listed callers))) (listed m)))"

definition exportState :: "federationDDMState \<Rightarrow> DDMManagerState" where
  "exportState st =
     \<lparr>imNextRegionHandle = nextRegionHandle st,
      imRegions = map exportRegion (listed (regions st)),
      imObjectSubscriptions =
        concat (map (\<lambda>(k, rows). map (\<lambda>r. \<lparr>osKey = k, osRow = r\<rparr>) (exportObjectRows rows)) (listed (objSubs st))),
      imInteractionSubscriptions =
        concat (map (\<lambda>(c, rows). map (\<lambda>r. \<lparr>isClass = c, isRow = r\<rparr>) (exportInteractionRows rows)) (listed (intSubs st))),
      imObjectPublications =
        concat (map (\<lambda>(ob, per). map (\<lambda>(a, rhs). \<lparr>opObject = ob, opAttribute = a, opRegions = rhs\<rparr>) (listed per))
          (listed (objPubs st))),
      imInactiveAssociations = exportInactive (inactivePubs st),
      imConveyedRegions = map (exportConveyed st) (listed (conveyed st))\<rparr>"

definition DDM_ExportState :: "fed_name \<Rightarrow> DDMManager \<Rightarrow> DDMManagerState option" where
  "DDM_ExportState f m = map_option exportState (fmlookup (fed m) f)"

section \<open>Import\<close>

definition importRanges :: "(nat \<times> DDMRange) list \<Rightarrow> regionBounds" where
  "importRanges rs = fold (\<lambda>(d, r). fmupd d r) rs fmempty"

definition importRegion :: "RegionImage \<Rightarrow> (nat, regionState) fmap \<Rightarrow> (nat, regionState) fmap" where
  "importRegion e m =
     fmupd (rgHandle e) \<lparr>template = rgTemplate e, owner = rgOwner e, space = rgSpace e, dims = rgDims e,
       committed = importRanges (rgCommitted e), pending = importRanges (rgPending e)\<rparr> m"

definition importConveyed :: "ConveyedRegionImage \<Rightarrow> federationDDMState \<Rightarrow> federationDDMState" where
  "importConveyed e st =
     (let st = st\<lparr>nextRegionHandle := max (nextRegionHandle st) (cvDesignator e)\<rparr> in
      if cvRecipients e = [] then st
      else st\<lparr>conveyed := fmupd (cvDesignator e) (cvRealization e) (conveyed st),
              conveyedRecipients := fmupd (cvDesignator e) (fold (\<lambda>(h, act). fmupd h act) (cvRecipients e) fmempty)
                (conveyedRecipients st)\<rparr>)"

definition appendRow :: "'k \<Rightarrow> 'a \<Rightarrow> ('k, 'a list) fmap \<Rightarrow> ('k, 'a list) fmap" where
  "appendRow k r m = fmupd k (rowsAt m k @ [r]) m"

definition importPublication :: "ObjectPublicationImage \<Rightarrow> (nat, associations) fmap \<Rightarrow> (nat, associations) fmap" where
  "importPublication e m = fmupd (opObject e) (fmupd (opAttribute e) (opRegions e) (inner m (opObject e))) m"

definition importInactive ::
  "InactiveAssociationImage \<Rightarrow> (nat, (handle, associations) fmap) fmap \<Rightarrow> (nat, (handle, associations) fmap) fmap" where
  "importInactive e m =
     (let callers = inner m (iaObject e) in
      fmupd (iaObject e) (fmupd (iaFederate e) (fmupd (iaAttribute e) (iaRegions e) (inner callers (iaFederate e))) callers) m)"

definition importState :: "DDMManagerState \<Rightarrow> federationDDMState \<Rightarrow> federationDDMState" where
  "importState im st0 =
     (let st = fold importConveyed (imConveyedRegions im)
            (st0\<lparr>fomRevision := 0, nextRegionHandle := imNextRegionHandle im, conveyed := fmempty, conveyedRecipients := fmempty\<rparr>)
      in st\<lparr>regions := fold importRegion (imRegions im) fmempty,
            objSubs := fold (\<lambda>e. appendRow (osKey e) (osRow e)) (imObjectSubscriptions im) fmempty,
            intSubs := fold (\<lambda>e. appendRow (isClass e) (isRow e)) (imInteractionSubscriptions im) fmempty,
            objPubs := fold importPublication (imObjectPublications im) fmempty,
            inactivePubs := fold importInactive (imInactiveAssociations im) fmempty\<rparr>)"

definition DDM_ImportState :: "DDMOptions \<Rightarrow> fed_name \<Rightarrow> DDMManagerState option \<Rightarrow> DDMManager \<Rightarrow> DDMManager" where
  "DDM_ImportState opt f im m =
     (case im of
        None \<Rightarrow> m
      | Some im \<Rightarrow> let (st, m) = stateForLocked opt f m in setState f (importState im st) m)"

end
