(* ===== verification/DDM_Rows.thy ===== *)
theory DDM_Rows
  imports DDM_Image
begin

text \<open>
  The rows of the two subscription tables.  A row groups regions of one federate that share their
  options; what it means is a set of triples of federate, region and options.  The interface
  \<open>subscription_rows\<close> states what the loops over rows do, and shows once for both tables that adding
  a row sets the options of exactly the requested triples, and that removing regions removes
  exactly theirs.
\<close>

section \<open>Sorted lists without repetition\<close>

lemma set_sortCompact [simp]: "set (sortCompact xs) = set xs"
  by (simp add: sortCompact_def)

lemma sorted_sortCompact [simp]: "sorted (sortCompact xs)"
  by (simp add: sortCompact_def sorted_remdups_adj)

lemma distinct_remdups_adj: "sorted xs \<Longrightarrow> distinct (remdups_adj xs)"
  by (induction xs rule: remdups_adj.induct) (auto simp: less_le)

lemma distinct_sortCompact [simp]: "distinct (sortCompact xs)"
  by (simp add: sortCompact_def distinct_remdups_adj)

lemma sortCompact_eq_Nil [simp]: "sortCompact xs = [] \<longleftrightarrow> xs = []"
  using set_sortCompact [of xs] by (metis set_empty)

lemma sortCompact_fset: "sortCompact xs = sorted_list_of_fset (fset_of_list xs)"
  by (rule sorted_distinct_set_unique)
    (simp_all add: sorted_list_of_fset.rep_eq fset_of_list.rep_eq)

lemma sortCompact_id: "sorted xs \<Longrightarrow> distinct xs \<Longrightarrow> sortCompact xs = xs"
  by (rule sorted_distinct_set_unique) simp_all

section \<open>Rows\<close>

text \<open>The owner of a region, and what a list of regions of one federate must be.\<close>

definition ownerOf :: "(nat, regionState) fmap \<Rightarrow> nat \<Rightarrow> handle option" where
  "ownerOf rg r = map_option owner (fmlookup rg r)"

definition regions_of :: "(nat \<Rightarrow> handle option) \<Rightarrow> handle \<Rightarrow> nat list \<Rightarrow> bool" where
  "regions_of own h rhs \<longleftrightarrow> rhs \<noteq> [] \<and> sorted rhs \<and> distinct rhs \<and> (\<forall>r\<in>set rhs. own r = Some h)"

definition rows_ok :: "('r \<Rightarrow> handle) \<Rightarrow> ('r \<Rightarrow> nat list) \<Rightarrow> (nat \<Rightarrow> handle option) \<Rightarrow> 'r list \<Rightarrow> bool" where
  "rows_ok sub regs own rows \<longleftrightarrow>
     (\<forall>s\<in>set rows. regions_of own (sub s) (regs s)) \<and>
     sorted_wrt (\<lambda>s t. sub s = sub t \<longrightarrow> set (regs s) \<inter> set (regs t) = {}) rows"

definition triples :: "('r \<Rightarrow> handle) \<Rightarrow> ('r \<Rightarrow> nat list) \<Rightarrow> ('r \<Rightarrow> 'o) \<Rightarrow> 'r list \<Rightarrow> (handle \<times> nat \<times> 'o) set" where
  "triples sub regs opts rows = {(sub s, r, opts s) | s r. s \<in> set rows \<and> r \<in> set (regs s)}"

lemma triples_Nil [simp]: "triples sub regs opts [] = {}"
  by (simp add: triples_def)

lemma triples_Cons: "triples sub regs opts (s # rows) = (\<lambda>r. (sub s, r, opts s)) ` set (regs s) \<union> triples sub regs opts rows"
  by (auto simp: triples_def)

lemma triples_append: "triples sub regs opts (xs @ ys) = triples sub regs opts xs \<union> triples sub regs opts ys"
  by (auto simp: triples_def)

lemma rows_ok_Nil [simp]: "rows_ok sub regs own []"
  by (simp add: rows_ok_def)

lemma rows_ok_Cons:
  "rows_ok sub regs own (s # rows) \<longleftrightarrow>
     regions_of own (sub s) (regs s) \<and> (\<forall>t\<in>set rows. sub s = sub t \<longrightarrow> set (regs s) \<inter> set (regs t) = {}) \<and> rows_ok sub regs own rows"
  by (auto simp: rows_ok_def)

lemma rows_ok_append:
  "rows_ok sub regs own (xs @ ys) \<longleftrightarrow>
     rows_ok sub regs own xs \<and> rows_ok sub regs own ys \<and>
     (\<forall>s\<in>set xs. \<forall>t\<in>set ys. sub s = sub t \<longrightarrow> set (regs s) \<inter> set (regs t) = {})"
  by (auto simp: rows_ok_def sorted_wrt_append)

lemma rows_ok_mono:
  "rows_ok sub regs own rows \<Longrightarrow> (\<And>r h. own r = Some h \<Longrightarrow> own' r = Some h) \<Longrightarrow> rows_ok sub regs own' rows"
  by (auto simp: rows_ok_def regions_of_def)

lemma rows_ok_filter: "rows_ok sub regs own rows \<Longrightarrow> rows_ok sub regs own (filter P rows)"
  by (auto simp: rows_ok_def sorted_wrt_filter)

lemma triples_filter: "triples sub regs opts (filter (\<lambda>s. P (sub s)) rows) = {(h, r, v) \<in> triples sub regs opts rows. P h}"
  by (auto simp: triples_def)

text \<open>Every federate and region have the options of one row at most.\<close>

lemma triples_unique:
  "rows_ok sub regs own rows \<Longrightarrow> (h, r, v) \<in> triples sub regs opts rows \<Longrightarrow> (h, r, w) \<in> triples sub regs opts rows \<Longrightarrow> v = w"
proof (induction rows)
  case Nil
  then show ?case by simp
next
  case (Cons s rows)
  have apart: "(h', r', v') \<notin> triples sub regs opts rows" if "h' = sub s" "r' \<in> set (regs s)" for h' r' v'
    using Cons.prems(1) that by (auto simp: rows_ok_Cons triples_def)
  show ?case
  proof (cases "h = sub s \<and> r \<in> set (regs s)")
    case True
    then have "(h, r, v) \<notin> triples sub regs opts rows" "(h, r, w) \<notin> triples sub regs opts rows"
      using apart by blast+
    then show ?thesis using Cons.prems(2,3) by (auto simp: triples_Cons)
  next
    case False
    then show ?thesis using Cons by (auto simp: triples_Cons rows_ok_Cons)
  qed
qed

text \<open>The options of a federate for a region, by the first row that lists it.\<close>

definition optionsIn :: "('r \<Rightarrow> handle) \<Rightarrow> ('r \<Rightarrow> nat list) \<Rightarrow> ('r \<Rightarrow> 'o) \<Rightarrow> 'r list \<Rightarrow> handle \<Rightarrow> nat \<Rightarrow> 'o option" where
  "optionsIn sub regs opts rows h r = map_option opts (find (\<lambda>s. sub s = h \<and> r \<in> set (regs s)) rows)"

lemma optionsIn_iff:
  assumes "rows_ok sub regs own rows"
  shows "optionsIn sub regs opts rows h r = Some v \<longleftrightarrow> (h, r, v) \<in> triples sub regs opts rows"
  using assms
proof (induction rows)
  case Nil
  then show ?case by (simp add: optionsIn_def)
next
  case (Cons s rows)
  then have IH: "optionsIn sub regs opts rows h r = Some v \<longleftrightarrow> (h, r, v) \<in> triples sub regs opts rows"
    by (simp add: rows_ok_Cons)
  have apart: "(h, r, v) \<notin> triples sub regs opts rows" if "h = sub s" "r \<in> set (regs s)"
    using Cons.prems that by (auto simp: rows_ok_Cons triples_def)
  show ?case
    using IH apart by (auto simp: optionsIn_def triples_Cons)
qed

section \<open>The loops\<close>

locale subscription_rows =
  fixes sub :: "'r \<Rightarrow> handle"
    and regs :: "'r \<Rightarrow> nat list"
    and opts :: "'r \<Rightarrow> 'o"
    and withRegs :: "nat list \<Rightarrow> 'r \<Rightarrow> 'r"
    and add :: "'r \<Rightarrow> 'r list \<Rightarrow> 'r list \<Rightarrow> 'r list"
    and remove :: "'r list \<Rightarrow> handle \<Rightarrow> nat list \<Rightarrow> 'r list"
  assumes fields [simp]: "sub (withRegs rs s) = sub s" "regs (withRegs rs s) = rs" "opts (withRegs rs s) = opts s"
    and add_Nil: "add added kept [] = kept @ [withRegs (sortCompact (regs added)) added]"
    and add_Cons: "add added kept (row # rows) =
          (if sub row \<noteq> sub added then add added (kept @ [row]) rows
           else if opts row = opts added then add (withRegs (regs added @ regs row) added) kept rows
           else let rest = remainingRegions (regs row) (regs added) in
             add added (if rest \<noteq> [] then kept @ [withRegs rest row] else kept) rows)"
    and remove_Nil: "remove [] h rs = []"
    and remove_Cons: "remove (row # rows) h rs =
          (let row' = (if sub row = h then withRegs (remainingRegions (regs row) rs) row else row) in
           if regs row' \<noteq> [] then row' # remove rows h rs else remove rows h rs)"
begin

abbreviation ok :: "(nat \<Rightarrow> handle option) \<Rightarrow> 'r list \<Rightarrow> bool" where
  "ok \<equiv> rows_ok sub regs"

abbreviation table :: "'r list \<Rightarrow> (handle \<times> nat \<times> 'o) set" where
  "table \<equiv> triples sub regs opts"

definition requested :: "'r \<Rightarrow> (handle \<times> nat \<times> 'o) set" where
  "requested s = {(sub s, r, opts s) | r. r \<in> set (regs s)}"

text \<open>The loop with the rows it has kept so far: the added row overrides the triples it names.\<close>

lemma add_table:
  assumes "ok own (kept @ rows)"
    and "\<forall>s\<in>set kept. sub s = sub added \<longrightarrow> set (regs s) \<inter> set (regs added) = {}"
    and "regs added \<noteq> []"
  shows "table (add added kept rows) =
           {(h, r, v) \<in> table (kept @ rows). \<not> (h = sub added \<and> r \<in> set (regs added))} \<union> requested added"
  using assms
proof (induction rows arbitrary: added kept)
  case Nil
  have "{(h, r, v) \<in> table kept. \<not> (h = sub added \<and> r \<in> set (regs added))} = table kept"
    using Nil.prems(2) by (auto simp: triples_def)
  then show ?case by (auto simp: add_Nil triples_append triples_Cons requested_def)
next
  case (Cons row rows)
  have ok: "ok own (kept @ row # rows)" by (rule Cons.prems(1))
  consider (other) "sub row \<noteq> sub added" | (merge) "sub row = sub added" "opts row = opts added"
    | (split) "sub row = sub added" "opts row \<noteq> opts added" by blast
  then show ?case
  proof cases
    case other
    then show ?thesis
      using Cons.IH [of "kept @ [row]" added] ok Cons.prems(2,3) by (simp add: add_Cons)
  next
    case merge
    let ?added = "withRegs (regs added @ regs row) added"
    have "ok own (kept @ rows)"
      using ok by (auto simp: rows_ok_append rows_ok_Cons)
    moreover have "\<forall>s\<in>set kept. sub s = sub ?added \<longrightarrow> set (regs s) \<inter> set (regs ?added) = {}"
      using ok Cons.prems(2) merge by (auto simp: rows_ok_append)
    ultimately have "table (add ?added kept rows) =
        {(h, r, v) \<in> table (kept @ rows). \<not> (h = sub ?added \<and> r \<in> set (regs ?added))} \<union> requested ?added"
      using Cons.IH [of kept ?added] Cons.prems(3) by simp
    moreover have "(h, r, v) \<notin> table (kept @ rows)" if "h = sub added" "r \<in> set (regs row)" for h r v
      using ok merge that by (auto simp: rows_ok_append rows_ok_Cons triples_def)
    ultimately show ?thesis
      using merge by (auto simp: add_Cons triples_append triples_Cons requested_def)
  next
    case split
    let ?rest = "remainingRegions (regs row) (regs added)"
    let ?kept = "if ?rest \<noteq> [] then kept @ [withRegs ?rest row] else kept"
    have rest: "set ?rest = set (regs row) - set (regs added)"
      using Cons.prems(3) by (auto simp: remainingRegions_def)
    have reg: "regions_of own (sub row) (regs row)"
      using ok by (auto simp: rows_ok_append rows_ok_Cons)
    have "?rest \<noteq> [] \<Longrightarrow> regions_of own (sub row) ?rest"
      using reg Cons.prems(3) by (auto simp: regions_of_def remainingRegions_def sorted_wrt_filter)
    then have "ok own (?kept @ rows)"
      using ok rest by (auto simp: rows_ok_append rows_ok_Cons)
    moreover have "\<forall>s\<in>set ?kept. sub s = sub added \<longrightarrow> set (regs s) \<inter> set (regs added) = {}"
      using Cons.prems(2) rest by auto
    ultimately have "table (add added ?kept rows) =
        {(h, r, v) \<in> table (?kept @ rows). \<not> (h = sub added \<and> r \<in> set (regs added))} \<union> requested added"
      using Cons.IH [of ?kept added] Cons.prems(3) by simp
    moreover have "{(h, r, v) \<in> table (?kept @ rows). \<not> (h = sub added \<and> r \<in> set (regs added))} =
        {(h, r, v) \<in> table (kept @ row # rows). \<not> (h = sub added \<and> r \<in> set (regs added))}"
      using rest split by (auto simp: triples_append triples_Cons)
    ultimately show ?thesis
      using split by (simp add: add_Cons Let_def)
  qed
qed

lemma add_ok:
  assumes "ok own (kept @ rows)"
    and "\<forall>s\<in>set kept. sub s = sub added \<longrightarrow> set (regs s) \<inter> set (regs added) = {}"
    and "regs added \<noteq> []" and "\<forall>r\<in>set (regs added). own r = Some (sub added)"
  shows "ok own (add added kept rows)"
  using assms
proof (induction rows arbitrary: added kept)
  case Nil
  then show ?case by (auto simp: add_Nil rows_ok_append rows_ok_Cons regions_of_def)
next
  case (Cons row rows)
  have ok: "ok own (kept @ row # rows)" by (rule Cons.prems(1))
  then have reg: "regions_of own (sub row) (regs row)"
    by (auto simp: rows_ok_append rows_ok_Cons)
  consider (other) "sub row \<noteq> sub added" | (merge) "sub row = sub added" "opts row = opts added"
    | (split) "sub row = sub added" "opts row \<noteq> opts added" by blast
  then show ?case
  proof cases
    case other
    then show ?thesis
      using Cons.IH [of "kept @ [row]" added] ok Cons.prems by (simp add: add_Cons)
  next
    case merge
    let ?added = "withRegs (regs added @ regs row) added"
    have "ok own (add ?added kept rows)"
    proof (rule Cons.IH)
      show "ok own (kept @ rows)"
        using ok by (auto simp: rows_ok_append rows_ok_Cons)
      show "\<forall>s\<in>set kept. sub s = sub ?added \<longrightarrow> set (regs s) \<inter> set (regs ?added) = {}"
        using ok Cons.prems(2) merge by (auto simp: rows_ok_append)
      show "\<forall>r\<in>set (regs ?added). own r = Some (sub ?added)"
        using reg Cons.prems(4) merge by (auto simp: regions_of_def)
    qed (use Cons.prems(3) in simp)
    then show ?thesis using merge by (simp add: add_Cons)
  next
    case split
    let ?rest = "remainingRegions (regs row) (regs added)"
    let ?kept = "if ?rest \<noteq> [] then kept @ [withRegs ?rest row] else kept"
    have rest: "set ?rest = set (regs row) - set (regs added)"
      using Cons.prems(3) by (auto simp: remainingRegions_def)
    have "?rest \<noteq> [] \<Longrightarrow> regions_of own (sub row) ?rest"
      using reg Cons.prems(3) by (auto simp: regions_of_def remainingRegions_def sorted_wrt_filter)
    then have "ok own (?kept @ rows)"
      using ok rest by (auto simp: rows_ok_append rows_ok_Cons)
    moreover have "\<forall>s\<in>set ?kept. sub s = sub added \<longrightarrow> set (regs s) \<inter> set (regs added) = {}"
      using Cons.prems(2) rest by auto
    ultimately have "ok own (add added ?kept rows)"
      using Cons.IH [of ?kept added] Cons.prems(3,4) by simp
    then show ?thesis using split by (simp add: add_Cons Let_def)
  qed
qed

lemma remove_ok: "ok own rows \<Longrightarrow> rs \<noteq> [] \<Longrightarrow> ok own (remove rows h rs)"
proof (induction rows)
  case Nil
  then show ?case by (simp add: remove_Nil)
next
  case (Cons row rows)
  have sub: "\<exists>s\<in>set rows. sub s = sub t \<and> set (regs t) \<subseteq> set (regs s)" if "t \<in> set (remove rows h rs)" for t
    using that by (induction rows) (auto simp: remove_Nil remove_Cons remainingRegions_def Let_def split: if_splits)
  let ?rest = "remainingRegions (regs row) rs"
  have reg: "regions_of own (sub row) (regs row)"
    using Cons.prems(1) by (simp add: rows_ok_Cons)
  then have "?rest \<noteq> [] \<Longrightarrow> regions_of own (sub row) ?rest"
    by (auto simp: regions_of_def remainingRegions_def sorted_wrt_filter split: if_splits)
  moreover have "set ?rest \<subseteq> set (regs row)"
    by (auto simp: remainingRegions_def)
  moreover have "\<forall>t\<in>set (remove rows h rs). sub row = sub t \<longrightarrow> set (regs row) \<inter> set (regs t) = {}"
    using Cons.prems(1) sub by (fastforce simp: rows_ok_Cons)
  moreover have "ok own (remove rows h rs)"
    using Cons by (simp add: rows_ok_Cons)
  ultimately show ?case
    using reg by (auto simp: remove_Cons rows_ok_Cons Let_def)
qed

lemma remove_table:
  "rs \<noteq> [] \<Longrightarrow> table (remove rows h rs) = {(h', r, v) \<in> table rows. \<not> (h' = h \<and> r \<in> set rs)}"
proof (induction rows)
  case Nil
  then show ?case by (simp add: remove_Nil)
next
  case (Cons row rows)
  have rest: "set (remainingRegions (regs row) rs) = set (regs row) - set rs"
    using Cons.prems by (auto simp: remainingRegions_def)
  have empty: "remainingRegions (regs row) rs = [] \<Longrightarrow> set (regs row) \<subseteq> set rs"
    using rest by auto
  show ?case
    using Cons rest empty by (auto simp: remove_Cons triples_Cons Let_def)
qed

end

interpretation obj: subscription_rows subscriber sregions "\<lambda>s. (spassive s, updateRate s)"
  "\<lambda>rs s. s\<lparr>sregions := rs\<rparr>" addObjectRows removeSubscriptionRegions
  by unfold_locales (auto simp: Let_def)

interpretation int: subscription_rows isubscriber iregions ipassive
  "\<lambda>rs s. s\<lparr>iregions := rs\<rparr>" addInteractionRows removeInteractionRegions
  by unfold_locales (auto simp: Let_def)

end
