(* ===== verification/DDM_State.thy ===== *)
theory DDM_State
  imports DDM_Rows
begin

text \<open>
  The invariant of a federation's regions, subscriptions and associations, and what the operations
  on the state do to it.  A subscription lists regions of its subscriber, every associated
  region exists, and region handles and the designators of conveyed copies are never shared.
\<close>

section \<open>The invariant\<close>

definition bounds_ok :: "regionBounds \<Rightarrow> bool" where
  "bounds_ok b \<longleftrightarrow> (\<forall>d r. fmlookup b d = Some r \<longrightarrow> Lower r < Upper r)"

definition region_ok :: "regionState \<Rightarrow> bool" where
  "region_ok rs \<longleftrightarrow> bounds_ok (committed rs) \<and> bounds_ok (pending rs) \<and>
     fset (fmdom (committed rs)) = set (dims rs) \<and> fset (fmdom (pending rs)) \<subseteq> set (dims rs)"

definition regions_ok :: "nat \<Rightarrow> (nat, regionState) fmap \<Rightarrow> bool" where
  "regions_ok n rg \<longleftrightarrow> (\<forall>rh rs. fmlookup rg rh = Some rs \<longrightarrow> region_ok rs \<and> 0 < rh \<and> rh \<le> n)"

definition table_ok :: "('a list \<Rightarrow> bool) \<Rightarrow> ('k, 'a list) fmap \<Rightarrow> bool" where
  "table_ok P m \<longleftrightarrow> (\<forall>k rows. fmlookup m k = Some rows \<longrightarrow> rows \<noteq> [] \<and> P rows)"

definition assoc_ok :: "(nat \<Rightarrow> bool) \<Rightarrow> associations \<Rightarrow> bool" where
  "assoc_ok P per \<longleftrightarrow> table_ok (list_all P) per"

definition inner_ok :: "('k \<Rightarrow> ('a, 'b) fmap \<Rightarrow> bool) \<Rightarrow> ('k, ('a, 'b) fmap) fmap \<Rightarrow> bool" where
  "inner_ok P m \<longleftrightarrow> (\<forall>k x. fmlookup m k = Some x \<longrightarrow> fmdom x \<noteq> {||} \<and> P k x)"

definition callers_ok :: "(nat \<Rightarrow> handle option) \<Rightarrow> (handle, associations) fmap \<Rightarrow> bool" where
  "callers_ok own callers \<longleftrightarrow> (\<forall>h per. fmlookup callers h = Some per \<longrightarrow> assoc_ok (\<lambda>r. own r = Some h) per)"

definition view_ok :: "(nat \<Rightarrow> handle option) \<Rightarrow> objectAssociations \<Rightarrow> bool" where
  "view_ok own v \<longleftrightarrow> assoc_ok (\<lambda>r. own r \<noteq> None) (fst v) \<and> callers_ok own (snd v)"

definition pubs_ok :: "(nat \<Rightarrow> handle option) \<Rightarrow> (nat, associations) fmap \<Rightarrow> bool" where
  "pubs_ok own m \<longleftrightarrow> inner_ok (\<lambda>_. assoc_ok (\<lambda>r. own r \<noteq> None)) m"

definition inactive_ok :: "(nat \<Rightarrow> handle option) \<Rightarrow> (nat, (handle, associations) fmap) fmap \<Rightarrow> bool" where
  "inactive_ok own m \<longleftrightarrow> inner_ok (\<lambda>_. inner_ok (\<lambda>h. assoc_ok (\<lambda>r. own r = Some h))) m"

definition conveyed_ok :: "federationDDMState \<Rightarrow> bool" where
  "conveyed_ok st \<longleftrightarrow>
     fmdom (conveyed st) = fmdom (conveyedRecipients st) \<and> inner_ok (\<lambda>_ _. True) (conveyedRecipients st) \<and>
     (\<forall>d. d |\<in>| fmdom (conveyed st) \<longrightarrow> d \<le> nextRegionHandle st \<and> fmlookup (regions st) d = None)"

abbreviation owners :: "federationDDMState \<Rightarrow> nat \<Rightarrow> handle option" where
  "owners st \<equiv> ownerOf (regions st)"

definition state_ok :: "federationDDMState \<Rightarrow> bool" where
  "state_ok st \<longleftrightarrow>
     regions_ok (nextRegionHandle st) (regions st) \<and>
     table_ok (obj.ok (owners st)) (objSubs st) \<and> table_ok (int.ok (owners st)) (intSubs st) \<and>
     pubs_ok (owners st) (objPubs st) \<and> inactive_ok (owners st) (inactivePubs st) \<and> conveyed_ok st"

lemma state_okI:
  "regions_ok (nextRegionHandle st) (regions st) \<Longrightarrow> table_ok (obj.ok (owners st)) (objSubs st) \<Longrightarrow>
   table_ok (int.ok (owners st)) (intSubs st) \<Longrightarrow> pubs_ok (owners st) (objPubs st) \<Longrightarrow>
   inactive_ok (owners st) (inactivePubs st) \<Longrightarrow> conveyed_ok st \<Longrightarrow> state_ok st"
  by (simp add: state_ok_def)

lemma state_okD:
  assumes "state_ok st"
  shows "regions_ok (nextRegionHandle st) (regions st)" "table_ok (obj.ok (owners st)) (objSubs st)"
    "table_ok (int.ok (owners st)) (intSubs st)" "pubs_ok (owners st) (objPubs st)"
    "inactive_ok (owners st) (inactivePubs st)" "conveyed_ok st"
  using assms by (simp_all add: state_ok_def)

section \<open>Tables\<close>

lemma table_ok_empty [simp]: "table_ok P fmempty"
  by (simp add: table_ok_def)

lemma table_okD: "table_ok P m \<Longrightarrow> fmlookup m k = Some rows \<Longrightarrow> rows \<noteq> [] \<and> P rows"
  by (simp add: table_ok_def)

lemma inner_okD: "inner_ok P m \<Longrightarrow> fmlookup m k = Some x \<Longrightarrow> fmdom x \<noteq> {||} \<and> P k x"
  by (simp add: inner_ok_def)

lemma fmfilter_SomeD: "fmlookup (fmfilter P m) k = Some x \<Longrightarrow> P k \<and> fmlookup m k = Some x"
  by (simp split: if_splits)

lemma inner_ok_empty [simp]: "inner_ok P fmempty"
  by (simp add: inner_ok_def)

lemma fmlookup_putRows: "fmlookup (putRows k rows m) k' = (if k' = k then (if rows = [] then None else Some rows) else fmlookup m k')"
  by (simp add: putRows_def)

lemma fmlookup_putInner: "fmlookup (putInner k x m) k' = (if k' = k then (if fmdom x = {||} then None else Some x) else fmlookup m k')"
  by (simp add: putInner_def)

lemma fmdom_empty_iff: "fmdom x = {||} \<longleftrightarrow> x = fmempty"
proof
  assume *: "fmdom x = {||}"
  show "x = fmempty"
  proof (rule fmap_ext)
    fix k show "fmlookup x k = fmlookup fmempty k"
      using * by (simp add: fmdom_notD)
  qed
qed simp

lemma inner_putInner: "inner (putInner k x m) k' = (if k' = k then x else inner m k')"
  by (simp add: inner_def fmlookup_putInner fmdom_empty_iff)

lemma rowsAt_putRows: "rowsAt (putRows k rows m) k' = (if k' = k then rows else rowsAt m k')"
  by (simp add: rowsAt_def fmlookup_putRows)

lemma rowsAt_fmupd: "rowsAt (fmupd k rows m) k' = (if k' = k then rows else rowsAt m k')"
  by (simp add: rowsAt_def)

lemma rowsAt_fmdrop: "rowsAt (fmdrop k m) k' = (if k' = k then [] else rowsAt m k')"
  by (simp add: rowsAt_def)

lemma rowsAt_fmempty [simp]: "rowsAt fmempty k = []"
  by (simp add: rowsAt_def)

lemma inner_fmempty [simp]: "inner fmempty k = fmempty"
  by (simp add: inner_def)

lemma inner_fmupd: "inner (fmupd k x m) k' = (if k' = k then x else inner m k')"
  by (simp add: inner_def)

lemma inner_fmdrop: "inner (fmdrop k m) k' = (if k' = k then fmempty else inner m k')"
  by (simp add: inner_def)

lemma table_ok_rowsAt: "table_ok P m \<Longrightarrow> P [] \<Longrightarrow> P (rowsAt m k)"
  by (auto simp: table_ok_def rowsAt_def split: option.splits)

lemma table_ok_putRows: "table_ok P m \<Longrightarrow> (rows \<noteq> [] \<Longrightarrow> P rows) \<Longrightarrow> table_ok P (putRows k rows m)"
  by (auto simp: table_ok_def fmlookup_putRows split: if_splits)

lemma table_ok_fmupd: "table_ok P m \<Longrightarrow> rows \<noteq> [] \<Longrightarrow> P rows \<Longrightarrow> table_ok P (fmupd k rows m)"
  by (auto simp: table_ok_def)

lemma table_ok_fmdrop: "table_ok P m \<Longrightarrow> table_ok P (fmdrop k m)"
  by (auto simp: table_ok_def)

lemma table_ok_filter: "table_ok P m \<Longrightarrow> table_ok P (fmfilter Q m)"
  by (auto simp: table_ok_def split: if_splits)

lemma table_ok_mono: "table_ok P m \<Longrightarrow> (\<And>rows. P rows \<Longrightarrow> Q rows) \<Longrightarrow> table_ok Q m"
  by (auto simp: table_ok_def)

lemma table_ok_mapRows: "table_ok P m \<Longrightarrow> (\<And>rows. P rows \<Longrightarrow> Q (g rows)) \<Longrightarrow> table_ok Q (mapRows g m)"
  by (auto simp: table_ok_def mapRows_def Let_def split: if_splits)

lemma inner_ok_mono: "inner_ok P m \<Longrightarrow> (\<And>k x. P k x \<Longrightarrow> Q k x) \<Longrightarrow> inner_ok Q m"
  by (auto simp: inner_ok_def)

lemma inner_ok_putInner: "inner_ok P m \<Longrightarrow> (fmdom x \<noteq> {||} \<Longrightarrow> P k x) \<Longrightarrow> inner_ok P (putInner k x m)"
  by (auto simp: inner_ok_def fmlookup_putInner split: if_splits)

lemma inner_ok_fmdrop: "inner_ok P m \<Longrightarrow> inner_ok P (fmdrop k m)"
  by (auto simp: inner_ok_def)

lemma inner_ok_fmupd: "inner_ok P m \<Longrightarrow> fmdom x \<noteq> {||} \<Longrightarrow> P k x \<Longrightarrow> inner_ok P (fmupd k x m)"
  by (auto simp: inner_ok_def)

lemma assoc_ok_mono: "assoc_ok P per \<Longrightarrow> (\<And>r. P r \<Longrightarrow> Q r) \<Longrightarrow> assoc_ok Q per"
  unfolding assoc_ok_def by (erule table_ok_mono) (auto simp: list_all_iff)

lemma assoc_ok_empty [simp]: "assoc_ok P fmempty"
  by (simp add: assoc_ok_def)

lemma assoc_ok_rowsAt: "assoc_ok P per \<Longrightarrow> list_all P (rowsAt per a)"
  by (simp add: assoc_ok_def table_ok_rowsAt)

section \<open>Associations of one object\<close>

lemma view_ok_objectView:
  assumes "pubs_ok (owners st) (objPubs st)" "inactive_ok (owners st) (inactivePubs st)"
  shows "view_ok (owners st) (objectView st ob)"
  using assms
  by (auto simp: view_ok_def objectView_def pubs_ok_def inactive_ok_def inner_ok_def callers_ok_def inner_def
      split: option.splits)

lemma callers_ok_inner: "callers_ok own callers \<Longrightarrow> assoc_ok (\<lambda>r. own r = Some h) (inner callers h)"
  by (auto simp: callers_ok_def inner_def split: option.splits)

lemma callers_ok_fmupd: "callers_ok own callers \<Longrightarrow> assoc_ok (\<lambda>r. own r = Some h) per \<Longrightarrow> callers_ok own (fmupd h per callers)"
  by (auto simp: callers_ok_def)

lemma callers_ok_fmdrop: "callers_ok own callers \<Longrightarrow> callers_ok own (fmdrop h callers)"
  by (auto simp: callers_ok_def)

lemma pruneCallers_lookup:
  "fmlookup (pruneCallers callers) h = (case fmlookup callers h of Some per \<Rightarrow> if fmdom per = {||} then None else Some per | None \<Rightarrow> None)"
  by (auto simp: pruneCallers_def split: option.splits)

lemma inner_pruneCallers: "inner (pruneCallers callers) h = inner callers h"
  by (auto simp: inner_def pruneCallers_lookup fmdom_empty_iff split: option.splits)

lemma callers_ok_prune: "callers_ok own callers \<Longrightarrow> inner_ok (\<lambda>h. assoc_ok (\<lambda>r. own r = Some h)) (pruneCallers callers)"
  by (auto simp: callers_ok_def inner_ok_def pruneCallers_lookup split: option.splits if_splits)

lemma inner_ok_callers: "inner_ok (\<lambda>h. assoc_ok (\<lambda>r. own r = Some h)) callers \<Longrightarrow> callers_ok own callers"
  by (auto simp: callers_ok_def inner_ok_def)

lemma setObjectView_ok:
  assumes "pubs_ok own (objPubs st)" "inactive_ok own (inactivePubs st)" "view_ok own v"
  shows "pubs_ok own (objPubs (setObjectView ob v st))" "inactive_ok own (inactivePubs (setObjectView ob v st))"
  using assms callers_ok_prune [of own "snd v"]
  by (auto simp: setObjectView_def pubs_ok_def inactive_ok_def view_ok_def intro!: inner_ok_putInner)

lemma changeAttributeRegions_ok:
  assumes "assoc_ok P per" "list_all P rhs" "rhs \<noteq> [] \<or> removing mode \<or> mode = associationReplace"
  shows "assoc_ok P (changeAttributeRegions per a rhs mode)"
proof -
  have "list_all P (rowsAt per a)"
    using assms(1) by (rule assoc_ok_rowsAt)
  then have "list_all P (remainingRegions (rowsAt per a) rhs)" "list_all P (sortCompact (rowsAt per a @ rhs))"
    using assms(2) by (auto simp: list_all_iff remainingRegions_def)
  then show ?thesis
    using assms unfolding assoc_ok_def changeAttributeRegions_def
    by (auto intro!: table_ok_putRows table_ok_fmupd)
qed

lemma changeAttribute_ok:
  assumes "view_ok own v" "\<forall>r\<in>set rhs. own r = Some caller" "rhs \<noteq> [] \<or> removing mode \<or> mode = associationReplace"
  shows "view_ok own (changeAttribute caller os rhs mode a v)"
proof -
  have active: "assoc_ok (\<lambda>r. own r \<noteq> None) (changeAttributeRegions (fst v) a rhs mode)"
    by (rule changeAttributeRegions_ok) (use assms in \<open>auto simp: view_ok_def list_all_iff\<close>)
  have inactive: "assoc_ok (\<lambda>r. own r = Some caller) (changeAttributeRegions (inner (snd v) caller) a rhs mode)"
    by (rule changeAttributeRegions_ok) (use assms in \<open>auto simp: view_ok_def list_all_iff callers_ok_inner\<close>)
  show ?thesis
    using assms(1) active callers_ok_fmupd [OF _ inactive]
    by (auto simp: changeAttribute_def view_ok_def split: option.splits)
qed

lemma changeAttributes_ok:
  "view_ok own v \<Longrightarrow> \<forall>r\<in>set rhs. own r = Some caller \<Longrightarrow> rhs \<noteq> [] \<or> removing mode \<or> mode = associationReplace \<Longrightarrow>
   view_ok own (fold (changeAttribute caller os rhs mode) as v)"
  by (induction as arbitrary: v) (auto simp: changeAttribute_ok)

lemma forgetCaller_ok: "view_ok own v \<Longrightarrow> view_ok own (forgetCaller rg h v)"
  by (auto simp: view_ok_def forgetCaller_def assoc_ok_def intro: table_ok_filter callers_ok_fmdrop)

lemma forgetInactive_ok: "view_ok own v \<Longrightarrow> view_ok own (forgetInactive h v)"
  by (auto simp: view_ok_def forgetInactive_def intro: callers_ok_fmdrop)

lemma attributeOwnershipChange_ok: 
  assumes "view_ok own v"
  shows "view_ok own (attributeOwnershipChange before after a v)"
proof -
  define callers where "callers = (let p = (case fmlookup before a of Some h \<Rightarrow> h | None \<Rightarrow> 0) in
    if fmlookup (snd v) p = None then snd v else fmupd p (fmdrop a (inner (snd v) p)) (snd v))"
  have drop: "assoc_ok P (fmdrop a per)" if "assoc_ok P per" for P per
    using that by (auto simp: assoc_ok_def intro: table_ok_fmdrop)
  have c: "callers_ok own callers"
    using assms by (auto simp: callers_def Let_def view_ok_def intro!: callers_ok_fmupd drop callers_ok_inner)
  have p: "assoc_ok (\<lambda>r. own r \<noteq> None) (fmdrop a (fst v))"
    using assms by (auto simp: view_ok_def intro: drop)
  have moved: "view_ok own (fmupd a (rowsAt (inner callers n) a) (fmdrop a (fst v)), fmupd n (fmdrop a (inner callers n)) callers)"
    if "rowsAt (inner callers n) a \<noteq> []" for n
  proof -
    have own: "list_all (\<lambda>r. own r = Some n) (rowsAt (inner callers n) a)"
      by (rule assoc_ok_rowsAt) (rule callers_ok_inner [OF c])
    then have "list_all (\<lambda>r. own r \<noteq> None) (rowsAt (inner callers n) a)"
      by (auto simp: list_all_iff)
    then show ?thesis
      using p that c by (auto simp: view_ok_def assoc_ok_def intro!: table_ok_fmupd callers_ok_fmupd
          drop [unfolded assoc_ok_def] callers_ok_inner [unfolded assoc_ok_def])
  qed
  show ?thesis
    using assms c p moved by (auto simp: attributeOwnershipChange_def Let_def view_ok_def callers_def)
qed

lemma ownershipChange_ok: "view_ok own v \<Longrightarrow> view_ok own (ownershipChange before after v)"
  unfolding ownershipChange_def
  by (rule fold_invariant [where Q = "\<lambda>_. True"]) (simp_all add: attributeOwnershipChange_ok)

end
