(* ===== verification/DDM_Keep.thy ===== *)
theory DDM_Keep
  imports DDM_State
begin

text \<open>Every operation on a federation's state keeps its invariant.\<close>

section \<open>Dimension tables\<close>

lemma refresh_fields [simp]:
  "ident (refreshFOMDimensions opt f st) = ident st"
  "regions (refreshFOMDimensions opt f st) = regions st"
  "nextRegionHandle (refreshFOMDimensions opt f st) = nextRegionHandle st"
  "conveyed (refreshFOMDimensions opt f st) = conveyed st"
  "conveyedRecipients (refreshFOMDimensions opt f st) = conveyedRecipients st"
  "objSubs (refreshFOMDimensions opt f st) = objSubs st"
  "intSubs (refreshFOMDimensions opt f st) = intSubs st"
  "objPubs (refreshFOMDimensions opt f st) = objPubs st"
  "inactivePubs (refreshFOMDimensions opt f st) = inactivePubs st"
  by (simp_all add: refreshFOMDimensions_def Let_def split: sum.splits option.splits)

lemma state_ok_cong:
  assumes "regions st' = regions st" "nextRegionHandle st' = nextRegionHandle st" "conveyed st' = conveyed st"
    "conveyedRecipients st' = conveyedRecipients st" "objSubs st' = objSubs st" "intSubs st' = intSubs st"
    "objPubs st' = objPubs st" "inactivePubs st' = inactivePubs st"
  shows "state_ok st' \<longleftrightarrow> state_ok st"
  using assms by (simp add: state_ok_def conveyed_ok_def)

lemma refresh_ok [simp]: "state_ok (refreshFOMDimensions opt f st) \<longleftrightarrow> state_ok st"
  by (rule state_ok_cong) simp_all

lemma new_ok [simp]: "state_ok (newFederationDDMState i)"
  by (simp add: state_ok_def newFederationDDMState_def regions_ok_def pubs_ok_def inactive_ok_def conveyed_ok_def)

lemma populate_fields:
  "ident (populateFromFOM ds st) = ident st"
  "regions (populateFromFOM ds st) = regions st"
  "nextRegionHandle (populateFromFOM ds st) = nextRegionHandle st"
  "conveyed (populateFromFOM ds st) = conveyed st"
  "conveyedRecipients (populateFromFOM ds st) = conveyedRecipients st"
  "objSubs (populateFromFOM ds st) = objSubs st"
  "intSubs (populateFromFOM ds st) = intSubs st"
  "objPubs (populateFromFOM ds st) = objPubs st"
  "inactivePubs (populateFromFOM ds st) = inactivePubs st"
proof -
  have "ident (fold declareDimension ds s) = ident s \<and> regions (fold declareDimension ds s) = regions s \<and>
      nextRegionHandle (fold declareDimension ds s) = nextRegionHandle s \<and> conveyed (fold declareDimension ds s) = conveyed s \<and>
      conveyedRecipients (fold declareDimension ds s) = conveyedRecipients s \<and> objSubs (fold declareDimension ds s) = objSubs s \<and>
      intSubs (fold declareDimension ds s) = intSubs s \<and> objPubs (fold declareDimension ds s) = objPubs s \<and>
      inactivePubs (fold declareDimension ds s) = inactivePubs s" for s
    by (induction ds arbitrary: s) (simp_all add: declareDimension_def Let_def)
  then show "ident (populateFromFOM ds st) = ident st"
    "regions (populateFromFOM ds st) = regions st"
    "nextRegionHandle (populateFromFOM ds st) = nextRegionHandle st"
    "conveyed (populateFromFOM ds st) = conveyed st"
    "conveyedRecipients (populateFromFOM ds st) = conveyedRecipients st"
    "objSubs (populateFromFOM ds st) = objSubs st"
    "intSubs (populateFromFOM ds st) = intSubs st"
    "objPubs (populateFromFOM ds st) = objPubs st"
    "inactivePubs (populateFromFOM ds st) = inactivePubs st"
    by (simp_all add: populateFromFOM_def)
qed

lemma populate_ok [simp]: "state_ok (populateFromFOM ds st) \<longleftrightarrow> state_ok st"
  by (rule state_ok_cong) (simp_all add: populate_fields)

lemma initialState_ok [simp]: "state_ok (initialState opt f i)"
  by (simp add: initialState_def split: sum.splits option.splits)

lemma initialState_ident [simp]: "ident (initialState opt f i) = i"
  by (simp add: initialState_def populate_fields newFederationDDMState_def split: sum.splits option.splits)

section \<open>Regions\<close>

text \<open>More regions, or the same regions with the same owners.\<close>

lemma references_mono:
  assumes "\<And>r h. own r = Some h \<Longrightarrow> own' r = Some h"
  shows "table_ok (obj.ok own) os \<Longrightarrow> table_ok (obj.ok own') os" "table_ok (int.ok own) is \<Longrightarrow> table_ok (int.ok own') is"
    "pubs_ok own ps \<Longrightarrow> pubs_ok own' ps" "inactive_ok own ns \<Longrightarrow> inactive_ok own' ns"
proof -
  show "table_ok (obj.ok own) os \<Longrightarrow> table_ok (obj.ok own') os"
    by (erule table_ok_mono) (erule rows_ok_mono, rule assms)
  show "table_ok (int.ok own) is \<Longrightarrow> table_ok (int.ok own') is"
    by (erule table_ok_mono) (erule rows_ok_mono, rule assms)
  have "own' r \<noteq> None" if "own r \<noteq> None" for r
    using that assms [of r] by (cases "own r") auto
  then show "pubs_ok own ps \<Longrightarrow> pubs_ok own' ps"
    unfolding pubs_ok_def by (elim inner_ok_mono assoc_ok_mono)
  show "inactive_ok own ns \<Longrightarrow> inactive_ok own' ns"
    unfolding inactive_ok_def by (elim inner_ok_mono assoc_ok_mono) (rule assms)
qed

lemma fullRange_nonempty: "Lower (fullRange st d) < Upper (fullRange st d)"
  by (simp add: fullRange_def upperLimit_def MaxRange_def MaxUint64_def)

lemma newRegion_ok:
  "region_ok \<lparr>template = t, owner = ow, space = sp, dims = ds,
     committed = fmap_of_list (map (\<lambda>d. (d, fullRange st d)) ds), pending = fmempty\<rparr>"
proof -
  have "fmlookup (fmap_of_list (map (\<lambda>d. (d, fullRange st d)) ds)) d = (if d \<in> set ds then Some (fullRange st d) else None)" for d
    by (auto simp: fmlookup_of_list map_of_map_restrict restrict_map_def)
  then have "bounds_ok (fmap_of_list (map (\<lambda>d. (d, fullRange st d)) ds))"
    by (simp add: bounds_ok_def fullRange_nonempty)
  then show ?thesis
    by (auto simp: region_ok_def bounds_ok_def fset_of_list.rep_eq)
qed

lemma insertRegion_ok:
  assumes "state_ok st" "region_ok rs"
  shows "state_ok (st\<lparr>nextRegionHandle := nextRegionHandle st + 1, regions := fmupd (nextRegionHandle st + 1) rs (regions st)\<rparr>)"
proof -
  let ?n = "nextRegionHandle st + 1"
  have fresh: "fmlookup (regions st) ?n = None"
  proof (rule ccontr)
    assume "fmlookup (regions st) ?n \<noteq> None"
    then obtain x where "fmlookup (regions st) ?n = Some x" by blast
    then have "?n \<le> nextRegionHandle st"
      using assms(1) by (auto simp: state_ok_def regions_ok_def)
    then show False by simp
  qed
  have mono: "ownerOf (fmupd ?n rs (regions st)) r = Some h" if "owners st r = Some h" for r h
    using that fresh by (auto simp: ownerOf_def)
  have "regions_ok ?n (fmupd ?n rs (regions st))"
    using assms by (fastforce simp: state_ok_def regions_ok_def)
  moreover have "conveyed_ok (st\<lparr>nextRegionHandle := ?n, regions := fmupd ?n rs (regions st)\<rparr>)"
    using assms(1) by (fastforce simp: state_ok_def conveyed_ok_def)
  ultimately show ?thesis
    using assms(1) mono by (intro state_okI) (auto simp: state_ok_def intro: references_mono)
qed

lemma updateRegion_owners: "(\<And>rs. owner (g rs) = owner rs) \<Longrightarrow> owners (updateRegion g rh st) = owners st"
  by (auto simp: updateRegion_def ownerOf_def fun_eq_iff split: option.splits)

lemma updateRegion_ok:
  assumes "state_ok st" "\<And>rs. owner (g rs) = owner rs" "\<And>rs. fmlookup (regions st) rh = Some rs \<Longrightarrow> region_ok rs \<Longrightarrow> region_ok (g rs)"
  shows "state_ok (updateRegion g rh st)"
proof -
  have own: "owners (updateRegion g rh st) = owners st"
    using assms(2) by (rule updateRegion_owners)
  have "regions_ok (nextRegionHandle st) (regions (updateRegion g rh st))"
    using assms(1,3) by (auto simp: updateRegion_def state_ok_def regions_ok_def split: option.splits)
  moreover have "conveyed_ok (updateRegion g rh st)"
    using assms(1) by (auto simp: state_ok_def conveyed_ok_def updateRegion_def split: option.splits)
  ultimately show ?thesis
    using assms(1) own
    by (intro state_okI) (auto simp: state_ok_def updateRegion_def split: option.splits)
qed

lemma bounds_ok_add: "bounds_ok a \<Longrightarrow> bounds_ok b \<Longrightarrow> bounds_ok (a ++\<^sub>f b)"
  by (auto simp: bounds_ok_def split: if_splits)

lemma commitRegion_ok: "region_ok rs \<Longrightarrow> region_ok (commitRegion rs)"
  by (auto simp: region_ok_def commitRegion_def bounds_ok_add) (simp add: bounds_ok_def)

lemma commitRegions_ok: "state_ok st \<Longrightarrow> state_ok (fold (updateRegion commitRegion) rhs st)"
  by (rule fold_invariant [where Q = "\<lambda>_. True"])
    (auto intro!: updateRegion_ok commitRegion_ok simp: commitRegion_def)

lemma setBounds_ok:
  assumes "state_ok st" "fmlookup (regions st) rh = Some rs" "d \<in> set (dims rs)" "Lower b < Upper b"
  shows "state_ok (st\<lparr>regions := fmupd rh (rs\<lparr>pending := fmupd d b (pending rs)\<rparr>) (regions st)\<rparr>)"
proof -
  have "state_ok (updateRegion (\<lambda>rs. rs\<lparr>pending := fmupd d b (pending rs)\<rparr>) rh st)"
    using assms by (intro updateRegion_ok) (auto simp: region_ok_def bounds_ok_def)
  then show ?thesis using assms(2) by (simp add: updateRegion_def)
qed

definition saved_ok :: "(nat, bool \<times> regionBounds \<times> regionBounds) fmap \<Rightarrow> federationDDMState \<Rightarrow> bool" where
  "saved_ok saved st \<longleftrightarrow> (\<forall>rh t c p. fmlookup saved rh = Some (t, c, p) \<longrightarrow>
     rh \<le> nextRegionHandle st \<and>
     (\<forall>rs. fmlookup (regions st) rh = Some rs \<longrightarrow> region_ok (rs\<lparr>template := t, committed := c, pending := p\<rparr>)))"

lemma restoreRegions_ok:
  assumes "state_ok st" "saved_ok saved st"
  shows "state_ok (restoreRegions saved st)"
proof -
  let ?g = "\<lambda>rh rs. case fmlookup saved rh of None \<Rightarrow> rs | Some (t, c, p) \<Rightarrow> rs\<lparr>template := t, committed := c, pending := p\<rparr>"
  have own: "ownerOf (fmmap_keys ?g (regions st)) = owners st"
    by (auto simp: ownerOf_def fun_eq_iff option.map_comp comp_def split: option.splits intro!: option.map_cong0)
  have "regions_ok (nextRegionHandle st) (fmmap_keys ?g (regions st))"
    using assms by (auto simp: regions_ok_def state_ok_def saved_ok_def split: option.splits prod.splits)
  moreover have "conveyed_ok (restoreRegions saved st)"
    using assms(1) by (auto simp: restoreRegions_def state_ok_def conveyed_ok_def)
  ultimately show ?thesis
    using assms(1) own by (intro state_okI) (auto simp: state_ok_def restoreRegions_def)
qed

section \<open>Deleted regions\<close>

lemma stripRegion_lookup:
  "fmlookup (stripRegion rh per) a =
     (case fmlookup per a of
        None \<Rightarrow> None
      | Some rs \<Rightarrow> if filter (\<lambda>r. r \<noteq> rh) rs = [] then None else Some (filter (\<lambda>r. r \<noteq> rh) rs))"
  by (auto simp: stripRegion_def remainingRegions_def split: option.splits)

lemma stripRegion_ok: "assoc_ok P per \<Longrightarrow> assoc_ok (\<lambda>r. P r \<and> r \<noteq> rh) (stripRegion rh per)"
  by (auto simp: assoc_ok_def table_ok_def stripRegion_lookup list_all_iff split: option.splits if_splits)

lemma inactivePubs_removeInactiveRegion:
  "inactivePubs (removeInactiveRegion rh st) =
     fmfilter (\<lambda>ob. fmdom (the (fmlookup (fmmap (\<lambda>callers. pruneCallers (fmmap (stripRegion rh) callers)) (inactivePubs st)) ob)) \<noteq> {||})
       (fmmap (\<lambda>callers. pruneCallers (fmmap (stripRegion rh) callers)) (inactivePubs st))"
  by (simp add: removeInactiveRegion_def Let_def)

lemma removeInactiveRegion_ok:
  assumes "inactive_ok own (inactivePubs st)" "\<And>r. r \<noteq> rh \<Longrightarrow> own' r = own r"
  shows "inactive_ok own' (inactivePubs (removeInactiveRegion rh st))"
proof -
  have strip: "assoc_ok (\<lambda>r. own' r = Some h) (stripRegion rh per)" if "assoc_ok (\<lambda>r. own r = Some h) per" for h per
    using stripRegion_ok [OF that, of rh] assms(2) by (elim assoc_ok_mono) simp
  have callers: "callers_ok own' (fmmap (stripRegion rh) callers)" if "inner_ok (\<lambda>h. assoc_ok (\<lambda>r. own r = Some h)) callers" for callers
    using that by (auto simp: callers_ok_def inner_ok_def intro: strip)
  let ?s = "fmmap (\<lambda>callers. pruneCallers (fmmap (stripRegion rh) callers)) (inactivePubs st)"
  show ?thesis
    unfolding inactive_ok_def inner_ok_def [where P = "\<lambda>_. inner_ok P" for P]
  proof (intro allI impI)
    fix ob x
    assume "fmlookup (inactivePubs (removeInactiveRegion rh st)) ob = Some x"
    then have *: "fmlookup (fmfilter (\<lambda>ob. fmdom (the (fmlookup ?s ob)) \<noteq> {||}) ?s) ob = Some x"
      by (simp only: inactivePubs_removeInactiveRegion)
    have x: "fmlookup ?s ob = Some x" "fmdom x \<noteq> {||}"
      using fmfilter_SomeD [OF *] by (metis option.sel)+
    then obtain callers where "fmlookup (inactivePubs st) ob = Some callers" "x = pruneCallers (fmmap (stripRegion rh) callers)"
      by auto
    moreover from this have "inner_ok (\<lambda>h. assoc_ok (\<lambda>r. own r = Some h)) callers"
      using assms(1) by (auto simp: inactive_ok_def dest: inner_okD)
    ultimately show "fmdom x \<noteq> {||} \<and> inner_ok (\<lambda>h. assoc_ok (\<lambda>r. own' r = Some h)) x"
      using x callers callers_ok_prune by blast
  qed
qed

lemma removeInactiveRegion_fields [simp]:
  "ident (removeInactiveRegion rh st) = ident st" "regions (removeInactiveRegion rh st) = regions st"
  "nextRegionHandle (removeInactiveRegion rh st) = nextRegionHandle st" "conveyed (removeInactiveRegion rh st) = conveyed st"
  "conveyedRecipients (removeInactiveRegion rh st) = conveyedRecipients st" "objSubs (removeInactiveRegion rh st) = objSubs st"
  "intSubs (removeInactiveRegion rh st) = intSubs st" "objPubs (removeInactiveRegion rh st) = objPubs st"
  by (simp_all add: removeInactiveRegion_def Let_def)

lemma fBex_ran: "fBex (fmran m) P \<longleftrightarrow> (\<exists>k x. fmlookup m k = Some x \<and> P x)"
  by (blast intro: fmranI)

lemma regionInUse_iff:
  "regionInUse st rh \<longleftrightarrow>
     (\<exists>k rows s. fmlookup (objSubs st) k = Some rows \<and> s \<in> set rows \<and> rh \<in> set (sregions s)) \<or>
     (\<exists>k rows s. fmlookup (intSubs st) k = Some rows \<and> s \<in> set rows \<and> rh \<in> set (iregions s)) \<or>
     (\<exists>ob per a rs. fmlookup (objPubs st) ob = Some per \<and> fmlookup per a = Some rs \<and> rh \<in> set rs)"
  unfolding regionInUse_def regionListed_def fBex_ran list_ex_iff by blast

text \<open>Rows and lists that do not use a region do not notice its deletion.\<close>

lemma rows_ok_unused:
  "rows_ok sub regs own rows \<Longrightarrow> (\<And>s r. s \<in> set rows \<Longrightarrow> r \<in> set (regs s) \<Longrightarrow> own' r = own r) \<Longrightarrow> rows_ok sub regs own' rows"
  by (auto simp: rows_ok_def regions_of_def)

lemma dropRegion_ok:
  assumes "state_ok st" "\<not> regionInUse st rh"
  shows "state_ok (dropRegion rh st)"
proof -
  let ?own = "ownerOf (fmdrop rh (regions st))"
  have same: "?own r = owners st r" if "r \<noteq> rh" for r
    using that by (simp add: ownerOf_def)
  have o: "table_ok (obj.ok ?own) (objSubs st)"
    unfolding table_ok_def
  proof (intro allI impI)
    fix k rows assume rows: "fmlookup (objSubs st) k = Some rows"
    have "obj.ok ?own rows"
    proof (rule rows_ok_unused)
      show "obj.ok (owners st) rows" using state_okD(2) [OF assms(1)] rows by (blast dest: table_okD)
      show "?own r = owners st r" if "s \<in> set rows" "r \<in> set (sregions s)" for s r
        using that rows assms(2) unfolding regionInUse_iff by (intro same notI) blast
    qed
    then show "rows \<noteq> [] \<and> obj.ok ?own rows" using state_okD(2) [OF assms(1)] rows by (blast dest: table_okD)
  qed
  have i: "table_ok (int.ok ?own) (intSubs st)"
    unfolding table_ok_def
  proof (intro allI impI)
    fix k rows assume rows: "fmlookup (intSubs st) k = Some rows"
    have "int.ok ?own rows"
    proof (rule rows_ok_unused)
      show "int.ok (owners st) rows" using state_okD(3) [OF assms(1)] rows by (blast dest: table_okD)
      show "?own r = owners st r" if "s \<in> set rows" "r \<in> set (iregions s)" for s r
        using that rows assms(2) unfolding regionInUse_iff by (intro same notI) blast
    qed
    then show "rows \<noteq> [] \<and> int.ok ?own rows" using state_okD(3) [OF assms(1)] rows by (blast dest: table_okD)
  qed
  have p: "pubs_ok ?own (objPubs st)"
    unfolding pubs_ok_def inner_ok_def
  proof (intro allI impI)
    fix ob per assume per: "fmlookup (objPubs st) ob = Some per"
    then have ok: "fmdom per \<noteq> {||}" "assoc_ok (\<lambda>r. owners st r \<noteq> None) per"
      using assms(1) by (auto simp: state_ok_def pubs_ok_def inner_ok_def)
    have "r \<noteq> rh" if "fmlookup per a = Some rs" "r \<in> set rs" for a rs r
      using that per assms(2) by (auto simp: regionInUse_iff)
    then show "fmdom per \<noteq> {||} \<and> assoc_ok (\<lambda>r. ?own r \<noteq> None) per"
      using ok same by (auto simp: assoc_ok_def table_ok_def list_all_iff)
  qed
  have n: "inactive_ok ?own (inactivePubs (removeInactiveRegion rh (st\<lparr>regions := fmdrop rh (regions st)\<rparr>)))"
    by (rule removeInactiveRegion_ok [where own = "owners st"]) (use assms(1) same in \<open>simp_all add: state_ok_def\<close>)
  have "regions_ok (nextRegionHandle st) (fmdrop rh (regions st))" "conveyed_ok (dropRegion rh st)"
    using assms(1) by (auto simp: state_ok_def regions_ok_def conveyed_ok_def dropRegion_def)
  then show ?thesis
    using o i p n by (intro state_okI) (simp_all add: dropRegion_def)
qed

section \<open>Conveyed regions\<close>

lemma releaseRecipient_fields [simp]:
  "ident (releaseRecipient h rh st) = ident st" "regions (releaseRecipient h rh st) = regions st"
  "nextRegionHandle (releaseRecipient h rh st) = nextRegionHandle st" "objSubs (releaseRecipient h rh st) = objSubs st"
  "intSubs (releaseRecipient h rh st) = intSubs st" "objPubs (releaseRecipient h rh st) = objPubs st"
  "inactivePubs (releaseRecipient h rh st) = inactivePubs st"
  by (simp_all add: releaseRecipient_def pruneConveyedRegion_def split: option.splits)

lemma releaseRecipient_ok:
  assumes "state_ok st"
  shows "state_ok (releaseRecipient h rh st)"
proof -
  have "conveyed_ok (releaseRecipient h rh st)"
  proof (cases "fmlookup (conveyedRecipients st) rh")
    case None
    then show ?thesis
      using assms by (auto simp: state_ok_def conveyed_ok_def releaseRecipient_def pruneConveyedRegion_def inner_def inner_ok_def)
  next
    case (Some rc)
    then have "rh |\<in>| fmdom (conveyed st)"
      using assms by (auto simp: state_ok_def conveyed_ok_def intro: fmdomI)
    then show ?thesis
      using Some assms
      by (auto simp: state_ok_def conveyed_ok_def releaseRecipient_def pruneConveyedRegion_def inner_fmupd inner_ok_def)
  qed
  then show ?thesis
    using assms by (intro state_okI) (simp_all add: state_ok_def)
qed

lemma releaseRecipients_ok: "state_ok st \<Longrightarrow> state_ok (fold (releaseRecipient h) rhs st)"
  by (rule fold_invariant [where Q = "\<lambda>_. True"]) (simp_all add: releaseRecipient_ok)

lemma fold_releaseRecipient_fields:
  "ident (fold (releaseRecipient h) rhs st) = ident st \<and> regions (fold (releaseRecipient h) rhs st) = regions st \<and>
   nextRegionHandle (fold (releaseRecipient h) rhs st) = nextRegionHandle st \<and> objSubs (fold (releaseRecipient h) rhs st) = objSubs st \<and>
   intSubs (fold (releaseRecipient h) rhs st) = intSubs st \<and> objPubs (fold (releaseRecipient h) rhs st) = objPubs st \<and>
   inactivePubs (fold (releaseRecipient h) rhs st) = inactivePubs st"
  by (induction rhs arbitrary: st) simp_all

lemma releaseConveyedReceiver_ok: "state_ok st \<Longrightarrow> state_ok (releaseConveyedReceiver h st)"
  by (simp add: releaseConveyedReceiver_def releaseRecipients_ok)

lemma releaseConveyedReceiver_fields [simp]:
  "ident (releaseConveyedReceiver h st) = ident st" "regions (releaseConveyedReceiver h st) = regions st"
  "nextRegionHandle (releaseConveyedReceiver h st) = nextRegionHandle st" "objSubs (releaseConveyedReceiver h st) = objSubs st"
  "intSubs (releaseConveyedReceiver h st) = intSubs st" "objPubs (releaseConveyedReceiver h st) = objPubs st"
  "inactivePubs (releaseConveyedReceiver h st) = inactivePubs st"
  by (simp_all add: releaseConveyedReceiver_def fold_releaseRecipient_fields)

lemma nextHandle_ok: "state_ok st \<Longrightarrow> nextRegionHandle st \<le> n \<Longrightarrow> state_ok (st\<lparr>nextRegionHandle := n\<rparr>)"
  by (fastforce simp: state_ok_def regions_ok_def conveyed_ok_def)

lemma reserveDesignator_ok: "state_ok st \<Longrightarrow> state_ok (reserveDesignator c st)"
  by (simp add: reserveDesignator_def nextHandle_ok)

lemma lease_ok:
  assumes "state_ok st" "fmlookup (regions st) (Designator c) = None"
  shows "state_ok (prepareLease h c (cacheRealization c st))"
proof -
  let ?d = "Designator c" and ?rc = "inner (conveyedRecipients st) (Designator c)"
  let ?rc' = "if fmlookup ?rc h = None then fmupd h False ?rc else ?rc"
  have conv: "conveyed_ok st"
    using assms(1) by (rule state_okD)
  have "fmdom ?rc' \<noteq> {||}"
    by (cases "fmlookup ?rc h") (auto dest: fmdomI)
  then have "inner_ok (\<lambda>_ _. True) (fmupd ?d ?rc' (conveyedRecipients st))"
    using conv by (auto simp: conveyed_ok_def intro: inner_ok_fmupd)
  moreover have "fmdom (fmupd ?d (Realization c) (conveyed st)) = fmdom (fmupd ?d ?rc' (conveyedRecipients st))"
    using conv by (simp add: conveyed_ok_def)
  moreover have "d \<le> max (nextRegionHandle st) ?d \<and> fmlookup (regions st) d = None"
    if "d |\<in>| fmdom (fmupd ?d (Realization c) (conveyed st))" for d
    using that conv assms(2) by (fastforce simp: conveyed_ok_def)
  ultimately have "conveyed_ok (prepareLease h c (cacheRealization c st))"
    by (simp add: conveyed_ok_def prepareLease_def cacheRealization_def reserveDesignator_def Let_def)
  moreover have "regions_ok (max (nextRegionHandle st) (Designator c)) (regions st)"
    using assms(1) by (fastforce simp: state_ok_def regions_ok_def)
  ultimately show ?thesis
    using assms(1) by (intro state_okI) (simp_all add: state_ok_def prepareLease_def cacheRealization_def reserveDesignator_def Let_def)
qed

end
