(* ===== verification/DDM_Changes.thy ===== *)
theory DDM_Changes
  imports DDM_Keep
begin

text \<open>
  The changes that subscriptions, associations and resignations make, their undo, and the import of
  an image, keep the invariant of the state.
\<close>

section \<open>Validated regions\<close>

lemma firstError_None: "firstError check xs = None \<longleftrightarrow> (\<forall>x\<in>set xs. check x = None)"
  by (induction xs) (auto split: option.splits)

lemma regionError_own: "regionError st caller available r = None \<Longrightarrow> owners st r = Some caller"
  by (auto simp: regionError_def ownerOf_def split: option.splits if_splits)

lemma validateRegions_own: "validateRegions st caller rhs available = None \<Longrightarrow> r \<in> set rhs \<Longrightarrow> owners st r = Some caller"
  by (auto simp: validateRegions_def firstError_None dest: regionError_own)

lemma validateObjectRegions_own:
  "validateObjectRegions st caller attrs rhs required = None \<Longrightarrow> r \<in> set rhs \<Longrightarrow> owners st r = Some caller"
  by (auto simp: validateObjectRegions_def split: option.splits dest: validateRegions_own)

lemma validateGroups_own:
  "validateGroups st caller groups required = None \<Longrightarrow> g \<in> set groups \<Longrightarrow> r \<in> set (Regions g) \<Longrightarrow> owners st r = Some caller"
  by (auto simp: validateGroups_def firstError_None dest: validateObjectRegions_own)

section \<open>Subscriptions\<close>

lemma addObjectSubscription_fields [simp]:
  "ident (addObjectSubscription k s st) = ident st" "regions (addObjectSubscription k s st) = regions st"
  "nextRegionHandle (addObjectSubscription k s st) = nextRegionHandle st" "intSubs (addObjectSubscription k s st) = intSubs st"
  "objPubs (addObjectSubscription k s st) = objPubs st" "inactivePubs (addObjectSubscription k s st) = inactivePubs st"
  "conveyed (addObjectSubscription k s st) = conveyed st" "conveyedRecipients (addObjectSubscription k s st) = conveyedRecipients st"
  by (simp_all add: addObjectSubscription_def)

lemma removeObjectSubscription_fields [simp]:
  "ident (removeObjectSubscriptionRegions k s rs st) = ident st" "regions (removeObjectSubscriptionRegions k s rs st) = regions st"
  "nextRegionHandle (removeObjectSubscriptionRegions k s rs st) = nextRegionHandle st"
  "intSubs (removeObjectSubscriptionRegions k s rs st) = intSubs st"
  "objPubs (removeObjectSubscriptionRegions k s rs st) = objPubs st"
  "inactivePubs (removeObjectSubscriptionRegions k s rs st) = inactivePubs st"
  "conveyed (removeObjectSubscriptionRegions k s rs st) = conveyed st"
  "conveyedRecipients (removeObjectSubscriptionRegions k s rs st) = conveyedRecipients st"
  by (simp_all add: removeObjectSubscriptionRegions_def)

text \<open>A change of one table only.\<close>

lemma state_ok_objSubs: "state_ok st \<Longrightarrow> table_ok (obj.ok (owners st)) m \<Longrightarrow> state_ok (st\<lparr>objSubs := m\<rparr>)"
  by (simp add: state_ok_def conveyed_ok_def)

lemma state_ok_intSubs: "state_ok st \<Longrightarrow> table_ok (int.ok (owners st)) m \<Longrightarrow> state_ok (st\<lparr>intSubs := m\<rparr>)"
  by (simp add: state_ok_def conveyed_ok_def)

lemma state_ok_assocs:
  "state_ok st \<Longrightarrow> pubs_ok (owners st) ps \<Longrightarrow> inactive_ok (owners st) ns \<Longrightarrow> state_ok (st\<lparr>objPubs := ps, inactivePubs := ns\<rparr>)"
  by (simp add: state_ok_def conveyed_ok_def)

lemma objRows_ok: "state_ok st \<Longrightarrow> obj.ok (owners st) (rowsAt (objSubs st) k)"
  by (rule table_ok_rowsAt [OF state_okD(2)]) simp_all

lemma intRows_ok: "state_ok st \<Longrightarrow> int.ok (owners st) (rowsAt (intSubs st) k)"
  by (rule table_ok_rowsAt [OF state_okD(3)]) simp_all

lemma addObjectRows_nonempty: "addObjectRows added kept rows \<noteq> []"
  by (induction added kept rows rule: addObjectRows.induct) (auto simp: Let_def)

lemma addInteractionRows_nonempty: "addInteractionRows added kept rows \<noteq> []"
  by (induction added kept rows rule: addInteractionRows.induct) (auto simp: Let_def)

lemma addObjectSubscription_ok:
  assumes "state_ok st" "sregions s \<noteq> []" "\<forall>r\<in>set (sregions s). owners st r = Some (subscriber s)"
  shows "state_ok (addObjectSubscription k s st)"
  unfolding addObjectSubscription_def
proof (rule state_ok_objSubs [OF assms(1)], rule table_ok_fmupd)
  show "obj.ok (owners st) (addObjectRows s [] (rowsAt (objSubs st) k))"
    by (rule obj.add_ok) (use assms objRows_ok in simp_all)
qed (use assms addObjectRows_nonempty in \<open>simp_all add: state_ok_def\<close>)

lemma removeObjectSubscriptionRegions_ok:
  "state_ok st \<Longrightarrow> rhs \<noteq> [] \<Longrightarrow> state_ok (removeObjectSubscriptionRegions k sub rhs st)"
  unfolding removeObjectSubscriptionRegions_def
  by (intro state_ok_objSubs table_ok_putRows obj.remove_ok) (simp_all add: objRows_ok state_okD)

lemma addObjectSubscriptions_ok:
  assumes "state_ok st" "rhs \<noteq> []" "\<forall>r\<in>set rhs. owners st r = Some sub"
  shows "state_ok (fold (\<lambda>a. addObjectSubscription (cls, a) (newRow sub rhs options)) attrs st)"
proof -
  have "state_ok (fold (\<lambda>a. addObjectSubscription (cls, a) (newRow sub rhs options)) attrs st) \<and>
      regions (fold (\<lambda>a. addObjectSubscription (cls, a) (newRow sub rhs options)) attrs st) = regions st"
    by (rule fold_invariant [where Q = "\<lambda>_. True"])
      (use assms in \<open>auto intro!: addObjectSubscription_ok simp: newRow_def\<close>)
  then show ?thesis by blast
qed

lemma removeObjectSubscriptions_ok:
  "state_ok st \<Longrightarrow> rhs \<noteq> [] \<Longrightarrow> state_ok (fold (\<lambda>a. removeObjectSubscriptionRegions (cls, a) sub rhs) attrs st)"
  by (rule fold_invariant [where Q = "\<lambda>_. True"]) (simp_all add: removeObjectSubscriptionRegions_ok)

lemma changeObjectGroup_fields [simp]:
  "ident (changeObjectGroup sub cls options g st) = ident st \<and> regions (changeObjectGroup sub cls options g st) = regions st \<and>
   nextRegionHandle (changeObjectGroup sub cls options g st) = nextRegionHandle st"
  unfolding changeObjectGroup_def
  by (rule fold_invariant [where Q = "\<lambda>_. True"]) (auto split: option.splits)

lemma changeObjectGroup_ok:
  assumes "state_ok st" "Regions g \<noteq> []" "\<forall>r\<in>set (Regions g). owners st r = Some sub"
  shows "state_ok (changeObjectGroup sub cls options g st)"
  using assms
  by (cases options) (simp_all add: changeObjectGroup_def addObjectSubscriptions_ok removeObjectSubscriptions_ok)

lemma changeObjectGroups_ok:
  assumes "state_ok st" "\<forall>g\<in>set gs. Regions g \<noteq> [] \<and> (\<forall>r\<in>set (Regions g). owners st r = Some sub)"
  shows "state_ok (fold (changeObjectGroup sub cls options) gs st)"
proof -
  have "state_ok (fold (changeObjectGroup sub cls options) gs st) \<and> regions (fold (changeObjectGroup sub cls options) gs st) = regions st"
    by (rule fold_invariant [where Q = "\<lambda>g. Regions g \<noteq> [] \<and> (\<forall>r\<in>set (Regions g). owners st r = Some sub)"])
      (use assms in \<open>auto intro!: changeObjectGroup_ok\<close>)
  then show ?thesis by blast
qed

lemma changeObjectGroups_fields:
  "ident (fold (changeObjectGroup sub cls options) gs st) = ident st \<and>
   regions (fold (changeObjectGroup sub cls options) gs st) = regions st \<and>
   nextRegionHandle (fold (changeObjectGroup sub cls options) gs st) = nextRegionHandle st"
  by (rule fold_invariant [where Q = "\<lambda>_. True"]) auto

lemma fold_subscription_fields:
  "ident (fold (\<lambda>a. addObjectSubscription (cls, a) s) attrs st) = ident st \<and>
   regions (fold (\<lambda>a. addObjectSubscription (cls, a) s) attrs st) = regions st \<and>
   nextRegionHandle (fold (\<lambda>a. addObjectSubscription (cls, a) s) attrs st) = nextRegionHandle st"
  "ident (fold (\<lambda>a. removeObjectSubscriptionRegions (cls, a) sub rhs) attrs st) = ident st \<and>
   regions (fold (\<lambda>a. removeObjectSubscriptionRegions (cls, a) sub rhs) attrs st) = regions st \<and>
   nextRegionHandle (fold (\<lambda>a. removeObjectSubscriptionRegions (cls, a) sub rhs) attrs st) = nextRegionHandle st"
  by (rule fold_invariant [where Q = "\<lambda>_. True"]; simp)+

lemma addInteractionSubscription_ok:
  assumes "state_ok st" "iregions s \<noteq> []" "\<forall>r\<in>set (iregions s). owners st r = Some (isubscriber s)"
  shows "state_ok (addInteractionSubscription cls s st)"
  unfolding addInteractionSubscription_def
proof (rule state_ok_intSubs [OF assms(1)], rule table_ok_fmupd)
  show "int.ok (owners st) (addInteractionRows s [] (rowsAt (intSubs st) cls))"
    by (rule int.add_ok) (use assms intRows_ok in simp_all)
qed (use assms addInteractionRows_nonempty in \<open>simp_all add: state_ok_def\<close>)

lemma removeInteraction_ok:
  "state_ok st \<Longrightarrow> rhs \<noteq> [] \<Longrightarrow>
   state_ok (st\<lparr>intSubs := putRows cls (removeInteractionRegions (rowsAt (intSubs st) cls) sub rhs) (intSubs st)\<rparr>)"
  by (intro state_ok_intSubs table_ok_putRows int.remove_ok) (simp_all add: intRows_ok state_okD)

section \<open>Undoing subscriptions\<close>

lemma removeObjSubs_lookup:
  "fmlookup (removeObjSubs sub cls m) k =
     (case fmlookup m k of
        None \<Rightarrow> None
      | Some rows \<Rightarrow>
          if fst k \<noteq> cls then Some rows
          else if filter (\<lambda>r. subscriber r \<noteq> sub) rows = [] then None
          else Some (filter (\<lambda>r. subscriber r \<noteq> sub) rows))"
  by (auto simp: removeObjSubs_def Let_def split: option.splits)

text \<open>The saved rows of a subscriber and a class.\<close>

definition saved_rows_ok :: "handle \<Rightarrow> nat \<Rightarrow> (nat \<times> nat, subscription list) fmap \<Rightarrow> federationDDMState \<Rightarrow> bool" where
  "saved_rows_ok sub cls saved st \<longleftrightarrow> (\<forall>k rows. fmlookup saved k = Some rows \<longrightarrow>
     fst k = cls \<and> rows \<noteq> [] \<and> obj.ok (owners st) rows \<and> (\<forall>s\<in>set rows. subscriber s = sub))"

lemma restoreObjectRows_ok:
  assumes "state_ok st" "saved_rows_ok sub cls saved st"
  shows "state_ok (restoreObjectRows sub cls saved st)"
proof -
  let ?c = "removeObjSubs sub cls (objSubs st)"
  have cleared: "rows \<noteq> [] \<and> obj.ok (owners st) rows \<and> (fst k = cls \<longrightarrow> (\<forall>s\<in>set rows. subscriber s \<noteq> sub))"
    if look: "fmlookup ?c k = Some rows" for k rows
  proof -
    obtain old where old: "fmlookup (objSubs st) k = Some old"
      using look by (cases "fmlookup (objSubs st) k") (simp_all add: removeObjSubs_lookup)
    have "old \<noteq> []" "obj.ok (owners st) old"
      using table_okD [OF state_okD(2) [OF assms(1)] old] by blast+
    then show ?thesis
      using look old by (auto simp: removeObjSubs_lookup rows_ok_filter split: if_splits)
  qed
  have "rows \<noteq> [] \<and> obj.ok (owners st) rows" if look: "fmlookup (?c ++\<^sub>f fmmap_keys (\<lambda>k rows. rowsAt ?c k @ rows) saved) k = Some rows" for k rows
  proof (cases "fmlookup saved k")
    case None
    then have "fmlookup ?c k = Some rows"
      using look by (auto simp: fmlookup_dom_iff split: if_splits)
    then show ?thesis using cleared by blast
  next
    case (Some old)
    then have rows: "rows = rowsAt ?c k @ old"
      using look by (auto simp: fmlookup_dom_iff split: if_splits)
    have old: "fst k = cls" "old \<noteq> []" "obj.ok (owners st) old" "\<forall>s\<in>set old. subscriber s = sub"
      using assms(2) Some unfolding saved_rows_ok_def by blast+
    have "obj.ok (owners st) (rowsAt ?c k)" "\<forall>s\<in>set (rowsAt ?c k). subscriber s \<noteq> sub"
      using cleared [of k] old(1) by (cases "fmlookup ?c k"; simp add: rowsAt_def)+
    then show ?thesis
      using rows old by (auto simp: rows_ok_append)
  qed
  then have "table_ok (obj.ok (owners st)) (?c ++\<^sub>f fmmap_keys (\<lambda>k rows. rowsAt ?c k @ rows) saved)"
    unfolding table_ok_def by blast
  then show ?thesis
    unfolding restoreObjectRows_def Let_def by (rule state_ok_objSubs [OF assms(1)])
qed

lemma savedObjectRows_lookup:
  "fmlookup (savedObjectRows sub cls st) k =
     (case fmlookup (objSubs st) k of
        None \<Rightarrow> None
      | Some rows \<Rightarrow>
          if fst k = cls \<and> filter (\<lambda>r. subscriber r = sub) rows \<noteq> [] then Some (filter (\<lambda>r. subscriber r = sub) rows) else None)"
  by (auto simp: savedObjectRows_def Let_def split: option.splits)

lemma savedObjectRows_ok: "state_ok st \<Longrightarrow> saved_rows_ok sub cls (savedObjectRows sub cls st) st"
proof -
  assume "state_ok st"
  then have "obj.ok (owners st) rows" if "fmlookup (objSubs st) k = Some rows" for k rows
    using table_okD [OF state_okD(2) that] by blast
  then show ?thesis
    unfolding saved_rows_ok_def savedObjectRows_lookup
    by (auto split: option.splits if_splits intro!: rows_ok_filter)
qed

lemma restoreInteractionRows_ok:
  assumes "state_ok st" "int.ok (owners st) saved" "\<forall>s\<in>set saved. isubscriber s = sub"
  shows "state_ok (restoreInteractionRows sub cls saved st)"
proof -
  have "int.ok (owners st) (filter (\<lambda>r. isubscriber r \<noteq> sub) (rowsAt (intSubs st) cls) @ saved)"
    using assms intRows_ok [OF assms(1), of cls] by (auto simp: rows_ok_append rows_ok_filter)
  then show ?thesis
    unfolding restoreInteractionRows_def Let_def
    by (intro state_ok_intSubs table_ok_putRows) (simp_all add: assms(1) state_okD)
qed

section \<open>Associations\<close>

lemma setObjectView_fields [simp]:
  "ident (setObjectView ob v st) = ident st" "regions (setObjectView ob v st) = regions st"
  "nextRegionHandle (setObjectView ob v st) = nextRegionHandle st" "conveyed (setObjectView ob v st) = conveyed st"
  "conveyedRecipients (setObjectView ob v st) = conveyedRecipients st" "objSubs (setObjectView ob v st) = objSubs st"
  "intSubs (setObjectView ob v st) = intSubs st"
  by (simp_all add: setObjectView_def)

lemma setObjectView_state_ok:
  assumes "state_ok st" "view_ok (owners st) v"
  shows "state_ok (setObjectView ob v st)"
  using assms setObjectView_ok [OF state_okD(4,5) [OF assms(1)] assms(2), of ob]
  by (intro state_okI) (simp_all add: state_ok_def conveyed_ok_def)

lemma objectView_ok: "state_ok st \<Longrightarrow> view_ok (owners st) (objectView st ob)"
  by (rule view_ok_objectView) (simp_all add: state_okD)

lemma clearObjectAssociations_ok: "state_ok st \<Longrightarrow> state_ok (clearObjectAssociations ob h st)"
  unfolding clearObjectAssociations_def by (intro setObjectView_state_ok forgetCaller_ok objectView_ok)

lemma applyOwnershipChange_ok: "state_ok st \<Longrightarrow> state_ok (applyOwnershipChange ob before after st)"
  unfolding applyOwnershipChange_def by (intro setObjectView_state_ok ownershipChange_ok objectView_ok)

lemma changeAssociationGroup_ok:
  assumes "state_ok st" "\<forall>r\<in>set (Regions g). owners st r = Some caller" "Regions g \<noteq> [] \<or> removing mode \<or> mode = associationReplace"
  shows "state_ok (changeAssociationGroup ob caller os mode g st)"
  unfolding changeAssociationGroup_def
  by (intro setObjectView_state_ok changeAttributes_ok objectView_ok) (use assms in auto)

lemma changeAssociationGroup_fields [simp]:
  "ident (changeAssociationGroup ob caller os mode g st) = ident st"
  "regions (changeAssociationGroup ob caller os mode g st) = regions st"
  "nextRegionHandle (changeAssociationGroup ob caller os mode g st) = nextRegionHandle st"
  by (simp_all add: changeAssociationGroup_def)

lemma changeAssociationGroups_fields:
  "ident (fold (changeAssociationGroup ob caller os mode) gs st) = ident st \<and>
   regions (fold (changeAssociationGroup ob caller os mode) gs st) = regions st \<and>
   nextRegionHandle (fold (changeAssociationGroup ob caller os mode) gs st) = nextRegionHandle st"
  by (rule fold_invariant [where Q = "\<lambda>_. True"]) simp_all

lemma changeAssociationGroups_ok:
  assumes "state_ok st" "\<forall>g\<in>set gs. \<not> skipped mode g \<and> (\<forall>r\<in>set (Regions g). owners st r = Some caller)"
  shows "state_ok (fold (changeAssociationGroup ob caller os mode) gs st)"
proof -
  have "state_ok (fold (changeAssociationGroup ob caller os mode) gs st) \<and>
      regions (fold (changeAssociationGroup ob caller os mode) gs st) = regions st"
    by (rule fold_invariant [where Q = "\<lambda>g. \<not> skipped mode g \<and> (\<forall>r\<in>set (Regions g). owners st r = Some caller)"])
      (use assms in \<open>auto intro!: changeAssociationGroup_ok simp: skipped_def removing_def\<close>)
  then show ?thesis by blast
qed

lemma clearObjectAssociations_fields [simp]:
  "ident (clearObjectAssociations ob h st) = ident st" "regions (clearObjectAssociations ob h st) = regions st"
  "nextRegionHandle (clearObjectAssociations ob h st) = nextRegionHandle st"
  by (simp_all add: clearObjectAssociations_def)

lemma forgetFederateAssociations_ok: "state_ok st \<Longrightarrow> state_ok (forgetFederateAssociations h st)"
  unfolding forgetFederateAssociations_def Let_def
  by (rule fold_invariant [where Q = "\<lambda>_. True"]) (simp_all add: clearObjectAssociations_ok releaseConveyedReceiver_ok)

lemma forgetFederateAssociations_fields [simp]:
  "ident (forgetFederateAssociations h st) = ident st" "regions (forgetFederateAssociations h st) = regions st"
  "nextRegionHandle (forgetFederateAssociations h st) = nextRegionHandle st"
proof -
  have "ident (forgetFederateAssociations h st) = ident st \<and> regions (forgetFederateAssociations h st) = regions st \<and>
      nextRegionHandle (forgetFederateAssociations h st) = nextRegionHandle st"
    unfolding forgetFederateAssociations_def Let_def
    by (rule fold_invariant [where Q = "\<lambda>_. True"]) simp_all
  then show "ident (forgetFederateAssociations h st) = ident st" "regions (forgetFederateAssociations h st) = regions st"
    "nextRegionHandle (forgetFederateAssociations h st) = nextRegionHandle st" by blast+
qed

lemma forgetObject_ok:
  "state_ok st \<Longrightarrow> state_ok (st\<lparr>objPubs := fmdrop ob (objPubs st), inactivePubs := fmdrop ob (inactivePubs st)\<rparr>)"
  by (rule state_ok_assocs) (auto simp: state_ok_def pubs_ok_def inactive_ok_def intro: inner_ok_fmdrop)

lemma forgetInactive_state_ok:
  assumes "state_ok st"
  shows "state_ok (st\<lparr>inactivePubs := putInner ob (pruneCallers (fmdrop h (inner (inactivePubs st) ob))) (inactivePubs st)\<rparr>)"
proof -
  have "callers_ok (owners st) (fmdrop h (inner (inactivePubs st) ob))"
    using objectView_ok [OF assms, of ob] by (auto simp: view_ok_def objectView_def intro: callers_ok_fmdrop)
  then have "inactive_ok (owners st) (putInner ob (pruneCallers (fmdrop h (inner (inactivePubs st) ob))) (inactivePubs st))"
    using state_okD(5) [OF assms] unfolding inactive_ok_def by (intro inner_ok_putInner callers_ok_prune)
  then have "state_ok (st\<lparr>objPubs := objPubs st, inactivePubs := putInner ob (pruneCallers (fmdrop h (inner (inactivePubs st) ob))) (inactivePubs st)\<rparr>)"
    using state_okD(4) [OF assms] by (intro state_ok_assocs [OF assms])
  then show ?thesis by simp
qed

lemma restoreAssociations_ok:
  assumes "state_ok st" "assoc_ok (\<lambda>r. owners st r \<noteq> None) (fst v)" "inner_ok (\<lambda>h. assoc_ok (\<lambda>r. owners st r = Some h)) (snd v)"
  shows "state_ok (restoreAssociations ob v st)"
  unfolding restoreAssociations_def
  by (intro state_ok_assocs)
    (use assms in \<open>auto simp: state_ok_def pubs_ok_def inactive_ok_def intro!: inner_ok_putInner\<close>)

lemma register_ok:
  assumes "state_ok st" "assoc_ok (\<lambda>r. owners st r \<noteq> None) b" "fmdom b \<noteq> {||}"
  shows "state_ok (st\<lparr>objPubs := fmupd ob b (objPubs st)\<rparr>)"
proof -
  have "pubs_ok (owners st) (fmupd ob b (objPubs st))"
    using assms unfolding pubs_ok_def by (intro inner_ok_fmupd) (auto simp: state_ok_def pubs_ok_def)
  then have "state_ok (st\<lparr>objPubs := fmupd ob b (objPubs st), inactivePubs := inactivePubs st\<rparr>)"
    using state_okD(5) [OF assms(1)] by (intro state_ok_assocs [OF assms(1)])
  then show ?thesis by simp
qed

section \<open>Resignation\<close>

lemma dropRegions_fields:
  "ident (fold dropRegion rhs st) = ident st \<and> nextRegionHandle (fold dropRegion rhs st) = nextRegionHandle st \<and>
   conveyed (fold dropRegion rhs st) = conveyed st \<and> conveyedRecipients (fold dropRegion rhs st) = conveyedRecipients st \<and>
   objSubs (fold dropRegion rhs st) = objSubs st \<and> intSubs (fold dropRegion rhs st) = intSubs st \<and>
   objPubs (fold dropRegion rhs st) = objPubs st"
  by (induction rhs arbitrary: st) (simp_all add: dropRegion_def)

lemma dropRegions_regions:
  "fmlookup (regions (fold dropRegion rhs st)) r = (if r \<in> set rhs then None else fmlookup (regions st) r)"
  by (induction rhs arbitrary: st) (simp_all add: dropRegion_def)

lemma dropRegions_inactive:
  "inactive_ok (owners st) (inactivePubs st) \<Longrightarrow> inactive_ok (owners (fold dropRegion rhs st)) (inactivePubs (fold dropRegion rhs st))"
proof (induction rhs arbitrary: st)
  case (Cons r rhs)
  have "inactive_ok (owners (dropRegion r st)) (inactivePubs (dropRegion r st))"
    unfolding dropRegion_def
    by (rule removeInactiveRegion_ok [where own = "owners st"], use Cons.prems in simp) (simp add: ownerOf_def)
  then show ?case using Cons.IH by simp
qed simp

lemma dropCaller_ok:
  assumes "inactive_ok own (inactivePubs st)"
  shows "inactive_ok own (inactivePubs (dropCaller h st))"
proof -
  let ?m = "fmmap (\<lambda>callers. pruneCallers (fmdrop h callers)) (inactivePubs st)"
  have look: "inactivePubs (dropCaller h st) = fmfilter (\<lambda>ob. fmdom (inner ?m ob) \<noteq> {||}) ?m"
    by (simp add: dropCaller_def Let_def)
  show ?thesis
    unfolding inactive_ok_def inner_ok_def [where P = "\<lambda>_. inner_ok P" for P]
  proof (intro allI impI)
    fix ob x assume "fmlookup (inactivePubs (dropCaller h st)) ob = Some x"
    then have *: "fmlookup (fmfilter (\<lambda>ob. fmdom (inner ?m ob) \<noteq> {||}) ?m) ob = Some x"
      by (simp only: look)
    have x: "fmlookup ?m ob = Some x" "fmdom (inner ?m ob) \<noteq> {||}"
      using fmfilter_SomeD [OF *] by blast+
    then obtain callers where c: "fmlookup (inactivePubs st) ob = Some callers" "x = pruneCallers (fmdrop h callers)"
      by auto
    then have "inner_ok (\<lambda>h. assoc_ok (\<lambda>r. own r = Some h)) callers"
      using assms by (auto simp: inactive_ok_def dest: inner_okD)
    then have "inner_ok (\<lambda>h. assoc_ok (\<lambda>r. own r = Some h)) x"
      unfolding c(2) by (intro callers_ok_prune callers_ok_fmdrop inner_ok_callers)
    moreover have "inner ?m ob = x"
      by (simp only: inner_def x(1) option.case)
    ultimately show "fmdom x \<noteq> {||} \<and> inner_ok (\<lambda>h. assoc_ok (\<lambda>r. own r = Some h)) x"
      using x(2) by simp
  qed
qed

text \<open>Rows of the other federates, restricted to the regions that are left.\<close>

lemma regions_of_keep:
  assumes "regions_of own h rhs" "keepRegions rg rhs \<noteq> []" "\<And>r. r \<in> set rhs \<Longrightarrow> fmlookup rg r \<noteq> None \<Longrightarrow> ownerOf rg r = own r"
  shows "regions_of (ownerOf rg) h (keepRegions rg rhs)"
  using assms by (auto simp: regions_of_def keepRegions_def sorted_wrt_filter)

lemma keepObjectRows_ok:
  assumes "obj.ok own rows" "\<And>r. fmlookup rg r \<noteq> None \<Longrightarrow> ownerOf rg r = own r"
  shows "obj.ok (ownerOf rg) (keepObjectRows rg h rows)"
  using assms(1)
proof (induction rows)
  case (Cons s rows)
  let ?k = "keepRegions rg (sregions s)"
  have sub: "\<exists>u\<in>set rows. subscriber u = subscriber t \<and> set (sregions t) \<subseteq> set (sregions u)"
    if "t \<in> set (keepObjectRows rg h rows)" for t
    using that by (force simp: keepObjectRows_def keepRegions_def)
  have "regions_of own (subscriber s) (sregions s)"
    using Cons.prems by (simp add: rows_ok_Cons)
  then have "?k \<noteq> [] \<Longrightarrow> regions_of (ownerOf rg) (subscriber s) ?k"
    using assms(2) by (intro regions_of_keep)
  moreover have "\<forall>t\<in>set (keepObjectRows rg h rows). subscriber s = subscriber t \<longrightarrow> set ?k \<inter> set (sregions t) = {}"
    using Cons.prems sub by (fastforce simp: rows_ok_Cons keepRegions_def)
  moreover have "obj.ok (ownerOf rg) (keepObjectRows rg h rows)"
    using Cons by (simp add: rows_ok_Cons)
  ultimately show ?case
    by (simp add: keepObjectRows_def rows_ok_Cons)
qed (simp add: keepObjectRows_def)

lemma keepInteractionRows_ok:
  assumes "int.ok own rows" "\<And>r. fmlookup rg r \<noteq> None \<Longrightarrow> ownerOf rg r = own r"
  shows "int.ok (ownerOf rg) (keepInteractionRows rg h rows)"
  using assms(1)
proof (induction rows)
  case (Cons s rows)
  let ?k = "keepRegions rg (iregions s)"
  have sub: "\<exists>u\<in>set rows. isubscriber u = isubscriber t \<and> set (iregions t) \<subseteq> set (iregions u)"
    if "t \<in> set (keepInteractionRows rg h rows)" for t
    using that by (force simp: keepInteractionRows_def keepRegions_def)
  have "regions_of own (isubscriber s) (iregions s)"
    using Cons.prems by (simp add: rows_ok_Cons)
  then have "?k \<noteq> [] \<Longrightarrow> regions_of (ownerOf rg) (isubscriber s) ?k"
    using assms(2) by (intro regions_of_keep)
  moreover have "\<forall>t\<in>set (keepInteractionRows rg h rows). isubscriber s = isubscriber t \<longrightarrow> set ?k \<inter> set (iregions t) = {}"
    using Cons.prems sub by (fastforce simp: rows_ok_Cons keepRegions_def)
  moreover have "int.ok (ownerOf rg) (keepInteractionRows rg h rows)"
    using Cons by (simp add: rows_ok_Cons)
  ultimately show ?case
    by (simp add: keepInteractionRows_def rows_ok_Cons)
qed (simp add: keepInteractionRows_def)

lemma keepAssociations_ok:
  assumes "pubs_ok own (objPubs st)"
  shows "pubs_ok (owners st) (objPubs (keepAssociations st))"
proof -
  let ?m = "fmmap (mapRows (keepRegions (regions st))) (objPubs st)"
  have look: "objPubs (keepAssociations st) = fmfilter (\<lambda>ob. fmdom (inner ?m ob) \<noteq> {||}) ?m"
    by (simp add: keepAssociations_def Let_def)
  show ?thesis
    unfolding pubs_ok_def inner_ok_def
  proof (intro allI impI)
    fix ob x assume "fmlookup (objPubs (keepAssociations st)) ob = Some x"
    then have *: "fmlookup (fmfilter (\<lambda>ob. fmdom (inner ?m ob) \<noteq> {||}) ?m) ob = Some x"
      by (simp only: look)
    have x: "fmlookup ?m ob = Some x" "fmdom (inner ?m ob) \<noteq> {||}"
      using fmfilter_SomeD [OF *] by blast+
    then obtain per where per: "fmlookup (objPubs st) ob = Some per" "x = mapRows (keepRegions (regions st)) per"
      by auto
    then have "table_ok (list_all (\<lambda>r. own r \<noteq> None)) per"
      using assms by (auto simp: pubs_ok_def assoc_ok_def dest: inner_okD)
    then have "assoc_ok (\<lambda>r. owners st r \<noteq> None) x"
      unfolding assoc_ok_def per(2)
      by (rule table_ok_mapRows) (auto simp: list_all_iff keepRegions_def ownerOf_def)
    moreover have "inner ?m ob = x"
      by (simp only: inner_def x(1) option.case)
    ultimately show "fmdom x \<noteq> {||} \<and> assoc_ok (\<lambda>r. owners st r \<noteq> None) x"
      using x(2) by simp
  qed
qed

lemma removeFederateState_ok:
  assumes "state_ok st"
  shows "state_ok (removeFederateState h st)"
proof -
  define st1 where "st1 = releaseConveyedReceiver h st"
  define st2 where "st2 = fold dropRegion (ownedRegions h st1) st1"
  have ok1: "state_ok st1"
    unfolding st1_def using assms by (rule releaseConveyedReceiver_ok)
  have look: "fmlookup (regions st2) r \<noteq> None \<Longrightarrow> fmlookup (regions st2) r = fmlookup (regions st1) r" for r
    by (auto simp: st2_def dropRegions_regions)
  then have own: "owners st2 r = owners st1 r" if "fmlookup (regions st2) r \<noteq> None" for r
    using that by (simp add: ownerOf_def)
  have fields: "nextRegionHandle st2 = nextRegionHandle st1" "objSubs st2 = objSubs st1" "intSubs st2 = intSubs st1"
    "objPubs st2 = objPubs st1" "conveyed st2 = conveyed st1" "conveyedRecipients st2 = conveyedRecipients st1"
    unfolding st2_def using dropRegions_fields by blast+
  have "regions_ok (nextRegionHandle st2) (regions st2)"
    unfolding regions_ok_def
  proof (intro allI impI)
    fix rh rs assume "fmlookup (regions st2) rh = Some rs"
    then have "fmlookup (regions st1) rh = Some rs" using look [of rh] by simp
    then show "region_ok rs \<and> 0 < rh \<and> rh \<le> nextRegionHandle st2"
      using state_okD(1) [OF ok1] fields(1) by (simp add: regions_ok_def)
  qed
  moreover have "fmlookup (regions st2) d = None" if "fmlookup (regions st1) d = None" for d
    using that by (simp add: st2_def dropRegions_regions)
  then have "conveyed_ok st2"
    using state_okD(6) [OF ok1] fields by (auto simp: conveyed_ok_def)
  moreover have "inactive_ok (owners st2) (inactivePubs (dropCaller h st2))"
    by (rule dropCaller_ok) (simp add: st2_def dropRegions_inactive state_okD(5) [OF ok1])
  moreover have "table_ok (obj.ok (owners st2)) (mapRows (keepObjectRows (regions st2) h) (objSubs st2))"
    unfolding fields by (rule table_ok_mapRows [OF state_okD(2) [OF ok1]]) (rule keepObjectRows_ok, assumption, rule own)
  moreover have "table_ok (int.ok (owners st2)) (mapRows (keepInteractionRows (regions st2) h) (intSubs st2))"
    unfolding fields by (rule table_ok_mapRows [OF state_okD(3) [OF ok1]]) (rule keepInteractionRows_ok, assumption, rule own)
  moreover define st4 where "st4 = removeFederateSubscriptions h (dropCaller h st2)"
  moreover have fields4: "regions st4 = regions st2" "objPubs st4 = objPubs st2" "nextRegionHandle st4 = nextRegionHandle st2"
    "conveyed st4 = conveyed st2" "conveyedRecipients st4 = conveyedRecipients st2"
    "objSubs st4 = mapRows (keepObjectRows (regions st2) h) (objSubs st2)"
    "intSubs st4 = mapRows (keepInteractionRows (regions st2) h) (intSubs st2)"
    "inactivePubs st4 = inactivePubs (dropCaller h st2)"
    unfolding st4_def removeFederateSubscriptions_def dropCaller_def by simp_all
  moreover have "pubs_ok (owners st4) (objPubs (keepAssociations st4))"
    by (rule keepAssociations_ok [of "owners st1"]) (simp add: fields4 fields state_okD(4) [OF ok1])
  ultimately have "state_ok (keepAssociations st4)"
    by (intro state_okI) (simp_all add: keepAssociations_def conveyed_ok_def Let_def)
  then show ?thesis
    unfolding st4_def st2_def st1_def removeFederateState_def Let_def .
qed

lemma removeFederateState_ident [simp]: "ident (removeFederateState h st) = ident st"
  by (simp add: removeFederateState_def Let_def keepAssociations_def removeFederateSubscriptions_def dropCaller_def dropRegions_fields)

end
