(* ===== verification/DDM_Restore.thy ===== *)
theory DDM_Restore
  imports DDM_Changes "HOL-Library.Multiset"
begin

text \<open>
  Importing an exported image gives back the regions, the associations and the conveyed copies, and
  the subscription rows in their canonical order.
\<close>

section \<open>Maps listed and folded back\<close>

lemma sorted_distinct_fset [simp]: "distinct (sorted_list_of_fset A)" "sorted (sorted_list_of_fset A)"
  by (simp_all add: sorted_list_of_fset.rep_eq)

lemma keys_listed [simp]: "map fst (listed m) = sorted_list_of_fset (fmdom m)"
  by (simp add: listed_def comp_def)

lemma fst_listed: "fst ` set (listed m) = fset (fmdom m)"
proof -
  have "set (map fst (listed m)) = fset (fmdom m)" by simp
  then show ?thesis by (simp only: set_map)
qed

lemma in_set_listed: "(k, v) \<in> set (listed m) \<longleftrightarrow> fmlookup m k = Some v"
  by (auto simp: listed_def fmlookup_dom_iff)

lemma map_of_listed [simp]: "map_of (listed m) = fmlookup m"
proof
  fix k
  have "distinct (map fst (listed m))" by simp
  then show "map_of (listed m) k = fmlookup m k"
  proof (cases "fmlookup m k")
    case None
    then have "k \<notin> fst ` set (listed m)"
      by (metis in_set_listed imageE option.distinct(1) prod.collapse)
    then show ?thesis using None by (simp add: map_of_eq_None_iff)
  next
    case (Some v)
    then show ?thesis using \<open>distinct _\<close> by (simp add: in_set_listed)
  qed
qed

lemma fold_concat_map: "fold f (concat (map (\<lambda>(k, v). g k v) xs)) m = fold (\<lambda>(k, v). fold f (g k v)) xs m"
  by (induction xs arbitrary: m) auto

text \<open>
  If the block of every key stores a result for that key, when it is not yet bound, then the blocks
  of a map store the results of all keys.
\<close>

lemma fold_blocks_aux:
  assumes "distinct (map fst xs)" "\<forall>k\<in>fst ` set xs. fmlookup acc k = None"
    "\<And>k v m. (k, v) \<in> set xs \<Longrightarrow> fmlookup m k = None \<Longrightarrow> blk k v m = fmupd k (res v) m"
  shows "fmlookup (fold (\<lambda>(k, v). blk k v) xs acc) j =
    (case map_of xs j of Some v \<Rightarrow> Some (res v) | None \<Rightarrow> fmlookup acc j)"
  using assms
proof (induction xs arbitrary: acc)
  case (Cons x xs)
  obtain k v where x: "x = (k, v)" by (cases x)
  have step: "blk k v acc = fmupd k (res v) acc"
    using Cons.prems(2,3) x by simp
  have IH: "fmlookup (fold (\<lambda>(k, v). blk k v) xs (fmupd k (res v) acc)) j =
      (case map_of xs j of Some v \<Rightarrow> Some (res v) | None \<Rightarrow> fmlookup (fmupd k (res v) acc) j)"
    using Cons.prems x by (intro Cons.IH) auto
  moreover have "map_of xs k = None"
    using Cons.prems(1) x by (auto simp: map_of_eq_None_iff)
  ultimately show ?case
    using x step by (auto split: option.splits)
qed simp

lemma fold_blocks:
  assumes "\<And>k v m'. fmlookup m k = Some v \<Longrightarrow> fmlookup m' k = None \<Longrightarrow> blk k v m' = fmupd k (res v) m'"
  shows "fold (\<lambda>(k, v). blk k v) (listed m) fmempty = fmmap res m"
proof (rule fmap_ext)
  fix j
  have "fmlookup (fold (\<lambda>(k, v). blk k v) (listed m) fmempty) j =
      (case map_of (listed m) j of Some v \<Rightarrow> Some (res v) | None \<Rightarrow> fmlookup fmempty j)"
    by (rule fold_blocks_aux) (use assms in \<open>auto simp: in_set_listed\<close>)
  then show "fmlookup (fold (\<lambda>(k, v). blk k v) (listed m) fmempty) j = fmlookup (fmmap res m) j"
    by (simp split: option.splits)
qed

lemma fmmap_id: "fmmap (\<lambda>x. x) m = m"
  by (rule fmap_ext) (simp add: option.map_ident)

lemma fold_listed: "fold (\<lambda>(k, v). fmupd k v) (listed m) fmempty = m"
  by (simp add: fold_blocks [where res = "\<lambda>x. x"] fmmap_id)

lemma listed_Nil_iff: "listed m = [] \<longleftrightarrow> fmdom m = {||}"
proof -
  have "set (map fst (listed m)) = fset (fmdom m)" by simp
  then show ?thesis by (metis bot_fset.rep_eq fset_inject list.map_disc_iff set_empty)
qed

text \<open>Updating one inner map, or one list of rows, several times.\<close>

lemma fold_inner:
  "xs \<noteq> [] \<Longrightarrow> fold (\<lambda>x m. fmupd k (g x (inner m k)) m) xs m = fmupd k (fold g xs (inner m k)) m"
proof (induction xs arbitrary: m)
  case (Cons x xs)
  then show ?case by (cases "xs = []") (simp_all add: inner_fmupd)
qed simp

lemma fold_appendRow: "xs \<noteq> [] \<Longrightarrow> fold (appendRow k) xs m = fmupd k (rowsAt m k @ xs) m"
proof (induction xs arbitrary: m)
  case (Cons x xs)
  then show ?case by (cases "xs = []") (simp_all add: appendRow_def rowsAt_fmupd)
qed simp

section \<open>Fields of the image\<close>

lemma importRanges_exportRanges [simp]: "importRanges (exportRanges m) = m"
  by (simp add: importRanges_def exportRanges_def fold_listed)

lemma import_regions: "fold importRegion (map exportRegion (listed rg)) fmempty = rg"
proof -
  have "importRegion (exportRegion (k, v)) = fmupd k v" for k v
    by (cases v) (simp add: fun_eq_iff importRegion_def exportRegion_def)
  then have "importRegion \<circ> exportRegion = (\<lambda>(k, v). fmupd k v)"
    by (auto simp: fun_eq_iff)
  then show ?thesis by (simp add: fold_map fold_listed)
qed

lemma import_publications:
  assumes "inner_ok P m"
  shows "fold importPublication (concat (map (\<lambda>(ob, per). map (\<lambda>(a, rhs). \<lparr>opObject = ob, opAttribute = a, opRegions = rhs\<rparr>) (listed per))
    (listed m))) fmempty = m"
proof -
  have entry: "importPublication \<lparr>opObject = ob, opAttribute = a, opRegions = rhs\<rparr> = (\<lambda>m. fmupd ob (fmupd a rhs (inner m ob)) m)" for ob a rhs
    by (simp add: fun_eq_iff importPublication_def)
  have "fold importPublication (map (\<lambda>(a, rhs). \<lparr>opObject = ob, opAttribute = a, opRegions = rhs\<rparr>) (listed per)) m' = fmupd ob per m'"
    if per: "fmlookup m ob = Some per" and new: "fmlookup m' ob = None" for ob per m'
  proof -
    have "fold importPublication (map (\<lambda>(a, rhs). \<lparr>opObject = ob, opAttribute = a, opRegions = rhs\<rparr>) (listed per)) m' =
        fold (\<lambda>x m. fmupd ob ((\<lambda>(a, rhs). fmupd a rhs) x (inner m ob)) m) (listed per) m'"
      by (simp add: fold_map comp_def entry case_prod_beta')
    also have "\<dots> = fmupd ob (fold (\<lambda>(a, rhs). fmupd a rhs) (listed per) (inner m' ob)) m'"
      using inner_okD [OF assms per] by (intro fold_inner) (simp add: listed_Nil_iff)
    finally show ?thesis using new by (simp add: inner_def fold_listed)
  qed
  then have "fold (\<lambda>(ob, per). fold importPublication (map (\<lambda>(a, rhs). \<lparr>opObject = ob, opAttribute = a, opRegions = rhs\<rparr>) (listed per)))
      (listed m) fmempty = fmmap (\<lambda>x. x) m"
    by (rule fold_blocks)
  then show ?thesis by (simp add: fold_concat_map fmmap_id)
qed

lemma import_rows:
  assumes "table_ok P m" "\<And>rows. rows \<noteq> [] \<Longrightarrow> ex rows \<noteq> []"
  shows "fold (\<lambda>(k, r). appendRow k r) (concat (map (\<lambda>(k, rows). map (Pair k) (ex rows)) (listed m))) fmempty = fmmap ex m"
proof -
  have "fold (\<lambda>(k, r). appendRow k r) (map (Pair k) (ex rows)) m' = fmupd k (ex rows) m'"
    if "fmlookup m k = Some rows" "fmlookup m' k = None" for k rows m'
  proof -
    have "fold (\<lambda>(k, r). appendRow k r) (map (Pair k) (ex rows)) m' = fold (appendRow k) (ex rows) m'"
      by (simp add: fold_map comp_def)
    also have "\<dots> = fmupd k (rowsAt m' k @ ex rows) m'"
      using table_okD [OF assms(1) that(1)] assms(2) by (intro fold_appendRow) blast
    finally show ?thesis using that(2) by (simp add: rowsAt_def)
  qed
  then have "fold (\<lambda>(k, rows). fold (\<lambda>(k, r). appendRow k r) (map (Pair k) (ex rows))) (listed m) fmempty = fmmap ex m"
    by (rule fold_blocks)
  then show ?thesis by (simp only: fold_concat_map)
qed

section \<open>Inactive associations\<close>

lemma inner_inner_commute:
  assumes "(ob, h, a) \<noteq> (ob', h', a')"
  shows "importInactive \<lparr>iaObject = ob, iaAttribute = a, iaFederate = h, iaRegions = r\<rparr>
      (importInactive \<lparr>iaObject = ob', iaAttribute = a', iaFederate = h', iaRegions = r'\<rparr> m) =
    importInactive \<lparr>iaObject = ob', iaAttribute = a', iaFederate = h', iaRegions = r'\<rparr>
      (importInactive \<lparr>iaObject = ob, iaAttribute = a, iaFederate = h, iaRegions = r\<rparr> m)"
  using assms
  by (intro fmap_ext) (auto simp: importInactive_def Let_def inner_fmupd fmupd_reorder_neq)

lemma importInactive_commute:
  assumes "inj_on (\<lambda>e. (iaObject e, iaFederate e, iaAttribute e)) S" "x \<in> S" "y \<in> S"
  shows "importInactive x \<circ> importInactive y = importInactive y \<circ> importInactive x"
proof (cases "x = y")
  case False
  then have neq: "(iaObject x, iaFederate x, iaAttribute x) \<noteq> (iaObject y, iaFederate y, iaAttribute y)"
    using assms by (auto dest: inj_onD)
  obtain ob a h r where x: "x = \<lparr>iaObject = ob, iaAttribute = a, iaFederate = h, iaRegions = r\<rparr>" by (cases x)
  obtain ob' a' h' r' where y: "y = \<lparr>iaObject = ob', iaAttribute = a', iaFederate = h', iaRegions = r'\<rparr>" by (cases y)
  have "(ob, h, a) \<noteq> (ob', h', a')" using neq by (simp add: x y)
  then show ?thesis unfolding x y by (intro ext) (simp add: inner_inner_commute)
qed simp

text \<open>The entries of the inactive associations before they are sorted.\<close>

definition inactiveEntries :: "(nat, (handle, associations) fmap) fmap \<Rightarrow> InactiveAssociationImage list" where
  "inactiveEntries m =
     concat (map (\<lambda>(ob, callers). concat (map (\<lambda>(h, per). map (\<lambda>(a, rhs).
       \<lparr>iaObject = ob, iaAttribute = a, iaFederate = h, iaRegions = rhs\<rparr>) (listed per)) (listed callers))) (listed m))"

lemma inactiveEntries_inj: "inj_on (\<lambda>e. (iaObject e, iaFederate e, iaAttribute e)) (set (inactiveEntries m))"
proof (rule inj_onI)
  fix x y assume x: "x \<in> set (inactiveEntries m)" and y: "y \<in> set (inactiveEntries m)"
    and eq: "(iaObject x, iaFederate x, iaAttribute x) = (iaObject y, iaFederate y, iaAttribute y)"
  have entry: "\<exists>callers per. fmlookup m (iaObject e) = Some callers \<and> fmlookup callers (iaFederate e) = Some per \<and>
      fmlookup per (iaAttribute e) = Some (iaRegions e)" if "e \<in> set (inactiveEntries m)" for e
    using that by (auto simp: inactiveEntries_def in_set_listed)
  have "iaRegions x = iaRegions y"
    using entry [OF x] entry [OF y] eq by auto
  then show "x = y"
    using eq by (cases x; cases y) simp
qed

lemma import_inactiveEntries:
  assumes "inner_ok (\<lambda>_. inner_ok P) m"
  shows "fold importInactive (inactiveEntries m) fmempty = m"
proof -
  let ?e = "\<lambda>ob h (a, rhs). \<lparr>iaObject = ob, iaAttribute = a, iaFederate = h, iaRegions = rhs\<rparr>"
  let ?blk = "\<lambda>h per. fold (\<lambda>x m. fmupd h ((\<lambda>(a, rhs). fmupd a rhs) x (inner m h)) m) (listed per)"
  have entry: "importInactive (?e ob h x) = (\<lambda>m. fmupd ob (fmupd h ((\<lambda>(a, rhs). fmupd a rhs) x (inner (inner m ob) h)) (inner m ob)) m)" for ob h x
    by (cases x) (simp add: fun_eq_iff importInactive_def Let_def)
  have caller: "fold importInactive (map (?e ob h) (listed per)) = (\<lambda>m. fmupd ob (?blk h per (inner m ob)) m)"
    if "fmdom per \<noteq> {||}" for ob h per
  proof
    fix m'
    have "fold importInactive (map (?e ob h) (listed per)) m' =
        fold (\<lambda>x m. fmupd ob ((\<lambda>x c. fmupd h ((\<lambda>(a, rhs). fmupd a rhs) x (inner c h)) c) x (inner m ob)) m) (listed per) m'"
      by (simp add: fold_map comp_def entry)
    also have "\<dots> = fmupd ob (?blk h per (inner m' ob)) m'"
      using that by (intro fold_inner) (simp add: listed_Nil_iff)
    finally show "fold importInactive (map (?e ob h) (listed per)) m' = fmupd ob (?blk h per (inner m' ob)) m'" .
  qed
  have callers: "fold (\<lambda>(h, per). ?blk h per) (listed cs) fmempty = cs" if "inner_ok P cs" for cs
  proof -
    have "?blk h per m' = fmupd h per m'" if "fmlookup cs h = Some per" "fmlookup m' h = None" for h per m'
    proof -
      have "?blk h per m' = fmupd h (fold (\<lambda>(a, rhs). fmupd a rhs) (listed per) (inner m' h)) m'"
        using inner_okD [OF \<open>inner_ok P cs\<close> that(1)] by (intro fold_inner) (simp add: listed_Nil_iff)
      then show ?thesis using that(2) by (simp add: inner_def fold_listed)
    qed
    then have "fold (\<lambda>(h, per). ?blk h per) (listed cs) fmempty = fmmap (\<lambda>x. x) cs"
      by (rule fold_blocks)
    then show ?thesis by (simp add: fmmap_id)
  qed
  have "fold importInactive (concat (map (\<lambda>(h, per). map (?e ob h) (listed per)) (listed cs))) m' = fmupd ob cs m'"
    if cs: "fmlookup m ob = Some cs" and new: "fmlookup m' ob = None" for ob cs m'
  proof -
    have ok: "fmdom cs \<noteq> {||}" "inner_ok P cs"
      using inner_okD [OF assms cs] by blast+
    have "fold (\<lambda>(h, per). fold importInactive (map (?e ob h) (listed per))) (listed cs) m' =
        fold (\<lambda>x m. fmupd ob ((\<lambda>(h, per). ?blk h per) x (inner m ob)) m) (listed cs) m'"
    proof (rule fold_cong)
      fix x assume "x \<in> set (listed cs)"
      then obtain h per where x: "x = (h, per)" "fmlookup cs h = Some per"
        by (metis in_set_listed prod.exhaust)
      then show "(\<lambda>(h, per). fold importInactive (map (?e ob h) (listed per))) x = (\<lambda>m. fmupd ob ((\<lambda>(h, per). ?blk h per) x (inner m ob)) m)"
        using caller inner_okD [OF ok(2)] by simp
    qed simp_all
    also have "\<dots> = fmupd ob (fold (\<lambda>(h, per). ?blk h per) (listed cs) (inner m' ob)) m'"
      using ok(1) by (intro fold_inner) (simp add: listed_Nil_iff)
    finally show ?thesis
      using new callers [OF ok(2)] by (simp add: fold_concat_map inner_def)
  qed
  then have "fold (\<lambda>(ob, cs). fold importInactive (concat (map (\<lambda>(h, per). map (?e ob h) (listed per)) (listed cs)))) (listed m) fmempty = fmmap (\<lambda>x. x) m"
    by (rule fold_blocks)
  then show ?thesis
    by (simp add: inactiveEntries_def fold_concat_map fmmap_id)
qed

lemma import_inactive:
  assumes "inner_ok (\<lambda>_. inner_ok P) m"
  shows "fold importInactive (exportInactive m) fmempty = m"
proof -
  have e: "exportInactive m = sort_key (\<lambda>e. (iaObject e, iaAttribute e, iaFederate e)) (inactiveEntries m)"
    by (simp add: exportInactive_def inactiveEntries_def)
  have "fold importInactive (exportInactive m) = fold importInactive (inactiveEntries m)"
    by (rule fold_multiset_equiv) (auto simp: e intro: importInactive_commute [OF inactiveEntries_inj])
  then show ?thesis
    using import_inactiveEntries [OF assms] by simp
qed

section \<open>Conveyed copies\<close>

lemma importConveyed_fields [simp]:
  "ident (importConveyed e st) = ident st" "fom (importConveyed e st) = fom st"
  by (simp_all add: importConveyed_def Let_def)

lemma import_conveyed:
  assumes "conveyed_ok st" "nextRegionHandle s = nextRegionHandle st" "conveyed s = fmempty" "conveyedRecipients s = fmempty"
  defines "r \<equiv> fold importConveyed (map (exportConveyed st) (listed (conveyed st))) s"
  shows "conveyed r = conveyed st" "conveyedRecipients r = conveyedRecipients st" "nextRegionHandle r = nextRegionHandle st" "ident r = ident s"
proof -
  have recips: "fmlookup (conveyedRecipients st) d = Some (inner (conveyedRecipients st) d) \<and> fmdom (inner (conveyedRecipients st) d) \<noteq> {||} \<and>
      d \<le> nextRegionHandle st" if "fmlookup (conveyed st) d = Some x" for d x
  proof -
    have "d |\<in>| fmdom (conveyedRecipients st)" "d \<le> nextRegionHandle st"
      using assms(1) fmdomI [OF that] by (auto simp: conveyed_ok_def)
    then obtain rc where rc: "fmlookup (conveyedRecipients st) d = Some rc"
      by (auto simp: fmlookup_dom_iff)
    have "fmdom rc \<noteq> {||}"
      using inner_okD [OF _ rc] assms(1) by (auto simp: conveyed_ok_def)
    then show ?thesis using rc \<open>d \<le> _\<close> by (simp add: inner_def)
  qed
  have "conveyed (fold importConveyed (map (exportConveyed st) xs) t) = fold (\<lambda>(d, x). fmupd d x) xs (conveyed t) \<and>
      conveyedRecipients (fold importConveyed (map (exportConveyed st) xs) t) =
        fold (\<lambda>(d, x). fmupd d (inner (conveyedRecipients st) d)) xs (conveyedRecipients t) \<and>
      nextRegionHandle (fold importConveyed (map (exportConveyed st) xs) t) = nextRegionHandle st \<and>
      ident (fold importConveyed (map (exportConveyed st) xs) t) = ident t"
    if "set xs \<subseteq> set (listed (conveyed st))" "nextRegionHandle t = nextRegionHandle st" for xs t
    using that
  proof (induction xs arbitrary: t)
    case (Cons y xs)
    obtain d x where y: "y = (d, x)" by (cases y)
    then have "fmlookup (conveyed st) d = Some x"
      using Cons.prems(1) by (simp add: in_set_listed)
    note rec = recips [OF this]
    have "importConveyed (exportConveyed st (d, x)) t =
        t\<lparr>nextRegionHandle := nextRegionHandle st, conveyed := fmupd d x (conveyed t),
          conveyedRecipients := fmupd d (inner (conveyedRecipients st) d) (conveyedRecipients t)\<rparr>"
      using rec Cons.prems(2)
      by (simp add: importConveyed_def exportConveyed_def Let_def listed_Nil_iff fold_listed)
    then show ?case
      using Cons.IH [of "importConveyed (exportConveyed st (d, x)) t"] Cons.prems(1) y by simp
  qed simp
  from this [of "listed (conveyed st)" s] have
    "conveyed r = fold (\<lambda>(d, x). fmupd d x) (listed (conveyed st)) fmempty"
    "conveyedRecipients r = fold (\<lambda>(d, x). fmupd d (inner (conveyedRecipients st) d)) (listed (conveyed st)) fmempty"
    "nextRegionHandle r = nextRegionHandle st" "ident r = ident s"
    using assms(2-4) by (simp_all add: r_def)
  moreover have "fold (\<lambda>(d, x). fmupd d (inner (conveyedRecipients st) d)) (listed (conveyed st)) fmempty = conveyedRecipients st"
  proof (rule fmap_ext)
    fix d
    have "fmlookup (fold (\<lambda>(d, x). fmupd d (inner (conveyedRecipients st) d)) xs m) d =
        (if d \<in> fst ` set xs then Some (inner (conveyedRecipients st) d) else fmlookup m d)" for xs :: "(nat \<times> RegionRealizationSnapshot) list" and m
      by (induction xs arbitrary: m) auto
    moreover have "d \<in> fst ` set (listed (conveyed st)) \<longleftrightarrow> d |\<in>| fmdom (conveyedRecipients st)"
      using assms(1) by (simp add: conveyed_ok_def fst_listed)
    ultimately show "fmlookup (fold (\<lambda>(d, x). fmupd d (inner (conveyedRecipients st) d)) (listed (conveyed st)) fmempty) d =
        fmlookup (conveyedRecipients st) d"
      by (cases "fmlookup (conveyedRecipients st) d") (simp_all add: inner_def fmlookup_dom_iff)
  qed
  ultimately show "conveyed r = conveyed st" "conveyedRecipients r = conveyedRecipients st" "nextRegionHandle r = nextRegionHandle st" "ident r = ident s"
    by (simp_all add: fold_listed)
qed

section \<open>The restored state\<close>

lemma sort_key_Nil_iff: "sort_key f xs = [] \<longleftrightarrow> xs = []"
  using length_sort [of f xs] by (metis length_0_conv)

lemma exportObjectRows_nonempty: "rows \<noteq> [] \<Longrightarrow> exportObjectRows rows \<noteq> []"
  by (simp add: exportObjectRows_def sort_key_Nil_iff)

lemma exportInteractionRows_nonempty: "rows \<noteq> [] \<Longrightarrow> exportInteractionRows rows \<noteq> []"
  by (simp add: exportInteractionRows_def sort_key_Nil_iff)

lemma import_export:
  fixes s :: federationDDMState
  assumes "state_ok st"
  defines "r \<equiv> importState (exportState st) s"
  shows "regions r = regions st" "nextRegionHandle r = nextRegionHandle st" "objPubs r = objPubs st"
    "inactivePubs r = inactivePubs st" "conveyed r = conveyed st" "conveyedRecipients r = conveyedRecipients st"
    "objSubs r = fmmap exportObjectRows (objSubs st)" "intSubs r = fmmap exportInteractionRows (intSubs st)" "ident r = ident s"
proof -
  let ?s = "s\<lparr>fomRevision := 0, nextRegionHandle := nextRegionHandle st, conveyed := fmempty, conveyedRecipients := fmempty\<rparr>"
  note conv = import_conveyed [OF state_okD(6) [OF assms(1)], of ?s]
  show "conveyed r = conveyed st" "conveyedRecipients r = conveyedRecipients st" "nextRegionHandle r = nextRegionHandle st" "ident r = ident s"
    using conv by (simp_all add: r_def importState_def exportState_def Let_def)
  show "regions r = regions st"
    by (simp add: r_def importState_def exportState_def Let_def import_regions)
  show "objPubs r = objPubs st"
    using state_okD(4) [OF assms(1)] by (simp add: r_def importState_def exportState_def Let_def pubs_ok_def import_publications)
  show "inactivePubs r = inactivePubs st"
    using state_okD(5) [OF assms(1)] by (simp add: r_def importState_def exportState_def Let_def inactive_ok_def import_inactive)
  have pair: "fold (\<lambda>e. appendRow (osKey e) (osRow e)) (concat (map (\<lambda>(k, rows). map (\<lambda>r. \<lparr>osKey = k, osRow = r\<rparr>) (ex rows)) xs)) m =
      fold (\<lambda>(k, r). appendRow k r) (concat (map (\<lambda>(k, rows). map (Pair k) (ex rows)) xs)) m" for ex xs m
    by (induction xs arbitrary: m) (auto simp: fold_map comp_def)
  show "objSubs r = fmmap exportObjectRows (objSubs st)"
    using import_rows [OF state_okD(2) [OF assms(1)], of exportObjectRows] exportObjectRows_nonempty
    by (simp add: r_def importState_def exportState_def Let_def pair)
  have pair': "fold (\<lambda>e. appendRow (isClass e) (isRow e)) (concat (map (\<lambda>(k, rows). map (\<lambda>r. \<lparr>isClass = k, isRow = r\<rparr>) (ex rows)) xs)) m =
      fold (\<lambda>(k, r). appendRow k r) (concat (map (\<lambda>(k, rows). map (Pair k) (ex rows)) xs)) m" for ex xs m
    by (induction xs arbitrary: m) (auto simp: fold_map comp_def)
  show "intSubs r = fmmap exportInteractionRows (intSubs st)"
    using import_rows [OF state_okD(3) [OF assms(1)], of exportInteractionRows] exportInteractionRows_nonempty
    by (simp add: r_def importState_def exportState_def Let_def pair')
qed

text \<open>The canonical order of rows keeps their meaning.\<close>

lemma sorted_wrt_insort_key:
  "symp R \<Longrightarrow> sorted_wrt R (insort_key f x ys) \<longleftrightarrow> (\<forall>y\<in>set ys. R x y) \<and> sorted_wrt R ys"
  by (induction ys) (auto simp: set_insort_key dest: sympD)

lemma sorted_wrt_sort_key: "symp R \<Longrightarrow> sorted_wrt R (sort_key f xs) \<longleftrightarrow> sorted_wrt R xs"
  by (induction xs) (auto simp: sorted_wrt_insort_key)

lemma rows_ok_sort_key: "rows_ok sub regs own (sort_key f rows) \<longleftrightarrow> rows_ok sub regs own rows"
proof -
  have "symp (\<lambda>s t. sub s = sub t \<longrightarrow> set (regs s) \<inter> set (regs t) = {})"
    by (auto simp: symp_def)
  then show ?thesis
    unfolding rows_ok_def by (simp add: sorted_wrt_sort_key)
qed

lemma triples_sort_key [simp]: "triples sub regs opts (sort_key f rows) = triples sub regs opts rows"
  by (simp add: triples_def)

text \<open>The regions of a row are already sorted.\<close>

lemma exportObjectRows_sorted:
  assumes "obj.ok own rows"
  shows "exportObjectRows rows = sort_key (\<lambda>s. (subscriber s, sregions s)) rows"
proof -
  have "map (\<lambda>s. s\<lparr>sregions := sort (sregions s)\<rparr>) rows = map (\<lambda>s. s) rows"
    using assms by (intro map_cong) (auto simp: rows_ok_def regions_of_def sorted_sort_id)
  then show ?thesis by (simp add: exportObjectRows_def)
qed

lemma exportInteractionRows_sorted:
  assumes "int.ok own rows"
  shows "exportInteractionRows rows = sort_key (\<lambda>s. (isubscriber s, iregions s)) rows"
proof -
  have "map (\<lambda>s. s\<lparr>iregions := sort (iregions s)\<rparr>) rows = map (\<lambda>s. s) rows"
    using assms by (intro map_cong) (auto simp: rows_ok_def regions_of_def sorted_sort_id)
  then show ?thesis by (simp add: exportInteractionRows_def)
qed

lemma exportObjectRows_ok: "obj.ok own rows \<Longrightarrow> obj.ok own (exportObjectRows rows)"
  by (simp only: exportObjectRows_sorted rows_ok_sort_key)

lemma exportInteractionRows_ok: "int.ok own rows \<Longrightarrow> int.ok own (exportInteractionRows rows)"
  by (simp only: exportInteractionRows_sorted rows_ok_sort_key)

lemma import_ok:
  assumes "state_ok st"
  shows "state_ok (importState (exportState st) s)"
proof -
  note eq = import_export [OF assms, of s]
  have "table_ok (obj.ok (owners st)) (fmmap exportObjectRows (objSubs st))"
    unfolding table_ok_def
  proof (intro allI impI)
    fix k rows assume "fmlookup (fmmap exportObjectRows (objSubs st)) k = Some rows"
    then obtain old where old: "fmlookup (objSubs st) k = Some old" "rows = exportObjectRows old" by auto
    note ok = table_okD [OF state_okD(2) [OF assms] old(1)]
    then show "rows \<noteq> [] \<and> obj.ok (owners st) rows"
      unfolding old(2) by (simp add: exportObjectRows_nonempty exportObjectRows_ok)
  qed
  moreover have "table_ok (int.ok (owners st)) (fmmap exportInteractionRows (intSubs st))"
    unfolding table_ok_def
  proof (intro allI impI)
    fix k rows assume "fmlookup (fmmap exportInteractionRows (intSubs st)) k = Some rows"
    then obtain old where old: "fmlookup (intSubs st) k = Some old" "rows = exportInteractionRows old" by auto
    note ok = table_okD [OF state_okD(3) [OF assms] old(1)]
    then show "rows \<noteq> [] \<and> int.ok (owners st) rows"
      unfolding old(2) by (simp add: exportInteractionRows_nonempty exportInteractionRows_ok)
  qed
  moreover have "conveyed_ok (importState (exportState st) s)"
    using state_okD(6) [OF assms] unfolding conveyed_ok_def eq .
  ultimately show ?thesis
    using state_okD(1,4,5) [OF assms] unfolding state_ok_def eq by blast
qed

end
