(* ===== verification/DDM_Reach.thy ===== *)
theory DDM_Reach
  imports DDM_Restore
begin

text \<open>
  The managers that the services can reach, with operations interleaved between a change and its
  admission, and the invariant that all of them satisfy.
\<close>

section \<open>The invariant of the manager\<close>

fun adm_fed :: "admission \<Rightarrow> fed_name" where
  "adm_fed (RegionAdmission f i s) = f"
| "adm_fed (AssociationAdmission f i ob c) = f"
| "adm_fed (ObjectAdmission f i sub cls s as c) = f"
| "adm_fed (InteractionAdmission f i sub cls s) = f"

fun adm_ident :: "admission \<Rightarrow> nat" where
  "adm_ident (RegionAdmission f i s) = i"
| "adm_ident (AssociationAdmission f i ob c) = i"
| "adm_ident (ObjectAdmission f i sub cls s as c) = i"
| "adm_ident (InteractionAdmission f i sub cls s) = i"

definition shadow_ok :: "(nat \<Rightarrow> handle option) \<Rightarrow> objectAssociations \<Rightarrow> bool" where
  "shadow_ok own v \<longleftrightarrow> assoc_ok (\<lambda>r. own r \<noteq> None) (fst v) \<and> inner_ok (\<lambda>h. assoc_ok (\<lambda>r. own r = Some h)) (snd v)"

text \<open>What an admission must know to undo its change.\<close>

fun admission_ok :: "admission \<Rightarrow> associationRollbackProjection option \<Rightarrow> federationDDMState \<Rightarrow> bool" where
  "admission_ok (RegionAdmission f i saved) p st \<longleftrightarrow> saved_ok saved st"
| "admission_ok (AssociationAdmission f i ob c) p st \<longleftrightarrow> (case p of None \<Rightarrow> True | Some q \<Rightarrow> shadow_ok (owners st) (shadow q))"
| "admission_ok (ObjectAdmission f i sub cls saved as c) p st \<longleftrightarrow>
     (case saved of None \<Rightarrow> True | Some rows \<Rightarrow> saved_rows_ok sub cls rows st)"
| "admission_ok (InteractionAdmission f i sub cls saved) p st \<longleftrightarrow>
     (case saved of None \<Rightarrow> True | Some rows \<Rightarrow> int.ok (owners st) rows \<and> (\<forall>s\<in>set rows. isubscriber s = sub))"

definition undoable :: "DDMManager \<Rightarrow> fed_name \<Rightarrow> federationDDMState \<Rightarrow> bool" where
  "undoable m f st \<longleftrightarrow> (\<forall>a. inflight m = Some a \<longrightarrow> adm_fed a = f \<longrightarrow> adm_ident a = ident st \<longrightarrow> admission_ok a (associationRollback m) st)"

definition manager_ok :: "DDMManager \<Rightarrow> bool" where
  "manager_ok m \<longleftrightarrow>
     (\<forall>f st. fmlookup (fed m) f = Some st \<longrightarrow> state_ok st \<and> ident st < allocated m \<and> undoable m f st) \<and>
     (\<forall>a. inflight m = Some a \<longrightarrow> adm_ident a < allocated m)"

lemma manager_okD: "manager_ok m \<Longrightarrow> fmlookup (fed m) f = Some st \<Longrightarrow> state_ok st \<and> ident st < allocated m \<and> undoable m f st"
  by (simp add: manager_ok_def)

lemma shadow_view: "shadow_ok own v \<Longrightarrow> view_ok own v"
  by (auto simp: shadow_ok_def view_ok_def intro: inner_ok_callers)

lemma view_shadow: "view_ok own v \<Longrightarrow> shadow_ok own (fst v, pruneCallers (snd v))"
  by (auto simp: shadow_ok_def view_ok_def intro: callers_ok_prune)

lemma objectView_shadow: "state_ok st \<Longrightarrow> shadow_ok (owners st) (objectView st ob)"
  using objectView_ok [of st ob] state_okD(5) [of st]
  by (auto simp: shadow_ok_def view_ok_def objectView_def inactive_ok_def inner_def dest: inner_okD split: option.splits)

text \<open>A change that keeps the regions, and may add new ones.\<close>

definition extends :: "federationDDMState \<Rightarrow> federationDDMState \<Rightarrow> bool" where
  "extends st st' \<longleftrightarrow> ident st' = ident st \<and> nextRegionHandle st \<le> nextRegionHandle st' \<and>
     (\<forall>rh rs. fmlookup (regions st) rh = Some rs \<longrightarrow> fmlookup (regions st') rh = Some rs) \<and>
     (\<forall>rh. rh \<le> nextRegionHandle st \<longrightarrow> fmlookup (regions st') rh = fmlookup (regions st) rh)"

lemma extendsI: "ident st' = ident st \<Longrightarrow> regions st' = regions st \<Longrightarrow> nextRegionHandle st \<le> nextRegionHandle st' \<Longrightarrow> extends st st'"
  by (simp add: extends_def)

lemma extends_owners: "extends st st' \<Longrightarrow> owners st r = Some h \<Longrightarrow> owners st' r = Some h"
  by (auto simp: extends_def ownerOf_def)

lemma shadow_ok_mono:
  assumes "shadow_ok own v" "\<And>r h. own r = Some h \<Longrightarrow> own' r = Some h"
  shows "shadow_ok own' v"
proof -
  have "own' r \<noteq> None" if "own r \<noteq> None" for r
    using that assms(2) [of r] by (cases "own r") auto
  then have "assoc_ok (\<lambda>r. own' r \<noteq> None) (fst v)"
    using assms(1) by (auto simp: shadow_ok_def elim: assoc_ok_mono)
  moreover have "inner_ok (\<lambda>h. assoc_ok (\<lambda>r. own r = Some h)) (snd v)"
    using assms(1) by (simp add: shadow_ok_def)
  then have "inner_ok (\<lambda>h. assoc_ok (\<lambda>r. own' r = Some h)) (snd v)"
    by (rule inner_ok_mono) (erule assoc_ok_mono, rule assms(2))
  ultimately show ?thesis by (simp add: shadow_ok_def)
qed

lemma admission_ok_extends:
  assumes "admission_ok a p st" "extends st st'"
  shows "admission_ok a p st'"
proof (cases a)
  case (RegionAdmission f i saved)
  have "saved_ok saved st'"
    unfolding saved_ok_def
  proof (intro allI impI)
    fix rh t c p' assume look: "fmlookup saved rh = Some (t, c, p')"
    have "saved_ok saved st" using assms(1) RegionAdmission by simp
    with look have le: "rh \<le> nextRegionHandle st"
      and ok: "\<And>rs. fmlookup (regions st) rh = Some rs \<Longrightarrow> region_ok (rs\<lparr>template := t, committed := c, pending := p'\<rparr>)"
      unfolding saved_ok_def by blast+
    then show "rh \<le> nextRegionHandle st' \<and> (\<forall>rs. fmlookup (regions st') rh = Some rs \<longrightarrow> region_ok (rs\<lparr>template := t, committed := c, pending := p'\<rparr>))"
      using assms(2) unfolding extends_def by (metis order_trans)
  qed
  then show ?thesis using RegionAdmission by simp
next
  case (AssociationAdmission f i ob c)
  then show ?thesis
    using assms shadow_ok_mono extends_owners by (cases p) auto
next
  case (ObjectAdmission f i sub cls saved as c)
  have "obj.ok (owners st') rows" if "obj.ok (owners st) rows" for rows
    using that by (rule rows_ok_mono) (rule extends_owners [OF assms(2)])
  then have "saved_rows_ok sub cls rows st'" if "saved_rows_ok sub cls rows st" for rows
    using that unfolding saved_rows_ok_def by blast
  then show ?thesis
    using assms(1) ObjectAdmission by (cases saved) auto
next
  case (InteractionAdmission f i sub cls saved)
  have "int.ok (owners st') rows" if "int.ok (owners st) rows" for rows
    using that by (rule rows_ok_mono) (rule extends_owners [OF assms(2)])
  then show ?thesis
    using assms(1) InteractionAdmission by (cases saved) auto
qed

lemma setState_fields [simp]:
  "inflight (setState f st m) = inflight m" "associationRollback (setState f st m) = associationRollback m"
  "allocated (setState f st m) = allocated m" "fmlookup (fed (setState f st m)) g = (if g = f then Some st else fmlookup (fed m) g)"
  "notices (setState f st m) = notices m"
  by (simp_all add: setState_def)

lemma setState_quiet:
  assumes "manager_ok m" "fmlookup (fed m) f = Some st" "state_ok st'" "extends st st'"
  shows "manager_ok (setState f st' m)"
proof -
  note st = manager_okD [OF assms(1,2)]
  have "ident st' = ident st" using assms(4) by (simp add: extends_def)
  then have "undoable (setState f st' m) f st'" "ident st' < allocated m"
    using st admission_ok_extends [OF _ assms(4)] by (auto simp: undoable_def)
  then show ?thesis
    using assms(1,3) by (auto simp: manager_ok_def undoable_def)
qed

lemma setState_idle:
  assumes "manager_ok m" "fmlookup (fed m) f = Some st" "state_ok st'" "ident st' = ident st" "inflight m = None"
  shows "manager_ok (setState f st' m)"
  using assms manager_okD [OF assms(1,2)] by (auto simp: manager_ok_def undoable_def)

lemma stateForLocked_ok:
  assumes "manager_ok m" "stateForLocked opt f m = (st, m')"
  shows "manager_ok m'" "fmlookup (fed m') f = Some st" "inflight m' = inflight m" "associationRollback m' = associationRollback m"
    "state_ok st"
proof -
  have *: "manager_ok m' \<and> fmlookup (fed m') f = Some st \<and> inflight m' = inflight m \<and> associationRollback m' = associationRollback m \<and> state_ok st"
  proof (cases "fmlookup (fed m) f")
    case None
    let ?st = "refreshFOMDimensions opt f (initialState opt f (allocated m))"
    have eq: "st = ?st" "m' = setState f ?st (m\<lparr>allocated := allocated m + 1\<rparr>)"
      using assms(2) None by (auto simp: stateForLocked_def Let_def)
    have "undoable m' f ?st"
      using assms(1) by (auto simp: undoable_def manager_ok_def eq)
    moreover have "undoable m' g st'" if "undoable m g st'" for g st'
      using that by (simp add: undoable_def eq)
    moreover have "adm_ident a < allocated m + 1" if "inflight m = Some a" for a
      using assms(1) that by (auto simp: manager_ok_def less_Suc_eq)
    ultimately show ?thesis
      using assms(1) by (auto simp: manager_ok_def eq less_Suc_eq)
  next
    case (Some st0)
    have eq: "st = refreshFOMDimensions opt f st0" "m' = setState f st m"
      using assms(2) Some by (auto simp: stateForLocked_def Let_def)
    have "state_ok st" using manager_okD [OF assms(1) Some] by (simp add: eq)
    moreover have "extends st0 st" by (rule extendsI) (simp_all add: eq)
    ultimately show ?thesis
      using setState_quiet [OF assms(1) Some] by (simp add: eq)
  qed
  then show "manager_ok m'" "fmlookup (fed m') f = Some st" "inflight m' = inflight m" "associationRollback m' = associationRollback m"
    "state_ok st" by blast+
qed

section \<open>Operations under the state lock only\<close>

lemma tables_ok:
  assumes "manager_ok m" "fmlookup (fed m) f = Some st" "regions st' = regions st" "nextRegionHandle st' = nextRegionHandle st"
    "conveyed st' = conveyed st" "conveyedRecipients st' = conveyedRecipients st" "objSubs st' = objSubs st" "intSubs st' = intSubs st"
    "objPubs st' = objPubs st" "inactivePubs st' = inactivePubs st" "ident st' = ident st"
  shows "manager_ok (setState f st' m)"
proof (rule setState_quiet [OF assms(1,2)])
  show "state_ok st'"
    using manager_okD [OF assms(1,2)] state_ok_cong [OF assms(3-10)] by blast
  show "extends st st'" using assms(3,4,11) by (intro extendsI) simp_all
qed

lemma LookupRoutingSpace_ok: "manager_ok m \<Longrightarrow> manager_ok (snd (LookupRoutingSpace opt f name m))"
proof -
  assume ok: "manager_ok m"
  obtain st m' where s: "stateForLocked opt f m = (st, m')" by fastforce
  note facts = stateForLocked_ok [OF ok s]
  have "manager_ok (setState f (st\<lparr>routingSpaces := x\<rparr>) m')" for x
    by (rule tables_ok [OF facts(1,2)]) simp_all
  then show ?thesis
    using ok facts(1) by (simp add: LookupRoutingSpace_def s Let_def split: option.splits)
qed

lemma LookupDimension_ok: "manager_ok m \<Longrightarrow> manager_ok (snd (LookupDimension opt f sp name m))"
proof -
  assume ok: "manager_ok m"
  obtain st m' where s: "stateForLocked opt f m = (st, m')" by fastforce
  note facts = stateForLocked_ok [OF ok s]
  have "manager_ok (setState f (st\<lparr>dimensions := x, dimUpperBound := y\<rparr>) m')" for x y
    by (rule tables_ok [OF facts(1,2)]) simp_all
  then show ?thesis
    using ok facts(1) by (simp add: LookupDimension_def s Let_def split: option.splits)
qed

lemma CreateRegion_ok: "manager_ok m \<Longrightarrow> manager_ok (snd (CreateRegion opt f ow sp ds m))"
proof -
  assume ok: "manager_ok m"
  obtain st m' where s: "stateForLocked opt f m = (st, m')" by fastforce
  note facts = stateForLocked_ok [OF ok s]
  have "manager_ok (setState f (st\<lparr>nextRegionHandle := nextRegionHandle st + 1, regions := fmupd (nextRegionHandle st + 1) rs (regions st)\<rparr>) m')"
    if "region_ok rs" for rs
  proof (rule setState_quiet [OF facts(1,2)])
    show "state_ok (st\<lparr>nextRegionHandle := nextRegionHandle st + 1, regions := fmupd (nextRegionHandle st + 1) rs (regions st)\<rparr>)"
      by (rule insertRegion_ok [OF facts(5) that])
    have "fmlookup (regions st) rh = Some x \<Longrightarrow> rh \<noteq> nextRegionHandle st + 1" for rh x
      using state_okD(1) [OF facts(5)] by (fastforce simp: regions_ok_def)
    then show "extends st (st\<lparr>nextRegionHandle := nextRegionHandle st + 1, regions := fmupd (nextRegionHandle st + 1) rs (regions st)\<rparr>)"
      by (auto simp: extends_def)
  qed
  then show ?thesis
    using ok facts(1) by (simp add: CreateRegion_def s Let_def newRegion_ok)
qed

lemma bindGroup_ok:
  assumes "assoc_ok P per" "list_all P (Regions g)"
  shows "assoc_ok P (bindGroup g per)"
proof (cases "Regions g = []")
  case False
  have "assoc_ok P (fold (\<lambda>a per. fmupd a (rowsAt per a @ Regions g) per) as per)" for as
  proof (rule fold_invariant [where Q = "\<lambda>_. True"])
    fix a per assume "assoc_ok P per"
    then show "assoc_ok P (fmupd a (rowsAt per a @ Regions g) per)"
      using assms(2) False assoc_ok_rowsAt [of P per a] by (auto simp: assoc_ok_def intro: table_ok_fmupd)
  qed (use assms in simp_all)
  then show ?thesis using False by (simp add: bindGroup_def)
qed (use assms in \<open>simp add: bindGroup_def\<close>)

lemma bindings_ok:
  assumes "copyRegistrationGroups groups allow = Inr b" "\<forall>g\<in>set groups. list_all P (Regions g)"
  shows "assoc_ok P b"
proof -
  have b: "b = fmmap sortCompact (fold bindGroup groups fmempty)"
    using assms(1) by (simp add: copyRegistrationGroups_def split: if_splits)
  have "assoc_ok P (fold bindGroup groups fmempty)"
    by (rule fold_invariant [where Q = "\<lambda>g. list_all P (Regions g)"]) (use assms(2) in \<open>auto intro: bindGroup_ok\<close>)
  then show ?thesis
    by (auto simp: b assoc_ok_def table_ok_def list_all_iff)
qed

text \<open>A registration changes nothing, or commits its validated bindings.\<close>

lemma prepareObjectRegistration_cases:
  obtains (same) "snd (prepareObjectRegistration opt f ow cls groups allow ob m) = m"
  | (commit) h :: FOMHandle and required b o' st where
      "st = (case fmlookup (fed m) f of Some st \<Rightarrow> st | None \<Rightarrow> (case Dimensions h of
          Some ds \<Rightarrow> populateFromFOM ds (newFederationDDMState (allocated m)) | None \<Rightarrow> newFederationDDMState (allocated m)))"
      "validateGroups st ow groups required = None" "copyRegistrationGroups groups allow = Inr b" "fmdom b \<noteq> {||}" "ob = Some o'"
      "prepareObjectRegistration opt f ow cls groups allow ob m =
         (None, setState f (st\<lparr>objPubs := fmupd o' b (objPubs st)\<rparr>) (m\<lparr>allocated := allocated m + 1\<rparr>))"
proof (cases "snd (prepareObjectRegistration opt f ow cls groups allow ob m) = m")
  case False
  note defs = prepareObjectRegistration_def
  have c0: "ctxErr opt 0 = None"
    using False by (cases "ctxErr opt 0") (simp_all add: defs)
  obtain h where h: "FOMs opt f = Inr h"
    using False c0 by (cases "FOMs opt f") (simp_all add: defs)
  have g1: "IsValid h"
    using False by (rule contrapos_np) (simp add: defs c0 h)
  have g2: "\<not> (case ObjectClassName h of Some names \<Rightarrow> names cls = None | None \<Rightarrow> False)"
    using False by (rule contrapos_nn) (simp add: defs c0 h)
  have g3: "\<not> (AttributeDimensions h = None \<and> (groupAttributes groups \<noteq> [] \<or> \<not> allow))"
    using False by (rule contrapos_nn) (simp add: defs c0 h)
  have guard: "prepareObjectRegistration opt f ow cls groups allow ob m =
      (case registrationDimensions (AttributeDimensions h) cls (groupAttributes groups) fmempty of
         Inl e \<Rightarrow> (Some e, m)
       | Inr required \<Rightarrow>
           (case copyRegistrationGroups groups allow of
              Inl e \<Rightarrow> (Some e, m)
            | Inr b \<Rightarrow>
                (case ctxErr opt 1 of
                   Some e \<Rightarrow> (Some e, m)
                 | None \<Rightarrow>
                     let st = (case fmlookup (fed m) f of Some st \<Rightarrow> st | None \<Rightarrow> (case Dimensions h of
                         Some ds \<Rightarrow> populateFromFOM ds (newFederationDDMState (allocated m)) | None \<Rightarrow> newFederationDDMState (allocated m)))
                     in (case validateGroups st ow groups required of
                           Some e \<Rightarrow> (Some e, m)
                         | None \<Rightarrow>
                             (case ob of
                                None \<Rightarrow> (None, m)
                              | Some ob \<Rightarrow>
                                  if fmdom b = {||} then (None, m)
                                  else (None, setState f (st\<lparr>objPubs := fmupd ob b (objPubs st)\<rparr>) (m\<lparr>allocated := allocated m + 1\<rparr>)))))))"
    unfolding defs c0 h option.case sum.case by (simp only: g1 g2 g3 not_True_eq_False if_False)
  obtain required where r: "registrationDimensions (AttributeDimensions h) cls (groupAttributes groups) fmempty = Inr required"
    using False unfolding guard by (cases "registrationDimensions (AttributeDimensions h) cls (groupAttributes groups) fmempty") simp_all
  obtain b where b: "copyRegistrationGroups groups allow = Inr b"
    using False unfolding guard r by (cases "copyRegistrationGroups groups allow") simp_all
  have c1: "ctxErr opt 1 = None"
    using False unfolding guard r b by (cases "ctxErr opt 1") simp_all
  define st where "st = (case fmlookup (fed m) f of Some st \<Rightarrow> st | None \<Rightarrow> (case Dimensions h of
      Some ds \<Rightarrow> populateFromFOM ds (newFederationDDMState (allocated m)) | None \<Rightarrow> newFederationDDMState (allocated m)))"
  have v: "validateGroups st ow groups required = None"
    using False unfolding guard r b c1 Let_def st_def [symmetric] by (cases "validateGroups st ow groups required") simp_all
  obtain o' where o: "ob = Some o'"
    using False unfolding guard r b c1 Let_def st_def [symmetric] by (cases ob) (simp_all add: v)
  have d: "fmdom b \<noteq> {||}"
    using False unfolding guard r b c1 Let_def st_def [symmetric] by (rule contrapos_nn) (simp add: v o)
  show ?thesis
    by (rule commit [OF st_def v b d o], unfold guard r b c1 Let_def st_def [symmetric]) (simp add: v o d)
qed (rule same)

lemma prepareObjectRegistration_ok:
  assumes ok: "manager_ok m"
  shows "manager_ok (snd (prepareObjectRegistration opt f ow cls groups allow ob m))"
proof -
  have new: "manager_ok (setState f (st\<lparr>objPubs := fmupd o' b (objPubs st)\<rparr>) (m\<lparr>allocated := allocated m + 1\<rparr>))"
    if "st = (case fmlookup (fed m) f of Some st \<Rightarrow> st | None \<Rightarrow> (case Dimensions h of
          Some ds \<Rightarrow> populateFromFOM ds (newFederationDDMState (allocated m)) | None \<Rightarrow> newFederationDDMState (allocated m)))"
      "validateGroups st ow groups required = None" "copyRegistrationGroups groups allow = Inr b" "fmdom b \<noteq> {||}" for st required b o' and h :: FOMHandle
  proof -
    let ?st = "st\<lparr>objPubs := fmupd o' b (objPubs st)\<rparr>"
    have "list_all (\<lambda>r. owners st r \<noteq> None) (Regions g)" if "g \<in> set groups" for g
      using validateGroups_own [OF \<open>validateGroups st ow groups required = None\<close> that] by (auto simp: list_all_iff)
    then have b: "assoc_ok (\<lambda>r. owners st r \<noteq> None) b"
      using bindings_ok [OF that(3)] by blast
    have grown: "manager_ok (m\<lparr>allocated := allocated m + 1\<rparr>)"
      using ok by (auto simp: manager_ok_def undoable_def less_Suc_eq)
    show ?thesis
    proof (cases "fmlookup (fed m) f")
      case None
      have st: "state_ok st" "ident st = allocated m"
        using that(1) None by (auto simp: populate_fields newFederationDDMState_def split: option.splits
            intro: populate_ok [THEN iffD2] new_ok [unfolded newFederationDDMState_def])
      have "undoable (setState f ?st (m\<lparr>allocated := allocated m + 1\<rparr>)) f ?st"
        using ok st(2) by (auto simp: undoable_def manager_ok_def)
      then show ?thesis
        using grown st register_ok [OF st(1) b that(4), of o'] by (auto simp: manager_ok_def undoable_def)
    next
      case (Some st0)
      then have "st = st0" using that(1) by simp
      then have "state_ok st" "fmlookup (fed (m\<lparr>allocated := allocated m + 1\<rparr>)) f = Some st"
        using manager_okD [OF ok Some] Some by simp_all
      then show ?thesis
        using register_ok [OF _ b that(4), of o'] by (intro setState_quiet [OF grown]) (auto intro: extendsI)
    qed
  qed
  show ?thesis
  proof (cases rule: prepareObjectRegistration_cases [where opt = opt and f = f and ow = ow and cls = cls and groups = groups
        and allow = allow and ob = ob and m = m])
    case same
    then show ?thesis using ok by simp
  next
    case (commit h required b o' st)
    then show ?thesis using new [OF commit(1-4)] by simp
  qed
qed

lemma project_ok:
  assumes "manager_ok m" "\<And>own v. view_ok own v \<Longrightarrow> view_ok own (g v)"
  shows "manager_ok (project f i which g m)"
proof (cases "associationRollback m")
  case (Some p)
  let ?p = "p\<lparr>shadow := (let v = g (shadow p) in (fst v, pruneCallers (snd v)))\<rparr>"
  have shadow: "shadow_ok own (shadow ?p)" if "shadow_ok own (shadow p)" for own
    using view_shadow [OF assms(2) [OF shadow_view [OF that]]] by (simp add: Let_def)
  have "admission_ok a (Some ?p) st" if "admission_ok a (Some p) st" for a st
    using that shadow by (cases a) auto
  then have "undoable (m\<lparr>associationRollback := Some ?p\<rparr>) f' st" if "undoable m f' st" for f' st
    using that Some by (auto simp: undoable_def)
  then have "manager_ok (m\<lparr>associationRollback := Some ?p\<rparr>)"
    using assms(1) by (auto simp: manager_ok_def)
  then show ?thesis
    using assms(1) Some by (simp add: project_def)
qed (use assms(1) in \<open>simp add: project_def\<close>)

lemma OwnershipChanged_ok: "manager_ok m \<Longrightarrow> manager_ok (OwnershipChanged f ob before after m)"
proof (cases "fmlookup (fed m) f")
  case (Some st)
  assume ok: "manager_ok m"
  have "manager_ok (setState f (applyOwnershipChange ob before after st) m)"
    using manager_okD [OF ok Some]
    by (intro setState_quiet [OF ok Some] applyOwnershipChange_ok extendsI) (simp_all add: applyOwnershipChange_def)
  then show ?thesis
    using Some by (simp add: OwnershipChanged_def project_ok ownershipChange_ok)
qed (simp add: OwnershipChanged_def)

lemma ForgetFederateAssociations_ok: "manager_ok m \<Longrightarrow> manager_ok (ForgetFederateAssociations f h m)"
proof (cases "fmlookup (fed m) f")
  case (Some st)
  assume ok: "manager_ok m"
  have "manager_ok (setState f (forgetFederateAssociations h st) m)"
    using manager_okD [OF ok Some]
    by (intro setState_quiet [OF ok Some] forgetFederateAssociations_ok extendsI) simp_all
  then show ?thesis
    using Some by (simp add: ForgetFederateAssociations_def project_ok forgetCaller_ok)
qed (simp add: ForgetFederateAssociations_def)

lemma ForgetObject_ok: "manager_ok m \<Longrightarrow> manager_ok (ForgetObject f ob m)"
proof (cases "fmlookup (fed m) f")
  case (Some st)
  assume ok: "manager_ok m"
  have "manager_ok (setState f (st\<lparr>objPubs := fmdrop ob (objPubs st), inactivePubs := fmdrop ob (inactivePubs st)\<rparr>) m)"
    using manager_okD [OF ok Some] by (intro setState_quiet [OF ok Some] forgetObject_ok extendsI) simp_all
  then show ?thesis
    using Some by (simp add: ForgetObject_def project_ok view_ok_def callers_ok_def)
qed (simp add: ForgetObject_def)

lemma ForgetObjectFederateAssociations_ok: "manager_ok m \<Longrightarrow> manager_ok (ForgetObjectFederateAssociations f h ob m)"
proof (cases "fmlookup (fed m) f")
  case (Some st)
  assume ok: "manager_ok m"
  have "manager_ok (setState f (st\<lparr>inactivePubs := putInner ob (pruneCallers (fmdrop h (inner (inactivePubs st) ob))) (inactivePubs st)\<rparr>) m)"
    using manager_okD [OF ok Some] by (intro setState_quiet [OF ok Some] forgetInactive_state_ok extendsI) simp_all
  then show ?thesis
    using Some by (simp add: ForgetObjectFederateAssociations_def project_ok forgetInactive_ok)
qed (simp add: ForgetObjectFederateAssociations_def)

lemma OnDDMFederationDestroyed_ok: "manager_ok m \<Longrightarrow> manager_ok (OnDDMFederationDestroyed f m)"
  by (auto simp: manager_ok_def OnDDMFederationDestroyed_def undoable_def)

section \<open>Conveyed regions\<close>

lemma capture_state: "captureRealizations st rhs rz = Inr (cs, st') \<Longrightarrow> st' = st\<lparr>nextRegionHandle := nextRegionHandle st + length cs\<rparr>"
  by (auto simp: captureRealizations_def Let_def bindR_eq_Inr_iff split: if_splits)

lemma capture_quiet: "state_ok st \<Longrightarrow> captureRealizations st rhs rz = Inr (cs, st') \<Longrightarrow> state_ok st' \<and> extends st st'"
  using capture_state by (fastforce intro: nextHandle_ok extendsI)

lemma extends_refl [simp]: "extends st st"
  by (simp add: extends_def)

lemma extends_trans: "extends a b \<Longrightarrow> extends b c \<Longrightarrow> extends a c"
  unfolding extends_def by (metis order_trans)

lemma deliverySnapshot_quiet:
  assumes "state_ok st" "deliverySnapshot st ob registered a known = Inr (row, st')"
  shows "state_ok st' \<and> extends st st'"
proof -
  obtain cs where "captureRealizations st (rowsAt (inner (objPubs st) ob) a) (\<lambda>rh. objectRealizations st registered a [rh]) = Inr (cs, st')"
    using assms(2) by (auto simp: deliverySnapshot_def Let_def bindR_eq_Inr_iff)
  then show ?thesis using capture_quiet [OF assms(1)] by blast
qed

lemma deliverySnapshots_quiet:
  "state_ok st \<Longrightarrow> deliverySnapshots ob registered known as st = (r, st') \<Longrightarrow> state_ok st' \<and> extends st st'"
proof (induction as arbitrary: st st' r)
  case (Cons a as)
  show ?case
  proof (cases "deliverySnapshot st ob registered a known")
    case (Inr p)
    obtain row st1 where p: "p = (row, st1)" by (cases p)
    have one: "state_ok st1 \<and> extends st st1"
      using deliverySnapshot_quiet [OF Cons.prems(1)] Inr p by blast
    obtain r2 st2 where two: "deliverySnapshots ob registered known as st1 = (r2, st2)" by fastforce
    have "st' = st2"
      using Cons.prems(2) Inr p two by (auto split: sum.splits)
    then show ?thesis
      using Cons.IH [OF _ two] one extends_trans by blast
  qed (use Cons.prems in auto)
qed auto

lemma InteractionDeliverySnapshot_ok: 
  assumes ok: "manager_ok m"
  shows "manager_ok (snd (InteractionDeliverySnapshot opt f sender cls rhs m))"
proof -
  obtain st m' where s: "stateForLocked opt f m = (st, m')" by fastforce
  note facts = stateForLocked_ok [OF ok s]
  have "manager_ok (setState f st' m')" if "captureRealizations st rhs rz = Inr (cs, st')" for rz cs st'
    using capture_quiet [OF facts(5) that] by (intro setState_quiet [OF facts(1,2)]) blast+
  then show ?thesis
    using ok facts(1) by (simp add: InteractionDeliverySnapshot_def s Let_def split: sum.split option.split prod.split)
qed

lemma ObjectDeliverySnapshots_ok:
  assumes ok: "manager_ok m"
  shows "manager_ok (snd (ObjectDeliverySnapshots opt f ob registered attrs known m))"
proof -
  obtain st m' where s: "stateForLocked opt f m = (st, m')" by fastforce
  note facts = stateForLocked_ok [OF ok s]
  have "manager_ok (setState f st' m')" if "deliverySnapshots ob registered known attrs st = (r, st')" for r st'
    using deliverySnapshots_quiet [OF facts(5) that] by (intro setState_quiet [OF facts(1,2)]) blast+
  then show ?thesis
    using ok by (simp add: ObjectDeliverySnapshots_def s Let_def split: sum.split prod.split)
qed

lemma validateRealizations_fresh:
  "validateRealizations st seen cs = None \<Longrightarrow> c \<in> set cs \<Longrightarrow> fmlookup (regions st) (Designator c) = None"
  by (induction st seen cs rule: validateRealizations.induct)
    (auto simp: validateRealization_def Let_def split: option.splits if_splits)

lemma lease_commute: "prepareLease h c (cacheRealization c' st) = cacheRealization c' (prepareLease h c st)"
  by (simp add: prepareLease_def cacheRealization_def reserveDesignator_def Let_def)

lemma leases_interleave:
  "fold (prepareLease h) cs (fold cacheRealization cs st) = fold (\<lambda>c st. prepareLease h c (cacheRealization c st)) cs st"
proof (induction cs arbitrary: st)
  case (Cons c cs)
  have "prepareLease h c (fold cacheRealization cs s) = fold cacheRealization cs (prepareLease h c s)" for s
    by (induction cs arbitrary: s) (simp_all add: lease_commute)
  then show ?case using Cons.IH by simp
qed simp

lemma lease_fields [simp]:
  "ident (prepareLease h c (cacheRealization c st)) = ident st" "regions (prepareLease h c (cacheRealization c st)) = regions st"
  "nextRegionHandle (prepareLease h c (cacheRealization c st)) = max (nextRegionHandle st) (Designator c)"
  by (simp_all add: prepareLease_def cacheRealization_def reserveDesignator_def Let_def)

lemma ConveyCopies_ok:
  assumes ok: "manager_ok m"
  shows "manager_ok (snd (ConveyCopies opt f h cs m))"
proof -
  obtain st m' where s: "stateForLocked opt f m = (st, m')" by fastforce
  note facts = stateForLocked_ok [OF ok s]
  have "manager_ok (setState f (fold (prepareLease h) cs (fold cacheRealization cs st)) m')" if v: "validateRealizations st fmempty cs = None"
  proof -
    let ?step = "\<lambda>c st. prepareLease h c (cacheRealization c st)"
    have "state_ok (fold ?step cs st) \<and> regions (fold ?step cs st) = regions st \<and> extends st (fold ?step cs st)"
    proof (rule fold_invariant [where Q = "\<lambda>c. fmlookup (regions st) (Designator c) = None"])
      show "fmlookup (regions st) (Designator c) = None" if "c \<in> set cs" for c
        using validateRealizations_fresh [OF v that] .
      fix c :: ConveyedRegionCopy and s :: federationDDMState
      assume "fmlookup (regions st) (Designator c) = None" "state_ok s \<and> regions s = regions st \<and> extends st s"
      then show "state_ok (?step c s) \<and> regions (?step c s) = regions st \<and> extends st (?step c s)"
        by (auto intro: lease_ok extends_trans [OF _ extendsI])
    qed (simp add: facts)
    then show ?thesis
      unfolding leases_interleave by (intro setState_quiet [OF facts(1,2)]) blast+
  qed
  then show ?thesis
    using ok facts(1) by (simp add: ConveyCopies_def s Let_def split: option.split)
qed

lemma enter_ok:
  assumes "state_ok st" "rh |\<in>| fmdom (conveyedRecipients st)"
  shows "state_ok (st\<lparr>conveyedRecipients := fmupd rh (fmupd h True (inner (conveyedRecipients st) rh)) (conveyedRecipients st)\<rparr>)"
proof -
  have "inner_ok (\<lambda>_ _. True) (fmupd rh (fmupd h True (inner (conveyedRecipients st) rh)) (conveyedRecipients st))"
    using assms(1) by (intro inner_ok_fmupd) (auto simp: state_ok_def conveyed_ok_def)
  then show ?thesis
    using assms by (auto simp: state_ok_def conveyed_ok_def finsert_absorb)
qed

lemma EnterConveyedRegions_ok:
  assumes ok: "manager_ok m"
  shows "manager_ok (snd (EnterConveyedRegions f h rhs m))"
proof (cases "fmlookup (fed m) f")
  case (Some st)
  let ?e = "\<lambda>rh st. st\<lparr>conveyedRecipients := fmupd rh (fmupd h True (inner (conveyedRecipients st) rh)) (conveyedRecipients st)\<rparr>"
  have "manager_ok (setState f (fold ?e rhs st) m)" if all: "\<not> list_ex (\<lambda>rh. fmlookup (inner (conveyedRecipients st) rh) h = None) rhs"
  proof -
    have "state_ok (fold ?e rhs st) \<and> fmdom (conveyedRecipients (fold ?e rhs st)) = fmdom (conveyedRecipients st) \<and> extends st (fold ?e rhs st)"
    proof (rule fold_invariant [where Q = "\<lambda>rh. rh |\<in>| fmdom (conveyedRecipients st)"])
      show "rh |\<in>| fmdom (conveyedRecipients st)" if "rh \<in> set rhs" for rh
        using all that by (cases "fmlookup (conveyedRecipients st) rh") (auto simp: list_ex_iff inner_def dest: fmdomI)
      fix rh and s :: federationDDMState
      assume "rh |\<in>| fmdom (conveyedRecipients st)"
        "state_ok s \<and> fmdom (conveyedRecipients s) = fmdom (conveyedRecipients st) \<and> extends st s"
      then show "state_ok (?e rh s) \<and> fmdom (conveyedRecipients (?e rh s)) = fmdom (conveyedRecipients st) \<and> extends st (?e rh s)"
        by (auto intro!: enter_ok simp: finsert_absorb intro: extends_trans [OF _ extendsI])
    qed (use manager_okD [OF ok Some] in simp)
    then show ?thesis by (intro setState_quiet [OF ok Some]) blast+
  qed
  then show ?thesis using ok Some by (simp add: EnterConveyedRegions_def)
qed (simp add: EnterConveyedRegions_def ok)

lemma ReleaseConveyedRegions_ok:
  assumes ok: "manager_ok m"
  shows "manager_ok (ReleaseConveyedRegions f h rhs m)"
proof (cases "fmlookup (fed m) f")
  case (Some st)
  have "manager_ok (setState f (fold (releaseRecipient h) rhs st) m)"
    using manager_okD [OF ok Some] fold_releaseRecipient_fields [of h rhs st]
    by (intro setState_quiet [OF ok Some] releaseRecipients_ok extendsI) simp_all
  then show ?thesis using Some by (simp add: ReleaseConveyedRegions_def)
qed (simp add: ReleaseConveyedRegions_def ok)

lemma RestoreConveyedRegions_ok:
  assumes ok: "manager_ok m"
  shows "manager_ok (snd (RestoreConveyedRegions opt f cs m))"
proof -
  obtain st m' where s: "stateForLocked opt f m = (st, m')" by fastforce
  note facts = stateForLocked_ok [OF ok s]
  have "state_ok (fold reserveDesignator cs st) \<and> extends st (fold reserveDesignator cs st)"
    by (rule fold_invariant [where Q = "\<lambda>_. True"])
      (auto simp: facts reserveDesignator_ok, auto simp: reserveDesignator_def intro: extends_trans [OF _ extendsI])
  then have "manager_ok (setState f (fold reserveDesignator cs st) m')"
    by (intro setState_quiet [OF facts(1,2)]) blast+
  then show ?thesis
    using ok facts(1) by (simp add: RestoreConveyedRegions_def s Let_def split: option.split)
qed

section \<open>Services that hold the subscription lock\<close>

lemma await_ok:
  assumes "manager_ok m" "inflight m = None" "fmlookup (fed m) f = Some st" "adm_fed a = f" "adm_ident a = ident st"
    "admission_ok a (associationRollback m) st"
  shows "manager_ok (await a m)"
  using assms manager_okD [OF assms(1,3)] by (auto simp: manager_ok_def await_def undoable_def)

text \<open>The pattern of these services: a new state of the federation, and its admission.\<close>

lemma change_ok:
  assumes "manager_ok m" "inflight m = None" "fmlookup (fed m) f = Some st" "state_ok st'" "ident st' = ident st"
    "adm_fed a = f" "adm_ident a = ident st" "admission_ok a (associationRollback m) st'"
  shows "manager_ok (await a (setState f st' m))"
  by (rule await_ok [where st = st']) (use assms setState_idle [OF assms(1,3,4,5,2)] in simp_all)

lemma saved_rows_ok_regions:
  assumes "saved_rows_ok sub cls saved st" "regions st' = regions st"
  shows "saved_rows_ok sub cls saved st'"
  using assms by (simp add: saved_rows_ok_def)

lemma SubscribeObject_ok:
  assumes ok: "manager_ok m" and idle: "inflight m = None"
  shows "manager_ok (snd (SubscribeObjectClassAttributesWithRegionsAndOptions opt f sub cls attrs rhs options m))"
proof -
  obtain st m' where s: "stateForLocked opt f m = (st, m')" by fastforce
  note facts = stateForLocked_ok [OF ok s]
  let ?st = "fold (\<lambda>a. addObjectSubscription (cls, a) (newRow sub rhs options)) attrs st"
  have "manager_ok (await (ObjectAdmission f (ident st) sub cls (Some (savedObjectRows sub cls st)) attrs True) (setState f ?st m'))"
    if "validateObjectRegions st sub attrs rhs required = None" "rhs \<noteq> []" for required
  proof (rule change_ok [OF facts(1) _ facts(2)])
    show "state_ok ?st"
      using addObjectSubscriptions_ok [OF facts(5) that(2)] validateObjectRegions_own [OF that(1)] by blast
    show "admission_ok (ObjectAdmission f (ident st) sub cls (Some (savedObjectRows sub cls st)) attrs True) (associationRollback m') ?st"
      using saved_rows_ok_regions [OF savedObjectRows_ok [OF facts(5)]] by (simp add: fold_subscription_fields)
  qed (simp_all add: facts idle fold_subscription_fields)
  moreover have "manager_ok (await (ObjectAdmission f (ident st) sub cls None [] True) m')"
    by (rule await_ok [OF facts(1) _ facts(2)]) (simp_all add: facts idle)
  ultimately show ?thesis
    using ok facts(1)
    by (simp add: SubscribeObjectClassAttributesWithRegionsAndOptions_def s Let_def split: option.split sum.split)
qed

lemma UnsubscribeObject_ok:
  assumes ok: "manager_ok m" and idle: "inflight m = None"
  shows "manager_ok (snd (UnsubscribeObjectClassAttributesWithRegions opt f sub cls attrs rhs m))"
proof -
  obtain st m' where s: "stateForLocked opt f m = (st, m')" by fastforce
  note facts = stateForLocked_ok [OF ok s]
  let ?st = "fold (\<lambda>a. removeObjectSubscriptionRegions (cls, a) sub rhs) attrs st"
  have "manager_ok (await (ObjectAdmission f (ident st) sub cls (Some (savedObjectRows sub cls st)) [] True) (setState f ?st m'))" if "rhs \<noteq> []"
  proof (rule change_ok [OF facts(1) _ facts(2)])
    show "state_ok ?st"
      using removeObjectSubscriptions_ok [OF facts(5) that] .
    show "admission_ok (ObjectAdmission f (ident st) sub cls (Some (savedObjectRows sub cls st)) [] True) (associationRollback m') ?st"
      using saved_rows_ok_regions [OF savedObjectRows_ok [OF facts(5)]] by (simp add: fold_subscription_fields)
  qed (simp_all add: facts idle fold_subscription_fields)
  moreover have "manager_ok (await (ObjectAdmission f (ident st) sub cls None [] True) m')"
    by (rule await_ok [OF facts(1) _ facts(2)]) (simp_all add: facts idle)
  ultimately show ?thesis
    using ok facts(1)
    by (simp add: UnsubscribeObjectClassAttributesWithRegions_def s Let_def split: option.split sum.split)
qed

end
