(* ===== verification/DDM_Steps.thy ===== *)
theory DDM_Steps
  imports DDM_Reach
begin

text \<open>The remaining services, the admission of their changes, and the reachable managers.\<close>

section \<open>Services that hold the subscription lock\<close>

lemma changeObjectRegionGroups_ok:
  assumes ok: "manager_ok m" and idle: "inflight m = None"
  shows "manager_ok (snd (changeObjectRegionGroups opt f sub cls groups options m))"
proof -
  obtain st m' where s: "stateForLocked opt f m = (st, m')" by fastforce
  note facts = stateForLocked_ok [OF ok s]
  let ?st = "fold (changeObjectGroup sub cls options) (filter effective groups) st"
  have "manager_ok (await (ObjectAdmission f (ident st) sub cls u subscribed asks) (setState f ?st m'))"
    if v: "validateGroups st sub groups required = None" and u: "u = None \<or> u = Some (savedObjectRows sub cls st)" for required u subscribed asks
  proof (rule change_ok [OF facts(1) _ facts(2)])
    show "state_ok ?st"
    proof (rule changeObjectGroups_ok [OF facts(5)], intro ballI conjI)
      fix g r assume g: "g \<in> set (filter effective groups)"
      then show "Regions g \<noteq> []" by (simp add: effective_def)
      show "owners st r = Some sub" if "r \<in> set (Regions g)"
        using validateGroups_own [OF v _ that] g by simp
    qed
    show "admission_ok (ObjectAdmission f (ident st) sub cls u subscribed asks) (associationRollback m') ?st"
      using u saved_rows_ok_regions [OF savedObjectRows_ok [OF facts(5)]] changeObjectGroups_fields
      by (auto split: option.splits)
  qed (simp_all add: facts idle changeObjectGroups_fields)
  note admitted = this
  show ?thesis
  proof (cases "case options of None \<Rightarrow> None | Some o' \<Rightarrow> validateGroupSubscriptionOptions opt f o'")
    case free: None
    show ?thesis
    proof (cases "objectContext opt f cls (groupAttributes groups)")
      case (Inr c)
      let ?required = "if options = None then fmempty else c"
      show ?thesis
        using ok facts(1) free Inr admitted [of ?required]
        by (cases "validateGroups st sub groups ?required"; cases "ctxErr opt 0") (simp_all add: changeObjectRegionGroups_def s Let_def)
    qed (use ok free in \<open>simp add: changeObjectRegionGroups_def\<close>)
  qed (use ok in \<open>simp add: changeObjectRegionGroups_def\<close>)
qed

lemma SubscribeInteraction_ok:
  assumes ok: "manager_ok m" and idle: "inflight m = None"
  shows "manager_ok (snd (SubscribeInteractionClassWithRegionsAndOptions opt f sub cls rhs active m))"
proof -
  obtain st m' where s: "stateForLocked opt f m = (st, m')" by fastforce
  note facts = stateForLocked_ok [OF ok s]
  let ?st = "addInteractionSubscription cls \<lparr>isubscriber = sub, iregions = rhs, ipassive = (\<not> active)\<rparr> st"
  let ?a = "InteractionAdmission f (ident st) sub cls (Some (savedInteractionRows sub cls st))"
  have "manager_ok (await ?a (setState f ?st m'))" if v: "validateRegions st sub rhs available = None" and "rhs \<noteq> []" for available
  proof (rule change_ok [OF facts(1) _ facts(2)])
    show "state_ok ?st"
      using validateRegions_own [OF v] that(2) by (intro addInteractionSubscription_ok facts(5)) simp_all
    show "admission_ok ?a (associationRollback m') ?st"
      using intRows_ok [OF facts(5)] by (simp add: savedInteractionRows_def rows_ok_filter addInteractionSubscription_def)
  qed (simp_all add: facts idle addInteractionSubscription_def)
  moreover have "manager_ok (await (InteractionAdmission f (ident st) sub cls None) m')"
    by (rule await_ok [OF facts(1) _ facts(2)]) (simp_all add: facts idle)
  ultimately show ?thesis
    using ok facts(1)
    by (simp add: SubscribeInteractionClassWithRegionsAndOptions_def s Let_def split: option.split sum.split)
qed

lemma UnsubscribeInteraction_ok:
  assumes ok: "manager_ok m" and idle: "inflight m = None"
  shows "manager_ok (snd (UnsubscribeInteractionClassWithRegions opt f sub cls rhs m))"
proof -
  obtain st m' where s: "stateForLocked opt f m = (st, m')" by fastforce
  note facts = stateForLocked_ok [OF ok s]
  let ?st = "st\<lparr>intSubs := putRows cls (removeInteractionRegions (rowsAt (intSubs st) cls) sub rhs) (intSubs st)\<rparr>"
  let ?a = "InteractionAdmission f (ident st) sub cls (Some (savedInteractionRows sub cls st))"
  have "manager_ok (await ?a (setState f ?st m'))" if "rhs \<noteq> []"
  proof (rule change_ok [OF facts(1) _ facts(2)])
    show "state_ok ?st" using removeInteraction_ok [OF facts(5) that] .
    show "admission_ok ?a (associationRollback m') ?st"
      using intRows_ok [OF facts(5)] by (simp add: savedInteractionRows_def rows_ok_filter)
  qed (simp_all add: facts idle)
  moreover have "manager_ok (await (InteractionAdmission f (ident st) sub cls None) m')"
    by (rule await_ok [OF facts(1) _ facts(2)]) (simp_all add: facts idle)
  ultimately show ?thesis
    using ok facts(1)
    by (simp add: UnsubscribeInteractionClassWithRegions_def s Let_def split: option.split sum.split)
qed

lemma rollback_fields_ok: "manager_ok m \<Longrightarrow> inflight m = None \<Longrightarrow> manager_ok (m\<lparr>associationRollback := p\<rparr>)"
  by (auto simp: manager_ok_def undoable_def)

lemma awaitAssociation_ok:
  assumes "manager_ok m" "inflight m = None" "fmlookup (fed m) f = Some st" "state_ok st'" "ident st' = ident st" "regions st' = regions st"
  shows "manager_ok (awaitAssociation f ob changed st st' m)"
proof -
  let ?p = "if changed then Some \<lparr>pFed = f, pObject = ob, pOrigin = ident st, shadow = objectView st ob\<rparr> else None"
  let ?m = "(setState f st' m)\<lparr>associationRollback := ?p\<rparr>"
  have "state_ok st" using manager_okD [OF assms(1,3)] by blast
  then have "admission_ok (AssociationAdmission f (ident st) ob changed) ?p st'"
    using objectView_shadow [of st ob] assms(6) by simp
  moreover have "manager_ok ?m"
    by (rule rollback_fields_ok) (use assms setState_idle [OF assms(1,3,4,5,2)] in simp_all)
  ultimately show ?thesis
    unfolding awaitAssociation_def
    by (intro await_ok [where f = f and st = st']) (use assms in simp_all)
qed

lemma changeAssociationGroupsMode_ok:
  assumes ok: "manager_ok m" and idle: "inflight m = None"
  shows "manager_ok (snd (changeAssociationGroupsMode opt f caller ob requested mode m))"
proof -
  obtain st m' where s: "stateForLocked opt f m = (st, m')" by fastforce
  note facts = stateForLocked_ok [OF ok s]
  have idle': "inflight m' = None" using facts idle by simp
  have "manager_ok (awaitAssociation f ob True st (clearObjectAssociations ob caller st) m')"
    by (rule awaitAssociation_ok [OF facts(1) idle' facts(2)]) (simp_all add: clearObjectAssociations_ok facts)
  moreover have "manager_ok (awaitAssociation f ob c st (fold (changeAssociationGroup ob caller os mode) (filter (\<lambda>g. \<not> skipped mode g) groups) st) m')"
    if v: "validateGroups st caller groups required = None" for groups required os c
  proof (rule awaitAssociation_ok [OF facts(1) idle' facts(2)])
    show "state_ok (fold (changeAssociationGroup ob caller os mode) (filter (\<lambda>g. \<not> skipped mode g) groups) st)"
      by (rule changeAssociationGroups_ok [OF facts(5)]) (use validateGroups_own [OF v] in auto)
  qed (simp_all add: changeAssociationGroups_fields)
  ultimately show ?thesis
    using ok facts(1)
    by (simp add: changeAssociationGroupsMode_def s Let_def split: option.split sum.split prod.split)
qed

lemma savedRegions_ok:
  assumes "state_ok st"
  shows "saved_ok (savedRegions rhs st) (fold (updateRegion commitRegion) rhs st)"
proof -
  have keep: "nextRegionHandle (fold (updateRegion commitRegion) xs t) = nextRegionHandle t \<and>
      (\<forall>rh. map_option dims (fmlookup (regions (fold (updateRegion commitRegion) xs t)) rh) = map_option dims (fmlookup (regions t) rh))" for xs t
    by (induction xs arbitrary: t) (auto simp: updateRegion_def commitRegion_def split: option.splits)
  show ?thesis
    unfolding saved_ok_def
  proof (intro allI impI conjI)
    fix rh t c p assume look: "fmlookup (savedRegions rhs st) rh = Some (t, c, p)"
    then obtain rs where rs: "fmlookup (regions st) rh = Some rs" "c = committed rs" "p = pending rs"
      by (auto simp: savedRegions_def split: if_splits)
    then have ok: "region_ok rs" "rh \<le> nextRegionHandle st"
      using state_okD(1) [OF assms] by (auto simp: regions_ok_def)
    then show "rh \<le> nextRegionHandle (fold (updateRegion commitRegion) rhs st)"
      using keep by simp
    fix rs' assume "fmlookup (regions (fold (updateRegion commitRegion) rhs st)) rh = Some rs'"
    then have "dims rs' = dims rs"
      using keep [of rhs st] rs by (metis option.map(2) option.sel)
    then show "region_ok (rs'\<lparr>template := t, committed := c, pending := p\<rparr>)"
      using ok(1) rs by (simp add: region_ok_def)
  qed
qed

lemma fold_commit_ident: "ident (fold (updateRegion commitRegion) rhs st) = ident st"
  by (induction rhs arbitrary: st) (simp_all add: updateRegion_def split: option.splits)

lemma CommitRegionModifications_ok:
  assumes ok: "manager_ok m" and idle: "inflight m = None"
  shows "manager_ok (snd (CommitRegionModifications_begin opt f ow rhs m))"
proof -
  obtain st m' where s: "stateForLocked opt f m = (st, m')" by fastforce
  note facts = stateForLocked_ok [OF ok s]
  let ?st = "fold (updateRegion commitRegion) rhs st"
  have "manager_ok (await (RegionAdmission f (ident st) (savedRegions rhs st)) (setState f ?st m'))"
    by (rule change_ok [OF facts(1) _ facts(2)])
      (simp_all add: facts idle commitRegions_ok savedRegions_ok fold_commit_ident)
  then show ?thesis
    using facts(1) by (simp add: CommitRegionModifications_begin_def s Let_def await_def split: option.split)
qed

lemma SetRangeBounds_ok:
  assumes ok: "manager_ok m" and idle: "inflight m = None"
  shows "manager_ok (snd (SetRangeBounds opt f ow rh d b m))"
proof -
  obtain st m' where s: "stateForLocked opt f m = (st, m')" by fastforce
  note facts = stateForLocked_ok [OF ok s]
  have "manager_ok (setState f (st\<lparr>regions := fmupd rh (rs\<lparr>pending := fmupd d b (pending rs)\<rparr>) (regions st)\<rparr>) m')"
    if "fmlookup (regions st) rh = Some rs" "d \<in> set (dims rs)" "\<not> Upper b \<le> Lower b" for rs
    by (rule setState_idle [OF facts(1,2) setBounds_ok [OF facts(5) that(1,2)]]) (use that(3) facts idle in simp_all)
  then show ?thesis
    using facts(1) by (simp add: SetRangeBounds_def s Let_def split: option.split)
qed

lemma DeleteRegion_ok:
  assumes ok: "manager_ok m" and idle: "inflight m = None"
  shows "manager_ok (snd (DeleteRegion opt f ow rh m))"
proof -
  obtain st m' where s: "stateForLocked opt f m = (st, m')" by fastforce
  note facts = stateForLocked_ok [OF ok s]
  have "manager_ok (setState f (removeInactiveRegion rh (st\<lparr>regions := fmdrop rh (regions st)\<rparr>)) m')" if "\<not> regionInUse st rh"
    by (rule setState_idle [OF facts(1,2)])
      (use dropRegion_ok [OF facts(5) that] facts idle in \<open>simp_all add: dropRegion_def\<close>)
  then show ?thesis
    using facts(1) by (simp add: DeleteRegion_def s Let_def split: option.split)
qed

lemma notify_ok [simp]: "manager_ok (notifyRegionStateChanged opt f m) \<longleftrightarrow> manager_ok m"
  by (simp add: notifyRegionStateChanged_def manager_ok_def undoable_def)

lemma notify_subscribed_ok [simp]: "manager_ok (notifyObjectSubscribed opt f sub cls as m) \<longleftrightarrow> manager_ok m"
  by (simp add: notifyObjectSubscribed_def manager_ok_def undoable_def)

lemma OnDDMFederateResign_ok:
  assumes ok: "manager_ok m" and idle: "inflight m = None"
  shows "manager_ok (OnDDMFederateResign opt f h m)"
proof (cases "fmlookup (fed m) f")
  case (Some st)
  have "manager_ok (setState f (removeFederateState h st) m)"
    using manager_okD [OF ok Some] by (intro setState_idle [OF ok Some removeFederateState_ok]) (simp_all add: idle)
  then show ?thesis using Some by (simp add: OnDDMFederateResign_def)
qed (simp add: OnDDMFederateResign_def ok)

lemma DDM_ImportState_ok:
  assumes ok: "manager_ok m" and idle: "inflight m = None" and st0: "manager_ok m0"
  shows "manager_ok (DDM_ImportState opt f (DDM_ExportState f0 m0) m)"
proof (cases "fmlookup (fed m0) f0")
  case (Some s0)
  obtain st m' where s: "stateForLocked opt f m = (st, m')" by fastforce
  note facts = stateForLocked_ok [OF ok s]
  have s0: "state_ok s0" using manager_okD [OF st0 Some] by blast
  have "manager_ok (setState f (importState (exportState s0) st) m')"
    by (rule setState_idle [OF facts(1,2) import_ok [OF s0]]) (simp_all add: import_export [OF s0] facts idle)
  then show ?thesis
    using Some by (simp add: DDM_ImportState_def DDM_ExportState_def s)
qed (simp add: DDM_ImportState_def DDM_ExportState_def ok)

section \<open>Admission\<close>

lemma undoIn_ok:
  assumes "manager_ok m" "inflight m = None" "\<And>st. fmlookup (fed m) f = Some st \<Longrightarrow> ident st = i \<Longrightarrow> state_ok (g st) \<and> ident (g st) = ident st"
  shows "manager_ok (undoIn f i g m)"
  using assms setState_idle [OF assms(1)] by (auto simp: undoIn_def split: option.splits)

lemma restore_idents [simp]:
  "ident (restoreRegions saved st) = ident st" "ident (restoreAssociations ob v st) = ident st"
  "ident (restoreObjectRows sub cls rows st) = ident st" "ident (restoreInteractionRows sub cls irows st) = ident st"
  by (simp_all add: restoreRegions_def restoreAssociations_def restoreObjectRows_def restoreInteractionRows_def Let_def)

lemma finishRateMutation_ok:
  assumes "manager_ok m" "inflight m = None" "manager_ok (undo m)" "inflight (undo m) = None"
  shows "manager_ok (snd (finishRateMutation opt f changed undo m))"
  using assms by (auto simp: finishRateMutation_def rollback_fields_ok split: option.splits)

lemma undoIn_inflight [simp]: "inflight (undoIn f i g m) = inflight m"
  by (simp add: undoIn_def split: option.splits)

lemma finish_ok:
  assumes ok: "manager_ok m"
  shows "manager_ok (snd (finish opt m))"
proof -
  let ?m = "m\<lparr>inflight := None\<rparr>"
  have idle: "manager_ok ?m" "inflight ?m = None"
    using ok by (simp_all add: manager_ok_def undoable_def)
  have state: "state_ok st" if "fmlookup (fed ?m) f = Some st" for f st
    using manager_okD [OF ok, of f st] that by simp
  have undo: "admission_ok a (associationRollback m) st" if "inflight m = Some a" "fmlookup (fed ?m) (adm_fed a) = Some st" "ident st = adm_ident a" for a st
    using manager_okD [OF ok, of "adm_fed a" st] that by (auto simp: undoable_def)
  show ?thesis
  proof (cases "inflight m")
    case None
    then show ?thesis using idle by (simp add: finish_def Let_def)
  next
    case (Some a)
    show ?thesis
    proof (cases a)
      case (RegionAdmission f i saved)
      have "manager_ok (undoIn f i (restoreRegions saved) ?m)"
        by (rule undoIn_ok [OF idle]) (use undo [OF Some] RegionAdmission state in \<open>auto intro: restoreRegions_ok\<close>)
      then show ?thesis
        using Some RegionAdmission idle by (simp add: finish_def Let_def finishRateMutation_ok)
    next
      case (AssociationAdmission f i ob changed)
      have "manager_ok (rollbackAssociation f i ob ?m)"
      proof (cases "associationRollback m")
        case (Some p)
        have "manager_ok (undoIn f i (restoreAssociations ob (shadow p)) ?m)"
          by (rule undoIn_ok [OF idle])
            (use undo [OF \<open>inflight m = Some a\<close>] AssociationAdmission Some state in \<open>auto simp: shadow_ok_def intro: restoreAssociations_ok\<close>)
        then show ?thesis using Some by (simp add: rollbackAssociation_def)
      qed (use idle in \<open>simp add: rollbackAssociation_def\<close>)
      moreover have "inflight (rollbackAssociation f i ob ?m) = None"
        by (simp add: rollbackAssociation_def split: option.splits)
      ultimately show ?thesis
        using Some AssociationAdmission idle by (simp add: finish_def Let_def finishRateMutation_ok)
    next
      case (ObjectAdmission f i sub cls saved subscribed asks)
      have "manager_ok (undoIn f i (restoreObjectRows sub cls rows) ?m)" if "saved = Some rows" for rows
        by (rule undoIn_ok [OF idle]) (use undo [OF Some] ObjectAdmission that state in \<open>auto intro: restoreObjectRows_ok\<close>)
      then show ?thesis
        using Some ObjectAdmission idle by (auto simp: finish_def Let_def split: option.splits)
    next
      case (InteractionAdmission f i sub cls saved)
      have "manager_ok (undoIn f i (restoreInteractionRows sub cls rows) ?m)" if "saved = Some rows" for rows
        by (rule undoIn_ok [OF idle]) (use undo [OF Some] InteractionAdmission that state in \<open>auto intro: restoreInteractionRows_ok\<close>)
      then show ?thesis
        using Some InteractionAdmission idle by (auto simp: finish_def Let_def split: option.splits)
    qed
  qed
qed

end
