(* ===== verification/DDM_Runs.thy ===== *)
theory DDM_Runs
  imports DDM_Steps
begin

text \<open>
  Runs of the manager.  \<open>ddm_quiet\<close> are the operations that need the state lock only, and so may run
  while a change awaits its admission; \<open>ddm_step\<close> are all operations, where those that hold the
  subscription lock start only when no change awaits admission.
\<close>

section \<open>Steps\<close>

inductive ddm_quiet :: "DDMManager \<Rightarrow> DDMManager \<Rightarrow> bool" where
  quiet_space: "ddm_quiet m (snd (LookupRoutingSpace opt f name m))"
| quiet_dimension: "ddm_quiet m (snd (LookupDimension opt f sp name m))"
| quiet_create: "ddm_quiet m (snd (CreateRegion opt f ow sp ds m))"
| quiet_register: "ddm_quiet m (snd (prepareObjectRegistration opt f ow cls groups allowEmpty ob m))"
| quiet_owner: "ddm_quiet m (OwnershipChanged f ob before after m)"
| quiet_forget_federate: "ddm_quiet m (ForgetFederateAssociations f h m)"
| quiet_forget_object: "ddm_quiet m (ForgetObject f ob m)"
| quiet_forget: "ddm_quiet m (ForgetObjectFederateAssociations f h ob m)"
| quiet_default: "ddm_quiet m (snd (PublisherRegionsOverlapDefaultRegion opt f cls a rhs m))"
| quiet_interaction_default: "ddm_quiet m (snd (InteractionRegionsOverlapDefaultRegion opt f cls rhs m))"
| quiet_point: "ddm_quiet m (snd (SubscribersForObjectAttributePoint opt f cls a d p m))"
| quiet_interaction: "ddm_quiet m (snd (InteractionDeliverySnapshot opt f sender cls rhs m))"
| quiet_object: "ddm_quiet m (snd (ObjectDeliverySnapshots opt f ob registered attrs known m))"
| quiet_convey: "ddm_quiet m (snd (ConveyCopies opt f h cs m))"
| quiet_enter: "ddm_quiet m (snd (EnterConveyedRegions f h rhs m))"
| quiet_release: "ddm_quiet m (ReleaseConveyedRegions f h rhs m)"
| quiet_restore: "ddm_quiet m (snd (RestoreConveyedRegions opt f cs m))"
| quiet_conveyed_update: "ddm_quiet m (snd (SubscribersForConveyedUpdate opt f cls a cs m))"
| quiet_conveyed_interaction: "ddm_quiet m (snd (InteractionSubscribersForConveyedRegions opt f cls cs m))"

inductive ddm_step :: "DDMManager \<Rightarrow> DDMManager \<Rightarrow> bool" where
  step_quiet: "ddm_quiet m m' \<Longrightarrow> ddm_step m m'"
| step_destroy: "ddm_step m (OnDDMFederationDestroyed f m)"
| step_bounds: "inflight m = None \<Longrightarrow> ddm_step m (snd (SetRangeBounds opt f ow rh d b m))"
| step_delete: "inflight m = None \<Longrightarrow> ddm_step m (snd (DeleteRegion opt f ow rh m))"
| step_commit: "inflight m = None \<Longrightarrow> ddm_step m (snd (CommitRegionModifications_begin opt f ow rhs m))"
| step_subscribe: "inflight m = None \<Longrightarrow> ddm_step m (snd (SubscribeObjectClassAttributesWithRegionsAndOptions opt f sub cls attrs rhs options m))"
| step_unsubscribe: "inflight m = None \<Longrightarrow> ddm_step m (snd (UnsubscribeObjectClassAttributesWithRegions opt f sub cls attrs rhs m))"
| step_groups: "inflight m = None \<Longrightarrow> ddm_step m (snd (changeObjectRegionGroups opt f sub cls groups o' m))"
| step_subscribe_interaction: "inflight m = None \<Longrightarrow> ddm_step m (snd (SubscribeInteractionClassWithRegionsAndOptions opt f sub cls rhs active m))"
| step_unsubscribe_interaction: "inflight m = None \<Longrightarrow> ddm_step m (snd (UnsubscribeInteractionClassWithRegions opt f sub cls rhs m))"
| step_associate: "inflight m = None \<Longrightarrow> ddm_step m (snd (changeAssociationGroupsMode opt f caller ob groups mode m))"
| step_resign: "inflight m = None \<Longrightarrow> ddm_step m (OnDDMFederateResign opt f h m)"
| step_finish: "ddm_step m (snd (finish opt m))"

text \<open>
  Reachable managers.  An image is imported only while no change awaits admission, as the
  federation is halted then, and it is one that some reachable manager exported.
\<close>

inductive ddm_reachable :: "DDMManager \<Rightarrow> bool" where
  reach_new: "ddm_reachable NewDDM"
| reach_step: "ddm_reachable m \<Longrightarrow> ddm_step m m' \<Longrightarrow> ddm_reachable m'"
| reach_import: "ddm_reachable m \<Longrightarrow> ddm_reachable m0 \<Longrightarrow> inflight m = None \<Longrightarrow>
    ddm_reachable (DDM_ImportState opt f (DDM_ExportState f0 m0) m)"

section \<open>The invariant\<close>

lemma refreshState_ok: "manager_ok m \<Longrightarrow> fmlookup (fed m) f = Some st \<Longrightarrow> manager_ok (setState f (refreshFOMDimensions opt f st) m)"
  by (rule tables_ok) simp_all

lemma SubscribersForObjectAttributePoint_snd:
  "snd (SubscribersForObjectAttributePoint opt f cls a d p m) = m \<or>
   snd (SubscribersForObjectAttributePoint opt f cls a d p m) = snd (stateForLocked opt f m)"
proof (cases "FOMs opt f")
  case (Inr h)
  obtain st m' where s: "stateForLocked opt f m = (st, m')" by fastforce
  let ?e = "case AttributeDimensions (fom st) of None \<Rightarrow> None
     | Some adims \<Rightarrow> (case adims cls a of None \<Rightarrow> Some ErrAttributeNotFound
        | Some available \<Rightarrow> if d \<in> set available then None else Some ErrInvalidRegionContext)"
  show ?thesis
  proof (cases ?e)
    case None
    then show ?thesis
      using Inr s by (cases "fmlookup (dimUpperBound st) d") (simp_all add: SubscribersForObjectAttributePoint_def)
  qed (use Inr s in \<open>simp add: SubscribersForObjectAttributePoint_def\<close>)
qed (simp add: SubscribersForObjectAttributePoint_def)

lemma InteractionSubscribersForConveyedRegions_snd:
  "snd (InteractionSubscribersForConveyedRegions opt f cls cs m) = m \<or>
   snd (InteractionSubscribersForConveyedRegions opt f cls cs m) = snd (stateForLocked opt f m)"
  by (simp add: InteractionSubscribersForConveyedRegions_def split_beta split: sum.split option.split)

lemma SubscribersForConveyedUpdate_snd:
  "snd (SubscribersForConveyedUpdate opt f cls a cs m) = snd (stateForLocked opt f m)"
  by (simp add: SubscribersForConveyedUpdate_def split_beta)

lemma stateFor_ok: "manager_ok m \<Longrightarrow> manager_ok (snd (stateForLocked opt f m))"
  using stateForLocked_ok(1) [of m opt f] by (metis surjective_pairing)

lemma ddm_quiet_ok:
  assumes "ddm_quiet m m'" "manager_ok m"
  shows "manager_ok m'"
  using assms(1)
proof cases
  case (quiet_default opt f cls a rhs)
  then show ?thesis
    using assms(2) refreshState_ok by (simp add: PublisherRegionsOverlapDefaultRegion_def Let_def split: option.split)
next
  case (quiet_interaction_default opt f cls rhs)
  then show ?thesis
    using assms(2) refreshState_ok by (simp add: InteractionRegionsOverlapDefaultRegion_def Let_def split: option.split)
next
  case (quiet_point opt f cls a d p)
  then show ?thesis using SubscribersForObjectAttributePoint_snd stateFor_ok assms(2) by metis
next
  case (quiet_conveyed_interaction opt f cls cs)
  then show ?thesis using InteractionSubscribersForConveyedRegions_snd stateFor_ok assms(2) by metis
qed (use assms(2) in \<open>simp_all add: LookupRoutingSpace_ok LookupDimension_ok CreateRegion_ok prepareObjectRegistration_ok
    OwnershipChanged_ok ForgetFederateAssociations_ok ForgetObject_ok ForgetObjectFederateAssociations_ok
    InteractionDeliverySnapshot_ok ObjectDeliverySnapshots_ok ConveyCopies_ok EnterConveyedRegions_ok
    ReleaseConveyedRegions_ok RestoreConveyedRegions_ok SubscribersForConveyedUpdate_snd stateFor_ok\<close>)

lemma ddm_step_ok:
  assumes "ddm_step m m'" "manager_ok m"
  shows "manager_ok m'"
  using assms(1)
  by cases (use assms(2) ddm_quiet_ok in \<open>simp_all add: OnDDMFederationDestroyed_ok SetRangeBounds_ok DeleteRegion_ok
    CommitRegionModifications_ok SubscribeObject_ok UnsubscribeObject_ok changeObjectRegionGroups_ok
    SubscribeInteraction_ok UnsubscribeInteraction_ok changeAssociationGroupsMode_ok OnDDMFederateResign_ok finish_ok\<close>)

lemma reachable_ok: "ddm_reachable m \<Longrightarrow> manager_ok m"
proof (induction rule: ddm_reachable.induct)
  case reach_new
  then show ?case by (simp add: NewDDM_def manager_ok_def)
qed (simp_all add: ddm_step_ok DDM_ImportState_ok)

lemma reachable_state_ok: "ddm_reachable m \<Longrightarrow> fmlookup (fed m) f = Some st \<Longrightarrow> state_ok st"
  using manager_okD [OF reachable_ok] by blast

end
