(* ===== verification/DDM_Frame.thy ===== *)
theory DDM_Frame
  imports DDM_Runs
begin

text \<open>
  What the operations that may run while a change awaits its admission leave alone: the
  subscription tables, and every region there is.  They may only add regions.
\<close>

definition same_tables :: "federationDDMState \<Rightarrow> federationDDMState \<Rightarrow> bool" where
  "same_tables st st' \<longleftrightarrow> ident st' = ident st \<and> objSubs st' = objSubs st \<and> intSubs st' = intSubs st \<and>
     (\<forall>rh rs. fmlookup (regions st) rh = Some rs \<longrightarrow> fmlookup (regions st') rh = Some rs)"

definition kept :: "DDMManager \<Rightarrow> DDMManager \<Rightarrow> bool" where
  "kept m m' \<longleftrightarrow> inflight m' = inflight m \<and>
     (\<forall>f st. fmlookup (fed m) f = Some st \<longrightarrow> (\<exists>st'. fmlookup (fed m') f = Some st' \<and> same_tables st st'))"

lemma same_tablesI:
  "ident st' = ident st \<Longrightarrow> objSubs st' = objSubs st \<Longrightarrow> intSubs st' = intSubs st \<Longrightarrow> regions st' = regions st \<Longrightarrow> same_tables st st'"
  by (simp add: same_tables_def)

lemma same_tables_refl [simp]: "same_tables st st"
  by (simp add: same_tables_def)

lemma same_tables_trans: "same_tables a b \<Longrightarrow> same_tables b c \<Longrightarrow> same_tables a c"
  by (simp add: same_tables_def)

lemma kept_refl [simp]: "kept m m"
  by (auto simp: kept_def)

lemma kept_transitive: "kept a b \<Longrightarrow> kept b c \<Longrightarrow> kept a c"
  unfolding kept_def by (metis same_tables_trans)

lemma keptD: "kept m m' \<Longrightarrow> fmlookup (fed m) f = Some st \<Longrightarrow> \<exists>st'. fmlookup (fed m') f = Some st' \<and> same_tables st st'"
  by (simp add: kept_def)

lemma kept_setState: "fmlookup (fed m) f = Some st \<Longrightarrow> same_tables st st' \<Longrightarrow> kept m (setState f st' m)"
  by (auto simp: kept_def)

lemma kept_project: "kept m (project f i which g n) \<longleftrightarrow> kept m n"
  by (simp add: kept_def project_def split: option.split)

lemma stateForLocked_lookup:
  assumes "stateForLocked opt f m = (st, m')"
  shows "fmlookup (fed m') f = Some st" "kept m m'"
  using assms by (auto simp: stateForLocked_def Let_def kept_def intro!: same_tablesI split: option.splits)

text \<open>The pattern of the operations: a new state after the state was looked up.\<close>

lemma kept_change: "stateForLocked opt f m = (st, m') \<Longrightarrow> same_tables st st' \<Longrightarrow> kept m (setState f st' m')"
  using stateForLocked_lookup kept_setState kept_transitive by blast

lemma kept_stateFor: "kept m (snd (stateForLocked opt f m))"
  using stateForLocked_lookup(2) by (metis surjective_pairing)

lemma kept_lookups:
  "kept m (snd (LookupRoutingSpace opt f name m))" "kept m (snd (LookupDimension opt f sp name m))"
proof -
  obtain st m' where s: "stateForLocked opt f m = (st, m')" by fastforce
  note keep = stateForLocked_lookup(2) [OF s] kept_change [OF s]
  show "kept m (snd (LookupRoutingSpace opt f name m))"
    using keep by (auto simp: LookupRoutingSpace_def s Let_def same_tables_def split: option.split)
  show "kept m (snd (LookupDimension opt f sp name m))"
    using keep by (auto simp: LookupDimension_def s Let_def same_tables_def split: option.split)
qed

lemma kept_create:
  assumes ok: "manager_ok m"
  shows "kept m (snd (CreateRegion opt f ow sp ds m))"
proof -
  obtain st m' where s: "stateForLocked opt f m = (st, m')" by fastforce
  have "regions_ok (nextRegionHandle st) (regions st)"
    by (rule state_okD(1) [OF stateForLocked_ok(5) [OF ok s]])
  then have "same_tables st (st\<lparr>nextRegionHandle := nextRegionHandle st + 1, regions := fmupd (nextRegionHandle st + 1) rs (regions st)\<rparr>)" for rs
    by (fastforce simp: same_tables_def regions_ok_def)
  then show ?thesis
    using stateForLocked_lookup(2) [OF s] kept_change [OF s] by (simp add: CreateRegion_def s Let_def)
qed

lemma kept_register: "kept m (snd (prepareObjectRegistration opt f ow cls groups allow ob m))"
proof (cases opt f ow cls groups allow ob m rule: prepareObjectRegistration_cases)
  case (commit h required b o' st)
  then show ?thesis
    by (auto simp: kept_def same_tables_def)
qed simp

lemma fold_clear_fields: "same_tables st (fold (\<lambda>ob. clearObjectAssociations ob h) obs st)"
  by (rule fold_invariant [where Q = "\<lambda>_. True"])
    (auto intro: same_tables_trans simp: same_tables_def clearObjectAssociations_def)

lemma kept_lifecycle:
  "kept m (OwnershipChanged f ob before after m)" "kept m (ForgetFederateAssociations f h m)" "kept m (ForgetObject f ob m)"
  "kept m (ForgetObjectFederateAssociations f h ob m)"
proof -
  have "same_tables st (forgetFederateAssociations h st)" for st
    using fold_clear_fields [of "releaseConveyedReceiver h st"] fold_releaseRecipient_fields
    by (fastforce simp: forgetFederateAssociations_def releaseConveyedReceiver_def Let_def same_tables_def)
  then show "kept m (ForgetFederateAssociations f h m)"
    by (auto simp: ForgetFederateAssociations_def kept_project intro: kept_setState split: option.split)
  show "kept m (OwnershipChanged f ob before after m)"
    by (auto simp: OwnershipChanged_def kept_project applyOwnershipChange_def intro!: kept_setState same_tablesI split: option.split)
  show "kept m (ForgetObject f ob m)"
    by (auto simp: ForgetObject_def kept_project intro!: kept_setState same_tablesI split: option.split)
  show "kept m (ForgetObjectFederateAssociations f h ob m)"
    by (auto simp: ForgetObjectFederateAssociations_def kept_project intro!: kept_setState same_tablesI split: option.split)
qed

lemma kept_refresh: "fmlookup (fed m) f = Some st \<Longrightarrow> kept m (setState f (refreshFOMDimensions opt f st) m)"
  by (erule kept_setState) (simp add: same_tables_def)

lemma kept_queries:
  "kept m (snd (PublisherRegionsOverlapDefaultRegion opt f cls a rhs m))" "kept m (snd (InteractionRegionsOverlapDefaultRegion opt f cls rhs m))"
  "kept m (snd (SubscribersForObjectAttributePoint opt f cls a d p m))" "kept m (snd (SubscribersForConveyedUpdate opt f cls a cs m))"
  "kept m (snd (InteractionSubscribersForConveyedRegions opt f cls cs m))"
proof -
  show "kept m (snd (PublisherRegionsOverlapDefaultRegion opt f cls a rhs m))"
    by (simp add: PublisherRegionsOverlapDefaultRegion_def Let_def kept_refresh split: option.split)
  show "kept m (snd (InteractionRegionsOverlapDefaultRegion opt f cls rhs m))"
    by (simp add: InteractionRegionsOverlapDefaultRegion_def Let_def kept_refresh split: option.split)
  show "kept m (snd (SubscribersForObjectAttributePoint opt f cls a d p m))"
    using SubscribersForObjectAttributePoint_snd kept_stateFor by (metis kept_refl)
  show "kept m (snd (SubscribersForConveyedUpdate opt f cls a cs m))"
    by (simp add: SubscribersForConveyedUpdate_snd kept_stateFor)
  show "kept m (snd (InteractionSubscribersForConveyedRegions opt f cls cs m))"
    using InteractionSubscribersForConveyedRegions_snd kept_stateFor by (metis kept_refl)
qed

lemma capture_tables: "captureRealizations st rhs rz = Inr (cs, st') \<Longrightarrow> same_tables st st'"
  using capture_state by (fastforce intro: same_tablesI)

lemma delivery_tables: "deliverySnapshots ob registered known as st = (r, st') \<Longrightarrow> same_tables st st'"
proof (induction as arbitrary: st st' r)
  case (Cons a as)
  show ?case
  proof (cases "deliverySnapshot st ob registered a known")
    case (Inr p)
    obtain row st1 where p: "p = (row, st1)" by (cases p)
    have one: "same_tables st st1"
      using Inr p capture_tables by (fastforce simp: deliverySnapshot_def Let_def bindR_eq_Inr_iff)
    obtain r2 st2 where two: "deliverySnapshots ob registered known as st1 = (r2, st2)" by fastforce
    have "st' = st2"
      using Cons.prems Inr p two by (auto split: sum.splits)
    then show ?thesis using Cons.IH [OF two] one same_tables_trans by blast
  qed (use Cons.prems in auto)
qed auto

lemma kept_snapshots:
  "kept m (snd (InteractionDeliverySnapshot opt f sender cls rhs m))" "kept m (snd (ObjectDeliverySnapshots opt f ob registered attrs known m))"
proof -
  obtain st m' where s: "stateForLocked opt f m = (st, m')" by fastforce
  note keep = stateForLocked_lookup(2) [OF s] kept_change [OF s]
  show "kept m (snd (InteractionDeliverySnapshot opt f sender cls rhs m))"
    using keep(1) keep(2) [OF capture_tables]
    by (simp add: InteractionDeliverySnapshot_def s Let_def split: sum.split option.split prod.split)
  show "kept m (snd (ObjectDeliverySnapshots opt f ob registered attrs known m))"
    using keep(1) keep(2) [OF delivery_tables]
    by (simp add: ObjectDeliverySnapshots_def s Let_def split: sum.split prod.split)
qed

lemma kept_conveyed:
  "kept m (snd (ConveyCopies opt f h cs m))" "kept m (snd (EnterConveyedRegions f h rhs m))"
  "kept m (ReleaseConveyedRegions f h rhs m)" "kept m (snd (RestoreConveyedRegions opt f cs m))"
proof -
  obtain st m' where s: "stateForLocked opt f m = (st, m')" by fastforce
  note keep = stateForLocked_lookup(2) [OF s] kept_change [OF s]
  have "same_tables st (fold (prepareLease h) cs (fold cacheRealization cs st))"
    unfolding leases_interleave
    by (rule fold_invariant [where Q = "\<lambda>_. True"])
      (auto intro: same_tables_trans simp: same_tables_def prepareLease_def cacheRealization_def reserveDesignator_def Let_def)
  then show "kept m (snd (ConveyCopies opt f h cs m))"
    using keep by (simp add: ConveyCopies_def s Let_def split: option.split)
  have "same_tables st (fold reserveDesignator cs st)"
    by (rule fold_invariant [where Q = "\<lambda>_. True"]) (auto simp: same_tables_def reserveDesignator_def)
  then show "kept m (snd (RestoreConveyedRegions opt f cs m))"
    using keep by (simp add: RestoreConveyedRegions_def s Let_def split: option.split)
  have "same_tables st (fold (\<lambda>rh st. st\<lparr>conveyedRecipients := fmupd rh (fmupd h True (inner (conveyedRecipients st) rh)) (conveyedRecipients st)\<rparr>) rhs st)" for st
    by (rule fold_invariant [where Q = "\<lambda>_. True"]) (auto simp: same_tables_def)
  then show "kept m (snd (EnterConveyedRegions f h rhs m))"
    by (auto simp: EnterConveyedRegions_def intro: kept_setState split: option.split)
  show "kept m (ReleaseConveyedRegions f h rhs m)"
    using fold_releaseRecipient_fields by (fastforce simp: ReleaseConveyedRegions_def intro!: kept_setState same_tablesI split: option.split)
qed

lemma quiet_kept:
  assumes "ddm_quiet m m'" "manager_ok m"
  shows "kept m m'"
  using assms(1)
  by cases (use assms(2) in \<open>simp_all add: kept_lookups kept_create kept_register kept_lifecycle kept_queries kept_snapshots kept_conveyed\<close>)

lemma quiets_kept: "ddm_quiet\<^sup>*\<^sup>* m m' \<Longrightarrow> manager_ok m \<Longrightarrow> manager_ok m' \<and> kept m m'"
  by (induction rule: rtranclp_induct) (auto intro: ddm_quiet_ok quiet_kept kept_transitive)

end
