(* ===== verification/DDM_Meaning.thy ===== *)
theory DDM_Meaning
  imports DDM_Frame
begin

text \<open>
  What the tables of a manager mean: the region of a handle, and the options of a subscription for
  a class, attribute, federate and region.  The changes of the services, and their undoing, are
  described on this level.
\<close>

section \<open>Reading a manager\<close>

definition regionAt :: "fed_name \<Rightarrow> DDMManager \<Rightarrow> nat \<Rightarrow> regionState option" where
  "regionAt f m rh = (case fmlookup (fed m) f of None \<Rightarrow> None | Some st \<Rightarrow> fmlookup (regions st) rh)"

definition objOptions :: "(nat \<times> nat, subscription list) fmap \<Rightarrow> nat \<times> nat \<Rightarrow> handle \<Rightarrow> nat \<Rightarrow> (bool \<times> string) option" where
  "objOptions t k = optionsIn subscriber sregions (\<lambda>s. (spassive s, updateRate s)) (rowsAt t k)"

definition intOptions :: "(nat, interactionSubscription list) fmap \<Rightarrow> nat \<Rightarrow> handle \<Rightarrow> nat \<Rightarrow> bool option" where
  "intOptions t k = optionsIn isubscriber iregions ipassive (rowsAt t k)"

definition subscribedOptions :: "fed_name \<Rightarrow> DDMManager \<Rightarrow> nat \<Rightarrow> nat \<Rightarrow> handle \<Rightarrow> nat \<Rightarrow> (bool \<times> string) option" where
  "subscribedOptions f m cls a h r =
     (case fmlookup (fed m) f of None \<Rightarrow> None | Some st \<Rightarrow> objOptions (objSubs st) (cls, a) h r)"

definition interactionOptions :: "fed_name \<Rightarrow> DDMManager \<Rightarrow> nat \<Rightarrow> handle \<Rightarrow> nat \<Rightarrow> bool option" where
  "interactionOptions f m cls h r =
     (case fmlookup (fed m) f of None \<Rightarrow> None | Some st \<Rightarrow> intOptions (intSubs st) cls h r)"

lemma option_eqI: "(\<And>v. x = Some v \<longleftrightarrow> y = Some v) \<Longrightarrow> x = y"
  by (cases x; cases y) auto

lemma objOptions_iff:
  "state_ok st \<Longrightarrow> objOptions (objSubs st) k h r = Some v \<longleftrightarrow> (h, r, v) \<in> obj.table (rowsAt (objSubs st) k)"
  unfolding objOptions_def by (rule optionsIn_iff [OF objRows_ok])

lemma objOptions_eqI:
  assumes "state_ok st" "state_ok st'" "obj.table (rowsAt (objSubs st) k) = obj.table (rowsAt (objSubs st') k)"
  shows "objOptions (objSubs st) k h r = objOptions (objSubs st') k h r"
  by (rule option_eqI) (simp add: objOptions_iff assms)

lemma intOptions_eqI:
  assumes "state_ok st" "state_ok st'" "int.table (rowsAt (intSubs st) k) = int.table (rowsAt (intSubs st') k)"
  shows "intOptions (intSubs st) k h r = intOptions (intSubs st') k h r"
  unfolding intOptions_def
  by (rule option_eqI) (simp only: optionsIn_iff [OF intRows_ok [OF assms(1)]] optionsIn_iff [OF intRows_ok [OF assms(2)]] assms(3))

lemma stateForLocked_tables:
  assumes "stateForLocked opt f m = (st, m')"
  shows "fmlookup (regions st) rh = regionAt f m rh" "objOptions (objSubs st) (cls, a) h r = subscribedOptions f m cls a h r"
    "intOptions (intSubs st) cls h r = interactionOptions f m cls h r"
proof -
  have new: "regions (initialState opt f i) = fmempty" "objSubs (initialState opt f i) = fmempty" "intSubs (initialState opt f i) = fmempty" for i
    by (simp_all add: initialState_def populate_fields newFederationDDMState_def split: sum.split option.split)
  show "fmlookup (regions st) rh = regionAt f m rh" "objOptions (objSubs st) (cls, a) h r = subscribedOptions f m cls a h r"
    "intOptions (intSubs st) cls h r = interactionOptions f m cls h r"
    using assms
    by (auto simp: stateForLocked_def Let_def regionAt_def subscribedOptions_def interactionOptions_def objOptions_def intOptions_def
        optionsIn_def new split: option.splits)
qed

section \<open>Committing\<close>

lemma commitRegion_idem [simp]: "commitRegion (commitRegion rs) = commitRegion rs"
  by (simp add: commitRegion_def)

lemma commitRegions_lookup:
  "fmlookup (regions (fold (updateRegion commitRegion) rhs st)) rh =
     map_option (\<lambda>rs. if rh \<in> set rhs then commitRegion rs else rs) (fmlookup (regions st) rh)"
proof (induction rhs arbitrary: st)
  case (Cons a rhs)
  show ?case
    using Cons.IH [of "updateRegion commitRegion a st"]
    by (cases "fmlookup (regions st) rh"; cases "rh = a") (auto simp: updateRegion_def split: option.splits)
qed (simp add: option.map_ident)

lemma restoreRegions_lookup:
  assumes "fmlookup (regions st) rh = Some rs" "fmlookup (regions st') rh = Some (if rh \<in> set rhs then commitRegion rs else rs)"
  shows "fmlookup (regions (restoreRegions (savedRegions rhs st) st')) rh = Some rs"
  using assms by (simp add: restoreRegions_def savedRegions_def commitRegion_def fset_of_list.rep_eq)

section \<open>Subscribing\<close>

lemma addObjectSubscription_options:
  assumes "state_ok st" "rhs \<noteq> []" "\<forall>r\<in>set rhs. owners st r = Some sub"
  shows "objOptions (objSubs (addObjectSubscription (cls, a') (newRow sub rhs options) st)) (c, a) h r =
    (if c = cls \<and> a = a' \<and> h = sub \<and> r \<in> set rhs then Some (\<not> Active options, UpdateRateDesignator options)
     else objOptions (objSubs st) (c, a) h r)"
proof (cases "(c, a) = (cls, a')")
  case False
  then show ?thesis by (auto simp: addObjectSubscription_def objOptions_def rowsAt_fmupd)
next
  case True
  let ?rows = "rowsAt (objSubs st) (cls, a')" and ?row = "newRow sub rhs options"
  have ok: "obj.ok (owners st) ([] @ ?rows)" using objRows_ok [OF assms(1)] by simp
  have row: "sregions ?row \<noteq> []" "\<forall>r\<in>set (sregions ?row). owners st r = Some (subscriber ?row)"
    using assms(2,3) by (simp_all add: newRow_def)
  have "obj.table (addObjectRows ?row [] ?rows) =
      {(h, r, v) \<in> obj.table ?rows. \<not> (h = sub \<and> r \<in> set rhs)} \<union> {(sub, r, (\<not> Active options, UpdateRateDesignator options)) | r. r \<in> set rhs}"
    using obj.add_table [OF ok _ row(1)] by (simp add: obj.requested_def newRow_def)
  moreover have "obj.ok (owners st) (addObjectRows ?row [] ?rows)"
    using obj.add_ok [OF ok _ row] by simp
  ultimately have "objOptions (objSubs (addObjectSubscription (cls, a') ?row st)) (cls, a') h r = Some v \<longleftrightarrow>
      (if h = sub \<and> r \<in> set rhs then v = (\<not> Active options, UpdateRateDesignator options) else objOptions (objSubs st) (cls, a') h r = Some v)" for v
    unfolding objOptions_iff [OF assms(1)]
    by (auto simp: addObjectSubscription_def objOptions_def rowsAt_fmupd optionsIn_iff)
  then show ?thesis
    using True by (intro option_eqI) auto
qed

lemma addObjectSubscriptions_options:
  assumes "state_ok st" "rhs \<noteq> []" "\<forall>r\<in>set rhs. owners st r = Some sub"
  shows "objOptions (objSubs (fold (\<lambda>a. addObjectSubscription (cls, a) (newRow sub rhs options)) attrs st)) (c, a) h r =
    (if c = cls \<and> a \<in> set attrs \<and> h = sub \<and> r \<in> set rhs then Some (\<not> Active options, UpdateRateDesignator options)
     else objOptions (objSubs st) (c, a) h r)"
  using assms(1,3)
proof (induction attrs arbitrary: st)
  case (Cons a' attrs)
  let ?st = "addObjectSubscription (cls, a') (newRow sub rhs options) st"
  have "state_ok ?st"
    by (rule addObjectSubscription_ok) (use Cons.prems assms(2) in \<open>simp_all add: newRow_def\<close>)
  then have "objOptions (objSubs (fold (\<lambda>a. addObjectSubscription (cls, a) (newRow sub rhs options)) attrs ?st)) (c, a) h r =
    (if c = cls \<and> a \<in> set attrs \<and> h = sub \<and> r \<in> set rhs then Some (\<not> Active options, UpdateRateDesignator options)
     else objOptions (objSubs ?st) (c, a) h r)"
    using Cons.IH [of ?st] Cons.prems(2) by simp
  then show ?case
    using addObjectSubscription_options [OF Cons.prems(1) assms(2) Cons.prems(2), of cls a' options c a h r] by auto
qed simp

section \<open>Undoing a subscription\<close>

text \<open>Rows of other federates are not touched by a change of one federate.\<close>

lemma addObjects_others:
  assumes "state_ok st" "rhs \<noteq> []" "\<forall>r\<in>set rhs. owners st r = Some sub"
  shows "(h, r, v) \<in> obj.table (rowsAt (objSubs (fold (\<lambda>a. addObjectSubscription (cls, a) (newRow sub rhs options)) attrs st)) k) \<and> (fst k = cls \<longrightarrow> h \<noteq> sub)
     \<longleftrightarrow> (h, r, v) \<in> obj.table (rowsAt (objSubs st) k) \<and> (fst k = cls \<longrightarrow> h \<noteq> sub)"
  using addObjectSubscriptions_options [OF assms, of cls options attrs "fst k" "snd k" h r]
    objOptions_iff [OF addObjectSubscriptions_ok [OF assms], of cls options attrs k h r v] objOptions_iff [OF assms(1), of k h r v]
  by (auto split: if_splits)

lemma restored_table:
  assumes "state_ok st"
    and others: "\<And>h r v. (h, r, v) \<in> obj.table (rowsAt (objSubs st1) k) \<and> (fst k = cls \<longrightarrow> h \<noteq> sub) \<longleftrightarrow>
       (h, r, v) \<in> obj.table (rowsAt (objSubs st) k) \<and> (fst k = cls \<longrightarrow> h \<noteq> sub)"
  shows "obj.table (rowsAt (objSubs (restoreObjectRows sub cls (savedObjectRows sub cls st) st1)) k) = obj.table (rowsAt (objSubs st) k)"
proof -
  let ?c = "removeObjSubs sub cls (objSubs st1)" and ?saved = "savedObjectRows sub cls st"
  have cleared: "rowsAt ?c k = (if fst k = cls then filter (\<lambda>s. subscriber s \<noteq> sub) (rowsAt (objSubs st1) k) else rowsAt (objSubs st1) k)"
    by (auto simp: rowsAt_def removeObjSubs_lookup split: option.splits)
  have saved: "rowsAt ?saved k = (if fst k = cls then filter (\<lambda>s. subscriber s = sub) (rowsAt (objSubs st) k) else [])"
    by (auto simp: rowsAt_def savedObjectRows_lookup split: option.splits)
  have "rowsAt (objSubs (restoreObjectRows sub cls ?saved st1)) k = rowsAt ?c k @ rowsAt ?saved k"
    by (auto simp: restoreObjectRows_def Let_def rowsAt_def fmdom_notD split: option.splits dest: fmdomI)
  then have "(h, r, v) \<in> obj.table (rowsAt (objSubs (restoreObjectRows sub cls ?saved st1)) k) \<longleftrightarrow>
      ((h, r, v) \<in> obj.table (rowsAt (objSubs st1) k) \<and> (fst k = cls \<longrightarrow> h \<noteq> sub)) \<or>
      (fst k = cls \<and> h = sub \<and> (h, r, v) \<in> obj.table (rowsAt (objSubs st) k))" for h r v
    using triples_filter [of subscriber sregions "\<lambda>s. (spassive s, updateRate s)" "\<lambda>h. h \<noteq> sub" "rowsAt (objSubs st1) k"]
      triples_filter [of subscriber sregions "\<lambda>s. (spassive s, updateRate s)" "\<lambda>h. h = sub" "rowsAt (objSubs st) k"]
    by (auto simp: cleared saved triples_append)
  then show ?thesis using others by auto
qed

end
