(* ===== verification/DDM_Defaults.thy ===== *)
theory DDM_Defaults
  imports DDM_Runs
begin

text \<open>
  The default ranges of dimensions are never empty: they come from the object model only, through
  \<open>DimensionDefaultRange\<close>, and every operation keeps them.
\<close>

definition defaults_ok :: "federationDDMState \<Rightarrow> bool" where
  "defaults_ok st \<longleftrightarrow> (\<forall>d r. fmlookup (dimDefaults st) d = Some (Some r) \<longrightarrow> Lower r < Upper r)"

definition defaulted :: "DDMManager \<Rightarrow> bool" where
  "defaulted m \<longleftrightarrow> (\<forall>f st. fmlookup (fed m) f = Some st \<longrightarrow> defaults_ok st)"

section \<open>The dimension tables\<close>

definition ranges_ok :: "(nat, DDMRange option) fmap \<Rightarrow> bool" where
  "ranges_ok m \<longleftrightarrow> (\<forall>d r. fmlookup m d = Some (Some r) \<longrightarrow> Lower r < Upper r)"

lemma defaults_ok_iff: "defaults_ok st \<longleftrightarrow> ranges_ok (dimDefaults st)"
  by (simp add: defaults_ok_def ranges_ok_def)

lemma setDimensionDefault_ok: "ranges_ok m \<Longrightarrow> ranges_ok (setDimensionDefault h d m)"
  using DimensionDefaultRange_bounds [of d] by (auto simp: ranges_ok_def setDimensionDefault_def split: DefaultRange.splits)

lemma fold_setDimensionDefault_ok: "ranges_ok m \<Longrightarrow> ranges_ok (fold (\<lambda>b. setDimensionDefault (g b) (k b)) bs m)"
  by (rule fold_invariant [where Q = "\<lambda>_. True"]) (simp_all add: setDimensionDefault_ok)

lemma ranges_ok_empty [simp]: "ranges_ok fmempty"
  by (simp add: ranges_ok_def)

lemma refresh_defaults: "defaults_ok st \<Longrightarrow> defaults_ok (refreshFOMDimensions opt f st)"
  by (auto simp: defaults_ok_iff refreshFOMDimensions_def Let_def fold_setDimensionDefault_ok split: sum.split option.split)

lemma populate_defaults: "defaults_ok st \<Longrightarrow> defaults_ok (populateFromFOM ds st)"
  unfolding populateFromFOM_def
  by (rule fold_invariant [where Q = "\<lambda>_. True"]) (simp_all add: declareDimension_def Let_def defaults_ok_iff setDimensionDefault_ok)

lemma new_defaults: "defaults_ok (newFederationDDMState i)"
  by (simp add: defaults_ok_iff newFederationDDMState_def)

lemma initial_defaults: "defaults_ok (initialState opt f i)"
  by (simp add: initialState_def populate_defaults new_defaults split: sum.split option.split)

section \<open>Operations\<close>

lemma defaulted_setState: "defaulted m \<Longrightarrow> defaults_ok st \<Longrightarrow> defaulted (setState f st m)"
  by (auto simp: defaulted_def)

lemma defaulted_lookup: "defaulted m \<Longrightarrow> fmlookup (fed m) f = Some st \<Longrightarrow> defaults_ok st"
  by (simp add: defaulted_def)

lemma defaulted_cong: "fed m' = fed m \<Longrightarrow> defaulted m' \<longleftrightarrow> defaulted m"
  by (simp add: defaulted_def)

lemma defaulted_fields [simp]:
  "defaulted (m\<lparr>allocated := x\<rparr>) \<longleftrightarrow> defaulted m" "defaulted (m\<lparr>inflight := y\<rparr>) \<longleftrightarrow> defaulted m"
  "defaulted (m\<lparr>associationRollback := z\<rparr>) \<longleftrightarrow> defaulted m" "defaulted (await a m) \<longleftrightarrow> defaulted m"
  "defaulted (project f i which g m) \<longleftrightarrow> defaulted m" "defaulted (notifyRegionStateChanged opt f m) \<longleftrightarrow> defaulted m"
  "defaulted (notifyObjectSubscribed opt f sub cls as m) \<longleftrightarrow> defaulted m"
  by (simp_all add: defaulted_def await_def project_def notifyRegionStateChanged_def notifyObjectSubscribed_def split: option.split)

lemma stateForLocked_defaults:
  assumes "defaulted m" "stateForLocked opt f m = (st, m')"
  shows "defaulted m'" "defaults_ok st"
proof -
  have "defaults_ok st"
    using assms refresh_defaults initial_defaults
    by (auto simp: stateForLocked_def Let_def split: option.splits dest: defaulted_lookup)
  then show "defaulted m'" "defaults_ok st"
    using assms by (auto simp: stateForLocked_def Let_def intro!: defaulted_setState split: option.splits)
qed

text \<open>A change that keeps the defaults.\<close>

definition keeps :: "(federationDDMState \<Rightarrow> federationDDMState) \<Rightarrow> bool" where
  "keeps g \<longleftrightarrow> (\<forall>st. dimDefaults (g st) = dimDefaults st)"

lemma keepsI: "(\<And>st. dimDefaults (g st) = dimDefaults st) \<Longrightarrow> keeps g"
  by (simp add: keeps_def)

lemma keeps_eq: "keeps g \<Longrightarrow> dimDefaults (g st) = dimDefaults st"
  by (simp add: keeps_def)

lemma keeps_fold: "(\<And>x. keeps (g x)) \<Longrightarrow> keeps (fold g xs)"
  by (rule keepsI, rule fold_invariant [where Q = "\<lambda>_. True"]) (simp_all add: keeps_eq)

lemma defaults_cong: "dimDefaults st' = dimDefaults st \<Longrightarrow> defaults_ok st' \<longleftrightarrow> defaults_ok st"
  by (simp add: defaults_ok_def)

lemma keeps_defaults [simp]: "keeps g \<Longrightarrow> defaults_ok (g st) \<longleftrightarrow> defaults_ok st"
  by (rule defaults_cong) (rule keeps_eq)

lemma defaulted_keeps: "keeps g \<Longrightarrow> defaulted m \<Longrightarrow> fmlookup (fed m) f = Some st \<Longrightarrow> defaulted (setState f (g st) m)"
  using keeps_defaults defaulted_lookup defaulted_setState by blast

lemma defaulted_refresh: "defaulted m \<Longrightarrow> fmlookup (fed m) f = Some st \<Longrightarrow> defaulted (setState f (refreshFOMDimensions opt f st) m)"
  using refresh_defaults defaulted_lookup defaulted_setState by blast

lemma keeps_basic [simp]:
  "keeps (updateRegion u rh)" "keeps (addObjectSubscription k s)" "keeps (removeObjectSubscriptionRegions k sub rhs)"
  "keeps (addInteractionSubscription cls s')" "keeps (changeObjectGroup sub cls os gr)" "keeps (setObjectView ob v)"
  "keeps (changeAssociationGroup ob caller ow mode gr)" "keeps (clearObjectAssociations ob h)" "keeps (applyOwnershipChange ob before after)"
  "keeps (releaseRecipient h rh)" "keeps (removeInactiveRegion rh)" "keeps (dropRegion rh)" "keeps (restoreRegions saved)"
  "keeps (restoreAssociations ob v)" "keeps (restoreObjectRows sub cls rows)" "keeps (restoreInteractionRows sub cls irows)"
  "keeps (reserveDesignator c)" "keeps (cacheRealization c)" "keeps (prepareLease h c)" "keeps (importConveyed ce)"
proof -
  show "keeps (changeObjectGroup sub cls os gr)"
  proof (rule keepsI)
    fix st show "dimDefaults (changeObjectGroup sub cls os gr st) = dimDefaults st"
      unfolding changeObjectGroup_def
      by (rule fold_invariant [where Q = "\<lambda>_. True"])
        (simp_all add: addObjectSubscription_def removeObjectSubscriptionRegions_def split: option.split)
  qed
qed (simp_all add: keeps_def updateRegion_def addObjectSubscription_def removeObjectSubscriptionRegions_def addInteractionSubscription_def
    setObjectView_def changeAssociationGroup_def clearObjectAssociations_def applyOwnershipChange_def releaseRecipient_def pruneConveyedRegion_def
    removeInactiveRegion_def dropRegion_def restoreRegions_def restoreAssociations_def restoreObjectRows_def restoreInteractionRows_def
    reserveDesignator_def cacheRealization_def prepareLease_def importConveyed_def Let_def split: option.split)

lemma keeps_folds [simp]:
  "keeps (fold (updateRegion u) rhs)" "keeps (fold (\<lambda>a. addObjectSubscription (cls, a) s) as)"
  "keeps (fold (\<lambda>a. removeObjectSubscriptionRegions (cls, a) sub rs) as)" "keeps (fold (changeObjectGroup sub cls os) gs)"
  "keeps (fold (changeAssociationGroup ob caller ow mode) gs)" "keeps (fold (\<lambda>ob. clearObjectAssociations ob h) obs)"
  "keeps (fold (releaseRecipient h) rhs)" "keeps (fold dropRegion rhs)" "keeps (fold reserveDesignator cs)" "keeps (fold cacheRealization cs)"
  "keeps (fold (prepareLease h) cs)" "keeps (fold importConveyed ces)"
  by (simp_all add: keeps_fold)

lemma keeps_composed [simp]:
  "keeps (releaseConveyedReceiver h)" "keeps (forgetFederateAssociations h)" "keeps (removeFederateState h)" "keeps (importState im)"
proof -
  show release: "keeps (releaseConveyedReceiver h)"
    by (rule keepsI) (simp add: releaseConveyedReceiver_def keeps_eq)
  show "keeps (forgetFederateAssociations h)"
    by (rule keepsI) (simp add: forgetFederateAssociations_def Let_def keeps_eq release)
  show "keeps (removeFederateState h)"
    by (rule keepsI)
      (simp add: removeFederateState_def keepAssociations_def removeFederateSubscriptions_def dropCaller_def Let_def keeps_eq release)
  show "keeps (importState im)"
    by (rule keepsI) (simp add: importState_def Let_def keeps_eq)
qed

lemma capture_defaults: "captureRealizations st rhs rz = Inr (cs, st') \<Longrightarrow> defaults_ok st' \<longleftrightarrow> defaults_ok st"
  by (drule capture_state) (simp add: defaults_ok_def)

lemma delivery_defaults: "deliverySnapshots ob registered known as st = (r, st') \<Longrightarrow> dimDefaults st' = dimDefaults st"
proof (induction as arbitrary: st st' r)
  case (Cons a as)
  show ?case
  proof (cases "deliverySnapshot st ob registered a known")
    case (Inr p)
    obtain row st1 where p: "p = (row, st1)" by (cases p)
    have one: "dimDefaults st1 = dimDefaults st"
      using Inr p capture_state by (fastforce simp: deliverySnapshot_def Let_def bindR_eq_Inr_iff)
    obtain r2 st2 where two: "deliverySnapshots ob registered known as st1 = (r2, st2)" by fastforce
    have "st' = st2"
      using Cons.prems Inr p two by (auto split: sum.splits)
    then show ?thesis using Cons.IH [OF two] one by simp
  qed (use Cons.prems in auto)
qed auto

section \<open>Steps\<close>

lemma quiet_defaults:
  assumes "ddm_quiet m m'" "defaulted m"
  shows "defaulted m'"
  using assms(1)
proof cases
  case (quiet_space opt f name)
  obtain st m0 where s: "stateForLocked opt f m = (st, m0)" by fastforce
  note d = stateForLocked_defaults [OF assms(2) s]
  have "defaults_ok (st\<lparr>routingSpaces := x\<rparr>)" for x using d(2) by (simp add: defaults_ok_def)
  then show ?thesis
    using d assms(2) quiet_space by (simp add: LookupRoutingSpace_def s Let_def defaulted_setState split: option.split)
next
  case (quiet_dimension opt f sp name)
  obtain st m0 where s: "stateForLocked opt f m = (st, m0)" by fastforce
  note d = stateForLocked_defaults [OF assms(2) s]
  have "defaults_ok (st\<lparr>dimensions := x, dimUpperBound := y\<rparr>)" for x y using d(2) by (simp add: defaults_ok_def)
  then show ?thesis
    using d assms(2) quiet_dimension by (simp add: LookupDimension_def s Let_def defaulted_setState split: option.split)
next
  case (quiet_create opt f ow sp ds)
  obtain st m0 where s: "stateForLocked opt f m = (st, m0)" by fastforce
  note d = stateForLocked_defaults [OF assms(2) s]
  have "defaults_ok (st\<lparr>nextRegionHandle := x, regions := y\<rparr>)" for x y using d(2) by (simp add: defaults_ok_def)
  then show ?thesis
    using d assms(2) quiet_create by (simp add: CreateRegion_def s Let_def defaulted_setState)
next
  case (quiet_register opt f ow cls groups allow ob)
  then show ?thesis
  proof (cases opt f ow cls groups allow ob m rule: prepareObjectRegistration_cases)
    case (commit h required b o' st)
    have "defaults_ok st"
      unfolding commit(1) using assms(2) populate_defaults new_defaults by (auto dest: defaulted_lookup split: option.split)
    then have "defaults_ok (st\<lparr>objPubs := x\<rparr>)" for x by (simp add: defaults_ok_def)
    then show ?thesis using assms(2) quiet_register commit by (simp add: defaulted_setState)
  qed (use assms(2) quiet_register in simp)
next
  case (quiet_interaction opt f sender cls rhs)
  obtain st m0 where s: "stateForLocked opt f m = (st, m0)" by fastforce
  note d = stateForLocked_defaults [OF assms(2) s]
  have "defaulted (setState f st' m0)" if "captureRealizations st rhs rz = Inr (cs, st')" for rz cs st'
    using capture_defaults [OF that] d by (simp add: defaulted_setState)
  then show ?thesis
    using d assms(2) quiet_interaction
    by (simp add: InteractionDeliverySnapshot_def s Let_def split: sum.split option.split prod.split)
next
  case (quiet_object opt f ob registered attrs known)
  obtain st m0 where s: "stateForLocked opt f m = (st, m0)" by fastforce
  note d = stateForLocked_defaults [OF assms(2) s]
  have "defaulted (setState f st' m0)" if "deliverySnapshots ob registered known attrs st = (r, st')" for r st'
    using defaults_cong [OF delivery_defaults [OF that]] d by (simp add: defaulted_setState)
  then show ?thesis
    using assms(2) quiet_object by (simp add: ObjectDeliverySnapshots_def s Let_def split: sum.split prod.split)
next
  case (quiet_convey opt f h cs)
  obtain st m0 where s: "stateForLocked opt f m = (st, m0)" by fastforce
  note d = stateForLocked_defaults [OF assms(2) s]
  show ?thesis
    using d assms(2) quiet_convey by (simp add: ConveyCopies_def s Let_def defaulted_setState split: option.split)
next
  case (quiet_restore opt f cs)
  obtain st m0 where s: "stateForLocked opt f m = (st, m0)" by fastforce
  note d = stateForLocked_defaults [OF assms(2) s]
  show ?thesis
    using d assms(2) quiet_restore by (simp add: RestoreConveyedRegions_def s Let_def defaulted_setState split: option.split)
next
  case (quiet_enter f h rhs)
  have "keeps (fold (\<lambda>rh st. st\<lparr>conveyedRecipients := fmupd rh (fmupd h True (inner (conveyedRecipients st) rh)) (conveyedRecipients st)\<rparr>) rhs)"
    by (rule keeps_fold) (simp add: keeps_def)
  then show ?thesis
    using quiet_enter assms(2)
    by (auto simp: EnterConveyedRegions_def intro: defaulted_keeps split: option.split)
next
  case (quiet_point opt f cls a d p)
  then show ?thesis
    using SubscribersForObjectAttributePoint_snd [of opt f cls a d p m] stateForLocked_defaults(1) [OF assms(2)] assms(2)
    by (metis surjective_pairing)
next
  case (quiet_conveyed_interaction opt f cls cs)
  then show ?thesis
    using InteractionSubscribersForConveyedRegions_snd [of opt f cls cs m] stateForLocked_defaults(1) [OF assms(2)] assms(2)
    by (metis surjective_pairing)
next
  case (quiet_conveyed_update opt f cls a cs)
  then show ?thesis
    using SubscribersForConveyedUpdate_snd [of opt f cls a cs m] stateForLocked_defaults(1) [OF assms(2)]
    by (metis surjective_pairing)
next
  case (quiet_default opt f cls a rhs)
  then show ?thesis
    using assms(2) by (simp add: PublisherRegionsOverlapDefaultRegion_def Let_def defaulted_refresh split: option.split)
next
  case (quiet_interaction_default opt f cls rhs)
  then show ?thesis
    using assms(2) by (simp add: InteractionRegionsOverlapDefaultRegion_def Let_def defaulted_refresh split: option.split)
next
  case (quiet_forget_object f ob)
  have "keeps (\<lambda>st. st\<lparr>objPubs := fmdrop ob (objPubs st), inactivePubs := fmdrop ob (inactivePubs st)\<rparr>)" by (simp add: keeps_def)
  then show ?thesis
    using quiet_forget_object assms(2) by (auto simp: ForgetObject_def dest: defaulted_keeps split: option.split)
next
  case (quiet_forget f h ob)
  have "keeps (\<lambda>st. st\<lparr>inactivePubs := putInner ob (pruneCallers (fmdrop h (inner (inactivePubs st) ob))) (inactivePubs st)\<rparr>)" by (simp add: keeps_def)
  then show ?thesis
    using quiet_forget assms(2) by (auto simp: ForgetObjectFederateAssociations_def dest: defaulted_keeps split: option.split)
qed (use assms(2) in \<open>auto simp: OwnershipChanged_def ForgetFederateAssociations_def ReleaseConveyedRegions_def
    intro: defaulted_keeps split: option.split\<close>)

lemma undo_defaults: "keeps g \<Longrightarrow> defaulted m \<Longrightarrow> defaulted (undoIn f i g m)"
  by (auto simp: undoIn_def intro: defaulted_keeps split: option.split)

lemma finishRateMutation_defaults:
  "defaulted m \<Longrightarrow> defaulted (undo m) \<Longrightarrow> defaulted (snd (finishRateMutation opt f changed undo m))"
  by (simp add: finishRateMutation_def split: option.split)

lemma rollback_defaults: "defaulted m \<Longrightarrow> defaulted (rollbackAssociation f i ob m)"
  by (simp add: rollbackAssociation_def undo_defaults split: option.split)

lemma finish_defaults: "defaulted m \<Longrightarrow> defaulted (snd (finish opt m))"
  by (simp add: finish_def Let_def finishRateMutation_defaults undo_defaults rollback_defaults split: option.split admission.split)

lemma changeObjectRegionGroups_defaults:
  assumes "defaulted m"
  shows "defaulted (snd (changeObjectRegionGroups opt f sub cls groups options m))"
proof -
  obtain st m0 where s: "stateForLocked opt f m = (st, m0)" by fastforce
  note d = stateForLocked_defaults [OF assms s]
  show ?thesis
  proof (cases "case options of None \<Rightarrow> None | Some o' \<Rightarrow> validateGroupSubscriptionOptions opt f o'")
    case free: None
    show ?thesis
    proof (cases "objectContext opt f cls (groupAttributes groups)")
      case (Inr c)
      show ?thesis
        using assms d free Inr
        by (cases "validateGroups st sub groups (if options = None then fmempty else c)"; cases "ctxErr opt 0")
          (simp_all add: changeObjectRegionGroups_def s Let_def defaulted_setState)
    qed (use assms free in \<open>simp add: changeObjectRegionGroups_def\<close>)
  qed (use assms in \<open>simp add: changeObjectRegionGroups_def\<close>)
qed

lemma changeAssociation_defaults:
  assumes "defaulted m"
  shows "defaulted (snd (changeAssociationGroupsMode opt f caller ob groups mode m))"
proof -
  obtain st m0 where s: "stateForLocked opt f m = (st, m0)" by fastforce
  note d = stateForLocked_defaults [OF assms s]
  show ?thesis
    using assms d
    by (simp add: changeAssociationGroupsMode_def s Let_def awaitAssociation_def defaulted_setState split: option.split sum.split prod.split)
qed

lemma services_defaults:
  assumes "defaulted m"
  shows "defaulted (snd (SetRangeBounds opt f ow rh d b m))" "defaulted (snd (DeleteRegion opt f ow rh m))"
    "defaulted (snd (CommitRegionModifications_begin opt f ow rhs m))"
    "defaulted (snd (SubscribeObjectClassAttributesWithRegionsAndOptions opt f sub cls attrs rhs options m))"
    "defaulted (snd (UnsubscribeObjectClassAttributesWithRegions opt f sub cls attrs rhs m))"
    "defaulted (snd (SubscribeInteractionClassWithRegionsAndOptions opt f sub cls rhs active m))"
    "defaulted (snd (UnsubscribeInteractionClassWithRegions opt f sub cls rhs m))"
proof -
  obtain st m0 where s: "stateForLocked opt f m = (st, m0)" by fastforce
  note d = stateForLocked_defaults [OF assms s]
  have fields: "defaults_ok (st\<lparr>regions := x\<rparr>)" "defaults_ok (st\<lparr>intSubs := y\<rparr>)" for x y
    using d(2) by (simp_all add: defaults_ok_def)
  show "defaulted (snd (SetRangeBounds opt f ow rh d b m))"
    using d fields by (simp add: SetRangeBounds_def s Let_def defaulted_setState split: option.split)
  show "defaulted (snd (DeleteRegion opt f ow rh m))"
    using d fields by (simp add: DeleteRegion_def s Let_def defaulted_setState split: option.split)
  show "defaulted (snd (CommitRegionModifications_begin opt f ow rhs m))"
    using d by (simp add: CommitRegionModifications_begin_def s Let_def defaulted_setState split: option.split)
  show "defaulted (snd (SubscribeObjectClassAttributesWithRegionsAndOptions opt f sub cls attrs rhs options m))"
    using assms d
    by (simp add: SubscribeObjectClassAttributesWithRegionsAndOptions_def s Let_def defaulted_setState split: option.split sum.split)
  show "defaulted (snd (UnsubscribeObjectClassAttributesWithRegions opt f sub cls attrs rhs m))"
    using assms d by (simp add: UnsubscribeObjectClassAttributesWithRegions_def s Let_def defaulted_setState split: option.split sum.split)
  show "defaulted (snd (SubscribeInteractionClassWithRegionsAndOptions opt f sub cls rhs active m))"
    using assms d by (simp add: SubscribeInteractionClassWithRegionsAndOptions_def s Let_def defaulted_setState split: option.split sum.split)
  show "defaulted (snd (UnsubscribeInteractionClassWithRegions opt f sub cls rhs m))"
    using assms d fields by (simp add: UnsubscribeInteractionClassWithRegions_def s Let_def defaulted_setState split: option.split sum.split)
qed

lemma step_defaults:
  assumes "ddm_step m m'" "defaulted m"
  shows "defaulted m'"
  using assms(1)
proof cases
  case step_quiet
  then show ?thesis using quiet_defaults assms(2) by blast
next
  case (step_destroy f)
  then show ?thesis using assms(2) by (simp add: OnDDMFederationDestroyed_def defaulted_def)
next
  case (step_resign opt f h)
  then show ?thesis
    using assms(2) defaulted_keeps [of "removeFederateState h" m f] by (simp add: OnDDMFederateResign_def split: option.split)
qed (use assms(2) in \<open>simp_all add: services_defaults changeObjectRegionGroups_defaults changeAssociation_defaults finish_defaults\<close>)

lemma import_defaults: "defaulted m \<Longrightarrow> defaulted (DDM_ImportState opt f im m)"
proof -
  assume m: "defaulted m"
  obtain st m0 where s: "stateForLocked opt f m = (st, m0)" by fastforce
  note d = stateForLocked_defaults [OF m s]
  show ?thesis using m d by (simp add: DDM_ImportState_def s defaulted_setState split: option.split)
qed

lemma reachable_defaults: "ddm_reachable m \<Longrightarrow> fmlookup (fed m) f = Some st \<Longrightarrow> defaults_ok st"
proof -
  have "ddm_reachable m \<Longrightarrow> defaulted m"
    by (induction rule: ddm_reachable.induct) (auto simp: step_defaults import_defaults, simp add: NewDDM_def defaulted_def)
  then show "ddm_reachable m \<Longrightarrow> fmlookup (fed m) f = Some st \<Longrightarrow> defaults_ok st"
    using defaulted_lookup by blast
qed

end
