(* ===== verification/DDM_Overlap.thy ===== *)
theory DDM_Overlap
  imports DDM_Meaning DDM_Defaults
begin

text \<open>
  Routing described by geometry.  A region of an attribute has a range on each dimension it
  specifies, and the default range on the other dimensions of the attribute; two regions overlap
  when they have a dimension in common and a point lies in both of them on all common dimensions.
\<close>

section \<open>The ranges of a region\<close>

definition effectiveRange :: "federationDDMState \<Rightarrow> nat \<Rightarrow> nat \<Rightarrow> regionState \<Rightarrow> nat \<Rightarrow> DDMRange option" where
  "effectiveRange st cls a rs d =
     (case fmlookup (committed rs) d of
        Some r \<Rightarrow> Some r
      | None \<Rightarrow>
          (case AttributeDimensions (fom st) of
             None \<Rightarrow> None
           | Some adims \<Rightarrow>
               (case adims cls a of
                  None \<Rightarrow> None
                | Some available \<Rightarrow>
                    if d \<in> set available then (case fmlookup (dimDefaults st) d of Some x \<Rightarrow> x | None \<Rightarrow> None) else None)))"

definition inRange :: "nat \<Rightarrow> DDMRange \<Rightarrow> bool" where
  "inRange p r \<longleftrightarrow> Lower r \<le> p \<and> p < Upper r"

definition sharePoint :: "(nat \<Rightarrow> DDMRange option) \<Rightarrow> (nat \<Rightarrow> DDMRange option) \<Rightarrow> bool" where
  "sharePoint x y \<longleftrightarrow>
     (\<exists>d. x d \<noteq> None \<and> y d \<noteq> None) \<and> (\<exists>p. \<forall>d r s. x d = Some r \<longrightarrow> y d = Some s \<longrightarrow> inRange (p d) r \<and> inRange (p d) s)"

lemma Overlap_point: "Lower r < Upper r \<Longrightarrow> Lower s < Upper s \<Longrightarrow> Overlap r s \<longleftrightarrow> (\<exists>p. inRange p r \<and> inRange p s)"
  by (auto simp: Overlap_def inRange_def intro: exI [of _ "max (Lower r) (Lower s)"])

lemma regionPairOverlap_iff:
  "regionPairOverlap a b \<longleftrightarrow>
     (\<exists>d. fmlookup a d \<noteq> None \<and> fmlookup b d \<noteq> None) \<and>
     (\<forall>d r s. fmlookup a d = Some r \<longrightarrow> fmlookup b d = Some s \<longrightarrow> Overlap r s)"
proof -
  let ?shared = "ffilter (\<lambda>d. fmlookup b d \<noteq> None) (fmdom a)"
  have mem: "d |\<in>| ?shared \<longleftrightarrow> fmlookup a d \<noteq> None \<and> fmlookup b d \<noteq> None" for d
    by (auto simp: fmlookup_dom_iff)
  have some: "?shared \<noteq> {||} \<longleftrightarrow> (\<exists>d. fmlookup a d \<noteq> None \<and> fmlookup b d \<noteq> None)"
    using mem by blast
  have ball: "fBall ?shared Q \<longleftrightarrow> (\<forall>d. fmlookup a d \<noteq> None \<and> fmlookup b d \<noteq> None \<longrightarrow> Q d)" for Q
    using mem by blast
  have "(\<forall>d. fmlookup a d \<noteq> None \<and> fmlookup b d \<noteq> None \<longrightarrow> Overlap (the (fmlookup a d)) (the (fmlookup b d))) \<longleftrightarrow>
      (\<forall>d r s. fmlookup a d = Some r \<longrightarrow> fmlookup b d = Some s \<longrightarrow> Overlap r s)"
    by fastforce
  then show ?thesis unfolding regionPairOverlap_def Let_def some ball by blast
qed

lemma regionPairOverlap_point:
  assumes "bounds_ok a" "bounds_ok b"
  shows "regionPairOverlap a b \<longleftrightarrow> sharePoint (fmlookup a) (fmlookup b)"
proof -
  have one: "(\<forall>r s. fmlookup a d = Some r \<longrightarrow> fmlookup b d = Some s \<longrightarrow> Overlap r s) \<longleftrightarrow>
      (\<exists>p. \<forall>r s. fmlookup a d = Some r \<longrightarrow> fmlookup b d = Some s \<longrightarrow> inRange p r \<and> inRange p s)" for d
    using assms Overlap_point by (cases "fmlookup a d"; cases "fmlookup b d") (auto simp: bounds_ok_def)
  have "(\<forall>d r s. fmlookup a d = Some r \<longrightarrow> fmlookup b d = Some s \<longrightarrow> Overlap r s) \<longleftrightarrow>
      (\<exists>p. \<forall>d r s. fmlookup a d = Some r \<longrightarrow> fmlookup b d = Some s \<longrightarrow> inRange (p d) r \<and> inRange (p d) s)"
    unfolding one by (rule choice_iff)
  then show ?thesis
    unfolding regionPairOverlap_iff sharePoint_def by blast
qed

section \<open>Realizations\<close>

lemma withDefaults_lookup:
  "fmlookup (withDefaults st available b) d =
     (case fmlookup b d of
        Some r \<Rightarrow> Some r
      | None \<Rightarrow> if d \<in> set available then (case fmlookup (dimDefaults st) d of Some x \<Rightarrow> x | None \<Rightarrow> None) else None)"
  unfolding withDefaults_def
  by (induction available arbitrary: b) (auto split: option.splits)

lemma map_filter_concat: "List.map_filter g xs = concat (map (\<lambda>x. List.map_filter g [x]) xs)"
  by (induction xs) (simp_all add: List.map_filter_simps split: option.split)

lemma objectRealizations_concat: "objectRealizations st cls a rhs = concat (map (\<lambda>r. objectRealizations st cls a [r]) rhs)"
  unfolding objectRealizations_def realize_def materializeRegions_def
  by (auto simp: map_filter_concat [of _ rhs] split: option.split)

text \<open>What a committed region contributes, and that its ranges are not empty.\<close>

lemma objectRealizations_region:
  assumes "state_ok st" "fmlookup (regions st) r = Some rs"
  shows "objectRealizations st cls a [r] = [] \<and> template rs \<or>
    (\<exists>b. objectRealizations st cls a [r] = [b] \<and> \<not> template rs \<and> fmlookup b = effectiveRange st cls a rs)"
proof -
  have "fmlookup (conveyed st) r = None"
    using state_okD(6) [OF assms(1)] assms(2) by (metis conveyed_ok_def fmdomI fmdom_notD option.distinct(1))
  then have region: "realizeRegion st available strict r =
      (if template rs then None else Some (if strict then withDefaults st available (committed rs) else committed rs))" for available strict
    using assms(2) by (simp add: realizeRegion_def materializeRegion_def)
  have material: "materializeRegion st r = (if template rs then None else Some (committed rs))"
    using \<open>fmlookup (conveyed st) r = None\<close> assms(2) by (simp add: materializeRegion_def)
  show ?thesis
    by (auto simp: objectRealizations_def realize_def materializeRegions_def region material List.map_filter_simps effectiveRange_def
        withDefaults_lookup dimensionSet_def fun_eq_iff split: option.splits)
qed

lemma effectiveRange_ok:
  assumes "state_ok st" "defaults_ok st" "fmlookup (regions st) r = Some rs" "fmlookup b = effectiveRange st cls a rs"
  shows "bounds_ok b"
proof -
  have "bounds_ok (committed rs)"
    using state_okD(1) [OF assms(1)] assms(3) by (auto simp: regions_ok_def region_ok_def)
  then show ?thesis
    using assms(2) unfolding bounds_ok_def assms(4)
    by (auto simp: effectiveRange_def defaults_ok_def split: option.splits if_splits)
qed

text \<open>Two lists of regions overlap when a pair of them does.\<close>

lemma regionsOverlap_iff:
  assumes "state_ok st" "defaults_ok st" "\<forall>r\<in>set rhs. fmlookup (regions st) r \<noteq> None" "\<forall>r\<in>set rhs'. fmlookup (regions st) r \<noteq> None"
  shows "regionsOverlap (objectRealizations st cls a rhs) (objectRealizations st cls a rhs') \<longleftrightarrow>
    (\<exists>r\<in>set rhs. \<exists>r'\<in>set rhs'. \<exists>rs rs'. fmlookup (regions st) r = Some rs \<and> fmlookup (regions st) r' = Some rs' \<and>
       \<not> template rs \<and> \<not> template rs' \<and> sharePoint (effectiveRange st cls a rs) (effectiveRange st cls a rs'))"
proof -
  have one: "(\<exists>b\<in>set (objectRealizations st cls a [r]). P b) \<longleftrightarrow>
      (\<exists>rs b. fmlookup (regions st) r = Some rs \<and> \<not> template rs \<and> fmlookup b = effectiveRange st cls a rs \<and> P b)"
    if look: "fmlookup (regions st) r \<noteq> None" for r P
  proof -
    obtain rs where rs: "fmlookup (regions st) r = Some rs" using look by blast
    have same: "b = c" if "fmlookup b = effectiveRange st cls a rs" "fmlookup c = effectiveRange st cls a rs" for b c
      using that by (simp add: fmap_ext)
    show ?thesis
      using objectRealizations_region [OF assms(1) rs, of cls a] rs same by auto
  qed
  have all: "(\<exists>b\<in>set (objectRealizations st cls a xs). P b) \<longleftrightarrow>
      (\<exists>r\<in>set xs. \<exists>rs b. fmlookup (regions st) r = Some rs \<and> \<not> template rs \<and> fmlookup b = effectiveRange st cls a rs \<and> P b)"
    if "\<forall>r\<in>set xs. fmlookup (regions st) r \<noteq> None" for xs P
    unfolding objectRealizations_concat [of st cls a xs] using one that by auto
  have exists: "\<exists>b. fmlookup b = effectiveRange st cls a rs" if "fmlookup (regions st) r = Some rs" "\<not> template rs" for r rs
    using objectRealizations_region [OF assms(1) that(1), of cls a] that(2) by blast
  have pair: "regionPairOverlap b b' \<longleftrightarrow> sharePoint (effectiveRange st cls a rs) (effectiveRange st cls a rs')"
    if "fmlookup (regions st) r = Some rs" "fmlookup b = effectiveRange st cls a rs"
      "fmlookup (regions st) r' = Some rs'" "fmlookup b' = effectiveRange st cls a rs'" for r r' rs rs' b b'
    using regionPairOverlap_point [OF effectiveRange_ok [OF assms(1,2) that(1,2)] effectiveRange_ok [OF assms(1,2) that(3,4)]] that by simp
  show ?thesis (is "?l \<longleftrightarrow> ?r")
  proof
    assume ?l
    then show ?r
      unfolding regionsOverlap_def list_ex_iff all [OF assms(3)] all [OF assms(4)] using pair by blast
  next
    assume ?r
    then obtain r r' rs rs' where rs: "r \<in> set rhs" "r' \<in> set rhs'" "fmlookup (regions st) r = Some rs" "fmlookup (regions st) r' = Some rs'"
        "\<not> template rs" "\<not> template rs'" "sharePoint (effectiveRange st cls a rs) (effectiveRange st cls a rs')"
      by blast
    moreover obtain b b' where "fmlookup b = effectiveRange st cls a rs" "fmlookup b' = effectiveRange st cls a rs'"
      using exists [OF rs(3,5)] exists [OF rs(4,6)] by blast
    ultimately show ?l
      unfolding regionsOverlap_def list_ex_iff all [OF assms(3)] all [OF assms(4)] using pair by blast
  qed
qed

section \<open>Captured copies\<close>

lemma fmap_of_listed: "fmap_of_list (rev (map (\<lambda>d. (d, the (fmlookup b d))) (sorted_list_of_fset (fmdom b)))) = b"
proof (rule fmap_ext)
  fix d
  let ?xs = "map (\<lambda>d. (d, the (fmlookup b d))) (sorted_list_of_fset (fmdom b))"
  have "distinct (map fst ?xs)"
    by (simp add: comp_def sorted_list_of_fset.rep_eq)
  then have "map_of (rev ?xs) d = map_of ?xs d"
    by (metis map_of_inject_set rev_map distinct_rev set_rev)
  also have "\<dots> = fmlookup b d"
    by (cases "d |\<in>| fmdom b") (auto simp: map_of_map_restrict restrict_map_def fmdom_notD dest: fmlookup_dom_iff [THEN iffD1])
  finally show "fmlookup (fmap_of_list (rev ?xs)) d = fmlookup b d" by (simp add: fmlookup_of_list)
qed

lemma captureOne_bounds:
  assumes "captureOne rz r = Inr snap"
  shows "rz r = [portableBounds snap]"
proof -
  obtain b where b: "rz r = [b]"
    using assms by (cases "rz r") (auto simp: captureOne_def Let_def split: if_splits)
  let ?xs = "map (\<lambda>d. (d, the (fmlookup b d))) (sorted_list_of_fset (fmdom b))"
  have "sorted (map fst ?xs)" by (simp add: comp_def sorted_list_of_fset.rep_eq)
  then have "sort_key fst ?xs = ?xs" by (rule sort_key_id_if_sorted)
  then have "ranges snap = ?xs"
    using assms b by (auto simp: captureOne_def NewRegionRealizationSnapshot_def Let_def split: if_splits option.splits)
  then have "portableBounds snap = b" by (simp add: portableBounds_def fmap_of_listed)
  then show ?thesis using b by simp
qed

lemma captureAll_bounds: "captureAll rz n rhs = Inr cs \<Longrightarrow> portableRealizations cs = concat (map rz rhs)"
proof (induction rhs arbitrary: n cs)
  case (Cons r rhs)
  then obtain snap cs' where "captureOne rz r = Inr snap" "captureAll rz (n + 1) rhs = Inr cs'"
      "cs = \<lparr>Designator = n + 1, Realization = snap\<rparr> # cs'"
    by (auto simp: bindR_eq_Inr_iff)
  then show ?case
    using Cons.IH captureOne_bounds by (simp add: portableRealizations_def)
qed (simp add: portableRealizations_def)

text \<open>The captured copies have exactly the ranges of the regions they copy.\<close>

lemma capture_bounds:
  assumes "captureRealizations st rhs (\<lambda>r. objectRealizations st cls a [r]) = Inr (cs, st')"
  shows "set (portableRealizations cs) = set (objectRealizations st cls a rhs)"
proof -
  have "portableRealizations cs = concat (map (\<lambda>r. objectRealizations st cls a [r]) (sortCompact rhs))"
    using assms captureAll_bounds by (auto simp: captureRealizations_def Let_def bindR_eq_Inr_iff split: if_splits)
  then show ?thesis by (simp add: objectRealizations_concat [of st cls a rhs])
qed

lemma regionsOverlap_cong:
  assumes "set pub = set pub'"
  shows "regionsOverlap pub = regionsOverlap pub'"
  by (rule ext) (simp only: regionsOverlap_def list_ex_iff assms)

lemma matching_cong:
  assumes "set pub = set pub'"
  shows "matchingSubscribers st cls a pub = matchingSubscribers st cls a pub'"
  by (simp only: matchingSubscribers_def regionsOverlap_cong [OF assms])

text \<open>What realizations depend on.\<close>

lemma objectRealizations_cong:
  assumes "fom st' = fom st" "dimDefaults st' = dimDefaults st" "regions st' = regions st" "conveyed st' = conveyed st"
  shows "objectRealizations st' = objectRealizations st"
proof -
  have m: "materializeRegion st' = materializeRegion st"
    by (intro ext) (simp only: materializeRegion_def assms)
  have w: "withDefaults st' = withDefaults st"
    by (intro ext fmap_ext) (simp only: withDefaults_lookup assms)
  have "realizeRegion st' = realizeRegion st"
    by (intro ext) (simp only: realizeRegion_def m w assms)
  then show ?thesis
    by (intro ext) (simp only: objectRealizations_def realize_def materializeRegions_def m assms)
qed

lemma counter_realizations [simp]:
  fixes st :: federationDDMState
  shows "objectRealizations (st\<lparr>nextRegionHandle := n\<rparr>) cls a rhs = objectRealizations st cls a rhs"
  by (simp add: objectRealizations_cong [of "st\<lparr>nextRegionHandle := n\<rparr>" st])

text \<open>Refreshing the tables twice from the same object model gives the same realizations.\<close>

lemma refresh_again:
  fixes st :: federationDDMState
  shows "objectRealizations (refreshFOMDimensions opt f ((refreshFOMDimensions opt f st)\<lparr>nextRegionHandle := n\<rparr>)) =
    objectRealizations (refreshFOMDimensions opt f st)"
  by (rule objectRealizations_cong)
    (simp_all add: refreshFOMDimensions_def Let_def split: sum.splits option.splits prod.splits)

lemma counter_matching [simp]:
  fixes st :: federationDDMState
  shows "matchingSubscribers (st\<lparr>nextRegionHandle := n\<rparr>) cls a pub = matchingSubscribers st cls a pub"
  by (simp add: matchingSubscribers_def)

lemma deliverySnapshots_counter:
  "deliverySnapshots ob registered known as (st\<lparr>nextRegionHandle := n\<rparr>) = (r, st') \<Longrightarrow> \<exists>k. st' = st\<lparr>nextRegionHandle := k\<rparr>"
proof (induction as arbitrary: n r st')
  case (Cons b as)
  show ?case
  proof (cases "deliverySnapshot (st\<lparr>nextRegionHandle := n\<rparr>) ob registered b known")
    case (Inr p)
    obtain row st1 where p: "p = (row, st1)" by (cases p)
    obtain k where k: "st1 = st\<lparr>nextRegionHandle := k\<rparr>"
      using Inr p by (auto simp: deliverySnapshot_def Let_def bindR_eq_Inr_iff dest!: capture_state)
    obtain x st2 where two: "deliverySnapshots ob registered known as st1 = (x, st2)" by fastforce
    have "st' = st2" using Cons.prems Inr p two by (auto split: sum.splits)
    then show ?thesis using Cons.IH two k by blast
  qed (use Cons.prems in auto)
qed auto

lemma deliverySnapshots_row:
  "deliverySnapshots ob registered known as (st\<lparr>nextRegionHandle := n\<rparr>) = (Inr rows, st') \<Longrightarrow> fmlookup rows a = Some row \<Longrightarrow>
   (\<exists>k. st' = st\<lparr>nextRegionHandle := k\<rparr>) \<and>
   (\<exists>k k'. deliverySnapshot (st\<lparr>nextRegionHandle := k\<rparr>) ob registered a known = Inr (row, st\<lparr>nextRegionHandle := k'\<rparr>))"
proof (induction as arbitrary: n rows st')
  case (Cons b as)
  obtain r1 st1 where one: "deliverySnapshot (st\<lparr>nextRegionHandle := n\<rparr>) ob registered b known = Inr (r1, st1)"
    using Cons.prems(1) by (cases "deliverySnapshot (st\<lparr>nextRegionHandle := n\<rparr>) ob registered b known") auto
  have "\<exists>k. st1 = st\<lparr>nextRegionHandle := k\<rparr>"
    using one by (auto simp: deliverySnapshot_def Let_def bindR_eq_Inr_iff dest!: capture_state)
  then obtain k where k: "st1 = st\<lparr>nextRegionHandle := k\<rparr>" by blast
  obtain x st2 where two: "deliverySnapshots ob registered known as st1 = (x, st2)" by fastforce
  obtain rows' where rows': "x = Inr rows'" "st' = st2" "rows = (if fmlookup rows' b = None then fmupd b r1 rows' else rows')"
    using Cons.prems(1) one two by (auto split: sum.splits)
  show ?case
  proof (cases "fmlookup rows' a")
    case (Some row')
    then have "row' = row" using Cons.prems(2) rows'(3) by (auto split: if_splits)
    then show ?thesis using Cons.IH [of k rows' st2] two rows' Some k by simp
  next
    case None
    then have "a = b" "row = r1" using Cons.prems(2) rows'(3) by (auto split: if_splits)
    moreover have "\<exists>k. st' = st\<lparr>nextRegionHandle := k\<rparr>"
      using two rows' k by (auto dest: deliverySnapshots_counter)
    ultimately show ?thesis using one k by blast
  qed
qed simp

end
