(* ===== verification/DDM_Undo.thy ===== *)
theory DDM_Undo
  imports DDM_Runs
begin

text \<open>
  Undoing a refused association while the object's attributes change hands.  The manager keeps the
  object's associations from before the change as a shadow, and projects into it every event that
  runs before the admission.  Restoring the shadow gives the state in which the association was
  never requested.
\<close>

section \<open>Replacing the associations of one object\<close>

lemma putInner_twice [simp]: "putInner k x (putInner k y m) = putInner k x m"
  by (rule fmap_ext) (simp add: fmlookup_putInner)

lemma putInner_commute: "k \<noteq> k' \<Longrightarrow> putInner k x (putInner k' y m) = putInner k' y (putInner k x m)"
  by (rule fmap_ext) (simp add: fmlookup_putInner)

lemma putInner_same: "inner_ok P m \<Longrightarrow> putInner k (inner m k) m = m"
  by (rule fmap_ext) (auto simp: fmlookup_putInner inner_def inner_ok_def split: option.splits)

lemma restore_twice [simp]: "restoreAssociations ob w (restoreAssociations ob v st) = restoreAssociations ob w st"
  by (simp add: restoreAssociations_def)

lemma setObjectView_restore: "setObjectView ob v st = restoreAssociations ob (fst v, pruneCallers (snd v)) st"
  by (simp add: setObjectView_def restoreAssociations_def)

lemma restore_commute:
  "ob \<noteq> ob' \<Longrightarrow> restoreAssociations ob v (restoreAssociations ob' w st) = restoreAssociations ob' w (restoreAssociations ob v st)"
  by (simp add: restoreAssociations_def putInner_commute [of ob ob'])

lemma objectView_restore: "objectView (restoreAssociations ob v st) ob' = (if ob' = ob then v else objectView st ob')"
  by (simp add: objectView_def restoreAssociations_def inner_putInner)

lemma restore_view: "state_ok st \<Longrightarrow> restoreAssociations ob (objectView st ob) st = st"
  using state_okD(4,5) [of st]
  by (simp add: restoreAssociations_def objectView_def putInner_same pubs_ok_def inactive_ok_def)

lemma restore_fields [simp]:
  "regions (restoreAssociations ob v st) = regions st" "conveyed (restoreAssociations ob v st) = conveyed st"
  "conveyedRecipients (restoreAssociations ob v st) = conveyedRecipients st"
  by (simp_all add: restoreAssociations_def)

lemma restore_changed:
  "restoreAssociations ob v (fold (changeAssociationGroup ob caller os mode) gs st) = restoreAssociations ob v st"
  "restoreAssociations ob v (clearObjectAssociations ob caller st) = restoreAssociations ob v st"
  by (induction gs arbitrary: st) (simp_all add: changeAssociationGroup_def clearObjectAssociations_def setObjectView_restore)

section \<open>A federate is forgotten\<close>

definition entry :: "('a, 'b) fmap \<Rightarrow> ('a, 'b) fmap option" where
  "entry x = (if fmdom x = {||} then None else Some x)"

lemma fold_clear_lookup:
  "distinct obs \<Longrightarrow>
   fmlookup (objPubs (fold (\<lambda>ob. clearObjectAssociations ob h) obs st)) o' =
     (if o' \<in> set obs then entry (fst (forgetCaller (regions st) h (objectView st o'))) else fmlookup (objPubs st) o') \<and>
   fmlookup (inactivePubs (fold (\<lambda>ob. clearObjectAssociations ob h) obs st)) o' =
     (if o' \<in> set obs then entry (pruneCallers (snd (forgetCaller (regions st) h (objectView st o')))) else fmlookup (inactivePubs st) o')"
proof (induction obs arbitrary: st)
  case (Cons ob obs)
  let ?st = "clearObjectAssociations ob h st"
  have view: "objectView ?st o' = objectView st o'" if "o' \<noteq> ob"
    using that by (simp add: clearObjectAssociations_def setObjectView_restore objectView_restore)
  have one: "fmlookup (objPubs ?st) o' = (if o' = ob then entry (fst (forgetCaller (regions st) h (objectView st o'))) else fmlookup (objPubs st) o')"
    "fmlookup (inactivePubs ?st) o' =
       (if o' = ob then entry (pruneCallers (snd (forgetCaller (regions st) h (objectView st o')))) else fmlookup (inactivePubs st) o')"
    by (auto simp: clearObjectAssociations_def setObjectView_def fmlookup_putInner entry_def)
  show ?case
    using Cons.IH [of ?st] Cons.prems view one by (cases "o' = ob") auto
qed simp

lemma fold_clear_update:
  "\<exists>p q. fold (\<lambda>ob. clearObjectAssociations ob h) obs st = st\<lparr>objPubs := p, inactivePubs := q\<rparr>"
proof (induction obs arbitrary: st)
  case Nil
  show ?case by (rule exI [of _ "objPubs st"], rule exI [of _ "inactivePubs st"]) simp
next
  case (Cons ob obs)
  obtain p q where "fold (\<lambda>ob. clearObjectAssociations ob h) obs (clearObjectAssociations ob h st) =
      (clearObjectAssociations ob h st)\<lparr>objPubs := p, inactivePubs := q\<rparr>"
    using Cons.IH by blast
  moreover have "(clearObjectAssociations ob h st)\<lparr>objPubs := p, inactivePubs := q\<rparr> = st\<lparr>objPubs := p, inactivePubs := q\<rparr>"
    by (simp add: clearObjectAssociations_def setObjectView_def)
  ultimately show ?case by (intro exI [of _ p] exI [of _ q]) simp
qed

text \<open>What is left of every object's associations when a federate is forgotten.\<close>

lemma forget_lookup:
  "fmlookup (objPubs (forgetFederateAssociations h st)) o' = entry (fst (forgetCaller (regions st) h (objectView st o'))) \<and>
   fmlookup (inactivePubs (forgetFederateAssociations h st)) o' = entry (pruneCallers (snd (forgetCaller (regions st) h (objectView st o'))))"
proof -
  let ?st = "releaseConveyedReceiver h st"
  let ?obs = "sorted_list_of_fset (fmdom (objPubs ?st) |\<union>| fmdom (inactivePubs ?st))"
  have view: "objectView ?st o' = objectView st o'" by (simp add: objectView_def)
  have "distinct ?obs" by (simp add: sorted_list_of_fset.rep_eq)
  note look = fold_clear_lookup [OF this, of h ?st o']
  have "objectView st o' = (fmempty, fmempty) \<and> fmlookup (objPubs st) o' = None \<and> fmlookup (inactivePubs st) o' = None" if "o' \<notin> set ?obs"
    using that by (auto simp: objectView_def inner_def fmdom_notD)
  moreover have "forgetCaller rg h (fmempty, fmempty) = (fmempty, fmempty)" for rg
    by (auto simp: forgetCaller_def intro!: fmap_ext)
  ultimately show ?thesis
    using look view by (cases "o' \<in> set ?obs") (auto simp: forgetFederateAssociations_def Let_def entry_def pruneCallers_def)
qed

lemma release_restore:
  "releaseConveyedReceiver h (restoreAssociations ob v st) = restoreAssociations ob v (releaseConveyedReceiver h st)"
proof -
  have one: "releaseRecipient h rh (restoreAssociations ob v s) = restoreAssociations ob v (releaseRecipient h rh s)" for rh s
    by (simp add: releaseRecipient_def pruneConveyedRegion_def restoreAssociations_def split: option.split)
  have "fold (releaseRecipient h) rhs (restoreAssociations ob v s) = restoreAssociations ob v (fold (releaseRecipient h) rhs s)" for rhs s
    by (induction rhs arbitrary: s) (simp_all add: one)
  then show ?thesis by (simp add: releaseConveyedReceiver_def)
qed

lemma state_assoc_eqI:
  assumes "a = s\<lparr>objPubs := p, inactivePubs := q\<rparr>" "b = s\<lparr>objPubs := p', inactivePubs := q'\<rparr>" "objPubs a = objPubs b" "inactivePubs a = inactivePubs b"
  shows "a = (b :: federationDDMState)"
  using assms by simp

lemma forget_restore:
  "forgetFederateAssociations h (restoreAssociations ob v st) =
     restoreAssociations ob (let w = forgetCaller (regions st) h v in (fst w, pruneCallers (snd w))) (forgetFederateAssociations h st)"
    (is "?a = ?b")
proof -
  let ?r = "releaseConveyedReceiver h st"
  obtain p q where a: "?a = (restoreAssociations ob v ?r)\<lparr>objPubs := p, inactivePubs := q\<rparr>"
    using fold_clear_update by (fastforce simp: forgetFederateAssociations_def Let_def release_restore)
  obtain p' q' where b: "forgetFederateAssociations h st = ?r\<lparr>objPubs := p', inactivePubs := q'\<rparr>"
    using fold_clear_update by (fastforce simp: forgetFederateAssociations_def Let_def)
  have "objPubs ?a = objPubs ?b"
    by (rule fmap_ext) (use forget_lookup in \<open>auto simp: restoreAssociations_def fmlookup_putInner Let_def objectView_def inner_putInner entry_def\<close>)
  moreover have "inactivePubs ?a = inactivePubs ?b"
    by (rule fmap_ext) (use forget_lookup in \<open>auto simp: restoreAssociations_def fmlookup_putInner Let_def objectView_def inner_putInner entry_def\<close>)
  moreover have "?a = ?r\<lparr>objPubs := p, inactivePubs := q\<rparr>"
    using a by (simp add: restoreAssociations_def)
  moreover have "?b = ?r\<lparr>objPubs := objPubs ?b, inactivePubs := inactivePubs ?b\<rparr>"
    by (simp add: b restoreAssociations_def)
  ultimately show ?thesis by (metis state_assoc_eqI)
qed

section \<open>Events\<close>

text \<open>What object and ownership management tell the manager, also while an association awaits its admission.\<close>

datatype lifecycle_event =
    OwnershipEvent nat "(nat, handle) fmap" "(nat, handle) fmap"
  | ObjectEvent nat
  | ObjectFederateEvent handle nat
  | FederateEvent handle

fun happen :: "fed_name \<Rightarrow> lifecycle_event \<Rightarrow> DDMManager \<Rightarrow> DDMManager" where
  "happen f (OwnershipEvent ob before after) m = OwnershipChanged f ob before after m"
| "happen f (ObjectEvent ob) m = ForgetObject f ob m"
| "happen f (ObjectFederateEvent h ob) m = ForgetObjectFederateAssociations f h ob m"
| "happen f (FederateEvent h) m = ForgetFederateAssociations f h m"

lemma happen_ok: "manager_ok m \<Longrightarrow> manager_ok (happen f e m)"
  by (cases e) (simp_all add: OwnershipChanged_ok ForgetObject_ok ForgetObjectFederateAssociations_ok ForgetFederateAssociations_ok)

text \<open>
  What an event does to a federation's state and to the shadow of an object's associations.
\<close>

fun stateAfter :: "lifecycle_event \<Rightarrow> federationDDMState \<Rightarrow> federationDDMState" where
  "stateAfter (OwnershipEvent ob before after) st = applyOwnershipChange ob before after st"
| "stateAfter (ObjectEvent ob) st = st\<lparr>objPubs := fmdrop ob (objPubs st), inactivePubs := fmdrop ob (inactivePubs st)\<rparr>"
| "stateAfter (ObjectFederateEvent h ob) st =
     st\<lparr>inactivePubs := putInner ob (pruneCallers (fmdrop h (inner (inactivePubs st) ob))) (inactivePubs st)\<rparr>"
| "stateAfter (FederateEvent h) st = forgetFederateAssociations h st"

fun viewAfter :: "lifecycle_event \<Rightarrow> (nat, regionState) fmap \<Rightarrow> nat \<Rightarrow> objectAssociations \<Rightarrow> objectAssociations" where
  "viewAfter (OwnershipEvent ob before after) rg ob' v =
     (if ob' = ob then (let w = ownershipChange before after v in (fst w, pruneCallers (snd w))) else v)"
| "viewAfter (ObjectEvent ob) rg ob' v = (if ob' = ob then (fmempty, fmempty) else v)"
| "viewAfter (ObjectFederateEvent h ob) rg ob' v = (if ob' = ob then (fst v, pruneCallers (fmdrop h (snd v))) else v)"
| "viewAfter (FederateEvent h) rg ob' v = (let w = forgetCaller rg h v in (fst w, pruneCallers (snd w)))"

lemma pruneCallers_empty [simp]: "pruneCallers fmempty = fmempty"
  by (auto simp: pruneCallers_def intro: fmap_ext)

lemma happen_state:
  assumes "fmlookup (fed m) f = Some st"
  shows "fed (happen f e m) = fmupd f (stateAfter e st) (fed m)" "inflight (happen f e m) = inflight m"
proof -
  show "fed (happen f e m) = fmupd f (stateAfter e st) (fed m)" "inflight (happen f e m) = inflight m"
    using assms
    by (cases e; simp add: OwnershipChanged_def ForgetObject_def ForgetObjectFederateAssociations_def ForgetFederateAssociations_def
        project_def setState_def Let_def split: option.split)+
qed

lemma happen_shadow:
  assumes "fmlookup (fed m) f = Some st" "associationRollback m = Some p" "pFed p = f" "pOrigin p = ident st"
  shows "associationRollback (happen f e m) = Some (p\<lparr>shadow := viewAfter e (regions st) (pObject p) (shadow p)\<rparr>)"
proof -
  have same: "p\<lparr>shadow := shadow p\<rparr> = p" by simp
  show ?thesis
    using assms
    by (cases e) (auto simp: OwnershipChanged_def ForgetObject_def ForgetObjectFederateAssociations_def ForgetFederateAssociations_def
        project_def setState_def Let_def forgetInactive_def)
qed

lemma stateAfter_ident [simp]: "ident (stateAfter e st) = ident st"
proof (cases e)
  case (FederateEvent h)
  obtain p q where "forgetFederateAssociations h st = (releaseConveyedReceiver h st)\<lparr>objPubs := p, inactivePubs := q\<rparr>"
    using fold_clear_update by (fastforce simp: forgetFederateAssociations_def Let_def)
  then show ?thesis using FederateEvent by (simp add: releaseConveyedReceiver_def fold_releaseRecipient_fields)
qed (simp_all add: applyOwnershipChange_def)

text \<open>The shadow is what the object's associations would be.\<close>

lemma stateAfter_restore:
  "stateAfter e (restoreAssociations ob v st) = restoreAssociations ob (viewAfter e (regions st) ob v) (stateAfter e st)"
proof (cases e)
  case (OwnershipEvent ob' before after)
  then show ?thesis
    by (cases "ob = ob'") (simp_all add: applyOwnershipChange_def setObjectView_restore objectView_restore restore_commute [of ob ob'] Let_def)
next
  case (ObjectEvent ob')
  have drop: "fmdrop ob' (putInner ob x m) = (if ob = ob' then fmdrop ob' m else putInner ob x (fmdrop ob' m))" for x :: "('a, 'b) fmap" and m
    by (auto intro!: fmap_ext simp: fmlookup_putInner)
  have empty: "putInner ob' fmempty (fmdrop ob' m) = fmdrop ob' m" for m :: "(nat, ('a, 'b) fmap) fmap"
    by (auto intro!: fmap_ext simp: fmlookup_putInner)
  show ?thesis
    using ObjectEvent by (simp add: restoreAssociations_def drop empty)
next
  case (ObjectFederateEvent h ob')
  then show ?thesis
    by (cases "ob = ob'") (simp_all add: restoreAssociations_def inner_putInner putInner_commute [of ob ob'])
next
  case (FederateEvent h)
  then show ?thesis by (simp add: forget_restore)
qed

text \<open>
  The simulation: \<open>m\<close> is the manager in which the change awaits its admission, \<open>n\<close> the one in which
  it was never requested.
\<close>

definition shadows :: "fed_name \<Rightarrow> nat \<Rightarrow> DDMManager \<Rightarrow> DDMManager \<Rightarrow> bool" where
  "shadows f ob m n \<longleftrightarrow>
     (\<exists>st p. fmlookup (fed m) f = Some st \<and> associationRollback m = Some p \<and> pFed p = f \<and> pObject p = ob \<and> pOrigin p = ident st \<and>
        inflight m = Some (AssociationAdmission f (ident st) ob True) \<and>
        fed n = fmupd f (restoreAssociations ob (shadow p) st) (fed m))"

lemma shadows_happen:
  assumes "shadows f ob m n"
  shows "shadows f ob (happen f e m) (happen f e n)"
proof -
  obtain st p where st: "fmlookup (fed m) f = Some st" "associationRollback m = Some p" "pFed p = f" "pObject p = ob" "pOrigin p = ident st"
      "inflight m = Some (AssociationAdmission f (ident st) ob True)" "fed n = fmupd f (restoreAssociations ob (shadow p) st) (fed m)"
    using assms by (auto simp: shadows_def)
  have n: "fmlookup (fed n) f = Some (restoreAssociations ob (shadow p) st)" by (simp add: st(7))
  have twice: "fmupd k x (fmupd k y z) = fmupd k x z" for k x y and z :: "(fed_name, federationDDMState) fmap"
    by (auto intro: fmap_ext)
  show ?thesis
    unfolding shadows_def
    by (intro exI [of _ "stateAfter e st"] exI [of _ "p\<lparr>shadow := viewAfter e (regions st) ob (shadow p)\<rparr>"])
      (use happen_state [OF st(1), of e] happen_shadow [OF st(1,2,3,5), of e] happen_state(1) [OF n, of e] st
       in \<open>simp add: stateAfter_restore twice\<close>)
qed

lemma shadows_refused:
  assumes "shadows f ob m n" "finish opt m = (Some e, m')"
  shows "fed m' = fed n"
proof -
  obtain st p where st: "fmlookup (fed m) f = Some st" "associationRollback m = Some p"
      "inflight m = Some (AssociationAdmission f (ident st) ob True)" "fed n = fmupd f (restoreAssociations ob (shadow p) st) (fed m)"
    using assms(1) by (auto simp: shadows_def)
  have "m' = (rollbackAssociation f (ident st) ob (m\<lparr>inflight := None\<rparr>))\<lparr>associationRollback := None\<rparr>"
    using assms(2) st(3) by (auto simp: finish_def finishRateMutation_def Let_def split: option.splits)
  then show ?thesis
    using st by (simp add: rollbackAssociation_def undoIn_def setState_def)
qed

end
