(* ===== verification/DDM_Example.thy ===== *)
theory DDM_Example
  imports DDM_Frame
begin

text \<open>
  A run of the manager on a federation whose object model declares no dimensions: federate 7
  creates and commits the region \<open>[2, 5)\<close>, federate 8 the region \<open>[4, 9)\<close>, federate 8 subscribes to an
  attribute with its region, and federate 7 associates its region with an object.
\<close>

definition exFOM :: FOMHandle where
  "exFOM = nilFOM\<lparr>IsValid := True\<rparr>"

definition exOpt :: DDMOptions where
  "exOpt = \<lparr>FOMs = (\<lambda>_. Inr exFOM), FederationExists = None, PrepareKnownAssociation = None, PrepareRegionAssociation = None,
     ValidateSubscriptionOptions = None, OnObjectSubscriptionInterest = None, OnInteractionSubscriptionInterest = None,
     OnObjectSubscribed = False, onRateDemandChanged = None, onRegionStateChanged = False, ctxErr = (\<lambda>_. None)\<rparr>"

text \<open>The same collaborators, refusing every change.\<close>

definition exRefuse :: DDMOptions where
  "exRefuse = exOpt\<lparr>OnObjectSubscriptionInterest := Some (\<lambda>_ _ _ _. Some ErrRealization),
     onRateDemandChanged := Some (\<lambda>_ _. Some ErrRealization)\<rparr>"

definition exState ::
  "nat \<Rightarrow> (nat, regionState) fmap \<Rightarrow> (nat \<times> nat, subscription list) fmap \<Rightarrow> (nat, associations) fmap \<Rightarrow> federationDDMState" where
  "exState n rg subs pubs = (newFederationDDMState 0)\<lparr>fom := exFOM, routingSpaces := fmupd ''s'' 1 fmempty,
     dimensions := fmupd 1 (fmupd ''d'' 1 fmempty) fmempty, dimUpperBound := fmupd 1 MaxRange fmempty,
     nextRegionHandle := n, regions := rg, objSubs := subs, objPubs := pubs\<rparr>"

definition exTemplate :: "handle \<Rightarrow> regionBounds \<Rightarrow> regionState" where
  "exTemplate h p = \<lparr>template = True, owner = h, space = 1, dims = [1],
     committed = fmupd 1 \<lparr>Lower = 0, Upper = MaxRange\<rparr> fmempty, pending = p\<rparr>"

definition exRegion :: "handle \<Rightarrow> DDMRange \<Rightarrow> regionState" where
  "exRegion h r = \<lparr>template = False, owner = h, space = 1, dims = [1], committed = fmupd 1 r fmempty, pending = fmempty\<rparr>"

abbreviation exBounds :: "nat \<Rightarrow> nat \<Rightarrow> DDMRange" where
  "exBounds l u \<equiv> \<lparr>Lower = l, Upper = u\<rparr>"

definition exRow :: subscription where
  "exRow = \<lparr>subscriber = 8, sregions = [2], spassive = False, updateRate = ''''\<rparr>"

definition exRegions :: "(nat, regionState) fmap" where
  "exRegions = fmupd 2 (exRegion 8 (exBounds 4 9)) (fmupd 1 (exRegion 7 (exBounds 2 5)) fmempty)"

section \<open>The run\<close>

definition exStart :: DDMManager where
  "exStart = snd (LookupDimension exOpt ''f'' 1 ''d'' (snd (LookupRoutingSpace exOpt ''f'' ''s'' NewDDM)))"

definition exBounded :: "handle \<Rightarrow> nat \<Rightarrow> DDMRange \<Rightarrow> DDMManager \<Rightarrow> DDMManager" where
  "exBounded h rh r m = snd (SetRangeBounds exOpt ''f'' h rh 1 r (snd (CreateRegion exOpt ''f'' h 1 [1] m)))"

definition exCommitted :: "handle \<Rightarrow> nat \<Rightarrow> DDMManager \<Rightarrow> DDMManager" where
  "exCommitted h rh m = snd (finish exOpt (snd (CommitRegionModifications_begin exOpt ''f'' h [rh] m)))"

definition exRegioned :: DDMManager where
  "exRegioned = exCommitted 8 2 (exBounded 8 2 (exBounds 4 9) (exCommitted 7 1 (exBounded 7 1 (exBounds 2 5) exStart)))"

definition exSubscribed :: DDMManager where
  "exSubscribed = snd (finish exOpt (snd (SubscribeObjectClassAttributesWithRegionsAndOptions exOpt ''f'' 8 3 [4] [2]
     \<lparr>Active = True, UpdateRateDesignator = ''''\<rparr> exRegioned)))"

definition exAssociated :: DDMManager where
  "exAssociated = snd (finish exOpt (snd (AssociateRegionGroupsForUpdates exOpt ''f'' 7 11
     [\<lparr>Attributes = [4], Regions = [1]\<rparr>] exSubscribed)))"

section \<open>Its states\<close>

lemma exFOM_fields [simp]:
  "FOMProvider exFOM = None" "Dimensions exFOM = None" "IsValid exFOM" "AttributeDimensions exFOM = None"
  "AttributeName exFOM = None" "ObjectClassName exFOM = None"
  by (simp_all add: exFOM_def nilFOM_def)

lemma exOpt_fields [simp]:
  "FOMs exOpt f = Inr exFOM" "FederationExists exOpt = None" "ctxErr exOpt n = None" "onRateDemandChanged exOpt = None"
  "onRegionStateChanged exOpt = False" "OnObjectSubscriptionInterest exOpt = None" "ValidateSubscriptionOptions exOpt = None"
  "OnObjectSubscribed exOpt = False" "PrepareKnownAssociation exOpt = None" "PrepareRegionAssociation exOpt = None"
  by (simp_all add: exOpt_def)

lemma exState_fields [simp]:
  "ident (exState n rg s p) = 0" "fom (exState n rg s p) = exFOM" "dimDefaults (exState n rg s p) = fmempty"
  "routingSpaces (exState n rg s p) = fmupd ''s'' 1 fmempty" "dimensions (exState n rg s p) = fmupd 1 (fmupd ''d'' 1 fmempty) fmempty"
  "dimUpperBound (exState n rg s p) = fmupd 1 MaxRange fmempty" "nextRegionHandle (exState n rg s p) = n"
  "regions (exState n rg s p) = rg" "conveyed (exState n rg s p) = fmempty" "objSubs (exState n rg s p) = s"
  "intSubs (exState n rg s p) = fmempty" "objPubs (exState n rg s p) = p" "inactivePubs (exState n rg s p) = fmempty"
  by (simp_all add: exState_def newFederationDDMState_def)

lemma exState_updates [simp]:
  "(exState n rg s p)\<lparr>regions := rg'\<rparr> = exState n rg' s p" "(exState n rg s p)\<lparr>objSubs := s'\<rparr> = exState n rg s' p"
  "(exState n rg s p)\<lparr>nextRegionHandle := n', regions := rg'\<rparr> = exState n' rg' s p"
  "(exState n rg s p)\<lparr>objPubs := p', inactivePubs := fmempty\<rparr> = exState n rg s p'"
  "(exState n rg s p)\<lparr>objPubs := p'\<rparr> = exState n rg s p'"
  by (simp_all add: exState_def newFederationDDMState_def)

lemma exState_refresh [simp]: "refreshFOMDimensions exOpt f (exState n rg s p) = exState n rg s p"
  by (simp add: refreshFOMDimensions_def exState_def newFederationDDMState_def)

lemma exState_for: "fmlookup (fed m) ''f'' = Some (exState n rg s p) \<Longrightarrow>
   stateForLocked exOpt ''f'' m = (exState n rg s p, setState ''f'' (exState n rg s p) m)"
  by (simp add: stateForLocked_def Let_def)

lemma exStart_is: "fmlookup (fed exStart) ''f'' = Some (exState 0 fmempty fmempty fmempty)" "inflight exStart = None"
proof -
  have eq: "exStart = \<lparr>fed = fmupd ''f'' (exState 0 fmempty fmempty fmempty) fmempty, allocated = 1,
      associationRollback = None, inflight = None, notices = []\<rparr>"
    by (simp add: exStart_def LookupRoutingSpace_def LookupDimension_def NewDDM_def absentFederation_def stateForLocked_def Let_def
        initialState_def refreshFOMDimensions_def newFederationDDMState_def setState_def exState_def inner_def fcard_fempty)
  show "fmlookup (fed exStart) ''f'' = Some (exState 0 fmempty fmempty fmempty)" "inflight exStart = None"
    unfolding eq by simp_all
qed

lemma MaxRange_large: "n < 1000 \<Longrightarrow> n < MaxRange"
  by (simp add: MaxRange_def MaxUint64_def)

lemma fmran_upd: "x |\<in>| fmran (fmupd k x m)"
  by (rule fmranI [of _ k]) simp

lemma exBounded_is:
  assumes "fmlookup (fed m) ''f'' = Some (exState n rg s p)" "inflight m = None" "n < 1000" "rh = n + 1" "Lower r < Upper r" "Upper r < 1000"
  shows "fmlookup (fed (exBounded h rh r m)) ''f'' = Some (exState rh (fmupd rh (exTemplate h (fmupd 1 r fmempty)) rg) s p)"
    "inflight (exBounded h rh r m) = None"
proof -
  have create: "CreateRegion exOpt ''f'' h 1 [1] m =
      (Inr rh, setState ''f'' (exState rh (fmupd rh (exTemplate h fmempty) rg) s p) (setState ''f'' (exState n rg s p) m))"
    using assms by (simp add: CreateRegion_def exState_for dimensionSet_def sortCompact_def hasRoutingSpace_def hasDimension_def Let_def
        inner_def fmran_upd exTemplate_def fullRange_def upperLimit_def MaxRange_def MaxUint64_def)
  show "fmlookup (fed (exBounded h rh r m)) ''f'' = Some (exState rh (fmupd rh (exTemplate h (fmupd 1 r fmempty)) rg) s p)"
    "inflight (exBounded h rh r m) = None"
    unfolding exBounded_def create using assms(2,5) MaxRange_large [OF assms(6)]
    by (simp_all add: SetRangeBounds_def stateForLocked_def Let_def exTemplate_def)
qed

lemma exCommitted_is:
  assumes "fmlookup (fed m) ''f'' = Some (exState n (fmupd rh (exTemplate h (fmupd 1 r fmempty)) rg) s p)"
  shows "fmlookup (fed (exCommitted h rh m)) ''f'' = Some (exState n (fmupd rh (exRegion h r) rg) s p)"
    "inflight (exCommitted h rh m) = None"
  using assms
  by (simp_all add: exCommitted_def CommitRegionModifications_begin_def exState_for Let_def finish_def finishRateMutation_def
      commitError_def updateRegion_def commitRegion_def exTemplate_def exRegion_def notifyRegionStateChanged_def)

lemma exRegioned_is: "fmlookup (fed exRegioned) ''f'' = Some (exState 2 exRegions fmempty fmempty)" "inflight exRegioned = None"
proof -
  note one = exBounded_is [OF exStart_is, of 1 "exBounds 2 5" 7, simplified]
  note two = exCommitted_is [OF one(1) [folded One_nat_def]]
  note three = exBounded_is [OF two, of 2 "exBounds 4 9" 8, simplified]
  show "fmlookup (fed exRegioned) ''f'' = Some (exState 2 exRegions fmempty fmempty)" "inflight exRegioned = None"
    using exCommitted_is [OF three(1) [folded One_nat_def]] by (simp_all add: exRegioned_def exRegions_def)
qed

lemma exRegions_lookup [simp]:
  "fmlookup exRegions 1 = Some (exRegion 7 (exBounds 2 5))" "fmlookup exRegions (Suc 0) = Some (exRegion 7 (exBounds 2 5))"
  "fmlookup exRegions 2 = Some (exRegion 8 (exBounds 4 9))"
  by (simp_all add: exRegions_def)

lemma exRegion_fields [simp]:
  "template (exRegion h r) = False" "owner (exRegion h r) = h" "dims (exRegion h r) = [1]" "committed (exRegion h r) = fmupd 1 r fmempty"
  "pending (exRegion h r) = fmempty"
  by (simp_all add: exRegion_def)

lemma exSubscribed_is:
  "fmlookup (fed exSubscribed) ''f'' = Some (exState 2 exRegions (fmupd (3, 4) [exRow] fmempty) fmempty)" "inflight exSubscribed = None"
  using exRegioned_is
  by (simp_all add: exSubscribed_def SubscribeObjectClassAttributesWithRegionsAndOptions_def validateGroupSubscriptionOptions_def objectContext_def
      attributeContext_def exState_for Let_def validateObjectRegions_def validateRegions_def regionError_def
      addObjectSubscription_def newRow_def await_def finish_def objectInterest_def notifyObjectSubscribed_def exRow_def sortCompact_def)

lemma exAssociated_is:
  "fmlookup (fed exAssociated) ''f'' =
     Some (exState 2 exRegions (fmupd (3, 4) [exRow] fmempty) (fmupd 11 (fmupd 4 [1] fmempty) fmempty))" "inflight exAssociated = None"
  using exSubscribed_is
  by (simp_all add: exAssociated_def AssociateRegionGroupsForUpdates_def changeAssociationGroupsMode_def prepareAssociationGroups_def exState_for Let_def
      validateGroups_def validateObjectRegions_def validateRegions_def regionError_def skipped_def removing_def awaitAssociation_def await_def
      changeAssociationGroup_def changeAttribute_def changeAttributeRegions_def setObjectView_def objectView_def putInner_def pruneCallers_def
      finish_def finishRateMutation_def notifyRegionStateChanged_def sortCompact_def)

section \<open>Its managers are reachable\<close>

lemma exBounded_reachable:
  assumes m: "ddm_reachable m" and idle: "inflight m = None"
  shows "ddm_reachable (exBounded h rh r m)"
proof -
  have "inflight (snd (CreateRegion exOpt ''f'' h 1 [1] m)) = None"
    using kept_create [OF reachable_ok [OF m]] idle by (simp add: kept_def)
  then show ?thesis
    unfolding exBounded_def by (rule reach_step [OF reach_step [OF m step_quiet [OF quiet_create]] step_bounds])
qed

lemma exCommitted_reachable:
  assumes "ddm_reachable m" "inflight m = None"
  shows "ddm_reachable (exCommitted h rh m)"
  unfolding exCommitted_def by (rule reach_step [OF reach_step [OF assms(1) step_commit [OF assms(2)]] step_finish])

lemma exStart_reachable: "ddm_reachable exStart"
  unfolding exStart_def
  by (rule reach_step [OF reach_step [OF reach_new step_quiet [OF quiet_space]] step_quiet [OF quiet_dimension]])

lemma exRegioned_reachable: "ddm_reachable exRegioned"
proof -
  note one = exBounded_is [OF exStart_is, of 1 "exBounds 2 5" 7, simplified]
  note two = exCommitted_is [OF one(1) [folded One_nat_def]]
  note three = exBounded_is [OF two, of 2 "exBounds 4 9" 8, simplified]
  show ?thesis
    unfolding exRegioned_def
    by (intro exCommitted_reachable exBounded_reachable exStart_reachable exStart_is two three(2) [folded One_nat_def] one(2) [folded One_nat_def])
qed

lemma exSubscribed_reachable: "ddm_reachable exSubscribed"
  unfolding exSubscribed_def
  by (rule reach_step [OF reach_step [OF exRegioned_reachable step_subscribe [OF exRegioned_is(2)]] step_finish])

lemma exAssociated_reachable: "ddm_reachable exAssociated"
  unfolding exAssociated_def AssociateRegionGroupsForUpdates_def
  by (rule reach_step [OF reach_step [OF exSubscribed_reachable step_associate [OF exSubscribed_is(2)]] step_finish])

end
