(* ===== verification/DDM_Properties.thy ===== *)
theory DDM_Properties
  imports DDM_Overlap DDM_Undo DDM_Example
begin

text \<open>The properties of data distribution management.\<close>

section \<open>Regions and their users\<close>

lemma subscribed_region:
  "state_ok st \<Longrightarrow> fmlookup (objSubs st) k = Some rows \<Longrightarrow> s \<in> set rows \<Longrightarrow> r \<in> set (sregions s) \<Longrightarrow>
   owners st r = Some (subscriber s)"
  using table_okD [OF state_okD(2), of st k rows] by (auto simp: rows_ok_def regions_of_def)

lemma interaction_region:
  "state_ok st \<Longrightarrow> fmlookup (intSubs st) k = Some rows \<Longrightarrow> s \<in> set rows \<Longrightarrow> r \<in> set (iregions s) \<Longrightarrow>
   owners st r = Some (isubscriber s)"
  using table_okD [OF state_okD(3), of st k rows] by (auto simp: rows_ok_def regions_of_def)

lemma associated_region:
  assumes "state_ok st" "r \<in> set (rowsAt (inner (objPubs st) ob) a)"
  shows "owners st r \<noteq> None"
  using objectView_ok [OF assms(1), of ob] assoc_ok_rowsAt [of "\<lambda>r. owners st r \<noteq> None" "inner (objPubs st) ob" a] assms(2)
  by (auto simp: view_ok_def objectView_def list_all_iff)

lemma inactive_region:
  assumes "state_ok st" "r \<in> set (rowsAt (inner (inner (inactivePubs st) ob) h) a)"
  shows "owners st r = Some h"
proof -
  have "assoc_ok (\<lambda>r. owners st r = Some h) (inner (inner (inactivePubs st) ob) h)"
    using objectView_ok [OF assms(1), of ob] by (auto simp: view_ok_def objectView_def intro: callers_ok_inner)
  from assoc_ok_rowsAt [OF this, of a] show ?thesis using assms(2) by (auto simp: list_all_iff)
qed

text \<open>
  C9. In every manager that any interleaving of the services can reach, the tables mention no
  region that does not exist: a subscription lists regions of its own subscriber, an associated
  region exists, a region that waits for the attribute to change hands belongs to the federate that
  waits, and no conveyed copy has the handle of a region.
\<close>

theorem no_dangling_regions:
  assumes "ddm_reachable m" "fmlookup (fed m) f = Some st"
  shows "(\<forall>k rows s r. fmlookup (objSubs st) k = Some rows \<longrightarrow> s \<in> set rows \<longrightarrow> r \<in> set (sregions s) \<longrightarrow>
           ownerOf (regions st) r = Some (subscriber s)) \<and>
         (\<forall>k rows s r. fmlookup (intSubs st) k = Some rows \<longrightarrow> s \<in> set rows \<longrightarrow> r \<in> set (iregions s) \<longrightarrow>
           ownerOf (regions st) r = Some (isubscriber s)) \<and>
         (\<forall>ob a r. r \<in> set (rowsAt (inner (objPubs st) ob) a) \<longrightarrow> ownerOf (regions st) r \<noteq> None) \<and>
         (\<forall>ob h a r. r \<in> set (rowsAt (inner (inner (inactivePubs st) ob) h) a) \<longrightarrow> ownerOf (regions st) r = Some h) \<and>
         (\<forall>d. d |\<in>| fmdom (conveyed st) \<longrightarrow> d |\<notin>| fmdom (regions st))"
proof (intro conjI)
  note ok = reachable_state_ok [OF assms]
  show "\<forall>k rows s r. fmlookup (objSubs st) k = Some rows \<longrightarrow> s \<in> set rows \<longrightarrow> r \<in> set (sregions s) \<longrightarrow>
      ownerOf (regions st) r = Some (subscriber s)"
    using subscribed_region [OF ok] by blast
  show "\<forall>k rows s r. fmlookup (intSubs st) k = Some rows \<longrightarrow> s \<in> set rows \<longrightarrow> r \<in> set (iregions s) \<longrightarrow>
      ownerOf (regions st) r = Some (isubscriber s)"
    using interaction_region [OF ok] by blast
  show "\<forall>ob a r. r \<in> set (rowsAt (inner (objPubs st) ob) a) \<longrightarrow> ownerOf (regions st) r \<noteq> None"
    using associated_region [OF ok] by blast
  show "\<forall>ob h a r. r \<in> set (rowsAt (inner (inner (inactivePubs st) ob) h) a) \<longrightarrow> ownerOf (regions st) r = Some h"
    using inactive_region [OF ok] by blast
  show "\<forall>d. d |\<in>| fmdom (conveyed st) \<longrightarrow> d |\<notin>| fmdom (regions st)"
    using state_okD(6) [OF ok] by (auto simp: conveyed_ok_def dest: fmdom_notI)
qed

theorem no_dangling_regions_witness: "ownerOf exRegions 2 = Some 8 \<and> ownerOf exRegions 1 \<noteq> None"
proof -
  note all = no_dangling_regions [OF exAssociated_reachable exAssociated_is(1)]
  have "ownerOf exRegions 2 = Some 8"
    using all [THEN conjunct1, rule_format, of "(3, 4)" "[exRow]" exRow 2] by (simp add: exRow_def)
  moreover have "ownerOf exRegions 1 \<noteq> None"
    using all [THEN conjunct2, THEN conjunct2, THEN conjunct1, rule_format, of 1 11 4] by (simp add: rowsAt_def inner_def)
  ultimately show ?thesis by blast
qed

section \<open>Committing\<close>

lemma finish_region:
  assumes "inflight m = Some (RegionAdmission f i saved)" "finish opt m = (r, m')"
  shows "fed m' = (if r = None then fed m else fed (undoIn f i (restoreRegions saved) m))"
  using assms
  by (auto simp: finish_def finishRateMutation_def Let_def notifyRegionStateChanged_def undoIn_def setState_def split: option.splits if_splits)

text \<open>
  What may run between a change and its admission while the federation \<open>f\<close> exists: the operations that
  need the state lock only, and the destruction of other federations.
\<close>

definition meanwhile :: "fed_name \<Rightarrow> DDMManager \<Rightarrow> DDMManager \<Rightarrow> bool" where
  "meanwhile f m m' \<longleftrightarrow> ddm_quiet m m' \<or> (\<exists>g. g \<noteq> f \<and> m' = OnDDMFederationDestroyed g m)"

lemma meanwhile_kept:
  assumes "(meanwhile f)\<^sup>*\<^sup>* m m'" "manager_ok m" "fmlookup (fed m) f = Some st"
  shows "manager_ok m' \<and> inflight m' = inflight m \<and> (\<exists>st'. fmlookup (fed m') f = Some st' \<and> same_tables st st')"
  using assms(1)
proof (induction rule: rtranclp_induct)
  case base
  then show ?case using assms(2,3) by simp
next
  case (step m1 m2)
  then obtain st1 where m1: "manager_ok m1" "inflight m1 = inflight m" "fmlookup (fed m1) f = Some st1" "same_tables st st1" by blast
  from step.hyps(2) consider "ddm_quiet m1 m2" | g where "g \<noteq> f" "m2 = OnDDMFederationDestroyed g m1" by (auto simp: meanwhile_def)
  then show ?case
  proof cases
    case 1
    then have "manager_ok m2" "kept m1 m2" using quiets_kept [OF r_into_rtranclp m1(1)] by blast+
    then show ?thesis using m1 keptD [of m1 m2 f st1] same_tables_trans by (metis kept_def)
  next
    case 2
    then show ?thesis using m1 OnDDMFederationDestroyed_ok [OF m1(1), of g] by (auto simp: OnDDMFederationDestroyed_def)
  qed
qed

text \<open>
  C11. A commit of several regions is all or nothing.  When the validation refuses one of them,
  every region is as it was and nothing awaits admission.  Otherwise, whatever runs between the
  change and its admission while the federation exists: when the admission is granted, each of the
  regions has its pending ranges committed, and when it is refused, each region that existed
  is as it was, pending ranges included.
\<close>

theorem commit_all_or_nothing:
  assumes reach: "ddm_reachable m" and idle: "inflight m = None"
    and call: "CommitRegionModifications_begin opt f ow rhs m = (e, m1)" and region: "regionAt f m rh = Some rs"
  shows "(e \<noteq> None \<longrightarrow> regionAt f m1 rh = Some rs \<and> inflight m1 = None) \<and>
    (\<forall>m2 opt' r m3. e = None \<and> (meanwhile f)\<^sup>*\<^sup>* m1 m2 \<and> finish opt' m2 = (r, m3) \<longrightarrow>
       regionAt f m3 rh = Some (if r = None \<and> rh \<in> set rhs then commitRegion rs else rs))"
proof (intro conjI allI impI)
  obtain st m0 where s: "stateForLocked opt f m = (st, m0)" by fastforce
  note facts = stateForLocked_ok [OF reachable_ok [OF reach] s]
  have rs: "fmlookup (regions st) rh = Some rs"
    using region stateForLocked_tables(1) [OF s] by simp
  show "regionAt f m1 rh = Some rs" "inflight m1 = None" if "e \<noteq> None"
    using that call facts(2,3) rs idle
    by (auto simp: CommitRegionModifications_begin_def s Let_def regionAt_def split: option.splits)
  fix m2 opt' r m3 assume run: "e = None \<and> (meanwhile f)\<^sup>*\<^sup>* m1 m2 \<and> finish opt' m2 = (r, m3)"
  let ?st = "fold (updateRegion commitRegion) rhs st" and ?saved = "savedRegions rhs st"
  have m1: "m1 = (setState f ?st m0)\<lparr>inflight := Some (RegionAdmission f (ident st) ?saved)\<rparr>"
    using call run by (auto simp: CommitRegionModifications_begin_def s Let_def split: option.splits)
  have "manager_ok m1"
    using CommitRegionModifications_ok [OF reachable_ok [OF reach] idle, of opt f ow rhs] call by simp
  from meanwhile_kept [OF run [THEN conjunct2, THEN conjunct1] this, of ?st] obtain st2 where
    st2: "fmlookup (fed m2) f = Some st2" "same_tables ?st st2" and flight: "inflight m2 = Some (RegionAdmission f (ident st) ?saved)"
    by (auto simp: m1)
  have now: "fmlookup (regions st2) rh = Some (if rh \<in> set rhs then commitRegion rs else rs)"
    using st2(2) commitRegions_lookup [of rhs st rh] rs by (simp add: same_tables_def)
  have same: "ident st2 = ident st"
    using st2(2) by (simp add: same_tables_def fold_commit_ident)
  show "regionAt f m3 rh = Some (if r = None \<and> rh \<in> set rhs then commitRegion rs else rs)"
    using finish_region [OF flight run [THEN conjunct2, THEN conjunct2]] restoreRegions_lookup [OF rs now] st2(1) now same
    by (cases r) (simp_all add: regionAt_def undoIn_def setState_def)
qed

text \<open>
  Federate 7 moves its region to \<open>[6, 8)\<close>.  A commit that includes a region of somebody else is refused
  at once; another is refused at its admission, after an object is deleted in between.
\<close>

definition exPending :: DDMManager where
  "exPending = snd (SetRangeBounds exOpt ''f'' 7 1 1 (exBounds 6 8) exAssociated)"

theorem commit_all_or_nothing_witness:
  "regionAt ''f'' (snd (CommitRegionModifications_begin exOpt ''f'' 7 [1, 2] exPending)) 1 =
     Some ((exRegion 7 (exBounds 2 5))\<lparr>pending := fmupd 1 (exBounds 6 8) fmempty\<rparr>) \<and>
   fst (finish exRefuse (ForgetObject ''f'' 12 (snd (CommitRegionModifications_begin exOpt ''f'' 7 [1] exPending)))) \<noteq> None \<and>
   regionAt ''f'' (snd (finish exRefuse (ForgetObject ''f'' 12 (snd (CommitRegionModifications_begin exOpt ''f'' 7 [1] exPending))))) 1 =
     Some ((exRegion 7 (exBounds 2 5))\<lparr>pending := fmupd 1 (exBounds 6 8) fmempty\<rparr>)"
proof -
  let ?m1 = "snd (CommitRegionModifications_begin exOpt ''f'' 7 [1] exPending)"
  let ?m2 = "ForgetObject ''f'' 12 ?m1"
  let ?rs = "(exRegion 7 (exBounds 2 5))\<lparr>pending := fmupd 1 (exBounds 6 8) fmempty\<rparr>"
  have reach: "ddm_reachable exPending"
    unfolding exPending_def by (rule reach_step [OF exAssociated_reachable step_bounds [OF exAssociated_is(2)]])
  have state: "fmlookup (fed exPending) ''f'' =
      Some (exState 2 (fmupd 1 ?rs exRegions) (fmupd (3, 4) [exRow] fmempty) (fmupd 11 (fmupd 4 [1] fmempty) fmempty))"
    and idle: "inflight exPending = None"
    using exAssociated_is MaxRange_large [of 8] by (simp_all add: exPending_def SetRangeBounds_def exState_for Let_def)
  have call: "CommitRegionModifications_begin exOpt ''f'' 7 [1] exPending = (None, ?m1)"
    using state by (simp add: CommitRegionModifications_begin_def exState_for Let_def commitError_def)
  have region: "regionAt ''f'' exPending 1 = Some ?rs"
    using state by (simp add: regionAt_def)
  have between: "(meanwhile ''f'')\<^sup>*\<^sup>* ?m1 ?m2"
    by (rule r_into_rtranclp) (simp add: meanwhile_def quiet_forget_object)
  have foreign: "fst (CommitRegionModifications_begin exOpt ''f'' 7 [1, 2] exPending) \<noteq> None"
    using state by (simp add: CommitRegionModifications_begin_def exState_for Let_def commitError_def)
  have flight: "inflight ?m2 = Some (RegionAdmission ''f'' 0 (savedRegions [1] (exState 2 (fmupd 1 ?rs exRegions) (fmupd (3, 4) [exRow] fmempty) (fmupd 11 (fmupd 4 [1] fmempty) fmempty))))"
    using state kept_lifecycle(3) [of ?m1 "''f''" 12]
    by (simp add: kept_def CommitRegionModifications_begin_def exState_for Let_def commitError_def)
  have refused: "fst (finish exRefuse ?m2) \<noteq> None"
    unfolding finish_def flight by (simp add: Let_def finishRateMutation_def exRefuse_def)
  show ?thesis
    using commit_all_or_nothing [OF reach idle surjective_pairing region, of exOpt 7 "[1, 2]", THEN conjunct1, rule_format, OF foreign]
      commit_all_or_nothing [OF reach idle call region, THEN conjunct2, rule_format, OF conjI [OF refl conjI [OF between surjective_pairing]], of exRefuse]
    by (simp only: refused simp_thms if_False)
qed

section \<open>Subscribing\<close>

lemma finish_object:
  assumes "inflight m = Some (ObjectAdmission f i sub cls saved as c)" "finish opt m = (r, m')"
  shows "fed m' = (if r = None then fed m else case saved of None \<Rightarrow> fed m | Some rows \<Rightarrow> fed (undoIn f i (restoreObjectRows sub cls rows) m))"
  using assms
  by (auto simp: finish_def Let_def notifyObjectSubscribed_def undoIn_def setState_def split: option.splits if_splits)

lemma refused_subscription:
  assumes ok: "state_ok st" "manager_ok m3" and rows: "rhs \<noteq> []" "\<forall>r\<in>set rhs. owners st r = Some sub"
    and same: "objSubs st2 = objSubs (fold (\<lambda>a. addObjectSubscription (cls, a) (newRow sub rhs options)) attrs st)"
    and undone: "fmlookup (fed m3) f = Some (restoreObjectRows sub cls (savedObjectRows sub cls st) st2)"
  shows "subscribedOptions f m3 c a h r = objOptions (objSubs st) (c, a) h r"
proof -
  let ?st3 = "restoreObjectRows sub cls (savedObjectRows sub cls st) st2"
  have "obj.table (rowsAt (objSubs ?st3) (c, a)) = obj.table (rowsAt (objSubs st) (c, a))"
    by (rule restored_table [OF ok(1)]) (simp only: same addObjects_others [OF ok(1) rows])
  then have "objOptions (objSubs ?st3) (c, a) h r = objOptions (objSubs st) (c, a) h r"
    using manager_okD [OF ok(2) undone] ok(1) by (intro objOptions_eqI) simp_all
  then show ?thesis using undone by (simp add: subscribedOptions_def)
qed

text \<open>
  C29. A subscription with regions is additive: when it is accepted, exactly the requested
  combinations of attribute and region get the requested options, and every other subscription
  keeps its own; when the interest is refused, every subscription is as before, whatever ran in
  between.
\<close>

theorem subscription_is_additive:
  assumes reach: "ddm_reachable m" and idle: "inflight m = None"
    and call: "SubscribeObjectClassAttributesWithRegionsAndOptions opt f sub cls attrs rhs options m = (None, m1)"
    and between: "ddm_quiet\<^sup>*\<^sup>* m1 m2" and finish: "finish opt' m2 = (e, m3)"
  shows "subscribedOptions f m3 c a h r =
    (if e = None \<and> c = cls \<and> a \<in> set attrs \<and> h = sub \<and> r \<in> set rhs then Some (\<not> Active options, UpdateRateDesignator options)
     else subscribedOptions f m c a h r)"
proof -
  obtain st m0 where s: "stateForLocked opt f m = (st, m0)" by fastforce
  note facts = stateForLocked_ok [OF reachable_ok [OF reach] s]
  let ?st = "fold (\<lambda>a. addObjectSubscription (cls, a) (newRow sub rhs options)) attrs st"
  have m1_ok: "manager_ok m1"
    using SubscribeObject_ok [OF reachable_ok [OF reach] idle, of opt f sub cls attrs rhs options] call by simp
  obtain required where v: "validateObjectRegions st sub attrs rhs required = None"
    and m1: "m1 = (if rhs = [] then await (ObjectAdmission f (ident st) sub cls None [] True) m0
       else await (ObjectAdmission f (ident st) sub cls (Some (savedObjectRows sub cls st)) attrs True) (setState f ?st m0))"
    using call by (auto simp: SubscribeObjectClassAttributesWithRegionsAndOptions_def s Let_def split: option.splits sum.splits if_splits)
  have old: "objOptions (objSubs st) (c, a) h r = subscribedOptions f m c a h r"
    by (rule stateForLocked_tables(2) [OF s])
  have ok: "manager_ok m2" and kept: "kept m1 m2" using quiets_kept [OF between m1_ok] by blast+
  have m3_ok: "manager_ok m3" using finish_ok [OF ok, of opt'] finish by simp
  show ?thesis
  proof (cases "rhs = []")
    case True
    have flight: "inflight m2 = Some (ObjectAdmission f (ident st) sub cls None [] True)"
      using kept by (simp add: kept_def m1 True await_def)
    obtain st2 where "fmlookup (fed m2) f = Some st2" "same_tables st st2"
      using keptD [OF kept, of f st] facts(2) by (auto simp: m1 True await_def)
    then show ?thesis
      using finish_object [OF flight finish] old True by (simp add: subscribedOptions_def same_tables_def)
  next
    case False
    have own: "\<forall>r\<in>set rhs. owners st r = Some sub" using validateObjectRegions_own [OF v] by blast
    have flight: "inflight m2 = Some (ObjectAdmission f (ident st) sub cls (Some (savedObjectRows sub cls st)) attrs True)"
      using kept by (simp add: kept_def m1 False await_def)
    obtain st2 where st2: "fmlookup (fed m2) f = Some st2" "same_tables ?st st2"
      using keptD [OF kept, of f ?st] by (auto simp: m1 False await_def)
    then have same: "objSubs st2 = objSubs ?st" "ident st2 = ident st"
      by (simp_all add: same_tables_def fold_subscription_fields)
    note added = addObjectSubscriptions_options [OF facts(5) False own, of cls options attrs c a h r]
    show ?thesis
    proof (cases e)
      case None
      then show ?thesis
        using finish_object [OF flight finish] st2(1) same added old by (simp add: subscribedOptions_def)
    next
      case (Some x)
      then have "fmlookup (fed m3) f = Some (restoreObjectRows sub cls (savedObjectRows sub cls st) st2)"
        using finish_object [OF flight finish] st2(1) same(2) by (simp add: undoIn_def setState_def)
      then show ?thesis using refused_subscription [OF facts(5) m3_ok False own same(1)] Some old by simp
    qed
  qed
qed

text \<open>
  Federate 8 subscribes passively to attributes 4 and 5 with its region: the options of attribute 4
  change, and when the interest is refused they stay.
\<close>

theorem subscription_is_additive_witness:
  "subscribedOptions ''f'' (snd (finish exOpt (snd (SubscribeObjectClassAttributesWithRegionsAndOptions exOpt ''f'' 8 3 [4, 5] [2]
       \<lparr>Active = False, UpdateRateDesignator = ''''\<rparr> exAssociated)))) 3 4 8 2 = Some (True, '''') \<and>
   subscribedOptions ''f'' (snd (finish exRefuse (snd (SubscribeObjectClassAttributesWithRegionsAndOptions exOpt ''f'' 8 3 [4, 5] [2]
       \<lparr>Active = False, UpdateRateDesignator = ''''\<rparr> exAssociated)))) 3 4 8 2 = Some (False, '''')"
proof -
  let ?o = "\<lparr>Active = False, UpdateRateDesignator = ''''\<rparr>"
  let ?m1 = "snd (SubscribeObjectClassAttributesWithRegionsAndOptions exOpt ''f'' 8 3 [4, 5] [2] ?o exAssociated)"
  let ?st = "exState 2 exRegions (fmupd (3, 4) [exRow] fmempty) (fmupd 11 (fmupd 4 [1] fmempty) fmempty)"
  have call: "SubscribeObjectClassAttributesWithRegionsAndOptions exOpt ''f'' 8 3 [4, 5] [2] ?o exAssociated = (None, ?m1)"
    and flight: "inflight ?m1 = Some (ObjectAdmission ''f'' 0 8 3 (Some (savedObjectRows 8 3 ?st)) [4, 5] True)"
    using exAssociated_is
    by (simp_all add: SubscribeObjectClassAttributesWithRegionsAndOptions_def validateGroupSubscriptionOptions_def objectContext_def
        attributeContext_def exState_for Let_def validateObjectRegions_def validateRegions_def regionError_def await_def)
  have accepted: "fst (finish exOpt ?m1) = None" and refused: "fst (finish exRefuse ?m1) \<noteq> None"
    unfolding finish_def flight by (simp_all add: Let_def objectInterest_def exRefuse_def)
  have old: "subscribedOptions ''f'' exAssociated 3 4 8 2 = Some (False, '''')"
    using exAssociated_is by (simp add: subscribedOptions_def objOptions_def optionsIn_def rowsAt_def exRow_def)
  note additive = subscription_is_additive [OF exAssociated_reachable exAssociated_is(2) call rtranclp.rtrancl_refl surjective_pairing]
  show ?thesis
    using additive [of exOpt 3 4 8 2] additive [of exRefuse 3 4 8 2] accepted refused old by simp
qed

section \<open>Deleting\<close>

text \<open>Deleting a region takes it out of every inactive association and leaves the rest of them.\<close>

lemma rowsAt_stripRegion: "rowsAt (stripRegion rh per) a = filter (\<lambda>r. r \<noteq> rh) (rowsAt per a)"
  by (auto simp: rowsAt_def stripRegion_def remainingRegions_def split: option.split)

lemma dropRegion_inactive:
  "rowsAt (inner (inner (inactivePubs (dropRegion rh st)) ob) h) a = filter (\<lambda>r. r \<noteq> rh) (rowsAt (inner (inner (inactivePubs st) ob) h) a)"
proof -
  have "inner (inactivePubs (dropRegion rh st)) ob = pruneCallers (fmmap (stripRegion rh) (inner (inactivePubs st) ob))"
    by (auto simp: dropRegion_def inactivePubs_removeInactiveRegion inner_def fmdom_empty_iff pruneCallers_def split: option.split)
  moreover have "inner (fmmap (stripRegion rh) callers) h = stripRegion rh (inner callers h)" for callers
    by (auto simp: inner_def stripRegion_def intro: fmap_ext split: option.split)
  ultimately show ?thesis by (simp add: inner_pruneCallers rowsAt_stripRegion)
qed

text \<open>
  C30. A region is deleted exactly when it exists, belongs to the caller, and is in no row of a
  subscription to an object class or an interaction class and in no active association.  Then the
  region is gone, and it is taken out of the inactive associations; all the other regions, the
  subscriptions, the active associations and what else is in the inactive ones are as before.
  Otherwise nothing of this changes.
\<close>

theorem delete_region_iff_unused:
  assumes "ddm_reachable m" "inflight m = None" "DeleteRegion opt f ow rh m = (e, m')" "stateForLocked opt f m = (st, m0)"
  shows "(e = None \<longleftrightarrow> ownerOf (regions st) rh = Some ow \<and>
      \<not> (\<exists>k rows s. fmlookup (objSubs st) k = Some rows \<and> s \<in> set rows \<and> rh \<in> set (sregions s)) \<and>
      \<not> (\<exists>k rows s. fmlookup (intSubs st) k = Some rows \<and> s \<in> set rows \<and> rh \<in> set (iregions s)) \<and>
      \<not> (\<exists>ob per a rs. fmlookup (objPubs st) ob = Some per \<and> fmlookup per a = Some rs \<and> rh \<in> set rs)) \<and>
    (\<exists>st'. fmlookup (fed m') f = Some st' \<and> objSubs st' = objSubs st \<and> intSubs st' = intSubs st \<and> objPubs st' = objPubs st \<and>
       regions st' = (if e = None then fmdrop rh (regions st) else regions st) \<and>
       (\<forall>ob h a. rowsAt (inner (inner (inactivePubs st') ob) h) a =
          filter (\<lambda>r. e = None \<longrightarrow> r \<noteq> rh) (rowsAt (inner (inner (inactivePubs st) ob) h) a)))"
proof -
  note facts = stateForLocked_ok [OF reachable_ok [OF assms(1)] assms(4)]
  consider (none) "fmlookup (regions st) rh = None" "e \<noteq> None" "m' = m0"
    | (refused) rs where "fmlookup (regions st) rh = Some rs" "owner rs \<noteq> ow \<or> regionInUse st rh" "e \<noteq> None" "m' = m0"
    | (deleted) rs where "fmlookup (regions st) rh = Some rs" "owner rs = ow" "\<not> regionInUse st rh" "e = None"
        "m' = setState f (dropRegion rh st) m0"
    using assms(3) by (auto simp: DeleteRegion_def assms(4) Let_def dropRegion_def split: option.splits if_splits)
  then show ?thesis
  proof cases
    case deleted
    have st': "fmlookup (fed m') f = Some (dropRegion rh st)" by (simp add: deleted)
    have "objSubs (dropRegion rh st) = objSubs st" "intSubs (dropRegion rh st) = intSubs st" "objPubs (dropRegion rh st) = objPubs st"
      "regions (dropRegion rh st) = fmdrop rh (regions st)" by (simp_all add: dropRegion_def)
    then show ?thesis
      using deleted st' dropRegion_inactive unfolding regionInUse_iff by (auto simp: ownerOf_def)
  qed (use facts(2) in \<open>auto simp: ownerOf_def regionInUse_iff\<close>)
qed

theorem delete_region_iff_unused_witness:
  "fst (DeleteRegion exOpt ''f'' 7 1 exSubscribed) = None \<and> fst (DeleteRegion exOpt ''f'' 7 1 exAssociated) \<noteq> None"
proof -
  have "\<not> regionInUse (exState 2 exRegions (fmupd (3, 4) [exRow] fmempty) fmempty) 1"
    by (auto simp: regionInUse_iff exRow_def split: if_splits)
  moreover have "regionInUse (exState 2 exRegions (fmupd (3, 4) [exRow] fmempty) (fmupd 11 (fmupd 4 [1] fmempty) fmempty)) 1"
    unfolding regionInUse_iff
    by (intro disjI2 exI [of _ 11] exI [of _ "fmupd 4 [1] fmempty"] exI [of _ 4] exI [of _ "[1]"]) simp
  ultimately show ?thesis
    using delete_region_iff_unused [OF exSubscribed_reachable exSubscribed_is(2) surjective_pairing exState_for [OF exSubscribed_is(1)], of 7 1, THEN conjunct1]
      delete_region_iff_unused [OF exAssociated_reachable exAssociated_is(2) surjective_pairing exState_for [OF exAssociated_is(1)], of 7 1, THEN conjunct1]
    unfolding regionInUse_iff by (simp only: de_Morgan_disj) (simp add: ownerOf_def)
qed

section \<open>Saving and restoring\<close>

lemma exportObjectRows_idem: "obj.ok own rows \<Longrightarrow> exportObjectRows (exportObjectRows rows) = exportObjectRows rows"
  using exportObjectRows_sorted [OF exportObjectRows_ok, of own rows] exportObjectRows_sorted [of own rows]
  by (simp add: sort_key_id_if_sorted)

lemma exportInteractionRows_idem: "int.ok own rows \<Longrightarrow> exportInteractionRows (exportInteractionRows rows) = exportInteractionRows rows"
  using exportInteractionRows_sorted [OF exportInteractionRows_ok, of own rows] exportInteractionRows_sorted [of own rows]
  by (simp add: sort_key_id_if_sorted)

lemma listed_fmmap: "listed (fmmap g m) = map (\<lambda>(k, x). (k, g x)) (listed m)"
  by (auto simp: listed_def fmdom_notD dest: fmdomI)

lemma listedD: "(k, x) \<in> set (listed t) \<Longrightarrow> fmlookup t k = Some x"
  by (auto simp: listed_def)

text \<open>Rows that are in the canonical order are exported as they are.\<close>

lemma reexport:
  assumes "state_ok st" "objSubs st' = fmmap exportObjectRows (objSubs st)" "intSubs st' = fmmap exportInteractionRows (intSubs st)"
    "regions st' = regions st" "nextRegionHandle st' = nextRegionHandle st" "objPubs st' = objPubs st"
    "inactivePubs st' = inactivePubs st" "conveyed st' = conveyed st" "conveyedRecipients st' = conveyedRecipients st"
  shows "exportState st' = exportState st"
proof -
  have obj: "exportObjectRows (exportObjectRows rows) = exportObjectRows rows" if "(k, rows) \<in> set (listed (objSubs st))" for k rows
    using table_okD [OF state_okD(2) [OF assms(1)] listedD [OF that]] by (auto intro: exportObjectRows_idem)
  have int: "exportInteractionRows (exportInteractionRows rows) = exportInteractionRows rows" if "(k, rows) \<in> set (listed (intSubs st))" for k rows
    using table_okD [OF state_okD(3) [OF assms(1)] listedD [OF that]] by (auto intro: exportInteractionRows_idem)
  have "imObjectSubscriptions (exportState st') = imObjectSubscriptions (exportState st)"
    using obj by (auto simp: exportState_def assms(2) listed_fmmap intro!: arg_cong [where f = concat])
  moreover have "imInteractionSubscriptions (exportState st') = imInteractionSubscriptions (exportState st)"
    using int by (auto simp: exportState_def assms(3) listed_fmmap intro!: arg_cong [where f = concat])
  moreover have "exportConveyed st' = exportConveyed st"
    by (simp add: exportConveyed_def assms(9) fun_eq_iff)
  ultimately show ?thesis by (simp add: exportState_def assms(4-8))
qed

text \<open>
  C27. Saving the regions of a federation and restoring them in a manager, of this or of another
  federation, gives back every region with its committed and pending ranges, every association,
  the conveyed copies with their receivers, and the options of every subscription; exporting the
  restored state gives the same image again.
\<close>

theorem regions_survive_save_and_restore:
  assumes "ddm_reachable m" "fmlookup (fed m) f = Some st" "n = DDM_ImportState opt g (DDM_ExportState f m) m'"
  shows "\<exists>st'. fmlookup (fed n) g = Some st' \<and>
    regions st' = regions st \<and> nextRegionHandle st' = nextRegionHandle st \<and> objPubs st' = objPubs st \<and>
    inactivePubs st' = inactivePubs st \<and> conveyed st' = conveyed st \<and> conveyedRecipients st' = conveyedRecipients st \<and>
    (\<forall>c a h r. subscribedOptions g n c a h r = subscribedOptions f m c a h r) \<and>
    (\<forall>c h r. interactionOptions g n c h r = interactionOptions f m c h r) \<and>
    DDM_ExportState g n = DDM_ExportState f m"
proof -
  note ok = reachable_state_ok [OF assms(1,2)]
  obtain s m0 where s: "stateForLocked opt g m' = (s, m0)" by fastforce
  let ?st = "importState (exportState st) s"
  note eq = import_export [OF ok, of s]
  have lookup: "fmlookup (fed n) g = Some ?st"
    using assms(2,3) s by (simp add: DDM_ImportState_def DDM_ExportState_def)
  have ok': "state_ok ?st" by (rule import_ok [OF ok])
  have rows: "rowsAt (fmmap ex t) k = (if fmlookup t k = None then [] else ex (rowsAt t k))" for ex t k
    by (auto simp: rowsAt_def)
  have obj: "obj.table (rowsAt (objSubs ?st) k) = obj.table (rowsAt (objSubs st) k)" for k
    using exportObjectRows_sorted [OF objRows_ok [OF ok, of k]] unfolding eq(7) rows by (auto simp: rowsAt_def)
  have int: "int.table (rowsAt (intSubs ?st) k) = int.table (rowsAt (intSubs st) k)" for k
    using exportInteractionRows_sorted [OF intRows_ok [OF ok, of k]] unfolding eq(8) rows by (auto simp: rowsAt_def)
  have "subscribedOptions g n c a h r = subscribedOptions f m c a h r" for c a h r
    using objOptions_eqI [OF ok' ok obj] by (simp add: subscribedOptions_def lookup assms(2))
  moreover have "interactionOptions g n c h r = interactionOptions f m c h r" for c h r
    using intOptions_eqI [OF ok' ok int] by (simp add: interactionOptions_def lookup assms(2))
  moreover
  have "exportState ?st = exportState st"
    by (rule reexport [OF ok eq(7,8,1,2,3,4,5,6)])
  then have "DDM_ExportState g n = DDM_ExportState f m"
    by (simp add: DDM_ExportState_def lookup assms(2))
  ultimately show ?thesis
    by (intro exI [of _ ?st] conjI allI lookup eq)
qed

theorem regions_survive_save_and_restore_witness:
  "\<exists>st'. fmlookup (fed (DDM_ImportState exOpt ''g'' (DDM_ExportState ''f'' exAssociated) NewDDM)) ''g'' = Some st' \<and> regions st' = exRegions"
proof -
  from regions_survive_save_and_restore [OF exAssociated_reachable exAssociated_is(1) refl, of exOpt "''g''" NewDDM]
  obtain st' where "fmlookup (fed (DDM_ImportState exOpt ''g'' (DDM_ExportState ''f'' exAssociated) NewDDM)) ''g'' = Some st'"
      "regions st' = exRegions"
    by (elim exE conjE) (simp only: exState_fields)
  then show ?thesis by blast
qed

section \<open>Refused associations\<close>

lemma changeAssociation_begin:
  assumes "changeAssociationGroupsMode opt f caller ob groups mode m = (None, m1)" "stateForLocked opt f m = (st, m0)"
  shows "\<exists>c st'. m1 = awaitAssociation f ob c st st' m0 \<and> ident st' = ident st \<and>
    (\<forall>v. restoreAssociations ob v st' = restoreAssociations ob v st)"
proof -
  obtain gs os required where "prepareAssociationGroups opt f caller ob groups (removing mode) = Inr (gs, os, required)"
    using assms(1) by (cases "prepareAssociationGroups opt f caller ob groups (removing mode)") (auto simp: changeAssociationGroupsMode_def)
  then have "(\<exists>c. m1 = awaitAssociation f ob c st (clearObjectAssociations ob caller st) m0) \<or>
      (\<exists>c work. m1 = awaitAssociation f ob c st (fold (changeAssociationGroup ob caller os mode) work st) m0)"
    using assms by (auto simp: changeAssociationGroupsMode_def Let_def split: option.splits if_splits)
  then show ?thesis
  proof (elim disjE exE)
    fix c assume "m1 = awaitAssociation f ob c st (clearObjectAssociations ob caller st) m0"
    then show ?thesis
      by (intro exI [of _ c] exI [of _ "clearObjectAssociations ob caller st"]) (simp add: restore_changed)
  next
    fix c work assume "m1 = awaitAssociation f ob c st (fold (changeAssociationGroup ob caller os mode) work st) m0"
    then show ?thesis
      by (intro exI [of _ c] exI [of _ "fold (changeAssociationGroup ob caller os mode) work st"])
        (simp add: restore_changed changeAssociationGroups_fields)
  qed
qed

lemma happen_inflight: "inflight (happen f e m) = inflight m"
  by (cases e) (auto simp: OwnershipChanged_def ForgetObject_def ForgetObjectFederateAssociations_def ForgetFederateAssociations_def
      project_def setState_def Let_def split: option.split)

text \<open>
  C12. An association that is refused leaves no trace: whatever ownership transfers, deletions and
  departures happen before the refusal, the federation ends in exactly the state it would be in if
  the association had never been requested.
\<close>

theorem refused_association_leaves_no_trace:
  assumes reach: "ddm_reachable m" and idle: "inflight m = None"
    and call: "changeAssociationGroupsMode opt f caller ob groups mode m = (None, m1)"
    and finish: "finish opt' (fold (happen f) events m1) = (Some e, m3)"
  shows "fed m3 = fed (fold (happen f) events (snd (stateForLocked opt f m)))"
proof -
  obtain st m0 where s: "stateForLocked opt f m = (st, m0)" by fastforce
  note facts = stateForLocked_ok [OF reachable_ok [OF reach] s]
  obtain c st' where m1: "m1 = awaitAssociation f ob c st st' m0" and ident: "ident st' = ident st"
    and undo: "\<And>v. restoreAssociations ob v st' = restoreAssociations ob v st"
    using changeAssociation_begin [OF call s] by blast
  have flight: "inflight (fold (happen f) es m1) = Some (AssociationAdmission f (ident st) ob c)" for es
    by (rule fold_invariant [where Q = "\<lambda>_. True"]) (simp_all add: m1 awaitAssociation_def await_def happen_inflight)
  have changed: c
    using finish flight [of events] by (rule_tac ccontr) (simp add: finish_def finishRateMutation_def)
  have "restoreAssociations ob (objectView st ob) st' = st"
    using undo restore_view [OF facts(5)] by simp
  moreover have "fmupd f st (fmupd f st' (fed m0)) = fed m0"
    using facts(2) by (auto intro!: fmap_ext)
  ultimately have "shadows f ob m1 m0"
    using ident by (simp add: shadows_def m1 awaitAssociation_def await_def changed setState_def)
  then have sim: "shadows f ob (fold (happen f) es m1) (fold (happen f) es m0)" for es
    by (induction es arbitrary: m1 m0) (simp_all add: shadows_happen)
  show ?thesis
    using shadows_refused [OF sim finish] s by simp
qed

text \<open>Federate 7 associates its region with attribute 4 of object 11, which goes to federate 8 before the refusal.\<close>

theorem refused_association_leaves_no_trace_witness:
  "fst (finish exRefuse (happen ''f'' (OwnershipEvent 11 (fmupd 4 7 fmempty) (fmupd 4 8 fmempty))
      (snd (changeAssociationGroupsMode exOpt ''f'' 7 11 [\<lparr>Attributes = [4], Regions = [1]\<rparr>] associationAdd exSubscribed)))) \<noteq> None \<and>
   fed (snd (finish exRefuse (happen ''f'' (OwnershipEvent 11 (fmupd 4 7 fmempty) (fmupd 4 8 fmempty))
      (snd (changeAssociationGroupsMode exOpt ''f'' 7 11 [\<lparr>Attributes = [4], Regions = [1]\<rparr>] associationAdd exSubscribed))))) =
   fed (happen ''f'' (OwnershipEvent 11 (fmupd 4 7 fmempty) (fmupd 4 8 fmempty)) (snd (stateForLocked exOpt ''f'' exSubscribed)))"
proof -
  let ?g = "[\<lparr>Attributes = [4], Regions = [1]\<rparr>]"
  let ?m1 = "snd (changeAssociationGroupsMode exOpt ''f'' 7 11 ?g associationAdd exSubscribed)"
  let ?e = "OwnershipEvent 11 (fmupd 4 7 fmempty) (fmupd 4 8 fmempty)"
  have call: "changeAssociationGroupsMode exOpt ''f'' 7 11 ?g associationAdd exSubscribed = (None, ?m1)"
    and flight: "inflight ?m1 = Some (AssociationAdmission ''f'' 0 11 True)"
    using exSubscribed_is
    by (simp_all add: changeAssociationGroupsMode_def prepareAssociationGroups_def exState_for Let_def
        validateGroups_def validateObjectRegions_def validateRegions_def regionError_def skipped_def removing_def awaitAssociation_def await_def)
  have refused: "\<exists>x. fst (finish exRefuse (happen ''f'' ?e ?m1)) = Some x"
    unfolding finish_def happen_inflight flight by (simp add: Let_def finishRateMutation_def exRefuse_def)
  then obtain x where x: "fst (finish exRefuse (happen ''f'' ?e ?m1)) = Some x" by blast
  have finish: "finish exRefuse (fold (happen ''f'') [?e] ?m1) = (Some x, snd (finish exRefuse (happen ''f'' ?e ?m1)))"
    using x by (simp only: fold_simps prod_eq_iff fst_conv snd_conv simp_thms)
  show ?thesis
    using refused_association_leaves_no_trace [OF exSubscribed_reachable exSubscribed_is(2) call finish] x
    by (simp only: fold_simps option.distinct simp_thms)
qed

section \<open>Routing\<close>

lemma objOptions_row: "objOptions t k h r \<noteq> None \<longleftrightarrow> (\<exists>s\<in>set (rowsAt t k). subscriber s = h \<and> r \<in> set (sregions s))"
  by (auto simp: objOptions_def optionsIn_def find_None_iff)

text \<open>
  C10. An update of an attribute with associated regions goes to exactly the federates with a
  subscribed region of the attribute such that the two regions have a dimension in common and
  share a point on all common dimensions, where a dimension that a region leaves unspecified has
  its default range.  Each of these federates is listed once, in ascending order.
\<close>

theorem update_reaches_exactly_overlapping:
  assumes reach: "ddm_reachable m" and look: "fmlookup (fed m) f = Some st" and pub: "PublisherRegionsFor f ob a m = Some rhs"
  shows "\<exists>hs. SubscribersForUpdate f cls a rhs m = Some hs \<and> sorted hs \<and> distinct hs \<and>
    (\<forall>h. h \<in> set hs \<longleftrightarrow>
       (\<exists>r\<in>set rhs. \<exists>r' rs rs'. subscribedOptions f m cls a h r' \<noteq> None \<and> regionAt f m r = Some rs \<and> regionAt f m r' = Some rs' \<and>
          \<not> template rs \<and> \<not> template rs' \<and> sharePoint (effectiveRange st cls a rs) (effectiveRange st cls a rs')))"
proof -
  note ok = reachable_state_ok [OF reach look]
  have assoc: "fmlookup (inner (objPubs st) ob) a = Some rhs"
    using pub look by (simp add: PublisherRegionsFor_def)
  have "rhs \<noteq> []"
    using objectView_ok [OF ok, of ob] assoc by (auto simp: view_ok_def objectView_def assoc_ok_def dest: table_okD)
  then have route: "SubscribersForUpdate f cls a rhs m = Some (matchingSubscribers st cls a (objectRealizations st cls a rhs))"
    using look by (simp add: SubscribersForUpdate_def)
  have known: "\<forall>r\<in>set rhs. fmlookup (regions st) r \<noteq> None"
    using associated_region [OF ok, of _ ob a] assoc by (auto simp: rowsAt_def ownerOf_def)
  have mine: "\<forall>r\<in>set (sregions s). fmlookup (regions st) r \<noteq> None" if row: "s \<in> set (rowsAt (objSubs st) (cls, a))" for s
  proof -
    obtain rows where "fmlookup (objSubs st) (cls, a) = Some rows" "s \<in> set rows"
      using row by (cases "fmlookup (objSubs st) (cls, a)") (auto simp: rowsAt_def)
    then show ?thesis using subscribed_region [OF ok] by (fastforce simp: ownerOf_def)
  qed
  have row: "subscribedOptions f m cls a h r \<noteq> None \<longleftrightarrow> (\<exists>s\<in>set (rowsAt (objSubs st) (cls, a)). subscriber s = h \<and> r \<in> set (sregions s))" for h r
    using look objOptions_row by (simp add: subscribedOptions_def)
  have "h \<in> set (matchingSubscribers st cls a (objectRealizations st cls a rhs)) \<longleftrightarrow>
      (\<exists>s\<in>set (rowsAt (objSubs st) (cls, a)). subscriber s = h \<and>
         regionsOverlap (objectRealizations st cls a rhs) (objectRealizations st cls a (sregions s)))" for h
    by (auto simp: matchingSubscribers_def)
  moreover have "regionsOverlap (objectRealizations st cls a rhs) (objectRealizations st cls a (sregions s)) \<longleftrightarrow>
      (\<exists>r\<in>set rhs. \<exists>r'\<in>set (sregions s). \<exists>rs rs'. regionAt f m r = Some rs \<and> regionAt f m r' = Some rs' \<and>
         \<not> template rs \<and> \<not> template rs' \<and> sharePoint (effectiveRange st cls a rs) (effectiveRange st cls a rs'))"
    if "s \<in> set (rowsAt (objSubs st) (cls, a))" for s
    using regionsOverlap_iff [OF ok reachable_defaults [OF reach look] known mine [OF that], of cls a] look by (simp add: regionAt_def)
  ultimately have "h \<in> set (matchingSubscribers st cls a (objectRealizations st cls a rhs)) \<longleftrightarrow>
      (\<exists>r\<in>set rhs. \<exists>r' rs rs'. subscribedOptions f m cls a h r' \<noteq> None \<and> regionAt f m r = Some rs \<and> regionAt f m r' = Some rs' \<and>
          \<not> template rs \<and> \<not> template rs' \<and> sharePoint (effectiveRange st cls a rs) (effectiveRange st cls a rs'))" for h
    unfolding row by blast
  then show ?thesis
    using route by (simp add: matchingSubscribers_def)
qed

text \<open>The regions \<open>[2, 5)\<close> and \<open>[4, 9)\<close> share the point 4, so federate 8 gets the update.\<close>

theorem update_reaches_exactly_overlapping_witness:
  "\<exists>hs. SubscribersForUpdate ''f'' 3 4 [1] exAssociated = Some hs \<and> 8 \<in> set hs"
proof -
  let ?st = "exState 2 exRegions (fmupd (3, 4) [exRow] fmempty) (fmupd 11 (fmupd 4 [1] fmempty) fmempty)"
  have pub: "PublisherRegionsFor ''f'' 11 4 exAssociated = Some [1]"
    using exAssociated_is by (simp add: PublisherRegionsFor_def inner_def)
  have sub: "subscribedOptions ''f'' exAssociated 3 4 8 2 \<noteq> None"
    using exAssociated_is by (simp add: subscribedOptions_def objOptions_def optionsIn_def rowsAt_def exRow_def)
  have one: "regionAt ''f'' exAssociated 1 = Some (exRegion 7 (exBounds 2 5))" "regionAt ''f'' exAssociated 2 = Some (exRegion 8 (exBounds 4 9))"
    using exAssociated_is by (simp_all add: regionAt_def)
  have ranges: "effectiveRange ?st 3 4 (exRegion h r) d = (if d = 1 then Some r else None)" for h r d
    by (simp add: effectiveRange_def)
  have "sharePoint (effectiveRange ?st 3 4 (exRegion 7 (exBounds 2 5))) (effectiveRange ?st 3 4 (exRegion 8 (exBounds 4 9)))"
    unfolding sharePoint_def ranges by (intro conjI exI [of _ 1] exI [of _ "\<lambda>_. 4"]) (auto simp: inRange_def split: if_splits)
  moreover obtain hs where hs: "SubscribersForUpdate ''f'' 3 4 [1] exAssociated = Some hs"
      "\<forall>h. h \<in> set hs \<longleftrightarrow> (\<exists>r\<in>set [1]. \<exists>r' rs rs'. subscribedOptions ''f'' exAssociated 3 4 h r' \<noteq> None \<and>
         regionAt ''f'' exAssociated r = Some rs \<and> regionAt ''f'' exAssociated r' = Some rs' \<and>
         \<not> template rs \<and> \<not> template rs' \<and> sharePoint (effectiveRange ?st 3 4 rs) (effectiveRange ?st 3 4 rs'))"
    using update_reaches_exactly_overlapping [OF exAssociated_reachable exAssociated_is(1) pub, of 3] by blast
  ultimately have "8 \<in> set hs"
    using one sub by (intro iffD2 [OF hs(2) [THEN spec]] bexI [of _ 1] exI [of _ 2] exI conjI) simp_all
  then show ?thesis using hs(1) by blast
qed

section \<open>Captured copies\<close>

text \<open>
  C28. The copies of region realizations that are captured with an update select the same
  receivers as the regions themselves: routing by the copies in the state the capture leaves gives
  the subscribers for the regions, and a federate that knows the object by its registered class is
  listed in the captured row exactly when it is one of them.
\<close>

theorem captured_copies_route_alike:
  assumes "ObjectDeliverySnapshots opt f ob cls attrs known m = (Inr rows, m')" "fmlookup rows a = Some row" "aRegions row \<noteq> []"
  shows "\<exists>hs. SubscribersForUpdate f cls a (aRegions row) m' = Some hs \<and>
    fst (SubscribersForConveyedUpdate opt f cls a (aCopies row) m') = hs \<and>
    (\<forall>h. fmlookup known h = Some cls \<longrightarrow> h \<in> set (aSubscribers row) \<longleftrightarrow> h \<in> set hs)"
proof -
  obtain st m0 where s: "stateForLocked opt f m = (st, m0)" by fastforce
  obtain st' where snap: "deliverySnapshots ob cls known attrs st = (Inr rows, st')" and m': "m' = setState f st' m0"
    using assms(1) by (auto simp: ObjectDeliverySnapshots_def s Let_def split: sum.splits prod.splits)
  have "deliverySnapshots ob cls known attrs (st\<lparr>nextRegionHandle := nextRegionHandle st\<rparr>) = (Inr rows, st')"
    using snap by simp
  from deliverySnapshots_row [OF this assms(2)] obtain n k k' where st': "st' = st\<lparr>nextRegionHandle := n\<rparr>"
    and one: "deliverySnapshot (st\<lparr>nextRegionHandle := k\<rparr>) ob cls a known = Inr (row, st\<lparr>nextRegionHandle := k'\<rparr>)" by blast
  let ?pub = "portableRealizations (aCopies row)"
  let ?hs = "matchingSubscribers st cls a (objectRealizations st cls a (aRegions row))"
  have cap: "captureRealizations (st\<lparr>nextRegionHandle := k\<rparr>) (aRegions row)
      (\<lambda>r. objectRealizations (st\<lparr>nextRegionHandle := k\<rparr>) cls a [r]) = Inr (aCopies row, st\<lparr>nextRegionHandle := k'\<rparr>)"
    and subs: "aSubscribers row = sorted_list_of_fset (ffilter
      (\<lambda>h. receives (st\<lparr>nextRegionHandle := k'\<rparr>) cls a (aRegions row \<noteq> []) ?pub h (the (fmlookup known h))) (fmdom known))"
    using one by (auto simp: deliverySnapshot_def Let_def bindR_eq_Inr_iff)
  have same: "matchingSubscribers st cls a ?pub = ?hs"
    using matching_cong [OF capture_bounds [OF cap]] by simp
  have "SubscribersForUpdate f cls a (aRegions row) m' = Some ?hs"
    using assms(3) by (simp add: SubscribersForUpdate_def m' st')
  moreover have "matchingSubscribers (refreshFOMDimensions opt f st') cls a pub = matchingSubscribers st cls a pub" for pub
  proof -
    obtain x where x: "st = refreshFOMDimensions opt f x"
      using s by (auto simp: stateForLocked_def Let_def split: option.splits)
    show ?thesis
      using refresh_again [where st = x and opt = opt and f = f and n = n] by (simp add: matchingSubscribers_def st' x [symmetric])
  qed
  then have "fst (SubscribersForConveyedUpdate opt f cls a (aCopies row) m') = ?hs"
    using same by (simp add: SubscribersForConveyedUpdate_def stateForLocked_def m' Let_def)
  moreover have "h \<in> set (aSubscribers row) \<longleftrightarrow> h \<in> set ?hs" if known: "fmlookup known h = Some cls" for h
  proof -
    have "h \<in> set (aSubscribers row) \<longleftrightarrow> receives (st\<lparr>nextRegionHandle := k'\<rparr>) cls a True ?pub h cls"
      using known assms(3) by (auto simp: subs fmdomI)
    also have "\<dots> \<longleftrightarrow> h \<in> set (matchingSubscribers st cls a ?pub)"
      by (auto simp: receives_def mappedAttribute_def matchingSubscribers_def list_ex_iff)
    finally show ?thesis by (simp only: same)
  qed
  ultimately show ?thesis by blast
qed

theorem captured_copies_route_alike_witness:
  "\<exists>rows row hs. fst (ObjectDeliverySnapshots exOpt ''f'' 11 3 [4] (fmupd 8 3 fmempty) exAssociated) = Inr rows \<and>
     fmlookup rows 4 = Some row \<and> aRegions row = [1] \<and>
     SubscribersForUpdate ''f'' 3 4 [1] (snd (ObjectDeliverySnapshots exOpt ''f'' 11 3 [4] (fmupd 8 3 fmempty) exAssociated)) = Some hs \<and>
     (8 \<in> set (aSubscribers row) \<longleftrightarrow> 8 \<in> set hs)"
proof -
  let ?st = "exState 2 exRegions (fmupd (3, 4) [exRow] fmempty) (fmupd 11 (fmupd 4 [1] fmempty) fmempty)"
  let ?known = "fmupd 8 3 fmempty :: (handle, nat) fmap"
  have real: "objectRealizations ?st 3 4 [1] = [fmupd 1 (exBounds 2 5) fmempty]"
    by (simp add: objectRealizations_def materializeRegions_def materializeRegion_def List.map_filter_simps)
  have dom: "sorted_list_of_fset {|1::nat|} = [1]"
    by (simp add: sorted_list_of_fset.rep_eq)
  obtain cs st' where cap: "captureRealizations ?st [1] (\<lambda>r. objectRealizations ?st 3 4 [r]) = Inr (cs, st')"
    using dom by (simp add: captureRealizations_def sortCompact_def captureOne_def real [simplified] NewRegionRealizationSnapshot_def Let_def)
  then obtain row where row: "deliverySnapshot ?st 11 3 4 ?known = Inr (row, st')" "aRegions row = [1]"
    by (simp add: deliverySnapshot_def inner_def rowsAt_def Let_def)
  have call: "ObjectDeliverySnapshots exOpt ''f'' 11 3 [4] ?known exAssociated =
      (Inr (fmupd 4 row fmempty), snd (ObjectDeliverySnapshots exOpt ''f'' 11 3 [4] ?known exAssociated))"
    using exAssociated_is row by (simp add: ObjectDeliverySnapshots_def exState_for)
  have look: "fmlookup (fmupd 4 row fmempty) 4 = Some row" and some: "aRegions row \<noteq> []" using row by simp_all
  from captured_copies_route_alike [OF call look some] obtain hs where
    "SubscribersForUpdate ''f'' 3 4 (aRegions row) (snd (ObjectDeliverySnapshots exOpt ''f'' 11 3 [4] ?known exAssociated)) = Some hs"
    "\<forall>h. fmlookup ?known h = Some 3 \<longrightarrow> h \<in> set (aSubscribers row) \<longleftrightarrow> h \<in> set hs" by blast
  moreover have "fst (ObjectDeliverySnapshots exOpt ''f'' 11 3 [4] ?known exAssociated) = Inr (fmupd 4 row fmempty)"
    by (subst call) simp
  ultimately show ?thesis
    using look row(2) by (intro exI [of _ "fmupd 4 row fmempty"] exI [of _ row] exI [of _ hs]) simp
qed

section \<open>Registration during a commit\<close>

text \<open>The object model of the registration: every attribute has dimension 1.\<close>

definition exDimensioned :: DDMOptions where
  "exDimensioned = exOpt\<lparr>FOMs := (\<lambda>_. Inr (exFOM\<lparr>AttributeDimensions := Some (\<lambda>_ _. Some [1])\<rparr>))\<rparr>"

definition exRaced :: DDMManager where
  "exRaced = snd (finish exRefuse (snd (PrepareObjectRegistrationGroups exDimensioned ''f'' 7 3 [\<lparr>Attributes = [4], Regions = [1]\<rparr>] (Some 11)
     (snd (CommitRegionModifications_begin exOpt ''f'' 7 [1] (exBounded 7 1 (exBounds 2 5) exStart))))))"

lemma fmmap_keys_upd: "fmmap_keys g (fmupd k v t) = fmupd k (g k v) (fmmap_keys g t)"
  by (rule fmap_ext) simp

lemma fmmap_keys_empty: "fmmap_keys g fmempty = fmempty"
  by (rule fmap_ext) simp

lemma exRaced_state:
  "fmlookup (fed exRaced) ''f'' =
     Some (exState 1 (fmupd 1 (exTemplate 7 (fmupd 1 (exBounds 2 5) fmempty)) fmempty) fmempty (fmupd 11 (fmupd 4 [1] fmempty) fmempty))"
proof -
  let ?m = "exBounded 7 1 (exBounds 2 5) exStart"
  let ?rs = "exTemplate 7 (fmupd 1 (exBounds 2 5) fmempty)"
  let ?st = "exState 1 (fmupd 1 ?rs fmempty) fmempty fmempty"
  let ?st1 = "exState 1 (fmupd 1 (exRegion 7 (exBounds 2 5)) fmempty) fmempty fmempty"
  let ?m1 = "(setState ''f'' ?st1 (setState ''f'' ?st ?m))\<lparr>inflight := Some (RegionAdmission ''f'' 0 (savedRegions [1] ?st))\<rparr>"
  have m: "fmlookup (fed ?m) ''f'' = Some ?st" using exBounded_is(1) [OF exStart_is, of 1 "exBounds 2 5" 7] by simp
  have commit: "CommitRegionModifications_begin exOpt ''f'' 7 [1] ?m = (None, ?m1)"
    using m by (simp add: CommitRegionModifications_begin_def exState_for Let_def commitError_def updateRegion_def commitRegion_def
        exTemplate_def exRegion_def)
  let ?m2 = "setState ''f'' (exState 1 (fmupd 1 (exRegion 7 (exBounds 2 5)) fmempty) fmempty (fmupd 11 (fmupd 4 [1] fmempty) fmempty))
      (?m1\<lparr>allocated := allocated ?m1 + 1\<rparr>)"
  have register: "PrepareObjectRegistrationGroups exDimensioned ''f'' 7 3 [\<lparr>Attributes = [4], Regions = [1]\<rparr>] (Some 11) ?m1 = (None, ?m2)"
    by (simp add: PrepareObjectRegistrationGroups_def prepareObjectRegistration_def exDimensioned_def groupAttributes_def sortCompact_def
        copyRegistrationGroups_def bindGroup_def validateGroups_def validateObjectRegions_def validateRegions_def regionError_def
        dimensionSet_def dimensionsSubset_def Let_def fmmap_fmupd)
  show ?thesis
    unfolding exRaced_def commit register snd_conv
    by (simp add: finish_def finishRateMutation_def exRefuse_def Let_def undoIn_def restoreRegions_def savedRegions_def exTemplate_def exRegion_def
        fmmap_keys_upd fmmap_keys_empty)
qed


lemma exRaced_reachable: "ddm_reachable exRaced"
proof -
  let ?m = "exBounded 7 1 (exBounds 2 5) exStart"
  have "ddm_reachable ?m" "inflight ?m = None"
    using exBounded_reachable [OF exStart_reachable exStart_is(2), of 7 1 "exBounds 2 5"]
      exBounded_is(2) [OF exStart_is, of 1 "exBounds 2 5" 7] by simp_all
  then have "ddm_reachable (snd (CommitRegionModifications_begin exOpt ''f'' 7 [1] ?m))"
    by (blast intro: reach_step step_commit)
  then show ?thesis
    unfolding exRaced_def PrepareObjectRegistrationGroups_def
    by (blast intro: reach_step step_quiet quiet_register step_finish)
qed

text \<open>C31.  A registration needs the state lock only, so it may run between the two halves of a commit.
  When the first commit of a region is then refused, the region goes back to being a template that no
  association may name, while the new instance stays associated with it: the manager is reachable, the
  row of the instance names the template, and the template has no realization that an update could use
  to reach a subscriber.\<close>

theorem registration_keeps_refused_region:
  "ddm_reachable exRaced \<and>
   (\<exists>st rs. fmlookup (fed exRaced) ''f'' = Some st \<and> rowsAt (inner (objPubs st) 11) 4 = [1] \<and>
      fmlookup (regions st) 1 = Some rs \<and> template rs \<and> objectRealizations st 3 4 [1] = [])"
proof (intro conjI)
  show "ddm_reachable exRaced" by (rule exRaced_reachable)
  show "\<exists>st rs. fmlookup (fed exRaced) ''f'' = Some st \<and> rowsAt (inner (objPubs st) 11) 4 = [1] \<and>
      fmlookup (regions st) 1 = Some rs \<and> template rs \<and> objectRealizations st 3 4 [1] = []"
    using exRaced_state by (simp add: inner_def rowsAt_def exTemplate_def objectRealizations_def
        materializeRegions_def materializeRegion_def List.map_filter_simps)
qed

end
