(* ===== verification/Spec2Isabelle.thy ===== *)
theory Spec2Isabelle
  imports Codec_Dispatch Retraction_History Time_Queries Sync_Properties DDM_Properties
begin

text \<open>
  A verification library for \<open>gorti\<close>, a run-time infrastructure (RTI) of the High Level
  Architecture, IEEE 1516-2010, written in Go.

  \<^bold>\<open>The program.\<close>  Simulators (federates) join a federation and talk to the RTI server.  The
  server's core is one manager per HLA service group under \<open>rti/internal/hla\<close>; each keeps one
  state per federation and is called by the gRPC adapters.  A manager hands callbacks to the
  delivery outbox, which queues them for the federates, and writes records to an event log.  The
  time manager decides when a timestamped message may be released and when a federate may advance;
  it also holds the grants back while a scheduled save is being taken.  The synchronization manager
  keeps the named barriers of a federation.  Data distribution management narrows who receives an
  update or an interaction to the federates whose subscribed regions overlap those of the sender.  The
  packages \<open>rti/pkg/encoding\<close> and
  \<open>rti/pkg/logicaltime\<close> are the data layer: the wire form of attribute values, chosen by the data
  types of the federation object model (\<open>rti/pkg/fom/model\<close>), and the arithmetic of logical time.

  \<^bold>\<open>Conventions.\<close>  A Go function that returns \<open>(value, error)\<close> is a function into a sum, \<open>Inl\<close> the
  error (\<open>bindR\<close> of \<open>Prelude\<close> is the early return).  A service is a function from the manager's
  state to a result and a new state; the locks of the managers make every service one step, and
  histories are sequences of steps (\<open>step\<close> and \<open>reachable\<close>, \<open>sync_step\<close> and \<open>sync_reachable\<close>,
  \<open>ddm_step\<close> and \<open>ddm_reachable\<close>); where the code lets go of its lock inside a service, the service is
  several steps.  Go maps are finite maps, total
  functions or association lists, as the iteration order matters or not.  The collaborators a
  manager is built with (outbox, event log, message filter, clock, membership resolver) are
  parameters: records of the answers they give, over which the theorems quantify.  Integers keep
  their width where the code can overflow: the encoders work on words, logical time on \<open>int64\<close>
  with the code's own overflow checks, and counters are compared with \<open>MaxUint64\<close> where the code
  does so.
\<close>

text \<open>
  \<^bold>\<open>Logical time and encoding.\<close>

  \<^item> \<open>Go_Float\<close>: IEEE 754 values on their bit patterns: order, addition, subtraction and
    conversions, each proved to be the rounding of the exact result to a nearest value.
  \<^item> \<open>LogicalTime\<close>: \<open>rti/pkg/logicaltime/value.go\<close>.  The order is the numeric one, addition and distance
    are the exact result or a value nearest to it, with the overflows characterised and the step
    that keeps time advancing, and the binary form can be read back.
  \<^item> \<open>Go_Text\<close>: runes, UTF-8, hexadecimal and decimal parsing, as the encoders use them.
  \<^item> \<open>Encoding\<close>: the primitive codecs, the padding rules and the arrays, records and variants of
    \<open>rti/pkg/encoding\<close>.
  \<^item> \<open>Codec_Laws\<close>: the locale \<open>codec_law\<close> states what a codec promises (what it encodes can be decoded
    in front of any tail, and decoding consumes a prefix); every primitive codec is an
    interpretation of it, and the composite codecs are shown to inherit the laws.
  \<^item> \<open>Codec_Dispatch\<close>: the registry and \<open>CodecFor\<close>; the round trip, that a decoder reads only what it
    claims, and exactly which descriptors make the dispatcher or its codecs panic (nil pointers to
    data types, fixed arrays too large to allocate).

  \<^bold>\<open>Time management\<close>, \<open>rti/internal/hla/time\<close>, for integer time and the conservative strategy.

  \<^item> \<open>Time_Core\<close> holds the per-federate records and the decision layer (\<open>lbts.go\<close>, \<open>galt.go\<close>,
    \<open>lookahead.go\<close>, the grant decision of \<open>ner.go\<close>), \<open>Time_Laws\<close> its laws.
  \<^item> \<open>Relaxation\<close> is a locale for in-place relaxation of bounds along monotone transfer functions:
    \<open>n\<close> passes over \<open>n\<close> nodes reach the greatest fixpoint.  \<open>Time_GALT\<close> interprets it on
    \<open>propagateFlushHorizons\<close>.
  \<^item> \<open>Retraction\<close>: message identifiers and the ledger of deliveries (\<open>retraction_ids.go\<close>,
    \<open>retract.go\<close>); no identifier is accepted twice.  \<open>Retraction_History\<close>: over every history of the
    ledger, the ranges hold exactly the committed identifiers.
  \<^item> \<open>Time_Queue\<close>, \<open>Time_Grant\<close>, \<open>Time_Services\<close>, \<open>Time_Save\<close>: the manager's state and queues, the
    grant evaluator \<open>tryGrantPending\<close>, the services, and the barrier of a scheduled save.
  \<^item> \<open>Time_Frame\<close>, \<open>Time_Conserve\<close>, \<open>Time_Evaluator\<close>: what the queue operations leave alone, that they
    lose no message, and that the evaluator's loop terminates: every pass that goes on has
    granted a request, enabled a switch or emptied a queue, which bounds the passes.
  \<^item> \<open>Time_Commit\<close>, \<open>Time_Floor\<close>, \<open>Time_Safety\<close>, \<open>Time_Loop\<close>, \<open>Time_Reach\<close>: the invariant of conservative
    synchronisation (no constrained federate is past a timestamp that another regulating federate
    may still send), kept by each grant, by the evaluator, by every service, and so in every
    reachable state, whatever the collaborators answer.  The server admits timestamped messages of
    federates that do not regulate, and those break the invariant: a run is taken over a discipline
    of sending, \<open>any_sends\<close> for all that the code accepts and \<open>regulated_sends\<close> for runs whose
    timestamped messages come from regulating federates.  Recording an advance request and
    evaluating it are also steps of their own, as other calls may come between them.
  \<^item> \<open>Time_Live\<close>: the evaluator stops only when nothing more can be granted.
  \<^item> \<open>Time_Forward\<close>: the locales \<open>evaluator_relation\<close> and \<open>service_relation\<close>: a relation between states
    that the primitive updates respect is respected by every service.  Interpreted for \<open>forward\<close>
    (logical time does not go back) and \<open>isolated\<close> (other federations are untouched).
  \<^item> \<open>Time_Order\<close>, \<open>Time_Queries\<close>: the order of release, and what the queries and errors promise in
    reachable states.
\<close>

text \<open>
  \<^bold>\<open>Synchronization points\<close>, \<open>rti/internal/hla/synchronization\<close>.

  \<^item> \<open>Sync_Core\<close> (\<open>manager.go\<close>, \<open>callbacks.go\<close>, \<open>events.go\<close>) and \<open>Sync_Image\<close> (\<open>snapshot.go\<close>,
    \<open>restore_callbacks.go\<close>) hold the model of both profiles, the strict one that waits for receipts of
    callbacks and the legacy one.
  \<^item> \<open>Sync_Points\<close>, \<open>Sync_Ledger\<close>, \<open>Sync_Strict\<close>: the invariant of the points and of the callback
    ledger, and its preservation; the locale \<open>sync_invariant\<close> takes an invariant of one
    federation's state to every reachable manager, and is interpreted as \<open>strict\<close> and \<open>waiting\<close>.
  \<^item> \<open>Sync_Validate\<close>: the exported image passes the code's own validation and can be imported again.
  \<^item> \<open>Sync_Reach\<close>, \<open>Sync_Spec\<close>, \<open>Sync_Properties\<close>: the step relation; the abstract specification of
    barriers, which says for each call what it does to the barriers of its federation
    (\<open>barrier_effect\<close>) and what is left when it fails (\<open>barrier_outcome\<close>), and the proof that the
    calls do this; and the properties.
\<close>

text \<open>
  \<^bold>\<open>Data distribution management\<close>, \<open>rti/internal/hla/ddm\<close>.

  A region is a range on some dimensions of a routing space.  Federates subscribe with regions, and
  associate regions with the object instances they update.  A change that alters the demand for
  updates has to be admitted by hooks of the server, which are called without the state lock: the
  model has the change (\<open>CommitRegionModifications_begin\<close> and the other services, which leave an
  \<open>admission\<close> in \<open>inflight\<close>) and its admission (\<open>finish\<close>, which undoes a refused change) as two steps.
  Services that take the subscription lock start only when no admission is open; the others
  (\<open>ddm_quiet\<close>) run at any time.  An import runs while the federation is halted and no admission is
  open, and of an image that a reachable manager exported.

  \<^item> \<open>FOM_Dimension\<close>: dimensions of the object model and the parser of their default ranges
    (\<open>rti/pkg/fom/model/dimension_metadata.go\<close>).
  \<^item> \<open>DDM_Core\<close> (\<open>state.go\<close>, \<open>fom_refresh.go\<close>, the regions of \<open>manager.go\<close>, \<open>overlap.go\<close>), \<open>DDM_Subs\<close>
    (\<open>operations.go\<close>, \<open>subscription_options.go\<close>, the subscriptions of \<open>manager.go\<close>, \<open>groups.go\<close> and
    \<open>missing_services.go\<close>, and the admission in \<open>update_rate_hooks.go\<close>), \<open>DDM_Assoc\<close> (\<open>groups.go\<close>,
    \<open>association_lifecycle.go\<close>, \<open>registration.go\<close>, resignation), \<open>DDM_Routing\<close> (\<open>manager.go\<close>,
    \<open>point_routing.go\<close>, \<open>default_interaction.go\<close>, \<open>conveyed_regions.go\<close>, \<open>conveyed_lifecycle.go\<close>) and
    \<open>DDM_Image\<close> (\<open>snapshot.go\<close>) hold the model.
  \<^item> \<open>DDM_Rows\<close>: the locale \<open>subscription_rows\<close> gives the meaning of a table of rows and shows what
    adding and removing regions does to it; it is interpreted for object attributes (\<open>obj\<close>) and for
    interactions (\<open>int\<close>).
  \<^item> \<open>DDM_State\<close>, \<open>DDM_Keep\<close>, \<open>DDM_Changes\<close>, \<open>DDM_Reach\<close>, \<open>DDM_Steps\<close>, \<open>DDM_Runs\<close>: the invariant (no
    table mentions a region that does not exist or is another federate's), kept by every operation and
    every undo, and so in every reachable manager.
  \<^item> \<open>DDM_Restore\<close>: an exported image can be imported without loss.
  \<^item> \<open>DDM_Frame\<close>, \<open>DDM_Meaning\<close>, \<open>DDM_Undo\<close>: what quiet operations leave alone, the effect of changes
    on what the tables mean, and the undo of a refused association while ownership changes hands,
    by a simulation between the manager and one that never saw the request.
  \<^item> \<open>DDM_Defaults\<close>, \<open>DDM_Overlap\<close>: default ranges are never empty, and the overlap test decides
    whether two regions share a point.
  \<^item> \<open>DDM_Example\<close>, \<open>DDM_Properties\<close>: a concrete run, and the properties.

  The capabilities of the object model that the code finds by type assertion are optional functions
  (\<open>FOMHandle\<close>), the hooks are functions of \<open>DDMOptions\<close>, and \<open>ident\<close> stands for the address of a
  federation's state, which the undo compares.  Handles are natural numbers, compared with
  \<open>MaxUint64\<close> where the code guards their allocation.

  \<^bold>\<open>Bounds.\<close>  No fuel is used: the loops of the grant evaluator and of relaxation are defined by
  recursion with a termination proof or over the number of passes the code itself fixes.

  \<^bold>\<open>Not modelled.\<close>  In time management: the \<open>float64\<close> instance (the decision layer is generic in the
  time type), the alternative grant strategies, elapsed-time accounting and observers (they only
  report), the callback that binds object deletions, cancelled contexts, and the export of manager
  and retraction state (\<open>persistent_state.go\<close>, \<open>retraction_history_merge.go\<close>).  In data distribution:
  cancelled contexts.  The XML parser and exporter of the object model are document I/O.  The gRPC
  and DDS adapters, authentication, the generated protobuf bindings, the server's composition, the
  client library and the command-line tools are transport or user interface.  Declaration, ownership,
  object management, the management object model, federation lifecycle and the orchestration of
  saves are service groups of their own; what they do to the modelled managers is represented by
  those managers' operations (resignation, destruction, ownership changes, registration, admission
  of messages, export and import), over all orders in which they may be called.
\<close>

end
